(* ===== verification/Prelude.thy ===== *)
theory Prelude
  imports Main "HOL-Library.Word" "HOL-Library.List_Lexorder"
begin

text \<open>
  Shared vocabulary of the development: the result type in which every \<open>throw\<close> and early
  \<open>fail(...)\<close> of the source is a value, its sequencing combinator, the collections that the
  component theories fill, and the generic lemmas on lists and maps that more than one component
  needs.
\<close>

section \<open>Results: a value or the error that was thrown\<close>

datatype ('e, 'a) result = Err 'e | Ok 'a

text \<open>
  \<open>rbind r f\<close> runs \<open>f\<close> on the value of \<open>r\<close>; an error of \<open>r\<close> is the error of the whole
  computation, as an exception that nobody catches.
\<close>

fun rbind :: "('e, 'a) result \<Rightarrow> ('a \<Rightarrow> ('e, 'b) result) \<Rightarrow> ('e, 'b) result" where
  "rbind (Err e) f = Err e"
| "rbind (Ok x) f = f x"

definition rcheck :: "bool \<Rightarrow> 'e \<Rightarrow> ('e, unit) result" where
  "rcheck b e = (if b then Ok () else Err e)"

fun is_ok :: "('e, 'a) result \<Rightarrow> bool" where
  "is_ok (Ok _) = True"
| "is_ok (Err _) = False"

fun rmap :: "('a \<Rightarrow> 'b) \<Rightarrow> ('e, 'a) result \<Rightarrow> ('e, 'b) result" where
  "rmap f (Err e) = Err e"
| "rmap f (Ok x) = Ok (f x)"

text \<open>\<open>try { ... } catch\<close>: the handler sees the error.\<close>

fun rcatch :: "('e, 'a) result \<Rightarrow> ('e \<Rightarrow> ('f, 'a) result) \<Rightarrow> ('f, 'a) result" where
  "rcatch (Err e) h = h e"
| "rcatch (Ok x) h = Ok x"

text \<open>A loop that stops at the first error: \<open>values.map(f)\<close> where \<open>f\<close> may throw.\<close>

fun mapR :: "('a \<Rightarrow> ('e, 'b) result) \<Rightarrow> 'a list \<Rightarrow> ('e, 'b list) result" where
  "mapR f [] = Ok []"
| "mapR f (x # xs) = rbind (f x) (\<lambda>y. rbind (mapR f xs) (\<lambda>ys. Ok (y # ys)))"

text \<open>The same for a loop that only checks, \<open>values.forEach(check)\<close>.\<close>

fun forR :: "('a \<Rightarrow> ('e, unit) result) \<Rightarrow> 'a list \<Rightarrow> ('e, unit) result" where
  "forR f [] = Ok ()"
| "forR f (x # xs) = rbind (f x) (\<lambda>_. forR f xs)"

text \<open>And for a loop that threads a state.\<close>

fun foldR :: "('a \<Rightarrow> 's \<Rightarrow> ('e, 's) result) \<Rightarrow> 'a list \<Rightarrow> 's \<Rightarrow> ('e, 's) result" where
  "foldR f [] s = Ok s"
| "foldR f (x # xs) s = rbind (f x s) (\<lambda>s'. foldR f xs s')"

named_theorems wf_intro \<open>introduction rules of the well-formedness predicates\<close>
named_theorems inv_simps \<open>how an accessor of the ledger state sees one write\<close>

section \<open>Inversion and congruence of results\<close>

lemma rbind_Ok_iff [simp]: "rbind r f = Ok y \<longleftrightarrow> (\<exists>x. r = Ok x \<and> f x = Ok y)"
  by (cases r) auto

lemma rbind_Err_iff: "rbind r f = Err e \<longleftrightarrow> r = Err e \<or> (\<exists>x. r = Ok x \<and> f x = Err e)"
  by (cases r) auto

lemma rcheck_Ok [simp]: "rcheck b e = Ok u \<longleftrightarrow> b"
  by (simp add: rcheck_def)

lemma rcheck_True [simp]: "rcheck True e = Ok ()"
  by (simp add: rcheck_def)

lemma rmap_Ok_iff [simp]: "rmap f r = Ok y \<longleftrightarrow> (\<exists>x. r = Ok x \<and> y = f x)"
  by (cases r) auto

lemma is_ok_iff: "is_ok r \<longleftrightarrow> (\<exists>x. r = Ok x)"
  by (cases r) auto

lemma rcatch_Ok_iff: "rcatch r h = Ok y \<longleftrightarrow> r = Ok y \<or> (\<exists>e. r = Err e \<and> h e = Ok y)"
  by (cases r) auto

lemma rbind_cong [fundef_cong]:
  "r = r' \<Longrightarrow> (\<And>x. r' = Ok x \<Longrightarrow> f x = g x) \<Longrightarrow> rbind r f = rbind r' g"
  by (cases r') auto

lemma mapR_cong [fundef_cong]:
  "xs = ys \<Longrightarrow> (\<And>x. x \<in> set ys \<Longrightarrow> f x = g x) \<Longrightarrow> mapR f xs = mapR g ys"
proof (induction ys arbitrary: xs)
  case (Cons y ys)
  then show ?case by (auto intro: rbind_cong)
qed simp

lemma forR_cong [fundef_cong]:
  "xs = ys \<Longrightarrow> (\<And>x. x \<in> set ys \<Longrightarrow> f x = g x) \<Longrightarrow> forR f xs = forR g ys"
proof (induction ys arbitrary: xs)
  case (Cons y ys)
  then show ?case by (auto intro: rbind_cong)
qed simp

lemma mapR_Ok_iff: "mapR f xs = Ok ys \<longleftrightarrow> list_all2 (\<lambda>x y. f x = Ok y) xs ys"
proof (induction xs arbitrary: ys)
  case (Cons x xs)
  then show ?case by (cases ys) auto
qed auto

lemma mapR_length: "mapR f xs = Ok ys \<Longrightarrow> length ys = length xs"
  by (simp add: mapR_Ok_iff list_all2_lengthD)

lemma mapR_map_Ok: "(\<And>x. x \<in> set xs \<Longrightarrow> f (g x) = Ok x) \<Longrightarrow> mapR f (map g xs) = Ok xs"
  by (induction xs) auto

lemma mapR_Ok_all: "(\<And>x. x \<in> set xs \<Longrightarrow> f x = Ok (g x)) \<Longrightarrow> mapR f xs = Ok (map g xs)"
  by (induction xs) auto

lemma mapR_map: "mapR f (map g xs) = mapR (f \<circ> g) xs"
  by (induction xs) auto

lemma mapR_Ok_memberD: "mapR f xs = Ok ys \<Longrightarrow> y \<in> set ys \<Longrightarrow> \<exists>x \<in> set xs. f x = Ok y"
proof (induction xs arbitrary: ys)
  case (Cons x xs)
  then show ?case by fastforce
qed simp

lemma mapR_list_all: "mapR f vs = Ok xs \<Longrightarrow> (\<And>v x. f v = Ok x \<Longrightarrow> P x) \<Longrightarrow> list_all P xs"
  by (auto simp: list_all_iff dest: mapR_Ok_memberD)

text \<open>A loop whose body reads back an encoding reads back the encoded list.\<close>

lemma mapR_Ok_enc:
  assumes "\<And>v x. f v = Ok x \<longleftrightarrow> v = g x \<and> P x"
  shows "mapR f vs = Ok xs \<longleftrightarrow> vs = map g xs \<and> list_all P xs"
proof (induction vs arbitrary: xs)
  case (Cons v vs)
  then show ?case by (cases xs) (auto simp: assms)
qed auto

lemma forR_Ok_iff [simp]: "forR f xs = Ok u \<longleftrightarrow> (\<forall>x \<in> set xs. f x = Ok ())"
  by (induction xs) auto

lemma foldR_append: "foldR f (xs @ ys) s = rbind (foldR f xs s) (foldR f ys)"
proof (induction xs arbitrary: s)
  case (Cons x xs)
  then show ?case by (cases "f x s") auto
qed simp

text \<open>An invariant of the threaded state is an invariant of the loop.\<close>

lemma foldR_invariant:
  assumes "\<And>x s s'. x \<in> set xs \<Longrightarrow> P s \<Longrightarrow> f x s = Ok s' \<Longrightarrow> P s'"
    and "P s" and "foldR f xs s = Ok s'"
  shows "P s'"
  using assms
proof (induction xs arbitrary: s)
  case (Cons x xs)
  from Cons.prems(3) obtain t where t: "f x s = Ok t" and rest: "foldR f xs t = Ok s'"
    by auto
  have "P t" using Cons.prems(1) [of x s t] Cons.prems(2) t by simp
  show ?case
    by (rule Cons.IH [OF _ \<open>P t\<close> rest]) (auto intro: Cons.prems(1))
qed simp

text \<open>A loop that appends one item per round.\<close>

lemma foldR_length:
  assumes "\<And>x s s'. f x s = Ok s' \<Longrightarrow> length s' = Suc (length s)"
  shows "foldR f xs s = Ok s' \<Longrightarrow> length s' = length s + length xs"
  by (induction xs arbitrary: s) (auto dest!: assms)

section \<open>Lists and maps\<close>

lemma find_Some_mem: "find P xs = Some x \<Longrightarrow> x \<in> set xs \<and> P x"
  by (induction xs) (auto split: if_splits)

lemma map_of_map_fst_inj:
  "inj f \<Longrightarrow> map_of (map (\<lambda>(k, v). (f k, v)) xs) (f k) = map_of xs k"
  by (induction xs) (auto dest: injD)

end
