(* ===== verification/JsText.thy ===== *)
theory JsText
  imports Prelude
begin

text \<open>
  JavaScript strings and the string functions of the language that the program relies on. A string
  is a list of 16-bit code units. Modelled here: iteration by code points (\<open>Array.from(s)\<close>), the
  surrogate check \<open>assertValidUnicode\<close>, UTF-8 encoding, \<open>encodeURIComponent\<close>, decimal printing of
  numbers, \<open>join\<close> and \<open>split\<close> on one separator, and the regular expressions of
  \<open>packages/domain/index.ts\<close> as executable predicates. The lemmas show that every one of these
  printers is injective, which is what makes the ledger's composite keys unambiguous.
\<close>

section \<open>Strings as code units\<close>

type_synonym cunit = "16 word"
type_synonym jstr = "cunit list"

definition cu :: "char \<Rightarrow> cunit" where
  "cu c = of_nat (of_char c)"

definition js :: "string \<Rightarrow> jstr" where
  "js s = map cu s"

lemma unat_cunit_of_nat: "a < 0x10000 \<Longrightarrow> unat (of_nat a :: cunit) = a"
  by (simp add: unat_of_nat)

lemma cunit_of_nat_eq_iff: "a < 0x10000 \<Longrightarrow> b < 0x10000 \<Longrightarrow> (of_nat a :: cunit) = of_nat b \<longleftrightarrow> a = b"
  by (metis unat_cunit_of_nat)

lemma unat_cu: "unat (cu c) = of_char c"
proof -
  have "(of_char c :: nat) < 0x10000" using nat_of_char_less_256 [of c] by linarith
  then show ?thesis unfolding cu_def by (rule unat_cunit_of_nat)
qed

lemma cu_eq_iff [simp]: "cu c = cu d \<longleftrightarrow> c = d"
  using unat_cu [of c] unat_cu [of d] of_char_eq_iff by metis

lemma inj_cu: "inj cu"
  by (rule injI) simp

lemma inj_js: "inj js"
  unfolding js_def using inj_cu by (rule inj_mapI)

lemma js_eq_iff [simp]: "js a = js b \<longleftrightarrow> a = b"
  using inj_js by (auto dest: injD)

lemma js_Nil [simp]: "js [] = []"
  by (simp add: js_def)

lemma js_append: "js (a @ b) = js a @ js b"
  by (simp add: js_def)

section \<open>Code points and surrogates\<close>

definition is_high :: "cunit \<Rightarrow> bool" where
  "is_high u \<longleftrightarrow> 0xD800 \<le> unat u \<and> unat u \<le> 0xDBFF"

definition is_low :: "cunit \<Rightarrow> bool" where
  "is_low u \<longleftrightarrow> 0xDC00 \<le> unat u \<and> unat u \<le> 0xDFFF"

text \<open>
  The loop of \<open>assertValidUnicode\<close>: a high surrogate must be followed by a low one (the loop then
  skips both), a low surrogate that was not skipped is unpaired.
\<close>

fun valid_unicode :: "jstr \<Rightarrow> bool" where
  "valid_unicode [] = True"
| "valid_unicode [u] = (\<not> is_high u \<and> \<not> is_low u)"
| "valid_unicode (u # v # s) =
     (if is_high u then is_low v \<and> valid_unicode s
      else if is_low u then False
      else valid_unicode (v # s))"

text \<open>\<open>Array.from(s)\<close>: the string iterator pairs surrogates and passes lone ones through.\<close>

fun code_points :: "jstr \<Rightarrow> nat list" where
  "code_points [] = []"
| "code_points [u] = [unat u]"
| "code_points (u # v # s) =
     (if is_high u \<and> is_low v
      then (0x10000 + (unat u - 0xD800) * 0x400 + (unat v - 0xDC00)) # code_points s
      else unat u # code_points (v # s))"

definition cp_units :: "nat \<Rightarrow> jstr" where
  "cp_units c = (if c < 0x10000 then [of_nat c]
     else [of_nat (0xD800 + (c - 0x10000) div 0x400), of_nat (0xDC00 + (c - 0x10000) mod 0x400)])"

lemma unat_cunit_less: "unat (u :: cunit) < 0x10000"
  using unsigned_less [of u] by simp

lemma of_nat_unat_cunit [simp]: "of_nat (unat (u :: cunit)) = u"
  by simp

lemma code_points_bound: "\<forall>c \<in> set (code_points s). c < 0x110000"
proof (induction s rule: code_points.induct)
  case (2 u)
  then show ?case using unat_cunit_less [of u] by simp
next
  case (3 u v s)
  then show ?case using unat_cunit_less [of u]
    by (auto simp: is_high_def is_low_def)
qed simp

lemma cp_units_pair:
  assumes "is_high u" and "is_low v"
  shows "cp_units (0x10000 + (unat u - 0xD800) * 0x400 + (unat v - 0xDC00)) = [u, v]"
proof -
  let ?h = "unat u - 0xD800" and ?l = "unat v - 0xDC00"
  have l: "?l < 0x400" using assms(2) by (auto simp: is_low_def)
  have d: "(?h * 0x400 + ?l) div 0x400 = ?h" and m: "(?h * 0x400 + ?l) mod 0x400 = ?l"
    using l by simp_all
  have s: "0x10000 + ?h * 0x400 + ?l - 0x10000 = ?h * 0x400 + ?l" by simp
  have n: "\<not> 0x10000 + ?h * 0x400 + ?l < (0x10000 :: nat)" by simp
  have hi: "0xD800 + ?h = unat u" and lo: "0xDC00 + ?l = unat v"
    using assms by (auto simp: is_high_def is_low_def)
  show ?thesis
    unfolding cp_units_def if_not_P [OF n] s d m hi lo by simp
qed

lemma code_points_left_inverse: "concat (map cp_units (code_points s)) = s"
proof (induction s rule: code_points.induct)
  case (2 u)
  then show ?case using unat_cunit_less [of u] by (simp add: cp_units_def)
next
  case (3 u v s)
  show ?case
  proof (cases "is_high u \<and> is_low v")
    case True
    then show ?thesis using 3 cp_units_pair [of u v] by simp
  next
    case False
    then show ?thesis using 3 unat_cunit_less [of u] by (auto simp: cp_units_def)
  qed
qed simp

lemma code_points_eq_iff [simp]: "code_points s = code_points t \<longleftrightarrow> s = t"
  using code_points_left_inverse by metis

section \<open>UTF-8\<close>

text \<open>
  The UTF-8 bytes of one code point, as \<open>Buffer.from(s, "utf8")\<close> and \<open>encodeURIComponent\<close> produce
  them. On a lone surrogate the runtime substitutes another three-byte sequence or throws; every
  use in the program is behind a surrogate check, and the length is three either way.
\<close>

definition utf8_cp :: "nat \<Rightarrow> nat list" where
  "utf8_cp c =
     (if c < 0x80 then [c]
      else if c < 0x800 then [0xC0 + c div 64, 0x80 + c mod 64]
      else if c < 0x10000 then [0xE0 + c div 4096, 0x80 + (c div 64) mod 64, 0x80 + c mod 64]
      else [0xF0 + c div 262144, 0x80 + (c div 4096) mod 64, 0x80 + (c div 64) mod 64, 0x80 + c mod 64])"

definition utf8 :: "jstr \<Rightarrow> nat list" where
  "utf8 s = concat (map utf8_cp (code_points s))"

text \<open>\<open>Buffer.byteLength(s, "utf8")\<close>.\<close>

definition byte_length :: "jstr \<Rightarrow> nat" where
  "byte_length s = length (utf8 s)"

lemma utf8_cp_bytes: "c < 0x110000 \<Longrightarrow> b \<in> set (utf8_cp c) \<Longrightarrow> b < 256"
  by (auto simp: utf8_cp_def split: if_splits)

lemma utf8_bytes: "b \<in> set (utf8 s) \<Longrightarrow> b < 256"
  using code_points_bound [of s] by (auto simp: utf8_def intro: utf8_cp_bytes)

lemma split64: "(a :: nat) div 64 = b div 64 \<Longrightarrow> a mod 64 = b mod 64 \<Longrightarrow> a = b"
  by (metis div_mult_mod_eq)

lemma split4096:
  assumes "(a :: nat) div 4096 = b div 4096" "(a div 64) mod 64 = (b div 64) mod 64" "a mod 64 = b mod 64"
  shows "a = b"
proof (rule split64)
  have "a div 64 div 64 = b div 64 div 64" using assms(1) by (simp add: div_mult2_eq [symmetric])
  then show "a div 64 = b div 64" using assms(2) by (rule split64)
qed (rule assms(3))

lemma split262144:
  assumes "(a :: nat) div 262144 = b div 262144" "(a div 4096) mod 64 = (b div 4096) mod 64"
    "(a div 64) mod 64 = (b div 64) mod 64" "a mod 64 = b mod 64"
  shows "a = b"
proof (rule split4096)
  have "a div 4096 div 64 = b div 4096 div 64" using assms(1) by (simp add: div_mult2_eq [symmetric])
  then show "a div 4096 = b div 4096" using assms(2) by (rule split64)
qed (rule assms(3), rule assms(4))

text \<open>
  The first byte of a sequence decides its length, so a sequence can be read off the front of any
  byte string: UTF-8 is a prefix code.
\<close>

lemma utf8_cp_prefix_free:
  assumes "a < 0x110000" and "b < 0x110000" and "utf8_cp a @ x = utf8_cp b @ y"
  shows "a = b \<and> x = y"
proof -
  have bound: "c div 64 < 32" if "c < 0x800" for c :: nat using that by (simp add: div_less_iff_less_mult)
  have bound3: "c div 4096 < 16" if "c < 0x10000" for c :: nat using that by (simp add: div_less_iff_less_mult)
  consider (one) "a < 0x80" | (two) "0x80 \<le> a" "a < 0x800" | (three) "0x800 \<le> a" "a < 0x10000"
    | (four) "0x10000 \<le> a" by linarith
  then show ?thesis
  proof cases
    case one
    then show ?thesis using assms(3) by (auto simp: utf8_cp_def split: if_splits)
  next
    case two
    then show ?thesis using assms(3) bound [of a]
      by (auto simp: utf8_cp_def split: if_splits intro: split64)
  next
    case three
    then show ?thesis using assms(3) bound [of b] bound3 [of a]
      by (auto simp: utf8_cp_def split: if_splits intro: split4096)
  next
    case four
    then show ?thesis using assms(3) bound [of b] bound3 [of b]
      by (auto simp: utf8_cp_def split: if_splits intro: split262144)
  qed
qed

text \<open>A list of prefix-free, non-empty code words determines its concatenation's parts.\<close>

lemma concat_prefix_free:
  assumes pf: "\<And>a b x y. P a \<Longrightarrow> P b \<Longrightarrow> f a @ x = f b @ y \<Longrightarrow> a = b \<and> x = y"
    and ne: "\<And>a. P a \<Longrightarrow> f a \<noteq> []"
    and "\<forall>a \<in> set xs. P a" and "\<forall>b \<in> set ys. P b"
    and "concat (map f xs) = concat (map f ys)"
  shows "xs = ys"
  using assms(3-5)
proof (induction xs arbitrary: ys)
  case Nil
  then show ?case using ne by (cases ys) auto
next
  case (Cons a xs)
  show ?case
  proof (cases ys)
    case Nil
    then show ?thesis using Cons.prems ne [of a] by auto
  next
    case (Cons b zs)
    then show ?thesis
      using pf [of a b "concat (map f xs)" "concat (map f zs)"] Cons.IH [of zs] Cons.prems by auto
  qed
qed

lemma utf8_cp_nonempty: "utf8_cp c \<noteq> []"
  by (simp add: utf8_cp_def)

lemma utf8_eq_iff [simp]: "utf8 s = utf8 t \<longleftrightarrow> s = t"
proof
  assume "utf8 s = utf8 t"
  then have "code_points s = code_points t"
    unfolding utf8_def
    using concat_prefix_free [of "\<lambda>c. c < 0x110000" utf8_cp "code_points s" "code_points t"]
      utf8_cp_prefix_free utf8_cp_nonempty code_points_bound by blast
  then show "s = t" by simp
qed simp

section \<open>encodeURIComponent\<close>

definition is_upper :: "nat \<Rightarrow> bool" where "is_upper n \<longleftrightarrow> 65 \<le> n \<and> n \<le> 90"
definition is_lower :: "nat \<Rightarrow> bool" where "is_lower n \<longleftrightarrow> 97 \<le> n \<and> n \<le> 122"
definition is_digit :: "nat \<Rightarrow> bool" where "is_digit n \<longleftrightarrow> 48 \<le> n \<and> n \<le> 57"

text \<open>The characters that \<open>encodeURIComponent\<close> leaves alone: alphanumerics and \<open>- _ . ! ~ * ' ( )\<close>.\<close>

definition uri_unreserved :: "nat \<Rightarrow> bool" where
  "uri_unreserved n \<longleftrightarrow> is_upper n \<or> is_lower n \<or> is_digit n \<or> n \<in> {45, 95, 46, 33, 126, 42, 39, 40, 41}"

definition hex_upper :: "nat \<Rightarrow> cunit" where
  "hex_upper d = of_nat (if d < 10 then 48 + d else 55 + d)"

definition pct_byte :: "nat \<Rightarrow> jstr" where
  "pct_byte b = [37, hex_upper (b div 16), hex_upper (b mod 16)]"

definition pct_cp :: "nat \<Rightarrow> jstr" where
  "pct_cp c = (if uri_unreserved c then [of_nat c] else concat (map pct_byte (utf8_cp c)))"

definition percent :: "jstr \<Rightarrow> jstr" where
  "percent s = concat (map pct_cp (code_points s))"

text \<open>
  The call itself throws a \<open>URIError\<close> on a lone surrogate; \<open>encode_uri\<close> is the throwing function
  and \<open>percent\<close> its value where it returns.
\<close>

definition encode_uri :: "jstr \<Rightarrow> jstr option" where
  "encode_uri s = (if valid_unicode s then Some (percent s) else None)"

lemma unat_hex_upper: "d < 16 \<Longrightarrow> unat (hex_upper d) = (if d < 10 then 48 + d else 55 + d)"
  by (auto simp: hex_upper_def unat_of_nat)

lemma hex_upper_eq_iff:
  assumes "d < 16" and "e < 16"
  shows "hex_upper d = hex_upper e \<longleftrightarrow> d = e"
proof
  assume "hex_upper d = hex_upper e"
  then have "(if d < 10 then 48 + d else 55 + d) = (if e < 10 then 48 + e else 55 + e)"
    using unat_hex_upper [OF assms(1)] unat_hex_upper [OF assms(2)] by metis
  then show "d = e" by (simp split: if_splits)
qed simp

lemma pct_byte_prefix_free:
  assumes "a < 256" and "b < 256" and "pct_byte a @ x = pct_byte b @ y"
  shows "a = b \<and> x = y"
proof -
  have "hex_upper (a div 16) = hex_upper (b div 16)" and "hex_upper (a mod 16) = hex_upper (b mod 16)"
    and xy: "x = y" using assms(3) by (auto simp: pct_byte_def)
  then have "a div 16 = b div 16" and "a mod 16 = b mod 16"
    using assms(1,2) by (simp_all add: hex_upper_eq_iff)
  then have "a = b" by (metis div_mult_mod_eq)
  with xy show ?thesis by simp
qed

lemma pct_bytes_split:
  assumes "length as = length bs" and "\<forall>a \<in> set as. a < 256" and "\<forall>b \<in> set bs. b < 256"
    and "concat (map pct_byte as) @ x = concat (map pct_byte bs) @ y"
  shows "as = bs \<and> x = y"
  using assms
proof (induction as bs rule: list_induct2)
  case (Cons a as b bs)
  have e: "pct_byte a @ (concat (map pct_byte as) @ x) = pct_byte b @ (concat (map pct_byte bs) @ y)"
    using Cons.prems(3) by simp
  from pct_byte_prefix_free [OF _ _ e] Cons.prems(1,2)
  have "a = b" and "concat (map pct_byte as) @ x = concat (map pct_byte bs) @ y" by auto
  then show ?case using Cons.IH Cons.prems(1,2) by simp
qed simp

lemma utf8_cp_hd: "utf8_cp c = hd (utf8_cp c) # tl (utf8_cp c)"
  by (simp add: utf8_cp_def)

text \<open>The first byte announces how many bytes the sequence has.\<close>

definition utf8_len :: "nat \<Rightarrow> nat" where
  "utf8_len h = (if h < 0x80 then 1 else if h < 0xE0 then 2 else if h < 0xF0 then 3 else 4)"

lemma utf8_cp_length: "length (utf8_cp c) = utf8_len (hd (utf8_cp c))"
proof -
  have two: "c div 64 < 32" if "c < 0x800" using that by (simp add: div_less_iff_less_mult)
  have three: "c div 4096 < 16" if "c < 0x10000" using that by (simp add: div_less_iff_less_mult)
  show ?thesis using two three by (auto simp: utf8_cp_def utf8_len_def)
qed

lemma pct_cp_prefix_free:
  assumes "a < 0x110000" and "b < 0x110000" and eq: "pct_cp a @ x = pct_cp b @ y"
  shows "a = b \<and> x = y"
proof -
  have pct: "concat (map pct_byte (utf8_cp c)) = 37 # hex_upper (hd (utf8_cp c) div 16) #
      hex_upper (hd (utf8_cp c) mod 16) # concat (map pct_byte (tl (utf8_cp c)))" for c
    by (subst utf8_cp_hd) (simp add: pct_byte_def)
  have small: "c < 128 \<and> c \<noteq> 37" if "uri_unreserved c" for c
    using that by (auto simp: uri_unreserved_def is_upper_def is_lower_def is_digit_def)
  have word: "(of_nat c :: cunit) \<noteq> 37" if "uri_unreserved c" for c
    using small [OF that] cunit_of_nat_eq_iff [of c 37] by simp
  consider (plain) "uri_unreserved a" "uri_unreserved b" | (left) "uri_unreserved a" "\<not> uri_unreserved b"
    | (right) "\<not> uri_unreserved a" "uri_unreserved b" | (pct) "\<not> uri_unreserved a" "\<not> uri_unreserved b"
    by blast
  then show ?thesis
  proof cases
    case plain
    then have "unat (of_nat a :: cunit) = unat (of_nat b :: cunit)" and "x = y"
      using eq by (auto simp: pct_cp_def)
    then show ?thesis using small [OF plain(1)] small [OF plain(2)] by (simp add: unat_of_nat)
  next
    case left
    then show ?thesis using eq word [of a] by (auto simp: pct_cp_def pct)
  next
    case right
    then show ?thesis using eq word [of b] by (auto simp: pct_cp_def pct)
  next
    case pct
    have bytes: "\<forall>d \<in> set (utf8_cp a). d < 256" "\<forall>d \<in> set (utf8_cp b). d < 256"
      using assms(1,2) by (auto intro: utf8_cp_bytes)
    have e: "concat (map pct_byte (utf8_cp a)) @ x = concat (map pct_byte (utf8_cp b)) @ y"
      using eq pct by (simp add: pct_cp_def)
    have he: "pct_byte (hd (utf8_cp a)) @ (concat (map pct_byte (tl (utf8_cp a))) @ x)
        = pct_byte (hd (utf8_cp b)) @ (concat (map pct_byte (tl (utf8_cp b))) @ y)"
      using e by (subst (asm) utf8_cp_hd [of a], subst (asm) utf8_cp_hd [of b]) simp
    have "hd (utf8_cp a) = hd (utf8_cp b)"
      using pct_byte_prefix_free [OF _ _ he] bytes utf8_cp_nonempty by (metis hd_in_set)
    then have "length (utf8_cp a) = length (utf8_cp b)" by (simp add: utf8_cp_length)
    from pct_bytes_split [OF this bytes e] have "utf8_cp a = utf8_cp b" and "x = y" by simp_all
    then show ?thesis using utf8_cp_prefix_free [OF assms(1,2), of "[]" "[]"] by simp
  qed
qed

lemma pct_cp_nonempty: "pct_cp c \<noteq> []"
  using utf8_cp_nonempty [of c] by (cases "utf8_cp c") (auto simp: pct_cp_def pct_byte_def)

lemma percent_eq_iff [simp]: "percent s = percent t \<longleftrightarrow> s = t"
proof
  assume "percent s = percent t"
  then have "code_points s = code_points t"
    unfolding percent_def
    using concat_prefix_free [of "\<lambda>c. c < 0x110000" pct_cp "code_points s" "code_points t"]
      pct_cp_prefix_free pct_cp_nonempty code_points_bound by blast
  then show "s = t" by simp
qed simp

text \<open>An encoded component is made of unreserved characters, percent signs and hexadecimal digits.\<close>

lemma pct_cp_units:
  assumes "c < 0x110000" and "u \<in> set (pct_cp c)"
  shows "uri_unreserved (unat u) \<or> unat u = 37"
proof -
  have hex: "uri_unreserved (unat (hex_upper d))" if "d < 16" for d
    using that by (auto simp: unat_hex_upper uri_unreserved_def is_digit_def is_upper_def)
  show ?thesis
  proof (cases "uri_unreserved c")
    case True
    then have "c < 128" by (auto simp: uri_unreserved_def is_upper_def is_lower_def is_digit_def)
    then show ?thesis using True assms(2) by (simp add: pct_cp_def unat_of_nat)
  next
    case False
    then obtain b where b: "b \<in> set (utf8_cp c)" "u \<in> set (pct_byte b)"
      using assms(2) by (auto simp: pct_cp_def)
    have "b < 256" using assms(1) b(1) by (rule utf8_cp_bytes)
    then have "b div 16 < 16" "b mod 16 < 16" by auto
    then show ?thesis using b(2) hex by (auto simp: pct_byte_def)
  qed
qed

lemma percent_units: "u \<in> set (percent s) \<Longrightarrow> uri_unreserved (unat u) \<or> unat u = 37"
  using code_points_bound [of s] by (auto simp: percent_def dest: pct_cp_units)

section \<open>Decimal printing of integers\<close>

text \<open>\<open>String(n)\<close> and the JSON form of an integer that is exactly representable.\<close>

fun nat_digits :: "nat \<Rightarrow> nat list" where
  "nat_digits n = (if n < 10 then [n] else nat_digits (n div 10) @ [n mod 10])"

declare nat_digits.simps [simp del]

definition digit_unit :: "nat \<Rightarrow> cunit" where
  "digit_unit d = of_nat (48 + d)"

definition dec_nat :: "nat \<Rightarrow> jstr" where
  "dec_nat n = map digit_unit (nat_digits n)"

definition dec_int :: "int \<Rightarrow> jstr" where
  "dec_int i = (if i < 0 then 45 # dec_nat (nat (- i)) else dec_nat (nat i))"

lemma nat_digits_bound: "d \<in> set (nat_digits n) \<Longrightarrow> d < 10"
proof (induction n rule: nat_digits.induct)
  case (1 n)
  then show ?case by (cases "n < 10") (auto simp: nat_digits.simps [of n])
qed

lemma nat_digits_value: "foldl (\<lambda>a d. 10 * a + d) 0 (nat_digits n) = n"
proof (induction n rule: nat_digits.induct)
  case (1 n)
  then show ?case by (cases "n < 10") (auto simp: nat_digits.simps [of n])
qed

lemma nat_digits_nonempty: "nat_digits n \<noteq> []"
  by (subst nat_digits.simps) simp

lemma unat_digit_unit: "d < 10 \<Longrightarrow> unat (digit_unit d) = 48 + d"
  unfolding digit_unit_def by (rule unat_cunit_of_nat) simp

lemma dec_nat_units: "u \<in> set (dec_nat n) \<Longrightarrow> is_digit (unat u)"
  by (auto simp: dec_nat_def is_digit_def unat_digit_unit dest!: nat_digits_bound)

lemma dec_nat_eq_iff [simp]: "dec_nat m = dec_nat n \<longleftrightarrow> m = n"
proof
  let ?val = "\<lambda>u :: cunit. unat u - 48"
  have val: "map ?val (dec_nat k) = nat_digits k" for k
    using nat_digits_bound [of _ k] by (auto simp: dec_nat_def unat_digit_unit intro!: map_idI)
  assume "dec_nat m = dec_nat n"
  then have "nat_digits m = nat_digits n" using val by metis
  then show "m = n" using nat_digits_value by metis
qed simp

lemma dec_int_units: "u \<in> set (dec_int i) \<Longrightarrow> is_digit (unat u) \<or> unat u = 45"
  by (auto simp: dec_int_def dest: dec_nat_units split: if_splits)

lemma dec_int_eq_iff [simp]: "dec_int i = dec_int j \<longleftrightarrow> i = j"
proof -
  have neg: "dec_nat m \<noteq> 45 # t" for m t
  proof
    assume "dec_nat m = 45 # t"
    then have "(45 :: cunit) \<in> set (dec_nat m)" by simp
    then have "is_digit (unat (45 :: cunit))" by (rule dec_nat_units)
    then show False by (simp add: is_digit_def)
  qed
  show ?thesis using neg [symmetric] neg by (auto simp: dec_int_def)
qed

section \<open>join and split on one separator\<close>

fun join_on :: "cunit \<Rightarrow> jstr list \<Rightarrow> jstr" where
  "join_on c [] = []"
| "join_on c [p] = p"
| "join_on c (p # ps) = p @ c # join_on c ps"

fun split_on :: "cunit \<Rightarrow> jstr \<Rightarrow> jstr list" where
  "split_on c [] = [[]]"
| "split_on c (u # s) =
     (if u = c then [] # split_on c s
      else (case split_on c s of [] \<Rightarrow> [[u]] | p # ps \<Rightarrow> (u # p) # ps))"

lemma split_on_nonempty [simp]: "split_on c s \<noteq> []"
  by (induction s) (auto split: list.splits)

lemma split_on_append:
  "c \<notin> set p \<Longrightarrow> split_on c (p @ s) = (p @ hd (split_on c s)) # tl (split_on c s)"
  by (induction p) (auto split: list.splits)

lemma split_on_plain: "c \<notin> set p \<Longrightarrow> split_on c p = [p]"
  using split_on_append [of c p "[]"] by simp

lemma split_join: "ps \<noteq> [] \<Longrightarrow> \<forall>p \<in> set ps. c \<notin> set p \<Longrightarrow> split_on c (join_on c ps) = ps"
proof (induction c ps rule: join_on.induct)
  case (3 c p q ps)
  then show ?case by (simp add: split_on_append)
qed (auto simp: split_on_plain)

lemma join_on_eq_iff:
  assumes "ps \<noteq> []" and "qs \<noteq> []" and "\<forall>p \<in> set ps. c \<notin> set p" and "\<forall>q \<in> set qs. c \<notin> set q"
  shows "join_on c ps = join_on c qs \<longleftrightarrow> ps = qs"
  using split_join [OF assms(1,3)] split_join [OF assms(2,4)] by metis

lemma join_split: "join_on c (split_on c s) = s"
proof (induction s)
  case (Cons u s)
  then show ?case
    by (cases "split_on c s"; cases "tl (split_on c s)") (auto split: list.splits)
qed simp

section \<open>The regular expressions of the domain\<close>

text \<open>\<open>[A-Za-z0-9._:-]\<close>\<close>
definition id_char :: "cunit \<Rightarrow> bool" where
  "id_char u \<longleftrightarrow> (let n = unat u in
     is_upper n \<or> is_lower n \<or> is_digit n \<or> n = 46 \<or> n = 95 \<or> n = 58 \<or> n = 45)"

definition alpha_char :: "cunit \<Rightarrow> bool" where
  "alpha_char u \<longleftrightarrow> is_upper (unat u) \<or> is_lower (unat u)"

definition lower_char :: "cunit \<Rightarrow> bool" where "lower_char u \<longleftrightarrow> is_lower (unat u)"
definition digit_char :: "cunit \<Rightarrow> bool" where "digit_char u \<longleftrightarrow> is_digit (unat u)"

definition hex_lower_char :: "cunit \<Rightarrow> bool" where
  "hex_lower_char u \<longleftrightarrow> is_digit (unat u) \<or> (97 \<le> unat u \<and> unat u \<le> 102)"

text \<open>\<open>ID_RE = /^[A-Za-z][A-Za-z0-9._:-]{2,63}$/u\<close>\<close>
fun is_id :: "jstr \<Rightarrow> bool" where
  "is_id [] = False"
| "is_id (u # s) = (alpha_char u \<and> 2 \<le> length s \<and> length s \<le> 63 \<and> list_all id_char s)"

text \<open>\<open>DIGEST_RE = /^sha256:[0-9a-f]{64}$/u\<close>\<close>
definition is_digest :: "jstr \<Rightarrow> bool" where
  "is_digest s \<longleftrightarrow> take 7 s = js ''sha256:'' \<and> length s = 71 \<and> list_all hex_lower_char (drop 7 s)"

text \<open>\<open>[a-z0-9-]\<close>\<close>
definition scope_char :: "cunit \<Rightarrow> bool" where
  "scope_char u \<longleftrightarrow> lower_char u \<or> digit_char u \<or> unat u = 45"

text \<open>
  \<open>USAGE_SCOPE_RE = /^[a-z][a-z0-9-]{1,40}\/v[1-9][0-9]*$/u\<close>: the class before the slash does not
  contain the slash, so the match splits at the first one.
\<close>
definition is_usage_scope :: "jstr \<Rightarrow> bool" where
  "is_usage_scope s \<longleftrightarrow>
     (case (takeWhile (\<lambda>u. u \<noteq> 47) s, dropWhile (\<lambda>u. u \<noteq> 47) s) of
        (u # name, _ # v # d # ds) \<Rightarrow>
          lower_char u \<and> 1 \<le> length name \<and> length name \<le> 40 \<and> list_all scope_char name \<and>
          v = 118 \<and> 49 \<le> unat d \<and> unat d \<le> 57 \<and> list_all digit_char ds
      | _ \<Rightarrow> False)"

text \<open>\<open>RELATIONSHIP_RE = /^[a-z][a-z0-9_:-]{2,63}$/u\<close>\<close>
fun is_relationship :: "jstr \<Rightarrow> bool" where
  "is_relationship [] = False"
| "is_relationship (u # s) = (lower_char u \<and> 2 \<le> length s \<and> length s \<le> 63 \<and>
     list_all (\<lambda>u. lower_char u \<or> digit_char u \<or> unat u \<in> {95, 58, 45}) s)"

text \<open>The fence nonce, \<open>/^[A-Za-z0-9._:-]{16,128}$/u\<close>\<close>
definition is_nonce :: "jstr \<Rightarrow> bool" where
  "is_nonce s \<longleftrightarrow> 16 \<le> length s \<and> length s \<le> 128 \<and> list_all id_char s"

text \<open>Every accepted string is plain ASCII without the separator of slot keys.\<close>

definition token_char :: "cunit \<Rightarrow> bool" where
  "token_char u \<longleftrightarrow> 45 \<le> unat u \<and> unat u < 123 \<and> unat u \<noteq> 92"

lemmas char_defs = id_char_def alpha_char_def lower_char_def digit_char_def hex_lower_char_def
  scope_char_def is_upper_def is_lower_def is_digit_def token_char_def Let_def

lemma id_char_token: "id_char u \<Longrightarrow> token_char u"
  by (auto simp: char_defs)

lemma is_id_token: "is_id s \<Longrightarrow> list_all token_char s"
  by (cases s) (auto simp: char_defs list_all_iff)

lemma is_nonce_token: "is_nonce s \<Longrightarrow> list_all token_char s"
  by (auto simp: is_nonce_def list_all_iff dest: id_char_token)

lemma is_digest_token:
  assumes "is_digest s" shows "list_all token_char s"
proof -
  have "list_all token_char (js ''sha256:'')" by (simp add: js_def token_char_def unat_cu)
  moreover have "list_all token_char (drop 7 s)"
    using assms by (auto simp: is_digest_def list_all_iff char_defs)
  ultimately have "list_all token_char (take 7 s @ drop 7 s)"
    using assms by (simp add: is_digest_def)
  then show ?thesis by simp
qed

lemma is_usage_scope_token:
  assumes "is_usage_scope s" shows "list_all token_char s"
proof -
  let ?slash = "\<lambda>u :: cunit. u \<noteq> 47"
  obtain u name w v d ds where l: "takeWhile ?slash s = u # name" and r: "dropWhile ?slash s = w # v # d # ds"
    and c: "lower_char u" "list_all scope_char name" "v = 118" "49 \<le> unat d" "unat d \<le> 57" "list_all digit_char ds"
    using assms by (auto simp: is_usage_scope_def split: list.splits)
  have w: "w = 47" using hd_dropWhile [of ?slash s] r by simp
  have "list_all token_char (takeWhile ?slash s)" and "list_all token_char (dropWhile ?slash s)"
    unfolding l r w using c by (auto simp: list_all_iff char_defs)
  then show ?thesis by (metis list_all_append takeWhile_dropWhile_id)
qed

lemma low_valid_unicode: "\<forall>u \<in> set s. unat u < 0xD800 \<Longrightarrow> valid_unicode s"
  by (induction s rule: valid_unicode.induct) (auto simp: is_high_def is_low_def)

lemma token_valid_unicode: "list_all token_char s \<Longrightarrow> valid_unicode s"
  by (rule low_valid_unicode) (auto simp: list_all_iff token_char_def)

lemma token_no_bar: "list_all token_char s \<Longrightarrow> (124 :: cunit) \<notin> set s"
  by (auto simp: list_all_iff token_char_def)

lemmas token_valid [intro] =
  is_id_token [THEN token_valid_unicode] is_digest_token [THEN token_valid_unicode]
  is_usage_scope_token [THEN token_valid_unicode] is_nonce_token [THEN token_valid_unicode]

lemmas token_bar_free [simp] =
  is_id_token [THEN token_no_bar] is_usage_scope_token [THEN token_no_bar]

end
