(* ===== verification/Json.thy ===== *)
theory Json
  imports JsText
begin

text \<open>
  JSON values as the program sees them, the error class of the domain, and the canonical form of
  \<open>packages/domain/index.ts\<close>: \<open>canonicalize\<close>, \<open>cloneCanonical\<close>, \<open>sameJson\<close>. Properties are
  looked up by name, so the order in which an object lists them is visible only to \<open>Object.keys\<close>
  and to \<open>JSON.stringify\<close>. Values that cannot come out of \<open>JSON.parse\<close> (functions, symbols,
  bigints, accessors, cyclic and sparse objects) are outside the datatype; \<open>undefined\<close> is in it,
  because a missing property reads as \<open>undefined\<close>.
\<close>

section \<open>DomainError\<close>

datatype ecode = INVALID_INPUT | CANONICALIZATION_LIMIT | DIGEST_MISMATCH | STALE_CONFIGURATION
  | NOT_BOOTSTRAPPED | FORBIDDEN | CORRUPT_STATE | DEPENDENCY_LIMIT | DEPENDENCY_CYCLE
  | DEPENDENCY_NOT_FOUND | DEPENDENCY_SCOPE_MISMATCH | SCOPE_MISMATCH | SERVING_FROZEN
  | IMMUTABLE_CONFLICT | PARENT_NOT_FOUND | POLICY_NOT_FOUND | REVISION_NOT_FOUND | PROPOSAL_REPLAY
  | STATE_LIMIT | PROPOSAL_NOT_FOUND | STALE_DECISION | DECISION_NOT_ALLOWED
  | RETRACT_TARGET_NOT_FOUND | RETRACT_INVALID | RETRACT_NOT_LATEST | DEPENDENCY_INELIGIBLE
  | STALE_PRECONDITION | ALREADY_ACTIVE | APPROVAL_INCOMPLETE | AGREEMENT_NOT_FOUND
  | AGREEMENT_NOT_ACTIVE | UNSUPPORTED_COMMAND | ALREADY_BOOTSTRAPPED | IDEMPOTENCY_CONFLICT

text \<open>
  \<open>DomainError(code, status, retryable)\<close> without its message and details; \<open>UriError\<close> is the
  \<open>URIError\<close> that \<open>encodeURIComponent\<close> throws on a lone surrogate, \<open>TypeError\<close> what reading a
  property of \<open>null\<close> or converting an object without a callable \<open>toString\<close> throws.
\<close>

datatype derror = DomainError ecode nat bool | UriError | TypeError

type_synonym 'a res = "(derror, 'a) result"

text \<open>\<open>fail(code, message)\<close> with the default status 400, and with \<open>{ status, retryable }\<close>.\<close>

definition fail :: "ecode \<Rightarrow> 'a res" where
  "fail c = Err (DomainError c 400 False)"

definition fail_as :: "ecode \<Rightarrow> nat \<Rightarrow> bool \<Rightarrow> 'a res" where
  "fail_as c status retryable = Err (DomainError c status retryable)"

definition require :: "bool \<Rightarrow> ecode \<Rightarrow> unit res" where
  "require b c = (if b then Ok () else fail c)"

definition require_as :: "bool \<Rightarrow> ecode \<Rightarrow> nat \<Rightarrow> bool \<Rightarrow> unit res" where
  "require_as b c status retryable = (if b then Ok () else fail_as c status retryable)"

lemma fail_not_Ok [simp]: "fail c \<noteq> Ok x" "fail_as c s r \<noteq> Ok x"
  by (simp_all add: fail_def fail_as_def)

lemma require_Ok_iff [simp]: "require b c = Ok u \<longleftrightarrow> b"
  "require_as b c s r = Ok u \<longleftrightarrow> b"
  by (simp_all add: require_def require_as_def)

lemma require_True [simp]: "require True c = Ok ()" "require_as True c s r = Ok ()"
  by simp_all

section \<open>Values\<close>

text \<open>
  A number is an integer below \<open>10 ^ 21\<close> in magnitude, minus zero, a non-integral double named by
  its ECMAScript decimal text, or what lies beyond: an integral double of at least \<open>10 ^ 21\<close> in
  magnitude, NaN or an infinity, again named by its text.
\<close>

datatype jnum = NInt int | NNegZero | NFrac jstr | NBeyond jstr

datatype json = JUndef | JNull | JBool bool | JNum jnum | JStr jstr
  | JArr "json list" | JObj "(jstr \<times> json) list"

definition fld :: "json \<Rightarrow> string \<Rightarrow> json" where
  "fld v k = (case v of
     JObj kvs \<Rightarrow> (case map_of kvs (js k) of None \<Rightarrow> JUndef | Some x \<Rightarrow> x)
   | _ \<Rightarrow> JUndef)"

definition has_own :: "json \<Rightarrow> string \<Rightarrow> bool" where
  "has_own v k = (case v of JObj kvs \<Rightarrow> js k \<in> fst ` set kvs | _ \<Rightarrow> False)"

definition own_keys :: "json \<Rightarrow> jstr list" where
  "own_keys v = (case v of JObj kvs \<Rightarrow> map fst kvs | _ \<Rightarrow> [])"

text \<open>An object literal whose property names are ASCII identifiers.\<close>

definition obj :: "(string \<times> json) list \<Rightarrow> json" where
  "obj kvs = JObj (map (\<lambda>(k, v). (js k, v)) kvs)"

lemma fld_obj [simp]:
  "fld (obj kvs) k = (case map_of kvs k of None \<Rightarrow> JUndef | Some x \<Rightarrow> x)"
  by (simp add: fld_def obj_def map_of_map_fst_inj [OF inj_js])

lemma has_own_obj [simp]: "has_own (obj kvs) k \<longleftrightarrow> k \<in> fst ` set kvs"
  by (force simp: has_own_def obj_def)

lemma own_keys_obj [simp]: "own_keys (obj kvs) = map (js \<circ> fst) kvs"
  by (simp add: own_keys_def obj_def comp_def case_prod_beta)

lemma obj_neq [simp]: "obj kvs \<noteq> JUndef" "obj kvs \<noteq> JNull" "obj kvs \<noteq> JStr s" "obj kvs \<noteq> JNum n"
  "JUndef \<noteq> obj kvs" "JNull \<noteq> obj kvs" "JStr s \<noteq> obj kvs" "JNum n \<noteq> obj kvs"
  by (simp_all add: obj_def)

section \<open>Printing\<close>

definition max_safe :: int where
  "max_safe = 9007199254740991"

definition hex_lower :: "nat \<Rightarrow> cunit" where
  "hex_lower d = of_nat (if d < 10 then 48 + d else 87 + d)"

text \<open>\<open>JSON.stringify\<close> of a string without lone surrogates.\<close>

definition quote_unit :: "cunit \<Rightarrow> jstr" where
  "quote_unit u =
     (if u = 34 then [92, 34] else if u = 92 then [92, 92]
      else if u = 8 then [92, 98] else if u = 12 then [92, 102]
      else if u = 10 then [92, 110] else if u = 13 then [92, 114]
      else if u = 9 then [92, 116]
      else if unat u < 32 then [92, 117, 48, 48, hex_lower (unat u div 16), hex_lower (unat u mod 16)]
      else [u])"

definition json_quote :: "jstr \<Rightarrow> jstr" where
  "json_quote s = 34 # concat (map quote_unit s) @ [34]"

text \<open>\<open>canonicalNumber\<close>: finite numbers; an integral one must be in the safe range.\<close>

fun canonical_number :: "jnum \<Rightarrow> jstr res" where
  "canonical_number (NInt i) = (if \<bar>i\<bar> \<le> max_safe then Ok (dec_int i) else fail INVALID_INPUT)"
| "canonical_number NNegZero = Ok (js ''0'')"
| "canonical_number (NFrac s) = Ok s"
| "canonical_number (NBeyond s) = fail INVALID_INPUT"

definition max_canonical_depth :: nat where "max_canonical_depth = 128"
definition max_canonical_array_items :: nat where "max_canonical_array_items = 65536"

definition depth_guard :: "nat \<Rightarrow> 'a res \<Rightarrow> 'a res" where
  "depth_guard d r = (if max_canonical_depth < d then fail CANONICALIZATION_LIMIT else r)"

lemma size_member_sorted [termination_simp]:
  "(k, x) \<in> set kvs \<Longrightarrow> size x < Suc (size_list (size_prod (\<lambda>_. 0) size) kvs)"
proof (induction kvs)
  case (Cons a kvs)
  then show ?case by (cases a) auto
qed simp

text \<open>\<open>canonicalizeValue(value, state, depth)\<close>\<close>

fun canonicalize_value :: "json \<Rightarrow> nat \<Rightarrow> jstr res" where
  "canonicalize_value JUndef d = depth_guard d (fail INVALID_INPUT)"
| "canonicalize_value JNull d = depth_guard d (Ok (js ''null''))"
| "canonicalize_value (JBool b) d = depth_guard d (Ok (if b then js ''true'' else js ''false''))"
| "canonicalize_value (JNum n) d = depth_guard d (canonical_number n)"
| "canonicalize_value (JStr s) d = depth_guard d
     (rbind (require (valid_unicode s) INVALID_INPUT) (\<lambda>_. Ok (json_quote s)))"
| "canonicalize_value (JArr xs) d = depth_guard d
     (if max_canonical_array_items < length xs then fail CANONICALIZATION_LIMIT
      else rbind (mapR (\<lambda>x. canonicalize_value x (Suc d)) xs) (\<lambda>items.
        Ok (91 # join_on 44 items @ [93])))"
| "canonicalize_value (JObj kvs) d = depth_guard d
     (rbind (mapR (\<lambda>(k, x).
          rbind (require (valid_unicode k) INVALID_INPUT) (\<lambda>_.
          rbind (canonicalize_value x (Suc d)) (\<lambda>t. Ok (json_quote k @ 58 # t))))
        (sort_key fst kvs)) (\<lambda>fields.
      Ok (123 # join_on 44 fields @ [125])))"

definition canonicalize :: "json \<Rightarrow> jstr res" where
  "canonicalize v = canonicalize_value v 0"

text \<open>
  The value that \<open>JSON.parse\<close> reads back from the canonical text: keys in code-unit order, minus
  zero as zero. \<open>cloneCanonical(v) = JSON.parse(canonicalize(v))\<close>.
\<close>

fun jnorm :: "json \<Rightarrow> json" where
  "jnorm (JNum NNegZero) = JNum (NInt 0)"
| "jnorm (JArr xs) = JArr (map jnorm xs)"
| "jnorm (JObj kvs) = JObj (sort_key fst (map (\<lambda>(k, x). (k, jnorm x)) kvs))"
| "jnorm v = v"

definition clone_canonical :: "json \<Rightarrow> json res" where
  "clone_canonical v = rbind (canonicalize v) (\<lambda>_. Ok (jnorm v))"

text \<open>\<open>sameJson\<close>: equality of canonical texts, false if either has none.\<close>

definition same_json :: "json \<Rightarrow> json \<Rightarrow> bool" where
  "same_json a b = (case (canonicalize a, canonicalize b) of (Ok s, Ok t) \<Rightarrow> s = t | _ \<Rightarrow> False)"

section \<open>When canonicalization succeeds\<close>

fun canon_ok :: "json \<Rightarrow> nat \<Rightarrow> bool" where
  "canon_ok JUndef d = False"
| "canon_ok (JNum n) d = (d \<le> 128 \<and> is_ok (canonical_number n))"
| "canon_ok (JStr s) d = (d \<le> 128 \<and> valid_unicode s)"
| "canon_ok (JArr xs) d = (d \<le> 128 \<and> length xs \<le> 65536 \<and> (\<forall>x \<in> set xs. canon_ok x (Suc d)))"
| "canon_ok (JObj kvs) d = (d \<le> 128 \<and> (\<forall>(k, x) \<in> set kvs. valid_unicode k \<and> canon_ok x (Suc d)))"
| "canon_ok _ d = (d \<le> 128)"

lemma depth_guard_Ok [simp]: "depth_guard d r = Ok x \<longleftrightarrow> d \<le> 128 \<and> r = Ok x"
  by (auto simp: depth_guard_def max_canonical_depth_def)

lemma is_ok_depth_guard [simp]: "is_ok (depth_guard d r) \<longleftrightarrow> d \<le> 128 \<and> is_ok r"
  by (auto simp: is_ok_iff)

lemma is_ok_mapR: "is_ok (mapR f xs) \<longleftrightarrow> (\<forall>x \<in> set xs. is_ok (f x))"
proof (induction xs)
  case (Cons x xs)
  then show ?case by (cases "f x"; cases "mapR f xs") auto
qed simp

lemma is_ok_rbind: "is_ok (rbind r f) \<longleftrightarrow> (\<exists>x. r = Ok x \<and> is_ok (f x))"
  by (cases r) auto

lemma is_ok_simps [simp]: "\<not> is_ok (fail c)" "is_ok (require b c) \<longleftrightarrow> b"
  by (simp_all add: fail_def require_def)

lemma is_ok_canonicalize_value: "is_ok (canonicalize_value v d) \<longleftrightarrow> canon_ok v d"
proof (induction v d rule: canonicalize_value.induct)
  case (6 xs d)
  then show ?case
    by (auto simp: is_ok_rbind is_ok_mapR max_canonical_array_items_def is_ok_iff [symmetric])
next
  case (7 kvs d)
  have "is_ok (canonicalize_value x (Suc d)) = canon_ok x (Suc d)" if "(k, x) \<in> set kvs" "valid_unicode k" for k x
    using 7 that by auto
  then show ?case
    by (auto simp: is_ok_rbind is_ok_mapR is_ok_iff [symmetric] split: prod.splits)
qed (auto simp: is_ok_rbind)

lemma canonicalize_Ok_iff: "(\<exists>s. canonicalize v = Ok s) \<longleftrightarrow> canon_ok v 0"
  using is_ok_canonicalize_value [of v 0] by (simp add: canonicalize_def is_ok_iff)

lemma clone_canonical_Ok [simp]: "clone_canonical v = Ok w \<longleftrightarrow> canon_ok v 0 \<and> w = jnorm v"
  by (auto simp: clone_canonical_def canonicalize_Ok_iff [symmetric])

section \<open>Normal forms\<close>

lemma sort_key_map_snd: "sort_key fst (map (\<lambda>(k, x). (k, f x)) kvs) = map (\<lambda>(k, x). (k, f x)) (sort_key fst kvs)"
proof (induction kvs)
  case (Cons a kvs)
  have ins: "insort_key fst (k, f x) (map (\<lambda>(k, x). (k, f x)) ys) =
      map (\<lambda>(k, x). (k, f x)) (insort_key fst (k, x) ys)" for k x ys
    by (induction ys) auto
  show ?case by (cases a) (simp add: Cons ins)
qed simp

lemma sort_key_id: "sorted (map f xs) \<Longrightarrow> sort_key f xs = xs"
  by (induction xs) (auto simp: insort_is_Cons)

lemma sort_key_idem [simp]: "sort_key f (sort_key f xs) = sort_key f xs"
  by (rule sort_key_id) simp

declare jnorm.simps(3) [simp del]

lemma jnorm_JObj [simp]: "jnorm (JObj kvs) = JObj (map (\<lambda>(k, x). (k, jnorm x)) (sort_key fst kvs))"
  by (simp add: sort_key_map_snd jnorm.simps(3))

lemma jnorm_sorted:
  "sorted (map fst kvs) \<Longrightarrow> jnorm (JObj kvs) = JObj (map (\<lambda>(k, x). (k, jnorm x)) kvs)"
  by (simp add: sort_key_id)

lemma jnorm_idem [simp]: "jnorm (jnorm v) = jnorm v"
proof (induction v rule: jnorm.induct)
  case (3 kvs)
  then have "map (\<lambda>(k, x). (k, jnorm (jnorm x))) (sort_key fst kvs) = map (\<lambda>(k, x). (k, jnorm x)) (sort_key fst kvs)"
    by auto
  then show ?case by (simp add: sort_key_map_snd comp_def case_prod_beta)
qed (auto simp: comp_def)

text \<open>Normalizing first does not change the canonical text.\<close>

lemma canonical_number_jnorm:
  "jnorm (JNum n) = JNum m \<Longrightarrow> canonical_number m = canonical_number n"
  by (cases n) (auto simp: dec_int_def dec_nat_def nat_digits.simps digit_unit_def js_def cu_def max_safe_def)

lemma canonicalize_value_jnorm [simp]: "canonicalize_value (jnorm v) d = canonicalize_value v d"
proof (induction v d rule: canonicalize_value.induct)
  case (4 n d)
  then show ?case using canonical_number_jnorm [of n] by (cases n) auto
next
  case (6 xs d)
  show ?case
  proof (cases "max_canonical_array_items < length xs")
    case False
    then have "mapR (\<lambda>x. canonicalize_value (jnorm x) (Suc d)) xs = mapR (\<lambda>x. canonicalize_value x (Suc d)) xs"
      using 6 by (intro mapR_cong) auto
    then show ?thesis by (simp add: mapR_map comp_def)
  qed simp
next
  case (7 kvs d)
  let ?f = "\<lambda>g (k, x). rbind (require (valid_unicode k) INVALID_INPUT) (\<lambda>_.
      rbind (canonicalize_value (g x) (Suc d)) (\<lambda>t. Ok (json_quote k @ 58 # t)))"
  have "mapR (?f jnorm) (sort_key fst kvs) = mapR (?f (\<lambda>x. x)) (sort_key fst kvs)"
    using 7 by (intro mapR_cong refl) (auto intro!: rbind_cong)
  then show ?case
    by (simp add: sort_key_map_snd mapR_map) (simp add: comp_def split_def)
qed auto

lemma canonicalize_jnorm [simp]: "canonicalize (jnorm v) = canonicalize v"
  by (simp add: canonicalize_def)

lemma canon_ok_jnorm [simp]: "canon_ok (jnorm v) d = canon_ok v d"
  by (simp add: is_ok_canonicalize_value [symmetric])

text \<open>What a property reads as after the clone.\<close>

lemma map_of_sort_key:
  fixes kvs :: "('b :: linorder \<times> 'c) list"
  assumes "distinct (map fst kvs)"
  shows "map_of (sort_key fst kvs) k = map_of kvs k"
proof -
  have "distinct (map f (sort_key f xs)) = distinct (map f xs)" for f :: "'b \<times> 'c \<Rightarrow> 'b" and xs
    by (induction xs) (simp_all add: distinct_insort_key)
  then have "distinct (map fst (sort_key fst kvs))" using assms by simp
  then show ?thesis using assms map_of_inject_set by (metis set_sort)
qed

lemma map_of_map_snd: "map_of (map (\<lambda>(k, x). (k, f x)) kvs) k = map_option f (map_of kvs k)"
  by (induction kvs) auto

section \<open>Quoting is injective\<close>

definition unhex :: "cunit \<Rightarrow> nat" where
  "unhex u = (if unat u < 58 then unat u - 48 else unat u - 87)"

lemma unhex_hex_lower: "d < 16 \<Longrightarrow> unhex (hex_lower d) = d"
  by (simp add: unhex_def hex_lower_def unat_of_nat)

text \<open>Reading one quoted unit back.\<close>

fun unquote_unit :: "jstr \<Rightarrow> cunit \<times> jstr" where
  "unquote_unit (u # x # s) =
     (if u \<noteq> 92 then (u, x # s)
      else if x = 117 then (of_nat (16 * unhex (s ! 2) + unhex (s ! 3)), drop 4 s)
      else (if x = 98 then 8 else if x = 102 then 12 else if x = 110 then 10 else if x = 114 then 13
            else if x = 116 then 9 else x, s))"
| "unquote_unit [u] = (u, [])"
| "unquote_unit [] = (0, [])"

lemma unquote_plain: "u \<noteq> 92 \<Longrightarrow> unquote_unit (u # s) = (u, s)"
  by (cases s) simp_all

lemma unquote_unit: "unquote_unit (quote_unit u @ s) = (u, s)"
proof -
  have "unat u < 32 \<Longrightarrow> of_nat (16 * unhex (hex_lower (unat u div 16)) + unhex (hex_lower (unat u mod 16))) = u"
    by (simp add: unhex_hex_lower)
  then show ?thesis by (auto simp: quote_unit_def unquote_plain)
qed

lemma quote_unit_prefix_free: "quote_unit u @ xs = quote_unit v @ ys \<longleftrightarrow> u = v \<and> xs = ys"
  by (metis unquote_unit prod.inject)

lemma quote_unit_quote: "quote_unit u @ xs \<noteq> [34]" "[34] \<noteq> quote_unit u @ xs"
  by (auto simp: quote_unit_def)

lemma json_quote_eq_iff [simp]: "json_quote s = json_quote t \<longleftrightarrow> s = t"
proof -
  have "concat (map quote_unit s) @ [34] = concat (map quote_unit t) @ [34] \<longleftrightarrow> s = t"
  proof (induction s arbitrary: t)
    case Nil
    then show ?case by (cases t) (simp_all add: quote_unit_quote del: append_eq_append_conv)
  next
    case (Cons u s)
    then show ?case
      by (cases t) (simp_all add: quote_unit_quote quote_unit_prefix_free del: append_eq_append_conv)
  qed
  then show ?thesis by (simp add: json_quote_def)
qed

end
