(* ===== verification/Keys.thy ===== *)
theory Keys
  imports Json
begin

text \<open>
  Acceptance slots and the composite keys of the ledger state (\<open>KEY_PREFIXES\<close>, \<open>stateKey\<close>,
  \<open>keyFor\<close>, \<open>slotKey\<close> in \<open>packages/domain/index.ts\<close>). The lemmas show that keys of different kinds
  and keys of different parts never coincide, whatever the parts are.
\<close>

section \<open>Slots\<close>

record slot =
  channel_id :: jstr
  document_id :: jstr
  context_id :: jstr
  scope_id :: jstr
  usage_scope :: jstr

definition wf_slot :: "slot \<Rightarrow> bool" where
  "wf_slot s \<longleftrightarrow> is_id (channel_id s) \<and> is_id (document_id s) \<and> is_id (context_id s) \<and>
     is_id (scope_id s) \<and> is_usage_scope (usage_scope s)"

text \<open>\<open>slotKey\<close> joins the five fields with a bar, which no identifier contains.\<close>

definition slot_key :: "slot \<Rightarrow> jstr" where
  "slot_key s = join_on 124 [channel_id s, document_id s, context_id s, scope_id s, usage_scope s]"

definition same_slot :: "slot \<Rightarrow> slot \<Rightarrow> bool" where
  "same_slot a b \<longleftrightarrow> slot_key a = slot_key b"

lemma slot_key_eq_iff: "wf_slot a \<Longrightarrow> wf_slot b \<Longrightarrow> slot_key a = slot_key b \<longleftrightarrow> a = b"
  unfolding slot_key_def by (subst join_on_eq_iff) (auto simp: wf_slot_def)

lemma same_slot_iff: "wf_slot a \<Longrightarrow> wf_slot b \<Longrightarrow> same_slot a b \<longleftrightarrow> a = b"
  by (simp add: same_slot_def slot_key_eq_iff)

lemma same_slot_refl [simp]: "same_slot a a"
  by (simp add: same_slot_def)

section \<open>State keys\<close>

datatype key_kind = KConfig | KRevision | KRevisionId | KPolicy | KProposal | KDecision
  | KLatestDecision | KReviewCounter | KAgreement | KActiveSlot | KEligibilityEpoch
  | KIdempotency | KFence

fun kind_name :: "key_kind \<Rightarrow> string" where
  "kind_name KConfig = ''config''"
| "kind_name KRevision = ''revision''"
| "kind_name KRevisionId = ''revision_id''"
| "kind_name KPolicy = ''policy''"
| "kind_name KProposal = ''proposal''"
| "kind_name KDecision = ''decision''"
| "kind_name KLatestDecision = ''latest_decision''"
| "kind_name KReviewCounter = ''review_counter''"
| "kind_name KAgreement = ''agreement''"
| "kind_name KActiveSlot = ''active_slot''"
| "kind_name KEligibilityEpoch = ''eligibility_epoch''"
| "kind_name KIdempotency = ''idempotency''"
| "kind_name KFence = ''fence''"

definition key_prefix :: "key_kind \<Rightarrow> jstr" where
  "key_prefix k = js (''kcl:v1:'' @ kind_name k)"

definition state_key :: "key_kind \<Rightarrow> jstr list \<Rightarrow> jstr" where
  "state_key k parts = (if parts = [] then key_prefix k
     else key_prefix k @ 58 # join_on 58 (map percent parts))"

definition key_config :: jstr where "key_config = state_key KConfig []"
definition key_revision :: "jstr \<Rightarrow> jstr" where "key_revision d = state_key KRevision [d]"
definition key_revision_id :: "jstr \<Rightarrow> jstr" where "key_revision_id i = state_key KRevisionId [i]"
definition key_policy :: "jstr \<Rightarrow> int \<Rightarrow> jstr" where
  "key_policy p v = state_key KPolicy [p, dec_int v]"
definition key_proposal :: "jstr \<Rightarrow> jstr" where "key_proposal p = state_key KProposal [p]"
definition key_decision :: "jstr \<Rightarrow> jstr" where "key_decision d = state_key KDecision [d]"
definition key_latest_decision :: "jstr \<Rightarrow> int \<Rightarrow> jstr \<Rightarrow> jstr \<Rightarrow> jstr \<Rightarrow> jstr" where
  "key_latest_decision p v role org_id actor_id = state_key KLatestDecision [p, dec_int v, role, org_id, actor_id]"
definition key_review_counter :: "jstr \<Rightarrow> jstr" where "key_review_counter p = state_key KReviewCounter [p]"
definition key_agreement :: "jstr \<Rightarrow> jstr" where "key_agreement a = state_key KAgreement [a]"
definition key_active_slot :: "slot \<Rightarrow> jstr" where "key_active_slot s = state_key KActiveSlot [slot_key s]"
definition key_eligibility_epoch :: jstr where "key_eligibility_epoch = state_key KEligibilityEpoch []"
definition key_idempotency :: "jstr \<Rightarrow> jstr \<Rightarrow> jstr" where
  "key_idempotency org_id cmd = state_key KIdempotency [org_id, cmd]"
definition key_fence :: "jstr \<Rightarrow> jstr" where "key_fence n = state_key KFence [n]"

lemmas key_defs = key_config_def key_revision_def key_revision_id_def key_policy_def key_proposal_def
  key_decision_def key_latest_decision_def key_review_counter_def key_agreement_def
  key_active_slot_def key_eligibility_epoch_def key_idempotency_def key_fence_def

section \<open>Keys never collide\<close>

lemma percent_no_colon: "(58 :: cunit) \<notin> set (percent s)"
  using percent_units [of 58 s] by (auto simp: uri_unreserved_def is_upper_def is_lower_def is_digit_def)

lemma kind_name_no_colon: "(58 :: cunit) \<notin> set (js (kind_name k))"
proof -
  have "CHR '':'' \<notin> set (kind_name k)" by (cases k) simp_all
  moreover have "(58 :: cunit) = cu (CHR '':'')" by (simp add: cu_def)
  ultimately show ?thesis by (auto simp: js_def)
qed

lemma kind_name_eq_iff [simp]: "kind_name k = kind_name l \<longleftrightarrow> k = l"
  by (cases k; cases l) simp_all

lemma split_state_key:
  "split_on 58 (state_key k parts) = js ''kcl'' # js ''v1'' # js (kind_name k) # map percent parts"
proof -
  have pre: "key_prefix k = js ''kcl'' @ 58 # js ''v1'' @ 58 # js (kind_name k)"
    by (simp add: key_prefix_def js_def cu_def)
  have "state_key k parts = join_on 58 (js ''kcl'' # js ''v1'' # js (kind_name k) # map percent parts)"
    by (cases parts) (simp_all add: state_key_def pre)
  moreover have "\<forall>p \<in> set (js ''kcl'' # js ''v1'' # js (kind_name k) # map percent parts). (58 :: cunit) \<notin> set p"
    using percent_no_colon kind_name_no_colon by (auto simp: js_def cu_def)
  ultimately show ?thesis by (simp add: split_join del: join_on.simps)
qed

lemma state_key_eq_iff [simp]: "state_key k ps = state_key l qs \<longleftrightarrow> k = l \<and> ps = qs"
proof
  assume "state_key k ps = state_key l qs"
  then have "split_on 58 (state_key k ps) = split_on 58 (state_key l qs)" by simp
  then have "k = l" and "map percent ps = map percent qs" by (simp_all add: split_state_key)
  moreover have "inj percent" by (rule injI) simp
  ultimately show "k = l \<and> ps = qs" by (simp add: inj_map_eq_map)
qed simp

end
