(* ===== verification/Uri.thy ===== *)
theory Uri
  imports Keys
begin

text \<open>
  \<open>decodeURIComponent\<close>, which the state validation applies to the parts of a key, and its inverse
  law. The decoder follows the \<open>Decode\<close> operation of ECMAScript: a percent sign must be followed by two
  hexadecimal digits, and the bytes must be the UTF-8 encoding of a code point.
\<close>

section \<open>Decoding\<close>

definition hex_value :: "cunit \<Rightarrow> nat option" where
  "hex_value u = (let n = unat u in
     if 48 \<le> n \<and> n \<le> 57 then Some (n - 48)
     else if 65 \<le> n \<and> n \<le> 70 then Some (n - 55)
     else if 97 \<le> n \<and> n \<le> 102 then Some (n - 87)
     else None)"

text \<open>A unit that stands for itself, or an escaped byte.\<close>

datatype uri_token = Unit cunit | Byte nat

fun uri_tokens :: "jstr \<Rightarrow> uri_token list option" where
  "uri_tokens [] = Some []"
| "uri_tokens (u # s) =
     (if u \<noteq> 37 then map_option ((#) (Unit u)) (uri_tokens s)
      else case s of
        a # b # s' \<Rightarrow> (case (hex_value a, hex_value b) of
            (Some x, Some y) \<Rightarrow> map_option ((#) (Byte (16 * x + y))) (uri_tokens s')
          | _ \<Rightarrow> None)
      | _ \<Rightarrow> None)"

text \<open>The given number of continuation bytes.\<close>

fun continuation :: "nat \<Rightarrow> uri_token list \<Rightarrow> (nat list \<times> uri_token list) option" where
  "continuation 0 ts = Some ([], ts)"
| "continuation (Suc n) (Byte b # ts) = map_option (\<lambda>(bs, rest). (b # bs, rest)) (continuation n ts)"
| "continuation (Suc n) _ = None"

lemma continuation_shorter: "continuation n ts = Some (bs, rest) \<Longrightarrow> length rest \<le> length ts"
  by (induction n ts arbitrary: bs rest rule: continuation.induct) (auto intro: le_SucI)

definition code_point_of :: "nat list \<Rightarrow> nat" where
  "code_point_of bs = (case bs of
     [a] \<Rightarrow> a
   | [a, b] \<Rightarrow> (a - 0xC0) * 64 + (b - 0x80)
   | [a, b, c] \<Rightarrow> (a - 0xE0) * 4096 + (b - 0x80) * 64 + (c - 0x80)
   | [a, b, c, d] \<Rightarrow> (a - 0xF0) * 262144 + (b - 0x80) * 4096 + (c - 0x80) * 64 + (d - 0x80)
   | _ \<Rightarrow> 0)"

definition scalar :: "nat \<Rightarrow> bool" where
  "scalar c \<longleftrightarrow> c < 0xD800 \<or> 0xE000 \<le> c \<and> c < 0x110000"

text \<open>The bytes are the UTF-8 form of the code point that they spell.\<close>

definition decode_bytes :: "nat list \<Rightarrow> nat option" where
  "decode_bytes bs = (let c = code_point_of bs in if scalar c \<and> utf8_cp c = bs then Some c else None)"

function decode_tokens :: "uri_token list \<Rightarrow> jstr option" where
  "decode_tokens [] = Some []"
| "decode_tokens (Unit u # ts) = map_option ((#) u) (decode_tokens ts)"
| "decode_tokens (Byte b # ts) = (case continuation (utf8_len b - 1) ts of
     None \<Rightarrow> None
   | Some (bs, rest) \<Rightarrow> (case decode_bytes (b # bs) of
       None \<Rightarrow> None
     | Some c \<Rightarrow> map_option ((@) (cp_units c)) (decode_tokens rest)))"
  by pat_completeness auto
termination
  by (relation "measure length") (auto dest: continuation_shorter)

definition decode_uri :: "jstr \<Rightarrow> jstr option" where
  "decode_uri s = Option.bind (uri_tokens s) decode_tokens"

section \<open>Decoding inverts encoding\<close>

lemma hex_value_upper: "d < 16 \<Longrightarrow> hex_value (hex_upper d) = Some d"
  by (auto simp: hex_value_def unat_hex_upper Let_def)

lemma tokens_byte: "b < 256 \<Longrightarrow> uri_tokens (pct_byte b @ s) = map_option ((#) (Byte b)) (uri_tokens s)"
proof -
  assume "b < 256"
  then have "b div 16 < 16" "b mod 16 < 16" by auto
  then show ?thesis by (simp add: pct_byte_def hex_value_upper)
qed

lemma tokens_bytes:
  "\<forall>b \<in> set bs. b < 256 \<Longrightarrow> uri_tokens (concat (map pct_byte bs) @ s) = map_option ((@) (map Byte bs)) (uri_tokens s)"
  by (induction bs; cases "uri_tokens s") (simp_all add: tokens_byte)

definition cp_tokens :: "nat \<Rightarrow> uri_token list" where
  "cp_tokens c = (if uri_unreserved c then [Unit (of_nat c)] else map Byte (utf8_cp c))"

lemma tokens_cp:
  assumes "c < 0x110000"
  shows "uri_tokens (pct_cp c @ s) = map_option ((@) (cp_tokens c)) (uri_tokens s)"
proof (cases "uri_unreserved c")
  case True
  then have "c < 128 \<and> c \<noteq> 37" by (auto simp: uri_unreserved_def is_upper_def is_lower_def is_digit_def)
  then have "(of_nat c :: cunit) \<noteq> 37" using cunit_of_nat_eq_iff [of c 37] by simp
  then show ?thesis using True by (cases "uri_tokens s") (simp_all add: pct_cp_def cp_tokens_def)
next
  case False
  have "\<forall>b \<in> set (utf8_cp c). b < 256" using assms by (auto intro: utf8_cp_bytes)
  then show ?thesis using False by (simp add: pct_cp_def cp_tokens_def tokens_bytes)
qed

lemma tokens_percent: "uri_tokens (percent s) = Some (concat (map cp_tokens (code_points s)))"
proof -
  have "uri_tokens (concat (map pct_cp cs)) = Some (concat (map cp_tokens cs))" if "\<forall>c \<in> set cs. c < 0x110000" for cs
    using that by (induction cs) (simp_all add: tokens_cp)
  then show ?thesis using code_points_bound [of s] by (simp add: percent_def)
qed

lemma continuation_bytes: "continuation (length bs) (map Byte bs @ ts) = Some (bs, ts)"
  by (induction bs) simp_all

text \<open>Reading base-64 digits back.\<close>

lemma base64_step: "n div 64 = q \<Longrightarrow> n = 64 * q + n mod (64 :: nat)"
  using mult_div_mod_eq [of 64 n] by simp

lemma base64_3: "(c :: nat) div 4096 * 4096 + c div 64 mod 64 * 64 + c mod 64 = c"
proof -
  have digits: "c = 64 * a + x \<Longrightarrow> a = 64 * b + d \<Longrightarrow> b * 4096 + d * 64 + x = c" for a b d x :: nat by simp
  show ?thesis
    by (rule digits [of "c div 64"]) (rule base64_step, simp, rule base64_step, simp add: div_mult2_eq [symmetric])
qed

lemma base64_4: "(c :: nat) div 262144 * 262144 + c div 4096 mod 64 * 4096 + c div 64 mod 64 * 64 + c mod 64 = c"
proof -
  have digits: "e = 64 * b + d \<Longrightarrow> e * 4096 + y = c \<Longrightarrow> b * 262144 + d * 4096 + y = c" for e b d y :: nat by simp
  have "c div 262144 * 262144 + c div 4096 mod 64 * 4096 + (c div 64 mod 64 * 64 + c mod 64) = c"
  proof (rule digits [of "c div 4096"])
    show "c div 4096 = 64 * (c div 262144) + c div 4096 mod 64"
      by (rule base64_step) (simp add: div_mult2_eq [symmetric])
    show "c div 4096 * 4096 + (c div 64 mod 64 * 64 + c mod 64) = c" using base64_3 [of c] by (simp only: add.assoc)
  qed
  then show ?thesis by (simp only: add.assoc)
qed

lemma code_point_of_utf8: "c < 0x110000 \<Longrightarrow> code_point_of (utf8_cp c) = c"
proof -
  assume c: "c < 0x110000"
  consider "c < 0x80" | "0x80 \<le> c" "c < 0x800" | "0x800 \<le> c" "c < 0x10000" | "0x10000 \<le> c" by linarith
  then show ?thesis
  proof cases
    case 2
    then show ?thesis by (simp add: utf8_cp_def code_point_of_def)
  next
    case 3
    have "c div 4096 * 4096 + c div 64 mod 64 * 64 + c mod 64 = c" by (rule base64_3)
    then show ?thesis using 3 by (simp add: utf8_cp_def code_point_of_def)
  next
    case 4
    have "c div 262144 * 262144 + c div 4096 mod 64 * 4096 + c div 64 mod 64 * 64 + c mod 64 = c" by (rule base64_4)
    then show ?thesis using 4 by (simp add: utf8_cp_def code_point_of_def)
  qed (simp add: utf8_cp_def code_point_of_def)
qed

lemma decode_cp:
  assumes "scalar c"
  shows "decode_tokens (cp_tokens c @ ts) = map_option ((@) (cp_units c)) (decode_tokens ts)"
proof (cases "uri_unreserved c")
  case True
  then have "c < 128" by (auto simp: uri_unreserved_def is_upper_def is_lower_def is_digit_def)
  then show ?thesis using True by (cases "decode_tokens ts") (simp_all add: cp_tokens_def cp_units_def)
next
  case False
  have "c < 0x110000" using assms by (auto simp: scalar_def)
  then have bytes: "decode_bytes (utf8_cp c) = Some c"
    using assms by (simp add: decode_bytes_def code_point_of_utf8)
  obtain b bs where u: "utf8_cp c = b # bs" using utf8_cp_nonempty [of c] by (cases "utf8_cp c") auto
  then have "utf8_len b - 1 = length bs" using utf8_cp_length [of c] by simp
  then show ?thesis using False u bytes by (simp add: cp_tokens_def continuation_bytes)
qed

lemma valid_code_points: "valid_unicode s \<Longrightarrow> \<forall>c \<in> set (code_points s). scalar c"
proof (induction s rule: code_points.induct)
  case (2 u)
  then show ?case using unat_cunit_less [of u] by (auto simp: scalar_def is_high_def is_low_def)
next
  case (3 u v s)
  have hl: "scalar (0x10000 + (unat u - 0xD800) * 0x400 + (unat v - 0xDC00))" if "is_high u" "is_low v"
    using that by (auto simp: scalar_def is_high_def is_low_def)
  show ?case
  proof (cases "is_high u \<and> is_low v")
    case True
    then show ?thesis using 3 hl by (auto simp: is_low_def is_high_def)
  next
    case False
    then have u: "\<not> is_high u" "\<not> is_low u" "valid_unicode (v # s)" using 3(3) by (auto split: if_splits)
    have "scalar (unat u)" using u(1,2) unat_cunit_less [of u] by (auto simp: scalar_def is_high_def is_low_def)
    then show ?thesis using u(1) 3(2) [OF False u(3)] by simp
  qed
qed simp

lemma decode_encode: "valid_unicode s \<Longrightarrow> decode_uri (percent s) = Some s"
proof -
  assume "valid_unicode s"
  have "decode_tokens (concat (map cp_tokens cs)) = Some (concat (map cp_units cs))" if "\<forall>c \<in> set cs. scalar c" for cs
    using that by (induction cs) (simp_all add: decode_cp)
  then have "decode_tokens (concat (map cp_tokens (code_points s))) = Some (concat (map cp_units (code_points s)))"
    using valid_code_points [OF \<open>valid_unicode s\<close>] by blast
  then show ?thesis by (simp add: decode_uri_def tokens_percent code_points_left_inverse)
qed

end
