(* ===== verification/JsonText.thy ===== *)
theory JsonText
  imports Uri
begin

text \<open>
  JSON texts: \<open>JSON.stringify\<close>, \<open>JSON.parse\<close> and the stricter \<open>parseStrictJson\<close> of
  \<open>packages/fabric/canonical.ts\<close>, which scans a command under its own whitespace, depth and key rules
  before it hands the text to \<open>JSON.parse\<close>. The round trip: a printed value is read back, and the canonical
  text of a value is read back as its normal form.

  Members keep the order in which they were written. JavaScript moves integer-like names to the front when it
  enumerates an object; no key of the modelled records is one, and canonical texts are sorted in any case.

  Which double a decimal literal denotes is a parameter \<open>real\<close>; integers in the safe range are exact.
\<close>

section \<open>\<open>JSON.stringify\<close>\<close>

text \<open>A lone surrogate is escaped; other units are quoted as in a valid string.\<close>

definition escape_unit :: "cunit \<Rightarrow> jstr" where
  "escape_unit u = (let n = unat u in
     [92, 117, hex_lower (n div 4096), hex_lower (n div 256 mod 16), hex_lower (n div 16 mod 16), hex_lower (n mod 16)])"

fun quoted_units :: "jstr \<Rightarrow> jstr" where
  "quoted_units [] = []"
| "quoted_units [u] = (if is_high u \<or> is_low u then escape_unit u else quote_unit u)"
| "quoted_units (u # v # s) =
     (if is_high u \<and> is_low v then u # v # quoted_units s
      else (if is_high u \<or> is_low u then escape_unit u else quote_unit u) @ quoted_units (v # s))"

definition quote_text :: "jstr \<Rightarrow> jstr" where
  "quote_text s = 34 # quoted_units s @ [34]"

fun number_text :: "jnum \<Rightarrow> jstr" where
  "number_text (NInt i) = dec_int i"
| "number_text NNegZero = js ''0''"
| "number_text (NFrac s) = s"
| "number_text (NBeyond s) = (if s \<in> {js ''NaN'', js ''Infinity'', js ''-Infinity''} then js ''null'' else s)"

text \<open>Undefined members are left out, undefined items print as \<open>null\<close>.\<close>

abbreviation defined :: "(jstr \<times> json) list \<Rightarrow> (jstr \<times> json) list" where
  "defined kvs \<equiv> filter (\<lambda>(k, x). x \<noteq> JUndef) kvs"

fun stringify :: "json \<Rightarrow> jstr" where
  "stringify JUndef = js ''null''"
| "stringify JNull = js ''null''"
| "stringify (JBool b) = (if b then js ''true'' else js ''false'')"
| "stringify (JNum n) = number_text n"
| "stringify (JStr s) = quote_text s"
| "stringify (JArr xs) = 91 # join_on 44 (map stringify xs) @ [93]"
| "stringify (JObj kvs) =
     123 # join_on 44 (map (\<lambda>(k, x). quote_text k @ 58 # stringify x) (defined kvs)) @ [125]"

section \<open>Parsing\<close>

text \<open>What distinguishes the two parsers: whitespace, the nesting limit, and which key may follow which.\<close>

record grammar =
  blank :: "cunit \<Rightarrow> bool"
  nesting :: "nat option"
  new_key :: "jstr list \<Rightarrow> jstr \<Rightarrow> bool"

definition json_grammar :: grammar where
  "json_grammar = \<lparr>blank = (\<lambda>u. u \<in> {32, 9, 10, 13}), nesting = None, new_key = (\<lambda>seen k. True)\<rparr>"

text \<open>\<open>/\s/\<close>: the white space and line terminators of ECMAScript.\<close>

definition js_space :: "cunit \<Rightarrow> bool" where
  "js_space u \<longleftrightarrow> (let n = unat u in (9 \<le> n \<and> n \<le> 13) \<or> n = 32 \<or> n = 0xA0 \<or> n = 0x1680 \<or> (0x2000 \<le> n \<and> n \<le> 0x200A) \<or>
     n \<in> {0x2028, 0x2029, 0x202F, 0x205F, 0x3000, 0xFEFF})"

definition strict_grammar :: grammar where
  "strict_grammar = \<lparr>blank = js_space, nesting = Some 64,
     new_key = (\<lambda>seen k. k \<notin> set seen \<and> k \<notin> js ` {''__proto__'', ''constructor'', ''prototype''})\<rparr>"

definition skip :: "grammar \<Rightarrow> jstr \<Rightarrow> jstr" where
  "skip g s = dropWhile (blank g) s"

text \<open>After a backslash: the unit that the escape denotes, and the rest.\<close>

fun unescape :: "jstr \<Rightarrow> (cunit \<times> jstr) option" where
  "unescape [] = None"
| "unescape (c # s) =
     (if c \<in> {34, 92, 47} then Some (c, s)
      else if c = 98 then Some (8, s) else if c = 102 then Some (12, s) else if c = 110 then Some (10, s)
      else if c = 114 then Some (13, s) else if c = 116 then Some (9, s)
      else if c = 117 then (case s of
          p # q # x # y # r \<Rightarrow> (case (hex_value p, hex_value q, hex_value x, hex_value y) of
              (Some i, Some j, Some k, Some l) \<Rightarrow> Some (of_nat (4096 * i + 256 * j + 16 * k + l), r)
            | _ \<Rightarrow> None)
        | _ \<Rightarrow> None)
      else None)"

lemma unescape_shorter: "unescape s = Some (u, r) \<Longrightarrow> length r < length s"
  by (cases s) (auto split: if_splits list.splits option.splits)

text \<open>The units up to the closing quote.\<close>

function string_tail :: "jstr \<Rightarrow> (jstr \<times> jstr) option" where
  "string_tail [] = None"
| "string_tail (u # s) =
     (if u = 34 then Some ([], s)
      else if u = 92 then (case unescape s of
          None \<Rightarrow> None
        | Some (c, r) \<Rightarrow> map_option (\<lambda>(t, rest). (c # t, rest)) (string_tail r))
      else if unat u < 32 then None
      else map_option (\<lambda>(t, rest). (u # t, rest)) (string_tail s))"
  by pat_completeness auto
termination
  by (relation "measure length") (auto dest: unescape_shorter)

definition is_digit_unit :: "cunit \<Rightarrow> bool" where
  "is_digit_unit u \<longleftrightarrow> is_digit (unat u)"

definition digits_of :: "jstr \<Rightarrow> jstr \<times> jstr" where
  "digits_of s = (takeWhile is_digit_unit s, dropWhile is_digit_unit s)"

text \<open>\<open>-?(0|[1-9][0-9]*)(\.[0-9]+)?([eE][+-]?[0-9]+)?\<close>, the longest match.\<close>

definition integer_part :: "jstr \<Rightarrow> (jstr \<times> jstr) option" where
  "integer_part s = (case s of
     [] \<Rightarrow> None
   | u # r \<Rightarrow> if u = 48 then Some ([48], r) else if is_digit_unit u then Some (digits_of s) else None)"

definition fraction_part :: "jstr \<Rightarrow> jstr \<times> jstr" where
  "fraction_part s = (case s of
     u # r \<Rightarrow> if u = 46 \<and> fst (digits_of r) \<noteq> [] then (46 # fst (digits_of r), snd (digits_of r)) else ([], s)
   | [] \<Rightarrow> ([], s))"

definition exponent_part :: "jstr \<Rightarrow> jstr \<times> jstr" where
  "exponent_part s = (case s of
     u # r \<Rightarrow> if u = 101 \<or> u = 69 then
         (let (sign, r') = (case r of v # r' \<Rightarrow> if v = 43 \<or> v = 45 then ([v], r') else ([], r) | [] \<Rightarrow> ([], r));
              (ds, rest) = digits_of r' in
          if ds = [] then ([], s) else (u # sign @ ds, rest))
       else ([], s)
   | [] \<Rightarrow> ([], s))"

definition number_token :: "jstr \<Rightarrow> (jstr \<times> jstr) option" where
  "number_token s =
     (let (sign, r) = (case s of u # r \<Rightarrow> if u = 45 then ([45], r) else ([], s) | [] \<Rightarrow> ([], s)) in
      case integer_part r of
        None \<Rightarrow> None
      | Some (ds, r1) \<Rightarrow>
          (let (fr, r2) = fraction_part r1; (ex, r3) = exponent_part r2 in Some (sign @ ds @ fr @ ex, r3)))"

definition digits_value :: "jstr \<Rightarrow> nat" where
  "digits_value s = foldl (\<lambda>n u. 10 * n + (unat u - 48)) 0 s"

text \<open>How a literal that is not a safe integer is read.\<close>

type_synonym real_fn = "jstr \<Rightarrow> jnum"

text \<open>The number that a literal denotes.\<close>

definition number_value :: "(jstr \<Rightarrow> jnum) \<Rightarrow> jstr \<Rightarrow> jnum" where
  "number_value real t =
     (let neg = (t \<noteq> [] \<and> hd t = 45); ds = (if neg then tl t else t); n = int (digits_value ds) in
      if list_all is_digit_unit ds \<and> n \<le> max_safe then
        (if neg \<and> n = 0 then NNegZero else NInt (if neg then - n else n))
      else real t)"

definition literal :: "jstr \<Rightarrow> (json \<times> jstr) option" where
  "literal s =
     (if take 4 s = js ''true'' then Some (JBool True, drop 4 s)
      else if take 5 s = js ''false'' then Some (JBool False, drop 5 s)
      else if take 4 s = js ''null'' then Some (JNull, drop 4 s)
      else None)"

text \<open>A later member of the same name replaces the value of the earlier one.\<close>

fun set_member :: "jstr \<Rightarrow> json \<Rightarrow> (jstr \<times> json) list \<Rightarrow> (jstr \<times> json) list" where
  "set_member k v [] = [(k, v)]"
| "set_member k v ((l, x) # kvs) = (if l = k then (k, v) # kvs else (l, x) # set_member k v kvs)"

definition too_deep :: "grammar \<Rightarrow> nat \<Rightarrow> bool" where
  "too_deep g d \<longleftrightarrow> (case nesting g of None \<Rightarrow> False | Some m \<Rightarrow> m < d)"

text \<open>
  The first argument bounds the recursion by the length of the text; every call consumes a unit, so it is
  never exhausted.
\<close>

fun parse_value :: "grammar \<Rightarrow> (jstr \<Rightarrow> jnum) \<Rightarrow> nat \<Rightarrow> nat \<Rightarrow> jstr \<Rightarrow> (json \<times> jstr) option"
  and parse_items :: "grammar \<Rightarrow> (jstr \<Rightarrow> jnum) \<Rightarrow> nat \<Rightarrow> nat \<Rightarrow> jstr \<Rightarrow> (json list \<times> jstr) option"
  and parse_members :: "grammar \<Rightarrow> (jstr \<Rightarrow> jnum) \<Rightarrow> nat \<Rightarrow> nat \<Rightarrow> (jstr \<times> json) list \<Rightarrow> jstr \<Rightarrow> ((jstr \<times> json) list \<times> jstr) option"
where
  "parse_value g real 0 d s = None"
| "parse_value g real (Suc n) d s =
     (if too_deep g d then None else case skip g s of
        [] \<Rightarrow> None
      | u # r \<Rightarrow>
          if u = 123 then (case skip g r of
              [] \<Rightarrow> None
            | v # r' \<Rightarrow> if v = 125 then Some (JObj [], r')
                else map_option (\<lambda>(kvs, rest). (JObj kvs, rest)) (parse_members g real n d [] (v # r')))
          else if u = 91 then (case skip g r of
              [] \<Rightarrow> None
            | v # r' \<Rightarrow> if v = 93 then Some (JArr [], r')
                else map_option (\<lambda>(xs, rest). (JArr xs, rest)) (parse_items g real n d (v # r')))
          else if u = 34 then map_option (\<lambda>(t, rest). (JStr t, rest)) (string_tail r)
          else (case literal (u # r) of
              Some x \<Rightarrow> Some x
            | None \<Rightarrow> map_option (\<lambda>(t, rest). (JNum (number_value real t), rest)) (number_token (u # r))))"
| "parse_items g real 0 d s = None"
| "parse_items g real (Suc n) d s = (case parse_value g real n (Suc d) s of
     None \<Rightarrow> None
   | Some (x, r) \<Rightarrow> (case skip g r of
       [] \<Rightarrow> None
     | u # r' \<Rightarrow> if u = 93 then Some ([x], r')
         else if u = 44 then map_option (\<lambda>(xs, rest). (x # xs, rest)) (parse_items g real n d r')
         else None))"
| "parse_members g real 0 d seen s = None"
| "parse_members g real (Suc n) d seen s = (case skip g s of
     [] \<Rightarrow> None
   | q # s' \<Rightarrow> if q \<noteq> 34 then None else (case string_tail s' of
       None \<Rightarrow> None
     | Some (k, r) \<Rightarrow> if \<not> new_key g (map fst seen) k then None else (case skip g r of
         [] \<Rightarrow> None
       | c # r' \<Rightarrow> if c \<noteq> 58 then None else (case parse_value g real n (Suc d) r' of
           None \<Rightarrow> None
         | Some (x, r2) \<Rightarrow> (case skip g r2 of
             [] \<Rightarrow> None
           | u # r3 \<Rightarrow> if u = 125 then Some (set_member k x seen, r3)
               else if u = 44 then parse_members g real n d (set_member k x seen) r3
               else None)))))"

definition parse_text :: "grammar \<Rightarrow> (jstr \<Rightarrow> jnum) \<Rightarrow> jstr \<Rightarrow> json option" where
  "parse_text g real s = (case parse_value g real (Suc (2 * length s)) 0 s of
     None \<Rightarrow> None
   | Some (v, r) \<Rightarrow> if skip g r = [] then Some v else None)"

definition json_parse :: "(jstr \<Rightarrow> jnum) \<Rightarrow> jstr \<Rightarrow> json option" where
  "json_parse = parse_text json_grammar"

text \<open>\<open>parseStrictJson\<close> of a decoded text.\<close>

definition parse_strict :: "(jstr \<Rightarrow> jnum) \<Rightarrow> jstr \<Rightarrow> json option" where
  "parse_strict real s = (if parse_text strict_grammar real s = None then None else json_parse real s)"

section \<open>Round trip\<close>

text \<open>Every number prints as a JSON number or as \<open>null\<close>, and property names are distinct.\<close>

fun legible :: "json \<Rightarrow> bool" where
  "legible (JNum n) = (number_text n = js ''null'' \<or> number_token (number_text n) = Some (number_text n, []))"
| "legible (JArr xs) = list_all legible xs"
| "legible (JObj kvs) = (distinct (map fst kvs) \<and> list_all (\<lambda>(k, x). legible x) kvs)"
| "legible v = True"

text \<open>\<open>JSON.parse(JSON.stringify(v))\<close>\<close>

fun reread :: "(jstr \<Rightarrow> jnum) \<Rightarrow> json \<Rightarrow> json" where
  "reread real JUndef = JNull"
| "reread real (JNum n) = (if number_text n = js ''null'' then JNull else JNum (number_value real (number_text n)))"
| "reread real (JArr xs) = JArr (map (reread real) xs)"
| "reread real (JObj kvs) = JObj (map (\<lambda>(k, x). (k, reread real x)) (defined kvs))"
| "reread real v = v"

text \<open>Values that print without loss.\<close>

fun printable :: "(jstr \<Rightarrow> jnum) \<Rightarrow> json \<Rightarrow> bool" where
  "printable real JUndef = False"
| "printable real (JNum (NInt i)) = (\<bar>i\<bar> \<le> max_safe)"
| "printable real (JNum (NFrac s)) = (number_token s = Some (s, []) \<and> number_value real s = NFrac s)"
| "printable real (JNum n) = False"
| "printable real (JArr xs) = list_all (printable real) xs"
| "printable real (JObj kvs) = (distinct (map fst kvs) \<and> list_all (\<lambda>(k, x). printable real x) kvs)"
| "printable real v = True"

fun keys_fit :: "grammar \<Rightarrow> jstr list \<Rightarrow> jstr list \<Rightarrow> bool" where
  "keys_fit g seen [] = True"
| "keys_fit g seen (k # ks) = (new_key g seen k \<and> keys_fit g (seen @ [k]) ks)"

text \<open>The nesting and key rules of the grammar hold of the value.\<close>

fun fits :: "grammar \<Rightarrow> nat \<Rightarrow> json \<Rightarrow> bool" where
  "fits g d (JArr xs) = (\<not> too_deep g d \<and> list_all (fits g (Suc d)) xs)"
| "fits g d (JObj kvs) = (\<not> too_deep g d \<and> keys_fit g [] (map fst (defined kvs)) \<and> list_all (\<lambda>(k, x). fits g (Suc d) x) kvs)"
| "fits g d v = (\<not> too_deep g d)"

definition sane :: "grammar \<Rightarrow> bool" where
  "sane g \<longleftrightarrow> (\<forall>u. blank g u \<longrightarrow> unat u \<le> 32 \<or> 127 < unat u)"

lemma sane_grammars: "sane json_grammar" "sane strict_grammar"
proof -
  show "sane json_grammar" by (auto simp: sane_def json_grammar_def)
  show "sane strict_grammar" by (auto simp: sane_def strict_grammar_def js_space_def Let_def)
qed

lemma skip_visible: "sane g \<Longrightarrow> 32 < unat u \<Longrightarrow> unat u \<le> 127 \<Longrightarrow> skip g (u # s) = u # s"
  by (auto simp: skip_def sane_def)

lemma skip_marks [simp]:
  assumes "sane g"
  shows "skip g (34 # s) = 34 # s" "skip g (44 # s) = 44 # s" "skip g (58 # s) = 58 # s" "skip g (91 # s) = 91 # s"
    "skip g (93 # s) = 93 # s" "skip g (123 # s) = 123 # s" "skip g (125 # s) = 125 # s"
  by (simp_all add: skip_visible [OF assms])

text \<open>Strings.\<close>

lemma quote_surrogate: "is_high u \<or> is_low u \<Longrightarrow> quote_unit u = [u]"
  by (auto simp: quote_unit_def is_high_def is_low_def)

lemma quoted_valid: "valid_unicode s \<Longrightarrow> quoted_units s = concat (map quote_unit s)"
  by (induction s rule: valid_unicode.induct) (auto simp: quote_surrogate split: if_splits)

lemma quote_text_valid: "valid_unicode s \<Longrightarrow> quote_text s = json_quote s"
  by (simp add: quote_text_def json_quote_def quoted_valid)

lemma hex_value_lower: "d < 16 \<Longrightarrow> hex_value (hex_lower d) = Some d"
  by (auto simp: hex_value_def hex_lower_def unat_of_nat Let_def)

lemma string_tail_unit: "string_tail (quote_unit u @ s) = map_option (\<lambda>(t, rest). (u # t, rest)) (string_tail s)"
proof -
  have 0: "hex_value 48 = Some 0" by (simp add: hex_value_def)
  have small: "unat u < 32 \<Longrightarrow> hex_value (hex_lower (unat u div 16)) = Some (unat u div 16) \<and>
      hex_value (hex_lower (unat u mod 16)) = Some (unat u mod 16)"
    by (simp add: hex_value_lower)
  show ?thesis using small by (auto simp: quote_unit_def 0)
qed

lemma base16: "n < 65536 \<Longrightarrow> 4096 * (n div 4096) + 256 * (n div 256 mod 16) + 16 * (n div 16 mod 16) + n mod 16 = (n :: nat)"
proof -
  have 1: "16 * (n div 16 mod 16) + n mod 16 = n mod 256" using mod_mult2_eq [of n 16 16] by simp
  have 2: "256 * (n div 256 mod 16) + n mod 256 = n mod 4096" using mod_mult2_eq [of n 256 16] by simp
  have "4096 * (n div 4096) + n mod 4096 = n" by (rule mult_div_mod_eq)
  then show ?thesis using 1 2 by linarith
qed

lemma string_tail_escape: "string_tail (escape_unit u @ s) = map_option (\<lambda>(t, rest). (u # t, rest)) (string_tail s)"
proof -
  have "hex_value (hex_lower (unat u div 4096)) = Some (unat u div 4096)" "hex_value (hex_lower (unat u div 256 mod 16)) = Some (unat u div 256 mod 16)"
    "hex_value (hex_lower (unat u div 16 mod 16)) = Some (unat u div 16 mod 16)" "hex_value (hex_lower (unat u mod 16)) = Some (unat u mod 16)"
    using unat_cunit_less [of u] by (simp_all add: hex_value_lower)
  then show ?thesis using base16 [OF unat_cunit_less [of u], simplified]
    by (simp add: escape_unit_def Let_def del: of_nat_add of_nat_mult)
qed

lemma surrogate_plain: "is_high u \<or> is_low u \<Longrightarrow> string_tail (u # s) = map_option (\<lambda>(t, rest). (u # t, rest)) (string_tail s)"
  using string_tail_unit [of u s] by (simp add: quote_surrogate)

lemma string_tail_quoted: "string_tail (quoted_units s @ 34 # rest) = Some (s, rest)"
proof (induction s rule: quoted_units.induct)
  case (2 u)
  then show ?case by (auto simp: string_tail_unit string_tail_escape simp del: string_tail.simps(2)) simp_all
next
  case (3 u v s)
  then show ?case
    by (auto simp: string_tail_unit string_tail_escape surrogate_plain simp del: string_tail.simps(2))
qed simp

text \<open>Numbers, followed by a unit that does not continue them.\<close>

definition stops :: "jstr \<Rightarrow> bool" where
  "stops s \<longleftrightarrow> (case s of [] \<Rightarrow> True | u # _ \<Rightarrow> \<not> is_digit_unit u \<and> u \<notin> {43, 45, 46, 69, 101})"

lemma digits_append: "stops s \<Longrightarrow> digits_of (t @ s) = (fst (digits_of t), snd (digits_of t) @ s)"
  by (induction t) (auto simp: digits_of_def stops_def split: list.splits)

lemma integer_append: "stops s \<Longrightarrow> integer_part t = Some (ds, r) \<Longrightarrow> integer_part (t @ s) = Some (ds, r @ s)"
  by (cases t) (auto simp: integer_part_def digits_append [of s "_ # _", simplified] split: if_splits)

lemma fraction_append: "stops s \<Longrightarrow> fraction_part (t @ s) = (fst (fraction_part t), snd (fraction_part t) @ s)"
proof (cases t)
  case Nil
  then show "stops s \<Longrightarrow> ?thesis" by (cases s) (auto simp: fraction_part_def stops_def)
qed (auto simp: fraction_part_def digits_append)

lemma exponent_append: "stops s \<Longrightarrow> exponent_part (t @ s) = (fst (exponent_part t), snd (exponent_part t) @ s)"
proof (cases t)
  case Nil
  then show "stops s \<Longrightarrow> ?thesis" by (cases s) (auto simp: exponent_part_def stops_def)
next
  case (Cons u r)
  assume s: "stops s"
  show ?thesis
  proof (cases r)
    case Nil
    then show ?thesis using Cons s digits_append [OF s, of "[]"]
      by (cases s) (auto simp: exponent_part_def stops_def digits_of_def)
  next
    case (Cons v r')
    then show ?thesis using \<open>t = u # r\<close> digits_append [OF s, of r'] digits_append [OF s, of "v # r'"]
      by (auto simp: exponent_part_def Let_def split: prod.split)
  qed
qed

lemma number_append:
  assumes s: "stops s" and t: "number_token t = Some (x, r)"
  shows "number_token (t @ s) = Some (x, r @ s)"
proof -
  obtain sign r0 where sg: "(case t of u # r \<Rightarrow> if u = 45 then ([45], r) else ([], t) | [] \<Rightarrow> ([], t)) = (sign :: jstr, r0)"
    by (metis surj_pair)
  have ne: "t \<noteq> []" using t by (auto simp: number_token_def integer_part_def)
  then have sg': "(case t @ s of u # r \<Rightarrow> if u = 45 then ([45], r) else ([], t @ s) | [] \<Rightarrow> ([], t @ s)) = (sign :: jstr, r0 @ s)"
    using sg by (cases t) (auto split: if_splits)
  obtain ds r1 where i: "integer_part r0 = Some (ds, r1)"
    using t sg by (auto simp: number_token_def split: option.splits)
  show ?thesis using t
    unfolding number_token_def sg sg' using integer_append [OF s i]
    by (simp add: i fraction_append [OF s] exponent_append [OF s] split_def Let_def)
qed

text \<open>Integers read back exactly.\<close>

lemma digits_of_dec_nat: "stops s \<Longrightarrow> digits_of (dec_nat n @ s) = (dec_nat n, s)"
proof -
  have "digits_of (dec_nat n) = (dec_nat n, [])"
    using dec_nat_units [of _ n] by (auto simp: digits_of_def takeWhile_eq_all_conv dropWhile_eq_Nil_conv is_digit_unit_def)
  then show "stops s \<Longrightarrow> ?thesis" by (simp add: digits_append)
qed

lemma digits_value_dec_nat: "digits_value (dec_nat n) = n"
proof -
  have "foldl (\<lambda>n u. 10 * n + (unat u - 48)) a (map digit_unit ds) = foldl (\<lambda>a d. 10 * a + d) a ds"
    if "\<forall>d \<in> set ds. d < 10" for a ds
    using that by (induction ds arbitrary: a) (simp_all add: unat_digit_unit)
  then show ?thesis using nat_digits_bound nat_digits_value [of n] by (simp add: digits_value_def dec_nat_def)
qed

lemma nat_digits_lead: "10 \<le> n \<Longrightarrow> hd (nat_digits n) \<noteq> 0"
proof (induction n rule: nat_digits.induct)
  case (1 n)
  have e: "nat_digits n = nat_digits (n div 10) @ [n mod 10]" using 1 by (simp add: nat_digits.simps [of n])
  show ?case
  proof (cases "n div 10 < 10")
    case True
    then have "nat_digits (n div 10) = [n div 10]" by (simp add: nat_digits.simps [of "n div 10"])
    then show ?thesis using e 1 by simp
  next
    case False
    then show ?thesis using 1 e nat_digits_nonempty [of "n div 10"] by simp
  qed
qed

lemma integer_part_dec_nat:
  assumes "stops s"
  shows "integer_part (dec_nat n @ s) = Some (dec_nat n, s)"
proof (cases "n = 0")
  case True
  then show ?thesis by (simp add: dec_nat_def nat_digits.simps integer_part_def digit_unit_def)
next
  case False
  obtain d ds where d: "nat_digits n = d # ds" using nat_digits_nonempty by (cases "nat_digits n") auto
  have "d \<noteq> 0" using False d nat_digits_lead [of n] by (cases "n < 10") (auto simp: nat_digits.simps [of n] split: if_splits)
  moreover have "d < 10" using nat_digits_bound [of d n] d by simp
  ultimately have "digit_unit d \<noteq> 48" "is_digit_unit (digit_unit d)"
    using unat_digit_unit [of d] by (auto simp: is_digit_unit_def is_digit_def)
  moreover have "dec_nat n = digit_unit d # map digit_unit ds" using d by (simp add: dec_nat_def)
  ultimately show ?thesis using digits_of_dec_nat [OF assms, of n] by (simp add: integer_part_def)
qed

lemma stops_parts: "stops s \<Longrightarrow> fraction_part s = ([], s)" "stops s \<Longrightarrow> exponent_part s = ([], s)"
  by (auto simp: stops_def fraction_part_def exponent_part_def split: list.splits)

lemma dec_nat_no_sign: "dec_nat n = u # r \<Longrightarrow> u \<noteq> 45"
  using dec_nat_units [of u n] by (auto simp: is_digit_def)

lemma number_token_dec_int: "stops s \<Longrightarrow> number_token (dec_int i @ s) = Some (dec_int i, s)"
proof -
  assume s: "stops s"
  have ne: "dec_nat n \<noteq> []" for n by (simp add: dec_nat_def nat_digits_nonempty)
  have "number_token (dec_nat n @ s) = Some (dec_nat n, s)" for n
    using integer_part_dec_nat [OF s, of n] ne [of n] dec_nat_no_sign [of n]
    by (cases "dec_nat n") (auto simp: number_token_def stops_parts [OF s])
  moreover have "number_token (45 # dec_nat n @ s) = Some (45 # dec_nat n, s)" for n
    using integer_part_dec_nat [OF s, of n] by (auto simp: number_token_def stops_parts [OF s])
  ultimately show ?thesis by (simp add: dec_int_def)
qed

lemma number_value_dec_int: "\<bar>i\<bar> \<le> max_safe \<Longrightarrow> number_value real (dec_int i) = NInt i"
proof -
  assume i: "\<bar>i\<bar> \<le> max_safe"
  have ne: "dec_nat n \<noteq> []" for n by (simp add: dec_nat_def nat_digits_nonempty)
  have hd: "hd (dec_nat n) \<noteq> 45" for n using ne [of n] dec_nat_no_sign [of n] by (cases "dec_nat n") auto
  have "list_all is_digit_unit (dec_nat n)" for n
    using dec_nat_units [of _ n] by (auto simp: list_all_iff is_digit_unit_def)
  then show ?thesis using i hd ne by (auto simp: number_value_def dec_int_def digits_value_dec_nat Let_def)
qed

text \<open>How a printed value begins.\<close>

lemma number_begins: "number_token t = Some (t, []) \<Longrightarrow> \<exists>u r. t = u # r \<and> (u = 45 \<or> is_digit_unit u)"
  by (cases t) (auto simp: number_token_def integer_part_def is_digit_unit_def is_digit_def split: if_splits)

lemma digit_visible: "u = 45 \<or> is_digit_unit u \<Longrightarrow> 32 < unat u \<and> unat u \<le> 127 \<and> u \<notin> {34, 91, 93, 123, 125, 116, 102, 110}"
  by (auto simp: is_digit_unit_def is_digit_def)

lemma stringify_begins: "legible v \<Longrightarrow> \<exists>u r. stringify v = u # r \<and> 32 < unat u \<and> unat u \<le> 127 \<and> u \<notin> {93, 125}"
proof -
  assume p: "legible v"
  have num: "\<exists>u r. t = u # r \<and> 32 < unat u \<and> unat u \<le> 127 \<and> u \<notin> {93, 125}"
    if "\<exists>u r. t = u # r \<and> (u = 45 \<or> is_digit_unit u)" for t
    using that digit_visible by fastforce
  show ?thesis
  proof (cases v)
    case (JNum n)
    then show ?thesis using p num [OF number_begins] by (auto simp: js_def cu_def)
  qed (auto simp: quote_text_def js_def cu_def)
qed

lemma literal_texts [simp]:
  "literal (js ''true'' @ s) = Some (JBool True, s)" "literal (js ''false'' @ s) = Some (JBool False, s)"
  "literal (js ''null'' @ s) = Some (JNull, s)"
  by (simp_all add: literal_def js_def cu_def)

lemma literal_digit: "u = 45 \<or> is_digit_unit u \<Longrightarrow> literal (u # s) = None"
  using digit_visible [of u] by (auto simp: literal_def js_def cu_def)

lemma parse_literal:
  assumes "sane g" and "\<not> too_deep g d" and "v \<in> {JNull, JBool True, JBool False}"
  shows "parse_value g real (Suc n) d (stringify v @ s) = Some (v, s)"
proof -
  have "\<exists>u r. stringify v @ s = u # r \<and> u \<notin> {123, 91, 34} \<and> skip g (u # r) = u # r"
    using assms(3) by (auto simp: js_def cu_def skip_visible [OF assms(1)])
  then obtain u r where u: "stringify v @ s = u # r" "u \<notin> {123, 91, 34}" "skip g (u # r) = u # r" by blast
  have "literal (stringify v @ s) = Some (v, s)" using assms(3) by auto
  then show ?thesis using assms(2) u by simp
qed

lemma parse_number:
  assumes g: "sane g" "\<not> too_deep g d" and t: "number_token (t @ s) = Some (t, s)" "t = u # r" "u = 45 \<or> is_digit_unit u"
  shows "parse_value g real (Suc n) d (t @ s) = Some (JNum (number_value real t), s)"
proof -
  have "skip g (u # r @ s) = u # r @ s" using digit_visible [OF t(3)] by (intro skip_visible [OF g(1)]) auto
  then show ?thesis using g t digit_visible [OF t(3)] literal_digit [OF t(3)] by auto
qed

lemma set_member_fresh: "k \<notin> fst ` set kvs \<Longrightarrow> set_member k v kvs = kvs @ [(k, v)]"
  by (induction k v kvs rule: set_member.induct) auto

abbreviation member_text :: "jstr \<times> json \<Rightarrow> jstr" where
  "member_text kx \<equiv> quote_text (fst kx) @ 58 # stringify (snd kx)"

text \<open>What the recursive calls give for the parts of an array and of an object.\<close>

definition reads :: "grammar \<Rightarrow> (jstr \<Rightarrow> jnum) \<Rightarrow> nat \<Rightarrow> json \<Rightarrow> bool" where
  "reads g real d v \<longleftrightarrow> (\<forall>n s. length (stringify v) \<le> n \<longrightarrow> stops s \<longrightarrow>
     parse_value g real n d (stringify v @ s) = Some (reread real v, s))"

lemma readsD: "reads g real d v \<Longrightarrow> length (stringify v) \<le> n \<Longrightarrow> stops s \<Longrightarrow>
    parse_value g real n d (stringify v @ s) = Some (reread real v, s)"
  by (simp add: reads_def)

lemma readsI:
  assumes "stringify v \<noteq> []"
    and "\<And>n s. length (stringify v) \<le> Suc n \<Longrightarrow> stops s \<Longrightarrow>
      parse_value g real (Suc n) d (stringify v @ s) = Some (reread real v, s)"
  shows "reads g real d v"
  unfolding reads_def
proof (intro allI impI)
  fix n s assume n: "length (stringify v) \<le> n" "stops s"
  then obtain m where "n = Suc m" using assms(1) by (cases n) auto
  then show "parse_value g real n d (stringify v @ s) = Some (reread real v, s)" using assms(2) [of m s] n by simp
qed

lemma stops_marks [simp]: "stops (44 # s)" "stops (93 # s)" "stops (125 # s)"
  by (simp_all add: stops_def is_digit_unit_def is_digit_def)

lemma parse_items_text:
  "sane g \<Longrightarrow> xs \<noteq> [] \<Longrightarrow> \<forall>x \<in> set xs. reads g real (Suc d) x \<Longrightarrow> length (join_on 44 (map stringify xs)) < n \<Longrightarrow>
   parse_items g real n d (join_on 44 (map stringify xs) @ 93 # s) = Some (map (reread real) xs, s)"
proof (induction xs arbitrary: n)
  case (Cons x xs)
  then obtain m where n: "n = Suc m" by (cases n) auto
  show ?case
  proof (cases xs)
    case Nil
    then show ?thesis using Cons.prems n readsD [of g real "Suc d" x m "93 # s"] by simp
  next
    case (Cons y ys)
    then show ?thesis using Cons.prems n Cons.IH [of m] readsD [of g real "Suc d" x m "44 # join_on 44 (map stringify xs) @ 93 # s"]
      by simp
  qed
qed simp

abbreviation reread_members :: "(jstr \<Rightarrow> jnum) \<Rightarrow> (jstr \<times> json) list \<Rightarrow> (jstr \<times> json) list" where
  "reread_members real kvs \<equiv> map (\<lambda>(k, x). (k, reread real x)) kvs"

lemma parse_members_text:
  "sane g \<Longrightarrow> kvs \<noteq> [] \<Longrightarrow> \<forall>(k, x) \<in> set kvs. reads g real (Suc d) x \<Longrightarrow>
   distinct (map fst (seen @ kvs)) \<Longrightarrow> keys_fit g (map fst seen) (map fst kvs) \<Longrightarrow>
   length (join_on 44 (map member_text kvs)) < n \<Longrightarrow>
   parse_members g real n d seen (join_on 44 (map member_text kvs) @ 125 # s) = Some (seen @ reread_members real kvs, s)"
proof (induction kvs arbitrary: n seen)
  case (Cons kx kvs)
  obtain k x where kx: "kx = (k, x)" by (cases kx)
  from Cons.prems obtain m where n: "n = Suc m" by (cases n) auto
  have q: "quote_text k @ t = 34 # quoted_units k @ 34 # t" for t
    by (simp add: quote_text_def)
  have fresh: "set_member k (reread real x) seen = seen @ [(k, reread real x)]" using Cons.prems kx by (intro set_member_fresh) auto
  have rd: "reads g real (Suc d) x" using Cons.prems kx by simp
  show ?case
  proof (cases kvs)
    case Nil
    then show ?thesis using Cons.prems n kx fresh readsD [OF rd, of m "125 # s"] by (simp add: q string_tail_quoted)
  next
    case (Cons y ys)
    let ?t = "44 # join_on 44 (map member_text kvs) @ 125 # s"
    have "parse_members g real m d (seen @ [(k, reread real x)]) (join_on 44 (map member_text kvs) @ 125 # s) =
        Some ((seen @ [(k, reread real x)]) @ reread_members real kvs, s)"
      using Cons.prems n kx Cons by (intro Cons.IH) auto
    then show ?thesis using Cons.prems n kx fresh Cons readsD [OF rd, of m ?t] by (simp add: q string_tail_quoted)
  qed
qed simp

theorem parse_stringify:
  "sane g \<Longrightarrow> legible v \<Longrightarrow> fits g d v \<Longrightarrow> reads g real d v"
proof (induction v arbitrary: d)
  case (JNum m)
  show ?case
  proof (cases "number_text m = js ''null''")
    case True
    then show ?thesis using JNum.prems parse_literal [of g d JNull real]
      by (intro readsI) (simp_all add: js_def del: parse_value.simps)
  next
    case False
    then obtain u r where u: "number_text m = u # r" "u = 45 \<or> is_digit_unit u"
      using JNum.prems(2) number_begins [of "number_text m"] by auto
    show ?thesis
    proof (rule readsI)
      fix n s
      assume s: "stops s"
      have "number_token (number_text m @ s) = Some (number_text m, s)"
        using JNum.prems(2) False number_append [OF s] by simp
      then show "parse_value g real (Suc n) d (stringify (JNum m) @ s) = Some (reread real (JNum m), s)"
        using parse_number [OF JNum.prems(1) _ _ u] JNum.prems(3) False by (simp del: parse_value.simps)
    qed (simp add: u)
  qed
next
  case (JStr t)
  have "stringify (JStr t) @ s = 34 # quoted_units t @ 34 # s" for s
    by (simp add: quote_text_def)
  then show ?case using JStr.prems by (intro readsI) (simp_all add: string_tail_quoted quote_text_def del: stringify.simps)
next
  case (JArr xs)
  have all: "\<forall>x \<in> set xs. reads g real (Suc d) x" using JArr by (auto simp: list_all_iff)
  show ?case
  proof (cases xs)
    case Nil
    then show ?thesis using JArr.prems by (intro readsI) simp_all
  next
    case (Cons y ys)
    obtain u r where u: "stringify y = u # r" "32 < unat u" "unat u \<le> 127" "u \<notin> {93, 125}"
      using JArr.prems Cons stringify_begins [of y] by auto
    obtain r' where r': "join_on 44 (map stringify xs) = u # r'" using u(1) Cons by (cases ys) auto
    have items: "parse_items g real n d (u # r' @ 93 # s) = Some (map (reread real) xs, s)" if "length r' + 1 < n" for n s
      using parse_items_text [OF JArr.prems(1) _ all, of n s] Cons r' that by simp
    have "parse_value g real (Suc n) d (91 # u # r' @ 93 # s) = Some (reread real (JArr xs), s)" if "length r' + 2 \<le> n" for n s
      using JArr.prems items [of n s] that u skip_visible [OF JArr.prems(1) u(2,3)] by (simp del: parse_items.simps)
    then show ?thesis by (intro readsI) (simp_all add: r' del: parse_value.simps)
  qed
next
  case (JObj kvs)
  let ?kvs = "defined kvs"
  have all: "\<forall>(k, x) \<in> set ?kvs. reads g real (Suc d) x"
    using JObj by (fastforce simp: list_all_iff)
  have dist: "distinct (map fst ?kvs)" using JObj.prems(2) by (simp add: distinct_map_filter)
  have "(\<lambda>(k, x). quote_text k @ 58 # stringify x) = member_text" by auto
  then have printed: "stringify (JObj kvs) = 123 # join_on 44 (map member_text ?kvs) @ [125]" by simp
  show ?case
  proof (cases ?kvs)
    case Nil
    then show ?thesis using JObj.prems by (intro readsI) simp_all
  next
    case (Cons y ys)
    obtain r' where r': "join_on 44 (map member_text ?kvs) = 34 # r'" using Cons by (cases ys) (auto simp: quote_text_def)
    have members: "parse_members g real n d [] (34 # r' @ 125 # s) = Some (reread_members real ?kvs, s)" if "length r' + 1 < n" for n s
      using parse_members_text [OF JObj.prems(1) _ all, of "[]" n s] JObj.prems Cons r' that dist by simp
    have "parse_value g real (Suc n) d (123 # 34 # r' @ 125 # s) = Some (reread real (JObj kvs), s)" if "length r' + 2 \<le> n" for n s
      using JObj.prems members [of n s] that by (simp del: parse_members.simps)
    then show ?thesis by (intro readsI) (simp_all add: printed r' del: stringify.simps parse_value.simps reread.simps)
  qed
next
  case JNull
  then show ?case using parse_literal [of g d JNull] by (intro readsI) (simp_all add: js_def del: parse_value.simps)
next
  case JUndef
  then show ?case using parse_literal [of g d JNull] by (intro readsI) (simp_all add: js_def del: parse_value.simps)
next
  case (JBool b)
  then show ?case using parse_literal [of g d "JBool b"] by (intro readsI) (auto simp: js_def simp del: parse_value.simps)
qed

lemma parse_text_stringify:
  assumes "sane g" and "legible v" and "fits g 0 v"
  shows "parse_text g real (stringify v) = Some (reread real v)"
proof -
  have "parse_value g real (Suc (2 * length (stringify v))) 0 (stringify v) = Some (reread real v, [])"
    using readsD [OF parse_stringify [OF assms], of "Suc (2 * length (stringify v))" "[]"] by (simp add: stops_def del: parse_value.simps)
  then show ?thesis by (simp add: parse_text_def skip_def del: parse_value.simps)
qed

lemma json_keys_fit: "keys_fit json_grammar seen ks"
  by (induction ks arbitrary: seen) (simp_all add: json_grammar_def)

lemma json_fits: "fits json_grammar d v"
proof -
  have "\<not> too_deep json_grammar d" for d by (simp add: too_deep_def json_grammar_def)
  then show ?thesis by (induction v arbitrary: d) (auto simp: list_all_iff json_keys_fit)
qed

theorem json_parse_stringify: "legible v \<Longrightarrow> json_parse real (stringify v) = Some (reread real v)"
  by (simp add: json_parse_def parse_text_stringify sane_grammars json_fits)

lemma printable_legible: "printable real v \<Longrightarrow> legible v \<and> reread real v = v"
proof (induction v)
  case (JNum n)
  have "dec_int i \<noteq> js ''null''" for i
    using number_begins [of "dec_int i"] number_token_dec_int [of "[]" i] digit_visible by (fastforce simp: stops_def js_def cu_def)
  moreover have "number_token t = Some (t, []) \<Longrightarrow> t \<noteq> js ''null''" for t
    using number_begins [of t] digit_visible by (fastforce simp: js_def cu_def)
  ultimately show ?case using JNum number_token_dec_int [of "[]"] by (cases n) (auto simp: number_value_dec_int stops_def)
next
  case (JArr xs)
  then show ?case by (auto simp: list_all_iff intro: map_idI)
next
  case (JObj kvs)
  have "defined kvs = kvs" using JObj.prems by (auto simp: filter_id_conv list_all_iff)
  moreover have "reread_members real kvs = kvs" using JObj by (intro map_idI) (fastforce simp: list_all_iff)
  ultimately show ?case using JObj by (fastforce simp: list_all_iff)
qed simp_all

lemma json_parse_printable: "printable real v \<Longrightarrow> json_parse real (stringify v) = Some v"
  using printable_legible by (simp add: json_parse_stringify)

section \<open>The canonical text\<close>

text \<open>A JavaScript value: property names are distinct, and a fraction is named by its own text.\<close>

fun js_value :: "(jstr \<Rightarrow> jnum) \<Rightarrow> json \<Rightarrow> bool" where
  "js_value real (JNum (NFrac s)) = (number_token s = Some (s, []) \<and> number_value real s = NFrac s)"
| "js_value real (JArr xs) = list_all (js_value real) xs"
| "js_value real (JObj kvs) = (distinct (map fst kvs) \<and> list_all (\<lambda>(k, x). js_value real x) kvs)"
| "js_value real v = True"

lemma jnorm_undef: "jnorm v = JUndef \<longleftrightarrow> v = JUndef"
proof (cases v)
  case (JNum n)
  then show ?thesis by (cases n) simp_all
qed simp_all

lemma dec_int_zero: "dec_int 0 = js ''0''"
  by (simp add: dec_int_def dec_nat_def nat_digits.simps digit_unit_def js_def cu_def)

lemma canonical_is_stringify: "canonicalize_value v d = Ok t \<Longrightarrow> t = stringify (jnorm v)"
proof (induction v d arbitrary: t rule: canonicalize_value.induct)
  case (4 n d)
  then show ?case by (cases n) (auto simp: dec_int_zero split: if_splits)
next
  case (5 s d)
  then show ?case by (auto simp: quote_text_valid)
next
  case (6 xs d)
  then obtain items where items: "mapR (\<lambda>x. canonicalize_value x (Suc d)) xs = Ok items" "t = 91 # join_on 44 items @ [93]"
    and len: "\<not> max_canonical_array_items < length xs"
    by (auto split: if_splits)
  then have "items = map (stringify \<circ> jnorm) xs"
    using 6 unfolding mapR_Ok_iff by (intro nth_equalityI) (auto simp: list_all2_conv_all_nth)
  then show ?case using items by simp
next
  case (7 kvs d)
  let ?f = "\<lambda>(k, x). rbind (require (valid_unicode k) INVALID_INPUT) (\<lambda>_.
      rbind (canonicalize_value x (Suc d)) (\<lambda>t. Ok (json_quote k @ 58 # t)))"
  obtain fields where f: "mapR ?f (sort_key fst kvs) = Ok fields" "t = 123 # join_on 44 fields @ [125]" using 7 by auto
  have member: "y = member_text (k, jnorm x) \<and> x \<noteq> JUndef" if "(k, x) \<in> set kvs" "?f (k, x) = Ok y" for k x y
    using 7(1) [of "(k, x)" k x "()"] that by (auto simp: quote_text_valid)
  have all: "list_all2 (\<lambda>kx y. kx \<in> set kvs \<and> ?f kx = Ok y) (sort_key fst kvs) fields"
    using f(1) unfolding mapR_Ok_iff by (auto simp: list_all2_conv_all_nth nth_mem [of _ "sort_key fst kvs", simplified])
  then have "fields = map (\<lambda>(k, x). member_text (k, jnorm x)) (sort_key fst kvs) \<and> (\<forall>(k, x) \<in> set (sort_key fst kvs). x \<noteq> JUndef)"
    using member by (induction rule: list_all2_induct) fastforce+
  moreover from this have "filter (\<lambda>(k, x). x \<noteq> JUndef) (map (\<lambda>(k, x). (k, jnorm x)) (sort_key fst kvs)) =
      map (\<lambda>(k, x). (k, jnorm x)) (sort_key fst kvs)"
    by (auto simp: filter_id_conv jnorm_undef)
  ultimately show ?case using f(2) by (simp only: jnorm_JObj stringify.simps) (simp add: comp_def case_prod_unfold)
qed (auto split: if_splits)

lemma printable_jnorm: "canon_ok v d \<Longrightarrow> js_value real v \<Longrightarrow> printable real (jnorm v)"
proof (induction v arbitrary: d)
  case (JNum n)
  then show ?case by (cases n) (auto simp: max_safe_def split: if_splits)
next
  case (JArr xs)
  then show ?case by (fastforce simp: list_all_iff)
next
  case (JObj kvs)
  have "distinct (map fst (map (\<lambda>(k, x). (k, jnorm x)) (sort_key fst kvs)))"
  proof -
    have "distinct (map fst (sort_key fst kvs))"
      using JObj.prems(2) by (metis distinct_map distinct_sort js_value.simps(3) set_sort)
    then show ?thesis by (simp add: comp_def case_prod_unfold)
  qed
  then show ?case using JObj by (fastforce simp: list_all_iff)
qed auto

text \<open>\<open>JSON.parse(canonicalize(v))\<close>, which is what \<open>cloneCanonical\<close> computes.\<close>

theorem parse_canonical:
  assumes "canonicalize v = Ok t" and "js_value real v"
  shows "json_parse real t = Some (jnorm v)"
proof -
  have "canon_ok v 0" using assms(1) canonicalize_Ok_iff by blast
  then have "printable real (jnorm v)" using assms(2) by (rule printable_jnorm)
  moreover have "t = stringify (jnorm v)" using assms(1) canonical_is_stringify by (simp add: canonicalize_def)
  ultimately show ?thesis by (simp add: json_parse_printable)
qed

theorem parse_strict_canonical:
  assumes "canonicalize v = Ok t" and "js_value real v" and "fits strict_grammar 0 (jnorm v)"
  shows "parse_strict real t = Some (jnorm v)"
proof -
  have "canon_ok v 0" using assms(1) canonicalize_Ok_iff by blast
  then have "printable real (jnorm v)" using assms(2) by (rule printable_jnorm)
  moreover have "t = stringify (jnorm v)" using assms(1) canonical_is_stringify by (simp add: canonicalize_def)
  ultimately show ?thesis using assms parse_text_stringify [OF sane_grammars(2) _ assms(3)] printable_legible
    by (simp add: parse_strict_def json_parse_printable)
qed

text \<open>Canonical texts agree exactly when the normal forms do.\<close>

lemma canonical_eq_iff:
  assumes "canonicalize v = Ok s" and "canonicalize w = Ok t" and "js_value real v" and "js_value real w"
  shows "s = t \<longleftrightarrow> jnorm v = jnorm w"
  using parse_canonical [OF assms(1,3)] parse_canonical [OF assms(2,4)] assms(1,2) canonicalize_jnorm
  by (metis option.inject result.inject(2))

section \<open>Plain values\<close>

text \<open>
  Values without fractions, as all records of the domain are: integers, strings, booleans, null, arrays and
  objects with distinct property names. What canonicalizes of them prints without loss.
\<close>

fun plain :: "json \<Rightarrow> bool" where
  "plain JUndef = False"
| "plain (JNum (NInt i)) = True"
| "plain (JNum n) = False"
| "plain (JArr xs) = list_all plain xs"
| "plain (JObj kvs) = (distinct (map fst kvs) \<and> list_all (\<lambda>(k, x). plain x) kvs)"
| "plain v = True"

lemma plain_js_value: "plain v \<Longrightarrow> js_value real v"
proof (induction v)
  case (JNum n)
  then show ?case by (cases n) auto
qed (auto simp: list_all_iff)

lemma plain_printable: "plain v \<Longrightarrow> canon_ok v d \<Longrightarrow> printable real v"
proof (induction v arbitrary: d)
  case (JNum n)
  then show ?case by (cases n) (auto split: if_splits)
qed (fastforce simp: list_all_iff)+

lemma distinct_sort_key: "distinct (map f xs) \<Longrightarrow> distinct (map f (sort_key f xs))"
  by (metis distinct_map distinct_sort set_sort)

lemma plain_jnorm: "plain v \<Longrightarrow> plain (jnorm v)"
proof (induction v)
  case (JNum n)
  then show ?case by (cases n) simp_all
next
  case (JObj kvs)
  have "distinct (map fst (map (\<lambda>(k, x). (k, jnorm x)) (sort_key fst kvs)))"
    using JObj.prems distinct_sort_key [of fst kvs] by (simp add: comp_def case_prod_unfold)
  then show ?case using JObj by (fastforce simp: list_all_iff)
qed (auto simp: list_all_iff)

lemma plain_obj [simp]: "plain (obj kvs) \<longleftrightarrow> distinct (map fst kvs) \<and> list_all (\<lambda>(k, x). plain x) kvs"
proof -
  have "map fst (map (\<lambda>(k, v). (js k, v)) kvs) = map js (map fst kvs)" by (induction kvs) auto
  then show ?thesis by (auto simp: obj_def distinct_map inj_on_subset [OF inj_js] list_all_iff simp del: map_map)
qed

lemma legible_obj [simp]: "legible (obj kvs) \<longleftrightarrow> distinct (map fst kvs) \<and> list_all (\<lambda>(k, x). legible x) kvs"
proof -
  have "map fst (map (\<lambda>(k, v). (js k, v)) kvs) = map js (map fst kvs)" by (induction kvs) auto
  then show ?thesis by (auto simp: obj_def distinct_map inj_on_subset [OF inj_js] list_all_iff simp del: map_map)
qed

section \<open>What a parser returns can be printed\<close>

text \<open>Two values that print alike read back alike.\<close>

lemma stringify_inject: "legible v \<Longrightarrow> legible w \<Longrightarrow> stringify v = stringify w \<Longrightarrow> reread real v = reread real w"
  using json_parse_stringify [of v real] json_parse_stringify [of w real] by simp

lemma set_member_keys: "fst ` set (set_member k v kvs) = insert k (fst ` set kvs)"
  by (induction k v kvs rule: set_member.induct) auto

lemma set_member_distinct: "distinct (map fst kvs) \<Longrightarrow> distinct (map fst (set_member k v kvs))"
  by (induction k v kvs rule: set_member.induct) (auto simp: set_member_keys)

lemma set_member_legible:
  "list_all (\<lambda>(k, x). legible x) kvs \<Longrightarrow> legible v \<Longrightarrow> list_all (\<lambda>(k, x). legible x) (set_member k v kvs)"
  by (induction k v kvs rule: set_member.induct) auto

lemma legible_number: "\<forall>t. legible (JNum (real t)) \<Longrightarrow> legible (JNum (number_value real t))"
  using number_token_dec_int [of "[]" ] by (auto simp: number_value_def Let_def stops_def dec_int_zero [symmetric])

lemma literal_legible: "literal s = Some (v, r) \<Longrightarrow> legible v"
  by (auto simp: literal_def split: if_splits)

lemma parse_legible:
  assumes "\<forall>t. legible (JNum (real t))"
  shows "parse_value g real n d s = Some (v, r) \<Longrightarrow> legible v"
    "parse_items g real n d s = Some (xs, r) \<Longrightarrow> list_all legible xs"
    "parse_members g real n d seen s = Some (kvs, r) \<Longrightarrow> legible (JObj seen) \<Longrightarrow> legible (JObj kvs)"
  using assms
proof (induction g real n d s and g real n d s and g real n d seen s arbitrary: v r and xs r and kvs r
    rule: parse_value_parse_items_parse_members.induct)
  case (2 g real n d s)
  then show ?case using legible_number [OF 2(4)]
    by (fastforce split: if_splits list.splits option.splits dest: literal_legible simp del: legible.simps(1))
next
  case (4 g real n d s)
  then show ?case by (fastforce split: if_splits list.splits option.splits)
next
  case (6 g real n d seen s)
  then show ?case by (fastforce split: if_splits list.splits option.splits simp: set_member_distinct set_member_legible)
qed simp_all

lemma json_parse_legible: "\<forall>t. legible (JNum (real t)) \<Longrightarrow> json_parse real s = Some v \<Longrightarrow> legible v"
  by (auto simp: json_parse_def parse_text_def simp del: parse_value.simps legible.simps(1)
      dest: parse_legible(1) split: option.splits if_splits)

section \<open>The bound on the recursion is never reached\<close>

lemma skip_shorter: "length (skip g s) \<le> length s"
  by (simp add: skip_def length_dropWhile_le)

lemma skip_ConsD: "skip g s = u # r \<Longrightarrow> length r < length s"
  using skip_shorter [of g s] by simp

lemma string_tail_shorter: "string_tail s = Some (t, r) \<Longrightarrow> length r < length s"
proof (induction s arbitrary: t r rule: string_tail.induct)
  case (2 u s)
  then show ?case by (fastforce split: if_splits option.splits dest: unescape_shorter)
qed simp

lemma literal_shorter: "literal s = Some (v, r) \<Longrightarrow> length r < length s"
  by (cases s) (auto simp: literal_def js_def split: if_splits)

lemma digits_of_shorter: "length (snd (digits_of s)) \<le> length s" "fst (digits_of s) \<noteq> [] \<Longrightarrow> length (snd (digits_of s)) < length s"
proof -
  show le: "length (snd (digits_of s)) \<le> length s" by (simp add: digits_of_def length_dropWhile_le)
  have "length s = length (fst (digits_of s)) + length (snd (digits_of s))"
    by (metis digits_of_def fst_conv length_append snd_conv takeWhile_dropWhile_id)
  then show "fst (digits_of s) \<noteq> [] \<Longrightarrow> length (snd (digits_of s)) < length s" by simp
qed

lemma number_token_shorter: "number_token s = Some (t, r) \<Longrightarrow> length r < length s"
proof -
  assume t: "number_token s = Some (t, r)"
  have i: "length y < length x" if "integer_part x = Some (ds, y)" for x ds y
    using that digits_of_shorter(2) [of x] by (cases x) (auto simp: integer_part_def digits_of_def split: if_splits)
  have f: "length (snd (fraction_part x)) \<le> length x" for x
    using digits_of_shorter(1) by (cases x) (auto simp: fraction_part_def intro: le_SucI)
  have e: "length (snd (exponent_part x)) \<le> length x" for x
  proof (cases x)
    case (Cons u y)
    have "length (snd (digits_of y)) \<le> Suc (length y)" using digits_of_shorter(1) [of y] by simp
    moreover have "length (snd (digits_of (tl y))) \<le> Suc (length y)" using digits_of_shorter(1) [of "tl y"] by simp
    ultimately show ?thesis using Cons by (cases y) (auto simp: exponent_part_def Let_def split: prod.splits)
  qed (simp add: exponent_part_def)
  obtain sign r0 where sg: "(case s of u # r \<Rightarrow> if u = 45 then ([45], r) else ([], s) | [] \<Rightarrow> ([], s)) = (sign :: jstr, r0)"
    by (metis surj_pair)
  then have "length r0 \<le> length s" by (cases s) (auto split: if_splits)
  moreover obtain ds r1 where "integer_part r0 = Some (ds, r1)"
    using t sg by (auto simp: number_token_def split: option.splits)
  moreover have "r = snd (exponent_part (snd (fraction_part r1)))"
    using t calculation(2) unfolding number_token_def sg by (auto simp: Let_def split: prod.splits)
  ultimately show ?thesis using i [of r0 ds r1] f [of r1] e [of "snd (fraction_part r1)"] by simp
qed

lemma parse_shorter:
  "parse_value g real n d s = Some (v, r) \<Longrightarrow> length r < length s"
  "parse_items g real n d s = Some (xs, r) \<Longrightarrow> length r < length s"
  "parse_members g real n d seen s = Some (kvs, r) \<Longrightarrow> length r < length s"
proof (induction g real n d s and g real n d s and g real n d seen s arbitrary: v r and xs r and kvs r
    rule: parse_value_parse_items_parse_members.induct)
  case (2 g real n d s)
  then show ?case
    by (fastforce split: if_splits list.splits option.splits
        dest: skip_ConsD string_tail_shorter literal_shorter number_token_shorter)
next
  case (4 g real n d s)
  then show ?case by (fastforce split: if_splits list.splits option.splits dest: skip_ConsD)
next
  case (6 g real n d seen s)
  then show ?case by (fastforce split: if_splits list.splits option.splits dest: skip_ConsD string_tail_shorter)
qed simp_all

text \<open>Any two bounds above the length of the text give the same result, so the one chosen loses nothing.\<close>

lemma parse_bound:
  "2 * length s < n \<Longrightarrow> 2 * length s < m \<Longrightarrow> parse_value g real n d s = parse_value g real m d s"
  "Suc (2 * length s) < n \<Longrightarrow> Suc (2 * length s) < m \<Longrightarrow> parse_items g real n d s = parse_items g real m d s"
  "Suc (2 * length s) < n \<Longrightarrow> Suc (2 * length s) < m \<Longrightarrow> parse_members g real n d seen s = parse_members g real m d seen s"
proof (induction n arbitrary: m d s seen)
  case (Suc n)
  note shorter = parse_shorter skip_ConsD string_tail_shorter
  {
    case 1
    then obtain k where k: "m = Suc k" by (cases m) auto
    have "parse_members g real n d [] (v # r') = parse_members g real k d [] (v # r') \<and>
        parse_items g real n d (v # r') = parse_items g real k d (v # r')"
      if "skip g s = u # r" "skip g r = v # r'" for u v r r'
    proof -
      have "Suc (Suc (2 * length (v # r'))) \<le> 2 * length s"
        using skip_ConsD [OF that(1)] skip_shorter [of g r] that(2) by simp
      then show ?thesis using 1 k by (intro conjI Suc.IH) auto
    qed
    then show ?case unfolding k parse_value.simps by (auto split: list.splits)
  next
    case 2
    then obtain k where k: "m = Suc k" by (cases m) auto
    have v: "parse_value g real n (Suc d) s = parse_value g real k (Suc d) s" using 2 k by (intro Suc.IH) auto
    have "parse_items g real n d r' = parse_items g real k d r'"
      if "parse_value g real k (Suc d) s = Some (x, r)" "skip g r = u # r'" for x r u r'
      using 2 k parse_shorter(1) [OF that(1)] skip_ConsD [OF that(2)] by (intro Suc.IH) auto
    then show ?case unfolding k parse_items.simps v by (auto split: option.splits list.splits)
  next
    case 3
    then obtain k where k: "m = Suc k" by (cases m) auto
    have v: "parse_value g real n (Suc d) r' = parse_value g real k (Suc d) r'"
      if "skip g s = q # s'" "string_tail s' = Some (t, r)" "skip g r = c # r'" for q s' t r c r'
      using 3 k skip_ConsD [OF that(1)] string_tail_shorter [OF that(2)] skip_ConsD [OF that(3)] by (intro Suc.IH) auto
    have m: "parse_members g real n d seen' r3 = parse_members g real k d seen' r3"
      if "skip g s = q # s'" "string_tail s' = Some (t, r)" "skip g r = c # r'"
        "parse_value g real k (Suc d) r' = Some (x, r2)" "skip g r2 = u # r3" for q s' t r c r' x r2 u r3 seen'
      using 3 k skip_ConsD [OF that(1)] string_tail_shorter [OF that(2)] skip_ConsD [OF that(3)]
        parse_shorter(1) [OF that(4)] skip_ConsD [OF that(5)] by (intro Suc.IH) auto
    show ?case unfolding k parse_members.simps using v m by (auto split: list.splits option.splits)
  }
qed simp_all

end
