(* ===== verification/Asserts.thy ===== *)
theory Asserts
  imports Keys "HOL-Library.Char_ord"
begin

text \<open>
  The runtime checks of \<open>packages/domain/index.ts\<close> (\<open>assertRecord\<close>, \<open>assertKeys\<close>, \<open>assertId\<close>, ...).
  A check that narrows the type of its argument returns the narrowed value, as TypeScript's
  \<open>asserts value is T\<close> does.
\<close>

definition assert_record :: "json \<Rightarrow> unit res" where
  "assert_record v = (case v of JObj _ \<Rightarrow> Ok () | _ \<Rightarrow> fail INVALID_INPUT)"

definition assert_keys :: "json \<Rightarrow> string list \<Rightarrow> string list \<Rightarrow> unit res" where
  "assert_keys v req optional =
     rbind (forR (\<lambda>k. require (k \<in> js ` set (req @ optional)) INVALID_INPUT) (own_keys v)) (\<lambda>_.
     forR (\<lambda>k. require (has_own v k) INVALID_INPUT) req)"

definition assert_id :: "json \<Rightarrow> jstr res" where
  "assert_id v = (case v of JStr s \<Rightarrow> if is_id s then Ok s else fail INVALID_INPUT | _ \<Rightarrow> fail INVALID_INPUT)"

definition assert_digest :: "json \<Rightarrow> jstr res" where
  "assert_digest v = (case v of JStr s \<Rightarrow> if is_digest s then Ok s else fail INVALID_INPUT | _ \<Rightarrow> fail INVALID_INPUT)"

definition assert_usage_scope :: "json \<Rightarrow> jstr res" where
  "assert_usage_scope v = (case v of JStr s \<Rightarrow> if is_usage_scope s then Ok s else fail INVALID_INPUT
     | _ \<Rightarrow> fail INVALID_INPUT)"

text \<open>A well-formed string of 1 to \<open>max_length\<close> code points.\<close>

definition text_ok :: "nat \<Rightarrow> jstr \<Rightarrow> bool" where
  "text_ok max_length s \<longleftrightarrow> valid_unicode s \<and> 1 \<le> length (code_points s) \<and> length (code_points s) \<le> max_length"

definition assert_non_empty_string :: "json \<Rightarrow> nat \<Rightarrow> jstr res" where
  "assert_non_empty_string v max_length =
     (case v of JStr s \<Rightarrow> if text_ok max_length s then Ok s else fail INVALID_INPUT | _ \<Rightarrow> fail INVALID_INPUT)"

text \<open>Minus zero passes as a safe integer and is canonicalized to zero.\<close>

definition assert_safe_integer :: "json \<Rightarrow> int \<Rightarrow> int res" where
  "assert_safe_integer v minimum =
     (case v of
        JNum (NInt i) \<Rightarrow> if \<bar>i\<bar> \<le> max_safe \<and> minimum \<le> i then Ok i else fail INVALID_INPUT
      | JNum NNegZero \<Rightarrow> if minimum \<le> 0 then Ok 0 else fail INVALID_INPUT
      | _ \<Rightarrow> fail INVALID_INPUT)"

definition assert_array :: "json \<Rightarrow> json list res" where
  "assert_array v = (case v of JArr xs \<Rightarrow> Ok xs | _ \<Rightarrow> fail INVALID_INPUT)"

definition assert_bool :: "json \<Rightarrow> bool res" where
  "assert_bool v = (case v of JBool b \<Rightarrow> Ok b | _ \<Rightarrow> fail INVALID_INPUT)"

fun unique_canonical :: "jstr set \<Rightarrow> json list \<Rightarrow> unit res" where
  "unique_canonical seen [] = Ok ()"
| "unique_canonical seen (v # vs) =
     rbind (canonicalize v) (\<lambda>key.
       if key \<in> seen then fail INVALID_INPUT else unique_canonical (insert key seen) vs)"

definition assert_unique_canonical :: "json list \<Rightarrow> unit res" where
  "assert_unique_canonical vs = unique_canonical {} vs"

fun assert_no_agreement_id :: "json \<Rightarrow> unit res" where
  "assert_no_agreement_id (JArr xs) = forR assert_no_agreement_id xs"
| "assert_no_agreement_id (JObj kvs) =
     (if js ''agreement_id'' \<in> fst ` set kvs then fail INVALID_INPUT
      else forR (\<lambda>(k, x). assert_no_agreement_id x) kvs)"
| "assert_no_agreement_id v = Ok ()"

text \<open>\<open>ConfigVersion = string | number\<close> and its check \<open>assertVersion\<close>.\<close>

datatype version = VNum int | VStr jstr

definition assert_version :: "json \<Rightarrow> version res" where
  "assert_version v = (case v of
     JNum _ \<Rightarrow> rmap VNum (assert_safe_integer v 1)
   | _ \<Rightarrow> rmap VStr (assert_id v))"

fun enc_version :: "version \<Rightarrow> json" where
  "enc_version (VNum i) = JNum (NInt i)"
| "enc_version (VStr s) = JStr s"

fun wf_version :: "version \<Rightarrow> bool" where
  "wf_version (VNum i) = (1 \<le> i \<and> i \<le> max_safe)"
| "wf_version (VStr s) = is_id s"

text \<open>\<open>assertSlotShape\<close>\<close>

definition assert_slot_shape :: "json \<Rightarrow> slot res" where
  "assert_slot_shape v =
     rbind (assert_record v) (\<lambda>_.
     rbind (assert_id (fld v ''channel_id'')) (\<lambda>ch.
     rbind (assert_id (fld v ''document_id'')) (\<lambda>doc.
     rbind (assert_id (fld v ''context_id'')) (\<lambda>ctx.
     rbind (assert_id (fld v ''scope_id'')) (\<lambda>sc.
     rbind (assert_usage_scope (fld v ''usage_scope'')) (\<lambda>us.
     Ok \<lparr>channel_id = ch, document_id = doc, context_id = ctx, scope_id = sc, usage_scope = us\<rparr>))))))"

section \<open>When the checks pass\<close>

lemma assert_id_Ok [simp]: "assert_id v = Ok s \<longleftrightarrow> v = JStr s \<and> is_id s"
  by (auto simp: assert_id_def split: json.splits)

lemma assert_digest_Ok [simp]: "assert_digest v = Ok s \<longleftrightarrow> v = JStr s \<and> is_digest s"
  by (auto simp: assert_digest_def split: json.splits)

lemma assert_usage_scope_Ok [simp]: "assert_usage_scope v = Ok s \<longleftrightarrow> v = JStr s \<and> is_usage_scope s"
  by (auto simp: assert_usage_scope_def split: json.splits)

lemma assert_non_empty_string_Ok [simp]:
  "assert_non_empty_string v n = Ok s \<longleftrightarrow> v = JStr s \<and> text_ok n s"
  by (auto simp: assert_non_empty_string_def split: json.splits)

lemma assert_safe_integer_Ok: "assert_safe_integer v m = Ok i \<Longrightarrow> \<bar>i\<bar> \<le> max_safe \<and> m \<le> i"
  by (auto simp: assert_safe_integer_def max_safe_def split: json.splits jnum.splits if_splits)

lemma assert_safe_integer_NInt [simp]:
  "assert_safe_integer (JNum (NInt i)) m = Ok j \<longleftrightarrow> j = i \<and> \<bar>i\<bar> \<le> max_safe \<and> m \<le> i"
  by (auto simp: assert_safe_integer_def)

lemma assert_array_Ok [simp]: "assert_array v = Ok xs \<longleftrightarrow> v = JArr xs"
  by (auto simp: assert_array_def split: json.splits)

lemma assert_bool_Ok [simp]: "assert_bool v = Ok b \<longleftrightarrow> v = JBool b"
  by (auto simp: assert_bool_def split: json.splits)

lemma assert_record_Ok: "assert_record v = Ok u \<longleftrightarrow> (\<exists>kvs. v = JObj kvs)"
  by (auto simp: assert_record_def split: json.splits)

lemma assert_record_obj [simp]: "assert_record (obj kvs) = Ok ()"
  by (simp add: assert_record_def obj_def)

lemma assert_keys_Ok:
  "assert_keys v req optional = Ok u \<longleftrightarrow>
     set (own_keys v) \<subseteq> js ` set (req @ optional) \<and> (\<forall>k \<in> set req. has_own v k)"
  by (auto simp: assert_keys_def)

lemma assert_keys_obj [simp]:
  "assert_keys (obj kvs) req optional = Ok u \<longleftrightarrow>
     fst ` set kvs \<subseteq> set (req @ optional) \<and> set req \<subseteq> fst ` set kvs"
proof -
  have "set (own_keys (obj kvs)) \<subseteq> js ` set (req @ optional) \<longleftrightarrow> fst ` set kvs \<subseteq> set (req @ optional)"
    using inj_image_subset_iff [OF inj_js, of "fst ` set kvs" "set (req @ optional)"]
    by (simp add: image_comp)
  then show ?thesis unfolding assert_keys_Ok by auto
qed

lemma assert_version_Ok_wf: "assert_version v = Ok x \<Longrightarrow> wf_version x"
  by (auto simp: assert_version_def dest: assert_safe_integer_Ok split: json.splits)

lemma assert_version_enc [simp]: "wf_version x \<Longrightarrow> assert_version (enc_version x) = Ok x"
  by (cases x) (auto simp: assert_version_def)

lemma enc_version_eq_iff [simp]: "enc_version x = enc_version y \<longleftrightarrow> x = y"
  by (cases x; cases y) auto

lemma assert_slot_shape_wf: "assert_slot_shape v = Ok s \<Longrightarrow> wf_slot s"
  by (auto simp: assert_slot_shape_def wf_slot_def)

text \<open>The same facts as evaluation rules, for reading an encoded record back.\<close>

lemma assert_id_JStr: "is_id s \<Longrightarrow> assert_id (JStr s) = Ok s" by simp
lemma assert_digest_JStr: "is_digest s \<Longrightarrow> assert_digest (JStr s) = Ok s" by simp
lemma assert_usage_scope_JStr: "is_usage_scope s \<Longrightarrow> assert_usage_scope (JStr s) = Ok s" by simp
lemma assert_text_JStr: "text_ok n s \<Longrightarrow> assert_non_empty_string (JStr s) n = Ok s" by simp
lemma assert_integer_NInt: "\<bar>i\<bar> \<le> max_safe \<Longrightarrow> m \<le> i \<Longrightarrow> assert_safe_integer (JNum (NInt i)) m = Ok i" by simp
lemma assert_array_JArr: "assert_array (JArr xs) = Ok xs" by simp
lemma assert_bool_JBool: "assert_bool (JBool b) = Ok b" by simp
lemma assert_keys_objI:
  "fst ` set kvs \<subseteq> set (req @ optional) \<Longrightarrow> set req \<subseteq> fst ` set kvs \<Longrightarrow> assert_keys (obj kvs) req optional = Ok ()"
  by simp

lemmas assert_eval = assert_id_JStr assert_digest_JStr assert_usage_scope_JStr assert_text_JStr
  assert_integer_NInt assert_array_JArr assert_bool_JBool assert_keys_objI

section \<open>Object literals in canonical order\<close>

text \<open>
  The order of code-unit strings agrees with the order of the ASCII property names, so that an
  object literal whose names are listed in alphabetical order is its own normal form.
\<close>

lemma cu_le_iff: "cu c \<le> cu d \<longleftrightarrow> c \<le> d" and cu_less_iff: "cu c < cu d \<longleftrightarrow> c < d"
  by (simp_all add: word_le_nat_alt word_less_nat_alt unat_cu less_eq_char_def less_char_def)

lemma js_less_iff: "js a < js b \<longleftrightarrow> a < b"
proof (induction a arbitrary: b)
  case Nil
  then show ?case by (cases b) (auto simp: js_def)
next
  case (Cons c a)
  then show ?case by (cases b) (auto simp: js_def cu_less_iff)
qed

lemma js_le_iff: "js a \<le> js b \<longleftrightarrow> a \<le> b"
  using js_less_iff [of a b] js_eq_iff [of a b] by (metis order_le_less)

text \<open>\<open>sorted\<close>, comparing neighbours only.\<close>

fun ascending :: "string list \<Rightarrow> bool" where
  "ascending (a # b # xs) = (a \<le> b \<and> ascending (b # xs))"
| "ascending _ = True"

lemma ascending_sorted: "ascending xs \<Longrightarrow> sorted xs"
  by (induction xs rule: ascending.induct) auto

lemma jnorm_obj:
  assumes "ascending (map fst kvs)"
  shows "jnorm (obj kvs) = obj (map (\<lambda>(k, x). (k, jnorm x)) kvs)"
proof -
  have "sorted (map fst (map (\<lambda>(k, x). (js k, x)) kvs))"
    using ascending_sorted [OF assms] by (induction kvs) (auto simp: js_le_iff)
  then show ?thesis by (simp add: obj_def jnorm_sorted comp_def split_def del: jnorm_JObj)
qed

lemma canon_ok_obj:
  "canon_ok (obj kvs) d \<longleftrightarrow> d \<le> 128 \<and> (\<forall>(k, x) \<in> set kvs. valid_unicode (js k) \<and> canon_ok x (Suc d))"
  by (auto simp: obj_def)

lemma valid_unicode_js [simp]: "valid_unicode (js s)"
proof (rule low_valid_unicode)
  show "\<forall>u \<in> set (js s). unat u < 0xD800"
  proof
    fix u assume "u \<in> set (js s)"
    then obtain c where u: "u = cu c" by (auto simp: js_def)
    have "unat u < 256" unfolding u unat_cu by (rule nat_of_char_less_256)
    then show "unat u < 0xD800" by simp
  qed
qed

end
