(* ===== verification/Records.thy ===== *)
theory Records
  imports Asserts
begin

text \<open>
  The records of the domain (the interfaces of \<open>packages/domain/index.ts\<close>), and for each of them
  the object literal that the code writes (\<open>enc_...\<close>). A record that extends \<open>Slot\<close> carries the
  slot as one field. The literals list their properties alphabetically, which is how the ledger
  stores them after \<open>cloneCanonical\<close>.
\<close>

section \<open>Actors\<close>

datatype actor_kind = Human | Agent

record actor =
  org_id :: jstr
  actor_id :: jstr
  kind :: actor_kind

fun enc_kind :: "actor_kind \<Rightarrow> json" where
  "enc_kind Human = JStr (js ''human'')"
| "enc_kind Agent = JStr (js ''agent'')"

definition dec_kind :: "ecode \<Rightarrow> nat \<Rightarrow> bool \<Rightarrow> json \<Rightarrow> actor_kind res" where
  "dec_kind c status retryable v =
     (if v = JStr (js ''human'') then Ok Human
      else if v = JStr (js ''agent'') then Ok Agent
      else fail_as c status retryable)"

definition enc_actor :: "actor \<Rightarrow> json" where
  "enc_actor a = obj [(''actor_id'', JStr (actor_id a)), (''kind'', enc_kind (kind a)), (''org_id'', JStr (org_id a))]"

definition wf_actor :: "actor \<Rightarrow> bool" where
  "wf_actor a \<longleftrightarrow> is_id (org_id a) \<and> is_id (actor_id a)"

section \<open>Document revisions\<close>

datatype enforcement = RequiresActive | Informational

record dependency =
  dep_slot :: slot
  dep_digest :: jstr
  dep_relationship :: jstr
  dep_enforcement :: enforcement

record shared_assertion =
  as_id :: jstr
  as_statement :: jstr

datatype source_kind = HumanAuthored | ApprovedImport | LlmDrafted

record metadata =
  md_author_id :: jstr
  md_created_at :: jstr
  md_source_kind :: source_kind
  md_assertions :: "shared_assertion list"
  md_author_org_id :: jstr

record payload =
  pl_revision_id :: jstr
  pl_slot :: slot
  pl_title :: jstr
  pl_body :: jstr
  pl_parents :: "jstr list"
  pl_dependencies :: "dependency list"
  pl_metadata :: metadata

record revision =
  rv_digest :: jstr
  rv_payload :: payload

abbreviation rv_slot :: "revision \<Rightarrow> slot" where
  "rv_slot r \<equiv> pl_slot (rv_payload r)"

fun enc_enforcement :: "enforcement \<Rightarrow> json" where
  "enc_enforcement RequiresActive = JStr (js ''requires_active'')"
| "enc_enforcement Informational = JStr (js ''informational'')"

fun enc_source_kind :: "source_kind \<Rightarrow> json" where
  "enc_source_kind HumanAuthored = JStr (js ''human_authored'')"
| "enc_source_kind ApprovedImport = JStr (js ''approved_import'')"
| "enc_source_kind LlmDrafted = JStr (js ''llm_drafted'')"

definition enc_dependency :: "dependency \<Rightarrow> json" where
  "enc_dependency d = obj
     [(''channel_id'', JStr (channel_id (dep_slot d))),
      (''context_id'', JStr (context_id (dep_slot d))),
      (''document_id'', JStr (document_id (dep_slot d))),
      (''enforcement'', enc_enforcement (dep_enforcement d)),
      (''relationship'', JStr (dep_relationship d)),
      (''revision_digest'', JStr (dep_digest d)),
      (''scope_id'', JStr (scope_id (dep_slot d))),
      (''usage_scope'', JStr (usage_scope (dep_slot d)))]"

definition enc_assertion :: "shared_assertion \<Rightarrow> json" where
  "enc_assertion a = obj
     [(''assertion_id'', JStr (as_id a)),
      (''source_visibility'', JStr (js ''private_shared_assertion'')),
      (''statement'', JStr (as_statement a))]"

definition enc_metadata :: "metadata \<Rightarrow> json" where
  "enc_metadata m = obj
     [(''author_id'', JStr (md_author_id m)),
      (''author_org_id'', JStr (md_author_org_id m)),
      (''created_at'', JStr (md_created_at m)),
      (''shared_assertions'', JArr (map enc_assertion (md_assertions m))),
      (''source_kind'', enc_source_kind (md_source_kind m))]"

definition enc_payload :: "payload \<Rightarrow> json" where
  "enc_payload p = obj
     [(''body_markdown'', JStr (pl_body p)),
      (''channel_id'', JStr (channel_id (pl_slot p))),
      (''context_id'', JStr (context_id (pl_slot p))),
      (''contract_type'', JStr (js ''DocumentRevision'')),
      (''contract_version'', JNum (NInt 1)),
      (''dependencies'', JArr (map enc_dependency (pl_dependencies p))),
      (''document_id'', JStr (document_id (pl_slot p))),
      (''metadata'', enc_metadata (pl_metadata p)),
      (''parents'', JArr (map JStr (pl_parents p))),
      (''revision_id'', JStr (pl_revision_id p)),
      (''scope_id'', JStr (scope_id (pl_slot p))),
      (''title'', JStr (pl_title p)),
      (''usage_scope'', JStr (usage_scope (pl_slot p))),
      (''visibility'', JStr (js ''shared_channel''))]"

definition enc_revision :: "revision \<Rightarrow> json" where
  "enc_revision r = obj
     [(''payload'', enc_payload (rv_payload r)), (''revision_digest'', JStr (rv_digest r))]"

section \<open>Policies and the channel configuration\<close>

record representative =
  rep_role :: jstr
  rep_org :: jstr
  rep_actor :: jstr

record policy =
  pol_id :: jstr
  pol_version :: int
  pol_slot :: slot
  pol_epoch :: int
  pol_binding :: int
  pol_acceptance_slot :: jstr
  pol_roles :: "jstr list"
  pol_allowed :: "jstr list"
  pol_reps :: "representative list"

record identity =
  ident_org :: jstr
  ident_actor :: jstr
  ident_kind :: actor_kind
  ident_contexts :: "jstr list"
  ident_can_propose :: bool

record config =
  cfg_version :: version
  cfg_channel :: jstr
  cfg_epoch :: int
  cfg_binding :: int
  cfg_serving :: bool
  cfg_identities :: "identity list"
  cfg_policies :: "policy list"

definition enc_representative :: "representative \<Rightarrow> json" where
  "enc_representative r = obj
     [(''actor_id'', JStr (rep_actor r)), (''actor_org_id'', JStr (rep_org r)), (''domain_role'', JStr (rep_role r))]"

definition enc_policy :: "policy \<Rightarrow> json" where
  "enc_policy p = obj
     [(''acceptance_slot'', JStr (pol_acceptance_slot p)),
      (''allowed_decisions'', JArr (map JStr (pol_allowed p))),
      (''channel_id'', JStr (channel_id (pol_slot p))),
      (''context_id'', JStr (context_id (pol_slot p))),
      (''contract_type'', JStr (js ''AgreementPolicy'')),
      (''contract_version'', JNum (NInt 1)),
      (''document_id'', JStr (document_id (pol_slot p))),
      (''membership_epoch'', JNum (NInt (pol_epoch p))),
      (''policy_id'', JStr (pol_id p)),
      (''policy_version'', JNum (NInt (pol_version p))),
      (''required_domain_roles'', JArr (map JStr (pol_roles p))),
      (''role_binding_version'', JNum (NInt (pol_binding p))),
      (''role_decision_rule'', JStr (js ''named_representatives'')),
      (''role_representatives'', JArr (map enc_representative (pol_reps p))),
      (''scope_id'', JStr (scope_id (pol_slot p))),
      (''usage_scope'', JStr (usage_scope (pol_slot p)))]"

definition enc_identity :: "identity \<Rightarrow> json" where
  "enc_identity i = obj
     [(''actor_id'', JStr (ident_actor i)),
      (''can_propose'', JBool (ident_can_propose i)),
      (''kind'', enc_kind (ident_kind i)),
      (''org_id'', JStr (ident_org i)),
      (''publish_contexts'', JArr (map JStr (ident_contexts i)))]"

definition enc_config :: "config \<Rightarrow> json" where
  "enc_config c = obj
     [(''channel_id'', JStr (cfg_channel c)),
      (''config_version'', enc_version (cfg_version c)),
      (''identities'', JArr (map enc_identity (cfg_identities c))),
      (''membership_epoch'', JNum (NInt (cfg_epoch c))),
      (''policies'', JArr (map enc_policy (cfg_policies c))),
      (''role_binding_version'', JNum (NInt (cfg_binding c))),
      (''serving_enabled'', JBool (cfg_serving c))]"

section \<open>Proposals, decisions, agreements\<close>

datatype proposal_status = Open | Activated

record proposal =
  pr_id :: jstr
  pr_digest :: jstr
  pr_policy_id :: jstr
  pr_policy_version :: int
  pr_epoch :: int
  pr_binding :: int
  pr_config_version :: version
  pr_status :: proposal_status
  pr_created_by :: actor
  pr_created_at :: jstr
  pr_counter :: int
  pr_agreement :: "jstr option"
  pr_slot :: slot

datatype decision_kind = Approve | Object | Abstain | Retract

record decision =
  de_id :: jstr
  de_digest :: jstr
  de_slot :: slot
  de_policy_id :: jstr
  de_policy_version :: int
  de_epoch :: int
  de_binding :: int
  de_org :: jstr
  de_actor :: jstr
  de_subject :: jstr
  de_role :: jstr
  de_kind :: decision_kind
  de_rationale :: jstr
  de_at :: jstr
  de_proposal :: jstr
  de_retracts :: "jstr option"

datatype agreement_status = Active | Superseded | Withdrawn | Suspended

record agreement =
  ag_id :: jstr
  ag_proposal :: jstr
  ag_digest :: jstr
  ag_policy_id :: jstr
  ag_policy_version :: int
  ag_epoch :: int
  ag_binding :: int
  ag_approvals :: "jstr list"
  ag_status :: agreement_status
  ag_by :: actor
  ag_at :: jstr
  ag_reason :: "jstr option"
  ag_changed_by :: "actor option"
  ag_changed_at :: "jstr option"
  ag_slot :: slot

definition opt_prop :: "string \<Rightarrow> json option \<Rightarrow> (string \<times> json) list" where
  "opt_prop k x = (case x of None \<Rightarrow> [] | Some v \<Rightarrow> [(k, v)])"

fun enc_proposal_status :: "proposal_status \<Rightarrow> json" where
  "enc_proposal_status Open = JStr (js ''open'')"
| "enc_proposal_status Activated = JStr (js ''activated'')"

fun decision_word :: "decision_kind \<Rightarrow> jstr" where
  "decision_word Approve = js ''approve''"
| "decision_word Object = js ''object''"
| "decision_word Abstain = js ''abstain''"
| "decision_word Retract = js ''retract''"

fun status_word :: "agreement_status \<Rightarrow> jstr" where
  "status_word Active = js ''active''"
| "status_word Superseded = js ''superseded''"
| "status_word Withdrawn = js ''withdrawn''"
| "status_word Suspended = js ''suspended''"

definition enc_proposal :: "proposal \<Rightarrow> json" where
  "enc_proposal p = obj (
     opt_prop ''agreement_id'' (map_option JStr (pr_agreement p)) @
     [(''channel_id'', JStr (channel_id (pr_slot p))),
      (''config_version'', enc_version (pr_config_version p)),
      (''context_id'', JStr (context_id (pr_slot p))),
      (''created_at'', JStr (pr_created_at p)),
      (''created_by'', enc_actor (pr_created_by p)),
      (''document_id'', JStr (document_id (pr_slot p))),
      (''membership_epoch'', JNum (NInt (pr_epoch p))),
      (''policy_id'', JStr (pr_policy_id p)),
      (''policy_version'', JNum (NInt (pr_policy_version p))),
      (''proposal_id'', JStr (pr_id p)),
      (''record_type'', JStr (js ''AgreementProposal'')),
      (''review_counter'', JNum (NInt (pr_counter p))),
      (''revision_digest'', JStr (pr_digest p)),
      (''role_binding_version'', JNum (NInt (pr_binding p))),
      (''scope_id'', JStr (scope_id (pr_slot p))),
      (''status'', enc_proposal_status (pr_status p)),
      (''usage_scope'', JStr (usage_scope (pr_slot p)))])"

definition enc_decision :: "decision \<Rightarrow> json" where
  "enc_decision d = obj (
     [(''actor_domain_role'', JStr (de_role d)),
      (''actor_id'', JStr (de_actor d)),
      (''actor_org_id'', JStr (de_org d)),
      (''channel_id'', JStr (channel_id (de_slot d))),
      (''context_id'', JStr (context_id (de_slot d))),
      (''contract_type'', JStr (js ''ApprovalDecision'')),
      (''contract_version'', JNum (NInt 1)),
      (''decided_at'', JStr (de_at d)),
      (''decision'', JStr (decision_word (de_kind d))),
      (''decision_id'', JStr (de_id d)),
      (''document_id'', JStr (document_id (de_slot d))),
      (''membership_epoch'', JNum (NInt (de_epoch d))),
      (''policy_id'', JStr (de_policy_id d)),
      (''policy_version'', JNum (NInt (de_policy_version d))),
      (''proposal_id'', JStr (de_proposal d)),
      (''rationale'', JStr (de_rationale d))] @
     opt_prop ''retracts_decision_id'' (map_option JStr (de_retracts d)) @
     [(''revision_digest'', JStr (de_digest d)),
      (''role_binding_version'', JNum (NInt (de_binding d))),
      (''scope_id'', JStr (scope_id (de_slot d))),
      (''subject_id'', JStr (de_subject d)),
      (''usage_scope'', JStr (usage_scope (de_slot d)))])"

definition enc_agreement :: "agreement \<Rightarrow> json" where
  "enc_agreement a = obj (
     [(''activated_at'', JStr (ag_at a)),
      (''activated_by'', enc_actor (ag_by a)),
      (''agreement_id'', JStr (ag_id a)),
      (''approval_decision_ids'', JArr (map JStr (ag_approvals a))),
      (''channel_id'', JStr (channel_id (ag_slot a))),
      (''context_id'', JStr (context_id (ag_slot a))),
      (''document_id'', JStr (document_id (ag_slot a))),
      (''membership_epoch'', JNum (NInt (ag_epoch a))),
      (''policy_id'', JStr (ag_policy_id a)),
      (''policy_version'', JNum (NInt (ag_policy_version a))),
      (''proposal_id'', JStr (ag_proposal a)),
      (''revision_digest'', JStr (ag_digest a)),
      (''role_binding_version'', JNum (NInt (ag_binding a))),
      (''scope_id'', JStr (scope_id (ag_slot a))),
      (''status'', JStr (status_word (ag_status a)))] @
     opt_prop ''status_changed_at'' (map_option JStr (ag_changed_at a)) @
     opt_prop ''status_changed_by'' (map_option enc_actor (ag_changed_by a)) @
     opt_prop ''status_reason'' (map_option JStr (ag_reason a)) @
     [(''usage_scope'', JStr (usage_scope (ag_slot a)))])"

section \<open>The literals are their own normal forms\<close>

lemma jnorm_enc_basic [simp]:
  "jnorm (enc_kind k) = enc_kind k" "jnorm (enc_enforcement e) = enc_enforcement e"
  "jnorm (enc_source_kind s) = enc_source_kind s" "jnorm (enc_version w) = enc_version w"
  "jnorm (enc_proposal_status t) = enc_proposal_status t"
  by (cases k; cases e; cases s; cases w; cases t; simp)+

lemmas name_order = less_eq_char_def less_char_def

lemma jnorm_enc_actor [simp]: "jnorm (enc_actor a) = enc_actor a"
  unfolding enc_actor_def by (subst jnorm_obj) (simp_all add: name_order)

lemma jnorm_enc_dependency [simp]: "jnorm (enc_dependency d) = enc_dependency d"
  unfolding enc_dependency_def by (subst jnorm_obj) (simp_all add: name_order)

lemma jnorm_enc_assertion [simp]: "jnorm (enc_assertion a) = enc_assertion a"
  unfolding enc_assertion_def by (subst jnorm_obj) (simp_all add: name_order)

lemma jnorm_enc_metadata [simp]: "jnorm (enc_metadata m) = enc_metadata m"
  unfolding enc_metadata_def by (subst jnorm_obj) (simp_all add: name_order comp_def)

lemma jnorm_enc_payload [simp]: "jnorm (enc_payload p) = enc_payload p"
  unfolding enc_payload_def by (subst jnorm_obj) (simp_all add: name_order comp_def)

lemma jnorm_enc_revision [simp]: "jnorm (enc_revision r) = enc_revision r"
  unfolding enc_revision_def by (subst jnorm_obj) (simp_all add: name_order)

lemma jnorm_enc_representative [simp]: "jnorm (enc_representative r) = enc_representative r"
  unfolding enc_representative_def by (subst jnorm_obj) (simp_all add: name_order)

lemma jnorm_enc_policy [simp]: "jnorm (enc_policy p) = enc_policy p"
  unfolding enc_policy_def by (subst jnorm_obj) (simp_all add: name_order comp_def)

lemma jnorm_enc_identity [simp]: "jnorm (enc_identity i) = enc_identity i"
  unfolding enc_identity_def by (subst jnorm_obj) (simp_all add: name_order comp_def)

lemma jnorm_enc_config [simp]: "jnorm (enc_config c) = enc_config c"
  unfolding enc_config_def by (subst jnorm_obj) (simp_all add: name_order comp_def)

lemma jnorm_enc_proposal [simp]: "jnorm (enc_proposal p) = enc_proposal p"
  unfolding enc_proposal_def
  by (subst jnorm_obj) (cases "pr_agreement p"; simp add: name_order opt_prop_def)+

lemma jnorm_enc_decision [simp]: "jnorm (enc_decision d) = enc_decision d"
  unfolding enc_decision_def
  by (subst jnorm_obj) (cases "de_retracts d"; simp add: name_order opt_prop_def)+

lemma jnorm_enc_agreement [simp]: "jnorm (enc_agreement a) = enc_agreement a"
  unfolding enc_agreement_def
  by (subst jnorm_obj)
    (cases "ag_changed_at a"; cases "ag_changed_by a"; cases "ag_reason a";
      simp add: name_order opt_prop_def comp_def)+

lemma word_inj [simp]: "decision_word a = decision_word b \<longleftrightarrow> a = b" "status_word s = status_word t \<longleftrightarrow> s = t"
  by (cases a; cases b; simp) (cases s; cases t; simp)

lemma enc_kind_inj [simp]: "enc_kind a = enc_kind b \<longleftrightarrow> a = b"
  by (cases a; cases b; simp)

end
