(* ===== verification/Validate.thy ===== *)
theory Validate
  imports Records
begin

text \<open>
  The schema validators of \<open>packages/domain/index.ts\<close>: they read a JSON value and return the typed
  record, or the first failing check. SHA-256 comes from \<open>node:crypto\<close>: it is the argument \<open>sha\<close>,
  from the UTF-8 bytes of a text to its hexadecimal digest.
\<close>

type_synonym sha_fn = "nat list \<Rightarrow> jstr"

definition digest_text :: "sha_fn \<Rightarrow> jstr \<Rightarrow> jstr" where
  "digest_text sha text = js ''sha256:'' @ sha (utf8 text)"

definition digest_payload :: "sha_fn \<Rightarrow> payload \<Rightarrow> jstr res" where
  "digest_payload sha p = rbind (canonicalize (enc_payload p)) (\<lambda>text. Ok (digest_text sha text))"

text \<open>\<open>return cloneCanonical(record)\<close> of a record that was just built.\<close>

definition cloned :: "('a \<Rightarrow> json) \<Rightarrow> 'a \<Rightarrow> 'a res" where
  "cloned enc x = rbind (canonicalize (enc x)) (\<lambda>_. Ok x)"

section \<open>Revisions\<close>

definition dec_enforcement :: "json \<Rightarrow> enforcement res" where
  "dec_enforcement v =
     (if v = JStr (js ''requires_active'') then Ok RequiresActive
      else if v = JStr (js ''informational'') then Ok Informational
      else fail INVALID_INPUT)"

definition dec_source_kind :: "json \<Rightarrow> source_kind res" where
  "dec_source_kind v =
     (if v = JStr (js ''human_authored'') then Ok HumanAuthored
      else if v = JStr (js ''approved_import'') then Ok ApprovedImport
      else if v = JStr (js ''llm_drafted'') then Ok LlmDrafted
      else fail INVALID_INPUT)"

definition assert_relationship :: "json \<Rightarrow> jstr res" where
  "assert_relationship v = (case v of JStr s \<Rightarrow> if is_relationship s then Ok s else fail INVALID_INPUT
     | _ \<Rightarrow> fail INVALID_INPUT)"

definition validate_dependency :: "jstr \<Rightarrow> json \<Rightarrow> dependency res" where
  "validate_dependency channel v =
     rbind (assert_record v) (\<lambda>_.
     rbind (assert_keys v [''revision_digest'', ''context_id'', ''usage_scope'', ''relationship'',
       ''enforcement'', ''document_id'', ''scope_id'', ''channel_id''] []) (\<lambda>_.
     rbind (assert_digest (fld v ''revision_digest'')) (\<lambda>digest.
     rbind (assert_id (fld v ''context_id'')) (\<lambda>ctx.
     rbind (assert_usage_scope (fld v ''usage_scope'')) (\<lambda>us.
     rbind (assert_relationship (fld v ''relationship'')) (\<lambda>rel.
     rbind (dec_enforcement (fld v ''enforcement'')) (\<lambda>enf.
     rbind (assert_id (fld v ''document_id'')) (\<lambda>doc.
     rbind (assert_id (fld v ''scope_id'')) (\<lambda>sc.
     rbind (require (fld v ''channel_id'' = JStr channel) INVALID_INPUT) (\<lambda>_.
     rbind (canonicalize v) (\<lambda>_.
     cloned enc_dependency
       \<lparr>dep_slot = \<lparr>channel_id = channel, document_id = doc, context_id = ctx, scope_id = sc, usage_scope = us\<rparr>,
        dep_digest = digest, dep_relationship = rel, dep_enforcement = enf\<rparr>)))))))))))"

definition validate_assertion :: "json \<Rightarrow> shared_assertion res" where
  "validate_assertion v =
     rbind (assert_record v) (\<lambda>_.
     rbind (assert_keys v [''assertion_id'', ''statement'', ''source_visibility''] []) (\<lambda>_.
     rbind (assert_id (fld v ''assertion_id'')) (\<lambda>aid.
     rbind (assert_non_empty_string (fld v ''statement'') 300) (\<lambda>statement.
     rbind (require (fld v ''source_visibility'' = JStr (js ''private_shared_assertion'')) INVALID_INPUT) (\<lambda>_.
     rbind (canonicalize v) (\<lambda>_.
     cloned enc_assertion \<lparr>as_id = aid, as_statement = statement\<rparr>))))))"

definition validate_metadata :: "json \<Rightarrow> metadata res" where
  "validate_metadata v =
     rbind (assert_record v) (\<lambda>_.
     rbind (assert_keys v [''author_id'', ''created_at'', ''source_kind'', ''shared_assertions'', ''author_org_id''] []) (\<lambda>_.
     rbind (assert_id (fld v ''author_id'')) (\<lambda>author.
     rbind (assert_non_empty_string (fld v ''created_at'') 80) (\<lambda>created.
     rbind (dec_source_kind (fld v ''source_kind'')) (\<lambda>source.
     rbind (assert_array (fld v ''shared_assertions'')) (\<lambda>raw.
     rbind (mapR validate_assertion raw) (\<lambda>assertions.
     rbind (assert_unique_canonical (map enc_assertion assertions)) (\<lambda>_.
     rbind (assert_id (fld v ''author_org_id'')) (\<lambda>author_org.
     Ok \<lparr>md_author_id = author, md_created_at = created, md_source_kind = source,
         md_assertions = assertions, md_author_org_id = author_org\<rparr>)))))))))"

definition validate_payload :: "json \<Rightarrow> payload res" where
  "validate_payload v =
     rbind (assert_record v) (\<lambda>_.
     rbind (assert_keys v [''contract_type'', ''contract_version'', ''revision_id'', ''document_id'',
       ''context_id'', ''scope_id'', ''usage_scope'', ''channel_id'', ''visibility'', ''title'',
       ''body_markdown'', ''parents'', ''dependencies'', ''metadata''] []) (\<lambda>_.
     rbind (require (fld v ''contract_type'' = JStr (js ''DocumentRevision'')
       \<and> fld v ''contract_version'' = JNum (NInt 1)) INVALID_INPUT) (\<lambda>_.
     rbind (assert_id (fld v ''revision_id'')) (\<lambda>rid.
     rbind (assert_id (fld v ''document_id'')) (\<lambda>doc.
     rbind (assert_id (fld v ''context_id'')) (\<lambda>ctx.
     rbind (assert_id (fld v ''scope_id'')) (\<lambda>sc.
     rbind (assert_usage_scope (fld v ''usage_scope'')) (\<lambda>us.
     rbind (assert_id (fld v ''channel_id'')) (\<lambda>ch.
     rbind (require (fld v ''visibility'' = JStr (js ''shared_channel'')) INVALID_INPUT) (\<lambda>_.
     rbind (assert_non_empty_string (fld v ''title'') 200) (\<lambda>title.
     rbind (assert_non_empty_string (fld v ''body_markdown'') 262144) (\<lambda>body.
     rbind (require (byte_length body \<le> 262144) INVALID_INPUT) (\<lambda>_.
     rbind (assert_array (fld v ''parents'')) (\<lambda>raw_parents.
     rbind (require (length raw_parents \<le> 2) INVALID_INPUT) (\<lambda>_.
     rbind (mapR assert_digest raw_parents) (\<lambda>parents.
     rbind (assert_unique_canonical (map JStr parents)) (\<lambda>_.
     rbind (assert_array (fld v ''dependencies'')) (\<lambda>raw_deps.
     rbind (require (length raw_deps \<le> 32) INVALID_INPUT) (\<lambda>_.
     rbind (mapR (validate_dependency ch) raw_deps) (\<lambda>deps.
     rbind (assert_unique_canonical (map enc_dependency deps)) (\<lambda>_.
     rbind (validate_metadata (fld v ''metadata'')) (\<lambda>md.
     rbind (assert_no_agreement_id v) (\<lambda>_.
     Ok \<lparr>pl_revision_id = rid,
         pl_slot = \<lparr>channel_id = ch, document_id = doc, context_id = ctx, scope_id = sc, usage_scope = us\<rparr>,
         pl_title = title, pl_body = body, pl_parents = parents, pl_dependencies = deps,
         pl_metadata = md\<rparr>)))))))))))))))))))))))"

definition validate_revision :: "sha_fn \<Rightarrow> json \<Rightarrow> revision res" where
  "validate_revision sha v =
     rbind (assert_record v) (\<lambda>_.
     rbind (assert_keys v [''revision_digest'', ''payload''] []) (\<lambda>_.
     rbind (assert_digest (fld v ''revision_digest'')) (\<lambda>digest.
     rbind (validate_payload (fld v ''payload'')) (\<lambda>payload.
     rbind (canonicalize (enc_payload payload)) (\<lambda>text.
     rbind (require (byte_length text \<le> 524288) INVALID_INPUT) (\<lambda>_.
     rbind (digest_payload sha payload) (\<lambda>expected.
     rbind (require_as (digest = expected) DIGEST_MISMATCH 400 False) (\<lambda>_.
     Ok \<lparr>rv_digest = digest, rv_payload = payload\<rparr>))))))))"

section \<open>Policies\<close>

definition rep_key :: "representative \<Rightarrow> jstr" where
  "rep_key r = rep_org r @ 124 # rep_actor r"

text \<open>One round of the loop over \<open>role_representatives\<close>; the state is the records accepted so far.\<close>

definition validate_representative :: "jstr list \<Rightarrow> json \<Rightarrow> representative list \<Rightarrow> representative list res" where
  "validate_representative required v seen =
     rbind (assert_record v) (\<lambda>_.
     rbind (assert_keys v [''domain_role'', ''actor_org_id'', ''actor_id''] []) (\<lambda>_.
     rbind (assert_id (fld v ''domain_role'')) (\<lambda>role.
     rbind (assert_id (fld v ''actor_org_id'')) (\<lambda>org.
     rbind (assert_id (fld v ''actor_id'')) (\<lambda>actor.
     rbind (require (role \<in> set required) INVALID_INPUT) (\<lambda>_.
     rbind (require (role \<notin> rep_role ` set seen) INVALID_INPUT) (\<lambda>_.
     rbind (require (org @ 124 # actor \<notin> rep_key ` set seen) INVALID_INPUT) (\<lambda>_.
     rbind (canonicalize v) (\<lambda>_.
     rbind (cloned enc_representative \<lparr>rep_role = role, rep_org = org, rep_actor = actor\<rparr>) (\<lambda>r.
     Ok (seen @ [r])))))))))))"

definition validate_policy :: "json \<Rightarrow> policy res" where
  "validate_policy v =
     rbind (assert_record v) (\<lambda>_.
     rbind (assert_keys v [''contract_type'', ''contract_version'', ''policy_id'', ''policy_version'',
       ''document_id'', ''context_id'', ''scope_id'', ''usage_scope'', ''channel_id'',
       ''membership_epoch'', ''role_binding_version'', ''acceptance_slot'', ''required_domain_roles'',
       ''allowed_decisions'', ''role_decision_rule'', ''role_representatives''] []) (\<lambda>_.
     rbind (require (fld v ''contract_type'' = JStr (js ''AgreementPolicy'')
       \<and> fld v ''contract_version'' = JNum (NInt 1)) INVALID_INPUT) (\<lambda>_.
     rbind (assert_id (fld v ''policy_id'')) (\<lambda>pid.
     rbind (assert_safe_integer (fld v ''policy_version'') 1) (\<lambda>ver.
     rbind (assert_id (fld v ''document_id'')) (\<lambda>doc.
     rbind (assert_id (fld v ''context_id'')) (\<lambda>ctx.
     rbind (assert_id (fld v ''scope_id'')) (\<lambda>sc.
     rbind (assert_usage_scope (fld v ''usage_scope'')) (\<lambda>us.
     rbind (assert_id (fld v ''channel_id'')) (\<lambda>ch.
     rbind (assert_safe_integer (fld v ''membership_epoch'') 1) (\<lambda>epoch.
     rbind (assert_safe_integer (fld v ''role_binding_version'') 1) (\<lambda>binding.
     rbind (assert_id (fld v ''acceptance_slot'')) (\<lambda>acc.
     rbind (assert_array (fld v ''required_domain_roles'')) (\<lambda>raw_roles.
     rbind (require (1 \<le> length raw_roles \<and> length raw_roles \<le> 32) INVALID_INPUT) (\<lambda>_.
     rbind (mapR assert_id raw_roles) (\<lambda>roles.
     rbind (assert_unique_canonical raw_roles) (\<lambda>_.
     rbind (assert_array (fld v ''allowed_decisions'')) (\<lambda>raw_allowed.
     rbind (require (1 \<le> length raw_allowed) INVALID_INPUT) (\<lambda>_.
     rbind (mapR assert_id raw_allowed) (\<lambda>allowed.
     rbind (assert_unique_canonical raw_allowed) (\<lambda>_.
     rbind (require (fld v ''role_decision_rule'' = JStr (js ''named_representatives'')) INVALID_INPUT) (\<lambda>_.
     rbind (assert_array (fld v ''role_representatives'')) (\<lambda>raw_reps.
     rbind (require (length raw_reps = length raw_roles) INVALID_INPUT) (\<lambda>_.
     rbind (foldR (validate_representative roles) raw_reps []) (\<lambda>reps.
     rbind (require (length reps = length raw_roles) INVALID_INPUT) (\<lambda>_.
     Ok \<lparr>pol_id = pid, pol_version = ver,
         pol_slot = \<lparr>channel_id = ch, document_id = doc, context_id = ctx, scope_id = sc, usage_scope = us\<rparr>,
         pol_epoch = epoch, pol_binding = binding, pol_acceptance_slot = acc,
         pol_roles = roles, pol_allowed = allowed, pol_reps = reps\<rparr>))))))))))))))))))))))))))"

section \<open>The channel configuration\<close>

definition identity_key :: "identity \<Rightarrow> jstr" where
  "identity_key i = ident_org i @ 124 # ident_actor i"

definition assert_publish_context :: "json \<Rightarrow> jstr res" where
  "assert_publish_context v = (if v = JStr (js ''*'') then Ok (js ''*'') else assert_id v)"

definition validate_identity :: "json \<Rightarrow> identity list \<Rightarrow> identity list res" where
  "validate_identity v seen =
     rbind (assert_record v) (\<lambda>_.
     rbind (assert_keys v [''org_id'', ''actor_id'', ''kind'', ''publish_contexts'', ''can_propose''] []) (\<lambda>_.
     rbind (assert_id (fld v ''org_id'')) (\<lambda>org.
     rbind (assert_id (fld v ''actor_id'')) (\<lambda>actor.
     rbind (dec_kind INVALID_INPUT 400 False (fld v ''kind'')) (\<lambda>k.
     rbind (assert_array (fld v ''publish_contexts'')) (\<lambda>raw_contexts.
     rbind (mapR assert_publish_context raw_contexts) (\<lambda>contexts.
     rbind (assert_unique_canonical raw_contexts) (\<lambda>_.
     rbind (assert_bool (fld v ''can_propose'')) (\<lambda>can_propose.
     rbind (require (org @ 124 # actor \<notin> identity_key ` set seen) INVALID_INPUT) (\<lambda>_.
     Ok (seen @ [\<lparr>ident_org = org, ident_actor = actor, ident_kind = k,
                  ident_contexts = contexts, ident_can_propose = can_propose\<rparr>])))))))))))"

definition policy_key :: "policy \<Rightarrow> jstr" where
  "policy_key p = pol_id p @ 124 # dec_int (pol_version p)"

definition validate_config_policy ::
  "jstr \<Rightarrow> int \<Rightarrow> int \<Rightarrow> identity list \<Rightarrow> json \<Rightarrow> policy list \<Rightarrow> policy list res" where
  "validate_config_policy channel epoch binding identities v seen =
     rbind (validate_policy v) (\<lambda>p.
     rbind (require (channel_id (pol_slot p) = channel) INVALID_INPUT) (\<lambda>_.
     rbind (require (pol_epoch p = epoch) INVALID_INPUT) (\<lambda>_.
     rbind (require (pol_binding p = binding) INVALID_INPUT) (\<lambda>_.
     rbind (require (policy_key p \<notin> policy_key ` set seen) INVALID_INPUT) (\<lambda>_.
     rbind (forR (\<lambda>r. require
         (case find (\<lambda>i. ident_org i = rep_org r \<and> ident_actor i = rep_actor r) identities of
            None \<Rightarrow> False | Some i \<Rightarrow> ident_kind i = Human) INVALID_INPUT) (pol_reps p)) (\<lambda>_.
     Ok (seen @ [p])))))))"

definition validate_config :: "json \<Rightarrow> config res" where
  "validate_config v =
     rbind (assert_record v) (\<lambda>_.
     rbind (assert_keys v [''config_version'', ''channel_id'', ''membership_epoch'',
       ''role_binding_version'', ''serving_enabled'', ''identities'', ''policies''] []) (\<lambda>_.
     rbind (assert_version (fld v ''config_version'')) (\<lambda>ver.
     rbind (assert_id (fld v ''channel_id'')) (\<lambda>ch.
     rbind (assert_safe_integer (fld v ''membership_epoch'') 1) (\<lambda>epoch.
     rbind (assert_safe_integer (fld v ''role_binding_version'') 1) (\<lambda>binding.
     rbind (assert_bool (fld v ''serving_enabled'')) (\<lambda>serving.
     rbind (assert_array (fld v ''identities'')) (\<lambda>raw_identities.
     rbind (require (1 \<le> length raw_identities) INVALID_INPUT) (\<lambda>_.
     rbind (foldR validate_identity raw_identities []) (\<lambda>identities.
     rbind (assert_array (fld v ''policies'')) (\<lambda>raw_policies.
     rbind (require (1 \<le> length raw_policies) INVALID_INPUT) (\<lambda>_.
     rbind (foldR (validate_config_policy ch epoch binding identities) raw_policies []) (\<lambda>policies.
     Ok \<lparr>cfg_version = ver, cfg_channel = ch, cfg_epoch = epoch, cfg_binding = binding,
         cfg_serving = serving, cfg_identities = identities, cfg_policies = policies\<rparr>)))))))))))))"

section \<open>Stored proposals, decisions and agreements\<close>

text \<open>\<open>if (v !== undefined) check(v)\<close>\<close>

definition optional :: "(json \<Rightarrow> 'a res) \<Rightarrow> json \<Rightarrow> 'a option res" where
  "optional f v = (if v = JUndef then Ok None else rmap Some (f v))"

definition validate_actor :: "json \<Rightarrow> actor res" where
  "validate_actor v =
     rbind (assert_record v) (\<lambda>_.
     rbind (assert_keys v [''org_id'', ''actor_id'', ''kind''] []) (\<lambda>_.
     rbind (assert_id (fld v ''org_id'')) (\<lambda>org.
     rbind (assert_id (fld v ''actor_id'')) (\<lambda>actor.
     rbind (dec_kind CORRUPT_STATE 500 True (fld v ''kind'')) (\<lambda>k.
     Ok \<lparr>org_id = org, actor_id = actor, kind = k\<rparr>)))))"

definition dec_proposal_status :: "json \<Rightarrow> proposal_status res" where
  "dec_proposal_status v =
     (if v = JStr (js ''open'') then Ok Open
      else if v = JStr (js ''activated'') then Ok Activated
      else fail_as CORRUPT_STATE 500 True)"

definition validate_proposal :: "json \<Rightarrow> proposal res" where
  "validate_proposal v =
     rbind (assert_record v) (\<lambda>_.
     rbind (assert_keys v [''record_type'', ''proposal_id'', ''revision_digest'', ''policy_id'',
       ''policy_version'', ''membership_epoch'', ''role_binding_version'', ''config_version'',
       ''status'', ''created_by'', ''created_at'', ''review_counter'', ''channel_id'',
       ''document_id'', ''context_id'', ''scope_id'', ''usage_scope''] [''agreement_id'']) (\<lambda>_.
     rbind (require_as (fld v ''record_type'' = JStr (js ''AgreementProposal'')) CORRUPT_STATE 500 True) (\<lambda>_.
     rbind (assert_id (fld v ''proposal_id'')) (\<lambda>pid.
     rbind (assert_digest (fld v ''revision_digest'')) (\<lambda>digest.
     rbind (assert_id (fld v ''policy_id'')) (\<lambda>pol.
     rbind (assert_safe_integer (fld v ''policy_version'') 1) (\<lambda>polver.
     rbind (assert_safe_integer (fld v ''membership_epoch'') 1) (\<lambda>epoch.
     rbind (assert_safe_integer (fld v ''role_binding_version'') 1) (\<lambda>binding.
     rbind (assert_version (fld v ''config_version'')) (\<lambda>cfgver.
     rbind (dec_proposal_status (fld v ''status'')) (\<lambda>status.
     rbind (validate_actor (fld v ''created_by'')) (\<lambda>by.
     rbind (assert_non_empty_string (fld v ''created_at'') 80) (\<lambda>at.
     rbind (assert_safe_integer (fld v ''review_counter'') 0) (\<lambda>counter.
     rbind (optional assert_id (fld v ''agreement_id'')) (\<lambda>agreement.
     rbind (assert_slot_shape v) (\<lambda>sl.
     rbind (canonicalize v) (\<lambda>_.
     cloned enc_proposal
       \<lparr>pr_id = pid, pr_digest = digest, pr_policy_id = pol, pr_policy_version = polver,
        pr_epoch = epoch, pr_binding = binding, pr_config_version = cfgver, pr_status = status,
        pr_created_by = by, pr_created_at = at, pr_counter = counter, pr_agreement = agreement,
        pr_slot = sl\<rparr>)))))))))))))))))"

definition dec_decision_kind :: "json \<Rightarrow> decision_kind res" where
  "dec_decision_kind v =
     (if v = JStr (js ''approve'') then Ok Approve
      else if v = JStr (js ''object'') then Ok Object
      else if v = JStr (js ''abstain'') then Ok Abstain
      else if v = JStr (js ''retract'') then Ok Retract
      else fail INVALID_INPUT)"

text \<open>\<open>retracts_decision_id\<close> is mandatory for a retraction and forbidden otherwise.\<close>

definition assert_retracts :: "decision_kind \<Rightarrow> json \<Rightarrow> jstr option res" where
  "assert_retracts k v =
     (if k = Retract then rmap Some (assert_id v)
      else if v = JUndef then Ok None else fail INVALID_INPUT)"

definition validate_decision :: "json \<Rightarrow> decision res" where
  "validate_decision v =
     rbind (assert_record v) (\<lambda>_.
     rbind (assert_keys v [''contract_type'', ''contract_version'', ''decision_id'', ''revision_digest'',
       ''document_id'', ''context_id'', ''scope_id'', ''usage_scope'', ''channel_id'', ''policy_id'',
       ''policy_version'', ''membership_epoch'', ''role_binding_version'', ''actor_org_id'',
       ''actor_id'', ''subject_id'', ''actor_domain_role'', ''decision'', ''rationale'',
       ''decided_at'', ''proposal_id''] [''retracts_decision_id'']) (\<lambda>_.
     rbind (require (fld v ''contract_type'' = JStr (js ''ApprovalDecision'')
       \<and> fld v ''contract_version'' = JNum (NInt 1)) INVALID_INPUT) (\<lambda>_.
     rbind (assert_id (fld v ''decision_id'')) (\<lambda>did.
     rbind (assert_digest (fld v ''revision_digest'')) (\<lambda>digest.
     rbind (assert_id (fld v ''document_id'')) (\<lambda>doc.
     rbind (assert_id (fld v ''context_id'')) (\<lambda>ctx.
     rbind (assert_id (fld v ''scope_id'')) (\<lambda>sc.
     rbind (assert_id (fld v ''channel_id'')) (\<lambda>ch.
     rbind (assert_id (fld v ''policy_id'')) (\<lambda>pol.
     rbind (assert_id (fld v ''actor_org_id'')) (\<lambda>org.
     rbind (assert_id (fld v ''actor_id'')) (\<lambda>actor.
     rbind (assert_id (fld v ''subject_id'')) (\<lambda>subject.
     rbind (assert_id (fld v ''actor_domain_role'')) (\<lambda>role.
     rbind (assert_id (fld v ''proposal_id'')) (\<lambda>prop.
     rbind (assert_usage_scope (fld v ''usage_scope'')) (\<lambda>us.
     rbind (assert_safe_integer (fld v ''policy_version'') 1) (\<lambda>polver.
     rbind (assert_safe_integer (fld v ''membership_epoch'') 1) (\<lambda>epoch.
     rbind (assert_safe_integer (fld v ''role_binding_version'') 1) (\<lambda>binding.
     rbind (dec_decision_kind (fld v ''decision'')) (\<lambda>k.
     rbind (assert_non_empty_string (fld v ''rationale'') 1000) (\<lambda>rationale.
     rbind (assert_non_empty_string (fld v ''decided_at'') 80) (\<lambda>at.
     rbind (assert_retracts k (fld v ''retracts_decision_id'')) (\<lambda>retracts.
     rbind (assert_slot_shape v) (\<lambda>_.
     rbind (canonicalize v) (\<lambda>_.
     cloned enc_decision
       \<lparr>de_id = did, de_digest = digest,
        de_slot = \<lparr>channel_id = ch, document_id = doc, context_id = ctx, scope_id = sc, usage_scope = us\<rparr>,
        de_policy_id = pol, de_policy_version = polver, de_epoch = epoch, de_binding = binding,
        de_org = org, de_actor = actor, de_subject = subject, de_role = role, de_kind = k,
        de_rationale = rationale, de_at = at, de_proposal = prop,
        de_retracts = retracts\<rparr>)))))))))))))))))))))))))"

definition dec_status :: "json \<Rightarrow> agreement_status res" where
  "dec_status v =
     (if v = JStr (js ''active'') then Ok Active
      else if v = JStr (js ''superseded'') then Ok Superseded
      else if v = JStr (js ''withdrawn'') then Ok Withdrawn
      else if v = JStr (js ''suspended'') then Ok Suspended
      else fail_as CORRUPT_STATE 500 True)"

definition validate_agreement :: "json \<Rightarrow> agreement res" where
  "validate_agreement v =
     rbind (assert_record v) (\<lambda>_.
     rbind (assert_keys v [''agreement_id'', ''proposal_id'', ''revision_digest'', ''policy_id'',
       ''policy_version'', ''membership_epoch'', ''role_binding_version'', ''approval_decision_ids'',
       ''status'', ''activated_by'', ''activated_at'', ''channel_id'', ''document_id'', ''context_id'',
       ''scope_id'', ''usage_scope''] [''status_reason'', ''status_changed_by'', ''status_changed_at'']) (\<lambda>_.
     rbind (assert_id (fld v ''agreement_id'')) (\<lambda>aid.
     rbind (assert_id (fld v ''proposal_id'')) (\<lambda>prop.
     rbind (assert_digest (fld v ''revision_digest'')) (\<lambda>digest.
     rbind (assert_id (fld v ''policy_id'')) (\<lambda>pol.
     rbind (assert_safe_integer (fld v ''policy_version'') 1) (\<lambda>polver.
     rbind (assert_safe_integer (fld v ''membership_epoch'') 1) (\<lambda>epoch.
     rbind (assert_safe_integer (fld v ''role_binding_version'') 1) (\<lambda>binding.
     rbind (assert_array (fld v ''approval_decision_ids'')) (\<lambda>raw.
     rbind (require_as (1 \<le> length raw \<and> length raw \<le> 32) CORRUPT_STATE 500 True) (\<lambda>_.
     rbind (mapR assert_id raw) (\<lambda>approvals.
     rbind (assert_unique_canonical (map JStr approvals)) (\<lambda>_.
     rbind (dec_status (fld v ''status'')) (\<lambda>status.
     rbind (validate_actor (fld v ''activated_by'')) (\<lambda>by.
     rbind (assert_non_empty_string (fld v ''activated_at'') 80) (\<lambda>at.
     rbind (optional (\<lambda>x. assert_non_empty_string x 1000) (fld v ''status_reason'')) (\<lambda>reason.
     rbind (optional validate_actor (fld v ''status_changed_by'')) (\<lambda>changed_by.
     rbind (optional (\<lambda>x. assert_non_empty_string x 80) (fld v ''status_changed_at'')) (\<lambda>changed_at.
     rbind (assert_slot_shape v) (\<lambda>sl.
     rbind (canonicalize v) (\<lambda>_.
     cloned enc_agreement
       \<lparr>ag_id = aid, ag_proposal = prop, ag_digest = digest, ag_policy_id = pol,
        ag_policy_version = polver, ag_epoch = epoch, ag_binding = binding, ag_approvals = approvals,
        ag_status = status, ag_by = by, ag_at = at, ag_reason = reason, ag_changed_by = changed_by,
        ag_changed_at = changed_at, ag_slot = sl\<rparr>)))))))))))))))))))))"

end
