(* ===== verification/Codec.thy ===== *)
theory Codec
  imports Validate
begin

text \<open>
  What the validators promise. For every record kind there is a well-formedness predicate, the
  validator accepts exactly the encodings of well-formed records, and a stored record reads back as
  itself. The locale states this contract once; each record kind interprets it.
\<close>

section \<open>The contract between a record type, its literal and its validator\<close>

locale codec =
  fixes enc :: "'a \<Rightarrow> json"
    and dec :: "json \<Rightarrow> 'a res"
    and wf :: "'a \<Rightarrow> bool"
  assumes dec_enc: "wf x \<Longrightarrow> dec (enc x) = Ok x"
    and dec_wf: "dec v = Ok x \<Longrightarrow> wf x"
    and norm_enc: "jnorm (enc x) = enc x"
begin

lemma dec_enc_iff: "wf x \<Longrightarrow> dec (enc x) = Ok y \<longleftrightarrow> y = x"
  by (auto simp: dec_enc)

lemma enc_inject: "wf x \<Longrightarrow> wf y \<Longrightarrow> enc x = enc y \<longleftrightarrow> x = y"
  by (metis dec_enc result.inject(2))

lemma revalidate: "dec v = Ok x \<Longrightarrow> dec (enc x) = Ok x"
  by (blast intro: dec_enc dec_wf)

lemma accepts_iff: "(\<exists>v. dec v = Ok x) \<longleftrightarrow> wf x"
  by (blast intro: dec_enc dec_wf)

lemma clone_enc_eq: "clone_canonical (enc x) = Ok v \<Longrightarrow> v = enc x"
  by (simp add: norm_enc)

end

text \<open>
  Records whose size the validator bounds can moreover always be cloned and stored. (Configurations
  and policies hold lists of unbounded length, and canonicalization refuses more than 65536 items.)
\<close>

locale stored_codec = codec +
  assumes canon_enc: "wf x \<Longrightarrow> canon_ok (enc x) 0"
begin

lemma clone_enc: "wf x \<Longrightarrow> clone_canonical (enc x) = Ok (enc x)"
  by (simp add: canon_enc norm_enc)

lemma cloned_wf: "wf x \<Longrightarrow> cloned enc x = Ok x"
  using canon_enc [of x] by (auto simp: cloned_def canonicalize_Ok_iff [symmetric])

end

section \<open>Well-formed records\<close>

definition wf_version_range :: "int \<Rightarrow> bool" where
  "wf_version_range i \<longleftrightarrow> 1 \<le> i \<and> i \<le> max_safe"

definition unique_values :: "json list \<Rightarrow> bool" where
  "unique_values vs \<longleftrightarrow> assert_unique_canonical vs = Ok ()"

lemma unique_canonical_ids:
  "\<forall>s \<in> set xs. valid_unicode s \<Longrightarrow>
     unique_canonical seen (map JStr xs) = Ok () \<longleftrightarrow> distinct xs \<and> (\<forall>s \<in> set xs. json_quote s \<notin> seen)"
proof (induction xs arbitrary: seen)
  case (Cons x xs)
  have "canonicalize (JStr x) = Ok (json_quote x)" using Cons.prems by (simp add: canonicalize_def depth_guard_def max_canonical_depth_def)
  then show ?case using Cons by auto
qed simp

lemma unique_ids: "list_all is_id xs \<Longrightarrow> unique_values (map JStr xs) \<longleftrightarrow> distinct xs"
  using unique_canonical_ids [of xs "{}"] by (auto simp: unique_values_def assert_unique_canonical_def list_all_iff)

definition wf_dependency :: "jstr \<Rightarrow> dependency \<Rightarrow> bool" where
  "wf_dependency ch d \<longleftrightarrow> wf_slot (dep_slot d) \<and> channel_id (dep_slot d) = ch \<and>
     is_digest (dep_digest d) \<and> is_relationship (dep_relationship d)"

definition wf_assertion :: "shared_assertion \<Rightarrow> bool" where
  "wf_assertion a \<longleftrightarrow> is_id (as_id a) \<and> text_ok 300 (as_statement a)"

definition wf_metadata :: "metadata \<Rightarrow> bool" where
  "wf_metadata m \<longleftrightarrow> is_id (md_author_id m) \<and> text_ok 80 (md_created_at m) \<and>
     list_all wf_assertion (md_assertions m) \<and>
     unique_values (map enc_assertion (md_assertions m)) \<and> is_id (md_author_org_id m)"

definition wf_payload :: "payload \<Rightarrow> bool" where
  "wf_payload p \<longleftrightarrow> is_id (pl_revision_id p) \<and> wf_slot (pl_slot p) \<and> text_ok 200 (pl_title p) \<and>
     text_ok 262144 (pl_body p) \<and> byte_length (pl_body p) \<le> 262144 \<and>
     length (pl_parents p) \<le> 2 \<and> list_all is_digest (pl_parents p) \<and>
     unique_values (map JStr (pl_parents p)) \<and>
     length (pl_dependencies p) \<le> 32 \<and>
     list_all (wf_dependency (channel_id (pl_slot p))) (pl_dependencies p) \<and>
     unique_values (map enc_dependency (pl_dependencies p)) \<and> wf_metadata (pl_metadata p)"

definition wf_revision :: "sha_fn \<Rightarrow> revision \<Rightarrow> bool" where
  "wf_revision sha r \<longleftrightarrow> is_digest (rv_digest r) \<and> wf_payload (rv_payload r) \<and>
     (case canonicalize (enc_payload (rv_payload r)) of
        Ok text \<Rightarrow> byte_length text \<le> 524288 \<and> rv_digest r = digest_text sha text
      | Err _ \<Rightarrow> False)"

definition wf_representative :: "representative \<Rightarrow> bool" where
  "wf_representative r \<longleftrightarrow> is_id (rep_role r) \<and> is_id (rep_org r) \<and> is_id (rep_actor r)"

definition wf_policy :: "policy \<Rightarrow> bool" where
  "wf_policy p \<longleftrightarrow> is_id (pol_id p) \<and> wf_version_range (pol_version p) \<and> wf_slot (pol_slot p) \<and>
     wf_version_range (pol_epoch p) \<and> wf_version_range (pol_binding p) \<and> is_id (pol_acceptance_slot p) \<and>
     1 \<le> length (pol_roles p) \<and> length (pol_roles p) \<le> 32 \<and> list_all is_id (pol_roles p) \<and>
     unique_values (map JStr (pol_roles p)) \<and>
     1 \<le> length (pol_allowed p) \<and> list_all is_id (pol_allowed p) \<and>
     unique_values (map JStr (pol_allowed p)) \<and>
     length (pol_reps p) = length (pol_roles p) \<and> list_all wf_representative (pol_reps p) \<and>
     (\<forall>r \<in> set (pol_reps p). rep_role r \<in> set (pol_roles p)) \<and>
     distinct (map rep_role (pol_reps p)) \<and> distinct (map rep_key (pol_reps p))"

definition wf_identity :: "identity \<Rightarrow> bool" where
  "wf_identity i \<longleftrightarrow> is_id (ident_org i) \<and> is_id (ident_actor i) \<and>
     list_all (\<lambda>c. c = js ''*'' \<or> is_id c) (ident_contexts i) \<and>
     unique_values (map JStr (ident_contexts i))"

definition human_representatives :: "identity list \<Rightarrow> policy \<Rightarrow> bool" where
  "human_representatives ids p \<longleftrightarrow> list_all (\<lambda>r.
     case find (\<lambda>i. ident_org i = rep_org r \<and> ident_actor i = rep_actor r) ids of
       None \<Rightarrow> False | Some i \<Rightarrow> ident_kind i = Human) (pol_reps p)"

definition wf_config :: "config \<Rightarrow> bool" where
  "wf_config c \<longleftrightarrow> wf_version (cfg_version c) \<and> is_id (cfg_channel c) \<and>
     wf_version_range (cfg_epoch c) \<and> wf_version_range (cfg_binding c) \<and>
     1 \<le> length (cfg_identities c) \<and> list_all wf_identity (cfg_identities c) \<and>
     distinct (map identity_key (cfg_identities c)) \<and>
     1 \<le> length (cfg_policies c) \<and> list_all wf_policy (cfg_policies c) \<and>
     distinct (map policy_key (cfg_policies c)) \<and>
     list_all (\<lambda>p. channel_id (pol_slot p) = cfg_channel c \<and> pol_epoch p = cfg_epoch c \<and>
       pol_binding p = cfg_binding c \<and> human_representatives (cfg_identities c) p) (cfg_policies c)"

definition wf_proposal :: "proposal \<Rightarrow> bool" where
  "wf_proposal p \<longleftrightarrow> is_id (pr_id p) \<and> is_digest (pr_digest p) \<and> is_id (pr_policy_id p) \<and>
     wf_version_range (pr_policy_version p) \<and> wf_version_range (pr_epoch p) \<and>
     wf_version_range (pr_binding p) \<and> wf_version (pr_config_version p) \<and>
     wf_actor (pr_created_by p) \<and> text_ok 80 (pr_created_at p) \<and>
     0 \<le> pr_counter p \<and> pr_counter p \<le> max_safe \<and>
     pred_option is_id (pr_agreement p) \<and> wf_slot (pr_slot p)"

definition wf_decision :: "decision \<Rightarrow> bool" where
  "wf_decision d \<longleftrightarrow> is_id (de_id d) \<and> is_digest (de_digest d) \<and> wf_slot (de_slot d) \<and>
     is_id (de_policy_id d) \<and> wf_version_range (de_policy_version d) \<and> wf_version_range (de_epoch d) \<and>
     wf_version_range (de_binding d) \<and> is_id (de_org d) \<and> is_id (de_actor d) \<and> is_id (de_subject d) \<and>
     is_id (de_role d) \<and> text_ok 1000 (de_rationale d) \<and> text_ok 80 (de_at d) \<and> is_id (de_proposal d) \<and>
     (case de_retracts d of None \<Rightarrow> de_kind d \<noteq> Retract | Some t \<Rightarrow> de_kind d = Retract \<and> is_id t)"

definition wf_agreement :: "agreement \<Rightarrow> bool" where
  "wf_agreement a \<longleftrightarrow> is_id (ag_id a) \<and> is_id (ag_proposal a) \<and> is_digest (ag_digest a) \<and>
     is_id (ag_policy_id a) \<and> wf_version_range (ag_policy_version a) \<and> wf_version_range (ag_epoch a) \<and>
     wf_version_range (ag_binding a) \<and> 1 \<le> length (ag_approvals a) \<and> length (ag_approvals a) \<le> 32 \<and>
     list_all is_id (ag_approvals a) \<and> unique_values (map JStr (ag_approvals a)) \<and>
     wf_actor (ag_by a) \<and> text_ok 80 (ag_at a) \<and> pred_option (text_ok 1000) (ag_reason a) \<and>
     pred_option wf_actor (ag_changed_by a) \<and> pred_option (text_ok 80) (ag_changed_at a) \<and>
     wf_slot (ag_slot a)"

section \<open>Encodings are canonical JSON\<close>

lemma is_relationship_valid [intro]: "is_relationship s \<Longrightarrow> valid_unicode s"
  by (rule token_valid_unicode, cases s) (auto simp: char_defs list_all_iff)

lemma text_ok_valid: "text_ok n s \<Longrightarrow> valid_unicode s"
  by (simp add: text_ok_def)

lemma canon_ok_int: "canon_ok (JNum (NInt i)) d \<longleftrightarrow> d \<le> 128 \<and> \<bar>i\<bar> \<le> max_safe"
  by (simp add: max_safe_def is_ok_simps)

lemma wf_version_range_canon: "wf_version_range i \<Longrightarrow> d \<le> 128 \<Longrightarrow> canon_ok (JNum (NInt i)) d"
  unfolding canon_ok_int by (simp add: wf_version_range_def)

lemma canon_ok_words [simp]:
  "canon_ok (enc_kind k) d \<longleftrightarrow> d \<le> 128" "canon_ok (enc_enforcement e) d \<longleftrightarrow> d \<le> 128"
  "canon_ok (enc_source_kind s) d \<longleftrightarrow> d \<le> 128" "canon_ok (enc_proposal_status t) d \<longleftrightarrow> d \<le> 128"
  "valid_unicode (decision_word w)" "valid_unicode (status_word z)"
  by (cases k; cases e; cases s; cases t; cases w; cases z; simp)+

lemma canon_ok_enc_version: "wf_version x \<Longrightarrow> d \<le> 128 \<Longrightarrow> canon_ok (enc_version x) d"
  by (cases x) (auto simp: max_safe_def)

lemmas canon_intros = token_valid text_ok_valid wf_version_range_canon canon_ok_enc_version

lemma cloned_Ok_iff [simp]: "cloned enc x = Ok y \<longleftrightarrow> y = x \<and> canon_ok (enc x) 0"
  by (auto simp: cloned_def canonicalize_Ok_iff [symmetric])

lemma wf_slot_canon: "wf_slot s \<Longrightarrow> valid_unicode (channel_id s) \<and> valid_unicode (document_id s) \<and>
    valid_unicode (context_id s) \<and> valid_unicode (scope_id s) \<and> valid_unicode (usage_scope s)"
  by (auto simp: wf_slot_def)

lemma canon_ok_enc_actor: "wf_actor a \<Longrightarrow> d \<le> 100 \<Longrightarrow> canon_ok (enc_actor a) d"
  by (auto simp: enc_actor_def canon_ok_obj wf_actor_def)

lemma canon_ok_enc_dependency: "wf_dependency ch x \<Longrightarrow> d \<le> 100 \<Longrightarrow> canon_ok (enc_dependency x) d"
  by (auto simp: enc_dependency_def canon_ok_obj wf_dependency_def dest: wf_slot_canon)

lemma canon_ok_enc_assertion: "wf_assertion a \<Longrightarrow> d \<le> 100 \<Longrightarrow> canon_ok (enc_assertion a) d"
  by (auto simp: enc_assertion_def canon_ok_obj wf_assertion_def dest: text_ok_valid)

lemma canon_ok_enc_metadata:
  "wf_metadata m \<Longrightarrow> d \<le> 90 \<Longrightarrow> canon_ok (enc_metadata m) d \<longleftrightarrow> length (md_assertions m) \<le> 65536"
  by (auto simp: enc_metadata_def canon_ok_obj wf_metadata_def list_all_iff
      intro: canon_ok_enc_assertion dest: text_ok_valid)

lemma canon_ok_enc_payload:
  "wf_payload p \<Longrightarrow> d \<le> 80 \<Longrightarrow>
     canon_ok (enc_payload p) d \<longleftrightarrow> length (md_assertions (pl_metadata p)) \<le> 65536"
  by (auto simp: enc_payload_def canon_ok_obj wf_payload_def list_all_iff canon_ok_enc_metadata
      max_safe_def intro: canon_ok_enc_dependency dest: text_ok_valid wf_slot_canon)

lemma canon_ok_enc_revision: "wf_revision sha r \<Longrightarrow> d \<le> 70 \<Longrightarrow> canon_ok (enc_revision r) d"
  using canonicalize_Ok_iff [of "enc_payload (rv_payload r)"]
  by (auto simp: enc_revision_def canon_ok_obj wf_revision_def canon_ok_enc_payload split: result.splits)

lemma canon_ok_enc_representative: "wf_representative r \<Longrightarrow> d \<le> 100 \<Longrightarrow> canon_ok (enc_representative r) d"
  by (auto simp: enc_representative_def canon_ok_obj wf_representative_def)

lemma wf_version_range_abs: "wf_version_range i \<Longrightarrow> \<bar>i\<bar> \<le> 9007199254740991"
  by (simp add: wf_version_range_def max_safe_def)

lemma canon_ok_enc_proposal: "wf_proposal p \<Longrightarrow> d \<le> 90 \<Longrightarrow> canon_ok (enc_proposal p) d"
  by (cases "pr_agreement p")
    (auto simp: enc_proposal_def canon_ok_obj wf_proposal_def opt_prop_def max_safe_def
      intro: canon_ok_enc_actor canon_ok_enc_version dest: text_ok_valid wf_slot_canon wf_version_range_abs)

lemma canon_ok_enc_decision: "wf_decision x \<Longrightarrow> d \<le> 90 \<Longrightarrow> canon_ok (enc_decision x) d"
  by (cases "de_retracts x")
    (auto simp: enc_decision_def canon_ok_obj wf_decision_def opt_prop_def max_safe_def
      dest: text_ok_valid wf_slot_canon wf_version_range_abs)

lemma canon_ok_enc_agreement: "wf_agreement a \<Longrightarrow> d \<le> 90 \<Longrightarrow> canon_ok (enc_agreement a) d"
  by (cases "ag_changed_at a"; cases "ag_changed_by a"; cases "ag_reason a")
    (auto simp: enc_agreement_def canon_ok_obj wf_agreement_def opt_prop_def max_safe_def list_all_iff
      intro: canon_ok_enc_actor dest: text_ok_valid wf_slot_canon wf_version_range_abs)

section \<open>The validators and the well-formedness predicates\<close>

lemma dec_words [simp]:
  "dec_enforcement (enc_enforcement e) = Ok e" "dec_source_kind (enc_source_kind s) = Ok s"
  "dec_kind c n b (enc_kind k) = Ok k" "dec_proposal_status (enc_proposal_status t) = Ok t"
  "dec_decision_kind (JStr (decision_word w)) = Ok w" "dec_status (JStr (status_word z)) = Ok z"
  by (cases e; cases s; cases k; cases t; cases w; cases z;
      simp add: dec_enforcement_def dec_source_kind_def dec_kind_def dec_proposal_status_def
        dec_decision_kind_def dec_status_def)+

lemma assert_relationship_Ok [simp]: "assert_relationship v = Ok s \<longleftrightarrow> v = JStr s \<and> is_relationship s"
  by (auto simp: assert_relationship_def split: json.splits)

lemma optional_Ok_iff: "optional f v = Ok y \<longleftrightarrow>
    (v = JUndef \<and> y = None) \<or> (v \<noteq> JUndef \<and> (\<exists>x. f v = Ok x \<and> y = Some x))"
  by (auto simp: optional_def)

lemma canonicalize_canon_ok: "canon_ok v 0 \<Longrightarrow> \<exists>s. canonicalize v = Ok s"
  by (simp add: canonicalize_Ok_iff)

lemma validate_dependency_enc:
  "wf_dependency ch d \<Longrightarrow> validate_dependency ch (enc_dependency d) = Ok d"
  using canonicalize_canon_ok [OF canon_ok_enc_dependency [of ch d 0]] canon_ok_enc_dependency [of ch d 0]
  by (auto simp: validate_dependency_def wf_dependency_def wf_slot_def enc_dependency_def)

lemma validate_dependency_wf:
  "validate_dependency ch v = Ok d \<Longrightarrow> is_id ch \<Longrightarrow> wf_dependency ch d"
  by (auto simp: validate_dependency_def wf_dependency_def wf_slot_def)

lemma validate_assertion_enc: "wf_assertion a \<Longrightarrow> validate_assertion (enc_assertion a) = Ok a"
  using canonicalize_canon_ok [OF canon_ok_enc_assertion [of a 0]] canon_ok_enc_assertion [of a 0]
  by (auto simp: validate_assertion_def wf_assertion_def enc_assertion_def)

lemma validate_assertion_wf: "validate_assertion v = Ok a \<Longrightarrow> wf_assertion a"
  by (auto simp: validate_assertion_def wf_assertion_def)

lemma validate_assertions_wf: "mapR validate_assertion vs = Ok xs \<Longrightarrow> list_all wf_assertion xs"
  using mapR_list_all validate_assertion_wf by blast

lemma validate_dependencies_wf:
  assumes "mapR (validate_dependency ch) vs = Ok xs" and "is_id ch"
  shows "list_all (wf_dependency ch) xs \<and> length xs = length vs"
proof -
  have "list_all (wf_dependency ch) xs"
    by (rule mapR_list_all [OF assms(1)]) (rule validate_dependency_wf [OF _ assms(2)])
  then show ?thesis using mapR_length [OF assms(1)] by simp
qed

lemma validate_metadata_enc: "wf_metadata m \<Longrightarrow> validate_metadata (enc_metadata m) = Ok m"
  by (auto simp: validate_metadata_def wf_metadata_def enc_metadata_def unique_values_def list_all_iff
      intro!: exI [of _ "md_assertions m"] mapR_map_Ok validate_assertion_enc)

lemma validate_metadata_wf: "validate_metadata v = Ok m \<Longrightarrow> wf_metadata m"
  by (auto simp: validate_metadata_def wf_metadata_def unique_values_def
      intro: validate_assertions_wf)

lemma no_agreement_id_obj [simp]:
  "assert_no_agreement_id (obj kvs) = Ok u \<longleftrightarrow>
     ''agreement_id'' \<notin> fst ` set kvs \<and> (\<forall>(k, x) \<in> set kvs. assert_no_agreement_id x = Ok ())"
  by (force simp: obj_def)

lemma no_agreement_id_words [simp]:
  "assert_no_agreement_id (enc_enforcement e) = Ok ()" "assert_no_agreement_id (enc_source_kind s) = Ok ()"
  by (cases e; cases s; simp)+

lemma no_agreement_id_enc_payload: "assert_no_agreement_id (enc_payload p) = Ok ()"
  by (auto simp: enc_payload_def enc_dependency_def enc_metadata_def enc_assertion_def)

lemma mapR_assert_id [simp]: "mapR assert_id vs = Ok xs \<longleftrightarrow> vs = map JStr xs \<and> list_all is_id xs"
  by (rule mapR_Ok_enc) simp

lemma mapR_assert_digest [simp]: "mapR assert_digest vs = Ok xs \<longleftrightarrow> vs = map JStr xs \<and> list_all is_digest xs"
  by (rule mapR_Ok_enc) simp

lemma validate_payload_enc: "wf_payload p \<Longrightarrow> validate_payload (enc_payload p) = Ok p"
  using no_agreement_id_enc_payload [of p]
  by (auto simp: validate_payload_def wf_payload_def enc_payload_def unique_values_def list_all_iff
      wf_slot_def validate_metadata_enc
      intro!: exI [of _ "pl_dependencies p"] mapR_map_Ok validate_dependency_enc)

lemma validate_payload_wf: "validate_payload v = Ok p \<Longrightarrow> wf_payload p"
  by (auto simp: validate_payload_def wf_payload_def unique_values_def wf_slot_def
      dest!: validate_dependencies_wf intro: validate_metadata_wf)

lemma validate_revision_enc: "wf_revision sha r \<Longrightarrow> validate_revision sha (enc_revision r) = Ok r"
  by (auto simp: validate_revision_def wf_revision_def enc_revision_def validate_payload_enc
      digest_payload_def split: result.splits)

lemma validate_revision_wf: "validate_revision sha v = Ok r \<Longrightarrow> wf_revision sha r"
  by (auto simp: validate_revision_def wf_revision_def digest_payload_def dest: validate_payload_wf)

end
