(* ===== verification/CodecRecords.thy ===== *)
theory CodecRecords
  imports Codec
begin

text \<open>
  The validators of stored records, policies and configurations meet the contract of \<open>Codec\<close>; the
  interpretations of \<open>codec\<close> and \<open>stored_codec\<close> for every record kind.
\<close>

section \<open>Proposals, decisions, agreements\<close>

lemma validate_actor_enc [simp]: "wf_actor a \<Longrightarrow> validate_actor (enc_actor a) = Ok a"
  by (auto simp: validate_actor_def wf_actor_def enc_actor_def)

lemma validate_actor_wf: "validate_actor v = Ok a \<Longrightarrow> wf_actor a"
  by (auto simp: validate_actor_def wf_actor_def)

lemma validate_actor_enc_iff: "validate_actor (enc_actor a) = Ok b \<longleftrightarrow> b = a \<and> wf_actor a"
  by (auto simp: validate_actor_def wf_actor_def enc_actor_def)

lemma enc_actor_neq [simp]: "enc_actor a \<noteq> JUndef"
  by (simp add: enc_actor_def)

lemma assert_slot_shape_obj:
  "wf_slot s \<Longrightarrow> map_of kvs ''channel_id'' = Some (JStr (channel_id s)) \<Longrightarrow>
   map_of kvs ''document_id'' = Some (JStr (document_id s)) \<Longrightarrow>
   map_of kvs ''context_id'' = Some (JStr (context_id s)) \<Longrightarrow>
   map_of kvs ''scope_id'' = Some (JStr (scope_id s)) \<Longrightarrow>
   map_of kvs ''usage_scope'' = Some (JStr (usage_scope s)) \<Longrightarrow> assert_slot_shape (obj kvs) = Ok s"
  by (simp add: assert_slot_shape_def wf_slot_def)

lemma safe_range: "wf_version_range i \<Longrightarrow> \<bar>i\<bar> \<le> max_safe \<and> 1 \<le> i"
  by (auto simp: wf_version_range_def)

lemma safe_rangeI: "assert_safe_integer v 1 = Ok i \<Longrightarrow> wf_version_range i"
  by (auto simp: wf_version_range_def dest: assert_safe_integer_Ok)

lemma validate_proposal_enc: "wf_proposal p \<Longrightarrow> validate_proposal (enc_proposal p) = Ok p"
  using canonicalize_canon_ok [OF canon_ok_enc_proposal [of p 0]] canon_ok_enc_proposal [of p 0]
  by (cases "pr_agreement p")
    (auto simp: validate_proposal_def wf_proposal_def enc_proposal_def opt_prop_def optional_Ok_iff
      safe_range intro!: assert_slot_shape_obj)

lemma validate_proposal_wf: "validate_proposal v = Ok p \<Longrightarrow> wf_proposal p"
  by (auto simp: validate_proposal_def wf_proposal_def optional_Ok_iff
      dest: validate_actor_wf assert_version_Ok_wf assert_slot_shape_wf assert_safe_integer_Ok safe_rangeI)

lemma mapR_ids: "list_all is_id xs \<Longrightarrow> mapR assert_id (map JStr xs) = Ok xs"
  by simp

lemma retracts_Ok_iff: "assert_retracts k v = Ok y \<longleftrightarrow>
    (k = Retract \<and> (\<exists>t. v = JStr t \<and> is_id t \<and> y = Some t)) \<or> (k \<noteq> Retract \<and> v = JUndef \<and> y = None)"
  by (auto simp: assert_retracts_def)

lemma dec_retract: "dec_decision_kind (JStr (js ''retract'')) = Ok Retract"
  by (simp add: dec_decision_kind_def)

lemma validate_decision_enc: "wf_decision d \<Longrightarrow> validate_decision (enc_decision d) = Ok d"
  using canonicalize_canon_ok [OF canon_ok_enc_decision [of d 0]] canon_ok_enc_decision [of d 0]
  by (cases "de_retracts d")
    (clarsimp simp: validate_decision_def wf_decision_def enc_decision_def opt_prop_def assert_retracts_def
      safe_range wf_slot_def assert_slot_shape_def assert_eval dec_retract simp del: rbind_Ok_iff)+

lemma retracts_wf: "assert_retracts k v = Ok r \<Longrightarrow>
    (case r of None \<Rightarrow> k \<noteq> Retract | Some t \<Rightarrow> k = Retract \<and> is_id t)"
  by (auto simp: assert_retracts_def split: if_splits)

lemma validate_decision_wf: "validate_decision v = Ok d \<Longrightarrow> wf_decision d"
  by (clarsimp simp: validate_decision_def wf_decision_def wf_slot_def safe_rangeI retracts_wf)

lemma validate_agreement_enc: "wf_agreement a \<Longrightarrow> validate_agreement (enc_agreement a) = Ok a"
  using canonicalize_canon_ok [OF canon_ok_enc_agreement [of a 0]] canon_ok_enc_agreement [of a 0]
  by (cases "ag_changed_at a"; cases "ag_changed_by a"; cases "ag_reason a")
    (clarsimp simp: validate_agreement_def wf_agreement_def enc_agreement_def opt_prop_def optional_def
      safe_range unique_values_def assert_slot_shape_obj assert_eval mapR_ids simp del: rbind_Ok_iff)+

lemma optional_wf: "optional f v = Ok y \<Longrightarrow> (\<And>w x. f w = Ok x \<Longrightarrow> P x) \<Longrightarrow> pred_option P y"
  by (auto simp: optional_Ok_iff)

lemma validate_agreement_wf: "validate_agreement v = Ok a \<Longrightarrow> wf_agreement a"
  by (clarsimp simp: validate_agreement_def wf_agreement_def unique_values_def
      validate_actor_wf assert_slot_shape_wf safe_rangeI) (auto elim!: optional_wf intro: validate_actor_wf)

text \<open>The loop over representatives collects exactly the well-formed, pairwise different ones.\<close>

definition reps_inv :: "jstr list \<Rightarrow> representative list \<Rightarrow> bool" where
  "reps_inv roles rs \<longleftrightarrow> list_all wf_representative rs \<and> (\<forall>r \<in> set rs. rep_role r \<in> set roles) \<and>
     distinct (map rep_role rs) \<and> distinct (map rep_key rs)"

lemma validate_representative_Ok:
  "validate_representative roles v seen = Ok rs \<Longrightarrow> reps_inv roles seen \<Longrightarrow> reps_inv roles rs"
  by (auto simp: validate_representative_def reps_inv_def wf_representative_def rep_key_def)

lemma validate_representative_enc:
  "reps_inv roles (seen @ [r]) \<Longrightarrow> validate_representative roles (enc_representative r) seen = Ok (seen @ [r])"
  using canonicalize_canon_ok [OF canon_ok_enc_representative [of r 0]] canon_ok_enc_representative [of r 0]
  by (auto simp: validate_representative_def reps_inv_def wf_representative_def enc_representative_def rep_key_def)

lemma reps_inv_prefix: "reps_inv roles (xs @ ys) \<Longrightarrow> reps_inv roles xs"
  by (auto simp: reps_inv_def)

lemma representatives_enc:
  "reps_inv roles (seen @ rs) \<Longrightarrow>
     foldR (validate_representative roles) (map enc_representative rs) seen = Ok (seen @ rs)"
proof (induction rs arbitrary: seen)
  case (Cons r rs)
  have "reps_inv roles (seen @ [r])" using reps_inv_prefix [of roles "seen @ [r]" rs] Cons.prems by simp
  then show ?case using Cons.IH [of "seen @ [r]"] Cons.prems by (simp add: validate_representative_enc)
qed simp

lemma representatives_inv:
  assumes "foldR (validate_representative roles) vs [] = Ok rs" shows "reps_inv roles rs"
proof (rule foldR_invariant [where P = "reps_inv roles", OF _ _ assms])
  show "reps_inv roles []" by (simp add: reps_inv_def)
qed (blast intro: validate_representative_Ok)

lemma validate_policy_enc:
  assumes "wf_policy p" shows "validate_policy (enc_policy p) = Ok p"
proof -
  have "foldR (validate_representative (pol_roles p)) (map enc_representative (pol_reps p)) [] = Ok (pol_reps p)"
    using assms representatives_enc [of "pol_roles p" "[]" "pol_reps p"]
    by (simp add: wf_policy_def reps_inv_def)
  then show ?thesis using assms
    by (clarsimp simp: validate_policy_def wf_policy_def enc_policy_def unique_values_def safe_range
        wf_slot_def assert_eval mapR_ids simp del: rbind_Ok_iff)
qed

lemma validate_policy_wf: "validate_policy v = Ok p \<Longrightarrow> wf_policy p"
  by (auto simp: validate_policy_def wf_policy_def unique_values_def wf_slot_def reps_inv_def
      dest: safe_rangeI representatives_inv)

section \<open>Configurations\<close>

definition idents_inv :: "identity list \<Rightarrow> bool" where
  "idents_inv is \<longleftrightarrow> list_all wf_identity is \<and> distinct (map identity_key is)"

lemma mapR_publish_contexts:
  "mapR assert_publish_context vs = Ok xs \<longleftrightarrow> vs = map JStr xs \<and> list_all (\<lambda>c. c = js ''*'' \<or> is_id c) xs"
  by (rule mapR_Ok_enc) (auto simp: assert_publish_context_def)

lemma validate_identity_Ok:
  "validate_identity v seen = Ok is \<Longrightarrow> idents_inv seen \<Longrightarrow> idents_inv is"
  by (auto simp: validate_identity_def idents_inv_def wf_identity_def identity_key_def
      mapR_publish_contexts unique_values_def)

lemma validate_identity_enc:
  "idents_inv (seen @ [i]) \<Longrightarrow> validate_identity (enc_identity i) seen = Ok (seen @ [i])"
  by (auto simp: validate_identity_def idents_inv_def wf_identity_def enc_identity_def identity_key_def
      mapR_publish_contexts unique_values_def)

lemma identities_enc:
  "idents_inv (seen @ is) \<Longrightarrow> foldR validate_identity (map enc_identity is) seen = Ok (seen @ is)"
proof (induction "is" arbitrary: seen)
  case (Cons i "is")
  have "idents_inv (seen @ [i])" using Cons.prems by (auto simp: idents_inv_def)
  then show ?case using Cons.IH [of "seen @ [i]"] Cons.prems by (simp add: validate_identity_enc)
qed simp

lemma identities_inv:
  assumes "foldR validate_identity vs [] = Ok is" shows "idents_inv is"
proof (rule foldR_invariant [where P = idents_inv, OF _ _ assms])
  show "idents_inv []" by (simp add: idents_inv_def)
qed (blast intro: validate_identity_Ok)

definition policies_inv :: "jstr \<Rightarrow> int \<Rightarrow> int \<Rightarrow> identity list \<Rightarrow> policy list \<Rightarrow> bool" where
  "policies_inv ch epoch binding is ps \<longleftrightarrow> list_all wf_policy ps \<and> distinct (map policy_key ps) \<and>
     list_all (\<lambda>p. channel_id (pol_slot p) = ch \<and> pol_epoch p = epoch \<and> pol_binding p = binding \<and>
       human_representatives is p) ps"

lemma validate_config_policy_Ok:
  "validate_config_policy ch e b is v seen = Ok ps \<Longrightarrow> policies_inv ch e b is seen \<Longrightarrow> policies_inv ch e b is ps"
  by (auto simp: validate_config_policy_def policies_inv_def human_representatives_def list_all_iff
      dest: validate_policy_wf)

lemma validate_config_policy_enc:
  "policies_inv ch e b is (seen @ [p]) \<Longrightarrow> validate_config_policy ch e b is (enc_policy p) seen = Ok (seen @ [p])"
  by (auto simp: validate_config_policy_def policies_inv_def human_representatives_def list_all_iff
      validate_policy_enc)

lemma policies_enc:
  "policies_inv ch e b is (seen @ ps) \<Longrightarrow>
     foldR (validate_config_policy ch e b is) (map enc_policy ps) seen = Ok (seen @ ps)"
proof (induction ps arbitrary: seen)
  case (Cons p ps)
  have "policies_inv ch e b is (seen @ [p])" using Cons.prems by (auto simp: policies_inv_def)
  then show ?case using Cons.IH [of "seen @ [p]"] Cons.prems by (simp add: validate_config_policy_enc)
qed simp

lemma policies_inv:
  assumes "foldR (validate_config_policy ch e b is) vs [] = Ok ps" shows "policies_inv ch e b is ps"
proof (rule foldR_invariant [where P = "policies_inv ch e b is", OF _ _ assms])
  show "policies_inv ch e b is []" by (simp add: policies_inv_def)
qed (blast intro: validate_config_policy_Ok)

lemma validate_config_enc:
  assumes "wf_config c" shows "validate_config (enc_config c) = Ok c"
proof -
  have i: "foldR validate_identity (map enc_identity (cfg_identities c)) [] = Ok (cfg_identities c)"
    using assms identities_enc [of "[]" "cfg_identities c"] by (simp add: wf_config_def idents_inv_def)
  have p: "foldR (validate_config_policy (cfg_channel c) (cfg_epoch c) (cfg_binding c) (cfg_identities c))
      (map enc_policy (cfg_policies c)) [] = Ok (cfg_policies c)"
    using assms policies_enc [of "cfg_channel c" "cfg_epoch c" "cfg_binding c" "cfg_identities c" "[]" "cfg_policies c"]
    by (simp add: wf_config_def policies_inv_def)
  show ?thesis using assms i p
    by (clarsimp simp: validate_config_def wf_config_def enc_config_def safe_range assert_eval simp del: rbind_Ok_iff)
qed

lemma identities_length:
  assumes "foldR validate_identity vs [] = Ok is" shows "length is = length vs"
proof -
  have "length is = length ([] :: identity list) + length vs"
    by (rule foldR_length [OF _ assms]) (auto simp: validate_identity_def)
  then show ?thesis by simp
qed

lemma policies_length:
  assumes "foldR (validate_config_policy ch e b is) vs [] = Ok ps" shows "length ps = length vs"
proof -
  have "length ps = length ([] :: policy list) + length vs"
    by (rule foldR_length [OF _ assms]) (auto simp: validate_config_policy_def)
  then show ?thesis by simp
qed

lemma validate_config_wf: "validate_config v = Ok c \<Longrightarrow> wf_config c"
  by (clarsimp simp: validate_config_def wf_config_def safe_rangeI assert_version_Ok_wf)
    (frule identities_inv, frule policies_inv, drule identities_length, drule policies_length,
      simp add: idents_inv_def policies_inv_def)

section \<open>Every record kind meets the contract\<close>

interpretation revision: stored_codec enc_revision "validate_revision sha" "wf_revision sha" for sha
  by unfold_locales (auto intro: validate_revision_enc validate_revision_wf canon_ok_enc_revision)

interpretation proposal: stored_codec enc_proposal validate_proposal wf_proposal
  by unfold_locales (auto intro: validate_proposal_enc validate_proposal_wf canon_ok_enc_proposal)

interpretation decision: stored_codec enc_decision validate_decision wf_decision
  by unfold_locales (auto intro: validate_decision_enc validate_decision_wf canon_ok_enc_decision)

interpretation agreement: stored_codec enc_agreement validate_agreement wf_agreement
  by unfold_locales (auto intro: validate_agreement_enc validate_agreement_wf canon_ok_enc_agreement)

interpretation policy: codec enc_policy validate_policy wf_policy
  by unfold_locales (auto intro: validate_policy_enc validate_policy_wf)

interpretation config: codec enc_config validate_config wf_config
  by unfold_locales (auto intro: validate_config_enc validate_config_wf)

interpretation version: codec enc_version assert_version wf_version
  by unfold_locales (auto dest: assert_version_Ok_wf)

end
