(* ===== verification/World.thy ===== *)
theory World
  imports CodecRecords
begin

text \<open>
  The transaction context of the domain port (\<open>TxContext\<close> in \<open>packages/domain/index.ts\<close>): who acts,
  in which channel and transaction, and the keyed state that \<open>get\<close> and \<open>put\<close> see. The adapters
  (the local ledger, the chaincode) stage the writes of an invocation and commit or drop them as a
  whole; the model keeps both what \<open>get\<close> currently returns and the list of staged writes.
\<close>

type_synonym world = "jstr \<rightharpoonup> json"

record txctx =
  tx_actor :: actor
  tx_channel :: jstr
  tx_id :: jstr
  tx_time :: jstr

record tx =
  view :: world
  staged :: "(jstr \<times> json) list"

definition begin_tx :: "world \<Rightarrow> tx" where
  "begin_tx w = \<lparr>view = w, staged = []\<rparr>"

definition put :: "jstr \<Rightarrow> json \<Rightarrow> tx \<Rightarrow> tx" where
  "put k v t = \<lparr>view = (view t)(k \<mapsto> v), staged = staged t @ [(k, v)]\<rparr>"

text \<open>\<open>await ctx.put(key, cloneCanonical(value))\<close>\<close>

definition put_clone :: "jstr \<Rightarrow> json \<Rightarrow> tx \<Rightarrow> tx res" where
  "put_clone k v t = rbind (clone_canonical v) (\<lambda>v'. Ok (put k v' t))"

text \<open>A read that the code follows with \<open>value === undefined || value === null\<close>.\<close>

definition present :: "world \<Rightarrow> jstr \<Rightarrow> json option" where
  "present w k = (case w k of
     None \<Rightarrow> None
   | Some v \<Rightarrow> if v = JUndef \<or> v = JNull then None else Some v)"

text \<open>Applying a list of writes, later ones last.\<close>

definition apply_writes :: "(jstr \<times> json) list \<Rightarrow> world \<Rightarrow> world" where
  "apply_writes ws w = foldl (\<lambda>m (k, v). m(k \<mapsto> v)) w ws"

section \<open>What an adapter owes the engine\<close>

text \<open>
  The comment at the head of the domain port: both adapters provide the same read and write
  semantics. A context is a store in which a read returns the last value put under the key, and
  whose commit installs exactly the staged writes on the state it was opened on.
\<close>

locale tx_store =
  fixes open_tx :: "world \<Rightarrow> 's"
    and get :: "'s \<Rightarrow> jstr \<Rightarrow> json option"
    and store :: "jstr \<Rightarrow> json \<Rightarrow> 's \<Rightarrow> 's"
    and writes :: "'s \<Rightarrow> (jstr \<times> json) list"
  assumes get_open: "get (open_tx w) = w"
    and get_store: "get (store k v s) = (get s)(k \<mapsto> v)"
    and writes_open: "writes (open_tx w) = []"
    and commit_store: "apply_writes (writes (store k v s)) w = (apply_writes (writes s) w)(k \<mapsto> v)"
begin

lemma read_your_write: "get (store k v s) k = Some v"
  by (simp add: get_store)

lemma other_key: "l \<noteq> k \<Longrightarrow> get (store k v s) l = get s l"
  by (simp add: get_store)

text \<open>After any sequence of puts, committing the staged writes installs exactly what reads saw.\<close>

lemma commit_view:
  "apply_writes (writes (fold (\<lambda>(k, v). store k v) ps (open_tx w))) w = get (fold (\<lambda>(k, v). store k v) ps (open_tx w))"
proof (induction ps rule: rev_induct)
  case Nil
  then show ?case by (simp add: writes_open get_open apply_writes_def)
next
  case (snoc p ps)
  then show ?case by (cases p) (simp add: commit_store get_store)
qed

end

lemma apply_writes_Nil [simp]: "apply_writes [] w = w"
  by (simp add: apply_writes_def)

lemma apply_writes_snoc [simp]: "apply_writes (ws @ [(k, v)]) w = (apply_writes ws w)(k \<mapsto> v)"
  by (simp add: apply_writes_def)

interpretation context_store: tx_store begin_tx view put staged
  by unfold_locales (simp_all add: begin_tx_def put_def)

text \<open>The context is consistent with the state it was opened on.\<close>

definition tx_consistent :: "world \<Rightarrow> tx \<Rightarrow> bool" where
  "tx_consistent w t \<longleftrightarrow> view t = apply_writes (staged t) w"

lemma tx_consistent_begin [simp]: "tx_consistent w (begin_tx w)"
  by (simp add: tx_consistent_def begin_tx_def)

lemma tx_consistent_put [intro]: "tx_consistent w t \<Longrightarrow> tx_consistent w (put k v t)"
  by (simp add: tx_consistent_def put_def)

lemma view_put [simp]: "view (put k v t) = (view t)(k \<mapsto> v)"
  by (simp add: put_def)

lemma staged_put [simp]: "staged (put k v t) = staged t @ [(k, v)]"
  by (simp add: put_def)

lemma put_clone_Ok [simp]: "put_clone k v t = Ok t' \<longleftrightarrow> canon_ok v 0 \<and> t' = put k (jnorm v) t"
  by (auto simp: put_clone_def)

lemma present_put: "present (w(k \<mapsto> v)) l = (if l = k then (if v = JUndef \<or> v = JNull then None else Some v) else present w l)"
  by (simp add: present_def)

lemma present_empty [simp]: "present Map.empty k = None"
  by (simp add: present_def)

section \<open>Stored records\<close>

text \<open>The record that a key holds, as the validator of its kind reads it.\<close>

definition stored :: "(json \<Rightarrow> 'a res) \<Rightarrow> world \<Rightarrow> jstr \<Rightarrow> 'a option" where
  "stored dec w k = (case present w k of
     None \<Rightarrow> None
   | Some v \<Rightarrow> (case dec v of Ok x \<Rightarrow> Some x | Err _ \<Rightarrow> None))"

lemma stored_other: "l \<noteq> k \<Longrightarrow> stored dec (w(k \<mapsto> v)) l = stored dec w l"
  by (simp add: stored_def present_put)

lemma stored_same: "v \<noteq> JUndef \<Longrightarrow> v \<noteq> JNull \<Longrightarrow> dec v = Ok x \<Longrightarrow> stored dec (w(k \<mapsto> v)) k = Some x"
  by (simp add: stored_def present_put)

lemma stored_Some: "stored dec w k = Some x \<longleftrightarrow> (\<exists>v. present w k = Some v \<and> dec v = Ok x)"
  by (auto simp: stored_def split: option.splits result.splits)

end
