(* ===== verification/Resolve.thy ===== *)
theory Resolve
  imports World
begin

text \<open>
  Reading the agreement that is in force for a slot: \<open>resolveAt\<close>, \<open>resolveInternal\<close> and
  \<open>validateAgreementApprovals\<close> of \<open>packages/domain/index.ts\<close>. These functions take the read function
  of the context and write nothing.
\<close>

section \<open>The approvals an agreement cites\<close>

abbreviation corrupt_state :: "'a res" where
  "corrupt_state \<equiv> fail_as CORRUPT_STATE 500 True"

text \<open>The agreement is validated again and the configuration is read; any failure is corrupt state.\<close>

definition approvals_prelude :: "world \<Rightarrow> agreement \<Rightarrow> (agreement \<times> config) res" where
  "approvals_prelude w input =
     rcatch
       (rbind (validate_agreement (enc_agreement input)) (\<lambda>a.
        case present w key_config of
          None \<Rightarrow> corrupt_state
        | Some v \<Rightarrow> rbind (validate_config v) (\<lambda>c. Ok (a, c))))
       (\<lambda>e. case e of DomainError CORRUPT_STATE _ _ \<Rightarrow> Err e | _ \<Rightarrow> corrupt_state)"

definition policy_of :: "config \<Rightarrow> jstr \<Rightarrow> int \<Rightarrow> policy option" where
  "policy_of c pid ver = find (\<lambda>p. pol_id p = pid \<and> pol_version p = ver) (cfg_policies c)"

definition representative_of :: "policy \<Rightarrow> jstr \<Rightarrow> representative option" where
  "representative_of p role = find (\<lambda>r. rep_role r = role) (pol_reps p)"

text \<open>The inner loop: the first unselected cited decision that is the representative's approval.\<close>

fun find_approval ::
  "world \<Rightarrow> jstr \<Rightarrow> representative \<Rightarrow> jstr list \<Rightarrow> jstr list \<Rightarrow> (jstr \<times> decision) option res" where
  "find_approval w role r selected [] = Ok None"
| "find_approval w role r selected (i # is) =
     (if i \<in> set selected then find_approval w role r selected is
      else case present w (key_decision i) of
        None \<Rightarrow> corrupt_state
      | Some v \<Rightarrow> rbind (rcatch (validate_decision v) (\<lambda>_. corrupt_state)) (\<lambda>d.
          if de_kind d \<noteq> Approve then corrupt_state
          else if de_role d = role \<and> de_org d = rep_org r \<and> de_actor d = rep_actor r then Ok (Some (i, d))
          else find_approval w role r selected is))"

definition approval_binds :: "agreement \<Rightarrow> decision \<Rightarrow> bool" where
  "approval_binds a d \<longleftrightarrow> de_digest d = ag_digest a \<and> de_proposal d = ag_proposal a \<and>
     same_slot (de_slot d) (ag_slot a) \<and> de_policy_id d = ag_policy_id a \<and>
     de_policy_version d = ag_policy_version a \<and> de_epoch d = ag_epoch a \<and> de_binding d = ag_binding a"

definition select_approval ::
  "world \<Rightarrow> agreement \<Rightarrow> policy \<Rightarrow> jstr \<Rightarrow> jstr list \<times> decision list \<Rightarrow> (jstr list \<times> decision list) res" where
  "select_approval w a p role st =
     (case representative_of p role of
        None \<Rightarrow> corrupt_state
      | Some r \<Rightarrow> rbind (find_approval w role r (fst st) (ag_approvals a)) (\<lambda>found.
          case found of
            None \<Rightarrow> corrupt_state
          | Some (i, d) \<Rightarrow>
              if approval_binds a d then Ok (fst st @ [i], snd st @ [d]) else corrupt_state))"

definition validate_agreement_approvals :: "world \<Rightarrow> agreement \<Rightarrow> decision list res" where
  "validate_agreement_approvals w input =
     rbind (approvals_prelude w input) (\<lambda>(a, c).
     if ag_epoch a \<noteq> cfg_epoch c \<or> ag_binding a \<noteq> cfg_binding c then corrupt_state
     else case policy_of c (ag_policy_id a) (ag_policy_version a) of
       None \<Rightarrow> corrupt_state
     | Some p \<Rightarrow>
         if \<not> same_slot (pol_slot p) (ag_slot a) then corrupt_state
         else if length (ag_approvals a) \<noteq> length (pol_roles p) then corrupt_state
         else rbind (foldR (select_approval w a p) (pol_roles p) ([], [])) (\<lambda>(selected, decisions).
           if length selected \<noteq> length (ag_approvals a) then corrupt_state else Ok decisions))"

section \<open>Resolution\<close>

text \<open>
  \<open>ResolveResult\<close>: the agreement and revision in force, or the reason why there is none. The budget
  of visited slots is threaded, because the code shares one counter through the recursion.
\<close>

datatype resolution = Eligible agreement revision | Ineligible string

fun status_upper :: "agreement_status \<Rightarrow> string" where
  "status_upper Active = ''ACTIVE''"
| "status_upper Superseded = ''SUPERSEDED''"
| "status_upper Withdrawn = ''WITHDRAWN''"
| "status_upper Suspended = ''SUSPENDED''"

text \<open>The active-slot pointer: absent, cleared, an agreement id, or malformed.\<close>

datatype pointer = NoPointer | PointsTo jstr | BadPointer

definition read_pointer :: "world \<Rightarrow> slot \<Rightarrow> pointer" where
  "read_pointer w s = (case present w (key_active_slot s) of
     None \<Rightarrow> NoPointer
   | Some (JStr i) \<Rightarrow> PointsTo i
   | Some (JObj kvs) \<Rightarrow> (case fld (JObj kvs) ''agreement_id'' of
       JNull \<Rightarrow> NoPointer | JStr i \<Rightarrow> PointsTo i | _ \<Rightarrow> BadPointer)
   | Some _ \<Rightarrow> BadPointer)"

text \<open>\<open>keyFor.agreement(id)\<close> of an identifier that has not been validated may throw.\<close>

definition read_agreement :: "world \<Rightarrow> jstr \<Rightarrow> json option res" where
  "read_agreement w i = (if valid_unicode i then Ok (present w (key_agreement i)) else Err UriError)"

text \<open>The loop over the dependencies of a revision, with the resolution of one dependency as argument.\<close>

fun resolve_dependencies ::
  "(slot \<Rightarrow> nat \<Rightarrow> (resolution \<times> nat) res) \<Rightarrow> dependency list \<Rightarrow> nat \<Rightarrow> (string option \<times> nat) res" where
  "resolve_dependencies resolve [] b = Ok (None, b)"
| "resolve_dependencies resolve (d # ds) b =
     (if dep_enforcement d \<noteq> RequiresActive then resolve_dependencies resolve ds b
      else rbind (resolve (dep_slot d) b) (\<lambda>(r, b').
        case r of
          Ineligible why \<Rightarrow> Ok (Some (''DEPENDENCY_INELIGIBLE:'' @ why), b')
        | Eligible a rv \<Rightarrow>
            if rv_digest rv \<noteq> dep_digest d then Ok (Some ''DEPENDENCY_REVISION_MISMATCH'', b')
            else resolve_dependencies resolve ds b'))"

text \<open>
  What one slot's own records say, before its dependencies: the agreement and the revision, or the
  reason. This is the straight-line part of \<open>resolveInternal\<close>.
\<close>

definition resolve_local :: "sha_fn \<Rightarrow> world \<Rightarrow> config \<Rightarrow> slot \<Rightarrow> resolution res" where
  "resolve_local sha w c s =
     (case read_pointer w s of
        NoPointer \<Rightarrow> Ok (Ineligible ''NO_ACTIVE_AGREEMENT'')
      | BadPointer \<Rightarrow> Ok (Ineligible ''CORRUPT_ACTIVE_POINTER'')
      | PointsTo i \<Rightarrow> rbind (read_agreement w i) (\<lambda>value.
          case value of
            None \<Rightarrow> Ok (Ineligible ''MISSING_AGREEMENT'')
          | Some av \<Rightarrow> (case validate_agreement av of
              Err _ \<Rightarrow> Ok (Ineligible ''CORRUPT_AGREEMENT'')
            | Ok a \<Rightarrow>
                if ag_status a \<noteq> Active then Ok (Ineligible (''AGREEMENT_'' @ status_upper (ag_status a)))
                else if \<not> same_slot (ag_slot a) s then Ok (Ineligible ''AGREEMENT_SLOT_MISMATCH'')
                else if ag_epoch a \<noteq> cfg_epoch c \<or> ag_binding a \<noteq> cfg_binding c
                  then Ok (Ineligible ''STALE_CONFIGURATION'')
                else (case policy_of c (ag_policy_id a) (ag_policy_version a) of
                  None \<Rightarrow> Ok (Ineligible ''STALE_POLICY'')
                | Some p \<Rightarrow>
                    if \<not> same_slot (pol_slot p) (ag_slot a) then Ok (Ineligible ''STALE_POLICY'')
                    else (case validate_agreement_approvals w a of
                      Err (DomainError CORRUPT_STATE _ _) \<Rightarrow> Ok (Ineligible ''CORRUPT_APPROVALS'')
                    | Err e \<Rightarrow> Err e
                    | Ok _ \<Rightarrow> (case present w (key_revision (ag_digest a)) of
                        None \<Rightarrow> Ok (Ineligible ''MISSING_REVISION'')
                      | Some rv \<Rightarrow> (case validate_revision sha rv of
                          Err _ \<Rightarrow> Ok (Ineligible ''CORRUPT_REVISION'')
                        | Ok r \<Rightarrow>
                            if rv_digest r \<noteq> ag_digest a \<or> \<not> same_slot (rv_slot r) s
                            then Ok (Ineligible ''REVISION_SLOT_MISMATCH'')
                            else Ok (Eligible a r))))))))"

function resolve_internal ::
  "sha_fn \<Rightarrow> world \<Rightarrow> config \<Rightarrow> slot \<Rightarrow> jstr set \<Rightarrow> nat \<Rightarrow> nat \<Rightarrow> (resolution \<times> nat) res" where
  "resolve_internal sha w c s seen depth b =
     (if \<not> wf_slot s then fail INVALID_INPUT
      else if channel_id s \<noteq> cfg_channel c then Ok (Ineligible ''SCOPE_MISMATCH'', b)
      else if 8 < depth then Ok (Ineligible ''DEPENDENCY_DEPTH'', b)
      else if slot_key s \<in> seen then Ok (Ineligible ''DEPENDENCY_CYCLE'', b)
      else if 256 < Suc b then Ok (Ineligible ''DEPENDENCY_NODE_LIMIT'', Suc b)
      else rbind (resolve_local sha w c s) (\<lambda>own.
        case own of
          Ineligible why \<Rightarrow> Ok (Ineligible why, Suc b)
        | Eligible a r \<Rightarrow>
            rbind (resolve_dependencies
                (\<lambda>s' b'. resolve_internal sha w c s' (insert (slot_key s) seen) (Suc depth) b')
                (pl_dependencies (rv_payload r)) (Suc b)) (\<lambda>(why, b').
            case why of
              Some reason \<Rightarrow> Ok (Ineligible reason, b')
            | None \<Rightarrow> Ok (Eligible a r, b'))))"
  by pat_completeness auto
termination
  by (relation "measure (\<lambda>(sha, w, c, s, seen, depth, b). 9 - depth)") auto

declare resolve_internal.simps [simp del]

definition resolve_at ::
  "sha_fn \<Rightarrow> world \<Rightarrow> slot \<Rightarrow> jstr set \<Rightarrow> nat \<Rightarrow> nat \<Rightarrow> (resolution \<times> nat) res" where
  "resolve_at sha w s seen depth b =
     (if \<not> wf_slot s then fail INVALID_INPUT
      else case present w key_config of
        None \<Rightarrow> Ok (Ineligible ''CONFIG_NOT_BOOTSTRAPPED'', b)
      | Some v \<Rightarrow> (case validate_config v of
          Err _ \<Rightarrow> Ok (Ineligible ''CORRUPT_CONFIG'', b)
        | Ok c \<Rightarrow>
            if \<not> cfg_serving c then Ok (Ineligible ''SERVING_FROZEN'', b)
            else resolve_internal sha w c s seen depth b))"

text \<open>The call with the default arguments: nothing seen, depth 0, a fresh budget.\<close>

definition resolve :: "sha_fn \<Rightarrow> world \<Rightarrow> slot \<Rightarrow> resolution res" where
  "resolve sha w s = rmap fst (resolve_at sha w s {} 0 0)"

end
