(* ===== verification/Publish.thy ===== *)
theory Publish
  imports Resolve
begin

text \<open>
  The entry checks of every command and the publication of revisions: \<open>assertContext\<close>,
  \<open>readConfig\<close>, \<open>configuredIdentity\<close>, \<open>requireHuman\<close>, \<open>validatePublication\<close>,
  \<open>validatePublishedDependencyGraph\<close> and \<open>executePublish\<close> of \<open>packages/domain/index.ts\<close>. Each handler
  is split where the code changes from checking to writing: the \<open>..._check\<close> part reads only.
\<close>

section \<open>The transaction context and the configuration\<close>

text \<open>The actor is typed, so its kind is one of the two; the other fields are checked.\<close>

definition assert_context :: "txctx \<Rightarrow> unit res" where
  "assert_context ctx =
     rbind (assert_id (JStr (org_id (tx_actor ctx)))) (\<lambda>_.
     rbind (assert_id (JStr (actor_id (tx_actor ctx)))) (\<lambda>_.
     rbind (assert_id (JStr (tx_channel ctx))) (\<lambda>_.
     rbind (assert_non_empty_string (JStr (tx_id ctx)) 200) (\<lambda>_.
     rbind (assert_non_empty_string (JStr (tx_time ctx)) 80) (\<lambda>_. Ok ())))))"

definition read_config :: "world \<Rightarrow> config res" where
  "read_config w = (case present w key_config of
     None \<Rightarrow> fail_as NOT_BOOTSTRAPPED 503 True
   | Some v \<Rightarrow> validate_config v)"

definition configured_identity :: "config \<Rightarrow> actor \<Rightarrow> identity res" where
  "configured_identity c a =
     (case find (\<lambda>i. ident_org i = org_id a \<and> ident_actor i = actor_id a \<and> ident_kind i = kind a)
        (cfg_identities c) of
        None \<Rightarrow> fail_as FORBIDDEN 403 False
      | Some i \<Rightarrow> Ok i)"

definition require_human :: "txctx \<Rightarrow> config \<Rightarrow> identity res" where
  "require_human ctx c =
     (if kind (tx_actor ctx) \<noteq> Human then fail_as FORBIDDEN 403 False
      else configured_identity c (tx_actor ctx))"

definition assert_config_version_equal :: "version \<Rightarrow> version \<Rightarrow> unit res" where
  "assert_config_version_equal l r =
     rbind (canonicalize (enc_version l)) (\<lambda>s.
     rbind (canonicalize (enc_version r)) (\<lambda>t.
     if s \<noteq> t then fail_as STALE_CONFIGURATION 409 False else Ok ()))"

definition policy_for :: "config \<Rightarrow> jstr \<Rightarrow> int \<Rightarrow> policy res" where
  "policy_for c pid ver = (case policy_of c pid ver of
     None \<Rightarrow> fail_as POLICY_NOT_FOUND 404 False | Some p \<Rightarrow> Ok p)"

definition assert_policy_matches_revision :: "policy \<Rightarrow> revision \<Rightarrow> unit res" where
  "assert_policy_matches_revision p r =
     require_as (same_slot (pol_slot p) (rv_slot r)) SCOPE_MISMATCH 409 False"

section \<open>Reading revisions\<close>

text \<open>
  \<open>const v = await get(key); if (v === undefined || v === null) fail(...); validate(v)\<close>
\<close>

definition read_required :: "(json \<Rightarrow> 'a res) \<Rightarrow> 'a res \<Rightarrow> world \<Rightarrow> jstr \<Rightarrow> 'a res" where
  "read_required dec missing w k = (case present w k of None \<Rightarrow> missing | Some v \<Rightarrow> dec v)"

text \<open>The pointer of a revision id; the form before pointers held the revision itself.\<close>

definition read_revision_by_id :: "sha_fn \<Rightarrow> world \<Rightarrow> jstr \<Rightarrow> revision option res" where
  "read_revision_by_id sha w i = (case present w (key_revision_id i) of
     None \<Rightarrow> Ok None
   | Some v \<Rightarrow>
       (case (length (own_keys v) = 1, fld v ''revision_digest'') of
          (True, JStr d) \<Rightarrow>
            rbind (assert_keys v [''revision_digest''] []) (\<lambda>_.
            rbind (assert_digest (JStr d)) (\<lambda>_.
            rmap Some (read_required (validate_revision sha) (fail_as CORRUPT_STATE 500 True) w (key_revision d))))
        | _ \<Rightarrow> rmap Some (validate_revision sha v)))"

section \<open>The graph of published dependencies\<close>

text \<open>
  \<open>walk\<close>, with the set \<open>seen\<close> threaded as a list and \<open>path\<close> as the set of its callers. The read and
  check of one dependency is a function of its own.
\<close>

definition dependency_target :: "sha_fn \<Rightarrow> world \<Rightarrow> dependency \<Rightarrow> revision res" where
  "dependency_target sha w d =
     rbind (read_required (validate_revision sha) (fail_as DEPENDENCY_NOT_FOUND 409 False) w
              (key_revision (dep_digest d))) (\<lambda>target.
     if rv_digest target \<noteq> dep_digest d \<or> \<not> same_slot (rv_slot target) (dep_slot d)
     then fail_as DEPENDENCY_SCOPE_MISMATCH 409 False
     else Ok target)"

function walk :: "sha_fn \<Rightarrow> world \<Rightarrow> revision \<Rightarrow> nat \<Rightarrow> jstr set \<Rightarrow> jstr list \<Rightarrow> jstr list res" where
  "walk sha w current depth path seen =
     (if 8 < depth then fail_as DEPENDENCY_LIMIT 409 False
      else if rv_digest current \<in> path then fail_as DEPENDENCY_CYCLE 409 False
      else if rv_digest current \<in> set seen then Ok seen
      else if 256 < Suc (length seen) then fail_as DEPENDENCY_LIMIT 409 False
      else foldR (\<lambda>d s. rbind (dependency_target sha w d) (\<lambda>target.
             walk sha w target (Suc depth) (insert (rv_digest current) path) s))
           (pl_dependencies (rv_payload current)) (seen @ [rv_digest current]))"
  by pat_completeness auto
termination
  by (relation "measure (\<lambda>(sha, w, r, depth, path, seen). 9 - depth)") auto

declare walk.simps [simp del]

definition validate_published_dependency_graph :: "sha_fn \<Rightarrow> world \<Rightarrow> revision \<Rightarrow> unit res" where
  "validate_published_dependency_graph sha w root = rmap (\<lambda>_. ()) (walk sha w root 0 {} [])"

section \<open>\<open>publish_revision\<close>\<close>

definition validate_publication :: "sha_fn \<Rightarrow> json \<Rightarrow> (revision \<times> version \<times> int) res" where
  "validate_publication sha input =
     rbind (assert_keys input [''revision'', ''publication''] []) (\<lambda>_.
     rbind (validate_revision sha (fld input ''revision'')) (\<lambda>r.
     let pub = fld input ''publication'' in
     rbind (assert_record pub) (\<lambda>_.
     rbind (assert_keys pub [''revision_digest'', ''config_version'', ''membership_epoch''] []) (\<lambda>_.
     rbind (assert_digest (fld pub ''revision_digest'')) (\<lambda>digest.
     rbind (assert_version (fld pub ''config_version'')) (\<lambda>ver.
     rbind (assert_safe_integer (fld pub ''membership_epoch'') 1) (\<lambda>epoch.
     rbind (require (digest = rv_digest r) INVALID_INPUT) (\<lambda>_.
     Ok (r, ver, epoch)))))))))"

definition parent_check :: "sha_fn \<Rightarrow> world \<Rightarrow> revision \<Rightarrow> jstr \<Rightarrow> unit res" where
  "parent_check sha w r parent_digest =
     rbind (read_required (validate_revision sha) (fail_as PARENT_NOT_FOUND 409 False) w
              (key_revision parent_digest)) (\<lambda>parent.
     require_as (same_slot (rv_slot parent) (rv_slot r)) SCOPE_MISMATCH 409 False)"

text \<open>The second component tells whether the revision is already published.\<close>

definition publish_check :: "sha_fn \<Rightarrow> txctx \<Rightarrow> config \<Rightarrow> json \<Rightarrow> world \<Rightarrow> (revision \<times> bool) res" where
  "publish_check sha ctx c input w =
     rbind (configured_identity c (tx_actor ctx)) (\<lambda>ident.
     rbind (validate_publication sha input) (\<lambda>(r, ver, epoch).
     rbind (require_as (tx_channel ctx = cfg_channel c \<and> channel_id (rv_slot r) = cfg_channel c) SCOPE_MISMATCH 409 False) (\<lambda>_.
     rbind (require_as (js ''*'' \<in> set (ident_contexts ident) \<or> context_id (rv_slot r) \<in> set (ident_contexts ident))
              FORBIDDEN 403 False) (\<lambda>_.
     rbind (require_as (cfg_serving c) SERVING_FROZEN 409 False) (\<lambda>_.
     rbind (assert_config_version_equal ver (cfg_version c)) (\<lambda>_.
     rbind (require_as (epoch = cfg_epoch c) STALE_CONFIGURATION 409 False) (\<lambda>_.
     case present w (key_revision (rv_digest r)) of
       Some v \<Rightarrow>
         rbind (validate_revision sha v) (\<lambda>old.
         rbind (require_as (same_json (enc_revision old) (enc_revision r)) IMMUTABLE_CONFLICT 409 False) (\<lambda>_.
         Ok (r, True)))
     | None \<Rightarrow>
         rbind (read_revision_by_id sha w (pl_revision_id (rv_payload r))) (\<lambda>prior.
         case prior of
           Some old \<Rightarrow>
             rbind (require_as (rv_digest old = rv_digest r) IMMUTABLE_CONFLICT 409 False) (\<lambda>_. Ok (r, True))
         | None \<Rightarrow>
             rbind (forR (parent_check sha w r) (pl_parents (rv_payload r))) (\<lambda>_.
             rbind (validate_published_dependency_graph sha w r) (\<lambda>_.
             Ok (r, False)))))))))))"

definition publish_result :: "string \<Rightarrow> revision \<Rightarrow> json" where
  "publish_result status r = obj
     [(''revision_digest'', JStr (rv_digest r)), (''slot'', JStr (slot_key (rv_slot r))),
      (''status'', JStr (js status))]"

definition execute_publish :: "sha_fn \<Rightarrow> txctx \<Rightarrow> config \<Rightarrow> json \<Rightarrow> tx \<Rightarrow> (json \<times> tx) res" where
  "execute_publish sha ctx c input t =
     rbind (publish_check sha ctx c input (view t)) (\<lambda>(r, already).
     if already then Ok (publish_result ''already_published'' r, t)
     else
       rbind (put_clone (key_revision (rv_digest r)) (enc_revision r) t) (\<lambda>t1.
       Ok (publish_result ''published'' r,
           put (key_revision_id (pl_revision_id (rv_payload r))) (obj [(''revision_digest'', JStr (rv_digest r))]) t1)))"

end
