(* ===== verification/Govern.thy ===== *)
theory Govern
  imports Publish
begin

text \<open>
  Proposals, decisions and agreements: \<open>executePropose\<close>, \<open>executeDecide\<close>, \<open>executeActivate\<close>,
  \<open>executeStatusChange\<close> of \<open>packages/domain/index.ts\<close> and the readers they share. The part of a
  handler before its first write is a \<open>..._check\<close> function of the state.
\<close>

section \<open>\<open>propose\<close>\<close>

definition propose_check :: "sha_fn \<Rightarrow> txctx \<Rightarrow> config \<Rightarrow> json \<Rightarrow> world \<Rightarrow> (jstr \<times> revision \<times> policy) res" where
  "propose_check sha ctx c input w =
     rbind (configured_identity c (tx_actor ctx)) (\<lambda>ident.
     rbind (assert_keys input [''proposal_id'', ''revision_digest'', ''policy_id'', ''policy_version''] []) (\<lambda>_.
     rbind (assert_id (fld input ''proposal_id'')) (\<lambda>pid.
     rbind (assert_digest (fld input ''revision_digest'')) (\<lambda>digest.
     rbind (assert_id (fld input ''policy_id'')) (\<lambda>polid.
     rbind (assert_safe_integer (fld input ''policy_version'') 1) (\<lambda>polver.
     rbind (require_as (ident_can_propose ident) FORBIDDEN 403 False) (\<lambda>_.
     rbind (read_required (validate_revision sha) (fail_as REVISION_NOT_FOUND 404 False) w (key_revision digest)) (\<lambda>r.
     rbind (policy_for c polid polver) (\<lambda>p.
     rbind (assert_policy_matches_revision p r) (\<lambda>_.
     case present w (key_proposal pid) of
       None \<Rightarrow> Ok (pid, r, p)
     | Some v \<Rightarrow> rbind (validate_proposal v) (\<lambda>old.
         if pr_digest old = rv_digest r \<and> pr_policy_id old = pol_id p \<and> pr_policy_version old = pol_version p
         then fail_as PROPOSAL_REPLAY 409 False
         else fail_as IMMUTABLE_CONFLICT 409 False)))))))))))"

definition new_proposal :: "txctx \<Rightarrow> config \<Rightarrow> jstr \<Rightarrow> revision \<Rightarrow> policy \<Rightarrow> proposal" where
  "new_proposal ctx c pid r p =
     \<lparr>pr_id = pid, pr_digest = rv_digest r, pr_policy_id = pol_id p, pr_policy_version = pol_version p,
      pr_epoch = cfg_epoch c, pr_binding = cfg_binding c, pr_config_version = cfg_version c,
      pr_status = Open, pr_created_by = tx_actor ctx, pr_created_at = tx_time ctx, pr_counter = 0,
      pr_agreement = None, pr_slot = rv_slot r\<rparr>"

definition execute_propose :: "sha_fn \<Rightarrow> txctx \<Rightarrow> config \<Rightarrow> json \<Rightarrow> tx \<Rightarrow> (json \<times> tx) res" where
  "execute_propose sha ctx c input t =
     rbind (propose_check sha ctx c input (view t)) (\<lambda>(pid, r, p).
     rbind (put_clone (key_proposal pid) (enc_proposal (new_proposal ctx c pid r p)) t) (\<lambda>t1.
     rbind (put_clone (key_policy (pol_id p) (pol_version p)) (enc_policy p)
              (put (key_review_counter pid) (JNum (NInt 0)) t1)) (\<lambda>t2.
     Ok (obj [(''proposal_id'', JStr pid), (''revision_digest'', JStr (rv_digest r)),
              (''slot'', JStr (slot_key (rv_slot r))), (''status'', JStr (js ''proposed''))], t2))))"

section \<open>Readers of the governance state\<close>

definition decision_latest_key :: "decision \<Rightarrow> jstr" where
  "decision_latest_key d = key_latest_decision (de_proposal d) (de_policy_version d) (de_role d) (de_org d) (de_actor d)"

definition get_latest_decision :: "world \<Rightarrow> decision \<Rightarrow> decision option res" where
  "get_latest_decision w d = (case present w (decision_latest_key d) of
     None \<Rightarrow> Ok None
   | Some v \<Rightarrow>
       rbind (assert_record v) (\<lambda>_.
       rbind (assert_keys v [''decision_id''] []) (\<lambda>_.
       rbind (assert_id (fld v ''decision_id'')) (\<lambda>i.
       rmap Some (read_required validate_decision (fail_as CORRUPT_STATE 500 True) w (key_decision i))))))"

definition increment_epoch :: "tx \<Rightarrow> (int \<times> tx) res" where
  "increment_epoch t = (case present (view t) key_eligibility_epoch of
     None \<Rightarrow> Ok (1, put key_eligibility_epoch (JNum (NInt 1)) t)
   | Some v \<Rightarrow>
       rbind (assert_safe_integer v 0) (\<lambda>e.
       if max_safe < e + 1 then fail_as STATE_LIMIT 409 False
       else Ok (e + 1, put key_eligibility_epoch (JNum (NInt (e + 1))) t)))"

definition read_review_counter :: "world \<Rightarrow> proposal \<Rightarrow> int res" where
  "read_review_counter w p = (case present w (key_review_counter (pr_id p)) of
     None \<Rightarrow> Ok (pr_counter p)
   | Some v \<Rightarrow>
       rbind (assert_safe_integer v 0) (\<lambda>n.
       if n \<noteq> pr_counter p then fail_as CORRUPT_STATE 500 True else Ok n))"

text \<open>The pointer of a slot, read strictly: a string, or an object with the single property.\<close>

definition get_active_pointer :: "world \<Rightarrow> slot \<Rightarrow> jstr option res" where
  "get_active_pointer w s = (case present w (key_active_slot s) of
     None \<Rightarrow> Ok None
   | Some (JStr i) \<Rightarrow> Ok (Some i)
   | Some v \<Rightarrow>
       rbind (assert_record v) (\<lambda>_.
       rbind (assert_keys v [''agreement_id''] []) (\<lambda>_.
       if fld v ''agreement_id'' = JNull then Ok None
       else rmap Some (assert_id (fld v ''agreement_id'')))))"

definition get_active_agreement :: "world \<Rightarrow> slot \<Rightarrow> agreement option res" where
  "get_active_agreement w s =
     rbind (get_active_pointer w s) (\<lambda>pointer.
     case pointer of
       None \<Rightarrow> Ok None
     | Some i \<Rightarrow>
         rbind (read_agreement w i) (\<lambda>value.
         case value of
           None \<Rightarrow> corrupt_state
         | Some v \<Rightarrow>
             rbind (validate_agreement v) (\<lambda>a.
             if \<not> same_slot (ag_slot a) s then corrupt_state else Ok (Some a))))"

section \<open>\<open>decide\<close>\<close>

definition change_status :: "txctx \<Rightarrow> agreement_status \<Rightarrow> jstr \<Rightarrow> agreement \<Rightarrow> agreement" where
  "change_status ctx status reason a = a\<lparr>ag_status := status, ag_reason := Some reason,
     ag_changed_by := Some (tx_actor ctx), ag_changed_at := Some (tx_time ctx)\<rparr>"

definition no_agreement :: json where "no_agreement = obj [(''agreement_id'', JNull)]"
definition points_to :: "jstr \<Rightarrow> json" where "points_to i = obj [(''agreement_id'', JStr i)]"

definition suspend_active_agreement ::
  "txctx \<Rightarrow> slot \<Rightarrow> jstr \<Rightarrow> jstr option \<Rightarrow> tx \<Rightarrow> (agreement option \<times> tx) res" where
  "suspend_active_agreement ctx s reason expected t =
     rbind (get_active_agreement (view t) s) (\<lambda>active.
     case active of
       None \<Rightarrow> Ok (None, t)
     | Some a \<Rightarrow>
         if ag_status a \<noteq> Active then Ok (None, t)
         else if (case expected of None \<Rightarrow> False | Some p \<Rightarrow> ag_proposal a \<noteq> p) then Ok (None, t)
         else let suspended = change_status ctx Suspended reason a in
           rbind (put_clone (key_agreement (ag_id a)) (enc_agreement suspended) t) (\<lambda>t1.
           rbind (increment_epoch (put (key_active_slot s) no_agreement t1)) (\<lambda>(_, t2).
           Ok (Some suspended, t2))))"

definition decision_binds_proposal :: "decision \<Rightarrow> proposal \<Rightarrow> bool" where
  "decision_binds_proposal d p \<longleftrightarrow> pr_policy_id p = de_policy_id d \<and> pr_policy_version p = de_policy_version d \<and>
     pr_epoch p = de_epoch d \<and> pr_binding p = de_binding d"

text \<open>The named representative of the decision's role is the acting actor.\<close>

definition decider_check :: "txctx \<Rightarrow> policy \<Rightarrow> decision \<Rightarrow> unit res" where
  "decider_check ctx p d =
     rbind (require_as (decision_word (de_kind d) \<in> set (pol_allowed p)) DECISION_NOT_ALLOWED 409 False) (\<lambda>_.
     rbind (require_as (case representative_of p (de_role d) of None \<Rightarrow> False
         | Some r \<Rightarrow> rep_org r = org_id (tx_actor ctx) \<and> rep_actor r = actor_id (tx_actor ctx)) FORBIDDEN 403 False) (\<lambda>_.
     require_as (de_org d = org_id (tx_actor ctx) \<and> de_actor d = actor_id (tx_actor ctx)) FORBIDDEN 403 False))"

definition retract_check :: "world \<Rightarrow> decision \<Rightarrow> decision option \<Rightarrow> unit res" where
  "retract_check w d latest =
     rbind (read_required validate_decision (fail_as RETRACT_TARGET_NOT_FOUND 409 False) w
              (key_decision (case de_retracts d of Some i \<Rightarrow> i | None \<Rightarrow> js ''undefined''))) (\<lambda>target.
     rbind (require_as (de_org target = de_org d \<and> de_actor target = de_actor d \<and>
              de_proposal target = de_proposal d \<and> de_role target = de_role d) FORBIDDEN 403 False) (\<lambda>_.
     rbind (require_as (de_kind target \<noteq> Retract) RETRACT_INVALID 409 False) (\<lambda>_.
     require_as (case latest of None \<Rightarrow> False | Some l \<Rightarrow> de_id l = de_id target) RETRACT_NOT_LATEST 409 False)))"

definition decide_check :: "sha_fn \<Rightarrow> txctx \<Rightarrow> config \<Rightarrow> json \<Rightarrow> world \<Rightarrow> (decision \<times> proposal \<times> int) res" where
  "decide_check sha ctx c input w =
     rbind (require_human ctx c) (\<lambda>_.
     rbind (assert_keys input [''decision''] []) (\<lambda>_.
     rbind (validate_decision (fld input ''decision'')) (\<lambda>d.
     rbind (read_required validate_proposal (fail_as PROPOSAL_NOT_FOUND 404 False) w (key_proposal (de_proposal d))) (\<lambda>p.
     rbind (read_required (validate_revision sha) (fail_as REVISION_NOT_FOUND 404 False) w (key_revision (de_digest d))) (\<lambda>r.
     rbind (require_as (pr_digest p = de_digest d \<and> same_slot (pr_slot p) (de_slot d) \<and>
              same_slot (rv_slot r) (de_slot d)) STALE_DECISION 409 False) (\<lambda>_.
     rbind (require_as (decision_binds_proposal d p) STALE_DECISION 409 False) (\<lambda>_.
     rbind (require_as (channel_id (de_slot d) = cfg_channel c \<and> de_epoch d = cfg_epoch c \<and>
              de_binding d = cfg_binding c) STALE_CONFIGURATION 409 False) (\<lambda>_.
     rbind (policy_for c (de_policy_id d) (de_policy_version d)) (\<lambda>pol.
     rbind (assert_policy_matches_revision pol r) (\<lambda>_.
     rbind (decider_check ctx pol d) (\<lambda>_.
     rbind (require_as (present w (key_decision (de_id d)) = None) IMMUTABLE_CONFLICT 409 False) (\<lambda>_.
     rbind (get_latest_decision w d) (\<lambda>latest.
     rbind (if de_kind d = Retract then retract_check w d latest else Ok ()) (\<lambda>_.
     rbind (read_review_counter w p) (\<lambda>n.
     if max_safe < n + 1 then fail_as STATE_LIMIT 409 False
     else Ok (d, p, n + 1))))))))))))))))"

fun suspension_reason :: "decision_kind \<Rightarrow> jstr" where
  "suspension_reason Object = js ''required_representative_objected''"
| "suspension_reason Abstain = js ''required_representative_abstained''"
| "suspension_reason _ = js ''required_decision_retracted''"

definition decide_result :: "decision \<Rightarrow> agreement option \<Rightarrow> json" where
  "decide_result d suspended = obj
     ([(''decision_id'', JStr (de_id d)), (''proposal_id'', JStr (de_proposal d)),
       (''status'', JStr (js ''recorded''))] @
      (case suspended of None \<Rightarrow> [] | Some a \<Rightarrow> [(''suspended_agreement_id'', JStr (ag_id a))]))"

definition record_decision :: "decision \<Rightarrow> proposal \<Rightarrow> int \<Rightarrow> tx \<Rightarrow> tx res" where
  "record_decision d p n t =
     rbind (put_clone (key_decision (de_id d)) (enc_decision d) t) (\<lambda>t1.
     rbind (put_clone (key_proposal (pr_id p)) (enc_proposal (p\<lparr>pr_counter := n\<rparr>))
              (put (decision_latest_key d) (obj [(''decision_id'', JStr (de_id d))]) t1)) (\<lambda>t2.
     Ok (put (key_review_counter (pr_id p)) (JNum (NInt n)) t2)))"

definition execute_decide :: "sha_fn \<Rightarrow> txctx \<Rightarrow> config \<Rightarrow> json \<Rightarrow> tx \<Rightarrow> (json \<times> tx) res" where
  "execute_decide sha ctx c input t =
     rbind (decide_check sha ctx c input (view t)) (\<lambda>(d, p, n).
     rbind (record_decision d p n t) (\<lambda>t1.
     rbind (if de_kind d \<noteq> Approve
            then suspend_active_agreement ctx (pr_slot p) (suspension_reason (de_kind d)) (Some (de_proposal d)) t1
            else Ok (None, t1)) (\<lambda>(suspended, t2).
     Ok (decide_result d suspended, t2))))"

section \<open>\<open>activate\<close>\<close>

text \<open>
  \<open>dependencyEligible\<close>: the loop threads the number of traversed dependencies and the budget that
  the resolutions share.
\<close>

definition dependency_step ::
  "sha_fn \<Rightarrow> world \<Rightarrow> revision \<Rightarrow> nat \<Rightarrow> jstr set \<Rightarrow> dependency \<Rightarrow> nat \<times> nat \<Rightarrow> (nat \<times> nat) res" where
  "dependency_step sha w r depth seen d = (\<lambda>(traversed, budget).
     if dep_enforcement d \<noteq> RequiresActive then Ok (traversed, budget)
     else if 256 < Suc traversed then fail_as DEPENDENCY_LIMIT 409 False
     else if same_slot (dep_slot d) (rv_slot r) then fail_as DEPENDENCY_CYCLE 409 False
     else rbind (resolve_at sha w (dep_slot d) seen (Suc depth) budget) (\<lambda>(res, budget').
       case res of
         Ineligible _ \<Rightarrow> fail_as DEPENDENCY_INELIGIBLE 409 False
       | Eligible _ rv \<Rightarrow>
           if rv_digest rv \<noteq> dep_digest d then fail_as DEPENDENCY_INELIGIBLE 409 False
           else Ok (Suc traversed, budget')))"

definition dependency_eligible :: "sha_fn \<Rightarrow> world \<Rightarrow> revision \<Rightarrow> nat \<Rightarrow> jstr set \<Rightarrow> unit res" where
  "dependency_eligible sha w r depth seen =
     (if 8 < depth then fail_as DEPENDENCY_LIMIT 409 False
      else if slot_key (rv_slot r) \<in> seen then fail_as DEPENDENCY_CYCLE 409 False
      else rmap (\<lambda>_. ()) (foldR (dependency_step sha w r depth (insert (slot_key (rv_slot r)) seen))
             (pl_dependencies (rv_payload r)) (0, 0)))"

text \<open>
  The coercion to a string that \<open>encodeURIComponent\<close> applies to the \<open>decision_id\<close> of a latest-decision
  reference, which \<open>executeActivate\<close> does not validate.
\<close>

fun js_to_string :: "json \<Rightarrow> jstr res" where
  "js_to_string JUndef = Ok (js ''undefined'')"
| "js_to_string JNull = Ok (js ''null'')"
| "js_to_string (JBool b) = Ok (if b then js ''true'' else js ''false'')"
| "js_to_string (JNum (NInt i)) = Ok (dec_int i)"
| "js_to_string (JNum NNegZero) = Ok (js ''0'')"
| "js_to_string (JNum (NFrac s)) = Ok s"
| "js_to_string (JNum (NBeyond s)) = Ok s"
| "js_to_string (JStr s) = Ok s"
| "js_to_string (JArr xs) = rmap (join_on 44)
     (mapR (\<lambda>x. if x = JUndef \<or> x = JNull then Ok [] else js_to_string x) xs)"
| "js_to_string (JObj kvs) =
     (if js ''toString'' \<in> fst ` set kvs then Err TypeError else Ok (js ''[object Object]''))"

definition key_of_reference :: "json \<Rightarrow> jstr res" where
  "key_of_reference v = rbind (js_to_string v) (\<lambda>i.
     if valid_unicode i then Ok (key_decision i) else Err UriError)"

definition approval_matches_proposal :: "decision \<Rightarrow> proposal \<Rightarrow> bool" where
  "approval_matches_proposal d p \<longleftrightarrow> de_digest d = pr_digest p \<and> de_proposal d = pr_id p \<and>
     same_slot (de_slot d) (pr_slot p) \<and> de_policy_id d = pr_policy_id p \<and>
     de_policy_version d = pr_policy_version p \<and> de_epoch d = pr_epoch p \<and> de_binding d = pr_binding p"

text \<open>One round of the loop over the required roles.\<close>

definition collect_approval :: "world \<Rightarrow> policy \<Rightarrow> proposal \<Rightarrow> jstr \<Rightarrow> jstr list \<Rightarrow> jstr list res" where
  "collect_approval w pol p role ids =
     (case representative_of pol role of
        None \<Rightarrow> Err TypeError
      | Some r \<Rightarrow>
          (case present w (key_latest_decision (pr_id p) (pr_policy_version p) role (rep_org r) (rep_actor r)) of
             None \<Rightarrow> fail_as APPROVAL_INCOMPLETE 409 False
           | Some v \<Rightarrow>
               rbind (assert_record v) (\<lambda>_.
               rbind (assert_keys v [''decision_id''] []) (\<lambda>_.
               rbind (key_of_reference (fld v ''decision_id'')) (\<lambda>k.
               rbind (read_required validate_decision corrupt_state w k) (\<lambda>d.
               rbind (require_as (de_kind d = Approve) APPROVAL_INCOMPLETE 409 False) (\<lambda>_.
               rbind (require_as (de_org d = rep_org r \<and> de_actor d = rep_actor r \<and> de_role d = rep_role r)
                        STALE_DECISION 409 False) (\<lambda>_.
               rbind (require_as (approval_matches_proposal d p) STALE_DECISION 409 False) (\<lambda>_.
               if de_id d \<in> set ids then corrupt_state else Ok (ids @ [de_id d]))))))))))"

definition expected_agreement :: "json \<Rightarrow> jstr option res" where
  "expected_agreement v = (if v = JNull then Ok None else rmap Some (assert_id v))"

definition activate_check ::
  "sha_fn \<Rightarrow> txctx \<Rightarrow> config \<Rightarrow> json \<Rightarrow> world \<Rightarrow>
   (jstr \<times> proposal \<times> revision \<times> policy \<times> agreement option \<times> jstr list) res" where
  "activate_check sha ctx c input w =
     rbind (require_human ctx c) (\<lambda>_.
     rbind (assert_keys input [''proposal_id'', ''agreement_id'', ''expected_active_agreement_id''] []) (\<lambda>_.
     rbind (assert_id (fld input ''proposal_id'')) (\<lambda>pid.
     rbind (assert_id (fld input ''agreement_id'')) (\<lambda>aid.
     rbind (expected_agreement (fld input ''expected_active_agreement_id'')) (\<lambda>expected.
     rbind (read_required validate_proposal (fail_as PROPOSAL_NOT_FOUND 404 False) w (key_proposal pid)) (\<lambda>p.
     rbind (read_review_counter w p) (\<lambda>_.
     rbind (require_as (pr_status p = Open) PROPOSAL_REPLAY 409 False) (\<lambda>_.
     rbind (read_required (validate_revision sha) (fail_as REVISION_NOT_FOUND 404 False) w (key_revision (pr_digest p))) (\<lambda>r.
     rbind (policy_for c (pr_policy_id p) (pr_policy_version p)) (\<lambda>pol.
     rbind (assert_policy_matches_revision pol r) (\<lambda>_.
     rbind (require_as (pr_epoch p = cfg_epoch c \<and> pr_binding p = cfg_binding c) STALE_CONFIGURATION 409 False) (\<lambda>_.
     rbind (get_active_agreement w (pr_slot p)) (\<lambda>current.
     rbind (require_as (map_option ag_id current = expected) STALE_PRECONDITION 409 False) (\<lambda>_.
     rbind (require_as (case current of None \<Rightarrow> True | Some a \<Rightarrow> ag_digest a \<noteq> rv_digest r) ALREADY_ACTIVE 409 False) (\<lambda>_.
     rbind (require_as (present w (key_agreement aid) = None) IMMUTABLE_CONFLICT 409 False) (\<lambda>_.
     rbind (foldR (collect_approval w pol p) (pol_roles pol) []) (\<lambda>ids.
     rbind (dependency_eligible sha w r 0 {}) (\<lambda>_.
     Ok (aid, p, r, pol, current, ids)))))))))))))))))))"

definition new_agreement :: "txctx \<Rightarrow> config \<Rightarrow> jstr \<Rightarrow> proposal \<Rightarrow> revision \<Rightarrow> policy \<Rightarrow> jstr list \<Rightarrow> agreement" where
  "new_agreement ctx c aid p r pol ids =
     \<lparr>ag_id = aid, ag_proposal = pr_id p, ag_digest = rv_digest r, ag_policy_id = pol_id pol,
      ag_policy_version = pol_version pol, ag_epoch = cfg_epoch c, ag_binding = cfg_binding c,
      ag_approvals = ids, ag_status = Active, ag_by = tx_actor ctx, ag_at = tx_time ctx,
      ag_reason = None, ag_changed_by = None, ag_changed_at = None, ag_slot = rv_slot r\<rparr>"

definition supersede :: "txctx \<Rightarrow> agreement option \<Rightarrow> tx \<Rightarrow> tx res" where
  "supersede ctx current t = (case current of
     None \<Rightarrow> Ok t
   | Some a \<Rightarrow> put_clone (key_agreement (ag_id a))
       (enc_agreement (change_status ctx Superseded (js ''replaced_by_new_active_agreement'') a)) t)"

definition execute_activate :: "sha_fn \<Rightarrow> txctx \<Rightarrow> config \<Rightarrow> json \<Rightarrow> tx \<Rightarrow> (json \<times> tx) res" where
  "execute_activate sha ctx c input t =
     rbind (activate_check sha ctx c input (view t)) (\<lambda>(aid, p, r, pol, current, ids).
     let a = new_agreement ctx c aid p r pol ids in
     rbind (increment_epoch t) (\<lambda>(epoch, t1).
     rbind (supersede ctx current t1) (\<lambda>t2.
     rbind (put_clone (key_agreement aid) (enc_agreement a) t2) (\<lambda>t3.
     rbind (put_clone (key_proposal (pr_id p))
              (enc_proposal (p\<lparr>pr_status := Activated, pr_agreement := Some aid\<rparr>))
              (put (key_active_slot (pr_slot p)) (points_to aid) t3)) (\<lambda>t4.
     Ok (obj [(''agreement_id'', JStr aid), (''eligibility_epoch'', JNum (NInt epoch)),
              (''revision_digest'', JStr (rv_digest r)), (''slot'', JStr (slot_key (rv_slot r))),
              (''status'', JStr (js ''active''))], t4))))))"

section \<open>\<open>withdraw\<close> and \<open>suspend\<close>\<close>

definition status_check :: "txctx \<Rightarrow> config \<Rightarrow> json \<Rightarrow> world \<Rightarrow> (agreement \<times> jstr) res" where
  "status_check ctx c input w =
     rbind (require_human ctx c) (\<lambda>_.
     rbind (assert_keys input [''agreement_id'', ''reason''] []) (\<lambda>_.
     rbind (assert_id (fld input ''agreement_id'')) (\<lambda>aid.
     rbind (assert_non_empty_string (fld input ''reason'') 1000) (\<lambda>reason.
     rbind (read_required validate_agreement (fail_as AGREEMENT_NOT_FOUND 404 False) w (key_agreement aid)) (\<lambda>a.
     rbind (policy_for c (ag_policy_id a) (ag_policy_version a)) (\<lambda>pol.
     rbind (require_as (\<exists>r \<in> set (pol_reps pol). rep_org r = org_id (tx_actor ctx) \<and> rep_actor r = actor_id (tx_actor ctx))
              FORBIDDEN 403 False) (\<lambda>_.
     rbind (require_as (ag_status a = Active) AGREEMENT_NOT_ACTIVE 409 False) (\<lambda>_.
     Ok (a, reason)))))))))"

definition execute_status_change ::
  "txctx \<Rightarrow> config \<Rightarrow> json \<Rightarrow> agreement_status \<Rightarrow> tx \<Rightarrow> (json \<times> tx) res" where
  "execute_status_change ctx c input desired t =
     rbind (status_check ctx c input (view t)) (\<lambda>(a, reason).
     rbind (put_clone (key_agreement (ag_id a)) (enc_agreement (change_status ctx desired reason a)) t) (\<lambda>t1.
     rbind (increment_epoch (put (key_active_slot (ag_slot a)) no_agreement t1)) (\<lambda>(epoch, t2).
     Ok (obj [(''agreement_id'', JStr (ag_id a)), (''eligibility_epoch'', JNum (NInt epoch)),
              (''status'', JStr (status_word desired))], t2))))"

end
