(* ===== verification/Engine.thy ===== *)
theory Engine
  imports Govern
begin

text \<open>
  The entry points of the domain (\<open>execute\<close>, \<open>bootstrap\<close>, \<open>performCommand\<close>, \<open>executeFence\<close>,
  \<open>validateCommand\<close>, \<open>idempotencyDigest\<close> of \<open>packages/domain/index.ts\<close>). A command arrives as a raw
  JSON value; a thrown error leaves no transaction state, because the adapters roll back.
\<close>

section \<open>\<open>fence\<close>\<close>

definition assert_nonce :: "json \<Rightarrow> jstr res" where
  "assert_nonce v = (case v of JStr s \<Rightarrow> if is_nonce s then Ok s else fail INVALID_INPUT | _ \<Rightarrow> fail INVALID_INPUT)"

definition current_epoch :: "world \<Rightarrow> json" where
  "current_epoch w = (case present w key_eligibility_epoch of None \<Rightarrow> JNum (NInt 0) | Some v \<Rightarrow> v)"

definition execute_fence :: "txctx \<Rightarrow> config \<Rightarrow> json \<Rightarrow> tx \<Rightarrow> (json \<times> tx) res" where
  "execute_fence ctx c input t =
     rbind (configured_identity c (tx_actor ctx)) (\<lambda>_.
     rbind (assert_keys input [''nonce''] []) (\<lambda>_.
     rbind (assert_nonce (fld input ''nonce'')) (\<lambda>nonce.
     rbind (require_as (cfg_serving c) SERVING_FROZEN 409 False) (\<lambda>_.
     rbind (require_as (present (view t) (key_fence nonce) = None) IMMUTABLE_CONFLICT 409 False) (\<lambda>_.
     let epoch = current_epoch (view t) in
     rbind (assert_safe_integer epoch 0) (\<lambda>_.
     Ok (obj [(''eligibility_epoch'', epoch), (''nonce'', JStr nonce), (''status'', JStr (js ''fenced'')),
              (''tx_id'', JStr (tx_id ctx))],
         put (key_fence nonce) (obj [(''eligibility_epoch'', epoch), (''nonce'', JStr nonce),
              (''tx_id'', JStr (tx_id ctx))]) t)))))))"

section \<open>Commands\<close>

definition validate_command :: "json \<Rightarrow> (jstr \<times> jstr \<times> json) res" where
  "validate_command cmd =
     rbind (assert_record cmd) (\<lambda>_.
     rbind (assert_keys cmd [''command_id'', ''type'', ''input''] []) (\<lambda>_.
     rbind (assert_id (fld cmd ''command_id'')) (\<lambda>cid.
     rbind (assert_non_empty_string (fld cmd ''type'') 80) (\<lambda>ty.
     rbind (assert_record (fld cmd ''input'')) (\<lambda>_.
     Ok (cid, ty, fld cmd ''input''))))))"

definition idempotency_digest :: "sha_fn \<Rightarrow> jstr \<Rightarrow> json \<Rightarrow> jstr res" where
  "idempotency_digest sha ty input =
     rbind (canonicalize (obj [(''type'', JStr ty), (''input'', input)])) (\<lambda>text. Ok (digest_text sha text))"

definition perform_command :: "sha_fn \<Rightarrow> txctx \<Rightarrow> config \<Rightarrow> jstr \<Rightarrow> json \<Rightarrow> tx \<Rightarrow> (json \<times> tx) res" where
  "perform_command sha ctx c ty input t =
     (if ty = js ''publish_revision'' then execute_publish sha ctx c input t
      else if ty = js ''propose'' then execute_propose sha ctx c input t
      else if ty = js ''decide'' then execute_decide sha ctx c input t
      else if ty = js ''activate'' then execute_activate sha ctx c input t
      else if ty = js ''withdraw'' then execute_status_change ctx c input Withdrawn t
      else if ty = js ''suspend'' then execute_status_change ctx c input Suspended t
      else if ty = js ''fence'' then execute_fence ctx c input t
      else fail_as UNSUPPORTED_COMMAND 400 False)"

section \<open>Idempotency\<close>

definition idempotency_record :: "txctx \<Rightarrow> jstr \<Rightarrow> jstr \<Rightarrow> jstr \<Rightarrow> json \<Rightarrow> json" where
  "idempotency_record ctx cid ty digest result = obj
     [(''actor'', enc_actor (tx_actor ctx)), (''command_digest'', JStr digest), (''command_id'', JStr cid),
      (''command_type'', JStr ty), (''record_type'', JStr (js ''IdempotencyRecord'')), (''result'', result),
      (''tx_id'', JStr (tx_id ctx))]"

text \<open>\<open>sameActor(value as Actor, actor)\<close>, where the value was not validated.\<close>

definition same_raw_actor :: "json \<Rightarrow> actor \<Rightarrow> bool res" where
  "same_raw_actor v a =
     (if v = JUndef \<or> v = JNull then Err TypeError
      else Ok (fld v ''org_id'' = JStr (org_id a) \<and> fld v ''actor_id'' = JStr (actor_id a) \<and>
               fld v ''kind'' = enc_kind (kind a)))"

definition replay :: "txctx \<Rightarrow> jstr \<Rightarrow> jstr \<Rightarrow> json \<Rightarrow> json res" where
  "replay ctx ty digest prior =
     rbind (assert_record prior) (\<lambda>_.
     rbind (assert_keys prior [''record_type'', ''command_id'', ''command_type'', ''command_digest'',
              ''actor'', ''result'', ''tx_id''] []) (\<lambda>_.
     rbind (require_as (fld prior ''record_type'' = JStr (js ''IdempotencyRecord'')) CORRUPT_STATE 500 True) (\<lambda>_.
     rbind (if fld prior ''command_digest'' \<noteq> JStr digest \<or> fld prior ''command_type'' \<noteq> JStr ty then Ok False
            else same_raw_actor (fld prior ''actor'') (tx_actor ctx)) (\<lambda>same.
     if \<not> same then fail_as IDEMPOTENCY_CONFLICT 409 False
     else clone_canonical (fld prior ''result'')))))"

definition execute :: "sha_fn \<Rightarrow> txctx \<Rightarrow> json \<Rightarrow> tx \<Rightarrow> (json \<times> tx) res" where
  "execute sha ctx cmd t =
     rbind (assert_context ctx) (\<lambda>_.
     rbind (validate_command cmd) (\<lambda>(cid, ty, input).
     rbind (read_config (view t)) (\<lambda>c.
     rbind (require_as (tx_channel ctx = cfg_channel c) SCOPE_MISMATCH 409 False) (\<lambda>_.
     rbind (configured_identity c (tx_actor ctx)) (\<lambda>_.
     let key = key_idempotency (org_id (tx_actor ctx)) cid in
     rbind (idempotency_digest sha ty input) (\<lambda>digest.
     case present (view t) key of
       Some prior \<Rightarrow> rbind (replay ctx ty digest prior) (\<lambda>result. Ok (result, t))
     | None \<Rightarrow>
         rbind (perform_command sha ctx c ty input t) (\<lambda>(result, t1).
         rbind (clone_canonical result) (\<lambda>stored_result.
         rbind (put_clone key (idempotency_record ctx cid ty digest stored_result) t1) (\<lambda>t2.
         Ok (result, t2))))))))))"

section \<open>Bootstrap\<close>

definition put_policy :: "policy \<Rightarrow> tx \<Rightarrow> tx res" where
  "put_policy p = put_clone (key_policy (pol_id p) (pol_version p)) (enc_policy p)"

definition bootstrap :: "txctx \<Rightarrow> json \<Rightarrow> tx \<Rightarrow> (json \<times> tx) res" where
  "bootstrap ctx input t =
     rbind (assert_context ctx) (\<lambda>_.
     rbind (require_as (kind (tx_actor ctx) = Human) FORBIDDEN 403 False) (\<lambda>_.
     rbind (require_as (fld input ''channel_id'' = JStr (tx_channel ctx)) SCOPE_MISMATCH 409 False) (\<lambda>_.
     rbind (validate_config input) (\<lambda>c.
     rbind (require_as (present (view t) key_config = None) ALREADY_BOOTSTRAPPED 409 False) (\<lambda>_.
     rbind (put_clone key_config (enc_config c) t) (\<lambda>t1.
     rbind (foldR put_policy (cfg_policies c) (put key_eligibility_epoch (JNum (NInt 0)) t1)) (\<lambda>t2.
     Ok (obj [(''channel_id'', JStr (cfg_channel c)), (''config_version'', enc_version (cfg_version c)),
              (''membership_epoch'', JNum (NInt (cfg_epoch c))),
              (''role_binding_version'', JNum (NInt (cfg_binding c))),
              (''status'', JStr (js ''bootstrapped''))], t2))))))))"

section \<open>The committed state\<close>

text \<open>
  One invocation against the committed state: the staged writes are installed, or dropped when the
  invocation throws.
\<close>

datatype request = Bootstrap json | Execute json

definition invoke :: "sha_fn \<Rightarrow> txctx \<Rightarrow> request \<Rightarrow> tx \<Rightarrow> (json \<times> tx) res" where
  "invoke sha ctx rq t = (case rq of
     Bootstrap input \<Rightarrow> bootstrap ctx input t
   | Execute cmd \<Rightarrow> execute sha ctx cmd t)"

definition commit :: "sha_fn \<Rightarrow> txctx \<Rightarrow> request \<Rightarrow> world \<Rightarrow> (json \<times> world) res" where
  "commit sha ctx rq w = rmap (\<lambda>(result, t). (result, apply_writes (staged t) w)) (invoke sha ctx rq (begin_tx w))"

end
