(* ===== verification/Ledger.thy ===== *)
theory Ledger
  imports Engine
begin

text \<open>
  The abstract specification of the domain: a ledger of typed records instead of a keyed store of
  JSON values, and the transitions that the commands are meant to make on it. Nothing of the wire
  format is left: no keys, no validators, no absent or null values. The theories that follow show
  that the invariant of this specification holds in every reachable ledger, and that the handlers of
  the program implement its transitions.
\<close>

section \<open>Ledgers\<close>

text \<open>A seat: proposal, policy version, role and the representative's organisation and id.\<close>

type_synonym seat = "jstr \<times> int \<times> jstr \<times> jstr \<times> jstr"

record ledger =
  lg_config :: "config option"
  lg_revs :: "jstr \<rightharpoonup> revision"
  lg_ids :: "jstr \<rightharpoonup> jstr"
  lg_props :: "jstr \<rightharpoonup> proposal"
  lg_decs :: "jstr \<rightharpoonup> decision"
  lg_latest :: "seat \<rightharpoonup> jstr"
  lg_agrs :: "jstr \<rightharpoonup> agreement"
  lg_active :: "slot \<rightharpoonup> jstr"
  lg_epoch :: int
  lg_fences :: "jstr \<rightharpoonup> int \<times> jstr"

definition empty_ledger :: ledger where
  "empty_ledger = \<lparr>lg_config = None, lg_revs = Map.empty, lg_ids = Map.empty, lg_props = Map.empty,
     lg_decs = Map.empty, lg_latest = Map.empty, lg_agrs = Map.empty, lg_active = Map.empty,
     lg_epoch = 0, lg_fences = Map.empty\<rparr>"

definition seat_of :: "decision \<Rightarrow> seat" where
  "seat_of d = (de_proposal d, de_policy_version d, de_role d, de_org d, de_actor d)"

definition rep_seat :: "proposal \<Rightarrow> representative \<Rightarrow> jstr \<Rightarrow> seat" where
  "rep_seat p r role = (pr_id p, pr_policy_version p, role, rep_org r, rep_actor r)"

definition wf_ctx :: "txctx \<Rightarrow> bool" where
  "wf_ctx ctx \<longleftrightarrow> wf_actor (tx_actor ctx) \<and> is_id (tx_channel ctx) \<and> text_ok 200 (tx_id ctx) \<and> text_ok 80 (tx_time ctx)"

definition member :: "config \<Rightarrow> actor \<Rightarrow> bool" where
  "member c a \<longleftrightarrow> (\<exists>i. configured_identity c a = Ok i)"

definition names_actor :: "representative \<Rightarrow> actor \<Rightarrow> bool" where
  "names_actor r a \<longleftrightarrow> rep_org r = org_id a \<and> rep_actor r = actor_id a"

text \<open>The role's representative has an approval in force for the proposal, recorded as \<open>i\<close>.\<close>

definition approves :: "ledger \<Rightarrow> policy \<Rightarrow> proposal \<Rightarrow> jstr \<Rightarrow> jstr \<Rightarrow> bool" where
  "approves L pol p role i \<longleftrightarrow> (\<exists>r d. representative_of pol role = Some r \<and>
     lg_latest L (rep_seat p r role) = Some i \<and> lg_decs L i = Some d \<and> de_id d = i \<and> de_kind d = Approve \<and>
     de_role d = role \<and> de_org d = rep_org r \<and> de_actor d = rep_actor r \<and> approval_matches_proposal d p)"

text \<open>The slot of a dependency is in force with exactly the revision that the dependency pins.\<close>

definition in_force :: "ledger \<Rightarrow> slot \<Rightarrow> jstr \<Rightarrow> bool" where
  "in_force L s digest \<longleftrightarrow> (\<exists>i a. lg_active L s = Some i \<and> lg_agrs L i = Some a \<and> ag_status a = Active \<and> ag_digest a = digest)"

section \<open>Effects\<close>

definition publish :: "revision \<Rightarrow> ledger \<Rightarrow> ledger" where
  "publish r L = L\<lparr>lg_revs := (lg_revs L)(rv_digest r \<mapsto> r),
     lg_ids := (lg_ids L)(pl_revision_id (rv_payload r) \<mapsto> rv_digest r)\<rparr>"

definition add_proposal :: "proposal \<Rightarrow> ledger \<Rightarrow> ledger" where
  "add_proposal p L = L\<lparr>lg_props := (lg_props L)(pr_id p \<mapsto> p)\<rparr>"

definition add_decision :: "decision \<Rightarrow> proposal \<Rightarrow> ledger \<Rightarrow> ledger" where
  "add_decision d p L = L\<lparr>lg_decs := (lg_decs L)(de_id d \<mapsto> d), lg_latest := (lg_latest L)(seat_of d \<mapsto> de_id d),
     lg_props := (lg_props L)(pr_id p \<mapsto> p\<lparr>pr_counter := pr_counter p + 1\<rparr>)\<rparr>"

definition end_agreement :: "txctx \<Rightarrow> agreement_status \<Rightarrow> jstr \<Rightarrow> agreement \<Rightarrow> ledger \<Rightarrow> ledger" where
  "end_agreement ctx st reason a L = L\<lparr>lg_agrs := (lg_agrs L)(ag_id a \<mapsto> change_status ctx st reason a),
     lg_active := (lg_active L)(ag_slot a := None), lg_epoch := lg_epoch L + 1\<rparr>"

text \<open>The agreement that a decision other than an approval takes out of force, if any.\<close>

definition struck_by :: "decision \<Rightarrow> ledger \<Rightarrow> agreement option" where
  "struck_by d L = (case lg_active L (de_slot d) of
     None \<Rightarrow> None
   | Some i \<Rightarrow> (case lg_agrs L i of
       None \<Rightarrow> None
     | Some a \<Rightarrow> if de_kind d \<noteq> Approve \<and> ag_status a = Active \<and> ag_proposal a = de_proposal d then Some a else None))"

definition decide :: "txctx \<Rightarrow> decision \<Rightarrow> proposal \<Rightarrow> ledger \<Rightarrow> ledger" where
  "decide ctx d p L = (case struck_by d L of
     None \<Rightarrow> add_decision d p L
   | Some a \<Rightarrow> end_agreement ctx Suspended (suspension_reason (de_kind d)) a (add_decision d p L))"

definition activate :: "txctx \<Rightarrow> agreement \<Rightarrow> proposal \<Rightarrow> ledger \<Rightarrow> ledger" where
  "activate ctx a p L = L\<lparr>
     lg_agrs := (case lg_active L (ag_slot a) of
         None \<Rightarrow> lg_agrs L
       | Some i \<Rightarrow> (lg_agrs L)(i := map_option
           (change_status ctx Superseded (js ''replaced_by_new_active_agreement'')) (lg_agrs L i)))(ag_id a \<mapsto> a),
     lg_active := (lg_active L)(ag_slot a \<mapsto> ag_id a),
     lg_props := (lg_props L)(pr_id p \<mapsto> p\<lparr>pr_status := Activated, pr_agreement := Some (ag_id a)\<rparr>),
     lg_epoch := lg_epoch L + 1\<rparr>"

text \<open>What each effect leaves alone.\<close>

lemma publish_sel [simp]:
  "lg_config (publish r L) = lg_config L" "lg_props (publish r L) = lg_props L" "lg_decs (publish r L) = lg_decs L"
  "lg_latest (publish r L) = lg_latest L" "lg_agrs (publish r L) = lg_agrs L" "lg_active (publish r L) = lg_active L"
  "lg_epoch (publish r L) = lg_epoch L" "lg_fences (publish r L) = lg_fences L"
  by (simp_all add: publish_def)

lemma add_proposal_sel [simp]:
  "lg_config (add_proposal p L) = lg_config L" "lg_revs (add_proposal p L) = lg_revs L"
  "lg_ids (add_proposal p L) = lg_ids L" "lg_decs (add_proposal p L) = lg_decs L"
  "lg_latest (add_proposal p L) = lg_latest L" "lg_agrs (add_proposal p L) = lg_agrs L"
  "lg_active (add_proposal p L) = lg_active L" "lg_epoch (add_proposal p L) = lg_epoch L"
  "lg_fences (add_proposal p L) = lg_fences L" "lg_props (add_proposal p L) = (lg_props L)(pr_id p \<mapsto> p)"
  by (simp_all add: add_proposal_def)

lemma add_decision_sel [simp]:
  "lg_config (add_decision d p L) = lg_config L" "lg_revs (add_decision d p L) = lg_revs L"
  "lg_ids (add_decision d p L) = lg_ids L" "lg_agrs (add_decision d p L) = lg_agrs L"
  "lg_active (add_decision d p L) = lg_active L" "lg_epoch (add_decision d p L) = lg_epoch L"
  "lg_fences (add_decision d p L) = lg_fences L" "lg_decs (add_decision d p L) = (lg_decs L)(de_id d \<mapsto> d)"
  "lg_latest (add_decision d p L) = (lg_latest L)(seat_of d \<mapsto> de_id d)"
  "lg_props (add_decision d p L) = (lg_props L)(pr_id p \<mapsto> p\<lparr>pr_counter := pr_counter p + 1\<rparr>)"
  by (simp_all add: add_decision_def)

lemma end_agreement_sel [simp]:
  "lg_config (end_agreement ctx st x a L) = lg_config L" "lg_revs (end_agreement ctx st x a L) = lg_revs L"
  "lg_ids (end_agreement ctx st x a L) = lg_ids L" "lg_props (end_agreement ctx st x a L) = lg_props L"
  "lg_decs (end_agreement ctx st x a L) = lg_decs L" "lg_latest (end_agreement ctx st x a L) = lg_latest L"
  "lg_fences (end_agreement ctx st x a L) = lg_fences L"
  "lg_agrs (end_agreement ctx st x a L) = (lg_agrs L)(ag_id a \<mapsto> change_status ctx st x a)"
  "lg_active (end_agreement ctx st x a L) = (lg_active L)(ag_slot a := None)"
  "lg_epoch (end_agreement ctx st x a L) = lg_epoch L + 1"
  by (simp_all add: end_agreement_def)

lemma activate_sel [simp]:
  "lg_config (activate ctx a p L) = lg_config L" "lg_revs (activate ctx a p L) = lg_revs L"
  "lg_ids (activate ctx a p L) = lg_ids L" "lg_decs (activate ctx a p L) = lg_decs L"
  "lg_latest (activate ctx a p L) = lg_latest L" "lg_fences (activate ctx a p L) = lg_fences L"
  "lg_active (activate ctx a p L) = (lg_active L)(ag_slot a \<mapsto> ag_id a)"
  "lg_props (activate ctx a p L) = (lg_props L)(pr_id p \<mapsto> p\<lparr>pr_status := Activated, pr_agreement := Some (ag_id a)\<rparr>)"
  "lg_epoch (activate ctx a p L) = lg_epoch L + 1"
  by (simp_all add: activate_def)

section \<open>Transitions\<close>

definition retraction_ok :: "ledger \<Rightarrow> decision \<Rightarrow> bool" where
  "retraction_ok L d \<longleftrightarrow> (\<exists>i target. de_retracts d = Some i \<and> lg_decs L i = Some target \<and>
     de_org target = de_org d \<and> de_actor target = de_actor d \<and> de_proposal target = de_proposal d \<and>
     de_role target = de_role d \<and> de_kind target \<noteq> Retract \<and> lg_latest L (seat_of d) = Some (de_id target))"

inductive ledger_step :: "sha_fn \<Rightarrow> txctx \<Rightarrow> ledger \<Rightarrow> ledger \<Rightarrow> bool" for sha ctx where
  idle: "ledger_step sha ctx L L"
| bootstrapped:
    "lg_config L = None \<Longrightarrow> wf_config c \<Longrightarrow> kind (tx_actor ctx) = Human \<Longrightarrow> tx_channel ctx = cfg_channel c \<Longrightarrow>
     ledger_step sha ctx L (L\<lparr>lg_config := Some c, lg_epoch := 0\<rparr>)"
| published:
    "lg_config L = Some c \<Longrightarrow> cfg_serving c \<Longrightarrow>
     configured_identity c (tx_actor ctx) = Ok ident \<Longrightarrow>
     js ''*'' \<in> set (ident_contexts ident) \<or> context_id (rv_slot r) \<in> set (ident_contexts ident) \<Longrightarrow>
     wf_revision sha r \<Longrightarrow> channel_id (rv_slot r) = cfg_channel c \<Longrightarrow>
     lg_revs L (rv_digest r) = None \<Longrightarrow> lg_ids L (pl_revision_id (rv_payload r)) = None \<Longrightarrow>
     (\<And>x. x \<in> set (pl_parents (rv_payload r)) \<Longrightarrow> \<exists>q. lg_revs L x = Some q \<and> rv_slot q = rv_slot r) \<Longrightarrow>
     (\<And>x. x \<in> set (pl_dependencies (rv_payload r)) \<Longrightarrow> \<exists>q. lg_revs L (dep_digest x) = Some q \<and> rv_slot q = dep_slot x) \<Longrightarrow>
     ledger_step sha ctx L (publish r L)"
| proposed:
    "lg_config L = Some c \<Longrightarrow> configured_identity c (tx_actor ctx) = Ok ident \<Longrightarrow> ident_can_propose ident \<Longrightarrow>
     wf_ctx ctx \<Longrightarrow> is_id pid \<Longrightarrow> lg_props L pid = None \<Longrightarrow> lg_revs L digest = Some r \<Longrightarrow>
     policy_of c i v = Some pol \<Longrightarrow> pol_slot pol = rv_slot r \<Longrightarrow>
     ledger_step sha ctx L (add_proposal (new_proposal ctx c pid r pol) L)"
| decided:
    "lg_config L = Some c \<Longrightarrow> kind (tx_actor ctx) = Human \<Longrightarrow> member c (tx_actor ctx) \<Longrightarrow>
     wf_ctx ctx \<Longrightarrow> wf_decision d \<Longrightarrow> lg_props L (de_proposal d) = Some p \<Longrightarrow>
     pr_digest p = de_digest d \<Longrightarrow> pr_slot p = de_slot d \<Longrightarrow> decision_binds_proposal d p \<Longrightarrow>
     policy_of c (de_policy_id d) (de_policy_version d) = Some pol \<Longrightarrow>
     decision_word (de_kind d) \<in> set (pol_allowed pol) \<Longrightarrow>
     representative_of pol (de_role d) = Some rep \<Longrightarrow> names_actor rep (tx_actor ctx) \<Longrightarrow>
     de_org d = org_id (tx_actor ctx) \<Longrightarrow> de_actor d = actor_id (tx_actor ctx) \<Longrightarrow>
     lg_decs L (de_id d) = None \<Longrightarrow> (de_kind d = Retract \<Longrightarrow> retraction_ok L d) \<Longrightarrow>
     pr_counter p < max_safe \<Longrightarrow> (struck_by d L \<noteq> None \<Longrightarrow> lg_epoch L < max_safe) \<Longrightarrow>
     ledger_step sha ctx L (decide ctx d p L)"
| activated:
    "lg_config L = Some c \<Longrightarrow> kind (tx_actor ctx) = Human \<Longrightarrow> member c (tx_actor ctx) \<Longrightarrow>
     wf_ctx ctx \<Longrightarrow> is_id aid \<Longrightarrow> lg_agrs L aid = None \<Longrightarrow>
     lg_props L pid = Some p \<Longrightarrow> pr_status p = Open \<Longrightarrow> lg_revs L (pr_digest p) = Some r \<Longrightarrow>
     policy_of c (pr_policy_id p) (pr_policy_version p) = Some pol \<Longrightarrow> pol_slot pol = rv_slot r \<Longrightarrow>
     pr_epoch p = cfg_epoch c \<Longrightarrow> pr_binding p = cfg_binding c \<Longrightarrow>
     \<not> in_force L (rv_slot r) (rv_digest r) \<Longrightarrow>
     list_all2 (approves L pol p) (pol_roles pol) ids \<Longrightarrow> distinct ids \<Longrightarrow>
     (\<And>x. x \<in> set (pl_dependencies (rv_payload r)) \<Longrightarrow> dep_enforcement x = RequiresActive \<Longrightarrow>
       dep_slot x \<noteq> rv_slot r \<and> in_force L (dep_slot x) (dep_digest x)) \<Longrightarrow>
     lg_epoch L < max_safe \<Longrightarrow>
     ledger_step sha ctx L (activate ctx (new_agreement ctx c aid p r pol ids) p L)"
| ended:
    "lg_config L = Some c \<Longrightarrow> kind (tx_actor ctx) = Human \<Longrightarrow> member c (tx_actor ctx) \<Longrightarrow>
     wf_ctx ctx \<Longrightarrow> text_ok 1000 reason \<Longrightarrow> lg_agrs L aid = Some a \<Longrightarrow> ag_status a = Active \<Longrightarrow>
     policy_of c (ag_policy_id a) (ag_policy_version a) = Some pol \<Longrightarrow>
     rep \<in> set (pol_reps pol) \<Longrightarrow> names_actor rep (tx_actor ctx) \<Longrightarrow>
     st = Withdrawn \<or> st = Suspended \<Longrightarrow> lg_epoch L < max_safe \<Longrightarrow>
     ledger_step sha ctx L (end_agreement ctx st reason a L)"
| fenced:
    "lg_config L = Some c \<Longrightarrow> cfg_serving c \<Longrightarrow> member c (tx_actor ctx) \<Longrightarrow> is_nonce nonce \<Longrightarrow>
     lg_fences L nonce = None \<Longrightarrow>
     ledger_step sha ctx L (L\<lparr>lg_fences := (lg_fences L)(nonce \<mapsto> (lg_epoch L, tx_id ctx))\<rparr>)"

inductive_cases ledger_stepE: "ledger_step sha ctx L L'"

inductive reachable_ledger :: "sha_fn \<Rightarrow> ledger \<Rightarrow> bool" for sha where
  start: "reachable_ledger sha empty_ledger"
| step: "reachable_ledger sha L \<Longrightarrow> ledger_step sha ctx L L' \<Longrightarrow> reachable_ledger sha L'"

end
