(* ===== verification/LedgerInv.thy ===== *)
theory LedgerInv
  imports Ledger
begin

text \<open>
  The invariant of the abstract ledger: referential integrity of the records, the agreement between
  an active-slot entry and the status of the agreement it names, and the two rules that make an
  agreement one: every required role has an approval bound to exactly what was agreed, and while the
  agreement is in force the latest decision of each required representative is an approval.
\<close>

section \<open>The invariant\<close>

definition inv_config :: "ledger \<Rightarrow> bool" where
  "inv_config L \<longleftrightarrow> (case lg_config L of None \<Rightarrow> L = empty_ledger | Some c \<Rightarrow> wf_config c)"

definition inv_revs :: "sha_fn \<Rightarrow> ledger \<Rightarrow> bool" where
  "inv_revs sha L \<longleftrightarrow> (\<forall>i r. lg_revs L i = Some r \<longrightarrow> wf_revision sha r \<and> rv_digest r = i \<and>
     lg_ids L (pl_revision_id (rv_payload r)) = Some i)"

definition inv_ids :: "ledger \<Rightarrow> bool" where
  "inv_ids L \<longleftrightarrow> (\<forall>i d. lg_ids L i = Some d \<longrightarrow>
     (\<exists>r. lg_revs L d = Some r \<and> pl_revision_id (rv_payload r) = i))"

text \<open>Everything a revision refers to is published, in the slot it says.\<close>

definition inv_links :: "ledger \<Rightarrow> bool" where
  "inv_links L \<longleftrightarrow> (\<forall>i r. lg_revs L i = Some r \<longrightarrow>
     (\<forall>x \<in> set (pl_parents (rv_payload r)). \<exists>q. lg_revs L x = Some q \<and> rv_slot q = rv_slot r) \<and>
     (\<forall>x \<in> set (pl_dependencies (rv_payload r)). \<exists>q. lg_revs L (dep_digest x) = Some q \<and> rv_slot q = dep_slot x))"

definition refers :: "ledger \<Rightarrow> (jstr \<times> jstr) set" where
  "refers L = {(i, j). \<exists>r. lg_revs L i = Some r \<and>
     (j \<in> set (pl_parents (rv_payload r)) \<or> j \<in> dep_digest ` set (pl_dependencies (rv_payload r)))}"

definition proposal_ok :: "ledger \<Rightarrow> config \<Rightarrow> proposal \<Rightarrow> bool" where
  "proposal_ok L c p \<longleftrightarrow> pr_epoch p = cfg_epoch c \<and> pr_binding p = cfg_binding c \<and>
     (\<exists>pol. policy_of c (pr_policy_id p) (pr_policy_version p) = Some pol \<and> pol_slot pol = pr_slot p) \<and>
     (\<exists>r. lg_revs L (pr_digest p) = Some r \<and> rv_slot r = pr_slot p) \<and>
     (pr_agreement p = None \<longrightarrow> pr_status p = Open) \<and>
     (\<forall>g. pr_agreement p = Some g \<longrightarrow> pr_status p = Activated \<and> (\<exists>a. lg_agrs L g = Some a \<and> ag_proposal a = pr_id p))"

definition inv_props :: "ledger \<Rightarrow> bool" where
  "inv_props L \<longleftrightarrow> (\<forall>i p. lg_props L i = Some p \<longrightarrow> wf_proposal p \<and> pr_id p = i \<and>
     (\<exists>c. lg_config L = Some c \<and> proposal_ok L c p))"

definition decision_ok :: "config \<Rightarrow> proposal \<Rightarrow> decision \<Rightarrow> bool" where
  "decision_ok c p d \<longleftrightarrow> de_digest d = pr_digest p \<and> de_slot d = pr_slot p \<and> decision_binds_proposal d p \<and>
     (\<exists>pol rep. policy_of c (de_policy_id d) (de_policy_version d) = Some pol \<and>
        representative_of pol (de_role d) = Some rep \<and> rep_org rep = de_org d \<and> rep_actor rep = de_actor d \<and>
        decision_word (de_kind d) \<in> set (pol_allowed pol))"

definition inv_decs :: "ledger \<Rightarrow> bool" where
  "inv_decs L \<longleftrightarrow> (\<forall>i d. lg_decs L i = Some d \<longrightarrow> wf_decision d \<and> de_id d = i \<and> lg_latest L (seat_of d) \<noteq> None \<and>
     (\<exists>c p. lg_config L = Some c \<and> lg_props L (de_proposal d) = Some p \<and> decision_ok c p d))"

definition inv_latest :: "ledger \<Rightarrow> bool" where
  "inv_latest L \<longleftrightarrow> (\<forall>q i. lg_latest L q = Some i \<longrightarrow> (\<exists>d. lg_decs L i = Some d \<and> seat_of d = q))"

text \<open>The decision \<open>i\<close> is the approval of the role that the agreement cites.\<close>

definition cites :: "ledger \<Rightarrow> policy \<Rightarrow> agreement \<Rightarrow> jstr \<Rightarrow> jstr \<Rightarrow> bool" where
  "cites L pol a role i \<longleftrightarrow> (\<exists>r d. representative_of pol role = Some r \<and> lg_decs L i = Some d \<and>
     de_kind d = Approve \<and> de_role d = role \<and> de_org d = rep_org r \<and> de_actor d = rep_actor r \<and> approval_binds a d)"

definition agreement_ok :: "ledger \<Rightarrow> config \<Rightarrow> agreement \<Rightarrow> bool" where
  "agreement_ok L c a \<longleftrightarrow> ag_epoch a = cfg_epoch c \<and> ag_binding a = cfg_binding c \<and>
     (\<exists>p. lg_props L (ag_proposal a) = Some p \<and> pr_agreement p = Some (ag_id a) \<and> pr_digest p = ag_digest a \<and>
        pr_slot p = ag_slot a \<and> pr_policy_id p = ag_policy_id a \<and> pr_policy_version p = ag_policy_version a) \<and>
     (\<exists>pol. policy_of c (ag_policy_id a) (ag_policy_version a) = Some pol \<and> pol_slot pol = ag_slot a \<and>
        list_all2 (cites L pol a) (pol_roles pol) (ag_approvals a))"

definition inv_agrs :: "ledger \<Rightarrow> bool" where
  "inv_agrs L \<longleftrightarrow> (\<forall>i a. lg_agrs L i = Some a \<longrightarrow> wf_agreement a \<and> ag_id a = i \<and>
     (\<exists>c. lg_config L = Some c \<and> agreement_ok L c a))"

definition inv_active :: "ledger \<Rightarrow> bool" where
  "inv_active L \<longleftrightarrow> (\<forall>s i. lg_active L s = Some i \<longleftrightarrow>
     (\<exists>a. lg_agrs L i = Some a \<and> ag_status a = Active \<and> ag_slot a = s))"

text \<open>The latest decision of every required representative approves.\<close>

definition still_approved :: "ledger \<Rightarrow> policy \<Rightarrow> agreement \<Rightarrow> bool" where
  "still_approved L pol a \<longleftrightarrow> (\<forall>role \<in> set (pol_roles pol). \<exists>r i d. representative_of pol role = Some r \<and>
     lg_latest L (ag_proposal a, ag_policy_version a, role, rep_org r, rep_actor r) = Some i \<and>
     lg_decs L i = Some d \<and> de_kind d = Approve)"

definition inv_current :: "ledger \<Rightarrow> bool" where
  "inv_current L \<longleftrightarrow> (\<forall>i a c pol. lg_agrs L i = Some a \<longrightarrow> ag_status a = Active \<longrightarrow> lg_config L = Some c \<longrightarrow>
     policy_of c (ag_policy_id a) (ag_policy_version a) = Some pol \<longrightarrow> still_approved L pol a)"

definition inv_epoch :: "ledger \<Rightarrow> bool" where
  "inv_epoch L \<longleftrightarrow> 0 \<le> lg_epoch L \<and> lg_epoch L \<le> max_safe \<and>
     (\<forall>n e x. lg_fences L n = Some (e, x) \<longrightarrow> 0 \<le> e \<and> e \<le> lg_epoch L)"

definition ledger_inv :: "sha_fn \<Rightarrow> ledger \<Rightarrow> bool" where
  "ledger_inv sha L \<longleftrightarrow> inv_config L \<and> inv_revs sha L \<and> inv_ids L \<and> inv_links L \<and> acyclic (refers L) \<and>
     inv_props L \<and> inv_decs L \<and> inv_latest L \<and> inv_agrs L \<and> inv_active L \<and> inv_current L \<and> inv_epoch L"

lemmas inv_defs = inv_config_def inv_revs_def inv_ids_def inv_links_def inv_props_def inv_decs_def
  inv_latest_def inv_agrs_def inv_active_def inv_current_def inv_epoch_def

lemma ledger_invD:
  assumes "ledger_inv sha L"
  shows "inv_config L" "inv_revs sha L" "inv_ids L" "inv_links L" "acyclic (refers L)" "inv_props L"
    "inv_decs L" "inv_latest L" "inv_agrs L" "inv_active L" "inv_current L" "inv_epoch L"
  using assms by (simp_all add: ledger_inv_def)

section \<open>What each part of the invariant depends on\<close>

lemma cites_frame: "lg_decs L' = lg_decs L \<Longrightarrow> cites L' = cites L"
  by (intro ext) (simp add: cites_def)

lemma agrs_frame:
  "lg_agrs L' = lg_agrs L \<Longrightarrow> lg_decs L' = lg_decs L \<Longrightarrow> lg_props L' = lg_props L \<Longrightarrow> lg_config L' = lg_config L \<Longrightarrow>
   inv_agrs L' = inv_agrs L"
  using cites_frame [of L' L] by (simp add: inv_agrs_def agreement_ok_def)

lemma decs_frame:
  "lg_decs L' = lg_decs L \<Longrightarrow> lg_latest L' = lg_latest L \<Longrightarrow> lg_props L' = lg_props L \<Longrightarrow> lg_config L' = lg_config L \<Longrightarrow>
   inv_decs L' = inv_decs L \<and> inv_latest L' = inv_latest L"
  by (simp add: inv_decs_def inv_latest_def)

lemma active_frame: "lg_agrs L' = lg_agrs L \<Longrightarrow> lg_active L' = lg_active L \<Longrightarrow> inv_active L' = inv_active L"
  by (simp add: inv_active_def)

lemma current_frame:
  "lg_agrs L' = lg_agrs L \<Longrightarrow> lg_decs L' = lg_decs L \<Longrightarrow> lg_latest L' = lg_latest L \<Longrightarrow> lg_config L' = lg_config L \<Longrightarrow>
   inv_current L' = inv_current L"
  by (simp add: inv_current_def still_approved_def)

lemma revs_frame:
  "lg_revs L' = lg_revs L \<Longrightarrow> lg_ids L' = lg_ids L \<Longrightarrow>
   inv_revs sha L' = inv_revs sha L \<and> inv_ids L' = inv_ids L \<and> inv_links L' = inv_links L \<and> refers L' = refers L"
  by (simp add: inv_revs_def inv_ids_def inv_links_def refers_def)

lemma epoch_frame: "lg_epoch L' = lg_epoch L \<Longrightarrow> lg_fences L' = lg_fences L \<Longrightarrow> inv_epoch L' = inv_epoch L"
  by (simp add: inv_epoch_def)

lemma config_frame: "lg_config L \<noteq> None \<Longrightarrow> lg_config L' = lg_config L \<Longrightarrow> inv_config L' = inv_config L"
  by (auto simp: inv_config_def)

lemma proposal_frame: "lg_revs L' = lg_revs L \<Longrightarrow> lg_agrs L' = lg_agrs L \<Longrightarrow> proposal_ok L' = proposal_ok L"
  by (intro ext) (simp add: proposal_ok_def)

lemmas frames = agrs_frame decs_frame active_frame current_frame revs_frame epoch_frame config_frame

section \<open>Publishing\<close>

text \<open>Adding a node with edges into an acyclic graph, and none back to it, keeps it acyclic.\<close>

lemma acyclic_fresh_source:
  assumes "acyclic R" and "x \<notin> Range R" and "x \<notin> T"
  shows "acyclic (R \<union> {x} \<times> T)"
proof -
  let ?S = "R \<union> {x} \<times> T"
  have old: "(a, b) \<in> ?S\<^sup>+ \<Longrightarrow> a \<noteq> x \<Longrightarrow> (a, b) \<in> R\<^sup>+ \<and> b \<noteq> x" for a b
  proof (induction rule: trancl_induct)
    case (base b)
    then show ?case using assms(2) by auto
  next
    case (step b c)
    then have "(a, b) \<in> R\<^sup>+" and "(b, c) \<in> R" by auto
    then show ?case using assms(2) by (auto intro: trancl_into_trancl)
  qed
  have "x \<notin> Range ?S" using assms by auto
  then have no_x: "(a, x) \<notin> ?S\<^sup>+" for a by (metis RangeI trancl_range)
  show ?thesis
  proof (rule acyclicI, rule allI)
    fix a show "(a, a) \<notin> ?S\<^sup>+"
      using no_x [of a] old [of a a] assms(1) by (cases "a = x") (auto simp: acyclic_def)
  qed
qed

lemma refers_published: "inv_links L \<Longrightarrow> (i, j) \<in> refers L \<Longrightarrow> lg_revs L j \<noteq> None"
  unfolding inv_links_def refers_def by fastforce

definition publishable :: "sha_fn \<Rightarrow> revision \<Rightarrow> ledger \<Rightarrow> bool" where
  "publishable sha r L \<longleftrightarrow> lg_config L \<noteq> None \<and> wf_revision sha r \<and> lg_revs L (rv_digest r) = None \<and>
     lg_ids L (pl_revision_id (rv_payload r)) = None \<and>
     (\<forall>x \<in> set (pl_parents (rv_payload r)). \<exists>q. lg_revs L x = Some q \<and> rv_slot q = rv_slot r) \<and>
     (\<forall>x \<in> set (pl_dependencies (rv_payload r)). \<exists>q. lg_revs L (dep_digest x) = Some q \<and> rv_slot q = dep_slot x)"

lemma publish_revs: "inv_revs sha L \<Longrightarrow> inv_ids L \<Longrightarrow> publishable sha r L \<Longrightarrow>
    inv_revs sha (publish r L) \<and> inv_ids (publish r L)"
  unfolding inv_revs_def inv_ids_def publishable_def publish_def by clarsimp (metis option.distinct(1))

lemma publish_keeps: "publishable sha r L \<Longrightarrow> lg_revs L i = Some q \<Longrightarrow> lg_revs (publish r L) i = Some q"
  by (auto simp: publishable_def publish_def)

lemma publish_revs_iff: "lg_revs (publish r L) i = Some q \<longleftrightarrow> (if i = rv_digest r then q = r else lg_revs L i = Some q)"
  by (auto simp: publish_def)

lemma publish_links:
  assumes "inv_links L" and p: "publishable sha r L"
  shows "inv_links (publish r L)"
  unfolding inv_links_def
proof (intro allI impI)
  fix i q assume "lg_revs (publish r L) i = Some q"
  then have "(\<forall>x \<in> set (pl_parents (rv_payload q)). \<exists>s. lg_revs L x = Some s \<and> rv_slot s = rv_slot q) \<and>
     (\<forall>x \<in> set (pl_dependencies (rv_payload q)). \<exists>s. lg_revs L (dep_digest x) = Some s \<and> rv_slot s = dep_slot x)"
    using assms by (auto simp: publish_revs_iff inv_links_def publishable_def split: if_splits)
  then show "(\<forall>x \<in> set (pl_parents (rv_payload q)). \<exists>s. lg_revs (publish r L) x = Some s \<and> rv_slot s = rv_slot q) \<and>
     (\<forall>x \<in> set (pl_dependencies (rv_payload q)). \<exists>s. lg_revs (publish r L) (dep_digest x) = Some s \<and> rv_slot s = dep_slot x)"
    using publish_keeps [OF p] by meson
qed

lemma publish_acyclic:
  assumes "acyclic (refers L)" and "inv_links L" and "publishable sha r L"
  shows "acyclic (refers (publish r L))"
proof -
  let ?T = "set (pl_parents (rv_payload r)) \<union> dep_digest ` set (pl_dependencies (rv_payload r))"
  have "refers (publish r L) = refers L \<union> {rv_digest r} \<times> ?T"
    using assms(3) by (auto simp: refers_def publish_def publishable_def split: if_splits)
  moreover have "rv_digest r \<notin> Range (refers L)"
    using refers_published [OF assms(2), of _ "rv_digest r"] assms(3) by (auto simp: publishable_def)
  moreover have "rv_digest r \<notin> ?T"
    using assms(3) by (fastforce simp: publishable_def)
  ultimately show ?thesis using acyclic_fresh_source [OF assms(1)] by simp
qed

lemma publish_props:
  assumes "inv_props L" and p: "publishable sha r L"
  shows "inv_props (publish r L)"
proof -
  have "proposal_ok L c q \<Longrightarrow> proposal_ok (publish r L) c q" for c q
    unfolding proposal_ok_def publish_sel using publish_keeps [OF p] by blast
  then show ?thesis using assms(1) unfolding inv_props_def publish_sel by blast
qed

lemma publish_inv:
  assumes "ledger_inv sha L" and "publishable sha r L"
  shows "ledger_inv sha (publish r L)"
proof -
  have "inv_decs (publish r L)" "inv_latest (publish r L)" "inv_agrs (publish r L)" "inv_active (publish r L)"
    "inv_current (publish r L)" "inv_epoch (publish r L)" "inv_config (publish r L)"
    using ledger_invD [OF assms(1)] assms(2)
    by (simp_all add: frames [of "publish r L" L] publishable_def)
  then show ?thesis
    using publish_revs [OF ledger_invD(2,3) [OF assms(1)] assms(2)] publish_links [OF ledger_invD(4) [OF assms(1)] assms(2)]
      publish_acyclic [OF ledger_invD(5,4) [OF assms(1)] assms(2)] publish_props [OF ledger_invD(6) [OF assms(1)] assms(2)]
    by (simp add: ledger_inv_def)
qed

section \<open>Proposing\<close>

lemma wf_new_proposal:
  "wf_ctx ctx \<Longrightarrow> wf_config c \<Longrightarrow> wf_policy pol \<Longrightarrow> wf_revision sha r \<Longrightarrow> is_id pid \<Longrightarrow>
   wf_proposal (new_proposal ctx c pid r pol)"
  by (simp add: wf_proposal_def new_proposal_def wf_ctx_def wf_config_def wf_policy_def wf_revision_def
      wf_payload_def max_safe_def)

lemma policy_of_Some: "policy_of c i v = Some pol \<Longrightarrow> pol \<in> set (cfg_policies c) \<and> pol_id pol = i \<and> pol_version pol = v"
  unfolding policy_of_def by (auto dest: find_Some_mem)

lemma policy_of_wf: "wf_config c \<Longrightarrow> policy_of c i v = Some pol \<Longrightarrow> wf_policy pol"
  by (auto simp: wf_config_def list_all_iff dest!: policy_of_Some)

lemma proposal_inv:
  assumes inv: "ledger_inv sha L" and cfg: "lg_config L = Some c" and fresh: "lg_props L (pr_id p) = None"
    and wf: "wf_proposal p" and ok: "proposal_ok L c p"
  shows "ledger_inv sha (add_proposal p L)"
proof -
  have "inv_props (add_proposal p L)"
    using inv cfg wf ok by (simp add: ledger_inv_def inv_props_def proposal_frame [of "add_proposal p L" L])
  moreover have "inv_decs (add_proposal p L)"
    using inv fresh by (force simp: ledger_inv_def inv_decs_def)
  moreover have "inv_agrs (add_proposal p L)"
    using inv fresh by (force simp: ledger_inv_def inv_agrs_def agreement_ok_def cites_frame [of "add_proposal p L" L])
  ultimately show ?thesis using ledger_invD [OF inv] cfg
    by (simp add: ledger_inv_def inv_latest_def frames [of "add_proposal p L" L])
qed

section \<open>Deciding\<close>

text \<open>A new decision on an existing proposal.\<close>

definition decidable :: "config \<Rightarrow> decision \<Rightarrow> proposal \<Rightarrow> ledger \<Rightarrow> bool" where
  "decidable c d p L \<longleftrightarrow> lg_config L = Some c \<and> lg_decs L (de_id d) = None \<and> lg_props L (de_proposal d) = Some p \<and>
     wf_decision d \<and> decision_ok c p d \<and> pr_counter p < max_safe"

lemma decidable_proposal:
  "inv_props L \<Longrightarrow> decidable c d p L \<Longrightarrow> pr_id p = de_proposal d \<and> wf_proposal p \<and> proposal_ok L c p"
  by (auto simp: inv_props_def decidable_def)

lemma decision_props:
  assumes inv: "inv_props L" and d: "decidable c d p L"
  shows "inv_props (add_decision d p L)"
proof -
  note p = decidable_proposal [OF inv d]
  have "wf_proposal (p\<lparr>pr_counter := pr_counter p + 1\<rparr>)"
    using p [THEN conjunct2, THEN conjunct1] d by (simp add: wf_proposal_def decidable_def)
  moreover have "proposal_ok L c (p\<lparr>pr_counter := pr_counter p + 1\<rparr>)"
    using p [THEN conjunct2, THEN conjunct2] by (simp add: proposal_ok_def)
  ultimately show ?thesis
    using inv d by (simp add: inv_props_def decidable_def proposal_frame [of "add_decision d p L" L])
qed

lemma decision_ok_counter [simp]: "decision_ok c (p\<lparr>pr_counter := n\<rparr>) d \<longleftrightarrow> decision_ok c p d"
  by (simp add: decision_ok_def decision_binds_proposal_def)

lemma decision_decs:
  assumes inv: "inv_props L" "inv_decs L" and d: "decidable c d p L"
  shows "inv_decs (add_decision d p L)"
  unfolding inv_decs_def
proof (intro allI impI)
  fix i e assume e: "lg_decs (add_decision d p L) i = Some e"
  note p = decidable_proposal [OF inv(1) d]
  have "wf_decision e \<and> de_id e = i \<and> (e = d \<or> lg_latest L (seat_of e) \<noteq> None) \<and>
      (\<exists>q. lg_props L (de_proposal e) = Some q \<and> decision_ok c q e)"
    using e d inv(2) by (auto simp: inv_decs_def decidable_def split: if_splits)
  then show "wf_decision e \<and> de_id e = i \<and> lg_latest (add_decision d p L) (seat_of e) \<noteq> None \<and>
      (\<exists>c' q. lg_config (add_decision d p L) = Some c' \<and> lg_props (add_decision d p L) (de_proposal e) = Some q \<and> decision_ok c' q e)"
    using d p by (auto simp: decidable_def)
qed

lemma decision_latest: "inv_latest L \<Longrightarrow> decidable c d p L \<Longrightarrow> inv_latest (add_decision d p L)"
  unfolding inv_latest_def decidable_def
  by (intro allI impI, case_tac "q = seat_of d") (simp, metis add_decision_sel(8,9) fun_upd_other option.distinct(1))

lemma decision_agrs:
  assumes inv: "inv_props L" "inv_agrs L" and d: "decidable c d p L"
  shows "inv_agrs (add_decision d p L)"
  unfolding inv_agrs_def
proof (intro allI impI)
  fix i a assume "lg_agrs (add_decision d p L) i = Some a"
  then have a: "wf_agreement a" "ag_id a = i" "agreement_ok L c a"
    using inv d by (auto simp: inv_agrs_def decidable_def)
  have step: "cites L pol a role x \<Longrightarrow> cites (add_decision d p L) pol a role x" for pol role x
    using d by (auto simp: cites_def decidable_def)
  have mono: "list_all2 (cites L pol a) rs xs \<Longrightarrow> list_all2 (cites (add_decision d p L) pol a) rs xs" for pol rs xs
    by (erule list_all2_mono) (rule step)
  have "agreement_ok (add_decision d p L) c a"
    using a(3) decidable_proposal [OF inv(1) d] d mono by (auto simp: agreement_ok_def decidable_def)
  then show "wf_agreement a \<and> ag_id a = i \<and> (\<exists>c. lg_config (add_decision d p L) = Some c \<and> agreement_ok (add_decision d p L) c a)"
    using a d by (simp add: decidable_def)
qed

text \<open>All of the invariant but the rule about the latest decisions, which a decision may break.\<close>

definition base_inv :: "sha_fn \<Rightarrow> ledger \<Rightarrow> bool" where
  "base_inv sha L \<longleftrightarrow> inv_config L \<and> inv_revs sha L \<and> inv_ids L \<and> inv_links L \<and> acyclic (refers L) \<and>
     inv_props L \<and> inv_decs L \<and> inv_latest L \<and> inv_agrs L \<and> inv_active L \<and> inv_epoch L"

lemma ledger_inv_base: "ledger_inv sha L \<longleftrightarrow> base_inv sha L \<and> inv_current L"
  by (auto simp: ledger_inv_def base_inv_def)

lemma decision_base:
  assumes "base_inv sha L" and d: "decidable c d p L"
  shows "base_inv sha (add_decision d p L)"
proof -
  have "inv_config (add_decision d p L) = inv_config L"
    by (rule config_frame) (use d in \<open>simp_all add: decidable_def\<close>)
  then show ?thesis
    using assms decision_props decision_decs decision_latest decision_agrs
    by (simp add: base_inv_def frames(3,4,5,6,7) [of "add_decision d p L" L] 
        revs_frame [of "add_decision d p L" L] epoch_frame [of "add_decision d p L" L] active_frame [of "add_decision d p L" L])
qed

section \<open>Ending an agreement\<close>

lemma agrs_ok: "inv_agrs L \<Longrightarrow> lg_agrs L i = Some a \<Longrightarrow> lg_config L = Some c \<Longrightarrow>
    wf_agreement a \<and> ag_id a = i \<and> agreement_ok L c a"
  by (auto simp: inv_agrs_def)

lemma active_entry: "inv_active L \<Longrightarrow> lg_agrs L i = Some a \<Longrightarrow> ag_status a = Active \<Longrightarrow> lg_active L (ag_slot a) = Some i"
  by (simp add: inv_active_def)

lemma active_agreement:
  "inv_active L \<Longrightarrow> lg_active L s = Some i \<Longrightarrow> \<exists>a. lg_agrs L i = Some a \<and> ag_status a = Active \<and> ag_slot a = s"
  by (simp add: inv_active_def)

lemma active_unique:
  "inv_active L \<Longrightarrow> lg_agrs L i = Some a \<Longrightarrow> ag_status a = Active \<Longrightarrow> lg_agrs L j = Some b \<Longrightarrow>
   ag_status b = Active \<Longrightarrow> ag_slot a = ag_slot b \<Longrightarrow> i = j"
  using active_entry [of L i a] active_entry [of L j b] by simp

lemma change_status_sel [simp]:
  "ag_id (change_status ctx st x a) = ag_id a" "ag_proposal (change_status ctx st x a) = ag_proposal a"
  "ag_digest (change_status ctx st x a) = ag_digest a" "ag_policy_id (change_status ctx st x a) = ag_policy_id a"
  "ag_policy_version (change_status ctx st x a) = ag_policy_version a" "ag_epoch (change_status ctx st x a) = ag_epoch a"
  "ag_binding (change_status ctx st x a) = ag_binding a" "ag_approvals (change_status ctx st x a) = ag_approvals a"
  "ag_status (change_status ctx st x a) = st" "ag_slot (change_status ctx st x a) = ag_slot a"
  by (simp_all add: change_status_def)

lemma cites_change_status [simp]: "cites L pol (change_status ctx st x a) = cites L pol a"
  by (intro ext) (simp add: cites_def approval_binds_def)

lemma agreement_ok_change_status [simp]: "agreement_ok L c (change_status ctx st x a) \<longleftrightarrow> agreement_ok L c a"
  by (simp add: agreement_ok_def)

lemma wf_change_status: "wf_agreement a \<Longrightarrow> wf_ctx ctx \<Longrightarrow> text_ok 1000 x \<Longrightarrow> wf_agreement (change_status ctx st x a)"
  by (simp add: wf_agreement_def change_status_def wf_ctx_def)

lemma agreement_frame:
  "lg_props L' = lg_props L \<Longrightarrow> lg_decs L' = lg_decs L \<Longrightarrow> agreement_ok L' = agreement_ok L"
  using cites_frame [of L' L] by (intro ext) (simp add: agreement_ok_def)

lemma end_agreement_base:
  assumes inv: "base_inv sha L" and cfg: "lg_config L \<noteq> None" and ctx: "wf_ctx ctx" and x: "text_ok 1000 x"
    and a: "lg_agrs L i = Some a" "ag_status a = Active" and st: "st \<noteq> Active" and e: "lg_epoch L < max_safe"
  shows "base_inv sha (end_agreement ctx st x a L)"
proof -
  let ?L = "end_agreement ctx st x a L"
  have i: "ag_id a = i" "wf_agreement a" using inv a by (auto simp: base_inv_def inv_agrs_def)
  have "inv_agrs ?L"
    using inv a i wf_change_status [OF i(2) ctx x]
    by (auto simp: base_inv_def inv_agrs_def agreement_frame [of ?L L])
  moreover have "inv_props ?L"
    using inv a i by (fastforce simp: base_inv_def inv_props_def proposal_ok_def)
  moreover have "inv_active ?L"
  proof -
    have old: "inv_active L" using inv by (simp add: base_inv_def)
    then have slot: "lg_active L (ag_slot a) = Some (ag_id a)" using a i by (auto simp: inv_active_def)
    show ?thesis unfolding inv_active_def
    proof (intro allI)
      fix s j
      have "lg_active ?L s = Some j \<longleftrightarrow> lg_active L s = Some j \<and> j \<noteq> ag_id a"
        using active_agreement [OF old, of s j] slot a i by auto
      also have "\<dots> \<longleftrightarrow> (\<exists>b. lg_agrs ?L j = Some b \<and> ag_status b = Active \<and> ag_slot b = s)"
        using active_agreement [OF old, of s j] active_entry [OF old, of j] st by auto
      finally show "lg_active ?L s = Some j \<longleftrightarrow> (\<exists>b. lg_agrs ?L j = Some b \<and> ag_status b = Active \<and> ag_slot b = s)" .
    qed
  qed
  moreover have "inv_config ?L = inv_config L" by (rule config_frame) (use cfg in simp_all)
  moreover have "inv_epoch ?L" using inv e by (force simp: base_inv_def inv_epoch_def)
  ultimately show ?thesis
    using inv by (simp add: base_inv_def decs_frame [of ?L L] revs_frame [of ?L L])
qed

lemma still_approved_change_status [simp]: "still_approved L pol (change_status ctx st x a) \<longleftrightarrow> still_approved L pol a"
  by (simp add: still_approved_def)

lemma end_agreement_current:
  assumes "inv_current L" and "st \<noteq> Active"
  shows "inv_current (end_agreement ctx st x a L)"
  using assms by (auto simp: inv_current_def still_approved_def split: if_splits)

section \<open>A decision and what it strikes\<close>

lemma representative_of_Some: "representative_of pol role = Some r \<Longrightarrow> r \<in> set (pol_reps pol) \<and> rep_role r = role"
  unfolding representative_of_def by (auto dest: find_Some_mem)

text \<open>An agreement in force that the decision does not strike stays approved.\<close>

lemma still_approved_unstruck:
  assumes inv: "base_inv sha L" "inv_current L" and d: "decidable c d p L"
    and b: "lg_agrs L j = Some b" "ag_status b = Active"
    and pol: "policy_of c (ag_policy_id b) (ag_policy_version b) = Some pol"
    and free: "struck_by d L \<noteq> Some b"
  shows "still_approved (add_decision d p L) pol b"
  unfolding still_approved_def
proof
  fix role assume role: "role \<in> set (pol_roles pol)"
  have cfg: "lg_config L = Some c" and fresh: "lg_decs L (de_id d) = None"
    using d by (simp_all add: decidable_def)
  obtain r i e where r: "representative_of pol role = Some r" and e: "lg_decs L i = Some e" "de_kind e = Approve"
    and i: "lg_latest L (ag_proposal b, ag_policy_version b, role, rep_org r, rep_actor r) = Some i"
    using inv(2) b cfg pol role unfolding inv_current_def still_approved_def by blast
  let ?seat = "(ag_proposal b, ag_policy_version b, role, rep_org r, rep_actor r)"
  show "\<exists>r i e. representative_of pol role = Some r \<and>
      lg_latest (add_decision d p L) (ag_proposal b, ag_policy_version b, role, rep_org r, rep_actor r) = Some i \<and>
      lg_decs (add_decision d p L) i = Some e \<and> de_kind e = Approve"
  proof (cases "seat_of d = ?seat")
    case False
    have "i \<noteq> de_id d" using e fresh by auto
    then show ?thesis using r i e False by simp
  next
    case True
    have "ag_slot b = de_slot d"
      using agrs_ok [OF _ b(1) cfg] inv(1) d True
      by (auto simp: base_inv_def agreement_ok_def decidable_def decision_ok_def seat_of_def)
    then have "lg_active L (de_slot d) = Some j"
      using active_entry [of L j b] inv(1) b by (simp add: base_inv_def)
    then have "de_kind d = Approve"
      using free b True by (auto simp: struck_by_def seat_of_def split: if_splits)
    then show ?thesis using r True by simp
  qed
qed

lemma struck_by_Some:
  "struck_by d L = Some a \<Longrightarrow> \<exists>i. lg_active L (de_slot d) = Some i \<and> lg_agrs L i = Some a \<and> ag_status a = Active \<and>
     de_kind d \<noteq> Approve \<and> ag_proposal a = de_proposal d"
  by (auto simp: struck_by_def split: option.splits if_splits)

lemma low_code_points: "\<forall>u \<in> set s. unat u < 0xD800 \<Longrightarrow> code_points s = map unat s"
  by (induction s rule: code_points.induct) (auto simp: is_high_def is_low_def)

lemma text_ok_js: "text_ok n (js s) \<longleftrightarrow> 1 \<le> length s \<and> length s \<le> n"
proof -
  have "\<forall>u \<in> set (js s). unat u < 0xD800"
  proof
    fix u assume "u \<in> set (js s)"
    then obtain c where u: "u = cu c" by (auto simp: js_def)
    have "unat u < 256" unfolding u unat_cu by (rule nat_of_char_less_256)
    then show "unat u < 0xD800" by simp
  qed
  then have "length (code_points (js s)) = length s" by (simp add: low_code_points) (simp add: js_def)
  then show ?thesis by (simp add: text_ok_def)
qed

lemma text_ok_reason: "text_ok 1000 (suspension_reason k)"
  by (cases k) (simp_all add: text_ok_js)

lemma decide_inv:
  assumes inv: "ledger_inv sha L" and d: "decidable c d p L" and ctx: "wf_ctx ctx"
    and e: "struck_by d L \<noteq> None \<Longrightarrow> lg_epoch L < max_safe"
  shows "ledger_inv sha (decide ctx d p L)"
proof -
  have base: "base_inv sha L" and cur: "inv_current L" using inv by (simp_all add: ledger_inv_base)
  have cfg: "lg_config L = Some c" using d by (simp add: decidable_def)
  note base' = decision_base [OF base d]
  show ?thesis
  proof (cases "struck_by d L")
    case None
    then have "inv_current (add_decision d p L)"
      using still_approved_unstruck [OF base cur d] cfg by (auto simp: inv_current_def)
    then show ?thesis using base' None by (simp add: decide_def ledger_inv_base)
  next
    case (Some a)
    then obtain i where a: "lg_agrs L i = Some a" "ag_status a = Active" using struck_by_Some by blast
    have id_: "ag_id a = i" using base a by (auto simp: base_inv_def inv_agrs_def)
    let ?L = "end_agreement ctx Suspended (suspension_reason (de_kind d)) a (add_decision d p L)"
    have "base_inv sha ?L"
      by (rule end_agreement_base [OF base']) (use cfg ctx text_ok_reason a e Some in auto)
    moreover have "inv_current ?L"
      unfolding inv_current_def
    proof (intro allI impI)
      fix j b c' pol
      assume j: "lg_agrs ?L j = Some b" "ag_status b = Active" "lg_config ?L = Some c'"
        and pol: "policy_of c' (ag_policy_id b) (ag_policy_version b) = Some pol"
      then have old: "lg_agrs L j = Some b" "j \<noteq> i" using id_ by (auto split: if_splits)
      then have "struck_by d L \<noteq> Some b" using Some a id_ base by (auto simp: base_inv_def inv_agrs_def)
      then have "still_approved (add_decision d p L) pol b"
        using still_approved_unstruck [OF base cur d old(1)] j pol cfg by simp
      then show "still_approved ?L pol b" by (simp add: still_approved_def)
    qed
    ultimately show ?thesis using Some by (simp add: decide_def ledger_inv_base)
  qed
qed

section \<open>Activating\<close>

text \<open>What the activation of a proposal's agreement rests on.\<close>

definition activatable ::
  "txctx \<Rightarrow> config \<Rightarrow> jstr \<Rightarrow> proposal \<Rightarrow> revision \<Rightarrow> policy \<Rightarrow> jstr list \<Rightarrow> ledger \<Rightarrow> bool" where
  "activatable ctx c aid p r pol ids L \<longleftrightarrow> lg_config L = Some c \<and> wf_ctx ctx \<and> is_id aid \<and> lg_agrs L aid = None \<and>
     lg_props L (pr_id p) = Some p \<and> pr_status p = Open \<and> lg_revs L (pr_digest p) = Some r \<and>
     policy_of c (pr_policy_id p) (pr_policy_version p) = Some pol \<and> pol_slot pol = rv_slot r \<and>
     list_all2 (approves L pol p) (pol_roles pol) ids \<and> distinct ids \<and> lg_epoch L < max_safe"

lemma lg_agrs_activate:
  "lg_agrs (activate ctx a p L) j = (if j = ag_id a then Some a
     else if lg_active L (ag_slot a) = Some j
       then map_option (change_status ctx Superseded (js ''replaced_by_new_active_agreement'')) (lg_agrs L j)
     else lg_agrs L j)"
  by (simp add: activate_def split: option.split)

lemma new_agreement_sel [simp]:
  "ag_id (new_agreement ctx c aid p r pol ids) = aid" "ag_proposal (new_agreement ctx c aid p r pol ids) = pr_id p"
  "ag_digest (new_agreement ctx c aid p r pol ids) = rv_digest r"
  "ag_policy_id (new_agreement ctx c aid p r pol ids) = pol_id pol"
  "ag_policy_version (new_agreement ctx c aid p r pol ids) = pol_version pol"
  "ag_epoch (new_agreement ctx c aid p r pol ids) = cfg_epoch c"
  "ag_binding (new_agreement ctx c aid p r pol ids) = cfg_binding c"
  "ag_approvals (new_agreement ctx c aid p r pol ids) = ids"
  "ag_status (new_agreement ctx c aid p r pol ids) = Active"
  "ag_slot (new_agreement ctx c aid p r pol ids) = rv_slot r"
  by (simp_all add: new_agreement_def)

lemma activatable_policy:
  "activatable ctx c aid p r pol ids L \<Longrightarrow> pol_id pol = pr_policy_id p \<and> pol_version pol = pr_policy_version p"
  by (auto simp: activatable_def dest: policy_of_Some)

lemma approves_ids: "inv_decs L \<Longrightarrow> approves L pol p role i \<Longrightarrow> is_id i"
  by (auto simp: approves_def inv_decs_def wf_decision_def)

lemma wf_new_agreement:
  assumes "ledger_inv sha L" and "activatable ctx c aid p r pol ids L"
  shows "wf_agreement (new_agreement ctx c aid p r pol ids)"
proof -
  note inv = ledger_invD [OF assms(1)]
  have pol: "wf_policy pol" "wf_config c"
    using inv(1) assms(2) policy_of_wf by (auto simp: inv_config_def activatable_def)
  have "wf_revision sha r" "wf_proposal p"
    using inv assms(2) by (auto simp: inv_revs_def inv_props_def activatable_def)
  moreover have "list_all is_id ids"
    using assms(2) approves_ids [OF inv(7)] by (auto simp: activatable_def list_all2_conv_all_nth list_all_length)
  moreover have "length ids = length (pol_roles pol)"
    using assms(2) by (auto simp: activatable_def dest: list_all2_lengthD)
  ultimately show ?thesis
    using pol assms(2) unique_ids [of ids]
    by (simp add: wf_agreement_def new_agreement_def activatable_def wf_ctx_def wf_proposal_def wf_revision_def
        wf_payload_def wf_policy_def wf_config_def)
qed

text \<open>No committed agreement can belong to a proposal that is still open.\<close>

lemma open_unclaimed:
  assumes "inv_agrs L" and "lg_config L = Some c" and "lg_agrs L i = Some b" and "ag_proposal b = pr_id p"
    and "lg_props L (pr_id p) = Some p" and "inv_props L" and "pr_status p = Open"
  shows False
proof -
  have "pr_agreement p = Some (ag_id b)"
    using agrs_ok [OF assms(1,3,2)] assms(4,5) by (auto simp: agreement_ok_def)
  moreover have "proposal_ok L c p" using assms(2,5,6) by (auto simp: inv_props_def)
  ultimately show False using assms(7) by (simp add: proposal_ok_def)
qed

lemma activate_agrs:
  assumes inv: "ledger_inv sha L" and act: "activatable ctx c aid p r pol ids L"
  shows "inv_agrs (activate ctx (new_agreement ctx c aid p r pol ids) p L)"
  unfolding inv_agrs_def
proof (intro allI impI)
  let ?a = "new_agreement ctx c aid p r pol ids"
  let ?L = "activate ctx ?a p L"
  fix i b assume b: "lg_agrs ?L i = Some b"
  note I = ledger_invD [OF inv]
  have cfg: "lg_config L = Some c" using act by (simp add: activatable_def)
  have p: "lg_props L (pr_id p) = Some p" "pr_status p = Open" using act by (simp_all add: activatable_def)
  have cites: "cites ?L = cites L" by (rule cites_frame) simp
  have pok: "proposal_ok L c p" using I(6) p cfg by (auto simp: inv_props_def)
  have r: "rv_slot r = pr_slot p" "rv_digest r = pr_digest p"
    using pok act I(2) by (auto simp: proposal_ok_def activatable_def inv_revs_def)
  have pe: "pr_epoch p = cfg_epoch c" "pr_binding p = cfg_binding c" "pol_slot pol = pr_slot p"
    using pok act r by (simp_all add: proposal_ok_def activatable_def)
  show "wf_agreement b \<and> ag_id b = i \<and> (\<exists>c. lg_config ?L = Some c \<and> agreement_ok ?L c b)"
  proof (cases "i = aid")
    case True
    have ap: "approves L pol p role x \<Longrightarrow> cites L pol ?a role x" for role x
      using r activatable_policy [OF act] pe
      by (auto simp: approves_def cites_def approval_binds_def approval_matches_proposal_def)
    have "list_all2 (cites L pol ?a) (pol_roles pol) ids"
      using act by (auto simp: activatable_def intro: list_all2_mono ap)
    then have "agreement_ok ?L c ?a"
      using act pe r cites activatable_policy [OF act] by (simp add: agreement_ok_def activatable_def)
    moreover have "b = ?a" using True b by (simp add: lg_agrs_activate)
    ultimately show ?thesis using True wf_new_agreement [OF inv act] cfg by simp
  next
    case False
    then obtain b0 where b0: "lg_agrs L i = Some b0" and shape: "b = b0 \<or>
        b = change_status ctx Superseded (js ''replaced_by_new_active_agreement'') b0"
      using b by (auto simp: lg_agrs_activate split: if_splits)
    note ok = agrs_ok [OF I(9) b0 cfg]
    have "ag_proposal b0 \<noteq> pr_id p" using open_unclaimed [OF I(9) cfg b0 _ p(1) I(6) p(2)] by blast
    then have "agreement_ok ?L c b0" using ok cites by (auto simp: agreement_ok_def)
    moreover have "wf_agreement b"
      using ok shape act wf_change_status [of b0 ctx "js ''replaced_by_new_active_agreement''"]
      by (auto simp: activatable_def text_ok_js)
    ultimately show ?thesis using ok shape cfg by auto
  qed
qed

lemma activate_props:
  assumes inv: "ledger_inv sha L" and act: "activatable ctx c aid p r pol ids L"
  shows "inv_props (activate ctx (new_agreement ctx c aid p r pol ids) p L)"
  unfolding inv_props_def
proof (intro allI impI)
  let ?a = "new_agreement ctx c aid p r pol ids"
  let ?L = "activate ctx ?a p L"
  fix i q assume q: "lg_props ?L i = Some q"
  note I = ledger_invD [OF inv]
  have cfg: "lg_config L = Some c" using act by (simp add: activatable_def)
  show "wf_proposal q \<and> pr_id q = i \<and> (\<exists>c. lg_config ?L = Some c \<and> proposal_ok ?L c q)"
  proof (cases "i = pr_id p")
    case True
    have "wf_proposal p" "proposal_ok L c p" using act I(6) by (auto simp: activatable_def inv_props_def)
    moreover have "q = p\<lparr>pr_status := Activated, pr_agreement := Some aid\<rparr>" "is_id aid"
      using True q act by (simp_all add: activatable_def)
    ultimately show ?thesis
      using True cfg by (simp add: wf_proposal_def proposal_ok_def lg_agrs_activate)
  next
    case False
    then have old: "wf_proposal q" "pr_id q = i" "proposal_ok L c q" using q I(6) cfg by (auto simp: inv_props_def)
    have keep: "lg_agrs L g = Some b \<Longrightarrow> \<exists>b'. lg_agrs ?L g = Some b' \<and> ag_proposal b' = ag_proposal b" for g b
      using act by (auto simp: lg_agrs_activate activatable_def)
    show ?thesis using old cfg keep by (fastforce simp: proposal_ok_def)
  qed
qed

lemma activate_active:
  assumes inv: "ledger_inv sha L" and act: "activatable ctx c aid p r pol ids L"
  shows "inv_active (activate ctx (new_agreement ctx c aid p r pol ids) p L)"
  unfolding inv_active_def
proof (intro allI)
  let ?a = "new_agreement ctx c aid p r pol ids"
  let ?L = "activate ctx ?a p L"
  fix s j
  note I = ledger_invD [OF inv]
  have fresh: "lg_agrs L aid = None" using act by (simp add: activatable_def)
  note entry = active_entry [OF I(10)] and agr = active_agreement [OF I(10)]
  show "lg_active ?L s = Some j \<longleftrightarrow> (\<exists>b. lg_agrs ?L j = Some b \<and> ag_status b = Active \<and> ag_slot b = s)"
  proof (cases "j = aid")
    case True
    have "lg_active L s \<noteq> Some aid" using agr [of s aid] fresh by auto
    then show ?thesis using True by (auto simp: lg_agrs_activate)
  next
    case False
    then show ?thesis
      using entry [of j] agr [of s j] agr [of "rv_slot r" j] by (auto simp: lg_agrs_activate)
  qed
qed

lemma activate_current:
  assumes inv: "ledger_inv sha L" and act: "activatable ctx c aid p r pol ids L"
  shows "inv_current (activate ctx (new_agreement ctx c aid p r pol ids) p L)"
  unfolding inv_current_def
proof (intro allI impI)
  let ?a = "new_agreement ctx c aid p r pol ids"
  let ?L = "activate ctx ?a p L"
  fix i b c' pol' assume b: "lg_agrs ?L i = Some b" "ag_status b = Active" "lg_config ?L = Some c'"
    and pol': "policy_of c' (ag_policy_id b) (ag_policy_version b) = Some pol'"
  note I = ledger_invD [OF inv]
  have still: "still_approved ?L = still_approved L" by (intro ext) (simp add: still_approved_def)
  show "still_approved ?L pol' b"
  proof (cases "i = aid")
    case True
    then have "b = ?a" using b by (simp add: lg_agrs_activate)
    moreover have "pol' = pol" "pol_version pol = pr_policy_version p"
      using act pol' b \<open>b = ?a\<close> activatable_policy [OF act] by (simp_all add: activatable_def)
    moreover have "\<exists>x. approves L pol p role x" if "role \<in> set (pol_roles pol)" for role
      using act that by (auto simp: activatable_def list_all2_conv_all_nth in_set_conv_nth)
    ultimately show ?thesis
      unfolding still by (fastforce simp: still_approved_def approves_def rep_seat_def)
  next
    case False
    then have "lg_agrs L i = Some b" using b by (auto simp: lg_agrs_activate split: if_splits)
    then show ?thesis using I(11) b pol' by (simp add: still inv_current_def)
  qed
qed

lemma activate_inv:
  assumes inv: "ledger_inv sha L" and act: "activatable ctx c aid p r pol ids L"
  shows "ledger_inv sha (activate ctx (new_agreement ctx c aid p r pol ids) p L)"
proof -
  let ?L = "activate ctx (new_agreement ctx c aid p r pol ids) p L"
  note I = ledger_invD [OF inv]
  have "inv_config ?L = inv_config L" by (rule config_frame) (use act in \<open>simp_all add: activatable_def\<close>)
  moreover have "inv_decs ?L"
  proof -
    have ok: "decision_ok c (p\<lparr>pr_status := s, pr_agreement := g\<rparr>) d \<longleftrightarrow> decision_ok c p d" for c d s g
      by (simp add: decision_ok_def decision_binds_proposal_def)
    show ?thesis unfolding inv_decs_def
    proof (intro allI impI)
      fix i d assume "lg_decs ?L i = Some d"
      then obtain c' q where d: "wf_decision d" "de_id d = i" "lg_latest L (seat_of d) \<noteq> None" "lg_config L = Some c'"
          "lg_props L (de_proposal d) = Some q" "decision_ok c' q d"
        using I(7) unfolding inv_decs_def activate_sel by blast
      then show "wf_decision d \<and> de_id d = i \<and> lg_latest ?L (seat_of d) \<noteq> None \<and>
          (\<exists>c p'. lg_config ?L = Some c \<and> lg_props ?L (de_proposal d) = Some p' \<and> decision_ok c p' d)"
        using act by (cases "de_proposal d = pr_id p") (simp_all add: activatable_def ok)
    qed
  qed
  moreover have "inv_latest ?L" using I(8) by (simp add: inv_latest_def)
  moreover have "inv_epoch ?L" using I(12) act by (force simp: inv_epoch_def activatable_def)
  ultimately show ?thesis
    using I activate_agrs [OF inv act] activate_props [OF inv act] activate_active [OF inv act] activate_current [OF inv act]
    by (simp add: ledger_inv_def revs_frame [of ?L L])
qed

section \<open>Every transition preserves the invariant\<close>

lemma empty_ledger_inv: "ledger_inv sha empty_ledger"
  by (simp add: ledger_inv_def inv_defs empty_ledger_def refers_def max_safe_def acyclic_def)

lemma bootstrapped_inv:
  assumes "ledger_inv sha L" and "lg_config L = None" and "wf_config c"
  shows "ledger_inv sha (L\<lparr>lg_config := Some c, lg_epoch := 0\<rparr>)"
proof -
  have "L = empty_ledger" using assms by (simp add: ledger_inv_def inv_config_def)
  then show ?thesis
    using assms(3) by (simp add: ledger_inv_def inv_defs empty_ledger_def refers_def max_safe_def acyclic_def)
qed

lemma fenced_inv:
  assumes "ledger_inv sha L" and "lg_config L \<noteq> None"
  shows "ledger_inv sha (L\<lparr>lg_fences := (lg_fences L)(n \<mapsto> (lg_epoch L, x))\<rparr>)"
proof -
  let ?L = "L\<lparr>lg_fences := (lg_fences L)(n \<mapsto> (lg_epoch L, x))\<rparr>"
  have "inv_config ?L = inv_config L" by (rule config_frame) (use assms in simp_all)
  moreover have "inv_epoch ?L" using assms by (simp add: ledger_inv_def inv_epoch_def)
  moreover have "inv_props ?L = inv_props L" by (simp add: inv_props_def proposal_frame [of ?L L])
  ultimately show ?thesis
    using ledger_invD [OF assms(1)]
    by (simp add: ledger_inv_def agrs_frame [of ?L L] decs_frame [of ?L L] active_frame [of ?L L]
        current_frame [of ?L L] revs_frame [of ?L L])
qed

lemma end_agreement_inv:
  assumes inv: "ledger_inv sha L" and cfg: "lg_config L \<noteq> None" and ctx: "wf_ctx ctx" "text_ok 1000 x"
    and a: "lg_agrs L i = Some a" "ag_status a = Active" and st: "st \<noteq> Active" and e: "lg_epoch L < max_safe"
  shows "ledger_inv sha (end_agreement ctx st x a L)"
  using end_agreement_base [OF _ cfg ctx a st e] end_agreement_current [OF _ st] inv by (simp add: ledger_inv_base)

lemma proposed_inv:
  assumes inv: "ledger_inv sha L" and cfg: "lg_config L = Some c" and ctx: "wf_ctx ctx" and pid: "is_id pid"
    and fresh: "lg_props L pid = None" and r: "lg_revs L digest = Some r"
    and pol: "policy_of c i v = Some pol" "pol_slot pol = rv_slot r"
  shows "ledger_inv sha (add_proposal (new_proposal ctx c pid r pol) L)"
proof -
  let ?p = "new_proposal ctx c pid r pol"
  have c: "wf_config c" using ledger_invD(1) [OF inv] cfg by (simp add: inv_config_def)
  have r': "wf_revision sha r" "rv_digest r = digest" using ledger_invD(2) [OF inv] r by (auto simp: inv_revs_def)
  have "wf_proposal ?p" by (rule wf_new_proposal [OF ctx c policy_of_wf [OF c pol(1)] r'(1) pid])
  moreover have "proposal_ok L c ?p"
    using pol r r' policy_of_Some [OF pol(1)] by (auto simp: proposal_ok_def new_proposal_def)
  ultimately show ?thesis using proposal_inv [OF inv cfg] fresh by (simp add: new_proposal_def)
qed

theorem ledger_step_inv: "ledger_step sha ctx L L' \<Longrightarrow> ledger_inv sha L \<Longrightarrow> ledger_inv sha L'"
proof (induction rule: ledger_step.induct)
  case (published L c ident r)
  then have "publishable sha r L" by (simp add: publishable_def)
  then show ?case using publish_inv published by blast
next
  case (proposed L c ident pid digest r i v pol)
  show ?case by (rule proposed_inv) (use proposed in auto)
next
  case (decided L c d p pol rep)
  then have "decidable c d p L"
    by (simp add: decidable_def decision_ok_def names_actor_def)
  then show ?case by (rule decide_inv [rotated]) (use decided in auto)
next
  case (activated L c aid pid p r pol ids)
  have "pr_id p = pid" using activated ledger_invD(6) [of sha L] by (auto simp: inv_props_def)
  then have "activatable ctx c aid p r pol ids L" using activated by (simp add: activatable_def)
  then show ?case using activate_inv activated by blast
next
  case (ended L c reason aid a pol rep st)
  show ?case by (rule end_agreement_inv) (use ended in auto)
qed (auto intro: bootstrapped_inv fenced_inv)

theorem reachable_ledger_inv: "reachable_ledger sha L \<Longrightarrow> ledger_inv sha L"
  by (induction rule: reachable_ledger.induct) (auto intro: empty_ledger_inv ledger_step_inv)

end
