(* ===== verification/Represent.thy ===== *)
theory Represent
  imports LedgerInv
begin

text \<open>
  How the keyed store of JSON values represents an abstract ledger, and how the readers of the
  program see it: under the representation relation each of them returns the abstract record.
\<close>

section \<open>The representation relation\<close>

definition digest_pointer :: "jstr \<Rightarrow> json" where
  "digest_pointer d = obj [(''revision_digest'', JStr d)]"

definition decision_pointer :: "jstr \<Rightarrow> json" where
  "decision_pointer i = obj [(''decision_id'', JStr i)]"

definition enc_fence :: "jstr \<Rightarrow> int \<times> jstr \<Rightarrow> json" where
  "enc_fence n f = obj [(''eligibility_epoch'', JNum (NInt (fst f))), (''nonce'', JStr n), (''tx_id'', JStr (snd f))]"

text \<open>A slot without agreement has no entry or a cleared one.\<close>

definition slot_entry :: "jstr option \<Rightarrow> json option \<Rightarrow> bool" where
  "slot_entry active entry \<longleftrightarrow> (case active of
     None \<Rightarrow> entry = None \<or> entry = Some no_agreement
   | Some i \<Rightarrow> entry = Some (points_to i))"

definition represents :: "world \<Rightarrow> ledger \<Rightarrow> bool" where
  "represents w L \<longleftrightarrow>
     present w key_config = map_option enc_config (lg_config L) \<and>
     present w key_eligibility_epoch = map_option (\<lambda>_. JNum (NInt (lg_epoch L))) (lg_config L) \<and>
     (\<forall>i. present w (key_revision i) = map_option enc_revision (lg_revs L i)) \<and>
     (\<forall>i. present w (key_revision_id i) = map_option digest_pointer (lg_ids L i)) \<and>
     (\<forall>i. present w (key_proposal i) = map_option enc_proposal (lg_props L i)) \<and>
     (\<forall>i. present w (key_review_counter i) = map_option (\<lambda>p. JNum (NInt (pr_counter p))) (lg_props L i)) \<and>
     (\<forall>i. present w (key_decision i) = map_option enc_decision (lg_decs L i)) \<and>
     (\<forall>p v r org a. present w (key_latest_decision p v r org a) = map_option decision_pointer (lg_latest L (p, v, r, org, a))) \<and>
     (\<forall>i. present w (key_agreement i) = map_option enc_agreement (lg_agrs L i)) \<and>
     (\<forall>s. wf_slot s \<longrightarrow> slot_entry (lg_active L s) (present w (key_active_slot s))) \<and>
     (\<forall>n. present w (key_fence n) = map_option (enc_fence n) (lg_fences L n)) \<and>
     (\<forall>i v. present w (key_policy i v) = Option.bind (lg_config L) (\<lambda>c. map_option enc_policy (policy_of c i v)))"

lemma representsD:
  assumes "represents w L"
  shows "present w key_config = map_option enc_config (lg_config L)"
    "present w key_eligibility_epoch = map_option (\<lambda>_. JNum (NInt (lg_epoch L))) (lg_config L)"
    "present w (key_revision i) = map_option enc_revision (lg_revs L i)"
    "present w (key_revision_id i) = map_option digest_pointer (lg_ids L i)"
    "present w (key_proposal i) = map_option enc_proposal (lg_props L i)"
    "present w (key_review_counter i) = map_option (\<lambda>p. JNum (NInt (pr_counter p))) (lg_props L i)"
    "present w (key_decision i) = map_option enc_decision (lg_decs L i)"
    "present w (key_latest_decision p v r org a) = map_option decision_pointer (lg_latest L (p, v, r, org, a))"
    "present w (key_agreement i) = map_option enc_agreement (lg_agrs L i)"
    "wf_slot s \<Longrightarrow> slot_entry (lg_active L s) (present w (key_active_slot s))"
    "present w (key_fence n) = map_option (enc_fence n) (lg_fences L n)"
    "present w (key_policy i z) = Option.bind (lg_config L) (\<lambda>c. map_option enc_policy (policy_of c i z))"
  using assms by (simp_all add: represents_def)

lemma represents_empty: "represents Map.empty empty_ledger"
  by (simp add: represents_def empty_ledger_def slot_entry_def)

text \<open>The key under which a command's outcome is remembered is no part of the ledger.\<close>

lemma represents_idempotency [simp]: "represents (w(key_idempotency org cmd \<mapsto> v)) L \<longleftrightarrow> represents w L"
  by (simp add: represents_def present_put key_defs)

lemma enc_present [simp]:
  "enc_config c \<noteq> JUndef" "enc_config c \<noteq> JNull" "enc_revision r \<noteq> JUndef" "enc_revision r \<noteq> JNull"
  "enc_proposal p \<noteq> JUndef" "enc_proposal p \<noteq> JNull" "enc_decision d \<noteq> JUndef" "enc_decision d \<noteq> JNull"
  "enc_agreement a \<noteq> JUndef" "enc_agreement a \<noteq> JNull" "enc_policy q \<noteq> JUndef" "enc_policy q \<noteq> JNull"
  "digest_pointer x \<noteq> JUndef" "digest_pointer x \<noteq> JNull" "decision_pointer x \<noteq> JUndef" "decision_pointer x \<noteq> JNull"
  "points_to x \<noteq> JUndef" "points_to x \<noteq> JNull" "no_agreement \<noteq> JUndef" "no_agreement \<noteq> JNull"
  "enc_fence n f \<noteq> JUndef" "enc_fence n f \<noteq> JNull"
  by (simp_all add: enc_config_def enc_revision_def enc_proposal_def enc_decision_def enc_agreement_def
      enc_policy_def digest_pointer_def decision_pointer_def points_to_def no_agreement_def enc_fence_def)

section \<open>Readers\<close>

context codec
begin

lemma read_represented:
  assumes "present w k = map_option enc m" and "\<And>x. m = Some x \<Longrightarrow> wf x" and "\<And>y. missing \<noteq> Ok y"
  shows "read_required dec missing w k = Ok y \<longleftrightarrow> m = Some y"
  using assms by (cases m) (auto simp: read_required_def dec_enc_iff)

lemma stored_represented:
  assumes "present w k = map_option enc m" and "\<And>x. m = Some x \<Longrightarrow> wf x"
  shows "stored dec w k = m"
  using assms by (cases m) (auto simp: stored_def dec_enc)

end

lemma ledger_wf:
  assumes "ledger_inv sha L"
  shows "lg_config L = Some c \<Longrightarrow> wf_config c" "lg_revs L i = Some r \<Longrightarrow> wf_revision sha r"
    "lg_props L i = Some p \<Longrightarrow> wf_proposal p" "lg_decs L i = Some d \<Longrightarrow> wf_decision d"
    "lg_agrs L i = Some a \<Longrightarrow> wf_agreement a"
  using ledger_invD [OF assms]
  by (auto simp: inv_config_def inv_revs_def inv_props_def inv_decs_def inv_agrs_def)

lemma ledger_ids:
  assumes "ledger_inv sha L"
  shows "lg_revs L i = Some r \<Longrightarrow> rv_digest r = i" "lg_props L i = Some p \<Longrightarrow> pr_id p = i"
    "lg_decs L i = Some d \<Longrightarrow> de_id d = i" "lg_agrs L i = Some a \<Longrightarrow> ag_id a = i"
  using ledger_invD [OF assms] by (auto simp: inv_revs_def inv_props_def inv_decs_def inv_agrs_def)

lemma read_ledger:
  assumes R: "represents w L" and I: "ledger_inv sha L" and "\<And>y. missing \<noteq> Ok y"
  shows "read_required (validate_revision sha) missing w (key_revision i) = Ok r \<longleftrightarrow> lg_revs L i = Some r"
  by (rule revision.read_represented [OF representsD(3) [OF R] ledger_wf(2) [OF I] assms(3)])

lemma read_ledger_proposal:
  assumes R: "represents w L" and I: "ledger_inv sha L" and "\<And>y. missing \<noteq> Ok y"
  shows "read_required validate_proposal missing w (key_proposal i) = Ok p \<longleftrightarrow> lg_props L i = Some p"
  by (rule proposal.read_represented [OF representsD(5) [OF R] ledger_wf(3) [OF I] assms(3)])

lemma read_ledger_decision:
  assumes R: "represents w L" and I: "ledger_inv sha L" and "\<And>y. missing \<noteq> Ok y"
  shows "read_required validate_decision missing w (key_decision i) = Ok d \<longleftrightarrow> lg_decs L i = Some d"
  by (rule decision.read_represented [OF representsD(7) [OF R] ledger_wf(4) [OF I] assms(3)])

lemma read_ledger_agreement:
  assumes R: "represents w L" and I: "ledger_inv sha L" and "\<And>y. missing \<noteq> Ok y"
  shows "read_required validate_agreement missing w (key_agreement i) = Ok a \<longleftrightarrow> lg_agrs L i = Some a"
  by (rule agreement.read_represented [OF representsD(9) [OF R] ledger_wf(5) [OF I] assms(3)])

lemma read_ledger_config:
  assumes R: "represents w L" and I: "ledger_inv sha L"
  shows "read_config w = Ok c \<longleftrightarrow> lg_config L = Some c"
  using config.read_represented [OF representsD(1) [OF R] ledger_wf(1) [OF I], of "fail_as NOT_BOOTSTRAPPED 503 True" c]
  by (simp add: read_config_def read_required_def)

lemma present_none:
  assumes "represents w L"
  shows "present w (key_revision i) = None \<longleftrightarrow> lg_revs L i = None" "present w (key_proposal i) = None \<longleftrightarrow> lg_props L i = None"
    "present w (key_decision i) = None \<longleftrightarrow> lg_decs L i = None" "present w (key_agreement i) = None \<longleftrightarrow> lg_agrs L i = None"
    "present w (key_fence n) = None \<longleftrightarrow> lg_fences L n = None" "present w key_config = None \<longleftrightarrow> lg_config L = None"
  by (simp_all add: representsD [OF assms])

lemma read_revision_by_id_ledger:
  assumes R: "represents w L" and I: "ledger_inv sha L"
  shows "read_revision_by_id sha w i = Ok (Option.bind (lg_ids L i) (lg_revs L))"
proof (cases "lg_ids L i")
  case None
  then show ?thesis using R by (simp add: read_revision_by_id_def representsD)
next
  case (Some d)
  then obtain r where r: "lg_revs L d = Some r" using ledger_invD(3) [OF I] by (auto simp: inv_ids_def)
  then have "is_digest d" using ledger_wf(2) [OF I r] ledger_ids(1) [OF I r] by (auto simp: wf_revision_def)
  then show ?thesis
    using Some r read_ledger [OF R I, of "fail_as CORRUPT_STATE 500 True" d r]
    by (simp add: read_revision_by_id_def representsD [OF R] digest_pointer_def assert_eval)
qed

lemma get_latest_decision_ledger:
  assumes R: "represents w L" and I: "ledger_inv sha L"
  shows "get_latest_decision w d = Ok (Option.bind (lg_latest L (seat_of d)) (lg_decs L))"
proof (cases "lg_latest L (seat_of d)")
  case None
  then show ?thesis using R by (simp add: get_latest_decision_def decision_latest_key_def representsD seat_of_def)
next
  case (Some i)
  then obtain e where e: "lg_decs L i = Some e" using ledger_invD(8) [OF I] unfolding inv_latest_def by blast
  then have "is_id i" using ledger_wf(4) [OF I e] ledger_ids(3) [OF I e] by (auto simp: wf_decision_def)
  then show ?thesis
    using Some e read_ledger_decision [OF R I, of "fail_as CORRUPT_STATE 500 True" i e]
    by (simp add: get_latest_decision_def decision_latest_key_def representsD [OF R] seat_of_def decision_pointer_def assert_eval)
qed

lemma review_counter_ledger:
  assumes R: "represents w L" and I: "ledger_inv sha L" and p: "lg_props L (pr_id p) = Some p"
  shows "read_review_counter w p = Ok (pr_counter p)"
  using ledger_wf(3) [OF I p] p by (simp add: read_review_counter_def representsD [OF R] wf_proposal_def assert_eval)

lemma increment_epoch_ledger:
  assumes R: "represents (view t) L" and I: "ledger_inv sha L" and c: "lg_config L = Some c"
  shows "increment_epoch t = (if lg_epoch L < max_safe
     then Ok (lg_epoch L + 1, put key_eligibility_epoch (JNum (NInt (lg_epoch L + 1))) t)
     else fail_as STATE_LIMIT 409 False)"
  using ledger_invD(12) [OF I] c by (simp add: increment_epoch_def representsD [OF R] inv_epoch_def assert_eval)

lemma active_pointer_cleared: "present w (key_active_slot s) = Some no_agreement \<Longrightarrow> get_active_pointer w s = Ok None"
  by (simp add: get_active_pointer_def no_agreement_def obj_def assert_record_def assert_keys_def own_keys_def
      has_own_def fld_def)

lemma active_pointer_absent: "present w (key_active_slot s) = None \<Longrightarrow> get_active_pointer w s = Ok None"
  by (simp add: get_active_pointer_def)

lemma active_pointer_set:
  "present w (key_active_slot s) = Some (points_to i) \<Longrightarrow> is_id i \<Longrightarrow> get_active_pointer w s = Ok (Some i)"
  by (simp add: get_active_pointer_def points_to_def obj_def assert_record_def assert_keys_def own_keys_def
      has_own_def fld_def)

lemma get_active_agreement_ledger:
  assumes R: "represents w L" and I: "ledger_inv sha L" and s: "wf_slot s"
  shows "get_active_agreement w s = Ok (Option.bind (lg_active L s) (lg_agrs L))"
proof (cases "lg_active L s")
  case None
  then have "present w (key_active_slot s) = None \<or> present w (key_active_slot s) = Some no_agreement"
    using representsD(10) [OF R s] by (simp add: slot_entry_def)
  then show ?thesis
    using None by (auto simp: get_active_agreement_def active_pointer_cleared active_pointer_absent)
next
  case (Some i)
  then obtain a where a: "lg_agrs L i = Some a" "ag_slot a = s"
    using ledger_invD(10) [OF I] active_agreement by blast
  have "is_id i" using ledger_wf(5) [OF I a(1)] ledger_ids(4) [OF I a(1)] by (auto simp: wf_agreement_def)
  moreover have "present w (key_active_slot s) = Some (points_to i)"
    using representsD(10) [OF R s] Some by (simp add: slot_entry_def)
  ultimately show ?thesis
    using Some a ledger_wf(5) [OF I a(1)]
    by (auto simp: get_active_agreement_def active_pointer_set read_agreement_def
        representsD(9) [OF R] agreement.dec_enc)
qed

end
