(* ===== verification/Resolution.thy ===== *)
theory Resolution
  imports Represent
begin

text \<open>
  What \<open>resolveAt\<close> means. On any state: a resolution is justified by a finite tree of agreements, one
  per required dependency, each in force and pinned to the revision its dependant names. On a state
  that represents a ledger: the records of a slot resolve exactly when the slot has an active
  agreement, and no corruption is ever reported.
\<close>

section \<open>Justified resolutions\<close>

inductive accepted :: "sha_fn \<Rightarrow> world \<Rightarrow> config \<Rightarrow> slot \<Rightarrow> agreement \<Rightarrow> revision \<Rightarrow> bool" for sha w c where
  "wf_slot s \<Longrightarrow> channel_id s = cfg_channel c \<Longrightarrow> resolve_local sha w c s = Ok (Eligible a r) \<Longrightarrow>
   (\<And>d. d \<in> set (pl_dependencies (rv_payload r)) \<Longrightarrow> dep_enforcement d = RequiresActive \<Longrightarrow>
      \<exists>a' r'. accepted sha w c (dep_slot d) a' r' \<and> rv_digest r' = dep_digest d) \<Longrightarrow>
   accepted sha w c s a r"

inductive_cases acceptedE: "accepted sha w c s a r"

lemma accepted_local: "accepted sha w c s a r \<Longrightarrow> resolve_local sha w c s = Ok (Eligible a r)"
  by (erule acceptedE)

lemma accepted_dependency:
  "accepted sha w c s a r \<Longrightarrow> d \<in> set (pl_dependencies (rv_payload r)) \<Longrightarrow> dep_enforcement d = RequiresActive \<Longrightarrow>
   \<exists>a' r'. accepted sha w c (dep_slot d) a' r' \<and> rv_digest r' = dep_digest d"
  by (erule acceptedE) blast

lemma accepted_unique: "accepted sha w c s a r \<Longrightarrow> accepted sha w c s a' r' \<Longrightarrow> a' = a \<and> r' = r"
  by (auto dest!: accepted_local)

text \<open>The dependency loop succeeds only if every required dependency resolves to its pinned revision.\<close>

lemma resolve_dependencies_sound:
  "resolve_dependencies f ds b = Ok (None, b') \<Longrightarrow> d \<in> set ds \<Longrightarrow> dep_enforcement d = RequiresActive \<Longrightarrow>
   \<exists>a r b1 b2. f (dep_slot d) b1 = Ok (Eligible a r, b2) \<and> rv_digest r = dep_digest d"
proof (induction ds arbitrary: b)
  case (Cons x ds)
  show ?case
  proof (cases "dep_enforcement x = RequiresActive")
    case True
    then obtain res b1 where f: "f (dep_slot x) b = Ok (res, b1)" using Cons.prems(1) by auto
    then obtain a r where res: "res = Eligible a r" "rv_digest r = dep_digest x"
      and rest: "resolve_dependencies f ds b1 = Ok (None, b')"
      using Cons.prems(1) True by (cases res) (auto split: if_splits)
    show ?thesis using Cons.IH [OF rest] Cons.prems f res by auto
  qed (use Cons in auto)
qed simp

lemma resolve_internal_Eligible:
  assumes "resolve_internal sha w c s seen depth b = Ok (Eligible a r, b')"
  shows "wf_slot s \<and> channel_id s = cfg_channel c \<and> depth \<le> 8 \<and> slot_key s \<notin> seen \<and> Suc b \<le> 256 \<and>
    resolve_local sha w c s = Ok (Eligible a r) \<and>
    resolve_dependencies (\<lambda>s' b'. resolve_internal sha w c s' (insert (slot_key s) seen) (Suc depth) b')
      (pl_dependencies (rv_payload r)) (Suc b) = Ok (None, b')"
proof (cases "resolve_local sha w c s")
  case (Ok own)
  then show ?thesis using assms unfolding resolve_internal.simps [of sha w c s seen depth b]
    by (cases own) (auto split: if_splits option.splits)
qed (use assms in \<open>simp add: resolve_internal.simps [of sha w c s seen depth b] fail_def split: if_splits\<close>)

lemma resolve_internal_sound:
  "resolve_internal sha w c s seen depth b = Ok (Eligible a r, b') \<Longrightarrow> accepted sha w c s a r"
proof (induction sha w c s seen depth b arbitrary: a r b' rule: resolve_internal.induct)
  case (1 sha w c s seen depth b)
  then have s: "wf_slot s" "channel_id s = cfg_channel c" "depth \<le> 8" "slot_key s \<notin> seen" "Suc b \<le> 256"
    and own: "resolve_local sha w c s = Ok (Eligible a r)"
    and deps: "resolve_dependencies (\<lambda>s' b'. resolve_internal sha w c s' (insert (slot_key s) seen) (Suc depth) b')
      (pl_dependencies (rv_payload r)) (Suc b) = Ok (None, b')"
    using resolve_internal_Eligible by blast+
  show ?case
  proof (rule accepted.intros [OF s(1,2) own])
    fix d assume "d \<in> set (pl_dependencies (rv_payload r))" "dep_enforcement d = RequiresActive"
    then obtain a' r' b1 b2 where "resolve_internal sha w c (dep_slot d) (insert (slot_key s) seen) (Suc depth) b1 = Ok (Eligible a' r', b2)"
        and "rv_digest r' = dep_digest d"
      using resolve_dependencies_sound [OF deps] by blast
    then show "\<exists>a' r'. accepted sha w c (dep_slot d) a' r' \<and> rv_digest r' = dep_digest d"
      using 1(1) [OF _ _ _ _ _ own refl] s by (metis not_less)
  qed
qed

lemma resolve_at_sound:
  "resolve_at sha w s seen depth b = Ok (Eligible a r, b') \<Longrightarrow>
   \<exists>v c. present w key_config = Some v \<and> validate_config v = Ok c \<and> cfg_serving c \<and> accepted sha w c s a r"
  by (auto simp: resolve_at_def split: if_splits option.splits result.splits dest: resolve_internal_sound)

section \<open>Approvals of a represented ledger\<close>

lemma props_ok: "inv_props L \<Longrightarrow> lg_props L i = Some p \<Longrightarrow> lg_config L = Some c \<Longrightarrow>
    wf_proposal p \<and> pr_id p = i \<and> proposal_ok L c p"
  by (auto simp: inv_props_def)

lemma find_approval_next:
  assumes "y \<notin> set selected" and "present w (key_decision y) = Some (enc_decision d)" and "wf_decision d"
    and "de_kind d = Approve" and "de_role d = role" and "de_org d = rep_org r" and "de_actor d = rep_actor r"
  shows "set xs \<subseteq> set selected \<Longrightarrow> find_approval w role r selected (xs @ y # ys) = Ok (Some (y, d))"
  by (induction xs) (simp_all add: assms decision.dec_enc)

lemma select_approvals:
  assumes R: "represents w L" and I: "ledger_inv sha L"
  shows "list_all2 (cites L pol a) roles ys \<Longrightarrow> ag_approvals a = xs @ ys \<Longrightarrow> distinct (xs @ ys) \<Longrightarrow>
    \<exists>ds'. foldR (select_approval w a pol) roles (xs, ds) = Ok (xs @ ys, ds')"
proof (induction roles arbitrary: xs ys ds)
  case (Cons role roles)
  then obtain y zs where ys: "ys = y # zs" and y: "cites L pol a role y" and rest: "list_all2 (cites L pol a) roles zs"
    by (auto simp: list_all2_Cons1)
  from y obtain r d where r: "representative_of pol role = Some r" and d: "lg_decs L y = Some d" "de_kind d = Approve"
      "de_role d = role" "de_org d = rep_org r" "de_actor d = rep_actor r" "approval_binds a d"
    by (auto simp: cites_def)
  have "find_approval w role r xs (xs @ y # zs) = Ok (Some (y, d))"
    by (rule find_approval_next) (use Cons.prems ys d representsD(7) [OF R] ledger_wf(4) [OF I] in auto)
  then have "select_approval w a pol role (xs, ds) = Ok (xs @ [y], ds @ [d])"
    using r d Cons.prems(2) ys by (simp add: select_approval_def)
  then show ?case using Cons.IH [OF rest, of "xs @ [y]" "ds @ [d]"] Cons.prems ys by simp
qed simp

lemma approvals_of_ledger:
  assumes R: "represents w L" and I: "ledger_inv sha L" and a: "lg_agrs L i = Some a"
  shows "\<exists>ds. validate_agreement_approvals w a = Ok ds"
proof -
  obtain c where c: "lg_config L = Some c" and ok: "agreement_ok L c a" and wf: "wf_agreement a"
    using ledger_invD(9) [OF I] a by (auto simp: inv_agrs_def)
  from ok obtain pol where e: "ag_epoch a = cfg_epoch c" "ag_binding a = cfg_binding c"
    and pol: "policy_of c (ag_policy_id a) (ag_policy_version a) = Some pol" "pol_slot pol = ag_slot a"
    and cited: "list_all2 (cites L pol a) (pol_roles pol) (ag_approvals a)"
    unfolding agreement_ok_def by blast
  have "approvals_prelude w a = Ok (a, c)"
    using representsD(1) [OF R] c wf ledger_wf(1) [OF I c]
    by (simp add: approvals_prelude_def agreement.dec_enc config.dec_enc)
  moreover have "distinct (ag_approvals a)" using wf unique_ids by (auto simp: wf_agreement_def)
  then obtain ds where "foldR (select_approval w a pol) (pol_roles pol) ([], []) = Ok (ag_approvals a, ds)"
    using select_approvals [OF R I cited, of "[]"] by auto
  ultimately show ?thesis
    using e pol list_all2_lengthD [OF cited] by (simp add: validate_agreement_approvals_def)
qed

section \<open>The local resolution of a represented ledger\<close>

lemma resolve_local_none:
  assumes R: "represents w L" and s: "wf_slot s" and none: "lg_active L s = None"
  shows "resolve_local sha w c s = Ok (Ineligible ''NO_ACTIVE_AGREEMENT'')"
  using representsD(10) [OF R s] none
  by (auto simp: resolve_local_def read_pointer_def slot_entry_def no_agreement_def obj_def fld_def)

lemma resolve_local_active:
  assumes R: "represents w L" and I: "ledger_inv sha L" and s: "wf_slot s" and c: "lg_config L = Some c"
    and act: "lg_active L s = Some i"
  shows "\<exists>a r. resolve_local sha w c s = Ok (Eligible a r) \<and> lg_agrs L i = Some a \<and> ag_status a = Active \<and>
    ag_slot a = s \<and> lg_revs L (ag_digest a) = Some r \<and> rv_digest r = ag_digest a \<and> rv_slot r = s"
proof -
  obtain a where a: "lg_agrs L i = Some a" "ag_status a = Active" "ag_slot a = s"
    using ledger_invD(10) [OF I] act active_agreement by blast
  note ok = agrs_ok [OF ledger_invD(9) [OF I] a(1) c]
  then obtain p pol where e: "ag_epoch a = cfg_epoch c" "ag_binding a = cfg_binding c"
    and p: "lg_props L (ag_proposal a) = Some p" "pr_digest p = ag_digest a" "pr_slot p = ag_slot a"
    and pol: "policy_of c (ag_policy_id a) (ag_policy_version a) = Some pol" "pol_slot pol = ag_slot a"
    unfolding agreement_ok_def by blast
  obtain r where r: "lg_revs L (ag_digest a) = Some r" "rv_slot r = s"
    using props_ok [OF ledger_invD(6) [OF I] p(1) c] p a unfolding proposal_ok_def by auto
  have rd: "rv_digest r = ag_digest a" using ledger_ids(1) [OF I r(1)] .
  obtain ds where ds: "validate_agreement_approvals w a = Ok ds" using approvals_of_ledger [OF R I a(1)] by blast
  have i: "is_id i" using ok by (auto simp: wf_agreement_def)
  have "read_pointer w s = PointsTo i"
    using representsD(10) [OF R s] act by (simp add: slot_entry_def read_pointer_def points_to_def obj_def fld_def)
  moreover have "read_agreement w i = Ok (Some (enc_agreement a))"
    using i a representsD(9) [OF R] by (auto simp: read_agreement_def)
  moreover have "present w (key_revision (ag_digest a)) = Some (enc_revision r)"
    using r representsD(3) [OF R] by simp
  ultimately have "resolve_local sha w c s = Ok (Eligible a r)"
    using ok a e pol ds r rd ledger_wf(2) [OF I r(1)]
    by (simp add: resolve_local_def agreement.dec_enc revision.dec_enc)
  then show ?thesis using a r rd by blast
qed

text \<open>A slot that resolves is in force with the revision it resolves to.\<close>

lemma resolve_local_in_force:
  assumes R: "represents w L" and I: "ledger_inv sha L" and s: "wf_slot s" and c: "lg_config L = Some c"
    and res: "resolve_local sha w c s = Ok (Eligible a r)"
  shows "in_force L s (rv_digest r)"
proof (cases "lg_active L s")
  case None
  then show ?thesis using resolve_local_none [OF R s] res by simp
next
  case (Some i)
  then show ?thesis using resolve_local_active [OF R I s c Some] res by (auto simp: in_force_def)
qed

lemma resolve_at_in_force:
  assumes R: "represents w L" and I: "ledger_inv sha L" and res: "resolve_at sha w s seen depth b = Ok (Eligible a r, b')"
  shows "wf_slot s \<and> in_force L s (rv_digest r)"
proof -
  obtain v c where v: "present w key_config = Some v" "validate_config v = Ok c" and acc: "accepted sha w c s a r"
    using resolve_at_sound [OF res] by blast
  have c: "lg_config L = Some c"
    using v read_ledger_config [OF R I, of c] by (simp add: read_config_def)
  show ?thesis using acc resolve_local_in_force [OF R I _ c] by (auto elim: acceptedE)
qed

end
