(* ===== verification/Simulation.thy ===== *)
theory Simulation
  imports Resolution
begin

text \<open>
  The handlers of the program implement the transitions of the abstract ledger: whenever a handler
  succeeds on a store that represents a ledger, the store it leaves represents a ledger that is one
  step away.
\<close>

section \<open>What the checks establish\<close>

lemma foldR_each: "foldR f xs s = Ok s' \<Longrightarrow> x \<in> set xs \<Longrightarrow> \<exists>s1 s2. f x s1 = Ok s2"
  by (induction xs arbitrary: s) auto

lemma wf_dependency_of: "wf_revision sha r \<Longrightarrow> d \<in> set (pl_dependencies (rv_payload r)) \<Longrightarrow> wf_slot (dep_slot d)"
  by (auto simp: wf_revision_def wf_payload_def list_all_iff wf_dependency_def)

lemma wf_rv_slot: "wf_revision sha r \<Longrightarrow> wf_slot (rv_slot r)"
  by (simp add: wf_revision_def wf_payload_def)

lemma wf_pol_slot: "wf_policy p \<Longrightarrow> wf_slot (pol_slot p)"
  by (simp add: wf_policy_def)

lemma validate_publication_wf: "validate_publication sha input = Ok (r, ver, epoch) \<Longrightarrow> wf_revision sha r"
  by (auto simp: validate_publication_def Let_def dest: revision.dec_wf)

lemma walk_root:
  assumes "validate_published_dependency_graph sha w r = Ok ()" and "d \<in> set (pl_dependencies (rv_payload r))"
  shows "\<exists>target. dependency_target sha w d = Ok target"
proof -
  obtain seen where "walk sha w r 0 {} [] = Ok seen"
    using assms(1) by (auto simp: validate_published_dependency_graph_def)
  then have "foldR (\<lambda>d s. rbind (dependency_target sha w d) (\<lambda>target. walk sha w target (Suc 0) (insert (rv_digest r) {}) s))
      (pl_dependencies (rv_payload r)) ([] @ [rv_digest r]) = Ok seen"
    by (subst (asm) walk.simps) simp
  then show ?thesis using foldR_each [OF _ assms(2)] by fastforce
qed

lemma dependency_target_ledger:
  assumes R: "represents w L" and I: "ledger_inv sha L" and d: "wf_slot (dep_slot d)"
    and t: "dependency_target sha w d = Ok target"
  shows "lg_revs L (dep_digest d) = Some target \<and> rv_slot target = dep_slot d"
proof -
  have "read_required (validate_revision sha) (fail_as DEPENDENCY_NOT_FOUND 409 False) w (key_revision (dep_digest d)) = Ok target"
    and slot: "same_slot (rv_slot target) (dep_slot d)"
    using t by (auto simp: dependency_target_def split: if_splits)
  then have "lg_revs L (dep_digest d) = Some target" using read_ledger [OF R I] by simp
  then show ?thesis using slot d ledger_wf(2) [OF I] wf_rv_slot same_slot_iff by blast
qed

lemma parent_check_ledger:
  assumes R: "represents w L" and I: "ledger_inv sha L" and r: "wf_slot (rv_slot r)"
    and p: "parent_check sha w r x = Ok ()"
  shows "\<exists>q. lg_revs L x = Some q \<and> rv_slot q = rv_slot r"
proof -
  obtain q where "read_required (validate_revision sha) (fail_as PARENT_NOT_FOUND 409 False) w (key_revision x) = Ok q"
    and slot: "same_slot (rv_slot q) (rv_slot r)"
    using p by (auto simp: parent_check_def)
  then have "lg_revs L x = Some q" using read_ledger [OF R I] by simp
  then show ?thesis using slot r ledger_wf(2) [OF I] wf_rv_slot same_slot_iff by blast
qed

lemma publish_check_new:
  assumes R: "represents w L" and I: "ledger_inv sha L" and c: "lg_config L = Some c"
    and check: "publish_check sha ctx c input w = Ok (r, False)"
  shows "ledger_step sha ctx L (publish r L) \<and> wf_revision sha r"
proof -
  obtain ident ver epoch where ident: "configured_identity c (tx_actor ctx) = Ok ident"
    and pub: "validate_publication sha input = Ok (r, ver, epoch)"
    and ok: "channel_id (rv_slot r) = cfg_channel c" "cfg_serving c"
      "js ''*'' \<in> set (ident_contexts ident) \<or> context_id (rv_slot r) \<in> set (ident_contexts ident)"
    and fresh: "present w (key_revision (rv_digest r)) = None"
    and id_: "read_revision_by_id sha w (pl_revision_id (rv_payload r)) = Ok None"
    and parents: "\<forall>x \<in> set (pl_parents (rv_payload r)). parent_check sha w r x = Ok ()"
    and graph: "validate_published_dependency_graph sha w r = Ok ()"
    using check by (auto simp: publish_check_def split: option.splits)
  have wf: "wf_revision sha r" by (rule validate_publication_wf [OF pub])
  have ids: "lg_ids L (pl_revision_id (rv_payload r)) = None"
  proof (cases "lg_ids L (pl_revision_id (rv_payload r))")
    case (Some i)
    then obtain q where "lg_revs L i = Some q" using ledger_invD(3) [OF I] unfolding inv_ids_def by blast
    then show ?thesis using Some id_ read_revision_by_id_ledger [OF R I, of "pl_revision_id (rv_payload r)"] by simp
  qed
  have "ledger_step sha ctx L (publish r L)"
  proof (rule ledger_step.published [OF c ok(2) ident ok(3) wf ok(1) _ ids])
    show "lg_revs L (rv_digest r) = None" using fresh present_none(1) [OF R] by simp
    show "\<And>x. x \<in> set (pl_parents (rv_payload r)) \<Longrightarrow> \<exists>q. lg_revs L x = Some q \<and> rv_slot q = rv_slot r"
      using parents parent_check_ledger [OF R I wf_rv_slot [OF wf]] by blast
    show "\<And>x. x \<in> set (pl_dependencies (rv_payload r)) \<Longrightarrow> \<exists>q. lg_revs L (dep_digest x) = Some q \<and> rv_slot q = dep_slot x"
      using walk_root [OF graph] dependency_target_ledger [OF R I wf_dependency_of [OF wf]] by blast
  qed
  then show ?thesis using wf by blast
qed

section \<open>Publishing\<close>

lemma represents_publish:
  "represents w L \<Longrightarrow>
   represents (w(key_revision (rv_digest r) \<mapsto> enc_revision r,
     key_revision_id (pl_revision_id (rv_payload r)) \<mapsto> digest_pointer (rv_digest r))) (publish r L)"
  by (simp add: represents_def present_put key_defs publish_def)

lemma execute_publish_simulates:
  assumes R: "represents (view t) L" and I: "ledger_inv sha L" and c: "lg_config L = Some c"
    and ex: "execute_publish sha ctx c input t = Ok (res, t')"
  shows "\<exists>L'. ledger_step sha ctx L L' \<and> represents (view t') L'"
proof -
  obtain r already where check: "publish_check sha ctx c input (view t) = Ok (r, already)"
    using ex by (auto simp: execute_publish_def)
  show ?thesis
  proof (cases already)
    case True
    then show ?thesis using ex check R ledger_step.idle by (auto simp: execute_publish_def)
  next
    case False
    have "publish_check sha ctx c input (view t) = Ok (r, False)" using check False by simp
    note step = publish_check_new [OF R I c this]
    have "view t' = (view t)(key_revision (rv_digest r) \<mapsto> enc_revision r,
        key_revision_id (pl_revision_id (rv_payload r)) \<mapsto> digest_pointer (rv_digest r))"
      using ex check False by (auto simp: execute_publish_def digest_pointer_def)
    then show ?thesis using step represents_publish [OF R] by auto
  qed
qed

section \<open>Proposing\<close>

lemma represents_propose:
  assumes "represents w L" and "lg_config L = Some c" and "policy_of c (pol_id pol) (pol_version pol) = Some pol"
    and "pr_counter p = 0"
  shows "represents (w(key_proposal (pr_id p) \<mapsto> enc_proposal p, key_review_counter (pr_id p) \<mapsto> JNum (NInt 0),
     key_policy (pol_id pol) (pol_version pol) \<mapsto> enc_policy pol)) (add_proposal p L)"
  using assms by (simp add: represents_def present_put key_defs add_proposal_def)

lemma propose_check_ledger:
  assumes R: "represents w L" and I: "ledger_inv sha L" and c: "lg_config L = Some c"
    and check: "propose_check sha ctx c input w = Ok (pid, r, p)"
  shows "\<exists>ident digest i v. configured_identity c (tx_actor ctx) = Ok ident \<and> ident_can_propose ident \<and> is_id pid \<and>
     lg_props L pid = None \<and> lg_revs L digest = Some r \<and> policy_of c i v = Some p \<and> pol_slot p = rv_slot r"
proof -
  obtain ident digest i v where ident: "configured_identity c (tx_actor ctx) = Ok ident" "ident_can_propose ident"
    and id_: "is_id pid"
    and rev: "read_required (validate_revision sha) (fail_as REVISION_NOT_FOUND 404 False) w (key_revision digest) = Ok r"
    and pol: "policy_for c i v = Ok p" and slot: "same_slot (pol_slot p) (rv_slot r)"
    and fresh: "present w (key_proposal pid) = None"
    using check by (auto simp: propose_check_def assert_policy_matches_revision_def split: option.splits if_splits)
  have r: "lg_revs L digest = Some r" using rev read_ledger [OF R I] by simp
  have p: "policy_of c i v = Some p" using pol by (auto simp: policy_for_def split: option.splits)
  have "wf_slot (pol_slot p)" using policy_of_wf [OF ledger_wf(1) [OF I c] p] wf_pol_slot by blast
  then have "pol_slot p = rv_slot r" using slot same_slot_iff wf_rv_slot ledger_wf(2) [OF I r] by blast
  then show ?thesis using ident id_ r p fresh present_none(2) [OF R] by blast
qed

lemma execute_propose_simulates:
  assumes R: "represents (view t) L" and I: "ledger_inv sha L" and c: "lg_config L = Some c" and ctx: "wf_ctx ctx"
    and ex: "execute_propose sha ctx c input t = Ok (res, t')"
  shows "\<exists>L'. ledger_step sha ctx L L' \<and> represents (view t') L'"
proof -
  obtain pid r p where check: "propose_check sha ctx c input (view t) = Ok (pid, r, p)"
    using ex by (auto simp: execute_propose_def)
  then obtain ident digest i v where facts: "configured_identity c (tx_actor ctx) = Ok ident" "ident_can_propose ident" "is_id pid"
      "lg_props L pid = None" "lg_revs L digest = Some r" "policy_of c i v = Some p" "pol_slot p = rv_slot r"
    using propose_check_ledger [OF R I c] by blast
  let ?p = "new_proposal ctx c pid r p"
  have "view t' = (view t)(key_proposal (pr_id ?p) \<mapsto> enc_proposal ?p, key_review_counter (pr_id ?p) \<mapsto> JNum (NInt 0),
      key_policy (pol_id p) (pol_version p) \<mapsto> enc_policy p)"
    using ex check by (auto simp: execute_propose_def new_proposal_def)
  moreover have "policy_of c (pol_id p) (pol_version p) = Some p" using facts policy_of_Some by blast
  ultimately have "represents (view t') (add_proposal ?p L)"
    using represents_propose [OF R c, of p ?p] by (simp add: new_proposal_def)
  moreover have "ledger_step sha ctx L (add_proposal ?p L)"
    by (rule ledger_step.proposed [OF c facts(1,2) ctx facts(3-7)])
  ultimately show ?thesis by blast
qed

section \<open>Deciding\<close>

lemma decide_check_ledger:
  assumes R: "represents w L" and I: "ledger_inv sha L" and c: "lg_config L = Some c"
    and check: "decide_check sha ctx c input w = Ok (d, p, n)"
  shows "\<exists>pol rep. kind (tx_actor ctx) = Human \<and> member c (tx_actor ctx) \<and> wf_decision d \<and>
     lg_props L (de_proposal d) = Some p \<and> pr_digest p = de_digest d \<and> pr_slot p = de_slot d \<and>
     decision_binds_proposal d p \<and> policy_of c (de_policy_id d) (de_policy_version d) = Some pol \<and>
     decision_word (de_kind d) \<in> set (pol_allowed pol) \<and> representative_of pol (de_role d) = Some rep \<and>
     names_actor rep (tx_actor ctx) \<and> de_org d = org_id (tx_actor ctx) \<and> de_actor d = actor_id (tx_actor ctx) \<and>
     lg_decs L (de_id d) = None \<and> (de_kind d = Retract \<longrightarrow> retraction_ok L d) \<and> pr_counter p < max_safe \<and>
     n = pr_counter p + 1"
proof -
  obtain u r pol latest m where human: "require_human ctx c = Ok u"
    and d: "validate_decision (fld input ''decision'') = Ok d"
    and p: "read_required validate_proposal (fail_as PROPOSAL_NOT_FOUND 404 False) w (key_proposal (de_proposal d)) = Ok p"
    and bind: "pr_digest p = de_digest d" "same_slot (pr_slot p) (de_slot d)" "decision_binds_proposal d p"
    and pol: "policy_for c (de_policy_id d) (de_policy_version d) = Ok pol"
    and decider: "decider_check ctx pol d = Ok ()"
    and fresh: "present w (key_decision (de_id d)) = None"
    and latest: "get_latest_decision w d = Ok latest"
    and retract: "(if de_kind d = Retract then retract_check w d latest else Ok ()) = Ok ()"
    and m: "read_review_counter w p = Ok m" "m + 1 \<le> max_safe" "n = m + 1"
    using check unfolding decide_check_def by (fastforce split: if_splits)
  have wf: "wf_decision d" by (rule decision.dec_wf [OF d])
  have p': "lg_props L (de_proposal d) = Some p" using p read_ledger_proposal [OF R I] by simp
  have pid: "pr_id p = de_proposal d" "wf_proposal p" using ledger_ids(2) [OF I p'] ledger_wf(3) [OF I p'] .
  have "pr_slot p = de_slot d"
    using bind(2) pid wf same_slot_iff by (auto simp: wf_proposal_def wf_decision_def)
  moreover have "m = pr_counter p" using m(1) review_counter_ledger [OF R I] p' pid by simp
  moreover have "kind (tx_actor ctx) = Human" "member c (tx_actor ctx)"
    using human by (auto simp: require_human_def member_def split: if_splits)
  moreover obtain rep where "representative_of pol (de_role d) = Some rep" "names_actor rep (tx_actor ctx)"
      "decision_word (de_kind d) \<in> set (pol_allowed pol)" "de_org d = org_id (tx_actor ctx)" "de_actor d = actor_id (tx_actor ctx)"
    using decider by (auto simp: decider_check_def names_actor_def split: option.splits)
  moreover have "policy_of c (de_policy_id d) (de_policy_version d) = Some pol"
    using pol by (auto simp: policy_for_def split: option.splits)
  moreover have "lg_decs L (de_id d) = None" using fresh present_none(3) [OF R] by simp
  moreover have "retraction_ok L d" if k: "de_kind d = Retract"
  proof -
    obtain i where i: "de_retracts d = Some i" using wf k by (auto simp: wf_decision_def split: option.splits)
    obtain target where "read_required validate_decision (fail_as RETRACT_TARGET_NOT_FOUND 409 False) w (key_decision i) = Ok target"
      and t: "de_org target = de_org d" "de_actor target = de_actor d" "de_proposal target = de_proposal d"
        "de_role target = de_role d" "de_kind target \<noteq> Retract"
      and l: "\<exists>l. latest = Some l \<and> de_id l = de_id target"
      using retract k i by (auto simp: retract_check_def split: option.splits)
    then have "lg_decs L i = Some target" using read_ledger_decision [OF R I] by simp
    moreover have "lg_latest L (seat_of d) = Some (de_id target)"
    proof -
      obtain l j where "lg_latest L (seat_of d) = Some j" "lg_decs L j = Some l" "de_id l = de_id target"
        using latest l get_latest_decision_ledger [OF R I, of d] by (auto simp: bind_eq_Some_conv)
      then show ?thesis using ledger_ids(3) [OF I] by fastforce
    qed
    ultimately show ?thesis using i t by (auto simp: retraction_ok_def)
  qed
  ultimately show ?thesis using wf p' bind m by auto
qed

lemma represents_decision:
  assumes "represents w L"
  shows "represents (w(key_decision (de_id d) \<mapsto> enc_decision d, decision_latest_key d \<mapsto> decision_pointer (de_id d),
     key_proposal (pr_id p) \<mapsto> enc_proposal (p\<lparr>pr_counter := pr_counter p + 1\<rparr>),
     key_review_counter (pr_id p) \<mapsto> JNum (NInt (pr_counter p + 1)))) (add_decision d p L)"
  using assms by (simp add: represents_def present_put key_defs decision_latest_key_def seat_of_def)

lemma represents_end:
  assumes "represents w L" and "lg_config L \<noteq> None" and "wf_slot (ag_slot a)"
  shows "represents (w(key_agreement (ag_id a) \<mapsto> enc_agreement (change_status ctx st x a),
     key_active_slot (ag_slot a) \<mapsto> no_agreement, key_eligibility_epoch \<mapsto> JNum (NInt (lg_epoch L + 1))))
     (end_agreement ctx st x a L)"
  using assms by (auto simp: represents_def present_put key_defs slot_entry_def slot_key_eq_iff split: option.splits)

text \<open>Reading the active agreement looks at the slot's entry and at agreements only.\<close>

lemma get_active_agreement_frame:
  "(\<And>s'. k \<noteq> key_active_slot s') \<Longrightarrow> (\<And>i. k \<noteq> key_agreement i) \<Longrightarrow>
   get_active_agreement (w(k \<mapsto> v)) s = get_active_agreement w s"
proof -
  assume k: "\<And>s'. k \<noteq> key_active_slot s'" "\<And>i. k \<noteq> key_agreement i"
  have "present (w(k \<mapsto> v)) (key_active_slot s) = present w (key_active_slot s)"
    using k(1) [of s] by (simp add: present_def)
  then have "get_active_pointer (w(k \<mapsto> v)) s = get_active_pointer w s" by (simp only: get_active_pointer_def)
  moreover have "read_agreement (w(k \<mapsto> v)) i = read_agreement w i" for i
    using k(2) [of i] by (simp add: read_agreement_def present_def)
  ultimately show ?thesis by (simp only: get_active_agreement_def)
qed

lemma increment_epoch_at:
  assumes "present (view t) key_eligibility_epoch = Some (JNum (NInt e))" and "0 \<le> e" and "e \<le> max_safe"
  shows "increment_epoch t = Ok (n, t') \<longleftrightarrow> e < max_safe \<and> n = e + 1 \<and> t' = put key_eligibility_epoch (JNum (NInt (e + 1))) t"
  using assms by (auto simp: increment_epoch_def assert_eval)

lemma execute_decide_simulates:
  assumes R: "represents (view t) L" and I: "ledger_inv sha L" and c: "lg_config L = Some c" and ctx: "wf_ctx ctx"
    and ex: "execute_decide sha ctx c input t = Ok (res, t')"
  shows "\<exists>L'. ledger_step sha ctx L L' \<and> represents (view t') L'"
proof -
  obtain d p n where check: "decide_check sha ctx c input (view t) = Ok (d, p, n)"
    using ex by (auto simp: execute_decide_def)
  obtain pol rep where facts: "kind (tx_actor ctx) = Human" "member c (tx_actor ctx)" "wf_decision d"
      "lg_props L (de_proposal d) = Some p" "pr_digest p = de_digest d" "pr_slot p = de_slot d"
      "decision_binds_proposal d p" "policy_of c (de_policy_id d) (de_policy_version d) = Some pol"
      "decision_word (de_kind d) \<in> set (pol_allowed pol)" "representative_of pol (de_role d) = Some rep"
      "names_actor rep (tx_actor ctx)" "de_org d = org_id (tx_actor ctx)" "de_actor d = actor_id (tx_actor ctx)"
      "lg_decs L (de_id d) = None" "de_kind d = Retract \<longrightarrow> retraction_ok L d" "pr_counter p < max_safe"
    and n: "n = pr_counter p + 1"
    using decide_check_ledger [OF R I c check] by blast
  have slot: "wf_slot (de_slot d)" using facts(3) by (simp add: wf_decision_def)
  obtain t1 suspended where t1: "record_decision d p n t = Ok t1"
    and susp: "(if de_kind d \<noteq> Approve
       then suspend_active_agreement ctx (pr_slot p) (suspension_reason (de_kind d)) (Some (de_proposal d)) t1
       else Ok (None, t1)) = Ok (suspended, t')"
    using ex check by (auto simp: execute_decide_def)
  have v1: "view t1 = (view t)(key_decision (de_id d) \<mapsto> enc_decision d, decision_latest_key d \<mapsto> decision_pointer (de_id d),
      key_proposal (pr_id p) \<mapsto> enc_proposal (p\<lparr>pr_counter := pr_counter p + 1\<rparr>),
      key_review_counter (pr_id p) \<mapsto> JNum (NInt (pr_counter p + 1)))"
    using t1 n by (auto simp: record_decision_def decision_pointer_def)
  have R1: "represents (view t1) (add_decision d p L)" unfolding v1 by (rule represents_decision [OF R])
  have active: "get_active_agreement (view t1) (de_slot d) = Ok (Option.bind (lg_active L (de_slot d)) (lg_agrs L))"
    unfolding v1 using get_active_agreement_ledger [OF R I slot]
    by (simp add: get_active_agreement_frame key_defs decision_latest_key_def)
  note step = ledger_step.decided [OF c facts(1,2) ctx facts(3-14) _ facts(16)]
  show ?thesis
  proof (cases "struck_by d L")
    case None
    have "view t' = view t1"
    proof (cases "de_kind d = Approve")
      case False
      then show ?thesis
        using susp None active facts(6)
        by (auto simp: suspend_active_agreement_def struck_by_def split: option.splits if_splits)
    qed (use susp in simp)
    moreover have "ledger_step sha ctx L (decide ctx d p L)" by (rule step) (use facts(15) None in auto)
    ultimately show ?thesis using R1 None by (auto simp: decide_def)
  next
    case (Some a)
    then obtain i where a: "lg_active L (de_slot d) = Some i" "lg_agrs L i = Some a" "ag_status a = Active"
        "de_kind d \<noteq> Approve" "ag_proposal a = de_proposal d"
      using struck_by_Some by blast
    have aslot: "ag_slot a = de_slot d"
      using active_agreement [OF ledger_invD(10) [OF I] a(1)] a(2) by auto
    let ?t2 = "put (key_active_slot (de_slot d)) no_agreement (put (key_agreement (ag_id a))
        (enc_agreement (change_status ctx Suspended (suspension_reason (de_kind d)) a)) t1)"
    have inc: "\<exists>n. increment_epoch ?t2 = Ok (n, t')"
      using susp active a facts(6) by (auto simp: suspend_active_agreement_def Let_def)
    have "present (view ?t2) key_eligibility_epoch = Some (JNum (NInt (lg_epoch L)))"
      using representsD(2) [OF R1] c by (simp add: present_put key_defs)
    then have e: "lg_epoch L < max_safe" "t' = put key_eligibility_epoch (JNum (NInt (lg_epoch L + 1))) ?t2"
      using inc increment_epoch_at [of ?t2 "lg_epoch L"] ledger_invD(12) [OF I] by (auto simp: inv_epoch_def)
    have "represents (view t') (decide ctx d p L)"
      using represents_end [OF R1, of a ctx Suspended "suspension_reason (de_kind d)"] c slot aslot Some
      by (simp add: e(2) decide_def)
    moreover have "ledger_step sha ctx L (decide ctx d p L)" by (rule step) (use facts(15) e in auto)
    ultimately show ?thesis by blast
  qed
qed

section \<open>Activating\<close>

lemma collect_approval_ledger:
  assumes R: "represents w L" and I: "ledger_inv sha L" and p: "lg_props L (pr_id p) = Some p"
    and ok: "collect_approval w pol p role ids = Ok ids'"
  shows "\<exists>i. ids' = ids @ [i] \<and> i \<notin> set ids \<and> approves L pol p role i"
proof -
  obtain r where r: "representative_of pol role = Some r" using ok by (auto simp: collect_approval_def split: option.splits)
  let ?seat = "rep_seat p r role"
  obtain i where i: "lg_latest L ?seat = Some i"
    using ok r representsD(8) [OF R, of "pr_id p" "pr_policy_version p" role "rep_org r" "rep_actor r"]
    by (auto simp: collect_approval_def rep_seat_def split: option.splits)
  then have v: "present w (key_latest_decision (pr_id p) (pr_policy_version p) role (rep_org r) (rep_actor r)) = Some (decision_pointer i)"
    using representsD(8) [OF R] by (simp add: rep_seat_def)
  obtain d where d: "lg_decs L i = Some d" using ledger_invD(8) [OF I] i unfolding inv_latest_def by blast
  note did = ledger_ids(3) [OF I d] and wf = ledger_wf(4) [OF I d]
  have "is_id i" using did wf by (auto simp: wf_decision_def)
  then have "key_of_reference (JStr i) = Ok (key_decision i)" by (auto simp: key_of_reference_def)
  moreover have "read_required validate_decision corrupt_state w (key_decision i) = Ok d"
    using read_ledger_decision [OF R I] d by simp
  ultimately have "de_kind d = Approve" "de_org d = rep_org r" "de_actor d = rep_actor r" "de_role d = rep_role r"
      "approval_matches_proposal d p" "de_id d \<notin> set ids" "ids' = ids @ [de_id d]"
    using ok r v by (auto simp: collect_approval_def decision_pointer_def split: if_splits)
  then show ?thesis using r i d did representative_of_Some [OF r] by (auto simp: approves_def)
qed

lemma collect_approvals_ledger:
  assumes R: "represents w L" and I: "ledger_inv sha L" and p: "lg_props L (pr_id p) = Some p"
  shows "foldR (collect_approval w pol p) roles ids = Ok ids' \<Longrightarrow> distinct ids \<Longrightarrow>
    \<exists>new. ids' = ids @ new \<and> distinct ids' \<and> list_all2 (approves L pol p) roles new"
proof (induction roles arbitrary: ids)
  case (Cons role roles)
  then obtain ids1 where one: "collect_approval w pol p role ids = Ok ids1"
    and rest: "foldR (collect_approval w pol p) roles ids1 = Ok ids'" by auto
  obtain i where i: "ids1 = ids @ [i]" "i \<notin> set ids" "approves L pol p role i"
    using collect_approval_ledger [OF R I p one] by blast
  then have "distinct ids1" using Cons.prems by simp
  then obtain new where "ids' = ids1 @ new" "distinct ids'" "list_all2 (approves L pol p) roles new"
    using Cons.IH [OF rest] by blast
  then show ?case using i by (intro exI [of _ "i # new"]) simp
qed simp

lemma dependency_step_inv:
  assumes "dependency_step sha w r 0 seen d st = Ok st'" and "dep_enforcement d = RequiresActive"
  shows "\<not> same_slot (dep_slot d) (rv_slot r) \<and>
    (\<exists>a q b b'. resolve_at sha w (dep_slot d) seen 1 b = Ok (Eligible a q, b') \<and> rv_digest q = dep_digest d)"
proof -
  obtain n b where st: "st = (n, b)" by (cases st)
  then obtain res b' where res: "resolve_at sha w (dep_slot d) seen 1 b = Ok (res, b')"
    using assms by (auto simp: dependency_step_def split: if_splits)
  then show ?thesis using assms st by (cases res) (auto simp: dependency_step_def split: if_splits)
qed

lemma dependency_eligible_ledger:
  assumes R: "represents w L" and I: "ledger_inv sha L" and wf: "wf_revision sha r"
    and ok: "dependency_eligible sha w r 0 {} = Ok ()"
    and x: "x \<in> set (pl_dependencies (rv_payload r))" "dep_enforcement x = RequiresActive"
  shows "dep_slot x \<noteq> rv_slot r \<and> in_force L (dep_slot x) (dep_digest x)"
proof -
  obtain st where "foldR (dependency_step sha w r 0 {slot_key (rv_slot r)}) (pl_dependencies (rv_payload r)) (0, 0) = Ok st"
    using ok by (auto simp: dependency_eligible_def)
  from foldR_each [OF this x(1)]
  obtain s1 s2 where "dependency_step sha w r 0 {slot_key (rv_slot r)} x s1 = Ok s2" by blast
  from dependency_step_inv [OF this x(2)] show ?thesis
    using resolve_at_in_force [OF R I] wf_dependency_of [OF wf x(1)] by (metis same_slot_refl)
qed

lemma activate_check_ledger:
  assumes R: "represents w L" and I: "ledger_inv sha L" and c: "lg_config L = Some c" and ctx: "wf_ctx ctx"
    and check: "activate_check sha ctx c input w = Ok (aid, p, r, pol, current, ids)"
    and e: "lg_epoch L < max_safe"
  shows "ledger_step sha ctx L (activate ctx (new_agreement ctx c aid p r pol ids) p L) \<and>
    pr_slot p = rv_slot r \<and> wf_slot (rv_slot r) \<and> lg_props L (pr_id p) = Some p \<and>
    current = Option.bind (lg_active L (rv_slot r)) (lg_agrs L)"
proof -
  obtain u pid m where human: "require_human ctx c = Ok u" and aid: "is_id aid"
    and p: "read_required validate_proposal (fail_as PROPOSAL_NOT_FOUND 404 False) w (key_proposal pid) = Ok p"
    and opened: "pr_status p = Open"
    and r: "read_required (validate_revision sha) (fail_as REVISION_NOT_FOUND 404 False) w (key_revision (pr_digest p)) = Ok r"
    and pol: "policy_for c (pr_policy_id p) (pr_policy_version p) = Ok pol"
    and slot: "same_slot (pol_slot pol) (rv_slot r)"
    and epochs: "pr_epoch p = cfg_epoch c" "pr_binding p = cfg_binding c"
    and cur: "get_active_agreement w (pr_slot p) = Ok current"
    and other: "case current of None \<Rightarrow> True | Some a \<Rightarrow> ag_digest a \<noteq> rv_digest r"
    and fresh: "present w (key_agreement aid) = None"
    and ids: "foldR (collect_approval w pol p) (pol_roles pol) [] = Ok ids"
    and deps: "dependency_eligible sha w r 0 {} = Ok ()"
    using check by (fastforce simp: activate_check_def assert_policy_matches_revision_def)
  have p': "lg_props L pid = Some p" using p read_ledger_proposal [OF R I] by simp
  have pid: "pr_id p = pid" by (rule ledger_ids(2) [OF I p'])
  have r': "lg_revs L (pr_digest p) = Some r" using r read_ledger [OF R I] by simp
  have wf: "wf_revision sha r" by (rule ledger_wf(2) [OF I r'])
  have pol': "policy_of c (pr_policy_id p) (pr_policy_version p) = Some pol"
    using pol by (auto simp: policy_for_def split: option.splits)
  have "wf_slot (pol_slot pol)" using policy_of_wf [OF ledger_wf(1) [OF I c] pol'] wf_pol_slot by blast
  then have ps: "pol_slot pol = rv_slot r" using slot same_slot_iff wf_rv_slot [OF wf] by blast
  have rs: "pr_slot p = rv_slot r"
    using props_ok [OF ledger_invD(6) [OF I] p' c] r' by (auto simp: proposal_ok_def)
  have cur': "current = Option.bind (lg_active L (rv_slot r)) (lg_agrs L)"
    using cur get_active_agreement_ledger [OF R I wf_rv_slot [OF wf]] rs by simp
  have human': "kind (tx_actor ctx) = Human" "member c (tx_actor ctx)"
    using human by (auto simp: require_human_def member_def split: if_splits)
  have new: "list_all2 (approves L pol p) (pol_roles pol) ids" "distinct ids"
    using collect_approvals_ledger [OF R I _ ids] p' pid by auto
  have "\<not> in_force L (rv_slot r) (rv_digest r)" using other cur' by (auto simp: in_force_def)
  then have "ledger_step sha ctx L (activate ctx (new_agreement ctx c aid p r pol ids) p L)"
    by (intro ledger_step.activated [OF c human' ctx aid _ p' opened r' pol' ps epochs _ new _ e])
      (use fresh present_none(4) [OF R] dependency_eligible_ledger [OF R I wf deps] in auto)
  then show ?thesis using rs wf_rv_slot [OF wf] p' pid cur' by blast
qed

text \<open>The writes of an activation, without and with an agreement that is superseded.\<close>

lemma represents_activate_fresh:
  assumes "represents w L" and "lg_config L \<noteq> None" and "wf_slot (ag_slot a)" and "pr_slot p = ag_slot a"
    and "lg_active L (ag_slot a) = None" and "lg_props L (pr_id p) = Some p"
  shows "represents (w(key_eligibility_epoch \<mapsto> JNum (NInt (lg_epoch L + 1)),
     key_agreement (ag_id a) \<mapsto> enc_agreement a, key_active_slot (pr_slot p) \<mapsto> points_to (ag_id a),
     key_proposal (pr_id p) \<mapsto> enc_proposal (p\<lparr>pr_status := Activated, pr_agreement := Some (ag_id a)\<rparr>)))
     (activate ctx a p L)"
  using assms by (auto simp: represents_def present_put key_defs slot_entry_def slot_key_eq_iff lg_agrs_activate
      split: option.splits)

lemma represents_activate_over:
  assumes "represents w L" and "lg_config L \<noteq> None" and "wf_slot (ag_slot a)" and "pr_slot p = ag_slot a"
    and "lg_active L (ag_slot a) = Some (ag_id b)" and "lg_agrs L (ag_id b) = Some b" and "lg_props L (pr_id p) = Some p"
    and "lg_agrs L (ag_id a) = None"
  shows "represents (w(key_eligibility_epoch \<mapsto> JNum (NInt (lg_epoch L + 1)),
     key_agreement (ag_id b) \<mapsto> enc_agreement (change_status ctx Superseded (js ''replaced_by_new_active_agreement'') b),
     key_agreement (ag_id a) \<mapsto> enc_agreement a, key_active_slot (pr_slot p) \<mapsto> points_to (ag_id a),
     key_proposal (pr_id p) \<mapsto> enc_proposal (p\<lparr>pr_status := Activated, pr_agreement := Some (ag_id a)\<rparr>)))
     (activate ctx a p L)"
  using assms by (auto simp: represents_def present_put key_defs slot_entry_def slot_key_eq_iff lg_agrs_activate
      split: option.splits)

lemma execute_activate_represents:
  assumes R: "represents (view t) L" and I: "ledger_inv sha L" and c: "lg_config L = Some c" and ctx: "wf_ctx ctx"
    and check: "activate_check sha ctx c input (view t) = Ok (aid, p, r, pol, current, ids)"
    and ex: "execute_activate sha ctx c input t = Ok (res, t')"
  shows "represents (view t') (activate ctx (new_agreement ctx c aid p r pol ids) p L) \<and> lg_epoch L < max_safe"
proof -
  let ?a = "new_agreement ctx c aid p r pol ids"
  obtain epoch t1 t2 where inc: "increment_epoch t = Ok (epoch, t1)" and sup: "supersede ctx current t1 = Ok t2"
    and t': "view t' = (view t2)(key_agreement aid \<mapsto> enc_agreement ?a, key_active_slot (pr_slot p) \<mapsto> points_to aid,
        key_proposal (pr_id p) \<mapsto> enc_proposal (p\<lparr>pr_status := Activated, pr_agreement := Some aid\<rparr>))"
    using ex check by (auto simp: execute_activate_def Let_def)
  have e: "lg_epoch L < max_safe" and t1: "t1 = put key_eligibility_epoch (JNum (NInt (lg_epoch L + 1))) t"
    using inc increment_epoch_ledger [OF R I c] by (auto simp: fail_as_def split: if_splits)
  note facts = activate_check_ledger [OF R I c ctx check e]
  have fresh: "lg_agrs L aid = None"
    using check present_none(4) [OF R] by (auto simp: activate_check_def)
  show ?thesis
  proof (cases "lg_active L (rv_slot r)")
    case None
    then have "t2 = t1" using sup facts by (simp add: supersede_def)
    then show ?thesis using represents_activate_fresh [OF R, of ?a p ctx] facts None c e by (simp add: t' t1)
  next
    case (Some i)
    then obtain b where b: "lg_agrs L i = Some b" using active_agreement [OF ledger_invD(10) [OF I]] by blast
    have i: "ag_id b = i" by (rule ledger_ids(4) [OF I b])
    have "view t2 = (view t1)(key_agreement (ag_id b) \<mapsto>
        enc_agreement (change_status ctx Superseded (js ''replaced_by_new_active_agreement'') b))"
      using sup facts Some b by (auto simp: supersede_def)
    then show ?thesis using represents_activate_over [OF R, of ?a p b ctx] facts Some b i c fresh e by (simp add: t' t1)
  qed
qed

lemma execute_activate_simulates:
  assumes R: "represents (view t) L" and I: "ledger_inv sha L" and c: "lg_config L = Some c" and ctx: "wf_ctx ctx"
    and ex: "execute_activate sha ctx c input t = Ok (res, t')"
  shows "\<exists>L'. ledger_step sha ctx L L' \<and> represents (view t') L'"
proof -
  obtain aid p r pol current ids where check: "activate_check sha ctx c input (view t) = Ok (aid, p, r, pol, current, ids)"
    using ex by (auto simp: execute_activate_def)
  then show ?thesis
    using execute_activate_represents [OF R I c ctx check ex] activate_check_ledger [OF R I c ctx check] by blast
qed

section \<open>Withdrawing and suspending\<close>

lemma execute_status_change_simulates:
  assumes R: "represents (view t) L" and I: "ledger_inv sha L" and c: "lg_config L = Some c" and ctx: "wf_ctx ctx"
    and st: "st = Withdrawn \<or> st = Suspended" and ex: "execute_status_change ctx c input st t = Ok (res, t')"
  shows "\<exists>L'. ledger_step sha ctx L L' \<and> represents (view t') L'"
proof -
  obtain a reason epoch where check: "status_check ctx c input (view t) = Ok (a, reason)"
    and inc: "increment_epoch (put (key_active_slot (ag_slot a)) no_agreement
       (put (key_agreement (ag_id a)) (enc_agreement (change_status ctx st reason a)) t)) = Ok (epoch, t')"
    using ex by (auto simp: execute_status_change_def)
  obtain u aid pol rep where human: "require_human ctx c = Ok u" and reason: "text_ok 1000 reason"
    and a: "read_required validate_agreement (fail_as AGREEMENT_NOT_FOUND 404 False) (view t) (key_agreement aid) = Ok a"
    and pol: "policy_for c (ag_policy_id a) (ag_policy_version a) = Ok pol"
    and rep: "rep \<in> set (pol_reps pol)" "names_actor rep (tx_actor ctx)" and active: "ag_status a = Active"
    using check by (auto simp: status_check_def names_actor_def)
  have a': "lg_agrs L aid = Some a" using a read_ledger_agreement [OF R I] by simp
  have id_: "ag_id a = aid" by (rule ledger_ids(4) [OF I a'])
  have slot: "wf_slot (ag_slot a)" using ledger_wf(5) [OF I a'] by (simp add: wf_agreement_def)
  have pol': "policy_of c (ag_policy_id a) (ag_policy_version a) = Some pol"
    using pol by (auto simp: policy_for_def split: option.splits)
  let ?t1 = "put (key_active_slot (ag_slot a)) no_agreement
      (put (key_agreement (ag_id a)) (enc_agreement (change_status ctx st reason a)) t)"
  have "present (view ?t1) key_eligibility_epoch = Some (JNum (NInt (lg_epoch L)))"
    using representsD(2) [OF R] c by (simp add: present_put key_defs)
  then have e: "lg_epoch L < max_safe" "t' = put key_eligibility_epoch (JNum (NInt (lg_epoch L + 1))) ?t1"
    using inc increment_epoch_at [of ?t1 "lg_epoch L"] ledger_invD(12) [OF I] by (auto simp: inv_epoch_def)
  have "represents (view t') (end_agreement ctx st reason a L)"
    using represents_end [OF R _ slot] c by (simp add: e(2))
  moreover have "kind (tx_actor ctx) = Human" "member c (tx_actor ctx)"
    using human by (auto simp: require_human_def member_def split: if_splits)
  then have "ledger_step sha ctx L (end_agreement ctx st reason a L)"
    by (rule ledger_step.ended [OF c _ _ ctx reason a' active pol' rep st e(1)])
  ultimately show ?thesis by blast
qed

section \<open>Fences, commands and bootstrap\<close>

lemma execute_fence_simulates:
  assumes R: "represents (view t) L" and I: "ledger_inv sha L" and c: "lg_config L = Some c"
    and ex: "execute_fence ctx c input t = Ok (res, t')"
  shows "\<exists>L'. ledger_step sha ctx L L' \<and> represents (view t') L'"
proof -
  have epoch: "current_epoch (view t) = JNum (NInt (lg_epoch L))"
    using representsD(2) [OF R] c by (simp add: current_epoch_def)
  obtain nonce where ok: "is_nonce nonce" "cfg_serving c" "member c (tx_actor ctx)" "lg_fences L nonce = None"
    and t': "t' = put (key_fence nonce) (enc_fence nonce (lg_epoch L, tx_id ctx)) t"
    using ex present_none(5) [OF R] epoch
    by (auto simp: execute_fence_def Let_def member_def assert_nonce_def enc_fence_def split: json.splits if_splits)
  have "represents (view t') (L\<lparr>lg_fences := (lg_fences L)(nonce \<mapsto> (lg_epoch L, tx_id ctx))\<rparr>)"
    using R by (simp add: t' represents_def present_put key_defs)
  then show ?thesis using ledger_step.fenced [OF c ok(2,3,1,4)] by blast
qed

lemma perform_command_simulates:
  assumes "represents (view t) L" and "ledger_inv sha L" and "lg_config L = Some c" and "wf_ctx ctx"
    and "perform_command sha ctx c ty input t = Ok (res, t')"
  shows "\<exists>L'. ledger_step sha ctx L L' \<and> represents (view t') L'"
  using assms(5) execute_publish_simulates [OF assms(1-3)] execute_propose_simulates [OF assms(1-4)]
    execute_decide_simulates [OF assms(1-4)] execute_activate_simulates [OF assms(1-4)]
    execute_status_change_simulates [OF assms(1-4), of Withdrawn]
    execute_status_change_simulates [OF assms(1-4), of Suspended] execute_fence_simulates [OF assms(1-3)]
  by (auto simp: perform_command_def split: if_splits)

lemma assert_context_wf: "assert_context ctx = Ok () \<Longrightarrow> wf_ctx ctx"
  by (simp add: assert_context_def wf_ctx_def wf_actor_def)

lemma execute_simulates:
  assumes R: "represents (view t) L" and I: "ledger_inv sha L" and ex: "execute sha ctx cmd t = Ok (res, t')"
  shows "\<exists>L'. ledger_step sha ctx L L' \<and> represents (view t') L'"
proof -
  obtain cid ty input c digest where ctx: "assert_context ctx = Ok ()" and c: "read_config (view t) = Ok c"
    and rest: "(case present (view t) (key_idempotency (org_id (tx_actor ctx)) cid) of
       Some prior \<Rightarrow> rbind (replay ctx ty digest prior) (\<lambda>result. Ok (result, t))
     | None \<Rightarrow> rbind (perform_command sha ctx c ty input t) (\<lambda>(result, t1).
         rbind (clone_canonical result) (\<lambda>stored_result.
         rbind (put_clone (key_idempotency (org_id (tx_actor ctx)) cid) (idempotency_record ctx cid ty digest stored_result) t1) (\<lambda>t2.
         Ok (result, t2))))) = Ok (res, t')"
    using ex by (auto simp: execute_def Let_def)
  show ?thesis
  proof (cases "present (view t) (key_idempotency (org_id (tx_actor ctx)) cid)")
    case None
    then obtain t1 v where p: "perform_command sha ctx c ty input t = Ok (res, t1)"
      and t': "view t' = (view t1)(key_idempotency (org_id (tx_actor ctx)) cid \<mapsto> v)"
      using rest by auto
    have "lg_config L = Some c" using c read_ledger_config [OF R I] by simp
    then show ?thesis
      using perform_command_simulates [OF R I _ assert_context_wf [OF ctx] p] by (simp add: t')
  next
    case (Some prior)
    then show ?thesis using rest R ledger_step.idle by auto
  qed
qed

text \<open>Bootstrap writes each policy under its own key.\<close>

lemma put_policies_other:
  "foldR put_policy ps t = Ok t' \<Longrightarrow> (\<And>i v. k \<noteq> key_policy i v) \<Longrightarrow> present (view t') k = present (view t) k"
  by (induction ps arbitrary: t) (auto simp: put_policy_def present_put)

lemma put_policies:
  "foldR put_policy ps t = Ok t' \<Longrightarrow> distinct (map (\<lambda>p. (pol_id p, pol_version p)) ps) \<Longrightarrow>
   present (view t') (key_policy i v) = (case find (\<lambda>p. pol_id p = i \<and> pol_version p = v) ps of
     Some p \<Rightarrow> Some (enc_policy p) | None \<Rightarrow> present (view t) (key_policy i v))"
proof (induction ps arbitrary: t)
  case (Cons p ps)
  then obtain t1 where t1: "put_policy p t = Ok t1" and rest: "foldR put_policy ps t1 = Ok t'" by auto
  have v1: "view t1 = (view t)(key_policy (pol_id p) (pol_version p) \<mapsto> enc_policy p)"
    using t1 by (auto simp: put_policy_def)
  note IH = Cons.IH [OF rest]
  show ?case
  proof (cases "pol_id p = i \<and> pol_version p = v")
    case True
    then have "find (\<lambda>p. pol_id p = i \<and> pol_version p = v) ps = None"
      using Cons.prems(2) by (force simp: find_None_iff image_iff)
    then show ?thesis using IH Cons.prems(2) True by (simp add: v1 present_put)
  next
    case False
    then have "present (view t1) (key_policy i v) = present (view t) (key_policy i v)"
      by (auto simp: v1 present_put key_defs)
    then show ?thesis using IH Cons.prems(2) False by (auto split: option.split)
  qed
qed simp

lemma distinct_policies: "distinct (map policy_key ps) \<Longrightarrow> distinct (map (\<lambda>p. (pol_id p, pol_version p)) ps)"
  by (induction ps) (auto simp: policy_key_def)

lemma bootstrap_represents:
  assumes R: "represents (view t) L" and I: "ledger_inv sha L" and ex: "bootstrap ctx input t = Ok (res, t')"
  shows "\<exists>c. validate_config input = Ok c \<and> ledger_step sha ctx L (L\<lparr>lg_config := Some c, lg_epoch := 0\<rparr>) \<and>
    represents (view t') (L\<lparr>lg_config := Some c, lg_epoch := 0\<rparr>)"
proof -
  obtain c where human: "kind (tx_actor ctx) = Human" and ch: "fld input ''channel_id'' = JStr (tx_channel ctx)"
    and c: "validate_config input = Ok c" and none: "present (view t) key_config = None"
    and pols: "foldR put_policy (cfg_policies c) (put key_eligibility_epoch (JNum (NInt 0)) (put key_config (enc_config c) t)) = Ok t'"
    using ex by (auto simp: bootstrap_def config.norm_enc)
  have wf: "wf_config c" by (rule config.dec_wf [OF c])
  have chan: "tx_channel ctx = cfg_channel c" using c ch by (auto simp: validate_config_def)
  have L: "lg_config L = None" using none present_none(6) [OF R] by simp
  then have empty: "L = empty_ledger" using ledger_invD(1) [OF I] by (simp add: inv_config_def)
  let ?L = "L\<lparr>lg_config := Some c, lg_epoch := 0\<rparr>"
  let ?t = "put key_eligibility_epoch (JNum (NInt 0)) (put key_config (enc_config c) t)"
  have old: "k \<noteq> key_config \<Longrightarrow> k \<noteq> key_eligibility_epoch \<Longrightarrow> (\<And>i v. k \<noteq> key_policy i v) \<Longrightarrow>
      present (view t') k = present (view t) k" for k
    using put_policies_other [OF pols, of k] by (simp add: present_put)
  have new: "present (view t') key_config = Some (enc_config c)"
      "present (view t') key_eligibility_epoch = Some (JNum (NInt 0))"
    using put_policies_other [OF pols] by (simp_all add: present_put key_defs)
  have pol: "present (view t') (key_policy i v) = map_option enc_policy (policy_of c i v)" for i v
    using put_policies [OF pols distinct_policies, of i v] wf L representsD(12) [OF R, of i v]
    by (simp add: wf_config_def policy_of_def present_put key_defs split: option.splits)
  have "represents (view t') ?L"
    using R unfolding represents_def by (simp add: old key_defs new [unfolded key_defs] pol [unfolded key_defs])
  then show ?thesis using ledger_step.bootstrapped [OF L wf human chan] c by blast
qed

lemma invoke_simulates:
  assumes "represents (view t) L" and "ledger_inv sha L" and "invoke sha ctx rq t = Ok (res, t')"
  shows "\<exists>L'. ledger_step sha ctx L L' \<and> represents (view t') L'"
proof (cases rq)
  case (Bootstrap input)
  then show ?thesis using assms(3) bootstrap_represents [OF assms(1,2)] unfolding invoke_def by (simp, blast)
next
  case (Execute cmd)
  then show ?thesis using assms(3) execute_simulates [OF assms(1,2)] unfolding invoke_def by simp
qed

end
