(* ===== verification/Reach.thy ===== *)
theory Reach
  imports Simulation
begin

text \<open>
  Committed states: those that a sequence of successful invocations leaves, whatever the actors,
  inputs and order. Each represents an abstract ledger that satisfies the invariant.
\<close>

section \<open>What holds of every write holds of every command\<close>

text \<open>
  The contract between the handlers and the context: a handler changes the transaction only through
  \<open>put\<close>, and never under an idempotency key. A property of the transaction that such writes keep is
  kept by every handler.
\<close>

locale put_invariant =
  fixes P :: "tx \<Rightarrow> bool"
  assumes put: "P t \<Longrightarrow> (\<And>org cmd. k \<noteq> key_idempotency org cmd) \<Longrightarrow> P (put k v t)"
begin

lemma put_record: "P t \<Longrightarrow> kd \<noteq> KIdempotency \<Longrightarrow> P (put (state_key kd parts) v t)"
  by (rule put) (simp_all add: key_defs)

lemma publishes: "execute_publish sha ctx c input t = Ok (res, t') \<Longrightarrow> P t \<Longrightarrow> P t'"
  by (auto simp: execute_publish_def key_defs split: if_splits intro!: put_record)

lemma proposes: "execute_propose sha ctx c input t = Ok (res, t') \<Longrightarrow> P t \<Longrightarrow> P t'"
  by (auto simp: execute_propose_def key_defs intro!: put_record)

lemma increments: "increment_epoch t = Ok (n, t') \<Longrightarrow> P t \<Longrightarrow> P t'"
  by (auto simp: increment_epoch_def key_defs split: option.splits if_splits intro!: put_record)

lemma records: "record_decision d p n t = Ok t' \<Longrightarrow> P t \<Longrightarrow> P t'"
  by (auto simp: record_decision_def decision_latest_key_def key_defs intro!: put_record)

lemma suspends: "suspend_active_agreement ctx s x e t = Ok (a, t') \<Longrightarrow> P t \<Longrightarrow> P t'"
  by (auto simp: suspend_active_agreement_def Let_def key_agreement_def key_active_slot_def
      split: option.splits if_splits intro!: put_record elim!: increments)

lemma decides: "execute_decide sha ctx c input t = Ok (res, t') \<Longrightarrow> P t \<Longrightarrow> P t'"
  by (auto simp: execute_decide_def split: if_splits dest!: records suspends)

lemma supersedes: "supersede ctx current t = Ok t' \<Longrightarrow> P t \<Longrightarrow> P t'"
  by (auto simp: supersede_def key_defs split: option.splits intro!: put_record)

lemma activates: "execute_activate sha ctx c input t = Ok (res, t') \<Longrightarrow> P t \<Longrightarrow> P t'"
  by (auto simp: execute_activate_def Let_def key_agreement_def key_active_slot_def key_proposal_def
      intro!: put_record elim!: increments supersedes)

lemma changes_status: "execute_status_change ctx c input st t = Ok (res, t') \<Longrightarrow> P t \<Longrightarrow> P t'"
  by (auto simp: execute_status_change_def key_agreement_def key_active_slot_def intro!: put_record elim!: increments)

lemma fences: "execute_fence ctx c input t = Ok (res, t') \<Longrightarrow> P t \<Longrightarrow> P t'"
  by (auto simp: execute_fence_def Let_def key_defs intro!: put_record)

lemmas handlers = publishes proposes decides activates changes_status fences

lemma performs: "perform_command sha ctx c ty input t = Ok (res, t') \<Longrightarrow> P t \<Longrightarrow> P t'"
  unfolding perform_command_def by (auto split: if_splits dest: handlers)

lemma puts_policies: "foldR put_policy ps t = Ok t' \<Longrightarrow> P t \<Longrightarrow> P t'"
  by (induction ps arbitrary: t) (auto simp: put_policy_def key_defs intro!: put_record)

lemma bootstraps: "bootstrap ctx input t = Ok (res, t') \<Longrightarrow> P t \<Longrightarrow> P t'"
  by (auto simp: bootstrap_def key_config_def key_eligibility_epoch_def intro!: put_record elim!: puts_policies)

end

text \<open>The staged writes always explain the view; idempotency records are written by \<open>execute\<close> alone.\<close>

interpretation staging: put_invariant "tx_consistent w" for w
  by unfold_locales (rule tx_consistent_put)

interpretation outcomes: put_invariant "\<lambda>t. \<forall>org cmd. present (view t) (key_idempotency org cmd) = f org cmd" for f
  by unfold_locales (simp add: present_put eq_commute)

lemma consistent_execute:
  "execute sha ctx cmd t = Ok (res, t') \<Longrightarrow> tx_consistent w t \<Longrightarrow> tx_consistent w t'"
  by (auto simp: execute_def Let_def split: option.splits intro!: tx_consistent_put elim!: staging.performs)

lemma consistent_invoke: "invoke sha ctx rq t = Ok (res, t') \<Longrightarrow> tx_consistent w t \<Longrightarrow> tx_consistent w t'"
  by (cases rq) (auto simp: invoke_def dest: consistent_execute staging.bootstraps)

text \<open>A commit installs exactly what the invocation's reads would have seen at its end.\<close>

lemma commit_iff:
  "commit sha ctx rq w = Ok (res, w') \<longleftrightarrow> (\<exists>t. invoke sha ctx rq (begin_tx w) = Ok (res, t) \<and> w' = view t)"
proof -
  have "view t = apply_writes (staged t) w" if "invoke sha ctx rq (begin_tx w) = Ok (res, t)" for t
    using consistent_invoke [OF that tx_consistent_begin] by (simp add: tx_consistent_def)
  then show ?thesis by (auto simp: commit_def)
qed

section \<open>Reachable states\<close>

inductive reachable :: "sha_fn \<Rightarrow> world \<Rightarrow> bool" for sha where
  empty: "reachable sha Map.empty"
| invoked: "reachable sha w \<Longrightarrow> commit sha ctx rq w = Ok (res, w') \<Longrightarrow> reachable sha w'"

text \<open>The program refines the abstract ledger: one commit is one step, and states stay related.\<close>

lemma view_begin [simp]: "view (begin_tx w) = w"
  by (simp add: begin_tx_def)

theorem commit_refines:
  assumes "represents w L" and "ledger_inv sha L" and "commit sha ctx rq w = Ok (res, w')"
  shows "\<exists>L'. ledger_step sha ctx L L' \<and> represents w' L' \<and> ledger_inv sha L'"
proof -
  obtain t where t: "invoke sha ctx rq (begin_tx w) = Ok (res, t)" "w' = view t"
    using assms(3) commit_iff by blast
  have "represents (view (begin_tx w)) L" using assms(1) by simp
  then obtain L' where "ledger_step sha ctx L L'" "represents (view t) L'"
    using invoke_simulates [OF _ assms(2) t(1)] by blast
  then show ?thesis using ledger_step_inv [OF _ assms(2)] t by blast
qed

theorem reachable_represents: "reachable sha w \<Longrightarrow> \<exists>L. represents w L \<and> reachable_ledger sha L \<and> ledger_inv sha L"
proof (induction rule: reachable.induct)
  case empty
  then show ?case using represents_empty empty_ledger_inv reachable_ledger.start by blast
next
  case (invoked w ctx rq res w')
  then show ?case using commit_refines reachable_ledger.step by meson
qed

section \<open>Records of a committed state\<close>

text \<open>The records as the validators of the program read them.\<close>

abbreviation config_of :: "world \<Rightarrow> config option" where
  "config_of w \<equiv> stored validate_config w key_config"

abbreviation revision_of :: "sha_fn \<Rightarrow> world \<Rightarrow> jstr \<Rightarrow> revision option" where
  "revision_of sha w i \<equiv> stored (validate_revision sha) w (key_revision i)"

abbreviation proposal_of :: "world \<Rightarrow> jstr \<Rightarrow> proposal option" where
  "proposal_of w i \<equiv> stored validate_proposal w (key_proposal i)"

abbreviation decision_of :: "world \<Rightarrow> jstr \<Rightarrow> decision option" where
  "decision_of w i \<equiv> stored validate_decision w (key_decision i)"

abbreviation agreement_of :: "world \<Rightarrow> jstr \<Rightarrow> agreement option" where
  "agreement_of w i \<equiv> stored validate_agreement w (key_agreement i)"

abbreviation epoch_of :: "world \<Rightarrow> int option" where
  "epoch_of w \<equiv> stored (\<lambda>v. assert_safe_integer v 0) w key_eligibility_epoch"

lemma stored_ledger:
  assumes R: "represents w L" and I: "ledger_inv sha L"
  shows "config_of w = lg_config L" "revision_of sha w i = lg_revs L i" "proposal_of w i = lg_props L i"
    "decision_of w i = lg_decs L i" "agreement_of w i = lg_agrs L i"
    "epoch_of w = map_option (\<lambda>_. lg_epoch L) (lg_config L)"
proof -
  show "config_of w = lg_config L"
    by (rule config.stored_represented [OF representsD(1) [OF R] ledger_wf(1) [OF I]])
  show "revision_of sha w i = lg_revs L i"
    by (rule revision.stored_represented [OF representsD(3) [OF R] ledger_wf(2) [OF I]])
  show "proposal_of w i = lg_props L i"
    by (rule proposal.stored_represented [OF representsD(5) [OF R] ledger_wf(3) [OF I]])
  show "decision_of w i = lg_decs L i"
    by (rule decision.stored_represented [OF representsD(7) [OF R] ledger_wf(4) [OF I]])
  show "agreement_of w i = lg_agrs L i"
    by (rule agreement.stored_represented [OF representsD(9) [OF R] ledger_wf(5) [OF I]])
  show "epoch_of w = map_option (\<lambda>_. lg_epoch L) (lg_config L)"
    using representsD(2) [OF R] ledger_invD(12) [OF I]
    by (cases "lg_config L") (auto simp: stored_def inv_epoch_def assert_eval)
qed

end
