(* ===== verification/History.thy ===== *)
theory History
  imports Reach
begin

text \<open>
  How a committed state may change: what is written once stays, agreements end and never come back,
  and the eligibility epoch moves whenever the agreements in force do.
\<close>

section \<open>Evolution of a ledger\<close>

text \<open>A proposal keeps all but its status, agreement and counter; once activated only the counter moves.\<close>

definition proposal_evolves :: "proposal \<Rightarrow> proposal \<Rightarrow> bool" where
  "proposal_evolves p q \<longleftrightarrow>
     q = p\<lparr>pr_status := pr_status q, pr_agreement := pr_agreement q, pr_counter := pr_counter q\<rparr> \<and>
     pr_counter p \<le> pr_counter q \<and>
     (pr_status p = Activated \<longrightarrow> pr_status q = Activated \<and> pr_agreement q = pr_agreement p)"

text \<open>An agreement is unchanged, or was active and has ended with a reason, an actor and a time.\<close>

definition agreement_evolves :: "agreement \<Rightarrow> agreement \<Rightarrow> bool" where
  "agreement_evolves a b \<longleftrightarrow> b = a \<or> (ag_status a = Active \<and> ag_status b \<noteq> Active \<and>
     b = a\<lparr>ag_status := ag_status b, ag_reason := ag_reason b, ag_changed_by := ag_changed_by b, ag_changed_at := ag_changed_at b\<rparr> \<and>
     ag_reason b \<noteq> None \<and> ag_changed_by b \<noteq> None \<and> ag_changed_at b \<noteq> None)"

definition evolves :: "ledger \<Rightarrow> ledger \<Rightarrow> bool" where
  "evolves L M \<longleftrightarrow>
     (\<forall>c. lg_config L = Some c \<longrightarrow> lg_config M = Some c) \<and>
     lg_revs L \<subseteq>\<^sub>m lg_revs M \<and> lg_ids L \<subseteq>\<^sub>m lg_ids M \<and> lg_decs L \<subseteq>\<^sub>m lg_decs M \<and> lg_fences L \<subseteq>\<^sub>m lg_fences M \<and>
     (\<forall>i p. lg_props L i = Some p \<longrightarrow> (\<exists>q. lg_props M i = Some q \<and> proposal_evolves p q)) \<and>
     (\<forall>i a. lg_agrs L i = Some a \<longrightarrow> (\<exists>b. lg_agrs M i = Some b \<and> agreement_evolves a b)) \<and>
     (lg_config L \<noteq> None \<longrightarrow> lg_epoch L \<le> lg_epoch M) \<and>
     (lg_config L \<noteq> None \<longrightarrow> lg_active M \<noteq> lg_active L \<longrightarrow> lg_epoch L < lg_epoch M)"

lemma proposal_evolves_refl [simp]: "proposal_evolves p p"
  by (simp add: proposal_evolves_def)

lemma agreement_evolves_refl [simp]: "agreement_evolves a a"
  by (simp add: agreement_evolves_def)

lemma agreement_evolves_change [simp]:
  "ag_status a = Active \<Longrightarrow> st \<noteq> Active \<Longrightarrow> agreement_evolves a (change_status ctx st x a)"
  by (simp add: agreement_evolves_def change_status_def)

lemma evolves_refl: "evolves L L"
  by (auto simp: evolves_def)

lemma proposal_evolves_trans: "proposal_evolves p q \<Longrightarrow> proposal_evolves q r \<Longrightarrow> proposal_evolves p r"
  unfolding proposal_evolves_def by (cases p; cases q; cases r) auto

lemma agreement_evolves_trans: "agreement_evolves a b \<Longrightarrow> agreement_evolves b c \<Longrightarrow> agreement_evolves a c"
  unfolding agreement_evolves_def by auto

lemma evolvesD:
  assumes "evolves L M"
  shows "lg_config L = Some c \<Longrightarrow> lg_config M = Some c" "lg_revs L \<subseteq>\<^sub>m lg_revs M" "lg_ids L \<subseteq>\<^sub>m lg_ids M"
    "lg_decs L \<subseteq>\<^sub>m lg_decs M" "lg_fences L \<subseteq>\<^sub>m lg_fences M"
    "lg_props L i = Some p \<Longrightarrow> \<exists>q. lg_props M i = Some q \<and> proposal_evolves p q"
    "lg_agrs L i = Some a \<Longrightarrow> \<exists>b. lg_agrs M i = Some b \<and> agreement_evolves a b"
    "lg_config L \<noteq> None \<Longrightarrow> lg_epoch L \<le> lg_epoch M"
    "lg_config L \<noteq> None \<Longrightarrow> lg_active M \<noteq> lg_active L \<Longrightarrow> lg_epoch L < lg_epoch M"
  using assms unfolding evolves_def by simp_all

lemma evolves_trans:
  assumes 1: "evolves L M" and 2: "evolves M N"
  shows "evolves L N"
proof -
  have props: "\<exists>r. lg_props N i = Some r \<and> proposal_evolves p r" if "lg_props L i = Some p" for i p
    using evolvesD(6) [OF 1 that] evolvesD(6) [OF 2] proposal_evolves_trans by metis
  have agrs: "\<exists>b. lg_agrs N i = Some b \<and> agreement_evolves a b" if "lg_agrs L i = Some a" for i a
    using evolvesD(7) [OF 1 that] evolvesD(7) [OF 2] agreement_evolves_trans by metis
  have cfg: "lg_config L \<noteq> None \<Longrightarrow> lg_config M \<noteq> None" using evolvesD(1) [OF 1] by auto
  have "lg_epoch L \<le> lg_epoch N" if "lg_config L \<noteq> None"
    using evolvesD(8) [OF 1 that] evolvesD(8) [OF 2 cfg [OF that]] by simp
  moreover have "lg_epoch L < lg_epoch N" if "lg_config L \<noteq> None" "lg_active N \<noteq> lg_active L"
    using evolvesD(8,9) [OF 1 that(1)] evolvesD(8,9) [OF 2 cfg [OF that(1)]] that(2) by fastforce
  moreover have "lg_revs L \<subseteq>\<^sub>m lg_revs N" "lg_ids L \<subseteq>\<^sub>m lg_ids N" "lg_decs L \<subseteq>\<^sub>m lg_decs N" "lg_fences L \<subseteq>\<^sub>m lg_fences N"
    using evolvesD(2-5) [OF 1] evolvesD(2-5) [OF 2] map_le_trans by blast+
  moreover have "lg_config L = Some c \<Longrightarrow> lg_config N = Some c" for c
    using evolvesD(1) [OF 1] evolvesD(1) [OF 2] by blast
  ultimately show ?thesis using props agrs unfolding evolves_def by simp
qed

section \<open>Every transition is an evolution\<close>

lemma evolves_publish:
  "lg_revs L (rv_digest r) = None \<Longrightarrow> lg_ids L (pl_revision_id (rv_payload r)) = None \<Longrightarrow> evolves L (publish r L)"
  by (auto simp: evolves_def publish_def map_le_def)

lemma evolves_proposal: "lg_props L (pr_id p) = None \<Longrightarrow> evolves L (add_proposal p L)"
  by (auto simp: evolves_def)

lemma evolves_decision:
  "lg_decs L (de_id d) = None \<Longrightarrow> lg_props L (pr_id p) = Some p \<Longrightarrow> evolves L (add_decision d p L)"
  by (auto simp: evolves_def map_le_def proposal_evolves_def)

lemma evolves_end:
  "lg_agrs L (ag_id a) = Some a \<Longrightarrow> ag_status a = Active \<Longrightarrow> st \<noteq> Active \<Longrightarrow> evolves L (end_agreement ctx st x a L)"
  by (auto simp: evolves_def)

lemma evolves_activate:
  assumes "ledger_inv sha L" and "lg_props L (pr_id p) = Some p" and "pr_status p = Open"
    and "lg_agrs L (ag_id a) = None"
  shows "evolves L (activate ctx a p L)"
proof -
  have "agreement_evolves b (change_status ctx Superseded x b)"
    if "lg_active L s = Some j" "lg_agrs L j = Some b" for s j b x
    using active_agreement [OF ledger_invD(10) [OF assms(1)] that(1)] that(2) by auto
  then show ?thesis using assms(2-4)
    by (auto simp: evolves_def lg_agrs_activate proposal_evolves_def)
qed

theorem ledger_step_evolves: "ledger_step sha ctx L M \<Longrightarrow> ledger_inv sha L \<Longrightarrow> evolves L M"
proof (induction rule: ledger_step.induct)
  case (bootstrapped L c)
  then have "L = empty_ledger" by (simp add: ledger_inv_def inv_config_def)
  then show ?case by (simp add: evolves_def empty_ledger_def)
next
  case (decided L c d p pol rep)
  note id_ = ledger_ids(2) [OF \<open>ledger_inv sha L\<close>]
  have add: "evolves L (add_decision d p L)"
    by (rule evolves_decision) (use decided id_ in auto)
  show ?case
  proof (cases "struck_by d L")
    case (Some a)
    then obtain i where "lg_agrs L i = Some a" "ag_status a = Active" using struck_by_Some by blast
    then have "evolves (add_decision d p L) (end_agreement ctx Suspended x a (add_decision d p L))" for x
      using ledger_ids(4) [OF \<open>ledger_inv sha L\<close>] by (intro evolves_end) auto
    then show ?thesis using Some add evolves_trans by (simp add: decide_def)
  qed (use add in \<open>simp add: decide_def\<close>)
next
  case (activated L c aid pid p r pol ids)
  have "pr_id p = pid" using ledger_ids(2) activated by blast
  then show ?case by (intro evolves_activate) (use activated in auto)
next
  case (ended L c reason aid a pol rep st)
  have "ag_id a = aid" using ledger_ids(4) ended by blast
  then show ?case by (intro evolves_end) (use ended in auto)
next
  case (fenced L c nonce)
  then show ?case by (auto simp: evolves_def map_le_def)
qed (auto simp: new_proposal_def evolves_refl intro: evolves_publish evolves_proposal)

text \<open>The same for the records that the program reads before and after a commit.\<close>

lemma commit_evolves:
  assumes "reachable sha w" and "commit sha ctx rq w = Ok (res, w')"
  shows "\<exists>L M. represents w L \<and> ledger_inv sha L \<and> represents w' M \<and> ledger_inv sha M \<and>
    ledger_step sha ctx L M \<and> evolves L M"
proof -
  obtain L where L: "represents w L" "ledger_inv sha L" using reachable_represents [OF assms(1)] by blast
  obtain M where "ledger_step sha ctx L M" "represents w' M" "ledger_inv sha M"
    using commit_refines [OF L assms(2)] by blast
  then show ?thesis using L ledger_step_evolves by blast
qed

end
