(* ===== verification/Liveness.thy ===== *)
theory Liveness
  imports History
begin

text \<open>
  The other direction of the refinement: on a store that represents a ledger, a well-formed command
  whose abstract guards hold is accepted, and leaves the store that represents the abstract effect.
\<close>

section \<open>Commands\<close>

definition command :: "jstr \<Rightarrow> string \<Rightarrow> json \<Rightarrow> json" where
  "command cid ty input = obj [(''command_id'', JStr cid), (''input'', input), (''type'', JStr (js ty))]"

definition publish_input :: "revision \<Rightarrow> version \<Rightarrow> int \<Rightarrow> json" where
  "publish_input r ver epoch = obj
     [(''publication'', obj [(''config_version'', enc_version ver), (''membership_epoch'', JNum (NInt epoch)),
        (''revision_digest'', JStr (rv_digest r))]),
      (''revision'', enc_revision r)]"

definition propose_input :: "jstr \<Rightarrow> jstr \<Rightarrow> jstr \<Rightarrow> int \<Rightarrow> json" where
  "propose_input pid digest i v = obj
     [(''policy_id'', JStr i), (''policy_version'', JNum (NInt v)), (''proposal_id'', JStr pid),
      (''revision_digest'', JStr digest)]"

definition decide_input :: "decision \<Rightarrow> json" where
  "decide_input d = obj [(''decision'', enc_decision d)]"

definition activate_input :: "jstr \<Rightarrow> jstr \<Rightarrow> jstr option \<Rightarrow> json" where
  "activate_input pid aid expected = obj
     [(''agreement_id'', JStr aid),
      (''expected_active_agreement_id'', case expected of None \<Rightarrow> JNull | Some i \<Rightarrow> JStr i),
      (''proposal_id'', JStr pid)]"

definition status_input :: "jstr \<Rightarrow> jstr \<Rightarrow> json" where
  "status_input aid reason = obj [(''agreement_id'', JStr aid), (''reason'', JStr reason)]"

lemma canon_ok_mono: "canon_ok v d \<Longrightarrow> e \<le> d \<Longrightarrow> canon_ok v e"
  by (induction v d arbitrary: e rule: canon_ok.induct) fastforce+

lemma ascii_valid: "\<forall>u \<in> set s. unat u < 0xD800 \<Longrightarrow> valid_unicode s"
  by (rule low_valid_unicode)

lemma token_low: "list_all token_char s \<Longrightarrow> u \<in> set s \<Longrightarrow> unat u < 0xD800"
  by (auto simp: list_all_iff token_char_def)

lemma valid_slot_key: "wf_slot s \<Longrightarrow> valid_unicode (slot_key s)"
  by (rule ascii_valid)
    (auto simp: slot_key_def wf_slot_def dest: is_id_token is_usage_scope_token token_low)

section \<open>From a handler to a commit\<close>

lemma clone_canonical_eval: "canon_ok v 0 \<Longrightarrow> clone_canonical v = Ok (jnorm v)"
  by simp

lemma put_clone_eval: "canon_ok v 0 \<Longrightarrow> put_clone k v t = Ok (put k (jnorm v) t)"
  by simp

text \<open>What SHA-256 in hexadecimal is documented to return.\<close>

definition hex_sha :: "sha_fn \<Rightarrow> bool" where
  "hex_sha sha \<longleftrightarrow> (\<forall>bs. length (sha bs) = 64 \<and> list_all hex_lower_char (sha bs))"

lemma digest_text_is_digest: "hex_sha sha \<Longrightarrow> is_digest (digest_text sha text)"
  by (simp add: hex_sha_def is_digest_def digest_text_def js_def)

text \<open>The command level adds the entry checks and the record of the outcome.\<close>

lemma commit_command:
  assumes sha: "hex_sha sha" and R: "represents w L" and I: "ledger_inv sha L" and c: "lg_config L = Some c"
    and ctx: "assert_context ctx = Ok ()" "tx_channel ctx = cfg_channel c" "member c (tx_actor ctx)"
    and cid: "is_id cid" and ty: "text_ok 80 (js ty)" and input: "canon_ok (obj kvs) 1"
    and new: "present w (key_idempotency (org_id (tx_actor ctx)) cid) = None"
    and run: "perform_command sha ctx c (js ty) (obj kvs) (begin_tx w) = Ok (res, t)"
    and res: "canon_ok res 1" and L': "represents (view t) L'"
  shows "\<exists>w'. commit sha ctx (Execute (command cid ty (obj kvs))) w = Ok (res, w') \<and> represents w' L' \<and>
    (\<forall>org cid'. cid' \<noteq> cid \<longrightarrow> present w' (key_idempotency org cid') = present w (key_idempotency org cid'))"
proof -
  have cmd: "validate_command (command cid ty (obj kvs)) = Ok (cid, js ty, obj kvs)"
    using cid ty by (simp add: validate_command_def command_def assert_eval)
  have cfg: "read_config w = Ok c" using read_ledger_config [OF R I] c by simp
  obtain ident where ident: "configured_identity c (tx_actor ctx) = Ok ident" using ctx(3) by (auto simp: member_def)
  have "canon_ok (obj [(''type'', JStr (js ty)), (''input'', obj kvs)]) 0"
    using input by (simp add: canon_ok_obj)
  then obtain s where s: "canonicalize (obj [(''type'', JStr (js ty)), (''input'', obj kvs)]) = Ok s"
    by (auto simp: canonicalize_Ok_iff [symmetric])
  let ?digest = "digest_text sha s"
  have digest: "idempotency_digest sha (js ty) (obj kvs) = Ok ?digest"
    using s by (simp add: idempotency_digest_def)
  let ?key = "key_idempotency (org_id (tx_actor ctx)) cid"
  let ?rec = "idempotency_record ctx cid (js ty) ?digest (jnorm res)"
  have "wf_ctx ctx" by (rule assert_context_wf [OF ctx(1)])
  then have rec: "canon_ok ?rec 0"
    using cid digest_text_is_digest [OF sha, of s] res
    by (auto simp: idempotency_record_def canon_ok_obj wf_ctx_def text_ok_valid canon_ok_enc_actor)
  have "execute sha ctx (command cid ty (obj kvs)) (begin_tx w) = Ok (res, put ?key (jnorm ?rec) t)"
    using ctx cmd cfg ident digest new run rec canon_ok_mono [OF res, of 0]
    by (simp add: execute_def Let_def require_as_def clone_canonical_eval put_clone_eval)
  then have "commit sha ctx (Execute (command cid ty (obj kvs))) w = Ok (res, view (put ?key (jnorm ?rec) t))"
    unfolding commit_iff by (auto simp: invoke_def)
  moreover have "\<forall>org cid'. cid' \<noteq> cid \<longrightarrow>
      present (view (put ?key (jnorm ?rec) t)) (key_idempotency org cid') = present w (key_idempotency org cid')"
    using outcomes.performs [OF run, of "\<lambda>org cid. present w (key_idempotency org cid)"]
    by (simp add: present_put key_idempotency_def)
  ultimately show ?thesis using L' by auto
qed

section \<open>Publishing\<close>

lemma graph_leaf: "pl_dependencies (rv_payload r) = [] \<Longrightarrow> validate_published_dependency_graph sha w r = Ok ()"
  by (simp add: validate_published_dependency_graph_def walk.simps)

lemma version_equal: "wf_version v \<Longrightarrow> assert_config_version_equal v v = Ok ()"
  using canonicalize_Ok_iff [of "enc_version v"] canon_ok_enc_version [of v 0]
  by (auto simp: assert_config_version_equal_def)

lemma validate_publication_input:
  assumes "wf_revision sha r" and "wf_version ver" and "wf_version_range epoch"
  shows "validate_publication sha (publish_input r ver epoch) = Ok (r, ver, epoch)"
  using assms by (simp add: validate_publication_def publish_input_def Let_def assert_eval revision.dec_enc
      wf_revision_def [of sha r] safe_range)

lemma wf_digest: "wf_revision sha r \<Longrightarrow> is_digest (rv_digest r)"
  by (simp add: wf_revision_def)

lemma publish_live:
  assumes R: "represents (view t) L" and I: "ledger_inv sha L" and c: "lg_config L = Some c" "cfg_serving c"
    and ident: "configured_identity c (tx_actor ctx) = Ok ident"
      "js ''*'' \<in> set (ident_contexts ident) \<or> context_id (rv_slot r) \<in> set (ident_contexts ident)"
    and r: "wf_revision sha r" "channel_id (rv_slot r) = cfg_channel c" "tx_channel ctx = cfg_channel c"
    and fresh: "lg_revs L (rv_digest r) = None" "lg_ids L (pl_revision_id (rv_payload r)) = None"
    and parents: "\<And>x. x \<in> set (pl_parents (rv_payload r)) \<Longrightarrow> \<exists>q. lg_revs L x = Some q \<and> rv_slot q = rv_slot r"
    and graph: "validate_published_dependency_graph sha (view t) r = Ok ()"
  shows "\<exists>t'. execute_publish sha ctx c (publish_input r (cfg_version c) (cfg_epoch c)) t =
      Ok (publish_result ''published'' r, t') \<and> represents (view t') (publish r L)"
proof -
  have wf: "wf_config c" by (rule ledger_wf(1) [OF I c(1)])
  have pub: "validate_publication sha (publish_input r (cfg_version c) (cfg_epoch c)) = Ok (r, cfg_version c, cfg_epoch c)"
    by (rule validate_publication_input [OF r(1)]) (use wf in \<open>simp_all add: wf_config_def\<close>)
  have par: "parent_check sha (view t) r x = Ok ()" if x: "x \<in> set (pl_parents (rv_payload r))" for x
  proof -
    obtain q where "lg_revs L x = Some q" "rv_slot q = rv_slot r" using parents [OF x] by blast
    then show ?thesis
      using read_ledger [OF R I, of "fail_as PARENT_NOT_FOUND 409 False" x q] by (simp add: parent_check_def)
  qed
  have "publish_check sha ctx c (publish_input r (cfg_version c) (cfg_epoch c)) (view t) = Ok (r, False)"
    using pub par graph c ident r fresh version_equal [of "cfg_version c"] wf present_none(1) [OF R, of "rv_digest r"]
      read_revision_by_id_ledger [OF R I, of "pl_revision_id (rv_payload r)"]
    by (simp add: publish_check_def wf_config_def)
  then have "execute_publish sha ctx c (publish_input r (cfg_version c) (cfg_epoch c)) t = Ok (publish_result ''published'' r,
      put (key_revision_id (pl_revision_id (rv_payload r))) (digest_pointer (rv_digest r)) (put (key_revision (rv_digest r)) (enc_revision r) t))"
    using r(1) by (simp add: execute_publish_def put_clone_eval canon_ok_enc_revision digest_pointer_def)
  then show ?thesis using represents_publish [OF R, of r] by auto
qed

section \<open>Proposing\<close>

lemma propose_live:
  assumes R: "represents (view t) L" and I: "ledger_inv sha L" and c: "lg_config L = Some c" and ctx: "wf_ctx ctx"
    and ident: "configured_identity c (tx_actor ctx) = Ok ident" "ident_can_propose ident"
    and pid: "is_id pid" "lg_props L pid = None" and r: "lg_revs L digest = Some r"
    and pol: "policy_of c i v = Some pol" "pol_slot pol = rv_slot r" "canon_ok (enc_policy pol) 0"
  shows "\<exists>t' res. execute_propose sha ctx c (propose_input pid digest i v) t = Ok (res, t') \<and> canon_ok res 1 \<and>
      represents (view t') (add_proposal (new_proposal ctx c pid r pol) L)"
proof -
  let ?p = "new_proposal ctx c pid r pol"
  have wf: "wf_config c" "wf_policy pol" "wf_revision sha r" "rv_digest r = digest"
    using ledger_wf(1) [OF I c] policy_of_wf pol(1) ledger_wf(2) [OF I r] ledger_ids(1) [OF I r] by blast+
  have key: "pol_id pol = i" "pol_version pol = v" using policy_of_Some [OF pol(1)] by auto
  have "propose_check sha ctx c (propose_input pid digest i v) (view t) = Ok (pid, r, pol)"
    using ident pid pol wf key r read_ledger [OF R I, of "fail_as REVISION_NOT_FOUND 404 False" digest r] present_none(2) [OF R, of pid]
    by (simp add: propose_check_def propose_input_def assert_eval policy_for_def assert_policy_matches_revision_def
        wf_policy_def [of pol] wf_revision_def [of sha r] safe_range)
  moreover have "wf_proposal ?p" by (rule wf_new_proposal [OF ctx wf(1,2,3) pid(1)])
  moreover have "pr_id ?p = pid" by (simp add: new_proposal_def)
  ultimately have ex: "execute_propose sha ctx c (propose_input pid digest i v) t =
      Ok (obj [(''proposal_id'', JStr pid), (''revision_digest'', JStr (rv_digest r)),
              (''slot'', JStr (slot_key (rv_slot r))), (''status'', JStr (js ''proposed''))],
        put (key_policy (pol_id pol) (pol_version pol)) (enc_policy pol) (put (key_review_counter (pr_id ?p)) (JNum (NInt 0))
          (put (key_proposal (pr_id ?p)) (enc_proposal ?p) t)))"
    using pol(3) by (simp add: execute_propose_def put_clone_eval canon_ok_enc_proposal)
  moreover have "policy_of c (pol_id pol) (pol_version pol) = Some pol" using pol(1) key by simp
  then have "represents ((view t)(key_proposal (pr_id ?p) \<mapsto> enc_proposal ?p, key_review_counter (pr_id ?p) \<mapsto> JNum (NInt 0),
     key_policy (pol_id pol) (pol_version pol) \<mapsto> enc_policy pol)) (add_proposal ?p L)"
    by (intro represents_propose [OF R c]) (simp_all add: new_proposal_def)
  moreover have "canon_ok (obj [(''proposal_id'', JStr pid), (''revision_digest'', JStr (rv_digest r)),
              (''slot'', JStr (slot_key (rv_slot r))), (''status'', JStr (js ''proposed''))]) 1"
    using pid valid_slot_key [OF wf_rv_slot [OF wf(3)]] wf_digest [OF wf(3)] by (auto simp: canon_ok_obj)
  ultimately show ?thesis by auto
qed

section \<open>Deciding\<close>

lemma decide_check_live:
  assumes R: "represents w L" and I: "ledger_inv sha L" and c: "lg_config L = Some c"
    and actor: "kind (tx_actor ctx) = Human" "member c (tx_actor ctx)"
    and d: "wf_decision d" and p: "lg_props L (de_proposal d) = Some p"
    and bind: "pr_digest p = de_digest d" "pr_slot p = de_slot d" "decision_binds_proposal d p"
    and chan: "channel_id (de_slot d) = cfg_channel c"
    and pol: "policy_of c (de_policy_id d) (de_policy_version d) = Some pol"
      "decision_word (de_kind d) \<in> set (pol_allowed pol)" "representative_of pol (de_role d) = Some rep"
    and named: "names_actor rep (tx_actor ctx)" "de_org d = org_id (tx_actor ctx)" "de_actor d = actor_id (tx_actor ctx)"
    and fresh: "lg_decs L (de_id d) = None" and retract: "de_kind d = Retract \<Longrightarrow> retraction_ok L d"
    and counter: "pr_counter p < max_safe"
  shows "decide_check sha ctx c (decide_input d) w = Ok (d, p, pr_counter p + 1)"
proof -
  note pok = props_ok [OF ledger_invD(6) [OF I] p c]
  obtain r where r: "lg_revs L (pr_digest p) = Some r" "rv_slot r = pr_slot p"
    using pok unfolding proposal_ok_def by blast
  obtain ident where ident: "configured_identity c (tx_actor ctx) = Ok ident" using actor(2) by (auto simp: member_def)
  have epochs: "de_epoch d = cfg_epoch c" "de_binding d = cfg_binding c"
    using pok bind(3) by (auto simp: proposal_ok_def decision_binds_proposal_def)
  have slot: "pol_slot pol = rv_slot r" using pok pol(1) bind(3) r by (auto simp: proposal_ok_def decision_binds_proposal_def)
  have counter_read: "read_review_counter w p = Ok (pr_counter p)"
    by (rule review_counter_ledger [OF R I]) (use p pok in simp)
  have latest: "get_latest_decision w d = Ok (Option.bind (lg_latest L (seat_of d)) (lg_decs L))"
    by (rule get_latest_decision_ledger [OF R I])
  have ret: "retract_check w d (Option.bind (lg_latest L (seat_of d)) (lg_decs L)) = Ok ()" if "de_kind d = Retract"
  proof -
    have "retraction_ok L d" using retract that by blast
    then obtain i target where t: "de_retracts d = Some i" "lg_decs L i = Some target" "de_org target = de_org d"
        "de_actor target = de_actor d" "de_proposal target = de_proposal d" "de_role target = de_role d"
        "de_kind target \<noteq> Retract" "lg_latest L (seat_of d) = Some (de_id target)"
      by (auto simp: retraction_ok_def)
    then have "lg_decs L (de_id target) = Some target" using ledger_ids(3) [OF I] by metis
    then show ?thesis
      using t read_ledger_decision [OF R I, of "fail_as RETRACT_TARGET_NOT_FOUND 409 False" i target]
      by (simp add: retract_check_def)
  qed
  have "read_required validate_proposal (fail_as PROPOSAL_NOT_FOUND 404 False) w (key_proposal (de_proposal d)) = Ok p"
    using read_ledger_proposal [OF R I] p by simp
  moreover have "read_required (validate_revision sha) (fail_as REVISION_NOT_FOUND 404 False) w (key_revision (de_digest d)) = Ok r"
    using read_ledger [OF R I] r bind by simp
  moreover have "decider_check ctx pol d = Ok ()" using pol named by (simp add: decider_check_def names_actor_def)
  ultimately show ?thesis
    using actor(1) ident d bind chan epochs pol slot r fresh present_none(3) [OF R, of "de_id d"] counter_read latest ret counter
    by (simp add: decide_check_def decide_input_def require_human_def decision.dec_enc policy_for_def
        assert_policy_matches_revision_def assert_eval)
qed

text \<open>A decision that strikes no agreement.\<close>

lemma decide_live:
  assumes R: "represents (view t) L" and I: "ledger_inv sha L" and c: "lg_config L = Some c"
    and check: "decide_check sha ctx c (decide_input d) (view t) = Ok (d, p, pr_counter p + 1)"
    and d: "wf_decision d" and p: "lg_props L (de_proposal d) = Some p" "pr_counter p < max_safe" "pr_slot p = de_slot d"
    and none: "struck_by d L = None"
  shows "\<exists>t' res. execute_decide sha ctx c (decide_input d) t = Ok (res, t') \<and> canon_ok res 1 \<and>
      represents (view t') (add_decision d p L)"
proof -
  note pid = ledger_ids(2) [OF I p(1)] and pwf = ledger_wf(3) [OF I p(1)]
  have slot: "wf_slot (de_slot d)" using d by (simp add: wf_decision_def)
  have p': "wf_proposal (p\<lparr>pr_counter := pr_counter p + 1\<rparr>)" using pwf p(2) by (simp add: wf_proposal_def)
  let ?t = "put (key_review_counter (pr_id p)) (JNum (NInt (pr_counter p + 1)))
     (put (key_proposal (pr_id p)) (enc_proposal (p\<lparr>pr_counter := pr_counter p + 1\<rparr>))
     (put (decision_latest_key d) (decision_pointer (de_id d)) (put (key_decision (de_id d)) (enc_decision d) t)))"
  have rec: "record_decision d p (pr_counter p + 1) t = Ok ?t"
    using d p' by (simp add: record_decision_def put_clone_eval canon_ok_enc_decision canon_ok_enc_proposal decision_pointer_def)
  have R1: "represents (view ?t) (add_decision d p L)" using represents_decision [OF R, of d p] by simp
  have active: "get_active_agreement (view ?t) (de_slot d) = Ok (Option.bind (lg_active L (de_slot d)) (lg_agrs L))"
    using get_active_agreement_ledger [OF R I slot]
    by (simp add: get_active_agreement_frame key_defs decision_latest_key_def)
  have "(if de_kind d \<noteq> Approve
       then suspend_active_agreement ctx (pr_slot p) (suspension_reason (de_kind d)) (Some (de_proposal d)) ?t
       else Ok (None, ?t)) = Ok (None, ?t)"
    using none active p(3) by (auto simp: suspend_active_agreement_def struck_by_def split: option.splits if_splits)
  then have "execute_decide sha ctx c (decide_input d) t = Ok (decide_result d None, ?t)"
    using check rec by (simp add: execute_decide_def)
  moreover have "canon_ok (decide_result d None) 1"
    using d by (auto simp: decide_result_def canon_ok_obj wf_decision_def)
  ultimately show ?thesis using R1 by blast
qed

section \<open>Activating\<close>

lemma collect_approvals_live:
  assumes R: "represents w L" and I: "ledger_inv sha L" and p: "lg_props L (pr_id p) = Some p"
  shows "list_all2 (approves L pol p) roles new \<Longrightarrow> distinct (ids @ new) \<Longrightarrow>
    foldR (collect_approval w pol p) roles ids = Ok (ids @ new)"
proof (induction roles arbitrary: ids new)
  case (Cons role roles)
  then obtain i rest where new: "new = i # rest" and i: "approves L pol p role i"
    and rest: "list_all2 (approves L pol p) roles rest" by (auto simp: list_all2_Cons1)
  obtain r d where r: "representative_of pol role = Some r" and l: "lg_latest L (rep_seat p r role) = Some i"
    and d: "lg_decs L i = Some d" "de_id d = i" "de_kind d = Approve" "de_role d = role" "de_org d = rep_org r"
      "de_actor d = rep_actor r" "approval_matches_proposal d p"
    using i by (auto simp: approves_def)
  have "present w (key_latest_decision (pr_id p) (pr_policy_version p) role (rep_org r) (rep_actor r)) = Some (decision_pointer i)"
    using representsD(8) [OF R] l by (simp add: rep_seat_def)
  moreover have "is_id i" using ledger_wf(4) [OF I d(1)] d(2) by (auto simp: wf_decision_def)
  then have "key_of_reference (JStr i) = Ok (key_decision i)" by (auto simp: key_of_reference_def)
  moreover have "read_required validate_decision corrupt_state w (key_decision i) = Ok d"
    using read_ledger_decision [OF R I] d by simp
  ultimately have "collect_approval w pol p role ids = Ok (ids @ [i])"
    using r d Cons.prems(2) new representative_of_Some [OF r]
    by (simp add: collect_approval_def decision_pointer_def assert_eval)
  then show ?case using Cons.IH [OF rest, of "ids @ [i]"] Cons.prems(2) new by simp
qed simp

lemma dependency_leaf:
  "\<forall>x \<in> set (pl_dependencies (rv_payload r)). dep_enforcement x \<noteq> RequiresActive \<Longrightarrow>
   dependency_eligible sha w r 0 {} = Ok ()"
proof -
  have "\<forall>x \<in> set ds. dep_enforcement x \<noteq> RequiresActive \<Longrightarrow> foldR (dependency_step sha w r n seen) ds st = Ok st" for ds n seen st
    by (induction ds) (auto simp: dependency_step_def split: prod.split)
  then show "\<forall>x \<in> set (pl_dependencies (rv_payload r)). dep_enforcement x \<noteq> RequiresActive \<Longrightarrow> ?thesis"
    by (simp add: dependency_eligible_def)
qed

lemma activate_live:
  assumes R: "represents (view t) L" and I: "ledger_inv sha L" and c: "lg_config L = Some c"
    and actor: "kind (tx_actor ctx) = Human" "member c (tx_actor ctx)" "wf_ctx ctx"
    and aid: "is_id aid" "lg_agrs L aid = None"
    and p: "lg_props L pid = Some p" "pr_status p = Open" and r: "lg_revs L (pr_digest p) = Some r"
    and pol: "policy_of c (pr_policy_id p) (pr_policy_version p) = Some pol"
    and expected: "lg_active L (rv_slot r) = expected" and other: "\<not> in_force L (rv_slot r) (rv_digest r)"
    and ids: "list_all2 (approves L pol p) (pol_roles pol) ids" "distinct ids"
    and deps: "dependency_eligible sha (view t) r 0 {} = Ok ()" and epoch: "lg_epoch L < max_safe"
  shows "\<exists>t' res. execute_activate sha ctx c (activate_input pid aid expected) t = Ok (res, t') \<and> canon_ok res 1 \<and>
      represents (view t') (activate ctx (new_agreement ctx c aid p r pol ids) p L)"
proof -
  let ?a = "new_agreement ctx c aid p r pol ids"
  note pok = props_ok [OF ledger_invD(6) [OF I] p(1) c]
  have wf: "wf_revision sha r" by (rule ledger_wf(2) [OF I r])
  have slots: "pr_slot p = rv_slot r" "pol_slot pol = rv_slot r" using pok r pol by (auto simp: proposal_ok_def)
  obtain ident where ident: "configured_identity c (tx_actor ctx) = Ok ident" using actor(2) by (auto simp: member_def)
  let ?cur = "Option.bind expected (lg_agrs L)"
  have cur: "get_active_agreement (view t) (pr_slot p) = Ok ?cur"
    using get_active_agreement_ledger [OF R I wf_rv_slot [OF wf]] slots expected by simp
  have curid: "map_option ag_id ?cur = expected" "case ?cur of None \<Rightarrow> True | Some a \<Rightarrow> ag_digest a \<noteq> rv_digest r"
    "pred_option is_id expected"
  proof -
    show "map_option ag_id ?cur = expected"
      using active_agreement [OF ledger_invD(10) [OF I], of "rv_slot r"] ledger_ids(4) [OF I] expected
      by (cases expected) auto
    show "case ?cur of None \<Rightarrow> True | Some a \<Rightarrow> ag_digest a \<noteq> rv_digest r"
      using other expected active_agreement [OF ledger_invD(10) [OF I], of "rv_slot r"]
      by (cases expected) (auto simp: in_force_def)
    show "pred_option is_id expected"
    proof (cases expected)
      case (Some i)
      then obtain a where "lg_agrs L i = Some a"
        using active_agreement [OF ledger_invD(10) [OF I], of "rv_slot r" i] expected by blast
      then show ?thesis using Some ledger_wf(5) [OF I] ledger_ids(4) [OF I] by (fastforce simp: wf_agreement_def)
    qed simp
  qed
  have exp: "expected_agreement (case expected of None \<Rightarrow> JNull | Some i \<Rightarrow> JStr i) = Ok expected"
    using curid(3) by (cases expected) (auto simp: expected_agreement_def)
  have approvals: "foldR (collect_approval (view t) pol p) (pol_roles pol) [] = Ok ids"
    using collect_approvals_live [OF R I _ ids(1), of "[]"] ids(2) p pok by simp
  have ids_ok: "pr_id p = pid" "is_id pid" "pr_epoch p = cfg_epoch c" "pr_binding p = cfg_binding c"
    using pok by (auto simp: proposal_ok_def wf_proposal_def)
  have check: "activate_check sha ctx c (activate_input pid aid expected) (view t) = Ok (aid, p, r, pol, ?cur, ids)"
    using actor ident aid exp ids_ok p r pol slots cur curid approvals deps present_none(4) [OF R, of aid]
      read_ledger_proposal [OF R I, of "fail_as PROPOSAL_NOT_FOUND 404 False" pid p]
      read_ledger [OF R I, of "fail_as REVISION_NOT_FOUND 404 False" "pr_digest p" r]
      review_counter_ledger [OF R I, of p]
    by (simp add: activate_check_def activate_input_def require_human_def assert_eval policy_for_def
        assert_policy_matches_revision_def)
  have act: "activatable ctx c aid p r pol ids L"
    using c actor aid p pok r pol slots ids epoch by (simp add: activatable_def)
  have wfa: "wf_agreement ?a" by (rule wf_new_agreement [OF I act])
  have wfp: "wf_proposal (p\<lparr>pr_status := Activated, pr_agreement := Some aid\<rparr>)"
    using pok [THEN conjunct1] aid by (simp add: wf_proposal_def)
  let ?t1 = "put key_eligibility_epoch (JNum (NInt (lg_epoch L + 1))) t"
  have inc: "increment_epoch t = Ok (lg_epoch L + 1, ?t1)" using increment_epoch_ledger [OF R I c] epoch by simp
  obtain t2 where t2: "supersede ctx ?cur ?t1 = Ok t2"
  proof (cases ?cur)
    case (Some b)
    then obtain i where "lg_agrs L i = Some b" by (auto simp: bind_eq_Some_conv)
    then have "wf_agreement (change_status ctx Superseded (js ''replaced_by_new_active_agreement'') b)"
      using wf_change_status ledger_wf(5) [OF I] actor(3) by (simp add: text_ok_js)
    then show ?thesis using Some that by (simp add: supersede_def put_clone_eval canon_ok_enc_agreement)
  qed (simp add: supersede_def that)
  let ?res = "obj [(''agreement_id'', JStr aid), (''eligibility_epoch'', JNum (NInt (lg_epoch L + 1))),
      (''revision_digest'', JStr (rv_digest r)), (''slot'', JStr (slot_key (rv_slot r))), (''status'', JStr (js ''active''))]"
  obtain t' where "execute_activate sha ctx c (activate_input pid aid expected) t = Ok (?res, t')"
    using check inc t2 wfa wfp
    by (simp add: execute_activate_def Let_def put_clone_eval canon_ok_enc_agreement canon_ok_enc_proposal)
  moreover have "canon_ok ?res 1"
    using aid epoch ledger_invD(12) [OF I] valid_slot_key [OF wf_rv_slot [OF wf]] wf_digest [OF wf]
    by (auto simp: canon_ok_obj inv_epoch_def canon_ok_int)
  ultimately show ?thesis using execute_activate_represents [OF R I c actor(3) check] by blast
qed

section \<open>Withdrawing and suspending\<close>

lemma status_live:
  assumes R: "represents (view t) L" and I: "ledger_inv sha L" and c: "lg_config L = Some c"
    and actor: "kind (tx_actor ctx) = Human" "member c (tx_actor ctx)" "wf_ctx ctx"
    and reason: "text_ok 1000 x" and a: "lg_agrs L aid = Some a" "ag_status a = Active"
    and pol: "policy_of c (ag_policy_id a) (ag_policy_version a) = Some pol"
    and rep: "rep \<in> set (pol_reps pol)" "names_actor rep (tx_actor ctx)" and epoch: "lg_epoch L < max_safe"
  shows "\<exists>t' res. execute_status_change ctx c (status_input aid x) st t = Ok (res, t') \<and> canon_ok res 1 \<and>
      represents (view t') (end_agreement ctx st x a L)"
proof -
  note wf = ledger_wf(5) [OF I a(1)] and id_ = ledger_ids(4) [OF I a(1)]
  have aid: "is_id aid" using wf id_ by (auto simp: wf_agreement_def)
  have slot: "wf_slot (ag_slot a)" using wf by (simp add: wf_agreement_def)
  obtain ident where ident: "configured_identity c (tx_actor ctx) = Ok ident" using actor(2) by (auto simp: member_def)
  have check: "status_check ctx c (status_input aid x) (view t) = Ok (a, x)"
    using actor(1) ident aid reason pol rep a read_ledger_agreement [OF R I, of "fail_as AGREEMENT_NOT_FOUND 404 False" aid a]
    by (auto simp: status_check_def status_input_def require_human_def assert_eval policy_for_def names_actor_def)
  let ?b = "change_status ctx st x a"
  let ?t1 = "put (key_active_slot (ag_slot a)) no_agreement (put (key_agreement (ag_id a)) (enc_agreement ?b) t)"
  have wfb: "wf_agreement ?b" by (rule wf_change_status [OF wf actor(3) reason])
  have "present (view ?t1) key_eligibility_epoch = Some (JNum (NInt (lg_epoch L)))"
    using representsD(2) [OF R] c by (simp add: present_put key_defs)
  then have inc: "increment_epoch ?t1 = Ok (lg_epoch L + 1, put key_eligibility_epoch (JNum (NInt (lg_epoch L + 1))) ?t1)"
    using increment_epoch_at [of ?t1 "lg_epoch L"] epoch ledger_invD(12) [OF I] by (simp add: inv_epoch_def)
  have "execute_status_change ctx c (status_input aid x) st t =
      Ok (obj [(''agreement_id'', JStr (ag_id a)), (''eligibility_epoch'', JNum (NInt (lg_epoch L + 1))),
              (''status'', JStr (status_word st))], put key_eligibility_epoch (JNum (NInt (lg_epoch L + 1))) ?t1)"
    using check inc wfb by (simp add: execute_status_change_def put_clone_eval canon_ok_enc_agreement)
  moreover have "canon_ok (obj [(''agreement_id'', JStr (ag_id a)), (''eligibility_epoch'', JNum (NInt (lg_epoch L + 1))),
              (''status'', JStr (status_word st))]) 1"
    using aid id_ epoch ledger_invD(12) [OF I] by (auto simp: canon_ok_obj inv_epoch_def canon_ok_int)
  moreover have "represents (view (put key_eligibility_epoch (JNum (NInt (lg_epoch L + 1))) ?t1)) (end_agreement ctx st x a L)"
    using represents_end [OF R _ slot] c by simp
  ultimately show ?thesis by blast
qed

section \<open>Bootstrap\<close>

lemma put_policies_Ok:
  "\<forall>p \<in> set ps. canon_ok (enc_policy p) 0 \<Longrightarrow> \<exists>t'. foldR put_policy ps t = Ok t'"
  by (induction ps arbitrary: t) (auto simp: put_policy_def put_clone_eval)

lemma canon_ok_policies: "canon_ok (enc_config c) 0 \<Longrightarrow> p \<in> set (cfg_policies c) \<Longrightarrow> canon_ok (enc_policy p) 0"
  by (rule canon_ok_mono [of _ "Suc (Suc 0)"]) (auto simp: enc_config_def canon_ok_obj)

lemma bootstrap_live:
  assumes ctx: "assert_context ctx = Ok ()" "kind (tx_actor ctx) = Human" "tx_channel ctx = cfg_channel c"
    and c: "wf_config c" "canon_ok (enc_config c) 0"
  shows "\<exists>w res. commit sha ctx (Bootstrap (enc_config c)) Map.empty = Ok (res, w) \<and>
      represents w (empty_ledger\<lparr>lg_config := Some c\<rparr>) \<and> (\<forall>org cid. present w (key_idempotency org cid) = None)"
proof -
  let ?t = "begin_tx Map.empty"
  have ch: "fld (enc_config c) ''channel_id'' = JStr (cfg_channel c)" by (simp add: enc_config_def)
  obtain t' where "foldR put_policy (cfg_policies c) (put key_eligibility_epoch (JNum (NInt 0)) (put key_config (enc_config c) ?t)) = Ok t'"
    using put_policies_Ok canon_ok_policies [OF c(2)] by blast
  then obtain res where b: "bootstrap ctx (enc_config c) ?t = Ok (res, t')"
    using ctx c ch by (simp add: bootstrap_def config.dec_enc put_clone_eval)
  have R: "represents (view ?t) empty_ledger" by (simp add: represents_empty)
  obtain d where "validate_config (enc_config c) = Ok d" "represents (view t') (empty_ledger\<lparr>lg_config := Some d, lg_epoch := 0\<rparr>)"
    using bootstrap_represents [OF R empty_ledger_inv b] by blast
  then have "represents (view t') (empty_ledger\<lparr>lg_config := Some c, lg_epoch := 0\<rparr>)"
    using config.dec_enc [OF c(1)] by simp
  moreover have "empty_ledger\<lparr>lg_config := Some c, lg_epoch := 0\<rparr> = empty_ledger\<lparr>lg_config := Some c\<rparr>"
    by (simp add: empty_ledger_def)
  moreover have "commit sha ctx (Bootstrap (enc_config c)) Map.empty = Ok (res, view t')"
    using b by (auto simp: commit_iff invoke_def)
  moreover have "\<forall>org cid. present (view t') (key_idempotency org cid) = None"
    using outcomes.bootstraps [OF b, of "\<lambda>_ _. None"] by simp
  ultimately show ?thesis by auto
qed

end
