(* ===== verification/Idempotency.thy ===== *)
theory Idempotency
  imports Liveness
begin

text \<open>
  Retries: the record of a command's outcome is written once, with the command's effects, and a
  repetition of the command returns that outcome and changes nothing.
\<close>

section \<open>Later states\<close>

inductive later :: "sha_fn \<Rightarrow> world \<Rightarrow> world \<Rightarrow> bool" for sha where
  now: "later sha w w"
| next_commit: "later sha w w1 \<Longrightarrow> commit sha ctx rq w1 = Ok (res, w2) \<Longrightarrow> later sha w w2"

lemma later_reachable: "later sha w w' \<Longrightarrow> reachable sha w \<Longrightarrow> reachable sha w'"
  by (induction rule: later.induct) (auto intro: reachable.invoked)

lemma later_trans: "later sha w1 w2 \<Longrightarrow> later sha w w1 \<Longrightarrow> later sha w w2"
  by (induction rule: later.induct) (auto intro: later.next_commit)

section \<open>Outcome records\<close>

lemma jnorm_idempotency_record [simp]:
  "jnorm (idempotency_record ctx cid ty digest res) = idempotency_record ctx cid ty digest (jnorm res)"
  unfolding idempotency_record_def by (subst jnorm_obj) (simp_all add: name_order)

lemma idempotency_record_present [simp]:
  "idempotency_record ctx cid ty digest res \<noteq> JUndef" "idempotency_record ctx cid ty digest res \<noteq> JNull"
  by (simp_all add: idempotency_record_def)

text \<open>What \<open>execute\<close> does once its entry checks have passed.\<close>

lemma execute_entered:
  assumes "assert_context ctx = Ok ()" and "validate_command cmd = Ok (cid, ty, input)"
    and "read_config (view t) = Ok c" and "tx_channel ctx = cfg_channel c" and "member c (tx_actor ctx)"
    and "idempotency_digest sha ty input = Ok digest"
  shows "execute sha ctx cmd t = (case present (view t) (key_idempotency (org_id (tx_actor ctx)) cid) of
       Some prior \<Rightarrow> rbind (replay ctx ty digest prior) (\<lambda>result. Ok (result, t))
     | None \<Rightarrow> rbind (perform_command sha ctx c ty input t) (\<lambda>(result, t1).
         rbind (clone_canonical result) (\<lambda>stored_result.
         rbind (put_clone (key_idempotency (org_id (tx_actor ctx)) cid) (idempotency_record ctx cid ty digest stored_result) t1) (\<lambda>t2.
         Ok (result, t2)))))"
proof -
  obtain ident where "configured_identity c (tx_actor ctx) = Ok ident" using assms(5) by (auto simp: member_def)
  then show ?thesis using assms by (simp add: execute_def Let_def)
qed

lemma execute_inv:
  assumes "execute sha ctx cmd t = Ok (res, t')"
  shows "\<exists>cid ty input c digest. assert_context ctx = Ok () \<and> validate_command cmd = Ok (cid, ty, input) \<and>
    read_config (view t) = Ok c \<and> tx_channel ctx = cfg_channel c \<and> member c (tx_actor ctx) \<and>
    idempotency_digest sha ty input = Ok digest"
  using assms by (auto simp: execute_def Let_def member_def)

lemma replay_record:
  "replay ctx ty digest (idempotency_record ctx' cid ty' digest' res) =
     (if digest' \<noteq> digest \<or> ty' \<noteq> ty \<or> tx_actor ctx' \<noteq> tx_actor ctx then fail_as IDEMPOTENCY_CONFLICT 409 False
      else clone_canonical res)"
proof -
  have "enc_kind k = enc_kind l \<longleftrightarrow> k = l" for k l by (cases k; cases l) simp_all
  then show ?thesis
    by (auto simp: replay_def idempotency_record_def assert_eval same_raw_actor_def enc_actor_def require_as_def)
qed

lemma replay_jnorm: "replay ctx ty digest prior = Ok res \<Longrightarrow> jnorm res = res"
  by (auto simp: replay_def jnorm_idem split: if_splits)

text \<open>The first execution leaves its record; a record in place is only read.\<close>

lemma execute_outcome:
  assumes ex: "execute sha ctx cmd t = Ok (res, t')" and cmd: "validate_command cmd = Ok (cid, ty, input)"
    and digest: "idempotency_digest sha ty input = Ok digest"
  shows "(present (view t) (key_idempotency (org_id (tx_actor ctx)) cid) = None \<and>
       present (view t') (key_idempotency (org_id (tx_actor ctx)) cid) =
         Some (idempotency_record ctx cid ty digest (jnorm res)) \<and> canon_ok res 0) \<or>
     (\<exists>prior. present (view t) (key_idempotency (org_id (tx_actor ctx)) cid) = Some prior \<and> t' = t \<and>
       replay ctx ty digest prior = Ok res)"
proof -
  obtain c where c: "assert_context ctx = Ok ()" "read_config (view t) = Ok c" "tx_channel ctx = cfg_channel c"
      "member c (tx_actor ctx)"
    using execute_inv [OF ex] by blast
  show ?thesis
    using ex unfolding execute_entered [OF c(1) cmd c(2-4) digest]
    by (auto simp: present_put split: option.splits)
qed

lemma execute_other_outcomes:
  assumes ex: "execute sha ctx cmd t = Ok (res, t')" and old: "present (view t) (key_idempotency org cid) = Some v"
  shows "present (view t') (key_idempotency org cid) = Some v"
proof -
  obtain cid' ty input c digest where e: "assert_context ctx = Ok ()" "validate_command cmd = Ok (cid', ty, input)"
      "read_config (view t) = Ok c" "tx_channel ctx = cfg_channel c" "member c (tx_actor ctx)"
      "idempotency_digest sha ty input = Ok digest"
    using execute_inv [OF ex] by blast
  show ?thesis
  proof (cases "present (view t) (key_idempotency (org_id (tx_actor ctx)) cid')")
    case None
    then obtain t1 r where p: "perform_command sha ctx c ty input t = Ok (res, t1)"
      and t': "view t' = (view t1)(key_idempotency (org_id (tx_actor ctx)) cid' \<mapsto> r)"
      using ex unfolding execute_entered [OF e] by auto
    have "present (view t1) (key_idempotency org cid) = Some v"
      using outcomes.performs [OF p, of "\<lambda>org cmd. present (view t) (key_idempotency org cmd)"] old by simp
    moreover have "key_idempotency org cid \<noteq> key_idempotency (org_id (tx_actor ctx)) cid'"
      using None old by auto
    ultimately show ?thesis unfolding t' by (simp add: present_put)
  qed (use ex old in \<open>auto simp: execute_entered [OF e]\<close>)
qed

lemma commit_keeps_outcome:
  assumes "commit sha ctx rq w = Ok (res, w')" and "present w (key_idempotency org cid) = Some v"
  shows "present w' (key_idempotency org cid) = Some v"
proof -
  obtain t where t: "invoke sha ctx rq (begin_tx w) = Ok (res, t)" "w' = view t" using assms(1) commit_iff by blast
  show ?thesis
  proof (cases rq)
    case (Bootstrap input)
    then have "bootstrap ctx input (begin_tx w) = Ok (res, t)" using t by (simp add: invoke_def)
    from outcomes.bootstraps [OF this, of "\<lambda>org cmd. present w (key_idempotency org cmd)"]
    show ?thesis using assms(2) t by simp
  next
    case (Execute cmd)
    then show ?thesis using execute_other_outcomes [of sha ctx cmd "begin_tx w" res t] assms(2) t by (simp add: invoke_def)
  qed
qed

lemma later_keeps_outcome:
  "later sha w w' \<Longrightarrow> present w (key_idempotency org cid) = Some v \<Longrightarrow> present w' (key_idempotency org cid) = Some v"
  by (induction rule: later.induct) (auto dest: commit_keeps_outcome)

text \<open>The configuration, and with it who may act in which channel, never changes.\<close>

lemma commit_keeps_config:
  assumes "reachable sha w" and "commit sha ctx rq w = Ok (res, w')" and "read_config w = Ok c"
  shows "read_config w' = Ok c"
proof -
  obtain L M where L: "represents w L" "ledger_inv sha L" "represents w' M" "ledger_inv sha M" "evolves L M"
    using commit_evolves [OF assms(1,2)] by blast
  then have "lg_config L = Some c" using read_ledger_config assms(3) by blast
  then have "lg_config M = Some c" by (rule evolvesD(1) [OF L(5)])
  then show ?thesis using read_ledger_config L(3,4) by blast
qed

lemma later_keeps_config:
  "later sha w w' \<Longrightarrow> reachable sha w \<Longrightarrow> read_config w = Ok c \<Longrightarrow> read_config w' = Ok c"
  by (induction rule: later.induct) (auto dest: commit_keeps_config later_reachable)

section \<open>Retries\<close>

text \<open>The record that a successful command leaves, whether it ran or was itself a retry.\<close>

lemma command_recorded:
  assumes w: "reachable sha w" and first: "commit sha ctx (Execute cmd) w = Ok (res, w1)"
  shows "\<exists>cid ty input c digest. validate_command cmd = Ok (cid, ty, input) \<and>
     idempotency_digest sha ty input = Ok digest \<and> read_config w1 = Ok c \<and> tx_channel ctx = cfg_channel c \<and>
     member c (tx_actor ctx) \<and>
     (\<exists>prior. present w1 (key_idempotency (org_id (tx_actor ctx)) cid) = Some prior \<and>
        (\<forall>ctx'. tx_actor ctx' = tx_actor ctx \<longrightarrow> replay ctx' ty digest prior = Ok (jnorm res)))"
proof -
  obtain t where t: "execute sha ctx cmd (begin_tx w) = Ok (res, t)" "w1 = view t"
    using first by (auto simp: commit_iff invoke_def)
  obtain cid ty input c digest where e: "validate_command cmd = Ok (cid, ty, input)" "read_config w = Ok c"
      "tx_channel ctx = cfg_channel c" "member c (tx_actor ctx)" "idempotency_digest sha ty input = Ok digest"
    using execute_inv [OF t(1)] by auto
  have c1: "read_config w1 = Ok c" by (rule commit_keeps_config [OF w first e(2)])
  have same: "tx_actor ctx' = tx_actor ctx \<Longrightarrow> replay ctx' ty digest prior = replay ctx ty digest prior" for ctx' prior
    by (simp add: replay_def)
  note outcome = execute_outcome [OF t(1) e(1,5)]
  obtain prior where prior: "present w1 (key_idempotency (org_id (tx_actor ctx)) cid) = Some prior"
      "replay ctx ty digest prior = Ok (jnorm res)"
    using outcome
  proof (elim disjE conjE exE)
    assume "present (view t) (key_idempotency (org_id (tx_actor ctx)) cid) = Some (idempotency_record ctx cid ty digest (jnorm res))"
      and "canon_ok res 0"
    then show thesis
      by (intro that [of "idempotency_record ctx cid ty digest (jnorm res)"]) (simp_all add: t(2) replay_record jnorm_idem)
  next
    fix prior assume "present (view (begin_tx w)) (key_idempotency (org_id (tx_actor ctx)) cid) = Some prior"
      and "t = begin_tx w" and r: "replay ctx ty digest prior = Ok res"
    then show thesis using r by (intro that [of prior]) (simp_all add: t(2) replay_jnorm [OF r])
  qed
  have all: "\<forall>ctx'. tx_actor ctx' = tx_actor ctx \<longrightarrow> replay ctx' ty digest prior = Ok (jnorm res)"
    using same prior(2) by metis
  show ?thesis
    by (rule exI [of _ cid], rule exI [of _ ty], rule exI [of _ input], rule exI [of _ c], rule exI [of _ digest],
        intro conjI e c1 exI [of _ prior] prior(1) all)
qed

lemma retry_in_later_state:
  assumes w: "reachable sha w" and first: "commit sha ctx (Execute cmd) w = Ok (res, w1)" and l: "later sha w1 w2"
    and ctx': "assert_context ctx' = Ok ()" "tx_actor ctx' = tx_actor ctx" "tx_channel ctx' = tx_channel ctx"
  shows "commit sha ctx' (Execute cmd) w2 = Ok (jnorm res, w2)"
proof -
  obtain cid ty input c digest prior where e: "validate_command cmd = Ok (cid, ty, input)"
      "idempotency_digest sha ty input = Ok digest" "read_config w1 = Ok c" "tx_channel ctx = cfg_channel c"
      "member c (tx_actor ctx)" "present w1 (key_idempotency (org_id (tx_actor ctx)) cid) = Some prior"
      "\<forall>ctx'. tx_actor ctx' = tx_actor ctx \<longrightarrow> replay ctx' ty digest prior = Ok (jnorm res)"
    using command_recorded [OF w first] by blast
  have "reachable sha w1" using w first by (rule reachable.invoked)
  then have c2: "read_config (view (begin_tx w2)) = Ok c" using later_keeps_config [OF l _ e(3)] by simp
  have chan: "tx_channel ctx' = cfg_channel c" and mem: "member c (tx_actor ctx')" using ctx' e(4,5) by simp_all
  have "execute sha ctx' cmd (begin_tx w2) = Ok (jnorm res, begin_tx w2)"
    using execute_entered [OF ctx'(1) e(1) c2 chan mem e(2)] later_keeps_outcome [OF l e(6)] e(7) ctx'(2) by simp
  then have "commit sha ctx' (Execute cmd) w2 = Ok (jnorm res, view (begin_tx w2))"
    unfolding commit_iff by (auto simp: invoke_def)
  then show ?thesis by simp
qed

text \<open>Another request, or another actor of the organisation, under the same command id.\<close>

lemma reuse_in_later_state:
  assumes w: "reachable sha w" and first: "commit sha ctx (Execute cmd) w = Ok (res, w1)" and new: "present w
      (key_idempotency (org_id (tx_actor ctx)) cid) = None" and l: "later sha w1 w2"
    and cmd: "validate_command cmd = Ok (cid, ty, input)" "idempotency_digest sha ty input = Ok digest"
    and cmd': "validate_command cmd' = Ok (cid, ty', input')" "idempotency_digest sha ty' input' = Ok digest'"
    and ctx': "assert_context ctx' = Ok ()" "org_id (tx_actor ctx') = org_id (tx_actor ctx)" "tx_channel ctx' = tx_channel ctx"
      "read_config w2 = Ok c" "member c (tx_actor ctx')"
    and other: "digest' \<noteq> digest \<or> ty' \<noteq> ty \<or> tx_actor ctx' \<noteq> tx_actor ctx"
  shows "commit sha ctx' (Execute cmd') w2 = Err (DomainError IDEMPOTENCY_CONFLICT 409 False)"
proof -
  obtain t where t: "execute sha ctx cmd (begin_tx w) = Ok (res, t)" "w1 = view t"
    using first by (auto simp: commit_iff invoke_def)
  have "present w1 (key_idempotency (org_id (tx_actor ctx)) cid) = Some (idempotency_record ctx cid ty digest (jnorm res))"
    using execute_outcome [OF t(1) cmd] new t(2) by auto
  then have p: "present (view (begin_tx w2)) (key_idempotency (org_id (tx_actor ctx')) cid) =
      Some (idempotency_record ctx cid ty digest (jnorm res))"
    using later_keeps_outcome [OF l] ctx'(2) by simp
  obtain c0 where "read_config w = Ok c0" "tx_channel ctx = cfg_channel c0" using execute_inv [OF t(1)] by auto
  moreover have "reachable sha w1" using w first by (rule reachable.invoked)
  ultimately have "read_config w2 = Ok c0"
    using later_keeps_config [OF l] commit_keeps_config [OF w first] by blast
  then have chan: "tx_channel ctx' = cfg_channel c" using \<open>tx_channel ctx = cfg_channel c0\<close> ctx'(3,4) by simp
  have c2: "read_config (view (begin_tx w2)) = Ok c" using ctx'(4) by simp
  have "execute sha ctx' cmd' (begin_tx w2) = Err (DomainError IDEMPOTENCY_CONFLICT 409 False)"
    using execute_entered [OF ctx'(1) cmd'(1) c2 chan ctx'(5) cmd'(2)] p other
    by (auto simp: replay_record fail_as_def)
  then show ?thesis by (simp add: commit_def invoke_def)
qed

end
