(* ===== verification/PlainWrites.thy ===== *)
theory PlainWrites
  imports JsonText Idempotency
begin

text \<open>
  Everything that the engine writes is plain: integers, strings, booleans, arrays and objects with distinct
  property names. Its properties are moreover in code-unit order, so the value is also its own canonical form.
  It therefore survives the trip through the JSON texts in which the adapters store it.
\<close>

section \<open>Encoded records are plain\<close>

lemma plain_enc_words [simp]:
  "plain (enc_kind k)" "plain (enc_enforcement e)" "plain (enc_source_kind s)" "plain (enc_version x)" "plain (enc_proposal_status ps)"
proof -
  show "plain (enc_kind k)" by (cases k) simp_all
  show "plain (enc_enforcement e)" by (cases e) simp_all
  show "plain (enc_source_kind s)" by (cases s) simp_all
  show "plain (enc_version x)" by (cases x) simp_all
  show "plain (enc_proposal_status ps)" by (cases ps) simp_all
qed

lemma plain_enc_small [simp]:
  "plain (enc_actor a)" "plain (enc_dependency d)" "plain (enc_assertion sa)" "plain (enc_representative r)"
  "plain (digest_pointer i)" "plain (decision_pointer i)" "plain (points_to i)" "plain no_agreement"
  by (simp_all add: enc_actor_def enc_dependency_def enc_assertion_def enc_representative_def digest_pointer_def
      decision_pointer_def points_to_def no_agreement_def)

lemma plain_map_JStr [simp]: "list_all plain (map JStr xs)"
  by (induction xs) simp_all

lemma plain_map_enc [simp]: "(\<And>x. plain (f x)) \<Longrightarrow> list_all plain (map f xs)"
  by (simp add: list_all_iff)

lemma plain_enc [simp]:
  "plain (enc_metadata m)" "plain (enc_payload p)" "plain (enc_revision r)" "plain (enc_policy pol)"
  "plain (enc_identity i)" "plain (enc_config c)" "plain (enc_proposal pr)" "plain (enc_decision d)" "plain (enc_agreement a)"
proof -
  show m: "plain (enc_metadata m)" for m by (simp add: enc_metadata_def)
  show p: "plain (enc_payload p)" for p by (simp add: enc_payload_def m)
  show "plain (enc_revision r)" by (simp add: enc_revision_def p)
  show pol: "plain (enc_policy pol)" for pol by (simp add: enc_policy_def)
  show i: "plain (enc_identity i)" for i by (simp add: enc_identity_def)
  show "plain (enc_config c)" by (simp add: enc_config_def pol i)
  show "plain (enc_proposal pr)" by (cases "pr_agreement pr") (simp_all add: enc_proposal_def opt_prop_def)
  show "plain (enc_decision d)" by (cases "de_retracts d") (simp_all add: enc_decision_def opt_prop_def)
  show "plain (enc_agreement a)"
    by (cases "ag_changed_at a"; cases "ag_changed_by a"; cases "ag_reason a") (simp_all add: enc_agreement_def opt_prop_def)
qed

lemma plain_norm_enc [simp]: "plain v \<Longrightarrow> plain (jnorm v)"
  by (rule plain_jnorm)

definition settled :: "json \<Rightarrow> bool" where
  "settled v \<longleftrightarrow> plain v \<and> jnorm v = v"

lemma settled_jnorm [simp]: "plain v \<Longrightarrow> settled (jnorm v)"
  by (simp add: settled_def plain_jnorm)

lemma settled_enc [simp]:
  "settled (enc_payload p)" "settled (enc_revision r)" "settled (enc_policy pol)" "settled (enc_config c)"
  "settled (enc_proposal pr)" "settled (enc_decision d)" "settled (enc_agreement a)" "settled (enc_actor ac)"
  by (simp_all add: settled_def)

lemma settled_scalar [simp]: "settled (JStr s)" "settled (JNum (NInt i))" "settled (JBool b)" "settled JNull"
  by (simp_all add: settled_def)

lemma settled_obj:
  assumes "ascending (map fst kvs)"
  shows "settled (obj kvs) \<longleftrightarrow> distinct (map fst kvs) \<and> list_all (\<lambda>(k, x). settled x) kvs"
proof -
  have "obj (map (\<lambda>(k, x). (k, jnorm x)) kvs) = obj kvs \<longleftrightarrow> list_all (\<lambda>(k, x). jnorm x = x) kvs"
    unfolding obj_def by (induction kvs) auto
  then show ?thesis using jnorm_obj [OF assms] by (auto simp: settled_def list_all_iff)
qed

lemma settled_pointers [simp]:
  "settled (digest_pointer i)" "settled (decision_pointer i)" "settled (points_to i)" "settled no_agreement"
  by (simp_all add: settled_obj digest_pointer_def decision_pointer_def points_to_def no_agreement_def)

lemma settled_record: "settled res \<Longrightarrow> settled (idempotency_record ctx cid ty digest res)"
  by (simp add: idempotency_record_def settled_obj name_order)

lemma settled_same: "settled v \<Longrightarrow> jnorm v = v"
  by (simp add: settled_def)

text \<open>Every key that the engine uses is built by \<open>stateKey\<close>.\<close>

definition engine_key :: "jstr \<Rightarrow> bool" where
  "engine_key k \<longleftrightarrow> (\<exists>kd ps. k = state_key kd ps)"

lemma engine_keys [simp]:
  "engine_key key_config" "engine_key (key_revision i)" "engine_key (key_revision_id i)" "engine_key (key_policy i z)"
  "engine_key (key_proposal i)" "engine_key (key_decision i)" "engine_key (key_latest_decision i z role org actor)"
  "engine_key (key_review_counter i)" "engine_key (key_agreement i)" "engine_key (key_active_slot s)"
  "engine_key key_eligibility_epoch" "engine_key (key_idempotency org i)" "engine_key (key_fence i)"
  "engine_key (decision_latest_key d)"
  by (auto simp: engine_key_def key_config_def key_revision_def key_revision_id_def key_policy_def key_proposal_def
      key_decision_def key_latest_decision_def key_review_counter_def key_agreement_def key_active_slot_def
      key_eligibility_epoch_def key_idempotency_def key_fence_def decision_latest_key_def)

section \<open>Handlers write settled values\<close>

text \<open>
  A property of the transaction that every settled write keeps. The fence repeats the stored epoch, so the
  property must make that one settled.
\<close>

locale plain_writes =
  fixes P :: "tx \<Rightarrow> bool"
  assumes put_plain: "P t \<Longrightarrow> settled v \<Longrightarrow> engine_key k \<Longrightarrow> P (put k v t)"
    and epoch_plain: "P t \<Longrightarrow> present (view t) key_eligibility_epoch = Some v \<Longrightarrow> settled v"
begin

lemma publishes: "execute_publish sha ctx c input t = Ok (res, t') \<Longrightarrow> P t \<Longrightarrow> P t' \<and> settled res"
  by (auto simp: execute_publish_def publish_result_def settled_obj name_order split: if_splits intro!: put_plain)

lemma proposes: "execute_propose sha ctx c input t = Ok (res, t') \<Longrightarrow> P t \<Longrightarrow> P t' \<and> settled res"
  by (auto simp: execute_propose_def settled_obj name_order intro!: put_plain)

lemma increments: "increment_epoch t = Ok (n, t') \<Longrightarrow> P t \<Longrightarrow> P t'"
  by (auto simp: increment_epoch_def split: option.splits if_splits intro!: put_plain)

lemma records: "record_decision d p n t = Ok t' \<Longrightarrow> P t \<Longrightarrow> P t'"
  by (auto simp: record_decision_def settled_obj intro!: put_plain)

lemma suspends: "suspend_active_agreement ctx s x e t = Ok (a, t') \<Longrightarrow> P t \<Longrightarrow> P t'"
proof -
  assume ok: "suspend_active_agreement ctx s x e t = Ok (a, t')" and P: "P t"
  then obtain active where active: "get_active_agreement (view t) s = Ok active"
    by (auto simp: suspend_active_agreement_def)
  show "P t'"
  proof (cases "t' = t")
    case False
    then obtain b n where "increment_epoch (put (key_active_slot s) no_agreement (put (key_agreement (ag_id b))
        (jnorm (enc_agreement (change_status ctx Suspended x b))) t)) = Ok (n, t')"
      using ok active by (cases active) (auto simp: suspend_active_agreement_def Let_def split: if_splits)
    then show ?thesis using P by (auto intro!: put_plain elim!: increments)
  qed (use P in simp)
qed

lemma decides: "execute_decide sha ctx c input t = Ok (res, t') \<Longrightarrow> P t \<Longrightarrow> P t' \<and> settled res"
  by (auto simp: execute_decide_def decide_result_def settled_obj name_order split: if_splits option.split dest!: records suspends)

lemma supersedes: "supersede ctx current t = Ok t' \<Longrightarrow> P t \<Longrightarrow> P t'"
  by (auto simp: supersede_def split: option.splits intro!: put_plain)

lemma activates: "execute_activate sha ctx c input t = Ok (res, t') \<Longrightarrow> P t \<Longrightarrow> P t' \<and> settled res"
  by (auto simp: execute_activate_def Let_def settled_obj name_order intro!: put_plain elim!: increments supersedes)

lemma changes_status: "execute_status_change ctx c input st t = Ok (res, t') \<Longrightarrow> P t \<Longrightarrow> P t' \<and> settled res"
  by (auto simp: execute_status_change_def settled_obj name_order intro!: put_plain elim!: increments)

lemma fences: "execute_fence ctx c input t = Ok (res, t') \<Longrightarrow> P t \<Longrightarrow> P t' \<and> settled res"
  by (auto simp: execute_fence_def Let_def current_epoch_def settled_obj name_order split: option.splits intro!: put_plain intro: epoch_plain)

lemmas handlers = publishes proposes decides activates changes_status fences

lemma performs: "perform_command sha ctx c ty input t = Ok (res, t') \<Longrightarrow> P t \<Longrightarrow> P t' \<and> settled res"
  unfolding perform_command_def by (auto split: if_splits dest: handlers)

lemma puts_policies: "foldR put_policy ps t = Ok t' \<Longrightarrow> P t \<Longrightarrow> P t'"
proof (induction ps arbitrary: t)
  case (Cons p ps)
  then obtain t1 where t1: "put_policy p t = Ok t1" "foldR put_policy ps t1 = Ok t'" by auto
  then have "P t1" using Cons.prems(2) by (auto simp: put_policy_def intro: put_plain)
  then show ?case using Cons.IH t1(2) by blast
qed simp

lemma bootstraps: "bootstrap ctx input t = Ok (res, t') \<Longrightarrow> P t \<Longrightarrow> P t'"
  by (auto simp: bootstrap_def intro!: put_plain elim!: puts_policies)

lemma executes: "execute sha ctx cmd t = Ok (res, t') \<Longrightarrow> P t \<Longrightarrow> P t'"
  by (auto simp: execute_def Let_def settled_record settled_same split: option.splits dest!: performs intro!: put_plain)

lemma invokes: "invoke sha ctx rq t = Ok (res, t') \<Longrightarrow> P t \<Longrightarrow> P t'"
  by (cases rq) (auto simp: invoke_def dest: executes bootstraps)

end

definition settled_world :: "world \<Rightarrow> bool" where
  "settled_world w \<longleftrightarrow> (\<forall>k v. w k = Some v \<longrightarrow> settled v)"

interpretation plain_tx: plain_writes "\<lambda>t. settled_world (view t) \<and> (\<forall>(k, v) \<in> set (staged t). settled v \<and> engine_key k)"
  by unfold_locales (auto simp: settled_world_def present_def split: option.splits if_splits)

lemma invoke_settled:
  assumes "invoke sha ctx rq (begin_tx w) = Ok (res, t)" and "settled_world w"
  shows "settled_world (view t)" and "(k, v) \<in> set (staged t) \<Longrightarrow> settled v \<and> engine_key k"
  using plain_tx.invokes [OF assms(1)] assms(2) by (auto simp: begin_tx_def)

lemma reachable_settled: "reachable sha w \<Longrightarrow> settled_world w"
proof (induction rule: reachable.induct)
  case empty
  then show ?case by (simp add: settled_world_def)
next
  case (invoked w ctx rq res w')
  then obtain t where "invoke sha ctx rq (begin_tx w) = Ok (res, t)" "w' = view t" using commit_iff by blast
  then show ?case using invoke_settled(1) invoked.IH by simp
qed

lemma reachable_writes_settled:
  "invoke sha ctx rq (begin_tx w) = Ok (res, t) \<Longrightarrow> reachable sha w \<Longrightarrow> (k, v) \<in> set (staged t) \<Longrightarrow> settled v \<and> engine_key k"
  using invoke_settled(2) reachable_settled by blast

end
