(* ===== verification/StateCheck.thy ===== *)
theory StateCheck
  imports Uri Engine
begin

text \<open>
  \<open>packages/storage/state-validation.ts\<close>: what a ledger adapter requires of every write before it
  applies it. \<open>validateStateWrite\<close> checks a single key and value, \<open>validateStateLinks\<close> the references of
  the value once all writes of the transaction are staged. Both turn every failure into the same
  error, so they are predicates here.
\<close>

section \<open>One write\<close>

text \<open>\<open>record(value, names)\<close>: an object with exactly these properties.\<close>

definition exact_record :: "json \<Rightarrow> string list \<Rightarrow> bool" where
  "exact_record v names \<longleftrightarrow> assert_record v = Ok () \<and> length (own_keys v) = length names \<and> list_all (has_own v) names"

definition natural :: "json \<Rightarrow> bool" where
  "natural v \<longleftrightarrow> (\<exists>i. assert_safe_integer v 0 = Ok i)"

definition string_such :: "(jstr \<Rightarrow> bool) \<Rightarrow> json \<Rightarrow> bool" where
  "string_such p v \<longleftrightarrow> (case v of JStr s \<Rightarrow> p s | _ \<Rightarrow> False)"

text \<open>The value passes its validator, and the key is the one that the record belongs under.\<close>

definition filed :: "(json \<Rightarrow> 'a res) \<Rightarrow> ('a \<Rightarrow> jstr) \<Rightarrow> jstr \<Rightarrow> json \<Rightarrow> bool" where
  "filed dec key_of key v \<longleftrightarrow> (case dec v of Ok x \<Rightarrow> key = key_of x | Err _ \<Rightarrow> False)"

text \<open>\<open>Number(s)\<close> of \<open>/^[1-9][0-9]*$/\<close>, if it is a safe integer.\<close>

definition decimal_value :: "jstr \<Rightarrow> nat" where
  "decimal_value s = foldl (\<lambda>n u. 10 * n + (unat u - 48)) 0 s"

definition positive_decimal :: "jstr \<Rightarrow> int option" where
  "positive_decimal s =
     (if s \<noteq> [] \<and> hd s \<noteq> 48 \<and> list_all (\<lambda>u. is_digit (unat u)) s \<and> int (decimal_value s) \<le> max_safe
      then Some (int (decimal_value s)) else None)"

definition latest_decision_write :: "jstr list \<Rightarrow> jstr \<Rightarrow> json \<Rightarrow> bool" where
  "latest_decision_write tail key v \<longleftrightarrow> exact_record v [''decision_id''] \<and> string_such is_id (fld v ''decision_id'') \<and>
     (case tail of
        [proposal, ver, role, org, actor] \<Rightarrow> list_all is_id [proposal, role, org, actor] \<and>
          (case positive_decimal ver of None \<Rightarrow> False | Some n \<Rightarrow> key = key_latest_decision proposal n role org actor)
      | _ \<Rightarrow> False)"

definition active_slot_write :: "jstr list \<Rightarrow> jstr \<Rightarrow> json \<Rightarrow> bool" where
  "active_slot_write tail key v \<longleftrightarrow> exact_record v [''agreement_id''] \<and>
     (fld v ''agreement_id'' = JNull \<or> string_such is_id (fld v ''agreement_id'')) \<and>
     (case map (split_on 124) tail of
        [[ch, doc, ctx, sc, us]] \<Rightarrow>
          (let s = \<lparr>channel_id = ch, document_id = doc, context_id = ctx, scope_id = sc, usage_scope = us\<rparr> in
           wf_slot s \<and> slot_key s = hd tail \<and> key = key_active_slot s)
      | _ \<Rightarrow> False)"

definition command_types :: "string list" where
  "command_types = [''publish_revision'', ''propose'', ''decide'', ''activate'', ''withdraw'', ''suspend'', ''fence'']"

definition idempotency_write :: "jstr \<Rightarrow> json \<Rightarrow> bool" where
  "idempotency_write key v \<longleftrightarrow>
     exact_record v [''record_type'', ''command_id'', ''command_type'', ''command_digest'', ''actor'', ''result'', ''tx_id''] \<and>
     (let a = fld v ''actor'' in exact_record a [''org_id'', ''actor_id'', ''kind''] \<and>
      fld v ''record_type'' = JStr (js ''IdempotencyRecord'') \<and> string_such is_id (fld v ''command_id'') \<and>
      string_such is_id (fld a ''org_id'') \<and> string_such is_id (fld a ''actor_id'') \<and>
      fld a ''kind'' \<in> {JStr (js ''human''), JStr (js ''agent'')} \<and> string_such is_digest (fld v ''command_digest'') \<and>
      string_such (\<lambda>s. 1 \<le> length s) (fld v ''tx_id'') \<and>
      string_such (\<lambda>s. s \<in> js ` set command_types) (fld v ''command_type'') \<and>
      string_such (\<lambda>_. True) (fld (fld v ''result'') ''status'') \<and>
      (case (fld a ''org_id'', fld v ''command_id'') of
         (JStr org, JStr cid) \<Rightarrow> key = key_idempotency org cid
       | _ \<Rightarrow> False))"

definition fence_write :: "jstr \<Rightarrow> json \<Rightarrow> bool" where
  "fence_write key v \<longleftrightarrow> exact_record v [''nonce'', ''eligibility_epoch'', ''tx_id''] \<and>
     natural (fld v ''eligibility_epoch'') \<and> string_such (\<lambda>s. 1 \<le> length s) (fld v ''tx_id'') \<and>
     string_such (\<lambda>nonce. is_nonce nonce \<and> key = key_fence nonce) (fld v ''nonce'')"

text \<open>The \<open>switch\<close> on the kind of the key; \<open>tail\<close> is the decoded rest of the key.\<close>

definition write_schema :: "sha_fn \<Rightarrow> jstr \<Rightarrow> jstr list \<Rightarrow> jstr \<Rightarrow> json \<Rightarrow> bool" where
  "write_schema sha kd tail key v \<longleftrightarrow>
     (if kd = js ''config'' then filed validate_config (\<lambda>_. key_config) key v
      else if kd = js ''revision'' then filed (validate_revision sha) (\<lambda>r. key_revision (rv_digest r)) key v
      else if kd = js ''revision_id'' then exact_record v [''revision_digest''] \<and>
        string_such is_digest (fld v ''revision_digest'') \<and>
        (case tail of [i] \<Rightarrow> is_id i \<and> key = key_revision_id i | _ \<Rightarrow> False)
      else if kd = js ''policy'' then filed validate_policy (\<lambda>p. key_policy (pol_id p) (pol_version p)) key v
      else if kd = js ''proposal'' then filed validate_proposal (\<lambda>p. key_proposal (pr_id p)) key v
      else if kd = js ''decision'' then filed validate_decision (\<lambda>d. key_decision (de_id d)) key v
      else if kd = js ''latest_decision'' then latest_decision_write tail key v
      else if kd = js ''review_counter'' then natural v \<and>
        (case tail of [i] \<Rightarrow> is_id i \<and> key = key_review_counter i | _ \<Rightarrow> False)
      else if kd = js ''agreement'' then filed validate_agreement (\<lambda>a. key_agreement (ag_id a)) key v
      else if kd = js ''active_slot'' then active_slot_write tail key v
      else if kd = js ''eligibility_epoch'' then natural v \<and> key = key_eligibility_epoch
      else if kd = js ''idempotency'' then idempotency_write key v
      else if kd = js ''fence'' then fence_write key v
      else False)"

definition max_write_bytes :: nat where "max_write_bytes = 2 * 1024 * 1024"

definition within_write_limit :: "json \<Rightarrow> bool" where
  "within_write_limit v \<longleftrightarrow> (case canonicalize v of Ok text \<Rightarrow> byte_length text \<le> max_write_bytes | Err _ \<Rightarrow> False)"

text \<open>The parts of a key: its kind and the decoded components, each in its one canonical encoding.\<close>

definition parse_key :: "jstr \<Rightarrow> (jstr \<times> jstr list) option" where
  "parse_key key = (case split_on 58 key of
     a # b # kd # rest \<Rightarrow>
       if a = js ''kcl'' \<and> b = js ''v1'' \<and> 0 \<notin> set key then
         (case those (map decode_uri rest) of
            None \<Rightarrow> None
          | Some tail \<Rightarrow> if map encode_uri tail = map Some rest then Some (kd, tail) else None)
       else None
   | _ \<Rightarrow> None)"

definition validate_state_write :: "sha_fn \<Rightarrow> jstr \<Rightarrow> json \<Rightarrow> bool" where
  "validate_state_write sha key v \<longleftrightarrow> within_write_limit v \<and>
     (case parse_key key of None \<Rightarrow> False | Some (kd, tail) \<Rightarrow> write_schema sha kd tail key v)"

section \<open>The links of a write\<close>

definition needs :: "(jstr \<Rightarrow> json option) \<Rightarrow> jstr \<Rightarrow> (json \<Rightarrow> bool) \<Rightarrow> bool" where
  "needs get key p \<longleftrightarrow> (case get key of None \<Rightarrow> False | Some v \<Rightarrow> p v)"

text \<open>\<open>slotKey(a) === slotKey(b)\<close> of raw records; either may throw.\<close>

definition same_slot_raw :: "json \<Rightarrow> json \<Rightarrow> bool" where
  "same_slot_raw a b \<longleftrightarrow> (case (assert_slot_shape a, assert_slot_shape b) of
     (Ok s, Ok t) \<Rightarrow> slot_key s = slot_key t | _ \<Rightarrow> False)"

text \<open>A property that the schema makes a string, a safe integer or an array.\<close>

definition text_of :: "json \<Rightarrow> jstr" where "text_of v = (case v of JStr s \<Rightarrow> s | _ \<Rightarrow> [])"
definition int_of :: "json \<Rightarrow> int" where "int_of v = (case v of JNum (NInt i) \<Rightarrow> i | _ \<Rightarrow> 0)"
definition items :: "json \<Rightarrow> json list" where "items v = (case v of JArr xs \<Rightarrow> xs | _ \<Rightarrow> [])"

definition same_fields :: "string list \<Rightarrow> json \<Rightarrow> json \<Rightarrow> bool" where
  "same_fields names a b \<longleftrightarrow> list_all (\<lambda>n. fld a n = fld b n) names"

definition revision_id_links :: "(jstr \<Rightarrow> json option) \<Rightarrow> jstr list \<Rightarrow> json \<Rightarrow> bool" where
  "revision_id_links get tail v \<longleftrightarrow> needs get (key_revision (text_of (fld v ''revision_digest''))) (\<lambda>target.
     fld (fld target ''payload'') ''revision_id'' = JStr (hd tail) \<and>
     fld target ''revision_digest'' = fld v ''revision_digest'')"

definition revision_links :: "(jstr \<Rightarrow> json option) \<Rightarrow> json \<Rightarrow> bool" where
  "revision_links get v \<longleftrightarrow> (let payload = fld v ''payload'' in
     list_all (\<lambda>x. needs get (key_revision (text_of x)) (\<lambda>q. same_slot_raw (fld q ''payload'') payload))
       (items (fld payload ''parents'')) \<and>
     list_all (\<lambda>d. needs get (key_revision (text_of (fld d ''revision_digest''))) (\<lambda>q. same_slot_raw (fld q ''payload'') d))
       (items (fld payload ''dependencies'')))"

definition policy_links :: "(jstr \<Rightarrow> json option) \<Rightarrow> json \<Rightarrow> bool" where
  "policy_links get v \<longleftrightarrow> needs get key_config (\<lambda>c.
     case find (same_fields [''policy_id'', ''policy_version''] v) (items (fld c ''policies'')) of
       None \<Rightarrow> False
     | Some pinned \<Rightarrow> same_json pinned v)"

definition proposal_links :: "(jstr \<Rightarrow> json option) \<Rightarrow> json \<Rightarrow> bool" where
  "proposal_links get v \<longleftrightarrow>
     needs get (key_revision (text_of (fld v ''revision_digest''))) (\<lambda>r.
     needs get (key_policy (text_of (fld v ''policy_id'')) (int_of (fld v ''policy_version''))) (\<lambda>p.
       same_slot_raw v (fld r ''payload'') \<and> same_slot_raw v p \<and>
       same_fields [''membership_epoch'', ''role_binding_version''] p v \<and>
       needs get (key_review_counter (text_of (fld v ''proposal_id''))) (\<lambda>n. n = fld v ''review_counter'')))"

definition rep_matches :: "json \<Rightarrow> json \<Rightarrow> bool" where
  "rep_matches rep d \<longleftrightarrow> fld rep ''domain_role'' = fld d ''actor_domain_role'' \<and>
     same_fields [''actor_org_id'', ''actor_id''] rep d"

definition decision_links :: "(jstr \<Rightarrow> json option) \<Rightarrow> json \<Rightarrow> bool" where
  "decision_links get v \<longleftrightarrow>
     needs get (key_proposal (text_of (fld v ''proposal_id''))) (\<lambda>p.
     needs get (key_policy (text_of (fld v ''policy_id'')) (int_of (fld v ''policy_version''))) (\<lambda>pol.
       same_slot_raw v p \<and>
       same_fields [''revision_digest'', ''policy_id'', ''policy_version'', ''membership_epoch'', ''role_binding_version''] v p \<and>
       list_ex (\<lambda>rep. rep_matches rep v) (items (fld pol ''role_representatives''))))"

definition latest_decision_links :: "(jstr \<Rightarrow> json option) \<Rightarrow> jstr \<Rightarrow> json \<Rightarrow> bool" where
  "latest_decision_links get key v \<longleftrightarrow> needs get (key_decision (text_of (fld v ''decision_id''))) (\<lambda>d.
     key = key_latest_decision (text_of (fld d ''proposal_id'')) (int_of (fld d ''policy_version''))
       (text_of (fld d ''actor_domain_role'')) (text_of (fld d ''actor_org_id'')) (text_of (fld d ''actor_id'')))"

definition active_slot_links :: "(jstr \<Rightarrow> json option) \<Rightarrow> jstr \<Rightarrow> json \<Rightarrow> bool" where
  "active_slot_links get key v \<longleftrightarrow> fld v ''agreement_id'' = JNull \<or>
     needs get (key_agreement (text_of (fld v ''agreement_id''))) (\<lambda>a. fld a ''status'' = JStr (js ''active'') \<and>
       (case assert_slot_shape a of Ok s \<Rightarrow> key = key_active_slot s | Err _ \<Rightarrow> False))"

text \<open>Exactly one cited decision for the representative, an approval bound to the agreement.\<close>

definition representative_approved :: "json \<Rightarrow> json list \<Rightarrow> json \<Rightarrow> bool" where
  "representative_approved v approvals rep \<longleftrightarrow> (case filter (rep_matches rep) approvals of
     [d] \<Rightarrow> fld d ''decision'' = JStr (js ''approve'') \<and> same_slot_raw d v \<and>
       same_fields [''proposal_id'', ''revision_digest'', ''policy_id'', ''policy_version'', ''membership_epoch'',
         ''role_binding_version''] d v
   | _ \<Rightarrow> False)"

definition agreement_links :: "(jstr \<Rightarrow> json option) \<Rightarrow> json \<Rightarrow> bool" where
  "agreement_links get v \<longleftrightarrow>
     needs get (key_revision (text_of (fld v ''revision_digest''))) (\<lambda>r.
     needs get (key_policy (text_of (fld v ''policy_id'')) (int_of (fld v ''policy_version''))) (\<lambda>pol.
       same_slot_raw v (fld r ''payload'') \<and> same_slot_raw v pol \<and>
       same_fields [''membership_epoch'', ''role_binding_version''] v pol \<and>
       length (items (fld v ''approval_decision_ids'')) = length (items (fld pol ''required_domain_roles'')) \<and>
       (case those (map (\<lambda>i. get (key_decision (text_of i))) (items (fld v ''approval_decision_ids''))) of
          None \<Rightarrow> False
        | Some approvals \<Rightarrow> list_all (representative_approved v approvals) (items (fld pol ''role_representatives'')))))"

definition validate_state_links :: "jstr \<Rightarrow> json \<Rightarrow> (jstr \<Rightarrow> json option) \<Rightarrow> bool" where
  "validate_state_links key v get \<longleftrightarrow> (case split_on 58 key of
     _ # _ # kd # rest \<Rightarrow> (case those (map decode_uri rest) of
        None \<Rightarrow> False
      | Some tail \<Rightarrow>
          (if kd = js ''revision_id'' then revision_id_links get tail v
           else if kd = js ''revision'' then revision_links get v
           else if kd = js ''policy'' then policy_links get v
           else if kd = js ''proposal'' then proposal_links get v
           else if kd = js ''decision'' then decision_links get v
           else if kd = js ''latest_decision'' then latest_decision_links get key v
           else if kd = js ''review_counter'' then
             needs get (key_proposal (hd tail)) (\<lambda>p. fld p ''review_counter'' = v)
           else if kd = js ''active_slot'' then active_slot_links get key v
           else if kd = js ''agreement'' then agreement_links get v
           else True))
   | _ \<Rightarrow> True)"

text \<open>The kinds of which a key may be written once only, up to canonical equality.\<close>

definition immutable_kinds :: "string list" where
  "immutable_kinds = [''config'', ''revision'', ''revision_id'', ''policy'', ''decision'', ''idempotency'', ''fence'']"

definition immutable_key :: "jstr \<Rightarrow> bool" where
  "immutable_key key \<longleftrightarrow> (case split_on 58 key of _ # _ # kd # _ \<Rightarrow> kd \<in> js ` set immutable_kinds | _ \<Rightarrow> False)"

section \<open>Keys of the domain\<close>

text \<open>A key that \<open>stateKey\<close> builds parses back to its kind and parts.\<close>

lemma those_map_Some: "(\<And>x. x \<in> set xs \<Longrightarrow> f x = Some (g x)) \<Longrightarrow> those (map f xs) = Some (map g xs)"
  by (induction xs) auto

lemma those_decode: "\<forall>p \<in> set ps. valid_unicode p \<Longrightarrow> those (map decode_uri (map percent ps)) = Some ps"
  using those_map_Some [of ps "\<lambda>p. decode_uri (percent p)" id] by (simp add: decode_encode comp_def)

lemma state_key_no_zero: "(0 :: cunit) \<notin> set (state_key k ps)"
proof -
  have join: "x \<in> set (join_on c qs) \<Longrightarrow> x = c \<or> (\<exists>q \<in> set qs. x \<in> set q)" for x c qs
    by (induction c qs rule: join_on.induct) auto
  have pre: "(0 :: cunit) \<notin> set (key_prefix k)"
    by (cases k) (simp_all add: key_prefix_def js_def cu_def)
  have "(0 :: cunit) \<notin> set (percent p)" for p
    using percent_units [of 0 p] by (auto simp: uri_unreserved_def is_upper_def is_lower_def is_digit_def)
  then show ?thesis using pre join [of 0 58 "map percent ps"] by (auto simp: state_key_def)
qed

lemma parse_state_key:
  assumes "\<forall>p \<in> set ps. valid_unicode p"
  shows "parse_key (state_key k ps) = Some (js (kind_name k), ps)"
  using assms those_decode [OF assms] state_key_no_zero
  by (simp add: parse_key_def split_state_key encode_uri_def)

lemma validate_write_key:
  assumes "\<forall>p \<in> set ps. valid_unicode p"
  shows "validate_state_write sha (state_key k ps) v \<longleftrightarrow>
    within_write_limit v \<and> write_schema sha (js (kind_name k)) ps (state_key k ps) v"
  by (simp add: validate_state_write_def parse_state_key [OF assms])

lemma immutable_state_key: "immutable_key (state_key k ps) \<longleftrightarrow> kind_name k \<in> set immutable_kinds"
  by (auto simp: immutable_key_def split_state_key)

end
