(* ===== verification/StoredCheck.thy ===== *)
theory StoredCheck
  imports StateCheck Idempotency
begin

text \<open>
  The records that the engine stores pass the validation of the ledger adapters: on a store that
  represents a ledger, every value has the schema of its key and all its links lead to records that
  match. The only bound the engine does not enforce itself is the size limit of a write.
\<close>

section \<open>Reading encoded records\<close>

lemma slot_of_payload: "wf_slot (pl_slot p) \<Longrightarrow> assert_slot_shape (enc_payload p) = Ok (pl_slot p)"
  by (simp add: assert_slot_shape_def enc_payload_def wf_slot_def assert_eval)

lemma slot_of_dependency: "wf_slot (dep_slot d) \<Longrightarrow> assert_slot_shape (enc_dependency d) = Ok (dep_slot d)"
  by (simp add: assert_slot_shape_def enc_dependency_def wf_slot_def assert_eval)

lemma slot_of_policy: "wf_slot (pol_slot p) \<Longrightarrow> assert_slot_shape (enc_policy p) = Ok (pol_slot p)"
  by (simp add: assert_slot_shape_def enc_policy_def wf_slot_def assert_eval)

lemma slot_of_proposal: "wf_slot (pr_slot p) \<Longrightarrow> assert_slot_shape (enc_proposal p) = Ok (pr_slot p)"
  by (simp add: assert_slot_shape_def enc_proposal_def opt_prop_def wf_slot_def assert_eval split: option.split)

lemma slot_of_decision: "wf_slot (de_slot d) \<Longrightarrow> assert_slot_shape (enc_decision d) = Ok (de_slot d)"
  by (simp add: assert_slot_shape_def enc_decision_def opt_prop_def wf_slot_def assert_eval split: option.split)

lemma slot_of_agreement: "wf_slot (ag_slot a) \<Longrightarrow> assert_slot_shape (enc_agreement a) = Ok (ag_slot a)"
  by (simp add: assert_slot_shape_def enc_agreement_def opt_prop_def wf_slot_def assert_eval split: option.split)

lemmas slot_of = slot_of_payload slot_of_dependency slot_of_policy slot_of_proposal slot_of_decision slot_of_agreement

lemma fld_decision:
  "fld (enc_decision d) ''actor_domain_role'' = JStr (de_role d)" "fld (enc_decision d) ''actor_org_id'' = JStr (de_org d)"
  "fld (enc_decision d) ''actor_id'' = JStr (de_actor d)" "fld (enc_decision d) ''proposal_id'' = JStr (de_proposal d)"
  "fld (enc_decision d) ''revision_digest'' = JStr (de_digest d)" "fld (enc_decision d) ''policy_id'' = JStr (de_policy_id d)"
  "fld (enc_decision d) ''policy_version'' = JNum (NInt (de_policy_version d))"
  "fld (enc_decision d) ''membership_epoch'' = JNum (NInt (de_epoch d))"
  "fld (enc_decision d) ''role_binding_version'' = JNum (NInt (de_binding d))"
  "fld (enc_decision d) ''decision'' = JStr (decision_word (de_kind d))"
  by (simp_all add: enc_decision_def opt_prop_def split: option.split)

lemma fld_proposal:
  "fld (enc_proposal p) ''proposal_id'' = JStr (pr_id p)" "fld (enc_proposal p) ''revision_digest'' = JStr (pr_digest p)"
  "fld (enc_proposal p) ''policy_id'' = JStr (pr_policy_id p)" "fld (enc_proposal p) ''policy_version'' = JNum (NInt (pr_policy_version p))"
  "fld (enc_proposal p) ''membership_epoch'' = JNum (NInt (pr_epoch p))"
  "fld (enc_proposal p) ''role_binding_version'' = JNum (NInt (pr_binding p))"
  "fld (enc_proposal p) ''review_counter'' = JNum (NInt (pr_counter p))"
  by (simp_all add: enc_proposal_def opt_prop_def split: option.split)

lemma fld_agreement:
  "fld (enc_agreement a) ''proposal_id'' = JStr (ag_proposal a)" "fld (enc_agreement a) ''revision_digest'' = JStr (ag_digest a)"
  "fld (enc_agreement a) ''policy_id'' = JStr (ag_policy_id a)" "fld (enc_agreement a) ''policy_version'' = JNum (NInt (ag_policy_version a))"
  "fld (enc_agreement a) ''membership_epoch'' = JNum (NInt (ag_epoch a))"
  "fld (enc_agreement a) ''role_binding_version'' = JNum (NInt (ag_binding a))"
  "fld (enc_agreement a) ''approval_decision_ids'' = JArr (map JStr (ag_approvals a))"
  "fld (enc_agreement a) ''status'' = JStr (status_word (ag_status a))"
  by (simp_all add: enc_agreement_def opt_prop_def split: option.split)

lemma fld_policy:
  "fld (enc_policy p) ''policy_id'' = JStr (pol_id p)" "fld (enc_policy p) ''policy_version'' = JNum (NInt (pol_version p))"
  "fld (enc_policy p) ''membership_epoch'' = JNum (NInt (pol_epoch p))"
  "fld (enc_policy p) ''role_binding_version'' = JNum (NInt (pol_binding p))"
  "fld (enc_policy p) ''required_domain_roles'' = JArr (map JStr (pol_roles p))"
  "fld (enc_policy p) ''role_representatives'' = JArr (map enc_representative (pol_reps p))"
  by (simp_all add: enc_policy_def)

lemmas fld_enc = fld_decision fld_proposal fld_agreement fld_policy

lemma raw_simps [simp]: "text_of (JStr s) = s" "int_of (JNum (NInt i)) = i" "items (JArr xs) = xs"
  by (simp_all add: text_of_def int_of_def items_def)

lemma string_such_JStr [simp]: "string_such p (JStr s) = p s"
  by (simp add: string_such_def)

lemma needs_Some [simp]: "get k = Some v \<Longrightarrow> needs get k p = p v"
  by (simp add: needs_def)

lemma same_slot_raw_ok:
  "assert_slot_shape a = Ok s \<Longrightarrow> assert_slot_shape b = Ok s \<Longrightarrow> same_slot_raw a b"
  by (simp add: same_slot_raw_def)

lemma rep_matches_enc:
  "rep_matches (enc_representative r) (enc_decision d) \<longleftrightarrow> rep_role r = de_role d \<and> rep_org r = de_org d \<and> rep_actor r = de_actor d"
  by (simp add: rep_matches_def same_fields_def fld_decision enc_representative_def)

section \<open>Schemas\<close>

lemma positive_decimal_dec:
  assumes "1 \<le> i" and "i \<le> max_safe"
  shows "positive_decimal (dec_int i) = Some i"
proof -
  have digits: "foldl (\<lambda>n u. 10 * n + (unat u - 48)) 0 (map digit_unit (nat_digits n)) = n" for n
  proof (induction n rule: nat_digits.induct)
    case (1 n)
    then show ?case using nat_digits_bound [of "n mod 10" n]
      by (subst nat_digits.simps) (simp add: unat_digit_unit)
  qed
  have hd0: "0 < n \<Longrightarrow> hd (nat_digits n) \<noteq> 0 \<and> nat_digits n \<noteq> []" for n
  proof (induction n rule: nat_digits.induct)
    case (1 n)
    then show ?case by (subst (1 2) nat_digits.simps) auto
  qed
  have "0 < nat i" using assms by simp
  then have "hd (dec_nat (nat i)) \<noteq> 48" "dec_nat (nat i) \<noteq> []"
    using hd0 [of "nat i"] nat_digits_bound [of "hd (nat_digits (nat i))" "nat i"]
      unat_digit_unit [of "hd (nat_digits (nat i))"]
    by (auto simp: dec_nat_def hd_map)
  moreover have "list_all (\<lambda>u. is_digit (unat u)) (dec_nat (nat i))" using dec_nat_units by (auto simp: list_all_iff)
  moreover have "decimal_value (dec_nat (nat i)) = nat i" using digits by (simp add: decimal_value_def dec_nat_def)
  ultimately show ?thesis using assms by (simp add: positive_decimal_def dec_int_def)
qed

lemma kind_word [simp]: "js (kind_name k) = js s \<longleftrightarrow> kind_name k = s"
  by simp

text \<open>What the store holds under each kind of key.\<close>

lemma filedI: "dec v = Ok x \<Longrightarrow> key = f x \<Longrightarrow> filed dec f key v"
  by (simp add: filed_def)

lemma exact_obj: "exact_record (obj kvs) names \<longleftrightarrow> length kvs = length names \<and> set names \<subseteq> fst ` set kvs"
  by (auto simp: exact_record_def list_all_iff)

lemma natural_int [simp]: "natural (JNum (NInt i)) \<longleftrightarrow> 0 \<le> i \<and> i \<le> max_safe"
  by (auto simp: natural_def max_safe_def)

lemma is_id_valid: "is_id s \<Longrightarrow> valid_unicode s"
  by (rule token_valid(1))

lemma is_digest_valid: "is_digest s \<Longrightarrow> valid_unicode s"
  by (rule token_valid(2))

lemma valid_dec_int [simp]: "valid_unicode (dec_int i)"
proof (rule low_valid_unicode)
  show "\<forall>u \<in> set (dec_int i). unat u < 0xD800" by (auto simp: is_digit_def dest!: dec_int_units)
qed

lemma write_by_kind:
  "\<forall>p \<in> set ps. valid_unicode p \<Longrightarrow> write_schema sha (js (kind_name k)) ps (state_key k ps) v \<Longrightarrow>
   within_write_limit v \<Longrightarrow> validate_state_write sha (state_key k ps) v"
  by (simp add: validate_write_key)

lemma stored_writes:
  assumes R: "represents w L" and I: "ledger_inv sha L" and v: "present w k = Some v" and size: "within_write_limit v"
  shows "k = key_config \<Longrightarrow> validate_state_write sha k v"
    "k = key_eligibility_epoch \<Longrightarrow> validate_state_write sha k v"
    "k = key_revision i \<Longrightarrow> validate_state_write sha k v"
    "k = key_revision_id i \<Longrightarrow> validate_state_write sha k v"
    "k = key_policy i z \<Longrightarrow> validate_state_write sha k v"
    "k = key_proposal i \<Longrightarrow> validate_state_write sha k v"
    "k = key_review_counter i \<Longrightarrow> validate_state_write sha k v"
    "k = key_decision i \<Longrightarrow> validate_state_write sha k v"
    "k = key_latest_decision i z role org actor \<Longrightarrow> validate_state_write sha k v"
    "k = key_agreement i \<Longrightarrow> validate_state_write sha k v"
    "wf_slot s \<Longrightarrow> k = key_active_slot s \<Longrightarrow> validate_state_write sha k v"
proof -
  note D = representsD [OF R] and wr = write_by_kind [OF _ _ size]
  show "validate_state_write sha k v" if k: "k = key_config"
  proof -
    obtain c where c: "lg_config L = Some c" "v = enc_config c" using v k D(1) by auto
    then have "validate_config v = Ok c" using ledger_wf(1) [OF I] by (simp add: config.dec_enc)
    then show ?thesis unfolding k key_config_def
      by (intro wr) (auto simp: write_schema_def key_config_def intro!: filedI)
  qed
  show "validate_state_write sha k v" if k: "k = key_eligibility_epoch"
  proof -
    have "v = JNum (NInt (lg_epoch L))" using v k D(2) by auto
    then show ?thesis unfolding k key_eligibility_epoch_def using ledger_invD(12) [OF I]
      by (intro wr) (auto simp: write_schema_def key_eligibility_epoch_def inv_epoch_def)
  qed
  show "validate_state_write sha k v" if k: "k = key_revision i"
  proof -
    obtain r where r: "lg_revs L i = Some r" "v = enc_revision r" using v k D(3) by auto
    then have "wf_revision sha r" "rv_digest r = i" using ledger_wf(2) [OF I] ledger_ids(1) [OF I] by blast+
    then show ?thesis unfolding k key_revision_def using r
      by (intro wr) (auto simp: write_schema_def key_revision_def revision.dec_enc wf_revision_def is_digest_valid intro!: filedI)
  qed
  show "validate_state_write sha k v" if k: "k = key_revision_id i"
  proof -
    obtain d where d: "lg_ids L i = Some d" "v = digest_pointer d" using v k D(4) by auto
    then obtain r where "lg_revs L d = Some r" "pl_revision_id (rv_payload r) = i"
      using ledger_invD(3) [OF I] by (fastforce simp: inv_ids_def)
    then have "is_id i" "is_digest d" using ledger_wf(2) [OF I] ledger_ids(1) [OF I] by (auto simp: wf_revision_def wf_payload_def)
    then show ?thesis unfolding k key_revision_id_def using d
      by (intro wr) (auto simp: write_schema_def key_revision_id_def digest_pointer_def exact_obj is_id_valid)
  qed
  show "validate_state_write sha k v" if k: "k = key_policy i z"
  proof -
    obtain c p where p: "lg_config L = Some c" "policy_of c i z = Some p" "v = enc_policy p"
      using v k D(12) by (auto simp: bind_eq_Some_conv)
    then have "wf_policy p" "pol_id p = i" "pol_version p = z"
      using policy_of_wf ledger_wf(1) [OF I] policy_of_Some by blast+
    then show ?thesis unfolding k key_policy_def using p
      by (intro wr) (auto simp: write_schema_def key_policy_def policy.dec_enc wf_policy_def is_id_valid intro!: filedI)
  qed
  show "validate_state_write sha k v" if k: "k = key_proposal i"
  proof -
    obtain p where p: "lg_props L i = Some p" "v = enc_proposal p" using v k D(5) by auto
    then have "wf_proposal p" "pr_id p = i" using ledger_wf(3) [OF I] ledger_ids(2) [OF I] by blast+
    then show ?thesis unfolding k key_proposal_def using p
      by (intro wr) (auto simp: write_schema_def key_proposal_def proposal.dec_enc wf_proposal_def is_id_valid intro!: filedI)
  qed
  show "validate_state_write sha k v" if k: "k = key_review_counter i"
  proof -
    obtain p where p: "lg_props L i = Some p" "v = JNum (NInt (pr_counter p))" using v k D(6) by auto
    then have "wf_proposal p" "pr_id p = i" using ledger_wf(3) [OF I] ledger_ids(2) [OF I] by blast+
    then show ?thesis unfolding k key_review_counter_def using p
      by (intro wr) (auto simp: write_schema_def key_review_counter_def wf_proposal_def is_id_valid)
  qed
  show "validate_state_write sha k v" if k: "k = key_decision i"
  proof -
    obtain d where d: "lg_decs L i = Some d" "v = enc_decision d" using v k D(7) by auto
    then have "wf_decision d" "de_id d = i" using ledger_wf(4) [OF I] ledger_ids(3) [OF I] by blast+
    then show ?thesis unfolding k key_decision_def using d
      by (intro wr) (auto simp: write_schema_def key_decision_def decision.dec_enc wf_decision_def is_id_valid intro!: filedI)
  qed
  show "validate_state_write sha k v" if k: "k = key_latest_decision i z role org actor"
  proof -
    obtain j where j: "lg_latest L (i, z, role, org, actor) = Some j" "v = decision_pointer j" using v k D(8) by auto
    then obtain d where d: "lg_decs L j = Some d" "seat_of d = (i, z, role, org, actor)"
      using ledger_invD(8) [OF I] unfolding inv_latest_def by blast
    then have "wf_decision d" "de_id d = j" using ledger_wf(4) [OF I] ledger_ids(3) [OF I] by blast+
    then have "is_id i" "is_id role" "is_id org" "is_id actor" "is_id j" "1 \<le> z" "z \<le> max_safe"
      using d(2) by (auto simp: wf_decision_def seat_of_def wf_version_range_def)
    then show ?thesis unfolding k key_latest_decision_def using j
      by (intro wr) (auto simp: write_schema_def latest_decision_write_def key_latest_decision_def decision_pointer_def
          exact_obj is_id_valid positive_decimal_dec)
  qed
  show "validate_state_write sha k v" if k: "k = key_agreement i"
  proof -
    obtain a where a: "lg_agrs L i = Some a" "v = enc_agreement a" using v k D(9) by auto
    then have "wf_agreement a" "ag_id a = i" using ledger_wf(5) [OF I] ledger_ids(4) [OF I] by blast+
    then show ?thesis unfolding k key_agreement_def using a
      by (intro wr) (auto simp: write_schema_def key_agreement_def agreement.dec_enc wf_agreement_def is_id_valid intro!: filedI)
  qed
  show "validate_state_write sha k v" if s: "wf_slot s" and k: "k = key_active_slot s"
  proof -
    have e: "v = no_agreement \<or> (\<exists>i. v = points_to i \<and> is_id i)"
    proof (cases "lg_active L s")
      case (Some i)
      then obtain a where "lg_agrs L i = Some a" using active_agreement [OF ledger_invD(10) [OF I]] by blast
      then have "is_id i" using ledger_wf(5) [OF I] ledger_ids(4) [OF I] by (fastforce simp: wf_agreement_def)
      then show ?thesis using D(10) [OF s] Some v k by (auto simp: slot_entry_def)
    qed (use D(10) [OF s] v k in \<open>auto simp: slot_entry_def\<close>)
    have split: "split_on 124 (slot_key s) = [channel_id s, document_id s, context_id s, scope_id s, usage_scope s]"
      using s unfolding slot_key_def wf_slot_def by (intro split_join) (auto dest: token_bar_free)
    have eta: "\<lparr>channel_id = channel_id s, document_id = document_id s, context_id = context_id s, scope_id = scope_id s,
        usage_scope = usage_scope s\<rparr> = s" by (cases s) simp
    show ?thesis unfolding k key_active_slot_def using e s split valid_slot_key [OF s]
      by (intro wr) (auto simp: write_schema_def active_slot_write_def key_active_slot_def no_agreement_def points_to_def
          exact_obj Let_def eta)
  qed
qed

section \<open>Links\<close>

lemma links_of_key:
  "\<forall>p \<in> set ps. valid_unicode p \<Longrightarrow> validate_state_links (state_key k ps) v get \<longleftrightarrow>
     (if k = KRevisionId then revision_id_links get ps v
      else if k = KRevision then revision_links get v
      else if k = KPolicy then policy_links get v
      else if k = KProposal then proposal_links get v
      else if k = KDecision then decision_links get v
      else if k = KLatestDecision then latest_decision_links get (state_key k ps) v
      else if k = KReviewCounter then needs get (key_proposal (hd ps)) (\<lambda>p. fld p ''review_counter'' = v)
      else if k = KActiveSlot then active_slot_links get (state_key k ps) v
      else if k = KAgreement then agreement_links get v
      else True)"
  by (cases k) (simp_all add: validate_state_links_def split_state_key those_decode del: map_map)

lemma find_policy:
  "find (same_fields [''policy_id'', ''policy_version''] (enc_policy p)) (map enc_policy ps) =
     map_option enc_policy (find (\<lambda>q. pol_id q = pol_id p \<and> pol_version q = pol_version p) ps)"
  by (induction ps) (auto simp: same_fields_def fld_policy)

text \<open>The slots of the records of an invariant ledger.\<close>

lemma ledger_slots:
  assumes "ledger_inv sha L"
  shows "lg_revs L i = Some r \<Longrightarrow> wf_slot (rv_slot r)" "lg_props L i = Some p \<Longrightarrow> wf_slot (pr_slot p)"
    "lg_decs L i = Some d \<Longrightarrow> wf_slot (de_slot d)" "lg_agrs L i = Some a \<Longrightarrow> wf_slot (ag_slot a)"
  using ledger_wf(2-5) [OF assms]
  by (fastforce simp: wf_revision_def wf_payload_def wf_proposal_def wf_decision_def wf_agreement_def)+

lemma policy_slot_wf: "wf_config c \<Longrightarrow> policy_of c i z = Some p \<Longrightarrow> wf_slot (pol_slot p)"
  using policy_of_wf by (fastforce simp: wf_policy_def)

lemma fld_revision: "fld (enc_revision r) ''payload'' = enc_payload (rv_payload r)"
  "fld (enc_revision r) ''revision_digest'' = JStr (rv_digest r)"
  by (simp_all add: enc_revision_def)

lemma fld_payload: "fld (enc_payload p) ''parents'' = JArr (map JStr (pl_parents p))"
  "fld (enc_payload p) ''dependencies'' = JArr (map enc_dependency (pl_dependencies p))"
  "fld (enc_payload p) ''revision_id'' = JStr (pl_revision_id p)" "fld (enc_dependency d) ''revision_digest'' = JStr (dep_digest d)"
  by (simp_all add: enc_payload_def enc_dependency_def)

lemma policy_stored:
  assumes "represents w L" and "lg_config L = Some c" and "policy_of c i z = Some p"
  shows "present w (key_policy i z) = Some (enc_policy p)"
  using representsD(12) [OF assms(1), of i z] assms(2,3) by simp

lemma linked_revision:
  assumes R: "represents w L" and r: "lg_revs L x = Some q" and s: "wf_slot (rv_slot q)" "assert_slot_shape v = Ok (rv_slot q)"
  shows "needs (present w) (key_revision x) (\<lambda>q. same_slot_raw (fld q ''payload'') v)"
proof -
  have "same_slot_raw (fld (enc_revision q) ''payload'') v"
    using same_slot_raw_ok [OF slot_of_payload s(2)] s(1) by (simp add: fld_revision)
  then show ?thesis using representsD(3) [OF R, of x] r by simp
qed

lemma links_sound:
  assumes "inv_links L" and "lg_revs L i = Some r"
  shows "x \<in> set (pl_parents (rv_payload r)) \<Longrightarrow> \<exists>q. lg_revs L x = Some q \<and> rv_slot q = rv_slot r"
    "d \<in> set (pl_dependencies (rv_payload r)) \<Longrightarrow> \<exists>q. lg_revs L (dep_digest d) = Some q \<and> rv_slot q = dep_slot d"
  using assms unfolding inv_links_def by blast+

lemma revision_links_hold:
  assumes R: "represents w L" and I: "ledger_inv sha L" and r: "lg_revs L i = Some r"
  shows "revision_links (present w) (enc_revision r)"
proof -
  note sound = links_sound [OF ledger_invD(4) [OF I] r]
  have parent: "needs (present w) (key_revision x) (\<lambda>q. same_slot_raw (fld q ''payload'') (enc_payload (rv_payload r)))"
    if x: "x \<in> set (pl_parents (rv_payload r))" for x
  proof -
    obtain q where q: "lg_revs L x = Some q" "rv_slot q = rv_slot r" using sound(1) [OF x] by blast
    show ?thesis using ledger_slots(1) [OF I q(1)] slot_of_payload [of "rv_payload r"] q(2)
      by (intro linked_revision [OF R q(1)]) simp_all
  qed
  have dep: "needs (present w) (key_revision (dep_digest d)) (\<lambda>q. same_slot_raw (fld q ''payload'') (enc_dependency d))"
    if d: "d \<in> set (pl_dependencies (rv_payload r))" for d
  proof -
    obtain q where q: "lg_revs L (dep_digest d) = Some q" "rv_slot q = dep_slot d" using sound(2) [OF d] by blast
    show ?thesis using ledger_slots(1) [OF I q(1)] slot_of_dependency [of d] q(2)
      by (intro linked_revision [OF R q(1)]) simp_all
  qed
  show ?thesis unfolding revision_links_def Let_def fld_revision fld_payload raw_simps list_all_iff
    using parent dep by (simp add: fld_payload)
qed

lemma proposal_links_hold:
  assumes R: "represents w L" and I: "ledger_inv sha L" and p: "lg_props L i = Some p"
  shows "proposal_links (present w) (enc_proposal p)"
proof -
  note D = representsD [OF R]
  obtain c where c: "lg_config L = Some c" using ledger_invD(6) [OF I] p by (fastforce simp: inv_props_def)
  note ok = props_ok [OF ledger_invD(6) [OF I] p c]
  obtain pol where pol: "policy_of c (pr_policy_id p) (pr_policy_version p) = Some pol" "pol_slot pol = pr_slot p"
    using ok unfolding proposal_ok_def by blast
  obtain r where r: "lg_revs L (pr_digest p) = Some r" "rv_slot r = pr_slot p" using ok unfolding proposal_ok_def by blast
  have "pol \<in> set (cfg_policies c)" using policy_of_Some [OF pol(1)] by blast
  then have e: "pol_epoch pol = pr_epoch p" "pol_binding pol = pr_binding p"
    using ledger_wf(1) [OF I c] ok by (auto simp: wf_config_def list_all_iff proposal_ok_def)
  have s: "wf_slot (pr_slot p)" by (rule ledger_slots(2) [OF I p])
  have "same_slot_raw (enc_proposal p) (enc_payload (rv_payload r))" "same_slot_raw (enc_proposal p) (enc_policy pol)"
    using s r pol slot_of_payload [of "rv_payload r"] slot_of_policy [of pol] slot_of_proposal [OF s]
    by (auto intro!: same_slot_raw_ok)
  then show ?thesis
    using D(3) [of "pr_digest p"] D(6) [of "pr_id p"] policy_stored [OF R c pol(1)] r p ok e
    by (simp add: proposal_links_def fld_enc fld_revision same_fields_def)
qed

lemma decision_links_hold:
  assumes R: "represents w L" and I: "ledger_inv sha L" and d: "lg_decs L i = Some d"
  shows "decision_links (present w) (enc_decision d)"
proof -
  obtain c p where p: "lg_config L = Some c" "lg_props L (de_proposal d) = Some p" "decision_ok c p d"
    using ledger_invD(7) [OF I] d by (fastforce simp: inv_decs_def)
  obtain pol rep where pol: "policy_of c (de_policy_id d) (de_policy_version d) = Some pol"
      "representative_of pol (de_role d) = Some rep" "rep_org rep = de_org d" "rep_actor rep = de_actor d"
    using p(3) unfolding decision_ok_def by blast
  have rep: "rep \<in> set (pol_reps pol)" "rep_role rep = de_role d" using representative_of_Some [OF pol(2)] by auto
  have s: "wf_slot (de_slot d)" by (rule ledger_slots(3) [OF I d])
  have same: "same_slot_raw (enc_decision d) (enc_proposal p)"
    using s p(3) slot_of_decision [OF s] slot_of_proposal [of p] by (auto intro!: same_slot_raw_ok simp: decision_ok_def)
  have "list_ex (\<lambda>r. rep_matches r (enc_decision d)) (map enc_representative (pol_reps pol))"
    using rep pol(3,4) by (auto simp: list_ex_iff rep_matches_enc)
  then show ?thesis
    using representsD(5) [OF R, of "de_proposal d"] p policy_stored [OF R p(1) pol(1)] same
    by (simp add: decision_links_def fld_enc same_fields_def decision_ok_def decision_binds_proposal_def)
qed

lemma policy_links_hold:
  assumes R: "represents w L" and c: "lg_config L = Some c" and p: "policy_of c i z = Some p" and canon: "canon_ok (enc_policy p) 0"
  shows "policy_links (present w) (enc_policy p)"
proof -
  have "find (same_fields [''policy_id'', ''policy_version''] (enc_policy p)) (map enc_policy (cfg_policies c)) = Some (enc_policy p)"
    using p policy_of_Some [OF p] by (simp add: find_policy policy_of_def)
  moreover have "fld (enc_config c) ''policies'' = JArr (map enc_policy (cfg_policies c))"
    by (simp add: enc_config_def)
  moreover have "same_json (enc_policy p) (enc_policy p)"
    using canon canonicalize_Ok_iff [of "enc_policy p"] by (auto simp: same_json_def)
  ultimately show ?thesis using representsD(1) [OF R] c by (simp add: policy_links_def)
qed

lemma revision_id_links_hold:
  assumes R: "represents w L" and I: "ledger_inv sha L" and d: "lg_ids L i = Some d"
  shows "revision_id_links (present w) [i] (digest_pointer d)"
proof -
  obtain r where r: "lg_revs L d = Some r" "pl_revision_id (rv_payload r) = i"
    using ledger_invD(3) [OF I] d unfolding inv_ids_def by blast
  then show ?thesis using representsD(3) [OF R, of d] ledger_ids(1) [OF I r(1)]
    by (simp add: revision_id_links_def digest_pointer_def fld_revision fld_payload)
qed

lemma latest_decision_links_hold:
  assumes R: "represents w L" and I: "ledger_inv sha L" and j: "lg_latest L (i, z, role, org, actor) = Some j"
  shows "latest_decision_links (present w) (key_latest_decision i z role org actor) (decision_pointer j)"
proof -
  obtain d where d: "lg_decs L j = Some d" "seat_of d = (i, z, role, org, actor)"
    using ledger_invD(8) [OF I] j unfolding inv_latest_def by blast
  then show ?thesis using representsD(7) [OF R, of j]
    by (simp add: latest_decision_links_def decision_pointer_def fld_enc seat_of_def)
qed

lemma active_slot_links_hold:
  assumes R: "represents w L" and I: "ledger_inv sha L" and s: "wf_slot s" and v: "present w (key_active_slot s) = Some v"
  shows "active_slot_links (present w) (key_active_slot s) v"
proof (cases "lg_active L s")
  case None
  then have "v = no_agreement" using representsD(10) [OF R s] v by (simp add: slot_entry_def)
  then show ?thesis by (simp add: active_slot_links_def no_agreement_def)
next
  case (Some i)
  then obtain a where a: "lg_agrs L i = Some a" "ag_status a = Active" "ag_slot a = s"
    using active_agreement [OF ledger_invD(10) [OF I]] by blast
  have "v = points_to i" using representsD(10) [OF R s] v Some by (simp add: slot_entry_def)
  then show ?thesis using representsD(9) [OF R, of i] a slot_of_agreement [of a] s
    by (simp add: active_slot_links_def points_to_def fld_enc)
qed

text \<open>The decisions an agreement cites are, role by role, the approvals of the representatives.\<close>

lemma cited_decisions:
  "list_all2 (cites L pol a) roles ids \<Longrightarrow> \<exists>ds. list_all2 (\<lambda>i d. lg_decs L i = Some d) ids ds \<and>
     list_all2 (\<lambda>role d. de_role d = role \<and> de_kind d = Approve \<and> approval_binds a d \<and>
       (\<exists>r. representative_of pol role = Some r \<and> de_org d = rep_org r \<and> de_actor d = rep_actor r)) roles ds"
proof (induction rule: list_all2_induct)
  case Nil
  then show ?case by simp
next
  case (Cons role roles i ids)
  then obtain ds where ds: "list_all2 (\<lambda>i d. lg_decs L i = Some d) ids ds"
      "list_all2 (\<lambda>role d. de_role d = role \<and> de_kind d = Approve \<and> approval_binds a d \<and>
       (\<exists>r. representative_of pol role = Some r \<and> de_org d = rep_org r \<and> de_actor d = rep_actor r)) roles ds"
    by blast
  obtain r d where "representative_of pol role = Some r" "lg_decs L i = Some d" "de_kind d = Approve" "de_role d = role"
      "de_org d = rep_org r" "de_actor d = rep_actor r" "approval_binds a d"
    using Cons.hyps(1) unfolding cites_def by blast
  then show ?case using ds by (intro exI [of _ "d # ds"]) auto
qed

lemma filter_distinct_role:
  "list_all2 (\<lambda>role d. de_role d = role) roles ds \<Longrightarrow> distinct roles \<Longrightarrow> d \<in> set ds \<Longrightarrow>
   (\<And>x. P x \<Longrightarrow> de_role x = de_role d) \<Longrightarrow> P d \<Longrightarrow> filter P ds = [d]"
proof (induction rule: list_all2_induct)
  case (Cons role roles x ds)
  have in_roles: "de_role y \<in> set roles" if "y \<in> set ds" for y
    using Cons.hyps(2) that by (induction rule: list_all2_induct) auto
  show ?case
  proof (cases "x = d")
    case True
    then have "\<not> P y" if "y \<in> set ds" for y
      using Cons.prems(1) Cons.prems(3) [of y] Cons.hyps(1) in_roles [OF that] by (metis distinct.simps(2))
    then show ?thesis using True Cons.prems(4) by (simp add: filter_False)
  next
    case False
    then have d: "d \<in> set ds" using Cons.prems(2) by simp
    then have "\<not> P x" using Cons.prems(1) Cons.prems(3) [of x] Cons.hyps(1) in_roles [OF d] by (metis distinct.simps(2))
    moreover have "filter P ds = [d]"
      by (rule Cons.IH [OF _ d Cons.prems(3,4)]) (use Cons.prems(1) in simp)
    ultimately show ?thesis by simp
  qed
qed simp

lemma representative_unique:
  "distinct (map rep_role reps) \<Longrightarrow> rep \<in> set reps \<Longrightarrow> find (\<lambda>r. rep_role r = rep_role rep) reps = Some rep"
  by (induction reps) (auto simp: image_iff)

lemma those_decisions:
  "list_all2 (\<lambda>i d. lg_decs L i = Some d) ids ds \<Longrightarrow> represents w L \<Longrightarrow>
   those (map (\<lambda>i. present w (key_decision (text_of i))) (map JStr ids)) = Some (map enc_decision ds)"
  by (induction rule: list_all2_induct) (simp_all add: representsD(7))

lemma representative_approved_enc:
  assumes s: "wf_slot (ag_slot a)" "wf_slot (de_slot d)" and f: "filter (\<lambda>d. rep_matches (enc_representative rep) (enc_decision d)) ds = [d]"
    and d: "de_kind d = Approve" "approval_binds a d"
  shows "representative_approved (enc_agreement a) (map enc_decision ds) (enc_representative rep)"
proof -
  have "same_slot_raw (enc_decision d) (enc_agreement a)"
    using s d(2) slot_of_decision [OF s(2)] slot_of_agreement [OF s(1)] same_slot_iff [OF s(2,1)]
    by (auto intro!: same_slot_raw_ok simp: approval_binds_def)
  then show ?thesis using f d
    by (simp add: representative_approved_def filter_map comp_def fld_enc same_fields_def approval_binds_def)
qed

lemma agreement_links_hold:
  assumes R: "represents w L" and I: "ledger_inv sha L" and a: "lg_agrs L i = Some a"
  shows "agreement_links (present w) (enc_agreement a)"
proof -
  obtain c where c: "lg_config L = Some c" "agreement_ok L c a" using ledger_invD(9) [OF I] a unfolding inv_agrs_def by blast
  obtain p where p: "lg_props L (ag_proposal a) = Some p" "pr_digest p = ag_digest a" "pr_slot p = ag_slot a"
    using c(2) unfolding agreement_ok_def by blast
  obtain pol where pol: "policy_of c (ag_policy_id a) (ag_policy_version a) = Some pol" "pol_slot pol = ag_slot a"
      "list_all2 (cites L pol a) (pol_roles pol) (ag_approvals a)"
    using c(2) unfolding agreement_ok_def by blast
  obtain r where r: "lg_revs L (ag_digest a) = Some r" "rv_slot r = ag_slot a"
    using props_ok [OF ledger_invD(6) [OF I] p(1) c(1)] p unfolding proposal_ok_def by auto
  obtain ds where ds: "list_all2 (\<lambda>i d. lg_decs L i = Some d) (ag_approvals a) ds"
      "list_all2 (\<lambda>role d. de_role d = role \<and> de_kind d = Approve \<and> approval_binds a d \<and>
       (\<exists>r. representative_of pol role = Some r \<and> de_org d = rep_org r \<and> de_actor d = rep_actor r)) (pol_roles pol) ds"
    using cited_decisions [OF pol(3)] by blast
  have wfp: "wf_policy pol" by (rule policy_of_wf [OF ledger_wf(1) [OF I c(1)] pol(1)])
  have s: "wf_slot (ag_slot a)" by (rule ledger_slots(4) [OF I a])
  have "pol \<in> set (cfg_policies c)" using policy_of_Some [OF pol(1)] by blast
  then have e: "pol_epoch pol = ag_epoch a" "pol_binding pol = ag_binding a"
    using ledger_wf(1) [OF I c(1)] c(2) by (auto simp: wf_config_def list_all_iff agreement_ok_def)
  have approved: "representative_approved (enc_agreement a) (map enc_decision ds) (enc_representative rep)"
    if rep: "rep \<in> set (pol_reps pol)" for rep
  proof -
    have "rep_role rep \<in> set (pol_roles pol)" using wfp rep by (simp add: wf_policy_def)
    then obtain j where j: "j < length (pol_roles pol)" "pol_roles pol ! j = rep_role rep" by (auto simp: in_set_conv_nth)
    let ?d = "ds ! j"
    have found: "representative_of pol (rep_role rep) = Some rep"
      unfolding representative_of_def using wfp rep by (intro representative_unique) (auto simp: wf_policy_def)
    have d: "de_role ?d = rep_role rep" "de_kind ?d = Approve" "approval_binds a ?d" "de_org ?d = rep_org rep" "de_actor ?d = rep_actor rep"
      using list_all2_nthD [OF ds(2) j(1)] j(2) found by auto
    have mem: "?d \<in> set ds" using j ds(2) by (simp add: list_all2_lengthD)
    obtain k where k: "lg_decs L k = Some ?d"
      using ds(1) mem by (auto simp: list_all2_conv_all_nth in_set_conv_nth)
    have roles: "list_all2 (\<lambda>role d. de_role d = role) (pol_roles pol) ds" using ds(2) by (rule list_all2_mono) simp
    have dist: "distinct (pol_roles pol)" using wfp unique_ids by (auto simp: wf_policy_def)
    have "filter (\<lambda>d. rep_matches (enc_representative rep) (enc_decision d)) ds = [?d]"
      by (rule filter_distinct_role [OF roles dist mem]) (simp_all add: rep_matches_enc d)
    then show ?thesis by (rule representative_approved_enc [OF s ledger_slots(3) [OF I k]]) (rule d)+
  qed
  have len: "length (ag_approvals a) = length (pol_roles pol)" using pol(3) by (simp add: list_all2_lengthD)
  have same: "same_slot_raw (enc_agreement a) (enc_payload (rv_payload r))" "same_slot_raw (enc_agreement a) (enc_policy pol)"
    using s r pol slot_of_payload [of "rv_payload r"] slot_of_policy [of pol] slot_of_agreement [OF s]
    by (auto intro!: same_slot_raw_ok)
  have "list_all (representative_approved (enc_agreement a) (map enc_decision ds)) (map enc_representative (pol_reps pol))"
    using approved by (auto simp: list_all_iff)
  then show ?thesis
    using representsD(3) [OF R, of "ag_digest a"] policy_stored [OF R c(1) pol(1)] r same e len those_decisions [OF ds(1) R]
    by (simp add: agreement_links_def fld_enc fld_revision same_fields_def del: map_map)
qed

text \<open>The keys of the ledger's records, and the writes that may be stored under each.\<close>

inductive record_key :: "jstr \<Rightarrow> bool" where
  "record_key key_config"
| "record_key key_eligibility_epoch"
| "record_key (key_revision i)"
| "record_key (key_revision_id i)"
| "record_key (key_policy i z)"
| "record_key (key_proposal i)"
| "record_key (key_review_counter i)"
| "record_key (key_decision i)"
| "record_key (key_latest_decision i z role org actor)"
| "record_key (key_agreement i)"
| "wf_slot s \<Longrightarrow> record_key (key_active_slot s)"

lemma stored_write_valid:
  assumes "represents w L" and "ledger_inv sha L" and "present w k = Some v" and "within_write_limit v" and "record_key k"
  shows "validate_state_write sha k v"
  using assms(5) stored_writes [OF assms(1-4)] by cases blast+

lemma stored_links_valid:
  assumes R: "represents w L" and I: "ledger_inv sha L" and v: "present w k = Some v"
    and canon: "(\<exists>i z. k = key_policy i z) \<longrightarrow> canon_ok v 0" and k: "record_key k"
  shows "validate_state_links k v (present w)"
  using k
proof cases
  case (3 i)
  then obtain r where r: "lg_revs L i = Some r" "v = enc_revision r" using v representsD(3) [OF R] by auto
  then have "wf_revision sha r" "rv_digest r = i" using ledger_wf(2) [OF I] ledger_ids(1) [OF I] by blast+
  then have "valid_unicode i" by (simp add: wf_revision_def is_digest_valid)
  then show ?thesis using 3 r revision_links_hold [OF R I r(1)] by (simp add: key_revision_def links_of_key)
next
  case (4 i)
  then obtain d where d: "lg_ids L i = Some d" "v = digest_pointer d" using v representsD(4) [OF R] by auto
  then obtain r where r: "lg_revs L d = Some r" "pl_revision_id (rv_payload r) = i"
    using ledger_invD(3) [OF I] unfolding inv_ids_def by blast
  then have "valid_unicode i" using ledger_wf(2) [OF I r(1)] by (auto simp: wf_revision_def wf_payload_def is_id_valid)
  then show ?thesis using 4 d revision_id_links_hold [OF R I d(1)] by (simp add: key_revision_id_def links_of_key)
next
  case (5 i z)
  then obtain c p where p: "lg_config L = Some c" "policy_of c i z = Some p" "v = enc_policy p"
    using v representsD(12) [OF R] by (auto simp: bind_eq_Some_conv)
  then have "wf_policy p" "pol_id p = i" using policy_of_wf ledger_wf(1) [OF I] policy_of_Some by blast+
  then have "valid_unicode i" by (auto simp: wf_policy_def is_id_valid)
  then show ?thesis using 5 p policy_links_hold [OF R p(1,2)] canon by (simp add: key_policy_def links_of_key)
next
  case (6 i)
  then obtain p where p: "lg_props L i = Some p" "v = enc_proposal p" using v representsD(5) [OF R] by auto
  then have "valid_unicode i" using ledger_wf(3) [OF I p(1)] ledger_ids(2) [OF I p(1)] by (auto simp: wf_proposal_def is_id_valid)
  then show ?thesis using 6 p proposal_links_hold [OF R I p(1)] by (simp add: key_proposal_def links_of_key)
next
  case (7 i)
  then obtain p where p: "lg_props L i = Some p" "v = JNum (NInt (pr_counter p))" using v representsD(6) [OF R] by auto
  then have "valid_unicode i" using ledger_wf(3) [OF I p(1)] ledger_ids(2) [OF I p(1)] by (auto simp: wf_proposal_def is_id_valid)
  then show ?thesis using 7 p representsD(5) [OF R, of i] by (simp add: key_review_counter_def links_of_key fld_enc)
next
  case (8 i)
  then obtain d where d: "lg_decs L i = Some d" "v = enc_decision d" using v representsD(7) [OF R] by auto
  then have "valid_unicode i" using ledger_wf(4) [OF I d(1)] ledger_ids(3) [OF I d(1)] by (auto simp: wf_decision_def is_id_valid)
  then show ?thesis using 8 d decision_links_hold [OF R I d(1)] by (simp add: key_decision_def links_of_key)
next
  case (9 i z role org actor)
  then obtain j where j: "lg_latest L (i, z, role, org, actor) = Some j" "v = decision_pointer j" using v representsD(8) [OF R] by auto
  then obtain d where d: "lg_decs L j = Some d" "seat_of d = (i, z, role, org, actor)"
    using ledger_invD(8) [OF I] unfolding inv_latest_def by blast
  then have "is_id i" "is_id role" "is_id org" "is_id actor"
    using ledger_wf(4) [OF I d(1)] by (auto simp: wf_decision_def seat_of_def)
  then show ?thesis using 9 j latest_decision_links_hold [OF R I j(1)]
    by (simp add: key_latest_decision_def links_of_key is_id_valid)
next
  case (10 i)
  then obtain a where a: "lg_agrs L i = Some a" "v = enc_agreement a" using v representsD(9) [OF R] by auto
  then have "valid_unicode i" using ledger_wf(5) [OF I a(1)] ledger_ids(4) [OF I a(1)] by (auto simp: wf_agreement_def is_id_valid)
  then show ?thesis using 10 a agreement_links_hold [OF R I a(1)] by (simp add: key_agreement_def links_of_key)
next
  case (11 s)
  then show ?thesis using active_slot_links_hold [OF R I 11(2)] v valid_slot_key [OF 11(2)]
    by (simp add: key_active_slot_def links_of_key)
qed (simp_all add: key_config_def key_eligibility_epoch_def links_of_key)

end
