(* ===== verification/LocalLedger.thy ===== *)
theory LocalLedger
  imports PlainWrites StoredCheck
begin

text \<open>
  \<open>packages/storage/local-ledger.ts\<close>: the single-writer journal. The journal rows are the ledger; the
  projection (current value per key), its history (one row per key and block) and the cursor are derived
  from them and can be rebuilt at any time. Columns hold the JSON texts that the program stores; what a row
  says is what \<open>JSON.parse\<close> makes of its text. A table is the list of its rows, the journal in the order
  of its primary key.

  Parameters: \<open>sha\<close> is the hexadecimal SHA-256 of bytes, \<open>real\<close> reads decimal literals that are no safe
  integers, and the transaction id and time of a transaction are inputs.
\<close>

section \<open>Tables\<close>

datatype ledger_error = ChannelMismatch | JournalIntegrity | ProjectionIntegrity | InvalidWriteSet
  | InvalidCheckpoint | CheckpointAhead | UntrustedCheckpoint | CheckpointMissing | CreationMissing
  | ImmutableOverwritten | UnknownReducer | InvalidRange | Malformed | ConstraintViolation | Thrown derror

type_synonym 'a lres = "(ledger_error, 'a) result"

record journal_row =
  row_seq :: int
  row_tx :: jstr
  row_json :: jstr

record tables =
  projection :: "(jstr \<times> jstr) list"
  history :: "(jstr \<times> int \<times> jstr) list"
  cursor :: "int option"

record local_ledger =
  ll_channel :: jstr
  ll_meta :: "jstr option"
  ll_journal :: "journal_row list"
  ll_tables :: tables

definition no_tables :: tables where
  "no_tables = \<lparr>projection = [], history = [], cursor = None\<rparr>"

text \<open>\<open>INSERT ... ON CONFLICT DO UPDATE\<close>\<close>

fun upsert :: "'k \<Rightarrow> 'v \<Rightarrow> ('k \<times> 'v) list \<Rightarrow> ('k \<times> 'v) list" where
  "upsert k v [] = [(k, v)]"
| "upsert k v ((l, x) # rows) = (if l = k then (k, v) # rows else (l, x) # upsert k v rows)"

text \<open>\<open>ORDER BY sequence DESC LIMIT 1\<close>\<close>

fun newest :: "(int \<times> 'v) list \<Rightarrow> (int \<times> 'v) option" where
  "newest [] = None"
| "newest ((n, t) # rows) = (case newest rows of
     None \<Rightarrow> Some (n, t)
   | Some (m, u) \<Rightarrow> if n \<le> m then Some (m, u) else Some (n, t))"

definition versions :: "tables \<Rightarrow> jstr \<Rightarrow> (int \<times> jstr) list" where
  "versions tb k = map snd (filter (\<lambda>(l, _). l = k) (history tb))"

definition select_history_latest :: "tables \<Rightarrow> jstr \<Rightarrow> jstr option" where
  "select_history_latest tb k = map_option snd (newest (versions tb k))"

definition select_history_at :: "tables \<Rightarrow> jstr \<Rightarrow> int \<Rightarrow> jstr option" where
  "select_history_at tb k n = map_option snd (newest (filter (\<lambda>(m, _). m \<le> n) (versions tb k)))"

section \<open>The journal\<close>

definition zero_hash :: jstr where "zero_hash = replicate 64 48"

definition parse_row :: "real_fn \<Rightarrow> journal_row \<Rightarrow> json lres" where
  "parse_row real r = (case json_parse real (row_json r) of None \<Rightarrow> Err Malformed | Some v \<Rightarrow> Ok v)"

definition hash_record :: "sha_fn \<Rightarrow> json \<Rightarrow> jstr" where
  "hash_record sha v = sha (utf8 (stringify v))"

text \<open>\<open>const { block_hash, ...checkpoint } = event.checkpoint\<close>\<close>

definition without_hash :: "json \<Rightarrow> json" where
  "without_hash v = (case v of JObj kvs \<Rightarrow> JObj (filter (\<lambda>(k, _). k \<noteq> js ''block_hash'') kvs) | _ \<Rightarrow> JObj [])"

definition unsigned_of :: "json \<Rightarrow> json" where
  "unsigned_of ev = obj
     [(''checkpoint'', without_hash (fld ev ''checkpoint'')), (''previous_hash'', fld ev ''previous_hash''),
      (''timestamp'', fld ev ''timestamp''), (''validation_code'', fld ev ''validation_code''),
      (''reducer_version'', fld ev ''reducer_version''), (''writes'', fld ev ''writes'')]"

definition is_zero :: "json \<Rightarrow> bool" where
  "is_zero v \<longleftrightarrow> v = JNum (NInt 0) \<or> v = JNum NNegZero"

text \<open>\<open>const [key, value] = entry\<close>, where a key that is no string is refused by the validation.\<close>

definition write_entry :: "json \<Rightarrow> (jstr \<times> json) lres" where
  "write_entry e = (case e of
     JArr (JStr k # rest) \<Rightarrow> Ok (k, case rest of v # _ \<Rightarrow> v | [] \<Rightarrow> JUndef)
   | JArr _ \<Rightarrow> Err InvalidWriteSet
   | JStr _ \<Rightarrow> Err InvalidWriteSet
   | _ \<Rightarrow> Err Malformed)"

definition event_entries :: "json \<Rightarrow> json list lres" where
  "event_entries ev = (case fld ev ''writes'' of
     JArr xs \<Rightarrow> Ok xs
   | JStr s \<Rightarrow> if s = [] then Ok [] else Err InvalidWriteSet
   | _ \<Rightarrow> Err Malformed)"

definition valid_write :: "sha_fn \<Rightarrow> jstr \<times> json \<Rightarrow> unit lres" where
  "valid_write sha = (\<lambda>(k, v). rcheck (validate_state_write sha k v) InvalidWriteSet)"

text \<open>One round of \<open>validateJournalRows\<close>; the state is the previous hash and the expected sequence.\<close>

definition validate_row :: "sha_fn \<Rightarrow> real_fn \<Rightarrow> jstr \<Rightarrow> journal_row \<Rightarrow> jstr \<times> int \<Rightarrow> (jstr \<times> int) lres" where
  "validate_row sha real channel r = (\<lambda>(previous, expected).
     rbind (parse_row real r) (\<lambda>ev.
     let cp = fld ev ''checkpoint''; hash = hash_record sha (unsigned_of ev) in
     rbind (rcheck (cp \<noteq> JUndef \<and> cp \<noteq> JNull) Malformed) (\<lambda>_.
     rbind (rcheck (row_seq r = expected \<and> fld cp ''block_number'' = JNum (NInt expected) \<and>
              is_zero (fld cp ''transaction_index'') \<and> fld cp ''channel_id'' = JStr channel \<and>
              fld ev ''previous_hash'' = JStr previous \<and> fld cp ''block_hash'' = JStr hash \<and>
              fld ev ''reducer_version'' = JNum (NInt 1) \<and> fld ev ''validation_code'' = JStr (js ''VALID''))
            JournalIntegrity) (\<lambda>_.
     rbind (event_entries ev) (\<lambda>entries.
     rbind (forR (\<lambda>e. rbind (write_entry e) (valid_write sha)) entries) (\<lambda>_.
     Ok (hash, expected + 1)))))))"

definition validate_journal_rows :: "sha_fn \<Rightarrow> real_fn \<Rightarrow> jstr \<Rightarrow> journal_row list \<Rightarrow> (jstr \<times> int) lres" where
  "validate_journal_rows sha real channel rows = foldR (validate_row sha real channel) rows (zero_hash, 1)"

definition verify_journal_db :: "sha_fn \<Rightarrow> real_fn \<Rightarrow> local_ledger \<Rightarrow> jstr \<Rightarrow> (jstr \<times> int) lres" where
  "verify_journal_db sha real l channel =
     (if ll_meta l \<noteq> Some channel then Err ChannelMismatch
      else validate_journal_rows sha real channel (ll_journal l))"

section \<open>Reading\<close>

definition decode_value :: "sha_fn \<Rightarrow> real_fn \<Rightarrow> jstr \<Rightarrow> jstr \<Rightarrow> json lres" where
  "decode_value sha real k text = (case json_parse real text of
     None \<Rightarrow> Err Malformed
   | Some v \<Rightarrow> if validate_state_write sha k v then Ok v else Err InvalidWriteSet)"

definition decode_row :: "sha_fn \<Rightarrow> real_fn \<Rightarrow> jstr \<Rightarrow> jstr option \<Rightarrow> json option lres" where
  "decode_row sha real k row = (case row of None \<Rightarrow> Ok None | Some text \<Rightarrow> rmap Some (decode_value sha real k text))"

text \<open>\<open>read(key)\<close> without a checkpoint, and \<open>readCurrent\<close>.\<close>

definition read_latest :: "sha_fn \<Rightarrow> real_fn \<Rightarrow> tables \<Rightarrow> jstr \<Rightarrow> json option lres" where
  "read_latest sha real tb k =
     (let row = map_of (projection tb) k in
      if row \<noteq> select_history_latest tb k then Err ProjectionIntegrity else decode_row sha real k row)"

definition read_current :: "sha_fn \<Rightarrow> real_fn \<Rightarrow> tables \<Rightarrow> jstr \<Rightarrow> json option lres" where
  "read_current sha real tb k = decode_row sha real k (map_of (projection tb) k)"

text \<open>\<open>===\<close> on values that are no objects.\<close>

definition same_value :: "json \<Rightarrow> json \<Rightarrow> bool" where
  "same_value a b \<longleftrightarrow> a = b \<and> (case a of JArr _ \<Rightarrow> False | JObj _ \<Rightarrow> False | _ \<Rightarrow> True)"

definition row_checkpoint :: "real_fn \<Rightarrow> journal_row \<Rightarrow> json lres" where
  "row_checkpoint real r = rmap (\<lambda>ev. fld ev ''checkpoint'') (parse_row real r)"

definition integer_of :: "json \<Rightarrow> int option" where
  "integer_of v = (case v of JNum (NInt n) \<Rightarrow> if \<bar>n\<bar> \<le> max_safe then Some n else None | JNum NNegZero \<Rightarrow> Some 0 | _ \<Rightarrow> None)"

definition assert_checkpoint :: "real_fn \<Rightarrow> local_ledger \<Rightarrow> json \<Rightarrow> int lres" where
  "assert_checkpoint real l at =
     (if fld at ''channel_id'' \<noteq> JStr (ll_channel l) \<or> \<not> is_zero (fld at ''transaction_index'') then Err InvalidCheckpoint
      else case integer_of (fld at ''block_number'') of
        None \<Rightarrow> Err InvalidCheckpoint
      | Some n \<Rightarrow> (case find (\<lambda>r. row_seq r = n) (ll_journal l) of
           None \<Rightarrow> Err CheckpointAhead
         | Some r \<Rightarrow> rbind (row_checkpoint real r) (\<lambda>known.
             rbind (rcheck (same_value (fld known ''transaction_id'') (fld at ''transaction_id'') \<and>
                      same_value (fld known ''block_hash'') (fld at ''block_hash'')) UntrustedCheckpoint) (\<lambda>_.
             rbind (rcheck (case cursor (ll_tables l) of None \<Rightarrow> False | Some c \<Rightarrow> n \<le> c) CheckpointAhead) (\<lambda>_.
             Ok n)))))"

definition ledger_read :: "sha_fn \<Rightarrow> real_fn \<Rightarrow> local_ledger \<Rightarrow> jstr \<Rightarrow> json option \<Rightarrow> json option lres" where
  "ledger_read sha real l k at = (case at of
     None \<Rightarrow> read_latest sha real (ll_tables l) k
   | Some cp \<Rightarrow> rbind (assert_checkpoint real l cp) (\<lambda>n.
       decode_row sha real k (select_history_at (ll_tables l) k n)))"

text \<open>\<open>checkpoint()\<close>: what the last row says.\<close>

definition ledger_checkpoint :: "real_fn \<Rightarrow> local_ledger \<Rightarrow> json option lres" where
  "ledger_checkpoint real l = (case ll_journal l of
     [] \<Rightarrow> Ok None
   | rows \<Rightarrow> rmap Some (row_checkpoint real (last rows)))"

definition checkpoint_for_transaction :: "real_fn \<Rightarrow> local_ledger \<Rightarrow> jstr \<Rightarrow> json lres" where
  "checkpoint_for_transaction real l tx = (case find (\<lambda>r. row_tx r = tx) (ll_journal l) of
     None \<Rightarrow> Err CheckpointMissing
   | Some r \<Rightarrow> rbind (row_checkpoint real r) (\<lambda>cp. rbind (assert_checkpoint real l cp) (\<lambda>_. Ok cp)))"

text \<open>The earliest history row of the key whose journal row exists.\<close>

definition checkpoint_for_state_creation :: "real_fn \<Rightarrow> local_ledger \<Rightarrow> jstr \<Rightarrow> json lres" where
  "checkpoint_for_state_creation real l k =
     (let blocks = filter (\<lambda>n. \<exists>r \<in> set (ll_journal l). row_seq r = n) (map fst (versions (ll_tables l) k)) in
      if blocks = [] then Err CreationMissing
      else (case find (\<lambda>r. row_seq r = Min (set blocks)) (ll_journal l) of
         None \<Rightarrow> Err CreationMissing
       | Some r \<Rightarrow> row_checkpoint real r))"

definition ledger_events :: "real_fn \<Rightarrow> local_ledger \<Rightarrow> int \<Rightarrow> int \<Rightarrow> json list lres" where
  "ledger_events real l after limit =
     (if max_safe < after \<or> after < 0 \<or> limit < 1 \<or> 1000 < limit then Err InvalidRange
      else mapR (parse_row real) (take (nat limit) (filter (\<lambda>r. after < row_seq r) (ll_journal l))))"

section \<open>Reading many keys\<close>

fun chunks :: "nat \<Rightarrow> 'a list \<Rightarrow> 'a list list" where
  "chunks n [] = []"
| "chunks n (x # xs) = (x # take (n - 1) xs) # chunks n (drop (n - 1) xs)"

text \<open>The newest version of the key, up to the checkpoint if there is one.\<close>

definition select_version :: "tables \<Rightarrow> int option \<Rightarrow> jstr \<Rightarrow> jstr option" where
  "select_version tb at k = (case at of None \<Rightarrow> select_history_latest tb k | Some n \<Rightarrow> select_history_at tb k n)"

definition version_rows :: "tables \<Rightarrow> int option \<Rightarrow> jstr list \<Rightarrow> (jstr \<times> jstr) list" where
  "version_rows tb at ks = concat (map (\<lambda>k. case select_version tb at k of None \<Rightarrow> [] | Some t \<Rightarrow> [(k, t)]) ks)"

definition projection_rows :: "tables \<Rightarrow> jstr list \<Rightarrow> (jstr \<times> jstr) list" where
  "projection_rows tb ks = concat (map (\<lambda>k. case map_of (projection tb) k of None \<Rightarrow> [] | Some t \<Rightarrow> [(k, t)]) ks)"

definition decode_rows :: "sha_fn \<Rightarrow> real_fn \<Rightarrow> (jstr \<times> jstr) list \<Rightarrow> (jstr \<times> json) list lres" where
  "decode_rows sha real rows = mapR (\<lambda>(k, t). rmap (\<lambda>v. (k, v)) (decode_value sha real k t)) rows"

definition read_chunk :: "sha_fn \<Rightarrow> real_fn \<Rightarrow> tables \<Rightarrow> int option \<Rightarrow> jstr list \<Rightarrow> (jstr \<times> json) list lres" where
  "read_chunk sha real tb at ks =
     (let rows = version_rows tb at ks; current = projection_rows tb ks in
      if at = None \<and> (length current \<noteq> length rows \<or> list_ex (\<lambda>(k, t). map_of current k \<noteq> Some t) rows)
      then Err ProjectionIntegrity
      else decode_rows sha real rows)"

definition checkpoint_bound :: "real_fn \<Rightarrow> local_ledger \<Rightarrow> json option \<Rightarrow> int option lres" where
  "checkpoint_bound real l at = (case at of None \<Rightarrow> Ok None | Some cp \<Rightarrow> rmap Some (assert_checkpoint real l cp))"

text \<open>The result is a map; the order of its entries is that of the keys here.\<close>

definition read_many :: "sha_fn \<Rightarrow> real_fn \<Rightarrow> local_ledger \<Rightarrow> jstr list \<Rightarrow> json option \<Rightarrow> (jstr \<times> json) list lres" where
  "read_many sha real l keys at =
     rbind (checkpoint_bound real l at) (\<lambda>bound.
     rmap concat (mapR (read_chunk sha real (ll_tables l) bound) (chunks 500 (remdups keys))))"

text \<open>\<open>state_key >= prefix AND state_key < prefix + '\uffff'\<close> in the order of the UTF-8 bytes.\<close>

definition in_range :: "jstr \<Rightarrow> jstr \<Rightarrow> bool" where
  "in_range pre k \<longleftrightarrow> utf8 pre \<le> utf8 k \<and> utf8 k < utf8 (pre @ [0xFFFF])"

definition keys_in_range :: "jstr \<Rightarrow> jstr list \<Rightarrow> jstr list" where
  "keys_in_range pre ks = sort_key utf8 (remdups (filter (in_range pre) ks))"

definition ledger_entries :: "sha_fn \<Rightarrow> real_fn \<Rightarrow> local_ledger \<Rightarrow> jstr \<Rightarrow> json option \<Rightarrow> (jstr \<times> json) list lres" where
  "ledger_entries sha real l pre at =
     rbind (checkpoint_bound real l at) (\<lambda>bound.
     let tb = ll_tables l;
         rows = version_rows tb bound (keys_in_range pre (map fst (history tb)));
         current = projection_rows tb (keys_in_range pre (map fst (projection tb))) in
     if bound = None \<and> current \<noteq> rows then Err ProjectionIntegrity else decode_rows sha real rows)"

section \<open>Applying a write set\<close>

definition prior_of :: "sha_fn \<Rightarrow> real_fn \<Rightarrow> bool \<Rightarrow> tables \<Rightarrow> jstr \<Rightarrow> json option lres" where
  "prior_of sha real trusted = (if trusted then read_current sha real else read_latest sha real)"

definition apply_write :: "sha_fn \<Rightarrow> real_fn \<Rightarrow> bool \<Rightarrow> int \<Rightarrow> jstr \<times> json \<Rightarrow> tables \<Rightarrow> tables lres" where
  "apply_write sha real trusted block = (\<lambda>(k, v) tb.
     rbind (rcheck (validate_state_write sha k v) InvalidWriteSet) (\<lambda>_.
     rbind (if trusted \<and> \<not> immutable_key k then Ok None else prior_of sha real trusted tb k) (\<lambda>prior.
     rbind (rcheck (case prior of Some p \<Rightarrow> immutable_key k \<longrightarrow> same_json p v | None \<Rightarrow> True) ImmutableOverwritten) (\<lambda>_.
     rbind (rcheck (\<forall>(l, n, _) \<in> set (history tb). \<not> (l = k \<and> n = block)) ConstraintViolation) (\<lambda>_.
     Ok (tb\<lparr>projection := upsert k (stringify v) (projection tb), history := history tb @ [(k, block, stringify v)]\<rparr>))))))"

text \<open>Any failure of a lookup is a failure of the link check.\<close>

definition linked :: "sha_fn \<Rightarrow> real_fn \<Rightarrow> bool \<Rightarrow> tables \<Rightarrow> jstr \<times> json \<Rightarrow> bool" where
  "linked sha real trusted tb = (\<lambda>(k, v). validate_state_links k v
     (\<lambda>l. case prior_of sha real trusted tb l of Ok found \<Rightarrow> found | Err _ \<Rightarrow> None))"

definition apply_event :: "sha_fn \<Rightarrow> real_fn \<Rightarrow> bool \<Rightarrow> json \<Rightarrow> int \<Rightarrow> (jstr \<times> json) list \<Rightarrow> tables \<Rightarrow> tables lres" where
  "apply_event sha real trusted reducer block writes tb =
     rbind (rcheck (reducer = JNum (NInt 1)) UnknownReducer) (\<lambda>_.
     rbind (foldR (apply_write sha real trusted block) writes tb) (\<lambda>tb'.
     rbind (forR (\<lambda>w. rcheck (linked sha real trusted tb' w) InvalidWriteSet) writes) (\<lambda>_.
     Ok (tb'\<lparr>cursor := Some block\<rparr>))))"

section \<open>Transactions\<close>

definition unsigned_event :: "jstr \<Rightarrow> int \<Rightarrow> jstr \<Rightarrow> json \<Rightarrow> jstr \<Rightarrow> (jstr \<times> json) list \<Rightarrow> json" where
  "unsigned_event channel block tx previous_hash time writes = obj
     [(''checkpoint'', obj [(''channel_id'', JStr channel), (''block_number'', JNum (NInt block)),
         (''transaction_index'', JNum (NInt 0)), (''transaction_id'', JStr tx)]),
      (''previous_hash'', previous_hash), (''timestamp'', JStr time), (''validation_code'', JStr (js ''VALID'')),
      (''reducer_version'', JNum (NInt 1)), (''writes'', JArr (map (\<lambda>(k, v). JArr [JStr k, v]) writes))]"

definition signed_event :: "sha_fn \<Rightarrow> jstr \<Rightarrow> int \<Rightarrow> jstr \<Rightarrow> json \<Rightarrow> jstr \<Rightarrow> (jstr \<times> json) list \<Rightarrow> json" where
  "signed_event sha channel block tx previous_hash time writes = obj
     [(''checkpoint'', obj [(''channel_id'', JStr channel), (''block_number'', JNum (NInt block)),
         (''transaction_index'', JNum (NInt 0)), (''transaction_id'', JStr tx),
         (''block_hash'', JStr (hash_record sha (unsigned_event channel block tx previous_hash time writes)))]),
      (''previous_hash'', previous_hash), (''timestamp'', JStr time), (''validation_code'', JStr (js ''VALID'')),
      (''reducer_version'', JNum (NInt 1)), (''writes'', JArr (map (\<lambda>(k, v). JArr [JStr k, v]) writes))]"

text \<open>The staged writes as the \<open>Map\<close> keeps them, the last value per key, sorted by key.\<close>

definition committed_writes :: "(jstr \<times> json) list \<Rightarrow> (jstr \<times> json) list" where
  "committed_writes ws = sort_key fst (fold (\<lambda>(k, v). upsert k v) ws [])"

definition insert_row :: "journal_row \<Rightarrow> journal_row list \<Rightarrow> journal_row list lres" where
  "insert_row r rows =
     (if \<exists>q \<in> set rows. row_seq q = row_seq r \<or> row_tx q = row_tx r then Err ConstraintViolation
      else Ok (insort_key row_seq r rows))"

text \<open>What the handler's \<open>get\<close> sees.\<close>

definition ledger_world :: "sha_fn \<Rightarrow> real_fn \<Rightarrow> tables \<Rightarrow> world" where
  "ledger_world sha real tb = (\<lambda>k. case read_latest sha real tb k of Ok v \<Rightarrow> v | Err _ \<Rightarrow> None)"

text \<open>
  A handler sees the state through \<open>ctx.get\<close>, which throws on a key whose derived rows disagree or hold no
  valid value. The model lets a transaction fail as soon as there is such a key, whether or not the handler
  would have read it.
\<close>

definition readable :: "sha_fn \<Rightarrow> real_fn \<Rightarrow> tables \<Rightarrow> bool" where
  "readable sha real tb \<longleftrightarrow>
     list_all (\<lambda>k. is_ok (read_latest sha real tb k)) (map fst (projection tb) @ map fst (history tb))"

type_synonym 'a handler = "txctx \<Rightarrow> tx \<Rightarrow> ('a \<times> tx) res"

text \<open>The block that follows \<open>previous\<close>, appended and applied; an empty write set after the first block adds none.\<close>

definition next_block :: "json option \<Rightarrow> int \<times> json" where
  "next_block previous = (case previous of
     None \<Rightarrow> (1, JStr zero_hash)
   | Some cp \<Rightarrow> (int_of (fld cp ''block_number'') + 1, fld cp ''block_hash''))"

definition commit_block :: "sha_fn \<Rightarrow> real_fn \<Rightarrow> jstr \<Rightarrow> jstr \<Rightarrow> json option \<Rightarrow> (jstr \<times> json) list \<Rightarrow> local_ledger \<Rightarrow>
    (json \<times> local_ledger) lres" where
  "commit_block sha real tx time previous writes l =
     (if writes = [] \<and> previous \<noteq> None then Ok (the previous, l)
      else let (block, hash) = next_block previous;
               event = signed_event sha (ll_channel l) block tx hash time writes in
        rbind (insert_row \<lparr>row_seq = block, row_tx = tx, row_json = stringify event\<rparr> (ll_journal l)) (\<lambda>rows.
        rbind (apply_event sha real False (JNum (NInt 1)) block writes (ll_tables l)) (\<lambda>tb.
        Ok (fld event ''checkpoint'', l\<lparr>ll_journal := rows, ll_tables := tb\<rparr>))))"

definition transact :: "sha_fn \<Rightarrow> real_fn \<Rightarrow> actor \<Rightarrow> jstr \<Rightarrow> jstr \<Rightarrow> 'a handler \<Rightarrow> local_ledger \<Rightarrow>
    ('a \<times> json \<times> local_ledger) lres" where
  "transact sha real actor tx time handler l =
     rbind (ledger_checkpoint real l) (\<lambda>previous.
     rbind (rcheck (readable sha real (ll_tables l)) ProjectionIntegrity) (\<lambda>_.
     case handler \<lparr>tx_actor = actor, tx_channel = ll_channel l, tx_id = tx, tx_time = time\<rparr>
            (begin_tx (ledger_world sha real (ll_tables l))) of
       Err e \<Rightarrow> Err (Thrown e)
     | Ok (result, t) \<Rightarrow>
         rbind (forR (valid_write sha) (staged t)) (\<lambda>_.
         rbind (commit_block sha real tx time previous (committed_writes (staged t)) l) (\<lambda>(cp, l').
         Ok (result, cp, l')))))"

definition ledger_execute :: "sha_fn \<Rightarrow> real_fn \<Rightarrow> actor \<Rightarrow> jstr \<Rightarrow> jstr \<Rightarrow> json \<Rightarrow> local_ledger \<Rightarrow> (json \<times> json \<times> local_ledger) lres" where
  "ledger_execute sha real actor tx time cmd = transact sha real actor tx time (\<lambda>ctx. execute sha ctx cmd)"

definition ledger_bootstrap :: "sha_fn \<Rightarrow> real_fn \<Rightarrow> actor \<Rightarrow> jstr \<Rightarrow> jstr \<Rightarrow> json \<Rightarrow> local_ledger \<Rightarrow> (json \<times> json \<times> local_ledger) lres" where
  "ledger_bootstrap sha real actor tx time input = transact sha real actor tx time (\<lambda>ctx. bootstrap ctx input)"

section \<open>Opening and rebuilding\<close>

definition replay_row :: "sha_fn \<Rightarrow> real_fn \<Rightarrow> journal_row \<Rightarrow> tables \<Rightarrow> tables lres" where
  "replay_row sha real r tb =
     rbind (parse_row real r) (\<lambda>ev.
     rbind (event_entries ev) (\<lambda>entries.
     rbind (mapR write_entry entries) (\<lambda>writes.
     apply_event sha real True (fld ev ''reducer_version'') (int_of (fld (fld ev ''checkpoint'') ''block_number'')) writes tb)))"

definition rebuild_projection :: "sha_fn \<Rightarrow> real_fn \<Rightarrow> local_ledger \<Rightarrow> local_ledger lres" where
  "rebuild_projection sha real l =
     rbind (validate_journal_rows sha real (ll_channel l) (ll_journal l)) (\<lambda>_.
     rbind (foldR (replay_row sha real) (ll_journal l) no_tables) (\<lambda>tb.
     Ok (l\<lparr>ll_tables := tb\<rparr>)))"

text \<open>The constructor on the stored tables; a fresh file has none.\<close>

definition open_ledger :: "sha_fn \<Rightarrow> real_fn \<Rightarrow> jstr \<Rightarrow> local_ledger \<Rightarrow> local_ledger lres" where
  "open_ledger sha real channel file =
     (case ll_meta file of
        Some known \<Rightarrow> if known \<noteq> channel then Err ChannelMismatch
          else rebuild_projection sha real (file\<lparr>ll_channel := channel\<rparr>)
      | None \<Rightarrow> rebuild_projection sha real (file\<lparr>ll_channel := channel, ll_meta := Some channel\<rparr>))"

definition fresh_file :: local_ledger where
  "fresh_file = \<lparr>ll_channel = [], ll_meta = None, ll_journal = [], ll_tables = no_tables\<rparr>"

end
