(* ===== verification/LedgerReplay.thy ===== *)
theory LedgerReplay
  imports LocalLedger
begin

text \<open>
  Correctness of the local ledger. The projection and its history agree after every applied write set, a
  live commit and a replay of its row have the same effect, so rebuilding the derived tables of a ledger
  gives them back; and a ledger that only ran commands of the engine shows a state that the engine reaches.
\<close>

section \<open>Tables\<close>

lemma map_of_upsert [simp]: "map_of (upsert k v rows) = (map_of rows)(k \<mapsto> v)"
  by (induction k v rows rule: upsert.induct) auto

lemma upsert_keys: "fst ` set (upsert k v rows) = insert k (fst ` set rows)"
  by (induction k v rows rule: upsert.induct) auto

lemma upsert_distinct: "distinct (map fst rows) \<Longrightarrow> distinct (map fst (upsert k v rows))"
  by (induction k v rows rule: upsert.induct) (auto simp: upsert_keys)

lemma newest_None [simp]: "newest rows = None \<longleftrightarrow> rows = []"
  by (cases rows) (auto split: option.splits)

lemma newest_append: "\<forall>(n, _) \<in> set rows. n \<le> b \<Longrightarrow> newest (rows @ [(b, t)]) = Some (b, t)"
  by (induction rows) auto

definition in_sync :: "tables \<Rightarrow> int \<Rightarrow> bool" where
  "in_sync tb b \<longleftrightarrow> (\<forall>k. map_of (projection tb) k = select_history_latest tb k) \<and> (\<forall>(_, n, _) \<in> set (history tb). n \<le> b)"

lemma in_sync_mono: "in_sync tb b \<Longrightarrow> b \<le> c \<Longrightarrow> in_sync tb c"
  by (fastforce simp: in_sync_def)

lemma in_sync_empty: "in_sync no_tables b"
  by (simp add: in_sync_def no_tables_def select_history_latest_def versions_def)

lemma in_sync_cursor [simp]: "in_sync (tb\<lparr>cursor := c\<rparr>) b = in_sync tb b"
  by (simp add: in_sync_def select_history_latest_def versions_def)

lemma read_in_sync: "in_sync tb b \<Longrightarrow> read_latest sha real tb k = read_current sha real tb k"
  by (simp add: in_sync_def read_latest_def read_current_def Let_def)

lemma apply_write_Ok:
  "apply_write sha real trusted block (k, v) tb = Ok tb' \<Longrightarrow>
     validate_state_write sha k v \<and> (\<forall>(l, n, _) \<in> set (history tb). \<not> (l = k \<and> n = block)) \<and>
     tb' = tb\<lparr>projection := upsert k (stringify v) (projection tb), history := history tb @ [(k, block, stringify v)]\<rparr>"
  by (auto simp: apply_write_def)

lemma apply_write_sync:
  assumes ok: "apply_write sha real trusted block w tb = Ok tb'" and sync: "in_sync tb block"
  shows "in_sync tb' block"
proof -
  obtain k v where w: "w = (k, v)" by (cases w)
  note ok' = apply_write_Ok [OF ok [unfolded w]]
  have below: "\<forall>(n, _) \<in> set (versions tb k). n \<le> block" using sync by (fastforce simp: versions_def in_sync_def)
  have "map_of (projection tb') l = select_history_latest tb' l" for l
  proof (cases "l = k")
    case True
    then show ?thesis using ok' newest_append [OF below] by (simp add: select_history_latest_def versions_def)
  next
    case False
    then show ?thesis using ok' sync by (auto simp: select_history_latest_def versions_def in_sync_def)
  qed
  then show ?thesis using ok' sync by (auto simp: in_sync_def)
qed

lemma apply_writes_sync: "foldR (apply_write sha real trusted block) ws tb = Ok tb' \<Longrightarrow> in_sync tb block \<Longrightarrow> in_sync tb' block"
  by (rule foldR_invariant [where P = "\<lambda>tb. in_sync tb block"]) (auto dest: apply_write_sync)

text \<open>A write that a live commit accepts is accepted by the replay, with the same effect.\<close>

lemma apply_write_replays:
  assumes "apply_write sha real False block w tb = Ok tb'" and "in_sync tb block"
  shows "apply_write sha real True block w tb = Ok tb'"
  using assms read_in_sync [OF assms(2), of sha real] by (cases w) (auto simp: apply_write_def prior_of_def split: if_splits)

lemma apply_writes_replay:
  "foldR (apply_write sha real False block) ws tb = Ok tb' \<Longrightarrow> in_sync tb block \<Longrightarrow>
   foldR (apply_write sha real True block) ws tb = Ok tb'"
proof (induction ws arbitrary: tb)
  case (Cons w ws)
  then obtain tb1 where tb1: "apply_write sha real False block w tb = Ok tb1" "foldR (apply_write sha real False block) ws tb1 = Ok tb'"
    by auto
  then show ?case using Cons.IH [OF tb1(2)] apply_write_sync [OF tb1(1)] apply_write_replays [OF tb1(1)] Cons.prems(2) by simp
qed simp

lemma apply_event_replays:
  assumes "apply_event sha real False red block ws tb = Ok tb'" and "in_sync tb block"
  shows "apply_event sha real True red block ws tb = Ok tb' \<and> in_sync tb' block"
proof -
  obtain tb1 where tb1: "foldR (apply_write sha real False block) ws tb = Ok tb1" "tb' = tb1\<lparr>cursor := Some block\<rparr>"
      "red = JNum (NInt 1)" "\<forall>w \<in> set ws. linked sha real False tb1 w"
    using assms(1) by (auto simp: apply_event_def)
  have sync: "in_sync tb1 block" by (rule apply_writes_sync [OF tb1(1) assms(2)])
  then have "linked sha real True tb1 w = linked sha real False tb1 w" for w
    by (simp add: linked_def prior_of_def read_in_sync)
  then show ?thesis using tb1 sync apply_writes_replay [OF tb1(1) assms(2)] by (simp add: apply_event_def)
qed

lemma apply_event_sync:
  assumes "apply_event sha real trusted red block ws tb = Ok tb'" and "in_sync tb block"
  shows "in_sync tb' block \<and> cursor tb' = Some block"
  using assms by (auto simp: apply_event_def dest: apply_writes_sync)

section \<open>Verified journals\<close>

lemma validate_row_Ok:
  assumes "validate_row sha real channel r (previous, expected) = Ok (hash, n)"
  shows "n = expected + 1 \<and> row_seq r = expected \<and> (\<exists>ev. parse_row real r = Ok ev \<and>
     fld (fld ev ''checkpoint'') ''block_number'' = JNum (NInt expected) \<and>
     fld (fld ev ''checkpoint'') ''block_hash'' = JStr hash \<and> fld (fld ev ''checkpoint'') ''channel_id'' = JStr channel \<and>
     is_zero (fld (fld ev ''checkpoint'') ''transaction_index'') \<and>
     fld ev ''previous_hash'' = JStr previous \<and> hash = hash_record sha (unsigned_of ev) \<and>
     fld ev ''reducer_version'' = JNum (NInt 1))"
  using assms by (auto simp: validate_row_def Let_def)

lemma validate_rows_snoc:
  "validate_journal_rows sha real channel (rows @ [r]) =
     rbind (validate_journal_rows sha real channel rows) (validate_row sha real channel r)"
proof -
  have "foldR f [r] = f r" for f :: "journal_row \<Rightarrow> jstr \<times> int \<Rightarrow> (jstr \<times> int) lres"
  proof
    fix s show "foldR f [r] s = f r s" by (cases "f r s") simp_all
  qed
  then show ?thesis by (simp add: validate_journal_rows_def foldR_append)
qed

lemma validate_rows_count:
  "validate_journal_rows sha real channel rows = Ok (hash, n) \<Longrightarrow>
     n = int (length rows) + 1 \<and> map row_seq rows = map int [1..<length rows + 1]"
proof (induction rows arbitrary: hash n rule: rev_induct)
  case Nil
  then show ?case by (simp add: validate_journal_rows_def)
next
  case (snoc r rows)
  then obtain hash' n' where p: "validate_journal_rows sha real channel rows = Ok (hash', n')"
      "validate_row sha real channel r (hash', n') = Ok (hash, n)"
    unfolding validate_rows_snoc by auto
  then show ?case using snoc.IH [OF p(1)] validate_row_Ok [OF p(2)] by simp
qed

lemma last_row_checkpoint:
  assumes "validate_journal_rows sha real channel rows = Ok (hash, n)" and "rows \<noteq> []"
  shows "\<exists>cp. row_checkpoint real (last rows) = Ok cp \<and> fld cp ''block_number'' = JNum (NInt (int (length rows))) \<and>
    fld cp ''block_hash'' = JStr hash \<and> fld cp ''channel_id'' = JStr channel \<and> is_zero (fld cp ''transaction_index'')"
proof -
  obtain pre r where r: "rows = pre @ [r]" using assms(2) by (cases rows rule: rev_cases) auto
  then obtain hash' n' where p: "validate_journal_rows sha real channel pre = Ok (hash', n')"
      "validate_row sha real channel r (hash', n') = Ok (hash, n)"
    using assms(1) unfolding r validate_rows_snoc by auto
  then show ?thesis using validate_rows_count [OF p(1)] validate_row_Ok [OF p(2)] r by (auto simp: row_checkpoint_def)
qed

text \<open>Whatever journal verifies, its replay leaves tables in sync and a cursor at its tip.\<close>

lemma replay_sync:
  "validate_journal_rows sha real channel rows = Ok (hash, n) \<Longrightarrow> foldR (replay_row sha real) rows no_tables = Ok tb \<Longrightarrow>
     in_sync tb (int (length rows)) \<and> cursor tb = (if rows = [] then None else Some (int (length rows)))"
proof (induction rows arbitrary: hash n tb rule: rev_induct)
  case Nil
  then have "tb = no_tables" by simp
  then show ?case by (simp add: in_sync_empty) (simp add: no_tables_def)
next
  case (snoc r rows)
  from snoc.prems(1) obtain hash' n' where p: "validate_journal_rows sha real channel rows = Ok (hash', n')"
      "validate_row sha real channel r (hash', n') = Ok (hash, n)"
    unfolding validate_rows_snoc by auto
  from snoc.prems(2) obtain tb1 where tb1: "foldR (replay_row sha real) rows no_tables = Ok tb1" "replay_row sha real r tb1 = Ok tb"
    by (auto simp: foldR_append)
  obtain ev where ev: "parse_row real r = Ok ev" "fld (fld ev ''checkpoint'') ''block_number'' = JNum (NInt n')"
    using validate_row_Ok [OF p(2)] by auto
  then obtain ws where "apply_event sha real True (fld ev ''reducer_version'') n' ws tb1 = Ok tb"
    using tb1(2) by (auto simp: replay_row_def)
  moreover have "in_sync tb1 n'" using snoc.IH [OF p(1) tb1(1)] validate_rows_count [OF p(1)] in_sync_mono by fastforce
  ultimately have "in_sync tb n' \<and> cursor tb = Some n'" by (rule apply_event_sync)
  then show ?case using validate_rows_count [OF p(1)] by (simp add: add.commute)
qed

lemma rebuild_Ok:
  assumes "rebuild_projection sha real l = Ok l'"
  shows "rebuild_projection sha real l' = Ok l' \<and> ll_journal l' = ll_journal l \<and> ll_channel l' = ll_channel l \<and> ll_meta l' = ll_meta l \<and>
    in_sync (ll_tables l') (int (length (ll_journal l)))"
  using assms replay_sync by (fastforce simp: rebuild_projection_def)

section \<open>Transactions\<close>

lemma printable_obj [simp]: "printable real (obj kvs) \<longleftrightarrow> distinct (map fst kvs) \<and> list_all (\<lambda>(k, x). printable real x) kvs"
proof -
  have "map fst (map (\<lambda>(k, v). (js k, v)) kvs) = map js (map fst kvs)" by (induction kvs) auto
  then show ?thesis by (auto simp: obj_def distinct_map inj_on_subset [OF inj_js] list_all_iff simp del: map_map)
qed

definition printable_writes :: "real_fn \<Rightarrow> (jstr \<times> json) list \<Rightarrow> bool" where
  "printable_writes real ws \<longleftrightarrow> (\<forall>(k, v) \<in> set ws. printable real v)"

lemma signed_printable:
  "printable_writes real ws \<Longrightarrow> printable real prev \<Longrightarrow> \<bar>block\<bar> \<le> max_safe \<Longrightarrow>
   printable real (signed_event sha channel block tx prev time ws)"
  by (auto simp: signed_event_def printable_writes_def list_all_iff max_safe_def)

lemma unsigned_of_signed:
  "unsigned_of (signed_event sha channel block tx prev time ws) = unsigned_event channel block tx prev time ws"
  by (simp add: unsigned_of_def signed_event_def unsigned_event_def without_hash_def) (simp add: obj_def)

lemma fld_signed:
  "fld (signed_event sha channel block tx prev time ws) ''previous_hash'' = prev"
  "fld (signed_event sha channel block tx prev time ws) ''reducer_version'' = JNum (NInt 1)"
  "fld (signed_event sha channel block tx prev time ws) ''validation_code'' = JStr (js ''VALID'')"
  "fld (signed_event sha channel block tx prev time ws) ''writes'' = JArr (map (\<lambda>(k, v). JArr [JStr k, v]) ws)"
  "fld (fld (signed_event sha channel block tx prev time ws) ''checkpoint'') ''channel_id'' = JStr channel"
  "fld (fld (signed_event sha channel block tx prev time ws) ''checkpoint'') ''block_number'' = JNum (NInt block)"
  "fld (fld (signed_event sha channel block tx prev time ws) ''checkpoint'') ''transaction_index'' = JNum (NInt 0)"
  "fld (fld (signed_event sha channel block tx prev time ws) ''checkpoint'') ''transaction_id'' = JStr tx"
  "fld (fld (signed_event sha channel block tx prev time ws) ''checkpoint'') ''block_hash'' =
     JStr (hash_record sha (unsigned_event channel block tx prev time ws))"
  "fld (signed_event sha channel block tx prev time ws) ''checkpoint'' \<noteq> JUndef"
  "fld (signed_event sha channel block tx prev time ws) ''checkpoint'' \<noteq> JNull"
  by (simp_all add: signed_event_def)

lemma event_writes_signed:
  "event_entries (signed_event sha channel block tx prev time ws) = Ok (map (\<lambda>(k, v). JArr [JStr k, v]) ws)"
  "mapR write_entry (map (\<lambda>(k, v). JArr [JStr k, v]) ws) = Ok ws"
proof -
  show "event_entries (signed_event sha channel block tx prev time ws) = Ok (map (\<lambda>(k, v). JArr [JStr k, v]) ws)"
    by (simp add: event_entries_def fld_signed)
  show "mapR write_entry (map (\<lambda>(k, v). JArr [JStr k, v]) ws) = Ok ws"
    by (rule mapR_map_Ok) (auto simp: write_entry_def)
qed

lemma validate_signed:
  assumes "printable_writes real ws" and "\<bar>block\<bar> \<le> max_safe" and "\<forall>w \<in> set ws. valid_write sha w = Ok ()"
  shows "validate_row sha real channel \<lparr>row_seq = block, row_tx = tx, row_json = stringify (signed_event sha channel block tx (JStr prev) time ws)\<rparr>
      (prev, block) = Ok (hash_record sha (unsigned_event channel block tx (JStr prev) time ws), block + 1)"
proof -
  have "forR (\<lambda>e. rbind (write_entry e) (valid_write sha)) (map (\<lambda>(k, v). JArr [JStr k, v]) ws) = Ok ()"
    using assms(3) by (auto simp: write_entry_def)
  then show ?thesis using signed_printable [OF assms(1) _ assms(2), of "JStr prev"]
    by (simp add: validate_row_def parse_row_def json_parse_printable fld_signed unsigned_of_signed event_writes_signed
        is_zero_def Let_def del: forR_Ok_iff)
qed

lemma replay_signed:
  assumes "printable_writes real ws" and "\<bar>block\<bar> \<le> max_safe"
  shows "replay_row sha real \<lparr>row_seq = block, row_tx = tx, row_json = stringify (signed_event sha channel block tx (JStr prev) time ws)\<rparr> tb =
    apply_event sha real True (JNum (NInt 1)) block ws tb"
  using signed_printable [OF assms(1) _ assms(2), of "JStr prev"]
  by (simp add: replay_row_def parse_row_def json_parse_printable event_writes_signed fld_signed)

text \<open>The committed writes are those staged, the last one per key.\<close>

lemma fold_upsert_map: "map_of (fold (\<lambda>(k, v). upsert k v) ws rows) = foldl (\<lambda>m (k, v). m(k \<mapsto> v)) (map_of rows) ws"
  by (induction ws arbitrary: rows) auto

lemma fold_upsert_distinct: "distinct (map fst rows) \<Longrightarrow> distinct (map fst (fold (\<lambda>(k, v). upsert k v) ws rows))"
  by (induction ws arbitrary: rows) (auto simp: upsert_distinct)

lemma upsert_set: "set (upsert k v rows) \<subseteq> insert (k, v) (set rows)"
  by (induction k v rows rule: upsert.induct) auto

lemma fold_upsert_set: "set (fold (\<lambda>(k, v). upsert k v) ws rows) \<subseteq> set ws \<union> set rows"
proof (induction ws arbitrary: rows)
  case (Cons w ws)
  then show ?case using upsert_set [of "fst w" "snd w" rows] by (cases w) fastforce
qed simp

lemma committed_subset: "set (committed_writes ws) \<subseteq> set ws"
  using fold_upsert_set [of ws "[]"] by (simp add: committed_writes_def)

lemma committed_distinct: "distinct (map fst (committed_writes ws))"
  using fold_upsert_distinct [of "[]" ws] by (simp add: committed_writes_def distinct_sort_key)

lemma committed_map: "map_of (committed_writes ws) k = foldl (\<lambda>m (k, v). m(k \<mapsto> v)) Map.empty ws k"
  using fold_upsert_distinct [of "[]" ws] fold_upsert_map [of ws "[]"]
  by (simp add: committed_writes_def map_of_sort_key)

lemma apply_writes_committed:
  "apply_writes ws w k = (case map_of (committed_writes ws) k of None \<Rightarrow> w k | Some v \<Rightarrow> Some v)"
proof -
  have "foldl (\<lambda>m (k, v). m(k \<mapsto> v)) w ws k = (case foldl (\<lambda>m (k, v). m(k \<mapsto> v)) Map.empty ws k of None \<Rightarrow> w k | Some v \<Rightarrow> Some v)"
    by (induction ws rule: rev_induct) (auto split: prod.splits)
  then show ?thesis by (simp add: apply_writes_def committed_map)
qed

text \<open>What the tables show after a write set.\<close>

lemma applied_projection:
  "foldR (apply_write sha real trusted block) ws tb = Ok tb' \<Longrightarrow> distinct (map fst ws) \<Longrightarrow>
   map_of (projection tb') k = (case map_of ws k of None \<Rightarrow> map_of (projection tb) k | Some v \<Rightarrow> Some (stringify v))"
proof (induction ws arbitrary: tb)
  case (Cons w ws)
  obtain l v where w: "w = (l, v)" by (cases w)
  then obtain tb1 where tb1: "apply_write sha real trusted block (l, v) tb = Ok tb1" "foldR (apply_write sha real trusted block) ws tb1 = Ok tb'"
    using Cons.prems by auto
  have "map_of (projection tb') k = (case map_of ws k of None \<Rightarrow> map_of (projection tb1) k | Some v \<Rightarrow> Some (stringify v))"
    using Cons.IH [OF tb1(2)] Cons.prems by simp
  moreover have "map_of ws l = None" using Cons.prems w by (auto simp: map_of_eq_None_iff)
  ultimately show ?case using apply_write_Ok [OF tb1(1)] w by (auto split: option.splits)
qed simp

lemma applied_world:
  assumes "apply_event sha real trusted red block ws tb = Ok tb'" and "in_sync tb block" and "distinct (map fst ws)"
    and "printable_writes real ws" and "\<forall>w \<in> set ws. valid_write sha w = Ok ()"
  shows "ledger_world sha real tb' k = (case map_of ws k of None \<Rightarrow> ledger_world sha real tb k | Some v \<Rightarrow> Some v)"
proof -
  obtain tb1 where tb1: "foldR (apply_write sha real trusted block) ws tb = Ok tb1" "tb' = tb1\<lparr>cursor := Some block\<rparr>"
    using assms(1) by (auto simp: apply_event_def)
  note row = applied_projection [OF tb1(1) assms(3), of k]
  have sync: "in_sync tb' block" using apply_event_sync [OF assms(1,2)] by blast
  show ?thesis
  proof (cases "map_of ws k")
    case None
    then show ?thesis using row tb1(2) read_in_sync [OF sync, of sha real] read_in_sync [OF assms(2), of sha real]
      by (simp add: ledger_world_def read_current_def)
  next
    case (Some v)
    then have "(k, v) \<in> set ws" by (rule map_of_SomeD)
    then have "printable real v" "validate_state_write sha k v"
      using assms(4,5) by (auto simp: printable_writes_def valid_write_def)
    then show ?thesis using row Some tb1(2) read_in_sync [OF sync, of sha real]
      by (simp add: ledger_world_def read_current_def decode_row_def decode_value_def json_parse_printable)
  qed
qed

lemma insert_last:
  assumes "map row_seq rows = map int [1..<length rows + 1]" and "row_seq r = int (length rows) + 1"
    and "insert_row r rows = Ok rows'"
  shows "rows' = rows @ [r]"
proof -
  have "row_seq q < row_seq r" if "q \<in> set rows" for q
  proof -
    have "row_seq q \<in> set (map int [1..<length rows + 1])" using that assms(1) by (metis image_eqI list.set_map)
    then show ?thesis using assms(2) by auto
  qed
  then have "insort_key row_seq r rows = rows @ [r]" by (induction rows) (force simp: not_le)+
  then show ?thesis using assms(3) by (auto simp: insert_row_def split: if_splits)
qed

definition tx_context :: "actor \<Rightarrow> jstr \<Rightarrow> jstr \<Rightarrow> local_ledger \<Rightarrow> txctx" where
  "tx_context actor tx time l = \<lparr>tx_actor = actor, tx_channel = ll_channel l, tx_id = tx, tx_time = time\<rparr>"

lemma transact_parts:
  assumes "transact sha real actor tx time handler l = Ok (res, cp, l')"
  shows "\<exists>previous t. ledger_checkpoint real l = Ok previous \<and>
    handler (tx_context actor tx time l) (begin_tx (ledger_world sha real (ll_tables l))) = Ok (res, t) \<and>
    (\<forall>w \<in> set (staged t). valid_write sha w = Ok ()) \<and>
    commit_block sha real tx time previous (committed_writes (staged t)) l = Ok (cp, l')"
  using assms
  by (cases "handler (tx_context actor tx time l) (begin_tx (ledger_world sha real (ll_tables l)))")
    (auto simp: transact_def tx_context_def)

lemma checkpoint_of_last: "ll_journal l = rows @ [r] \<Longrightarrow> ledger_checkpoint real l = rmap Some (row_checkpoint real r)"
  by (cases rows) (simp_all add: ledger_checkpoint_def)

text \<open>The journal of a ledger that can be rebuilt.\<close>

lemma rebuilt_parts:
  assumes "rebuild_projection sha real l = Ok l"
  shows "\<exists>hash. validate_journal_rows sha real (ll_channel l) (ll_journal l) = Ok (hash, int (length (ll_journal l)) + 1) \<and>
    foldR (replay_row sha real) (ll_journal l) no_tables = Ok (ll_tables l) \<and>
    map row_seq (ll_journal l) = map int [1..<length (ll_journal l) + 1] \<and>
    in_sync (ll_tables l) (int (length (ll_journal l))) \<and>
    (\<exists>previous. ledger_checkpoint real l = Ok previous \<and> next_block previous = (int (length (ll_journal l)) + 1, JStr hash))"
proof -
  obtain hash n tb where p: "validate_journal_rows sha real (ll_channel l) (ll_journal l) = Ok (hash, n)"
      "foldR (replay_row sha real) (ll_journal l) no_tables = Ok tb" "l\<lparr>ll_tables := tb\<rparr> = l"
    using assms by (auto simp: rebuild_projection_def)
  have tb: "tb = ll_tables l" using p(3) by (metis local_ledger.select_convs(4) local_ledger.surjective local_ledger.update_convs(4))
  have "\<exists>previous. ledger_checkpoint real l = Ok previous \<and> next_block previous = (int (length (ll_journal l)) + 1, JStr hash)"
  proof (cases "ll_journal l")
    case Nil
    then show ?thesis using p(1) by (simp add: ledger_checkpoint_def next_block_def validate_journal_rows_def)
  next
    case (Cons r rows)
    then obtain cp where "row_checkpoint real (last (ll_journal l)) = Ok cp" "fld cp ''block_hash'' = JStr hash"
        "fld cp ''block_number'' = JNum (NInt (int (length (ll_journal l))))"
      using last_row_checkpoint [OF p(1)] by auto
    then show ?thesis using Cons by (simp add: ledger_checkpoint_def next_block_def)
  qed
  then show ?thesis using p(1,2) validate_rows_count [OF p(1)] replay_sync [OF p(1,2)] unfolding tb by blast
qed

text \<open>A committed block keeps the ledger rebuildable, and its writes are what reads now return.\<close>

lemma commit_block_Ok:
  assumes re: "rebuild_projection sha real l = Ok l" and few: "int (length (ll_journal l)) < max_safe"
    and prev: "ledger_checkpoint real l = Ok previous"
    and c: "commit_block sha real tx time previous ws l = Ok (cp, l')"
    and ws: "printable_writes real ws" "\<forall>w \<in> set ws. valid_write sha w = Ok ()" "distinct (map fst ws)"
  shows "rebuild_projection sha real l' = Ok l' \<and> ll_channel l' = ll_channel l \<and> ll_meta l' = ll_meta l \<and>
    ledger_checkpoint real l' = Ok (Some cp) \<and> (\<exists>rows. ll_journal l' = ll_journal l @ rows) \<and>
    ledger_world sha real (ll_tables l') = (\<lambda>k. case map_of ws k of None \<Rightarrow> ledger_world sha real (ll_tables l) k | Some v \<Rightarrow> Some v)"
proof (cases "ws = [] \<and> previous \<noteq> None")
  case True
  then show ?thesis using c re prev by (auto simp: commit_block_def)
next
  case False
  let ?n = "int (length (ll_journal l))"
  obtain hash where j: "validate_journal_rows sha real (ll_channel l) (ll_journal l) = Ok (hash, ?n + 1)"
      "foldR (replay_row sha real) (ll_journal l) no_tables = Ok (ll_tables l)"
      "map row_seq (ll_journal l) = map int [1..<length (ll_journal l) + 1]"
      "in_sync (ll_tables l) ?n" "next_block previous = (?n + 1, JStr hash)"
    using rebuilt_parts [OF re] prev by auto
  let ?ev = "signed_event sha (ll_channel l) (?n + 1) tx (JStr hash) time ws"
  let ?r = "\<lparr>row_seq = ?n + 1, row_tx = tx, row_json = stringify ?ev\<rparr>"
  obtain rows tb where rows: "insert_row ?r (ll_journal l) = Ok rows"
      and tb: "apply_event sha real False (JNum (NInt 1)) (?n + 1) ws (ll_tables l) = Ok tb"
      and l': "cp = fld ?ev ''checkpoint''" "l' = l\<lparr>ll_journal := rows, ll_tables := tb\<rparr>"
    using c False j(5) by (auto simp: commit_block_def Let_def)
  have rows': "rows = ll_journal l @ [?r]" by (rule insert_last [OF j(3) _ rows]) simp
  have sync: "in_sync (ll_tables l) (?n + 1)" using j(4) by (rule in_sync_mono) simp
  have safe: "\<bar>?n + 1\<bar> \<le> max_safe" using few by simp
  have single: "foldR f [x] s = f x s" for f :: "journal_row \<Rightarrow> tables \<Rightarrow> tables lres" and x s
    by (cases "f x s") simp_all
  have "validate_journal_rows sha real (ll_channel l) rows = Ok (hash_record sha (unsigned_event (ll_channel l) (?n + 1) tx (JStr hash) time ws), ?n + 2)"
    unfolding rows' validate_rows_snoc j(1) using validate_signed [OF ws(1) safe ws(2)] by simp
  moreover have "foldR (replay_row sha real) rows no_tables = Ok tb"
    unfolding rows' foldR_append j(2) using replay_signed [OF ws(1) safe] apply_event_replays [OF tb sync] by (simp add: single)
  ultimately have "rebuild_projection sha real l' = Ok l'" by (simp add: rebuild_projection_def l')
  moreover have "parse_row real ?r = Ok ?ev"
    using signed_printable [OF ws(1) _ safe] by (simp add: parse_row_def json_parse_printable)
  then have "ledger_checkpoint real l' = Ok (Some cp)"
    using checkpoint_of_last [of l' "ll_journal l" ?r real] by (simp add: row_checkpoint_def l' rows')
  moreover have "ledger_world sha real tb = (\<lambda>k. case map_of ws k of None \<Rightarrow> ledger_world sha real (ll_tables l) k | Some v \<Rightarrow> Some v)"
    by (rule ext) (rule applied_world [OF tb sync ws(3,1,2)])
  ultimately show ?thesis by (simp add: l' rows')
qed

lemma transact_Ok:
  assumes re: "rebuild_projection sha real l = Ok l" and few: "int (length (ll_journal l)) < max_safe"
    and tr: "transact sha real actor tx time handler l = Ok (res, cp, l')"
    and pr: "\<And>t. handler (tx_context actor tx time l) (begin_tx (ledger_world sha real (ll_tables l))) = Ok (res, t) \<Longrightarrow>
        \<forall>w \<in> set (staged t). valid_write sha w = Ok () \<Longrightarrow> printable_writes real (staged t)"
  shows "rebuild_projection sha real l' = Ok l' \<and> ll_channel l' = ll_channel l \<and> ll_meta l' = ll_meta l \<and>
    ledger_checkpoint real l' = Ok (Some cp) \<and> (\<exists>rows. ll_journal l' = ll_journal l @ rows) \<and>
    (\<exists>t. handler (tx_context actor tx time l) (begin_tx (ledger_world sha real (ll_tables l))) = Ok (res, t) \<and>
      ledger_world sha real (ll_tables l') = apply_writes (staged t) (ledger_world sha real (ll_tables l)))"
proof -
  obtain previous t where t: "ledger_checkpoint real l = Ok previous"
      "handler (tx_context actor tx time l) (begin_tx (ledger_world sha real (ll_tables l))) = Ok (res, t)"
      "\<forall>w \<in> set (staged t). valid_write sha w = Ok ()"
      "commit_block sha real tx time previous (committed_writes (staged t)) l = Ok (cp, l')"
    using transact_parts [OF tr] by blast
  have ws: "printable_writes real (committed_writes (staged t))" "\<forall>w \<in> set (committed_writes (staged t)). valid_write sha w = Ok ()"
    using pr [OF t(2,3)] t(3) committed_subset [of "staged t"] by (auto simp: printable_writes_def)
  have "(\<lambda>k. case map_of (committed_writes (staged t)) k of None \<Rightarrow> ledger_world sha real (ll_tables l) k | Some v \<Rightarrow> Some v) =
      apply_writes (staged t) (ledger_world sha real (ll_tables l))"
    by (rule ext) (simp add: apply_writes_committed)
  then show ?thesis using commit_block_Ok [OF re few t(1,4) ws committed_distinct] t(2) by auto
qed

section \<open>Runs of the engine on a local ledger\<close>

definition ledger_invoke :: "sha_fn \<Rightarrow> real_fn \<Rightarrow> actor \<Rightarrow> jstr \<Rightarrow> jstr \<Rightarrow> request \<Rightarrow> local_ledger \<Rightarrow> (json \<times> json \<times> local_ledger) lres" where
  "ledger_invoke sha real actor tx time rq = (case rq of
     Bootstrap input \<Rightarrow> ledger_bootstrap sha real actor tx time input
   | Execute cmd \<Rightarrow> ledger_execute sha real actor tx time cmd)"

lemma ledger_invoke_transact:
  "ledger_invoke sha real actor tx time rq = transact sha real actor tx time (\<lambda>ctx. invoke sha ctx rq)"
proof -
  have "(\<lambda>ctx. invoke sha ctx (Bootstrap i)) = (\<lambda>ctx. bootstrap ctx i)" "(\<lambda>ctx. invoke sha ctx (Execute i)) = (\<lambda>ctx. execute sha ctx i)" for i
    by (intro ext; simp add: invoke_def)+
  then show ?thesis by (cases rq) (simp_all add: ledger_invoke_def ledger_bootstrap_def ledger_execute_def)
qed

inductive ledger_run :: "sha_fn \<Rightarrow> real_fn \<Rightarrow> jstr \<Rightarrow> local_ledger \<Rightarrow> bool" for sha real channel where
  opened: "open_ledger sha real channel fresh_file = Ok l \<Longrightarrow> ledger_run sha real channel l"
| invoked: "ledger_run sha real channel l \<Longrightarrow> int (length (ll_journal l)) < max_safe \<Longrightarrow>
    ledger_invoke sha real actor tx time rq l = Ok (res, cp, l') \<Longrightarrow> ledger_run sha real channel l'"
| reopened: "ledger_run sha real channel l \<Longrightarrow> open_ledger sha real channel l = Ok l' \<Longrightarrow> ledger_run sha real channel l'"

lemma within_limit_canon: "within_write_limit v \<Longrightarrow> canon_ok v 0"
  using canonicalize_Ok_iff [of v] by (auto simp: within_write_limit_def split: result.splits)

lemma valid_write_canon: "valid_write sha (k, v) = Ok () \<Longrightarrow> canon_ok v 0"
  by (simp add: valid_write_def validate_state_write_def within_limit_canon)

text \<open>The writes of the engine survive the journal.\<close>

lemma engine_writes_printable:
  assumes "invoke sha ctx rq (begin_tx w) = Ok (res, t)" and "reachable sha w" and "\<forall>x \<in> set (staged t). valid_write sha x = Ok ()"
  shows "printable_writes real (staged t)"
  unfolding printable_writes_def
proof (intro ballI, clarify)
  fix k v
  assume kv: "(k, v) \<in> set (staged t)"
  have "plain v" using reachable_writes_settled [OF assms(1,2) kv] by (simp add: settled_def)
  moreover have "canon_ok v 0" using assms(3) kv valid_write_canon by blast
  ultimately show "printable real v" by (rule plain_printable)
qed

lemma ledger_invoke_Ok:
  assumes re: "rebuild_projection sha real l = Ok l" and few: "int (length (ll_journal l)) < max_safe"
    and w: "reachable sha (ledger_world sha real (ll_tables l))"
    and inv: "ledger_invoke sha real actor tx time rq l = Ok (res, cp, l')"
  shows "rebuild_projection sha real l' = Ok l' \<and> ll_channel l' = ll_channel l \<and> ll_meta l' = ll_meta l \<and>
    ledger_checkpoint real l' = Ok (Some cp) \<and> (\<exists>rows. ll_journal l' = ll_journal l @ rows) \<and>
    commit sha (tx_context actor tx time l) rq (ledger_world sha real (ll_tables l)) = Ok (res, ledger_world sha real (ll_tables l'))"
  using transact_Ok [OF re few inv [unfolded ledger_invoke_transact] engine_writes_printable [OF _ w]]
  by (auto simp: commit_def)

lemma open_fresh:
  assumes "open_ledger sha real channel fresh_file = Ok l"
  shows "rebuild_projection sha real l = Ok l \<and> ll_channel l = channel \<and> ll_meta l = Some channel \<and> ll_journal l = [] \<and> ll_tables l = no_tables"
  using assms by (auto simp: open_ledger_def fresh_file_def rebuild_projection_def validate_journal_rows_def)

lemma world_empty: "ledger_world sha real no_tables = Map.empty"
  by (rule ext) (simp add: ledger_world_def read_latest_def no_tables_def select_history_latest_def versions_def decode_row_def)

lemma open_rebuilt:
  assumes "rebuild_projection sha real l = Ok l" and "ll_channel l = channel" and "ll_meta l = Some channel"
  shows "open_ledger sha real channel l = Ok l"
proof -
  have "l\<lparr>ll_channel := channel\<rparr> = l" using assms(2) by (cases l) simp
  then show ?thesis by (simp add: open_ledger_def assms(1,3))
qed

lemma ledger_run_inv:
  "ledger_run sha real channel l \<Longrightarrow> rebuild_projection sha real l = Ok l \<and> ll_channel l = channel \<and> ll_meta l = Some channel \<and>
     reachable sha (ledger_world sha real (ll_tables l))"
proof (induction rule: ledger_run.induct)
  case (opened l)
  then show ?case using open_fresh [OF opened] by (simp add: world_empty reachable.empty)
next
  case (invoked l actor tx time rq res cp l')
  then have inv: "rebuild_projection sha real l' = Ok l'" "ll_channel l' = ll_channel l" "ll_meta l' = ll_meta l"
      "commit sha (tx_context actor tx time l) rq (ledger_world sha real (ll_tables l)) = Ok (res, ledger_world sha real (ll_tables l'))"
    using ledger_invoke_Ok [OF _ invoked.hyps(2) _ invoked.hyps(3)] by simp_all
  then show ?case using invoked.IH reachable.invoked [OF _ inv(4)] by simp
next
  case (reopened l l')
  then show ?case using open_rebuilt by fastforce
qed

section \<open>The past does not change\<close>

lemma applied_history:
  "foldR (apply_write sha real trusted block) ws tb = Ok tb' \<Longrightarrow>
   history tb' = history tb @ map (\<lambda>(k, v). (k, block, stringify v)) ws"
proof (induction ws arbitrary: tb)
  case (Cons w ws)
  obtain k v where w: "w = (k, v)" by (cases w)
  then obtain tb1 where tb1: "apply_write sha real trusted block (k, v) tb = Ok tb1" "foldR (apply_write sha real trusted block) ws tb1 = Ok tb'"
    using Cons.prems by auto
  then show ?case using Cons.IH [OF tb1(2)] apply_write_Ok [OF tb1(1)] w by simp
qed simp

lemma commit_block_history:
  assumes "commit_block sha real tx time previous ws l = Ok (cp, l')" and "next_block previous = (block, hash)"
  shows "\<exists>added. history (ll_tables l') = history (ll_tables l) @ added \<and> (\<forall>(_, n, _) \<in> set added. n = block)"
proof (cases "ws = [] \<and> previous \<noteq> None")
  case False
  then obtain tb where "apply_event sha real False (JNum (NInt 1)) block ws (ll_tables l) = Ok tb" "ll_tables l' = tb"
    using assms by (auto simp: commit_block_def Let_def)
  then obtain tb1 where "foldR (apply_write sha real False block) ws (ll_tables l) = Ok tb1" "ll_tables l' = tb1\<lparr>cursor := Some block\<rparr>"
    by (auto simp: apply_event_def)
  then have "history (ll_tables l') = history (ll_tables l) @ map (\<lambda>(k, v). (k, block, stringify v)) ws"
    by (simp add: applied_history)
  then show ?thesis by (intro exI [of _ "map (\<lambda>(k, v). (k, block, stringify v)) ws"]) auto
qed (use assms in \<open>auto simp: commit_block_def\<close>)

text \<open>A later version of the ledger extends the earlier one, in the journal and in the history.\<close>

definition extends :: "local_ledger \<Rightarrow> local_ledger \<Rightarrow> bool" where
  "extends l l' \<longleftrightarrow> ll_channel l' = ll_channel l \<and> (\<exists>rows. ll_journal l' = ll_journal l @ rows) \<and>
     (\<exists>added. history (ll_tables l') = history (ll_tables l) @ added \<and>
        (\<forall>(_, n, _) \<in> set added. int (length (ll_journal l)) < n))"

lemma extends_refl: "extends l l"
  by (simp add: extends_def)

lemma extends_trans: "extends l m \<Longrightarrow> extends m n \<Longrightarrow> extends l n"
  unfolding extends_def by (elim conjE exE) (fastforce simp: case_prod_unfold)

lemma ledger_invoke_extends:
  assumes "rebuild_projection sha real l = Ok l" and "int (length (ll_journal l)) < max_safe"
    and "reachable sha (ledger_world sha real (ll_tables l))" and inv: "ledger_invoke sha real actor tx time rq l = Ok (res, cp, l')"
  shows "extends l l'"
proof -
  obtain previous and t :: tx where t: "ledger_checkpoint real l = Ok previous"
      "commit_block sha real tx time previous (committed_writes (staged t)) l = Ok (cp, l')"
    using transact_parts [OF inv [unfolded ledger_invoke_transact]] by blast
  obtain hash where "next_block previous = (int (length (ll_journal l)) + 1, JStr hash)"
    using rebuilt_parts [OF assms(1)] t(1) by auto
  from commit_block_history [OF t(2) this] ledger_invoke_Ok [OF assms(1-3) inv] show ?thesis
    by (fastforce simp: extends_def)
qed

text \<open>Reading at a checkpoint sees what was current when the checkpoint was the tip.\<close>

lemma newest_below: "\<forall>(n, _) \<in> set rows. n \<le> (b :: int) \<Longrightarrow> \<forall>(n, _) \<in> set added. b < n \<Longrightarrow>
    filter (\<lambda>(m, _). m \<le> b) (rows @ added) = rows"
proof -
  assume a: "\<forall>(n, _) \<in> set rows. n \<le> b" "\<forall>(n, _) \<in> set added. b < n"
  have "filter (\<lambda>(m, _). m \<le> b) rows = rows" using a(1) by (auto simp: filter_id_conv)
  moreover have "filter (\<lambda>(m, _). m \<le> b) added = []" by (rule filter_False) (use a(2) in force)
  ultimately show ?thesis by simp
qed

lemma select_at_tip:
  assumes "in_sync tb b" and "history tb' = history tb @ added" and "\<forall>(_, n, _) \<in> set added. b < n"
  shows "select_history_at tb' k b = map_of (projection tb) k"
proof -
  have v: "versions tb' k = versions tb k @ map snd (filter (\<lambda>(l, _). l = k) added)"
    using assms(2) by (simp add: versions_def)
  have "filter (\<lambda>(m, _). m \<le> b) (versions tb' k) = versions tb k"
    unfolding v using assms(1,3) by (intro newest_below) (fastforce simp: versions_def in_sync_def)+
  then show ?thesis using assms(1) by (simp add: select_history_at_def in_sync_def select_history_latest_def)
qed

lemma find_row:
  assumes "map row_seq rows = map int [1..<length rows + 1]" and "1 \<le> n" and "n \<le> length rows"
  shows "find (\<lambda>r. row_seq r = int n) rows = Some (rows ! (n - 1))"
proof -
  have seq: "row_seq (rows ! i) = int i + 1" if "i < length rows" for i
  proof -
    have "map row_seq rows ! i = map int [1..<length rows + 1] ! i" using assms(1) by simp
    then show ?thesis using that by (simp del: upt_Suc)
  qed
  show ?thesis unfolding find_Some_iff
    using assms(2,3) seq by (intro exI [of _ "n - 1"]) auto
qed

lemma assert_tip:
  assumes re: "rebuild_projection sha real l = Ok l" and cp: "ledger_checkpoint real l = Ok (Some cp)"
    and re': "rebuild_projection sha real l' = Ok l'" and ext: "extends l l'" and few: "int (length (ll_journal l)) \<le> max_safe"
    and tx: "\<exists>s. fld cp ''transaction_id'' = JStr s"
  shows "assert_checkpoint real l' cp = Ok (int (length (ll_journal l)))"
proof -
  obtain rows where rows: "ll_journal l' = ll_journal l @ rows" "ll_channel l' = ll_channel l" using ext by (auto simp: extends_def)
  obtain r pre where r: "ll_journal l = pre @ [r]" using cp by (cases "ll_journal l" rule: rev_cases) (auto simp: ledger_checkpoint_def)
  have row: "row_checkpoint real r = Ok cp" using cp checkpoint_of_last [OF r] by simp
  obtain hash where j: "validate_journal_rows sha real (ll_channel l) (ll_journal l) = Ok (hash, int (length (ll_journal l)) + 1)"
    using rebuilt_parts [OF re] by blast
  have f: "fld cp ''block_number'' = JNum (NInt (int (length (ll_journal l))))" "fld cp ''block_hash'' = JStr hash"
      "fld cp ''channel_id'' = JStr (ll_channel l)" "is_zero (fld cp ''transaction_index'')"
    using last_row_checkpoint [OF j] row r by auto
  obtain hash' where j': "validate_journal_rows sha real (ll_channel l') (ll_journal l') = Ok (hash', int (length (ll_journal l')) + 1)"
      "foldR (replay_row sha real) (ll_journal l') no_tables = Ok (ll_tables l')"
      "map row_seq (ll_journal l') = map int [1..<length (ll_journal l') + 1]"
    using rebuilt_parts [OF re'] by blast
  have found: "find (\<lambda>q. row_seq q = int (length (ll_journal l))) (ll_journal l') = Some r"
    using find_row [OF j'(3), of "length (ll_journal l)"] r rows(1) by (simp add: nth_append)
  have cur: "cursor (ll_tables l') = Some (int (length (ll_journal l')))"
    using replay_sync [OF j'(1,2)] r rows(1) by simp
  show ?thesis using f found row cur rows tx few
    by (auto simp: assert_checkpoint_def integer_of_def same_value_def)
qed

section \<open>The hash chain\<close>

text \<open>The text that a row's hash covers.\<close>

definition record_text :: "real_fn \<Rightarrow> journal_row \<Rightarrow> jstr" where
  "record_text real r = (case parse_row real r of Ok ev \<Rightarrow> stringify (unsigned_of ev) | Err _ \<Rightarrow> [])"

lemma map_of_filter_defined:
  "distinct (map fst kvs) \<Longrightarrow> map_of kvs k = Some x \<Longrightarrow> x \<noteq> JUndef \<Longrightarrow> map_of (defined kvs) k = Some x"
  by (induction kvs) (auto simp: map_of_eq_None_iff dest: map_of_SomeD)

lemma fld_reread:
  assumes "legible v" and "fld v k \<noteq> JUndef"
  shows "fld (reread real v) k = reread real (fld v k)"
proof (cases v)
  case (JObj kvs)
  then obtain x where x: "map_of kvs (js k) = Some x" "fld v k = x" "x \<noteq> JUndef"
    using assms(2) by (auto simp: fld_def split: option.splits)
  then have "map_of (defined kvs) (js k) = Some x" using assms(1) JObj by (intro map_of_filter_defined) auto
  then have "map_of (reread_members real (defined kvs)) (js k) = Some (reread real x)" by (simp add: map_of_map_snd)
  then show ?thesis using JObj x by (simp add: fld_def)
qed (use assms(2) in \<open>auto simp: fld_def\<close>)

lemma legible_fld: "legible v \<Longrightarrow> legible (fld v k)"
  by (cases v) (auto simp: fld_def list_all_iff dest: map_of_SomeD split: option.split)

lemma legible_without_hash: "legible v \<Longrightarrow> legible (without_hash v)"
  by (cases v) (auto simp: without_hash_def distinct_map_filter list_all_iff)

lemma legible_unsigned: "legible ev \<Longrightarrow> legible (unsigned_of ev)"
  by (simp add: unsigned_of_def legible_fld legible_without_hash)

lemma fld_without_hash: "k \<noteq> ''block_hash'' \<Longrightarrow> fld (without_hash v) k = fld v k"
proof (cases v)
  case (JObj kvs)
  assume k: "k \<noteq> ''block_hash''"
  have "map_of (filter (\<lambda>(l, _). l \<noteq> js ''block_hash'') kvs) (js k) = map_of kvs (js k)"
    using k by (induction kvs) auto
  then show ?thesis using JObj by (simp add: fld_def without_hash_def)
qed (simp_all add: fld_def without_hash_def)

lemma record_fields:
  assumes "legible ev" and "legible ev'" and "stringify (unsigned_of ev) = stringify (unsigned_of ev')"
    and "fld ev ''previous_hash'' = JStr p" and "fld ev' ''previous_hash'' = JStr p'"
    and "fld (fld ev ''checkpoint'') ''block_number'' = JNum (NInt n)" and "fld (fld ev' ''checkpoint'') ''block_number'' = JNum (NInt n')"
    and "\<bar>n\<bar> \<le> max_safe" and "\<bar>n'\<bar> \<le> max_safe"
  shows "p = p' \<and> n = n'"
proof -
  have legible: "legible (unsigned_of ev)" "legible (unsigned_of ev')" using assms(1,2) by (auto intro: legible_unsigned)
  have same: "reread undefined (unsigned_of ev) = reread undefined (unsigned_of ev')"
    by (rule stringify_inject [OF legible assms(3)])
  have prev: "fld (reread undefined (unsigned_of e)) ''previous_hash'' = JStr q"
    if "legible (unsigned_of e)" "fld e ''previous_hash'' = JStr q" for e q
    using fld_reread [OF that(1), of "''previous_hash''"] that(2) by (simp add: unsigned_of_def)
  have block: "fld (fld (reread undefined (unsigned_of e)) ''checkpoint'') ''block_number'' = JNum (NInt m)"
    if "legible (unsigned_of e)" "fld (fld e ''checkpoint'') ''block_number'' = JNum (NInt m)" "\<bar>m\<bar> \<le> max_safe" for e m
  proof -
    let ?cp = "without_hash (fld e ''checkpoint'')"
    have cp: "fld (unsigned_of e) ''checkpoint'' = ?cp" by (simp add: unsigned_of_def)
    have b: "fld ?cp ''block_number'' = JNum (NInt m)" using that(2) by (simp add: fld_without_hash)
    then have "?cp \<noteq> JUndef" by (auto simp: fld_def)
    then have "fld (reread undefined (unsigned_of e)) ''checkpoint'' = reread undefined ?cp"
      using fld_reread [OF that(1), of "''checkpoint''"] cp by simp
    moreover have "legible ?cp" using legible_fld [OF that(1), of "''checkpoint''"] cp by simp
    ultimately show ?thesis using fld_reread [of ?cp "''block_number''" undefined] b printable_legible [of undefined "JNum (NInt m)"] that(3) by simp
  qed
  show ?thesis using prev [OF legible(1) assms(4)] prev [OF legible(2) assms(5)] block [OF legible(1) assms(6,8)]
      block [OF legible(2) assms(7,9)] same by simp
qed

lemma chain_determined:
  assumes real: "\<forall>t. legible (JNum (real t))"
  shows "validate_journal_rows sha real channel rows = Ok (hash, n) \<Longrightarrow> validate_journal_rows sha real channel rows' = Ok (hash, n') \<Longrightarrow>
    length rows = length rows' \<Longrightarrow> int (length rows) \<le> max_safe \<Longrightarrow>
    inj_on sha ((\<lambda>r. utf8 (record_text real r)) ` (set rows \<union> set rows')) \<Longrightarrow>
    map (record_text real) rows = map (record_text real) rows'"
proof (induction rows arbitrary: rows' hash n n' rule: rev_induct)
  case (snoc r rows)
  from snoc.prems(3) obtain r' rows2 where rows': "rows' = rows2 @ [r']" by (cases rows' rule: rev_cases) auto
  obtain h m where v: "validate_journal_rows sha real channel rows = Ok (h, m)" "validate_row sha real channel r (h, m) = Ok (hash, n)"
    using snoc.prems(1) unfolding validate_rows_snoc by auto
  obtain h' m' where v': "validate_journal_rows sha real channel rows2 = Ok (h', m')" "validate_row sha real channel r' (h', m') = Ok (hash, n')"
    using snoc.prems(2) unfolding rows' validate_rows_snoc by auto
  obtain ev where ev: "parse_row real r = Ok ev" "fld (fld ev ''checkpoint'') ''block_number'' = JNum (NInt m)"
      "fld ev ''previous_hash'' = JStr h" "hash = hash_record sha (unsigned_of ev)"
    using validate_row_Ok [OF v(2)] by blast
  obtain ev' where ev': "parse_row real r' = Ok ev'" "fld (fld ev' ''checkpoint'') ''block_number'' = JNum (NInt m')"
      "fld ev' ''previous_hash'' = JStr h'" "hash = hash_record sha (unsigned_of ev')"
    using validate_row_Ok [OF v'(2)] by blast
  have legible: "legible e" if "parse_row real q = Ok e" for q e
    using that json_parse_legible [OF real] by (auto simp: parse_row_def split: option.splits)
  have "sha (utf8 (record_text real r)) = sha (utf8 (record_text real r'))"
    using ev ev' by (simp add: record_text_def hash_record_def)
  then have texts: "record_text real r = record_text real r'"
    using inj_onD [OF snoc.prems(5)] rows' by fastforce
  have range: "\<bar>m\<bar> \<le> max_safe" "\<bar>m'\<bar> \<le> max_safe"
    using validate_rows_count [OF v(1)] validate_rows_count [OF v'(1)] snoc.prems(3,4) rows' by auto
  have "h = h'" using record_fields [OF legible [OF ev(1)] legible [OF ev'(1)] _ ev(3) ev'(3) ev(2) ev'(2) range] texts ev(1) ev'(1)
    by (simp add: record_text_def)
  moreover have "inj_on sha ((\<lambda>r. utf8 (record_text real r)) ` (set rows \<union> set rows2))"
    by (rule inj_on_subset [OF snoc.prems(5)]) (use rows' in auto)
  ultimately have "map (record_text real) rows = map (record_text real) rows2"
    using snoc.IH [OF v(1)] v'(1) snoc.prems(3,4) rows' by simp
  then show ?case using texts rows' by simp
qed simp

section \<open>Later states of a run\<close>

lemma applied_read:
  assumes "apply_event sha real trusted red block ws tb = Ok tb'" and "in_sync tb block" and "distinct (map fst ws)"
    and "printable_writes real ws" and "\<forall>w \<in> set ws. valid_write sha w = Ok ()"
  shows "read_latest sha real tb' k = (case map_of ws k of None \<Rightarrow> read_latest sha real tb k | Some v \<Rightarrow> Ok (Some v))"
proof -
  obtain tb1 where tb1: "foldR (apply_write sha real trusted block) ws tb = Ok tb1" "tb' = tb1\<lparr>cursor := Some block\<rparr>"
    using assms(1) by (auto simp: apply_event_def)
  note row = applied_projection [OF tb1(1) assms(3), of k]
  have sync: "in_sync tb' block" using apply_event_sync [OF assms(1,2)] by blast
  show ?thesis
  proof (cases "map_of ws k")
    case None
    then show ?thesis using row tb1(2) read_in_sync [OF sync, of sha real] read_in_sync [OF assms(2), of sha real]
      by (simp add: read_current_def)
  next
    case (Some v)
    then have "(k, v) \<in> set ws" by (rule map_of_SomeD)
    then have "printable real v" "validate_state_write sha k v"
      using assms(4,5) by (auto simp: printable_writes_def valid_write_def)
    then show ?thesis using row Some tb1(2) read_in_sync [OF sync, of sha real]
      by (simp add: read_current_def decode_row_def decode_value_def json_parse_printable)
  qed
qed

text \<open>A value under an immutable key is only ever replaced by one with the same canonical text.\<close>

lemma immutable_prior:
  assumes "foldR (apply_write sha real False block) ws tb = Ok tb'" and "in_sync tb block" and "distinct (map fst ws)"
    and "(k, v) \<in> set ws" and "immutable_key k" and "read_latest sha real tb k = Ok (Some p)"
  shows "same_json p v"
  using assms
proof (induction ws arbitrary: tb)
  case (Cons w ws)
  obtain l x where w: "w = (l, x)" by (cases w)
  obtain tb1 where tb1: "apply_write sha real False block (l, x) tb = Ok tb1" "foldR (apply_write sha real False block) ws tb1 = Ok tb'"
    using Cons.prems(1) w by auto
  show ?case
  proof (cases "l = k")
    case True
    then have "x = v" using Cons.prems(3,4) w by (auto simp: image_iff)
    then show ?thesis using tb1(1) True Cons.prems(5,6) by (auto simp: apply_write_def prior_of_def)
  next
    case False
    have sync: "in_sync tb1 block" by (rule apply_write_sync [OF tb1(1) Cons.prems(2)])
    have "map_of (projection tb1) k = map_of (projection tb) k" using apply_write_Ok [OF tb1(1)] False by simp
    then have "read_latest sha real tb1 k = Ok (Some p)"
      using Cons.prems(6) read_in_sync [OF sync, of sha real k] read_in_sync [OF Cons.prems(2), of sha real k] by (simp add: read_current_def)
    then show ?thesis using Cons.IH [OF tb1(2) sync] Cons.prems False w by auto
  qed
qed simp

lemma same_json_refl: "canon_ok v 0 \<Longrightarrow> same_json v v"
  using canonicalize_Ok_iff [of v] by (auto simp: same_json_def)

lemma same_json_trans: "same_json u v \<Longrightarrow> same_json v w \<Longrightarrow> same_json u w"
  by (auto simp: same_json_def split: result.splits)

lemma read_latest_canon: "read_latest sha real tb k = Ok (Some v) \<Longrightarrow> canon_ok v 0 \<and> validate_state_write sha k v"
  by (auto simp: read_latest_def decode_row_def decode_value_def validate_state_write_def Let_def within_limit_canon
      split: option.splits if_splits)

text \<open>What one invocation does to the reads.\<close>

lemma ledger_invoke_reads:
  assumes re: "rebuild_projection sha real l = Ok l" and few: "int (length (ll_journal l)) < max_safe"
    and w: "reachable sha (ledger_world sha real (ll_tables l))" and inv: "ledger_invoke sha real actor tx time rq l = Ok (res, cp, l')"
  shows "\<exists>ws. (\<forall>k. read_latest sha real (ll_tables l') k = (case map_of ws k of None \<Rightarrow> read_latest sha real (ll_tables l) k | Some v \<Rightarrow> Ok (Some v))) \<and>
    (\<forall>k v p. map_of ws k = Some v \<longrightarrow> immutable_key k \<longrightarrow> read_latest sha real (ll_tables l) k = Ok (Some p) \<longrightarrow> same_json p v) \<and>
    ((\<exists>s. fld cp ''transaction_id'' = JStr s) \<or> ledger_checkpoint real l = Ok (Some cp)) \<and>
    length (ll_journal l') \<le> Suc (length (ll_journal l))"
proof -
  obtain previous and t :: tx where t: "ledger_checkpoint real l = Ok previous"
      "invoke sha (tx_context actor tx time l) rq (begin_tx (ledger_world sha real (ll_tables l))) = Ok (res, t)"
      "\<forall>w \<in> set (staged t). valid_write sha w = Ok ()"
      "commit_block sha real tx time previous (committed_writes (staged t)) l = Ok (cp, l')"
    using transact_parts [OF inv [unfolded ledger_invoke_transact]] by blast
  let ?ws = "committed_writes (staged t)"
  show ?thesis
  proof (cases "?ws = [] \<and> previous \<noteq> None")
    case True
    then show ?thesis using t by (intro exI [of _ "[]"]) (auto simp: commit_block_def)
  next
    case False
    obtain hash where j: "in_sync (ll_tables l) (int (length (ll_journal l)))" "next_block previous = (int (length (ll_journal l)) + 1, JStr hash)"
      using rebuilt_parts [OF re] t(1) by auto
    let ?b = "int (length (ll_journal l)) + 1"
    have sync: "in_sync (ll_tables l) ?b" using j(1) by (rule in_sync_mono) simp
    obtain rows where ev: "apply_event sha real False (JNum (NInt 1)) ?b ?ws (ll_tables l) = Ok (ll_tables l')"
        "ll_journal l' = rows" "insert_row \<lparr>row_seq = ?b, row_tx = tx, row_json = stringify
            (signed_event sha (ll_channel l) ?b tx (JStr hash) time ?ws)\<rparr> (ll_journal l) = Ok rows"
        "fld cp ''transaction_id'' = JStr tx"
      using t(4) False j(2) by (auto simp: commit_block_def Let_def fld_signed)
    have printable: "printable_writes real ?ws" "\<forall>w \<in> set ?ws. valid_write sha w = Ok ()"
      using engine_writes_printable [OF t(2) w t(3), of real] t(3) committed_subset [of "staged t"] by (auto simp: printable_writes_def)
    have "length rows = Suc (length (ll_journal l))" using ev(3) by (auto simp: insert_row_def split: if_splits)
    moreover have "same_json p v" if "map_of ?ws k = Some v" "immutable_key k" "read_latest sha real (ll_tables l) k = Ok (Some p)" for k v p
      using ev(1) immutable_prior [OF _ sync committed_distinct map_of_SomeD [OF that(1)] that(2,3)] by (auto simp: apply_event_def)
    ultimately show ?thesis using applied_read [OF ev(1) sync committed_distinct printable] ev(2,4) by (intro exI [of _ ?ws]) auto
  qed
qed

inductive ledger_later :: "sha_fn \<Rightarrow> real_fn \<Rightarrow> jstr \<Rightarrow> local_ledger \<Rightarrow> local_ledger \<Rightarrow> bool" for sha real channel l where
  now: "ledger_later sha real channel l l"
| then_invoked: "ledger_later sha real channel l m \<Longrightarrow> int (length (ll_journal m)) < max_safe \<Longrightarrow>
    ledger_invoke sha real actor tx time rq m = Ok (res, cp, n) \<Longrightarrow> ledger_later sha real channel l n"
| then_reopened: "ledger_later sha real channel l m \<Longrightarrow> open_ledger sha real channel m = Ok n \<Longrightarrow> ledger_later sha real channel l n"

lemma later_run: "ledger_later sha real channel l m \<Longrightarrow> ledger_run sha real channel l \<Longrightarrow> ledger_run sha real channel m"
  by (induction rule: ledger_later.induct) (auto intro: ledger_run.invoked ledger_run.reopened)

lemma later_extends: "ledger_later sha real channel l m \<Longrightarrow> ledger_run sha real channel l \<Longrightarrow> extends l m"
proof (induction rule: ledger_later.induct)
  case (then_invoked m actor tx time rq res cp n)
  have m: "ledger_run sha real channel m" using later_run then_invoked.hyps(1) then_invoked.prems by blast
  show ?case using extends_trans [OF then_invoked.IH [OF then_invoked.prems]]
      ledger_invoke_extends [OF _ then_invoked.hyps(2) _ then_invoked.hyps(3)] ledger_run_inv [OF m] by blast
next
  case (then_reopened m n)
  have "ledger_run sha real channel m" using later_run then_reopened.hyps(1) then_reopened.prems by blast
  then have "n = m" using ledger_run_inv open_rebuilt then_reopened.hyps(2) by fastforce
  then show ?case using then_reopened by simp
qed (rule extends_refl)

lemma ledger_run_reads:
  "ledger_run sha real channel l \<Longrightarrow> (\<forall>k. is_ok (read_latest sha real (ll_tables l) k)) \<and> int (length (ll_journal l)) \<le> max_safe \<and>
     (\<forall>cp. ledger_checkpoint real l = Ok (Some cp) \<longrightarrow> (\<exists>s. fld cp ''transaction_id'' = JStr s))"
proof (induction rule: ledger_run.induct)
  case (opened l)
  then show ?case using open_fresh [OF opened]
    by (simp add: read_latest_def no_tables_def select_history_latest_def versions_def decode_row_def ledger_checkpoint_def max_safe_def)
next
  case (invoked l actor tx time rq res cp l')
  note inv = ledger_run_inv [OF invoked.hyps(1)]
  obtain ws where ws: "\<forall>k. read_latest sha real (ll_tables l') k = (case map_of ws k of None \<Rightarrow> read_latest sha real (ll_tables l) k | Some v \<Rightarrow> Ok (Some v))"
      "(\<exists>s. fld cp ''transaction_id'' = JStr s) \<or> ledger_checkpoint real l = Ok (Some cp)"
      "length (ll_journal l') \<le> Suc (length (ll_journal l))"
    using ledger_invoke_reads [OF _ invoked.hyps(2) _ invoked.hyps(3)] inv by blast
  have "ledger_checkpoint real l' = Ok (Some cp)" using ledger_invoke_Ok [OF _ invoked.hyps(2) _ invoked.hyps(3)] inv by blast
  then show ?case using ws invoked.IH invoked.hyps(2) by (auto split: option.split)
next
  case (reopened l l')
  then have "l' = l" using ledger_run_inv open_rebuilt by fastforce
  then show ?case using reopened by simp
qed

lemma later_immutable:
  "ledger_later sha real channel l m \<Longrightarrow> ledger_run sha real channel l \<Longrightarrow> immutable_key k \<Longrightarrow>
   read_latest sha real (ll_tables l) k = Ok (Some v) \<Longrightarrow> \<exists>v'. read_latest sha real (ll_tables m) k = Ok (Some v') \<and> same_json v v'"
proof (induction rule: ledger_later.induct)
  case now
  then show ?case using read_latest_canon same_json_refl by blast
next
  case (then_invoked m actor tx time rq res cp n)
  have m: "ledger_run sha real channel m" using later_run then_invoked.hyps(1) then_invoked.prems(1) by blast
  obtain p where p: "read_latest sha real (ll_tables m) k = Ok (Some p)" "same_json v p" using then_invoked by blast
  obtain ws where ws: "read_latest sha real (ll_tables n) k = (case map_of ws k of None \<Rightarrow> read_latest sha real (ll_tables m) k | Some v \<Rightarrow> Ok (Some v))"
      "\<forall>v. map_of ws k = Some v \<longrightarrow> same_json p v"
    using ledger_invoke_reads [OF _ then_invoked.hyps(2) _ then_invoked.hyps(3)] ledger_run_inv [OF m] then_invoked.prems(2) p(1) by blast
  then show ?case using p same_json_trans by (cases "map_of ws k") auto
next
  case (then_reopened m n)
  have "ledger_run sha real channel m" using later_run then_reopened.hyps(1) then_reopened.prems(1) by blast
  then have "n = m" using ledger_run_inv open_rebuilt then_reopened.hyps(2) by fastforce
  then show ?case using then_reopened by simp
qed

end
