(* ===== verification/Demo.thy ===== *)
theory Demo
  imports Idempotency
begin

text \<open>
  A concrete history, used to instantiate the theorems of the development: one channel, one policy
  with one role and its representative, an agent, and a document that is published, proposed, approved,
  activated and withdrawn. The digest function is a stand-in with the documented shape of SHA-256 in
  hexadecimal; nothing else about it is used.
\<close>

definition demo_sha :: sha_fn where
  "demo_sha bs = js (replicate 64 (if even (length bs) then CHR ''a'' else CHR ''b''))"

definition demo_slot :: slot where
  "demo_slot = \<lparr>channel_id = js ''chan'', document_id = js ''doc1'', context_id = js ''ctx1'',
     scope_id = js ''scope1'', usage_scope = js ''use/v1''\<rparr>"

definition demo_rep :: representative where
  "demo_rep = \<lparr>rep_role = js ''role1'', rep_org = js ''org1'', rep_actor = js ''ann''\<rparr>"

definition demo_policy :: policy where
  "demo_policy = \<lparr>pol_id = js ''pol1'', pol_version = 1, pol_slot = demo_slot, pol_epoch = 1, pol_binding = 1,
     pol_acceptance_slot = js ''acc1'', pol_roles = [js ''role1''],
     pol_allowed = [js ''approve'', js ''object'', js ''retract''], pol_reps = [demo_rep]\<rparr>"

definition demo_identity :: identity where
  "demo_identity = \<lparr>ident_org = js ''org1'', ident_actor = js ''ann'', ident_kind = Human,
     ident_contexts = [js ''*''], ident_can_propose = True\<rparr>"

definition demo_bot :: identity where
  "demo_bot = \<lparr>ident_org = js ''org1'', ident_actor = js ''bot'', ident_kind = Agent,
     ident_contexts = [js ''ctx1''], ident_can_propose = False\<rparr>"

definition demo_config :: config where
  "demo_config = \<lparr>cfg_version = VNum 1, cfg_channel = js ''chan'', cfg_epoch = 1, cfg_binding = 1,
     cfg_serving = True, cfg_identities = [demo_identity, demo_bot], cfg_policies = [demo_policy]\<rparr>"

definition demo_ctx :: txctx where
  "demo_ctx = \<lparr>tx_actor = \<lparr>org_id = js ''org1'', actor_id = js ''ann'', kind = Human\<rparr>,
     tx_channel = js ''chan'', tx_id = js ''tx1'', tx_time = js ''t1''\<rparr>"

definition demo_agent :: txctx where
  "demo_agent = demo_ctx\<lparr>tx_actor := \<lparr>org_id = js ''org1'', actor_id = js ''bot'', kind = Agent\<rparr>\<rparr>"

definition demo_payload :: payload where
  "demo_payload = \<lparr>pl_revision_id = js ''rev1'', pl_slot = demo_slot, pl_title = js ''T'', pl_body = js ''B'',
     pl_parents = [], pl_dependencies = [],
     pl_metadata = \<lparr>md_author_id = js ''ann'', md_created_at = js ''t0'', md_source_kind = HumanAuthored,
       md_assertions = [], md_author_org_id = js ''org1''\<rparr>\<rparr>"

definition demo_text :: jstr where
  "demo_text = (case canonicalize (enc_payload demo_payload) of Ok s \<Rightarrow> s | Err _ \<Rightarrow> [])"

definition demo_revision :: revision where
  "demo_revision = \<lparr>rv_digest = digest_text demo_sha demo_text, rv_payload = demo_payload\<rparr>"

definition demo_decision :: decision where
  "demo_decision = \<lparr>de_id = js ''dec1'', de_digest = rv_digest demo_revision, de_slot = demo_slot,
     de_policy_id = js ''pol1'', de_policy_version = 1, de_epoch = 1, de_binding = 1, de_org = js ''org1'',
     de_actor = js ''ann'', de_subject = js ''subject1'', de_role = js ''role1'', de_kind = Approve,
     de_rationale = js ''fine'', de_at = js ''t2'', de_proposal = js ''prop1'', de_retracts = None\<rparr>"

section \<open>A bound on the length of canonical texts\<close>

lemma code_points_length: "length (code_points s) \<le> length s"
  by (induction s rule: code_points.induct) auto

lemma byte_length_le: "byte_length s \<le> 3 * length s"
proof (induction s rule: code_points.induct)
  case (2 u)
  then show ?case using unat_cunit_less [of u] by (simp add: byte_length_def utf8_def utf8_cp_def)
next
  case (3 u v s)
  then show ?case using unat_cunit_less [of u] by (auto simp: byte_length_def utf8_def utf8_cp_def)
qed (simp add: byte_length_def utf8_def)

lemma length_js [simp]: "length (js s) = length s"
  by (simp add: js_def)

fun text_bound :: "json \<Rightarrow> nat" where
  "text_bound (JNum n) = (case canonical_number n of Ok s \<Rightarrow> length s | Err _ \<Rightarrow> 0)"
| "text_bound (JStr s) = 6 * length s + 2"
| "text_bound (JArr xs) = 2 + sum_list (map (\<lambda>x. text_bound x + 1) xs)"
| "text_bound (JObj kvs) = 2 + sum_list (map (\<lambda>(k, x). 6 * length k + 4 + text_bound x) kvs)"
| "text_bound _ = 5"

lemma length_quote: "length (json_quote s) \<le> 6 * length s + 2"
  by (induction s) (auto simp: json_quote_def quote_unit_def)

lemma length_join: "length (join_on c ps) \<le> sum_list (map (\<lambda>p. length p + 1) ps)"
  by (induction c ps rule: join_on.induct) auto

lemma mapR_bound:
  "mapR f xs = Ok ys \<Longrightarrow> (\<And>x y. x \<in> set xs \<Longrightarrow> f x = Ok y \<Longrightarrow> length y \<le> g x) \<Longrightarrow>
     sum_list (map (\<lambda>y. length y + 1) ys) \<le> sum_list (map (\<lambda>x. g x + 1) xs)"
proof (induction xs arbitrary: ys)
  case (Cons x xs)
  then obtain y zs where "f x = Ok y" "mapR f xs = Ok zs" "ys = y # zs" by auto
  then show ?case using Cons.IH [of zs] Cons.prems(2) [of x y] Cons.prems(2) by fastforce
qed simp

lemma sum_list_insort: "sum_list (map f (insort_key g x xs)) = f x + (sum_list (map f xs) :: nat)"
  by (induction xs) auto

lemma sum_list_sort_key: "sum_list (map f (sort_key g xs)) = (sum_list (map f xs) :: nat)"
  by (induction xs) (simp_all add: sum_list_insort)

lemma canonical_length: "canonicalize_value v d = Ok s \<Longrightarrow> length s \<le> text_bound v"
proof (induction v d arbitrary: s rule: canonicalize_value.induct)
  case (6 xs d)
  then obtain items where items: "mapR (\<lambda>x. canonicalize_value x (Suc d)) xs = Ok items" "s = 91 # join_on 44 items @ [93]"
    by (auto split: if_splits)
  have "sum_list (map (\<lambda>y. length y + 1) items) \<le> sum_list (map (\<lambda>x. text_bound x + 1) xs)"
    using 6 by (intro mapR_bound [OF items(1)]) (auto split: if_splits)
  then show ?case using items(2) length_join [of 44 items] by simp
next
  case (7 kvs d)
  let ?f = "\<lambda>(k, x). rbind (require (valid_unicode k) INVALID_INPUT) (\<lambda>_.
          rbind (canonicalize_value x (Suc d)) (\<lambda>t. Ok (json_quote k @ 58 # t)))"
  let ?g = "\<lambda>(k, x). 6 * length k + 3 + text_bound x"
  obtain fields where fields: "mapR ?f (sort_key fst kvs) = Ok fields" "s = 123 # join_on 44 fields @ [125]"
    using 7(2) by auto
  have step: "length y \<le> ?g kx" if kx_in: "kx \<in> set (sort_key fst kvs)" and y: "?f kx = Ok y" for kx y
  proof -
    obtain k x where kx: "kx = (k, x)" by (cases kx)
    then obtain t where t: "valid_unicode k" "canonicalize_value x (Suc d) = Ok t" "y = json_quote k @ 58 # t"
      using y by (auto simp: kx)
    have "length t \<le> text_bound x" using kx_in kx t by (intro 7(1) [of kx k x]) auto
    then show ?thesis using kx t length_quote [of k] by simp
  qed
  have "sum_list (map (\<lambda>y. length y + 1) fields) \<le> sum_list (map (\<lambda>x. ?g x + 1) (sort_key fst kvs))"
    by (rule mapR_bound [OF fields(1) step])
  also have "\<dots> = sum_list (map (\<lambda>x. ?g x + 1) kvs)" by (rule sum_list_sort_key)
  also have "\<dots> = sum_list (map (\<lambda>(k, x). 6 * length k + 4 + text_bound x) kvs)"
    by (rule arg_cong [where f = sum_list]) auto
  finally show ?case using fields(2) length_join [of 44 fields] by simp
qed (use length_quote in auto)

section \<open>The records are well formed\<close>

lemmas demo_defs = demo_slot_def demo_rep_def demo_policy_def demo_identity_def demo_bot_def demo_config_def demo_ctx_def demo_agent_def
  demo_payload_def demo_revision_def demo_decision_def

lemma is_id_demo [simp]:
  "is_id (js ''chan'')" "is_id (js ''doc1'')" "is_id (js ''ctx1'')" "is_id (js ''scope1'')" "is_id (js ''role1'')"
  "is_id (js ''org1'')" "is_id (js ''ann'')" "is_id (js ''bot'')" "is_id (js ''pol1'')" "is_id (js ''acc1'')" "is_id (js ''approve'')"
  "is_id (js ''object'')" "is_id (js ''retract'')" "is_id (js ''rev1'')" "is_id (js ''dec1'')" "is_id (js ''subject1'')"
  "is_id (js ''prop1'')" "is_id (js ''agr1'')" "is_id (js ''cmd1'')" "is_id (js ''cmd2'')" "is_id (js ''cmd3'')"
  "is_id (js ''cmd4'')" "is_id (js ''cmd5'')"
  by code_simp+

lemma is_usage_scope_demo [simp]: "is_usage_scope (js ''use/v1'')"
  by code_simp

lemma hex_demo_sha: "hex_sha demo_sha"
  by (auto simp: hex_sha_def demo_sha_def js_def hex_lower_char_def list_all_iff cu_def)

lemma demo_sha_digest [simp]: "is_digest (digest_text demo_sha s)"
  by (rule digest_text_is_digest [OF hex_demo_sha])

lemma demo_digest_valid [simp]: "valid_unicode (digest_text demo_sha s)"
  using demo_sha_digest [of s] by (rule is_digest_token [THEN token_valid_unicode])

lemma wf_slot_demo [simp]: "wf_slot demo_slot"
  by (simp add: demo_slot_def wf_slot_def)

lemma wf_demo_policy: "wf_policy demo_policy"
  using unique_ids [of "[js ''role1'']"] unique_ids [of "[js ''approve'', js ''object'', js ''retract'']"]
  by (simp add: wf_policy_def demo_policy_def demo_rep_def wf_version_range_def max_safe_def
      wf_representative_def rep_key_def)

lemma wf_demo_config: "wf_config demo_config"
proof -
  have "\<exists>x. canonicalize (JStr (js ''*'')) = Ok x" by (simp add: canonicalize_Ok_iff)
  moreover have "\<exists>x. canonicalize (JStr (js ''ctx1'')) = Ok x" by (simp add: canonicalize_Ok_iff)
  ultimately show ?thesis
    using wf_demo_policy
    by (auto simp: wf_config_def demo_config_def wf_version_range_def max_safe_def wf_identity_def demo_identity_def demo_bot_def
        human_representatives_def unique_values_def assert_unique_canonical_def demo_policy_def demo_rep_def demo_slot_def identity_key_def)
qed

lemma canon_demo_config: "canon_ok (enc_config demo_config) 0"
  by (simp add: demo_config_def enc_config_def enc_policy_def enc_identity_def demo_policy_def demo_identity_def demo_bot_def
      demo_rep_def enc_representative_def demo_slot_def canon_ok_obj max_safe_def is_ok_iff)

lemma text_ok_demo [simp]:
  "text_ok 80 (js ''t0'')" "text_ok 80 (js ''t1'')" "text_ok 80 (js ''t2'')" "text_ok 200 (js ''tx1'')"
  "text_ok 200 (js ''T'')" "text_ok 262144 (js ''B'')" "text_ok 1000 (js ''fine'')" "text_ok 1000 (js ''reviewed'')"
  "text_ok 80 (js ''publish_revision'')" "text_ok 80 (js ''propose'')" "text_ok 80 (js ''decide'')"
  "text_ok 80 (js ''activate'')" "text_ok 80 (js ''withdraw'')"
  by (simp_all add: text_ok_js)

lemma byte_length_js: "byte_length (js s) \<le> 3 * length s"
  by (metis byte_length_le length_js)

lemma wf_demo_payload: "wf_payload demo_payload"
  using byte_length_js [of "''B''"]
  by (simp add: wf_payload_def demo_payload_def demo_slot_def wf_metadata_def unique_values_def assert_unique_canonical_def
      wf_slot_def)

lemma demo_text: "canonicalize (enc_payload demo_payload) = Ok demo_text"
proof -
  have "canon_ok (enc_payload demo_payload) 0" 
    by (subst canon_ok_enc_payload [OF wf_demo_payload]) (simp_all add: demo_payload_def)
  then show ?thesis by (auto simp: demo_text_def canonicalize_Ok_iff [symmetric])
qed

lemma demo_text_short: "byte_length demo_text \<le> 524288"
proof -
  have "length demo_text \<le> text_bound (enc_payload demo_payload)"
    using demo_text by (intro canonical_length) (simp add: canonicalize_def)
  also have "\<dots> \<le> 100000"
    by (simp add: enc_payload_def demo_payload_def demo_slot_def enc_metadata_def obj_def max_safe_def
        dec_int_def dec_nat_def nat_digits.simps)
  finally show ?thesis using byte_length_le [of demo_text] by simp
qed

lemma wf_demo_revision: "wf_revision demo_sha demo_revision"
  using wf_demo_payload demo_text demo_text_short by (simp add: wf_revision_def demo_revision_def)

lemma demo_context: "assert_context demo_ctx = Ok ()" "wf_ctx demo_ctx" "assert_context demo_agent = Ok ()"
  by (simp_all add: assert_context_def demo_ctx_def demo_agent_def assert_eval wf_ctx_def wf_actor_def)

lemma demo_channel: "tx_channel demo_ctx = cfg_channel demo_config" "tx_channel demo_agent = cfg_channel demo_config"
  by (simp_all add: demo_ctx_def demo_agent_def demo_config_def)

lemma demo_member: "configured_identity demo_config (tx_actor demo_ctx) = Ok demo_identity"
  "member demo_config (tx_actor demo_ctx)" "configured_identity demo_config (tx_actor demo_agent) = Ok demo_bot"
  "member demo_config (tx_actor demo_agent)"
  by (simp_all add: configured_identity_def demo_config_def demo_identity_def demo_bot_def demo_ctx_def demo_agent_def member_def)

lemma wf_demo_decision: "wf_decision demo_decision"
  by (simp add: wf_decision_def demo_decision_def demo_revision_def wf_version_range_def max_safe_def)


section \<open>The history\<close>

text \<open>The commands: an agent publishes, the representative does the rest.\<close>

abbreviation demo_publish :: json where
  "demo_publish \<equiv> command (js ''cmd1'') ''publish_revision'' (publish_input demo_revision (VNum 1) 1)"

abbreviation demo_propose :: json where
  "demo_propose \<equiv> command (js ''cmd2'') ''propose'' (propose_input (js ''prop1'') (rv_digest demo_revision) (js ''pol1'') 1)"

abbreviation demo_decide :: json where
  "demo_decide \<equiv> command (js ''cmd3'') ''decide'' (decide_input demo_decision)"

abbreviation demo_activate :: json where
  "demo_activate \<equiv> command (js ''cmd4'') ''activate'' (activate_input (js ''prop1'') (js ''agr1'') None)"

abbreviation demo_withdraw :: json where
  "demo_withdraw \<equiv> command (js ''cmd5'') ''withdraw'' (status_input (js ''agr1'') (js ''reviewed''))"

text \<open>The ledgers after each of them.\<close>

definition demo_ledger0 :: ledger where
  "demo_ledger0 = empty_ledger\<lparr>lg_config := Some demo_config\<rparr>"

definition demo_ledger1 :: ledger where
  "demo_ledger1 = publish demo_revision demo_ledger0"

definition demo_proposal :: proposal where
  "demo_proposal = new_proposal demo_ctx demo_config (js ''prop1'') demo_revision demo_policy"

definition demo_ledger2 :: ledger where
  "demo_ledger2 = add_proposal demo_proposal demo_ledger1"

definition demo_decided :: proposal where
  "demo_decided = demo_proposal\<lparr>pr_counter := 1\<rparr>"

definition demo_ledger3 :: ledger where
  "demo_ledger3 = add_decision demo_decision demo_proposal demo_ledger2"

definition demo_agreement :: agreement where
  "demo_agreement = new_agreement demo_ctx demo_config (js ''agr1'') demo_decided demo_revision demo_policy [js ''dec1'']"

definition demo_ledger4 :: ledger where
  "demo_ledger4 = activate demo_ctx demo_agreement demo_decided demo_ledger3"

definition demo_ledger5 :: ledger where
  "demo_ledger5 = end_agreement demo_ctx Withdrawn (js ''reviewed'') demo_agreement demo_ledger4"

text \<open>A committed state with the given ledger, in which the commands from \<open>n\<close> on are new.\<close>

definition demo_state :: "world \<Rightarrow> ledger \<Rightarrow> jstr set \<Rightarrow> bool" where
  "demo_state w L ids \<longleftrightarrow> reachable demo_sha w \<and> represents w L \<and> ledger_inv demo_sha L \<and>
     lg_config L = Some demo_config \<and> (\<forall>org. \<forall>i \<in> ids. present w (key_idempotency org i) = None)"

lemma demo_boot: "\<exists>w res. commit demo_sha demo_ctx (Bootstrap (enc_config demo_config)) Map.empty = Ok (res, w) \<and>
    demo_state w demo_ledger0 UNIV"
proof -
  obtain w res where w: "commit demo_sha demo_ctx (Bootstrap (enc_config demo_config)) Map.empty = Ok (res, w)"
      "represents w (empty_ledger\<lparr>lg_config := Some demo_config\<rparr>)" "\<forall>org cid. present w (key_idempotency org cid) = None"
    using bootstrap_live [of demo_ctx demo_config demo_sha] demo_context wf_demo_config canon_demo_config
    by (auto simp: demo_ctx_def demo_config_def)
  have r: "reachable demo_sha w" by (rule reachable.invoked [OF reachable.empty w(1)])
  have "\<exists>L'. ledger_step demo_sha demo_ctx empty_ledger L' \<and> represents w L' \<and> ledger_inv demo_sha L'"
    by (rule commit_refines [OF represents_empty empty_ledger_inv w(1)])
  have "ledger_step demo_sha demo_ctx empty_ledger (empty_ledger\<lparr>lg_config := Some demo_config, lg_epoch := 0\<rparr>)"
    by (rule ledger_step.bootstrapped) (use wf_demo_config in \<open>simp_all add: empty_ledger_def demo_ctx_def demo_config_def\<close>)
  then have "ledger_inv demo_sha (empty_ledger\<lparr>lg_config := Some demo_config, lg_epoch := 0\<rparr>)"
    using ledger_step_inv empty_ledger_inv by blast
  moreover have "empty_ledger\<lparr>lg_config := Some demo_config, lg_epoch := 0\<rparr> = demo_ledger0"
    by (simp add: demo_ledger0_def empty_ledger_def)
  ultimately show ?thesis using w r by (auto simp: demo_state_def demo_ledger0_def)
qed

text \<open>One command: its abstract transition, and the handler that makes it.\<close>

lemma demo_step:
  assumes ctx: "assert_context ctx = Ok ()" "tx_channel ctx = cfg_channel demo_config" "member demo_config (tx_actor ctx)"
    and w: "demo_state w L ids" and cid: "cid \<in> ids" "is_id cid" "text_ok 80 (js ty)" and input: "canon_ok (obj kvs) 1"
    and step: "ledger_step demo_sha ctx L L'"
    and run: "\<exists>t res. perform_command demo_sha ctx demo_config (js ty) (obj kvs) (begin_tx w) = Ok (res, t) \<and>
      canon_ok res 1 \<and> represents (view t) L'"
  shows "\<exists>w' res. commit demo_sha ctx (Execute (command cid ty (obj kvs))) w = Ok (res, w') \<and>
    demo_state w' L' (ids - {cid})"
proof -
  have w: "reachable demo_sha w" "represents w L" "ledger_inv demo_sha L" "lg_config L = Some demo_config"
      "\<forall>org. \<forall>i \<in> ids. present w (key_idempotency org i) = None"
    using w by (simp_all add: demo_state_def)
  obtain t res where t: "perform_command demo_sha ctx demo_config (js ty) (obj kvs) (begin_tx w) = Ok (res, t)"
      "canon_ok res 1" "represents (view t) L'"
    using run by blast
  have new: "present w (key_idempotency (org_id (tx_actor ctx)) cid) = None" using w(5) cid(1) by blast
  obtain w' where w': "commit demo_sha ctx (Execute (command cid ty (obj kvs))) w = Ok (res, w')" "represents w' L'"
      "\<forall>org cid'. cid' \<noteq> cid \<longrightarrow> present w' (key_idempotency org cid') = present w (key_idempotency org cid')"
    using commit_command [OF hex_demo_sha w(2-4) ctx cid(2,3) input new t] by blast
  have L': "ledger_inv demo_sha L'" by (rule ledger_step_inv [OF step w(3)])
  have "evolves L L'" by (rule ledger_step_evolves [OF step w(3)])
  then have "lg_config L' = Some demo_config" using evolvesD(1) w(4) by blast
  then have "demo_state w' L' (ids - {cid})"
    using reachable.invoked [OF w(1) w'(1)] w'(2,3) L' w(5) by (auto simp: demo_state_def)
  then show ?thesis using w'(1) by blast
qed

lemma canon_ok_demo_config_1: "policy_of demo_config (js ''pol1'') 1 = Some demo_policy"
  by (simp add: policy_of_def demo_config_def demo_policy_def)

lemma canon_demo_policy: "canon_ok (enc_policy demo_policy) 0"
  by (rule canon_ok_policies [OF canon_demo_config]) (simp add: demo_config_def)

lemma demo_slot_eqs [simp]: "rv_slot demo_revision = demo_slot" "pol_slot demo_policy = demo_slot"
  by (simp_all add: demo_revision_def demo_payload_def demo_policy_def)

lemma demo_published:
  assumes w: "demo_state w demo_ledger0 UNIV"
  shows "\<exists>w' res. commit demo_sha demo_agent (Execute demo_publish) w = Ok (res, w') \<and>
    demo_state w' demo_ledger1 (UNIV - {js ''cmd1''})"
  unfolding publish_input_def
proof (rule demo_step [OF demo_context(3) demo_channel(2) demo_member(4) w])
  note st = w [unfolded demo_state_def]
  have fresh: "lg_revs demo_ledger0 i = None" "lg_ids demo_ledger0 i = None" "lg_config demo_ledger0 = Some demo_config" for i
    by (simp_all add: demo_ledger0_def empty_ledger_def)
  show "ledger_step demo_sha demo_agent demo_ledger0 demo_ledger1"
    unfolding demo_ledger1_def
    by (rule ledger_step.published [where c = demo_config and ident = demo_bot])
      (use fresh demo_member wf_demo_revision in \<open>simp_all add: demo_config_def demo_bot_def demo_slot_def demo_revision_def demo_payload_def\<close>)
  have "\<exists>t'. execute_publish demo_sha demo_agent demo_config
      (publish_input demo_revision (cfg_version demo_config) (cfg_epoch demo_config)) (begin_tx w) =
      Ok (publish_result ''published'' demo_revision, t') \<and> represents (view t') (publish demo_revision demo_ledger0)"
    by (rule publish_live [where ident = demo_bot])
      (use st fresh demo_member wf_demo_revision in
        \<open>simp_all add: demo_config_def demo_bot_def demo_slot_def demo_ctx_def demo_agent_def graph_leaf demo_revision_def demo_payload_def\<close>)
  moreover have "canon_ok (publish_result ''published'' demo_revision) 1"
    by (simp add: publish_result_def canon_ok_obj demo_revision_def demo_payload_def valid_slot_key)
  ultimately show "\<exists>t res. perform_command demo_sha demo_agent demo_config (js ''publish_revision'')
      (obj [(''publication'', obj [(''config_version'', enc_version (VNum 1)), (''membership_epoch'', JNum (NInt 1)),
        (''revision_digest'', JStr (rv_digest demo_revision))]), (''revision'', enc_revision demo_revision)]) (begin_tx w) =
      Ok (res, t) \<and> canon_ok res 1 \<and> represents (view t) demo_ledger1"
    by (auto simp: perform_command_def publish_input_def demo_config_def demo_ledger1_def)
qed (use canon_ok_enc_revision [OF wf_demo_revision] in \<open>simp_all add: canon_ok_obj max_safe_def is_ok_iff demo_revision_def\<close>)

lemma demo_selectors1:
  "lg_config demo_ledger1 = Some demo_config" "lg_props demo_ledger1 i = None"
  "lg_revs demo_ledger1 (rv_digest demo_revision) = Some demo_revision" "lg_decs demo_ledger1 i = None"
  "lg_latest demo_ledger1 = Map.empty" "lg_agrs demo_ledger1 i = None" "lg_active demo_ledger1 s = None" "lg_epoch demo_ledger1 = 0"
  by (simp_all add: demo_ledger1_def demo_ledger0_def empty_ledger_def publish_def)

lemma demo_proposed:
  assumes w: "demo_state w demo_ledger1 ids" and ids: "js ''cmd2'' \<in> ids"
  shows "\<exists>w' res. commit demo_sha demo_ctx (Execute demo_propose) w = Ok (res, w') \<and>
    demo_state w' demo_ledger2 (ids - {js ''cmd2''})"
  unfolding propose_input_def
proof (rule demo_step [OF demo_context(1) demo_channel(1) demo_member(2) w ids])
  note st = w [unfolded demo_state_def]
  show "ledger_step demo_sha demo_ctx demo_ledger1 demo_ledger2"
    unfolding demo_ledger2_def demo_proposal_def
    by (rule ledger_step.proposed [where ident = demo_identity, OF _ _ _ demo_context(2) _ _ _ canon_ok_demo_config_1])
      (use demo_selectors1 demo_member in \<open>simp_all add: demo_identity_def\<close>)
  have "\<exists>t' res. execute_propose demo_sha demo_ctx demo_config
      (propose_input (js ''prop1'') (rv_digest demo_revision) (js ''pol1'') 1) (begin_tx w) = Ok (res, t') \<and> canon_ok res 1 \<and>
      represents (view t') (add_proposal (new_proposal demo_ctx demo_config (js ''prop1'') demo_revision demo_policy) demo_ledger1)"
    by (rule propose_live [where ident = demo_identity])
      (use st demo_selectors1 demo_member demo_context canon_ok_demo_config_1 canon_demo_policy in \<open>simp_all add: demo_identity_def\<close>)
  then show "\<exists>t res. perform_command demo_sha demo_ctx demo_config (js ''propose'')
      (obj [(''policy_id'', JStr (js ''pol1'')), (''policy_version'', JNum (NInt 1)), (''proposal_id'', JStr (js ''prop1'')),
        (''revision_digest'', JStr (rv_digest demo_revision))]) (begin_tx w) = Ok (res, t) \<and> canon_ok res 1 \<and>
      represents (view t) demo_ledger2"
    by (auto simp: perform_command_def propose_input_def demo_ledger2_def demo_proposal_def)
qed (simp_all add: canon_ok_obj max_safe_def is_ok_iff demo_revision_def)

lemma demo_selectors2:
  "lg_config demo_ledger2 = Some demo_config" "lg_props demo_ledger2 (js ''prop1'') = Some demo_proposal"
  "lg_revs demo_ledger2 (rv_digest demo_revision) = Some demo_revision" "lg_decs demo_ledger2 i = None"
  "lg_agrs demo_ledger2 i = None" "lg_active demo_ledger2 s = None" "lg_epoch demo_ledger2 = 0"
  using demo_selectors1 by (simp_all add: demo_ledger2_def demo_proposal_def new_proposal_def)

lemma demo_represented: "representative_of demo_policy (js ''role1'') = Some demo_rep" "names_actor demo_rep (tx_actor demo_ctx)"
  by (simp_all add: representative_of_def demo_policy_def demo_rep_def names_actor_def demo_ctx_def)

lemma demo_decided_state:
  assumes w: "demo_state w demo_ledger2 ids" and ids: "js ''cmd3'' \<in> ids"
  shows "\<exists>w' res. commit demo_sha demo_ctx (Execute demo_decide) w = Ok (res, w') \<and>
    demo_state w' demo_ledger3 (ids - {js ''cmd3''})"
  unfolding decide_input_def
proof (rule demo_step [OF demo_context(1) demo_channel(1) demo_member(2) w ids])
  note st = w [unfolded demo_state_def]
  have none: "struck_by demo_decision demo_ledger2 = None" by (simp add: struck_by_def demo_selectors2)
  have bound: "decision_binds_proposal demo_decision demo_proposal" "pr_digest demo_proposal = de_digest demo_decision"
      "pr_slot demo_proposal = de_slot demo_decision" "pr_counter demo_proposal < max_safe"
    by (simp_all add: decision_binds_proposal_def demo_decision_def demo_proposal_def new_proposal_def demo_config_def
        demo_policy_def max_safe_def)
  have pin: "lg_props demo_ledger2 (de_proposal demo_decision) = Some demo_proposal"
    using demo_selectors2 by (simp add: demo_decision_def)
  have pol: "policy_of demo_config (de_policy_id demo_decision) (de_policy_version demo_decision) = Some demo_policy"
      "decision_word (de_kind demo_decision) \<in> set (pol_allowed demo_policy)"
      "representative_of demo_policy (de_role demo_decision) = Some demo_rep"
    using canon_ok_demo_config_1 demo_represented by (simp_all add: demo_decision_def) (simp add: demo_policy_def)
  have actor: "de_org demo_decision = org_id (tx_actor demo_ctx)" "de_actor demo_decision = actor_id (tx_actor demo_ctx)"
      "kind (tx_actor demo_ctx) = Human" "de_kind demo_decision \<noteq> Retract"
    by (simp_all add: demo_decision_def demo_ctx_def)
  have "ledger_step demo_sha demo_ctx demo_ledger2 (decide demo_ctx demo_decision demo_proposal demo_ledger2)"
    by (rule ledger_step.decided [OF _ _ _ demo_context(2) wf_demo_decision pin _ _ _ pol demo_represented(2)])
      (use bound actor none demo_member demo_selectors2 in simp_all)
  then show "ledger_step demo_sha demo_ctx demo_ledger2 demo_ledger3"
    by (simp add: decide_def none demo_ledger3_def)
  have "decide_check demo_sha demo_ctx demo_config (decide_input demo_decision) w =
      Ok (demo_decision, demo_proposal, pr_counter demo_proposal + 1)"
    by (rule decide_check_live [OF _ _ _ _ _ wf_demo_decision pin _ _ _ _ pol demo_represented(2)])
      (use st bound actor demo_member demo_selectors2 in
        \<open>simp_all add: demo_decision_def demo_slot_def demo_config_def\<close>)
  then have "\<exists>t' res. execute_decide demo_sha demo_ctx demo_config (decide_input demo_decision) (begin_tx w) = Ok (res, t') \<and>
      canon_ok res 1 \<and> represents (view t') (add_decision demo_decision demo_proposal demo_ledger2)"
    by (intro decide_live [OF _ _ _ _ wf_demo_decision pin]) (use st bound none demo_selectors2 in simp_all)
  then show "\<exists>t res. perform_command demo_sha demo_ctx demo_config (js ''decide'')
      (obj [(''decision'', enc_decision demo_decision)]) (begin_tx w) = Ok (res, t) \<and> canon_ok res 1 \<and>
      represents (view t) demo_ledger3"
    by (auto simp: perform_command_def decide_input_def demo_ledger3_def)
qed (use canon_ok_enc_decision [OF wf_demo_decision] in \<open>simp_all add: canon_ok_obj\<close>)

lemma demo_selectors3:
  "lg_config demo_ledger3 = Some demo_config" "lg_props demo_ledger3 (js ''prop1'') = Some demo_decided"
  "lg_revs demo_ledger3 (rv_digest demo_revision) = Some demo_revision"
  "lg_decs demo_ledger3 (js ''dec1'') = Some demo_decision"
  "lg_latest demo_ledger3 (rep_seat demo_decided demo_rep (js ''role1'')) = Some (js ''dec1'')"
  "lg_agrs demo_ledger3 i = None" "lg_active demo_ledger3 s = None" "lg_epoch demo_ledger3 = 0"
  using demo_selectors2
  by (simp_all add: demo_ledger3_def demo_proposal_def new_proposal_def demo_decision_def demo_decided_def seat_of_def
      rep_seat_def demo_policy_def demo_rep_def)

lemma demo_active:
  assumes w: "demo_state w demo_ledger3 ids" and ids: "js ''cmd4'' \<in> ids"
  shows "\<exists>w' res. commit demo_sha demo_ctx (Execute demo_activate) w = Ok (res, w') \<and>
    demo_state w' demo_ledger4 (ids - {js ''cmd4''})"
  unfolding activate_input_def option.case
proof (rule demo_step [OF demo_context(1) demo_channel(1) demo_member(2) w ids])
  note st = w [unfolded demo_state_def]
  have p: "pr_digest demo_decided = rv_digest demo_revision" "pr_status demo_decided = Open"
      "pr_policy_id demo_decided = js ''pol1''" "pr_policy_version demo_decided = 1"
      "pr_epoch demo_decided = cfg_epoch demo_config" "pr_binding demo_decided = cfg_binding demo_config"
    by (simp_all add: demo_decided_def demo_proposal_def new_proposal_def demo_policy_def)
  have "approval_matches_proposal demo_decision demo_decided"
    by (simp add: approval_matches_proposal_def demo_decision_def demo_decided_def demo_proposal_def new_proposal_def
        demo_policy_def demo_config_def)
  then have "approves demo_ledger3 demo_policy demo_decided (js ''role1'') (js ''dec1'')"
    using demo_selectors3 demo_represented
    by (simp add: approves_def) (simp add: demo_decision_def demo_rep_def)
  then have all: "list_all2 (approves demo_ledger3 demo_policy demo_decided) (pol_roles demo_policy) [js ''dec1'']"
    by (simp add: demo_policy_def)
  have deps: "pl_dependencies (rv_payload demo_revision) = []" by (simp add: demo_revision_def demo_payload_def)
  have rev: "lg_revs demo_ledger3 (pr_digest demo_decided) = Some demo_revision" using demo_selectors3 p by simp
  have pol: "policy_of demo_config (pr_policy_id demo_decided) (pr_policy_version demo_decided) = Some demo_policy"
    using canon_ok_demo_config_1 p by simp
  have human: "kind (tx_actor demo_ctx) = Human" by (simp add: demo_ctx_def)
  have free: "\<not> in_force demo_ledger3 s x" for s x using demo_selectors3 by (simp add: in_force_def)
  show "ledger_step demo_sha demo_ctx demo_ledger3 demo_ledger4"
    unfolding demo_ledger4_def demo_agreement_def
    by (rule ledger_step.activated [OF _ human demo_member(2) demo_context(2) _ _ demo_selectors3(2) p(2) rev pol])
      (use demo_selectors3 p all deps free in \<open>simp_all add: max_safe_def\<close>)
  have "\<exists>t' res. execute_activate demo_sha demo_ctx demo_config (activate_input (js ''prop1'') (js ''agr1'') None) (begin_tx w) = Ok (res, t') \<and>
      canon_ok res 1 \<and> represents (view t')
        (activate demo_ctx (new_agreement demo_ctx demo_config (js ''agr1'') demo_decided demo_revision demo_policy [js ''dec1'']) demo_decided demo_ledger3)"
    by (rule activate_live [OF _ _ _ human demo_member(2) demo_context(2) _ _ demo_selectors3(2) p(2) rev pol])
      (use st demo_selectors3 p all deps free dependency_leaf in \<open>simp_all add: max_safe_def\<close>)
  then show "\<exists>t res. perform_command demo_sha demo_ctx demo_config (js ''activate'')
      (obj [(''agreement_id'', JStr (js ''agr1'')), (''expected_active_agreement_id'', JNull), (''proposal_id'', JStr (js ''prop1''))])
      (begin_tx w) = Ok (res, t) \<and> canon_ok res 1 \<and> represents (view t) demo_ledger4"
    by (auto simp: perform_command_def activate_input_def demo_ledger4_def demo_agreement_def)
qed (simp_all add: canon_ok_obj)

lemma demo_selectors4:
  "lg_config demo_ledger4 = Some demo_config" "lg_agrs demo_ledger4 (js ''agr1'') = Some demo_agreement"
  "lg_active demo_ledger4 demo_slot = Some (js ''agr1'')" "lg_epoch demo_ledger4 = 1"
  using demo_selectors3
  by (simp_all add: demo_ledger4_def demo_agreement_def new_agreement_def activate_def)

lemma demo_withdrawn:
  assumes w: "demo_state w demo_ledger4 ids" and ids: "js ''cmd5'' \<in> ids"
  shows "\<exists>w' res. commit demo_sha demo_ctx (Execute demo_withdraw) w = Ok (res, w') \<and>
    demo_state w' demo_ledger5 (ids - {js ''cmd5''})"
  unfolding status_input_def
proof (rule demo_step [OF demo_context(1) demo_channel(1) demo_member(2) w ids])
  note st = w [unfolded demo_state_def]
  have human: "kind (tx_actor demo_ctx) = Human" by (simp add: demo_ctx_def)
  have active: "ag_status demo_agreement = Active" by (simp add: demo_agreement_def new_agreement_def)
  have pol: "policy_of demo_config (ag_policy_id demo_agreement) (ag_policy_version demo_agreement) = Some demo_policy"
    using canon_ok_demo_config_1 by (simp add: demo_agreement_def new_agreement_def demo_policy_def)
  have rep: "demo_rep \<in> set (pol_reps demo_policy)" by (simp add: demo_policy_def)
  show "ledger_step demo_sha demo_ctx demo_ledger4 demo_ledger5"
    unfolding demo_ledger5_def
    by (rule ledger_step.ended [OF demo_selectors4(1) human demo_member(2) demo_context(2) _ demo_selectors4(2) active pol rep demo_represented(2)])
      (use demo_selectors4 in \<open>simp_all add: max_safe_def\<close>)
  have "\<exists>t' res. execute_status_change demo_ctx demo_config (status_input (js ''agr1'') (js ''reviewed'')) Withdrawn (begin_tx w) = Ok (res, t') \<and>
      canon_ok res 1 \<and> represents (view t') (end_agreement demo_ctx Withdrawn (js ''reviewed'') demo_agreement demo_ledger4)"
    by (rule status_live [where sha = demo_sha, OF _ _ demo_selectors4(1) human demo_member(2) demo_context(2) _ demo_selectors4(2) active pol rep demo_represented(2)])
      (use st demo_selectors4 in \<open>simp_all add: max_safe_def\<close>)
  then show "\<exists>t res. perform_command demo_sha demo_ctx demo_config (js ''withdraw'')
      (obj [(''agreement_id'', JStr (js ''agr1'')), (''reason'', JStr (js ''reviewed''))]) (begin_tx w) = Ok (res, t) \<and>
      canon_ok res 1 \<and> represents (view t) demo_ledger5"
    by (auto simp: perform_command_def status_input_def demo_ledger5_def)
qed (simp_all add: canon_ok_obj text_ok_valid)

section \<open>All of it\<close>

lemma demo_history:
  obtains w0 w1 w2 w3 w4 w5 r0 r1 r2 r3 r4 r5 where
    "commit demo_sha demo_ctx (Bootstrap (enc_config demo_config)) Map.empty = Ok (r0, w0)" "demo_state w0 demo_ledger0 UNIV"
    "commit demo_sha demo_agent (Execute demo_publish) w0 = Ok (r1, w1)" "demo_state w1 demo_ledger1 (UNIV - {js ''cmd1''})"
    "commit demo_sha demo_ctx (Execute demo_propose) w1 = Ok (r2, w2)"
    "demo_state w2 demo_ledger2 (UNIV - {js ''cmd1''} - {js ''cmd2''})"
    "commit demo_sha demo_ctx (Execute demo_decide) w2 = Ok (r3, w3)"
    "demo_state w3 demo_ledger3 (UNIV - {js ''cmd1''} - {js ''cmd2''} - {js ''cmd3''})"
    "commit demo_sha demo_ctx (Execute demo_activate) w3 = Ok (r4, w4)"
    "demo_state w4 demo_ledger4 (UNIV - {js ''cmd1''} - {js ''cmd2''} - {js ''cmd3''} - {js ''cmd4''})"
    "commit demo_sha demo_ctx (Execute demo_withdraw) w4 = Ok (r5, w5)"
    "demo_state w5 demo_ledger5 (UNIV - {js ''cmd1''} - {js ''cmd2''} - {js ''cmd3''} - {js ''cmd4''} - {js ''cmd5''})"
proof -
  obtain w0 r0 where 0: "commit demo_sha demo_ctx (Bootstrap (enc_config demo_config)) Map.empty = Ok (r0, w0)"
      "demo_state w0 demo_ledger0 UNIV"
    using demo_boot by blast
  obtain w1 r1 where 1: "commit demo_sha demo_agent (Execute demo_publish) w0 = Ok (r1, w1)"
      "demo_state w1 demo_ledger1 (UNIV - {js ''cmd1''})"
    using demo_published [OF 0(2)] by blast
  obtain w2 r2 where 2: "commit demo_sha demo_ctx (Execute demo_propose) w1 = Ok (r2, w2)"
      "demo_state w2 demo_ledger2 (UNIV - {js ''cmd1''} - {js ''cmd2''})"
    using demo_proposed [OF 1(2)] by auto
  obtain w3 r3 where 3: "commit demo_sha demo_ctx (Execute demo_decide) w2 = Ok (r3, w3)"
      "demo_state w3 demo_ledger3 (UNIV - {js ''cmd1''} - {js ''cmd2''} - {js ''cmd3''})"
    using demo_decided_state [OF 2(2)] by auto
  obtain w4 r4 where 4: "commit demo_sha demo_ctx (Execute demo_activate) w3 = Ok (r4, w4)"
      "demo_state w4 demo_ledger4 (UNIV - {js ''cmd1''} - {js ''cmd2''} - {js ''cmd3''} - {js ''cmd4''})"
    using demo_active [OF 3(2)] by auto
  obtain w5 r5 where 5: "commit demo_sha demo_ctx (Execute demo_withdraw) w4 = Ok (r5, w5)"
      "demo_state w5 demo_ledger5 (UNIV - {js ''cmd1''} - {js ''cmd2''} - {js ''cmd3''} - {js ''cmd4''} - {js ''cmd5''})"
    using demo_withdrawn [OF 4(2)] by auto
  show thesis by (rule that [OF 0 1 2 3 4 5])
qed

text \<open>The state in which the document is in force.\<close>

lemma demo_in_force:
  obtains w where "reachable demo_sha w" "represents w demo_ledger4" "ledger_inv demo_sha demo_ledger4"
    "demo_state w demo_ledger4 (UNIV - {js ''cmd1''} - {js ''cmd2''} - {js ''cmd3''} - {js ''cmd4''})"
proof (rule demo_history)
  fix w4 assume w: "demo_state w4 demo_ledger4 (UNIV - {js ''cmd1''} - {js ''cmd2''} - {js ''cmd3''} - {js ''cmd4''})"
  show thesis by (rule that [OF _ _ _ w]) (use w in \<open>simp_all add: demo_state_def\<close>)
qed

end
