(* ===== verification/LedgerDemo.thy ===== *)
theory LedgerDemo
  imports LedgerReplay Demo
begin

text \<open>
  The first commit on a fresh journal, and a concrete one: the founder bootstraps the demonstration
  configuration on a local ledger.
\<close>

section \<open>The first commit\<close>

lemma writes_accepted:
  assumes "in_sync tb block" and "\<forall>(k, v) \<in> set ws. validate_state_write sha k v \<and> map_of (projection tb) k = None"
    and "distinct (map fst ws)"
  shows "\<exists>tb'. foldR (apply_write sha real False block) ws tb = Ok tb'"
  using assms
proof (induction ws arbitrary: tb)
  case (Cons w ws)
  obtain k v where w: "w = (k, v)" by (cases w)
  have row: "map_of (projection tb) k = None" "validate_state_write sha k v" using Cons.prems(2) w by auto
  then have none: "versions tb k = []" using Cons.prems(1) by (simp add: in_sync_def select_history_latest_def)
  then have "\<not> (l = k \<and> n = block)" if "(l, n, t) \<in> set (history tb)" for l n t
    using that by (force simp: versions_def filter_empty_conv)
  moreover have "read_latest sha real tb k = Ok None"
    using row none by (simp add: read_latest_def select_history_latest_def decode_row_def)
  ultimately obtain tb1 where tb1: "apply_write sha real False block w tb = Ok tb1"
      "tb1 = tb\<lparr>projection := upsert k (stringify v) (projection tb), history := history tb @ [(k, block, stringify v)]\<rparr>"
    using row w by (auto simp: apply_write_def prior_of_def)
  have "\<exists>tb'. foldR (apply_write sha real False block) ws tb1 = Ok tb'"
  proof (rule Cons.IH)
    show "in_sync tb1 block" by (rule apply_write_sync [OF tb1(1) Cons.prems(1)])
    show "\<forall>(l, x) \<in> set ws. validate_state_write sha l x \<and> map_of (projection tb1) l = None"
    proof (intro ballI, clarify)
      fix l x
      assume "(l, x) \<in> set ws"
      moreover from this have "l \<in> fst ` set ws" by (metis fst_conv image_eqI)
      then have "l \<noteq> k" using Cons.prems(3) w by auto
      ultimately have "validate_state_write sha l x" "map_of (projection tb) l = None" "l \<noteq> k"
        using Cons.prems(2) by auto
      then show "validate_state_write sha l x \<and> map_of (projection tb1) l = None" using tb1(2) by simp
    qed
  qed (use Cons.prems(3) in simp)
  then show ?case using tb1(1) by simp
qed simp

lemma sort_key_distinct_keys: "distinct (map fst ws) \<Longrightarrow> map_of (sort_key fst ws) = map_of (ws :: (jstr \<times> json) list)"
  by (rule ext) (simp add: map_of_sort_key)

lemma upsert_fresh: "k \<notin> fst ` set rows \<Longrightarrow> upsert k v rows = rows @ [(k, v)]"
  by (induction k v rows rule: upsert.induct) auto

lemma fold_upsert_fresh: "distinct (map fst (rows @ ws)) \<Longrightarrow> fold (\<lambda>(k, v). upsert k v) ws rows = rows @ ws"
proof (induction ws arbitrary: rows)
  case (Cons w ws)
  then show ?case by (cases w) (simp add: upsert_fresh)
qed simp

lemma first_commit:
  assumes l: "open_ledger sha real channel fresh_file = Ok l"
    and inv: "invoke sha (tx_context actor tx time l) rq (begin_tx Map.empty) = Ok (res, t)"
    and world: "represents (view t) L" "ledger_inv sha L"
    and ws: "distinct (map fst (staged t))"
      "\<forall>(k, v) \<in> set (staged t). record_key k \<and> within_write_limit v \<and> v \<noteq> JNull \<and> v \<noteq> JUndef"
  shows "\<exists>cp l'. ledger_invoke sha real actor tx time rq l = Ok (res, cp, l')"
proof -
  note fresh = open_fresh [OF l]
  have empty: "ledger_world sha real (ll_tables l) = Map.empty" using fresh by (simp add: world_empty)
  let ?ws = "committed_writes (staged t)"
  have w_eq: "?ws = sort_key fst (staged t)" using fold_upsert_fresh [of "[]" "staged t"] ws(1) by (simp add: committed_writes_def)
  have consistent: "view t = apply_writes (staged t) Map.empty"
    using consistent_invoke [OF inv tx_consistent_begin] by (simp add: tx_consistent_def)
  then have view: "view t = map_of ?ws" by (auto simp: apply_writes_committed split: option.split)
  have entry: "present (view t) k = Some v" if "(k, v) \<in> set ?ws" for k v
  proof -
    have "map_of ?ws k = Some v" using committed_distinct that by (rule map_of_is_SomeI)
    then show ?thesis using ws(2) that unfolding present_def view by (force simp: w_eq)
  qed
  have pres: "present (view t) = view t"
  proof
    fix k
    show "present (view t) k = view t k"
    proof (cases "view t k")
      case (Some v)
      then have "(k, v) \<in> set ?ws" using view by (simp add: map_of_SomeD)
      then show ?thesis using entry Some by simp
    qed (simp add: present_def)
  qed
  have valid: "validate_state_write sha k v" "validate_state_links k v (view t)" if "(k, v) \<in> set (staged t)" for k v
    using stored_write_valid [OF world entry] stored_links_valid [OF world entry] ws(2) that pres by (auto simp: w_eq within_limit_canon)
  have ok: "\<forall>w \<in> set (staged t). valid_write sha w = Ok ()" using valid(1) by (auto simp: valid_write_def)
  have printable: "printable_writes real ?ws"
    using engine_writes_printable [OF inv reachable.empty ok] committed_subset [of "staged t"] by (auto simp: printable_writes_def)
  have sync: "in_sync (ll_tables l) 1" using fresh by (simp add: in_sync_empty)
  obtain tb where tb: "foldR (apply_write sha real False 1) ?ws (ll_tables l) = Ok tb"
    using writes_accepted [OF sync, of ?ws sha real] valid(1) committed_distinct fresh
    by (fastforce simp: w_eq no_tables_def)
  have ok': "\<forall>w \<in> set ?ws. valid_write sha w = Ok ()" using ok committed_subset by blast
  have shown: "ledger_world sha real (tb\<lparr>cursor := Some 1\<rparr>) k = view t k"
    if "apply_event sha real False (JNum (NInt 1)) 1 ?ws (ll_tables l) = Ok (tb\<lparr>cursor := Some 1\<rparr>)" for k
    using applied_world [OF that sync committed_distinct printable ok'] empty view by (simp split: option.split)
  have same: "ledger_world sha real tb = view t"
  proof
    fix k
    have "ledger_world sha real tb k = ledger_world sha real (tb\<lparr>cursor := Some 1\<rparr>) k"
      by (simp add: ledger_world_def read_latest_def select_history_latest_def versions_def Let_def)
    moreover have "read_latest sha real tb k = decode_row sha real k (map_of (projection tb) k)"
      using apply_writes_sync [OF tb sync] by (simp add: read_in_sync read_current_def)
    moreover have "map_of (projection tb) k = map_option stringify (map_of ?ws k)"
      using applied_projection [OF tb committed_distinct, of k] fresh by (simp add: no_tables_def split: option.split)
    moreover have "decode_row sha real k (Some (stringify v)) = Ok (Some v)" if "map_of ?ws k = Some v" for v
    proof -
      have "(k, v) \<in> set ?ws" using that by (rule map_of_SomeD)
      then have "printable real v" "validate_state_write sha k v"
        using printable ok' unfolding printable_writes_def valid_write_def by fastforce+
      then show ?thesis by (simp add: decode_row_def decode_value_def json_parse_printable)
    qed
    ultimately show "ledger_world sha real tb k = view t k"
      unfolding view by (cases "map_of ?ws k") (simp_all add: ledger_world_def decode_row_def)
  qed
  have "linked sha real False tb w" if "w \<in> set ?ws" for w
  proof -
    obtain k v where w: "w = (k, v)" by (cases w)
    have "(\<lambda>l. case prior_of sha real False tb l of Ok f \<Rightarrow> f | Err _ \<Rightarrow> None) = view t"
      using same by (auto simp: ledger_world_def prior_of_def fun_eq_iff)
    then show ?thesis using valid(2) [of k v] that w by (simp add: linked_def w_eq)
  qed
  then have ev: "apply_event sha real False (JNum (NInt 1)) 1 ?ws (ll_tables l) = Ok (tb\<lparr>cursor := Some 1\<rparr>)"
    using tb by (simp add: apply_event_def)
  have "readable sha real (ll_tables l)" using fresh by (simp add: readable_def no_tables_def)
  moreover have "ledger_checkpoint real l = Ok None" using fresh by (simp add: ledger_checkpoint_def)
  ultimately show ?thesis using inv ok ev fresh empty
    by (simp add: ledger_invoke_transact transact_def tx_context_def commit_block_def next_block_def insert_row_def Let_def)
qed

section \<open>The demonstration ledger\<close>

definition demo_real :: real_fn where "demo_real = (\<lambda>_. NInt 0)"

lemma demo_real_legible: "\<forall>t. legible (JNum (demo_real t))"
  using number_token_dec_int [of "[]" 0] by (simp add: demo_real_def stops_def)

lemma policies_staged: "foldR put_policy ps t = Ok t' \<Longrightarrow>
    staged t' = staged t @ map (\<lambda>p. (key_policy (pol_id p) (pol_version p), enc_policy p)) ps"
proof (induction ps arbitrary: t)
  case (Cons p ps)
  then obtain t1 where t1: "put_policy p t = Ok t1" "foldR put_policy ps t1 = Ok t'" by auto
  have "staged t1 = staged t @ [(key_policy (pol_id p) (pol_version p), enc_policy p)]"
    using t1(1) by (auto simp: put_policy_def)
  then show ?case using Cons.IH [OF t1(2)] by simp
qed simp

lemma bootstrap_staged:
  assumes "bootstrap ctx (enc_config c) (begin_tx Map.empty) = Ok (res, t)" and "wf_config c"
  shows "staged t = (key_config, enc_config c) # (key_eligibility_epoch, JNum (NInt 0)) #
    map (\<lambda>p. (key_policy (pol_id p) (pol_version p), enc_policy p)) (cfg_policies c)"
proof -
  obtain t0 where "put_clone key_config (enc_config c) (begin_tx Map.empty) = Ok t0"
      "foldR put_policy (cfg_policies c) (put key_eligibility_epoch (JNum (NInt 0)) t0) = Ok t"
    using assms by (auto simp: bootstrap_def config.dec_enc simp del: put_clone_Ok)
  then show ?thesis by (auto simp: begin_tx_def dest!: policies_staged)
qed

lemma small_write: "canon_ok v 0 \<Longrightarrow> 3 * text_bound v \<le> max_write_bytes \<Longrightarrow> within_write_limit v"
proof -
  assume v: "canon_ok v 0" "3 * text_bound v \<le> max_write_bytes"
  then obtain s where s: "canonicalize v = Ok s" using canonicalize_Ok_iff by blast
  then have "length s \<le> text_bound v" using canonical_length by (simp add: canonicalize_def)
  then have "byte_length s \<le> max_write_bytes" using byte_length_le [of s] v(2) by linarith
  then show ?thesis using s by (simp add: within_write_limit_def)
qed

lemma digit_length [simp]: "length (dec_int 0) = 1" "length (dec_int 1) = 1"
  by code_simp+

lemma length_js' [simp]: "length (js s) = length s"
  by (simp add: js_def)

lemma demo_policy_bound: "text_bound (enc_policy demo_policy) \<le> 10000"
  by (simp add: enc_policy_def demo_policy_def demo_rep_def demo_slot_def enc_representative_def obj_def max_safe_def)

lemma demo_writes_small: "within_write_limit (enc_config demo_config)" "within_write_limit (JNum (NInt 0))" "within_write_limit (enc_policy demo_policy)"
proof -
  have "text_bound (enc_config demo_config) \<le> 20000"
    using demo_policy_bound
    by (simp add: enc_config_def demo_config_def enc_identity_def demo_identity_def demo_bot_def obj_def max_safe_def)
  then show "within_write_limit (enc_config demo_config)"
    by (intro small_write [OF canon_demo_config]) (simp add: max_write_bytes_def)
  have "text_bound (JNum (NInt 0)) = 1" by (simp add: max_safe_def)
  then show "within_write_limit (JNum (NInt 0))"
    by (intro small_write) (simp_all add: max_write_bytes_def max_safe_def is_ok_iff)
  have "canon_ok (enc_policy demo_policy) 0"
    by (rule canon_ok_policies [OF canon_demo_config]) (simp add: demo_config_def)
  then show "within_write_limit (enc_policy demo_policy)"
    using demo_policy_bound by (intro small_write) (simp_all add: max_write_bytes_def)
qed

text \<open>The founder bootstraps the configuration on a fresh local ledger.\<close>

definition demo_file :: local_ledger where
  "demo_file = \<lparr>ll_channel = js ''chan'', ll_meta = Some (js ''chan''), ll_journal = [], ll_tables = no_tables\<rparr>"

lemma demo_open: "open_ledger demo_sha demo_real (js ''chan'') fresh_file = Ok demo_file"
  by (simp add: open_ledger_def fresh_file_def rebuild_projection_def validate_journal_rows_def demo_file_def)

lemma demo_file_context: "tx_context (tx_actor demo_ctx) (js ''tx1'') (js ''t1'') demo_file = demo_ctx"
  by (simp add: tx_context_def demo_ctx_def demo_file_def)

lemma demo_staged:
  assumes "bootstrap demo_ctx (enc_config demo_config) (begin_tx Map.empty) = Ok (res, t)"
  shows "distinct (map fst (staged t)) \<and> (\<forall>(k, v) \<in> set (staged t). record_key k \<and> within_write_limit v \<and> v \<noteq> JNull \<and> v \<noteq> JUndef)"
proof -
  have pol: "cfg_policies demo_config = [demo_policy]" by (simp add: demo_config_def)
  have st: "staged t = [(key_config, enc_config demo_config), (key_eligibility_epoch, JNum (NInt 0)),
      (key_policy (pol_id demo_policy) (pol_version demo_policy), enc_policy demo_policy)]"
    using bootstrap_staged [OF assms wf_demo_config] by (simp add: pol)
  have keys: "key_config \<noteq> key_eligibility_epoch" "key_config \<noteq> key_policy i z" "key_eligibility_epoch \<noteq> key_policy i z" for i z
    by (simp_all add: key_defs)
  show ?thesis by (simp add: st keys demo_writes_small record_key.intros)
qed

lemma demo_ledger_boot:
  "\<exists>res cp l1. ledger_invoke demo_sha demo_real (tx_actor demo_ctx) (js ''tx1'') (js ''t1'') (Bootstrap (enc_config demo_config)) demo_file = Ok (res, cp, l1)"
proof -
  obtain w res where w: "commit demo_sha demo_ctx (Bootstrap (enc_config demo_config)) Map.empty = Ok (res, w)" "demo_state w demo_ledger0 UNIV"
    using demo_boot by (elim exE conjE)
  obtain t where t: "invoke demo_sha demo_ctx (Bootstrap (enc_config demo_config)) (begin_tx Map.empty) = Ok (res, t)" "w = view t"
    using w(1) unfolding commit_iff by (elim exE conjE)
  have boot: "bootstrap demo_ctx (enc_config demo_config) (begin_tx Map.empty) = Ok (res, t)"
    using t(1) by (simp only: invoke_def request.case)
  have R: "represents (view t) demo_ledger0" "ledger_inv demo_sha demo_ledger0"
    using w(2) unfolding t(2) demo_state_def by simp_all
  have "\<exists>cp l'. ledger_invoke demo_sha demo_real (tx_actor demo_ctx) (js ''tx1'') (js ''t1'') (Bootstrap (enc_config demo_config)) demo_file = Ok (res, cp, l')"
  proof (rule first_commit [OF demo_open _ R])
    show "invoke demo_sha (tx_context (tx_actor demo_ctx) (js ''tx1'') (js ''t1'') demo_file) (Bootstrap (enc_config demo_config))
        (begin_tx Map.empty) = Ok (res, t)"
      using t(1) by (simp only: demo_file_context)
  qed (rule demo_staged [OF boot, THEN conjunct1] demo_staged [OF boot, THEN conjunct2])+
  then show ?thesis by (rule exI)
qed

end
