(* ===== verification/Guarantees.thy ===== *)
theory Guarantees
  imports Demo
begin

text \<open>
  What the domain engine guarantees, stated of its own operations (\<open>commit\<close>, \<open>resolve\<close>, the stored
  records) in every state that a sequence of commits reaches. Each theorem is applied to the concrete
  history of \<open>Demo\<close>.
\<close>

section \<open>Shared steps\<close>

lemma reachable_ledgerE:
  assumes "reachable sha w"
  obtains L where "represents w L" "reachable_ledger sha L" "ledger_inv sha L"
  using reachable_represents [OF assms] by blast

lemma commit_ledgersE:
  assumes "reachable sha w" and "commit sha ctx rq w = Ok (res, w')"
  obtains L M where "represents w L" "ledger_inv sha L" "represents w' M" "ledger_inv sha M"
    "ledger_step sha ctx L M" "evolves L M"
  using commit_evolves [OF assms] by blast

lemma map_le_SomeD: "m \<subseteq>\<^sub>m m' \<Longrightarrow> m k = Some v \<Longrightarrow> m' k = Some v"
  by (metis domI map_le_def)

lemma active_agreement_iff:
  assumes R: "represents w L" and I: "ledger_inv sha L" and s: "wf_slot s"
  shows "get_active_agreement w s = Ok (Some a) \<longleftrightarrow> lg_agrs L (ag_id a) = Some a \<and> ag_status a = Active \<and> ag_slot a = s"
proof -
  have "lg_active L s = Some i \<longleftrightarrow> (\<exists>b. lg_agrs L i = Some b \<and> ag_status b = Active \<and> ag_slot b = s)" for i
    using ledger_invD(10) [OF I] by (simp add: inv_active_def)
  then have "Option.bind (lg_active L s) (lg_agrs L) = Some a \<longleftrightarrow>
      (\<exists>i. lg_agrs L i = Some a \<and> ag_status a = Active \<and> ag_slot a = s)"
    by (auto simp: bind_eq_Some_conv)
  also have "\<dots> \<longleftrightarrow> lg_agrs L (ag_id a) = Some a \<and> ag_status a = Active \<and> ag_slot a = s"
    using ledger_ids(4) [OF I] by blast
  finally show ?thesis using get_active_agreement_ledger [OF R I s] by simp
qed

text \<open>A representative whose latest decision approves has approved exactly what is in force.\<close>

lemma still_approved_decision:
  assumes R: "represents w L" and I: "ledger_inv sha L" and a: "lg_agrs L i = Some a" and c: "lg_config L = Some c"
    and l: "lg_latest L (ag_proposal a, ag_policy_version a, role, rep_org rep, rep_actor rep) = Some j"
    and d: "lg_decs L j = Some d"
  shows "de_role d = role \<and> de_org d = rep_org rep \<and> de_actor d = rep_actor rep \<and> de_proposal d = ag_proposal a \<and>
    de_digest d = ag_digest a \<and> de_id d = j"
proof -
  have seat: "seat_of d = (ag_proposal a, ag_policy_version a, role, rep_org rep, rep_actor rep)"
    using ledger_invD(8) [OF I] l d by (fastforce simp: inv_latest_def)
  obtain p where p: "lg_props L (de_proposal d) = Some p" "decision_ok c p d" "de_id d = j"
    using ledger_invD(7) [OF I] d c by (fastforce simp: inv_decs_def)
  have "de_digest d = pr_digest p" using p(2) by (simp add: decision_ok_def)
  moreover have "pr_digest p = ag_digest a"
    using agrs_ok [OF ledger_invD(9) [OF I] a c] p(1) seat by (auto simp: agreement_ok_def seat_of_def)
  ultimately show ?thesis using seat p(3) by (simp add: seat_of_def)
qed

text \<open>The state of the history in which the document is in force.\<close>

lemma demo_agreement_sel:
  "ag_id demo_agreement = js ''agr1''" "ag_status demo_agreement = Active" "ag_slot demo_agreement = demo_slot"
  "ag_policy_id demo_agreement = js ''pol1''" "ag_policy_version demo_agreement = 1"
  "ag_digest demo_agreement = rv_digest demo_revision"
  by (simp_all add: demo_agreement_def new_agreement_def demo_policy_def)

lemma demo_get_active:
  "represents w demo_ledger4 \<Longrightarrow> ledger_inv demo_sha demo_ledger4 \<Longrightarrow>
   get_active_agreement w demo_slot = Ok (Some demo_agreement)"
  by (simp add: active_agreement_iff demo_selectors4 demo_agreement_sel)

section \<open>Agreements in force\<close>

text \<open>
  C1. Consensus. In every reachable state, the agreement in force for a slot is active, belongs to a
  policy of the configuration for that slot, and for each role that the policy requires the latest
  decision of the role's representative is an approval of exactly the revision in force.
\<close>

theorem in_force_is_approved:
  assumes "reachable sha w" and "wf_slot s" and "get_active_agreement w s = Ok (Some a)"
  shows "ag_status a = Active \<and> ag_slot a = s \<and> (\<exists>c pol. config_of w = Some c \<and>
    policy_of c (ag_policy_id a) (ag_policy_version a) = Some pol \<and> pol_slot pol = s \<and>
    (\<forall>role \<in> set (pol_roles pol). \<exists>rep d. representative_of pol role = Some rep \<and>
      present w (key_latest_decision (ag_proposal a) (ag_policy_version a) role (rep_org rep) (rep_actor rep)) =
        Some (decision_pointer (de_id d)) \<and>
      decision_of w (de_id d) = Some d \<and> de_kind d = Approve \<and> de_role d = role \<and> de_org d = rep_org rep \<and>
      de_actor d = rep_actor rep \<and> de_digest d = ag_digest a \<and> de_proposal d = ag_proposal a))"
proof -
  obtain L where L: "represents w L" "ledger_inv sha L" using reachable_ledgerE [OF assms(1)] by metis
  have a: "lg_agrs L (ag_id a) = Some a" "ag_status a = Active" "ag_slot a = s"
    using active_agreement_iff [OF L assms(2)] assms(3) by blast+
  obtain c where c: "lg_config L = Some c" "agreement_ok L c a"
    using ledger_invD(9) [OF L(2)] a(1) by (fastforce simp: inv_agrs_def)
  then obtain pol where pol: "policy_of c (ag_policy_id a) (ag_policy_version a) = Some pol" "pol_slot pol = ag_slot a"
    by (auto simp: agreement_ok_def)
  have "still_approved L pol a" using ledger_invD(11) [OF L(2)] a c pol by (auto simp: inv_current_def)
  then have "\<exists>rep d. representative_of pol role = Some rep \<and>
      present w (key_latest_decision (ag_proposal a) (ag_policy_version a) role (rep_org rep) (rep_actor rep)) =
        Some (decision_pointer (de_id d)) \<and>
      decision_of w (de_id d) = Some d \<and> de_kind d = Approve \<and> de_role d = role \<and> de_org d = rep_org rep \<and>
      de_actor d = rep_actor rep \<and> de_digest d = ag_digest a \<and> de_proposal d = ag_proposal a"
    if role: "role \<in> set (pol_roles pol)" for role
  proof -
    obtain rep i d where d: "representative_of pol role = Some rep"
        "lg_latest L (ag_proposal a, ag_policy_version a, role, rep_org rep, rep_actor rep) = Some i"
        "lg_decs L i = Some d" "de_kind d = Approve"
      using \<open>still_approved L pol a\<close> role by (auto simp: still_approved_def)
    then show ?thesis
      using still_approved_decision [OF L a(1) c(1) d(2,3)] representsD(8) [OF L(1)] stored_ledger(4) [OF L]
      by (intro exI [of _ rep] exI [of _ d]) auto
  qed
  then show ?thesis using a c pol stored_ledger(1) [OF L] by auto
qed

theorem in_force_is_approved_witness:
  "\<exists>w a. reachable demo_sha w \<and> get_active_agreement w demo_slot = Ok (Some a) \<and> ag_status a = Active \<and>
     (\<exists>d. decision_of w (de_id d) = Some d \<and> de_kind d = Approve \<and> de_digest d = ag_digest a)"
proof (rule demo_in_force)
  fix w assume w: "reachable demo_sha w" "represents w demo_ledger4" "ledger_inv demo_sha demo_ledger4"
  have act: "get_active_agreement w demo_slot = Ok (Some demo_agreement)" by (rule demo_get_active [OF w(2,3)])
  obtain c pol where cp: "config_of w = Some c"
      "policy_of c (ag_policy_id demo_agreement) (ag_policy_version demo_agreement) = Some pol"
      "\<forall>role \<in> set (pol_roles pol). \<exists>d. decision_of w (de_id d) = Some d \<and> de_kind d = Approve \<and> de_digest d = ag_digest demo_agreement"
    using in_force_is_approved [OF w(1) wf_slot_demo act] by metis
  have "c = demo_config" using cp(1) stored_ledger(1) [OF w(2,3)] demo_selectors4(1) by simp
  then have "pol = demo_policy"
    using cp(2) canon_ok_demo_config_1 by (simp add: demo_agreement_sel)
  then have "\<exists>d. decision_of w (de_id d) = Some d \<and> de_kind d = Approve \<and> de_digest d = ag_digest demo_agreement"
    using cp(3) by (simp add: demo_policy_def)
  then show ?thesis using w(1) act in_force_is_approved [OF w(1) wf_slot_demo act] by metis
qed

text \<open>
  C2. One agreement per slot. In every reachable state, reading the agreement in force never fails, and
  it returns exactly the stored agreement that is active for the slot: the pointer and the status
  agree, and two active agreements of one slot are the same.
\<close>

theorem active_pointer_is_exact:
  assumes "reachable sha w" and "wf_slot s"
  shows "\<exists>x. get_active_agreement w s = Ok x \<and>
    (\<forall>a. x = Some a \<longleftrightarrow> agreement_of w (ag_id a) = Some a \<and> ag_status a = Active \<and> ag_slot a = s) \<and>
    (\<forall>i j a b. agreement_of w i = Some a \<and> agreement_of w j = Some b \<and> ag_status a = Active \<and> ag_status b = Active \<and>
       ag_slot a = s \<and> ag_slot b = s \<longrightarrow> a = b)"
proof -
  obtain L where L: "represents w L" "ledger_inv sha L" using reachable_ledgerE [OF assms(1)] by metis
  note agr = stored_ledger(5) [OF L]
  have x: "get_active_agreement w s = Ok (Option.bind (lg_active L s) (lg_agrs L))"
    by (rule get_active_agreement_ledger [OF L assms(2)])
  have iff: "\<forall>a. Option.bind (lg_active L s) (lg_agrs L) = Some a \<longleftrightarrow>
      agreement_of w (ag_id a) = Some a \<and> ag_status a = Active \<and> ag_slot a = s"
    using active_agreement_iff [OF L assms(2)] agr unfolding x by simp
  have "a = b" if "agreement_of w i = Some a" "agreement_of w j = Some b" "ag_status a = Active" "ag_status b = Active"
      "ag_slot a = s" "ag_slot b = s" for i j a b
  proof -
    have "ag_id a = i" "ag_id b = j" using ledger_ids(4) [OF L(2)] that(1,2) agr by simp_all
    then have "Option.bind (lg_active L s) (lg_agrs L) = Some a" "Option.bind (lg_active L s) (lg_agrs L) = Some b"
      using iff that by simp_all
    then show ?thesis by simp
  qed
  then show ?thesis using x iff by blast
qed

theorem active_pointer_is_exact_witness:
  "\<exists>w. reachable demo_sha w \<and> get_active_agreement w demo_slot = Ok (Some demo_agreement) \<and>
     agreement_of w (js ''agr1'') = Some demo_agreement"
proof (rule demo_in_force)
  fix w assume w: "reachable demo_sha w" "represents w demo_ledger4" "ledger_inv demo_sha demo_ledger4"
  show ?thesis
    using active_pointer_is_exact [OF w(1) wf_slot_demo] demo_get_active [OF w(2,3)] w(1) demo_agreement_sel(1)
    by (metis result.inject(2))
qed

text \<open>
  C3. A resolution is justified. In every reachable state, what \<open>resolve\<close> returns for a slot is the
  agreement in force for it with its stored revision, the channel serves, and every dependency that
  must be active is resolved the same way to the revision that it pins, down to a finite tree.
\<close>

theorem resolve_is_justified:
  assumes "reachable sha w" and "resolve sha w s = Ok (Eligible a r)"
  shows "wf_slot s \<and> get_active_agreement w s = Ok (Some a) \<and> revision_of sha w (ag_digest a) = Some r \<and>
    rv_digest r = ag_digest a \<and> rv_slot r = s \<and>
    (\<exists>c. config_of w = Some c \<and> cfg_serving c \<and> accepted sha w c s a r) \<and>
    (\<forall>d \<in> set (pl_dependencies (rv_payload r)). dep_enforcement d = RequiresActive \<longrightarrow>
      (\<exists>b. get_active_agreement w (dep_slot d) = Ok (Some b) \<and> ag_digest b = dep_digest d))"
proof -
  obtain L where L: "represents w L" "ledger_inv sha L" using reachable_ledgerE [OF assms(1)] by metis
  obtain n where at: "resolve_at sha w s {} 0 0 = Ok (Eligible a r, n)"
    using assms(2) by (auto simp: resolve_def)
  obtain v c where v: "present w key_config = Some v" "validate_config v = Ok c" "cfg_serving c"
    and acc: "accepted sha w c s a r" using resolve_at_sound [OF at] by blast
  have c: "lg_config L = Some c" using v(1,2) read_ledger_config [OF L, of c] by (simp add: read_config_def)
  have local: "get_active_agreement w s' = Ok (Some a') \<and> revision_of sha w (ag_digest a') = Some r' \<and>
      rv_digest r' = ag_digest a' \<and> rv_slot r' = s' \<and> wf_slot s'" if "accepted sha w c s' a' r'" for s' a' r'
  proof -
    have s': "wf_slot s'" and loc: "resolve_local sha w c s' = Ok (Eligible a' r')" using that by (auto elim: acceptedE)
    obtain i where i: "lg_active L s' = Some i"
      using loc resolve_local_none [OF L(1) s'] by (cases "lg_active L s'") auto
    then show ?thesis
      using resolve_local_active [OF L s' c i] loc stored_ledger(2) [OF L] ledger_ids(4) [OF L(2)]
        active_agreement_iff [OF L s'] s' by auto
  qed
  have "\<exists>b. get_active_agreement w (dep_slot d) = Ok (Some b) \<and> ag_digest b = dep_digest d"
    if "d \<in> set (pl_dependencies (rv_payload r))" "dep_enforcement d = RequiresActive" for d
    using accepted_dependency [OF acc that] local by metis
  then show ?thesis using local [OF acc] acc v stored_ledger(1) [OF L] c by auto
qed

text \<open>A document without dependencies resolves once its agreement is active.\<close>

lemma demo_resolve:
  assumes w: "represents w demo_ledger4" "ledger_inv demo_sha demo_ledger4"
  shows "resolve demo_sha w demo_slot = Ok (Eligible demo_agreement demo_revision)"
proof -
  obtain a r where l: "resolve_local demo_sha w demo_config demo_slot = Ok (Eligible a r)"
      "lg_agrs demo_ledger4 (js ''agr1'') = Some a" "lg_revs demo_ledger4 (ag_digest a) = Some r"
    using resolve_local_active [OF w wf_slot_demo demo_selectors4(1,3)] by blast
  have a: "a = demo_agreement" using l(2) demo_selectors4(2) by simp
  have "lg_revs demo_ledger4 (rv_digest demo_revision) = Some demo_revision"
    by (simp add: demo_ledger4_def demo_selectors3)
  then have r: "r = demo_revision" using l(3) a demo_agreement_sel(6) by simp
  have "read_config w = Ok demo_config" using read_ledger_config [OF w] demo_selectors4(1) by blast
  then obtain v where v: "present w key_config = Some v" "validate_config v = Ok demo_config"
    by (auto simp: read_config_def split: option.splits)
  have "channel_id demo_slot = cfg_channel demo_config" "cfg_serving demo_config" "pl_dependencies (rv_payload demo_revision) = []"
    by (simp_all add: demo_slot_def demo_config_def demo_revision_def demo_payload_def)
  then show ?thesis
    using v l(1) a r by (simp add: resolve_def resolve_at_def resolve_internal.simps)
qed

theorem resolve_is_justified_witness:
  "\<exists>w. reachable demo_sha w \<and> resolve demo_sha w demo_slot = Ok (Eligible demo_agreement demo_revision) \<and>
     revision_of demo_sha w (ag_digest demo_agreement) = Some demo_revision"
proof (rule demo_in_force)
  fix w assume w: "reachable demo_sha w" "represents w demo_ledger4" "ledger_inv demo_sha demo_ledger4"
  show ?thesis using resolve_is_justified [OF w(1) demo_resolve [OF w(2,3)]] demo_resolve [OF w(2,3)] w(1) by blast
qed

section \<open>The ledger only grows\<close>

text \<open>
  C4. Refinement. Every commit of the program is one transition of the abstract ledger between states
  that represent ledgers satisfying the invariant.
\<close>

theorem commit_is_a_ledger_step:
  assumes "reachable sha w" and "commit sha ctx rq w = Ok (res, w')"
  shows "\<exists>L M. represents w L \<and> represents w' M \<and> ledger_step sha ctx L M \<and> reachable_ledger sha L \<and>
    reachable_ledger sha M \<and> ledger_inv sha L \<and> ledger_inv sha M"
proof -
  obtain L where L: "represents w L" "reachable_ledger sha L" "ledger_inv sha L" using reachable_ledgerE [OF assms(1)] .
  obtain M where M: "ledger_step sha ctx L M" "represents w' M" "ledger_inv sha M"
    using commit_refines [OF L(1,3) assms(2)] by blast
  then show ?thesis using L reachable_ledger.step [OF L(2) M(1)] by blast
qed

theorem commit_is_a_ledger_step_witness:
  "\<exists>w w' res L M. commit demo_sha demo_ctx (Execute demo_activate) w = Ok (res, w') \<and>
     represents w L \<and> represents w' M \<and> ledger_step demo_sha demo_ctx L M"
proof (rule demo_history)
  fix w3 w4 r4 assume c: "commit demo_sha demo_ctx (Execute demo_activate) w3 = Ok (r4, w4)"
    and w: "demo_state w3 demo_ledger3 (UNIV - {js ''cmd1''} - {js ''cmd2''} - {js ''cmd3''})"
  then show ?thesis using commit_is_a_ledger_step [OF _ c] unfolding demo_state_def by blast
qed

text \<open>
  C5. Immutability. The configuration, the revisions and the decisions that a reachable state holds
  are kept unchanged by every commit.
\<close>

theorem records_are_immutable:
  assumes "reachable sha w" and "commit sha ctx rq w = Ok (res, w')"
  shows "(config_of w = Some c \<longrightarrow> config_of w' = Some c) \<and>
    (revision_of sha w i = Some r \<longrightarrow> revision_of sha w' i = Some r) \<and>
    (decision_of w i = Some d \<longrightarrow> decision_of w' i = Some d)"
proof (rule commit_ledgersE [OF assms])
  fix L M assume L: "represents w L" "ledger_inv sha L" and M: "represents w' M" "ledger_inv sha M" and e: "evolves L M"
  show ?thesis
    using evolvesD(1,2,4) [OF e] map_le_SomeD unfolding stored_ledger [OF L] stored_ledger [OF M] by metis
qed

theorem records_are_immutable_witness:
  "\<exists>w w' res. commit demo_sha demo_ctx (Execute demo_withdraw) w = Ok (res, w') \<and>
     revision_of demo_sha w' (rv_digest demo_revision) = Some demo_revision"
proof (rule demo_history)
  fix w4 w5 r5 assume c: "commit demo_sha demo_ctx (Execute demo_withdraw) w4 = Ok (r5, w5)"
    and w: "demo_state w4 demo_ledger4 (UNIV - {js ''cmd1''} - {js ''cmd2''} - {js ''cmd3''} - {js ''cmd4''})"
  have st: "reachable demo_sha w4" "represents w4 demo_ledger4" "ledger_inv demo_sha demo_ledger4"
    using w by (simp_all add: demo_state_def)
  have "revision_of demo_sha w4 (rv_digest demo_revision) = Some demo_revision"
    unfolding stored_ledger [OF st(2,3)] by (simp add: demo_ledger4_def demo_selectors3)
  then show ?thesis using records_are_immutable [OF st(1) c] c by blast
qed

text \<open>
  C6. Life cycle. A commit keeps every agreement, and changes one only by ending it: an active
  agreement becomes superseded, withdrawn or suspended, with a reason, an actor and a time, and an
  ended agreement never changes again.
\<close>

theorem agreements_only_end:
  assumes "reachable sha w" and "commit sha ctx rq w = Ok (res, w')" and "agreement_of w i = Some a"
  shows "\<exists>b. agreement_of w' i = Some b \<and> (b = a \<or> (ag_status a = Active \<and> ag_status b \<noteq> Active \<and>
    b = a\<lparr>ag_status := ag_status b, ag_reason := ag_reason b, ag_changed_by := ag_changed_by b, ag_changed_at := ag_changed_at b\<rparr> \<and>
    ag_reason b \<noteq> None \<and> ag_changed_by b \<noteq> None \<and> ag_changed_at b \<noteq> None))"
proof (rule commit_ledgersE [OF assms(1,2)])
  fix L M assume L: "represents w L" "ledger_inv sha L" and M: "represents w' M" "ledger_inv sha M" and e: "evolves L M"
  have "lg_agrs L i = Some a" using assms(3) stored_ledger(5) [OF L] by simp
  then obtain b where "lg_agrs M i = Some b" "agreement_evolves a b" using evolvesD(7) [OF e] by blast
  then show ?thesis unfolding stored_ledger [OF M] agreement_evolves_def by blast
qed

theorem agreements_only_end_witness:
  "\<exists>w w' res b. commit demo_sha demo_ctx (Execute demo_withdraw) w = Ok (res, w') \<and>
     agreement_of w (js ''agr1'') = Some demo_agreement \<and> agreement_of w' (js ''agr1'') = Some b \<and> ag_at b = js ''t1''"
proof (rule demo_history)
  fix w4 w5 r5 assume c: "commit demo_sha demo_ctx (Execute demo_withdraw) w4 = Ok (r5, w5)"
    and w: "demo_state w4 demo_ledger4 (UNIV - {js ''cmd1''} - {js ''cmd2''} - {js ''cmd3''} - {js ''cmd4''})"
  have st: "reachable demo_sha w4" "represents w4 demo_ledger4" "ledger_inv demo_sha demo_ledger4"
    using w by (simp_all add: demo_state_def)
  have a: "agreement_of w4 (js ''agr1'') = Some demo_agreement"
    unfolding stored_ledger [OF st(2,3)] by (simp add: demo_selectors4)
  obtain b where b: "agreement_of w5 (js ''agr1'') = Some b" "b = demo_agreement \<or>
      b = demo_agreement\<lparr>ag_status := ag_status b, ag_reason := ag_reason b, ag_changed_by := ag_changed_by b, ag_changed_at := ag_changed_at b\<rparr>"
    using agreements_only_end [OF st(1) c a] by blast
  have at: "ag_at demo_agreement = js ''t1''" by (simp add: demo_agreement_def new_agreement_def demo_ctx_def)
  have "ag_at b = ag_at (demo_agreement\<lparr>ag_status := ag_status b, ag_reason := ag_reason b, ag_changed_by := ag_changed_by b, ag_changed_at := ag_changed_at b\<rparr>)"
    using b(2) by (auto dest!: arg_cong [where f = ag_at])
  then show ?thesis using b(1) a c at by auto
qed

text \<open>
  C7. Epochs. Once the channel is configured the eligibility epoch never decreases, and it strictly
  increases with every commit that changes the agreement in force for some slot.
\<close>

theorem epoch_counts_eligibility:
  assumes "reachable sha w" and "commit sha ctx rq w = Ok (res, w')" and "epoch_of w = Some e"
  shows "\<exists>e'. epoch_of w' = Some e' \<and> e \<le> e' \<and>
    ((\<exists>s. wf_slot s \<and> map_option ag_id (case get_active_agreement w s of Ok x \<Rightarrow> x | Err _ \<Rightarrow> None) \<noteq>
            map_option ag_id (case get_active_agreement w' s of Ok x \<Rightarrow> x | Err _ \<Rightarrow> None)) \<longrightarrow> e < e')"
proof (rule commit_ledgersE [OF assms(1,2)])
  fix L M assume L: "represents w L" "ledger_inv sha L" and M: "represents w' M" "ledger_inv sha M" and ev: "evolves L M"
  obtain c where c: "lg_config L = Some c" "lg_epoch L = e" using assms(3) stored_ledger(6) [OF L] by auto
  have id_: "map_option ag_id (case get_active_agreement v s of Ok x \<Rightarrow> x | Err _ \<Rightarrow> None) = lg_active N s"
    if "represents v N" "ledger_inv sha N" "wf_slot s" for v N s
    using get_active_agreement_ledger [OF that] ledger_ids(4) [OF that(2)]
      active_agreement [OF ledger_invD(10) [OF that(2)], of s] by (cases "lg_active N s") auto
  have "epoch_of w' = Some (lg_epoch M)" using stored_ledger(6) [OF M] evolvesD(1) [OF ev c(1)] by simp
  moreover have "e < lg_epoch M" if "wf_slot s" "lg_active L s \<noteq> lg_active M s" for s
    using evolvesD(9) [OF ev] c that(2) by fastforce
  moreover have "e \<le> lg_epoch M" using evolvesD(8) [OF ev] c by simp
  ultimately show ?thesis using id_ [OF L] id_ [OF M] by auto
qed

theorem epoch_counts_eligibility_witness:
  "\<exists>w w' res e'. commit demo_sha demo_ctx (Execute demo_withdraw) w = Ok (res, w') \<and> epoch_of w = Some 1 \<and>
     epoch_of w' = Some e' \<and> 1 \<le> e'"
proof (rule demo_history)
  fix w4 w5 r5 assume c: "commit demo_sha demo_ctx (Execute demo_withdraw) w4 = Ok (r5, w5)"
    and w: "demo_state w4 demo_ledger4 (UNIV - {js ''cmd1''} - {js ''cmd2''} - {js ''cmd3''} - {js ''cmd4''})"
  have st: "reachable demo_sha w4" "represents w4 demo_ledger4" "ledger_inv demo_sha demo_ledger4"
    using w by (simp_all add: demo_state_def)
  have "epoch_of w4 = Some 1" unfolding stored_ledger [OF st(2,3)] by (simp add: demo_selectors4)
  then show ?thesis using epoch_counts_eligibility [OF st(1) c] c by blast
qed

section \<open>Who may change what\<close>

text \<open>Steps of an actor that is not human leave the decisions and the agreements alone.\<close>

lemma agent_step:
  "ledger_step sha ctx L M \<Longrightarrow> kind (tx_actor ctx) \<noteq> Human \<Longrightarrow>
   lg_decs M = lg_decs L \<and> lg_agrs M = lg_agrs L \<and> lg_active M = lg_active L \<and> lg_epoch M = lg_epoch L \<and>
   lg_config M = lg_config L"
  by (cases rule: ledger_step.cases) auto

text \<open>
  C8. Human authority. A commit by an actor that is not human changes no decision, no agreement, no
  agreement in force, no epoch and no configuration, whatever the command.
\<close>

theorem agents_cannot_govern:
  assumes "reachable sha w" and "commit sha ctx rq w = Ok (res, w')" and "kind (tx_actor ctx) \<noteq> Human"
  shows "decision_of w' i = decision_of w i \<and> agreement_of w' j = agreement_of w j \<and>
    (wf_slot s \<longrightarrow> get_active_agreement w' s = get_active_agreement w s) \<and> epoch_of w' = epoch_of w \<and>
    config_of w' = config_of w"
proof (rule commit_ledgersE [OF assms(1,2)])
  fix L M assume L: "represents w L" "ledger_inv sha L" and M: "represents w' M" "ledger_inv sha M"
    and step: "ledger_step sha ctx L M"
  note same = agent_step [OF step assms(3)]
  have "wf_slot s \<Longrightarrow> get_active_agreement w' s = get_active_agreement w s"
    using get_active_agreement_ledger [OF L, of s] get_active_agreement_ledger [OF M, of s] same by simp
  then show ?thesis using same unfolding stored_ledger [OF L] stored_ledger [OF M] by simp
qed

theorem agents_cannot_govern_witness:
  "\<exists>w w' res. commit demo_sha demo_agent (Execute demo_publish) w = Ok (res, w') \<and> kind (tx_actor demo_agent) \<noteq> Human \<and>
     epoch_of w' = epoch_of w \<and> agreement_of w' (js ''agr1'') = agreement_of w (js ''agr1'')"
proof (rule demo_history)
  fix w0 w1 r1 assume c: "commit demo_sha demo_agent (Execute demo_publish) w0 = Ok (r1, w1)"
    and w: "demo_state w0 demo_ledger0 UNIV"
  have st: "reachable demo_sha w0" using w by (simp add: demo_state_def)
  have k: "kind (tx_actor demo_agent) \<noteq> Human" by (simp add: demo_agent_def)
  show ?thesis using agents_cannot_govern [OF st c k] c k by blast
qed

text \<open>One transition moves the agreement in force of one slot at most.\<close>

lemma step_moves_one_slot:
  assumes "ledger_step sha ctx L M"
  shows "\<exists>s. \<forall>s'. s' \<noteq> s \<longrightarrow> lg_active M s' = lg_active L s'"
  using assms
proof (cases rule: ledger_step.cases)
  case (decided c d p pol rep)
  then show ?thesis by (intro exI [of _ "case struck_by d L of None \<Rightarrow> de_slot d | Some a \<Rightarrow> ag_slot a"])
      (auto simp: decide_def split: option.split)
next
  case (activated c aid pid p r pol ids)
  then show ?thesis by (intro exI [of _ "rv_slot r"]) simp
next
  case (ended c reason aid a pol rep st)
  then show ?thesis by (intro exI [of _ "ag_slot a"]) simp
qed auto

text \<open>
  C9. Isolation. One commit changes which agreement is in force for one slot at most.
\<close>

theorem slots_are_isolated:
  assumes "reachable sha w" and "commit sha ctx rq w = Ok (res, w')"
  shows "\<exists>s. \<forall>s'. wf_slot s' \<longrightarrow> s' \<noteq> s \<longrightarrow>
    rmap (map_option ag_id) (get_active_agreement w' s') = rmap (map_option ag_id) (get_active_agreement w s')"
proof (rule commit_ledgersE [OF assms(1,2)])
  fix L M assume L: "represents w L" "ledger_inv sha L" and M: "represents w' M" "ledger_inv sha M"
    and step: "ledger_step sha ctx L M"
  obtain s where s: "\<And>s'. s' \<noteq> s \<Longrightarrow> lg_active M s' = lg_active L s'" using step_moves_one_slot [OF step] by blast
  have id_: "rmap (map_option ag_id) (get_active_agreement v s') = Ok (lg_active N s')"
    if "represents v N" "ledger_inv sha N" "wf_slot s'" for v N s'
    using get_active_agreement_ledger [OF that] ledger_ids(4) [OF that(2)]
      active_agreement [OF ledger_invD(10) [OF that(2)], of s'] by (cases "lg_active N s'") auto
  show ?thesis using s id_ [OF L] id_ [OF M] by metis
qed

theorem slots_are_isolated_witness:
  "\<exists>w w' res s. commit demo_sha demo_ctx (Execute demo_activate) w = Ok (res, w') \<and>
     (\<forall>s'. wf_slot s' \<longrightarrow> s' \<noteq> s \<longrightarrow>
       rmap (map_option ag_id) (get_active_agreement w' s') = rmap (map_option ag_id) (get_active_agreement w s'))"
proof (rule demo_history)
  fix w3 w4 r4 assume c: "commit demo_sha demo_ctx (Execute demo_activate) w3 = Ok (r4, w4)"
    and w: "demo_state w3 demo_ledger3 (UNIV - {js ''cmd1''} - {js ''cmd2''} - {js ''cmd3''})"
  then show ?thesis using slots_are_isolated [OF _ c] unfolding demo_state_def by blast
qed

text \<open>
  C10. Published revisions form a finite web without cycles. In every reachable state the graph of
  parents and dependencies of the stored revisions is acyclic, every revision that one refers to is
  itself stored, a parent in the same slot and a dependency in the slot that the dependency names.
\<close>

theorem revision_graph_is_acyclic:
  assumes "reachable sha w"
  shows "acyclic {(i, j). \<exists>r. revision_of sha w i = Some r \<and>
      (j \<in> set (pl_parents (rv_payload r)) \<or> j \<in> dep_digest ` set (pl_dependencies (rv_payload r)))} \<and>
    (\<forall>i r. revision_of sha w i = Some r \<longrightarrow>
      (\<forall>x \<in> set (pl_parents (rv_payload r)). \<exists>q. revision_of sha w x = Some q \<and> rv_slot q = rv_slot r) \<and>
      (\<forall>x \<in> set (pl_dependencies (rv_payload r)). \<exists>q. revision_of sha w (dep_digest x) = Some q \<and> rv_slot q = dep_slot x))"
proof -
  obtain L where L: "represents w L" "ledger_inv sha L" using reachable_ledgerE [OF assms(1)] by metis
  show ?thesis
    using ledger_invD(4,5) [OF L(2)] unfolding stored_ledger(2) [OF L] refers_def inv_links_def by simp
qed

theorem revision_graph_is_acyclic_witness:
  "\<exists>w. reachable demo_sha w \<and> acyclic {(i, j). \<exists>r. revision_of demo_sha w i = Some r \<and>
      (j \<in> set (pl_parents (rv_payload r)) \<or> j \<in> dep_digest ` set (pl_dependencies (rv_payload r)))}"
proof (rule demo_in_force)
  fix w assume "reachable demo_sha w"
  then show ?thesis using revision_graph_is_acyclic by blast
qed

section \<open>Retries\<close>

text \<open>
  C11. Idempotency. A command that was committed, sent again by the same actor at any later time,
  returns the same result (in canonical form) and changes nothing.
\<close>

theorem retries_change_nothing:
  assumes "reachable sha w" and "commit sha ctx (Execute cmd) w = Ok (res, w1)" and "later sha w1 w2"
    and "assert_context ctx' = Ok ()" and "tx_actor ctx' = tx_actor ctx" and "tx_channel ctx' = tx_channel ctx"
  shows "commit sha ctx' (Execute cmd) w2 = Ok (jnorm res, w2)"
  by (rule retry_in_later_state [OF assms])

theorem retries_change_nothing_witness:
  "\<exists>w1 w2 res res1. commit demo_sha demo_ctx (Execute demo_propose) w1 = Ok (res, w2) \<and>
     commit demo_sha demo_ctx (Execute demo_propose) w2 = Ok (res1, w2)"
proof (rule demo_history)
  fix w1 w2 r2 assume c: "commit demo_sha demo_ctx (Execute demo_propose) w1 = Ok (r2, w2)"
    and w: "demo_state w1 demo_ledger1 (UNIV - {js ''cmd1''})"
  have "reachable demo_sha w1" using w by (simp add: demo_state_def)
  then show ?thesis using retries_change_nothing [OF _ c later.now demo_context(1) refl refl] c by blast
qed

text \<open>
  C12. A command id names one command. Once an organisation has used a command id, another input,
  another type or another actor under the same id is refused in every later state.
\<close>

theorem command_ids_name_one_command:
  assumes "reachable sha w" and "commit sha ctx (Execute cmd) w = Ok (res, w1)"
    and "present w (key_idempotency (org_id (tx_actor ctx)) cid) = None" and "later sha w1 w2"
    and "validate_command cmd = Ok (cid, ty, input)" and "idempotency_digest sha ty input = Ok digest"
    and "validate_command cmd' = Ok (cid, ty', input')" and "idempotency_digest sha ty' input' = Ok digest'"
    and "assert_context ctx' = Ok ()" and "org_id (tx_actor ctx') = org_id (tx_actor ctx)"
    and "tx_channel ctx' = tx_channel ctx" and "read_config w2 = Ok c" and "member c (tx_actor ctx')"
    and "digest' \<noteq> digest \<or> ty' \<noteq> ty \<or> tx_actor ctx' \<noteq> tx_actor ctx"
  shows "commit sha ctx' (Execute cmd') w2 = Err (DomainError IDEMPOTENCY_CONFLICT 409 False)"
  by (rule reuse_in_later_state [OF assms])

theorem command_ids_name_one_command_witness:
  "\<exists>w res w1. commit demo_sha demo_ctx (Execute demo_propose) w = Ok (res, w1) \<and>
     commit demo_sha demo_agent (Execute demo_propose) w1 = Err (DomainError IDEMPOTENCY_CONFLICT 409 False)"
proof (rule demo_history)
  fix w1 w2 r2 assume c: "commit demo_sha demo_ctx (Execute demo_propose) w1 = Ok (r2, w2)"
    and w: "demo_state w1 demo_ledger1 (UNIV - {js ''cmd1''})" and w2: "demo_state w2 demo_ledger2 (UNIV - {js ''cmd1''} - {js ''cmd2''})"
  have st: "reachable demo_sha w1" "present w1 (key_idempotency (org_id (tx_actor demo_ctx)) (js ''cmd2'')) = None"
    using w by (simp_all add: demo_state_def)
  obtain cid ty input digest where e: "validate_command demo_propose = Ok (cid, ty, input)"
      "idempotency_digest demo_sha ty input = Ok digest"
    using c by (auto simp: commit_iff invoke_def dest!: execute_inv)
  have "cid = js ''cmd2''" using e(1) by (auto simp: validate_command_def command_def assert_eval split: if_splits)
  moreover have "read_config w2 = Ok demo_config"
    using w2 read_ledger_config by (fastforce simp: demo_state_def)
  moreover have "tx_actor demo_agent \<noteq> tx_actor demo_ctx" "org_id (tx_actor demo_agent) = org_id (tx_actor demo_ctx)"
      "tx_channel demo_agent = tx_channel demo_ctx"
    by (simp_all add: demo_agent_def demo_ctx_def)
  ultimately show ?thesis
    using command_ids_name_one_command [OF st(1) c _ later.now e e demo_context(3) _ _ _ demo_member(4)] st(2) c by blast
qed

section \<open>Commands that must be accepted\<close>

text \<open>Representatives are configured human members.\<close>

lemma representative_member:
  assumes c: "wf_config c" and pol: "policy_of c i v = Some pol" and rep: "rep \<in> set (pol_reps pol)"
    and actor: "names_actor rep a" "kind a = Human"
  shows "member c a"
proof -
  have "pol \<in> set (cfg_policies c)" using policy_of_Some [OF pol] by blast
  then have "human_representatives (cfg_identities c) pol" using c by (simp add: wf_config_def list_all_iff)
  then obtain x where x: "find (\<lambda>i. ident_org i = rep_org rep \<and> ident_actor i = rep_actor rep) (cfg_identities c) = Some x"
      "ident_kind x = Human"
    using rep by (auto simp: human_representatives_def list_all_iff split: option.splits)
  have "\<exists>y. find (\<lambda>i. ident_org i = org_id a \<and> ident_actor i = actor_id a \<and> ident_kind i = kind a) (cfg_identities c) = Some y"
  proof (rule ccontr)
    assume "\<nexists>y. find (\<lambda>i. ident_org i = org_id a \<and> ident_actor i = actor_id a \<and> ident_kind i = kind a) (cfg_identities c) = Some y"
    then have "\<not> (\<exists>i. i \<in> set (cfg_identities c) \<and> ident_org i = org_id a \<and> ident_actor i = actor_id a \<and> ident_kind i = kind a)"
      by (auto simp: find_None_iff)
    then show False using x actor by (auto simp: find_Some_iff names_actor_def)
  qed
  then show ?thesis by (auto simp: member_def configured_identity_def)
qed

text \<open>
  C13. Exit is always possible. A human representative of the policy under which an agreement is in
  force can withdraw it in every reachable state with a command id that is new, and afterwards the
  slot has no agreement in force.
\<close>

theorem representatives_can_withdraw:
  assumes sha: "hex_sha sha" and w: "reachable sha w" and s: "wf_slot s"
    and a: "get_active_agreement w s = Ok (Some a)" and c: "config_of w = Some c"
    and pol: "policy_of c (ag_policy_id a) (ag_policy_version a) = Some pol" and rep: "rep \<in> set (pol_reps pol)"
    and ctx: "assert_context ctx = Ok ()" "tx_channel ctx = cfg_channel c" "names_actor rep (tx_actor ctx)" "kind (tx_actor ctx) = Human"
    and cmd: "is_id cid" "present w (key_idempotency (org_id (tx_actor ctx)) cid) = None" "text_ok 1000 reason"
    and epoch: "epoch_of w = Some e" "e < max_safe"
  shows "\<exists>res w'. commit sha ctx (Execute (command cid ''withdraw'' (status_input (ag_id a) reason))) w = Ok (res, w') \<and>
    get_active_agreement w' s = Ok None \<and> epoch_of w' = Some (e + 1)"
proof -
  obtain L where L: "represents w L" "ledger_inv sha L" using reachable_ledgerE [OF w] by metis
  have c: "lg_config L = Some c" using c stored_ledger(1) [OF L] by simp
  have a: "lg_agrs L (ag_id a) = Some a" "ag_status a = Active" "ag_slot a = s"
    using active_agreement_iff [OF L s] a by blast+
  have e: "lg_epoch L = e" using epoch(1) stored_ledger(6) [OF L] c by simp
  have wf: "wf_ctx ctx" by (rule assert_context_wf [OF ctx(1)])
  have mem: "member c (tx_actor ctx)" by (rule representative_member [OF ledger_wf(1) [OF L(2) c] pol rep ctx(3,4)])
  let ?L = "end_agreement ctx Withdrawn reason a L"
  have "ledger_step sha ctx L ?L"
    by (rule ledger_step.ended [OF c ctx(4) mem wf cmd(3) a(1,2) pol rep ctx(3)]) (use e epoch in simp_all)
  then have I': "ledger_inv sha ?L" by (rule ledger_step_inv [OF _ L(2)])
  have "represents (view (begin_tx w)) L" using L by simp
  then obtain t res where t: "execute_status_change ctx c (status_input (ag_id a) reason) Withdrawn (begin_tx w) = Ok (res, t)"
      "canon_ok res 1" "represents (view t) ?L"
    using status_live [OF _ L(2) c ctx(4) mem wf cmd(3) a(1,2) pol rep ctx(3)] e epoch by blast
  have id_: "is_id (ag_id a)" using ledger_wf(5) [OF L(2) a(1)] by (simp add: wf_agreement_def)
  have run: "perform_command sha ctx c (js ''withdraw'') (obj [(''agreement_id'', JStr (ag_id a)), (''reason'', JStr reason)]) (begin_tx w) = Ok (res, t)"
    using t(1) by (simp add: perform_command_def status_input_def)
  obtain w' where w': "commit sha ctx (Execute (command cid ''withdraw'' (status_input (ag_id a) reason))) w = Ok (res, w')" "represents w' ?L"
    using commit_command [OF sha L c ctx(1,2) mem cmd(1) _ _ cmd(2) run t(2,3)] id_ cmd(3)
    by (auto simp: canon_ok_obj text_ok_js text_ok_valid status_input_def)
  have "get_active_agreement w' s = Ok None"
    using get_active_agreement_ledger [OF w'(2) I' s] a(3) by simp
  moreover have "epoch_of w' = Some (e + 1)" using stored_ledger(6) [OF w'(2) I'] c e by simp
  ultimately show ?thesis using w'(1) by blast
qed

theorem representatives_can_withdraw_witness:
  "\<exists>w w' res. get_active_agreement w demo_slot = Ok (Some demo_agreement) \<and>
     commit demo_sha demo_ctx (Execute demo_withdraw) w = Ok (res, w') \<and> get_active_agreement w' demo_slot = Ok None"
proof (rule demo_in_force)
  fix w assume w: "reachable demo_sha w" "represents w demo_ledger4" "ledger_inv demo_sha demo_ledger4"
    and st: "demo_state w demo_ledger4 (UNIV - {js ''cmd1''} - {js ''cmd2''} - {js ''cmd3''} - {js ''cmd4''})"
  note act = demo_get_active [OF w(2,3)] and stored = stored_ledger [OF w(2,3)]
  have c: "config_of w = Some demo_config" "epoch_of w = Some 1" unfolding stored by (simp_all add: demo_selectors4)
  have pol: "policy_of demo_config (ag_policy_id demo_agreement) (ag_policy_version demo_agreement) = Some demo_policy"
    using canon_ok_demo_config_1 demo_agreement_sel by simp
  have rep: "demo_rep \<in> set (pol_reps demo_policy)" by (simp add: demo_policy_def)
  have new: "present w (key_idempotency (org_id (tx_actor demo_ctx)) (js ''cmd5'')) = None"
    using st by (simp add: demo_state_def)
  have human: "kind (tx_actor demo_ctx) = Human" by (simp add: demo_ctx_def)
  show ?thesis
    using representatives_can_withdraw [OF hex_demo_sha w(1) wf_slot_demo act c(1) pol rep demo_context(1) demo_channel(1)
        demo_represented(2) human _ new text_ok_demo(8) c(2)] act demo_agreement_sel(1)
    by (auto simp: max_safe_def)
qed

text \<open>A seat whose latest decision approves is an approval of the proposal as it stands.\<close>

lemma approves_intro:
  assumes I: "ledger_inv sha L" and p: "lg_props L (pr_id p) = Some p" and c: "lg_config L = Some c"
    and rep: "representative_of pol role = Some r"
    and l: "lg_latest L (rep_seat p r role) = Some i" and d: "lg_decs L i = Some d" "de_kind d = Approve"
  shows "approves L pol p role i"
proof -
  have "\<exists>d'. lg_decs L i = Some d' \<and> seat_of d' = rep_seat p r role"
    using ledger_invD(8) [OF I] l unfolding inv_latest_def by blast
  then have seat: "seat_of d = rep_seat p r role" using d(1) by simp
  obtain q where q: "lg_props L (de_proposal d) = Some q" "decision_ok c q d" "de_id d = i"
    using ledger_invD(7) [OF I] d(1) c by (fastforce simp: inv_decs_def)
  have "q = p" using q(1) p seat by (simp add: seat_of_def rep_seat_def)
  then have "approval_matches_proposal d p"
    using q(2) seat by (simp add: approval_matches_proposal_def decision_ok_def decision_binds_proposal_def seat_of_def rep_seat_def)
  then show ?thesis using rep l d q(3) seat by (auto simp: approves_def seat_of_def rep_seat_def)
qed

lemma approves_role: "approves L pol p role i \<Longrightarrow> approves L pol p role' i \<Longrightarrow> role = role'"
  by (auto simp: approves_def)

lemma approvals_exist:
  "distinct roles \<Longrightarrow> (\<And>role. role \<in> set roles \<Longrightarrow> \<exists>i. approves L pol p role i) \<Longrightarrow>
   \<exists>ids. list_all2 (approves L pol p) roles ids \<and> distinct ids"
proof (induction roles)
  case (Cons role roles)
  then obtain ids where ids: "list_all2 (approves L pol p) roles ids" "distinct ids" by auto
  obtain i where i: "approves L pol p role i" using Cons.prems(2) by auto
  have "i \<notin> set ids"
  proof
    assume "i \<in> set ids"
    then obtain k where k: "k < length ids" "ids ! k = i" by (auto simp: in_set_conv_nth)
    then have "roles ! k \<in> set roles" "approves L pol p (roles ! k) i"
      using ids(1) by (auto simp: list_all2_conv_all_nth)
    then show False using approves_role [OF i] Cons.prems(1) by auto
  qed
  then show ?case using ids i by (intro exI [of _ "i # ids"]) auto
qed simp

text \<open>Consensus, with the slot free for the revision and its dependencies eligible, is accepted.\<close>

lemma activation_accepted:
  assumes sha: "hex_sha sha" and w: "reachable sha w" and c: "config_of w = Some c"
    and p: "proposal_of w pid = Some p" "pr_status p = Open" and r: "revision_of sha w (pr_digest p) = Some r"
    and pol: "policy_of c (pr_policy_id p) (pr_policy_version p) = Some pol"
    and approved: "\<And>role. role \<in> set (pol_roles pol) \<Longrightarrow> \<exists>rep d. representative_of pol role = Some rep \<and>
      present w (key_latest_decision pid (pr_policy_version p) role (rep_org rep) (rep_actor rep)) =
        Some (decision_pointer (de_id d)) \<and> decision_of w (de_id d) = Some d \<and> de_kind d = Approve"
    and cur: "get_active_agreement w (pr_slot p) = Ok current" "case current of None \<Rightarrow> True | Some a \<Rightarrow> ag_digest a \<noteq> pr_digest p"
    and deps: "dependency_eligible sha w r 0 {} = Ok ()"
    and ctx: "assert_context ctx = Ok ()" "tx_channel ctx = cfg_channel c" "member c (tx_actor ctx)" "kind (tx_actor ctx) = Human"
    and cmd: "is_id cid" "present w (key_idempotency (org_id (tx_actor ctx)) cid) = None"
    and aid: "is_id aid" "agreement_of w aid = None" and epoch: "epoch_of w = Some e" "e < max_safe"
  shows "\<exists>res w' a. commit sha ctx (Execute (command cid ''activate'' (activate_input pid aid (map_option ag_id current)))) w = Ok (res, w') \<and>
    get_active_agreement w' (pr_slot p) = Ok (Some a) \<and> ag_id a = aid \<and> ag_digest a = pr_digest p"
proof -
  obtain L where L: "represents w L" "ledger_inv sha L" using reachable_ledgerE [OF w] by metis
  note stored = stored_ledger [OF L]
  have c: "lg_config L = Some c" and p': "lg_props L pid = Some p" and r: "lg_revs L (pr_digest p) = Some r"
    and aid': "lg_agrs L aid = None" and e: "lg_epoch L = e"
    using c p(1) r aid(2) epoch(1) unfolding stored by auto
  note pok = props_ok [OF ledger_invD(6) [OF L(2)] p' c]
  have pid: "pr_id p = pid" "is_id pid" using pok by (auto simp: wf_proposal_def)
  have slot: "rv_slot r = pr_slot p" "pol_slot pol = pr_slot p" using pok r pol by (auto simp: proposal_ok_def)
  have ws: "wf_slot (pr_slot p)" using pok by (simp add: wf_proposal_def)
  have rd: "rv_digest r = pr_digest p" by (rule ledger_ids(1) [OF L(2) r])
  have wfpol: "wf_policy pol" by (rule policy_of_wf [OF ledger_wf(1) [OF L(2) c] pol])
  then have "distinct (pol_roles pol)" using unique_ids by (auto simp: wf_policy_def)
  moreover have "\<exists>i. approves L pol p role i" if role: "role \<in> set (pol_roles pol)" for role
  proof -
    obtain rep d where d: "representative_of pol role = Some rep"
      "present w (key_latest_decision pid (pr_policy_version p) role (rep_org rep) (rep_actor rep)) = Some (decision_pointer (de_id d))"
      "decision_of w (de_id d) = Some d" "de_kind d = Approve" using approved [OF role] by blast
    have "lg_latest L (rep_seat p rep role) = Some (de_id d)"
      using d(2) representsD(8) [OF L(1)] pid by (auto simp: rep_seat_def decision_pointer_def obj_def)
    moreover have "lg_decs L (de_id d) = Some d" using d(3) unfolding stored .
    ultimately show ?thesis using approves_intro [OF L(2) _ c d(1)] p' pid d(4) by blast
  qed
  ultimately obtain ids where ids: "list_all2 (approves L pol p) (pol_roles pol) ids" "distinct ids"
    using approvals_exist by blast
  have x: "current = Option.bind (lg_active L (pr_slot p)) (lg_agrs L)"
    using cur(1) get_active_agreement_ledger [OF L ws] by simp
  have exp: "lg_active L (pr_slot p) = map_option ag_id current"
    using active_agreement [OF ledger_invD(10) [OF L(2)], of "pr_slot p"] ledger_ids(4) [OF L(2)] x
    by (cases "lg_active L (pr_slot p)") auto
  have other: "\<not> in_force L (pr_slot p) (pr_digest p)"
    using cur(2) x by (auto simp: in_force_def)
  have wf: "wf_ctx ctx" by (rule assert_context_wf [OF ctx(1)])
  let ?a = "new_agreement ctx c aid p r pol ids" and ?in = "activate_input pid aid (map_option ag_id current)"
  let ?L = "activate ctx ?a p L"
  have R: "represents (view (begin_tx w)) L" "dependency_eligible sha (view (begin_tx w)) r 0 {} = Ok ()" using L deps by simp_all
  obtain t res where t: "execute_activate sha ctx c ?in (begin_tx w) = Ok (res, t)" "canon_ok res 1" "represents (view t) ?L"
    using activate_live [OF R(1) L(2) c ctx(4,3) wf aid(1) aid' p' p(2) r pol _ _ ids R(2)] exp other slot rd e epoch by auto
  have run: "perform_command sha ctx c (js ''activate'') ?in (begin_tx w) = Ok (res, t)"
    using t(1) by (simp add: perform_command_def)
  have cur_id: "pred_option is_id (map_option ag_id current)"
  proof (cases current)
    case (Some b)
    then have "lg_agrs L (ag_id b) = Some b" using cur(1) active_agreement_iff [OF L ws] by blast
    then show ?thesis using Some ledger_wf(5) [OF L(2)] by (auto simp: wf_agreement_def)
  qed simp
  have "canon_ok (case map_option ag_id current of None \<Rightarrow> JNull | Some i \<Rightarrow> JStr i) 2"
    using cur_id by (cases current) auto
  then have canon: "canon_ok ?in 1" using pid aid(1) by (auto simp: canon_ok_obj activate_input_def numeral_2_eq_2)
  obtain w' where w': "commit sha ctx (Execute (command cid ''activate'' ?in)) w = Ok (res, w')" "represents w' ?L"
    using commit_command [OF sha L c ctx(1,2,3) cmd(1) _ canon [unfolded activate_input_def] cmd(2) run [unfolded activate_input_def] t(2,3)]
    unfolding activate_input_def by (auto simp: text_ok_js)
  have "activatable ctx c aid p r pol ids L"
    using c wf aid(1) aid' p' p(2) r pol slot ids e epoch pid by (simp add: activatable_def)
  then have I': "ledger_inv sha ?L" by (rule activate_inv [OF L(2)])
  have "get_active_agreement w' (pr_slot p) = Ok (Some ?a)"
    using get_active_agreement_ledger [OF w'(2) I' ws] by (simp add: lg_agrs_activate slot)
  then show ?thesis using w'(1) rd by auto
qed

text \<open>An activation that is accepted has passed both remaining checks.\<close>

lemma activate_check_facts:
  assumes "activate_check sha ctx c (activate_input pid aid expected) w = Ok (aid', p, r, pol, current, ids)"
  shows "proposal_of w pid = Some p \<and> revision_of sha w (pr_digest p) = Some r \<and>
    get_active_agreement w (pr_slot p) = Ok current \<and> dependency_eligible sha w r 0 {} = Ok () \<and>
    (case current of None \<Rightarrow> True | Some a \<Rightarrow> ag_digest a \<noteq> rv_digest r)"
  using assms
  by (auto simp: activate_check_def activate_input_def assert_eval read_required_def stored_def split: option.splits)

lemma activation_checked:
  assumes ex: "commit sha ctx (Execute (command cid ''activate'' (activate_input pid aid expected))) w = Ok (res, w')"
    and new: "present w (key_idempotency (org_id (tx_actor ctx)) cid) = None"
  obtains aid' p r pol current ids c where
    "activate_check sha ctx c (activate_input pid aid expected) w = Ok (aid', p, r, pol, current, ids)"
proof -
  obtain t where t: "execute sha ctx (command cid ''activate'' (activate_input pid aid expected)) (begin_tx w) = Ok (res, t)"
    using ex by (auto simp: commit_iff invoke_def)
  obtain i ty input c digest where e: "assert_context ctx = Ok ()"
      "validate_command (command cid ''activate'' (activate_input pid aid expected)) = Ok (i, ty, input)"
      "read_config (view (begin_tx w)) = Ok c" "tx_channel ctx = cfg_channel c" "member c (tx_actor ctx)"
      "idempotency_digest sha ty input = Ok digest"
    using execute_inv [OF t] by blast
  have i: "i = cid" "ty = js ''activate''" "input = activate_input pid aid expected"
    using e(2) by (auto simp: validate_command_def command_def assert_eval split: if_splits)
  obtain res' t' where "perform_command sha ctx c ty input (begin_tx w) = Ok (res', t')"
    using t new unfolding execute_entered [OF e] i by auto
  then have "execute_activate sha ctx c (activate_input pid aid expected) (begin_tx w) = Ok (res', t')"
    unfolding i by (simp add: perform_command_def)
  then show thesis using that by (auto simp: execute_activate_def)
qed

text \<open>
  C14. Consensus suffices. Take an open proposal for which the latest decision of every required
  representative approves it, and any human member who names the agreement in force, an unused agreement
  id and a new command id, while the epoch is below the largest safe integer. The command \<open>activate\<close> puts the proposed revision in force for its slot
  exactly if the revision is not in force already and the dependencies that it requires to be active
  are eligible: beyond consensus, nothing else can block it.
\<close>

theorem approved_proposals_can_be_activated:
  assumes sha: "hex_sha sha" and w: "reachable sha w" and c: "config_of w = Some c"
    and p: "proposal_of w pid = Some p" "pr_status p = Open" and r: "revision_of sha w (pr_digest p) = Some r"
    and pol: "policy_of c (pr_policy_id p) (pr_policy_version p) = Some pol"
    and approved: "\<And>role. role \<in> set (pol_roles pol) \<Longrightarrow> \<exists>rep d. representative_of pol role = Some rep \<and>
      present w (key_latest_decision pid (pr_policy_version p) role (rep_org rep) (rep_actor rep)) =
        Some (decision_pointer (de_id d)) \<and> decision_of w (de_id d) = Some d \<and> de_kind d = Approve"
    and cur: "get_active_agreement w (pr_slot p) = Ok current"
    and ctx: "assert_context ctx = Ok ()" "tx_channel ctx = cfg_channel c" "member c (tx_actor ctx)" "kind (tx_actor ctx) = Human"
    and cmd: "is_id cid" "present w (key_idempotency (org_id (tx_actor ctx)) cid) = None"
    and aid: "is_id aid" "agreement_of w aid = None" and epoch: "epoch_of w = Some e" "e < max_safe"
  shows "(\<exists>res w' a. commit sha ctx (Execute (command cid ''activate'' (activate_input pid aid (map_option ag_id current)))) w = Ok (res, w') \<and>
      get_active_agreement w' (pr_slot p) = Ok (Some a) \<and> ag_id a = aid \<and> ag_digest a = pr_digest p) \<longleftrightarrow>
    (case current of None \<Rightarrow> True | Some a \<Rightarrow> ag_digest a \<noteq> pr_digest p) \<and> dependency_eligible sha w r 0 {} = Ok ()"
    (is "?accepted \<longleftrightarrow> ?new \<and> ?deps")
proof
  assume ?accepted
  then obtain res w' where ex: "commit sha ctx (Execute (command cid ''activate'' (activate_input pid aid (map_option ag_id current)))) w = Ok (res, w')"
    by blast
  obtain aid' p' r' pol' current' ids c' where
    check: "activate_check sha ctx c' (activate_input pid aid (map_option ag_id current)) w = Ok (aid', p', r', pol', current', ids)"
    by (rule activation_checked [OF ex cmd(2)])
  then have "p' = p" "r' = r" "current' = current" using activate_check_facts [OF check] p(1) r cur by auto
  moreover obtain L where "represents w L" "ledger_inv sha L" using reachable_ledgerE [OF w] by metis
  then have "rv_digest r = pr_digest p" using r ledger_ids(1) stored_ledger(2) by metis
  ultimately show "?new \<and> ?deps" using activate_check_facts [OF check] by (auto split: option.splits)
next
  assume "?new \<and> ?deps"
  then show ?accepted
    using activation_accepted [OF sha w c p r pol approved cur _ _ ctx cmd aid epoch] by blast
qed

theorem approved_proposals_can_be_activated_witness:
  "\<exists>w w' res a. commit demo_sha demo_ctx (Execute demo_activate) w = Ok (res, w') \<and>
     get_active_agreement w' demo_slot = Ok (Some a) \<and> ag_digest a = rv_digest demo_revision"
proof (rule demo_history)
  fix w3 w4 r4
  assume st: "demo_state w3 demo_ledger3 (UNIV - {js ''cmd1''} - {js ''cmd2''} - {js ''cmd3''})"
  have w: "reachable demo_sha w3" "represents w3 demo_ledger3" "ledger_inv demo_sha demo_ledger3"
    and new: "present w3 (key_idempotency (org_id (tx_actor demo_ctx)) (js ''cmd4'')) = None"
    using st by (simp_all add: demo_state_def)
  note stored = stored_ledger [OF w(2,3)]
  have p: "pr_digest demo_decided = rv_digest demo_revision" "pr_status demo_decided = Open" "pr_slot demo_decided = demo_slot"
      "policy_of demo_config (pr_policy_id demo_decided) (pr_policy_version demo_decided) = Some demo_policy"
    using canon_ok_demo_config_1
    by (simp_all add: demo_decided_def demo_proposal_def new_proposal_def) (simp add: demo_policy_def)
  have c: "config_of w3 = Some demo_config" "proposal_of w3 (js ''prop1'') = Some demo_decided" "epoch_of w3 = Some 0"
      "agreement_of w3 (js ''agr1'') = None" "decision_of w3 (js ''dec1'') = Some demo_decision"
      "revision_of demo_sha w3 (pr_digest demo_decided) = Some demo_revision"
    unfolding stored by (simp_all add: demo_selectors3 p(1))
  have cur: "get_active_agreement w3 (pr_slot demo_decided) = Ok None"
    using get_active_agreement_ledger [OF w(2,3) wf_slot_demo] demo_selectors3(7) p(3) by simp
  have seat: "present w3 (key_latest_decision (js ''prop1'') (pr_policy_version demo_decided) (js ''role1'') (rep_org demo_rep) (rep_actor demo_rep)) =
      Some (decision_pointer (js ''dec1''))"
    using demo_selectors3(5) representsD(8) [OF w(2)]
    by (simp add: rep_seat_def) (simp add: demo_decided_def demo_proposal_def new_proposal_def)
  have dec: "de_id demo_decision = js ''dec1''" "de_kind demo_decision = Approve" by (simp_all add: demo_decision_def)
  have approved: "\<exists>rep d. representative_of demo_policy role = Some rep \<and>
      present w3 (key_latest_decision (js ''prop1'') (pr_policy_version demo_decided) role (rep_org rep) (rep_actor rep)) =
        Some (decision_pointer (de_id d)) \<and> decision_of w3 (de_id d) = Some d \<and> de_kind d = Approve"
    if "role \<in> set (pol_roles demo_policy)" for role
  proof -
    have "role = js ''role1''" using that by (simp add: demo_policy_def)
    then show ?thesis using demo_represented(1) seat c(5) dec by metis
  qed
  have deps: "dependency_eligible demo_sha w3 demo_revision 0 {} = Ok ()"
    by (rule dependency_leaf) (simp add: demo_revision_def demo_payload_def)
  have human: "kind (tx_actor demo_ctx) = Human" by (simp add: demo_ctx_def)
  show ?thesis
    using approved_proposals_can_be_activated [OF hex_demo_sha w(1) c(1,2) p(2) c(6) p(4) approved cur demo_context(1)
        demo_channel(1) demo_member(2) human _ new _ c(4,3)] p deps
    by (auto simp: max_safe_def)
qed

section \<open>Resolution never finds corruption\<close>

text \<open>The reasons that say why nothing is in force, as opposed to those that report a damaged store.\<close>

inductive benign :: "string \<Rightarrow> bool" where
  no_agreement: "benign ''NO_ACTIVE_AGREEMENT''"
| other_channel: "benign ''SCOPE_MISMATCH''"
| too_deep: "benign ''DEPENDENCY_DEPTH''"
| cyclic: "benign ''DEPENDENCY_CYCLE''"
| too_many: "benign ''DEPENDENCY_NODE_LIMIT''"
| other_revision: "benign ''DEPENDENCY_REVISION_MISMATCH''"
| dependency: "benign why \<Longrightarrow> benign (''DEPENDENCY_INELIGIBLE:'' @ why)"

lemma resolve_dependencies_benign:
  assumes "\<And>d b. d \<in> set ds \<Longrightarrow> \<exists>x b'. f (dep_slot d) b = Ok (x, b') \<and> (\<forall>why. x = Ineligible why \<longrightarrow> benign why)"
  shows "\<exists>x b'. resolve_dependencies f ds b = Ok (x, b') \<and> (\<forall>why. x = Some why \<longrightarrow> benign why)"
  using assms
proof (induction ds arbitrary: b)
  case (Cons d ds)
  note IH = Cons.IH [OF Cons.prems]
  obtain x b' where x: "f (dep_slot d) b = Ok (x, b')" "\<forall>why. x = Ineligible why \<longrightarrow> benign why"
    using Cons.prems [of d b] by auto
  show ?case
  proof (cases "dep_enforcement d = RequiresActive")
    case True
    show ?thesis
    proof (cases x)
      case (Ineligible why)
      then have "benign (''DEPENDENCY_INELIGIBLE:'' @ why)" using x(2) benign.dependency by blast
      then show ?thesis using True x(1) Ineligible by simp
    qed (use True x IH benign.other_revision in auto)
  qed (use IH in auto)
qed simp

lemma resolve_internal_benign:
  assumes R: "represents w L" and I: "ledger_inv sha L" and c: "lg_config L = Some c"
  shows "wf_slot s \<Longrightarrow> \<exists>x b'. resolve_internal sha w c s seen depth b = Ok (x, b') \<and> (\<forall>why. x = Ineligible why \<longrightarrow> benign why)"
proof (induction "9 - depth" arbitrary: s seen depth b rule: less_induct)
  case less
  note benign = benign.no_agreement benign.other_channel benign.too_deep benign.cyclic benign.too_many
  show ?case
  proof (cases "channel_id s = cfg_channel c \<and> depth \<le> 8 \<and> slot_key s \<notin> seen \<and> Suc b \<le> 256")
    case True
    show ?thesis
    proof (cases "lg_active L s")
      case None
      then have "resolve_local sha w c s = Ok (Ineligible ''NO_ACTIVE_AGREEMENT'')"
        by (rule resolve_local_none [OF R less.prems])
      then show ?thesis using True less.prems benign(1)
        by (simp add: resolve_internal.simps [of sha w c s seen depth b])
    next
      case (Some i)
      then obtain a r where own: "resolve_local sha w c s = Ok (Eligible a r)" and r: "lg_revs L (ag_digest a) = Some r"
        using resolve_local_active [OF R I less.prems c] by blast
      have "wf_slot (dep_slot d)" if "d \<in> set (pl_dependencies (rv_payload r))" for d
        using ledger_wf(2) [OF I r] that by (auto simp: wf_revision_def wf_payload_def wf_dependency_def list_all_iff)
      then obtain x b' where x: "resolve_dependencies (\<lambda>s' b'. resolve_internal sha w c s' (insert (slot_key s) seen) (Suc depth) b')
          (pl_dependencies (rv_payload r)) (Suc b) = Ok (x, b')" "\<forall>why. x = Some why \<longrightarrow> benign why"
        using less.hyps [of "Suc depth"] True resolve_dependencies_benign [of "pl_dependencies (rv_payload r)"
          "\<lambda>s' b'. resolve_internal sha w c s' (insert (slot_key s) seen) (Suc depth) b'" "Suc b"]
        by auto
      have "resolve_internal sha w c s seen depth b =
          Ok (case x of None \<Rightarrow> Eligible a r | Some why \<Rightarrow> Ineligible why, b')"
        using True less.prems own x(1)
        by (cases x) (simp_all add: resolve_internal.simps [of sha w c s seen depth b])
      then show ?thesis using x(2) by (cases x) auto
    qed
  qed (use less.prems benign in \<open>auto simp: resolve_internal.simps [of sha w c s seen depth b]\<close>)
qed

text \<open>
  C15. Total resolution. In every reachable state \<open>resolve\<close> terminates with a result for every
  well-formed slot, and if nothing is eligible the reason is one of the domain (nothing active, frozen,
  another channel, a dependency that is not active or too far), never a report of corrupt state.
\<close>

theorem resolve_reports_no_corruption:
  assumes "reachable sha w" and "wf_slot s"
  shows "\<exists>x. resolve sha w s = Ok x \<and> (\<forall>why. x = Ineligible why \<longrightarrow>
    benign why \<or> why = ''CONFIG_NOT_BOOTSTRAPPED'' \<or> why = ''SERVING_FROZEN'')"
proof -
  obtain L where L: "represents w L" "ledger_inv sha L" using reachable_ledgerE [OF assms(1)] by metis
  show ?thesis
  proof (cases "lg_config L")
    case None
    then have "present w key_config = None" using representsD(1) [OF L(1)] by simp
    then show ?thesis using assms(2) by (simp add: resolve_def resolve_at_def)
  next
    case (Some c)
    then have "present w key_config = Some (enc_config c)" "validate_config (enc_config c) = Ok c"
      using representsD(1) [OF L(1)] ledger_wf(1) [OF L(2)] by (simp_all add: config.dec_enc)
    moreover obtain x b where "resolve_internal sha w c s {} 0 0 = Ok (x, b)" "\<forall>why. x = Ineligible why \<longrightarrow> benign why"
      using resolve_internal_benign [OF L Some assms(2)] by blast
    ultimately show ?thesis using assms(2) by (cases "cfg_serving c") (auto simp: resolve_def resolve_at_def)
  qed
qed

theorem resolve_reports_no_corruption_witness:
  "\<exists>w x. reachable demo_sha w \<and> resolve demo_sha w demo_slot = Ok x"
proof (rule demo_in_force)
  fix w assume "reachable demo_sha w"
  then show ?thesis using resolve_reports_no_corruption [OF _ wf_slot_demo] by blast
qed

end
