(* ===== verification/StoredOutcomes.thy ===== *)
theory StoredOutcomes
  imports StoredCheck PlainWrites
begin

text \<open>
  The store of the engine as a whole: every key that a commit writes is that of a record, of an outcome or of a
  fence, and what it writes passes the storage layer's validation, except for the size limit of a write.
\<close>

section \<open>What the handlers write\<close>

text \<open>A write that is as the storage layer wants it; a policy must also have a canonical text to be compared by.\<close>

definition recorded :: "jstr \<Rightarrow> json \<Rightarrow> bool" where
  "recorded k v \<longleftrightarrow> (record_key k \<and> ((\<exists>i z. k = key_policy i z) \<longrightarrow> canon_ok v 0)) \<or> fence_write k v \<or> idempotency_write k v"

definition recorded_world :: "world \<Rightarrow> bool" where
  "recorded_world w \<longleftrightarrow> (\<forall>k v. w k = Some v \<longrightarrow> recorded k v)"

text \<open>The result of a command says how it ended.\<close>

definition has_status :: "json \<Rightarrow> bool" where
  "has_status v \<longleftrightarrow> string_such (\<lambda>_. True) (fld v ''status'')"

lemma recorded_put [intro!]: "recorded_world (view t) \<Longrightarrow> recorded k v \<Longrightarrow> recorded_world (view (put k v t))"
  by (simp add: recorded_world_def)

lemma not_policy_key [simp]:
  "key_config \<noteq> key_policy i z" "key_eligibility_epoch \<noteq> key_policy i z" "key_revision j \<noteq> key_policy i z"
  "key_revision_id j \<noteq> key_policy i z" "key_proposal j \<noteq> key_policy i z" "key_review_counter j \<noteq> key_policy i z"
  "key_decision j \<noteq> key_policy i z" "decision_latest_key d \<noteq> key_policy i z" "key_agreement j \<noteq> key_policy i z"
  "key_active_slot s \<noteq> key_policy i z"
  by (simp_all add: key_defs decision_latest_key_def)

lemma recorded_records [simp]:
  "recorded key_config v" "recorded key_eligibility_epoch v" "recorded (key_revision i) v" "recorded (key_revision_id i) v"
  "canon_ok v 0 \<Longrightarrow> recorded (key_policy i z) v" "recorded (key_proposal i) v" "recorded (key_review_counter i) v"
  "recorded (key_decision i) v" "recorded (decision_latest_key d) v" "recorded (key_agreement i) v"
  "wf_slot s \<Longrightarrow> recorded (key_active_slot s) v"
  by (simp_all add: recorded_def record_key.intros decision_latest_key_def) (simp_all flip: decision_latest_key_def)

lemma proposal_slot: "read_required validate_proposal (fail_as code n retry) w k = Ok p \<Longrightarrow> wf_slot (pr_slot p)"
  using validate_proposal_wf by (auto simp: read_required_def wf_proposal_def split: option.splits)

lemma agreement_slot: "read_required validate_agreement (fail_as code n retry) w k = Ok a \<Longrightarrow> wf_slot (ag_slot a)"
  using validate_agreement_wf by (auto simp: read_required_def wf_agreement_def split: option.splits)

interpretation plain_view: plain_writes "\<lambda>t. settled_world (view t)"
  by unfold_locales (auto simp: settled_world_def present_def split: option.splits if_splits)

lemma epoch_recorded: "increment_epoch t = Ok (n, t') \<Longrightarrow> recorded_world (view t) \<Longrightarrow> recorded_world (view t')"
  by (auto simp: increment_epoch_def split: option.splits if_splits)

lemma publish_recorded:
  "execute_publish sha ctx c input t = Ok (res, t') \<Longrightarrow> recorded_world (view t) \<Longrightarrow> recorded_world (view t') \<and> has_status res"
  by (auto simp: execute_publish_def publish_result_def has_status_def simp del: view_put split: if_splits)

lemma propose_recorded:
  "execute_propose sha ctx c input t = Ok (res, t') \<Longrightarrow> recorded_world (view t) \<Longrightarrow> recorded_world (view t') \<and> has_status res"
  by (auto simp: execute_propose_def has_status_def simp del: view_put)

lemma suspend_recorded:
  assumes "suspend_active_agreement ctx s x e t = Ok (a, t')" and "recorded_world (view t)" and "wf_slot s"
  shows "recorded_world (view t')"
proof -
  obtain active where active: "get_active_agreement (view t) s = Ok active"
    using assms(1) by (auto simp: suspend_active_agreement_def)
  show ?thesis
  proof (cases "t' = t")
    case False
    then obtain b n where "increment_epoch (put (key_active_slot s) no_agreement (put (key_agreement (ag_id b))
        (jnorm (enc_agreement (change_status ctx Suspended x b))) t)) = Ok (n, t')"
      using assms(1) active by (cases active) (auto simp: suspend_active_agreement_def Let_def split: if_splits)
    then show ?thesis by (rule epoch_recorded) (use assms(2,3) in \<open>auto simp del: view_put\<close>)
  qed (use assms(2) in simp)
qed

lemma decide_recorded:
  assumes "execute_decide sha ctx c input t = Ok (res, t')" and "recorded_world (view t)"
  shows "recorded_world (view t') \<and> has_status res"
proof -
  obtain d p n t1 x where check: "decide_check sha ctx c input (view t) = Ok (d, p, n)" and t1: "record_decision d p n t = Ok t1"
    and t': "(if de_kind d \<noteq> Approve then suspend_active_agreement ctx (pr_slot p) (suspension_reason (de_kind d)) (Some (de_proposal d)) t1
        else Ok (None, t1)) = Ok (x, t')" and res: "res = decide_result d x"
    using assms(1) by (auto simp: execute_decide_def)
  have "wf_slot (pr_slot p)" using check proposal_slot by (auto simp: decide_check_def split: if_splits)
  moreover have "recorded_world (view t1)" using t1 assms(2) by (auto simp: record_decision_def simp del: view_put)
  moreover have "has_status res" by (cases x) (simp_all add: res decide_result_def has_status_def)
  ultimately show ?thesis using t' suspend_recorded by (auto split: if_splits)
qed

lemma supersede_recorded: "supersede ctx current t = Ok t' \<Longrightarrow> recorded_world (view t) \<Longrightarrow> recorded_world (view t')"
  by (auto simp: supersede_def simp del: view_put split: option.splits)

lemma activate_recorded:
  assumes "execute_activate sha ctx c input t = Ok (res, t')" and "recorded_world (view t)"
  shows "recorded_world (view t') \<and> has_status res"
proof -
  obtain aid p r pol current ids where check: "activate_check sha ctx c input (view t) = Ok (aid, p, r, pol, current, ids)"
    using assms(1) by (auto simp: execute_activate_def)
  then have "wf_slot (pr_slot p)" using proposal_slot by (auto simp: activate_check_def)
  then show ?thesis using assms check epoch_recorded supersede_recorded
    by (auto simp: execute_activate_def Let_def has_status_def simp del: view_put)
qed

lemma status_recorded:
  assumes "execute_status_change ctx c input st t = Ok (res, t')" and "recorded_world (view t)"
  shows "recorded_world (view t') \<and> has_status res"
proof -
  obtain a reason where check: "status_check ctx c input (view t) = Ok (a, reason)"
    using assms(1) by (auto simp: execute_status_change_def)
  then have "wf_slot (ag_slot a)" using agreement_slot by (auto simp: status_check_def)
  then show ?thesis using assms check
    by (auto simp: execute_status_change_def has_status_def simp del: view_put elim!: epoch_recorded)
qed

lemma text_ok_nonempty: "text_ok n s \<Longrightarrow> 1 \<le> length s"
  by (cases s) (auto simp: text_ok_def)

lemma fence_recorded:
  assumes "execute_fence ctx c input t = Ok (res, t')" and "recorded_world (view t)" and "wf_ctx ctx"
  shows "recorded_world (view t') \<and> has_status res"
proof -
  obtain nonce e where nonce: "assert_nonce (fld input ''nonce'') = Ok nonce" and e: "assert_safe_integer (current_epoch (view t)) 0 = Ok e"
    and t': "t' = put (key_fence nonce) (obj [(''eligibility_epoch'', current_epoch (view t)), (''nonce'', JStr nonce),
        (''tx_id'', JStr (tx_id ctx))]) t" and res: "has_status res"
    using assms(1) by (auto simp: execute_fence_def Let_def has_status_def)
  have "is_nonce nonce" using nonce by (auto simp: assert_nonce_def split: json.splits if_splits)
  then have "fence_write (key_fence nonce) (obj [(''eligibility_epoch'', current_epoch (view t)), (''nonce'', JStr nonce), (''tx_id'', JStr (tx_id ctx))])"
    using e assms(3) text_ok_nonempty by (fastforce simp: fence_write_def exact_obj natural_def wf_ctx_def)
  then show ?thesis using assms(2) res unfolding t' by (auto simp: recorded_def simp del: view_put)
qed

lemma perform_recorded:
  assumes "perform_command sha ctx c ty input t = Ok (res, t')" and "recorded_world (view t)" and "wf_ctx ctx"
  shows "recorded_world (view t') \<and> has_status res \<and> ty \<in> js ` set command_types"
  using assms publish_recorded propose_recorded decide_recorded activate_recorded status_recorded fence_recorded
  unfolding perform_command_def by (auto simp: command_types_def split: if_splits)

lemma outcome_recorded:
  assumes "wf_ctx ctx" and "is_id cid" and "ty \<in> js ` set command_types" and "is_digest digest" and "has_status res"
  shows "idempotency_write (key_idempotency (org_id (tx_actor ctx)) cid) (idempotency_record ctx cid ty digest res)"
proof -
  have kd: "enc_kind k \<in> {JStr (js ''human''), JStr (js ''agent'')}" for k by (cases k) simp_all
  have "wf_actor (tx_actor ctx)" "1 \<le> length (tx_id ctx)" using assms(1) text_ok_nonempty by (auto simp: wf_ctx_def)
  then show ?thesis using assms(2-5) kd
    by (auto simp: idempotency_write_def idempotency_record_def exact_obj enc_actor_def wf_actor_def has_status_def Let_def
        Suc_le_eq string_such_def)
qed

lemma execute_recorded:
  assumes "execute sha ctx cmd t = Ok (res, t')" and "recorded_world (view t)" and "settled_world (view t)" and sha: "hex_sha sha"
  shows "recorded_world (view t')"
proof -
  obtain cid ty input c digest where e: "assert_context ctx = Ok ()" "validate_command cmd = Ok (cid, ty, input)"
      "read_config (view t) = Ok c" "tx_channel ctx = cfg_channel c" "member c (tx_actor ctx)" "idempotency_digest sha ty input = Ok digest"
    using execute_inv [OF assms(1)] by blast
  have ctx: "wf_ctx ctx" by (rule assert_context_wf [OF e(1)])
  show ?thesis
  proof (cases "present (view t) (key_idempotency (org_id (tx_actor ctx)) cid)")
    case None
    then obtain t1 where run: "perform_command sha ctx c ty input t = Ok (res, t1)"
      and t': "t' = put (key_idempotency (org_id (tx_actor ctx)) cid) (idempotency_record ctx cid ty digest (jnorm res)) t1"
      using assms(1) unfolding execute_entered [OF e] by (auto simp: jnorm_idem)
    have "settled res" using plain_view.performs [OF run assms(3)] by simp
    moreover have "is_id cid" using e(2) by (auto simp: validate_command_def)
    moreover have "is_digest digest" using e(6) digest_text_is_digest [OF sha] by (auto simp: idempotency_digest_def)
    ultimately show ?thesis
      using perform_recorded [OF run assms(2) ctx] outcome_recorded [OF ctx] unfolding t'
      by (auto simp: settled_def recorded_def simp del: view_put)
  qed (use assms(1,2) in \<open>auto simp: execute_entered [OF e]\<close>)
qed

lemma policies_recorded: "foldR put_policy ps t = Ok t' \<Longrightarrow> recorded_world (view t) \<Longrightarrow> recorded_world (view t')"
proof (induction ps arbitrary: t)
  case (Cons p ps)
  then obtain t1 where t1: "put_policy p t = Ok t1" "foldR put_policy ps t1 = Ok t'" by auto
  then have "recorded_world (view t1)" using Cons.prems(2) by (auto simp: put_policy_def simp del: view_put)
  then show ?case using Cons.IH t1(2) by blast
qed simp

lemma bootstrap_recorded: "bootstrap ctx input t = Ok (res, t') \<Longrightarrow> recorded_world (view t) \<Longrightarrow> recorded_world (view t')"
  by (auto simp: bootstrap_def simp del: view_put elim!: policies_recorded)

lemma reachable_recorded: "reachable sha w \<Longrightarrow> hex_sha sha \<Longrightarrow> recorded_world w"
proof (induction rule: reachable.induct)
  case empty
  then show ?case by (simp add: recorded_world_def)
next
  case (invoked w ctx rq res w')
  then obtain t where t: "invoke sha ctx rq (begin_tx w) = Ok (res, t)" "w' = view t" using commit_iff by blast
  show ?case
  proof (cases rq)
    case (Bootstrap input)
    then show ?thesis using t invoked bootstrap_recorded [of ctx input "begin_tx w" res t] by (simp add: invoke_def)
  next
    case (Execute cmd)
    then show ?thesis using t invoked execute_recorded [of sha ctx cmd "begin_tx w" res t] reachable_settled by (simp add: invoke_def)
  qed
qed

section \<open>What the store holds\<close>

lemma fence_validates:
  assumes "fence_write k v"
  shows "validate_state_write sha k v \<longleftrightarrow> within_write_limit v" and "validate_state_links k v get"
proof -
  obtain nonce where nonce: "is_nonce nonce" "k = key_fence nonce"
    using assms by (auto simp: fence_write_def string_such_def split: json.splits)
  have "valid_unicode nonce" using is_nonce_token [OF nonce(1)] by (rule token_valid_unicode)
  then show "validate_state_write sha k v \<longleftrightarrow> within_write_limit v" "validate_state_links k v get"
    using assms by (simp_all add: nonce(2) key_fence_def validate_write_key write_schema_def links_of_key)
qed

lemma outcome_validates:
  assumes "idempotency_write k v"
  shows "validate_state_write sha k v \<longleftrightarrow> within_write_limit v" and "validate_state_links k v get"
proof -
  obtain org cid where ids: "is_id org" "is_id cid" "k = key_idempotency org cid"
    using assms by (auto simp: idempotency_write_def string_such_def Let_def split: json.splits)
  then show "validate_state_write sha k v \<longleftrightarrow> within_write_limit v" "validate_state_links k v get"
    using assms by (simp_all add: key_idempotency_def validate_write_key write_schema_def links_of_key is_id_valid)
qed

lemma stored_value_validates:
  assumes w: "reachable sha w" and sha: "hex_sha sha" and v: "present w k = Some v"
  shows "validate_state_links k v (present w) \<and> (validate_state_write sha k v \<longleftrightarrow> within_write_limit v)"
proof -
  obtain L where L: "represents w L" "ledger_inv sha L" using reachable_represents [OF w] by metis
  have limit: "validate_state_write sha k v \<Longrightarrow> within_write_limit v" by (simp add: validate_state_write_def)
  have "w k = Some v" using v by (auto simp: present_def split: option.splits if_splits)
  then have "recorded k v" using reachable_recorded [OF w sha] by (simp add: recorded_world_def)
  then show ?thesis
    unfolding recorded_def
  proof (elim disjE conjE)
    assume k: "record_key k" and canon: "(\<exists>i z. k = key_policy i z) \<longrightarrow> canon_ok v 0"
    show ?thesis using stored_write_valid [OF L v _ k] stored_links_valid [OF L v canon k] limit by blast
  qed (use fence_validates outcome_validates in blast)+
qed

end
