(* ===== verification/Durability.thy ===== *)
theory Durability
  imports LedgerDemo Guarantees StoredOutcomes
begin

text \<open>
  What the local ledger guarantees on top of the engine: the journal rebuilds the derived tables, its
  transactions are engine commits, checkpoints read the past, and the journal shows any alteration. Then what
  holds of the stored bytes: the storage validator accepts what the engine stores, and canonical text parses
  back to its value.
\<close>

section \<open>A run of the local ledger\<close>

lemma ledger_runD:
  assumes "ledger_run sha real channel l"
  shows "rebuild_projection sha real l = Ok l" and "ll_channel l = channel" and "open_ledger sha real channel l = Ok l"
    and "reachable sha (ledger_world sha real (ll_tables l))" and "is_ok (read_latest sha real (ll_tables l) k)"
    and "int (length (ll_journal l)) \<le> max_safe"
  using ledger_run_inv [OF assms] ledger_run_reads [OF assms] open_rebuilt by auto

lemma demo_run: "ledger_run demo_sha demo_real (js ''chan'') demo_file"
  by (rule ledger_run.opened [OF demo_open])

abbreviation demo_boot_invoke :: "(json \<times> json \<times> local_ledger) lres" where
  "demo_boot_invoke \<equiv> ledger_invoke demo_sha demo_real (tx_actor demo_ctx) (js ''tx1'') (js ''t1'') (Bootstrap (enc_config demo_config)) demo_file"

lemma demo_journal: "int (length (ll_journal demo_file)) < max_safe"
  by (simp add: demo_file_def max_safe_def)

lemma demo_booted:
  assumes "demo_boot_invoke = Ok (res, cp, l)"
  shows "ledger_run demo_sha demo_real (js ''chan'') l"
  by (rule ledger_run.invoked [OF demo_run demo_journal assms])

section \<open>The journal and its derived tables\<close>

text \<open>
  C16. Rebuilding. In every state that openings and invocations reach, replaying the journal rebuilds exactly
  the derived tables that the ledger holds, and reopening the ledger changes nothing.
\<close>

theorem journal_rebuilds_tables:
  assumes "ledger_run sha real channel l"
  shows "rebuild_projection sha real l = Ok l \<and> open_ledger sha real channel l = Ok l"
  using ledger_runD [OF assms] by blast

theorem journal_rebuilds_tables_witness:
  "\<exists>res cp l. demo_boot_invoke = Ok (res, cp, l) \<and> rebuild_projection demo_sha demo_real l = Ok l"
proof -
  obtain res cp l where "demo_boot_invoke = Ok (res, cp, l)" using demo_ledger_boot by (elim exE)
  then show ?thesis using journal_rebuilds_tables [OF demo_booted] by blast
qed

text \<open>
  C17. A transaction of the local ledger is a commit of the engine on the state that the tables hold: same
  result, same state afterwards. It appends to the journal and returns the checkpoint at its end.
\<close>

theorem local_ledger_refines_engine:
  assumes "ledger_run sha real channel l" and "int (length (ll_journal l)) < max_safe"
    and "ledger_invoke sha real actor tx time rq l = Ok (res, cp, l')"
  shows "commit sha (tx_context actor tx time l) rq (ledger_world sha real (ll_tables l)) = Ok (res, ledger_world sha real (ll_tables l')) \<and>
    ledger_checkpoint real l' = Ok (Some cp) \<and> (\<exists>rows. ll_journal l' = ll_journal l @ rows)"
  using ledger_invoke_Ok [OF _ assms(2) _ assms(3)] ledger_runD [OF assms(1)] by blast

theorem local_ledger_refines_engine_witness:
  "\<exists>res cp l. commit demo_sha demo_ctx (Bootstrap (enc_config demo_config)) (ledger_world demo_sha demo_real (ll_tables demo_file)) =
     Ok (res, ledger_world demo_sha demo_real (ll_tables l)) \<and> ledger_checkpoint demo_real l = Ok (Some cp)"
proof -
  obtain res cp l where l: "demo_boot_invoke = Ok (res, cp, l)" using demo_ledger_boot by (elim exE)
  show ?thesis using local_ledger_refines_engine [OF demo_run demo_journal l] demo_file_context by auto
qed

text \<open>
  C18. Reading at a checkpoint. A read of the current state can be repeated at any later time: with the
  checkpoint that was current then, every key still gives what it gave then.
\<close>

theorem checkpoint_reads_the_past:
  assumes "ledger_run sha real channel l" and "ledger_checkpoint real l = Ok (Some cp)"
    and "ledger_later sha real channel l l'"
  shows "ledger_read sha real l' k (Some cp) = ledger_read sha real l k None"
proof -
  note l = ledger_runD [OF assms(1)] and l' = ledger_runD [OF later_run [OF assms(3,1)]]
  have ext: "extends l l'" using later_extends [OF assms(3,1)] .
  have tip: "assert_checkpoint real l' cp = Ok (int (length (ll_journal l)))"
    using assert_tip [OF l(1) assms(2) l'(1) ext l(6)] ledger_run_reads [OF assms(1)] assms(2) by blast
  have sync: "in_sync (ll_tables l) (int (length (ll_journal l)))" using rebuilt_parts [OF l(1)] by blast
  obtain added where "history (ll_tables l') = history (ll_tables l) @ added"
      "\<forall>(_, n, _) \<in> set added. int (length (ll_journal l)) < n"
    using ext by (auto simp: extends_def)
  then have "select_history_at (ll_tables l') k (int (length (ll_journal l))) = map_of (projection (ll_tables l)) k"
    by (rule select_at_tip [OF sync])
  then show ?thesis using tip read_in_sync [OF sync, of sha real k] by (simp add: ledger_read_def read_current_def)
qed

theorem checkpoint_reads_the_past_witness:
  "\<exists>res cp l. demo_boot_invoke = Ok (res, cp, l) \<and>
     ledger_read demo_sha demo_real l key_config (Some cp) = ledger_read demo_sha demo_real l key_config None"
proof -
  obtain res cp l where l: "demo_boot_invoke = Ok (res, cp, l)" using demo_ledger_boot by (elim exE)
  have "ledger_checkpoint demo_real l = Ok (Some cp)"
    using ledger_invoke_Ok [OF _ demo_journal _ l] ledger_runD [OF demo_run] by blast
  then show ?thesis using checkpoint_reads_the_past [OF demo_booted [OF l] _ ledger_later.now] l by blast
qed

text \<open>
  C19. Immutable keys. Once a key of an immutable kind holds a value, it holds an equal value in every later
  state, whatever commands run.
\<close>

theorem immutable_keys_keep_their_value:
  assumes "ledger_run sha real channel l" and "ledger_later sha real channel l l'"
    and "immutable_key k" and "ledger_read sha real l k None = Ok (Some v)"
  shows "\<exists>v'. ledger_read sha real l' k None = Ok (Some v') \<and> same_json v v'"
  using later_immutable [OF assms(2,1,3)] assms(4) by (simp add: ledger_read_def)

lemma demo_booted_world:
  assumes "demo_boot_invoke = Ok (res, cp, l)"
  shows "reachable demo_sha (ledger_world demo_sha demo_real (ll_tables l)) \<and>
    represents (ledger_world demo_sha demo_real (ll_tables l)) demo_ledger0 \<and>
    ledger_inv demo_sha demo_ledger0"
proof -
  obtain w res' where w: "commit demo_sha demo_ctx (Bootstrap (enc_config demo_config)) Map.empty = Ok (res', w)" "demo_state w demo_ledger0 UNIV"
    using demo_boot by (elim exE conjE)
  have empty: "ledger_world demo_sha demo_real (ll_tables demo_file) = Map.empty"
    by (simp add: demo_file_def world_empty)
  have "commit demo_sha demo_ctx (Bootstrap (enc_config demo_config)) Map.empty = Ok (res, ledger_world demo_sha demo_real (ll_tables l))"
    using ledger_invoke_Ok [OF _ demo_journal _ assms] ledger_runD [OF demo_run] by (simp only: demo_file_context empty)
  then have "w = ledger_world demo_sha demo_real (ll_tables l)" using w(1) by simp
  then show ?thesis using w(2) by (simp add: demo_state_def)
qed

lemma demo_booted_policy:
  assumes "demo_boot_invoke = Ok (res, cp, l)"
  shows "\<exists>v. ledger_read demo_sha demo_real l key_config None = Ok (Some v)"
proof -
  have "present (ledger_world demo_sha demo_real (ll_tables l)) key_config = Some (enc_config demo_config)"
    using demo_booted_world [OF assms] representsD(1) [of _ demo_ledger0] by (simp add: demo_ledger0_def)
  then obtain v where "ledger_world demo_sha demo_real (ll_tables l) key_config = Some v"
    by (cases "ledger_world demo_sha demo_real (ll_tables l) key_config") (simp_all add: present_def)
  then show ?thesis
    by (cases "read_latest demo_sha demo_real (ll_tables l) key_config") (simp_all add: ledger_world_def ledger_read_def)
qed

theorem immutable_keys_keep_their_value_witness:
  "\<exists>res cp l v v'. demo_boot_invoke = Ok (res, cp, l) \<and> ledger_read demo_sha demo_real l key_config None = Ok (Some v) \<and>
     immutable_key key_config \<and> same_json v v'"
proof -
  obtain res cp l where l: "demo_boot_invoke = Ok (res, cp, l)" using demo_ledger_boot by (elim exE)
  obtain v where v: "ledger_read demo_sha demo_real l key_config None = Ok (Some v)" using demo_booted_policy [OF l] by blast
  have "immutable_key key_config" by (simp add: key_config_def immutable_state_key immutable_kinds_def)
  then show ?thesis using immutable_keys_keep_their_value [OF demo_booted [OF l] ledger_later.now _ v] l v by blast
qed

text \<open>
  C20. Reads succeed. Reading any key of the current state never fails: the two derived tables agree on it and
  the stored text is a value that its key admits.
\<close>

theorem current_reads_succeed:
  assumes "ledger_run sha real channel l"
  shows "\<exists>v. ledger_read sha real l k None = Ok v \<and> ledger_world sha real (ll_tables l) k = v \<and>
    (\<forall>x. v = Some x \<longrightarrow> validate_state_write sha k x)"
proof -
  obtain v where v: "read_latest sha real (ll_tables l) k = Ok v"
    using ledger_runD(5) [OF assms, of k] by (cases "read_latest sha real (ll_tables l) k") auto
  then have "\<forall>x. v = Some x \<longrightarrow> validate_state_write sha k x"
    by (auto simp: read_latest_def decode_row_def decode_value_def Let_def split: if_splits option.splits)
  then show ?thesis using v by (simp add: ledger_read_def ledger_world_def)
qed

theorem current_reads_succeed_witness:
  "\<exists>res cp l v. demo_boot_invoke = Ok (res, cp, l) \<and> ledger_read demo_sha demo_real l key_config None = Ok v"
proof -
  obtain res cp l where l: "demo_boot_invoke = Ok (res, cp, l)" using demo_ledger_boot by (elim exE)
  show ?thesis using current_reads_succeed [OF demo_booted [OF l], of key_config] l by blast
qed

text \<open>
  C21. Tamper evidence. Two journals of the same length that verify and end in the same hash record the same
  events, byte for byte, unless the hash collides on them.
\<close>

theorem journal_is_tamper_evident:
  assumes "validate_journal_rows sha real channel rows = Ok (hash, n)" and "validate_journal_rows sha real channel rows' = Ok (hash, n')"
    and "length rows = length rows'" and "int (length rows) \<le> max_safe"
    and "inj_on sha ((\<lambda>r. utf8 (record_text real r)) ` (set rows \<union> set rows'))" and "\<forall>t. legible (JNum (real t))"
  shows "map (record_text real) rows = map (record_text real) rows'"
  using chain_determined [OF assms(6)] assms(1-5) by blast

theorem journal_is_tamper_evident_witness:
  "\<exists>res cp l hash n. demo_boot_invoke = Ok (res, cp, l) \<and>
     validate_journal_rows demo_sha demo_real (js ''chan'') (ll_journal l) = Ok (hash, n) \<and>
     map (record_text demo_real) (ll_journal l) = map (record_text demo_real) (ll_journal l)"
proof -
  obtain res cp l where l: "demo_boot_invoke = Ok (res, cp, l)" using demo_ledger_boot by (elim exE)
  note run = ledger_runD [OF demo_booted [OF l]]
  obtain hash n where h: "validate_journal_rows demo_sha demo_real (js ''chan'') (ll_journal l) = Ok (hash, n)"
    using rebuilt_parts [OF run(1)] run(2) by auto
  have "length (ll_journal l) \<le> Suc 0"
    using ledger_invoke_reads [OF _ demo_journal _ l] ledger_runD [OF demo_run] by (auto simp: demo_file_def)
  then have "\<exists>r. set (ll_journal l) \<subseteq> {r}" by (cases "ll_journal l") auto
  then have "inj_on demo_sha ((\<lambda>r. utf8 (record_text demo_real r)) ` (set (ll_journal l) \<union> set (ll_journal l)))"
    by (auto simp: inj_on_def)
  then show ?thesis using journal_is_tamper_evident [OF h h refl run(6) _ demo_real_legible] l h by blast
qed

section \<open>Stored values\<close>

text \<open>
  C22. The storage layer accepts what the engine stores. In a reachable state every value under every key, the outcomes
  of commands and the fences included, passes the cross-record validation against the state, and the validation of
  single writes refuses it for one reason only: a text longer than the limit of a write, which the engine does not know.
\<close>

theorem stored_records_validate:
  assumes "reachable sha w" and "hex_sha sha" and "present w k = Some v"
  shows "validate_state_links k v (present w) \<and> (validate_state_write sha k v \<longleftrightarrow> within_write_limit v)"
  by (rule stored_value_validates [OF assms])

theorem stored_records_validate_witness:
  "\<exists>w. reachable demo_sha w \<and> present w key_config = Some (enc_config demo_config) \<and>
     validate_state_write demo_sha key_config (enc_config demo_config) \<and>
     validate_state_links key_config (enc_config demo_config) (present w)"
proof -
  obtain res cp l where l: "demo_boot_invoke = Ok (res, cp, l)" using demo_ledger_boot by (elim exE)
  note w = demo_booted_world [OF l]
  then have v: "present (ledger_world demo_sha demo_real (ll_tables l)) key_config = Some (enc_config demo_config)"
    using representsD(1) [of _ demo_ledger0] by (simp add: demo_ledger0_def)
  show ?thesis using stored_records_validate [OF _ hex_demo_sha v] demo_writes_small(1) w v by blast
qed

text \<open>
  C23. Canonical text. Parsing the canonical text of a value with \<open>JSON.parse\<close> gives the value with its keys
  in code-unit order and minus zero as zero, which has the same canonical text.
\<close>

theorem canonical_text_round_trip:
  assumes "canonicalize v = Ok t" and "js_value real v"
  shows "json_parse real t = Some (jnorm v) \<and> canonicalize (jnorm v) = Ok t \<and> same_json v (jnorm v)"
proof -
  have "canonicalize (jnorm v) = Ok t" using assms(1) canonicalize_jnorm by simp
  then show ?thesis using parse_canonical [OF assms] assms(1) by (simp add: same_json_def)
qed

theorem canonical_text_round_trip_witness:
  "\<exists>t. canonicalize (JArr [JNum NNegZero, JBool True]) = Ok t \<and>
     json_parse demo_real t = Some (JArr [JNum (NInt 0), JBool True])"
proof -
  have "canon_ok (JArr [JNum NNegZero, JBool True]) 0" by simp
  then obtain t where t: "canonicalize (JArr [JNum NNegZero, JBool True]) = Ok t" using canonicalize_Ok_iff by blast
  show ?thesis using canonical_text_round_trip [OF t, of demo_real] t by simp
qed

text \<open>The measures that the limits of canonicalization speak of.\<close>

fun nesting :: "json \<Rightarrow> nat" where
  "nesting (JArr xs) = foldr (\<lambda>x. max (Suc (nesting x))) xs 0"
| "nesting (JObj kvs) = foldr (\<lambda>(k, x). max (Suc (nesting x))) kvs 0"
| "nesting v = 0"

fun longest_array :: "json \<Rightarrow> nat" where
  "longest_array (JArr xs) = foldr (\<lambda>x. max (longest_array x)) xs (length xs)"
| "longest_array (JObj kvs) = foldr (\<lambda>(k, x). max (longest_array x)) kvs 0"
| "longest_array v = 0"

fun exact_leaves :: "json \<Rightarrow> bool" where
  "exact_leaves JUndef = False"
| "exact_leaves (JNum n) = (case n of NInt i \<Rightarrow> \<bar>i\<bar> \<le> max_safe | NBeyond _ \<Rightarrow> False | _ \<Rightarrow> True)"
| "exact_leaves (JStr s) = valid_unicode s"
| "exact_leaves (JArr xs) = list_all exact_leaves xs"
| "exact_leaves (JObj kvs) = list_all (\<lambda>(k, x). valid_unicode k \<and> exact_leaves x) kvs"
| "exact_leaves v = True"

lemma foldr_max_le:
  fixes n k :: nat
  shows "foldr (\<lambda>x. max (f x)) xs k \<le> n \<longleftrightarrow> k \<le> n \<and> (\<forall>x \<in> set xs. f x \<le> n)"
  by (induction xs) auto

lemma canon_ok_measures:
  "canon_ok v d \<longleftrightarrow> d + nesting v \<le> 128 \<and> longest_array v \<le> 65536 \<and> exact_leaves v"
proof (induction v d rule: canon_ok.induct)
  case (4 xs d)
  have "d + nesting (JArr xs) \<le> 128 \<longleftrightarrow> d \<le> 128 \<and> (\<forall>x \<in> set xs. Suc d + nesting x \<le> 128)"
    using foldr_max_le [of "\<lambda>x. Suc (nesting x)" xs 0 "128 - d"] by auto
  then show ?case using 4 by (auto simp: foldr_max_le list_all_iff)
next
  case (5 kvs d)
  have "d + nesting (JObj kvs) \<le> 128 \<longleftrightarrow> d \<le> 128 \<and> (\<forall>(k, x) \<in> set kvs. Suc d + nesting x \<le> 128)"
    using foldr_max_le [of "\<lambda>(k, x). Suc (nesting x)" kvs 0 "128 - d"] by (auto simp: case_prod_unfold)
  moreover have "canon_ok x (Suc d) \<longleftrightarrow> Suc d + nesting x \<le> 128 \<and> longest_array x \<le> 65536 \<and> exact_leaves x"
    if "(k, x) \<in> set kvs" for k x using 5 that by blast
  moreover have "longest_array (JObj kvs) \<le> 65536 \<longleftrightarrow> (\<forall>(k, x) \<in> set kvs. longest_array x \<le> 65536)"
    using foldr_max_le [of "\<lambda>(k, x). longest_array x" kvs 0 65536] by (auto simp: case_prod_unfold)
  ultimately show ?case by (fastforce simp: list_all_iff)
next
  case (2 n d)
  then show ?case by (cases n) auto
qed auto

text \<open>
  C24. The limits of canonicalization. A value has a canonical text exactly if it nests at most 128 deep, no
  array in it has more than 65536 items, and its leaves are exact: safe integers or fractions, well-formed
  strings and keys, nothing undefined.
\<close>

theorem canonicalize_limits:
  "(\<exists>t. canonicalize v = Ok t) = (nesting v \<le> max_canonical_depth \<and> longest_array v \<le> max_canonical_array_items \<and> exact_leaves v)"
  using canonicalize_Ok_iff [of v] canon_ok_measures [of v 0]
  by (simp add: max_canonical_depth_def max_canonical_array_items_def)

text \<open>
  C25. State keys. The key of a record determines its kind and its components, and parsing the key gives them
  back, so no two records share a key.
\<close>

theorem state_key_round_trip:
  assumes "list_all valid_unicode ps"
  shows "parse_key (state_key k ps) = Some (js (kind_name k), ps) \<and>
    (\<forall>l qs. state_key l qs = state_key k ps \<longrightarrow> l = k \<and> qs = ps)"
  using parse_state_key [of ps k] assms by (simp add: list_all_iff)

theorem state_key_round_trip_witness:
  "parse_key (state_key KFence [js ''a:b'']) = Some (js (kind_name KFence), [js ''a:b''])"
  using state_key_round_trip [of "[js ''a:b'']" KFence] by (simp add: js_def cu_def is_high_def is_low_def)

text \<open>
  C26. Stored records stay valid. Whatever input a validator accepts, the record it returns is stored in a form
  that canonical cloning leaves alone and that the validator reads back as the same record.
\<close>

theorem validated_records_revalidate:
  "(\<forall>v r. validate_revision sha v = Ok r \<longrightarrow> clone_canonical (enc_revision r) = Ok (enc_revision r) \<and> validate_revision sha (enc_revision r) = Ok r) \<and>
   (\<forall>v p. validate_proposal v = Ok p \<longrightarrow> clone_canonical (enc_proposal p) = Ok (enc_proposal p) \<and> validate_proposal (enc_proposal p) = Ok p) \<and>
   (\<forall>v d. validate_decision v = Ok d \<longrightarrow> clone_canonical (enc_decision d) = Ok (enc_decision d) \<and> validate_decision (enc_decision d) = Ok d) \<and>
   (\<forall>v a. validate_agreement v = Ok a \<longrightarrow> clone_canonical (enc_agreement a) = Ok (enc_agreement a) \<and> validate_agreement (enc_agreement a) = Ok a)"
  by (intro conjI allI impI)
    (erule revision.dec_wf [THEN revision.clone_enc] proposal.dec_wf [THEN proposal.clone_enc]
        decision.dec_wf [THEN decision.clone_enc] agreement.dec_wf [THEN agreement.clone_enc]
        revision.revalidate proposal.revalidate decision.revalidate agreement.revalidate)+

theorem validated_records_revalidate_witness:
  "validate_revision demo_sha (enc_revision demo_revision) = Ok demo_revision \<and>
   clone_canonical (enc_revision demo_revision) = Ok (enc_revision demo_revision)"
  using validated_records_revalidate [of demo_sha] revision.dec_enc [OF wf_demo_revision] by blast

end
