(* ===== verification/RevisionDiff.thy ===== *)
theory RevisionDiff
  imports JsonText "HOL-Library.Sublist"
begin

text \<open>
  The comparison of two revisions in the web client (\<open>apps/web/revision-diff.js\<close>): the line diff by a table
  of longest common subsequences, the differences of dependencies and title, and the checks before them.
  Texts of messages are not modelled. \<open>localeCompare\<close> is the argument \<open>by_locale\<close>, the sorting of the
  entries of an object by it.
\<close>

section \<open>Values\<close>

datatype diff_error = InvalidRevision | MarkdownLimit | DifferentSlot | TypeError

type_synonym 'a dres = "(diff_error, 'a) result"

text \<open>\<open>a === b\<close>: two objects of different texts are never the same, and minus zero is zero.\<close>

fun plus_zero :: "jnum \<Rightarrow> jnum" where
  "plus_zero NNegZero = NInt 0"
| "plus_zero n = n"

fun identical :: "json \<Rightarrow> json \<Rightarrow> bool" where
  "identical (JNum m) (JNum n) = (plus_zero m = plus_zero n)"
| "identical (JArr _) v = False"
| "identical (JObj _) v = False"
| "identical v w = (v = w)"

text \<open>\<open>Boolean(v)\<close>\<close>

fun truthy :: "json \<Rightarrow> bool" where
  "truthy JUndef = False"
| "truthy JNull = False"
| "truthy (JBool b) = b"
| "truthy (JNum n) = (plus_zero n \<noteq> NInt 0)"
| "truthy (JStr s) = (s \<noteq> [])"
| "truthy v = True"

definition max_markdown_bytes :: nat where "max_markdown_bytes = 262144"
definition max_lcs_cells :: nat where "max_lcs_cells = 20000"
definition slot_fields :: "string list" where
  "slot_fields = [''channel_id'', ''document_id'', ''context_id'', ''scope_id'', ''usage_scope'']"

section \<open>The parts of a revision\<close>

definition diff_record :: "json \<Rightarrow> json dres" where
  "diff_record v = (case v of JObj _ \<Rightarrow> Ok v | _ \<Rightarrow> Err InvalidRevision)"

record parts =
  rp_digest :: jstr
  rp_title :: jstr
  rp_body :: jstr
  rp_payload :: json

definition revision_parts :: "json \<Rightarrow> parts dres" where
  "revision_parts v =
     rbind (diff_record v) (\<lambda>revision.
     rbind (diff_record (fld revision ''payload'')) (\<lambda>payload.
     case fld revision ''revision_digest'' of
       JStr digest \<Rightarrow>
         if digest = [] then Err InvalidRevision
         else (case (fld payload ''body_markdown'', fld payload ''title'') of
            (JStr body, JStr title) \<Rightarrow>
              if max_markdown_bytes < byte_length body then Err MarkdownLimit
              else Ok \<lparr>rp_digest = digest, rp_title = title, rp_body = body, rp_payload = payload\<rparr>
          | _ \<Rightarrow> Err InvalidRevision)
     | _ \<Rightarrow> Err InvalidRevision))"

definition parts_same_slot :: "parts \<Rightarrow> parts \<Rightarrow> bool" where
  "parts_same_slot a b \<longleftrightarrow> list_all (\<lambda>f. identical (fld (rp_payload a) f) (fld (rp_payload b) f)) slot_fields"

section \<open>The lines of a text\<close>

text \<open>\<open>value.replace(/\r\n?/gu, '\n')\<close>\<close>

fun unify_newlines :: "jstr \<Rightarrow> jstr" where
  "unify_newlines [] = []"
| "unify_newlines [c] = [if c = 13 then 10 else c]"
| "unify_newlines (c # d # s) =
     (if c = 13 then 10 # (if d = 10 then unify_newlines s else unify_newlines (d # s))
      else c # unify_newlines (d # s))"

definition text_lines :: "jstr \<Rightarrow> jstr list" where
  "text_lines s = split_on 10 (unify_newlines s)"

section \<open>The table\<close>

text \<open>
  One row of the table from the row below it, right to left; the cells are 32-bit unsigned. A row has one cell
  more than there are lines, the last one zero.
\<close>

fun lcs_row :: "'a \<Rightarrow> 'a list \<Rightarrow> nat list \<Rightarrow> nat list" where
  "lcs_row x (y # ys) (below # diagonal # ns) =
     (let row = lcs_row x ys (diagonal # ns) in
      (if x = y then (diagonal + 1) mod 2 ^ 32 else max below (hd row)) # row)"
| "lcs_row x _ _ = [0]"

fun lcs_table :: "'a list \<Rightarrow> 'a list \<Rightarrow> nat list list" where
  "lcs_table [] ys = [replicate (length ys + 1) 0]"
| "lcs_table (x # xs) ys = (let table = lcs_table xs ys in lcs_row x ys (hd table) # table)"

section \<open>The walk through the table\<close>

datatype diff_line =
    Context jstr nat nat
  | Removed jstr nat
  | Added jstr nat

function diff_walk :: "jstr list \<Rightarrow> jstr list \<Rightarrow> nat list list \<Rightarrow> nat \<Rightarrow> nat \<Rightarrow> diff_line list" where
  "diff_walk before after table i j =
     (if i < length before \<or> j < length after then
        if i < length before \<and> j < length after \<and> before ! i = after ! j then
          Context (before ! i) (i + 1) (j + 1) # diff_walk before after table (i + 1) (j + 1)
        else if length after \<le> j \<or> (i < length before \<and> table ! i ! (j + 1) \<le> table ! (i + 1) ! j) then
          Removed (before ! i) (i + 1) # diff_walk before after table (i + 1) j
        else Added (after ! j) (j + 1) # diff_walk before after table i (j + 1)
      else [])"
  by pat_completeness auto
termination
  by (relation "measure (\<lambda>(before, after, table, i, j). (length before - i) + (length after - j))") auto

record body_diff =
  bd_fallback :: bool
  bd_lines :: "diff_line list"
  bd_texts :: "(jstr \<times> jstr) option"
  bd_endings_changed :: bool
  bd_before_count :: nat
  bd_after_count :: nat

definition endings_changed :: "jstr \<Rightarrow> jstr \<Rightarrow> bool" where
  "endings_changed a b \<longleftrightarrow> a \<noteq> b \<and> join_on 10 (text_lines a) = join_on 10 (text_lines b)"

definition line_diff :: "jstr \<Rightarrow> jstr \<Rightarrow> body_diff" where
  "line_diff before_text after_text =
     (let before = text_lines before_text; after = text_lines after_text in
      if max_lcs_cells < length before * length after then
        \<lparr>bd_fallback = True, bd_lines = [], bd_texts = Some (before_text, after_text),
         bd_endings_changed = endings_changed before_text after_text,
         bd_before_count = length before, bd_after_count = length after\<rparr>
      else
        \<lparr>bd_fallback = False, bd_lines = diff_walk before after (lcs_table before after) 0 0, bd_texts = None,
         bd_endings_changed = endings_changed before_text after_text,
         bd_before_count = length before, bd_after_count = length after\<rparr>)"

section \<open>Dependencies\<close>

text \<open>\<open>new Set(xs)\<close> in the order of first occurrence\<close>

fun distinct_first :: "'a list \<Rightarrow> 'a list" where
  "distinct_first [] = []"
| "distinct_first (x # xs) = x # filter (\<lambda>y. y \<noteq> x) (distinct_first xs)"

definition dependency_digests :: "json \<Rightarrow> jstr list" where
  "dependency_digests payload = (case fld payload ''dependencies'' of
     JArr xs \<Rightarrow> concat (map (\<lambda>d. case fld d ''revision_digest'' of JStr s \<Rightarrow> if s = [] then [] else [s] | _ \<Rightarrow> []) xs)
   | _ \<Rightarrow> [])"

text \<open>\<open>for (... of v || [])\<close>: arrays and the code points of strings can be iterated.\<close>

definition iterated :: "json \<Rightarrow> json list dres" where
  "iterated v = (if \<not> truthy v then Ok [] else
     (case v of JArr xs \<Rightarrow> Ok xs | JStr s \<Rightarrow> Ok (map (\<lambda>c. JStr (cp_units c)) (code_points s)) | _ \<Rightarrow> Err TypeError))"

text \<open>\<open>(v || []).find\<close> and \<open>(v || []).map\<close>: only arrays have these methods.\<close>

definition method_items :: "json \<Rightarrow> json list dres" where
  "method_items v = (if \<not> truthy v then Ok [] else (case v of JArr xs \<Rightarrow> Ok xs | _ \<Rightarrow> Err TypeError))"

definition digest_of_item :: "json \<Rightarrow> json dres" where
  "digest_of_item v = (if v = JNull \<or> v = JUndef then Err TypeError else Ok (fld v ''revision_digest''))"

fun find_prior :: "json \<Rightarrow> json list \<Rightarrow> json option dres" where
  "find_prior reference [] = Ok None"
| "find_prior reference (item # items) =
     rbind (digest_of_item item) (\<lambda>a.
     rbind (digest_of_item reference) (\<lambda>b.
     if identical a b then Ok (Some item) else find_prior reference items))"

text \<open>\<open>Object.entries(v)\<close>: the own properties, by index for arrays and strings.\<close>

definition object_entries :: "json \<Rightarrow> (jstr \<times> json) list" where
  "object_entries v = (case v of
     JObj kvs \<Rightarrow> kvs
   | JArr xs \<Rightarrow> map (\<lambda>i. (dec_nat i, xs ! i)) [0..<length xs]
   | JStr s \<Rightarrow> map (\<lambda>i. (dec_nat i, JStr [s ! i])) [0..<length s]
   | _ \<Rightarrow> [])"

definition signature :: "((jstr \<times> json) list \<Rightarrow> (jstr \<times> json) list) \<Rightarrow> json \<Rightarrow> jstr" where
  "signature by_locale v = stringify (JObj (by_locale (object_entries v)))"

fun changed_dependencies :: "((jstr \<times> json) list \<Rightarrow> (jstr \<times> json) list) \<Rightarrow> json \<Rightarrow> json list \<Rightarrow> (json \<times> json \<times> json) list dres" where
  "changed_dependencies by_locale prior_list [] = Ok []"
| "changed_dependencies by_locale prior_list (reference # rest) =
     rbind (method_items prior_list) (\<lambda>items.
     rbind (find_prior reference items) (\<lambda>prior.
     rbind (case prior of
        None \<Rightarrow> Ok []
      | Some p \<Rightarrow> if truthy p \<and> signature by_locale p \<noteq> signature by_locale reference
          then rmap (\<lambda>d. [(d, p, reference)]) (digest_of_item reference) else Ok []) (\<lambda>here.
     rmap (\<lambda>later. here @ later) (changed_dependencies by_locale prior_list rest))))"

record dependency_changes =
  dd_changed :: "(json \<times> json \<times> json) list"
  dd_before :: "json list"
  dd_after :: "json list"
  dd_added :: "jstr list"
  dd_removed :: "jstr list"

definition dependency_diff :: "((jstr \<times> json) list \<Rightarrow> (jstr \<times> json) list) \<Rightarrow> json \<Rightarrow> json \<Rightarrow> dependency_changes dres" where
  "dependency_diff by_locale before_payload after_payload =
     (let before = dependency_digests before_payload; after = dependency_digests after_payload in
      rbind (iterated (fld after_payload ''dependencies'')) (\<lambda>references.
      rmap (\<lambda>changed. \<lparr>dd_changed = changed, dd_before = map JStr before, dd_after = map JStr after,
          dd_added = filter (\<lambda>d. d \<notin> set before) (distinct_first after),
          dd_removed = filter (\<lambda>d. d \<notin> set after) (distinct_first before)\<rparr>)
        (changed_dependencies by_locale (fld before_payload ''dependencies'') references)))"

section \<open>The comparison\<close>

record comparison =
  cmp_has_previous :: bool
  cmp_digests :: "jstr \<times> jstr option"
  cmp_title :: "jstr option \<times> jstr \<times> bool"
  cmp_dependencies :: dependency_changes
  cmp_body :: body_diff

definition first_published :: "parts \<Rightarrow> comparison dres" where
  "first_published current =
     rmap (\<lambda>items. \<lparr>cmp_has_previous = False, cmp_digests = (rp_digest current, None),
        cmp_title = (None, rp_title current, True),
        cmp_dependencies = \<lparr>dd_changed = [], dd_before = [],
          dd_after = filter truthy (map (\<lambda>d. fld d ''revision_digest'') items), dd_added = [], dd_removed = []\<rparr>,
        cmp_body = \<lparr>bd_fallback = False, bd_lines = [], bd_texts = None, bd_endings_changed = False,
          bd_before_count = 0, bd_after_count = length (text_lines (rp_body current))\<rparr>\<rparr>)
      (method_items (fld (rp_payload current) ''dependencies''))"

definition compare_revisions :: "((jstr \<times> json) list \<Rightarrow> (jstr \<times> json) list) \<Rightarrow> json \<Rightarrow> json \<Rightarrow> comparison dres" where
  "compare_revisions by_locale current_value previous_value =
     rbind (revision_parts current_value) (\<lambda>current.
     if previous_value = JNull \<or> previous_value = JUndef then first_published current
     else
       rbind (revision_parts previous_value) (\<lambda>previous.
       rbind (rcheck (parts_same_slot current previous) DifferentSlot) (\<lambda>_.
       rmap (\<lambda>deps. \<lparr>cmp_has_previous = True, cmp_digests = (rp_digest current, Some (rp_digest previous)),
           cmp_title = (Some (rp_title previous), rp_title current, rp_title previous \<noteq> rp_title current),
           cmp_dependencies = deps, cmp_body = line_diff (rp_body previous) (rp_body current)\<rparr>)
         (dependency_diff by_locale (rp_payload previous) (rp_payload current)))))"

section \<open>What the diff shows\<close>

text \<open>The length of a longest common subsequence, of which the table holds every pair of suffixes.\<close>

fun lcs_len :: "'a list \<Rightarrow> 'a list \<Rightarrow> nat" where
  "lcs_len [] ys = 0"
| "lcs_len xs [] = 0"
| "lcs_len (x # xs) (y # ys) = (if x = y then lcs_len xs ys + 1 else max (lcs_len xs (y # ys)) (lcs_len (x # xs) ys))"

lemma lcs_len_Nil [simp]: "lcs_len xs [] = 0"
  by (cases xs) simp_all

lemma lcs_len_bound: "lcs_len xs ys \<le> length xs"
  by (induction xs ys rule: lcs_len.induct) auto

lemma subseq_ConsE: "subseq (z # zs) (x # xs) \<Longrightarrow> (z = x \<Longrightarrow> subseq zs xs \<Longrightarrow> P) \<Longrightarrow> (subseq (z # zs) xs \<Longrightarrow> P) \<Longrightarrow> P"
  by (cases "z = x") simp_all

lemma lcs_len_maximal: "subseq zs xs \<Longrightarrow> subseq zs ys \<Longrightarrow> length zs \<le> lcs_len xs ys"
proof (induction xs ys arbitrary: zs rule: lcs_len.induct)
  case (3 x xs y ys)
  show ?case
  proof (cases zs)
    case (Cons z zs')
    show ?thesis
    proof (cases "x = y")
      case True
      then have "z = x \<and> subseq zs' xs \<and> subseq zs' ys \<or> subseq zs xs \<and> subseq zs ys"
        using 3(4,5) Cons by (cases "z = x") simp_all
      then have "length zs' \<le> lcs_len xs ys" using 3(1) [OF True, of zs'] 3(1) [OF True, of zs] Cons by auto
      then show ?thesis using True Cons by simp
    next
      case False
      then have "subseq zs ys \<or> subseq zs xs"
        using 3(4,5) Cons by (cases "z = x") simp_all
      then show ?thesis using 3(2,3) [OF False, of zs] 3(4,5) False by (auto simp: le_max_iff_disj)
    qed
  qed simp
qed simp_all

fun tails :: "'a list \<Rightarrow> 'a list list" where
  "tails [] = [[]]"
| "tails (x # xs) = (x # xs) # tails xs"

lemma tails_hd: "\<exists>ts. tails xs = xs # ts"
  by (cases xs) simp_all

lemma hd_tails [simp]: "hd (tails xs) = xs" "tails xs \<noteq> []"
  by (cases xs; simp)+

lemma length_tails [simp]: "length (tails xs) = Suc (length xs)"
  by (induction xs) simp_all

lemma nth_tails: "i \<le> length xs \<Longrightarrow> tails xs ! i = drop i xs"
proof (induction xs arbitrary: i)
  case (Cons x xs)
  then show ?case by (cases i) simp_all
qed simp

lemma lcs_row_correct:
  assumes "length xs < 2 ^ 32 - 1"
  shows "lcs_row x ys (map (lcs_len xs) (tails ys)) = map (lcs_len (x # xs)) (tails ys)"
proof (induction ys)
  case (Cons y ys)
  obtain ts where ts: "tails ys = ys # ts" using tails_hd by blast
  have "lcs_len xs ys + 1 < 2 ^ 32" using lcs_len_bound [of xs ys] assms by linarith
  then have "(lcs_len xs ys + 1) mod 2 ^ 32 = lcs_len xs ys + 1" by (rule mod_less)
  moreover have "lcs_row x ys (lcs_len xs ys # map (lcs_len xs) ts) = lcs_len (x # xs) ys # map (lcs_len (x # xs)) ts"
    using Cons.IH by (simp add: ts)
  ultimately show ?case by (simp only: tails.simps ts list.map lcs_row.simps Let_def list.sel lcs_len.simps)
qed simp

lemma lcs_table_correct:
  "length xs < 2 ^ 32 \<Longrightarrow> lcs_table xs ys = map (\<lambda>s. map (lcs_len s) (tails ys)) (tails xs)"
proof (induction xs)
  case Nil
  have "map (lcs_len []) (tails ys) = replicate (Suc (length ys)) 0" by (rule replicate_eqI) auto
  then show ?case by simp
next
  case (Cons x xs)
  then have "lcs_table xs ys = map (\<lambda>s. map (lcs_len s) (tails ys)) (tails xs)" by simp
  moreover have "length xs < 2 ^ 32 - 1" using Cons.prems by simp
  ultimately show ?case using lcs_row_correct [of xs x ys] by (simp add: Let_def hd_map)
qed

lemma lcs_table_nth:
  "length xs < 2 ^ 32 \<Longrightarrow> i \<le> length xs \<Longrightarrow> j \<le> length ys \<Longrightarrow> lcs_table xs ys ! i ! j = lcs_len (drop i xs) (drop j ys)"
  by (simp add: lcs_table_correct nth_tails)

text \<open>The lines of the old text, of the new text, and those kept.\<close>

fun old_line :: "diff_line \<Rightarrow> (jstr \<times> nat) list" where
  "old_line (Context t a b) = [(t, a)]"
| "old_line (Removed t a) = [(t, a)]"
| "old_line (Added t b) = []"

fun new_line :: "diff_line \<Rightarrow> (jstr \<times> nat) list" where
  "new_line (Context t a b) = [(t, b)]"
| "new_line (Removed t a) = []"
| "new_line (Added t b) = [(t, b)]"

fun kept_line :: "diff_line \<Rightarrow> jstr list" where
  "kept_line (Context t a b) = [t]"
| "kept_line d = []"

definition numbered :: "jstr list \<Rightarrow> nat \<Rightarrow> (jstr \<times> nat) list" where
  "numbered xs i = map (\<lambda>k. (xs ! k, k + 1)) [i..<length xs]"

lemma numbered_step: "i < length xs \<Longrightarrow> numbered xs i = (xs ! i, i + 1) # numbered xs (i + 1)"
  by (simp add: numbered_def upt_conv_Cons)

lemma numbered_end [simp]: "length xs \<le> i \<Longrightarrow> numbered xs i = []"
  by (simp add: numbered_def)

lemma walk_match:
  "i < length xs \<Longrightarrow> j < length ys \<Longrightarrow> xs ! i = ys ! j \<Longrightarrow>
   diff_walk xs ys t i j = Context (xs ! i) (i + 1) (j + 1) # diff_walk xs ys t (i + 1) (j + 1)"
  by simp

lemma walk_removed:
  "i < length xs \<Longrightarrow> \<not> (j < length ys \<and> xs ! i = ys ! j) \<Longrightarrow> length ys \<le> j \<or> t ! i ! (j + 1) \<le> t ! (i + 1) ! j \<Longrightarrow>
   diff_walk xs ys t i j = Removed (xs ! i) (i + 1) # diff_walk xs ys t (i + 1) j"
  by simp

lemma walk_added:
  "j < length ys \<Longrightarrow> \<not> (i < length xs \<and> xs ! i = ys ! j) \<Longrightarrow> length xs \<le> i \<or> t ! (i + 1) ! j < t ! i ! (j + 1) \<Longrightarrow>
   diff_walk xs ys t i j = Added (ys ! j) (j + 1) # diff_walk xs ys t i (j + 1)"
  by (subst diff_walk.simps) auto

lemma walk_end: "length xs \<le> i \<Longrightarrow> length ys \<le> j \<Longrightarrow> diff_walk xs ys t i j = []"
  by simp

declare diff_walk.simps [simp del]

text \<open>The four ways that the walk can go on.\<close>

lemma walk_cases:
  fixes t :: "nat list list"
  assumes "i < length xs \<Longrightarrow> j < length ys \<Longrightarrow> xs ! i = ys ! j \<Longrightarrow> P"
    and "i < length xs \<Longrightarrow> \<not> (j < length ys \<and> xs ! i = ys ! j) \<Longrightarrow> length ys \<le> j \<or> t ! i ! (j + 1) \<le> t ! (i + 1) ! j \<Longrightarrow> P"
    and "j < length ys \<Longrightarrow> \<not> (i < length xs \<and> xs ! i = ys ! j) \<Longrightarrow> length xs \<le> i \<or> t ! (i + 1) ! j < t ! i ! (j + 1) \<Longrightarrow> P"
    and "length xs \<le> i \<Longrightarrow> length ys \<le> j \<Longrightarrow> P"
  shows P
proof (cases "i < length xs"; cases "j < length ys")
  assume ij: "i < length xs" "j < length ys"
  show P
  proof (cases "xs ! i = ys ! j")
    case False
    then show P using assms(2,3) ij by (cases "t ! i ! (j + 1) \<le> t ! (i + 1) ! j") (auto simp: not_le)
  qed (rule assms(1) [OF ij])
qed (use assms(2-4) in auto)

lemma walk_induct [case_names Match Removed Added End]:
  fixes t :: "nat list list"
  assumes "\<And>i j. i < length xs \<Longrightarrow> j < length ys \<Longrightarrow> xs ! i = ys ! j \<Longrightarrow> P (i + 1) (j + 1) \<Longrightarrow> P i j"
    and "\<And>i j. i < length xs \<Longrightarrow> \<not> (j < length ys \<and> xs ! i = ys ! j) \<Longrightarrow> length ys \<le> j \<or> t ! i ! (j + 1) \<le> t ! (i + 1) ! j \<Longrightarrow> P (i + 1) j \<Longrightarrow> P i j"
    and "\<And>i j. j < length ys \<Longrightarrow> \<not> (i < length xs \<and> xs ! i = ys ! j) \<Longrightarrow> length xs \<le> i \<or> t ! (i + 1) ! j < t ! i ! (j + 1) \<Longrightarrow> P i (j + 1) \<Longrightarrow> P i j"
    and "\<And>i j. length xs \<le> i \<Longrightarrow> length ys \<le> j \<Longrightarrow> P i j"
  shows "P i j"
proof (induction "(length xs - i) + (length ys - j)" arbitrary: i j rule: less_induct)
  case less
  show ?case
    by (rule walk_cases [of i xs j ys _ t]) (rule assms less; simp)+
qed

lemma diff_walk_sides:
  "concat (map old_line (diff_walk xs ys t i j)) = numbered xs i \<and>
   concat (map new_line (diff_walk xs ys t i j)) = numbered ys j"
proof (induction i j rule: walk_induct [where xs = xs and ys = ys and t = t])
  case (Match i j)
  then show ?case by (simp add: walk_match numbered_step)
next
  case (Removed i j)
  then show ?case by (simp add: walk_removed numbered_step)
next
  case (Added i j)
  then show ?case by (simp add: walk_added numbered_step)
qed (simp add: walk_end)

lemma drop_step: "i < length xs \<Longrightarrow> drop i xs = xs ! i # drop (Suc i) xs"
  by (rule Cons_nth_drop_Suc [symmetric])

lemma diff_walk_kept:
  assumes xs: "length xs < 2 ^ 32"
  shows "i \<le> length xs \<longrightarrow> j \<le> length ys \<longrightarrow>
    length (concat (map kept_line (diff_walk xs ys (lcs_table xs ys) i j))) = lcs_len (drop i xs) (drop j ys)"
proof (induction i j rule: walk_induct [where xs = xs and ys = ys and t = "lcs_table xs ys"])
  case (Match i j)
  then show ?case by (simp add: walk_match drop_step)
next
  case (Removed i j)
  show ?case
  proof (cases "j < length ys")
    case True
    then have "lcs_len (drop i xs) (drop (Suc j) ys) \<le> lcs_len (drop (Suc i) xs) (drop j ys)"
      using Removed lcs_table_nth [OF xs, of i "Suc j" ys] lcs_table_nth [OF xs, of "Suc i" j ys] by simp
    then show ?thesis using Removed True by (simp add: walk_removed drop_step [of i xs] drop_step [of j ys])
  next
    case False
    then show ?thesis using Removed by (simp add: walk_removed)
  qed
next
  case (Added i j)
  show ?case
  proof (cases "i < length xs")
    case True
    then have "lcs_len (drop (Suc i) xs) (drop j ys) \<le> lcs_len (drop i xs) (drop (Suc j) ys)"
      using Added lcs_table_nth [OF xs, of i "Suc j" ys] lcs_table_nth [OF xs, of "Suc i" j ys] by simp
    then show ?thesis using Added True by (simp add: walk_added drop_step [of i xs] drop_step [of j ys])
  next
    case False
    then show ?thesis using Added by (simp add: walk_added)
  qed
qed (simp add: walk_end)

lemma kept_subseq:
  "subseq (concat (map kept_line ds)) (map fst (concat (map old_line ds)))"
  "subseq (concat (map kept_line ds)) (map fst (concat (map new_line ds)))"
proof (induction ds)
  case (Cons d ds)
  { case 1 then show ?case using Cons.IH by (cases d) auto
  next case 2 then show ?case using Cons.IH by (cases d) auto }
qed simp_all

lemma numbered_texts: "map fst (numbered xs 0) = xs"
  by (simp add: numbered_def comp_def map_nth)

lemma product_bound:
  assumes "(m :: nat) * n \<le> 20000" and "0 < n"
  shows "m < 2 ^ 32"
proof -
  have "m \<le> m * n" using assms(2) by simp
  then have "m \<le> 20000" using assms(1) by (rule le_trans)
  then show ?thesis by simp
qed

text \<open>
  C29. The line diff. Two texts of at most 20000 pairs of lines are compared: the lines that the diff does not
  show as added are exactly the lines of the old text with their numbers, those it does not show as removed are
  the lines of the new text, and no common subsequence of the two is longer than what it shows as kept.
\<close>

theorem line_diff_is_minimal:
  fixes a b :: jstr
  assumes "length (text_lines a) * length (text_lines b) \<le> max_lcs_cells"
  defines "ds \<equiv> bd_lines (line_diff a b)"
  shows "\<not> bd_fallback (line_diff a b) \<and>
    concat (map old_line ds) = map (\<lambda>k. (text_lines a ! k, k + 1)) [0..<length (text_lines a)] \<and>
    concat (map new_line ds) = map (\<lambda>k. (text_lines b ! k, k + 1)) [0..<length (text_lines b)] \<and>
    (\<forall>zs. subseq zs (text_lines a) \<longrightarrow> subseq zs (text_lines b) \<longrightarrow> length zs \<le> length (concat (map kept_line ds)))"
proof -
  have ds: "ds = diff_walk (text_lines a) (text_lines b) (lcs_table (text_lines a) (text_lines b)) 0 0"
    using assms(1) by (simp add: ds_def line_diff_def Let_def)
  have "0 < length (text_lines b)" by (simp add: text_lines_def)
  then have "length (text_lines a) < 2 ^ 32" using assms(1) product_bound unfolding max_lcs_cells_def by blast
  from diff_walk_kept [OF this, of 0 0 "text_lines b"]
  have "length (concat (map kept_line ds)) = lcs_len (text_lines a) (text_lines b)" unfolding ds by simp
  then show ?thesis
    using assms(1) diff_walk_sides [of "text_lines a" "text_lines b" "lcs_table (text_lines a) (text_lines b)" 0 0]
      lcs_len_maximal [of _ "text_lines a" "text_lines b"]
    by (simp add: ds numbered_def line_diff_def Let_def)
qed

theorem line_diff_is_minimal_witness:
  "bd_lines (line_diff [97, 10, 98] [97, 13, 10, 99]) = [Context [97] 1 1, Removed [98] 2, Added [99] 2] \<and>
   \<not> bd_fallback (line_diff [97, 10, 98] [97, 13, 10, 99])"
proof -
  have lines: "text_lines [97, 10, 98] = [[97], [98]]" "text_lines [97, 13, 10, 99] = [[97], [99]]"
    by (simp_all add: text_lines_def)
  have cells: "length (text_lines [97, 10, 98]) * length (text_lines [97, 13, 10, 99]) \<le> max_lcs_cells"
    by (simp add: lines max_lcs_cells_def)
  have "bd_lines (line_diff [97, 10, 98] [97, 13, 10, 99]) = [Context [97] 1 1, Removed [98] 2, Added [99] 2]"
    by (simp add: line_diff_def lines max_lcs_cells_def diff_walk.simps numeral_2_eq_2)
  then show ?thesis using line_diff_is_minimal [OF cells] by blast
qed

end
