(* ===== verification/SearchCache.thy ===== *)
theory SearchCache
  imports JsText "HOL-Library.Multiset"
begin

text \<open>
  The cache of search results of the API (\<open>apps/api/search-matches.ts\<close>): least recently used, in two pools.
  Result lists of at most \<open>maxIds\<close> entries share one budget, longer lists another, so neither pool evicts
  the other. The first section states what any evicting cache must keep.
\<close>

section \<open>The contract of an evicting cache\<close>

datatype ('k, 'v) cache_op = Put 'k 'v | Get 'k

fun last_put :: "('k, 'v) cache_op list \<Rightarrow> 'k \<Rightarrow> 'v option" where
  "last_put [] k = None"
| "last_put (op # ops) k = (case last_put ops k of
     Some v \<Rightarrow> Some v
   | None \<Rightarrow> (case op of Put l v \<Rightarrow> if l = k then Some v else None | Get _ \<Rightarrow> None))"

fun run_op :: "('k \<Rightarrow> 'v \<Rightarrow> 's \<Rightarrow> 's) \<Rightarrow> ('k \<Rightarrow> 's \<Rightarrow> 's) \<Rightarrow> ('k, 'v) cache_op \<Rightarrow> 's \<Rightarrow> 's" where
  "run_op store touch (Put k v) s = store k v s"
| "run_op store touch (Get k) s = touch k s"

abbreviation run_ops :: "('k \<Rightarrow> 'v \<Rightarrow> 's \<Rightarrow> 's) \<Rightarrow> ('k \<Rightarrow> 's \<Rightarrow> 's) \<Rightarrow> ('k, 'v) cache_op list \<Rightarrow> 's \<Rightarrow> 's" where
  "run_ops store touch \<equiv> fold (run_op store touch)"

locale evicting_cache =
  fixes lookup :: "'s \<Rightarrow> 'k \<Rightarrow> 'v option"
    and store :: "'k \<Rightarrow> 'v \<Rightarrow> 's \<Rightarrow> 's"
    and touch :: "'k \<Rightarrow> 's \<Rightarrow> 's"
    and good :: "'s \<Rightarrow> bool"
  assumes store_good: "good s \<Longrightarrow> good (store k v s)"
    and touch_good: "good s \<Longrightarrow> good (touch k s)"
    and lookup_store: "good s \<Longrightarrow> lookup (store k v s) l = Some w \<Longrightarrow> if l = k then w = v else lookup s l = Some w"
    and lookup_touch: "good s \<Longrightarrow> lookup (touch k s) l = lookup s l"
begin

lemma run_op_good: "good s \<Longrightarrow> good (run_op store touch op s)"
  by (cases op) (simp_all add: store_good touch_good)

lemma run_ops_good: "good s \<Longrightarrow> good (run_ops store touch ops s)"
  by (induction ops arbitrary: s) (simp_all add: run_op_good)

lemma never_stale:
  "good s \<Longrightarrow> lookup (run_ops store touch ops s) k = Some v \<Longrightarrow> (case last_put ops k of Some w \<Rightarrow> v = w | None \<Rightarrow> lookup s k = Some v)"
proof (induction ops arbitrary: s)
  case (Cons op ops)
  note IH = Cons.IH [OF run_op_good [OF Cons.prems(1)], of op]
  show ?case
  proof (cases "last_put ops k")
    case None
    then have "lookup (run_op store touch op s) k = Some v" using IH Cons.prems(2) by simp
    then show ?thesis using lookup_store [OF Cons.prems(1)] lookup_touch [OF Cons.prems(1)] None by (cases op) fastforce+
  next
    case (Some w)
    then show ?thesis using IH Cons.prems(2) by simp
  qed
qed simp

end

section \<open>The cache\<close>

record cache_limits =
  max_entries :: int
  max_ids :: int
  max_bytes :: int
  max_oversized_bytes :: int

definition default_limits :: cache_limits where
  "default_limits = \<lparr>max_entries = 8, max_ids = 20000, max_bytes = 2 * 1024 * 1024, max_oversized_bytes = 64 * 1024 * 1024\<rparr>"

text \<open>The entries in the order of the \<open>Map\<close>: a used or new entry is the last one.\<close>

record match_cache =
  mc_entries :: "(jstr \<times> jstr list \<times> int) list"
  mc_ids :: int
  mc_bytes :: int
  mc_oversized_ids :: int
  mc_oversized_bytes :: int
  mc_oversized :: "jstr list"
  mc_hits :: int
  mc_misses :: int

definition new_cache :: match_cache where
  "new_cache = \<lparr>mc_entries = [], mc_ids = 0, mc_bytes = 0, mc_oversized_ids = 0, mc_oversized_bytes = 0,
     mc_oversized = [], mc_hits = 0, mc_misses = 0\<rparr>"

definition drop_key :: "'k \<Rightarrow> ('k \<times> 'v) list \<Rightarrow> ('k \<times> 'v) list" where
  "drop_key k es = filter (\<lambda>(l, _). l \<noteq> k) es"

definition cache_get :: "jstr \<Rightarrow> match_cache \<Rightarrow> jstr list option \<times> match_cache" where
  "cache_get k c = (case map_of (mc_entries c) k of
     None \<Rightarrow> (None, c\<lparr>mc_misses := mc_misses c + 1\<rparr>)
   | Some (ids, bytes) \<Rightarrow> (Some ids, c\<lparr>mc_hits := mc_hits c + 1,
       mc_entries := drop_key k (mc_entries c) @ [(k, ids, bytes)]\<rparr>))"

definition cache_remove :: "jstr \<Rightarrow> match_cache \<Rightarrow> match_cache" where
  "cache_remove k c = (case map_of (mc_entries c) k of
     None \<Rightarrow> c
   | Some (ids, bytes) \<Rightarrow>
       (let c = c\<lparr>mc_entries := drop_key k (mc_entries c), mc_ids := mc_ids c - int (length ids), mc_bytes := mc_bytes c - bytes\<rparr> in
        if k \<in> set (mc_oversized c)
        then c\<lparr>mc_oversized := removeAll k (mc_oversized c),
               mc_oversized_ids := mc_oversized_ids c - int (length ids), mc_oversized_bytes := mc_oversized_bytes c - bytes\<rparr>
        else c))"

lemma cache_remove_shorter [termination_simp]:
  "k \<in> fst ` set (mc_entries c) \<Longrightarrow> length (mc_entries (cache_remove k c)) < length (mc_entries c)"
proof -
  assume k: "k \<in> fst ` set (mc_entries c)"
  then obtain ids bytes where e: "map_of (mc_entries c) k = Some (ids, bytes)"
    by (cases "map_of (mc_entries c) k") (auto simp: map_of_eq_None_iff)
  have "length (drop_key k (mc_entries c)) < length (mc_entries c)"
    unfolding drop_key_def using map_of_SomeD [OF e] by (rule length_filter_less) simp
  then show ?thesis using e by (simp add: cache_remove_def Let_def)
qed

lemma find_member: "find P xs = Some x \<Longrightarrow> x \<in> set xs \<and> P x"
  by (auto simp: find_Some_iff)

definition oldest :: "bool \<Rightarrow> match_cache \<Rightarrow> jstr option" where
  "oldest big c = find (\<lambda>k. (k \<in> set (mc_oversized c)) = big) (map fst (mc_entries c))"

lemma oldest_member: "oldest big c = Some k \<Longrightarrow> k \<in> fst ` set (mc_entries c) \<and> (k \<in> set (mc_oversized c)) = big"
  unfolding oldest_def by (drule find_member) simp

text \<open>The two loops: evict from the pool of the new entry until it fits or the pool is empty.\<close>

definition oversized_full :: "cache_limits \<Rightarrow> int \<Rightarrow> match_cache \<Rightarrow> bool" where
  "oversized_full lim bytes c \<longleftrightarrow> max_entries lim \<le> int (length (mc_oversized c)) \<or> max_oversized_bytes lim < mc_oversized_bytes c + bytes"

definition normal_full :: "cache_limits \<Rightarrow> int \<Rightarrow> int \<Rightarrow> match_cache \<Rightarrow> bool" where
  "normal_full lim n bytes c \<longleftrightarrow>
     max_entries lim \<le> int (length (mc_entries c)) - int (length (mc_oversized c)) \<or>
     max_ids lim < mc_ids c - mc_oversized_ids c + n \<or>
     max_bytes lim < mc_bytes c - mc_oversized_bytes c + bytes"

function evict :: "bool \<Rightarrow> (match_cache \<Rightarrow> bool) \<Rightarrow> match_cache \<Rightarrow> match_cache" where
  "evict big full c = (if full c then (case oldest big c of None \<Rightarrow> c | Some k \<Rightarrow> evict big full (cache_remove k c)) else c)"
  by pat_completeness auto
termination
  by (relation "measure (\<lambda>(big, full, c). length (mc_entries c))") (auto dest: oldest_member intro: cache_remove_shorter)

definition entry_bytes :: "jstr \<Rightarrow> jstr list \<Rightarrow> int" where
  "entry_bytes k ids = int (byte_length k) + sum_list (map (\<lambda>i. int (byte_length i)) ids)"

definition cache_insert :: "jstr \<Rightarrow> jstr list \<Rightarrow> int \<Rightarrow> match_cache \<Rightarrow> match_cache" where
  "cache_insert k ids bytes c = c\<lparr>mc_entries := drop_key k (mc_entries c) @ [(k, ids, bytes)],
     mc_ids := mc_ids c + int (length ids), mc_bytes := mc_bytes c + bytes\<rparr>"

definition cache_put :: "cache_limits \<Rightarrow> jstr \<Rightarrow> jstr list \<Rightarrow> match_cache \<Rightarrow> match_cache" where
  "cache_put lim k ids cache =
     (let c = cache_remove k cache; bytes = entry_bytes k ids; n = int (length ids) in
      if max_ids lim < n then
        if max_oversized_bytes lim < bytes then c
        else (let c = evict True (oversized_full lim bytes) c in
          cache_insert k ids bytes (c\<lparr>mc_oversized := mc_oversized c @ [k],
            mc_oversized_ids := mc_oversized_ids c + n, mc_oversized_bytes := mc_oversized_bytes c + bytes\<rparr>))
      else if max_bytes lim < bytes then c
      else cache_insert k ids bytes (evict False (normal_full lim n bytes) c))"

record cache_stats =
  cs_entries :: nat
  cs_ids :: int
  cs_bytes :: int
  cs_oversized :: bool
  cs_oversized_entries :: nat
  cs_hits :: int
  cs_misses :: int

definition stats :: "match_cache \<Rightarrow> cache_stats" where
  "stats c = \<lparr>cs_entries = length (mc_entries c), cs_ids = mc_ids c, cs_bytes = mc_bytes c,
     cs_oversized = (mc_oversized c \<noteq> []), cs_oversized_entries = length (mc_oversized c),
     cs_hits = mc_hits c, cs_misses = mc_misses c\<rparr>"

section \<open>The invariant\<close>

text \<open>The entries of one pool, and what they add up to.\<close>

definition pool :: "bool \<Rightarrow> match_cache \<Rightarrow> (jstr \<times> jstr list \<times> int) list" where
  "pool big c = filter (\<lambda>(k, _). (k \<in> set (mc_oversized c)) = big) (mc_entries c)"

definition ids_total :: "(jstr \<times> jstr list \<times> int) list \<Rightarrow> int" where
  "ids_total es = sum_list (map (\<lambda>(_, ids, _). int (length ids)) es)"

definition bytes_total :: "(jstr \<times> jstr list \<times> int) list \<Rightarrow> int" where
  "bytes_total es = sum_list (map (\<lambda>(_, _, b). b) es)"

definition counted :: "match_cache \<Rightarrow> bool" where
  "counted c \<longleftrightarrow> distinct (map fst (mc_entries c)) \<and> distinct (mc_oversized c) \<and>
     set (mc_oversized c) \<subseteq> fst ` set (mc_entries c) \<and>
     (\<forall>(k, ids, b) \<in> set (mc_entries c). b = entry_bytes k ids) \<and>
     mc_ids c = ids_total (mc_entries c) \<and> mc_bytes c = bytes_total (mc_entries c) \<and>
     mc_oversized_ids c = ids_total (pool True c) \<and> mc_oversized_bytes c = bytes_total (pool True c)"

definition within_limits :: "cache_limits \<Rightarrow> match_cache \<Rightarrow> bool" where
  "within_limits lim c \<longleftrightarrow>
     int (length (pool False c)) \<le> max_entries lim \<and> ids_total (pool False c) \<le> max_ids lim \<and> bytes_total (pool False c) \<le> max_bytes lim \<and>
     int (length (pool True c)) \<le> max_entries lim \<and> bytes_total (pool True c) \<le> max_oversized_bytes lim"

section \<open>Dropping an entry\<close>

lemma drop_key_absent: "k \<notin> fst ` set es \<Longrightarrow> drop_key k es = es"
  by (force simp: drop_key_def intro!: filter_True)

lemma drop_key_keys [simp]: "fst ` set (drop_key k es) = fst ` set es - {k}"
  by (auto simp: drop_key_def)

lemma distinct_drop_key: "distinct (map fst es) \<Longrightarrow> distinct (map fst (drop_key k es))"
  by (induction es) (auto simp: drop_key_def)

lemma map_of_drop_key: "map_of (drop_key k es) l = (if l = k then None else map_of es l)"
  by (induction es) (auto simp: drop_key_def)

lemma totals_drop:
  assumes "distinct (map fst es)" and "map_of es k = Some (ids, b)"
  shows "ids_total (drop_key k es) = ids_total es - int (length ids)" and "bytes_total (drop_key k es) = bytes_total es - b"
  using assms
proof (induction es)
  case (Cons e es)
  { case 1 then show ?case using Cons.IH drop_key_absent [of k es]
      by (cases e) (auto simp: drop_key_def ids_total_def bytes_total_def split: if_splits)
  next
    case 2 then show ?case using Cons.IH drop_key_absent [of k es]
      by (cases e) (auto simp: drop_key_def ids_total_def bytes_total_def split: if_splits) }
qed simp_all

lemma totals_append [simp]:
  "ids_total (es @ fs) = ids_total es + ids_total fs" "bytes_total (es @ fs) = bytes_total es + bytes_total fs"
  "ids_total [] = 0" "bytes_total [] = 0" "ids_total [(k, ids, b)] = int (length ids)" "bytes_total [(k, ids, b)] = b"
  by (simp_all add: ids_total_def bytes_total_def)

lemma totals_filter_le:
  "ids_total (filter P es) \<le> ids_total es"
  "(\<forall>(k, ids, b) \<in> set es. 0 \<le> b) \<Longrightarrow> bytes_total (filter P es) \<le> bytes_total es"
  by (induction es) (auto simp: ids_total_def bytes_total_def)

lemma filter_drop_key: "filter (\<lambda>(l, _). P l) (drop_key k es) = drop_key k (filter (\<lambda>(l, _). P l) es)"
  by (induction es) (auto simp: drop_key_def)

lemma entry_bytes_nonneg: "0 \<le> entry_bytes k ids"
  by (auto simp: entry_bytes_def intro!: add_nonneg_nonneg sum_list_nonneg)

lemma counted_nonneg: "counted c \<Longrightarrow> \<forall>(k, ids, b) \<in> set (mc_entries c). 0 \<le> b"
  using entry_bytes_nonneg by (fastforce simp: counted_def)

lemma map_of_filter_keys: "map_of (filter (\<lambda>(l, _). P l) es) k = (if P k then map_of es k else None)"
  by (induction es) auto

lemma map_of_pool: "map_of (pool big c) k = (if (k \<in> set (mc_oversized c)) = big then map_of (mc_entries c) k else None)"
  unfolding pool_def by (rule map_of_filter_keys)

section \<open>Removing\<close>

lemma remove_entries:
  "mc_entries (cache_remove k c) = drop_key k (mc_entries c)"
  by (auto simp: cache_remove_def Let_def drop_key_absent map_of_eq_None_iff split: option.splits)

lemma remove_oversized:
  assumes "counted c"
  shows "mc_oversized (cache_remove k c) = removeAll k (mc_oversized c)"
proof (cases "k \<in> set (mc_oversized c)")
  case True
  then obtain e where "map_of (mc_entries c) k = Some e"
    using assms by (cases "map_of (mc_entries c) k") (auto simp: counted_def map_of_eq_None_iff)
  then show ?thesis using True by (cases e) (simp add: cache_remove_def Let_def)
next
  case False
  then show ?thesis by (simp add: cache_remove_def Let_def removeAll_id split: option.splits)
qed

lemma pool_remove:
  assumes "counted c"
  shows "pool big (cache_remove k c) = drop_key k (pool big c)"
proof -
  have "pool big (cache_remove k c) = filter (\<lambda>(l, _). (l \<in> set (removeAll k (mc_oversized c))) = big) (drop_key k (mc_entries c))"
    by (simp add: pool_def remove_entries remove_oversized [OF assms])
  also have "\<dots> = drop_key k (filter (\<lambda>(l, _). (l \<in> set (mc_oversized c)) = big) (mc_entries c))"
    unfolding drop_key_def by (auto simp: filter_filter intro!: filter_cong)
  finally show ?thesis by (simp add: pool_def)
qed

lemma counted_remove: "counted c \<Longrightarrow> counted (cache_remove k c)"
proof (cases "map_of (mc_entries c) k")
  case None
  then show "counted c \<Longrightarrow> ?thesis" by (simp add: cache_remove_def)
next
  case (Some e)
  assume c: "counted c"
  obtain ids b where e: "map_of (mc_entries c) k = Some (ids, b)" using Some by (cases e) auto
  have d: "distinct (map fst (mc_entries c))" "distinct (map fst (pool True c))"
    using c by (auto simp: counted_def pool_def distinct_map_filter)
  have sums: "mc_ids (cache_remove k c) = ids_total (drop_key k (mc_entries c))"
      "mc_bytes (cache_remove k c) = bytes_total (drop_key k (mc_entries c))"
    using totals_drop [OF d(1) e] c by (simp_all add: cache_remove_def e Let_def counted_def)
  have "mc_oversized_ids (cache_remove k c) = ids_total (drop_key k (pool True c)) \<and>
      mc_oversized_bytes (cache_remove k c) = bytes_total (drop_key k (pool True c))"
  proof (cases "k \<in> set (mc_oversized c)")
    case True
    then have "map_of (pool True c) k = Some (ids, b)" using e by (simp add: map_of_pool)
    then show ?thesis using totals_drop [OF d(2)] c True by (simp add: cache_remove_def e Let_def counted_def)
  next
    case False
    then have "map_of (pool True c) k = None" by (simp add: map_of_pool)
    then have "drop_key k (pool True c) = pool True c" by (intro drop_key_absent) (simp add: map_of_eq_None_iff)
    then show ?thesis using c False by (simp add: cache_remove_def e Let_def counted_def)
  qed
  then show ?thesis
    using c d(1) sums unfolding counted_def
    by (simp add: remove_entries remove_oversized [OF c] pool_remove [OF c] distinct_drop_key distinct_removeAll)
      (auto simp: drop_key_def)
qed

section \<open>Evicting\<close>

declare evict.simps [simp del]

lemma oldest_None: "oldest big c = None \<Longrightarrow> pool big c = []"
  unfolding oldest_def pool_def find_None_iff by (rule filter_False) auto

lemma evict_steps:
  assumes "counted c"
  shows "counted (evict big full c) \<and> (\<not> full (evict big full c) \<or> pool big (evict big full c) = []) \<and>
    pool (\<not> big) (evict big full c) = pool (\<not> big) c \<and>
    (\<exists>ks. (\<forall>l. map_of (mc_entries (evict big full c)) l = (if l \<in> ks then None else map_of (mc_entries c) l)))"
  using assms
proof (induction big full c rule: evict.induct)
  case (1 big full c)
  show ?case
  proof (cases "full c \<and> oldest big c \<noteq> None")
    case True
    then obtain k where k: "full c" "oldest big c = Some k" by auto
    note IH = "1.IH" [OF k counted_remove [OF "1.prems"]]
    have "k \<notin> fst ` set (pool (\<not> big) c)" using oldest_member [OF k(2)] by (auto simp: pool_def)
    then have "pool (\<not> big) (cache_remove k c) = pool (\<not> big) c"
      by (simp add: pool_remove [OF "1.prems"] drop_key_absent)
    moreover obtain ks where "\<forall>l. map_of (mc_entries (evict big full (cache_remove k c))) l =
        (if l \<in> ks then None else map_of (mc_entries (cache_remove k c)) l)" using IH by blast
    then have "\<forall>l. map_of (mc_entries (evict big full (cache_remove k c))) l = (if l \<in> insert k ks then None else map_of (mc_entries c) l)"
      by (simp add: remove_entries map_of_drop_key)
    moreover have "evict big full c = evict big full (cache_remove k c)" using k by (simp add: evict.simps [of big full c])
    ultimately show ?thesis using IH by auto
  next
    case False
    then have "evict big full c = c" by (subst evict.simps) (auto split: option.splits)
    moreover have "\<not> full c \<or> pool big c = []" using False oldest_None by blast
    ultimately show ?thesis using "1.prems" by (auto intro: exI [of _ "{}"])
  qed
qed

lemmas counted_evict = evict_steps [THEN conjunct1]

lemma evict_lookup: "counted c \<Longrightarrow> map_of (mc_entries (evict big full c)) l = Some e \<Longrightarrow> map_of (mc_entries c) l = Some e"
  using evict_steps [of c big full] by (metis option.distinct(1))

lemma evict_absent: "counted c \<Longrightarrow> map_of (mc_entries c) l = None \<Longrightarrow> map_of (mc_entries (evict big full c)) l = None"
  using evict_lookup by (metis not_None_eq)

section \<open>The pools\<close>

lemma pool_sizes:
  assumes "counted c"
  shows "length (pool True c) = length (mc_oversized c)" "length (pool False c) + length (mc_oversized c) = length (mc_entries c)"
    "ids_total (pool False c) = mc_ids c - mc_oversized_ids c" "bytes_total (pool False c) = mc_bytes c - mc_oversized_bytes c"
proof -
  have split: "length (filter P es) + length (filter (\<lambda>e. \<not> P e) es) = length es"
      "ids_total (filter P es) + ids_total (filter (\<lambda>e. \<not> P e) es) = ids_total es"
      "bytes_total (filter P es) + bytes_total (filter (\<lambda>e. \<not> P e) es) = bytes_total es" for P and es :: "(jstr \<times> jstr list \<times> int) list"
    by (induction es) (auto simp: ids_total_def bytes_total_def)
  have pools: "pool True c = filter (\<lambda>e. fst e \<in> set (mc_oversized c)) (mc_entries c)"
      "pool False c = filter (\<lambda>e. fst e \<notin> set (mc_oversized c)) (mc_entries c)"
    by (auto simp: pool_def intro!: filter_cong)
  have "set (map fst (pool True c)) = set (mc_oversized c)" using assms by (auto simp: counted_def pools)
  moreover have "distinct (map fst (pool True c))" using assms by (simp add: counted_def pools distinct_map_filter)
  moreover have "distinct (mc_oversized c)" using assms by (simp add: counted_def)
  ultimately show big: "length (pool True c) = length (mc_oversized c)" by (metis distinct_card length_map)
  show "length (pool False c) + length (mc_oversized c) = length (mc_entries c)"
    using split(1) [of "\<lambda>e. fst e \<in> set (mc_oversized c)" "mc_entries c"] big by (simp add: pools)
  show "ids_total (pool False c) = mc_ids c - mc_oversized_ids c" "bytes_total (pool False c) = mc_bytes c - mc_oversized_bytes c"
    using split(2,3) [of "\<lambda>e. fst e \<in> set (mc_oversized c)" "mc_entries c"] assms by (simp_all add: pools counted_def)
qed

lemma counted_insert:
  assumes "counted c" and "map_of (mc_entries c) k = None"
  shows "counted (cache_insert k ids (entry_bytes k ids) c) \<and>
    pool False (cache_insert k ids (entry_bytes k ids) c) = pool False c @ [(k, ids, entry_bytes k ids)] \<and>
    pool True (cache_insert k ids (entry_bytes k ids) c) = pool True c"
proof -
  have k: "k \<notin> fst ` set (mc_entries c)" "k \<notin> set (mc_oversized c)" using assms by (auto simp: map_of_eq_None_iff counted_def)
  then have "pool False (cache_insert k ids (entry_bytes k ids) c) = pool False c @ [(k, ids, entry_bytes k ids)]"
      "pool True (cache_insert k ids (entry_bytes k ids) c) = pool True c"
    by (simp_all add: pool_def cache_insert_def drop_key_absent)
  moreover from this have "counted (cache_insert k ids (entry_bytes k ids) c)"
    using assms(1) k unfolding counted_def by (auto simp: cache_insert_def drop_key_absent)
  ultimately show ?thesis by blast
qed

lemma counted_insert_oversized:
  fixes c :: match_cache and ids :: "jstr list"
  assumes "counted c" and "map_of (mc_entries c) k = None"
  defines "d \<equiv> cache_insert k ids (entry_bytes k ids) (c\<lparr>mc_oversized := mc_oversized c @ [k],
            mc_oversized_ids := mc_oversized_ids c + int (length ids), mc_oversized_bytes := mc_oversized_bytes c + entry_bytes k ids\<rparr>)"
  shows "counted d \<and> pool True d = pool True c @ [(k, ids, entry_bytes k ids)] \<and> pool False d = pool False c"
proof -
  have k: "k \<notin> fst ` set (mc_entries c)" "k \<notin> set (mc_oversized c)" using assms by (auto simp: map_of_eq_None_iff counted_def)
  have filters: "filter (\<lambda>(l, _). (l \<in> set (mc_oversized c @ [k])) = big) (mc_entries c) = pool big c" for big
    unfolding pool_def using k by (intro filter_cong) (auto simp: image_iff split: prod.splits)
  then have pools: "pool True d = pool True c @ [(k, ids, entry_bytes k ids)]" "pool False d = pool False c"
    using k filters [of True] filters [of False] by (simp_all add: pool_def d_def cache_insert_def drop_key_absent)
  moreover have "counted d"
    using assms(1) k unfolding counted_def by (auto simp: pools) (auto simp: d_def cache_insert_def drop_key_absent)
  ultimately show ?thesis by blast
qed

section \<open>What the cache keeps\<close>

text \<open>The maximum of a limit and what a pool holds is never raised by removing.\<close>

definition lookup_ids :: "match_cache \<Rightarrow> jstr \<Rightarrow> jstr list option" where
  "lookup_ids c k = map_option fst (map_of (mc_entries c) k)"

definition room_for_one :: "cache_limits \<Rightarrow> bool" where
  "room_for_one lim \<longleftrightarrow> 1 \<le> max_entries lim \<and> 0 \<le> max_ids lim \<and> 0 \<le> max_bytes lim \<and> 0 \<le> max_oversized_bytes lim"

definition good_cache :: "cache_limits \<Rightarrow> match_cache \<Rightarrow> bool" where
  "good_cache lim c \<longleftrightarrow> counted c \<and> (room_for_one lim \<longrightarrow> within_limits lim c)"

lemma good_new: "good_cache lim new_cache"
  by (simp add: good_cache_def counted_def within_limits_def room_for_one_def new_cache_def pool_def)

lemma pool_less:
  assumes "counted c"
  shows "length (pool big (cache_remove k c)) \<le> length (pool big c)" "ids_total (pool big (cache_remove k c)) \<le> ids_total (pool big c)"
    "bytes_total (pool big (cache_remove k c)) \<le> bytes_total (pool big c)"
proof -
  have "\<forall>(k, ids, b) \<in> set (pool big c). 0 \<le> b" using counted_nonneg [OF assms] by (auto simp: pool_def)
  then show "length (pool big (cache_remove k c)) \<le> length (pool big c)" "ids_total (pool big (cache_remove k c)) \<le> ids_total (pool big c)"
      "bytes_total (pool big (cache_remove k c)) \<le> bytes_total (pool big c)"
    unfolding pool_remove [OF assms] drop_key_def by (auto intro!: totals_filter_le)
qed

lemma good_remove: "good_cache lim c \<Longrightarrow> good_cache lim (cache_remove k c)"
  using pool_less [of c True k] pool_less [of c False k] counted_remove [of c k]
  by (fastforce simp: good_cache_def within_limits_def)

text \<open>The new entry fits after the evictions of its pool.\<close>

lemma evict_makes_room:
  assumes "counted c" and "room_for_one lim"
  shows "n \<le> max_ids lim \<Longrightarrow> b \<le> max_bytes lim \<Longrightarrow> \<not> normal_full lim n b (evict False (normal_full lim n b) c)"
    and "b \<le> max_oversized_bytes lim \<Longrightarrow> \<not> oversized_full lim b (evict True (oversized_full lim b) c)"
proof -
  let ?d = "evict False (normal_full lim n b) c"
  have d: "counted ?d" "\<not> normal_full lim n b ?d \<or> pool False ?d = []" using evict_steps [OF assms(1), of False "normal_full lim n b"] by blast+
  show "n \<le> max_ids lim \<Longrightarrow> b \<le> max_bytes lim \<Longrightarrow> \<not> normal_full lim n b ?d"
    using d(2) pool_sizes [OF d(1)] assms(2) by (auto simp: normal_full_def room_for_one_def)
  let ?e = "evict True (oversized_full lim b) c"
  have e: "counted ?e" "\<not> oversized_full lim b ?e \<or> pool True ?e = []" using evict_steps [OF assms(1), of True "oversized_full lim b"] by blast+
  show "b \<le> max_oversized_bytes lim \<Longrightarrow> \<not> oversized_full lim b ?e"
    using e(2) pool_sizes [OF e(1)] e(1) assms(2) by (auto simp: oversized_full_def room_for_one_def counted_def)
qed

lemma removed_absent: "map_of (mc_entries (cache_remove k c)) k = None"
  by (simp add: remove_entries map_of_drop_key)

lemma good_put:
  assumes "good_cache lim c"
  shows "good_cache lim (cache_put lim k ids c)"
proof -
  let ?r = "cache_remove k c" and ?b = "entry_bytes k ids" and ?n = "int (length ids)"
  have r: "good_cache lim ?r" "counted ?r" using good_remove [OF assms] by (simp_all add: good_cache_def)
  let ?big = "evict True (oversized_full lim ?b) ?r" and ?small = "evict False (normal_full lim ?n ?b) ?r"
  have big: "counted ?big" "map_of (mc_entries ?big) k = None" "pool False ?big = pool False ?r"
    using evict_steps [OF r(2), of True "oversized_full lim ?b"] evict_absent [OF r(2) removed_absent] by simp_all
  have small: "counted ?small" "map_of (mc_entries ?small) k = None" "pool True ?small = pool True ?r"
    using evict_steps [OF r(2), of False "normal_full lim ?n ?b"] evict_absent [OF r(2) removed_absent] by simp_all
  note fit = evict_makes_room [OF r(2)]
  show ?thesis
  proof (cases "max_ids lim < ?n")
    case True
    show ?thesis
    proof (cases "max_oversized_bytes lim < ?b")
      case False
      let ?d = "cache_insert k ids ?b (?big\<lparr>mc_oversized := mc_oversized ?big @ [k],
            mc_oversized_ids := mc_oversized_ids ?big + ?n, mc_oversized_bytes := mc_oversized_bytes ?big + ?b\<rparr>)"
      have "within_limits lim ?d" if lim: "room_for_one lim"
      proof -
        have "\<not> oversized_full lim ?b ?big" using fit(2) [OF lim] False by simp
        then show ?thesis
          using r(1) lim counted_insert_oversized [OF big(1,2), of ids] pool_sizes [OF big(1)] big(1,3)
          by (simp add: good_cache_def within_limits_def oversized_full_def counted_def)
      qed
      then show ?thesis using counted_insert_oversized [OF big(1,2), of ids] True False
        by (simp add: cache_put_def Let_def good_cache_def)
    qed (use r True in \<open>simp add: cache_put_def Let_def\<close>)
  next
    case False
    show ?thesis
    proof (cases "max_bytes lim < ?b")
      case small_bytes: False
      have "within_limits lim (cache_insert k ids ?b ?small)" if lim: "room_for_one lim"
      proof -
        have "\<not> normal_full lim ?n ?b ?small" using fit(1) [OF lim] False small_bytes by simp
        then show ?thesis
          using r(1) lim counted_insert [OF small(1,2), of ids] pool_sizes [OF small(1)] small(3)
          by (simp add: good_cache_def within_limits_def normal_full_def)
      qed
      then show ?thesis using counted_insert [OF small(1,2), of ids] False small_bytes
        by (simp add: cache_put_def Let_def good_cache_def)
    qed (use r False in \<open>simp add: cache_put_def Let_def\<close>)
  qed
qed

lemma get_entries:
  "distinct (map fst (mc_entries c)) \<Longrightarrow> map_of (mc_entries (snd (cache_get k c))) l = map_of (mc_entries c) l"
  by (auto simp: cache_get_def map_of_drop_key map_add_def split: option.splits)

lemma drop_key_back:
  assumes "distinct (map fst es)" and "map_of es k = Some e"
  shows "\<exists>fs gs. es = fs @ (k, e) # gs \<and> drop_key k es = fs @ gs"
proof -
  obtain fs gs where es: "es = fs @ (k, e) # gs" using map_of_SomeD [OF assms(2)] by (auto simp: in_set_conv_decomp)
  then have "drop_key k fs = fs" "drop_key k gs = gs" using assms(1) by (auto intro!: drop_key_absent)
  then show ?thesis using es by (auto simp: drop_key_def)
qed

text \<open>Moving an entry to the end changes no total.\<close>

lemma totals_mset:
  assumes "mset es = mset fs"
  shows "ids_total es = ids_total fs" "bytes_total es = bytes_total fs" "length es = length fs" "set es = set fs"
    "distinct (map fst es) = distinct (map fst fs)"
proof -
  show "ids_total es = ids_total fs" "bytes_total es = bytes_total fs"
    unfolding ids_total_def bytes_total_def sum_mset_sum_list [symmetric] mset_map assms by (rule refl)+
  show "length es = length fs" "set es = set fs" using mset_eq_length [OF assms] mset_eq_setD [OF assms] by blast+
  show "distinct (map fst es) = distinct (map fst fs)" using assms by (intro mset_eq_imp_distinct_iff) simp
qed

lemma good_moved:
  assumes "good_cache lim c" and "mset es = mset (mc_entries c)"
  shows "good_cache lim (c\<lparr>mc_hits := h, mc_entries := es\<rparr>)"
proof -
  have pools: "mset (pool big (c\<lparr>mc_hits := h, mc_entries := es\<rparr>)) = mset (pool big c)" for big
    using assms(2) by (simp add: pool_def)
  show ?thesis
    using assms(1) totals_mset [OF assms(2)] totals_mset [OF pools [of True]] totals_mset [OF pools [of False]]
    by (simp add: good_cache_def counted_def within_limits_def)
qed

lemma good_get:
  assumes "good_cache lim c"
  shows "good_cache lim (snd (cache_get k c))"
proof (cases "map_of (mc_entries c) k")
  case None
  then show ?thesis using assms by (simp add: cache_get_def good_cache_def counted_def within_limits_def pool_def)
next
  case (Some e)
  obtain ids b where e: "e = (ids, b)" by (cases e)
  obtain fs gs where es: "mc_entries c = fs @ (k, ids, b) # gs" "drop_key k (mc_entries c) = fs @ gs"
    using drop_key_back [of "mc_entries c" k e] Some assms e by (auto simp: good_cache_def counted_def)
  then have "mset (drop_key k (mc_entries c) @ [(k, ids, b)]) = mset (mc_entries c)" by simp
  then show ?thesis using good_moved [OF assms] Some e by (simp add: cache_get_def)
qed

lemma put_lookup:
  assumes "good_cache lim c" and "lookup_ids (cache_put lim k ids c) l = Some v"
  shows "if l = k then v = ids else lookup_ids c l = Some v"
proof -
  have c: "counted c" "counted (cache_remove k c)" using assms(1) counted_remove by (auto simp: good_cache_def)
  have gone: "lookup_ids (cache_remove k c) m = (if m = k then None else lookup_ids c m)" for m
    by (simp add: lookup_ids_def remove_entries map_of_drop_key)
  have evicted: "lookup_ids (evict big full (cache_remove k c)) m = Some w \<Longrightarrow> m \<noteq> k \<and> lookup_ids c m = Some w" for big full m w
  proof -
    assume "lookup_ids (evict big full (cache_remove k c)) m = Some w"
    then have "lookup_ids (cache_remove k c) m = Some w" using evict_lookup [OF c(2)] by (auto simp: lookup_ids_def)
    then show ?thesis using gone [of m] by (simp split: if_splits)
  qed
  have ins: "lookup_ids (cache_insert k ids b d) m = (if m = k then Some ids else lookup_ids d m)" for b d m
    by (simp add: lookup_ids_def cache_insert_def map_of_drop_key map_add_def split: option.splits)
  have more: "lookup_ids (d\<lparr>mc_oversized := ks, mc_oversized_ids := x, mc_oversized_bytes := y\<rparr>) m = lookup_ids d m" for d ks x y m
    by (simp add: lookup_ids_def)
  show ?thesis using assms(2) evicted gone
    by (auto simp: cache_put_def Let_def ins more split: if_splits)
qed

interpretation search_matches: evicting_cache lookup_ids "cache_put lim" "\<lambda>k c. snd (cache_get k c)" "good_cache lim" for lim
proof unfold_locales
  show "good_cache lim c \<Longrightarrow> lookup_ids (snd (cache_get k c)) l = lookup_ids c l" for c k l
    by (simp add: lookup_ids_def get_entries good_cache_def counted_def)
qed (use good_put good_get put_lookup in blast)+

text \<open>
  C27. The cache never returns a stale result: what a lookup returns after any sequence of lookups and
  insertions is what was last put under the key.
\<close>

theorem search_results_never_stale:
  assumes "fst (cache_get k (run_ops (cache_put lim) (\<lambda>k c. snd (cache_get k c)) ops new_cache)) = Some ids"
  shows "last_put ops k = Some ids"
proof -
  have "lookup_ids (run_ops (cache_put lim) (\<lambda>k c. snd (cache_get k c)) ops new_cache) k = Some ids"
    using assms by (simp add: cache_get_def lookup_ids_def split: option.splits prod.splits)
  from search_matches.never_stale [OF good_new this] show ?thesis
    by (simp add: lookup_ids_def new_cache_def split: option.splits)
qed

theorem search_results_never_stale_witness:
  "fst (cache_get [1] (run_ops (cache_put default_limits) (\<lambda>k c. snd (cache_get k c)) [Put [1] [[2]], Get [1]] new_cache)) = Some [[2]] \<and>
   last_put [Put [1] [[2 :: cunit]], Get [1 :: cunit]] [1] = Some [[2]]"
proof -
  have "fst (cache_get [1] (run_ops (cache_put default_limits) (\<lambda>k c. snd (cache_get k c)) [Put [1] [[2]], Get [1]] new_cache)) = Some [[2]]"
    by code_simp
  from search_results_never_stale [OF this] this show ?thesis by blast
qed

text \<open>
  C28. The budgets of the cache. After any sequence of lookups and insertions under limits that allow at least one entry
  and no negative budget, the counters are the totals of the entries, each entry with the bytes of its key and ids; the
  pool of ordinary results keeps its limits on entries, ids and bytes, the pool of oversized results those on entries
  and bytes.
\<close>

theorem search_cache_within_limits:
  fixes ops :: "(jstr, jstr list) cache_op list"
  assumes "room_for_one lim"
  defines "c \<equiv> run_ops (cache_put lim) (\<lambda>k c. snd (cache_get k c)) ops new_cache"
  shows "cs_entries (stats c) = length (pool False c) + length (pool True c) \<and> cs_oversized_entries (stats c) = length (pool True c) \<and>
    cs_ids (stats c) = ids_total (mc_entries c) \<and> cs_bytes (stats c) = bytes_total (mc_entries c) \<and>
    (\<forall>(k, ids, b) \<in> set (mc_entries c). b = entry_bytes k ids) \<and>
    int (length (pool False c)) \<le> max_entries lim \<and> ids_total (pool False c) \<le> max_ids lim \<and> bytes_total (pool False c) \<le> max_bytes lim \<and>
    int (length (pool True c)) \<le> max_entries lim \<and> bytes_total (pool True c) \<le> max_oversized_bytes lim"
proof -
  have "good_cache lim c" unfolding c_def by (rule search_matches.run_ops_good [OF good_new])
  then have c: "counted c" "within_limits lim c" using assms(1) by (simp_all add: good_cache_def)
  show ?thesis using c pool_sizes(1,2) [OF c(1)] by (simp add: stats_def counted_def within_limits_def)
qed

theorem search_cache_within_limits_witness:
  "room_for_one default_limits \<and>
   int (length (pool True (run_ops (cache_put default_limits) (\<lambda>k c. snd (cache_get k c)) [Put [1] [[2]]] new_cache))) \<le> max_entries default_limits"
proof -
  have "room_for_one default_limits" by (simp add: room_for_one_def default_limits_def)
  from search_cache_within_limits [OF this, of "[Put [1] [[2]]]"] this show ?thesis by blast
qed

end
