(* ===== verification/Bytes.thy ===== *)
theory Bytes
  imports JsonText Idempotency
begin

text \<open>
  Values as bytes (\<open>packages/fabric/canonical.ts\<close>): the canonical text in UTF-8, and strict parsing of such
  bytes. The decoder is a strict \<open>TextDecoder\<close>: it refuses what no text encodes to and drops a byte order mark.
\<close>

section \<open>Decoding UTF-8\<close>

function utf8_units :: "nat list \<Rightarrow> jstr option" where
  "utf8_units [] = Some []"
| "utf8_units (b # bs) =
     (case decode_bytes (b # take (utf8_len b - 1) bs) of
        None \<Rightarrow> None
      | Some c \<Rightarrow> map_option ((@) (cp_units c)) (utf8_units (drop (utf8_len b - 1) bs)))"
  by pat_completeness auto
termination by (relation "measure length") auto

definition decode_text :: "nat list \<Rightarrow> jstr option" where
  "decode_text bytes = (case utf8_units bytes of
     Some (u # s) \<Rightarrow> Some (if u = 0xFEFF then s else u # s)
   | r \<Rightarrow> r)"

definition jcs_bytes :: "json \<Rightarrow> nat list res" where
  "jcs_bytes v = rmap utf8 (canonicalize v)"

definition sha256_digest :: "sha_fn \<Rightarrow> json \<Rightarrow> jstr res" where
  "sha256_digest sha v = rmap (digest_text sha) (canonicalize v)"

definition parse_bytes :: "(jstr \<Rightarrow> jnum) \<Rightarrow> nat list \<Rightarrow> json option" where
  "parse_bytes real bytes = Option.bind (decode_text bytes) (parse_strict real)"

section \<open>Decoding inverts encoding\<close>

lemma utf8_cp_head: "\<exists>b bs. utf8_cp c = b # bs \<and> length bs = utf8_len b - 1"
  using utf8_cp_length [of c] utf8_cp_nonempty [of c] by (cases "utf8_cp c") auto

lemma decode_utf8_cp: "scalar c \<Longrightarrow> decode_bytes (utf8_cp c) = Some c"
  by (auto simp: decode_bytes_def code_point_of_utf8 scalar_def Let_def)

lemma utf8_units_cp:
  assumes "scalar c"
  shows "utf8_units (utf8_cp c @ bs) = map_option ((@) (cp_units c)) (utf8_units bs)"
proof -
  obtain b rest where cp: "utf8_cp c = b # rest" "length rest = utf8_len b - 1" using utf8_cp_head by blast
  then show ?thesis using decode_utf8_cp [OF assms] by simp
qed

lemma utf8_units_utf8:
  assumes "valid_unicode s"
  shows "utf8_units (utf8 s) = Some s"
proof -
  have "utf8_units (concat (map utf8_cp cs)) = Some (concat (map cp_units cs))" if "\<forall>c \<in> set cs. scalar c" for cs
    using that by (induction cs) (simp_all add: utf8_units_cp)
  from this [OF valid_code_points [OF assms]] show ?thesis by (simp add: utf8_def code_points_left_inverse)
qed

lemma decode_text_utf8:
  assumes "valid_unicode s" and "\<forall>u t. s = u # t \<longrightarrow> u \<noteq> 0xFEFF"
  shows "decode_text (utf8 s) = Some s"
  using assms by (cases s) (simp_all add: decode_text_def utf8_units_utf8)

section \<open>Canonical text is well-formed\<close>

lemma valid_append: "valid_unicode s \<Longrightarrow> valid_unicode t \<Longrightarrow> valid_unicode (s @ t)"
proof (induction s rule: valid_unicode.induct)
  case (2 u)
  then show ?case by (cases t) auto
next
  case (3 u v s)
  then show ?case by (auto split: if_splits)
qed simp

lemma valid_concat: "list_all valid_unicode ps \<Longrightarrow> valid_unicode (concat ps)"
  by (induction ps) (auto intro: valid_append)

lemma valid_Cons_low: "unat u < 0xD800 \<Longrightarrow> valid_unicode s \<Longrightarrow> valid_unicode (u # s)"
  using valid_append [of "[u]" s] by (simp add: is_high_def is_low_def)

lemma valid_join: "unat c < 0xD800 \<Longrightarrow> list_all valid_unicode ps \<Longrightarrow> valid_unicode (join_on c ps)"
  by (induction c ps rule: join_on.induct) (auto intro!: valid_append valid_Cons_low)

lemma hex_lower_small: "d < 16 \<Longrightarrow> unat (hex_lower d) < 0xD800"
  by (simp add: hex_lower_def unat_of_nat)

lemma valid_quote_unit:
  assumes "unat u < 0xD800 \<or> 0xE000 \<le> unat u"
  shows "valid_unicode (quote_unit u)"
proof (cases "quote_unit u = [u]")
  case True
  then show ?thesis using assms by (auto simp: is_high_def is_low_def)
next
  case False
  then show ?thesis
    by (intro low_valid_unicode) (auto simp: quote_unit_def hex_lower_small split: if_splits)
qed

lemma valid_quoted: "valid_unicode s \<Longrightarrow> valid_unicode (concat (map quote_unit s))"
proof (induction s rule: valid_unicode.induct)
  case (2 u)
  then show ?case using valid_quote_unit [of u] by (auto simp: is_high_def is_low_def)
next
  case (3 u v s)
  show ?case
  proof (cases "is_high u")
    case True
    then have "quote_unit u = [u]" "quote_unit v = [v]" using 3 by (auto simp: quote_unit_def is_high_def is_low_def)
    then show ?thesis using 3 True by simp
  next
    case False
    then have "valid_unicode (quote_unit u)" "valid_unicode (concat (map quote_unit (v # s)))"
      using 3 valid_quote_unit [of u] by (auto simp: is_high_def is_low_def split: if_splits)
    then show ?thesis using valid_append by simp
  qed
qed simp

lemma valid_json_quote: "valid_unicode s \<Longrightarrow> valid_unicode (json_quote s)"
  unfolding json_quote_def
  by (rule valid_Cons_low [OF _ valid_append [OF valid_quoted]]) (simp_all add: is_high_def is_low_def)

lemma canonical_valid: "canonicalize_value v d = Ok t \<Longrightarrow> plain v \<Longrightarrow> valid_unicode t"
proof (induction v d arbitrary: t rule: canonicalize_value.induct)
  case (4 n d)
  have "valid_unicode (dec_int i)" for i
    by (intro low_valid_unicode) (auto dest!: dec_int_units simp: is_digit_def)
  then show ?case using 4 by (cases n) (auto split: if_splits)
next
  case (6 xs d)
  then obtain ts where ts: "mapR (\<lambda>x. canonicalize_value x (Suc d)) xs = Ok ts" "t = 91 # join_on 44 ts @ [93]"
    by (auto split: if_splits)
  have "valid_unicode s" if s: "s \<in> set ts" for s
  proof -
    obtain x where "x \<in> set xs" "canonicalize_value x (Suc d) = Ok s"
      using mapR_Ok_memberD [OF ts(1) s] by blast
    then show ?thesis using 6 by (auto simp: list_all_iff split: if_splits)
  qed
  then show ?case unfolding ts(2) by (intro valid_Cons_low valid_append valid_join) (auto simp: list_all_iff is_high_def is_low_def)
next
  case (7 kvs d)
  let ?member = "\<lambda>(k, x). rbind (require (valid_unicode k) INVALID_INPUT) (\<lambda>_.
          rbind (canonicalize_value x (Suc d)) (\<lambda>t. Ok (json_quote k @ 58 # t)))"
  obtain ts where ts: "mapR ?member (sort_key fst kvs) = Ok ts" "t = 123 # join_on 44 ts @ [125]"
    using 7 by (auto split: if_splits)
  have "valid_unicode s" if s: "s \<in> set ts" for s
  proof -
    obtain k x where kx: "(k, x) \<in> set kvs" "?member (k, x) = Ok s"
      using mapR_Ok_memberD [OF ts(1) s] by auto
    then obtain r where r: "valid_unicode k" "canonicalize_value x (Suc d) = Ok r" "s = json_quote k @ 58 # r" by auto
    moreover have "plain x" using 7 kx(1) by (auto simp: list_all_iff)
    ultimately have "valid_unicode r" using 7 kx(1) by (auto split: if_splits)
    then show ?thesis using r by (auto intro!: valid_append valid_Cons_low valid_json_quote)
  qed
  then show ?case unfolding ts(2) by (intro valid_Cons_low valid_append valid_join) (auto simp: list_all_iff is_high_def is_low_def)
qed (auto intro: valid_json_quote)

text \<open>What canonicalizes is read back by a strict parse, if that accepts it at all.\<close>

lemma canonical_head:
  assumes "canonicalize_value v d = Ok t" and "plain v" and "t = u # s"
  shows "u \<noteq> 0xFEFF"
proof -
  have "canon_ok v d" using is_ok_canonicalize_value [of v d] assms(1) by simp
  then have "legible (jnorm v)" using printable_legible printable_jnorm plain_js_value [OF assms(2)] by blast
  from stringify_begins [OF this] have "unat u \<le> 127" using canonical_is_stringify [OF assms(1)] assms(3) by auto
  then show ?thesis by auto
qed

lemma parse_jcs_bytes:
  assumes "jcs_bytes v = Ok bytes" and "plain v" and "parse_bytes real bytes \<noteq> None"
  shows "parse_bytes real bytes = Some (jnorm v)"
proof -
  obtain t where t: "canonicalize v = Ok t" "bytes = utf8 t" using assms(1) by (auto simp: jcs_bytes_def)
  then have "decode_text bytes = Some t"
    using canonical_valid [OF _ assms(2), of 0 t] canonical_head [OF _ assms(2), of 0 t]
    by (auto simp: canonicalize_def intro!: decode_text_utf8)
  then show ?thesis using assms(3) parse_canonical [OF t(1) plain_js_value [OF assms(2)], of real]
    by (auto simp: parse_bytes_def parse_strict_def split: if_splits)
qed

end
