(* ===== verification/Chaincode.thy ===== *)
theory Chaincode
  imports Bytes PlainWrites LocalLedger
begin

text \<open>
  The Fabric chaincode (\<open>packages/fabric/chaincode.ts\<close>): the engine behind the identity, command and key
  checks of a peer. The world state of the channel holds the canonical bytes of each value. The stub's time is
  a text here, the decoder of certificates a function of the configuration, and the response factory the default one.
\<close>

section \<open>Configuration and stub\<close>

record cc_identity =
  ci_msp :: jstr
  ci_actor :: jstr
  ci_kind :: jstr

record cc_config =
  cc_channel :: jstr
  cc_genesis :: json
  cc_founder :: cc_identity
  cc_orgs :: "jstr list option"
  cc_types :: "jstr list option"
  cc_reads :: "jstr list option"
  cc_prefixes :: "jstr list option"
  cc_identities :: "cc_identity list"
  cc_decoder :: "(nat list \<Rightarrow> cc_identity option) option"

text \<open>
  A call. The engine's functions do not record what they read, so the keys that the call asks of its context are given
  with it, each with the number of writes that the call has made before; the theorems hold whatever they are.
\<close>

type_synonym key_reads = "(nat \<times> jstr) list"

record stub =
  sb_channel :: jstr
  sb_creator :: "nat list"
  sb_args :: "nat list list"
  sb_tx :: jstr
  sb_time :: jstr
  sb_reads :: key_reads

text \<open>The world state: \<open>getState\<close> gives no bytes for a key without entry.\<close>

type_synonym chain = "(jstr \<times> nat list) list"

definition get_state :: "chain \<Rightarrow> jstr \<Rightarrow> nat list" where
  "get_state st k = (case map_of st k of None \<Rightarrow> [] | Some bytes \<Rightarrow> bytes)"

datatype cc_error = Refused | CoreError derror

type_synonym 'a cres = "(cc_error, 'a) result"

definition core_call :: "'a res \<Rightarrow> 'a cres" where
  "core_call r = (case r of Err e \<Rightarrow> Err (CoreError e) | Ok x \<Rightarrow> Ok x)"

definition wanted :: "'a option \<Rightarrow> 'a cres" where
  "wanted x = (case x of None \<Rightarrow> Err Refused | Some y \<Rightarrow> Ok y)"

definition default_command_types :: "jstr list" where
  "default_command_types = map js [''publish_revision'', ''propose'', ''decide'', ''activate'', ''suspend'', ''withdraw'', ''fence'']"

definition bootstrap_manifest_key :: jstr where
  "bootstrap_manifest_key = js ''kcl:v1:bootstrap_manifest''"

text \<open>\<open>s.startsWith(p)\<close>\<close>

definition starts_with :: "jstr \<Rightarrow> jstr \<Rightarrow> bool" where
  "starts_with s p \<longleftrightarrow> take (length p) s = p"

section \<open>Checks\<close>

definition truthy_value :: "json \<Rightarrow> bool" where
  "truthy_value v \<longleftrightarrow> v \<notin> {JUndef, JNull, JBool False, JNum (NInt 0), JNum NNegZero, JStr []}"

definition pinned_key :: "cc_identity \<Rightarrow> jstr" where
  "pinned_key i = ci_msp i @ 124 # ci_actor i @ 124 # ci_kind i"

definition cc_kinds :: "jstr list" where
  "cc_kinds = [js ''human'', js ''agent'']"

text \<open>The constructor accepts the configuration.\<close>

definition chaincode_configured :: "cc_config \<Rightarrow> bool" where
  "chaincode_configured cfg \<longleftrightarrow>
     cc_channel cfg \<noteq> [] \<and> truthy_value (cc_genesis cfg) \<and> cc_identities cfg \<noteq> [] \<and>
     list_all (\<lambda>i. ci_msp i \<noteq> [] \<and> ci_actor i \<noteq> [] \<and> ci_kind i \<in> set cc_kinds) (cc_identities cfg) \<and>
     distinct (map pinned_key (cc_identities cfg)) \<and>
     ci_kind (cc_founder cfg) = js ''human'' \<and> pinned_key (cc_founder cfg) \<in> pinned_key ` set (cc_identities cfg) \<and>
     (case cc_orgs cfg of None \<Rightarrow> True | Some orgs \<Rightarrow>
        distinct orgs \<and> orgs \<noteq> [] \<and> ci_msp (cc_founder cfg) \<in> set orgs \<and> set orgs \<subseteq> ci_msp ` set (cc_identities cfg))"

definition actor_from_stub :: "cc_config \<Rightarrow> stub \<Rightarrow> cc_identity cres" where
  "actor_from_stub cfg sb =
     rbind (wanted (cc_decoder cfg)) (\<lambda>decoder.
     rbind (wanted (decoder (sb_creator sb))) (\<lambda>identity.
     rbind (rcheck (ci_msp identity \<in> set (case cc_orgs cfg of Some orgs \<Rightarrow> orgs | None \<Rightarrow> map ci_msp (cc_identities cfg))) Refused) (\<lambda>_.
     rbind (rcheck (identity \<in> set (cc_identities cfg)) Refused) (\<lambda>_.
     Ok identity))))"

text \<open>The same actor for the engine; the identity is registered, so its kind is one of the two.\<close>

definition engine_actor :: "cc_identity \<Rightarrow> actor" where
  "engine_actor i = \<lparr>org_id = ci_msp i, actor_id = ci_actor i, kind = (if ci_kind i = js ''human'' then Human else Agent)\<rparr>"

definition cc_context :: "cc_config \<Rightarrow> stub \<Rightarrow> cc_identity \<Rightarrow> txctx" where
  "cc_context cfg sb i = \<lparr>tx_actor = engine_actor i, tx_channel = cc_channel cfg, tx_id = sb_tx sb, tx_time = sb_time sb\<rparr>"

definition command_of :: "jstr \<Rightarrow> jstr \<Rightarrow> json \<Rightarrow> json" where
  "command_of cid ty input = obj [(''command_id'', JStr cid), (''input'', input), (''type'', JStr ty)]"

definition parse_command :: "real_fn \<Rightarrow> nat list \<Rightarrow> (jstr \<times> jstr \<times> json) cres" where
  "parse_command real bytes =
     rbind (wanted (parse_bytes real bytes)) (\<lambda>v.
     case v of
       JObj kvs \<Rightarrow>
         if \<not> set (map fst kvs) \<subseteq> js ` {''command_id'', ''type'', ''input''} then Err Refused
         else (case (fld v ''command_id'', fld v ''type'') of
            (JStr cid, JStr ty) \<Rightarrow> if has_own v ''input'' then Ok (cid, ty, fld v ''input'') else Err Refused
          | _ \<Rightarrow> Err Refused)
     | _ \<Rightarrow> Err Refused)"

text \<open>Whatever names an actor in the input must name the authenticated one.\<close>

fun payload_identity :: "cc_identity \<Rightarrow> json \<Rightarrow> bool" where
  "payload_identity a (JArr xs) = list_all (payload_identity a) xs"
| "payload_identity a (JObj kvs) = list_all (\<lambda>(k, x).
     (k = js ''actor_id'' \<longrightarrow> x = JStr (ci_actor a)) \<and>
     (k \<in> {js ''actor_org_id'', js ''org_id''} \<longrightarrow> x = JStr (ci_msp a)) \<and>
     (k = js ''actor_kind'' \<longrightarrow> x = JStr (ci_kind a)) \<and>
     (k = js ''actor'' \<longrightarrow> x = JUndef \<or> (case x of JArr _ \<Rightarrow> True | JObj _ \<Rightarrow> True | _ \<Rightarrow> False)) \<and>
     payload_identity a x) kvs"
| "payload_identity a v = True"

definition key_allowed :: "jstr \<Rightarrow> jstr list option \<Rightarrow> bool" where
  "key_allowed k allowed = (case allowed of
     Some prefixes \<Rightarrow> list_ex (\<lambda>p. k = p \<or> starts_with k (if p \<noteq> [] \<and> last p = 58 then p else p @ [58])) prefixes
   | None \<Rightarrow> starts_with k (js ''kcl:''))"

definition parse_stored_command :: "real_fn \<Rightarrow> nat list \<Rightarrow> (jstr \<times> json) cres" where
  "parse_stored_command real bytes =
     rbind (wanted (parse_bytes real bytes)) (\<lambda>v.
     case v of
       JObj _ \<Rightarrow> (case fld v ''payload_digest'' of
          JStr d \<Rightarrow> if has_own v ''result'' then Ok (d, fld v ''result'') else Err Refused
        | _ \<Rightarrow> Err Refused)
     | _ \<Rightarrow> Err Refused)"

section \<open>The buffered context\<close>

text \<open>
  The world that the engine runs on holds the values that the stored bytes encode; the manifest's key is none of the
  engine's. \<open>ctx.get\<close> throws for a key that may not be read and for bytes that the strict parser refuses: a call fails if
  one of its reads does. On what it reads without failing, the strict parser gives the same value.
\<close>

definition held_value :: "real_fn \<Rightarrow> nat list \<Rightarrow> json option" where
  "held_value real bytes = Option.bind (decode_text bytes) (json_parse real)"

lemma parse_bytes_held: "parse_bytes real bytes = Some v \<Longrightarrow> held_value real bytes = Some v"
  by (cases "decode_text bytes") (auto simp: parse_bytes_def held_value_def parse_strict_def split: if_splits)

definition chain_world :: "real_fn \<Rightarrow> chain \<Rightarrow> world" where
  "chain_world real st = (\<lambda>k. if k = bootstrap_manifest_key \<or> get_state st k = [] then None else held_value real (get_state st k))"

definition key_readable :: "real_fn \<Rightarrow> cc_config \<Rightarrow> chain \<Rightarrow> jstr \<Rightarrow> bool" where
  "key_readable real cfg st k \<longleftrightarrow>
     key_allowed k (cc_reads cfg) \<and> (get_state st k = [] \<or> parse_bytes real (get_state st k) \<noteq> None)"

text \<open>\<open>put\<close>: the key must be allowed, the value canonicalize.\<close>

definition buffered_write :: "cc_config \<Rightarrow> jstr \<times> json \<Rightarrow> (jstr \<times> nat list) cres" where
  "buffered_write cfg = (\<lambda>(k, v). rbind (rcheck (key_allowed k (cc_prefixes cfg)) Refused) (\<lambda>_.
     rmap (\<lambda>bytes. (k, bytes)) (core_call (jcs_bytes v))))"

definition flush :: "(jstr \<times> nat list) list \<Rightarrow> chain \<Rightarrow> chain" where
  "flush ws st = fold (\<lambda>(k, bytes). upsert k bytes) ws st"

text \<open>
  The reads before the first write see the stored bytes, later ones the buffered bytes first. The first check precedes the
  engine because of the error that a repeated command id gives, which it finds before any write.
\<close>

definition reads_succeed :: "real_fn \<Rightarrow> cc_config \<Rightarrow> key_reads \<Rightarrow> (jstr \<times> nat list) list \<Rightarrow> chain \<Rightarrow> bool" where
  "reads_succeed real cfg asked ws st \<longleftrightarrow>
     list_all (\<lambda>(n, k). n \<le> length ws \<longrightarrow> key_readable real cfg (flush (take n ws) st) k) asked"

definition run_core :: "sha_fn \<Rightarrow> real_fn \<Rightarrow> cc_config \<Rightarrow> txctx \<Rightarrow> request \<Rightarrow> key_reads \<Rightarrow> chain \<Rightarrow>
    (json \<times> (jstr \<times> nat list) list) cres" where
  "run_core sha real cfg ctx rq asked st =
     rbind (rcheck (reads_succeed real cfg asked [] st) Refused) (\<lambda>_.
     rbind (core_call (invoke sha ctx rq (begin_tx (chain_world real st)))) (\<lambda>(result, t).
     rbind (mapR (buffered_write cfg) (staged t)) (\<lambda>ws.
     rmap (\<lambda>_. (result, ws)) (rcheck (reads_succeed real cfg asked ws st) Refused))))"

section \<open>Init and Invoke\<close>

datatype cc_response = Success "nat list" | Failure jstr

definition text_bytes :: "json \<Rightarrow> nat list" where
  "text_bytes v = utf8 (stringify v)"

definition safe_message :: "string \<Rightarrow> jstr" where
  "safe_message code = stringify (obj [(''code'', JStr (js code)), (''message'', JStr (js code))])"

definition init_args :: "nat list list \<Rightarrow> nat list list cres" where
  "init_args args = (case args of
     [a] \<Rightarrow> rmap (\<lambda>s. if s = js ''Init'' then [] else args) (wanted (decode_text a))
   | _ \<Rightarrow> Ok args)"

definition manifest :: "jstr \<Rightarrow> json \<Rightarrow> json" where
  "manifest digest result = obj [(''payload_digest'', JStr digest), (''result'', result)]"

definition try_init :: "sha_fn \<Rightarrow> real_fn \<Rightarrow> cc_config \<Rightarrow> stub \<Rightarrow> chain \<Rightarrow> (nat list \<times> chain) cres" where
  "try_init sha real cfg sb st =
     rbind (rcheck (sb_channel sb = cc_channel cfg) Refused) (\<lambda>_.
     rbind (actor_from_stub cfg sb) (\<lambda>actor.
     rbind (rcheck (actor = cc_founder cfg) Refused) (\<lambda>_.
     rbind (init_args (sb_args sb)) (\<lambda>args.
     rbind (rcheck (list_all (\<lambda>a. a = []) args) Refused) (\<lambda>_.
     rbind (core_call (sha256_digest sha (cc_genesis cfg))) (\<lambda>digest.
     if get_state st bootstrap_manifest_key \<noteq> [] then
       rbind (parse_stored_command real (get_state st bootstrap_manifest_key)) (\<lambda>(known, _).
       rbind (rcheck (known = digest) Refused) (\<lambda>_.
       Ok (text_bytes (obj [(''status'', JStr (js ''already_bootstrapped''))]), st)))
     else
       rbind (run_core sha real cfg (cc_context cfg sb actor) (Bootstrap (cc_genesis cfg)) (sb_reads sb) st) (\<lambda>(result, ws).
       rbind (core_call (jcs_bytes (manifest digest result))) (\<lambda>bytes.
       Ok (text_bytes (obj [(''status'', JStr (js ''bootstrapped'')), (''result'', result)]),
           flush (ws @ [(bootstrap_manifest_key, bytes)]) st)))))))))"

definition cc_init :: "sha_fn \<Rightarrow> real_fn \<Rightarrow> cc_config \<Rightarrow> stub \<Rightarrow> chain \<Rightarrow> cc_response \<times> chain" where
  "cc_init sha real cfg sb st = (case try_init sha real cfg sb st of
     Ok (payload, st') \<Rightarrow> (Success payload, st')
   | Err _ \<Rightarrow> (Failure (safe_message ''BOOTSTRAP_REJECTED''), st))"

text \<open>\<open>GetCommand\<close>: an organisation may look up its own commands, an actor its own outcome.\<close>

definition stored_by :: "real_fn \<Rightarrow> cc_identity \<Rightarrow> nat list \<Rightarrow> unit cres" where
  "stored_by real actor bytes =
     rbind (wanted (parse_bytes real bytes)) (\<lambda>v.
     case v of
       JObj _ \<Rightarrow> (let by = fld v ''actor'' in
         rcheck ((case by of JObj _ \<Rightarrow> True | _ \<Rightarrow> False) \<and> fld by ''org_id'' = JStr (ci_msp actor) \<and>
           fld by ''actor_id'' = JStr (ci_actor actor) \<and> fld by ''kind'' = JStr (ci_kind actor)) Refused)
     | _ \<Rightarrow> Err Refused)"

definition get_command :: "real_fn \<Rightarrow> cc_config \<Rightarrow> cc_identity \<Rightarrow> nat list \<Rightarrow> nat list \<Rightarrow> chain \<Rightarrow> nat list cres" where
  "get_command real cfg actor org cid st =
     rbind (wanted (decode_text org)) (\<lambda>org.
     rbind (wanted (decode_text cid)) (\<lambda>cid.
     rbind (rcheck (org = ci_msp actor \<and> is_id cid) Refused) (\<lambda>_.
     rbind (wanted (encode_uri org)) (\<lambda>_.
     rbind (rcheck (key_allowed (key_idempotency org cid) (cc_reads cfg)) Refused) (\<lambda>_.
     let bytes = get_state st (key_idempotency org cid) in
     rbind (if bytes = [] then Ok () else stored_by real actor bytes) (\<lambda>_. Ok bytes))))))"

definition execute_command :: "sha_fn \<Rightarrow> real_fn \<Rightarrow> cc_config \<Rightarrow> stub \<Rightarrow> cc_identity \<Rightarrow> nat list \<Rightarrow> chain \<Rightarrow> (nat list \<times> chain) cres" where
  "execute_command sha real cfg sb actor bytes st =
     rbind (parse_command real bytes) (\<lambda>(cid, ty, input).
     rbind (rcheck (ty \<in> set (case cc_types cfg of Some types \<Rightarrow> types | None \<Rightarrow> default_command_types)) Refused) (\<lambda>_.
     rbind (rcheck (payload_identity actor input) Refused) (\<lambda>_.
     rbind (run_core sha real cfg (cc_context cfg sb actor) (Execute (command_of cid ty input)) (sb_reads sb) st) (\<lambda>(result, ws).
     Ok (text_bytes (obj [(''status'', JStr (js ''executed'')), (''result'', result)]), flush ws st)))))"

text \<open>\<open>["Execute", command]\<close> stands for \<open>[command]\<close>; \<open>["GetCommand", org, id]\<close> looks an outcome up.\<close>

definition dispatch :: "sha_fn \<Rightarrow> real_fn \<Rightarrow> cc_config \<Rightarrow> stub \<Rightarrow> cc_identity \<Rightarrow> chain \<Rightarrow> (nat list \<times> chain) cres" where
  "dispatch sha real cfg sb actor st = (case sb_args sb of
     [bytes] \<Rightarrow> execute_command sha real cfg sb actor bytes st
   | [name, bytes] \<Rightarrow> rbind (wanted (decode_text name)) (\<lambda>s.
       if s = js ''Execute'' then execute_command sha real cfg sb actor bytes st else Err Refused)
   | [name, org, cid] \<Rightarrow> rbind (wanted (decode_text name)) (\<lambda>s.
       if s = js ''GetCommand'' then rmap (\<lambda>payload. (payload, st)) (get_command real cfg actor org cid st) else Err Refused)
   | _ \<Rightarrow> Err Refused)"

definition try_invoke :: "sha_fn \<Rightarrow> real_fn \<Rightarrow> cc_config \<Rightarrow> stub \<Rightarrow> chain \<Rightarrow> (nat list \<times> chain) cres" where
  "try_invoke sha real cfg sb st =
     rbind (rcheck (sb_channel sb = cc_channel cfg) Refused) (\<lambda>_.
     rbind (actor_from_stub cfg sb) (\<lambda>actor. dispatch sha real cfg sb actor st))"

definition failure_code :: "cc_error \<Rightarrow> string" where
  "failure_code e = (case e of
     CoreError (DomainError c _ _) \<Rightarrow> if c = IDEMPOTENCY_CONFLICT then ''IDEMPOTENCY_CONFLICT'' else ''COMMAND_REJECTED''
   | _ \<Rightarrow> ''COMMAND_REJECTED'')"

definition cc_invoke :: "sha_fn \<Rightarrow> real_fn \<Rightarrow> cc_config \<Rightarrow> stub \<Rightarrow> chain \<Rightarrow> cc_response \<times> chain" where
  "cc_invoke sha real cfg sb st = (case try_invoke sha real cfg sb st of
     Ok (payload, st') \<Rightarrow> (Success payload, st')
   | Err e \<Rightarrow> (Failure (safe_message (failure_code e)), st))"

end
