(* ===== verification/Projector.thy ===== *)
theory Projector
  imports Chaincode
begin

text \<open>
  The block projector (\<open>packages/fabric/block-projector.ts\<close>): it verifies the blocks that a peer delivers and
  keeps the state that their valid transactions write.  The protobuf decoders of
  \<open>@hyperledger/fabric-protos\<close> are a parameter, one field of \<open>protos\<close> for each \<open>deserializeBinary\<close>; a decoded
  message is the record of what the code reads of it.  Halting is the error \<open>Halted\<close> with its message.
\<close>

section \<open>Messages\<close>

record proto_header =
  hd_number :: int
  hd_previous :: "nat list"
  hd_data_hash :: "nat list"

record proto_block =
  bl_header :: "proto_header option"
  bl_data :: "nat list list option"
  bl_metadata :: "nat list list option"

record proto_payload =
  py_channel_header :: "nat list option"
  py_data :: "nat list"

record channel_header =
  ch_type :: int
  ch_channel :: jstr
  ch_tx :: jstr
  ch_time :: "(int \<times> int) option"

record chaincode_action =
  ac_chaincode :: "(jstr \<times> jstr) option"
  ac_results :: "nat list"

record name_space =
  ns_name :: jstr
  ns_hashed :: nat
  ns_rwset :: "nat list"

record rw_set =
  rws_kv :: bool
  rws_spaces :: "name_space list"

record kv_write =
  kw_key :: jstr
  kw_delete :: bool
  kw_value :: "nat list"

record kv_rw_set =
  kv_metadata :: nat
  kv_writes :: "kv_write list"

record protos =
  pt_block :: "nat list \<Rightarrow> proto_block option"
  pt_envelope :: "nat list \<Rightarrow> nat list option"
  pt_payload :: "nat list \<Rightarrow> proto_payload option"
  pt_channel_header :: "nat list \<Rightarrow> channel_header option"
  pt_transaction :: "nat list \<Rightarrow> nat list list option"
  pt_action_payload :: "nat list \<Rightarrow> nat list option option"
  pt_response :: "nat list \<Rightarrow> nat list option"
  pt_action :: "nat list \<Rightarrow> chaincode_action option"
  pt_rw_set :: "nat list \<Rightarrow> rw_set option"
  pt_kv_rw_set :: "nat list \<Rightarrow> kv_rw_set option"
  pt_endorser :: int
  pt_config :: int
  pt_valid :: nat
  pt_supported :: "nat list"

datatype projector_error = Halted string | InvalidStateWrite | UncanonicalValue derror

type_synonym 'a pres = "(projector_error, 'a) result"

definition halt :: "string \<Rightarrow> 'a pres" where
  "halt message = Err (Halted message)"

lemma halt_not_Ok [simp]: "halt m \<noteq> Ok x"
  by (simp add: halt_def)

definition canonical :: "'a res \<Rightarrow> 'a pres" where
  "canonical r = (case r of Err e \<Rightarrow> Err (UncanonicalValue e) | Ok x \<Rightarrow> Ok x)"

lemma canonical_Ok [simp]: "canonical r = Ok x \<longleftrightarrow> r = Ok x"
  by (cases r) (simp_all add: canonical_def)

definition decode_message :: "(nat list \<Rightarrow> 'm option) \<Rightarrow> nat list \<Rightarrow> 'm pres" where
  "decode_message deserialize bytes =
     (if bytes = [] then halt ''Required Fabric protobuf message is empty''
      else case deserialize bytes of None \<Rightarrow> halt ''Malformed Fabric protobuf message'' | Some m \<Rightarrow> Ok m)"

section \<open>The hash of a block header\<close>

text \<open>\<open>Buffer.from(hex, 'hex')\<close> decodes up to the first character that is no hexadecimal digit.\<close>

fun from_hex :: "jstr \<Rightarrow> nat list" where
  "from_hex (a # b # s) = (case (hex_value a, hex_value b) of
     (Some x, Some y) \<Rightarrow> (16 * x + y) # from_hex s
   | _ \<Rightarrow> [])"
| "from_hex s = []"

text \<open>\<open>unsignedBytes\<close>: the hexadecimal digits in pairs are the digits to base 256.\<close>

fun unsigned_bytes :: "nat \<Rightarrow> nat list" where
  "unsigned_bytes n = (if n < 256 then [n] else unsigned_bytes (n div 256) @ [n mod 256])"

declare unsigned_bytes.simps [simp del]

definition der_length :: "nat \<Rightarrow> nat list" where
  "der_length n = (if n < 0x80 then [n] else let value = unsigned_bytes n in (0x80 + length value) # value)"

definition der_field :: "nat \<Rightarrow> nat list \<Rightarrow> nat list" where
  "der_field tag value = tag # der_length (length value) @ value"

definition der_integer :: "nat \<Rightarrow> nat list" where
  "der_integer n = (let bytes = unsigned_bytes n in if 0x80 \<le> hd bytes then 0 # bytes else bytes)"

definition header_tuple :: "proto_header \<Rightarrow> nat list" where
  "header_tuple h = der_field 0x30
     (der_field 0x02 (der_integer (nat (hd_number h))) @ der_field 0x04 (hd_previous h) @ der_field 0x04 (hd_data_hash h))"

definition safe_natural :: "int \<Rightarrow> bool" where
  "safe_natural i \<longleftrightarrow> 0 \<le> i \<and> i \<le> max_safe"

definition fabric_block_header_hash :: "sha_fn \<Rightarrow> proto_header \<Rightarrow> jstr pres" where
  "fabric_block_header_hash sha h =
     (if \<not> safe_natural (hd_number h) then halt ''Fabric block number is outside the supported range''
      else Ok (sha (header_tuple h)))"

section \<open>Timestamps\<close>

text \<open>\<open>new Date(ms).toISOString()\<close>: the civil date of a day count, years beyond four digits with a sign.\<close>

definition civil_date :: "int \<Rightarrow> int \<times> int \<times> int" where
  "civil_date days =
     (let z = days + 719468;
          era = z div 146097; doe = z mod 146097;
          yoe = (doe - doe div 1460 + doe div 36524 - doe div 146096) div 365;
          doy = doe - (365 * yoe + yoe div 4 - yoe div 100);
          mp = (5 * doy + 2) div 153;
          m = (if mp < 10 then mp + 3 else mp - 9) in
      (yoe + era * 400 + (if m \<le> 2 then 1 else 0), m, doy - (153 * mp + 2) div 5 + 1))"

definition padded :: "nat \<Rightarrow> int \<Rightarrow> jstr" where
  "padded n i = (let s = dec_int i in replicate (n - length s) 48 @ s)"

definition year_text :: "int \<Rightarrow> jstr" where
  "year_text y = (if 0 \<le> y \<and> y \<le> 9999 then padded 4 y else (if y < 0 then 45 else 43) # padded 6 \<bar>y\<bar>)"

definition iso_text :: "int \<Rightarrow> jstr" where
  "iso_text ms =
     (let (y, m, d) = civil_date (ms div 86400000); r = ms mod 86400000 in
      year_text y @ 45 # padded 2 m @ 45 # padded 2 d @ 84 # padded 2 (r div 3600000) @ 58 # padded 2 (r div 60000 mod 60) @
      58 # padded 2 (r div 1000 mod 60) @ 46 # padded 3 (r mod 1000) @ [90])"

definition max_date :: int where
  "max_date = 8640000000000000"

definition strip_zeros :: "jstr \<Rightarrow> jstr" where
  "strip_zeros s = rev (dropWhile (\<lambda>u. u = 48) (rev s))"

definition channel_timestamp :: "channel_header \<Rightarrow> bool \<Rightarrow> jstr pres" where
  "channel_timestamp ch required = (case ch_time ch of
     None \<Rightarrow> if required then halt ''VALID Fabric transaction has no timestamp'' else Ok []
   | Some (seconds, nanos) \<Rightarrow>
       if \<not> (\<bar>seconds\<bar> \<le> max_safe \<and> 0 \<le> nanos \<and> nanos < 1000000000) then halt ''Transaction timestamp is malformed''
       else let ms = seconds * 1000 + nanos div 1000000 in
         if max_date < \<bar>ms\<bar> then halt ''Transaction timestamp is outside the supported range''
         else if nanos = 0 then Ok (iso_text ms)
         else Ok (take 19 (iso_text ms) @ 46 # strip_zeros (padded 9 nanos) @ [90]))"

section \<open>State writes\<close>

record genesis_versions =
  gv_config :: json
  gv_epoch :: json
  gv_binding :: json

fun is_version_value :: "json \<Rightarrow> bool" where
  "is_version_value (JStr s) = True"
| "is_version_value (JNum n) = True"
| "is_version_value v = False"

text \<open>\<open>===\<close> on numbers does not see the sign of zero.\<close>

fun unsigned_zero :: "json \<Rightarrow> json" where
  "unsigned_zero (JNum NNegZero) = JNum (NInt 0)"
| "unsigned_zero v = v"

definition positive_integer :: "json \<Rightarrow> bool" where
  "positive_integer v \<longleftrightarrow> (case v of JNum (NInt i) \<Rightarrow> 1 \<le> i \<and> i \<le> max_safe | _ \<Rightarrow> False)"

definition verify_bootstrap :: "json \<Rightarrow> jstr \<Rightarrow> jstr \<Rightarrow> genesis_versions \<Rightarrow> unit pres" where
  "verify_bootstrap v channel digest g =
     (let r = fld v ''result'' in
      if \<not> exact_record v [''payload_digest'', ''result''] then halt ''bootstrap manifest is malformed''
      else if fld v ''payload_digest'' \<noteq> JStr digest then halt ''Bootstrap manifest digest does not match pinned public genesis''
      else if \<not> exact_record r [''status'', ''channel_id'', ''config_version'', ''membership_epoch'', ''role_binding_version'']
        then halt ''bootstrap result is malformed''
      else if fld r ''status'' \<noteq> JStr (js ''bootstrapped'') \<or> fld r ''channel_id'' \<noteq> JStr channel
        then halt ''Bootstrap manifest result is not for this channel''
      else if unsigned_zero (fld r ''config_version'') \<noteq> unsigned_zero (gv_config g) \<or> unsigned_zero (fld r ''membership_epoch'') \<noteq> unsigned_zero (gv_epoch g) \<or>
          unsigned_zero (fld r ''role_binding_version'') \<noteq> unsigned_zero (gv_binding g) \<or> \<not> is_version_value (fld r ''config_version'') \<or>
          \<not> positive_integer (fld r ''membership_epoch'') \<or> \<not> positive_integer (fld r ''role_binding_version'')
        then halt ''Bootstrap manifest result is malformed''
      else Ok ())"

record projector_target =
  tg_channel :: jstr
  tg_chaincode :: jstr
  tg_version :: jstr
  tg_digest :: jstr
  tg_genesis :: genesis_versions

definition value_for_write :: "sha_fn \<Rightarrow> real_fn \<Rightarrow> projector_target \<Rightarrow> jstr \<Rightarrow> nat list \<Rightarrow> json pres" where
  "value_for_write sha real tg key bytes = (case parse_bytes real bytes of
     None \<Rightarrow> halt ''State write is not strict JSON''
   | Some v \<Rightarrow>
       if key = bootstrap_manifest_key then rbind (verify_bootstrap v (tg_channel tg) (tg_digest tg) (tg_genesis tg)) (\<lambda>_. Ok v)
       else if \<not> validate_state_write sha key v then Err InvalidStateWrite
       else if key = key_config then rbind (canonical (sha256_digest sha v)) (\<lambda>d.
         if d \<noteq> tg_digest tg then halt ''Config write does not match pinned public genesis'' else Ok v)
       else Ok v)"

section \<open>Transactions\<close>

record projected_tx =
  px_id :: jstr
  px_index :: nat
  px_code :: nat
  px_valid :: bool
  px_writes :: "(jstr \<times> json) list"
  px_time :: jstr
  px_type :: int

text \<open>The key under which Fabric marks an initialised chaincode: a zero, the last code point, \<open>initialized\<close>.\<close>

definition fabric_initialized_key :: jstr where
  "fabric_initialized_key = 0 # cp_units 0x10FFFF @ js ''initialized''"

text \<open>The keys seen, whether the marker was among them, the write set.\<close>

type_synonym write_scan = "jstr list \<times> bool \<times> (jstr \<times> json) list"

definition scan_write :: "sha_fn \<Rightarrow> real_fn \<Rightarrow> projector_target \<Rightarrow> chaincode_action \<Rightarrow> kv_write \<Rightarrow> write_scan \<Rightarrow> write_scan pres" where
  "scan_write sha real tg action w = (\<lambda>(seen, initialized, writes).
     if kw_key w = [] \<or> kw_key w \<in> set seen \<or> kw_delete w then halt ''Delete or duplicate state write is not projectable''
     else if kw_value w = [] then halt ''State write value is empty''
     else if kw_key w = fabric_initialized_key then
       (if kw_value w = utf8 (tg_version tg) \<and> map_option snd (ac_chaincode action) = Some (tg_version tg)
        then Ok (kw_key w # seen, True, writes)
        else halt ''Fabric Init marker has an unexpected chaincode version'')
     else rbind (value_for_write sha real tg (kw_key w) (kw_value w)) (\<lambda>v.
       Ok (kw_key w # seen, initialized, writes @ [(kw_key w, v)])))"

definition scan_space :: "sha_fn \<Rightarrow> real_fn \<Rightarrow> protos \<Rightarrow> projector_target \<Rightarrow> chaincode_action \<Rightarrow> name_space \<Rightarrow> write_scan \<Rightarrow> write_scan pres" where
  "scan_space sha real pt tg action ns scan =
     (if 0 < ns_hashed ns then halt ''Private data hashes are not projectable''
      else if ns_rwset ns = [] then Ok scan
      else rbind (decode_message (pt_kv_rw_set pt) (ns_rwset ns)) (\<lambda>kv.
        if 0 < kv_metadata kv then halt ''State metadata writes are not projectable''
        else if ns_name ns \<noteq> tg_chaincode tg then
          (if kv_writes kv \<noteq> [] then halt ''Non-target namespace writes are not projectable'' else Ok scan)
        else foldR (scan_write sha real tg action) (kv_writes kv) scan))"

definition chaincode_name :: "chaincode_action \<Rightarrow> jstr pres" where
  "chaincode_name action = (case ac_chaincode action of
     None \<Rightarrow> halt ''Chaincode action has no chaincode identity''
   | Some (name, version) \<Rightarrow> if name = [] then halt ''Chaincode action has no chaincode name'' else Ok name)"

definition scan_action :: "sha_fn \<Rightarrow> real_fn \<Rightarrow> protos \<Rightarrow> projector_target \<Rightarrow> nat list \<Rightarrow> write_scan \<Rightarrow> write_scan pres" where
  "scan_action sha real pt tg bytes scan =
     rbind (decode_message (pt_action_payload pt) bytes) (\<lambda>endorsed.
     case endorsed of
       None \<Rightarrow> halt ''Endorser transaction has no chaincode action''
     | Some proposal_response \<Rightarrow>
         rbind (decode_message (pt_response pt) proposal_response) (\<lambda>extension.
         rbind (decode_message (pt_action pt) extension) (\<lambda>action.
         rbind (chaincode_name action) (\<lambda>name.
         if name \<noteq> tg_chaincode tg \<and> name \<noteq> js ''_lifecycle'' then halt ''Transaction targets an unexpected chaincode''
         else if ac_results action = [] then Ok scan
         else rbind (decode_message (pt_rw_set pt) (ac_results action)) (\<lambda>rws.
           if \<not> rws_kv rws then halt ''Unsupported Fabric state data model''
           else if name = js ''_lifecycle'' then
             (if \<exists>ns \<in> set (rws_spaces rws). ns_name ns = tg_chaincode tg
              then halt ''Lifecycle transaction contains a hidden Knowledger namespace'' else Ok scan)
           else foldR (scan_space sha real pt tg action) (rws_spaces rws) scan)))))"

definition decode_transaction :: "sha_fn \<Rightarrow> real_fn \<Rightarrow> protos \<Rightarrow> projector_target \<Rightarrow> nat list \<Rightarrow> nat \<Rightarrow> nat \<Rightarrow> projected_tx pres" where
  "decode_transaction sha real pt tg data index code =
     rbind (decode_message (pt_envelope pt) data) (\<lambda>payload_bytes.
     rbind (decode_message (pt_payload pt) payload_bytes) (\<lambda>payload.
     case py_channel_header payload of
       None \<Rightarrow> halt ''Transaction payload has no header''
     | Some header_bytes \<Rightarrow>
         rbind (decode_message (pt_channel_header pt) header_bytes) (\<lambda>ch.
         if ch_channel ch \<noteq> tg_channel tg then halt ''Fabric block contains a transaction for another channel''
         else if ch_tx ch = [] \<and> ch_type ch \<noteq> pt_config pt then halt ''Transaction has no transaction ID''
         else rbind (channel_timestamp ch (code = pt_valid pt)) (\<lambda>time.
           let tx = \<lparr>px_id = ch_tx ch, px_index = index, px_code = code, px_valid = (code = pt_valid pt), px_writes = [],
                     px_time = time, px_type = ch_type ch\<rparr> in
           if code \<noteq> pt_valid pt \<or> ch_type ch \<noteq> pt_endorser pt then Ok tx
           else rbind (decode_message (pt_transaction pt) (py_data payload)) (\<lambda>actions.
             rbind (foldR (scan_action sha real pt tg) actions ([], False, [])) (\<lambda>(seen, initialized, writes).
             if initialized \<and> (bootstrap_manifest_key \<notin> set seen \<or> key_config \<notin> set seen)
               then halt ''Fabric Init marker requires the pinned Knowledger bootstrap in the same transaction''
             else Ok (tx\<lparr>px_writes := writes\<rparr>)))))))"

section \<open>The projector\<close>

record projector_options =
  po_channel :: jstr
  po_chaincode :: jstr
  po_version :: "jstr option"
  po_genesis :: json

record projector_checkpoint =
  pc_channel :: jstr
  pc_number :: int
  pc_hash :: jstr
  pc_data :: jstr

type_synonym block_state = "(jstr \<times> json) list"

record projector =
  pj_options :: projector_options
  pj_target :: projector_target
  pj_state :: block_state
  pj_checkpoint :: "projector_checkpoint option"

definition version_char :: "cunit \<Rightarrow> bool" where
  "version_char u \<longleftrightarrow> (let n = unat u in is_upper n \<or> is_lower n \<or> is_digit n \<or> n = 45 \<or> n = 46 \<or> n = 95)"

definition safe_integer_value :: "json \<Rightarrow> bool" where
  "safe_integer_value v \<longleftrightarrow> (case v of JNum (NInt i) \<Rightarrow> \<bar>i\<bar> \<le> max_safe | JNum NNegZero \<Rightarrow> True | _ \<Rightarrow> False)"

definition new_projector :: "sha_fn \<Rightarrow> projector_options \<Rightarrow> projector pres" where
  "new_projector sha po =
     (let g = po_genesis po; version = (case po_version po of None \<Rightarrow> js ''0.1.0'' | Some v \<Rightarrow> v) in
      if po_channel po = [] \<or> po_chaincode po = [] \<or> g = JUndef then halt ''Projector requires channel, chaincode, and pinned public genesis''
      else if (case g of JObj _ \<Rightarrow> False | _ \<Rightarrow> True) then halt ''Pinned public genesis must be an object''
      else if \<not> is_version_value (fld g ''config_version'') \<or> \<not> safe_integer_value (fld g ''membership_epoch'') \<or>
          \<not> safe_integer_value (fld g ''role_binding_version'') then halt ''Pinned public genesis versions are required''
      else if \<not> (1 \<le> length version \<and> length version \<le> 64 \<and> list_all version_char version) then halt ''A fixed chaincode version is required''
      else rbind (canonical (sha256_digest sha g)) (\<lambda>digest.
        rbind (canonical (clone_canonical g)) (\<lambda>g'.
        Ok \<lparr>pj_options = po\<lparr>po_version := Some version, po_genesis := g'\<rparr>,
            pj_target = \<lparr>tg_channel = po_channel po, tg_chaincode = po_chaincode po, tg_version = version, tg_digest = digest,
              tg_genesis = \<lparr>gv_config = fld g ''config_version'', gv_epoch = fld g ''membership_epoch'',
                gv_binding = fld g ''role_binding_version''\<rparr>\<rparr>,
            pj_state = [], pj_checkpoint = None\<rparr>)))"

definition fork :: "sha_fn \<Rightarrow> projector \<Rightarrow> projector pres" where
  "fork sha p = rmap (\<lambda>q. q\<lparr>pj_state := pj_state p, pj_checkpoint := pj_checkpoint p\<rparr>) (new_projector sha (pj_options p))"

definition projector_read :: "projector \<Rightarrow> jstr \<Rightarrow> json option pres" where
  "projector_read p key = (case map_of (pj_state p) key of
     None \<Rightarrow> Ok None
   | Some v \<Rightarrow> rmap Some (canonical (clone_canonical v)))"

text \<open>\<open>entries\<close> sorts with \<open>localeCompare\<close>: the order of the locale is a parameter, as a sort key.\<close>

definition projector_entries :: "(jstr \<Rightarrow> 'o :: linorder) \<Rightarrow> projector \<Rightarrow> jstr \<Rightarrow> (jstr \<times> json) list pres" where
  "projector_entries collate p pre =
     mapR (\<lambda>(k, v). rmap (\<lambda>c. (k, c)) (canonical (clone_canonical v)))
       (sort_key (\<lambda>(k, v). collate k) (filter (\<lambda>(k, v). starts_with k pre) (pj_state p)))"

section \<open>Blocks\<close>

text \<open>The staged writes over the committed state\<close>

definition staged_get :: "block_state \<Rightarrow> block_state \<Rightarrow> jstr \<Rightarrow> json option" where
  "staged_get state over key = (case map_of over key of None \<Rightarrow> map_of state key | Some v \<Rightarrow> Some v)"

definition stage_write :: "block_state \<Rightarrow> jstr \<times> json \<Rightarrow> block_state \<Rightarrow> block_state pres" where
  "stage_write state = (\<lambda>(key, v) over.
     rbind (case staged_get state over key of
         Some prior \<Rightarrow>
           if key = bootstrap_manifest_key \<or> immutable_key key then
             rbind (canonical (canonicalize prior)) (\<lambda>a. rbind (canonical (canonicalize v)) (\<lambda>b.
             if a \<noteq> b then halt ''Immutable ledger write-set was overwritten; projection halted'' else Ok ()))
           else Ok ()
       | None \<Rightarrow> Ok ()) (\<lambda>_.
     rbind (canonical (clone_canonical v)) (\<lambda>c. Ok (upsert key c over))))"

definition stage_transaction :: "block_state \<Rightarrow> projected_tx \<Rightarrow> block_state \<Rightarrow> block_state pres" where
  "stage_transaction state tx over =
     (if \<not> px_valid tx then Ok over
      else rbind (foldR (stage_write state) (px_writes tx) over) (\<lambda>over.
        rbind (forR (\<lambda>(key, v). rcheck (key = bootstrap_manifest_key \<or> validate_state_links key v (staged_get state over)) InvalidStateWrite)
          (px_writes tx)) (\<lambda>_.
        Ok over)))"

record block_result =
  br_checkpoint :: projector_checkpoint
  br_transactions :: "projected_tx list"
  br_valid :: "jstr list"
  br_invalid :: "jstr list"

record prepared_block =
  pb_result :: block_result
  pb_base :: "projector_checkpoint option"
  pb_staged :: block_state

text \<open>The transactions in order; the accumulator holds the identifiers of the valid ones.\<close>

definition check_transaction :: "sha_fn \<Rightarrow> real_fn \<Rightarrow> protos \<Rightarrow> projector_target \<Rightarrow> int \<Rightarrow> nat list \<times> nat \<times> nat \<Rightarrow>
    projected_tx list \<times> jstr list \<Rightarrow> (projected_tx list \<times> jstr list) pres" where
  "check_transaction sha real pt tg number = (\<lambda>(data, index, code) (txs, ids).
     if code \<notin> set (pt_supported pt) then halt ''Fabric transaction validation code is unknown or not final''
     else rbind (decode_transaction sha real pt tg data index code) (\<lambda>tx.
       if px_type tx \<noteq> pt_endorser pt \<and> px_type tx \<noteq> pt_config pt then halt ''Unsupported Fabric transaction header type''
       else if px_type tx = pt_config pt \<and> number \<noteq> 0 then halt ''Configuration transactions after genesis are unsupported''
       else if px_valid tx \<and> px_id tx \<noteq> [] then
         (if px_id tx \<in> set ids then halt ''Fabric block contains duplicate VALID transaction IDs''
          else Ok (txs @ [tx], px_id tx # ids))
       else Ok (txs @ [tx], ids)))"

definition clone_writes :: "projected_tx \<Rightarrow> projected_tx pres" where
  "clone_writes tx = rmap (\<lambda>ws. tx\<lparr>px_writes := ws\<rparr>)
     (mapR (\<lambda>(k, v). rmap (\<lambda>c. (k, c)) (canonical (clone_canonical v))) (px_writes tx))"

text \<open>The header follows the checkpoint and binds the data.\<close>

definition check_header :: "sha_fn \<Rightarrow> projector_checkpoint option \<Rightarrow> proto_header \<Rightarrow> nat list list \<Rightarrow> unit pres" where
  "check_header sha latest h entries =
     (if \<not> safe_natural (hd_number h) then halt ''Fabric block number is outside the supported range''
      else if hd_number h \<noteq> (case latest of None \<Rightarrow> 0 | Some cp \<Rightarrow> pc_number cp + 1) then halt ''Fabric block number is not contiguous''
      else if from_hex (sha (concat entries)) \<noteq> hd_data_hash h then halt ''Fabric block data hash does not match''
      else case latest of
        Some cp \<Rightarrow> if hd_previous h \<noteq> from_hex (pc_hash cp) then halt ''Fabric block previous hash does not match checkpoint'' else Ok ()
      | None \<Rightarrow> if hd_previous h \<noteq> [] then halt ''Genesis Fabric block has a previous hash'' else Ok ())"

definition prepare_block :: "sha_fn \<Rightarrow> real_fn \<Rightarrow> protos \<Rightarrow> nat list \<Rightarrow> projector \<Rightarrow> prepared_block pres" where
  "prepare_block sha real pt serialized p =
     rbind (decode_message (pt_block pt) serialized) (\<lambda>block.
     case (bl_header block, bl_data block, bl_metadata block) of
       (Some h, Some entries, Some metadata) \<Rightarrow>
         rbind (check_header sha (pj_checkpoint p) h entries) (\<lambda>_.
         if length metadata \<le> 2 \<or> length (metadata ! 2) \<noteq> length entries
           then halt ''Fabric transaction validation filter is missing or has the wrong length''
         else rbind (foldR (check_transaction sha real pt (pj_target p) (hd_number h))
             (zip entries (zip [0..<length entries] (metadata ! 2))) ([], [])) (\<lambda>(txs, _).
           rbind (foldR (stage_transaction (pj_state p)) txs []) (\<lambda>over.
           rbind (fabric_block_header_hash sha h) (\<lambda>hash.
           rbind (mapR clone_writes txs) (\<lambda>cloned.
           Ok \<lparr>pb_result = \<lparr>br_checkpoint = \<lparr>pc_channel = tg_channel (pj_target p), pc_number = hd_number h, pc_hash = hash,
                   pc_data = sha (concat entries)\<rparr>,
                 br_transactions = cloned, br_valid = map px_id (filter px_valid txs), br_invalid = map px_id (filter (\<lambda>t. \<not> px_valid t) txs)\<rparr>,
               pb_base = pj_checkpoint p, pb_staged = over\<rparr>)))))
     | _ \<Rightarrow> halt ''Fabric block header, data, and metadata are required'')"

text \<open>
  \<open>commit\<close> compares the checkpoint object with the one at preparation.  A projector never has an equal
  checkpoint twice, as the block numbers grow, so the values tell the objects apart.
\<close>

definition commit_block_writes :: "prepared_block \<Rightarrow> projector \<Rightarrow> projector pres" where
  "commit_block_writes prepared p =
     (if pj_checkpoint p \<noteq> pb_base prepared then halt ''Prepared Fabric block is stale or already committed''
      else Ok (p\<lparr>pj_state := fold (\<lambda>(k, v). upsert k v) (pb_staged prepared) (pj_state p),
                 pj_checkpoint := Some (br_checkpoint (pb_result prepared))\<rparr>))"

definition apply_block :: "sha_fn \<Rightarrow> real_fn \<Rightarrow> protos \<Rightarrow> nat list \<Rightarrow> projector \<Rightarrow> (block_result \<times> projector) pres" where
  "apply_block sha real pt serialized p =
     rbind (prepare_block sha real pt serialized p) (\<lambda>prepared.
     rbind (commit_block_writes prepared p) (\<lambda>p'. Ok (pb_result prepared, p')))"

end
