(* ===== verification/BrowseIndex.thy ===== *)
theory BrowseIndex
  imports JsonText CodecRecords "HOL-Library.Product_Lexorder"
begin

text \<open>
  The browse index (\<open>packages/storage/browse-index.ts\<close>, \<open>browse-contract.ts\<close>): references to the revisions, proposals
  and agreements that verified write sets publish, kept sorted by key, slot, document and revision, and a cache of
  selections.  \<open>localeCompare\<close> is the parameter \<open>collate\<close>, a sort key; a comparator of the code is a rank here, and
  \<open>compare(a, b) < 0\<close> is \<open>rank a < rank b\<close>.  \<open>Array.sort\<close> is stable, as \<open>sort_key\<close> is.
\<close>

section \<open>Checkpoints and references\<close>

record checkpoint =
  cp_channel :: jstr
  cp_block :: int
  cp_index :: int
  cp_tx :: jstr
  cp_hash :: jstr

text \<open>Three record types share the first four fields.\<close>

record browse_ref =
  bf_key :: jstr
  bf_digest :: jstr
  bf_slot :: slot
  bf_at :: checkpoint

record proposal_ref = browse_ref +
  pf_id :: jstr
  pf_created :: jstr

record agreement_ref = browse_ref +
  gf_id :: jstr
  gf_activated :: jstr

datatype browse_error = BrowseFailed string | BrowseRecord derror | BrowseSlot

type_synonym 'a bres = "(browse_error, 'a) result"

definition browse_fail :: "string \<Rightarrow> 'a bres" where
  "browse_fail message = Err (BrowseFailed message)"

lemma browse_fail_not_Ok [simp]: "browse_fail m \<noteq> Ok x"
  by (simp add: browse_fail_def)

definition of_record :: "'a res \<Rightarrow> 'a bres" where
  "of_record r = (case r of Err e \<Rightarrow> Err (BrowseRecord e) | Ok x \<Rightarrow> Ok x)"

lemma of_record_Ok [simp]: "of_record r = Ok x \<longleftrightarrow> r = Ok x"
  by (cases r) (simp_all add: of_record_def)

section \<open>The orders\<close>

text \<open>The later first\<close>

datatype 'a down = Down (undown: 'a)

instantiation down :: (linorder) linorder
begin

definition less_eq_down :: "'a down \<Rightarrow> 'a down \<Rightarrow> bool" where
  "less_eq_down a b \<longleftrightarrow> undown b \<le> undown a"

definition less_down :: "'a down \<Rightarrow> 'a down \<Rightarrow> bool" where
  "less_down a b \<longleftrightarrow> undown b < undown a"

instance by standard (auto simp: less_eq_down_def less_down_def down.expand)

end

lemma Down_less [simp]: "Down a < Down b \<longleftrightarrow> b < a" "Down a \<le> Down b \<longleftrightarrow> b \<le> a"
  by (simp_all add: less_eq_down_def less_down_def)

text \<open>\<open>checkpointOrder\<close> compares the places.\<close>

definition place :: "checkpoint \<Rightarrow> int \<times> int" where
  "place c = (cp_block c, cp_index c)"

definition revision_rank :: "(jstr \<Rightarrow> 'o :: linorder) \<Rightarrow> browse_ref \<Rightarrow> (int \<times> int) down \<times> 'o" where
  "revision_rank collate r = (Down (place (bf_at r)), collate (bf_digest r))"

definition proposal_rank :: "(jstr \<Rightarrow> 'o :: linorder) \<Rightarrow> proposal_ref \<Rightarrow> 'o down \<times> 'o" where
  "proposal_rank collate r = (Down (collate (pf_created r)), collate (pf_id r))"

definition agreement_rank :: "agreement_ref \<Rightarrow> jstr down \<times> jstr down" where
  "agreement_rank r = (Down (gf_activated r), Down (gf_id r))"

definition browse_checkpoint_ok :: "jstr \<Rightarrow> checkpoint \<Rightarrow> bool" where
  "browse_checkpoint_ok channel c \<longleftrightarrow> cp_channel c = channel \<and> 0 \<le> cp_block c \<and> cp_block c \<le> max_safe \<and>
     -1 \<le> cp_index c \<and> cp_index c \<le> max_safe \<and> (if cp_index c = -1 then cp_tx c = [] else cp_tx c \<noteq> []) \<and> cp_hash c \<noteq> []"

definition visible :: "checkpoint \<Rightarrow> checkpoint \<Rightarrow> bool" where
  "visible c at \<longleftrightarrow> place c \<le> place at"

definition prepend_latest :: "('r \<Rightarrow> 'k :: linorder) \<Rightarrow> 'r list \<Rightarrow> 'r list \<Rightarrow> 'r list" where
  "prepend_latest rank added existing =
     (if added = [] then existing
      else if existing = [] \<or> rank (last added) < rank (hd existing) then added @ existing
      else sort_key rank (added @ existing))"

definition same_revision_ref :: "browse_ref \<Rightarrow> browse_ref \<Rightarrow> bool" where
  "same_revision_ref a b \<longleftrightarrow> bf_key a = bf_key b \<and> bf_digest a = bf_digest b \<and> same_slot (bf_slot a) (bf_slot b)"

definition same_proposal_ref :: "proposal_ref \<Rightarrow> proposal_ref \<Rightarrow> bool" where
  "same_proposal_ref a b \<longleftrightarrow> bf_key a = bf_key b \<and> pf_id a = pf_id b \<and> bf_digest a = bf_digest b \<and>
     pf_created a = pf_created b \<and> same_slot (bf_slot a) (bf_slot b)"

definition same_agreement_ref :: "agreement_ref \<Rightarrow> agreement_ref \<Rightarrow> bool" where
  "same_agreement_ref a b \<longleftrightarrow> bf_key a = bf_key b \<and> gf_id a = gf_id b \<and> bf_digest a = bf_digest b \<and>
     gf_activated a = gf_activated b \<and> same_slot (bf_slot a) (bf_slot b)"

section \<open>The tables\<close>

text \<open>
  One kind of references: by key, all of them (the code keeps no such list for agreements), and the buckets, one map
  for each of the functions that a bucket map groups by.
\<close>

record 'r ref_table =
  rt_by_key :: "jstr \<Rightarrow> 'r option"
  rt_all :: "'r list option"
  rt_buckets :: "(jstr \<Rightarrow> 'r list option) list"

record browse_state =
  bs_revisions :: "browse_ref ref_table"
  bs_proposals :: "proposal_ref ref_table"
  bs_agreements :: "agreement_ref ref_table"

definition empty_table :: "bool \<Rightarrow> nat \<Rightarrow> 'r ref_table" where
  "empty_table listed n = \<lparr>rt_by_key = \<lambda>_. None, rt_all = (if listed then Some [] else None), rt_buckets = replicate n (\<lambda>_. None)\<rparr>"

definition empty_browse_state :: browse_state where
  "empty_browse_state = \<lparr>bs_revisions = empty_table True 2, bs_proposals = empty_table True 1, bs_agreements = empty_table False 1\<rparr>"

definition revision_groups :: "(browse_ref \<Rightarrow> jstr) list" where
  "revision_groups = [\<lambda>r. slot_key (bf_slot r), \<lambda>r. document_id (bf_slot r)]"

definition proposal_groups :: "(proposal_ref \<Rightarrow> jstr) list" where
  "proposal_groups = [bf_digest]"

definition agreement_groups :: "(agreement_ref \<Rightarrow> jstr) list" where
  "agreement_groups = [bf_digest]"

definition in_bucket :: "(jstr \<Rightarrow> 'r list option) \<Rightarrow> jstr \<Rightarrow> 'r list" where
  "in_bucket m b = (case m b of None \<Rightarrow> [] | Some rs \<Rightarrow> rs)"

section \<open>Preparing\<close>

text \<open>
  What a preparation collects for one kind.  The map of pending references and the list of added ones hold the same
  objects in the same order, so one list stands for both; a changed checkpoint is changed in both.
\<close>

record 'r delta =
  dl_added :: "'r list"
  dl_demote :: "'r list"

record prepared_browse =
  pv_revisions :: "browse_ref delta"
  pv_proposals :: "proposal_ref delta"
  pv_agreements :: "agreement_ref delta"
  pv_committed :: bool

definition empty_delta :: "'r delta" where
  "empty_delta = \<lparr>dl_added = [], dl_demote = []\<rparr>"

definition ref_of :: "jstr \<Rightarrow> 'x browse_ref_scheme list \<Rightarrow> 'x browse_ref_scheme option" where
  "ref_of k rs = find (\<lambda>r. bf_key r = k) rs"

definition earlier_than :: "'x browse_ref_scheme \<Rightarrow> 'x browse_ref_scheme option \<Rightarrow> bool" where
  "earlier_than r existing = (case existing of None \<Rightarrow> False | Some e \<Rightarrow> place (bf_at r) < place (bf_at e))"

definition note_demote :: "'x browse_ref_scheme \<Rightarrow> 'x browse_ref_scheme list \<Rightarrow> 'x browse_ref_scheme list" where
  "note_demote r noted = (case ref_of (bf_key r) noted of
     None \<Rightarrow> noted @ [r]
   | Some previous \<Rightarrow> if earlier_than r (Some previous) then map (\<lambda>e. if bf_key e = bf_key r then r else e) noted else noted)"

definition stage_ref :: "('x browse_ref_scheme \<Rightarrow> 'x browse_ref_scheme \<Rightarrow> bool) \<Rightarrow> string \<Rightarrow> (jstr \<Rightarrow> 'x browse_ref_scheme option) \<Rightarrow>
    'x browse_ref_scheme \<Rightarrow> 'x browse_ref_scheme delta \<Rightarrow> 'x browse_ref_scheme delta bres" where
  "stage_ref matches message by_key r d =
     (let committed = by_key (bf_key r); pending = ref_of (bf_key r) (dl_added d) in
      case (if committed = None then pending else committed) of
        None \<Rightarrow> Ok (d\<lparr>dl_added := dl_added d @ [r]\<rparr>)
      | Some existing \<Rightarrow>
          if \<not> matches existing r then browse_fail message
          else if earlier_than r pending
            then Ok (d\<lparr>dl_added := map (\<lambda>e. if bf_key e = bf_key r then e\<lparr>bf_at := bf_at r\<rparr> else e) (dl_added d)\<rparr>)
          else if earlier_than r committed then Ok (d\<lparr>dl_demote := note_demote r (dl_demote d)\<rparr>)
          else Ok d)"

text \<open>The reference of a write, if its record is filed under its own key\<close>

definition revision_ref :: "sha_fn \<Rightarrow> jstr \<Rightarrow> checkpoint \<Rightarrow> jstr \<Rightarrow> json \<Rightarrow> browse_ref bres" where
  "revision_ref sha channel at k v = rbind (of_record (validate_revision sha v)) (\<lambda>r.
     if k \<noteq> key_revision (rv_digest r) \<or> channel_id (rv_slot r) \<noteq> channel then browse_fail ''Invalid browse revision binding''
     else Ok \<lparr>bf_key = k, bf_digest = rv_digest r, bf_slot = rv_slot r, bf_at = at\<rparr>)"

definition proposal_ref_of :: "jstr \<Rightarrow> checkpoint \<Rightarrow> jstr \<Rightarrow> json \<Rightarrow> proposal_ref bres" where
  "proposal_ref_of channel at k v = rbind (of_record (validate_proposal v)) (\<lambda>p.
     if k \<noteq> key_proposal (pr_id p) \<or> channel_id (pr_slot p) \<noteq> channel then browse_fail ''Invalid browse proposal binding''
     else Ok \<lparr>bf_key = k, bf_digest = pr_digest p, bf_slot = pr_slot p, bf_at = at, pf_id = pr_id p, pf_created = pr_created_at p\<rparr>)"

definition agreement_ref_of :: "jstr \<Rightarrow> checkpoint \<Rightarrow> jstr \<Rightarrow> json \<Rightarrow> agreement_ref bres" where
  "agreement_ref_of channel at k v = rbind (of_record (validate_agreement v)) (\<lambda>a.
     if k \<noteq> key_agreement (ag_id a) \<or> channel_id (ag_slot a) \<noteq> channel then browse_fail ''Invalid browse agreement binding''
     else Ok \<lparr>bf_key = k, bf_digest = ag_digest a, bf_slot = ag_slot a, bf_at = at, gf_id = ag_id a, gf_activated = ag_at a\<rparr>)"

text \<open>\<open>key.startsWith('kcl:v1:revision:')\<close>\<close>

definition names_kind :: "key_kind \<Rightarrow> jstr \<Rightarrow> bool" where
  "names_kind kd k \<longleftrightarrow> take (Suc (length (key_prefix kd))) k = key_prefix kd @ [58]"

definition browse_write :: "sha_fn \<Rightarrow> jstr \<Rightarrow> browse_state \<Rightarrow> checkpoint \<Rightarrow> jstr \<times> json \<Rightarrow> prepared_browse \<Rightarrow> prepared_browse bres" where
  "browse_write sha channel st at = (\<lambda>(k, v) p.
     if names_kind KRevision k then
       rbind (revision_ref sha channel at k v) (\<lambda>r. rmap (\<lambda>d. p\<lparr>pv_revisions := d\<rparr>)
         (stage_ref same_revision_ref ''Browse index immutable revision fields changed'' (rt_by_key (bs_revisions st)) r (pv_revisions p)))
     else if names_kind KProposal k then
       rbind (proposal_ref_of channel at k v) (\<lambda>r. rmap (\<lambda>d. p\<lparr>pv_proposals := d\<rparr>)
         (stage_ref same_proposal_ref ''Browse index immutable proposal fields changed'' (rt_by_key (bs_proposals st)) r (pv_proposals p)))
     else if names_kind KAgreement k then
       rbind (agreement_ref_of channel at k v) (\<lambda>r. rmap (\<lambda>d. p\<lparr>pv_agreements := d\<rparr>)
         (stage_ref same_agreement_ref ''Browse index immutable agreement fields changed'' (rt_by_key (bs_agreements st)) r (pv_agreements p)))
     else Ok p)"

record browse_batch =
  bb_at :: checkpoint
  bb_writes :: "(jstr \<times> json) list"

definition prepare_batch :: "sha_fn \<Rightarrow> jstr \<Rightarrow> browse_state \<Rightarrow> browse_batch \<Rightarrow> prepared_browse \<Rightarrow> prepared_browse bres" where
  "prepare_batch sha channel st batch p =
     (if \<not> browse_checkpoint_ok channel (bb_at batch) then browse_fail ''Invalid browse checkpoint''
      else if cp_index (bb_at batch) = -1 \<and> bb_writes batch \<noteq> [] then browse_fail ''Block-only browse checkpoint cannot publish writes''
      else foldR (browse_write sha channel st (bb_at batch)) (bb_writes batch) p)"

definition browse_prepare :: "sha_fn \<Rightarrow> jstr \<Rightarrow> browse_state \<Rightarrow> browse_batch list \<Rightarrow> prepared_browse bres" where
  "browse_prepare sha channel st batches = foldR (prepare_batch sha channel st) batches
     \<lparr>pv_revisions = empty_delta, pv_proposals = empty_delta, pv_agreements = empty_delta, pv_committed = False\<rparr>"

section \<open>Committing\<close>

text \<open>What was added is checked against the state of now: it is new, or publishes a known key earlier, or neither.\<close>

definition recheck_added :: "('x browse_ref_scheme \<Rightarrow> 'x browse_ref_scheme \<Rightarrow> bool) \<Rightarrow> string \<Rightarrow> (jstr \<Rightarrow> 'x browse_ref_scheme option) \<Rightarrow>
    'x browse_ref_scheme \<Rightarrow> 'x browse_ref_scheme list \<times> 'x browse_ref_scheme list \<Rightarrow> ('x browse_ref_scheme list \<times> 'x browse_ref_scheme list) bres" where
  "recheck_added matches message by_key r = (\<lambda>(fresh, demoted). case by_key (bf_key r) of
     None \<Rightarrow> Ok (fresh @ [r], demoted)
   | Some existing \<Rightarrow>
       if \<not> matches existing r then browse_fail message
       else Ok (fresh, if earlier_than r (Some existing) then demoted @ [r] else demoted))"

definition collect_demoted :: "('x browse_ref_scheme \<Rightarrow> 'x browse_ref_scheme \<Rightarrow> bool) \<Rightarrow> string \<Rightarrow> (jstr \<Rightarrow> 'x browse_ref_scheme option) \<Rightarrow>
    'x browse_ref_scheme \<Rightarrow> 'x browse_ref_scheme list \<Rightarrow> 'x browse_ref_scheme list bres" where
  "collect_demoted matches message by_key r demoted = (case by_key (bf_key r) of
     None \<Rightarrow> Ok demoted
   | Some existing \<Rightarrow>
       if \<not> matches existing r then browse_fail message
       else Ok (if earlier_than r (Some existing) then demoted @ [r] else demoted))"

definition without_demoted :: "('x browse_ref_scheme \<Rightarrow> jstr) list \<Rightarrow> 'x browse_ref_scheme list \<Rightarrow> 'x browse_ref_scheme ref_table \<Rightarrow>
    'x browse_ref_scheme ref_table" where
  "without_demoted groups demoted t =
     (if demoted = [] then t
      else let gone = bf_key ` set demoted; keep = (\<lambda>r. bf_key r \<notin> gone) in
        \<lparr>rt_by_key = (\<lambda>k. if k \<in> gone then None else rt_by_key t k),
         rt_all = map_option (filter keep) (rt_all t),
         rt_buckets = map2 (\<lambda>group m b. if b \<in> group ` set demoted then Some (filter keep (in_bucket m b)) else m b) groups (rt_buckets t)\<rparr>)"

definition with_incoming :: "('x browse_ref_scheme \<Rightarrow> 'k :: linorder) \<Rightarrow> ('x browse_ref_scheme \<Rightarrow> jstr) list \<Rightarrow> 'x browse_ref_scheme list \<Rightarrow>
    'x browse_ref_scheme ref_table \<Rightarrow> 'x browse_ref_scheme ref_table" where
  "with_incoming rank groups arrived t =
     (let incoming = sort_key rank arrived in
      if incoming = [] then t
      else \<lparr>rt_by_key = fold (\<lambda>r m. m(bf_key r \<mapsto> r)) incoming (rt_by_key t),
         rt_all = map_option (prepend_latest rank incoming) (rt_all t),
         rt_buckets = map2 (\<lambda>group m b. if b \<in> group ` set incoming
            then Some (prepend_latest rank (sort_key rank (filter (\<lambda>r. group r = b) incoming)) (in_bucket m b)) else m b) groups (rt_buckets t)\<rparr>)"

definition merge_delta :: "('x browse_ref_scheme \<Rightarrow> 'k :: linorder) \<Rightarrow> ('x browse_ref_scheme \<Rightarrow> jstr) list \<Rightarrow> 'x browse_ref_scheme list \<Rightarrow>
    'x browse_ref_scheme list \<Rightarrow> 'x browse_ref_scheme ref_table \<Rightarrow> 'x browse_ref_scheme ref_table" where
  "merge_delta rank groups fresh demoted t = with_incoming rank groups (fresh @ demoted) (without_demoted groups demoted t)"

section \<open>The cache of selections\<close>

record browse_limits =
  lm_entries :: int
  lm_refs :: int
  lm_bytes :: int
  lm_oversized_bytes :: int

definition default_browse_limits :: browse_limits where
  "default_browse_limits = \<lparr>lm_entries = 8, lm_refs = 16384, lm_bytes = 512 * 1024, lm_oversized_bytes = 16 * 1024 * 1024\<rparr>"

text \<open>An entry has the references, their estimated size and the checkpoint of the query; the last entry is the latest used.\<close>

record selection =
  sn_refs :: "browse_ref list"
  sn_bytes :: int
  sn_at :: checkpoint

record revision_cache =
  rc_entries :: "(jstr \<times> selection) list"
  rc_refs :: int
  rc_bytes :: int
  rc_oversized :: "jstr list"
  rc_oversized_refs :: int
  rc_oversized_bytes :: int
  rc_hits :: int
  rc_misses :: int

definition empty_revision_cache :: revision_cache where
  "empty_revision_cache = \<lparr>rc_entries = [], rc_refs = 0, rc_bytes = 0, rc_oversized = [], rc_oversized_refs = 0,
     rc_oversized_bytes = 0, rc_hits = 0, rc_misses = 0\<rparr>"

definition without_entry :: "jstr \<Rightarrow> (jstr \<times> selection) list \<Rightarrow> (jstr \<times> selection) list" where
  "without_entry k es = filter (\<lambda>(l, _). l \<noteq> k) es"

definition drop_selection :: "jstr \<Rightarrow> revision_cache \<Rightarrow> revision_cache" where
  "drop_selection k c = (case map_of (rc_entries c) k of
     None \<Rightarrow> c
   | Some e \<Rightarrow> let n = int (length (sn_refs e)); c' = c\<lparr>rc_entries := without_entry k (rc_entries c), rc_refs := rc_refs c - n,
         rc_bytes := rc_bytes c - sn_bytes e\<rparr> in
       if k \<in> set (rc_oversized c)
       then c'\<lparr>rc_oversized := removeAll k (rc_oversized c), rc_oversized_refs := rc_oversized_refs c - n,
           rc_oversized_bytes := rc_oversized_bytes c - sn_bytes e\<rparr>
       else c')"

lemma drop_selection_shorter:
  "k \<in> fst ` set (rc_entries c) \<Longrightarrow> length (rc_entries (drop_selection k c)) < length (rc_entries c)"
proof -
  assume "k \<in> fst ` set (rc_entries c)"
  then obtain e where e: "map_of (rc_entries c) k = Some e" by (cases "map_of (rc_entries c) k") (auto simp: map_of_eq_None_iff)
  have "length (without_entry k (rc_entries c)) < length (rc_entries c)"
    unfolding without_entry_def using map_of_SomeD [OF e] by (rule length_filter_less) simp
  then show ?thesis using e by (simp add: drop_selection_def Let_def)
qed

definition oldest_selection :: "bool \<Rightarrow> revision_cache \<Rightarrow> jstr option" where
  "oldest_selection big c = find (\<lambda>k. (k \<in> set (rc_oversized c)) = big) (map fst (rc_entries c))"

lemma oldest_selection_member: "oldest_selection big c = Some k \<Longrightarrow> k \<in> fst ` set (rc_entries c)"
  by (auto simp: oldest_selection_def find_Some_iff)

function make_room :: "bool \<Rightarrow> (revision_cache \<Rightarrow> bool) \<Rightarrow> revision_cache \<Rightarrow> revision_cache" where
  "make_room big full c =
     (if full c then (case oldest_selection big c of None \<Rightarrow> c | Some k \<Rightarrow> make_room big full (drop_selection k c)) else c)"
  by pat_completeness auto
termination
  by (relation "measure (\<lambda>(big, full, c). length (rc_entries c))") (auto dest: oldest_selection_member intro: drop_selection_shorter)

declare make_room.simps [simp del]

definition oversized_pool_full :: "browse_limits \<Rightarrow> int \<Rightarrow> revision_cache \<Rightarrow> bool" where
  "oversized_pool_full lm bytes c \<longleftrightarrow> lm_entries lm \<le> int (length (rc_oversized c)) \<or> lm_oversized_bytes lm < rc_oversized_bytes c + bytes"

definition normal_pool_full :: "browse_limits \<Rightarrow> int \<Rightarrow> int \<Rightarrow> revision_cache \<Rightarrow> bool" where
  "normal_pool_full lm n bytes c \<longleftrightarrow>
     lm_entries lm \<le> int (length (rc_entries c)) - int (length (rc_oversized c)) \<or>
     lm_refs lm < rc_refs c - rc_oversized_refs c + n \<or> lm_bytes lm < rc_bytes c - rc_oversized_bytes c + bytes"

definition remember_selection :: "jstr \<Rightarrow> selection \<Rightarrow> revision_cache \<Rightarrow> revision_cache" where
  "remember_selection k e c = c\<lparr>rc_entries := without_entry k (rc_entries c) @ [(k, e)],
     rc_refs := rc_refs c + int (length (sn_refs e)), rc_bytes := rc_bytes c + sn_bytes e\<rparr>"

definition cache_revisions :: "browse_limits \<Rightarrow> jstr \<Rightarrow> browse_ref list \<Rightarrow> checkpoint \<Rightarrow> revision_cache \<Rightarrow> revision_cache" where
  "cache_revisions lm k refs at cache =
     (let n = int (length refs); bytes = int (byte_length k) + n * 16; c = drop_selection k cache;
          e = \<lparr>sn_refs = refs, sn_bytes = bytes, sn_at = at\<rparr> in
      if lm_refs lm < n then
        (if lm_oversized_bytes lm < bytes then c
         else let c = make_room True (oversized_pool_full lm bytes) c in
           remember_selection k e (c\<lparr>rc_oversized := rc_oversized c @ [k], rc_oversized_refs := rc_oversized_refs c + n,
             rc_oversized_bytes := rc_oversized_bytes c + bytes\<rparr>))
      else if lm_bytes lm < bytes then c
      else remember_selection k e (make_room False (normal_pool_full lm n bytes) c))"

definition touch_selection :: "jstr \<Rightarrow> revision_cache \<Rightarrow> revision_cache" where
  "touch_selection k c = (case map_of (rc_entries c) k of
     None \<Rightarrow> c
   | Some e \<Rightarrow> c\<lparr>rc_hits := rc_hits c + 1, rc_entries := without_entry k (rc_entries c) @ [(k, e)]\<rparr>)"

section \<open>The index\<close>

record browse_index =
  bx_channel :: jstr
  bx_limits :: browse_limits
  bx_state :: browse_state
  bx_cache :: revision_cache

definition new_browse_index :: "jstr \<Rightarrow> browse_limits \<Rightarrow> browse_index bres" where
  "new_browse_index channel lm =
     (if channel = [] then browse_fail ''Invalid browse channel''
      else Ok \<lparr>bx_channel = channel, bx_limits = lm, bx_state = empty_browse_state, bx_cache = empty_revision_cache\<rparr>)"

record browse_stats =
  st_entries :: nat
  st_refs :: int
  st_bytes :: int
  st_oversized :: bool
  st_oversized_entries :: nat
  st_hits :: int
  st_misses :: int

definition revision_cache_stats :: "browse_index \<Rightarrow> browse_stats" where
  "revision_cache_stats bx = (let c = bx_cache bx in
     \<lparr>st_entries = length (rc_entries c), st_refs = rc_refs c, st_bytes = rc_bytes c, st_oversized = rc_oversized c \<noteq> [],
      st_oversized_entries = length (rc_oversized c), st_hits = rc_hits c, st_misses = rc_misses c\<rparr>)"

text \<open>Selections at or after the earliest revision that a commit brings in are dropped.\<close>

definition invalidate :: "browse_ref list \<Rightarrow> revision_cache \<Rightarrow> revision_cache" where
  "invalidate touched c =
     (if touched = [] then c
      else let m = Min (set (map (\<lambda>r. place (bf_at r)) touched)) in
        fold (\<lambda>k c. case map_of (rc_entries c) k of
            Some e \<Rightarrow> if m \<le> place (sn_at e) then drop_selection k c else c
          | None \<Rightarrow> c) (map fst (rc_entries c)) c)"

definition browse_commit :: "(jstr \<Rightarrow> 'o :: linorder) \<Rightarrow> prepared_browse \<Rightarrow> browse_index \<Rightarrow> (prepared_browse \<times> browse_index) bres" where
  "browse_commit collate p bx =
     (if pv_committed p then Ok (p, bx)
      else let st = bx_state bx;
               rk = rt_by_key (bs_revisions st); pk = rt_by_key (bs_proposals st); ak = rt_by_key (bs_agreements st);
               rm = ''Browse index immutable revision fields changed''; pm = ''Browse index immutable proposal fields changed'';
               am = ''Browse index immutable agreement fields changed'' in
        rbind (foldR (recheck_added same_revision_ref rm rk) (dl_added (pv_revisions p)) ([], [])) (\<lambda>(fresh_r, demoted_r).
        rbind (foldR (recheck_added same_proposal_ref pm pk) (dl_added (pv_proposals p)) ([], [])) (\<lambda>(fresh_p, demoted_p).
        rbind (foldR (recheck_added same_agreement_ref am ak) (dl_added (pv_agreements p)) ([], [])) (\<lambda>(fresh_a, demoted_a).
        rbind (foldR (collect_demoted same_revision_ref rm rk) (dl_demote (pv_revisions p)) demoted_r) (\<lambda>demoted_r.
        rbind (foldR (collect_demoted same_proposal_ref pm pk) (dl_demote (pv_proposals p)) demoted_p) (\<lambda>demoted_p.
        rbind (foldR (collect_demoted same_agreement_ref am ak) (dl_demote (pv_agreements p)) demoted_a) (\<lambda>demoted_a.
        Ok (p\<lparr>pv_committed := True\<rparr>,
          bx\<lparr>bx_cache := invalidate (fresh_r @ demoted_r) (bx_cache bx),
             bx_state := \<lparr>bs_revisions = merge_delta (revision_rank collate) revision_groups fresh_r demoted_r (bs_revisions st),
               bs_proposals = merge_delta (proposal_rank collate) proposal_groups fresh_p demoted_p (bs_proposals st),
               bs_agreements = merge_delta agreement_rank agreement_groups fresh_a demoted_a (bs_agreements st)\<rparr>\<rparr>))))))))"

section \<open>Queries\<close>

datatype revision_mode = LatestPerSlot | AllRevisions | OneSlot | OneDocument

record page_query =
  pq_at :: checkpoint
  pq_offset :: int
  pq_limit :: int

record revision_query = page_query +
  rq_mode :: revision_mode
  rq_slot :: "slot option"
  rq_document :: "jstr option"
  rq_context :: "jstr option"
  rq_scope :: "jstr option"
  rq_usage :: "jstr option"

record proposal_query = page_query +
  pq_digest :: "jstr option"

record annotation_query =
  aq_at :: checkpoint
  aq_digests :: "jstr list"

record 'r browse_page =
  bp_items :: "'r list"
  bp_total :: nat

record annotation =
  an_digest :: jstr
  an_revision :: "browse_ref option"
  an_has_proposal :: bool
  an_agreement :: "agreement_ref option"

definition ref_page :: "'r list \<Rightarrow> int \<Rightarrow> int \<Rightarrow> 'r browse_page" where
  "ref_page rs offset limit = \<lparr>bp_items = take (nat limit) (drop (nat offset) rs), bp_total = length rs\<rparr>"

definition text_or_null :: "jstr option \<Rightarrow> json" where
  "text_or_null s = (case s of None \<Rightarrow> JNull | Some t \<Rightarrow> JStr t)"

fun mode_name :: "revision_mode \<Rightarrow> string" where
  "mode_name LatestPerSlot = ''latest-per-slot''"
| "mode_name AllRevisions = ''all''"
| "mode_name OneSlot = ''slot''"
| "mode_name OneDocument = ''document''"

definition slot_array :: "slot option \<Rightarrow> json" where
  "slot_array s = (case s of None \<Rightarrow> JNull
   | Some s \<Rightarrow> JArr (map JStr [channel_id s, document_id s, context_id s, scope_id s, usage_scope s]))"

definition revision_cache_key :: "revision_query \<Rightarrow> jstr" where
  "revision_cache_key q = (let at = pq_at q in stringify (JArr
     [JStr (cp_channel at), JNum (NInt (cp_block at)), JNum (NInt (cp_index at)), JStr (cp_tx at), JStr (cp_hash at),
      JStr (js (mode_name (rq_mode q))), slot_array (rq_slot q), text_or_null (rq_document q), text_or_null (rq_context q),
      text_or_null (rq_scope q), text_or_null (rq_usage q)]))"

definition selects :: "jstr option \<Rightarrow> jstr \<Rightarrow> bool" where
  "selects wanted s \<longleftrightarrow> (case wanted of None \<Rightarrow> True | Some t \<Rightarrow> s = t)"

definition selected :: "revision_query \<Rightarrow> browse_ref \<Rightarrow> bool" where
  "selected q r \<longleftrightarrow> visible (bf_at r) (pq_at q) \<and> selects (rq_document q) (document_id (bf_slot r)) \<and>
     selects (rq_context q) (context_id (bf_slot r)) \<and> selects (rq_scope q) (scope_id (bf_slot r)) \<and>
     selects (rq_usage q) (usage_scope (bf_slot r))"

fun first_per_slot :: "jstr set \<Rightarrow> browse_ref list \<Rightarrow> browse_ref list" where
  "first_per_slot seen [] = []"
| "first_per_slot seen (r # rs) = (let k = slot_key (bf_slot r) in
     if k \<in> seen then first_per_slot seen rs else r # first_per_slot (insert k seen) rs)"

definition select_revisions :: "browse_state \<Rightarrow> revision_query \<Rightarrow> browse_ref list" where
  "select_revisions st q =
     (let t = bs_revisions st;
          candidates = (case rq_mode q of
            OneSlot \<Rightarrow> in_bucket (rt_buckets t ! 0) (slot_key (the (rq_slot q)))
          | OneDocument \<Rightarrow> in_bucket (rt_buckets t ! 1) (the (rq_document q))
          | _ \<Rightarrow> the (rt_all t));
          rs = filter (selected q) candidates in
      if rq_mode q = LatestPerSlot then first_per_slot {} rs else rs)"

definition selector_ok :: "jstr option \<Rightarrow> bool" where
  "selector_ok s \<longleftrightarrow> s \<noteq> Some []"

text \<open>\<open>slotKey(query.slot)\<close> throws on a slot of the wrong shape.\<close>

definition check_revision_query :: "jstr \<Rightarrow> revision_query \<Rightarrow> unit bres" where
  "check_revision_query channel q =
     (if \<not> (selector_ok (rq_document q) \<and> selector_ok (rq_context q) \<and> selector_ok (rq_scope q) \<and> selector_ok (rq_usage q))
      then browse_fail ''Invalid browse revision selector''
      else case rq_mode q of
        OneSlot \<Rightarrow> (case rq_slot q of
            None \<Rightarrow> browse_fail ''Invalid browse slot''
          | Some s \<Rightarrow> if channel_id s \<noteq> channel then browse_fail ''Invalid browse slot''
              else if \<not> wf_slot s then Err BrowseSlot else Ok ())
      | OneDocument \<Rightarrow> if rq_document q = None then browse_fail ''Invalid browse document'' else Ok ()
      | _ \<Rightarrow> Ok ())"

definition query_revisions :: "revision_query \<Rightarrow> browse_index \<Rightarrow> (browse_ref browse_page \<times> browse_index) bres" where
  "query_revisions q bx =
     rbind (check_revision_query (bx_channel bx) q) (\<lambda>_.
     let k = revision_cache_key q in
     case map_of (rc_entries (bx_cache bx)) k of
       Some e \<Rightarrow> Ok (ref_page (sn_refs e) (pq_offset q) (pq_limit q), bx\<lparr>bx_cache := touch_selection k (bx_cache bx)\<rparr>)
     | None \<Rightarrow> let rs = select_revisions (bx_state bx) q; c = bx_cache bx in
         Ok (ref_page rs (pq_offset q) (pq_limit q),
             bx\<lparr>bx_cache := cache_revisions (bx_limits bx) k rs (pq_at q) (c\<lparr>rc_misses := rc_misses c + 1\<rparr>)\<rparr>))"

definition query_proposals :: "proposal_query \<Rightarrow> browse_state \<Rightarrow> proposal_ref browse_page bres" where
  "query_proposals q st =
     (if \<not> selector_ok (pq_digest q) then browse_fail ''Invalid browse revision digest''
      else let t = bs_proposals st;
               candidates = (case pq_digest q of None \<Rightarrow> the (rt_all t) | Some d \<Rightarrow> in_bucket (rt_buckets t ! 0) d) in
        Ok (ref_page (filter (\<lambda>r. visible (bf_at r) (pq_at q)) candidates) (pq_offset q) (pq_limit q)))"

definition annotate :: "browse_state \<Rightarrow> checkpoint \<Rightarrow> jstr \<Rightarrow> annotation" where
  "annotate st at d =
     \<lparr>an_digest = d,
      an_revision = (case rt_by_key (bs_revisions st) (key_revision d) of
          Some r \<Rightarrow> if visible (bf_at r) at then Some r else None | None \<Rightarrow> None),
      an_has_proposal = list_ex (\<lambda>r. visible (bf_at r) at) (in_bucket (rt_buckets (bs_proposals st) ! 0) d),
      an_agreement = find (\<lambda>r. visible (bf_at r) at) (in_bucket (rt_buckets (bs_agreements st) ! 0) d)\<rparr>"

definition query_annotations :: "annotation_query \<Rightarrow> browse_state \<Rightarrow> annotation list bres" where
  "query_annotations q st =
     (if 1000 < length (aq_digests q) \<or> [] \<in> set (aq_digests q)
      then browse_fail ''Invalid browse annotation batch; maximum is 1000''
      else Ok (map (annotate st (aq_at q)) (aq_digests q)))"

datatype browse_query = RevisionQuery revision_query | ProposalQuery proposal_query | AnnotationQuery annotation_query
datatype browse_answer = RevisionPage "browse_ref browse_page" | ProposalPage "proposal_ref browse_page" | Annotations "annotation list"

fun query_at :: "browse_query \<Rightarrow> checkpoint" where
  "query_at (RevisionQuery q) = pq_at q"
| "query_at (ProposalQuery q) = pq_at q"
| "query_at (AnnotationQuery q) = aq_at q"

definition page_range_ok :: "'x page_query_scheme \<Rightarrow> bool" where
  "page_range_ok q \<longleftrightarrow> 0 \<le> pq_offset q \<and> pq_offset q \<le> max_safe \<and> 1 \<le> pq_limit q \<and> pq_limit q \<le> 1000"

definition query_index :: "browse_query \<Rightarrow> browse_index \<Rightarrow> (browse_answer \<times> browse_index) bres" where
  "query_index query bx =
     (if \<not> browse_checkpoint_ok (bx_channel bx) (query_at query) then browse_fail ''Invalid browse checkpoint''
      else case query of
        AnnotationQuery q \<Rightarrow> rmap (\<lambda>xs. (Annotations xs, bx)) (query_annotations q (bx_state bx))
      | ProposalQuery q \<Rightarrow>
          if \<not> page_range_ok q then browse_fail ''Invalid browse page range''
          else rmap (\<lambda>p. (ProposalPage p, bx)) (query_proposals q (bx_state bx))
      | RevisionQuery q \<Rightarrow>
          if \<not> page_range_ok q then browse_fail ''Invalid browse page range''
          else rmap (\<lambda>(p, bx). (RevisionPage p, bx)) (query_revisions q bx))"

end
