(* ===== verification/DurableProjection.thy ===== *)
theory DurableProjection
  imports Projector BrowseIndex
begin

text \<open>
  The durable projection (\<open>packages/fabric/sqlite-projection.ts\<close>, \<open>packages/fabric/journal-verification.ts\<close>): the raw
  blocks are a journal in SQLite that every opening and every historical read replays through a projector; the other
  tables are derived and are only compared with what the process has verified.

  A table is the list of its rows; columns hold values of their declared types, JSON columns the text.  The tables are
  a field of the state, so that they can change between two operations without the process.  An operation is a function
  of the state that returns its result and the state after it, also when it fails.  Parameters: \<open>sha\<close>, \<open>real\<close>,
  the protobuf decoders \<open>pt\<close>, and \<open>collate\<close> for \<open>localeCompare\<close>.  \<open>clone\<close> copies values that are already clones of
  canonical values, so it is the identity here.
\<close>

section \<open>Results and operations\<close>

datatype durable_error = ProjectionFailed string | BlockRefused projector_error | BrowseRefused browse_error
  | ConstraintFailed | UnreadableJson

type_synonym 'a dres = "(durable_error, 'a) result"

definition refuse :: "string \<Rightarrow> 'a dres" where
  "refuse message = Err (ProjectionFailed message)"

lemma refuse_not_Ok [simp]: "refuse m \<noteq> Ok x"
  by (simp add: refuse_def)

definition of_block :: "'a pres \<Rightarrow> 'a dres" where
  "of_block r = (case r of Err e \<Rightarrow> Err (BlockRefused e) | Ok x \<Rightarrow> Ok x)"

definition of_browse :: "'a bres \<Rightarrow> 'a dres" where
  "of_browse r = (case r of Err e \<Rightarrow> Err (BrowseRefused e) | Ok x \<Rightarrow> Ok x)"

lemma of_block_Ok [simp]: "of_block r = Ok x \<longleftrightarrow> r = Ok x"
  by (cases r) (simp_all add: of_block_def)

lemma of_browse_Ok [simp]: "of_browse r = Ok x \<longleftrightarrow> r = Ok x"
  by (cases r) (simp_all add: of_browse_def)

section \<open>Texts\<close>

text \<open>\<open>Buffer.toString('hex')\<close>\<close>

definition to_hex :: "nat list \<Rightarrow> jstr" where
  "to_hex bytes = concat (map (\<lambda>b. [hex_lower (b div 16), hex_lower (b mod 16)]) bytes)"

definition empty_journal_digest :: jstr where
  "empty_journal_digest = replicate 64 48"

definition append_journal_digest :: "sha_fn \<Rightarrow> jstr \<Rightarrow> jstr \<Rightarrow> jstr" where
  "append_journal_digest sha previous digest = sha (from_hex (previous @ digest))"

definition enc_checkpoint :: "checkpoint \<Rightarrow> json" where
  "enc_checkpoint c = obj
     [(''channel_id'', JStr (cp_channel c)), (''block_number'', JNum (NInt (cp_block c))), (''transaction_index'', JNum (NInt (cp_index c))),
      (''transaction_id'', JStr (cp_tx c)), (''block_hash'', JStr (cp_hash c))]"

definition enc_block_checkpoint :: "projector_checkpoint \<Rightarrow> json" where
  "enc_block_checkpoint c = obj
     [(''channel_id'', JStr (pc_channel c)), (''block_number'', JNum (NInt (pc_number c))), (''block_hash'', JStr (pc_hash c)),
      (''data_hash'', JStr (pc_data c))]"

definition enc_writeset :: "(jstr \<times> json) list \<Rightarrow> json" where
  "enc_writeset ws = JArr (map (\<lambda>(k, v). obj [(''key'', JStr k), (''value'', v)]) ws)"

definition transaction_json :: "jstr \<Rightarrow> int \<Rightarrow> int \<Rightarrow> bool \<Rightarrow> int \<Rightarrow> json \<Rightarrow> jstr \<Rightarrow> json" where
  "transaction_json tx index code valid n writes time = obj
     [(''tx_id'', JStr tx), (''transaction_index'', JNum (NInt index)), (''validation_code'', JNum (NInt code)), (''valid'', JBool valid),
      (''writes'', JNum (NInt n)), (''writeset'', writes), (''timestamp'', JStr time)]"

definition enc_projected :: "projected_tx \<Rightarrow> json" where
  "enc_projected tx = transaction_json (px_id tx) (int (px_index tx)) (int (px_code tx)) (px_valid tx) (int (length (px_writes tx)))
     (enc_writeset (px_writes tx)) (px_time tx)"

definition enc_block_result :: "block_result \<Rightarrow> json" where
  "enc_block_result r = obj
     [(''checkpoint'', enc_block_checkpoint (br_checkpoint r)), (''transactions'', JArr (map enc_projected (br_transactions r))),
      (''valid_transaction_ids'', JArr (map JStr (br_valid r))), (''invalid_transaction_ids'', JArr (map JStr (br_invalid r)))]"

text \<open>\<open>sameJson\<close> of this file compares the texts of \<open>JSON.stringify\<close>; that of \<open>undefined\<close> is \<open>undefined\<close>.\<close>

definition same_text :: "json option \<Rightarrow> json option \<Rightarrow> bool" where
  "same_text a b \<longleftrightarrow> map_option stringify a = map_option stringify b"

section \<open>Journal verification\<close>

record journal_block =
  jb_number :: int
  jb_hash :: jstr
  jb_data :: jstr
  jb_previous :: jstr
  jb_digest :: jstr
  jb_bytes :: "nat list"

record projection_binding =
  pn_schema :: int
  pn_channel :: jstr
  pn_chaincode :: jstr
  pn_version :: jstr
  pn_genesis :: jstr

definition fabric_projection_binding :: "sha_fn \<Rightarrow> projector_options \<Rightarrow> projection_binding dres" where
  "fabric_projection_binding sha po = rmap (\<lambda>d.
     \<lparr>pn_schema = 1, pn_channel = po_channel po, pn_chaincode = po_chaincode po,
      pn_version = (case po_version po of None \<Rightarrow> js ''0.1.0'' | Some v \<Rightarrow> v), pn_genesis = d\<rparr>)
     (of_block (canonical (sha256_digest sha (po_genesis po))))"

definition verify_journal_block :: "sha_fn \<Rightarrow> real_fn \<Rightarrow> protos \<Rightarrow> journal_block \<Rightarrow> projector \<Rightarrow> (block_result \<times> projector) dres" where
  "verify_journal_block sha real pt jb p =
     (if \<not> safe_natural (jb_number jb) then refuse ''Fabric raw block number is invalid''
      else case pt_block pt (jb_bytes jb) of
        None \<Rightarrow> refuse ''Malformed Fabric block''
      | Some block \<Rightarrow> (case bl_header block of
          None \<Rightarrow> refuse ''Fabric raw block number mismatch''
        | Some h \<Rightarrow>
            if hd_number h \<noteq> jb_number jb then refuse ''Fabric raw block number mismatch''
            else if sha (jb_bytes jb) \<noteq> jb_digest jb then refuse ''Fabric raw block digest mismatch''
            else rbind (of_block (apply_block sha real pt (jb_bytes jb) p)) (\<lambda>(result, p').
              let cp = br_checkpoint result in
              if pc_hash cp \<noteq> jb_hash jb \<or> pc_data cp \<noteq> jb_data jb \<or> to_hex (hd_previous h) \<noteq> jb_previous jb \<or>
                to_hex (hd_data_hash h) \<noteq> jb_data jb then refuse ''Fabric raw block journal metadata mismatch''
              else Ok (result, p'))))"

section \<open>Tables\<close>

record raw_row =
  rw_number :: int
  rw_hash :: jstr
  rw_data :: jstr
  rw_previous :: jstr
  rw_digest :: jstr
  rw_bytes :: "nat list"
  rw_result :: jstr

record tx_row =
  xr_block :: int
  xr_index :: int
  xr_tx :: jstr
  xr_code :: int
  xr_valid :: int
  xr_time :: jstr
  xr_writes :: jstr

text \<open>The rows of the history and of the creations\<close>

record write_row =
  wr_key :: jstr
  wr_block :: int
  wr_index :: int
  wr_tx :: jstr
  wr_hash :: jstr
  wr_value :: jstr

record projection_db =
  db_binding :: "projection_binding option"
  db_blocks :: "raw_row list"
  db_txs :: "tx_row list"
  db_state :: "(jstr \<times> jstr) list"
  db_history :: "write_row list"
  db_creation :: "write_row list"
  db_cursor :: "(int \<times> jstr \<times> jstr) option"

definition empty_projection_db :: projection_db where
  "empty_projection_db = \<lparr>db_binding = None, db_blocks = [], db_txs = [], db_state = [], db_history = [], db_creation = [], db_cursor = None\<rparr>"

definition block_from_row :: "raw_row \<Rightarrow> journal_block dres" where
  "block_from_row r =
     (if \<not> safe_natural (rw_number r) then refuse ''Fabric raw block number is invalid''
      else Ok \<lparr>jb_number = rw_number r, jb_hash = rw_hash r, jb_data = rw_data r, jb_previous = rw_previous r, jb_digest = rw_digest r,
               jb_bytes = rw_bytes r\<rparr>)"

definition block_from_header :: "sha_fn \<Rightarrow> nat list \<Rightarrow> proto_header \<Rightarrow> journal_block dres" where
  "block_from_header sha serialized h = rmap (\<lambda>hash.
     \<lparr>jb_number = hd_number h, jb_hash = hash, jb_data = to_hex (hd_data_hash h), jb_previous = to_hex (hd_previous h),
      jb_digest = sha serialized, jb_bytes = serialized\<rparr>) (of_block (fabric_block_header_hash sha h))"

definition load_block :: "projection_db \<Rightarrow> int \<Rightarrow> journal_block option dres" where
  "load_block db n = (case find (\<lambda>r. rw_number r = n) (db_blocks db) of None \<Rightarrow> Ok None | Some r \<Rightarrow> rmap Some (block_from_row r))"

text \<open>\<open>iterateRawBlocks\<close>: the rows with a number above minus one, in the order of the numbers.\<close>

definition journal :: "projection_db \<Rightarrow> raw_row list" where
  "journal db = sort_key rw_number (filter (\<lambda>r. -1 < rw_number r) (db_blocks db))"

text \<open>\<open>INSERT\<close> under the primary key and, for blocks, the unique hash\<close>

definition insert_block :: "journal_block \<Rightarrow> block_result \<Rightarrow> projection_db \<Rightarrow> projection_db dres" where
  "insert_block jb result db =
     (if \<exists>r \<in> set (db_blocks db). rw_number r = jb_number jb \<or> rw_hash r = jb_hash jb then Err ConstraintFailed
      else Ok (db\<lparr>db_blocks := db_blocks db @ [\<lparr>rw_number = jb_number jb, rw_hash = jb_hash jb, rw_data = pc_data (br_checkpoint result),
        rw_previous = jb_previous jb, rw_digest = jb_digest jb, rw_bytes = jb_bytes jb, rw_result = stringify (enc_block_result result)\<rparr>]\<rparr>))"

definition insert_transaction :: "int \<Rightarrow> projected_tx \<Rightarrow> projection_db \<Rightarrow> projection_db dres" where
  "insert_transaction n tx db =
     (if \<exists>r \<in> set (db_txs db). xr_block r = n \<and> xr_index r = int (px_index tx) then Err ConstraintFailed
      else Ok (db\<lparr>db_txs := db_txs db @ [\<lparr>xr_block = n, xr_index = int (px_index tx), xr_tx = px_id tx, xr_code = int (px_code tx),
        xr_valid = (if px_valid tx then 1 else 0), xr_time = px_time tx, xr_writes = stringify (enc_writeset (px_writes tx))\<rparr>]\<rparr>))"

definition insert_transactions :: "int \<Rightarrow> block_result \<Rightarrow> projection_db \<Rightarrow> projection_db dres" where
  "insert_transactions n result = foldR (insert_transaction n) (br_transactions result)"

definition append_write :: "int \<Rightarrow> jstr \<Rightarrow> projected_tx \<Rightarrow> jstr \<times> json \<Rightarrow> projection_db \<Rightarrow> projection_db dres" where
  "append_write n hash tx = (\<lambda>(k, v) db.
     let row = \<lparr>wr_key = k, wr_block = n, wr_index = int (px_index tx), wr_tx = px_id tx, wr_hash = hash, wr_value = stringify v\<rparr> in
     if \<exists>r \<in> set (db_history db). wr_key r = k \<and> wr_block r = n \<and> wr_index r = int (px_index tx) then Err ConstraintFailed
     else Ok (db\<lparr>db_history := db_history db @ [row],
       db_creation := (if \<exists>r \<in> set (db_creation db). wr_key r = k then db_creation db else db_creation db @ [row]),
       db_state := upsert k (stringify v) (db_state db)\<rparr>))"

definition append_derived :: "int \<Rightarrow> block_result \<Rightarrow> projection_db \<Rightarrow> projection_db dres" where
  "append_derived n result db = (let cp = br_checkpoint result in
     rmap (\<lambda>db. db\<lparr>db_cursor := Some (n, pc_hash cp, pc_data cp)\<rparr>)
       (foldR (\<lambda>tx. if px_valid tx then foldR (append_write n (pc_hash cp) tx) (px_writes tx) else Ok) (br_transactions result) db))"

section \<open>The state of the process\<close>

record historical_replay =
  hr_before :: "(jstr \<times> json) list"
  hr_digest :: jstr
  hr_result :: block_result

record creation_anchor =
  ca_block_digest :: jstr
  ca_at :: checkpoint
  ca_transaction :: jstr
  ca_value :: jstr

record durable_projection =
  du_options :: projector_options
  du_db :: projection_db
  du_projector :: projector
  du_browse :: browse_index
  du_latest :: "block_result option"
  du_snapshots :: "(jstr \<times> historical_replay) list"
  du_results :: "(int \<times> jstr \<times> block_result) list"
  du_anchors :: "(jstr \<times> creation_anchor) list"
  du_raw :: "jstr option"
  du_journal :: jstr
  du_closed :: bool

type_synonym 'a operation = "durable_projection \<Rightarrow> 'a dres \<times> durable_projection"

definition obind :: "'a operation \<Rightarrow> ('a \<Rightarrow> 'b operation) \<Rightarrow> 'b operation" where
  "obind m f = (\<lambda>s. case m s of (Err e, s') \<Rightarrow> (Err e, s') | (Ok x, s') \<Rightarrow> f x s')"

definition inspect :: "(durable_projection \<Rightarrow> 'a dres) \<Rightarrow> 'a operation" where
  "inspect f = (\<lambda>s. (f s, s))"

definition when_open :: "'a operation \<Rightarrow> 'a operation" where
  "when_open m = (\<lambda>s. if du_closed s then (refuse ''Fabric projection is closed'', s) else m s)"

text \<open>Maps in the order of insertion that keep the eight latest entries\<close>

definition remember_latest :: "'k \<Rightarrow> 'v \<Rightarrow> ('k \<times> 'v) list \<Rightarrow> ('k \<times> 'v) list" where
  "remember_latest k v m = (let m' = filter (\<lambda>(l, _). l \<noteq> k) m @ [(k, v)] in drop (length m' - 8) m')"

definition remember_block_result :: "block_result \<Rightarrow> jstr \<Rightarrow> durable_projection \<Rightarrow> durable_projection" where
  "remember_block_result result digest s =
     s\<lparr>du_results := remember_latest (pc_number (br_checkpoint result)) (digest, result) (du_results s)\<rparr>"

definition close_durable :: "durable_projection \<Rightarrow> durable_projection" where
  "close_durable s = s\<lparr>du_closed := True\<rparr>"

definition transaction_checkpoint :: "jstr \<Rightarrow> int \<Rightarrow> jstr \<Rightarrow> projected_tx \<Rightarrow> checkpoint" where
  "transaction_checkpoint channel n hash tx =
     \<lparr>cp_channel = channel, cp_block = n, cp_index = int (px_index tx), cp_tx = px_id tx, cp_hash = hash\<rparr>"

definition browse_batches :: "jstr \<Rightarrow> int \<Rightarrow> block_result \<Rightarrow> browse_batch list" where
  "browse_batches channel n result = map (\<lambda>tx.
     \<lparr>bb_at = transaction_checkpoint channel n (pc_hash (br_checkpoint result)) tx, bb_writes = px_writes tx\<rparr>)
     (filter (\<lambda>tx. px_valid tx \<and> px_writes tx \<noteq> []) (br_transactions result))"

text \<open>The anchors recorded before a digest fails stay recorded.\<close>

definition record_anchor :: "sha_fn \<Rightarrow> jstr \<Rightarrow> journal_block \<Rightarrow> jstr \<Rightarrow> projected_tx \<Rightarrow> jstr \<times> json \<Rightarrow>
    (jstr \<times> creation_anchor) list \<times> unit dres \<Rightarrow> (jstr \<times> creation_anchor) list \<times> unit dres" where
  "record_anchor sha channel jb hash tx = (\<lambda>(k, v) (anchors, r).
     if r \<noteq> Ok () \<or> k \<in> fst ` set anchors then (anchors, r)
     else case of_block (canonical (rbind (sha256_digest sha (enc_projected tx)) (\<lambda>t. rmap (Pair t) (sha256_digest sha v)))) of
       Err e \<Rightarrow> (anchors, Err e)
     | Ok (t, d) \<Rightarrow> (anchors @ [(k, \<lparr>ca_block_digest = jb_digest jb, ca_at = transaction_checkpoint channel (jb_number jb) hash tx,
         ca_transaction = t, ca_value = d\<rparr>)], Ok ()))"

definition record_anchors :: "sha_fn \<Rightarrow> jstr \<Rightarrow> journal_block \<Rightarrow> block_result \<Rightarrow> (jstr \<times> creation_anchor) list \<Rightarrow>
    (jstr \<times> creation_anchor) list \<times> unit dres" where
  "record_anchors sha channel jb result anchors =
     fold (\<lambda>tx acc. if px_valid tx then fold (record_anchor sha channel jb (pc_hash (br_checkpoint result)) tx) (px_writes tx) acc else acc)
       (br_transactions result) (anchors, Ok ())"

section \<open>Opening\<close>

definition ensure_binding :: "sha_fn \<Rightarrow> projector_options \<Rightarrow> projection_db \<Rightarrow> projection_db dres" where
  "ensure_binding sha po db = rbind (fabric_projection_binding sha po) (\<lambda>expected.
     case db_binding db of
       Some b \<Rightarrow> if b \<noteq> expected then refuse ''Fabric projection binding mismatch'' else Ok db
     | None \<Rightarrow> Ok (db\<lparr>db_binding := Some expected\<rparr>))"

text \<open>What a replay accumulates; \<open>rp_batches\<close> are the batches that the generator yields to the browse index.\<close>

record replaying =
  rp_projector :: projector
  rp_journal :: jstr
  rp_db :: projection_db
  rp_latest :: "(block_result \<times> jstr) option"
  rp_anchors :: "(jstr \<times> creation_anchor) list"
  rp_prepared :: prepared_browse

definition rebuild_row :: "sha_fn \<Rightarrow> real_fn \<Rightarrow> protos \<Rightarrow> jstr \<Rightarrow> raw_row \<Rightarrow> replaying \<Rightarrow> replaying dres" where
  "rebuild_row sha real pt channel row rp =
     rbind (block_from_row row) (\<lambda>jb.
     rbind (verify_journal_block sha real pt jb (rp_projector rp)) (\<lambda>(result, p).
     let db = rp_db rp; blocks = map (\<lambda>r. if rw_number r = jb_number jb then r\<lparr>rw_result := stringify (enc_block_result result)\<rparr> else r) (db_blocks db) in
     rbind (insert_transactions (jb_number jb) result (db\<lparr>db_blocks := blocks\<rparr>)) (\<lambda>db.
     rbind (append_derived (jb_number jb) result db) (\<lambda>db.
     rbind (of_browse (foldR (prepare_batch sha channel empty_browse_state) (browse_batches channel (jb_number jb) result) (rp_prepared rp))) (\<lambda>prepared.
     let (anchors, r) = record_anchors sha channel jb result (rp_anchors rp) in
     rbind r (\<lambda>_.
     Ok \<lparr>rp_projector = p, rp_journal = append_journal_digest sha (rp_journal rp) (jb_digest jb), rp_db = db,
         rp_latest = Some (result, jb_digest jb), rp_anchors = anchors, rp_prepared = prepared\<rparr>))))))"

definition without_derived :: "projection_db \<Rightarrow> projection_db" where
  "without_derived db = db\<lparr>db_txs := [], db_state := [], db_history := [], db_creation := [], db_cursor := None\<rparr>"

text \<open>
  The browse index is prepared from the stream of the replay: each batch is staged as it is yielded, on the empty state
  of the new index.  A failure rolls the rebuilding back.
\<close>

definition rebuild_durable :: "sha_fn \<Rightarrow> real_fn \<Rightarrow> protos \<Rightarrow> (jstr \<Rightarrow> 'o :: linorder) \<Rightarrow> projector_options \<Rightarrow> projection_db \<Rightarrow>
    durable_projection dres" where
  "rebuild_durable sha real pt collate po db =
     rbind (of_block (new_projector sha po)) (\<lambda>p.
     rbind (of_browse (new_browse_index (po_channel po) default_browse_limits)) (\<lambda>bx.
     rbind (of_browse (browse_prepare sha (po_channel po) (bx_state bx) [])) (\<lambda>nothing.
     rbind (foldR (rebuild_row sha real pt (po_channel po)) (journal db)
       \<lparr>rp_projector = p, rp_journal = empty_journal_digest, rp_db = without_derived db, rp_latest = None, rp_anchors = [],
        rp_prepared = nothing\<rparr>) (\<lambda>rp.
     rbind (of_browse (browse_commit collate (rp_prepared rp) bx)) (\<lambda>(_, bx).
     let s = \<lparr>du_options = po, du_db = rp_db rp, du_projector = rp_projector rp, du_browse = bx, du_latest = map_option fst (rp_latest rp),
              du_snapshots = [], du_results = [], du_anchors = rp_anchors rp, du_raw = map_option snd (rp_latest rp),
              du_journal = rp_journal rp, du_closed = False\<rparr> in
     Ok (case rp_latest rp of None \<Rightarrow> s | Some (result, digest) \<Rightarrow> remember_block_result result digest s))))))"

text \<open>The constructor, with the database that it leaves when it throws\<close>

definition open_projection :: "sha_fn \<Rightarrow> real_fn \<Rightarrow> protos \<Rightarrow> (jstr \<Rightarrow> 'o :: linorder) \<Rightarrow> projector_options \<Rightarrow> projection_db \<Rightarrow>
    durable_projection dres \<times> projection_db" where
  "open_projection sha real pt collate po db = (case ensure_binding sha po db of
     Err e \<Rightarrow> (Err e, db)
   | Ok bound \<Rightarrow> (case rebuild_durable sha real pt collate po bound of Err e \<Rightarrow> (Err e, bound) | Ok s \<Rightarrow> (Ok s, du_db s)))"

section \<open>Verification against the process\<close>

definition cursor_of :: "projector_checkpoint \<Rightarrow> int \<times> jstr \<times> jstr" where
  "cursor_of cp = (pc_number cp, pc_hash cp, pc_data cp)"

definition verify_current_cursor :: "durable_projection \<Rightarrow> unit dres" where
  "verify_current_cursor s = (case pj_checkpoint (du_projector s) of
     None \<Rightarrow> if db_cursor (du_db s) \<noteq> None then refuse ''Fabric projection cursor is ahead of verified journal'' else Ok ()
   | Some cp \<Rightarrow> if db_cursor (du_db s) \<noteq> Some (cursor_of cp) then refuse ''Fabric projection cursor integrity check failed'' else Ok ())"

definition verify_cursor :: "int \<Rightarrow> durable_projection \<Rightarrow> unit dres" where
  "verify_cursor n s = (case (pj_checkpoint (du_projector s), db_cursor (du_db s)) of
     (Some cp, Some row) \<Rightarrow>
       if fst row < n \<or> row \<noteq> cursor_of cp then refuse ''Fabric projection cursor integrity check failed'' else Ok ()
   | _ \<Rightarrow> refuse ''Fabric projection cursor integrity check failed'')"

definition last_of :: "'a list \<Rightarrow> 'a option" where
  "last_of xs = (if xs = [] then None else Some (last xs))"

definition last_index :: "block_result \<Rightarrow> int" where
  "last_index r = (case last_of (br_transactions r) of None \<Rightarrow> -1 | Some tx \<Rightarrow> int (px_index tx))"

definition last_id :: "block_result \<Rightarrow> jstr" where
  "last_id r = (case last_of (br_transactions r) of None \<Rightarrow> [] | Some tx \<Rightarrow> px_id tx)"

definition channel_of :: "durable_projection \<Rightarrow> jstr" where
  "channel_of s = po_channel (du_options s)"

definition is_current_checkpoint :: "checkpoint \<Rightarrow> durable_projection \<Rightarrow> bool" where
  "is_current_checkpoint at s = (case (pj_checkpoint (du_projector s), du_latest s) of
     (Some current, Some result) \<Rightarrow> cp_channel at = channel_of s \<and> cp_block at = pc_number current \<and> cp_hash at = pc_hash current \<and>
       cp_index at = last_index result \<and> cp_tx at = last_id result
   | _ \<Rightarrow> False)"

definition validate_checkpoint :: "checkpoint \<Rightarrow> durable_projection \<Rightarrow> unit dres" where
  "validate_checkpoint at s =
     (if cp_channel at \<noteq> channel_of s \<or> \<not> safe_natural (cp_block at) \<or> \<not> (-1 \<le> cp_index at \<and> cp_index at \<le> max_safe)
      then refuse ''Invalid checkpoint'' else Ok ())"

definition verify_stored_block :: "sha_fn \<Rightarrow> protos \<Rightarrow> checkpoint \<Rightarrow> block_result option \<Rightarrow> jstr option \<Rightarrow> durable_projection \<Rightarrow> unit dres" where
  "verify_stored_block sha pt at result digest s =
     rbind (load_block (du_db s) (cp_block at)) (\<lambda>found. case found of
       None \<Rightarrow> refuse ''Fabric raw block digest mismatch''
     | Some jb \<Rightarrow>
         let actual = sha (jb_bytes jb) in
         if actual \<noteq> jb_digest jb \<or> (digest \<noteq> None \<and> digest \<noteq> Some actual) then refuse ''Fabric raw block digest mismatch''
         else case pt_block pt (jb_bytes jb) of
           None \<Rightarrow> refuse ''Malformed Fabric block''
         | Some block \<Rightarrow> (case (bl_header block, bl_data block) of
             (Some h, Some entries) \<Rightarrow>
               if hd_number h \<noteq> jb_number jb then refuse ''Fabric raw block number mismatch''
               else rbind (of_block (fabric_block_header_hash sha h)) (\<lambda>hash.
                 let data = to_hex (hd_data_hash h) in
                 if sha (concat entries) \<noteq> data \<or> hash \<noteq> jb_hash jb \<or> data \<noteq> jb_data jb \<or> to_hex (hd_previous h) \<noteq> jb_previous jb \<or>
                   hash \<noteq> cp_hash at \<or>
                   (case result of None \<Rightarrow> False | Some r \<Rightarrow> pc_hash (br_checkpoint r) \<noteq> hash \<or> pc_data (br_checkpoint r) \<noteq> data)
                 then refuse ''Fabric raw block journal metadata mismatch'' else Ok ())
           | _ \<Rightarrow> refuse ''Fabric raw block number mismatch''))"

definition transaction_row :: "projection_db \<Rightarrow> checkpoint \<Rightarrow> tx_row option" where
  "transaction_row db at = find (\<lambda>r. xr_block r = cp_block at \<and> xr_index r = cp_index at) (db_txs db)"

definition transaction_from_row :: "real_fn \<Rightarrow> tx_row option \<Rightarrow> int \<Rightarrow> json dres" where
  "transaction_from_row real row index = (case row of
     None \<Rightarrow> refuse ''Fabric transaction index integrity check failed''
   | Some r \<Rightarrow>
       if max_safe < \<bar>xr_code r\<bar> \<or> xr_valid r \<notin> {0, 1} then refuse ''Fabric transaction index integrity check failed''
       else case json_parse real (xr_writes r) of
         Some (JArr ws) \<Rightarrow> Ok (transaction_json (xr_tx r) index (xr_code r) (xr_valid r = 1) (int (length ws)) (JArr ws) (xr_time r))
       | _ \<Rightarrow> refuse ''Fabric transaction index integrity check failed'')"

definition verify_stored_transaction :: "real_fn \<Rightarrow> projected_tx \<Rightarrow> checkpoint \<Rightarrow> durable_projection \<Rightarrow> unit dres" where
  "verify_stored_transaction real tx at s =
     rbind (transaction_from_row real (transaction_row (du_db s) at) (cp_index at)) (\<lambda>stored.
     if \<not> same_text (Some stored) (Some (enc_projected tx)) then refuse ''Fabric transaction index integrity check failed'' else Ok ())"

definition verify_current_checkpoint :: "sha_fn \<Rightarrow> real_fn \<Rightarrow> protos \<Rightarrow> checkpoint \<Rightarrow> durable_projection \<Rightarrow> unit dres" where
  "verify_current_checkpoint sha real pt at s =
     rbind (validate_checkpoint at s) (\<lambda>_.
     if \<not> is_current_checkpoint at s then refuse ''Untrusted checkpoint''
     else rbind (verify_cursor (cp_block at) s) (\<lambda>_. case du_latest s of
       None \<Rightarrow> refuse ''Verified Fabric block result is missing''
     | Some result \<Rightarrow>
         rbind (verify_stored_block sha pt at (Some result) (du_raw s) s) (\<lambda>_.
         case last_of (br_transactions result) of None \<Rightarrow> Ok () | Some tx \<Rightarrow> verify_stored_transaction real tx at s)))"

definition nth_transaction :: "block_result \<Rightarrow> int \<Rightarrow> projected_tx option" where
  "nth_transaction r i = (if 0 \<le> i \<and> nat i < length (br_transactions r) then Some (br_transactions r ! nat i) else None)"

text \<open>The check that a checkpoint is one of a block's, in the replay and for a cached snapshot\<close>

definition verify_place :: "real_fn \<Rightarrow> checkpoint \<Rightarrow> block_result \<Rightarrow> durable_projection \<Rightarrow> unit dres" where
  "verify_place real at result s =
     (if cp_index at = -1 then
        (if br_transactions result \<noteq> [] \<or> cp_tx at \<noteq> [] then refuse ''Untrusted checkpoint'' else Ok ())
      else case nth_transaction result (cp_index at) of
        None \<Rightarrow> refuse ''Untrusted checkpoint''
      | Some tx \<Rightarrow> if px_id tx \<noteq> cp_tx at then refuse ''Untrusted checkpoint'' else verify_stored_transaction real tx at s)"

definition verify_cached_checkpoint :: "sha_fn \<Rightarrow> real_fn \<Rightarrow> protos \<Rightarrow> checkpoint \<Rightarrow> historical_replay \<Rightarrow> durable_projection \<Rightarrow> unit dres" where
  "verify_cached_checkpoint sha real pt at h s =
     rbind (verify_stored_block sha pt at (Some (hr_result h)) (Some (hr_digest h)) s) (\<lambda>_. verify_place real at (hr_result h) s)"

definition enc_entries :: "(jstr \<times> json) list \<Rightarrow> json" where
  "enc_entries es = JArr (map (\<lambda>(k, v). JArr [JStr k, v]) es)"

definition block_checkpoint_json :: "projector \<Rightarrow> json" where
  "block_checkpoint_json p = (case pj_checkpoint p of None \<Rightarrow> JNull | Some cp \<Rightarrow> enc_block_checkpoint cp)"

definition verify_replay_tip :: "(jstr \<Rightarrow> 'o :: linorder) \<Rightarrow> projector \<Rightarrow> jstr \<Rightarrow> durable_projection \<Rightarrow> unit dres" where
  "verify_replay_tip collate p digest s =
     (if digest \<noteq> du_journal s then refuse ''Fabric raw block journal no longer matches the verified bytes''
      else if \<not> same_text (Some (block_checkpoint_json p)) (Some (block_checkpoint_json (du_projector s)))
        then refuse ''Fabric raw block journal no longer matches the verified tip''
      else rbind (of_block (projector_entries collate p [])) (\<lambda>replayed.
        rbind (of_block (projector_entries collate (du_projector s) [])) (\<lambda>trusted.
        if \<not> same_text (Some (enc_entries replayed)) (Some (enc_entries trusted))
        then refuse ''Fabric raw block journal no longer matches the verified tip'' else Ok ())))"

section \<open>Replays\<close>

text \<open>
  One row of a replay: the digest of the journal so far, the projector, and what the caller selects, given the block,
  the projector before it and its result.
\<close>

definition replay_stored :: "sha_fn \<Rightarrow> real_fn \<Rightarrow> protos \<Rightarrow> (journal_block \<Rightarrow> projector \<Rightarrow> block_result \<Rightarrow> 'x \<Rightarrow> 'x dres) \<Rightarrow> raw_row \<Rightarrow>
    jstr \<times> projector \<times> 'x \<Rightarrow> (jstr \<times> projector \<times> 'x) dres" where
  "replay_stored sha real pt select row = (\<lambda>(digest, p, x).
     rbind (block_from_row row) (\<lambda>jb.
     rbind (verify_journal_block sha real pt jb p) (\<lambda>(result, p').
     rbind (select jb p result x) (\<lambda>x'.
     Ok (append_journal_digest sha digest (jb_digest jb), p', x')))))"

text \<open>A replay of the whole journal with a new projector, which must arrive at the tip that the process knows\<close>

definition replay_journal :: "sha_fn \<Rightarrow> real_fn \<Rightarrow> protos \<Rightarrow> (jstr \<Rightarrow> 'o :: linorder) \<Rightarrow>
    (journal_block \<Rightarrow> projector \<Rightarrow> block_result \<Rightarrow> 'x \<Rightarrow> 'x dres) \<Rightarrow> 'x \<Rightarrow> durable_projection \<Rightarrow> 'x dres" where
  "replay_journal sha real pt collate select x s =
     rbind (of_block (new_projector sha (du_options s))) (\<lambda>p.
     rbind (foldR (replay_stored sha real pt select) (journal (du_db s)) (empty_journal_digest, p, x)) (\<lambda>(digest, p, x).
     rbind (verify_replay_tip collate p digest s) (\<lambda>_. Ok x)))"

definition replay_block :: "sha_fn \<Rightarrow> real_fn \<Rightarrow> protos \<Rightarrow> (jstr \<Rightarrow> 'o :: linorder) \<Rightarrow> int \<Rightarrow> block_result operation" where
  "replay_block sha real pt collate n = (\<lambda>s. case map_of (du_results s) n of
     Some (digest, result) \<Rightarrow>
       (case verify_stored_block sha pt \<lparr>cp_channel = channel_of s, cp_block = n, cp_index = -1, cp_tx = [],
           cp_hash = pc_hash (br_checkpoint result)\<rparr> (Some result) (Some digest) s of
         Err e \<Rightarrow> (Err e, s)
       | Ok _ \<Rightarrow> (Ok result, s\<lparr>du_results := filter (\<lambda>(m, _). m \<noteq> n) (du_results s) @ [(n, digest, result)]\<rparr>))
   | None \<Rightarrow>
       (case replay_journal sha real pt collate (\<lambda>jb p result found. Ok (if jb_number jb = n then Some (jb_digest jb, result) else found)) None s of
         Err e \<Rightarrow> (Err e, s)
       | Ok None \<Rightarrow> (refuse ''Verified Fabric block is missing'', s)
       | Ok (Some (digest, result)) \<Rightarrow> (Ok result, remember_block_result result digest s)))"

definition checkpoint_key :: "checkpoint \<Rightarrow> jstr" where
  "checkpoint_key at = dec_int (cp_block at) @ 58 # dec_int (cp_index at) @ 58 # cp_tx at @ 58 # cp_hash at"

definition select_checkpoint :: "real_fn \<Rightarrow> (jstr \<Rightarrow> 'o :: linorder) \<Rightarrow> checkpoint \<Rightarrow> durable_projection \<Rightarrow>
    journal_block \<Rightarrow> projector \<Rightarrow> block_result \<Rightarrow> historical_replay option \<Rightarrow> historical_replay option dres" where
  "select_checkpoint real collate at s = (\<lambda>jb p result found.
     if jb_number jb \<noteq> cp_block at then Ok found
     else rbind (of_block (projector_entries collate p [])) (\<lambda>before.
       if pc_hash (br_checkpoint result) \<noteq> cp_hash at then refuse ''Untrusted checkpoint''
       else rbind (verify_place real at result s) (\<lambda>_.
         Ok (Some \<lparr>hr_before = before, hr_digest = jb_digest jb, hr_result = result\<rparr>))))"

definition replay_checkpoint :: "sha_fn \<Rightarrow> real_fn \<Rightarrow> protos \<Rightarrow> (jstr \<Rightarrow> 'o :: linorder) \<Rightarrow> checkpoint \<Rightarrow> historical_replay operation" where
  "replay_checkpoint sha real pt collate at =
     obind (inspect (\<lambda>s. rbind (validate_checkpoint at s) (\<lambda>_. verify_cursor (cp_block at) s))) (\<lambda>_ s.
     let k = checkpoint_key at in
     case map_of (du_snapshots s) k of
       Some h \<Rightarrow>
         (case verify_cached_checkpoint sha real pt at h s of
           Err e \<Rightarrow> (Err e, s)
         | Ok _ \<Rightarrow> (Ok h, s\<lparr>du_snapshots := filter (\<lambda>(l, _). l \<noteq> k) (du_snapshots s) @ [(k, h)]\<rparr>))
     | None \<Rightarrow>
         (case replay_journal sha real pt collate (select_checkpoint real collate at s) None s of
           Err e \<Rightarrow> (Err e, s)
         | Ok None \<Rightarrow> (refuse ''Untrusted checkpoint'', s)
         | Ok (Some h) \<Rightarrow> (Ok h, s\<lparr>du_snapshots := remember_latest k h (du_snapshots s)\<rparr>)))"

section \<open>Applying a block\<close>

text \<open>The statements of one SQL transaction\<close>

definition store_block :: "journal_block \<Rightarrow> block_result \<Rightarrow> projection_db \<Rightarrow> projection_db dres" where
  "store_block jb result db =
     rbind (insert_block jb result db) (\<lambda>db.
     rbind (insert_transactions (jb_number jb) result db) (\<lambda>db.
     append_derived (jb_number jb) result db))"

definition accept_block :: "sha_fn \<Rightarrow> (jstr \<Rightarrow> 'o :: linorder) \<Rightarrow> journal_block \<Rightarrow> prepared_block \<Rightarrow> prepared_browse \<Rightarrow> projection_db \<Rightarrow>
    block_result operation" where
  "accept_block sha collate jb prepared browse db = (\<lambda>s.
     let s = s\<lparr>du_db := db\<rparr>; result = pb_result prepared in
     case of_block (commit_block_writes prepared (du_projector s)) of
       Err e \<Rightarrow> (Err e, s)
     | Ok p \<Rightarrow> let s = s\<lparr>du_projector := p\<rparr> in
         (case of_browse (browse_commit collate browse (du_browse s)) of
           Err e \<Rightarrow> (Err e, s)
         | Ok (_, bx) \<Rightarrow>
             let (anchors, r) = record_anchors sha (channel_of s) jb result (du_anchors s);
                 s = s\<lparr>du_browse := bx, du_latest := Some result, du_raw := Some (jb_digest jb),
                       du_journal := append_journal_digest sha (du_journal s) (jb_digest jb), du_anchors := anchors\<rparr> in
             case r of Err e \<Rightarrow> (Err e, s) | Ok _ \<Rightarrow> (Ok result, remember_block_result result (jb_digest jb) s)))"

definition candidate_block :: "sha_fn \<Rightarrow> real_fn \<Rightarrow> protos \<Rightarrow> nat list \<Rightarrow> proto_header \<Rightarrow> durable_projection \<Rightarrow>
    (journal_block \<times> prepared_block \<times> prepared_browse \<times> projection_db) dres" where
  "candidate_block sha real pt serialized h s =
     rbind (block_from_header sha serialized h) (\<lambda>jb.
     rbind (of_block (prepare_block sha real pt serialized (du_projector s))) (\<lambda>prepared.
     let cp = br_checkpoint (pb_result prepared) in
     if pc_number cp \<noteq> hd_number h \<or> pc_hash cp \<noteq> jb_hash jb \<or> pc_data cp \<noteq> jb_data jb
     then refuse ''Fabric candidate result does not match block header''
     else rbind (of_browse (browse_prepare sha (channel_of s) (bx_state (du_browse s))
         (browse_batches (channel_of s) (jb_number jb) (pb_result prepared)))) (\<lambda>browse.
       rbind (store_block jb (pb_result prepared) (du_db s)) (\<lambda>db. Ok (jb, prepared, browse, db)))))"

definition apply_new_block :: "sha_fn \<Rightarrow> real_fn \<Rightarrow> protos \<Rightarrow> (jstr \<Rightarrow> 'o :: linorder) \<Rightarrow> nat list \<Rightarrow> proto_header \<Rightarrow> block_result operation" where
  "apply_new_block sha real pt collate serialized h =
     obind (inspect (candidate_block sha real pt serialized h)) (\<lambda>(jb, prepared, browse, db).
     accept_block sha collate jb prepared browse db)"

definition apply_known_block :: "sha_fn \<Rightarrow> real_fn \<Rightarrow> protos \<Rightarrow> (jstr \<Rightarrow> 'o :: linorder) \<Rightarrow> nat list \<Rightarrow> journal_block \<Rightarrow> block_result operation" where
  "apply_known_block sha real pt collate serialized jb =
     (if sha (jb_bytes jb) \<noteq> jb_digest jb then inspect (\<lambda>_. refuse ''Fabric raw block digest mismatch'')
      else if serialized \<noteq> jb_bytes jb then inspect (\<lambda>_. refuse ''A different Fabric block occupies this block number'')
      else replay_block sha real pt collate (jb_number jb))"

definition decode_header :: "protos \<Rightarrow> nat list \<Rightarrow> proto_header dres" where
  "decode_header pt serialized = (case pt_block pt serialized of
     None \<Rightarrow> refuse ''Malformed Fabric block''
   | Some block \<Rightarrow> (case bl_header block of
       None \<Rightarrow> refuse ''Fabric block header is required''
     | Some h \<Rightarrow> if \<not> safe_natural (hd_number h) then refuse ''Fabric block number is outside the supported range'' else Ok h))"

definition apply_durable :: "sha_fn \<Rightarrow> real_fn \<Rightarrow> protos \<Rightarrow> (jstr \<Rightarrow> 'o :: linorder) \<Rightarrow> nat list \<Rightarrow> block_result operation" where
  "apply_durable sha real pt collate serialized = when_open (
     obind (inspect (\<lambda>s.
       rbind (verify_current_cursor s) (\<lambda>_.
       rbind (decode_header pt serialized) (\<lambda>h.
       rmap (Pair h) (load_block (du_db s) (hd_number h)))))) (\<lambda>(h, existing). case existing of
         Some jb \<Rightarrow> apply_known_block sha real pt collate serialized jb
       | None \<Rightarrow> apply_new_block sha real pt collate serialized h))"

section \<open>Reading\<close>

text \<open>The writes of the valid transactions up to an index, in their order\<close>

definition writes_until :: "int \<Rightarrow> block_result \<Rightarrow> (jstr \<times> json) list" where
  "writes_until i r = concat (map px_writes (filter px_valid (takeWhile (\<lambda>tx. int (px_index tx) \<le> i) (br_transactions r))))"

definition value_at_checkpoint :: "jstr \<Rightarrow> checkpoint \<Rightarrow> historical_replay \<Rightarrow> json option" where
  "value_at_checkpoint k at h =
     (let v = map_of (hr_before h) k in
      if 0 \<le> cp_index at then fold (\<lambda>(l, w) v. if l = k then Some w else v) (writes_until (cp_index at) (hr_result h)) v else v)"

definition entries_at_checkpoint :: "(jstr \<Rightarrow> 'o :: linorder) \<Rightarrow> jstr \<Rightarrow> checkpoint \<Rightarrow> historical_replay \<Rightarrow> (jstr \<times> json) list" where
  "entries_at_checkpoint collate pre at h =
     (let entries = hr_before h;
          entries = (if 0 \<le> cp_index at then fold (\<lambda>(k, v). upsert k v) (writes_until (cp_index at) (hr_result h)) entries else entries) in
      sort_key (\<lambda>(k, v). collate k) (filter (\<lambda>(k, v). starts_with k pre) entries))"

text \<open>What the process knows of the state at a checkpoint, after the checks: the latest state, or a replayed snapshot\<close>

definition trusted_state :: "sha_fn \<Rightarrow> real_fn \<Rightarrow> protos \<Rightarrow> (jstr \<Rightarrow> 'o :: linorder) \<Rightarrow> checkpoint option \<Rightarrow>
    (checkpoint \<times> historical_replay) option operation" where
  "trusted_state sha real pt collate at = (case at of
     None \<Rightarrow> inspect (\<lambda>s. rmap (\<lambda>_. None) (verify_current_cursor s))
   | Some cp \<Rightarrow> (\<lambda>s.
       if is_current_checkpoint cp s then inspect (\<lambda>s. rmap (\<lambda>_. None) (verify_current_checkpoint sha real pt cp s)) s
       else obind (replay_checkpoint sha real pt collate cp) (\<lambda>h s. (Ok (Some (cp, h)), s)) s))"

definition trusted_value :: "(checkpoint \<times> historical_replay) option \<Rightarrow> jstr \<Rightarrow> durable_projection \<Rightarrow> json option dres" where
  "trusted_value t k s = (case t of
     None \<Rightarrow> of_block (projector_read (du_projector s) k)
   | Some (cp, h) \<Rightarrow> Ok (value_at_checkpoint k cp h))"

text \<open>\<open>ORDER BY block_number DESC, transaction_index DESC\<close> up to a checkpoint, the first row\<close>

definition up_to :: "checkpoint \<Rightarrow> write_row \<Rightarrow> bool" where
  "up_to at r \<longleftrightarrow> wr_block r < cp_block at \<or> (wr_block r = cp_block at \<and> wr_index r \<le> cp_index at)"

definition latest_row :: "write_row list \<Rightarrow> write_row option" where
  "latest_row rows = last_of (sort_key (\<lambda>r. (wr_block r, wr_index r)) rows)"

definition stored_text :: "projection_db \<Rightarrow> checkpoint option \<Rightarrow> jstr \<Rightarrow> jstr option" where
  "stored_text db at k = (case at of
     None \<Rightarrow> map_of (db_state db) k
   | Some cp \<Rightarrow> map_option wr_value (latest_row (filter (\<lambda>r. wr_key r = k \<and> up_to cp r) (db_history db))))"

definition parse_stored :: "real_fn \<Rightarrow> jstr option \<Rightarrow> json option dres" where
  "parse_stored real text = (case text of
     None \<Rightarrow> Ok None
   | Some t \<Rightarrow> (case json_parse real t of None \<Rightarrow> Err UnreadableJson | Some v \<Rightarrow> Ok (Some v)))"

definition compare_value :: "json option \<Rightarrow> json option \<Rightarrow> json option dres" where
  "compare_value actual expected =
     (if \<not> same_text actual expected then refuse ''Fabric projection integrity check failed; rebuild the derived view'' else Ok expected)"

definition durable_read :: "sha_fn \<Rightarrow> real_fn \<Rightarrow> protos \<Rightarrow> (jstr \<Rightarrow> 'o :: linorder) \<Rightarrow> jstr \<Rightarrow> checkpoint option \<Rightarrow> json option operation" where
  "durable_read sha real pt collate k at = when_open (
     obind (trusted_state sha real pt collate at) (\<lambda>t. inspect (\<lambda>s.
       rbind (trusted_value t k s) (\<lambda>expected.
       rbind (parse_stored real (stored_text (du_db s) at k)) (\<lambda>actual.
       compare_value actual expected)))))"

definition read_chunk_of :: "real_fn \<Rightarrow> checkpoint option \<Rightarrow> (checkpoint \<times> historical_replay) option \<Rightarrow> durable_projection \<Rightarrow> jstr list \<Rightarrow>
    (jstr \<times> json) list dres" where
  "read_chunk_of real at t s keys =
     rbind (mapR (\<lambda>k. parse_stored real (stored_text (du_db s) at k)) keys) (\<lambda>actual.
     rmap (\<lambda>vs. concat (map (\<lambda>(k, v). case v of None \<Rightarrow> [] | Some w \<Rightarrow> [(k, w)]) (zip keys vs)))
       (mapR (\<lambda>(k, a). rbind (trusted_value t k s) (\<lambda>expected. compare_value a expected)) (zip keys actual)))"

text \<open>The result is a map, here its entries in the order of the keys.\<close>

definition durable_read_many :: "sha_fn \<Rightarrow> real_fn \<Rightarrow> protos \<Rightarrow> (jstr \<Rightarrow> 'o :: linorder) \<Rightarrow> jstr list \<Rightarrow> checkpoint option \<Rightarrow>
    (jstr \<times> json) list operation" where
  "durable_read_many sha real pt collate keys at = when_open (
     obind (trusted_state sha real pt collate at) (\<lambda>t. inspect (\<lambda>s.
       rmap concat (mapR (read_chunk_of real at t s) (chunks 500 (remdups keys))))))"

text \<open>The current checkpoint takes the state table, unlike a single read.\<close>

definition stored_entries :: "projection_db \<Rightarrow> (checkpoint \<times> historical_replay) option \<Rightarrow> jstr \<Rightarrow> (jstr \<times> jstr) list" where
  "stored_entries db t pre = (case t of
     None \<Rightarrow> sort_key (\<lambda>(k, _). utf8 k) (filter (\<lambda>(k, _). starts_with k pre) (db_state db))
   | Some (cp, _) \<Rightarrow> let rows = filter (\<lambda>r. up_to cp r \<and> starts_with (wr_key r) pre) (db_history db) in
       map (\<lambda>k. (k, case latest_row (filter (\<lambda>r. wr_key r = k) rows) of None \<Rightarrow> [] | Some r \<Rightarrow> wr_value r))
         (sort_key utf8 (remdups (map wr_key rows))))"

definition trusted_entries :: "(jstr \<Rightarrow> 'o :: linorder) \<Rightarrow> (checkpoint \<times> historical_replay) option \<Rightarrow> jstr \<Rightarrow> durable_projection \<Rightarrow>
    (jstr \<times> json) list dres" where
  "trusted_entries collate t pre s = (case t of
     None \<Rightarrow> of_block (projector_entries collate (du_projector s) pre)
   | Some (cp, h) \<Rightarrow> Ok (entries_at_checkpoint collate pre cp h))"

definition durable_entries :: "sha_fn \<Rightarrow> real_fn \<Rightarrow> protos \<Rightarrow> (jstr \<Rightarrow> 'o :: linorder) \<Rightarrow> jstr \<Rightarrow> checkpoint option \<Rightarrow> (jstr \<times> json) list operation" where
  "durable_entries sha real pt collate pre at = when_open (
     obind (trusted_state sha real pt collate at) (\<lambda>t. inspect (\<lambda>s.
       rbind (trusted_entries collate t pre s) (\<lambda>expected.
       rbind (mapR (\<lambda>(k, text). rmap (Pair k) (parse_stored real (Some text))) (stored_entries (du_db s) t pre)) (\<lambda>actual.
       if length expected \<noteq> length actual \<or>
         list_ex (\<lambda>(k, v). \<not> (case map_of actual k of None \<Rightarrow> False | Some a \<Rightarrow> same_text a (Some v))) expected
       then refuse ''Fabric projection integrity check failed; rebuild the derived view''
       else Ok expected)))))"

section \<open>Checkpoints and events\<close>

definition block_checkpoint :: "projector_checkpoint option operation" where
  "block_checkpoint = when_open (inspect (\<lambda>s. rmap (\<lambda>_. pj_checkpoint (du_projector s)) (verify_current_cursor s)))"

definition durable_checkpoint :: "real_fn \<Rightarrow> checkpoint option operation" where
  "durable_checkpoint real = when_open (inspect (\<lambda>s.
     rbind (verify_current_cursor s) (\<lambda>_. case du_latest s of
       None \<Rightarrow> Ok None
     | Some result \<Rightarrow>
         let at = \<lparr>cp_channel = channel_of s, cp_block = pc_number (br_checkpoint result), cp_index = last_index result, cp_tx = last_id result,
               cp_hash = pc_hash (br_checkpoint result)\<rparr> in
         rmap (\<lambda>_. Some at) (case last_of (br_transactions result) of None \<Rightarrow> Ok () | Some tx \<Rightarrow> verify_stored_transaction real tx at s))))"

definition assert_durable_checkpoint :: "sha_fn \<Rightarrow> real_fn \<Rightarrow> protos \<Rightarrow> (jstr \<Rightarrow> 'o :: linorder) \<Rightarrow> checkpoint \<Rightarrow> unit operation" where
  "assert_durable_checkpoint sha real pt collate at = when_open (
     obind (trusted_state sha real pt collate (Some at)) (\<lambda>_. inspect (\<lambda>_. Ok ())))"

definition durable_browse :: "sha_fn \<Rightarrow> real_fn \<Rightarrow> protos \<Rightarrow> (jstr \<Rightarrow> 'o :: linorder) \<Rightarrow> browse_query \<Rightarrow> browse_answer operation" where
  "durable_browse sha real pt collate q =
     obind (assert_durable_checkpoint sha real pt collate (query_at q)) (\<lambda>_ s.
     case of_browse (query_index q (du_browse s)) of
       Err e \<Rightarrow> (Err e, s) | Ok (answer, bx) \<Rightarrow> (Ok answer, s\<lparr>du_browse := bx\<rparr>))"

definition locate_transaction :: "projection_db \<Rightarrow> jstr \<Rightarrow> tx_row option" where
  "locate_transaction db tx =
     (case sort_key (\<lambda>r. (xr_block r, xr_index r)) (filter (\<lambda>r. xr_tx r = tx \<and> xr_valid r = 1) (db_txs db)) of [] \<Rightarrow> None | r # _ \<Rightarrow> Some r)"

definition checkpoint_of_transaction :: "sha_fn \<Rightarrow> real_fn \<Rightarrow> protos \<Rightarrow> (jstr \<Rightarrow> 'o :: linorder) \<Rightarrow> jstr \<Rightarrow> checkpoint operation" where
  "checkpoint_of_transaction sha real pt collate tx = when_open (
     obind (inspect verify_current_cursor) (\<lambda>_ s. case locate_transaction (du_db s) tx of
       Some r \<Rightarrow>
         if \<not> safe_natural (xr_block r) \<or> \<not> safe_natural (xr_index r) then (refuse ''Fabric transaction index integrity check failed'', s)
         else obind (replay_block sha real pt collate (xr_block r)) (\<lambda>result. inspect (\<lambda>s.
           case nth_transaction result (xr_index r) of
             None \<Rightarrow> refuse ''Fabric transaction index integrity check failed''
           | Some t \<Rightarrow>
               if \<not> px_valid t \<or> px_id t \<noteq> tx then refuse ''Fabric transaction index integrity check failed''
               else let at = transaction_checkpoint (channel_of s) (xr_block r) (pc_hash (br_checkpoint result)) t in
                 rmap (\<lambda>_. at) (verify_stored_transaction real t at s))) s
     | None \<Rightarrow>
         (rbind (replay_journal sha real pt collate
             (\<lambda>jb p result found. Ok (found \<or> list_ex (\<lambda>t. px_valid t \<and> px_id t = tx) (br_transactions result))) False s) (\<lambda>found.
           if found then refuse ''Fabric transaction index integrity check failed''
           else refuse ''Committed transaction checkpoint is missing''), s)))"

definition anchored_checkpoint :: "jstr \<Rightarrow> write_row \<Rightarrow> checkpoint" where
  "anchored_checkpoint channel r =
     \<lparr>cp_channel = channel, cp_block = wr_block r, cp_index = wr_index r, cp_tx = wr_tx r, cp_hash = wr_hash r\<rparr>"

definition checkpoint_of_creation :: "sha_fn \<Rightarrow> real_fn \<Rightarrow> protos \<Rightarrow> jstr \<Rightarrow> checkpoint operation" where
  "checkpoint_of_creation sha real pt k = when_open (inspect (\<lambda>s.
     rbind (verify_current_cursor s) (\<lambda>_.
     case (map_of (du_anchors s) k, find (\<lambda>r. wr_key r = k) (db_creation (du_db s))) of
       (None, Some _) \<Rightarrow> refuse ''Fabric state creation integrity check failed''
     | (None, None) \<Rightarrow> refuse ''State creation checkpoint is missing''
     | (Some _, None) \<Rightarrow> refuse ''Fabric state creation integrity check failed''
     | (Some anchor, Some row) \<Rightarrow>
         let at = anchored_checkpoint (channel_of s) row in
         (case json_parse real (wr_value row) of
           None \<Rightarrow> refuse ''Fabric state creation integrity check failed''
         | Some v \<Rightarrow>
             if \<not> same_text (Some (enc_checkpoint at)) (Some (enc_checkpoint (ca_at anchor)))
             then refuse ''Fabric state creation integrity check failed''
             else rbind (of_block (canonical (sha256_digest sha v))) (\<lambda>d.
               if d \<noteq> ca_value anchor then refuse ''Fabric state creation integrity check failed''
               else rbind (transaction_from_row real (transaction_row (du_db s) at) (cp_index at)) (\<lambda>stored.
                 rbind (of_block (canonical (sha256_digest sha stored))) (\<lambda>d.
                 if d \<noteq> ca_transaction anchor then refuse ''Fabric transaction index integrity check failed''
                 else rmap (\<lambda>_. ca_at anchor) (verify_stored_block sha pt (ca_at anchor) None (Some (ca_block_digest anchor)) s))))))))"

record projected_event =
  pe_at :: checkpoint
  pe_previous :: jstr
  pe_time :: jstr
  pe_writes :: "(jstr \<times> json) list"

definition collect_events :: "real_fn \<Rightarrow> int \<Rightarrow> int \<Rightarrow> durable_projection \<Rightarrow> journal_block \<Rightarrow> projector \<Rightarrow> block_result \<Rightarrow>
    int \<times> projected_event list \<Rightarrow> (int \<times> projected_event list) dres" where
  "collect_events real after limit s = (\<lambda>jb p result (count, events).
     if jb_number jb \<le> after \<or> limit \<le> count then Ok (count, events)
     else rmap (\<lambda>new. (count + 1, events @ new)) (mapR (\<lambda>tx.
       let at = transaction_checkpoint (channel_of s) (jb_number jb) (pc_hash (br_checkpoint result)) tx in
       rmap (\<lambda>_. \<lparr>pe_at = at, pe_previous = jb_previous jb, pe_time = px_time tx, pe_writes = px_writes tx\<rparr>)
         (verify_stored_transaction real tx at s)) (filter px_valid (br_transactions result))))"

definition durable_events :: "sha_fn \<Rightarrow> real_fn \<Rightarrow> protos \<Rightarrow> (jstr \<Rightarrow> 'o :: linorder) \<Rightarrow> int \<Rightarrow> int \<Rightarrow> projected_event list operation" where
  "durable_events sha real pt collate after limit = when_open (inspect (\<lambda>s.
     rbind (verify_current_cursor s) (\<lambda>_.
     if \<not> safe_natural after \<or> limit < 1 \<or> 1000 < limit then refuse ''Invalid event range''
     else rmap snd (replay_journal sha real pt collate (collect_events real after limit s) (0, []) s))))"

end
