(* ===== verification/ChaincodeSafety.thy ===== *)
theory ChaincodeSafety
  imports Chaincode LedgerDemo
begin

text \<open>
  What the chaincode keeps of the engine's guarantees: the bytes of a channel that only \<open>Init\<close> and \<open>Invoke\<close>
  write decode to a state that commits of the engine reach, and a change is made for a pinned identity only.
\<close>

section \<open>The flushed bytes hold the committed values\<close>

lemma flushed:
  assumes "mapR (buffered_write cfg) sts = Ok ws"
  shows "(k \<notin> fst ` set sts \<and> map_of (flush ws st) k = map_of st k \<and> apply_writes sts w k = w k) \<or>
    (\<exists>v bytes. (k, v) \<in> set sts \<and> jcs_bytes v = Ok bytes \<and> map_of (flush ws st) k = Some bytes \<and> apply_writes sts w k = Some v)"
  using assms
proof (induction sts arbitrary: ws st w)
  case (Cons s sts)
  obtain l v where s: "s = (l, v)" by (cases s)
  then obtain bytes ws' where b: "jcs_bytes v = Ok bytes" "ws = (l, bytes) # ws'" "mapR (buffered_write cfg) sts = Ok ws'"
    using Cons.prems by (auto simp: buffered_write_def core_call_def split: result.splits)
  define st1 where "st1 = upsert l bytes st"
  define w1 where "w1 = w(l \<mapsto> v)"
  have first: "map_of st1 l = Some bytes" "w1 l = Some v" and others: "k \<noteq> l \<Longrightarrow> map_of st1 k = map_of st k \<and> w1 k = w k"
    by (simp_all add: st1_def w1_def)
  have step: "flush ws st = flush ws' st1" "apply_writes (s # sts) w = apply_writes sts w1"
    by (simp_all add: flush_def apply_writes_def b(2) s st1_def w1_def)
  show ?case
    using Cons.IH [OF b(3), of st1 w1] b(1) first others
    unfolding step by (cases "k = l") (auto simp: s)
qed (simp add: flush_def apply_writes_def)

lemma jcs_bytes_nonempty:
  assumes "jcs_bytes v = Ok bytes" and "plain v"
  shows "bytes \<noteq> []"
proof -
  obtain t where t: "canonicalize v = Ok t" "bytes = utf8 t" using assms(1) by (auto simp: jcs_bytes_def)
  have "canon_ok v 0" using t(1) canonicalize_Ok_iff by blast
  then have "legible (jnorm v)" using printable_legible printable_jnorm plain_js_value [OF assms(2)] by blast
  from stringify_begins [OF this] obtain u r where "t = u # r"
    using canonical_is_stringify t(1) by (auto simp: canonicalize_def)
  then have "code_points t \<noteq> []" by (cases r) auto
  then show ?thesis using utf8_cp_nonempty by (cases "code_points t") (auto simp: t(2) utf8_def)
qed

text \<open>No key of the engine is that of the manifest.\<close>

lemma engine_key_not_manifest: "engine_key k \<Longrightarrow> k \<noteq> bootstrap_manifest_key"
proof -
  assume "engine_key k"
  then obtain kd ps where k: "k = state_key kd ps" by (auto simp: engine_key_def)
  have "split_on 58 bootstrap_manifest_key = [js ''kcl'', js ''v1'', js ''bootstrap_manifest'']"
    by (simp add: bootstrap_manifest_key_def js_def cu_def)
  moreover have "split_on 58 k \<noteq> [js ''kcl'', js ''v1'', js ''bootstrap_manifest'']"
    by (cases kd) (simp_all add: k split_state_key)
  ultimately show ?thesis by metis
qed

lemma held_jcs_bytes:
  assumes "jcs_bytes v = Ok bytes" and "plain v"
  shows "held_value real bytes = Some (jnorm v)"
proof -
  obtain t where t: "canonicalize v = Ok t" "bytes = utf8 t" using assms(1) by (auto simp: jcs_bytes_def)
  then have "decode_text bytes = Some t"
    using canonical_valid [OF _ assms(2), of 0 t] canonical_head [OF _ assms(2), of 0 t]
    by (auto simp: canonicalize_def intro!: decode_text_utf8)
  then show ?thesis using parse_canonical [OF t(1) plain_js_value [OF assms(2)], of real] by (simp add: held_value_def)
qed

lemma run_core_Ok:
  assumes "run_core sha real cfg ctx rq asked st = Ok (result, ws)"
  obtains t where "invoke sha ctx rq (begin_tx (chain_world real st)) = Ok (result, t)" "mapR (buffered_write cfg) (staged t) = Ok ws"
  using assms by (auto simp: run_core_def core_call_def split: result.splits)

lemma run_core_world:
  assumes run: "run_core sha real cfg ctx rq asked st = Ok (result, ws)" and w: "reachable sha (chain_world real st)"
    and st': "\<And>k. k \<noteq> bootstrap_manifest_key \<Longrightarrow> get_state st' k = get_state (flush ws st) k"
  shows "commit sha ctx rq (chain_world real st) = Ok (result, chain_world real st')"
proof -
  obtain t where t: "invoke sha ctx rq (begin_tx (chain_world real st)) = Ok (result, t)" "mapR (buffered_write cfg) (staged t) = Ok ws"
    using run_core_Ok [OF run] .
  note settled = reachable_writes_settled [OF t(1) w]
  have "chain_world real st' k = apply_writes (staged t) (chain_world real st) k" for k
  proof (cases "k = bootstrap_manifest_key")
    case True
    then have "k \<notin> fst ` set (staged t)" using settled engine_key_not_manifest by fastforce
    then have "apply_writes (staged t) (chain_world real st) k = chain_world real st k"
      using flushed [OF t(2), of k st "chain_world real st"] by (force simp: image_iff)
    then show ?thesis using True by (simp add: chain_world_def)
  next
    case False
    note k = st' [OF False]
    show ?thesis
      using flushed [OF t(2), of k st "chain_world real st"]
    proof (elim disjE conjE exE)
      assume "map_of (flush ws st) k = map_of st k" "apply_writes (staged t) (chain_world real st) k = chain_world real st k"
      then show ?thesis using k by (simp add: chain_world_def get_state_def)
    next
      fix v bytes
      assume v: "(k, v) \<in> set (staged t)" "jcs_bytes v = Ok bytes" "map_of (flush ws st) k = Some bytes"
        "apply_writes (staged t) (chain_world real st) k = Some v"
      have plain: "plain v" "jnorm v = v" using settled [OF v(1)] by (simp_all add: settled_def)
      have bytes: "get_state st' k = bytes" "bytes \<noteq> []"
        using k v(3) jcs_bytes_nonempty [OF v(2) plain(1)] by (simp_all add: get_state_def)
      moreover have "held_value real bytes = Some v" using held_jcs_bytes [OF v(2) plain(1)] plain(2) by simp
      ultimately show ?thesis using v(4) False by (simp add: chain_world_def)
    qed
  qed
  then show ?thesis using t(1) by (simp add: commit_def fun_eq_iff)
qed

section \<open>What Init and Invoke do\<close>

lemma actor_from_stub_Ok:
  assumes "actor_from_stub cfg sb = Ok a"
  shows "a \<in> set (cc_identities cfg) \<and> (\<exists>decoder. cc_decoder cfg = Some decoder \<and> decoder (sb_creator sb) = Some a) \<and>
    (\<forall>orgs. cc_orgs cfg = Some orgs \<longrightarrow> ci_msp a \<in> set orgs)"
  using assms by (auto simp: actor_from_stub_def wanted_def split: option.splits)

text \<open>An invocation that changes the state is one accepted command of a pinned identity.\<close>

lemma try_invoke_Ok:
  assumes "try_invoke sha real cfg sb st = Ok (payload, st')"
  shows "st' = st \<or> (\<exists>a cid ty input result ws. actor_from_stub cfg sb = Ok a \<and> sb_channel sb = cc_channel cfg \<and>
     ty \<in> set (case cc_types cfg of Some types \<Rightarrow> types | None \<Rightarrow> default_command_types) \<and> payload_identity a input \<and>
     run_core sha real cfg (cc_context cfg sb a) (Execute (command_of cid ty input)) (sb_reads sb) st = Ok (result, ws) \<and>
     payload = text_bytes (obj [(''status'', JStr (js ''executed'')), (''result'', result)]) \<and> st' = flush ws st)"
proof -
  obtain a where a: "actor_from_stub cfg sb = Ok a" "sb_channel sb = cc_channel cfg" "dispatch sha real cfg sb a st = Ok (payload, st')"
    using assms by (auto simp: try_invoke_def)
  have "st' = st \<or> (\<exists>bytes. execute_command sha real cfg sb a bytes st = Ok (payload, st'))"
    using a(3) by (auto simp: dispatch_def split: list.splits if_splits)
  then show ?thesis
  proof
    assume "\<exists>bytes. execute_command sha real cfg sb a bytes st = Ok (payload, st')"
    then obtain bytes where "execute_command sha real cfg sb a bytes st = Ok (payload, st')" by blast
    then obtain cid ty input result ws where "ty \<in> set (case cc_types cfg of Some types \<Rightarrow> types | None \<Rightarrow> default_command_types)"
        "payload_identity a input" "run_core sha real cfg (cc_context cfg sb a) (Execute (command_of cid ty input)) (sb_reads sb) st = Ok (result, ws)"
        "payload = text_bytes (obj [(''status'', JStr (js ''executed'')), (''result'', result)])" "st' = flush ws st"
      by (auto simp: execute_command_def)
    then show ?thesis using a(1,2) by blast
  qed simp
qed

lemma try_init_Ok:
  assumes "try_init sha real cfg sb st = Ok (payload, st')"
  shows "st' = st \<or> (\<exists>result ws bytes. actor_from_stub cfg sb = Ok (cc_founder cfg) \<and> get_state st bootstrap_manifest_key = [] \<and>
     run_core sha real cfg (cc_context cfg sb (cc_founder cfg)) (Bootstrap (cc_genesis cfg)) (sb_reads sb) st = Ok (result, ws) \<and>
     st' = flush (ws @ [(bootstrap_manifest_key, bytes)]) st)"
  using assms unfolding try_init_def by (auto split: if_splits)

section \<open>Histories of a channel\<close>

inductive chain_run :: "sha_fn \<Rightarrow> real_fn \<Rightarrow> cc_config \<Rightarrow> chain \<Rightarrow> bool" for sha real cfg where
  genesis: "chain_run sha real cfg []"
| initialised: "chain_run sha real cfg st \<Longrightarrow> cc_init sha real cfg sb st = (r, st') \<Longrightarrow> chain_run sha real cfg st'"
| invoked: "chain_run sha real cfg st \<Longrightarrow> cc_invoke sha real cfg sb st = (r, st') \<Longrightarrow> chain_run sha real cfg st'"

lemma get_state_flush_manifest:
  "k \<noteq> bootstrap_manifest_key \<Longrightarrow> get_state (flush (ws @ [(bootstrap_manifest_key, bytes)]) st) k = get_state (flush ws st) k"
  by (simp add: get_state_def flush_def)

lemma chain_run_reachable: "chain_run sha real cfg st \<Longrightarrow> reachable sha (chain_world real st)"
proof (induction rule: chain_run.induct)
  case genesis
  have "chain_world real [] = Map.empty" by (rule ext) (simp add: chain_world_def get_state_def)
  then show ?case by (simp add: reachable.empty)
next
  case (initialised st sb r st')
  show ?case
  proof (cases "st' = st")
    case False
    then obtain payload where "try_init sha real cfg sb st = Ok (payload, st')"
      using initialised.hyps(2) by (auto simp: cc_init_def split: result.splits)
    from try_init_Ok [OF this] False obtain result ws bytes
      where run: "run_core sha real cfg (cc_context cfg sb (cc_founder cfg)) (Bootstrap (cc_genesis cfg)) (sb_reads sb) st = Ok (result, ws)"
        "st' = flush (ws @ [(bootstrap_manifest_key, bytes)]) st" by blast
    show ?thesis
      using run_core_world [OF run(1) initialised.IH] get_state_flush_manifest run(2) reachable.invoked [OF initialised.IH] by metis
  qed (use initialised in simp)
next
  case (invoked st sb r st')
  show ?case
  proof (cases "st' = st")
    case False
    then obtain payload where "try_invoke sha real cfg sb st = Ok (payload, st')"
      using invoked.hyps(2) by (auto simp: cc_invoke_def split: result.splits)
    from try_invoke_Ok [OF this] False obtain a cid ty input result ws
      where run: "run_core sha real cfg (cc_context cfg sb a) (Execute (command_of cid ty input)) (sb_reads sb) st = Ok (result, ws)"
        "st' = flush ws st" by blast
    show ?thesis using run_core_world [OF run(1) invoked.IH] run(2) reachable.invoked [OF invoked.IH] by metis
  qed (use invoked in simp)
qed

text \<open>The stored bytes are canonical texts, so every stored text decodes.\<close>

definition canonical_chain :: "chain \<Rightarrow> bool" where
  "canonical_chain st \<longleftrightarrow> (\<forall>(k, b) \<in> set st. \<exists>v. jcs_bytes v = Ok b \<and> plain v)"

lemma canonical_flush:
  assumes "canonical_chain st" and "\<forall>(k, b) \<in> set ws. \<exists>v. jcs_bytes v = Ok b \<and> plain v"
  shows "canonical_chain (flush ws st)"
  using assms fold_upsert_set [of ws st] unfolding canonical_chain_def flush_def by fastforce

lemma run_core_canonical:
  assumes "run_core sha real cfg ctx rq asked st = Ok (result, ws)" and "chain_run sha real cfg st"
  shows "\<forall>(k, b) \<in> set ws. \<exists>v. jcs_bytes v = Ok b \<and> plain v"
proof -
  have w: "reachable sha (chain_world real st)" using chain_run_reachable [OF assms(2)] .
  obtain t where t: "invoke sha ctx rq (begin_tx (chain_world real st)) = Ok (result, t)" "mapR (buffered_write cfg) (staged t) = Ok ws"
    using run_core_Ok [OF assms(1)] .
  have "\<exists>v. jcs_bytes v = Ok b \<and> plain v" if kb: "(k, b) \<in> set ws" for k b
  proof -
    obtain l v where v: "(l, v) \<in> set (staged t)" "buffered_write cfg (l, v) = Ok (k, b)"
      using mapR_Ok_memberD [OF t(2) kb] by auto
    then have "jcs_bytes v = Ok b" by (auto simp: buffered_write_def core_call_def split: result.splits)
    then show ?thesis using reachable_writes_settled [OF t(1) w v(1)] by (auto simp: settled_def)
  qed
  then show ?thesis by blast
qed

lemma bootstrap_plain:
  assumes "run_core sha real cfg ctx (Bootstrap genesis) asked st = Ok (result, ws)"
  shows "plain (manifest digest result)"
proof -
  obtain t where "bootstrap ctx genesis (begin_tx (chain_world real st)) = Ok (result, t)"
    using assms by (auto simp: run_core_def core_call_def invoke_def split: result.splits)
  then show ?thesis by (auto simp: bootstrap_def manifest_def)
qed

lemma core_call_Ok [simp]: "core_call r = Ok x \<longleftrightarrow> r = Ok x"
  by (cases r) (simp_all add: core_call_def)

lemma try_init_manifest:
  assumes "try_init sha real cfg sb st = Ok (payload, st')"
  shows "st' = st \<or> (\<exists>result ws digest bytes. jcs_bytes (manifest digest result) = Ok bytes \<and>
     run_core sha real cfg (cc_context cfg sb (cc_founder cfg)) (Bootstrap (cc_genesis cfg)) (sb_reads sb) st = Ok (result, ws) \<and>
     st' = flush (ws @ [(bootstrap_manifest_key, bytes)]) st)"
  using assms unfolding try_init_def by (auto split: if_splits)

lemma chain_run_canonical: "chain_run sha real cfg st \<Longrightarrow> canonical_chain st"
proof (induction rule: chain_run.induct)
  case genesis
  then show ?case by (simp add: canonical_chain_def)
next
  case (initialised st sb r st')
  show ?case
  proof (cases "st' = st")
    case False
    then obtain payload where "try_init sha real cfg sb st = Ok (payload, st')"
      using initialised.hyps(2) by (auto simp: cc_init_def split: result.splits)
    from try_init_manifest [OF this] False obtain result ws digest bytes
      where run: "run_core sha real cfg (cc_context cfg sb (cc_founder cfg)) (Bootstrap (cc_genesis cfg)) (sb_reads sb) st = Ok (result, ws)"
        "jcs_bytes (manifest digest result) = Ok bytes" "st' = flush (ws @ [(bootstrap_manifest_key, bytes)]) st" by blast
    have "\<forall>(k, b) \<in> set (ws @ [(bootstrap_manifest_key, bytes)]). \<exists>v. jcs_bytes v = Ok b \<and> plain v"
      using run_core_canonical [OF run(1) initialised.hyps(1)] bootstrap_plain [OF run(1), of digest] run(2) by auto
    from canonical_flush [OF initialised.IH this] show ?thesis by (simp only: run(3))
  qed (use initialised in simp)
next
  case (invoked st sb r st')
  show ?case
  proof (cases "st' = st")
    case False
    then obtain payload where "try_invoke sha real cfg sb st = Ok (payload, st')"
      using invoked.hyps(2) by (auto simp: cc_invoke_def split: result.splits)
    from try_invoke_Ok [OF this] False obtain a cid ty input result ws
      where run: "run_core sha real cfg (cc_context cfg sb a) (Execute (command_of cid ty input)) (sb_reads sb) st = Ok (result, ws)"
        "st' = flush ws st" by blast
    from canonical_flush [OF invoked.IH run_core_canonical [OF run(1) invoked.hyps(1)]] show ?thesis by (simp only: run(2))
  qed (use invoked in simp)
qed

lemma chain_run_held:
  assumes "chain_run sha real cfg st"
  shows "chain_world real st k = None \<longleftrightarrow> k = bootstrap_manifest_key \<or> get_state st k = []"
proof -
  have "\<exists>v. held_value real (get_state st k) = Some v" if "get_state st k \<noteq> []"
  proof -
    have "(k, get_state st k) \<in> set st" using that by (auto simp: get_state_def split: option.splits dest: map_of_SomeD)
    then obtain v where "jcs_bytes v = Ok (get_state st k)" "plain v"
      using chain_run_canonical [OF assms] unfolding canonical_chain_def by blast
    from held_jcs_bytes [OF this] show ?thesis by blast
  qed
  then show ?thesis by (auto simp: chain_world_def)
qed

section \<open>A channel that is initialised\<close>

lemma keys_fit_strict: "keys_fit strict_grammar seen ks \<longleftrightarrow>
    distinct ks \<and> set ks \<inter> set seen = {} \<and> set ks \<inter> js ` {''__proto__'', ''constructor'', ''prototype''} = {}"
  by (induction ks arbitrary: seen) (auto simp: strict_grammar_def)

lemma fits_obj:
  assumes "d \<le> 64" and "distinct (map fst kvs)" and "set (map fst kvs) \<inter> {''__proto__'', ''constructor'', ''prototype''} = {}"
    and "\<forall>(k, x) \<in> set kvs. fits strict_grammar (Suc d) x"
  shows "fits strict_grammar d (obj kvs)"
proof -
  let ?ks = "map fst (defined (map (\<lambda>(k, v). (js k, v)) kvs))"
  have sub: "set ?ks \<subseteq> js ` set (map fst kvs)" by force
  have "distinct (map fst (map (\<lambda>(k, v). (js k, v)) kvs))"
    using assms(2) by (induction kvs) (auto simp: image_iff)
  then have "distinct ?ks" by (rule distinct_map_filter)
  moreover have "js ` set (map fst kvs) \<inter> js ` {''__proto__'', ''constructor'', ''prototype''} = {}"
    unfolding image_Int [OF inj_js, symmetric] assms(3) by (rule image_empty)
  then have "set ?ks \<inter> js ` {''__proto__'', ''constructor'', ''prototype''} = {}" using sub by blast
  ultimately have "keys_fit strict_grammar [] ?ks" by (simp add: keys_fit_strict)
  then show ?thesis using assms(1,4) by (auto simp: obj_def too_deep_def strict_grammar_def list_all_iff)
qed

lemma fits_scalar [simp]:
  "fits strict_grammar d (JStr s) = (d \<le> 64)" "fits strict_grammar d (JNum n) = (d \<le> 64)" "fits strict_grammar d (JBool b) = (d \<le> 64)"
  "fits strict_grammar d (JArr xs) = (d \<le> 64 \<and> list_all (fits strict_grammar (Suc d)) xs)"
  by (auto simp: too_deep_def strict_grammar_def)

lemma demo_fits: "fits strict_grammar 0 (enc_config demo_config)" "fits strict_grammar 0 (enc_policy demo_policy)"
  by (simp_all add: demo_config_def enc_config_def enc_policy_def enc_identity_def demo_policy_def demo_identity_def demo_bot_def
      demo_rep_def enc_representative_def demo_slot_def fits_obj del: fits.simps)

definition demo_founder :: cc_identity where
  "demo_founder = \<lparr>ci_msp = js ''org1'', ci_actor = js ''ann'', ci_kind = js ''human''\<rparr>"

definition demo_cc :: cc_config where
  "demo_cc = \<lparr>cc_channel = js ''chan'', cc_genesis = enc_config demo_config, cc_founder = demo_founder, cc_orgs = None,
     cc_types = None, cc_reads = None, cc_prefixes = None, cc_identities = [demo_founder],
     cc_decoder = Some (\<lambda>_. Some demo_founder)\<rparr>"

definition demo_stub :: stub where
  "demo_stub = \<lparr>sb_channel = js ''chan'', sb_creator = [], sb_args = [], sb_tx = js ''tx1'', sb_time = js ''t1'',
     sb_reads = [(0, key_config)]\<rparr>"

lemma demo_cc_context: "cc_context demo_cc demo_stub demo_founder = demo_ctx"
  by (simp add: cc_context_def engine_actor_def demo_cc_def demo_stub_def demo_founder_def demo_ctx_def)

lemma kcl_prefix: "starts_with (key_prefix kd @ s) (js ''kcl:'')" "starts_with (key_prefix kd) (js ''kcl:'')"
  by (simp_all add: starts_with_def key_prefix_def js_def)

lemma kcl_allowed: "engine_key k \<Longrightarrow> key_allowed k None"
  using kcl_prefix by (auto simp: engine_key_def key_allowed_def state_key_def)

lemma empty_world: "chain_world real [] = Map.empty"
  by (rule ext) (simp add: chain_world_def get_state_def)

lemma demo_boot_staged:
  obtains t result where "invoke demo_sha demo_ctx (Bootstrap (enc_config demo_config)) (begin_tx Map.empty) = Ok (result, t)"
    "staged t = [(key_config, enc_config demo_config), (key_eligibility_epoch, JNum (NInt 0)),
      (key_policy (pol_id demo_policy) (pol_version demo_policy), enc_policy demo_policy)]"
proof -
  obtain w res where "commit demo_sha demo_ctx (Bootstrap (enc_config demo_config)) Map.empty = Ok (res, w)"
    using demo_boot by (elim exE conjE)
  then obtain t where t: "invoke demo_sha demo_ctx (Bootstrap (enc_config demo_config)) (begin_tx Map.empty) = Ok (res, t)"
    unfolding commit_iff by (elim exE conjE)
  moreover have "bootstrap demo_ctx (enc_config demo_config) (begin_tx Map.empty) = Ok (res, t)"
    using t by (simp only: invoke_def request.case)
  from bootstrap_staged [OF this wf_demo_config] have "staged t = [(key_config, enc_config demo_config), (key_eligibility_epoch, JNum (NInt 0)),
      (key_policy (pol_id demo_policy) (pol_version demo_policy), enc_policy demo_policy)]"
    by (simp add: demo_config_def)
  ultimately show ?thesis by (rule that)
qed


lemma canonical_bytes: "canon_ok v 0 \<Longrightarrow> \<exists>bytes. jcs_bytes v = Ok bytes"
  using canonicalize_Ok_iff [of v] by (auto simp: jcs_bytes_def)

lemma fits_parses:
  assumes "jcs_bytes v = Ok bytes" and "settled v" and "fits strict_grammar 0 v"
  shows "parse_bytes real bytes = Some v"
proof -
  obtain t where t: "canonicalize v = Ok t" "bytes = utf8 t" using assms(1) by (auto simp: jcs_bytes_def)
  have v: "plain v" "jnorm v = v" using assms(2) by (simp_all add: settled_def)
  have "decode_text bytes = Some t"
    using canonical_valid [OF _ v(1), of 0 t] canonical_head [OF _ v(1), of 0 t] t
    by (auto simp: canonicalize_def intro!: decode_text_utf8)
  then show ?thesis using parse_strict_canonical [OF t(1) plain_js_value [OF v(1)], of real] assms(3) v(2) by (simp add: parse_bytes_def)
qed

lemma small_canon: "within_write_limit v \<Longrightarrow> canon_ok v 0"
  by (rule within_limit_canon)

definition demo_result :: json where
  "demo_result = obj [(''channel_id'', JStr (js ''chan'')), (''config_version'', enc_version (VNum 1)),
     (''membership_epoch'', JNum (NInt 1)), (''role_binding_version'', JNum (NInt 1)), (''status'', JStr (js ''bootstrapped''))]"

text \<open>What Init writes on the empty channel\<close>

lemma demo_init:
  obtains b1 b2 b3 b4 digest where "jcs_bytes (enc_config demo_config) = Ok b1" "jcs_bytes (JNum (NInt 0)) = Ok b2"
    "jcs_bytes (enc_policy demo_policy) = Ok b3" "jcs_bytes (manifest digest demo_result) = Ok b4"
    "sha256_digest demo_sha (enc_config demo_config) = Ok digest" "valid_unicode digest"
    "cc_init demo_sha demo_real demo_cc demo_stub [] = (Success (text_bytes (obj [(''status'', JStr (js ''bootstrapped'')), (''result'', demo_result)])),
      flush [(key_config, b1), (key_eligibility_epoch, b2), (key_policy (pol_id demo_policy) (pol_version demo_policy), b3),
        (bootstrap_manifest_key, b4)] [])"
proof -
  obtain t result where t: "invoke demo_sha demo_ctx (Bootstrap (enc_config demo_config)) (begin_tx Map.empty) = Ok (result, t)"
      "staged t = [(key_config, enc_config demo_config), (key_eligibility_epoch, JNum (NInt 0)),
        (key_policy (pol_id demo_policy) (pol_version demo_policy), enc_policy demo_policy)]"
    by (rule demo_boot_staged)
  obtain b1 where b1: "jcs_bytes (enc_config demo_config) = Ok b1" using canonical_bytes [OF canon_demo_config] by blast
  obtain b2 where b2: "jcs_bytes (JNum (NInt 0)) = Ok b2" using canonical_bytes [OF small_canon [OF demo_writes_small(2)]] by blast
  obtain b3 where b3: "jcs_bytes (enc_policy demo_policy) = Ok b3" using canonical_bytes [OF small_canon [OF demo_writes_small(3)]] by blast
  let ?ws = "[(key_config, b1), (key_eligibility_epoch, b2), (key_policy (pol_id demo_policy) (pol_version demo_policy), b3)]"
  have allowed: "key_allowed key_config None" "key_allowed key_eligibility_epoch None" "key_allowed (key_policy i z) None" for i z
    by (simp_all add: kcl_allowed)
  have cfg: "cc_prefixes demo_cc = None" "cc_reads demo_cc = None" by (simp_all add: demo_cc_def)
  have run: "run_core demo_sha demo_real demo_cc demo_ctx (Bootstrap (enc_config demo_config)) (sb_reads demo_stub) [] = Ok (result, ?ws)"
    using t by (simp add: run_core_def core_call_def empty_world buffered_write_def cfg allowed b1 b2 b3 demo_stub_def
        reads_succeed_def key_readable_def get_state_def flush_def)
  have result: "result = demo_result"
    using t(1) config.dec_enc [OF wf_demo_config] by (auto simp: invoke_def bootstrap_def demo_config_def demo_result_def)
  obtain digest where digest: "sha256_digest demo_sha (enc_config demo_config) = Ok digest" "valid_unicode digest"
    using canonicalize_Ok_iff [of "enc_config demo_config"] canon_demo_config by (auto simp: sha256_digest_def)
  have "canon_ok (manifest digest demo_result) 0"
    using digest(2) by (simp add: manifest_def demo_result_def canon_ok_obj max_safe_def is_ok_iff)
  then obtain b4 where b4: "jcs_bytes (manifest digest demo_result) = Ok b4" using canonical_bytes by blast
  have founder: "actor_from_stub demo_cc demo_stub = Ok demo_founder"
    by (simp add: actor_from_stub_def wanted_def demo_cc_def demo_stub_def demo_founder_def)
  have "try_init demo_sha demo_real demo_cc demo_stub [] =
      Ok (text_bytes (obj [(''status'', JStr (js ''bootstrapped'')), (''result'', demo_result)]), flush (?ws @ [(bootstrap_manifest_key, b4)]) [])"
    unfolding try_init_def founder using run digest(1) b4 demo_cc_context
    by (simp add: demo_cc_def demo_stub_def init_args_def core_call_def get_state_def result)
  then show ?thesis using that [OF b1 b2 b3 b4 digest] by (simp add: cc_init_def)
qed

lemma demo_chain:
  "\<exists>payload st. cc_init demo_sha demo_real demo_cc demo_stub [] = (Success payload, st) \<and> st \<noteq> []"
proof -
  obtain b1 b2 b3 b4 digest where init: "cc_init demo_sha demo_real demo_cc demo_stub [] = (Success (text_bytes (obj [(''status'', JStr (js ''bootstrapped'')), (''result'', demo_result)])),
      flush [(key_config, b1), (key_eligibility_epoch, b2), (key_policy (pol_id demo_policy) (pol_version demo_policy), b3),
        (bootstrap_manifest_key, b4)] [])"
    using demo_init by metis
  let ?ws = "[(key_config, b1), (key_eligibility_epoch, b2), (key_policy (pol_id demo_policy) (pol_version demo_policy), b3), (bootstrap_manifest_key, b4)]"
  let ?st = "flush ?ws []"
  have "?st \<noteq> []"
  proof -
    have "map_of ?st bootstrap_manifest_key = Some b4" by (simp add: flush_def)
    then show ?thesis by auto
  qed
  then show ?thesis using init by metis
qed

section \<open>Guarantees\<close>

text \<open>
  C30. The chaincode refines the engine. On a channel that only Init and Invoke have written, whatever their calls read,
  the bytes under every key decode, and the decoded state is one that commits of the engine reach; a call that
  changes the channel commits one request for the identity that the decoder authenticated.
\<close>

theorem chaincode_refines_engine:
  assumes "chain_run sha real cfg st" and "(r, st') \<in> {cc_init sha real cfg sb st, cc_invoke sha real cfg sb st}"
  shows "reachable sha (chain_world real st') \<and>
    (\<forall>k. chain_world real st' k = None \<longleftrightarrow> k = bootstrap_manifest_key \<or> get_state st' k = []) \<and>
    (st' = st \<or> (\<exists>a rq result. actor_from_stub cfg sb = Ok a \<and>
      commit sha (cc_context cfg sb a) rq (chain_world real st) = Ok (result, chain_world real st')))"
proof -
  have run': "chain_run sha real cfg st'" using assms(1,2) chain_run.initialised chain_run.invoked by (metis empty_iff insert_iff)
  have "\<exists>a rq result. actor_from_stub cfg sb = Ok a \<and> commit sha (cc_context cfg sb a) rq (chain_world real st) = Ok (result, chain_world real st')"
    if new: "st' \<noteq> st"
  proof -
    have "(\<exists>payload. try_init sha real cfg sb st = Ok (payload, st')) \<or> (\<exists>payload. try_invoke sha real cfg sb st = Ok (payload, st'))"
      using assms(2) new by (auto simp: cc_init_def cc_invoke_def split: result.splits)
    then obtain a rq result ws where run: "actor_from_stub cfg sb = Ok a"
        "run_core sha real cfg (cc_context cfg sb a) rq (sb_reads sb) st = Ok (result, ws)"
        "\<And>k. k \<noteq> bootstrap_manifest_key \<Longrightarrow> get_state st' k = get_state (flush ws st) k"
      using try_init_Ok [of sha real cfg sb st _ st'] try_invoke_Ok [of sha real cfg sb st _ st'] new get_state_flush_manifest by metis
    from run_core_world [OF run(2) chain_run_reachable [OF assms(1)] run(3)] show ?thesis using run(1) by blast
  qed
  then show ?thesis using chain_run_reachable [OF run'] chain_run_held [OF run'] by blast
qed

theorem chaincode_refines_engine_witness:
  "\<exists>payload st. cc_init demo_sha demo_real demo_cc demo_stub [] = (Success payload, st) \<and> st \<noteq> [] \<and>
     reachable demo_sha (chain_world demo_real st)"
proof -
  obtain payload st where st: "cc_init demo_sha demo_real demo_cc demo_stub [] = (Success payload, st)" "st \<noteq> []"
    using demo_chain by blast
  have "(Success payload, st) \<in> {cc_init demo_sha demo_real demo_cc demo_stub [], cc_invoke demo_sha demo_real demo_cc demo_stub []}"
    using st(1) by simp
  from chaincode_refines_engine [OF chain_run.genesis this] show ?thesis using st by blast
qed

text \<open>
  C31. Only pinned identities act, and failure changes nothing. A call that changes the channel's state
  succeeded, on its channel, for an identity that the decoder gave for the creator, that the configuration pins and
  whose organisation it allows; Init does so for the founder only.
\<close>

theorem only_pinned_identities_act:
  assumes "(r, st') \<in> {cc_init sha real cfg sb st, cc_invoke sha real cfg sb st}" and "st' \<noteq> st"
  shows "(\<exists>payload. r = Success payload) \<and> (\<exists>a decoder. cc_decoder cfg = Some decoder \<and> decoder (sb_creator sb) = Some a \<and>
    a \<in> set (cc_identities cfg) \<and> (\<forall>orgs. cc_orgs cfg = Some orgs \<longrightarrow> ci_msp a \<in> set orgs) \<and>
    ((r, st') = cc_invoke sha real cfg sb st \<or> a = cc_founder cfg))"
proof (cases "(r, st') = cc_invoke sha real cfg sb st")
  case True
  then obtain payload where p: "try_invoke sha real cfg sb st = Ok (payload, st')" "r = Success payload"
    using assms(2) by (auto simp: cc_invoke_def split: result.splits)
  from try_invoke_Ok [OF p(1)] assms(2) obtain a where "actor_from_stub cfg sb = Ok a" by blast
  from actor_from_stub_Ok [OF this] show ?thesis using p(2) True by blast
next
  case False
  then obtain payload where p: "try_init sha real cfg sb st = Ok (payload, st')" "r = Success payload"
    using assms by (auto simp: cc_init_def split: result.splits)
  from try_init_Ok [OF p(1)] assms(2) have "actor_from_stub cfg sb = Ok (cc_founder cfg)" by blast
  from actor_from_stub_Ok [OF this] show ?thesis using p(2) by blast
qed

theorem only_pinned_identities_act_witness:
  "\<exists>payload st. cc_init demo_sha demo_real demo_cc demo_stub [] = (Success payload, st) \<and> st \<noteq> [] \<and>
     (\<exists>a. a \<in> set (cc_identities demo_cc))"
proof -
  obtain payload st where st: "cc_init demo_sha demo_real demo_cc demo_stub [] = (Success payload, st)" "st \<noteq> []"
    using demo_chain by blast
  have "(Success payload, st) \<in> {cc_init demo_sha demo_real demo_cc demo_stub [], cc_invoke demo_sha demo_real demo_cc demo_stub []}"
    using st(1) by simp
  from only_pinned_identities_act [OF this st(2)] show ?thesis using st by blast
qed

end
