(* ===== verification/ProjectorSafety.thy ===== *)
theory ProjectorSafety
  imports Projector ChaincodeSafety
begin

text \<open>
  What the projector keeps of the chaincode's guarantees: when it accepts blocks that carry the writes of calls
  of the chaincode, its state is the channel's, and so one that commits of the engine reach.
\<close>

section \<open>The writes that a block carries\<close>

text \<open>The writes in the target's namespace, before any check\<close>

definition space_writes :: "protos \<Rightarrow> projector_target \<Rightarrow> name_space \<Rightarrow> kv_write list" where
  "space_writes pt tg ns =
     (if ns_name ns \<noteq> tg_chaincode tg \<or> ns_rwset ns = [] then []
      else case pt_kv_rw_set pt (ns_rwset ns) of None \<Rightarrow> [] | Some kv \<Rightarrow> kv_writes kv)"

definition action_of :: "protos \<Rightarrow> nat list \<Rightarrow> chaincode_action option" where
  "action_of pt bytes = (case pt_action_payload pt bytes of
     Some (Some proposal_response) \<Rightarrow> Option.bind (pt_response pt proposal_response) (pt_action pt)
   | _ \<Rightarrow> None)"

definition action_writes :: "protos \<Rightarrow> projector_target \<Rightarrow> nat list \<Rightarrow> kv_write list" where
  "action_writes pt tg bytes = (case action_of pt bytes of
     None \<Rightarrow> []
   | Some action \<Rightarrow>
       if map_option fst (ac_chaincode action) = Some (js ''_lifecycle'') \<or> ac_results action = [] then []
       else case pt_rw_set pt (ac_results action) of None \<Rightarrow> [] | Some rws \<Rightarrow> concat (map (space_writes pt tg) (rws_spaces rws)))"

definition payload_of :: "protos \<Rightarrow> nat list \<Rightarrow> proto_payload option" where
  "payload_of pt data = Option.bind (pt_envelope pt data) (pt_payload pt)"

definition is_endorser :: "protos \<Rightarrow> nat list \<Rightarrow> bool" where
  "is_endorser pt data \<longleftrightarrow> (case Option.bind (payload_of pt data) py_channel_header of
     None \<Rightarrow> False
   | Some bytes \<Rightarrow> map_option ch_type (pt_channel_header pt bytes) = Some (pt_endorser pt))"

definition transaction_writes :: "protos \<Rightarrow> projector_target \<Rightarrow> nat list \<Rightarrow> kv_write list" where
  "transaction_writes pt tg data = (case Option.bind (payload_of pt data) (\<lambda>p. pt_transaction pt (py_data p)) of
     None \<Rightarrow> [] | Some actions \<Rightarrow> concat (map (action_writes pt tg) actions))"

text \<open>As keys with their bytes; the marker of Fabric is not a write of the chaincode.\<close>

definition key_bytes :: "kv_write list \<Rightarrow> (jstr \<times> nat list) list" where
  "key_bytes ws = map (\<lambda>w. (kw_key w, kw_value w)) (filter (\<lambda>w. kw_key w \<noteq> fabric_initialized_key) ws)"

definition block_writes :: "protos \<Rightarrow> projector_target \<Rightarrow> nat list \<Rightarrow> (jstr \<times> nat list) list list" where
  "block_writes pt tg serialized = (case pt_block pt serialized of
     None \<Rightarrow> []
   | Some block \<Rightarrow> (case (bl_data block, bl_metadata block) of
       (Some entries, Some metadata) \<Rightarrow> map (\<lambda>(data, _). key_bytes (transaction_writes pt tg data))
         (filter (\<lambda>(data, code). code = pt_valid pt \<and> is_endorser pt data) (zip entries (metadata ! 2)))
     | _ \<Rightarrow> []))"

section \<open>Decoding keeps the writes\<close>

definition parsed :: "real_fn \<Rightarrow> (jstr \<times> nat list) list \<Rightarrow> (jstr \<times> json) list \<Rightarrow> bool" where
  "parsed real = list_all2 (\<lambda>(k, b) (l, v). k = l \<and> parse_bytes real b = Some v)"

lemma parsed_append: "parsed real xs ys \<Longrightarrow> parsed real xs' ys' \<Longrightarrow> parsed real (xs @ xs') (ys @ ys')"
  by (simp add: parsed_def list_all2_appendI)

lemma value_for_write_parses: "value_for_write sha real tg k b = Ok v \<Longrightarrow> parse_bytes real b = Some v"
  by (auto simp: value_for_write_def split: option.splits if_splits)

lemma key_bytes_append [simp]: "key_bytes (xs @ ys) = key_bytes xs @ key_bytes ys"
  by (simp add: key_bytes_def)

lemma decode_message_Ok: "decode_message f bytes = Ok m \<Longrightarrow> f bytes = Some m"
  by (auto simp: decode_message_def split: if_splits option.splits)

lemma scan_write_Ok:
  assumes "scan_write sha real tg action w (seen, i, ws) = Ok (seen', i', ws')"
  shows "\<exists>new. ws' = ws @ new \<and> parsed real (key_bytes [w]) new"
  using assms by (auto simp: scan_write_def key_bytes_def parsed_def value_for_write_parses split: if_splits)

lemma foldR_scan:
  assumes "foldR f xs (seen, i, ws) = Ok (seen', i', ws')"
    and "\<And>x seen i ws seen' i' ws'. x \<in> set xs \<Longrightarrow> f x (seen, i, ws) = Ok (seen', i', ws') \<Longrightarrow> \<exists>new. ws' = ws @ new \<and> parsed real (key_bytes (g x)) new"
  shows "\<exists>new. ws' = ws @ new \<and> parsed real (key_bytes (concat (map g xs))) new"
  using assms
proof (induction xs arbitrary: seen i ws)
  case Nil
  then show ?case by (simp add: key_bytes_def parsed_def)
next
  case (Cons x xs)
  obtain seen1 i1 ws1 where one: "f x (seen, i, ws) = Ok (seen1, i1, ws1)" and more: "foldR f xs (seen1, i1, ws1) = Ok (seen', i', ws')"
    using Cons.prems(1) by auto
  obtain new where new: "ws1 = ws @ new" "parsed real (key_bytes (g x)) new" using Cons.prems(2) [OF _ one] by auto
  obtain new' where "ws' = ws1 @ new'" "parsed real (key_bytes (concat (map g xs))) new'"
    using Cons.IH [OF more] Cons.prems(2) by (metis list.set_intros(2))
  then show ?case using new parsed_append by fastforce
qed

lemma scan_space_Ok:
  assumes "scan_space sha real pt tg action ns (seen, i, ws) = Ok (seen', i', ws')"
  shows "\<exists>new. ws' = ws @ new \<and> parsed real (key_bytes (space_writes pt tg ns)) new"
proof (cases "ns_name ns \<noteq> tg_chaincode tg \<or> ns_rwset ns = []")
  case True
  then have "ws' = ws" using assms by (auto simp: scan_space_def split: if_splits)
  then show ?thesis using True by (simp add: space_writes_def key_bytes_def parsed_def)
next
  case False
  then obtain kv where kv: "decode_message (pt_kv_rw_set pt) (ns_rwset ns) = Ok kv"
      and scan: "foldR (scan_write sha real tg action) (kv_writes kv) (seen, i, ws) = Ok (seen', i', ws')"
    using assms by (auto simp: scan_space_def split: if_splits)
  have "\<exists>new. ws' = ws @ new \<and> parsed real (key_bytes (concat (map (\<lambda>w. [w]) (kv_writes kv)))) new"
    by (rule foldR_scan [OF scan]) (rule scan_write_Ok)
  then show ?thesis using False decode_message_Ok [OF kv] by (simp add: space_writes_def)
qed

lemma scan_action_Ok:
  assumes "scan_action sha real pt tg bytes (seen, i, ws) = Ok (seen', i', ws')"
  shows "\<exists>new. ws' = ws @ new \<and> parsed real (key_bytes (action_writes pt tg bytes)) new"
proof -
  obtain response ext action name where d: "decode_message (pt_action_payload pt) bytes = Ok (Some response)"
    "decode_message (pt_response pt) response = Ok ext" "decode_message (pt_action pt) ext = Ok action" "chaincode_name action = Ok name"
    using assms by (auto simp: scan_action_def split: option.splits)
  have act: "action_of pt bytes = Some action" using decode_message_Ok [OF d(1)] decode_message_Ok [OF d(2)] decode_message_Ok [OF d(3)]
    by (simp add: action_of_def)
  obtain version where name: "ac_chaincode action = Some (name, version)"
    using d(4) by (auto simp: chaincode_name_def split: option.splits if_splits)
  show ?thesis
  proof (cases "name = js ''_lifecycle'' \<or> ac_results action = []")
    case True
    then have "ws' = ws" using assms d by (auto simp: scan_action_def split: if_splits)
    then show ?thesis using True act name by (auto simp: action_writes_def key_bytes_def parsed_def)
  next
    case False
    then obtain rws where rws: "decode_message (pt_rw_set pt) (ac_results action) = Ok rws"
        and scan: "foldR (scan_space sha real pt tg action) (rws_spaces rws) (seen, i, ws) = Ok (seen', i', ws')"
      using assms d by (auto simp: scan_action_def split: if_splits)
    have "\<exists>new. ws' = ws @ new \<and> parsed real (key_bytes (concat (map (space_writes pt tg) (rws_spaces rws)))) new"
      by (rule foldR_scan [OF scan]) (rule scan_space_Ok)
    then show ?thesis using False act name decode_message_Ok [OF rws] by (simp add: action_writes_def)
  qed
qed

lemma decode_transaction_Ok:
  assumes "decode_transaction sha real pt tg data index code = Ok tx"
  shows "px_valid tx = (code = pt_valid pt) \<and> (px_valid tx \<and> is_endorser pt data \<longrightarrow> parsed real (key_bytes (transaction_writes pt tg data)) (px_writes tx)) \<and>
    (\<not> (px_valid tx \<and> is_endorser pt data) \<longrightarrow> px_writes tx = [])"
proof -
  obtain pb payload hb ch where d: "decode_message (pt_envelope pt) data = Ok pb" "decode_message (pt_payload pt) pb = Ok payload"
    "py_channel_header payload = Some hb" "decode_message (pt_channel_header pt) hb = Ok ch"
    using assms by (auto simp: decode_transaction_def split: option.splits)
  have payload: "payload_of pt data = Some payload" using decode_message_Ok [OF d(1)] decode_message_Ok [OF d(2)] by (simp add: payload_of_def)
  have type: "is_endorser pt data \<longleftrightarrow> ch_type ch = pt_endorser pt"
    using payload d(3) decode_message_Ok [OF d(4)] by (simp add: is_endorser_def)
  show ?thesis
  proof (cases "code = pt_valid pt \<and> ch_type ch = pt_endorser pt")
    case False
    then show ?thesis using assms d type by (auto simp: decode_transaction_def Let_def split: if_splits)
  next
    case True
    then obtain actions seen i ws where t: "decode_message (pt_transaction pt) (py_data payload) = Ok actions"
        and scan: "foldR (scan_action sha real pt tg) actions ([], False, []) = Ok (seen, i, ws)"
        and tx: "px_writes tx = ws" "px_valid tx"
      using assms d by (auto simp: decode_transaction_def Let_def split: if_splits)
    have "\<exists>new. ws = [] @ new \<and> parsed real (key_bytes (concat (map (action_writes pt tg) actions))) new"
      by (rule foldR_scan [OF scan]) (rule scan_action_Ok)
    then show ?thesis using True tx type payload decode_message_Ok [OF t] by (simp add: transaction_writes_def)
  qed
qed

lemma check_transactions_Ok:
  assumes "foldR (check_transaction sha real pt tg number) xs (acc, ids) = Ok (txs, ids')"
  shows "\<exists>new. txs = acc @ new \<and> list_all2 (\<lambda>(data, index, code) tx. decode_transaction sha real pt tg data index code = Ok tx) xs new"
  using assms
proof (induction xs arbitrary: acc ids)
  case (Cons x xs)
  obtain data index code where x: "x = (data, index, code)" by (cases x)
  then obtain tx ids1 where tx: "decode_transaction sha real pt tg data index code = Ok tx"
      and more: "foldR (check_transaction sha real pt tg number) xs (acc @ [tx], ids1) = Ok (txs, ids')"
    using Cons.prems by (auto simp: check_transaction_def split: if_splits)
  obtain new where "txs = (acc @ [tx]) @ new"
      "list_all2 (\<lambda>(data, index, code) tx. decode_transaction sha real pt tg data index code = Ok tx) xs new"
    using Cons.IH [OF more] by blast
  then show ?case using tx x by auto
qed simp

section \<open>Calls of the chaincode\<close>

definition chain_value :: "real_fn \<Rightarrow> chain \<Rightarrow> jstr \<Rightarrow> json option" where
  "chain_value real st k = (if get_state st k = [] then None else parse_bytes real (get_state st k))"

text \<open>A peer records the bytes under every key that a call writes.\<close>

definition write_set :: "chain \<Rightarrow> chain \<Rightarrow> (jstr \<times> nat list) list \<Rightarrow> bool" where
  "write_set st st' ws \<longleftrightarrow> distinct (map fst ws) \<and> (\<forall>(k, b) \<in> set ws. b \<noteq> [] \<and> get_state st' k = b) \<and>
     (\<forall>k. k \<notin> fst ` set ws \<longrightarrow> get_state st' k = get_state st k)"

inductive channel_calls :: "sha_fn \<Rightarrow> real_fn \<Rightarrow> cc_config \<Rightarrow> chain \<Rightarrow> (jstr \<times> nat list) list list \<Rightarrow> chain \<Rightarrow> bool" for sha real cfg where
  no_call: "channel_calls sha real cfg st [] st"
| some_call: "(r, st1) \<in> {cc_init sha real cfg sb st, cc_invoke sha real cfg sb st} \<Longrightarrow> write_set st st1 ws \<Longrightarrow>
    channel_calls sha real cfg st1 wss st' \<Longrightarrow> channel_calls sha real cfg st (ws # wss) st'"

inductive_cases calls_ConsE: "channel_calls sha real cfg st (ws # wss) st'"

lemma channel_calls_run: "channel_calls sha real cfg st wss st' \<Longrightarrow> chain_run sha real cfg st \<Longrightarrow> chain_run sha real cfg st'"
proof (induction rule: channel_calls.induct)
  case (some_call r st1 sb st ws wss st')
  then show ?case using chain_run.initialised chain_run.invoked by (metis empty_iff insert_iff)
qed simp

lemma chain_value_clone:
  assumes "chain_run sha real cfg st" and "chain_value real st k = Some v"
  shows "clone_canonical v = Ok v"
proof -
  have b: "get_state st k \<noteq> []" "parse_bytes real (get_state st k) = Some v"
    using assms(2) by (auto simp: chain_value_def split: if_splits)
  then have "(k, get_state st k) \<in> set st" by (auto simp: get_state_def split: option.splits dest: map_of_SomeD)
  then obtain x where x: "jcs_bytes x = Ok (get_state st k)" "plain x"
    using chain_run_canonical [OF assms(1)] unfolding canonical_chain_def by blast
  then have v: "v = jnorm x" using parse_jcs_bytes [OF x] b(2) by (metis option.inject option.simps(3))
  obtain t where "canonicalize x = Ok t" using x(1) by (auto simp: jcs_bytes_def)
  then have "canonicalize (jnorm x) = Ok t" by (simp add: canonicalize_def)
  then show ?thesis by (simp add: clone_canonical_def v)
qed

section \<open>Staging a block\<close>

lemma stage_write_Ok:
  assumes "stage_write state (k, v) over = Ok over'"
  shows "\<exists>c. clone_canonical v = Ok c \<and> over' = upsert k c over"
  using assms by (auto simp: stage_write_def)

lemma staged_get_upsert: "staged_get state (upsert k v over) l = (if l = k then Some v else staged_get state over l)"
  by (simp add: staged_get_def)

text \<open>Staging the parsed write set of a call takes the staged state from the channel before it to that after it.\<close>

lemma stage_writes_Ok:
  assumes "foldR (stage_write state) vs over = Ok over'" and "parsed real ws vs" and "distinct (map fst ws)"
    and "distinct (map fst over)"
  shows "distinct (map fst over') \<and> (\<forall>k. k \<notin> fst ` set ws \<longrightarrow> staged_get state over' k = staged_get state over k) \<and>
    (\<forall>(k, b) \<in> set ws. \<exists>v c. parse_bytes real b = Some v \<and> clone_canonical v = Ok c \<and> staged_get state over' k = Some c)"
  using assms
proof (induction vs arbitrary: over ws)
  case Nil
  then show ?case by (simp add: parsed_def)
next
  case (Cons w vs)
  obtain k v where w: "w = (k, v)" by (cases w)
  obtain b ws1 where ws: "ws = (k, b) # ws1" "parse_bytes real b = Some v" "parsed real ws1 vs"
    using Cons.prems(2) w by (auto simp: parsed_def list_all2_Cons2)
  obtain c where c: "clone_canonical v = Ok c" and more: "foldR (stage_write state) vs (upsert k c over) = Ok over'"
    using Cons.prems(1) stage_write_Ok [of state k v over] w by auto
  have k: "k \<notin> fst ` set ws1" using Cons.prems(3) ws(1) by simp
  have d: "distinct (map fst ws1)" "distinct (map fst (upsert k c over))"
    using Cons.prems(3,4) ws(1) upsert_distinct by simp_all
  note ih = Cons.IH [OF more ws(3) d]
  then have "staged_get state over' k = Some c" using k by (simp add: staged_get_upsert)
  then show ?case using ih ws(1,2) c k by (auto simp: staged_get_upsert)
qed

definition agrees :: "real_fn \<Rightarrow> chain \<Rightarrow> (jstr \<Rightarrow> json option) \<Rightarrow> bool" where
  "agrees real st get \<longleftrightarrow> (\<forall>k. get k = chain_value real st k \<and> (get_state st k \<noteq> [] \<longrightarrow> chain_value real st k \<noteq> None))"

lemma stage_call:
  assumes run: "chain_run sha real cfg st'" and ws: "write_set st st' ws" and vs: "parsed real ws vs"
    and agree: "agrees real st (staged_get state over)" and over: "distinct (map fst over)"
    and stage: "foldR (stage_write state) vs over = Ok over'"
  shows "agrees real st' (staged_get state over') \<and> distinct (map fst over')"
proof -
  have d: "distinct (map fst ws)" using ws by (simp add: write_set_def)
  note staged = stage_writes_Ok [OF stage vs d over]
  have "staged_get state over' k = chain_value real st' k \<and> (get_state st' k \<noteq> [] \<longrightarrow> chain_value real st' k \<noteq> None)" for k
  proof (cases "k \<in> fst ` set ws")
    case True
    then obtain b where kb: "(k, b) \<in> set ws" by auto
    then have b: "get_state st' k = b" "b \<noteq> []" using ws unfolding write_set_def by fastforce+
    obtain v c where v: "parse_bytes real b = Some v" "clone_canonical v = Ok c" "staged_get state over' k = Some c"
      using staged kb by blast
    have "chain_value real st' k = Some v" using b v(1) by (simp add: chain_value_def)
    then show ?thesis using chain_value_clone [OF run] v by fastforce
  next
    case False
    then have "get_state st' k = get_state st k" using ws unfolding write_set_def by blast
    moreover have "staged_get state over' k = staged_get state over k" using staged False by blast
    moreover have "staged_get state over k = chain_value real st k \<and> (get_state st k \<noteq> [] \<longrightarrow> chain_value real st k \<noteq> None)"
      using agree unfolding agrees_def by blast
    ultimately show ?thesis by (simp add: chain_value_def)
  qed
  then show ?thesis using staged by (simp add: agrees_def)
qed

text \<open>The transactions of a block against the calls that they record\<close>

lemma stage_block:
  assumes "list_all2 (\<lambda>(data, index, code) tx. decode_transaction sha real pt tg data index code = Ok tx) xs txs"
    and "channel_calls sha real cfg st wss st'"
    and "wss = map (\<lambda>(data, _). key_bytes (transaction_writes pt tg data))
         (filter (\<lambda>(data, index, code). code = pt_valid pt \<and> is_endorser pt data) xs)"
    and "chain_run sha real cfg st" and "agrees real st (staged_get state over)" and "distinct (map fst over)"
    and "foldR (stage_transaction state) txs over = Ok over'"
  shows "agrees real st' (staged_get state over') \<and> distinct (map fst over')"
  using assms
proof (induction xs txs arbitrary: st wss over rule: list_all2_induct)
  case Nil
  then show ?case by (auto elim: channel_calls.cases)
next
  case (Cons x xs tx txs)
  obtain data index code where x: "x = (data, index, code)" by (cases x)
  have tx: "decode_transaction sha real pt tg data index code = Ok tx" using Cons.hyps x by simp
  obtain over1 where first: "stage_transaction state tx over = Ok over1" and more: "foldR (stage_transaction state) txs over1 = Ok over'"
    using Cons.prems(6) by auto
  show ?case
  proof (cases "code = pt_valid pt \<and> is_endorser pt data")
    case False
    then have "px_writes tx = []" using decode_transaction_Ok [OF tx] by simp
    then have "over1 = over" using first by (auto simp: stage_transaction_def split: if_splits)
    then show ?thesis using Cons.IH Cons.prems more False x by simp
  next
    case True
    define ws where "ws = key_bytes (transaction_writes pt tg data)"
    have parse: "parsed real ws (px_writes tx)" "px_valid tx" using decode_transaction_Ok [OF tx] True by (simp_all add: ws_def)
    obtain wss1 where wss: "wss = ws # wss1"
      "wss1 = map (\<lambda>(data, _). key_bytes (transaction_writes pt tg data)) (filter (\<lambda>(data, index, code). code = pt_valid pt \<and> is_endorser pt data) xs)"
      using Cons.prems(2) True x by (simp add: ws_def)
    obtain r st1 sb where call: "(r, st1) \<in> {cc_init sha real cfg sb st, cc_invoke sha real cfg sb st}" "write_set st st1 ws"
        "channel_calls sha real cfg st1 wss1 st'"
      using calls_ConsE [OF Cons.prems(1) [unfolded wss(1)]] by blast
    have run: "chain_run sha real cfg st1"
      using channel_calls_run [OF some_call [OF call(1,2) no_call] Cons.prems(3)] .
    have "foldR (stage_write state) (px_writes tx) over = Ok over1" using first parse(2) by (auto simp: stage_transaction_def)
    from stage_call [OF run call(2) parse(1) Cons.prems(4,5) this] have "agrees real st1 (staged_get state over1)" "distinct (map fst over1)" by simp_all
    then show ?thesis using Cons.IH [OF call(3) wss(2) run _ _ more] by blast
  qed
qed

section \<open>A projector that follows a channel\<close>

inductive follows :: "sha_fn \<Rightarrow> real_fn \<Rightarrow> cc_config \<Rightarrow> protos \<Rightarrow> chain \<Rightarrow> projector \<Rightarrow> bool" for sha real cfg pt where
  begins: "new_projector sha po = Ok p \<Longrightarrow> follows sha real cfg pt [] p"
| applies: "follows sha real cfg pt st p \<Longrightarrow> channel_calls sha real cfg st (block_writes pt (pj_target p) serialized) st' \<Longrightarrow>
    apply_block sha real pt serialized p = Ok (result, p') \<Longrightarrow> follows sha real cfg pt st' p'"

lemma apply_block_Ok:
  assumes "apply_block sha real pt serialized p = Ok (result, p')"
  obtains h entries metadata txs ids over cp where
    "pt_block pt serialized = Some \<lparr>bl_header = Some h, bl_data = Some entries, bl_metadata = Some metadata\<rparr>"
    "length (metadata ! 2) = length entries"
    "foldR (check_transaction sha real pt (pj_target p) (hd_number h)) (zip entries (zip [0..<length entries] (metadata ! 2))) ([], []) = Ok (txs, ids)"
    "foldR (stage_transaction (pj_state p)) txs [] = Ok over"
    "p' = p\<lparr>pj_state := fold (\<lambda>(k, v). upsert k v) over (pj_state p), pj_checkpoint := Some cp\<rparr>"
proof -
  obtain prepared where prep: "prepare_block sha real pt serialized p = Ok prepared"
      and p': "commit_block_writes prepared p = Ok p'"
    using assms by (auto simp: apply_block_def)
  obtain block where block: "decode_message (pt_block pt) serialized = Ok block" using prep by (auto simp: prepare_block_def)
  obtain h entries metadata where parts: "bl_header block = Some h" "bl_data block = Some entries" "bl_metadata block = Some metadata"
    using prep block by (auto simp: prepare_block_def split: option.splits)
  obtain txs ids over where len: "length (metadata ! 2) = length entries"
    and txs: "foldR (check_transaction sha real pt (pj_target p) (hd_number h)) (zip entries (zip [0..<length entries] (metadata ! 2))) ([], []) = Ok (txs, ids)"
    and over: "foldR (stage_transaction (pj_state p)) txs [] = Ok over" and "pb_staged prepared = over"
    using prep block parts by (auto simp: prepare_block_def split: if_splits)
  moreover have "p' = p\<lparr>pj_state := fold (\<lambda>(k, v). upsert k v) (pb_staged prepared) (pj_state p),
      pj_checkpoint := Some (br_checkpoint (pb_result prepared))\<rparr>"
    using p' by (auto simp: commit_block_writes_def split: if_splits)
  moreover have "pt_block pt serialized = Some \<lparr>bl_header = Some h, bl_data = Some entries, bl_metadata = Some metadata\<rparr>"
    using decode_message_Ok [OF block] parts by simp
  ultimately show ?thesis using that by blast
qed

lemma filter_codes:
  "length codes = length entries \<Longrightarrow> map (\<lambda>(data, _). f data) (filter (\<lambda>(data, index, code). q data code) (zip entries (zip [i..<i + length entries] codes))) =
   map (\<lambda>(data, _). f data) (filter (\<lambda>(data, code). q data code) (zip entries codes))"
proof (induction entries arbitrary: codes i)
  case (Cons e entries)
  then obtain c cs where "codes = c # cs" "length cs = length entries" by (cases codes) auto
  then show ?case using Cons.IH [of cs "Suc i"] by (simp add: upt_conv_Cons del: upt_Suc)
qed simp

lemma over_state:
  "distinct (map fst over) \<Longrightarrow> map_of (fold (\<lambda>(k, v). upsert k v) over state) k = (case map_of over k of None \<Rightarrow> map_of state k | Some v \<Rightarrow> Some v)"
proof (induction over arbitrary: state)
  case (Cons w over)
  then show ?case by (cases w) (auto split: option.split simp: map_of_eq_None_iff dest: map_of_SomeD intro: rev_image_eqI)
qed simp

lemma follows_agrees: "follows sha real cfg pt st p \<Longrightarrow> chain_run sha real cfg st \<and> agrees real st (map_of (pj_state p))"
proof (induction rule: follows.induct)
  case (begins po p)
  then have "pj_state p = []" by (auto simp: new_projector_def Let_def split: if_splits json.splits)
  then show ?case by (simp add: agrees_def chain_value_def get_state_def chain_run.genesis)
next
  case (applies st p serialized st' result p')
  obtain h entries metadata txs ids over cp where
    block: "pt_block pt serialized = Some \<lparr>bl_header = Some h, bl_data = Some entries, bl_metadata = Some metadata\<rparr>"
      "length (metadata ! 2) = length entries"
    and txs: "foldR (check_transaction sha real pt (pj_target p) (hd_number h)) (zip entries (zip [0..<length entries] (metadata ! 2))) ([], []) = Ok (txs, ids)"
    and over: "foldR (stage_transaction (pj_state p)) txs [] = Ok over"
    and p': "p' = p\<lparr>pj_state := fold (\<lambda>(k, v). upsert k v) over (pj_state p), pj_checkpoint := Some cp\<rparr>"
    using apply_block_Ok [OF applies.hyps(3)] .
  have run: "chain_run sha real cfg st'" using channel_calls_run [OF applies.hyps(2)] applies.IH by blast
  have all: "list_all2 (\<lambda>(data, index, code) tx. decode_transaction sha real pt (pj_target p) data index code = Ok tx)
      (zip entries (zip [0..<length entries] (metadata ! 2))) txs"
    using check_transactions_Ok [OF txs] by simp
  have writes: "block_writes pt (pj_target p) serialized = map (\<lambda>(data, _). key_bytes (transaction_writes pt (pj_target p) data))
      (filter (\<lambda>(data, index, code). code = pt_valid pt \<and> is_endorser pt data) (zip entries (zip [0..<length entries] (metadata ! 2))))"
    using filter_codes [OF block(2), of "\<lambda>data. key_bytes (transaction_writes pt (pj_target p) data)"
        "\<lambda>data code. code = pt_valid pt \<and> is_endorser pt data" 0] block(1) by (simp add: block_writes_def)
  have "agrees real st (staged_get (pj_state p) [])" using applies.IH by (simp add: agrees_def staged_get_def)
  from stage_block [OF all applies.hyps(2) writes _ this _ over] applies.IH
  have over': "agrees real st' (staged_get (pj_state p) over)" "distinct (map fst over)" by simp_all
  have "map_of (pj_state p') k = staged_get (pj_state p) over k" for k
    using over_state [OF over'(2), of "pj_state p"] by (simp add: p' staged_get_def)
  then show ?case using run over'(1) by (simp add: agrees_def)
qed

lemma agrees_world:
  assumes "agrees real st get"
  shows "get(bootstrap_manifest_key := None) = chain_world real st"
proof
  fix k
  have "get_state st k = [] \<or> (\<exists>v. parse_bytes real (get_state st k) = Some v)" "get k = chain_value real st k"
    using assms unfolding agrees_def chain_value_def by auto
  then show "(get(bootstrap_manifest_key := None)) k = chain_world real st k"
    using parse_bytes_held by (auto simp: chain_world_def chain_value_def)
qed

section \<open>A block with the Init call\<close>

definition demo_entry :: "nat list" where
  "demo_entry = [1]"

definition demo_header :: proto_header where
  "demo_header = \<lparr>hd_number = 0, hd_previous = [], hd_data_hash = from_hex (demo_sha demo_entry)\<rparr>"

definition demo_protos :: "(jstr \<times> nat list) list \<Rightarrow> protos" where
  "demo_protos ws = \<lparr>
     pt_block = (\<lambda>_. Some \<lparr>bl_header = Some demo_header, bl_data = Some [demo_entry], bl_metadata = Some [[], [], [0]]\<rparr>),
     pt_envelope = (\<lambda>_. Some [1]), pt_payload = (\<lambda>_. Some \<lparr>py_channel_header = Some [1], py_data = [1]\<rparr>),
     pt_channel_header = (\<lambda>_. Some \<lparr>ch_type = 3, ch_channel = js ''chan'', ch_tx = js ''tx1'', ch_time = Some (0, 0)\<rparr>),
     pt_transaction = (\<lambda>_. Some [[1]]), pt_action_payload = (\<lambda>_. Some (Some [1])), pt_response = (\<lambda>_. Some [1]),
     pt_action = (\<lambda>_. Some \<lparr>ac_chaincode = Some (js ''knowledger'', js ''0.1.0''), ac_results = [1]\<rparr>),
     pt_rw_set = (\<lambda>_. Some \<lparr>rws_kv = True, rws_spaces = [\<lparr>ns_name = js ''knowledger'', ns_hashed = 0, ns_rwset = [1]\<rparr>]\<rparr>),
     pt_kv_rw_set = (\<lambda>_. Some \<lparr>kv_metadata = 0, kv_writes = map (\<lambda>(k, b). \<lparr>kw_key = k, kw_delete = False, kw_value = b\<rparr>) ws\<rparr>),
     pt_endorser = 3, pt_config = 1, pt_valid = 0, pt_supported = [0]\<rparr>"

definition demo_options :: projector_options where
  "demo_options = \<lparr>po_channel = js ''chan'', po_chaincode = js ''knowledger'', po_version = None, po_genesis = enc_config demo_config\<rparr>"

definition demo_target :: "jstr \<Rightarrow> projector_target" where
  "demo_target digest = \<lparr>tg_channel = js ''chan'', tg_chaincode = js ''knowledger'', tg_version = js ''0.1.0'', tg_digest = digest,
     tg_genesis = \<lparr>gv_config = enc_version (VNum 1), gv_epoch = JNum (NInt 1), gv_binding = JNum (NInt 1)\<rparr>\<rparr>"

definition demo_projector :: "jstr \<Rightarrow> projector" where
  "demo_projector digest = \<lparr>pj_options = demo_options\<lparr>po_version := Some (js ''0.1.0'')\<rparr>, pj_target = demo_target digest,
     pj_state = [], pj_checkpoint = None\<rparr>"

lemma demo_new_projector:
  assumes "sha256_digest demo_sha (enc_config demo_config) = Ok digest"
  shows "new_projector demo_sha demo_options = Ok (demo_projector digest)"
proof -
  have "list_all version_char (js ''0.1.0'')" by (simp add: js_def cu_def version_char_def is_digit_def)
  moreover have "clone_canonical (enc_config demo_config) = Ok (enc_config demo_config)"
    using assms by (auto simp: sha256_digest_def clone_canonical_def)
  moreover have "fld (enc_config demo_config) ''config_version'' = enc_version (VNum 1)" "fld (enc_config demo_config) ''membership_epoch'' = JNum (NInt 1)"
    "fld (enc_config demo_config) ''role_binding_version'' = JNum (NInt 1)"
    by (simp_all add: enc_config_def demo_config_def)
  moreover have "\<exists>kvs. enc_config demo_config = JObj kvs" by (simp add: enc_config_def obj_def)
  ultimately show ?thesis using assms
    by (auto simp: new_projector_def demo_options_def demo_projector_def demo_target_def Let_def safe_integer_value_def max_safe_def)
      (simp_all add: js_def)
qed

lemma demo_result_parts:
  "settled (manifest digest demo_result)" "fits strict_grammar 0 (manifest digest demo_result)"
  by (simp_all add: manifest_def demo_result_def settled_obj fits_obj name_order del: fits.simps)

lemma demo_verify: "verify_bootstrap (manifest digest demo_result) (js ''chan'') digest (tg_genesis (demo_target digest)) = Ok ()"
  by (simp add: verify_bootstrap_def manifest_def demo_result_def exact_obj demo_target_def positive_integer_def max_safe_def)

lemma settled_clone: "jcs_bytes v = Ok b \<Longrightarrow> settled v \<Longrightarrow> clone_canonical v = Ok v"
  by (auto simp: jcs_bytes_def clone_canonical_def settled_def)

lemma demo_valid_writes:
  "validate_state_write sha key_config (enc_config demo_config)"
  "validate_state_write sha key_eligibility_epoch (JNum (NInt 0))"
  "validate_state_write sha (key_policy (pol_id demo_policy) (pol_version demo_policy)) (enc_policy demo_policy)"
proof -
  have pol: "wf_policy demo_policy" using wf_demo_config by (simp add: demo_config_def wf_config_def)
  then have "valid_unicode (pol_id demo_policy)" by (auto simp: wf_policy_def is_id_valid)
  then show "validate_state_write sha (key_policy (pol_id demo_policy) (pol_version demo_policy)) (enc_policy demo_policy)"
    unfolding key_policy_def
    by (intro write_by_kind) (simp_all add: demo_writes_small write_schema_def filed_def policy.dec_enc [OF pol] key_policy_def)
  show "validate_state_write sha key_config (enc_config demo_config)" unfolding key_config_def
    by (intro write_by_kind) (simp_all add: demo_writes_small write_schema_def filed_def config.dec_enc [OF wf_demo_config] key_config_def)
  show "validate_state_write sha key_eligibility_epoch (JNum (NInt 0))" unfolding key_eligibility_epoch_def
    by (intro write_by_kind) (simp_all add: demo_writes_small write_schema_def key_eligibility_epoch_def max_safe_def)
qed

lemma demo_links:
  assumes "get key_config = Some (enc_config demo_config)"
  shows "validate_state_links key_config v get" "validate_state_links key_eligibility_epoch v get"
    "validate_state_links (key_policy (pol_id demo_policy) (pol_version demo_policy)) (enc_policy demo_policy) get"
proof -
  have pol: "wf_policy demo_policy" using wf_demo_config by (simp add: demo_config_def wf_config_def)
  then have "valid_unicode (pol_id demo_policy)" by (auto simp: wf_policy_def is_id_valid)
  moreover have "same_json (enc_policy demo_policy) (enc_policy demo_policy)"
    using demo_writes_small(3) by (auto simp: same_json_def within_write_limit_def split: result.splits)
  moreover have "fld (enc_config demo_config) ''policies'' = JArr (map enc_policy [demo_policy])"
    by (simp add: enc_config_def demo_config_def)
  ultimately show "validate_state_links (key_policy (pol_id demo_policy) (pol_version demo_policy)) (enc_policy demo_policy) get"
    using find_policy [of demo_policy "[demo_policy]"] assms by (simp add: key_policy_def links_of_key policy_links_def)
  show "validate_state_links key_config v get" "validate_state_links key_eligibility_epoch v get"
    by (simp_all add: key_config_def key_eligibility_epoch_def links_of_key)
qed

text \<open>What the projector makes of the block\<close>

definition demo_transaction :: "jstr \<Rightarrow> projected_tx" where
  "demo_transaction digest = \<lparr>px_id = js ''tx1'', px_index = 0, px_code = 0, px_valid = True,
     px_writes = [(key_config, enc_config demo_config), (key_eligibility_epoch, JNum (NInt 0)),
       (key_policy (pol_id demo_policy) (pol_version demo_policy), enc_policy demo_policy), (bootstrap_manifest_key, manifest digest demo_result)],
     px_time = iso_text 0, px_type = 3\<rparr>"

lemma demo_block:
  assumes b: "jcs_bytes (enc_config demo_config) = Ok b1" "jcs_bytes (JNum (NInt 0)) = Ok b2"
    "jcs_bytes (enc_policy demo_policy) = Ok b3" "jcs_bytes (manifest digest demo_result) = Ok b4"
    and digest: "sha256_digest demo_sha (enc_config demo_config) = Ok digest"
  shows "\<exists>result p. apply_block demo_sha demo_real (demo_protos [(key_config, b1), (key_eligibility_epoch, b2),
      (key_policy (pol_id demo_policy) (pol_version demo_policy), b3), (bootstrap_manifest_key, b4)]) [1] (demo_projector digest) = Ok (result, p) \<and>
    br_transactions result = [demo_transaction digest]"
proof -
  let ?kp = "key_policy (pol_id demo_policy) (pol_version demo_policy)"
  let ?ws = "[(key_config, b1), (key_eligibility_epoch, b2), (?kp, b3), (bootstrap_manifest_key, b4)]"
  let ?tg = "demo_target digest" and ?pt = "demo_protos ?ws"
  have settled: "settled (enc_config demo_config)" "settled (JNum (NInt 0))" "settled (enc_policy demo_policy)" "settled (manifest digest demo_result)"
    by (simp_all add: demo_result_parts)
  have parse: "parse_bytes demo_real b1 = Some (enc_config demo_config)" "parse_bytes demo_real b2 = Some (JNum (NInt 0))"
    "parse_bytes demo_real b3 = Some (enc_policy demo_policy)" "parse_bytes demo_real b4 = Some (manifest digest demo_result)"
    using fits_parses [OF b(1) settled(1)] fits_parses [OF b(2) settled(2)] fits_parses [OF b(3) settled(3)] fits_parses [OF b(4) settled(4)]
    by (simp_all add: demo_fits demo_result_parts del: fits.simps)
  have bytes: "b1 \<noteq> []" "b2 \<noteq> []" "b3 \<noteq> []" "b4 \<noteq> []"
    using settled jcs_bytes_nonempty [OF b(1)] jcs_bytes_nonempty [OF b(2)] jcs_bytes_nonempty [OF b(3)] jcs_bytes_nonempty [OF b(4)]
    by (simp_all add: settled_def)
  have clone: "clone_canonical (enc_config demo_config) = Ok (enc_config demo_config)" "clone_canonical (JNum (NInt 0)) = Ok (JNum (NInt 0))"
    "clone_canonical (enc_policy demo_policy) = Ok (enc_policy demo_policy)" "clone_canonical (manifest digest demo_result) = Ok (manifest digest demo_result)"
    using settled_clone [OF b(1)] settled_clone [OF b(2)] settled_clone [OF b(3)] settled_clone [OF b(4)] settled by blast+
  have "key_config \<noteq> key_eligibility_epoch" "key_config \<noteq> ?kp" "key_eligibility_epoch \<noteq> ?kp" by (simp_all add: key_defs)
  moreover have "key_config \<noteq> bootstrap_manifest_key" "key_eligibility_epoch \<noteq> bootstrap_manifest_key" "?kp \<noteq> bootstrap_manifest_key"
    by (simp_all add: engine_key_not_manifest)
  ultimately have keys: "key_config \<noteq> key_eligibility_epoch" "key_config \<noteq> ?kp" "key_eligibility_epoch \<noteq> ?kp"
    "key_config \<noteq> bootstrap_manifest_key" "key_eligibility_epoch \<noteq> bootstrap_manifest_key" "?kp \<noteq> bootstrap_manifest_key" by blast+
  have marker: "key_config \<noteq> fabric_initialized_key" "key_eligibility_epoch \<noteq> fabric_initialized_key" "?kp \<noteq> fabric_initialized_key"
    "bootstrap_manifest_key \<noteq> fabric_initialized_key"
    using state_key_no_zero by (auto simp: fabric_initialized_key_def key_defs bootstrap_manifest_key_def js_def cu_def) (metis list.set_intros(1))+
  have nonempty: "key_config \<noteq> []" "key_eligibility_epoch \<noteq> []" "?kp \<noteq> []" "bootstrap_manifest_key \<noteq> []"
    by (simp_all add: key_defs state_key_def key_prefix_def js_def bootstrap_manifest_key_def)
  have target: "tg_channel ?tg = js ''chan''" "tg_digest ?tg = digest" "tg_chaincode ?tg = js ''knowledger''" by (simp_all add: demo_target_def)
  have vals: "value_for_write demo_sha demo_real ?tg key_config b1 = Ok (enc_config demo_config)"
    "value_for_write demo_sha demo_real ?tg key_eligibility_epoch b2 = Ok (JNum (NInt 0))"
    "value_for_write demo_sha demo_real ?tg ?kp b3 = Ok (enc_policy demo_policy)"
    "value_for_write demo_sha demo_real ?tg bootstrap_manifest_key b4 = Ok (manifest digest demo_result)"
    using keys by (simp_all add: value_for_write_def parse demo_valid_writes digest target demo_verify)
  let ?vs = "[(key_config, enc_config demo_config), (key_eligibility_epoch, JNum (NInt 0)), (?kp, enc_policy demo_policy),
    (bootstrap_manifest_key, manifest digest demo_result)]"
  have scan: "\<exists>seen. foldR (scan_write demo_sha demo_real ?tg action) (map (\<lambda>(k, b). \<lparr>kw_key = k, kw_delete = False, kw_value = b\<rparr>) ?ws) ([], False, []) =
      Ok (seen, False, ?vs)" for action
    using keys keys [THEN not_sym] by (simp add: scan_write_def vals marker nonempty bytes)
  have stage: "foldR (stage_write []) ?vs [] = Ok ?vs"
    using keys keys [THEN not_sym] by (simp add: stage_write_def staged_get_def clone)
  have links: "validate_state_links key_config (enc_config demo_config) (staged_get [] ?vs)"
      "validate_state_links key_eligibility_epoch (JNum (NInt 0)) (staged_get [] ?vs)" "validate_state_links ?kp (enc_policy demo_policy) (staged_get [] ?vs)"
    using demo_links [of "staged_get [] ?vs"] by (simp_all add: staged_get_def)
  define kvs where "kvs = map (\<lambda>(k, b). \<lparr>kw_key = k, kw_delete = False, kw_value = b\<rparr>) ?ws"
  define pt where "pt = ?pt"
  have pt: "pt_envelope pt = (\<lambda>_. Some [1])" "pt_payload pt = (\<lambda>_. Some \<lparr>py_channel_header = Some [1], py_data = [1]\<rparr>)"
    "pt_channel_header pt = (\<lambda>_. Some \<lparr>ch_type = 3, ch_channel = js ''chan'', ch_tx = js ''tx1'', ch_time = Some (0, 0)\<rparr>)"
    "pt_transaction pt = (\<lambda>_. Some [[1]])" "pt_action_payload pt = (\<lambda>_. Some (Some [1]))" "pt_response pt = (\<lambda>_. Some [1])"
    "pt_action pt = (\<lambda>_. Some \<lparr>ac_chaincode = Some (js ''knowledger'', js ''0.1.0''), ac_results = [1]\<rparr>)"
    "pt_rw_set pt = (\<lambda>_. Some \<lparr>rws_kv = True, rws_spaces = [\<lparr>ns_name = js ''knowledger'', ns_hashed = 0, ns_rwset = [1]\<rparr>]\<rparr>)"
    "pt_kv_rw_set pt = (\<lambda>_. Some \<lparr>kv_metadata = 0, kv_writes = kvs\<rparr>)" "pt_endorser pt = 3" "pt_config pt = 1" "pt_valid pt = 0" "pt_supported pt = [0]"
    by (simp_all add: pt_def kvs_def demo_protos_def)
  have names: "js ''knowledger'' \<noteq> js ''_lifecycle''" "js ''knowledger'' \<noteq> []" "js ''tx1'' \<noteq> []" by (simp_all add: js_def)
  define tx where "tx = demo_transaction digest"
  have tx: "decode_transaction demo_sha demo_real pt ?tg demo_entry 0 0 = Ok tx" "px_writes tx = ?vs" "px_valid tx" "px_type tx = 3" "px_id tx = js ''tx1''"
  proof -
    obtain seen where seen: "foldR (scan_write demo_sha demo_real ?tg \<lparr>ac_chaincode = Some (js ''knowledger'', js ''0.1.0''), ac_results = [1]\<rparr>) kvs ([], False, []) =
        Ok (seen, False, ?vs)"
      using scan unfolding kvs_def by blast
    then have "scan_action demo_sha demo_real pt ?tg [1] ([], False, []) = Ok (seen, False, ?vs)"
      by (simp add: scan_action_def pt decode_message_def chaincode_name_def target scan_space_def names)
    moreover have "channel_timestamp \<lparr>ch_type = 3, ch_channel = js ''chan'', ch_tx = js ''tx1'', ch_time = Some (0, 0)\<rparr> True = Ok (iso_text 0)"
      by (simp add: channel_timestamp_def max_safe_def max_date_def)
    ultimately show "decode_transaction demo_sha demo_real pt ?tg demo_entry 0 0 = Ok tx"
      by (simp add: decode_transaction_def demo_entry_def pt decode_message_def target Let_def names tx_def demo_transaction_def)
  qed (simp_all add: tx_def demo_transaction_def)
  have "stage_transaction [] tx [] = Ok ?vs"
    using tx(2,3) stage links by (simp add: stage_transaction_def)
  moreover have "clone_writes tx = Ok tx" using tx(2) by (simp add: clone_writes_def clone tx_def demo_transaction_def)
  moreover have "check_header demo_sha None demo_header [demo_entry] = Ok ()"
    by (simp add: check_header_def demo_header_def safe_natural_def max_safe_def)
  moreover have "fabric_block_header_hash demo_sha demo_header = Ok (demo_sha (header_tuple demo_header))"
    by (simp add: fabric_block_header_hash_def demo_header_def safe_natural_def max_safe_def)
  moreover have "check_transaction demo_sha demo_real pt ?tg n (demo_entry, 0, 0) ([], []) = Ok ([tx], [js ''tx1''])" for n
    using tx by (simp add: check_transaction_def pt names)
  moreover have "pt_block pt = (\<lambda>_. Some \<lparr>bl_header = Some demo_header, bl_data = Some [demo_entry], bl_metadata = Some [[], [], [0]]\<rparr>)"
    by (simp add: pt_def demo_protos_def)
  ultimately obtain prepared where prep: "prepare_block demo_sha demo_real pt [1] (demo_projector digest) = Ok prepared" "pb_base prepared = None"
      "br_transactions (pb_result prepared) = [tx]"
    by (auto simp: prepare_block_def decode_message_def demo_projector_def)
  have "\<exists>p. commit_block_writes prepared (demo_projector digest) = Ok p"
    using prep(2) by (simp add: commit_block_writes_def demo_projector_def)
  then show ?thesis using prep(1,3) unfolding pt_def tx_def by (auto simp: apply_block_def)
qed

text \<open>
  C38. The projector shows the channel. Whatever blocks a projector has accepted, when they carry the writes of the
  calls of the chaincode in their order, a read of any key gives the value whose bytes the channel stores, and the
  state, the manifest apart, is one that commits of the engine reach.
\<close>

theorem projector_shows_channel:
  assumes "follows sha real cfg pt st p"
  shows "(\<forall>k. projector_read p k = Ok (chain_value real st k)) \<and> reachable sha ((map_of (pj_state p))(bootstrap_manifest_key := None))"
proof -
  have run: "chain_run sha real cfg st" and agree: "agrees real st (map_of (pj_state p))" using follows_agrees [OF assms] by simp_all
  have "projector_read p k = Ok (chain_value real st k)" for k
    using agree chain_value_clone [OF run] by (auto simp: projector_read_def agrees_def split: option.split)
  then show ?thesis using agrees_world [OF agree] chain_run_reachable [OF run] by simp
qed

theorem projector_shows_channel_witness:
  "\<exists>st pt p. follows demo_sha demo_real demo_cc pt st p \<and> get_state st key_config \<noteq> [] \<and>
     projector_read p key_config = Ok (Some (enc_config demo_config))"
proof -
  let ?kp = "key_policy (pol_id demo_policy) (pol_version demo_policy)"
  obtain b1 b2 b3 b4 digest where b: "jcs_bytes (enc_config demo_config) = Ok b1" "jcs_bytes (JNum (NInt 0)) = Ok b2"
      "jcs_bytes (enc_policy demo_policy) = Ok b3" "jcs_bytes (manifest digest demo_result) = Ok b4"
    and digest: "sha256_digest demo_sha (enc_config demo_config) = Ok digest"
    and init: "cc_init demo_sha demo_real demo_cc demo_stub [] = (Success (text_bytes (obj [(''status'', JStr (js ''bootstrapped'')), (''result'', demo_result)])),
      flush [(key_config, b1), (key_eligibility_epoch, b2), (?kp, b3), (bootstrap_manifest_key, b4)] [])"
    using demo_init by metis
  let ?ws = "[(key_config, b1), (key_eligibility_epoch, b2), (?kp, b3), (bootstrap_manifest_key, b4)]"
  let ?pt = "demo_protos ?ws"
  have keys: "distinct (map fst ?ws)"
    using engine_key_not_manifest by (simp add: key_defs engine_key_def)
  have bytes: "b1 \<noteq> []" "b2 \<noteq> []" "b3 \<noteq> []" "b4 \<noteq> []"
    using jcs_bytes_nonempty [OF b(1)] jcs_bytes_nonempty [OF b(2)] jcs_bytes_nonempty [OF b(3)] jcs_bytes_nonempty [OF b(4)]
      demo_result_parts(1) [of digest] by (simp_all add: settled_def)
  have st: "flush ?ws [] = ?ws" using fold_upsert_fresh [of "[]" ?ws] keys by (simp add: flush_def)
  have "write_set [] ?ws ?ws" using keys bytes by (auto simp: write_set_def get_state_def)
  then have calls: "channel_calls demo_sha demo_real demo_cc [] [?ws] ?ws"
    using some_call [OF _ _ no_call, of "fst (cc_init demo_sha demo_real demo_cc demo_stub [])" ?ws demo_sha demo_real demo_cc demo_stub "[]" ?ws]
    by (simp add: init st)
  have marker: "k \<in> fst ` set ?ws \<Longrightarrow> k \<noteq> fabric_initialized_key" for k
    using state_key_no_zero by (auto simp: fabric_initialized_key_def key_defs bootstrap_manifest_key_def js_def cu_def) (metis list.set_intros(1))+
  have writes: "block_writes ?pt (pj_target (demo_projector digest)) [1] = [?ws]"
    using marker
    by (simp add: block_writes_def demo_protos_def is_endorser_def payload_of_def transaction_writes_def action_writes_def action_of_def
        space_writes_def demo_projector_def demo_target_def js_def) (simp add: key_bytes_def js_def)
  obtain result p where "apply_block demo_sha demo_real ?pt [1] (demo_projector digest) = Ok (result, p)"
    using demo_block [OF b digest] by blast
  from applies [OF begins [OF demo_new_projector [OF digest]] _ this] have f: "follows demo_sha demo_real demo_cc ?pt ?ws p"
    using calls unfolding writes by blast
  have "chain_value demo_real ?ws key_config = Some (enc_config demo_config)"
    using bytes fits_parses [OF b(1) _ demo_fits(1), of demo_real] by (simp add: chain_value_def get_state_def del: fits.simps)
  then have "projector_read p key_config = Ok (Some (enc_config demo_config))" using projector_shows_channel [OF f] by simp
  moreover have "get_state ?ws key_config \<noteq> []" using bytes by (simp add: get_state_def)
  ultimately show ?thesis using f by blast
qed

end
