(* ===== verification/BrowseSafety.thy ===== *)
theory BrowseSafety
  imports BrowseIndex SearchCache Demo
begin

text \<open>
  What the browse index answers: after any interleaving of preparations, commits and queries, the tables hold for
  every key of a committed write the reference with the earliest checkpoint, and a query gives a page of these in
  the order of the index, whether or not the cache knew the selection.
\<close>

section \<open>Sorted lists of references\<close>

definition listed :: "('x browse_ref_scheme \<Rightarrow> 'k :: linorder) \<Rightarrow> 'x browse_ref_scheme list \<Rightarrow> 'x browse_ref_scheme set \<Rightarrow> bool" where
  "listed rank rs R \<longleftrightarrow> sorted (map rank rs) \<and> distinct (map bf_key rs) \<and> set rs = R"

lemma listed_Nil [simp]: "listed rank [] R \<longleftrightarrow> R = {}"
  by (auto simp: listed_def)

lemma listed_filter: "listed rank rs R \<Longrightarrow> listed rank (filter P rs) {r \<in> R. P r}"
  by (auto simp: listed_def sorted_filter distinct_map_filter)

lemma listed_sort: "distinct (map bf_key rs) \<Longrightarrow> listed rank (sort_key rank rs) (set rs)"
  by (auto simp: listed_def distinct_map)

lemma sorted_join: "sorted (map rank xs) \<Longrightarrow> sorted (map rank ys) \<Longrightarrow> xs \<noteq> [] \<Longrightarrow> ys \<noteq> [] \<Longrightarrow> rank (last xs) < rank (hd ys) \<Longrightarrow>
    sorted (map rank (xs @ ys))"
proof -
  assume s: "sorted (map rank xs)" "sorted (map rank ys)" and ne: "xs \<noteq> []" "ys \<noteq> []" and l: "rank (last xs) < rank (hd ys)"
  have "rank x \<le> rank (last xs)" if "x \<in> set xs" for x
    using s(1) that ne(1) by (induction xs) (auto split: if_splits)
  moreover have "rank (hd ys) \<le> rank y" if "y \<in> set ys" for y
    using s(2) that ne(2) by (cases ys) auto
  ultimately show ?thesis using s l by (fastforce simp: sorted_append)
qed

lemma listed_prepend:
  assumes "listed rank xs R" and "listed rank ys S" and "bf_key ` R \<inter> bf_key ` S = {}"
  shows "listed rank (prepend_latest rank xs ys) (R \<union> S)"
proof -
  have d: "distinct (map bf_key (xs @ ys))" "set (xs @ ys) = R \<union> S" using assms by (auto simp: listed_def)
  have s: "sorted (map rank xs)" "sorted (map rank ys)" using assms by (simp_all add: listed_def)
  have "listed rank (sort_key rank (xs @ ys)) (R \<union> S)" using listed_sort [OF d(1), of rank] by (simp only: d(2))
  moreover have "listed rank (xs @ ys) (R \<union> S)" if "xs \<noteq> []" "ys \<noteq> []" "rank (last xs) < rank (hd ys)"
    using sorted_join [OF s that] d by (simp add: listed_def)
  moreover have "xs = [] \<Longrightarrow> listed rank ys (R \<union> S)" "ys = [] \<Longrightarrow> listed rank xs (R \<union> S)" using assms by (auto simp: listed_def)
  ultimately show ?thesis by (cases "ys = []") (auto simp: prepend_latest_def)
qed

lemma prepend_keeps:
  assumes "sorted (map rank ys)" and "\<forall>x \<in> set xs. \<not> P x"
  shows "filter P (prepend_latest rank xs ys) = filter P ys"
proof -
  have "filter P (sort_key rank (xs @ ys)) = sort_key rank (filter P (xs @ ys))" by (rule filter_sort)
  also have "\<dots> = filter P ys" using assms by (simp add: sorted_filter sort_key_id_if_sorted)
  finally show ?thesis using assms by (auto simp: prepend_latest_def)
qed

section \<open>Tables\<close>

text \<open>The table shows the set of references, whose keys are distinct.\<close>

definition presents :: "('x browse_ref_scheme \<Rightarrow> 'k :: linorder) \<Rightarrow> ('x browse_ref_scheme \<Rightarrow> jstr) list \<Rightarrow> 'x browse_ref_scheme ref_table \<Rightarrow>
    'x browse_ref_scheme set \<Rightarrow> bool" where
  "presents rank groups t R \<longleftrightarrow> (\<forall>k r. rt_by_key t k = Some r \<longleftrightarrow> r \<in> R \<and> bf_key r = k) \<and>
     (\<forall>rs. rt_all t = Some rs \<longrightarrow> listed rank rs R) \<and>
     list_all2 (\<lambda>group m. \<forall>b. listed rank (in_bucket m b) {r \<in> R. group r = b}) groups (rt_buckets t)"

lemma presents_inj: "presents rank groups t R \<Longrightarrow> inj_on bf_key R"
proof (rule inj_onI)
  fix x y assume t: "presents rank groups t R" "x \<in> R" "y \<in> R" "bf_key x = bf_key y"
  then have "rt_by_key t (bf_key x) = Some x" "rt_by_key t (bf_key x) = Some y" by (auto simp: presents_def)
  then show "x = y" by simp
qed

lemma presents_by_key: "presents rank groups t R \<Longrightarrow> \<forall>k r. rt_by_key t k = Some r \<longleftrightarrow> r \<in> R \<and> bf_key r = k"
  unfolding presents_def by blast

lemma in_bucket_if: "in_bucket (\<lambda>b. if c b then Some (f b) else m b) b = (if c b then f b else in_bucket m b)"
  by (simp add: in_bucket_def)

lemma list_all2_map2: "list_all2 P xs ys \<Longrightarrow> (\<And>x y. x \<in> set xs \<Longrightarrow> P x y \<Longrightarrow> Q x (f x y)) \<Longrightarrow> list_all2 Q xs (map2 f xs ys)"
  by (induction rule: list_all2_induct) auto

lemma presents_without:
  assumes "presents rank groups t R" and "\<forall>d \<in> set demoted. \<exists>r \<in> R. bf_key r = bf_key d \<and> (\<forall>group \<in> set groups. group r = group d)"
  shows "presents rank groups (without_demoted groups demoted t) {r \<in> R. bf_key r \<notin> bf_key ` set demoted}"
proof (cases "demoted = []")
  case False
  let ?gone = "bf_key ` set demoted"
  let ?R = "{r \<in> R. bf_key r \<notin> ?gone}"
  have bucket: "listed rank (if b \<in> group ` set demoted then filter (\<lambda>r. bf_key r \<notin> ?gone) (in_bucket m b) else in_bucket m b) {r \<in> ?R. group r = b}"
    if g: "group \<in> set groups" and l: "\<forall>b. listed rank (in_bucket m b) {r \<in> R. group r = b}" for group m b
  proof (cases "b \<in> group ` set demoted")
    case True
    have "{r \<in> {r \<in> R. group r = b}. bf_key r \<notin> ?gone} = {r \<in> ?R. group r = b}" by auto
    then show ?thesis using True listed_filter [of rank "in_bucket m b" "{r \<in> R. group r = b}" "\<lambda>r. bf_key r \<notin> ?gone"] l by simp
  next
    case False
    have "bf_key r \<notin> ?gone" if r: "r \<in> R" "group r = b" for r
    proof
      assume "bf_key r \<in> ?gone"
      then obtain d where d: "d \<in> set demoted" "bf_key d = bf_key r" by auto
      then obtain r' where "r' \<in> R" "bf_key r' = bf_key r" "group r' = group d" using assms(2) g by metis
      then show False using presents_inj [OF assms(1)] r d(1) False by (metis image_eqI inj_onD)
    qed
    then have "{r \<in> ?R. group r = b} = {r \<in> R. group r = b}" by auto
    then show ?thesis using False l by simp
  qed
  have "list_all2 (\<lambda>group m. \<forall>b. listed rank (in_bucket m b) {r \<in> ?R. group r = b}) groups
      (map2 (\<lambda>group m b. if b \<in> group ` set demoted then Some (filter (\<lambda>r. bf_key r \<notin> ?gone) (in_bucket m b)) else m b) groups (rt_buckets t))"
  proof (rule list_all2_map2)
    show "list_all2 (\<lambda>group m. \<forall>b. listed rank (in_bucket m b) {r \<in> R. group r = b}) groups (rt_buckets t)"
      using assms(1) by (simp add: presents_def)
  next
    fix group m assume "group \<in> set groups" "\<forall>b. listed rank (in_bucket m b) {r \<in> R. group r = b}"
    then show "\<forall>b. listed rank (in_bucket (\<lambda>b. if b \<in> group ` set demoted then Some (filter (\<lambda>r. bf_key r \<notin> ?gone) (in_bucket m b)) else m b) b)
        {r \<in> ?R. group r = b}"
      unfolding in_bucket_if using bucket by blast
  qed
  moreover have "\<forall>k r. (if k \<in> ?gone then None else rt_by_key t k) = Some r \<longleftrightarrow> r \<in> ?R \<and> bf_key r = k"
    using assms(1) by (auto simp: presents_def)
  moreover have "\<forall>rs. map_option (filter (\<lambda>r. bf_key r \<notin> ?gone)) (rt_all t) = Some rs \<longrightarrow> listed rank rs ?R"
    using assms(1) by (auto simp: presents_def listed_filter)
  ultimately show ?thesis using False by (simp add: presents_def without_demoted_def Let_def)
qed (use assms in \<open>simp add: without_demoted_def\<close>)

lemma ref_of_None: "ref_of k rs = None \<longleftrightarrow> k \<notin> bf_key ` set rs"
  by (auto simp: ref_of_def find_None_iff)

lemma fold_updates: "distinct (map bf_key rs) \<Longrightarrow>
   fold (\<lambda>r m. m(bf_key r \<mapsto> r)) rs m k = (case ref_of k rs of None \<Rightarrow> m k | Some r \<Rightarrow> Some r)"
proof (induction rs arbitrary: m)
  case (Cons r rs)
  have "bf_key r = k \<Longrightarrow> ref_of k rs = None" using Cons.prems by (auto simp: ref_of_None)
  then show ?case using Cons by (auto simp: ref_of_def split: option.splits)
qed (simp add: ref_of_def)

lemma ref_of_Some: "ref_of k rs = Some r \<Longrightarrow> r \<in> set rs \<and> bf_key r = k"
  unfolding ref_of_def by (rule find_member)

lemma ref_of_iff: "distinct (map bf_key rs) \<Longrightarrow> ref_of k rs = Some r \<longleftrightarrow> r \<in> set rs \<and> bf_key r = k"
proof
  assume d: "distinct (map bf_key rs)" and r: "r \<in> set rs \<and> bf_key r = k"
  then obtain r' where r': "ref_of k rs = Some r'" using ref_of_None [of k rs] by (cases "ref_of k rs") auto
  then show "ref_of k rs = Some r" using ref_of_Some [OF r'] r d by (auto simp: distinct_map dest: inj_onD)
qed (rule ref_of_Some)

lemma listed_with:
  assumes rs: "distinct (map bf_key rs)" "bf_key ` set rs \<inter> bf_key ` R = {}"
    and l: "\<forall>b. listed rank (in_bucket m b) {r \<in> R. grp r = b}"
  shows "listed rank (if b \<in> grp ` set rs then prepend_latest rank (sort_key rank (filter (\<lambda>r. grp r = b) rs)) (in_bucket m b) else in_bucket m b)
      {r \<in> R \<union> set rs. grp r = b}"
proof (cases "b \<in> grp ` set rs")
  case True
  have "distinct (map bf_key (filter (\<lambda>r. grp r = b) rs))" using rs(1) by (simp add: distinct_map_filter)
  from listed_sort [OF this, of rank] have "listed rank (sort_key rank (filter (\<lambda>r. grp r = b) rs)) {r \<in> set rs. grp r = b}"
    by simp
  moreover have "bf_key ` {r \<in> set rs. grp r = b} \<inter> bf_key ` {r \<in> R. grp r = b} = {}" using rs(2) by fastforce
  moreover have "{r \<in> set rs. grp r = b} \<union> {r \<in> R. grp r = b} = {r \<in> R \<union> set rs. grp r = b}" by auto
  ultimately have "listed rank (prepend_latest rank (sort_key rank (filter (\<lambda>r. grp r = b) rs)) (in_bucket m b)) {r \<in> R \<union> set rs. grp r = b}"
    using listed_prepend [of rank _ "{r \<in> set rs. grp r = b}" "in_bucket m b" "{r \<in> R. grp r = b}"] l by simp
  then show ?thesis using True by simp
next
  case False
  then have "{r \<in> R \<union> set rs. grp r = b} = {r \<in> R. grp r = b}" by auto
  then show ?thesis using False l by simp
qed

lemma by_key_with:
  assumes rs: "distinct (map bf_key rs)" "bf_key ` set rs \<inter> bf_key ` R = {}"
    and by_key: "\<forall>k r. by_key k = Some r \<longleftrightarrow> r \<in> R \<and> bf_key r = k"
  shows "fold (\<lambda>r m. m(bf_key r \<mapsto> r)) rs by_key k = Some r \<longleftrightarrow> r \<in> R \<union> set rs \<and> bf_key r = k"
proof (cases "ref_of k rs")
  case None
  then show ?thesis using by_key fold_updates [OF rs(1)] ref_of_None [of k rs] by auto
next
  case (Some r')
  have "r \<in> R \<Longrightarrow> bf_key r \<noteq> k" using ref_of_Some [OF Some] rs(2) by auto
  then show ?thesis using Some ref_of_iff [OF rs(1), of k r] fold_updates [OF rs(1)] by auto
qed

lemma presents_with:
  assumes "presents rank groups t R" and "distinct (map bf_key arrived)" and "bf_key ` set arrived \<inter> bf_key ` R = {}"
  shows "presents rank groups (with_incoming rank groups arrived t) (R \<union> set arrived)"
proof (cases "sort_key rank arrived = []")
  case True
  then have "arrived = []" by (metis length_0_conv length_sort)
  then show ?thesis using assms(1) by (simp add: with_incoming_def)
next
  case False
  define rs where "rs = sort_key rank arrived"
  have rs: "distinct (map bf_key rs)" "set rs = set arrived" "bf_key ` set rs \<inter> bf_key ` R = {}"
    using assms(2,3) by (auto simp: rs_def distinct_map)
  have sorted: "listed rank rs (set rs)" using listed_sort [OF assms(2), of rank] by (simp add: rs_def)
  have t: "\<forall>k r. rt_by_key t k = Some r \<longleftrightarrow> r \<in> R \<and> bf_key r = k" "\<forall>l. rt_all t = Some l \<longrightarrow> listed rank l R"
      "list_all2 (\<lambda>group m. \<forall>b. listed rank (in_bucket m b) {r \<in> R. group r = b}) groups (rt_buckets t)"
    using assms(1) unfolding presents_def by blast+
  have "list_all2 (\<lambda>group m. \<forall>b. listed rank (in_bucket m b) {r \<in> R \<union> set rs. group r = b}) groups
      (map2 (\<lambda>group m b. if b \<in> group ` set rs then Some (prepend_latest rank (sort_key rank (filter (\<lambda>r. group r = b) rs)) (in_bucket m b)) else m b)
        groups (rt_buckets t))"
    by (rule list_all2_map2 [OF t(3)], unfold in_bucket_if, rule allI, rule listed_with [OF rs(1,3)])
  moreover have "\<forall>l. map_option (prepend_latest rank rs) (rt_all t) = Some l \<longrightarrow> listed rank l (R \<union> set rs)"
    using t(2) listed_prepend [OF sorted _ rs(3)] by (auto simp: Un_commute)
  ultimately have "presents rank groups (with_incoming rank groups arrived t) (R \<union> set rs)"
    using False by_key_with [OF rs(1,3) t(1)] by (simp add: presents_def with_incoming_def Let_def flip: rs_def)
  then show ?thesis by (simp only: rs(2))
qed

lemma presents_merge:
  assumes t: "presents rank groups t R" and distinct: "distinct (map bf_key (fresh @ demoted))"
    and fresh: "bf_key ` set fresh \<inter> bf_key ` R = {}"
    and demoted: "\<forall>d \<in> set demoted. \<exists>r \<in> R. bf_key r = bf_key d \<and> (\<forall>group \<in> set groups. group r = group d)"
  shows "presents rank groups (merge_delta rank groups fresh demoted t) ({r \<in> R. bf_key r \<notin> bf_key ` set demoted} \<union> set fresh \<union> set demoted)"
proof -
  let ?kept = "{r \<in> R. bf_key r \<notin> bf_key ` set demoted}"
  have "k \<notin> bf_key ` ?kept" if "k \<in> bf_key ` set (fresh @ demoted)" for k
    using that fresh by (auto simp: image_iff) metis
  then have "bf_key ` set (fresh @ demoted) \<inter> bf_key ` ?kept = {}" by blast
  from presents_with [OF presents_without [OF t demoted] distinct this]
  show ?thesis unfolding merge_delta_def set_append Un_assoc .
qed

section \<open>Kinds of references\<close>

text \<open>What the comparison of the immutable fields promises: matching references differ in their checkpoint at most.\<close>

abbreviation good_ref :: "'x browse_ref_scheme \<Rightarrow> bool" where
  "good_ref r \<equiv> wf_slot (bf_slot r)"

text \<open>\<open>R\<close> has a reference for the key of \<open>r\<close>, published no later.\<close>

definition no_later :: "'x browse_ref_scheme set \<Rightarrow> 'x browse_ref_scheme \<Rightarrow> bool" where
  "no_later R r \<longleftrightarrow> (\<exists>e \<in> R. bf_key e = bf_key r \<and> place (bf_at e) \<le> place (bf_at r))"

lemma no_later_self: "r \<in> R \<Longrightarrow> no_later R r"
  by (auto simp: no_later_def)

lemma no_later_trans: "no_later R r \<Longrightarrow> \<forall>e \<in> R. no_later S e \<Longrightarrow> no_later S r"
  unfolding no_later_def by (metis order_trans)

lemma no_later_mono: "no_later R r \<Longrightarrow> R \<subseteq> S \<Longrightarrow> no_later S r"
  by (auto simp: no_later_def)

text \<open>The references of all writes, the earliest for each key.\<close>

definition earliest :: "'x browse_ref_scheme set \<Rightarrow> 'x browse_ref_scheme set \<Rightarrow> bool" where
  "earliest W R \<longleftrightarrow> R \<subseteq> W \<and> inj_on bf_key R \<and> (\<forall>r \<in> W. no_later R r)"

text \<open>A delta stands for the references \<open>S\<close> of a preparation, beside a set \<open>R\<close> of known references.\<close>

definition stands_for :: "'x browse_ref_scheme set \<Rightarrow> 'x browse_ref_scheme set \<Rightarrow> 'x browse_ref_scheme delta \<Rightarrow> bool" where
  "stands_for R S d \<longleftrightarrow> set (dl_added d) \<union> set (dl_demote d) \<subseteq> S \<and> distinct (map bf_key (dl_added d @ dl_demote d)) \<and>
     bf_key ` set (dl_demote d) \<subseteq> bf_key ` R \<and> (\<forall>r \<in> S. no_later (set (dl_added d) \<union> set (dl_demote d) \<union> R) r)"

lemma stands_for_later: "stands_for R S d \<Longrightarrow> \<forall>r \<in> R. no_later R' r \<Longrightarrow> stands_for R' S d"
proof -
  assume d: "stands_for R S d" and later: "\<forall>r \<in> R. no_later R' r"
  have "bf_key ` R \<subseteq> bf_key ` R'" using later unfolding no_later_def by (metis image_eqI image_subsetI)
  moreover have "no_later (set (dl_added d) \<union> set (dl_demote d) \<union> R') r" if r: "r \<in> S" for r
  proof (rule no_later_trans)
    show "no_later (set (dl_added d) \<union> set (dl_demote d) \<union> R) r" using d r by (simp add: stands_for_def)
    show "\<forall>e \<in> set (dl_added d) \<union> set (dl_demote d) \<union> R. no_later (set (dl_added d) \<union> set (dl_demote d) \<union> R') e"
      using later no_later_mono [of R'] by (auto intro: no_later_self)
  qed
  ultimately show ?thesis using d unfolding stands_for_def by blast
qed

lemma replace_image: "e \<in> A \<Longrightarrow> (\<lambda>x. if x = e then r else x) ` A = insert r (A - {e})"
  by auto

lemma replace_key:
  assumes "distinct (map key xs)" and "e \<in> set xs" and "key e = key r" and "f e = r"
  shows "map key (map (\<lambda>x. if key x = key r then f x else x) xs) = map key xs \<and>
    set (map (\<lambda>x. if key x = key r then f x else x) xs) = insert r (set xs - {e})"
proof -
  have h: "(if key x = key r then f x else x) = (if x = e then r else x)" if "x \<in> set xs" for x
    using assms that unfolding distinct_map by (metis inj_onD)
  then have "(\<lambda>x. if key x = key r then f x else x) ` set xs = (\<lambda>x. if x = e then r else x) ` set xs"
    by (rule image_cong [OF refl])
  moreover have "map (\<lambda>x. key (if key x = key r then f x else x)) xs = map key xs" using h assms(3) by simp
  ultimately show ?thesis using replace_image [OF assms(2), of r] by (simp add: comp_def)
qed

lemma advance_keeps:
  assumes "distinct (map bf_key ds)" and e: "e \<in> set ds" "bf_key e = bf_key r" "place (bf_at r) \<le> place (bf_at e)" and "f e = r"
    and ds': "ds' = map (\<lambda>e. if bf_key e = bf_key r then f e else e) ds"
  shows "map bf_key ds' = map bf_key ds \<and> set ds' = insert r (set ds - {e}) \<and> (\<forall>x \<in> set ds. no_later (set ds') x)"
proof -
  note keep = replace_key [where f = f and key = bf_key, OF assms(1) e(1,2) assms(5), folded ds']
  have "no_later (set ds') x" if "x \<in> set ds" for x
  proof (cases "x = e")
    case True
    then show ?thesis unfolding no_later_def using e(2,3) keep by (metis insertI1)
  next
    case False
    then show ?thesis using that keep by (intro no_later_self) simp
  qed
  then show ?thesis using keep by blast
qed

lemmas advanced = advance_keeps [THEN conjunct1] advance_keeps [THEN conjunct2, THEN conjunct1]
  advance_keeps [THEN conjunct2, THEN conjunct2]

lemma note_demote_keeps:
  assumes "distinct (map bf_key ds)"
  shows "distinct (map bf_key (note_demote r ds)) \<and> set (note_demote r ds) \<subseteq> insert r (set ds) \<and>
    bf_key ` set (note_demote r ds) = insert (bf_key r) (bf_key ` set ds) \<and> (\<forall>x \<in> insert r (set ds). no_later (set (note_demote r ds)) x)"
proof (cases "ref_of (bf_key r) ds")
  case None
  then have "note_demote r ds = ds @ [r]" "bf_key r \<notin> bf_key ` set ds"
    by (simp add: note_demote_def) (use None in \<open>simp add: ref_of_None\<close>)
  then show ?thesis using assms by (auto intro: no_later_self)
next
  case (Some e)
  have e: "e \<in> set ds" "bf_key e = bf_key r" using ref_of_Some [OF Some] by auto
  show ?thesis
  proof (cases "place (bf_at r) < place (bf_at e)")
    case False
    then have "note_demote r ds = ds" "no_later (set ds) r" using e Some by (auto simp: note_demote_def earlier_than_def no_later_def)
    moreover have "bf_key r \<in> bf_key ` set ds" using e by (metis image_eqI)
    ultimately show ?thesis using assms by (auto intro: no_later_self)
  next
    case True
    then have "note_demote r ds = map (\<lambda>e. if bf_key e = bf_key r then r else e) ds"
      using Some by (simp add: note_demote_def earlier_than_def)
    have D: "map bf_key (note_demote r ds) = map bf_key ds" "set (note_demote r ds) = insert r (set ds - {e})"
        "\<forall>x \<in> set ds. no_later (set (note_demote r ds)) x"
      unfolding \<open>note_demote r ds = _\<close> by (rule advanced [OF assms e less_imp_le [OF True] refl refl])+
    then have "bf_key ` set (note_demote r ds) = bf_key ` set ds" by (metis list.set_map)
    then show ?thesis using assms D e by (auto intro: no_later_self)
  qed
qed

lemmas noted = note_demote_keeps [THEN conjunct1] note_demote_keeps [THEN conjunct2, THEN conjunct1]
  note_demote_keeps [THEN conjunct2, THEN conjunct2, THEN conjunct1] note_demote_keeps [THEN conjunct2, THEN conjunct2, THEN conjunct2]

lemma no_later_UnI: "no_later A r \<Longrightarrow> no_later (A \<union> B) r" "no_later B r \<Longrightarrow> no_later (A \<union> B) r"
  unfolding no_later_def by blast+

lemma stands_for_step:
  assumes d: "stands_for R S d"
    and "set A \<union> set D \<subseteq> insert r S" and "distinct (map bf_key (A @ D))" and "bf_key ` set D \<subseteq> bf_key ` R"
    and old: "\<forall>y \<in> set (dl_added d) \<union> set (dl_demote d). no_later (set A \<union> set D \<union> R) y"
    and new: "no_later (set A \<union> set D \<union> R) r"
  shows "stands_for R (insert r S) (d\<lparr>dl_added := A, dl_demote := D\<rparr>)"
proof -
  have "\<forall>y \<in> set (dl_added d) \<union> set (dl_demote d) \<union> R. no_later (set A \<union> set D \<union> R) y"
    using old no_later_self by blast
  moreover have "\<forall>x \<in> S. no_later (set (dl_added d) \<union> set (dl_demote d) \<union> R) x" using d unfolding stands_for_def by blast
  ultimately have "\<forall>x \<in> S. no_later (set A \<union> set D \<union> R) x" using no_later_trans by blast
  then show ?thesis using assms(2,3,4) new by (simp add: stands_for_def)
qed

lemma stands_forD:
  assumes "stands_for R S d"
  shows "set (dl_added d) \<subseteq> S" "set (dl_demote d) \<subseteq> S" "distinct (map bf_key (dl_added d))" "distinct (map bf_key (dl_demote d))"
    "bf_key ` set (dl_added d) \<inter> bf_key ` set (dl_demote d) = {}" "bf_key ` set (dl_demote d) \<subseteq> bf_key ` R"
  using assms by (simp_all add: stands_for_def)

lemma no_later_known: "r' \<in> R \<Longrightarrow> bf_key r' = bf_key r \<Longrightarrow> place (bf_at r') \<le> place (bf_at r) \<Longrightarrow> no_later R r"
  unfolding no_later_def by blast

lemma stands_for_skip:
  assumes "stands_for R S d" and "no_later (set (dl_added d) \<union> set (dl_demote d) \<union> R) r"
  shows "stands_for R (insert r S) d"
  using assms unfolding stands_for_def by blast

lemma stands_for_add:
  assumes d: "stands_for R S d" and "bf_key r \<notin> bf_key ` set (dl_added d)" and "bf_key r \<notin> bf_key ` R"
  shows "stands_for R (insert r S) (d\<lparr>dl_added := dl_added d @ [r]\<rparr>)"
proof -
  have "bf_key r \<notin> bf_key ` set (dl_demote d)" using stands_forD(6) [OF d] assms(3) by blast
  then have "distinct (map bf_key ((dl_added d @ [r]) @ dl_demote d))" using stands_forD [OF d] assms(2) by simp
  then show ?thesis
    using stands_for_step [OF d, of "dl_added d @ [r]" "dl_demote d" r] stands_forD(1,2,6) [OF d] by (simp add: no_later_self subset_insertI2)
qed

lemma stands_for_advance:
  assumes d: "stands_for R S d" and e: "e \<in> set (dl_added d)" "bf_key e = bf_key r" "place (bf_at r) \<le> place (bf_at e)" "f e = r"
    and A: "A = map (\<lambda>e. if bf_key e = bf_key r then f e else e) (dl_added d)"
  shows "stands_for R (insert r S) (d\<lparr>dl_added := A\<rparr>) \<and> bf_key ` set A = bf_key ` set (dl_added d)"
proof -
  have keep: "map bf_key A = map bf_key (dl_added d)" "set A = insert r (set (dl_added d) - {e})" "\<forall>x \<in> set (dl_added d). no_later (set A) x"
    by (rule advanced [OF stands_forD(3) [OF d] e A])+
  have keys: "bf_key ` set A = bf_key ` set (dl_added d)" using keep(1) by (metis list.set_map)
  have "distinct (map bf_key (A @ dl_demote d))" using stands_forD [OF d] keep(1) keys by simp
  moreover have "set A \<union> set (dl_demote d) \<subseteq> insert r S" unfolding keep(2) using stands_forD(1,2) [OF d] by blast
  moreover have "no_later (set A \<union> set (dl_demote d) \<union> R) y" if y: "y \<in> set (dl_added d) \<union> set (dl_demote d)" for y
  proof (cases "y \<in> set (dl_added d)")
    case True
    from bspec [OF keep(3) this] show ?thesis by (rule no_later_mono) blast
  qed (rule no_later_self, use y in simp)
  moreover have "no_later (set A \<union> set (dl_demote d) \<union> R) r" by (rule no_later_self) (simp add: keep(2))
  ultimately show ?thesis using stands_for_step [OF d, of A "dl_demote d" r] stands_forD(6) [OF d] keys by simp
qed

lemma stands_for_demote:
  assumes d: "stands_for R S d" and "bf_key r \<notin> bf_key ` set (dl_added d)" and "bf_key r \<in> bf_key ` R"
  shows "stands_for R (insert r S) (d\<lparr>dl_demote := note_demote r (dl_demote d)\<rparr>)"
proof -
  let ?D = "note_demote r (dl_demote d)"
  have D: "distinct (map bf_key ?D)" "set ?D \<subseteq> insert r (set (dl_demote d))" "bf_key ` set ?D = insert (bf_key r) (bf_key ` set (dl_demote d))"
      "\<forall>x \<in> insert r (set (dl_demote d)). no_later (set ?D) x"
    by (rule noted [OF stands_forD(4) [OF d]])+
  have "distinct (map bf_key (dl_added d @ ?D))" using stands_forD [OF d] D(1,3) assms(2) by simp
  moreover have "set (dl_added d) \<union> set ?D \<subseteq> insert r S" using D(2) stands_forD(1,2) [OF d] by blast
  moreover have "bf_key ` set ?D \<subseteq> bf_key ` R" using D(3) assms(3) stands_forD(6) [OF d] by simp
  moreover have old: "no_later (set (dl_added d) \<union> set ?D \<union> R) y" if y: "y \<in> insert r (set (dl_added d) \<union> set (dl_demote d))" for y
  proof (cases "y \<in> insert r (set (dl_demote d))")
    case True
    from bspec [OF D(4) this] show ?thesis by (rule no_later_mono) blast
  qed (rule no_later_self, use y in simp)
  ultimately show ?thesis using stands_for_step [OF d, of "dl_added d" ?D r] by simp
qed

lemma recheck_added_step:
  "by_key (bf_key r) = None \<Longrightarrow> recheck_added matches message by_key r (fresh, demoted) = Ok (fresh @ [r], demoted)"
  "by_key (bf_key r) = Some e \<Longrightarrow> recheck_added matches message by_key r (fresh, demoted) =
     (if matches e r then Ok (fresh, if earlier_than r (Some e) then demoted @ [r] else demoted) else browse_fail message)"
  "by_key (bf_key r) = None \<Longrightarrow> collect_demoted matches message by_key r demoted = Ok demoted"
  "by_key (bf_key r) = Some e \<Longrightarrow> collect_demoted matches message by_key r demoted =
     (if matches e r then Ok (if earlier_than r (Some e) then demoted @ [r] else demoted) else browse_fail message)"
  by (simp_all add: recheck_added_def collect_demoted_def)

lemma recheck_Ok:
  assumes "foldR (recheck_added matches message by_key) rs (fresh, demoted) = Ok (fresh', demoted')"
  shows "fresh' = fresh @ filter (\<lambda>r. by_key (bf_key r) = None) rs \<and> demoted' = demoted @ filter (\<lambda>r. earlier_than r (by_key (bf_key r))) rs \<and>
    (\<forall>r \<in> set rs. \<forall>e. by_key (bf_key r) = Some e \<longrightarrow> matches e r)"
  using assms
proof (induction rs arbitrary: fresh demoted)
  case (Cons r rs)
  show ?case
  proof (cases "by_key (bf_key r)")
    case None
    then have "foldR (recheck_added matches message by_key) rs (fresh @ [r], demoted) = Ok (fresh', demoted')"
      using Cons.prems by (simp add: recheck_added_step)
    from Cons.IH [OF this] show ?thesis using None by (simp add: earlier_than_def)
  next
    case (Some e)
    then have m: "matches e r" using Cons.prems by (auto simp: recheck_added_step split: if_splits)
    then have "foldR (recheck_added matches message by_key) rs (fresh, if earlier_than r (Some e) then demoted @ [r] else demoted) = Ok (fresh', demoted')"
      using Cons.prems Some by (simp add: recheck_added_step)
    from Cons.IH [OF this] show ?thesis using Some m by simp
  qed
qed simp

lemma collect_Ok:
  assumes "foldR (collect_demoted matches message by_key) rs demoted = Ok demoted'"
  shows "demoted' = demoted @ filter (\<lambda>r. earlier_than r (by_key (bf_key r))) rs \<and>
    (\<forall>r \<in> set rs. \<forall>e. by_key (bf_key r) = Some e \<longrightarrow> matches e r)"
  using assms
proof (induction rs arbitrary: demoted)
  case (Cons r rs)
  show ?case
  proof (cases "by_key (bf_key r)")
    case None
    then show ?thesis using Cons by (simp add: recheck_added_step earlier_than_def)
  next
    case (Some e)
    then have m: "matches e r" using Cons.prems by (auto simp: recheck_added_step split: if_splits)
    then have "foldR (collect_demoted matches message by_key) rs (if earlier_than r (Some e) then demoted @ [r] else demoted) = Ok demoted'"
      using Cons.prems Some by (simp add: recheck_added_step)
    from Cons.IH [OF this] show ?thesis using Some m by simp
  qed
qed simp

text \<open>What a commit leaves of \<open>R\<close>: the demoted references replace the ones of their keys.\<close>

definition committed_refs :: "'x browse_ref_scheme set \<Rightarrow> 'x browse_ref_scheme list \<Rightarrow> 'x browse_ref_scheme list \<Rightarrow> 'x browse_ref_scheme set" where
  "committed_refs R fresh demoted = {r \<in> R. bf_key r \<notin> bf_key ` set demoted} \<union> set fresh \<union> set demoted"

definition displaces :: "'x browse_ref_scheme set \<Rightarrow> 'x browse_ref_scheme list \<Rightarrow> bool" where
  "displaces R demoted \<longleftrightarrow> (\<forall>d \<in> set demoted. \<exists>e \<in> R. bf_key e = bf_key d \<and> place (bf_at d) < place (bf_at e))"

lemma committed_no_later:
  assumes "displaces R demoted" and "inj_on bf_key R" and r: "r \<in> R"
  shows "no_later (committed_refs R fresh demoted) r"
proof (cases "bf_key r \<in> bf_key ` set demoted")
  case False
  then show ?thesis using r by (intro no_later_self) (simp add: committed_refs_def)
next
  case True
  then obtain d where d: "d \<in> set demoted" "bf_key r = bf_key d" by blast
  then obtain e where e: "e \<in> R" "bf_key e = bf_key d" "place (bf_at d) < place (bf_at e)" using assms(1) unfolding displaces_def by blast
  then have "e = r" using inj_onD [OF assms(2)] r d(2) by metis
  then show ?thesis using d(1) e by (intro no_later_known [of d]) (auto simp: committed_refs_def)
qed

text \<open>The references that a commit adds and demotes\<close>

definition fresh_refs :: "(jstr \<Rightarrow> 'x browse_ref_scheme option) \<Rightarrow> 'x browse_ref_scheme delta \<Rightarrow> 'x browse_ref_scheme list" where
  "fresh_refs known d = filter (\<lambda>r. known (bf_key r) = None) (dl_added d)"

definition demoted_refs :: "(jstr \<Rightarrow> 'x browse_ref_scheme option) \<Rightarrow> 'x browse_ref_scheme delta \<Rightarrow> 'x browse_ref_scheme list" where
  "demoted_refs known d = filter (\<lambda>r. earlier_than r (known (bf_key r))) (dl_added d @ dl_demote d)"

lemma demoted_found:
  assumes "\<forall>k r. known k = Some r \<longleftrightarrow> r \<in> R \<and> bf_key r = k" and "r \<in> set (demoted_refs known d)"
  shows "\<exists>e. known (bf_key r) = Some e \<and> e \<in> R \<and> bf_key e = bf_key r \<and> place (bf_at r) < place (bf_at e)"
proof (cases "known (bf_key r)")
  case None
  then show ?thesis using assms(2) by (simp add: demoted_refs_def earlier_than_def)
next
  case (Some e)
  then have "place (bf_at r) < place (bf_at e)" using assms(2) by (auto simp: demoted_refs_def earlier_than_def)
  then show ?thesis using Some assms(1) by blast
qed

lemma fresh_unknown:
  assumes "\<forall>k r. known k = Some r \<longleftrightarrow> r \<in> R \<and> bf_key r = k"
  shows "bf_key ` set (fresh_refs known d) \<inter> bf_key ` R = {}"
proof -
  have False if r: "r \<in> set (fresh_refs known d)" and e: "e \<in> R" "bf_key r = bf_key e" for r e
  proof -
    have "known (bf_key r) = Some e" using assms e by simp
    then show False using r by (simp add: fresh_refs_def)
  qed
  then show ?thesis by blast
qed

lemma delta_displaces:
  assumes "\<forall>k r. known k = Some r \<longleftrightarrow> r \<in> R \<and> bf_key r = k"
  shows "displaces R (demoted_refs known d)"
  unfolding displaces_def
proof
  fix r assume "r \<in> set (demoted_refs known d)"
  from demoted_found [OF assms this] show "\<exists>e \<in> R. bf_key e = bf_key r \<and> place (bf_at r) < place (bf_at e)" by blast
qed

lemma displaces_keys: "displaces R ds \<Longrightarrow> bf_key ` set ds \<subseteq> bf_key ` R"
  unfolding displaces_def by (metis image_eqI image_subsetI)

lemma delta_distinct:
  assumes known: "\<forall>k r. known k = Some r \<longleftrightarrow> r \<in> R \<and> bf_key r = k" and d: "stands_for R S d"
  shows "distinct (map bf_key (fresh_refs known d @ demoted_refs known d))"
proof -
  have "distinct (map bf_key (dl_added d @ dl_demote d))" using d by (simp add: stands_for_def)
  then have "distinct (map bf_key (demoted_refs known d))" unfolding demoted_refs_def by (rule distinct_map_filter)
  moreover have "distinct (map bf_key (fresh_refs known d))"
    unfolding fresh_refs_def using stands_forD(3) [OF d] by (rule distinct_map_filter)
  moreover have "bf_key ` set (fresh_refs known d) \<inter> bf_key ` set (demoted_refs known d) = {}"
    using fresh_unknown [OF known, of d] displaces_keys [OF delta_displaces [OF known, of d]] by blast
  ultimately show ?thesis by simp
qed

lemma delta_subset:
  assumes "stands_for R S d"
  shows "committed_refs R (fresh_refs known d) (demoted_refs known d) \<subseteq> R \<union> S"
proof -
  have "set (fresh_refs known d) \<subseteq> S" "set (demoted_refs known d) \<subseteq> S"
    using stands_forD(1,2) [OF assms] by (auto simp: fresh_refs_def demoted_refs_def)
  then show ?thesis unfolding committed_refs_def by blast
qed

lemma delta_no_later:
  assumes known: "\<forall>k r. known k = Some r \<longleftrightarrow> r \<in> R \<and> bf_key r = k" and inj: "inj_on bf_key R" and d: "stands_for R S d"
    and r: "r \<in> R \<union> S"
  shows "no_later (committed_refs R (fresh_refs known d) (demoted_refs known d)) r"
proof -
  let ?R = "committed_refs R (fresh_refs known d) (demoted_refs known d)"
  note old = committed_no_later [OF delta_displaces [OF known] inj]
  have new: "no_later ?R e" if e: "e \<in> set (dl_added d) \<union> set (dl_demote d)" for e
  proof (cases "known (bf_key e)")
    case None
    have "bf_key e \<notin> bf_key ` R"
    proof
      assume "bf_key e \<in> bf_key ` R"
      then obtain b where "b \<in> R" "bf_key b = bf_key e" by (metis imageE)
      then have "known (bf_key e) = Some b" using known by simp
      then show False using None by simp
    qed
    then have "e \<in> set (dl_added d)" using e stands_forD(6) [OF d] by blast
    then have "e \<in> set (fresh_refs known d)" using None by (simp add: fresh_refs_def)
    then show ?thesis by (intro no_later_self) (simp add: committed_refs_def)
  next
    case (Some b)
    then have b: "b \<in> R" "bf_key b = bf_key e" using known by simp_all
    show ?thesis
    proof (cases "place (bf_at e) < place (bf_at b)")
      case True
      then have "e \<in> set (demoted_refs known d)" using e Some by (simp add: demoted_refs_def earlier_than_def)
      then show ?thesis by (intro no_later_self) (simp add: committed_refs_def)
    next
      case False
      have "no_later R e" using no_later_known [OF b] False by simp
      then show ?thesis by (rule no_later_trans) (rule ballI, rule old)
    qed
  qed
  have "no_later (set (dl_added d) \<union> set (dl_demote d) \<union> R) r"
  proof (cases "r \<in> R")
    case False
    then show ?thesis using r d by (simp add: stands_for_def)
  qed (simp add: no_later_self)
  moreover have "\<forall>e \<in> set (dl_added d) \<union> set (dl_demote d) \<union> R. no_later ?R e"
  proof
    fix e assume "e \<in> set (dl_added d) \<union> set (dl_demote d) \<union> R"
    then consider "e \<in> set (dl_added d) \<union> set (dl_demote d)" | "e \<in> R" by (rule UnE)
    then show "no_later ?R e" by cases (rule new, assumption, rule old)
  qed
  ultimately show ?thesis by (rule no_later_trans)
qed

locale ref_kind =
  fixes matches :: "'x browse_ref_scheme \<Rightarrow> 'x browse_ref_scheme \<Rightarrow> bool"
    and groups :: "('x browse_ref_scheme \<Rightarrow> jstr) list"
  assumes matches_same: "matches a b \<Longrightarrow> good_ref a \<Longrightarrow> good_ref b \<Longrightarrow> a\<lparr>bf_at := bf_at b\<rparr> = b"
    and groups_at: "grp \<in> set groups \<Longrightarrow> grp (r\<lparr>bf_at := at\<rparr>) = grp r"
begin

lemma matches_group: "matches a b \<Longrightarrow> good_ref a \<Longrightarrow> good_ref b \<Longrightarrow> grp \<in> set groups \<Longrightarrow> grp a = grp b"
  using matches_same groups_at by metis

text \<open>While it is prepared, a delta adds only keys that are not known.\<close>

lemma stage_ref_stands:
  assumes known: "\<forall>k r. by_key k = Some r \<longleftrightarrow> r \<in> R \<and> bf_key r = k"
    and d: "stands_for R S d" and fresh: "bf_key ` set (dl_added d) \<inter> bf_key ` R = {}"
    and good: "\<forall>e \<in> S. good_ref e" "good_ref r"
    and stage: "stage_ref matches message by_key r d = Ok d'"
  shows "stands_for R (insert r S) d' \<and> bf_key ` set (dl_added d') \<inter> bf_key ` R = {}"
proof (cases "by_key (bf_key r)")
  case None
  then have unknown: "bf_key r \<notin> bf_key ` R" using known by (metis image_iff option.distinct(1))
  show ?thesis
  proof (cases "ref_of (bf_key r) (dl_added d)")
    case no_pending: None
    then have "d' = d\<lparr>dl_added := dl_added d @ [r]\<rparr>" using stage None by (simp add: stage_ref_def)
    moreover have "bf_key r \<notin> bf_key ` set (dl_added d)" using no_pending by (simp add: ref_of_None)
    ultimately show ?thesis using stands_for_add [OF d _ unknown] unknown fresh by simp
  next
    case (Some e)
    have e: "e \<in> set (dl_added d)" "bf_key e = bf_key r" using ref_of_Some [OF Some] by simp_all
    have m: "matches e r" using stage None Some by (simp add: stage_ref_def split: if_splits)
    have "e \<in> S" using e(1) stands_forD(1) [OF d] by blast
    then have same: "e\<lparr>bf_at := bf_at r\<rparr> = r" using matches_same [OF m] good by blast
    show ?thesis
    proof (cases "place (bf_at r) < place (bf_at e)")
      case False
      then have "d' = d" using stage None Some m by (simp add: stage_ref_def earlier_than_def)
      moreover have "no_later (set (dl_added d) \<union> set (dl_demote d) \<union> R) r"
        using no_later_known [of e _ r] e False by simp
      ultimately show ?thesis using stands_for_skip [OF d] fresh by simp
    next
      case True
      let ?A = "map (\<lambda>e. if bf_key e = bf_key r then e\<lparr>bf_at := bf_at r\<rparr> else e) (dl_added d)"
      have "d' = d\<lparr>dl_added := ?A\<rparr>" using stage None Some m True by (simp add: stage_ref_def earlier_than_def)
      then show ?thesis
        using stands_for_advance [where f = "\<lambda>e. e\<lparr>bf_at := bf_at r\<rparr>", OF d e less_imp_le [OF True] same refl] fresh by simp
    qed
  qed
next
  case (Some e)
  then have e: "e \<in> R" "bf_key e = bf_key r" using known by simp_all
  then have key: "bf_key r \<in> bf_key ` R" by (metis image_eqI)
  then have no_pending: "bf_key r \<notin> bf_key ` set (dl_added d)" using fresh by blast
  then have pending: "ref_of (bf_key r) (dl_added d) = None" by (simp add: ref_of_None)
  have m: "matches e r" using stage Some by (simp add: stage_ref_def split: if_splits)
  show ?thesis
  proof (cases "place (bf_at r) < place (bf_at e)")
    case False
    then have "d' = d" using stage Some pending m by (simp add: stage_ref_def earlier_than_def)
    moreover have "no_later (set (dl_added d) \<union> set (dl_demote d) \<union> R) r"
      using no_later_known [of e _ r] e False by simp
    ultimately show ?thesis using stands_for_skip [OF d] fresh by simp
  next
    case True
    have "d' = d\<lparr>dl_demote := note_demote r (dl_demote d)\<rparr>" using stage Some pending m True by (simp add: stage_ref_def earlier_than_def)
    then show ?thesis using stands_for_demote [OF d no_pending key] fresh by simp
  qed
qed

lemma commit_refs:
  assumes t: "presents rank groups t R" and d: "stands_for R S d" and good: "\<forall>r \<in> R. good_ref r" "\<forall>r \<in> S. good_ref r"
    and recheck: "foldR (recheck_added matches message (rt_by_key t)) (dl_added d) ([], []) = Ok (fresh, demoted0)"
    and collect: "foldR (collect_demoted matches message (rt_by_key t)) (dl_demote d) demoted0 = Ok demoted"
  shows "fresh = fresh_refs (rt_by_key t) d" and "demoted = demoted_refs (rt_by_key t) d"
    and "\<forall>d \<in> set demoted. \<exists>r \<in> R. bf_key r = bf_key d \<and> (\<forall>grp \<in> set groups. grp r = grp d)"
proof -
  note known = presents_by_key [OF t]
  note re = recheck_Ok [OF recheck] and co = collect_Ok [OF collect]
  have fresh: "fresh = fresh_refs (rt_by_key t) d" using re [THEN conjunct1] by (simp add: fresh_refs_def)
  have demoted: "demoted = demoted_refs (rt_by_key t) d"
    using re [THEN conjunct2, THEN conjunct1] co [THEN conjunct1] by (simp add: demoted_refs_def)
  show "fresh = fresh_refs (rt_by_key t) d" "demoted = demoted_refs (rt_by_key t) d" using fresh demoted by simp_all
  have "\<exists>e \<in> R. bf_key e = bf_key r \<and> (\<forall>grp \<in> set groups. grp e = grp r)" if r: "r \<in> set demoted" for r
  proof -
    obtain e where e: "rt_by_key t (bf_key r) = Some e" "e \<in> R" "bf_key e = bf_key r"
      using demoted_found [OF known r [unfolded demoted]] by blast
    have mem: "r \<in> set (dl_added d) \<union> set (dl_demote d)" using r unfolding demoted demoted_refs_def by auto
    then have "matches e r" using re [THEN conjunct2, THEN conjunct2] co [THEN conjunct2] e(1) by blast
    moreover have "r \<in> S" using mem stands_forD(1,2) [OF d] by blast
    ultimately have "\<forall>grp \<in> set groups. grp e = grp r" using matches_group good e(2) by blast
    then show ?thesis using e(2,3) by blast
  qed
  then show "\<forall>d \<in> set demoted. \<exists>r \<in> R. bf_key r = bf_key d \<and> (\<forall>grp \<in> set groups. grp r = grp d)" by (rule ballI)
qed

lemmas commit_groups = commit_refs(3)

lemma commit_kind:
  assumes t: "presents rank groups t R" and d: "stands_for R S d" and good: "\<forall>r \<in> R. good_ref r" "\<forall>r \<in> S. good_ref r"
    and recheck: "foldR (recheck_added matches message (rt_by_key t)) (dl_added d) ([], []) = Ok (fresh, demoted0)"
    and collect: "foldR (collect_demoted matches message (rt_by_key t)) (dl_demote d) demoted0 = Ok demoted"
  shows "fresh = fresh_refs (rt_by_key t) d \<and> demoted = demoted_refs (rt_by_key t) d \<and>
    presents rank groups (merge_delta rank groups fresh demoted t) (committed_refs R fresh demoted)"
proof -
  note known = presents_by_key [OF t]
  note f = commit_refs [OF assms]
  from presents_merge [OF t _ _ f(3)] have "presents rank groups (merge_delta rank groups fresh demoted t) (committed_refs R fresh demoted)"
    using delta_distinct [OF known d] fresh_unknown [OF known, of d] unfolding f(1,2) [symmetric] committed_refs_def by simp
  then show ?thesis using f(1,2) by simp
qed

end

interpretation revisions: ref_kind same_revision_ref revision_groups
proof
  fix a b :: browse_ref
  assume "same_revision_ref a b" "good_ref a" "good_ref b"
  then show "a\<lparr>bf_at := bf_at b\<rparr> = b" by (simp add: same_revision_ref_def same_slot_iff)
qed (auto simp: revision_groups_def)

interpretation proposals: ref_kind same_proposal_ref proposal_groups
proof
  fix a b :: proposal_ref
  assume "same_proposal_ref a b" "good_ref a" "good_ref b"
  then show "a\<lparr>bf_at := bf_at b\<rparr> = b" by (simp add: same_proposal_ref_def same_slot_iff)
qed (auto simp: proposal_groups_def)

interpretation agreements: ref_kind same_agreement_ref agreement_groups
proof
  fix a b :: agreement_ref
  assume "same_agreement_ref a b" "good_ref a" "good_ref b"
  then show "a\<lparr>bf_at := bf_at b\<rparr> = b" by (simp add: same_agreement_ref_def same_slot_iff)
qed (auto simp: agreement_groups_def)

section \<open>What a preparation collects\<close>

type_synonym write_at = "checkpoint \<times> jstr \<times> json"

definition writes_of :: "browse_batch list \<Rightarrow> write_at set" where
  "writes_of batches = {(bb_at b, k, v) | b k v. b \<in> set batches \<and> (k, v) \<in> set (bb_writes b)}"

definition revision_refs :: "sha_fn \<Rightarrow> jstr \<Rightarrow> write_at set \<Rightarrow> browse_ref set" where
  "revision_refs sha channel W = {r. \<exists>(at, k, v) \<in> W. names_kind KRevision k \<and> revision_ref sha channel at k v = Ok r}"

definition proposal_refs :: "jstr \<Rightarrow> write_at set \<Rightarrow> proposal_ref set" where
  "proposal_refs channel W = {r. \<exists>(at, k, v) \<in> W. names_kind KProposal k \<and> proposal_ref_of channel at k v = Ok r}"

definition agreement_refs :: "jstr \<Rightarrow> write_at set \<Rightarrow> agreement_ref set" where
  "agreement_refs channel W = {r. \<exists>(at, k, v) \<in> W. names_kind KAgreement k \<and> agreement_ref_of channel at k v = Ok r}"

lemma refs_Un [simp]:
  "revision_refs sha channel (W \<union> V) = revision_refs sha channel W \<union> revision_refs sha channel V"
  "proposal_refs channel (W \<union> V) = proposal_refs channel W \<union> proposal_refs channel V"
  "agreement_refs channel (W \<union> V) = agreement_refs channel W \<union> agreement_refs channel V"
  by (auto simp: revision_refs_def proposal_refs_def agreement_refs_def)

lemma refs_empty [simp]: "revision_refs sha channel {} = {}" "proposal_refs channel {} = {}" "agreement_refs channel {} = {}"
  by (simp_all add: revision_refs_def proposal_refs_def agreement_refs_def)

lemma revision_ref_good: "revision_ref sha channel at k v = Ok r \<Longrightarrow> good_ref r \<and> bf_key r = k \<and> bf_at r = at"
  using validate_revision_wf by (fastforce simp: revision_ref_def wf_revision_def wf_payload_def split: if_splits)

lemma proposal_ref_good: "proposal_ref_of channel at k v = Ok r \<Longrightarrow> good_ref r \<and> bf_key r = k \<and> bf_at r = at"
  using validate_proposal_wf by (fastforce simp: proposal_ref_of_def wf_proposal_def split: if_splits)

lemma agreement_ref_good: "agreement_ref_of channel at k v = Ok r \<Longrightarrow> good_ref r \<and> bf_key r = k \<and> bf_at r = at"
  using validate_agreement_wf by (fastforce simp: agreement_ref_of_def wf_agreement_def split: if_splits)

lemma refs_good:
  "\<forall>r \<in> revision_refs sha channel W. good_ref r" "\<forall>r \<in> proposal_refs channel W. good_ref r" "\<forall>r \<in> agreement_refs channel W. good_ref r"
  using revision_ref_good proposal_ref_good agreement_ref_good
  by (fastforce simp: revision_refs_def proposal_refs_def agreement_refs_def)+

lemma names_kind_apart:
  "names_kind KRevision k \<Longrightarrow> \<not> names_kind KProposal k" "names_kind KRevision k \<Longrightarrow> \<not> names_kind KAgreement k"
  "names_kind KProposal k \<Longrightarrow> \<not> names_kind KAgreement k"
proof -
  have len: "length (key_prefix KRevision) = 15" "length (key_prefix KProposal) = 15" "length (key_prefix KAgreement) = 16"
    by (simp_all add: key_prefix_def js_def)
  have eighth: "key_prefix KRevision ! 7 = 114" "key_prefix KProposal ! 7 = 112" "key_prefix KAgreement ! 7 = 97"
    by (simp_all add: key_prefix_def js_def cu_def)
  have at: "names_kind kd k \<Longrightarrow> 7 < length (key_prefix kd) \<Longrightarrow> k ! 7 = key_prefix kd ! 7" for kd
  proof -
    assume k: "names_kind kd k" "7 < length (key_prefix kd)"
    then have "take (Suc (length (key_prefix kd))) k ! 7 = (key_prefix kd @ [58]) ! 7" by (simp add: names_kind_def)
    then show ?thesis using k(2) by (simp add: nth_append)
  qed
  show "names_kind KRevision k \<Longrightarrow> \<not> names_kind KProposal k" "names_kind KRevision k \<Longrightarrow> \<not> names_kind KAgreement k"
    "names_kind KProposal k \<Longrightarrow> \<not> names_kind KAgreement k"
    using at [of KRevision] at [of KProposal] at [of KAgreement] len eighth by auto
qed

text \<open>The tables show sets of references.\<close>

definition index_shows :: "(jstr \<Rightarrow> 'o :: linorder) \<Rightarrow> browse_state \<Rightarrow> browse_ref set \<Rightarrow> proposal_ref set \<Rightarrow> agreement_ref set \<Rightarrow> bool" where
  "index_shows collate st R P A \<longleftrightarrow> presents (revision_rank collate) revision_groups (bs_revisions st) R \<and>
     presents (proposal_rank collate) proposal_groups (bs_proposals st) P \<and> presents agreement_rank agreement_groups (bs_agreements st) A"

definition collects :: "sha_fn \<Rightarrow> jstr \<Rightarrow> browse_ref set \<Rightarrow> proposal_ref set \<Rightarrow> agreement_ref set \<Rightarrow> write_at set \<Rightarrow> prepared_browse \<Rightarrow> bool" where
  "collects sha channel R P A W p \<longleftrightarrow> \<not> pv_committed p \<and>
     stands_for R (revision_refs sha channel W) (pv_revisions p) \<and> bf_key ` set (dl_added (pv_revisions p)) \<inter> bf_key ` R = {} \<and>
     stands_for P (proposal_refs channel W) (pv_proposals p) \<and> bf_key ` set (dl_added (pv_proposals p)) \<inter> bf_key ` P = {} \<and>
     stands_for A (agreement_refs channel W) (pv_agreements p) \<and> bf_key ` set (dl_added (pv_agreements p)) \<inter> bf_key ` A = {}"

lemma collectsD:
  assumes "collects sha channel R P A W p"
  shows "\<not> pv_committed p"
    "stands_for R (revision_refs sha channel W) (pv_revisions p)" "bf_key ` set (dl_added (pv_revisions p)) \<inter> bf_key ` R = {}"
    "stands_for P (proposal_refs channel W) (pv_proposals p)" "bf_key ` set (dl_added (pv_proposals p)) \<inter> bf_key ` P = {}"
    "stands_for A (agreement_refs channel W) (pv_agreements p)" "bf_key ` set (dl_added (pv_agreements p)) \<inter> bf_key ` A = {}"
  using assms by (simp_all add: collects_def)

lemma refs_insert:
  "revision_refs sha channel (insert (at, k, v) W) =
     (if names_kind KRevision k then {r. revision_ref sha channel at k v = Ok r} else {}) \<union> revision_refs sha channel W"
  "proposal_refs channel (insert (at, k, v) W) =
     (if names_kind KProposal k then {r. proposal_ref_of channel at k v = Ok r} else {}) \<union> proposal_refs channel W"
  "agreement_refs channel (insert (at, k, v) W) =
     (if names_kind KAgreement k then {r. agreement_ref_of channel at k v = Ok r} else {}) \<union> agreement_refs channel W"
  by (auto simp: revision_refs_def proposal_refs_def agreement_refs_def)

lemma browse_write_collects:
  assumes st: "index_shows collate st R P A" and p: "collects sha channel R P A W p"
    and w: "browse_write sha channel st at (k, v) p = Ok p'"
  shows "collects sha channel R P A (insert (at, k, v) W) p'"
proof -
  have t: "presents (revision_rank collate) revision_groups (bs_revisions st) R" "presents (proposal_rank collate) proposal_groups (bs_proposals st) P"
      "presents agreement_rank agreement_groups (bs_agreements st) A" using st by (simp_all add: index_shows_def)
  consider (revision) "names_kind KRevision k" | (proposal) "names_kind KProposal k" | (agreement) "names_kind KAgreement k"
    | (other) "\<not> names_kind KRevision k" "\<not> names_kind KProposal k" "\<not> names_kind KAgreement k" by blast
  then show ?thesis
  proof cases
    case revision
    then obtain r d where r: "revision_ref sha channel at k v = Ok r" "p' = p\<lparr>pv_revisions := d\<rparr>"
      and d: "stage_ref same_revision_ref ''Browse index immutable revision fields changed'' (rt_by_key (bs_revisions st)) r (pv_revisions p) = Ok d"
      using w by (auto simp: browse_write_def)
    have "stands_for R (insert r (revision_refs sha channel W)) d \<and> bf_key ` set (dl_added d) \<inter> bf_key ` R = {}"
      by (rule revisions.stage_ref_stands [OF presents_by_key [OF t(1)] collectsD(2) [OF p] collectsD(3) [OF p] refs_good(1)
            revision_ref_good [OF r(1), THEN conjunct1] d])
    moreover have "revision_refs sha channel (insert (at, k, v) W) = insert r (revision_refs sha channel W)"
      using revision r(1) by (auto simp: refs_insert)
    ultimately show ?thesis using p revision names_kind_apart(1,2) [of k] by (simp add: collects_def r(2) refs_insert(2,3))
  next
    case proposal
    then have k: "\<not> names_kind KRevision k" "\<not> names_kind KAgreement k" using names_kind_apart by blast+
    obtain r d where r: "proposal_ref_of channel at k v = Ok r" "p' = p\<lparr>pv_proposals := d\<rparr>"
      and d: "stage_ref same_proposal_ref ''Browse index immutable proposal fields changed'' (rt_by_key (bs_proposals st)) r (pv_proposals p) = Ok d"
      using w proposal k by (auto simp: browse_write_def)
    have "stands_for P (insert r (proposal_refs channel W)) d \<and> bf_key ` set (dl_added d) \<inter> bf_key ` P = {}"
      by (rule proposals.stage_ref_stands [OF presents_by_key [OF t(2)] collectsD(4) [OF p] collectsD(5) [OF p] refs_good(2)
            proposal_ref_good [OF r(1), THEN conjunct1] d])
    moreover have "proposal_refs channel (insert (at, k, v) W) = insert r (proposal_refs channel W)"
      using proposal r(1) by (auto simp: refs_insert)
    ultimately show ?thesis using p k by (simp add: collects_def r(2) refs_insert(1,3))
  next
    case agreement
    then have k: "\<not> names_kind KRevision k" "\<not> names_kind KProposal k" using names_kind_apart by blast+
    obtain r d where r: "agreement_ref_of channel at k v = Ok r" "p' = p\<lparr>pv_agreements := d\<rparr>"
      and d: "stage_ref same_agreement_ref ''Browse index immutable agreement fields changed'' (rt_by_key (bs_agreements st)) r (pv_agreements p) = Ok d"
      using w agreement k by (auto simp: browse_write_def)
    have "stands_for A (insert r (agreement_refs channel W)) d \<and> bf_key ` set (dl_added d) \<inter> bf_key ` A = {}"
      by (rule agreements.stage_ref_stands [OF presents_by_key [OF t(3)] collectsD(6) [OF p] collectsD(7) [OF p] refs_good(3)
            agreement_ref_good [OF r(1), THEN conjunct1] d])
    moreover have "agreement_refs channel (insert (at, k, v) W) = insert r (agreement_refs channel W)"
      using agreement r(1) by (auto simp: refs_insert)
    ultimately show ?thesis using p k by (simp add: collects_def r(2) refs_insert(1,2))
  next
    case other
    then show ?thesis using p w by (simp add: browse_write_def collects_def refs_insert)
  qed
qed

lemma foldR_writes_collect:
  assumes "index_shows collate st R P A" and "collects sha channel R P A W p"
    and "foldR (browse_write sha channel st at) ws p = Ok p'"
  shows "collects sha channel R P A (W \<union> (\<lambda>(k, v). (at, k, v)) ` set ws) p'"
  using assms(2,3)
proof (induction ws arbitrary: p W)
  case (Cons w ws)
  obtain k v where w: "w = (k, v)" by (cases w)
  obtain p1 where p1: "browse_write sha channel st at (k, v) p = Ok p1" "foldR (browse_write sha channel st at) ws p1 = Ok p'"
    using Cons.prems(2) w by auto
  show ?case using Cons.IH [OF browse_write_collects [OF assms(1) Cons.prems(1) p1(1)] p1(2)] by (simp add: w)
qed simp

lemma writes_of_Cons: "writes_of (b # bs) = (\<lambda>(k, v). (bb_at b, k, v)) ` set (bb_writes b) \<union> writes_of bs"
  by (auto simp: writes_of_def)

lemma foldR_batches_collect:
  assumes "index_shows collate st R P A" and "collects sha channel R P A W p"
    and "foldR (prepare_batch sha channel st) bs p = Ok p'"
  shows "collects sha channel R P A (W \<union> writes_of bs) p'"
  using assms(2,3)
proof (induction bs arbitrary: p W)
  case Nil
  then show ?case by (simp add: writes_of_def)
next
  case (Cons b bs)
  obtain p1 where p1: "prepare_batch sha channel st b p = Ok p1" "foldR (prepare_batch sha channel st) bs p1 = Ok p'"
    using Cons.prems(2) by auto
  have "foldR (browse_write sha channel st (bb_at b)) (bb_writes b) p = Ok p1"
    using p1(1) unfolding prepare_batch_def by (metis browse_fail_not_Ok)
  from Cons.IH [OF foldR_writes_collect [OF assms(1) Cons.prems(1) this] p1(2)] show ?case unfolding writes_of_Cons Un_assoc .
qed

lemma prepare_collects:
  assumes "index_shows collate st R P A" and "browse_prepare sha channel st bs = Ok p"
  shows "collects sha channel R P A (writes_of bs) p"
proof -
  have "collects sha channel R P A {} \<lparr>pv_revisions = empty_delta, pv_proposals = empty_delta, pv_agreements = empty_delta, pv_committed = False\<rparr>"
    by (simp add: collects_def stands_for_def empty_delta_def)
  from foldR_batches_collect [OF assms(1) this assms(2) [unfolded browse_prepare_def]] show ?thesis by simp
qed

section \<open>What a commit does not change\<close>

text \<open>A predicate that holds up to a checkpoint only does not see the references of later checkpoints.\<close>

lemma gone_unseen:
  assumes "presents rank groups t R" and "displaces R demoted"
    and P: "\<forall>r. P r \<longrightarrow> place (bf_at r) \<le> m" and late: "\<forall>r \<in> set demoted. m < place (bf_at r)"
    and r: "r \<in> R" "P r"
  shows "bf_key r \<notin> bf_key ` set demoted"
proof
  assume "bf_key r \<in> bf_key ` set demoted"
  then obtain d where d: "d \<in> set demoted" "bf_key r = bf_key d" by (rule imageE)
  then obtain e where e: "e \<in> R" "bf_key e = bf_key d" "place (bf_at d) < place (bf_at e)"
    using assms(2) unfolding displaces_def by blast
  have "e = r" using inj_onD [OF presents_inj [OF assms(1)] _ e(1) r(1)] e(2) d(2) by simp
  then have "m < place (bf_at r)" using e(3) late d(1) by (metis order_less_trans)
  then show False using P r(2) by (simp add: leD)
qed

lemma filter_keep:
  assumes "\<forall>r \<in> R. P r \<longrightarrow> bf_key r \<notin> K" and "set rs \<subseteq> R"
  shows "filter P (filter (\<lambda>r. bf_key r \<notin> K) rs) = filter P rs"
  using assms by (auto intro!: filter_cong)

lemma list_all2_map2_left: "length xs = length ys \<Longrightarrow> (\<And>x y. x \<in> set xs \<Longrightarrow> y \<in> set ys \<Longrightarrow> Q (f x y) y) \<Longrightarrow> list_all2 Q (map2 f xs ys) ys"
  by (induction rule: list_induct2) auto

definition same_view :: "('x browse_ref_scheme \<Rightarrow> bool) \<Rightarrow> 'x browse_ref_scheme ref_table \<Rightarrow> 'x browse_ref_scheme ref_table \<Rightarrow> bool" where
  "same_view P t' t \<longleftrightarrow> map_option (filter P) (rt_all t') = map_option (filter P) (rt_all t) \<and>
     list_all2 (\<lambda>m' m. \<forall>b. filter P (in_bucket m' b) = filter P (in_bucket m b)) (rt_buckets t') (rt_buckets t)"

lemma same_view_refl: "same_view P t t"
  by (simp add: same_view_def list.rel_refl)

lemma same_view_trans: "same_view P t t' \<Longrightarrow> same_view P t' t'' \<Longrightarrow> same_view P t t''"
  by (auto simp: same_view_def elim: list_all2_trans [rotated])

lemma presents_buckets:
  assumes "presents rank groups t R"
  shows "length groups = length (rt_buckets t)" and "m \<in> set (rt_buckets t) \<Longrightarrow> set (in_bucket m b) \<subseteq> R \<and> sorted (map rank (in_bucket m b))"
proof -
  have l: "list_all2 (\<lambda>group m. \<forall>b. listed rank (in_bucket m b) {r \<in> R. group r = b}) groups (rt_buckets t)"
    using assms by (simp add: presents_def)
  then show "length groups = length (rt_buckets t)" by (rule list_all2_lengthD)
  assume "m \<in> set (rt_buckets t)"
  then obtain i where "i < length (rt_buckets t)" "m = rt_buckets t ! i" by (metis in_set_conv_nth)
  then have "listed rank (in_bucket m b) {r \<in> R. (groups ! i) r = b}"
    using list_all2_nthD2 [OF l] by blast
  then show "set (in_bucket m b) \<subseteq> R \<and> sorted (map rank (in_bucket m b))" by (auto simp: listed_def)
qed

lemma without_view:
  assumes t: "presents rank groups t R" and unseen: "\<forall>r \<in> R. P r \<longrightarrow> bf_key r \<notin> bf_key ` set demoted"
  shows "same_view P (without_demoted groups demoted t) t"
proof (cases "demoted = []")
  case False
  note keep = filter_keep [OF unseen]
  have "rt_all t = Some rs \<Longrightarrow> set rs \<subseteq> R" for rs using t by (auto simp: presents_def listed_def)
  then have "map_option (filter P) (map_option (filter (\<lambda>r. bf_key r \<notin> bf_key ` set demoted)) (rt_all t)) = map_option (filter P) (rt_all t)"
    using keep by (cases "rt_all t") simp_all
  moreover have "list_all2 (\<lambda>m' m. \<forall>b. filter P (in_bucket m' b) = filter P (in_bucket m b))
      (map2 (\<lambda>group m b. if b \<in> group ` set demoted then Some (filter (\<lambda>r. bf_key r \<notin> bf_key ` set demoted) (in_bucket m b)) else m b) groups (rt_buckets t))
      (rt_buckets t)"
    using keep presents_buckets [OF t] by (intro list_all2_map2_left) (simp_all add: in_bucket_if)
  ultimately show ?thesis using False by (simp add: same_view_def without_demoted_def Let_def)
qed (simp add: without_demoted_def same_view_refl)

lemma with_view:
  assumes t: "presents rank groups t R" and unseen: "\<forall>r \<in> set arrived. \<not> P r"
  shows "same_view P (with_incoming rank groups arrived t) t"
proof (cases "sort_key rank arrived = []")
  case False
  have "rt_all t = Some rs \<Longrightarrow> sorted (map rank rs)" for rs using t by (auto simp: presents_def listed_def)
  then have "map_option (filter P) (map_option (prepend_latest rank (sort_key rank arrived)) (rt_all t)) = map_option (filter P) (rt_all t)"
    using prepend_keeps [of rank _ "sort_key rank arrived" P] unseen by (cases "rt_all t") simp_all
  moreover have "list_all2 (\<lambda>m' m. \<forall>b. filter P (in_bucket m' b) = filter P (in_bucket m b))
      (map2 (\<lambda>group m b. if b \<in> group ` set (sort_key rank arrived)
        then Some (prepend_latest rank (sort_key rank (filter (\<lambda>r. group r = b) (sort_key rank arrived))) (in_bucket m b)) else m b) groups (rt_buckets t))
      (rt_buckets t)"
  proof (rule list_all2_map2_left [OF presents_buckets(1) [OF t]])
    fix group m assume "m \<in> set (rt_buckets t)"
    then show "\<forall>b. filter P (in_bucket (\<lambda>b. if b \<in> group ` set (sort_key rank arrived)
        then Some (prepend_latest rank (sort_key rank (filter (\<lambda>r. group r = b) (sort_key rank arrived))) (in_bucket m b)) else m b) b) =
        filter P (in_bucket m b)"
      using presents_buckets(2) [OF t] unseen by (simp add: in_bucket_if prepend_keeps)
  qed
  ultimately show ?thesis using False by (simp add: same_view_def with_incoming_def Let_def)
qed (simp add: with_incoming_def same_view_refl)

lemma merge_view:
  assumes t: "presents rank groups t R" and displaces: "displaces R demoted" and groups: "\<forall>d \<in> set demoted. \<exists>r \<in> R. bf_key r = bf_key d \<and> (\<forall>group \<in> set groups. group r = group d)"
    and P: "\<forall>r. P r \<longrightarrow> place (bf_at r) \<le> m" and late: "\<forall>r \<in> set (fresh @ demoted). m < place (bf_at r)"
  shows "same_view P (merge_delta rank groups fresh demoted t) t"
proof -
  have d: "\<forall>r \<in> set demoted. m < place (bf_at r)" using late by simp
  have "\<not> P r" if "r \<in> set (fresh @ demoted)" for r using P bspec [OF late that] by (meson leD)
  then have "same_view P (with_incoming rank groups (fresh @ demoted) (without_demoted groups demoted t)) (without_demoted groups demoted t)"
    using with_view [OF presents_without [OF t groups]] by blast
  moreover have "\<forall>r \<in> R. P r \<longrightarrow> bf_key r \<notin> bf_key ` set demoted" using gone_unseen [OF t displaces P d] by blast
  ultimately show ?thesis unfolding merge_delta_def using same_view_trans without_view [OF t] by blast
qed

section \<open>The cache\<close>

definition cached :: "revision_cache \<Rightarrow> jstr \<Rightarrow> (browse_ref list \<times> checkpoint) option" where
  "cached c k = map_option (\<lambda>e. (sn_refs e, sn_at e)) (map_of (rc_entries c) k)"

definition keyed :: "revision_cache \<Rightarrow> bool" where
  "keyed c \<longleftrightarrow> distinct (map fst (rc_entries c))"

lemma without_entry_map: "map_of (without_entry k es) l = (if l = k then None else map_of es l)"
  by (induction es) (auto simp: without_entry_def)

lemma without_entry_distinct: "distinct (map fst es) \<Longrightarrow> distinct (map fst (without_entry k es))"
  by (simp add: without_entry_def distinct_map_filter)

lemma without_entry_absent: "map_of es k = None \<Longrightarrow> without_entry k es = es"
  unfolding without_entry_def by (rule filter_True) (force simp: map_of_eq_None_iff)

lemma drop_selection_entries: "rc_entries (drop_selection k c) = without_entry k (rc_entries c)"
  by (auto simp: drop_selection_def Let_def without_entry_absent split: option.split)

lemma cached_drop: "cached (drop_selection k c) l = (if l = k then None else cached c l)"
  by (simp add: cached_def drop_selection_entries without_entry_map)

lemma keyed_drop: "keyed c \<Longrightarrow> keyed (drop_selection k c)"
  by (simp add: keyed_def drop_selection_entries without_entry_distinct)

lemma make_room_keeps: "keyed c \<Longrightarrow> keyed (make_room big full c) \<and> (cached (make_room big full c) l = Some e \<longrightarrow> cached c l = Some e)"
proof (induction big full c rule: make_room.induct)
  case (1 big full c)
  show ?case
  proof (cases "full c \<and> oldest_selection big c \<noteq> None")
    case True
    then obtain k where k: "full c" "oldest_selection big c = Some k" by blast
    then have "make_room big full c = make_room big full (drop_selection k c)" by (simp add: make_room.simps)
    then show ?thesis using "1.IH" [OF k keyed_drop [OF "1.prems"]] by (auto simp: cached_drop split: if_splits)
  next
    case False
    then have "make_room big full c = c" by (auto simp: make_room.simps split: option.split)
    then show ?thesis using "1.prems" by simp
  qed
qed

lemma cached_remember: "cached (remember_selection k e c) l = (if l = k then Some (sn_refs e, sn_at e) else cached c l)"
  by (simp add: cached_def remember_selection_def map_add_def without_entry_map split: option.split)

lemma keyed_remember: "keyed c \<Longrightarrow> keyed (remember_selection k e c)"
  by (auto simp: keyed_def remember_selection_def without_entry_distinct) (auto simp: without_entry_def)

lemma cached_fields [simp]:
  "cached (c\<lparr>rc_oversized := x, rc_oversized_refs := y, rc_oversized_bytes := z\<rparr>) = cached c" "cached (c\<lparr>rc_misses := n\<rparr>) = cached c"
  "keyed (c\<lparr>rc_oversized := x, rc_oversized_refs := y, rc_oversized_bytes := z\<rparr>) = keyed c" "keyed (c\<lparr>rc_misses := n\<rparr>) = keyed c"
  by (simp_all add: cached_def keyed_def fun_eq_iff)

text \<open>The cache of selections keeps the contract of an evicting cache.\<close>

definition store_selection :: "browse_limits \<Rightarrow> jstr \<Rightarrow> browse_ref list \<times> checkpoint \<Rightarrow> revision_cache \<Rightarrow> revision_cache" where
  "store_selection lm k v = cache_revisions lm k (fst v) (snd v)"

interpretation selections: evicting_cache cached "store_selection lm" touch_selection keyed for lm
proof
  fix c :: revision_cache and k :: jstr and v :: "browse_ref list \<times> checkpoint"
  assume c: "keyed c"
  have room: "keyed (make_room big full (drop_selection k c))" for big full using make_room_keeps [OF keyed_drop [OF c]] by blast
  show "keyed (store_selection lm k v c)"
    using room keyed_drop [OF c] by (simp add: store_selection_def cache_revisions_def Let_def keyed_remember)
  show "keyed (touch_selection k c)"
    using c by (auto simp: keyed_def touch_selection_def without_entry_distinct split: option.split) (auto simp: without_entry_def)
  show "cached (touch_selection k c) l = cached c l" for l
    by (auto simp: cached_def touch_selection_def without_entry_map map_add_def split: option.split)
  fix l :: jstr and w :: "browse_ref list \<times> checkpoint"
  assume hit: "cached (store_selection lm k v c) l = Some w"
  have old: "cached (make_room big full (drop_selection k c)) l = Some w \<Longrightarrow> l \<noteq> k \<and> cached c l = Some w" for big full
    using make_room_keeps [OF keyed_drop [OF c, of k], of big full l w] by (auto simp: cached_drop split: if_splits)
  have old': "cached (drop_selection k c) l = Some w \<Longrightarrow> l \<noteq> k \<and> cached c l = Some w"
    by (auto simp: cached_drop split: if_splits)
  show "if l = k then w = v else cached c l = Some w"
    using hit old old' by (auto simp: store_selection_def cache_revisions_def Let_def cached_remember split: if_splits)
qed

text \<open>A key of the cache says all that a selection depends on.\<close>

definition exact_query :: "revision_query \<Rightarrow> bool" where
  "exact_query q \<longleftrightarrow> \<bar>cp_block (pq_at q)\<bar> \<le> max_safe \<and> \<bar>cp_index (pq_at q)\<bar> \<le> max_safe"

definition query_array :: "revision_query \<Rightarrow> json" where
  "query_array q = (let at = pq_at q in JArr
     [JStr (cp_channel at), JNum (NInt (cp_block at)), JNum (NInt (cp_index at)), JStr (cp_tx at), JStr (cp_hash at),
      JStr (js (mode_name (rq_mode q))), slot_array (rq_slot q), text_or_null (rq_document q), text_or_null (rq_context q),
      text_or_null (rq_scope q), text_or_null (rq_usage q)])"

lemma text_or_null_inject [simp]: "text_or_null a = text_or_null b \<longleftrightarrow> a = b"
  by (auto simp: text_or_null_def split: option.splits)

lemma slot_array_inject [simp]: "slot_array a = slot_array b \<longleftrightarrow> a = b"
  by (auto simp: slot_array_def split: option.splits intro: slot.equality)

lemma mode_name_inject: "js (mode_name a) = js (mode_name b) \<Longrightarrow> a = b"
  by (cases a; cases b) (simp_all add: js_def)

lemma query_array_printable: "exact_query q \<Longrightarrow> printable real (query_array q)"
  by (auto simp: query_array_def exact_query_def Let_def slot_array_def text_or_null_def split: option.split)

lemma cache_key_inject:
  assumes "exact_query q" "exact_query r" "revision_cache_key q = revision_cache_key r"
  shows "pq_at q = pq_at r \<and> select_revisions st q = select_revisions st r"
proof -
  have "stringify (query_array q) = stringify (query_array r)" using assms(3) by (simp only: query_array_def revision_cache_key_def Let_def)
  then have "query_array q = query_array r"
    using json_parse_printable [OF query_array_printable [OF assms(1)]] json_parse_printable [OF query_array_printable [OF assms(2)]] by (metis option.inject)
  then have eq: "pq_at q = pq_at r" "rq_mode q = rq_mode r" "rq_slot q = rq_slot r" "rq_document q = rq_document r" "rq_context q = rq_context r"
      "rq_scope q = rq_scope r" "rq_usage q = rq_usage r"
    by (auto simp: query_array_def Let_def intro: mode_name_inject checkpoint.equality)
  then have "selected q = selected r" by (simp add: selected_def fun_eq_iff)
  then show ?thesis unfolding select_revisions_def by (simp only: eq)
qed

definition cache_ok :: "browse_state \<Rightarrow> revision_cache \<Rightarrow> bool" where
  "cache_ok st c \<longleftrightarrow> keyed c \<and> (\<forall>k rs at. cached c k = Some (rs, at) \<longrightarrow>
     (\<exists>q. k = revision_cache_key q \<and> exact_query q \<and> at = pq_at q \<and> rs = select_revisions st q))"

lemma cache_ok_query:
  assumes "cache_ok st c" and "exact_query q" and "cached c (revision_cache_key q) = Some (rs, at)"
  shows "rs = select_revisions st q"
  using assms cache_key_inject unfolding cache_ok_def by metis

lemma cache_ok_touch: "cache_ok st c \<Longrightarrow> cache_ok st (touch_selection k c)"
  unfolding cache_ok_def using selections.touch_good selections.lookup_touch by metis

lemma cache_ok_store:
  assumes "cache_ok st c" and "exact_query q"
  shows "cache_ok st (cache_revisions lm (revision_cache_key q) (select_revisions st q) (pq_at q) c)"
proof -
  let ?c = "store_selection lm (revision_cache_key q) (select_revisions st q, pq_at q) c"
  have c: "keyed c" using assms(1) by (simp add: cache_ok_def)
  have "\<exists>q. k = revision_cache_key q \<and> exact_query q \<and> at = pq_at q \<and> rs = select_revisions st q" if hit: "cached ?c k = Some (rs, at)" for k rs at
    using selections.lookup_store [OF c hit] assms unfolding cache_ok_def by (metis prod.inject)
  then have "cache_ok st ?c" using selections.store_good [OF c] unfolding cache_ok_def by blast
  then show ?thesis by (simp add: store_selection_def)
qed

lemma invalidated:
  assumes "keyed c"
  shows "keyed (fold (\<lambda>k c. case map_of (rc_entries c) k of Some e \<Rightarrow> if m \<le> place (sn_at e) then drop_selection k c else c | None \<Rightarrow> c) ks c) \<and>
    (\<forall>l rs at. cached (fold (\<lambda>k c. case map_of (rc_entries c) k of Some e \<Rightarrow> if m \<le> place (sn_at e) then drop_selection k c else c | None \<Rightarrow> c) ks c) l = Some (rs, at) \<longrightarrow>
       cached c l = Some (rs, at) \<and> (l \<in> set ks \<longrightarrow> place at < m))"
  using assms
proof (induction ks arbitrary: c)
  case (Cons k ks)
  let ?step = "\<lambda>k c. case map_of (rc_entries c) k of Some e \<Rightarrow> if m \<le> place (sn_at e) then drop_selection k c else c | None \<Rightarrow> c"
  have step: "keyed (?step k c)" using Cons.prems keyed_drop by (auto split: option.split)
  have hit: "cached c l = Some (rs, at) \<and> (l = k \<longrightarrow> place at < m)" if "cached (?step k c) l = Some (rs, at)" for l rs at
  proof (cases "map_of (rc_entries c) k")
    case None
    then have "cached c l = Some (rs, at)" using that by simp
    then show ?thesis using None by (auto simp: cached_def)
  next
    case (Some e)
    show ?thesis
    proof (cases "m \<le> place (sn_at e)")
      case True
      then have "cached (drop_selection k c) l = Some (rs, at)" using that Some by simp
      then show ?thesis by (auto simp: cached_drop split: if_splits)
    next
      case False
      then have "cached c l = Some (rs, at)" using that Some by simp
      then show ?thesis using False Some by (auto simp: cached_def)
    qed
  qed
  show ?case using Cons.IH [OF step] hit by fastforce
qed simp

lemma invalidate_keeps:
  assumes "keyed c"
  shows "keyed (invalidate touched c)"
    and "cached (invalidate touched c) k = Some (rs, at) \<Longrightarrow> cached c k = Some (rs, at) \<and> (\<forall>r \<in> set touched. place at < place (bf_at r))"
proof -
  show "keyed (invalidate touched c)" using invalidated [OF assms] by (simp add: invalidate_def Let_def assms)
  assume hit: "cached (invalidate touched c) k = Some (rs, at)"
  show "cached c k = Some (rs, at) \<and> (\<forall>r \<in> set touched. place at < place (bf_at r))"
  proof (cases "touched = []")
    case True
    then show ?thesis using hit by (simp add: invalidate_def)
  next
    case False
    let ?m = "Min (set (map (\<lambda>r. place (bf_at r)) touched))"
    have kept: "cached c k = Some (rs, at)" "k \<in> set (map fst (rc_entries c)) \<longrightarrow> place at < ?m"
      using hit [unfolded invalidate_def Let_def if_not_P [OF False]] invalidated [OF assms, of ?m "map fst (rc_entries c)"] by blast+
    have "k \<in> set (map fst (rc_entries c))" using kept(1) by (auto simp: cached_def dest!: map_of_SomeD) force
    then have "place at < ?m" using kept(2) by blast
    then have "place at < place (bf_at r)" if "r \<in> set touched" for r using that by (auto dest: less_le_trans intro: Min_le)
    then show ?thesis using kept(1) by blast
  qed
qed

lemma select_view:
  assumes v: "same_view (selected q) (bs_revisions st') (bs_revisions st)" and "length (rt_buckets (bs_revisions st)) = 2"
  shows "select_revisions st' q = select_revisions st q"
proof -
  have "filter (selected q) (the (rt_all (bs_revisions st'))) = filter (selected q) (the (rt_all (bs_revisions st)))"
    using v by (cases "rt_all (bs_revisions st')"; cases "rt_all (bs_revisions st)") (simp_all add: same_view_def)
  moreover have "\<forall>i < 2. \<forall>b. filter (selected q) (in_bucket (rt_buckets (bs_revisions st') ! i) b) = filter (selected q) (in_bucket (rt_buckets (bs_revisions st) ! i) b)"
    using v assms(2) by (auto simp: same_view_def list_all2_conv_all_nth)
  ultimately show ?thesis by (simp add: select_revisions_def Let_def split: revision_mode.split)
qed

section \<open>Commits\<close>

lemma earliest_commit:
  assumes e: "earliest W R" and t: "presents rank groups t R" "presents rank groups t' (committed_refs R (fresh_refs (rt_by_key t) d) (demoted_refs (rt_by_key t) d))"
    and d: "stands_for R S d"
  shows "earliest (W \<union> S) (committed_refs R (fresh_refs (rt_by_key t) d) (demoted_refs (rt_by_key t) d))"
proof -
  let ?R = "committed_refs R (fresh_refs (rt_by_key t) d) (demoted_refs (rt_by_key t) d)"
  note later = delta_no_later [OF presents_by_key [OF t(1)] presents_inj [OF t(1)] d]
  have "no_later ?R r" if r: "r \<in> W \<union> S" for r
  proof (cases "r \<in> S")
    case True
    then show ?thesis using later by blast
  next
    case False
    then have "no_later R r" using r e by (simp add: earliest_def)
    then show ?thesis by (rule no_later_trans) (use later in blast)
  qed
  moreover have "?R \<subseteq> W \<union> S" using delta_subset [OF d] e unfolding earliest_def by blast
  ultimately show ?thesis using presents_inj [OF t(2)] by (simp add: earliest_def)
qed

record browse_view =
  vw_revisions :: "browse_ref set"
  vw_proposals :: "proposal_ref set"
  vw_agreements :: "agreement_ref set"

definition view_of :: "sha_fn \<Rightarrow> jstr \<Rightarrow> write_at set \<Rightarrow> browse_view \<Rightarrow> bool" where
  "view_of sha channel W vw \<longleftrightarrow> earliest (revision_refs sha channel W) (vw_revisions vw) \<and>
     earliest (proposal_refs channel W) (vw_proposals vw) \<and> earliest (agreement_refs channel W) (vw_agreements vw)"

definition shows_view :: "(jstr \<Rightarrow> 'o :: linorder) \<Rightarrow> browse_state \<Rightarrow> browse_view \<Rightarrow> bool" where
  "shows_view collate st vw \<longleftrightarrow> index_shows collate st (vw_revisions vw) (vw_proposals vw) (vw_agreements vw) \<and>
     rt_all (bs_revisions st) \<noteq> None \<and> rt_all (bs_proposals st) \<noteq> None"

text \<open>An outstanding preparation stands for its writes, as long as it is not committed.\<close>

definition awaits :: "sha_fn \<Rightarrow> jstr \<Rightarrow> browse_view \<Rightarrow> prepared_browse \<Rightarrow> write_at set \<Rightarrow> bool" where
  "awaits sha channel vw p V \<longleftrightarrow> stands_for (vw_revisions vw) (revision_refs sha channel V) (pv_revisions p) \<and>
     stands_for (vw_proposals vw) (proposal_refs channel V) (pv_proposals p) \<and>
     stands_for (vw_agreements vw) (agreement_refs channel V) (pv_agreements p)"

definition no_later_view :: "browse_view \<Rightarrow> browse_view \<Rightarrow> bool" where
  "no_later_view vw' vw \<longleftrightarrow> (\<forall>r \<in> vw_revisions vw. no_later (vw_revisions vw') r) \<and>
     (\<forall>r \<in> vw_proposals vw. no_later (vw_proposals vw') r) \<and> (\<forall>r \<in> vw_agreements vw. no_later (vw_agreements vw') r)"

lemma awaits_later: "awaits sha channel vw p V \<Longrightarrow> no_later_view vw' vw \<Longrightarrow> awaits sha channel vw' p V"
  unfolding awaits_def no_later_view_def by (metis stands_for_later)

lemma earliest_good: "earliest W R \<Longrightarrow> \<forall>r \<in> W. good_ref r \<Longrightarrow> \<forall>r \<in> R. good_ref r"
  by (auto simp: earliest_def)

lemma commit_table:
  fixes t :: "'x browse_ref_scheme ref_table"
  assumes kind: "ref_kind matches groups" and t: "presents rank groups t R" and e: "earliest W R" and d: "stands_for R S d"
    and good: "\<forall>r \<in> W. good_ref r" "\<forall>r \<in> S. good_ref r"
    and recheck: "foldR (recheck_added matches message (rt_by_key t)) (dl_added d) ([], []) = Ok (fresh, demoted0)"
    and collect: "foldR (collect_demoted matches message (rt_by_key t)) (dl_demote d) demoted0 = Ok demoted"
  shows "\<exists>R'. presents rank groups (merge_delta rank groups fresh demoted t) R' \<and> earliest (W \<union> S) R' \<and> (\<forall>r \<in> R. no_later R' r)"
    and "displaces R demoted" and "\<forall>d \<in> set demoted. \<exists>r \<in> R. bf_key r = bf_key d \<and> (\<forall>group \<in> set groups. group r = group d)"
    and "rt_all (merge_delta rank groups fresh demoted t) = None \<longleftrightarrow> rt_all t = None"
proof -
  note c = ref_kind.commit_kind [OF kind t d earliest_good [OF e good(1)] good(2) recheck collect]
  note f = c [THEN conjunct1] and m = c [THEN conjunct2, THEN conjunct1] and p = c [THEN conjunct2, THEN conjunct2]
  have p': "presents rank groups (merge_delta rank groups fresh demoted t) (committed_refs R (fresh_refs (rt_by_key t) d) (demoted_refs (rt_by_key t) d))"
    using p by (simp only: f m)
  have "\<forall>r \<in> R. no_later (committed_refs R (fresh_refs (rt_by_key t) d) (demoted_refs (rt_by_key t) d)) r"
    using delta_no_later [OF presents_by_key [OF t] presents_inj [OF t] d] by blast
  then show "\<exists>R'. presents rank groups (merge_delta rank groups fresh demoted t) R' \<and> earliest (W \<union> S) R' \<and> (\<forall>r \<in> R. no_later R' r)"
    using p' earliest_commit [OF e t p' d] by blast
  show "displaces R demoted" unfolding m by (rule delta_displaces [OF presents_by_key [OF t]])
  show "\<forall>d \<in> set demoted. \<exists>r \<in> R. bf_key r = bf_key d \<and> (\<forall>group \<in> set groups. group r = group d)"
    using ref_kind.commit_groups [OF kind t d earliest_good [OF e good(1)] good(2) recheck collect] .
  show "rt_all (merge_delta rank groups fresh demoted t) = None \<longleftrightarrow> rt_all t = None"
    by (simp add: merge_delta_def with_incoming_def without_demoted_def Let_def)
qed

lemma commit_index:
  assumes commit: "browse_commit collate p bx = Ok (p', bx')" and "\<not> pv_committed p"
    and shown: "shows_view collate (bx_state bx) vw" "view_of sha channel W vw" and waits: "awaits sha channel vw p V"
    and cache: "cache_ok (bx_state bx) (bx_cache bx)"
  shows "\<exists>vw'. shows_view collate (bx_state bx') vw' \<and> view_of sha channel (W \<union> V) vw' \<and> no_later_view vw' vw \<and>
    cache_ok (bx_state bx') (bx_cache bx') \<and> pv_committed p' \<and> bx_channel bx' = bx_channel bx"
proof -
  let ?st = "bx_state bx"
  obtain fr dr0 dr fp dp0 dp fa da0 da where
      r: "foldR (recheck_added same_revision_ref ''Browse index immutable revision fields changed'' (rt_by_key (bs_revisions ?st))) (dl_added (pv_revisions p)) ([], []) = Ok (fr, dr0)"
        "foldR (collect_demoted same_revision_ref ''Browse index immutable revision fields changed'' (rt_by_key (bs_revisions ?st))) (dl_demote (pv_revisions p)) dr0 = Ok dr"
    and p: "foldR (recheck_added same_proposal_ref ''Browse index immutable proposal fields changed'' (rt_by_key (bs_proposals ?st))) (dl_added (pv_proposals p)) ([], []) = Ok (fp, dp0)"
        "foldR (collect_demoted same_proposal_ref ''Browse index immutable proposal fields changed'' (rt_by_key (bs_proposals ?st))) (dl_demote (pv_proposals p)) dp0 = Ok dp"
    and a: "foldR (recheck_added same_agreement_ref ''Browse index immutable agreement fields changed'' (rt_by_key (bs_agreements ?st))) (dl_added (pv_agreements p)) ([], []) = Ok (fa, da0)"
        "foldR (collect_demoted same_agreement_ref ''Browse index immutable agreement fields changed'' (rt_by_key (bs_agreements ?st))) (dl_demote (pv_agreements p)) da0 = Ok da"
    and p': "p' = p\<lparr>pv_committed := True\<rparr>"
    and bx': "bx' = bx\<lparr>bx_cache := invalidate (fr @ dr) (bx_cache bx),
      bx_state := \<lparr>bs_revisions = merge_delta (revision_rank collate) revision_groups fr dr (bs_revisions ?st),
        bs_proposals = merge_delta (proposal_rank collate) proposal_groups fp dp (bs_proposals ?st),
        bs_agreements = merge_delta agreement_rank agreement_groups fa da (bs_agreements ?st)\<rparr>\<rparr>"
    using commit assms(2) by (auto simp: browse_commit_def Let_def split: prod.splits)
  have t: "presents (revision_rank collate) revision_groups (bs_revisions ?st) (vw_revisions vw)"
      "presents (proposal_rank collate) proposal_groups (bs_proposals ?st) (vw_proposals vw)"
      "presents agreement_rank agreement_groups (bs_agreements ?st) (vw_agreements vw)"
      and all: "rt_all (bs_revisions ?st) \<noteq> None" "rt_all (bs_proposals ?st) \<noteq> None"
    using shown(1) by (simp_all add: shows_view_def index_shows_def)
  have e: "earliest (revision_refs sha channel W) (vw_revisions vw)" "earliest (proposal_refs channel W) (vw_proposals vw)"
      "earliest (agreement_refs channel W) (vw_agreements vw)" using shown(2) by (simp_all add: view_of_def)
  have d: "stands_for (vw_revisions vw) (revision_refs sha channel V) (pv_revisions p)" "stands_for (vw_proposals vw) (proposal_refs channel V) (pv_proposals p)"
      "stands_for (vw_agreements vw) (agreement_refs channel V) (pv_agreements p)" using waits by (simp_all add: awaits_def)
  note cr = commit_table [OF revisions.ref_kind_axioms t(1) e(1) d(1) refs_good(1) refs_good(1) r]
  note cp = commit_table [OF proposals.ref_kind_axioms t(2) e(2) d(2) refs_good(2) refs_good(2) p]
  note ca = commit_table [OF agreements.ref_kind_axioms t(3) e(3) d(3) refs_good(3) refs_good(3) a]
  obtain R where R: "presents (revision_rank collate) revision_groups (bs_revisions (bx_state bx')) R"
      "earliest (revision_refs sha channel (W \<union> V)) R" "\<forall>r \<in> vw_revisions vw. no_later R r"
    using cr(1) by (auto simp: bx')
  obtain P where P: "presents (proposal_rank collate) proposal_groups (bs_proposals (bx_state bx')) P"
      "earliest (proposal_refs channel (W \<union> V)) P" "\<forall>r \<in> vw_proposals vw. no_later P r"
    using cp(1) by (auto simp: bx')
  obtain A where A: "presents agreement_rank agreement_groups (bs_agreements (bx_state bx')) A"
      "earliest (agreement_refs channel (W \<union> V)) A" "\<forall>r \<in> vw_agreements vw. no_later A r"
    using ca(1) by (auto simp: bx')
  let ?vw = "\<lparr>vw_revisions = R, vw_proposals = P, vw_agreements = A\<rparr>"
  have "rt_all (bs_revisions (bx_state bx')) \<noteq> None" "rt_all (bs_proposals (bx_state bx')) \<noteq> None"
    using cr(4) cp(4) all by (simp_all add: bx')
  then have shows': "shows_view collate (bx_state bx') ?vw" using R(1) P(1) A(1) by (simp add: shows_view_def index_shows_def)
  have "cache_ok (bx_state bx') (invalidate (fr @ dr) (bx_cache bx))"
    unfolding cache_ok_def
  proof (intro conjI allI impI)
    have keyed: "keyed (bx_cache bx)" using cache by (simp add: cache_ok_def)
    show "keyed (invalidate (fr @ dr) (bx_cache bx))" by (rule invalidate_keeps(1) [OF keyed])
    fix k rs at assume hit: "cached (invalidate (fr @ dr) (bx_cache bx)) k = Some (rs, at)"
    have old: "cached (bx_cache bx) k = Some (rs, at)" and late: "\<forall>r \<in> set (fr @ dr). place at < place (bf_at r)"
      using invalidate_keeps(2) [OF keyed hit] by blast+
    obtain q where q: "k = revision_cache_key q" "exact_query q" "at = pq_at q" "rs = select_revisions ?st q"
      using cache old unfolding cache_ok_def by blast
    have "\<forall>r. selected q r \<longrightarrow> place (bf_at r) \<le> place at" by (simp add: selected_def visible_def q(3))
    then have "same_view (selected q) (bs_revisions (bx_state bx')) (bs_revisions ?st)"
      using merge_view [OF t(1) cr(2,3) _ late] by (simp add: bx')
    moreover have "length (rt_buckets (bs_revisions ?st)) = 2" using presents_buckets(1) [OF t(1)] by (simp add: revision_groups_def)
    ultimately have "rs = select_revisions (bx_state bx') q" using select_view q(4) by metis
    then show "\<exists>q. k = revision_cache_key q \<and> exact_query q \<and> at = pq_at q \<and> rs = select_revisions (bx_state bx') q" using q by blast
  qed
  then have "cache_ok (bx_state bx') (bx_cache bx')" by (simp add: bx')
  moreover have "view_of sha channel (W \<union> V) ?vw" "no_later_view ?vw vw" using R P A by (simp_all add: view_of_def no_later_view_def)
  ultimately show ?thesis using shows' by (intro exI [of _ ?vw]) (simp add: p' bx')
qed

section \<open>Queries\<close>

definition matching :: "revision_query \<Rightarrow> browse_ref set \<Rightarrow> browse_ref set" where
  "matching q R = {r \<in> R. selected q r \<and> (case rq_mode q of
     OneSlot \<Rightarrow> slot_key (bf_slot r) = slot_key (the (rq_slot q))
   | OneDocument \<Rightarrow> document_id (bf_slot r) = the (rq_document q)
   | _ \<Rightarrow> True)}"

text \<open>One reference for each slot, none of which another reference of the slot precedes\<close>

definition newest_per_slot :: "(browse_ref \<Rightarrow> 'k :: linorder) \<Rightarrow> browse_ref list \<Rightarrow> browse_ref set \<Rightarrow> bool" where
  "newest_per_slot rank rs S \<longleftrightarrow> sorted (map rank rs) \<and> set rs \<subseteq> S \<and> distinct (map (\<lambda>r. slot_key (bf_slot r)) rs) \<and>
     (\<forall>r \<in> S. \<exists>e \<in> set rs. slot_key (bf_slot e) = slot_key (bf_slot r) \<and> rank e \<le> rank r)"

lemma first_per_slot_newest:
  assumes "sorted (map rank rs)"
  shows "sorted (map rank (first_per_slot seen rs)) \<and> set (first_per_slot seen rs) \<subseteq> set rs \<and>
    distinct (map (\<lambda>r. slot_key (bf_slot r)) (first_per_slot seen rs)) \<and>
    (\<forall>r \<in> set (first_per_slot seen rs). slot_key (bf_slot r) \<notin> seen) \<and>
    (\<forall>r \<in> set rs. slot_key (bf_slot r) \<notin> seen \<longrightarrow> (\<exists>e \<in> set (first_per_slot seen rs). slot_key (bf_slot e) = slot_key (bf_slot r) \<and> rank e \<le> rank r))"
  using assms
proof (induction rs arbitrary: seen)
  case (Cons r rs)
  let ?k = "slot_key (bf_slot r)"
  have s: "sorted (map rank rs)" "\<forall>x \<in> set rs. rank r \<le> rank x" using Cons.prems by auto
  show ?case
  proof (cases "?k \<in> seen")
    case True
    then show ?thesis using Cons.IH [OF s(1), of seen] by (auto simp: Let_def)
  next
    case False
    note IH = Cons.IH [OF s(1), of "insert ?k seen"]
    have "\<forall>x \<in> set (first_per_slot (insert ?k seen) rs). rank r \<le> rank x" using IH s(2) by blast
    moreover have "\<exists>e \<in> set (r # first_per_slot (insert ?k seen) rs). slot_key (bf_slot e) = slot_key (bf_slot x) \<and> rank e \<le> rank x"
      if x: "x \<in> set (r # rs)" "slot_key (bf_slot x) \<notin> seen" for x
    proof (cases "slot_key (bf_slot x) = ?k")
      case True
      then show ?thesis using x(1) s(2) by auto
    next
      case False
      then have "x \<in> set rs" "slot_key (bf_slot x) \<notin> insert ?k seen" using x by auto
      then show ?thesis using IH by (meson list.set_intros(2))
    qed
    ultimately show ?thesis using False IH by (auto simp: Let_def)
  qed
qed simp

definition annotates :: "browse_view \<Rightarrow> checkpoint \<Rightarrow> annotation \<Rightarrow> bool" where
  "annotates vw at an \<longleftrightarrow>
     (an_has_proposal an \<longleftrightarrow> (\<exists>r \<in> vw_proposals vw. bf_digest r = an_digest an \<and> visible (bf_at r) at)) \<and>
     (\<forall>r. an_revision an = Some r \<longleftrightarrow> r \<in> vw_revisions vw \<and> bf_key r = key_revision (an_digest an) \<and> visible (bf_at r) at) \<and>
     (let latest = {r \<in> vw_agreements vw. bf_digest r = an_digest an \<and> visible (bf_at r) at} in case an_agreement an of
        None \<Rightarrow> latest = {}
      | Some r \<Rightarrow> r \<in> latest \<and> (\<forall>e \<in> latest. agreement_rank r \<le> agreement_rank e))"

fun answers :: "(jstr \<Rightarrow> 'o :: linorder) \<Rightarrow> browse_view \<Rightarrow> browse_query \<Rightarrow> browse_answer \<Rightarrow> bool" where
  "answers collate vw (RevisionQuery q) (RevisionPage pg) \<longleftrightarrow> (\<exists>rs. pg = ref_page rs (pq_offset q) (pq_limit q) \<and>
     (if rq_mode q = LatestPerSlot then newest_per_slot (revision_rank collate) rs (matching q (vw_revisions vw))
      else listed (revision_rank collate) rs (matching q (vw_revisions vw))))"
| "answers collate vw (ProposalQuery q) (ProposalPage pg) \<longleftrightarrow> (\<exists>rs. pg = ref_page rs (pq_offset q) (pq_limit q) \<and>
     listed (proposal_rank collate) rs {r \<in> vw_proposals vw. visible (bf_at r) (pq_at q) \<and> selects (pq_digest q) (bf_digest r)})"
| "answers collate vw (AnnotationQuery q) (Annotations ans) \<longleftrightarrow>
     map an_digest ans = aq_digests q \<and> (\<forall>an \<in> set ans. annotates vw (aq_at q) an)"
| "answers collate vw q a \<longleftrightarrow> False"

lemma nth_bucket:
  assumes "presents rank groups t R" and "i < length groups"
  shows "listed rank (in_bucket (rt_buckets t ! i) b) {r \<in> R. (groups ! i) r = b}"
  using assms list_all2_nthD [of _ groups "rt_buckets t" i] by (auto simp: presents_def)

lemma select_answers:
  assumes st: "shows_view collate st vw"
  shows "answers collate vw (RevisionQuery q) (RevisionPage (ref_page (select_revisions st q) (pq_offset q) (pq_limit q)))"
proof -
  let ?rank = "revision_rank collate" and ?t = "bs_revisions st" and ?R = "vw_revisions vw"
  have t: "presents ?rank revision_groups ?t ?R" and "rt_all ?t \<noteq> None" using st by (simp_all add: shows_view_def index_shows_def)
  then have all: "listed ?rank (the (rt_all ?t)) ?R" by (auto simp: presents_def)
  have bucket: "listed ?rank (in_bucket (rt_buckets ?t ! 0) b) {r \<in> ?R. slot_key (bf_slot r) = b}"
      "listed ?rank (in_bucket (rt_buckets ?t ! 1) b) {r \<in> ?R. document_id (bf_slot r) = b}" for b
    using nth_bucket [OF t, of 0 b] nth_bucket [OF t, of 1 b] by (simp_all add: revision_groups_def)
  note select = listed_filter [where P = "selected q", OF all] listed_filter [where P = "selected q", OF bucket(1)] listed_filter [where P = "selected q", OF bucket(2)]
  show ?thesis
  proof (cases "rq_mode q")
    case LatestPerSlot
    let ?rs = "filter (selected q) (the (rt_all ?t))"
    have "sorted (map ?rank ?rs)" "set ?rs = matching q ?R" using select(1) LatestPerSlot by (simp_all add: listed_def matching_def)
    then have "newest_per_slot ?rank (first_per_slot {} ?rs) (matching q ?R)"
      using first_per_slot_newest [of ?rank ?rs "{}"] by (simp add: newest_per_slot_def)
    then show ?thesis using LatestPerSlot by (auto simp: select_revisions_def)
  next
    case AllRevisions
    then show ?thesis using select(1) by (auto simp: select_revisions_def matching_def)
  next
    case OneSlot
    then have "matching q ?R = {r \<in> {r \<in> ?R. slot_key (bf_slot r) = slot_key (the (rq_slot q))}. selected q r}" by (auto simp: matching_def)
    then show ?thesis using OneSlot select(2) [of "slot_key (the (rq_slot q))"] by (auto simp: select_revisions_def)
  next
    case OneDocument
    then have "matching q ?R = {r \<in> {r \<in> ?R. document_id (bf_slot r) = the (rq_document q)}. selected q r}" by (auto simp: matching_def)
    then show ?thesis using OneDocument select(3) [of "the (rq_document q)"] by (auto simp: select_revisions_def)
  qed
qed

lemma find_first: "find P xs = (case filter P xs of [] \<Rightarrow> None | x # _ \<Rightarrow> Some x)"
  by (induction xs) auto

lemma listed_first:
  "listed rank xs S \<Longrightarrow> case (case xs of [] \<Rightarrow> None | x # _ \<Rightarrow> Some x) of None \<Rightarrow> S = {} | Some r \<Rightarrow> r \<in> S \<and> (\<forall>e \<in> S. rank r \<le> rank e)"
  by (cases xs) (auto simp: listed_def)

lemma annotate_annotates:
  assumes st: "shows_view collate st vw"
  shows "annotates vw at (annotate st at d)"
proof -
  have t: "presents (revision_rank collate) revision_groups (bs_revisions st) (vw_revisions vw)"
      "presents (proposal_rank collate) proposal_groups (bs_proposals st) (vw_proposals vw)"
      "presents agreement_rank agreement_groups (bs_agreements st) (vw_agreements vw)" using st by (simp_all add: shows_view_def index_shows_def)
  have p: "set (in_bucket (rt_buckets (bs_proposals st) ! 0) d) = {r \<in> vw_proposals vw. bf_digest r = d}"
    using nth_bucket [OF t(2), of 0 d] by (simp add: proposal_groups_def listed_def)
  let ?as = "in_bucket (rt_buckets (bs_agreements st) ! 0) d"
  have a: "listed agreement_rank (filter (\<lambda>r. visible (bf_at r) at) ?as) {r \<in> vw_agreements vw. bf_digest r = d \<and> visible (bf_at r) at}"
    using listed_filter [OF nth_bucket [OF t(3), of 0 d]] by (simp add: agreement_groups_def)
  have k: "rt_by_key (bs_revisions st) (key_revision d) = Some r \<longleftrightarrow> r \<in> vw_revisions vw \<and> bf_key r = key_revision d" for r
    using presents_by_key [OF t(1)] by blast
  have "(\<forall>r. an_revision (annotate st at d) = Some r \<longleftrightarrow> r \<in> vw_revisions vw \<and> bf_key r = key_revision d \<and> visible (bf_at r) at)"
  proof (cases "rt_by_key (bs_revisions st) (key_revision d)")
    case None
    then have "\<not> (r \<in> vw_revisions vw \<and> bf_key r = key_revision d)" for r using k [of r] by simp
    then show ?thesis using None by (simp add: annotate_def) blast
  next
    case (Some e)
    then have "r \<in> vw_revisions vw \<and> bf_key r = key_revision d \<longleftrightarrow> r = e" for r using k [of r] by auto
    then show ?thesis using Some by (simp add: annotate_def) metis
  qed
  moreover have "an_has_proposal (annotate st at d) \<longleftrightarrow> (\<exists>r \<in> vw_proposals vw. bf_digest r = d \<and> visible (bf_at r) at)"
    using p by (auto simp: annotate_def list_ex_iff)
  moreover have "an_agreement (annotate st at d) = (case filter (\<lambda>r. visible (bf_at r) at) ?as of [] \<Rightarrow> None | x # _ \<Rightarrow> Some x)"
    by (simp add: annotate_def find_first)
  moreover have "an_digest (annotate st at d) = d" by (simp add: annotate_def)
  ultimately show ?thesis unfolding annotates_def Let_def using listed_first [OF a] by (simp only: simp_thms)
qed

lemma query_proposals_answers:
  assumes st: "shows_view collate st vw" and q: "query_proposals q st = Ok pg"
  shows "answers collate vw (ProposalQuery q) (ProposalPage pg)"
proof -
  have t: "presents (proposal_rank collate) proposal_groups (bs_proposals st) (vw_proposals vw)" and "rt_all (bs_proposals st) \<noteq> None"
    using st by (simp_all add: shows_view_def index_shows_def)
  then have all: "listed (proposal_rank collate) (the (rt_all (bs_proposals st))) (vw_proposals vw)" by (auto simp: presents_def)
  have pg: "pg = ref_page (filter (\<lambda>r. visible (bf_at r) (pq_at q)) (case pq_digest q of None \<Rightarrow> the (rt_all (bs_proposals st))
      | Some d \<Rightarrow> in_bucket (rt_buckets (bs_proposals st) ! 0) d)) (pq_offset q) (pq_limit q)"
    using q by (auto simp: query_proposals_def Let_def split: if_splits)
  show ?thesis
  proof (cases "pq_digest q")
    case None
    then show ?thesis using pg listed_filter [OF all] by (auto simp: selects_def)
  next
    case (Some d)
    let ?P = "\<lambda>r. visible (bf_at r) (pq_at q)"
    have "listed (proposal_rank collate) (in_bucket (rt_buckets (bs_proposals st) ! 0) d) {r \<in> vw_proposals vw. bf_digest r = d}"
      using nth_bucket [OF t, of 0 d] by (simp add: proposal_groups_def)
    from listed_filter [OF this, of ?P] have "listed (proposal_rank collate) (filter ?P (in_bucket (rt_buckets (bs_proposals st) ! 0) d))
        {r \<in> {r \<in> vw_proposals vw. bf_digest r = d}. ?P r}" .
    moreover have "{r \<in> {r \<in> vw_proposals vw. bf_digest r = d}. visible (bf_at r) (pq_at q)} =
        {r \<in> vw_proposals vw. visible (bf_at r) (pq_at q) \<and> selects (pq_digest q) (bf_digest r)}" using Some by (auto simp: selects_def)
    ultimately show ?thesis using pg Some by auto
  qed
qed

lemma exact_checkpoint: "browse_checkpoint_ok channel (pq_at q) \<Longrightarrow> exact_query q"
  by (auto simp: browse_checkpoint_ok_def exact_query_def max_safe_def)

lemma query_revisions_answers:
  assumes st: "shows_view collate (bx_state bx) vw" and cache: "cache_ok (bx_state bx) (bx_cache bx)" and exact: "exact_query q"
    and q: "query_revisions q bx = Ok (pg, bx')"
  shows "answers collate vw (RevisionQuery q) (RevisionPage pg) \<and> bx_state bx' = bx_state bx \<and> bx_channel bx' = bx_channel bx \<and>
    cache_ok (bx_state bx) (bx_cache bx')"
proof (cases "map_of (rc_entries (bx_cache bx)) (revision_cache_key q)")
  case None
  then have pg: "pg = ref_page (select_revisions (bx_state bx) q) (pq_offset q) (pq_limit q)"
    "bx' = bx\<lparr>bx_cache := cache_revisions (bx_limits bx) (revision_cache_key q) (select_revisions (bx_state bx) q) (pq_at q)
       (bx_cache bx\<lparr>rc_misses := rc_misses (bx_cache bx) + 1\<rparr>)\<rparr>"
    using q by (auto simp: query_revisions_def Let_def)
  have "cache_ok (bx_state bx) (bx_cache bx\<lparr>rc_misses := rc_misses (bx_cache bx) + 1\<rparr>)" using cache by (simp add: cache_ok_def)
  then show ?thesis using select_answers [OF st, of q] cache_ok_store [OF _ exact] by (simp add: pg)
next
  case (Some e)
  then have pg: "pg = ref_page (sn_refs e) (pq_offset q) (pq_limit q)"
    "bx' = bx\<lparr>bx_cache := touch_selection (revision_cache_key q) (bx_cache bx)\<rparr>"
    using q by (auto simp: query_revisions_def Let_def)
  have "sn_refs e = select_revisions (bx_state bx) q" using cache_ok_query [OF cache exact] Some by (simp add: cached_def)
  then show ?thesis using select_answers [OF st, of q] cache_ok_touch [OF cache] by (simp add: pg)
qed

lemma query_answers:
  assumes st: "shows_view collate (bx_state bx) vw" and cache: "cache_ok (bx_state bx) (bx_cache bx)"
    and q: "query_index q bx = Ok (a, bx')"
  shows "answers collate vw q a \<and> bx_state bx' = bx_state bx \<and> bx_channel bx' = bx_channel bx \<and> cache_ok (bx_state bx) (bx_cache bx')"
proof (cases q)
  case (RevisionQuery r)
  then obtain pg where "query_revisions r bx = Ok (pg, bx')" "a = RevisionPage pg" "browse_checkpoint_ok (bx_channel bx) (pq_at r)"
    using q by (auto simp: query_index_def split: if_splits)
  then show ?thesis using query_revisions_answers [OF st cache exact_checkpoint] RevisionQuery by blast
next
  case (ProposalQuery r)
  then obtain pg where "query_proposals r (bx_state bx) = Ok pg" "a = ProposalPage pg" "bx' = bx"
    using q by (auto simp: query_index_def split: if_splits)
  then show ?thesis using query_proposals_answers [OF st] ProposalQuery cache by blast
next
  case (AnnotationQuery r)
  then obtain ans where "query_annotations r (bx_state bx) = Ok ans" "a = Annotations ans" "bx' = bx"
    using q by (auto simp: query_index_def split: if_splits)
  moreover from this have "ans = map (annotate (bx_state bx) (aq_at r)) (aq_digests r)" by (auto simp: query_annotations_def split: if_splits)
  ultimately show ?thesis using AnnotationQuery cache annotate_annotates [OF st] by (simp add: annotate_def comp_def)
qed

section \<open>Histories of an index\<close>

text \<open>Preparations may overlap and commit in any order; \<open>W\<close> holds the writes of what was committed.\<close>

inductive browse_run :: "sha_fn \<Rightarrow> (jstr \<Rightarrow> 'o :: linorder) \<Rightarrow> jstr \<Rightarrow> browse_index \<Rightarrow> (prepared_browse \<times> browse_batch list) list \<Rightarrow> write_at set \<Rightarrow> bool"
  for sha collate channel where
  opened: "new_browse_index channel lm = Ok bx \<Longrightarrow> browse_run sha collate channel bx [] {}"
| prepared: "browse_run sha collate channel bx out W \<Longrightarrow> browse_prepare sha channel (bx_state bx) bs = Ok p \<Longrightarrow>
    browse_run sha collate channel bx (out @ [(p, bs)]) W"
| committed: "browse_run sha collate channel bx out W \<Longrightarrow> i < length out \<Longrightarrow> out ! i = (p, bs) \<Longrightarrow>
    browse_commit collate p bx = Ok (p', bx') \<Longrightarrow> browse_run sha collate channel bx' (out[i := (p', bs)]) (W \<union> writes_of bs)"
| queried: "browse_run sha collate channel bx out W \<Longrightarrow> query_index q bx = Ok (a, bx') \<Longrightarrow> browse_run sha collate channel bx' out W"

definition run_invariant :: "sha_fn \<Rightarrow> (jstr \<Rightarrow> 'o :: linorder) \<Rightarrow> jstr \<Rightarrow> browse_index \<Rightarrow> (prepared_browse \<times> browse_batch list) list \<Rightarrow> write_at set \<Rightarrow> browse_view \<Rightarrow> bool" where
  "run_invariant sha collate channel bx out W vw \<longleftrightarrow> shows_view collate (bx_state bx) vw \<and> view_of sha channel W vw \<and>
     cache_ok (bx_state bx) (bx_cache bx) \<and>
     (\<forall>(p, bs) \<in> set out. if pv_committed p then writes_of bs \<subseteq> W else awaits sha channel vw p (writes_of bs))"

lemma empty_presents: "presents rank groups (empty_table b (length groups)) {}"
  by (auto simp: presents_def empty_table_def in_bucket_def list_all2_conv_all_nth)

lemma browse_run_invariant: "browse_run sha collate channel bx out W \<Longrightarrow> \<exists>vw. run_invariant sha collate channel bx out W vw"
proof (induction rule: browse_run.induct)
  case (opened lm bx)
  let ?vw = "\<lparr>vw_revisions = {}, vw_proposals = {}, vw_agreements = {}\<rparr>"
  have bx: "bx_state bx = empty_browse_state" "bx_cache bx = empty_revision_cache"
    using opened by (auto simp: new_browse_index_def split: if_splits)
  have "shows_view collate (bx_state bx) ?vw"
    using empty_presents [of "revision_rank collate" revision_groups True] empty_presents [of "proposal_rank collate" proposal_groups True]
      empty_presents [of agreement_rank agreement_groups False]
    by (simp add: shows_view_def index_shows_def bx empty_browse_state_def revision_groups_def proposal_groups_def agreement_groups_def)
      (simp add: empty_table_def numeral_2_eq_2)
  moreover have "view_of sha channel {} ?vw" by (simp add: view_of_def earliest_def)
  moreover have "cache_ok (bx_state bx) (bx_cache bx)" by (simp add: cache_ok_def bx keyed_def cached_def empty_revision_cache_def)
  ultimately show ?case unfolding run_invariant_def by fastforce
next
  case (prepared bx out W bs p)
  then obtain vw where vw: "run_invariant sha collate channel bx out W vw" by blast
  then have "collects sha channel (vw_revisions vw) (vw_proposals vw) (vw_agreements vw) (writes_of bs) p"
    using prepare_collects [OF _ prepared.hyps(2)] by (auto simp: run_invariant_def shows_view_def)
  then have "\<not> pv_committed p" "awaits sha channel vw p (writes_of bs)" using collectsD by (auto simp: awaits_def)
  then show ?case using vw by (intro exI [of _ vw]) (simp add: run_invariant_def)
next
  case (committed bx out W i p bs p' bx')
  then obtain vw where vw: "shows_view collate (bx_state bx) vw" "view_of sha channel W vw" "cache_ok (bx_state bx) (bx_cache bx)"
      "\<forall>(p, bs) \<in> set out. if pv_committed p then writes_of bs \<subseteq> W else awaits sha channel vw p (writes_of bs)"
    unfolding run_invariant_def by blast
  have mem: "(p, bs) \<in> set out" using committed.hyps(2,3) by (metis nth_mem)
  show ?case
  proof (cases "pv_committed p")
    case True
    then have same: "p' = p" "bx' = bx" using committed.hyps(4) by (simp_all add: browse_commit_def)
    have "writes_of bs \<subseteq> W" using vw(4) mem True by fastforce
    then have "W \<union> writes_of bs = W" by blast
    moreover have "out[i := (p', bs)] = out" using committed.hyps(3) same by (metis list_update_id)
    ultimately show ?thesis using vw same by (intro exI [of _ vw]) (simp add: run_invariant_def)
  next
    case False
    then have waits: "awaits sha channel vw p (writes_of bs)" using vw(4) mem by fastforce
    obtain vw' where vw': "shows_view collate (bx_state bx') vw'" "view_of sha channel (W \<union> writes_of bs) vw'" "no_later_view vw' vw"
        "cache_ok (bx_state bx') (bx_cache bx')" "pv_committed p'"
      using commit_index [OF committed.hyps(4) False vw(1,2) waits vw(3)] by blast
    have "if pv_committed r then writes_of cs \<subseteq> W \<union> writes_of bs else awaits sha channel vw' r (writes_of cs)"
      if rc: "(r, cs) \<in> set (out[i := (p', bs)])" for r cs
    proof -
      have "(r, cs) = (p', bs) \<or> (r, cs) \<in> set out" using set_update_subset_insert [of out i "(p', bs)"] rc by blast
      then show ?thesis
      proof
        assume "(r, cs) \<in> set out"
        then have "if pv_committed r then writes_of cs \<subseteq> W else awaits sha channel vw r (writes_of cs)" using vw(4) by blast
        then show ?thesis using awaits_later [OF _ vw'(3)] by (auto split: if_splits)
      qed (use vw'(5) in simp)
    qed
    then show ?thesis using vw' unfolding run_invariant_def by blast
  qed
next
  case (queried bx out W q a bx')
  then obtain vw where vw: "run_invariant sha collate channel bx out W vw" by blast
  then show ?case using query_answers [OF _ _ queried.hyps(2), of collate vw] by (intro exI [of _ vw]) (simp add: run_invariant_def)
qed

section \<open>A concrete history\<close>

text \<open>Two overlapping preparations publish one revision; the later checkpoint is committed first.\<close>

definition demo_at :: "int \<Rightarrow> checkpoint" where
  "demo_at n = \<lparr>cp_channel = js ''chan'', cp_block = n, cp_index = 0, cp_tx = js ''tx1'', cp_hash = js ''h''\<rparr>"

definition demo_batch :: "int \<Rightarrow> browse_batch" where
  "demo_batch n = \<lparr>bb_at = demo_at n, bb_writes = [(key_revision (rv_digest demo_revision), enc_revision demo_revision)]\<rparr>"

definition demo_ref :: "int \<Rightarrow> browse_ref" where
  "demo_ref n = \<lparr>bf_key = key_revision (rv_digest demo_revision), bf_digest = rv_digest demo_revision, bf_slot = demo_slot, bf_at = demo_at n\<rparr>"

definition demo_query :: "int \<Rightarrow> revision_query" where
  "demo_query n = \<lparr>pq_at = demo_at n, pq_offset = 0, pq_limit = 10, rq_mode = AllRevisions, rq_slot = None, rq_document = None,
     rq_context = None, rq_scope = None, rq_usage = None\<rparr>"

lemma demo_ref: "revision_ref demo_sha (js ''chan'') (demo_at n) (key_revision (rv_digest demo_revision)) (enc_revision demo_revision) = Ok (demo_ref n)"
proof -
  have "channel_id (rv_slot demo_revision) = js ''chan''" "rv_slot demo_revision = demo_slot" by (simp_all add: demo_revision_def demo_payload_def demo_slot_def)
  then show ?thesis using revision.dec_enc [OF wf_demo_revision] by (simp add: revision_ref_def of_record_def demo_ref_def)
qed

lemma names_kind_key: "names_kind KRevision (key_revision d)"
  by (simp add: names_kind_def key_revision_def state_key_def)

lemma demo_checkpoint: "0 \<le> n \<Longrightarrow> n \<le> max_safe \<Longrightarrow> browse_checkpoint_ok (js ''chan'') (demo_at n)"
  by (simp add: browse_checkpoint_ok_def demo_at_def max_safe_def js_def)

definition demo_prepared :: "int \<Rightarrow> prepared_browse" where
  "demo_prepared n = \<lparr>pv_revisions = \<lparr>dl_added = [demo_ref n], dl_demote = []\<rparr>, pv_proposals = empty_delta, pv_agreements = empty_delta,
     pv_committed = False\<rparr>"

lemma demo_prepare: "0 \<le> n \<Longrightarrow> n \<le> max_safe \<Longrightarrow> browse_prepare demo_sha (js ''chan'') empty_browse_state [demo_batch n] = Ok (demo_prepared n)"
  using demo_ref [of n] demo_checkpoint [of n]
  by (simp add: browse_prepare_def prepare_batch_def demo_batch_def browse_write_def names_kind_key stage_ref_def ref_of_def demo_prepared_def
      empty_delta_def empty_browse_state_def empty_table_def) (simp add: demo_at_def)

lemma demo_writes: "writes_of [demo_batch n] = {(demo_at n, key_revision (rv_digest demo_revision), enc_revision demo_revision)}"
  by (auto simp: writes_of_def demo_batch_def)

lemma demo_browse_steps:
  "\<exists>bx out. browse_run demo_sha (\<lambda>s. s) (js ''chan'') bx out (writes_of [demo_batch 5] \<union> writes_of [demo_batch 3]) \<and> bx_channel bx = js ''chan'' \<and>
     bx_cache bx = empty_revision_cache"
proof -
  define bx where "bx = \<lparr>bx_channel = js ''chan'', bx_limits = default_browse_limits, bx_state = empty_browse_state, bx_cache = empty_revision_cache\<rparr>"
  have "new_browse_index (js ''chan'') default_browse_limits = Ok bx" by (simp add: new_browse_index_def bx_def js_def)
  then have r0: "browse_run demo_sha (\<lambda>s. s) (js ''chan'') bx [] {}" by (rule opened)
  have r1: "browse_run demo_sha (\<lambda>s. s) (js ''chan'') bx [(demo_prepared 5, [demo_batch 5])] {}"
    using prepared [OF r0, of "[demo_batch 5]" "demo_prepared 5"] demo_prepare [of 5] by (simp add: bx_def max_safe_def)
  have r2: "browse_run demo_sha (\<lambda>s. s) (js ''chan'') bx [(demo_prepared 5, [demo_batch 5]), (demo_prepared 3, [demo_batch 3])] {}"
    using prepared [OF r1, of "[demo_batch 3]" "demo_prepared 3"] demo_prepare [of 3] by (simp add: bx_def max_safe_def)
  obtain p1 bx1 where c1: "browse_commit (\<lambda>s. s) (demo_prepared 5) bx = Ok (p1, bx1)" "bx_channel bx1 = js ''chan''" "bx_cache bx1 = empty_revision_cache"
      "rt_by_key (bs_revisions (bx_state bx1)) (bf_key (demo_ref 5)) = Some (demo_ref 5)"
    by (auto simp: browse_commit_def demo_prepared_def bx_def empty_delta_def recheck_added_def empty_browse_state_def empty_table_def Let_def
        invalidate_def empty_revision_cache_def merge_delta_def with_incoming_def without_demoted_def)
  have r3: "browse_run demo_sha (\<lambda>s. s) (js ''chan'') bx1 [(p1, [demo_batch 5]), (demo_prepared 3, [demo_batch 3])] (writes_of [demo_batch 5])"
    using committed [OF r2, of 0 "demo_prepared 5" "[demo_batch 5]" p1 bx1] c1(1) by simp
  have same: "same_revision_ref (demo_ref 5) (demo_ref 3)" "bf_key (demo_ref 3) = bf_key (demo_ref 5)" "earlier_than (demo_ref 3) (Some (demo_ref 5))"
    by (simp_all add: same_revision_ref_def demo_ref_def earlier_than_def place_def demo_at_def)
  obtain p2 bx2 where c2: "browse_commit (\<lambda>s. s) (demo_prepared 3) bx1 = Ok (p2, bx2)" "bx_channel bx2 = js ''chan''" "bx_cache bx2 = empty_revision_cache"
    using c1(2-4) same
    by (auto simp: browse_commit_def demo_prepared_def empty_delta_def recheck_added_def Let_def invalidate_def empty_revision_cache_def)
  show ?thesis
    using committed [OF r3, of 1 "demo_prepared 3" "[demo_batch 3]" p2 bx2] c2 by auto
qed

text \<open>
  C39. The browse index answers from the earliest publications. Whatever preparations overlapped and in whatever order
  they were committed, there is one view, which has for every key of the committed writes the reference with an earliest
  checkpoint, and every query that succeeds, whether the cache knows it or not, answers from this view: a page of the
  matching references visible at its checkpoint, in the order of the index, the newest one per slot, or the annotations.
\<close>

theorem browse_answers_from_writes:
  assumes "browse_run sha collate channel bx out W"
  shows "\<exists>vw. view_of sha channel W vw \<and> (\<forall>q a bx'. query_index q bx = Ok (a, bx') \<longrightarrow> answers collate vw q a)"
proof -
  obtain vw where vw: "run_invariant sha collate channel bx out W vw" using browse_run_invariant [OF assms] by blast
  then have "shows_view collate (bx_state bx) vw" "cache_ok (bx_state bx) (bx_cache bx)" "view_of sha channel W vw"
    by (simp_all add: run_invariant_def)
  then show ?thesis using query_answers by blast
qed

theorem browse_answers_from_writes_witness:
  "\<exists>bx out W pg bx'. browse_run demo_sha (\<lambda>s. s) (js ''chan'') bx out W \<and>
     query_index (RevisionQuery (demo_query 4)) bx = Ok (RevisionPage pg, bx') \<and> bp_items pg = [demo_ref 3] \<and> bp_total pg = 1"
proof -
  let ?W = "writes_of [demo_batch 5] \<union> writes_of [demo_batch 3]"
  obtain bx out where run: "browse_run demo_sha (\<lambda>s. s) (js ''chan'') bx out ?W" "bx_channel bx = js ''chan''" "bx_cache bx = empty_revision_cache"
    using demo_browse_steps by blast
  obtain vw where vw: "view_of demo_sha (js ''chan'') ?W vw"
      and ans: "\<forall>q a bx'. query_index q bx = Ok (a, bx') \<longrightarrow> answers (\<lambda>s. s) vw q a"
    using browse_answers_from_writes [OF run(1)] by blast
  have "browse_checkpoint_ok (js ''chan'') (demo_at 4)" by (rule demo_checkpoint) (simp_all add: max_safe_def)
  then obtain pg bx' where q: "query_index (RevisionQuery (demo_query 4)) bx = Ok (RevisionPage pg, bx')"
    using run(2,3) by (auto simp: query_index_def query_revisions_def check_revision_query_def demo_query_def selector_ok_def page_range_ok_def
        empty_revision_cache_def max_safe_def Let_def)
  have "revision_refs demo_sha (js ''chan'') ?W = {demo_ref 5, demo_ref 3}"
    by (auto simp: revision_refs_def demo_writes demo_ref names_kind_key)
  then have R: "earliest {demo_ref 5, demo_ref 3} (vw_revisions vw)" using vw by (simp add: view_of_def)
  have places: "bf_key (demo_ref 3) = bf_key (demo_ref 5)" "\<not> place (bf_at (demo_ref 5)) \<le> place (bf_at (demo_ref 3))"
    by (simp_all add: demo_ref_def place_def demo_at_def)
  have "no_later (vw_revisions vw) (demo_ref 3)" using R by (simp add: earliest_def)
  then obtain e where e: "e \<in> vw_revisions vw" "place (bf_at e) \<le> place (bf_at (demo_ref 3))" by (auto simp: no_later_def)
  then have mem: "demo_ref 3 \<in> vw_revisions vw" using R places(2) unfolding earliest_def by blast
  have "vw_revisions vw = {demo_ref 3}"
  proof -
    have "demo_ref 5 \<in> vw_revisions vw \<Longrightarrow> demo_ref 5 = demo_ref 3"
      using R mem places(1) unfolding earliest_def inj_on_def by metis
    then show ?thesis using R mem unfolding earliest_def by blast
  qed
  moreover have "selected (demo_query 4) (demo_ref 3)"
    by (simp add: selected_def demo_query_def demo_ref_def visible_def selects_def place_def demo_at_def)
  ultimately have "matching (demo_query 4) (vw_revisions vw) = {demo_ref 3}" by (auto simp: matching_def demo_query_def)
  then obtain rs where "pg = ref_page rs 0 10" "listed (revision_rank (\<lambda>s. s)) rs {demo_ref 3}"
    using ans q by (fastforce simp: demo_query_def)
  moreover from this(2) have "rs = [demo_ref 3]"
    by (cases rs; cases "tl rs") (auto simp: listed_def)
  ultimately show ?thesis using run(1) q by (intro exI [of _ bx] exI [of _ out] exI [of _ ?W] exI [of _ pg] exI [of _ bx']) (simp add: ref_page_def)
qed

end
