(* ===== verification/DurableSafety.thy ===== *)
theory DurableSafety
  imports DurableProjection ProjectorSafety BrowseSafety
begin

text \<open>
  What the durable projection promises.  Whatever happens to its tables between two operations, an answer is one that
  the blocks which the process has verified give: a value is the last one written at or before the checkpoint, or the
  operation fails.  Damage to the journal can only go unnoticed through a collision of the hash.
\<close>

section \<open>Hexadecimal digests\<close>

definition hex_text :: "jstr \<Rightarrow> bool" where
  "hex_text s \<longleftrightarrow> list_all hex_lower_char s"

lemma hex_lower_value:
  assumes "hex_lower_char u"
  shows "\<exists>d < 16. u = hex_lower d \<and> hex_value u = Some d"
proof (cases "is_digit (unat u)")
  case True
  then have small: "unat u - 48 < 10" by (auto simp: is_digit_def)
  then have "u = hex_lower (unat u - 48)" using True by (simp add: hex_lower_def is_digit_def)
  then show ?thesis using small hex_value_lower [of "unat u - 48"] by (intro exI [of _ "unat u - 48"]) simp
next
  case False
  then have "97 \<le> unat u" "unat u \<le> 102" using assms by (simp_all add: hex_lower_char_def)
  then have "unat u - 87 < 16" "\<not> unat u - 87 < 10" "87 + (unat u - 87) = unat u" by linarith+
  then have small: "unat u - 87 < 16" "u = hex_lower (unat u - 87)" by (simp_all only: hex_lower_def if_False) simp_all
  then show ?thesis using hex_value_lower [OF small(1)] by (intro exI [of _ "unat u - 87"]) simp
qed

lemma from_hex_pair:
  assumes "from_hex (a # b # s) = from_hex (c # d # t)" and "hex_text (a # b # s)" and "hex_text (c # d # t)"
  shows "a = c \<and> b = d \<and> from_hex s = from_hex t"
proof -
  have digits: "hex_lower_char a" "hex_lower_char b" "hex_lower_char c" "hex_lower_char d" using assms by (simp_all add: hex_text_def)
  obtain x where x: "x < 16" "a = hex_lower x" "hex_value a = Some x" using hex_lower_value [OF digits(1)] by blast
  obtain y where y: "y < 16" "b = hex_lower y" "hex_value b = Some y" using hex_lower_value [OF digits(2)] by blast
  obtain z where z: "z < 16" "c = hex_lower z" "hex_value c = Some z" using hex_lower_value [OF digits(3)] by blast
  obtain w where w: "w < 16" "d = hex_lower w" "hex_value d = Some w" using hex_lower_value [OF digits(4)] by blast
  have eq: "16 * x + y = 16 * z + w" "from_hex s = from_hex t" using assms(1) by (simp_all add: x(3) y(3) z(3) w(3))
  moreover have "(16 * x + y) div 16 = x" "(16 * x + y) mod 16 = y" "(16 * z + w) div 16 = z" "(16 * z + w) mod 16 = w"
    using y(1) w(1) by simp_all
  ultimately have "x = z" "y = w" by metis+
  then show ?thesis using eq(2) x(2) y(2) z(2) w(2) by simp
qed

lemma from_hex_inject: "from_hex s = from_hex t \<Longrightarrow> hex_text s \<Longrightarrow> hex_text t \<Longrightarrow> length s = length t \<Longrightarrow> even (length s) \<Longrightarrow> s = t"
proof (induction s arbitrary: t rule: induct_list012)
  case (3 a b s)
  then obtain c d u where t: "t = c # d # u" by (metis Suc_length_conv list.size(4))
  note same = from_hex_pair [OF "3.prems"(1-3) [unfolded t]]
  have "s = u" using "3.prems" t same by (intro "3.IH"(1)) (simp_all add: hex_text_def)
  then show ?case using t same by simp
next
  case (2 x)
  then show ?case by (metis One_nat_def length_Cons list.size(3) odd_one)
qed simp

lemma hex_shaD: "hex_sha sha \<Longrightarrow> hex_text (sha bs) \<and> length (sha bs) = 64"
  by (simp add: hex_sha_def hex_text_def)

section \<open>The digest of a journal\<close>

definition journal_digest :: "sha_fn \<Rightarrow> jstr list \<Rightarrow> jstr" where
  "journal_digest sha ds = foldl (append_journal_digest sha) empty_journal_digest ds"

lemma journal_digest_snoc: "journal_digest sha (ds @ [d]) = append_journal_digest sha (journal_digest sha ds) d"
  by (simp add: journal_digest_def)

text \<open>The byte strings that the digest of a journal hashes\<close>

fun chain_inputs :: "sha_fn \<Rightarrow> jstr \<Rightarrow> jstr list \<Rightarrow> nat list list" where
  "chain_inputs sha previous [] = []"
| "chain_inputs sha previous (d # ds) = from_hex (previous @ d) # chain_inputs sha (append_journal_digest sha previous d) ds"

lemma chain_inject:
  assumes "hex_sha sha" and "length ds = length es" and "foldl (append_journal_digest sha) p ds = foldl (append_journal_digest sha) q es"
    and "inj_on sha (set (chain_inputs sha p ds) \<union> set (chain_inputs sha q es))"
    and "hex_text p" "length p = 64" "hex_text q" "length q = 64" and "\<forall>d \<in> set ds \<union> set es. hex_text d \<and> length d = 64"
  shows "p = q \<and> ds = es"
  using assms
proof (induction ds arbitrary: p q es)
  case (Cons d ds)
  then obtain e es1 where es: "es = e # es1" "length ds = length es1" by (cases es) auto
  let ?p = "append_journal_digest sha p d" and ?q = "append_journal_digest sha q e"
  have shape: "hex_text ?p" "length ?p = 64" "hex_text ?q" "length ?q = 64"
    using hex_shaD [OF Cons.prems(1)] by (simp_all add: append_journal_digest_def)
  have "foldl (append_journal_digest sha) ?p ds = foldl (append_journal_digest sha) ?q es1" using Cons.prems(3) es(1) by simp
  moreover have "inj_on sha (set (chain_inputs sha ?p ds) \<union> set (chain_inputs sha ?q es1))"
    using Cons.prems(4) es(1) by (rule_tac inj_on_subset) auto
  moreover have "\<forall>d \<in> set ds \<union> set es1. hex_text d \<and> length d = 64" using Cons.prems(9) es(1) by auto
  ultimately have ih: "?p = ?q" "ds = es1" using Cons.IH [OF Cons.prems(1) es(2)] shape by blast+
  have "from_hex (p @ d) = from_hex (q @ e)"
    using inj_onD [OF Cons.prems(4), of "from_hex (p @ d)" "from_hex (q @ e)"] ih(1) es(1) by (simp add: append_journal_digest_def)
  then have "p @ d = q @ e" using Cons.prems(5-9) es(1) by (intro from_hex_inject) (auto simp: hex_text_def)
  then show ?case using ih(2) es(1) Cons.prems(6,8) by simp
qed simp

section \<open>Projections of a list of blocks\<close>

text \<open>The projector after the blocks, and their results\<close>

inductive projects :: "sha_fn \<Rightarrow> real_fn \<Rightarrow> protos \<Rightarrow> projector_options \<Rightarrow> nat list list \<Rightarrow> projector \<Rightarrow> block_result list \<Rightarrow> bool"
  for sha real pt po where
  no_blocks: "new_projector sha po = Ok p \<Longrightarrow> projects sha real pt po [] p []"
| one_more: "projects sha real pt po bs p rs \<Longrightarrow> apply_block sha real pt b p = Ok (r, p') \<Longrightarrow>
    projects sha real pt po (bs @ [b]) p' (rs @ [r])"

inductive_cases projects_NilE: "projects sha real pt po [] p rs"
inductive_cases projects_snocE: "projects sha real pt po (bs @ [b]) p rs"

lemma projects_length: "projects sha real pt po bs p rs \<Longrightarrow> length rs = length bs"
  by (induction rule: projects.induct) simp_all

lemma projects_unique: "projects sha real pt po bs p rs \<Longrightarrow> projects sha real pt po bs q ss \<Longrightarrow> p = q \<and> rs = ss"
proof (induction arbitrary: q ss rule: projects.induct)
  case (no_blocks p)
  then show ?case by (auto elim!: projects_NilE)
next
  case (one_more bs p rs b r p')
  then show ?case by (fastforce elim!: projects_snocE)
qed

lemma projects_take: "projects sha real pt po bs p rs \<Longrightarrow> n \<le> length bs \<Longrightarrow> \<exists>q. projects sha real pt po (take n bs) q (take n rs)"
proof (induction rule: projects.induct)
  case (no_blocks p)
  have "projects sha real pt po [] p []" using no_blocks.hyps by (rule projects.no_blocks)
  then show ?case by auto
next
  case (one_more bs p rs b r p')
  have len: "length rs = length bs" using projects_length [OF one_more.hyps(1)] .
  show ?case
  proof (cases "n \<le> length bs")
    case True
    then show ?thesis using one_more.IH len by simp
  next
    case False
    then have "n = Suc (length bs)" using one_more.prems by simp
    then show ?thesis using projects.one_more [OF one_more.hyps(1,2)] len by auto
  qed
qed

section \<open>What a block does\<close>

lemma staged_writes:
  "foldR (stage_write state) ws over = Ok over' \<Longrightarrow> over' = fold (\<lambda>(k, v). upsert k v) (map (\<lambda>(k, v). (k, jnorm v)) ws) over"
proof (induction ws arbitrary: over)
  case (Cons w ws)
  then obtain over1 where "stage_write state w over = Ok over1" "foldR (stage_write state) ws over1 = Ok over'" by auto
  then show ?case using Cons.IH stage_write_Ok [of state "fst w" "snd w" over over1] by (cases w) auto
qed simp

lemma cloned_writes: "clone_writes tx = Ok tx' \<Longrightarrow> tx' = tx\<lparr>px_writes := map (\<lambda>(k, v). (k, jnorm v)) (px_writes tx)\<rparr>"
proof -
  have "mapR (\<lambda>(k, v). rmap (\<lambda>c. (k, c)) (canonical (clone_canonical v))) ws = Ok ws' \<Longrightarrow> ws' = map (\<lambda>(k, v). (k, jnorm v)) ws" for ws ws'
    by (induction ws arbitrary: ws') auto
  then show "clone_writes tx = Ok tx' \<Longrightarrow> ?thesis" by (auto simp: clone_writes_def)
qed

definition block_writes_of :: "block_result \<Rightarrow> (jstr \<times> json) list" where
  "block_writes_of r = concat (map px_writes (filter px_valid (br_transactions r)))"

lemma staged_transactions:
  assumes "foldR (stage_transaction state) txs over = Ok over'" and "mapR clone_writes txs = Ok copies"
  shows "over' = fold (\<lambda>(k, v). upsert k v) (concat (map px_writes (filter px_valid copies))) over"
  using assms
proof (induction txs arbitrary: over copies)
  case (Cons tx txs)
  then obtain over1 where first: "stage_transaction state tx over = Ok over1" and more: "foldR (stage_transaction state) txs over1 = Ok over'" by auto
  obtain c cs where c: "copies = c # cs" "clone_writes tx = Ok c" "mapR clone_writes txs = Ok cs" using Cons.prems(2) by auto
  have "over1 = (if px_valid tx then fold (\<lambda>(k, v). upsert k v) (map (\<lambda>(k, v). (k, jnorm v)) (px_writes tx)) over else over)"
    using first staged_writes by (auto simp: stage_transaction_def split: if_splits)
  then show ?case using Cons.IH [OF more c(3)] c(1) cloned_writes [OF c(2)] by simp
qed simp

lemma decode_transaction_index: "decode_transaction sha real pt tg data index code = Ok tx \<Longrightarrow> px_index tx = index"
  by (auto simp: decode_transaction_def Let_def split: option.splits if_splits)

lemma check_transactions_index:
  assumes "foldR (check_transaction sha real pt tg number) (zip xs (zip [i..<i + length xs] codes)) (acc, ids) = Ok (txs, ids')"
    and "length codes = length xs" and "map px_index acc = [0..<i]"
  shows "map px_index txs = [0..<i + length xs]"
proof -
  obtain new where new: "txs = acc @ new" "list_all2 (\<lambda>(data, index, code) tx. decode_transaction sha real pt tg data index code = Ok tx)
      (zip xs (zip [i..<i + length xs] codes)) new"
    using check_transactions_Ok [OF assms(1)] by blast
  have len: "length new = length xs" using list_all2_lengthD [OF new(2)] assms(2) by simp
  have "map px_index new = [i..<i + length xs]"
  proof (rule nth_equalityI)
    fix j assume "j < length (map px_index new)"
    then have j: "j < length xs" using len by simp
    have "decode_transaction sha real pt tg (xs ! j) (i + j) (codes ! j) = Ok (new ! j)"
      using list_all2_nthD [OF new(2), of j] j assms(2) by simp
    then show "map px_index new ! j = [i..<i + length xs] ! j" using decode_transaction_index j len by simp
  qed (simp add: len)
  then show ?thesis using new(1) assms(3) upt_add_eq_append [of 0 i "length xs"] by simp
qed

lemma cloned_index: "mapR clone_writes txs = Ok copies \<Longrightarrow> map px_index copies = map px_index txs"
  by (induction txs arbitrary: copies) (auto dest: cloned_writes)

definition next_number :: "projector \<Rightarrow> int" where
  "next_number p = (case pj_checkpoint p of None \<Rightarrow> 0 | Some cp \<Rightarrow> pc_number cp + 1)"

lemma apply_block_parts:
  assumes "apply_block sha real pt b p = Ok (r, p')"
  obtains block h entries metadata prepared txs ids copies where "pt_block pt b = Some block"
    "bl_header block = Some h" "bl_data block = Some entries" "bl_metadata block = Some metadata"
    "prepare_block sha real pt b p = Ok prepared" "r = pb_result prepared" "commit_block_writes prepared p = Ok p'"
    "check_header sha (pj_checkpoint p) h entries = Ok ()" "length (metadata ! 2) = length entries"
    "foldR (check_transaction sha real pt (pj_target p) (hd_number h)) (zip entries (zip [0..<length entries] (metadata ! 2))) ([], []) = Ok (txs, ids)"
    "foldR (stage_transaction (pj_state p)) txs [] = Ok (pb_staged prepared)" "mapR clone_writes txs = Ok copies"
    "br_transactions r = copies" "pc_number (br_checkpoint r) = hd_number h" "pc_data (br_checkpoint r) = sha (concat entries)"
    "fabric_block_header_hash sha h = Ok (pc_hash (br_checkpoint r))" "pb_base prepared = pj_checkpoint p"
proof -
  obtain prepared where prep: "prepare_block sha real pt b p = Ok prepared" and r: "r = pb_result prepared"
      and p': "commit_block_writes prepared p = Ok p'"
    using assms by (auto simp: apply_block_def)
  obtain block where block: "decode_message (pt_block pt) b = Ok block" using prep by (auto simp: prepare_block_def)
  obtain h entries metadata where parts: "bl_header block = Some h" "bl_data block = Some entries" "bl_metadata block = Some metadata"
    using prep block by (auto simp: prepare_block_def split: option.splits)
  obtain txs ids copies where "check_header sha (pj_checkpoint p) h entries = Ok ()" "length (metadata ! 2) = length entries"
    "foldR (check_transaction sha real pt (pj_target p) (hd_number h)) (zip entries (zip [0..<length entries] (metadata ! 2))) ([], []) = Ok (txs, ids)"
    "foldR (stage_transaction (pj_state p)) txs [] = Ok (pb_staged prepared)" "mapR clone_writes txs = Ok copies"
    "br_transactions r = copies" "pc_number (br_checkpoint r) = hd_number h" "pc_data (br_checkpoint r) = sha (concat entries)"
    "fabric_block_header_hash sha h = Ok (pc_hash (br_checkpoint r))" "pb_base prepared = pj_checkpoint p"
    using prep block parts r by (auto simp: prepare_block_def split: if_splits)
  then show ?thesis using that decode_message_Ok [OF block] parts prep r p' by blast
qed

text \<open>The effects of an accepted block on the projector, by its result\<close>

lemma apply_block_effects:
  assumes "apply_block sha real pt b p = Ok (r, p')"
  shows "pj_checkpoint p' = Some (br_checkpoint r) \<and> pc_number (br_checkpoint r) = next_number p \<and>
    map px_index (br_transactions r) = [0..<length (br_transactions r)] \<and>
    pj_state p' = fold (\<lambda>(k, v). upsert k v) (fold (\<lambda>(k, v). upsert k v) (block_writes_of r) []) (pj_state p) \<and>
    (\<exists>ws. block_writes_of r = map (\<lambda>(k, v). (k, jnorm v)) ws)"
proof -
  obtain block h entries metadata prepared txs ids copies where head: "check_header sha (pj_checkpoint p) h entries = Ok ()"
    and len: "length (metadata ! 2) = length entries"
    and txs: "foldR (check_transaction sha real pt (pj_target p) (hd_number h)) (zip entries (zip [0..<length entries] (metadata ! 2))) ([], []) = Ok (txs, ids)"
    and over: "foldR (stage_transaction (pj_state p)) txs [] = Ok (pb_staged prepared)" and copies: "mapR clone_writes txs = Ok copies"
    and res: "br_transactions r = copies" "pc_number (br_checkpoint r) = hd_number h"
    and r: "r = pb_result prepared" and p': "commit_block_writes prepared p = Ok p'"
    using apply_block_parts [OF assms] .
  have "hd_number h = next_number p" using head by (auto simp: check_header_def next_number_def split: if_splits option.splits)
  moreover have "map px_index copies = [0..<length entries]"
    using check_transactions_index [of sha real pt "pj_target p" "hd_number h" entries 0 "metadata ! 2" "[]" "[]" txs ids] txs len cloned_index [OF copies] by simp
  then have "map px_index copies = [0..<length copies]" by (metis diff_zero length_map length_upt)
  moreover have "p' = p\<lparr>pj_state := fold (\<lambda>(k, v). upsert k v) (pb_staged prepared) (pj_state p), pj_checkpoint := Some (br_checkpoint r)\<rparr>"
    using p' r by (auto simp: commit_block_writes_def split: if_splits)
  moreover have "pb_staged prepared = fold (\<lambda>(k, v). upsert k v) (block_writes_of r) []"
    using staged_transactions [OF over copies] res(1) by (simp add: block_writes_of_def)
  moreover have "\<exists>ws. block_writes_of r = map (\<lambda>(k, v). (k, jnorm v)) ws"
  proof -
    have "\<exists>ws. concat (map px_writes (filter px_valid cs)) = map (\<lambda>(k, v). (k, jnorm v)) ws" if "mapR clone_writes ts = Ok cs" for ts cs
      using that
    proof (induction ts arbitrary: cs)
      case (Cons t ts)
      then obtain c cs1 ws where "cs = c # cs1" "clone_writes t = Ok c" "concat (map px_writes (filter px_valid cs1)) = map (\<lambda>(k, v). (k, jnorm v)) ws" by auto
      then show ?case using cloned_writes [of t c] by (auto intro: exI [of _ "px_writes t @ ws"])
    qed simp
    then show ?thesis using copies res(1) by (simp add: block_writes_of_def)
  qed
  ultimately show ?thesis using res by simp
qed

section \<open>The writes of the verified blocks\<close>

text \<open>Every write with its place: block and transaction\<close>

definition written_in :: "block_result \<Rightarrow> ((int \<times> int) \<times> jstr \<times> json) list" where
  "written_in r = concat (map (\<lambda>tx. map (Pair (pc_number (br_checkpoint r), int (px_index tx))) (px_writes tx))
     (filter px_valid (br_transactions r)))"

definition written_until :: "block_result list \<Rightarrow> checkpoint option \<Rightarrow> (jstr \<times> json) list" where
  "written_until rs at = map snd (filter (\<lambda>(pl, _). case at of None \<Rightarrow> True | Some cp \<Rightarrow> pl \<le> place cp) (concat (map written_in rs)))"

text \<open>The last write to a key at or before a checkpoint\<close>

definition value_written :: "block_result list \<Rightarrow> checkpoint option \<Rightarrow> jstr \<Rightarrow> json option" where
  "value_written rs at = map_of (rev (written_until rs at))"

lemma map_of_upserts: "map_of (fold (\<lambda>(k, v). upsert k v) ws m) = map_of m ++ map_of (rev ws)"
  by (induction ws arbitrary: m) (auto simp: map_add_def fun_eq_iff split: option.splits)

lemma written_all: "written_until rs None = concat (map block_writes_of rs)"
proof -
  have "map snd (written_in r) = block_writes_of r" for r
    by (simp add: written_in_def block_writes_of_def map_concat comp_def)
  then show ?thesis by (simp add: written_until_def map_concat comp_def)
qed

definition well_numbered :: "block_result list \<Rightarrow> bool" where
  "well_numbered rs \<longleftrightarrow> (\<forall>n < length rs. pc_number (br_checkpoint (rs ! n)) = int n \<and>
     map px_index (br_transactions (rs ! n)) = [0..<length (br_transactions (rs ! n))])"

lemma upserts_normal:
  "(\<forall>(k, v) \<in> set m. jnorm v = v) \<Longrightarrow> (\<forall>(k, v) \<in> set ws. jnorm v = v) \<Longrightarrow>
   \<forall>(k, v) \<in> set (fold (\<lambda>(k, v). upsert k v) ws m). jnorm v = v"
  using fold_upsert_set by blast

lemma next_number_applied: "apply_block sha real pt b p = Ok (r, p') \<Longrightarrow> next_number p' = next_number p + 1"
  using apply_block_effects [of sha real pt b p r p'] by (simp add: next_number_def)

lemma projects_numbers: "projects sha real pt po bs p rs \<Longrightarrow> next_number p = int (length rs) \<and> well_numbered rs \<and> pj_checkpoint p = map_option br_checkpoint (last_of rs)"
proof (induction rule: projects.induct)
  case (no_blocks p)
  then have "pj_checkpoint p = None" by (auto simp: new_projector_def Let_def split: if_splits json.splits)
  then show ?case by (simp add: next_number_def well_numbered_def last_of_def)
next
  case (one_more bs p rs b r p')
  then show ?case using apply_block_effects [OF one_more.hyps(2)] next_number_applied [OF one_more.hyps(2)]
    by (auto simp: well_numbered_def nth_append less_Suc_eq last_of_def)
qed

lemma projects_state: "projects sha real pt po bs p rs \<Longrightarrow>
  map_of (pj_state p) = value_written rs None \<and> distinct (map fst (pj_state p)) \<and> (\<forall>(k, v) \<in> set (pj_state p). jnorm v = v)"
proof (induction rule: projects.induct)
  case (no_blocks p)
  then have "pj_state p = []" by (auto simp: new_projector_def Let_def split: if_splits json.splits)
  then show ?case by (simp add: value_written_def written_until_def)
next
  case (one_more bs p rs b r p')
  obtain ws where eff: "pj_state p' = fold (\<lambda>(k, v). upsert k v) (fold (\<lambda>(k, v). upsert k v) (block_writes_of r) []) (pj_state p)"
      "block_writes_of r = map (\<lambda>(k, v). (k, jnorm v)) ws"
    using apply_block_effects [OF one_more.hyps(2)] by blast
  let ?over = "fold (\<lambda>(k, v). upsert k v) (block_writes_of r) []"
  have over: "map_of ?over = map_of (rev (block_writes_of r))" "distinct (map fst ?over)"
    using map_of_upserts [of "block_writes_of r" "[]"] fold_upsert_distinct [of "[]" "block_writes_of r"] by simp_all
  have "map_of (pj_state p') = map_of (pj_state p) ++ map_of (rev (block_writes_of r))"
    using over_state [OF over(2), of "pj_state p"] over(1) eff(1) by (auto simp: fun_eq_iff map_add_def)
  also have "\<dots> = value_written (rs @ [r]) None"
    using one_more.IH by (simp add: value_written_def written_all map_add_def fun_eq_iff split: option.splits)
  finally have "map_of (pj_state p') = value_written (rs @ [r]) None" .
  moreover have "distinct (map fst (pj_state p'))" unfolding eff(1) using one_more.IH by (intro fold_upsert_distinct) simp
  moreover have norm: "\<forall>(k, v) \<in> set ?over. jnorm v = v" by (rule upserts_normal) (auto simp: eff(2))
  have "\<forall>(k, v) \<in> set (pj_state p'). jnorm v = v" unfolding eff(1) by (rule upserts_normal) (use one_more.IH norm in blast)+
  ultimately show ?case by simp
qed

section \<open>The writes up to a checkpoint\<close>

lemma takeWhile_upt: "map f xs = [i..<i + length xs] \<Longrightarrow> takeWhile (\<lambda>x. int (f x) \<le> c) xs = filter (\<lambda>x. int (f x) \<le> c) xs"
proof (induction xs arbitrary: i)
  case (Cons x xs)
  then have x: "f x = i" "map f xs = [Suc i..<Suc i + length xs]" by (simp_all add: upt_conv_Cons del: upt_Suc)
  show ?case
  proof (cases "int i \<le> c")
    case False
    have "f ` set xs = {Suc i..<Suc i + length xs}" using arg_cong [OF x(2), of set] by (simp only: set_upt list.set_map)
    then have "\<forall>y \<in> set xs. i < f y" by (metis Suc_le_lessD atLeastLessThan_iff imageI)
    then have "filter (\<lambda>x. int (f x) \<le> c) xs = []" using False x(1) by (fastforce simp: filter_empty_conv)
    then show ?thesis using False x(1) by simp
  qed (use Cons.IH [OF x(2)] x(1) in simp)
qed simp

lemma filter_written: "map snd (filter (\<lambda>(pl, _). Q pl) (written_in r)) =
   concat (map px_writes (filter (\<lambda>tx. px_valid tx \<and> Q (pc_number (br_checkpoint r), int (px_index tx))) (br_transactions r)))"
proof -
  have "map snd (filter (\<lambda>(pl, _). Q pl) (map (Pair pl) ws)) = (if Q pl then ws else [])" for pl and ws :: "(jstr \<times> json) list"
    by (induction ws) auto
  then have "map snd (filter (\<lambda>(pl, _). Q pl) (concat (map (\<lambda>tx. map (Pair (g tx)) (px_writes tx)) txs))) =
      concat (map px_writes (filter (\<lambda>tx. Q (g tx)) txs))" for g and txs :: "projected_tx list"
    by (induction txs) auto
  then show ?thesis by (simp add: written_in_def conj_commute)
qed

lemma written_until_checkpoint:
  assumes "well_numbered rs" and "cp_block at = int n" and "n < length rs"
  shows "written_until rs (Some at) = concat (map block_writes_of (take n rs)) @ writes_until (cp_index at) (rs ! n)"
proof -
  let ?P = "\<lambda>pl. pl \<le> (int n, cp_index at)"
  let ?w = "\<lambda>r. map snd (filter (\<lambda>(pl, _). ?P pl) (written_in r))"
  have before: "?w r = block_writes_of r" if r: "r \<in> set (take n rs)" for r
  proof -
    obtain m where m: "m < n" "r = rs ! m" using r assms(3) by (auto simp: in_set_conv_nth)
    then have "pc_number (br_checkpoint r) = int m" using assms(1,3) by (simp add: well_numbered_def)
    then have "pc_number (br_checkpoint r) < int n" using m(1) by simp
    then show ?thesis unfolding filter_written block_writes_of_def by (simp add: less_eq_prod_def)
  qed
  have after: "?w r = []" if r: "r \<in> set (drop (Suc n) rs)" for r
  proof -
    obtain i where "i < length (drop (Suc n) rs)" "drop (Suc n) rs ! i = r" using r unfolding in_set_conv_nth by blast
    then have m: "n < Suc n + i" "Suc n + i < length rs" "r = rs ! (Suc n + i)" by simp_all
    then have "pc_number (br_checkpoint r) = int (Suc n + i)" using assms(1) by (simp add: well_numbered_def del: of_nat_Suc of_nat_add)
    then have "int n < pc_number (br_checkpoint r)" by simp
    then show ?thesis unfolding filter_written by (simp add: less_eq_prod_def)
  qed
  have here: "?w (rs ! n) = writes_until (cp_index at) (rs ! n)"
  proof -
    have num: "pc_number (br_checkpoint (rs ! n)) = int n" "map px_index (br_transactions (rs ! n)) = [0..<0 + length (br_transactions (rs ! n))]"
      using assms(1,3) by (simp_all add: well_numbered_def)
    have "?w (rs ! n) = concat (map px_writes (filter (\<lambda>tx. px_valid tx \<and> int (px_index tx) \<le> cp_index at) (br_transactions (rs ! n))))"
      unfolding filter_written num(1) by (simp add: less_eq_prod_def)
    also have "\<dots> = writes_until (cp_index at) (rs ! n)"
      unfolding writes_until_def takeWhile_upt [OF num(2)] by (simp add: conj_commute)
    finally show ?thesis .
  qed
  have "rs = take n rs @ rs ! n # drop (Suc n) rs" using assms(3) by (rule id_take_nth_drop)
  then have "written_until rs (Some at) = concat (map ?w (take n rs @ rs ! n # drop (Suc n) rs))"
    by (simp add: written_until_def place_def assms(2) map_concat filter_concat comp_def)
  also have "\<dots> = concat (map block_writes_of (take n rs)) @ writes_until (cp_index at) (rs ! n) @ []"
    using before after here by (simp add: concat_eq_Nil_conv cong: map_cong)
  finally show ?thesis by simp
qed

lemma fold_last_write: "fold (\<lambda>(l, w) v. if l = k then Some w else v) ws v = (case map_of (rev ws) k of None \<Rightarrow> v | Some w \<Rightarrow> Some w)"
  by (induction ws arbitrary: v) (auto simp: map_add_def split: option.splits)

lemma writes_until_before: "i < 0 \<Longrightarrow> writes_until i r = []"
  by (cases "br_transactions r") (simp_all add: writes_until_def)

section \<open>Snapshots\<close>

text \<open>The state before block \<open>n\<close>, and the result of that block\<close>

definition snapshot :: "sha_fn \<Rightarrow> real_fn \<Rightarrow> protos \<Rightarrow> projector_options \<Rightarrow> nat list list \<Rightarrow> nat \<Rightarrow> historical_replay \<Rightarrow> bool" where
  "snapshot sha real pt po bs n h \<longleftrightarrow> n < length bs \<and> distinct (map fst (hr_before h)) \<and>
     (\<exists>q p' rs. projects sha real pt po (take n bs) q rs \<and> projects sha real pt po (take (Suc n) bs) p' (rs @ [hr_result h]) \<and>
       map_of (hr_before h) = map_of (pj_state q))"

lemma snapshot_append: "snapshot sha real pt po bs n h \<Longrightarrow> snapshot sha real pt po (bs @ cs) n h"
  by (simp add: snapshot_def)

lemma snapshot_results:
  assumes "snapshot sha real pt po bs n h" and "projects sha real pt po bs p rs"
  shows "n < length rs \<and> hr_result h = rs ! n \<and> map_of (hr_before h) = value_written (take n rs) None"
proof -
  obtain q p' ss where s: "n < length bs" "projects sha real pt po (take n bs) q ss" "projects sha real pt po (take (Suc n) bs) p' (ss @ [hr_result h])"
      "map_of (hr_before h) = map_of (pj_state q)"
    using assms(1) by (auto simp: snapshot_def)
  obtain p1 where p1: "projects sha real pt po (take (Suc n) bs) p1 (take (Suc n) rs)" using projects_take [OF assms(2), of "Suc n"] s(1) by auto
  have len: "n < length rs" using projects_length [OF assms(2)] s(1) by simp
  have "ss @ [hr_result h] = take n rs @ [rs ! n]" using projects_unique [OF s(3) p1] take_Suc_conv_app_nth [OF len] by simp
  then show ?thesis using len s(4) projects_state [OF s(2)] by simp
qed

lemma snapshot_value:
  assumes "snapshot sha real pt po bs n h" and "projects sha real pt po bs p rs" and "cp_block at = int n"
  shows "value_at_checkpoint k at h = value_written rs (Some at) k"
proof -
  note s = snapshot_results [OF assms(1,2)]
  have num: "well_numbered rs" using projects_numbers [OF assms(2)] by blast
  have "value_at_checkpoint k at h = (case map_of (rev (writes_until (cp_index at) (rs ! n))) k of None \<Rightarrow> value_written (take n rs) None k | Some w \<Rightarrow> Some w)"
    using s by (simp add: value_at_checkpoint_def Let_def writes_until_before fold_last_write)
  also have "\<dots> = value_written rs (Some at) k"
    using written_until_checkpoint [OF num assms(3)] s by (simp add: value_written_def written_all map_add_def split: option.splits)
  finally show ?thesis .
qed

section \<open>Replays\<close>

text \<open>A checkpoint of a block\<close>

definition placed :: "checkpoint \<Rightarrow> block_result \<Rightarrow> bool" where
  "placed at r \<longleftrightarrow> cp_hash at = pc_hash (br_checkpoint r) \<and>
     (if cp_index at = -1 then br_transactions r = [] \<and> cp_tx at = []
      else map_option px_id (nth_transaction r (cp_index at)) = Some (cp_tx at))"

lemma verify_place_Ok: "verify_place real at r s = Ok u \<Longrightarrow> cp_hash at = pc_hash (br_checkpoint r) \<Longrightarrow> placed at r"
  by (auto simp: verify_place_def placed_def split: if_splits option.splits)

lemma verify_stored_block_hash:
  assumes "verify_stored_block sha pt at (Some r) d s = Ok u"
  shows "cp_hash at = pc_hash (br_checkpoint r)"
proof -
  obtain jb where jb: "load_block (du_db s) (cp_block at) = Ok (Some jb)" using assms by (auto simp: verify_stored_block_def split: option.splits)
  have dig: "\<not> (sha (jb_bytes jb) \<noteq> jb_digest jb \<or> (d \<noteq> None \<and> d \<noteq> Some (sha (jb_bytes jb))))"
    using assms jb by (auto simp: verify_stored_block_def Let_def split: if_splits)
  obtain block where block: "pt_block pt (jb_bytes jb) = Some block"
    using assms jb dig by (cases "pt_block pt (jb_bytes jb)") (auto simp: verify_stored_block_def Let_def)
  obtain h entries where "bl_header block = Some h" "bl_data block = Some entries"
    using assms jb dig block by (cases "bl_header block"; cases "bl_data block") (auto simp: verify_stored_block_def Let_def split: if_splits)
  then show ?thesis using assms jb dig block by (auto simp: verify_stored_block_def Let_def split: if_splits)
qed

lemma safe_next:
  assumes "apply_block sha real pt b p = Ok (r, p')"
  shows "safe_natural (pc_number (br_checkpoint r))"
proof (rule apply_block_parts [OF assms])
  fix block h entries metadata prepared txs ids copies
  assume "check_header sha (pj_checkpoint p) h entries = Ok ()" "pc_number (br_checkpoint r) = hd_number h"
  then show ?thesis by (auto simp: check_header_def split: if_splits)
qed

lemma block_number:
  assumes "apply_block sha real pt b p = Ok (r, p')" and "pt_block pt b = Some block" and "bl_header block = Some h"
  shows "pc_number (br_checkpoint r) = hd_number h"
  using assms(2,3) by (auto intro: apply_block_parts [OF assms(1)])

lemma verify_journal_block_Ok:
  assumes "verify_journal_block sha real pt jb p = Ok (r, p')"
  shows "apply_block sha real pt (jb_bytes jb) p = Ok (r, p') \<and> jb_digest jb = sha (jb_bytes jb) \<and> jb_number jb = pc_number (br_checkpoint r)"
proof -
  obtain block h where b: "pt_block pt (jb_bytes jb) = Some block" "bl_header block = Some h" "hd_number h = jb_number jb"
      "sha (jb_bytes jb) = jb_digest jb" "apply_block sha real pt (jb_bytes jb) p = Ok (r, p')"
    using assms by (auto simp: verify_journal_block_def Let_def split: option.splits if_splits)
  have "pc_number (br_checkpoint r) = hd_number h"
    using block_number [OF b(5,1,2)] .
  then show ?thesis using b by simp
qed

lemma block_from_row_Ok: "block_from_row row = Ok jb \<Longrightarrow> jb_bytes jb = rw_bytes row \<and> jb_digest jb = rw_digest row \<and> jb_number jb = rw_number row"
  by (auto simp: block_from_row_def split: if_splits)

text \<open>What holds after every row of a replay that came through\<close>

lemma replay_rows:
  assumes "foldR (replay_stored sha real pt select) rows (journal_digest sha (map rw_digest before), p, x) = Ok (d, q, y)"
    and "projects sha real pt po (map rw_bytes before) p rs" and "\<forall>row \<in> set before. rw_digest row = sha (rw_bytes row)" and "Q before x"
    and step: "\<And>before row jb p rs r p' x x'. projects sha real pt po (map rw_bytes before) p rs \<Longrightarrow>
      projects sha real pt po (map rw_bytes (before @ [row])) p' (rs @ [r]) \<Longrightarrow> jb_number jb = int (length before) \<Longrightarrow>
      jb_digest jb = sha (rw_bytes row) \<Longrightarrow> select jb p r x = Ok x' \<Longrightarrow> Q before x \<Longrightarrow> Q (before @ [row]) x'"
  shows "d = journal_digest sha (map rw_digest (before @ rows)) \<and> (\<exists>ss. projects sha real pt po (map rw_bytes (before @ rows)) q ss) \<and>
    (\<forall>row \<in> set (before @ rows). rw_digest row = sha (rw_bytes row)) \<and> Q (before @ rows) y"
  using assms(1-4)
proof (induction rows arbitrary: before p rs x)
  case Nil
  then show ?case by auto
next
  case (Cons row rows)
  obtain a where a: "replay_stored sha real pt select row (journal_digest sha (map rw_digest before), p, x) = Ok a"
      "foldR (replay_stored sha real pt select) rows a = Ok (d, q, y)"
    using Cons.prems(1) by auto
  obtain jb r p' x' where one: "block_from_row row = Ok jb" "verify_journal_block sha real pt jb p = Ok (r, p')" "select jb p r x = Ok x'"
      and a': "a = (append_journal_digest sha (journal_digest sha (map rw_digest before)) (jb_digest jb), p', x')"
    using a(1) unfolding replay_stored_def by auto
  note more = a(2) [unfolded a']
  have row: "jb_bytes jb = rw_bytes row" "jb_digest jb = rw_digest row" using block_from_row_Ok [OF one(1)] by simp_all
  note block = verify_journal_block_Ok [OF one(2), unfolded row]
  have next_p: "projects sha real pt po (map rw_bytes (before @ [row])) p' (rs @ [r])"
    using one_more [OF Cons.prems(2)] block by simp
  have "pc_number (br_checkpoint r) = next_number p" using apply_block_effects block by blast
  moreover have "next_number p = int (length before)" using projects_numbers [OF Cons.prems(2)] projects_length [OF Cons.prems(2)] by simp
  ultimately have number: "jb_number jb = int (length before)" using block by simp
  have digest: "rw_digest row = sha (rw_bytes row)" "jb_digest jb = sha (rw_bytes row)" using block row(2) by simp_all
  have Q: "Q (before @ [row]) x'" using step [OF Cons.prems(2) next_p number digest(2) one(3) Cons.prems(4)] .
  have "append_journal_digest sha (journal_digest sha (map rw_digest before)) (jb_digest jb) = journal_digest sha (map rw_digest (before @ [row]))"
    by (simp add: journal_digest_snoc row(2))
  note more = more [unfolded this]
  have "\<forall>row \<in> set (before @ [row]). rw_digest row = sha (rw_bytes row)" using Cons.prems(3) digest(1) by auto
  note all = Cons.IH [OF more next_p this Q]
  have "(before @ [row]) @ rows = before @ row # rows" by simp
  then show ?case using all by metis
qed

text \<open>The byte strings whose hashes guard the journal: the blocks, and the links of the digest\<close>

definition hashed_by :: "sha_fn \<Rightarrow> (nat list \<times> jstr) list \<Rightarrow> nat list set" where
  "hashed_by sha seen = fst ` set seen \<union> set (chain_inputs sha empty_journal_digest (map snd seen))"

definition verified_blocks :: "sha_fn \<Rightarrow> nat list list \<Rightarrow> (nat list \<times> jstr) list" where
  "verified_blocks sha bs = map (\<lambda>b. (b, sha b)) bs"

definition stored_blocks :: "raw_row list \<Rightarrow> (nat list \<times> jstr) list" where
  "stored_blocks rows = map (\<lambda>r. (rw_bytes r, rw_digest r)) rows"

definition collision_free :: "sha_fn \<Rightarrow> nat list list \<Rightarrow> raw_row list set \<Rightarrow> bool" where
  "collision_free sha bs seen \<longleftrightarrow> inj_on sha (hashed_by sha (verified_blocks sha bs) \<union> (\<Union>rows \<in> seen. hashed_by sha (stored_blocks rows)))"

lemma same_digest_same_blocks:
  assumes "hex_sha sha" and "collision_free sha bs seen" and "rows \<in> seen" and "\<forall>row \<in> set rows. rw_digest row = sha (rw_bytes row)"
    and "length rows = length bs" and "journal_digest sha (map rw_digest rows) = journal_digest sha (map sha bs)"
  shows "map rw_bytes rows = bs"
proof -
  have inj: "inj_on sha (hashed_by sha (stored_blocks rows) \<union> hashed_by sha (verified_blocks sha bs))"
    by (rule inj_on_subset [OF assms(2) [unfolded collision_free_def]]) (use assms(3) in blast)
  have maps: "map snd (stored_blocks rows) = map rw_digest rows" "map snd (verified_blocks sha bs) = map sha bs"
    "fst ` set (stored_blocks rows) = set (map rw_bytes rows)" "fst ` set (verified_blocks sha bs) = set bs"
    by (auto simp: stored_blocks_def verified_blocks_def comp_def image_image)
  have zero: "hex_text empty_journal_digest" "length empty_journal_digest = 64"
    by (auto simp: empty_journal_digest_def hex_text_def list_all_iff hex_lower_char_def is_digit_def)
  have shape: "\<forall>d \<in> set (map rw_digest rows) \<union> set (map sha bs). hex_text d \<and> length d = 64" using assms(4) hex_shaD [OF assms(1)] by auto
  have links: "inj_on sha (set (chain_inputs sha empty_journal_digest (map rw_digest rows)) \<union> set (chain_inputs sha empty_journal_digest (map sha bs)))"
    by (rule inj_on_subset [OF inj [unfolded hashed_by_def maps]]) blast
  have "length (map rw_digest rows) = length (map sha bs)" using assms(5) by simp
  then have eq: "map rw_digest rows = map sha bs"
    using chain_inject [OF assms(1) _ assms(6) [unfolded journal_digest_def] links zero zero shape] by blast
  have sub: "inj_on sha (set (map rw_bytes rows) \<union> set bs)"
    by (rule inj_on_subset [OF inj [unfolded hashed_by_def maps]]) blast
  show ?thesis
  proof (rule nth_equalityI)
    fix i assume "i < length (map rw_bytes rows)"
    then have i: "i < length rows" "i < length bs" using assms(5) by simp_all
    have "map rw_digest rows ! i = map sha bs ! i" using eq by simp
    then have "sha (rw_bytes (rows ! i)) = sha (bs ! i)" using i assms(4) by simp
    then have "rw_bytes (rows ! i) = bs ! i" by (rule inj_onD [OF sub]) (simp_all add: i)
    then show "map rw_bytes rows ! i = bs ! i" using i by simp
  qed (simp add: assms(5))
qed

section \<open>A replay that arrives at the tip\<close>

lemma enc_block_checkpoint_number:
  assumes "enc_block_checkpoint c = enc_block_checkpoint d"
  shows "pc_number c = pc_number d"
  using arg_cong [OF assms, of "\<lambda>v. fld v ''block_number''"] by (simp add: enc_block_checkpoint_def)

lemma block_checkpoint_printable:
  assumes "projects sha real pt po bs p rs"
  shows "printable real (block_checkpoint_json p)"
  using assms
proof cases
  case no_blocks
  then show ?thesis using projects_numbers [OF assms] by (simp add: block_checkpoint_json_def last_of_def)
next
  case (one_more bs q rs b r)
  have "pj_checkpoint p = Some (br_checkpoint r)" using apply_block_effects [OF one_more(4)] by blast
  moreover have "safe_natural (pc_number (br_checkpoint r))" using safe_next [OF one_more(4)] .
  ultimately show ?thesis unfolding block_checkpoint_json_def enc_block_checkpoint_def
    by (simp add: safe_natural_def)
qed

lemma block_checkpoint_json_number:
  assumes "block_checkpoint_json p = block_checkpoint_json q"
  shows "next_number p = next_number q"
proof -
  have null: "enc_block_checkpoint c \<noteq> JNull" for c by (simp add: enc_block_checkpoint_def)
  show ?thesis
  proof (cases "pj_checkpoint p")
    case None
    then have "pj_checkpoint q = None"
      using assms by (cases "pj_checkpoint q") (auto simp: block_checkpoint_json_def null null [symmetric])
    then show ?thesis using None by (simp add: next_number_def)
  next
    case (Some c)
    then obtain d where d: "pj_checkpoint q = Some d" using assms null by (cases "pj_checkpoint q") (simp_all add: block_checkpoint_json_def)
    then have "enc_block_checkpoint c = enc_block_checkpoint d" using assms Some by (simp add: block_checkpoint_json_def)
    then have "pc_number c = pc_number d" by (rule enc_block_checkpoint_number)
    then show ?thesis using Some d by (simp add: next_number_def)
  qed
qed

lemma checkpoint_json_length:
  assumes "projects sha real pt po bs p rs" and "projects sha real pt po cs q ss"
    and "stringify (block_checkpoint_json p) = stringify (block_checkpoint_json q)"
  shows "length bs = length cs"
proof -
  have "Some (block_checkpoint_json p) = json_parse real (stringify (block_checkpoint_json p))"
    by (rule json_parse_printable [OF block_checkpoint_printable [OF assms(1)], symmetric])
  also have "\<dots> = Some (block_checkpoint_json q)"
    unfolding assms(3) by (rule json_parse_printable [OF block_checkpoint_printable [OF assms(2)]])
  finally have eq: "block_checkpoint_json p = block_checkpoint_json q" by (rule option.inject [THEN iffD1])
  have "next_number p = next_number q" using eq by (rule block_checkpoint_json_number)
  moreover have "next_number p = int (length bs)" using projects_numbers [OF assms(1)] unfolding projects_length [OF assms(1)] by blast
  moreover have "next_number q = int (length cs)" using projects_numbers [OF assms(2)] unfolding projects_length [OF assms(2)] by blast
  ultimately show ?thesis by simp
qed

lemma replay_journal_Ok:
  assumes "replay_journal sha real pt collate select x l = Ok y"
    and sha: "hex_sha sha" and free: "collision_free sha bs seen" "journal (du_db l) \<in> seen"
    and tip: "projects sha real pt (du_options l) bs (du_projector l) rs" "du_journal l = journal_digest sha (map sha bs)"
    and Q: "Q [] x" and step: "\<And>before row jb p rs r p' x x'. projects sha real pt (du_options l) (map rw_bytes before) p rs \<Longrightarrow>
      projects sha real pt (du_options l) (map rw_bytes (before @ [row])) p' (rs @ [r]) \<Longrightarrow> jb_number jb = int (length before) \<Longrightarrow>
      jb_digest jb = sha (rw_bytes row) \<Longrightarrow> select jb p r x = Ok x' \<Longrightarrow> Q before x \<Longrightarrow> Q (before @ [row]) x'"
  shows "map rw_bytes (journal (du_db l)) = bs \<and> Q (journal (du_db l)) y"
proof -
  let ?rows = "journal (du_db l)"
  obtain p digest q where p: "new_projector sha (du_options l) = Ok p"
      and run: "foldR (replay_stored sha real pt select) ?rows (empty_journal_digest, p, x) = Ok (digest, q, y)"
      and same: "verify_replay_tip collate q digest l = Ok ()"
    using assms(1) by (auto simp: replay_journal_def)
  have start: "foldR (replay_stored sha real pt select) ?rows (journal_digest sha (map rw_digest []), p, x) = Ok (digest, q, y)"
    using run by (simp add: journal_digest_def)
  have none: "projects sha real pt (du_options l) (map rw_bytes []) p []" using no_blocks [OF p] by simp
  have "digest = journal_digest sha (map rw_digest ([] @ ?rows)) \<and> (\<exists>ss. projects sha real pt (du_options l) (map rw_bytes ([] @ ?rows)) q ss) \<and>
      (\<forall>row \<in> set ([] @ ?rows). rw_digest row = sha (rw_bytes row)) \<and> Q ([] @ ?rows) y"
    by (rule replay_rows [where Q = Q, OF start none _ Q step]) simp_all
  then obtain ss where all: "digest = journal_digest sha (map rw_digest ?rows)" "projects sha real pt (du_options l) (map rw_bytes ?rows) q ss"
      "\<forall>row \<in> set ?rows. rw_digest row = sha (rw_bytes row)" "Q ?rows y" by auto
  have "digest = du_journal l" "stringify (block_checkpoint_json q) = stringify (block_checkpoint_json (du_projector l))"
    using same by (auto simp: verify_replay_tip_def same_text_def split: if_splits)
  then have "length ?rows = length bs" "journal_digest sha (map rw_digest ?rows) = journal_digest sha (map sha bs)"
    using checkpoint_json_length [OF all(2) tip(1)] all(1) tip(2) by simp_all
  then have "map rw_bytes ?rows = bs" using same_digest_same_blocks [OF sha free all(3)] by blast
  then show ?thesis using all(4) by blast
qed

section \<open>The state of the process\<close>

definition results_ok :: "block_result list \<Rightarrow> (int \<times> jstr \<times> block_result) list \<Rightarrow> bool" where
  "results_ok rs m \<longleftrightarrow> (\<forall>(n, d, r) \<in> set m. 0 \<le> n \<and> nat n < length rs \<and> r = rs ! nat n)"

definition snapshots_ok :: "sha_fn \<Rightarrow> real_fn \<Rightarrow> protos \<Rightarrow> projector_options \<Rightarrow> nat list list \<Rightarrow> (jstr \<times> historical_replay) list \<Rightarrow> bool" where
  "snapshots_ok sha real pt po bs m \<longleftrightarrow> (\<forall>(k, h) \<in> set m. \<exists>at n. k = checkpoint_key at \<and> cp_block at = int n \<and> snapshot sha real pt po bs n h)"

definition sound :: "sha_fn \<Rightarrow> real_fn \<Rightarrow> protos \<Rightarrow> nat list list \<Rightarrow> block_result list \<Rightarrow> durable_projection \<Rightarrow> bool" where
  "sound sha real pt bs rs l \<longleftrightarrow> projects sha real pt (du_options l) bs (du_projector l) rs \<and>
     du_journal l = journal_digest sha (map sha bs) \<and> du_latest l = last_of rs \<and> results_ok rs (du_results l) \<and>
     snapshots_ok sha real pt (du_options l) bs (du_snapshots l)"

lemma remember_latest_subset: "set (remember_latest k v m) \<subseteq> insert (k, v) (set m)"
  by (auto simp: remember_latest_def Let_def dest: in_set_dropD)

lemma checkpoint_key_block:
  assumes "checkpoint_key a = checkpoint_key b"
  shows "cp_block a = cp_block b"
proof -
  have colon: "takeWhile (\<lambda>u. u \<noteq> 58) (dec_int i @ 58 # s) = dec_int i" for i s
    by (rule takeWhile_tail [THEN trans]) (auto dest: dec_int_units simp: is_digit_def)
  have "dec_int (cp_block a) = dec_int (cp_block b)"
    using arg_cong [OF assms, of "takeWhile (\<lambda>u. u \<noteq> 58)"] by (simp add: checkpoint_key_def colon)
  then show ?thesis by simp
qed

text \<open>An operation that only reads: the caches may change, the projector and the tables do not.\<close>

definition reads_only :: "durable_projection \<Rightarrow> durable_projection \<Rightarrow> bool" where
  "reads_only l l' \<longleftrightarrow> du_projector l' = du_projector l \<and> du_db l' = du_db l \<and> du_options l' = du_options l \<and> du_latest l' = du_latest l"

lemma reads_only_refl [simp]: "reads_only l l"
  by (simp add: reads_only_def)

lemma reads_only_trans: "reads_only l l' \<Longrightarrow> reads_only l' l'' \<Longrightarrow> reads_only l l''"
  by (simp add: reads_only_def)

lemma sound_results:
  "sound sha real pt bs rs l \<Longrightarrow> results_ok rs m \<Longrightarrow> sound sha real pt bs rs (l\<lparr>du_results := m\<rparr>)"
  by (simp add: sound_def)

lemma sound_snapshots:
  "sound sha real pt bs rs l \<Longrightarrow> snapshots_ok sha real pt (du_options l) bs m \<Longrightarrow> sound sha real pt bs rs (l\<lparr>du_snapshots := m\<rparr>)"
  by (simp add: sound_def)

lemma replay_block_reads:
  assumes sha: "hex_sha sha" and free: "collision_free sha bs seen" "journal (du_db l) \<in> seen"
    and l: "sound sha real pt bs rs l" and run: "replay_block sha real pt collate n l = (r, l')"
  shows "sound sha real pt bs rs l' \<and> reads_only l l' \<and> (\<forall>result. r = Ok result \<longrightarrow> 0 \<le> n \<and> nat n < length rs \<and> result = rs ! nat n)"
proof (cases "map_of (du_results l) n")
  case (Some dr)
  obtain d result where dr: "dr = (d, result)" by (cases dr)
  have mem: "(n, d, result) \<in> set (du_results l)" using Some dr by (simp add: map_of_SomeD)
  then have ok: "0 \<le> n" "nat n < length rs" "result = rs ! nat n" using l by (auto simp: sound_def results_ok_def)
  have res: "results_ok rs (filter (\<lambda>(m, _). m \<noteq> n) (du_results l) @ [(n, d, result)])"
    using l mem by (auto simp: sound_def results_ok_def)
  have "(r, l') = (r, l) \<and> (\<forall>result. r \<noteq> Ok result) \<or> r = Ok result \<and> l' = l\<lparr>du_results := filter (\<lambda>(m, _). m \<noteq> n) (du_results l) @ [(n, d, result)]\<rparr>"
    using run Some dr by (auto simp: replay_block_def split: result.splits)
  then show ?thesis using ok sound_results [OF l res] l by (auto simp: reads_only_def)
next
  case None
  let ?select = "\<lambda>jb p result found. Ok (if jb_number jb = n then Some (jb_digest jb, result) else found)"
  let ?Q = "\<lambda>rows found. \<forall>d result. found = Some (d, result) \<longrightarrow> (\<exists>m p ss. n = int m \<and> m < length rows \<and>
    projects sha real pt (du_options l) (take (Suc m) (map rw_bytes rows)) p (ss @ [result]))"
  show ?thesis
  proof (cases "\<exists>d result. replay_journal sha real pt collate ?select None l = Ok (Some (d, result))")
    case False
    then have "l' = l \<and> (\<forall>result. r \<noteq> Ok result)"
      using run None by (auto simp: replay_block_def split: result.splits option.splits)
    then show ?thesis using l by simp
  next
    case True
    then obtain d result where replay: "replay_journal sha real pt collate ?select None l = Ok (Some (d, result))" by blast
    have proj: "projects sha real pt (du_options l) bs (du_projector l) rs" "du_journal l = journal_digest sha (map sha bs)"
      using l by (simp_all add: sound_def)
    have "map rw_bytes (journal (du_db l)) = bs \<and> ?Q (journal (du_db l)) (Some (d, result))"
    proof (rule replay_journal_Ok [where Q = ?Q, OF replay sha free proj])
      fix before row jb p ss r p' x x'
      assume a: "projects sha real pt (du_options l) (map rw_bytes (before @ [row])) p' (ss @ [r])" "jb_number jb = int (length before)"
        "?select jb p r x = Ok x'" "?Q before x"
      show "?Q (before @ [row]) x'"
      proof (intro allI impI)
        fix d result assume "x' = Some (d, result)"
        then consider "x = Some (d, result)" | "int (length before) = n" "result = r" using a(2,3) by (auto split: if_splits)
        then show "\<exists>m p ss. n = int m \<and> m < length (before @ [row]) \<and>
            projects sha real pt (du_options l) (take (Suc m) (map rw_bytes (before @ [row]))) p (ss @ [result])"
        proof cases
          case 1
          then obtain m p ss where "n = int m" "m < length before"
            "projects sha real pt (du_options l) (take (Suc m) (map rw_bytes before)) p (ss @ [result])" using a(4) by blast
          then show ?thesis by (intro exI [of _ m] exI [of _ p] exI [of _ ss]) simp
        next
          case 2
          then show ?thesis using a(1) by (intro exI [of _ "length before"] exI [of _ p'] exI [of _ ss]) simp
        qed
      qed
    qed simp
    then obtain m p ss where m: "map rw_bytes (journal (du_db l)) = bs" "n = int m" "m < length (journal (du_db l))"
      "projects sha real pt (du_options l) (take (Suc m) bs) p (ss @ [result])" by fastforce
    have len: "m < length bs" using m(1,3) by auto
    obtain p1 where p1: "projects sha real pt (du_options l) (take (Suc m) bs) p1 (take (Suc m) rs)"
      using projects_take [OF proj(1), of "Suc m"] len by auto
    have rs: "m < length rs" using len projects_length [OF proj(1)] by simp
    have "ss @ [result] = take m rs @ [rs ! m]" using projects_unique [OF m(4) p1] take_Suc_conv_app_nth [OF rs] by simp
    then have result: "result = rs ! m" by simp
    have l': "r = Ok result" "l' = remember_block_result result d l" using run None replay by (simp_all add: replay_block_def)
    have number: "pc_number (br_checkpoint result) = int m"
      using projects_numbers [OF proj(1)] rs result by (simp add: well_numbered_def)
    have "results_ok rs (remember_latest (int m) (d, result) (du_results l))"
      using l remember_latest_subset [of "int m" "(d, result)" "du_results l"] rs result unfolding sound_def results_ok_def by fastforce
    then have "sound sha real pt bs rs l'" using sound_results [OF l] l'(2) number by (simp add: remember_block_result_def)
    then show ?thesis using l' m(2) rs result by (simp add: reads_only_def remember_block_result_def)
  qed
qed

section \<open>Checkpoints\<close>

text \<open>A checkpoint of the verified blocks\<close>

definition genuine :: "jstr \<Rightarrow> block_result list \<Rightarrow> checkpoint \<Rightarrow> bool" where
  "genuine channel rs at \<longleftrightarrow> cp_channel at = channel \<and> (\<exists>n < length rs. cp_block at = int n \<and> placed at (rs ! n))"

lemma projector_entries_state:
  assumes "projector_entries collate p [] = Ok es" and "distinct (map fst (pj_state p))" and "\<forall>(k, v) \<in> set (pj_state p). jnorm v = v"
  shows "map_of es = map_of (pj_state p) \<and> distinct (map fst es)"
proof -
  have copy: "mapR (\<lambda>(k, v). rmap (\<lambda>c. (k, c)) (canonical (clone_canonical v))) xs = Ok ys \<Longrightarrow> \<forall>(k, v) \<in> set xs. jnorm v = v \<Longrightarrow> ys = xs"
    for xs ys :: "(jstr \<times> json) list"
    by (induction xs arbitrary: ys) auto
  let ?sorted = "sort_key (\<lambda>(k, v). collate k) (pj_state p)"
  have "es = ?sorted"
    using copy [of ?sorted es] assms(1,3) by (simp add: projector_entries_def starts_with_def)
  moreover have "distinct (map fst ?sorted)" using assms(2) by (simp add: distinct_map)
  moreover have "map_of ?sorted = map_of (pj_state p)" using map_of_inject_set [OF calculation(2) assms(2)] by simp
  ultimately show ?thesis by simp
qed

lemma select_checkpoint_Ok:
  assumes "select_checkpoint real collate at l jb p r x = Ok (Some h)"
  shows "x = Some h \<or> jb_number jb = cp_block at \<and> hr_result h = r \<and> placed at r \<and> projector_entries collate p [] = Ok (hr_before h)"
  using assms verify_place_Ok by (auto simp: select_checkpoint_def split: if_splits)

lemma select_checkpoint_keeps: "select_checkpoint real collate at l jb p r x = Ok None \<Longrightarrow> x = None"
  by (auto simp: select_checkpoint_def split: if_splits)

lemma replayed_checkpoint:
  assumes sha: "hex_sha sha" and free: "collision_free sha bs seen" "journal (du_db l) \<in> seen"
    and proj: "projects sha real pt (du_options l) bs (du_projector l) rs" "du_journal l = journal_digest sha (map sha bs)"
    and replay: "replay_journal sha real pt collate (select_checkpoint real collate at l) None l = Ok (Some h)"
  shows "\<exists>n. cp_block at = int n \<and> snapshot sha real pt (du_options l) bs n h \<and> placed at (hr_result h)"
proof -
  let ?Q = "\<lambda>rows found. \<forall>h. found = Some h \<longrightarrow>
    (\<exists>n. cp_block at = int n \<and> snapshot sha real pt (du_options l) (map rw_bytes rows) n h \<and> placed at (hr_result h))"
  have "map rw_bytes (journal (du_db l)) = bs \<and> ?Q (journal (du_db l)) (Some h)"
  proof (rule replay_journal_Ok [where Q = ?Q, OF replay sha free proj])
    fix before row jb p ss r p' x x'
    assume a: "projects sha real pt (du_options l) (map rw_bytes before) p ss"
      "projects sha real pt (du_options l) (map rw_bytes (before @ [row])) p' (ss @ [r])" "jb_number jb = int (length before)"
      "select_checkpoint real collate at l jb p r x = Ok x'" "?Q before x"
    show "?Q (before @ [row]) x'"
    proof (intro allI impI)
      fix h assume "x' = Some h"
      then consider "x = Some h" | "int (length before) = cp_block at" "hr_result h = r" "placed at r" "projector_entries collate p [] = Ok (hr_before h)"
        using select_checkpoint_Ok [of real collate at l jb p r x h] a(3,4) by auto
      then show "\<exists>n. cp_block at = int n \<and> snapshot sha real pt (du_options l) (map rw_bytes (before @ [row])) n h \<and> placed at (hr_result h)"
      proof cases
        case 1
        then show ?thesis using a(5) snapshot_append by fastforce
      next
        case 2
        have st: "map_of (hr_before h) = map_of (pj_state p)" "distinct (map fst (hr_before h))"
          using projector_entries_state [OF 2(4)] projects_state [OF a(1)] by blast+
        have "snapshot sha real pt (du_options l) (map rw_bytes (before @ [row])) (length before) h"
          unfolding snapshot_def using a(1,2) st 2(2) by auto
        then show ?thesis using 2(1,3) 2(2) by (intro exI [of _ "length before"]) simp
      qed
    qed
  qed simp
  then show ?thesis by blast
qed

lemma snapshot_genuine:
  assumes "snapshot sha real pt po bs n h" and "projects sha real pt po bs p rs" and "cp_block at = int n"
    and "placed at (hr_result h)" and "cp_channel at = channel"
  shows "genuine channel rs at"
  using snapshot_results [OF assms(1,2)] assms(3-5) unfolding genuine_def by auto

lemma replay_checkpoint_cases:
  assumes "replay_checkpoint sha real pt collate at l = (r, l')"
  obtains (stays) "l' = l" "\<forall>h. r \<noteq> Ok h"
    | (cached) h where "cp_channel at = channel_of l" "map_of (du_snapshots l) (checkpoint_key at) = Some h"
        "verify_cached_checkpoint sha real pt at h l = Ok ()" "r = Ok h"
        "l' = l\<lparr>du_snapshots := filter (\<lambda>(m, _). m \<noteq> checkpoint_key at) (du_snapshots l) @ [(checkpoint_key at, h)]\<rparr>"
    | (replayed) h where "cp_channel at = channel_of l" "replay_journal sha real pt collate (select_checkpoint real collate at l) None l = Ok (Some h)"
        "r = Ok h" "l' = l\<lparr>du_snapshots := remember_latest (checkpoint_key at) h (du_snapshots l)\<rparr>"
proof (cases "rbind (validate_checkpoint at l) (\<lambda>_. verify_cursor (cp_block at) l)")
  case (Err e)
  then have "l' = l" "r = Err e" using assms by (simp_all add: replay_checkpoint_def obind_def inspect_def)
  then show ?thesis by (intro stays) simp_all
next
  case (Ok u)
  then have channel: "cp_channel at = channel_of l" by (auto simp: validate_checkpoint_def split: if_splits)
  show ?thesis
  proof (cases "map_of (du_snapshots l) (checkpoint_key at)")
    case (Some h)
    then have run: "(r, l') = (case verify_cached_checkpoint sha real pt at h l of
           Err e \<Rightarrow> (Err e, l)
         | Ok _ \<Rightarrow> (Ok h, l\<lparr>du_snapshots := filter (\<lambda>(m, _). m \<noteq> checkpoint_key at) (du_snapshots l) @ [(checkpoint_key at, h)]\<rparr>))"
      using assms Ok by (simp add: replay_checkpoint_def obind_def inspect_def Let_def)
    show ?thesis
    proof (cases "verify_cached_checkpoint sha real pt at h l")
      case (Err e)
      then have "l' = l" "r = Err e" using run by simp_all
      then show ?thesis by (intro stays) simp_all
    next
      case (Ok u)
      then show ?thesis using run by (intro cached [OF channel Some]) simp_all
    qed
  next
    case None
    then have run: "(r, l') = (case replay_journal sha real pt collate (select_checkpoint real collate at l) None l of
           Err e \<Rightarrow> (Err e, l)
         | Ok None \<Rightarrow> (refuse ''Untrusted checkpoint'', l)
         | Ok (Some h) \<Rightarrow> (Ok h, l\<lparr>du_snapshots := remember_latest (checkpoint_key at) h (du_snapshots l)\<rparr>))"
      using assms Ok by (simp add: replay_checkpoint_def obind_def inspect_def Let_def)
    show ?thesis
    proof (cases "replay_journal sha real pt collate (select_checkpoint real collate at l) None l")
      case (Err e)
      then have "l' = l" "r = Err e" using run by simp_all
      then show ?thesis by (intro stays) simp_all
    next
      case (Ok found)
      show ?thesis
      proof (cases found)
        case None
        then have "l' = l" "r = refuse ''Untrusted checkpoint''" using run Ok by simp_all
        then show ?thesis by (intro stays) simp_all
      next
        case (Some h)
        then show ?thesis using run Ok by (intro replayed [OF channel]) simp_all
      qed
    qed
  qed
qed

lemma replay_checkpoint_reads:
  assumes sha: "hex_sha sha" and free: "collision_free sha bs seen" "journal (du_db l) \<in> seen"
    and l: "sound sha real pt bs rs l" and run: "replay_checkpoint sha real pt collate at l = (r, l')"
  shows "sound sha real pt bs rs l' \<and> reads_only l l' \<and> (\<forall>h. r = Ok h \<longrightarrow>
    (\<exists>n. cp_block at = int n \<and> snapshot sha real pt (du_options l) bs n h) \<and> genuine (channel_of l) rs at)"
proof -
  have proj: "projects sha real pt (du_options l) bs (du_projector l) rs" "du_journal l = journal_digest sha (map sha bs)"
    using l by (simp_all add: sound_def)
  have snaps: "snapshots_ok sha real pt (du_options l) bs (du_snapshots l)" using l by (simp add: sound_def)
  let ?k = "checkpoint_key at"
  consider (stays) "l' = l" "\<forall>h. r \<noteq> Ok h"
    | (cached) h where "cp_channel at = channel_of l" "map_of (du_snapshots l) ?k = Some h" "verify_cached_checkpoint sha real pt at h l = Ok ()"
        "r = Ok h" "l' = l\<lparr>du_snapshots := filter (\<lambda>(m, _). m \<noteq> ?k) (du_snapshots l) @ [(?k, h)]\<rparr>"
    | (replayed) h where "cp_channel at = channel_of l" "replay_journal sha real pt collate (select_checkpoint real collate at l) None l = Ok (Some h)"
        "r = Ok h" "l' = l\<lparr>du_snapshots := remember_latest ?k h (du_snapshots l)\<rparr>"
    using replay_checkpoint_cases [OF run] .
  then show ?thesis
  proof cases
    case stays
    then show ?thesis using l by simp
  next
    case cached
    have mem: "(?k, h) \<in> set (du_snapshots l)" using cached(2) by (rule map_of_SomeD)
    then obtain at' n where at': "?k = checkpoint_key at'" "cp_block at' = int n" "snapshot sha real pt (du_options l) bs n h"
      using snaps unfolding snapshots_ok_def by blast
    have n: "cp_block at = int n" using checkpoint_key_block [OF at'(1)] at'(2) by simp
    have "cp_hash at = pc_hash (br_checkpoint (hr_result h))" "verify_place real at (hr_result h) l = Ok ()"
      using cached(3) verify_stored_block_hash by (auto simp: verify_cached_checkpoint_def)
    then have "placed at (hr_result h)" by (rule_tac verify_place_Ok)
    then have "genuine (channel_of l) rs at" by (rule snapshot_genuine [OF at'(3) proj(1) n]) (rule cached(1))
    moreover have "snapshots_ok sha real pt (du_options l) bs (filter (\<lambda>(m, _). m \<noteq> ?k) (du_snapshots l) @ [(?k, h)])"
      using snaps mem unfolding snapshots_ok_def by auto
    ultimately show ?thesis using sound_snapshots [OF l] cached(4,5) n at'(3) by (auto simp: reads_only_def)
  next
    case replayed
    obtain n where n: "cp_block at = int n" "snapshot sha real pt (du_options l) bs n h" "placed at (hr_result h)"
      using replayed_checkpoint [OF sha free proj replayed(2)] by blast
    have "genuine (channel_of l) rs at" using snapshot_genuine [OF n(2) proj(1) n(1,3) replayed(1)] .
    moreover have "snapshots_ok sha real pt (du_options l) bs (remember_latest ?k h (du_snapshots l))"
      using snaps n remember_latest_subset [of ?k h "du_snapshots l"] unfolding snapshots_ok_def by blast
    ultimately show ?thesis using sound_snapshots [OF l] replayed(3,4) n by (auto simp: reads_only_def)
  qed
qed

section \<open>Answers\<close>

lemma last_placed:
  assumes "map px_index (br_transactions r) = [0..<length (br_transactions r)]" and "cp_hash at = pc_hash (br_checkpoint r)"
    and "cp_index at = last_index r" and "cp_tx at = last_id r"
  shows "placed at r"
proof (cases "br_transactions r = []")
  case True
  then show ?thesis using assms(2-4) by (simp add: placed_def last_index_def last_id_def last_of_def)
next
  case False
  then have "px_index (last (br_transactions r)) = length (br_transactions r) - 1"
    using arg_cong [OF assms(1), of last] by (simp add: last_map)
  then have "cp_index at = int (length (br_transactions r) - 1)" using assms(3) False by (simp add: last_index_def last_of_def)
  then show ?thesis using assms(2,4) False by (auto simp: placed_def last_id_def last_of_def nth_transaction_def last_conv_nth)
qed

lemma current_genuine:
  assumes "sound sha real pt bs rs l" and "is_current_checkpoint at l"
  shows "genuine (channel_of l) rs at \<and> cp_block at = int (length rs) - 1 \<and> value_written rs (Some at) = value_written rs None"
proof -
  have proj: "projects sha real pt (du_options l) bs (du_projector l) rs" and latest: "du_latest l = last_of rs" using assms(1) by (simp_all add: sound_def)
  obtain c r where c: "pj_checkpoint (du_projector l) = Some c" "last_of rs = Some r" "cp_channel at = channel_of l" "cp_block at = pc_number c"
      "cp_hash at = pc_hash c" "cp_index at = last_index r" "cp_tx at = last_id r"
    using assms(2) latest by (auto simp: is_current_checkpoint_def split: option.splits)
  have num: "well_numbered rs" "c = br_checkpoint r" using projects_numbers [OF proj] c(1,2) by simp_all
  have r: "rs \<noteq> []" "r = rs ! (length rs - 1)" using c(2) by (auto simp: last_of_def last_conv_nth split: if_splits)
  then have n: "length rs - 1 < length rs" by simp
  have w: "pc_number (br_checkpoint r) = int (length rs - 1)" "map px_index (br_transactions r) = [0..<length (br_transactions r)]"
    using num(1) n r(2) by (simp_all add: well_numbered_def)
  have at: "cp_block at = int (length rs - 1)" using c(4) num(2) w(1) by simp
  have "placed at r" using last_placed [OF w(2)] c(5-7) num(2) by blast
  then have "genuine (channel_of l) rs at" unfolding genuine_def using c(3) at n r(2) by auto
  moreover have "writes_until (cp_index at) r = block_writes_of r"
  proof -
    have "int (px_index tx) \<le> last_index r" if "tx \<in> set (br_transactions r)" for tx
    proof -
      have ne: "br_transactions r \<noteq> []" using that by auto
      have "px_index tx < length (br_transactions r)" using arg_cong [OF w(2), of set] that by auto
      moreover have "px_index (last (br_transactions r)) = length (br_transactions r) - 1"
        using arg_cong [OF w(2), of last] ne by (simp add: last_map)
      ultimately show ?thesis using ne by (simp add: last_index_def last_of_def)
    qed
    then show ?thesis using c(6) by (simp add: writes_until_def block_writes_of_def takeWhile_eq_all_conv [THEN iffD2])
  qed
  then have "written_until rs (Some at) = written_until rs None"
    using written_until_checkpoint [OF num(1) at n] r(2) append_butlast_last_id [OF r(1)]
    by (metis (no_types, lifting) append_Nil2 butlast_conv_take concat.simps concat_append last_conv_nth list.simps(8,9) map_append r(1) written_all)
  ultimately show ?thesis using at r(1) by (simp add: value_written_def of_nat_diff Suc_le_eq)
qed

text \<open>What an operation may rest its answer on\<close>

lemma trusted_state_reads:
  assumes sha: "hex_sha sha" and free: "collision_free sha bs seen" "journal (du_db l) \<in> seen"
    and l: "sound sha real pt bs rs l" and run: "trusted_state sha real pt collate at l = (r, l')"
  shows "sound sha real pt bs rs l' \<and> reads_only l l' \<and> (\<forall>t. r = Ok t \<longrightarrow> (\<forall>cp. at = Some cp \<longrightarrow> genuine (channel_of l) rs cp) \<and>
    (case t of None \<Rightarrow> value_written rs at = value_written rs None
     | Some (cp, h) \<Rightarrow> at = Some cp \<and> (\<exists>n. cp_block cp = int n \<and> snapshot sha real pt (du_options l) bs n h)))"
proof (cases at)
  case None
  then show ?thesis using run l by (auto simp: trusted_state_def inspect_def)
next
  case (Some cp)
  show ?thesis
  proof (cases "is_current_checkpoint cp l")
    case True
    then show ?thesis using run l Some current_genuine [OF l True] by (auto simp: trusted_state_def inspect_def)
  next
    case False
    obtain q l1 where q: "replay_checkpoint sha real pt collate cp l = (q, l1)" by fastforce
    note reads = replay_checkpoint_reads [OF sha free l q]
    have "l' = l1 \<and> r = (case q of Err e \<Rightarrow> Err e | Ok h \<Rightarrow> Ok (Some (cp, h)))"
      using run Some False q by (auto simp: trusted_state_def obind_def split: result.splits)
    then show ?thesis using reads Some by (auto split: result.splits)
  qed
qed

lemma trusted_value_written:
  assumes l: "sound sha real pt bs rs l" and t: "case t of None \<Rightarrow> value_written rs at = value_written rs None
     | Some (cp, h) \<Rightarrow> at = Some cp \<and> (\<exists>n. cp_block cp = int n \<and> snapshot sha real pt (du_options l) bs n h)"
    and v: "trusted_value t k l = Ok v"
  shows "v = value_written rs at k"
proof -
  have proj: "projects sha real pt (du_options l) bs (du_projector l) rs" using l by (simp add: sound_def)
  note st = projects_state [OF proj]
  show ?thesis
  proof (cases t)
    case None
    have "v = map_of (pj_state (du_projector l)) k"
    proof (cases "map_of (pj_state (du_projector l)) k")
      case (Some w)
      then have "jnorm w = w" using st map_of_SomeD [OF Some] by fast
      then show ?thesis using v None Some by (auto simp: trusted_value_def projector_read_def)
    qed (use v None in \<open>simp add: trusted_value_def projector_read_def\<close>)
    then show ?thesis using None t st by simp
  next
    case (Some ch)
    obtain cp h n where ch: "ch = (cp, h)" "at = Some cp" "cp_block cp = int n" "snapshot sha real pt (du_options l) bs n h"
      using t Some by (cases ch) auto
    then show ?thesis using v Some snapshot_value [OF ch(4) proj ch(3)] by (simp add: trusted_value_def)
  qed
qed

lemma trusted_value_reads: "reads_only l l' \<Longrightarrow> trusted_value t k l' = trusted_value t k l"
  by (simp add: trusted_value_def reads_only_def split: option.splits)

lemma compare_value_Ok: "compare_value a e = Ok v \<Longrightarrow> v = e"
  by (auto simp: compare_value_def split: if_splits)

lemma when_open_result: "when_open m l = (r, l') \<Longrightarrow> m l = (r, l') \<or> l' = l \<and> (\<forall>x. r \<noteq> Ok x)"
  by (auto simp: when_open_def split: if_splits)

lemma obind_inspect_result:
  "obind m (\<lambda>x. inspect (f x)) l = (r, l') \<Longrightarrow> \<exists>q. m l = (q, l') \<and> (\<forall>y. r = Ok y \<longrightarrow> (\<exists>x. q = Ok x \<and> f x l' = Ok y))"
  by (auto simp: obind_def inspect_def split: prod.splits result.splits)

lemma durable_read_answers:
  assumes sha: "hex_sha sha" and free: "collision_free sha bs seen" "journal (du_db l) \<in> seen"
    and l: "sound sha real pt bs rs l" and run: "durable_read sha real pt collate k at l = (r, l')"
  shows "sound sha real pt bs rs l' \<and> reads_only l l' \<and>
    (\<forall>v. r = Ok v \<longrightarrow> (\<forall>cp. at = Some cp \<longrightarrow> genuine (channel_of l) rs cp) \<and> v = value_written rs at k)"
  using when_open_result [OF run [unfolded durable_read_def]]
proof
  assume "l' = l \<and> (\<forall>x. r \<noteq> Ok x)"
  then show ?thesis using l by simp
next
  assume "obind (trusted_state sha real pt collate at) (\<lambda>t. inspect (\<lambda>s. rbind (trusted_value t k s) (\<lambda>expected.
       rbind (parse_stored real (stored_text (du_db s) at k)) (\<lambda>actual. compare_value actual expected)))) l = (r, l')"
  from obind_inspect_result [OF this] obtain q where q: "trusted_state sha real pt collate at l = (q, l')"
    and r: "\<forall>v. r = Ok v \<longrightarrow> (\<exists>t. q = Ok t \<and> trusted_value t k l' = Ok v)" by (auto dest: compare_value_Ok)
  note reads = trusted_state_reads [OF sha free l q]
  have "(\<forall>cp. at = Some cp \<longrightarrow> genuine (channel_of l) rs cp) \<and> v = value_written rs at k" if "r = Ok v" for v
  proof -
    obtain t where t: "q = Ok t" "trusted_value t k l' = Ok v" using r \<open>r = Ok v\<close> by blast
    have "v = value_written rs at k"
      by (rule trusted_value_written [OF l]) (use reads t trusted_value_reads in auto)
    then show ?thesis using reads t(1) by blast
  qed
  then show ?thesis using reads by blast
qed

lemma read_chunk_answers:
  assumes "read_chunk_of real at t l keys = Ok kvs" and "\<And>k v. trusted_value t k l = Ok v \<Longrightarrow> v = value k"
  shows "kvs = concat (map (\<lambda>k. case value k of None \<Rightarrow> [] | Some w \<Rightarrow> [(k, w)]) keys)"
proof -
  have zipped: "mapR (\<lambda>(k, a). rbind (trusted_value t k l) (\<lambda>expected. compare_value a expected)) (zip keys actual) = Ok vs \<Longrightarrow>
      length actual = length keys \<Longrightarrow> vs = map value keys" for actual vs
  proof (induction keys arbitrary: actual vs)
    case (Cons k keys)
    then obtain a as where "actual = a # as" "length as = length keys" by (cases actual) auto
    then show ?case using Cons.IH [of as] Cons.prems(1) assms(2) compare_value_Ok by fastforce
  qed simp
  obtain actual vs where "mapR (\<lambda>k. parse_stored real (stored_text (du_db l) at k)) keys = Ok actual"
    and vs: "mapR (\<lambda>(k, a). rbind (trusted_value t k l) (\<lambda>expected. compare_value a expected)) (zip keys actual) = Ok vs"
    and kvs: "kvs = concat (map (\<lambda>(k, v). case v of None \<Rightarrow> [] | Some w \<Rightarrow> [(k, w)]) (zip keys vs))"
    using assms(1) by (auto simp: read_chunk_of_def)
  then have "vs = map value keys" using zipped mapR_length by metis
  then show ?thesis using kvs by (simp add: zip_map2 zip_same_conv_map comp_def)
qed

lemma concat_chunks: "0 < n \<Longrightarrow> concat (chunks n xs) = xs"
proof (induction n xs rule: chunks.induct)
  case (2 n x xs)
  then show ?case by simp
qed simp

lemma mapR_concat:
  assumes "mapR f xss = Ok yss" and "\<And>xs ys. f xs = Ok ys \<Longrightarrow> ys = concat (map g xs)"
  shows "concat yss = concat (map g (concat xss))"
  using assms(1)
proof (induction xss arbitrary: yss)
  case (Cons xs xss)
  then show ?case using assms(2) by fastforce
qed simp

text \<open>The entries of a map for the keys, in their order\<close>

definition entries_for :: "(jstr \<Rightarrow> json option) \<Rightarrow> jstr list \<Rightarrow> (jstr \<times> json) list" where
  "entries_for value keys = concat (map (\<lambda>k. case value k of None \<Rightarrow> [] | Some v \<Rightarrow> [(k, v)]) keys)"

lemma durable_read_many_answers:
  assumes sha: "hex_sha sha" and free: "collision_free sha bs seen" "journal (du_db l) \<in> seen"
    and l: "sound sha real pt bs rs l" and run: "durable_read_many sha real pt collate keys at l = (r, l')"
  shows "sound sha real pt bs rs l' \<and> reads_only l l' \<and>
    (\<forall>kvs. r = Ok kvs \<longrightarrow> (\<forall>cp. at = Some cp \<longrightarrow> genuine (channel_of l) rs cp) \<and> kvs = entries_for (value_written rs at) (remdups keys))"
  using when_open_result [OF run [unfolded durable_read_many_def]]
proof
  assume "l' = l \<and> (\<forall>x. r \<noteq> Ok x)"
  then show ?thesis using l by simp
next
  assume "obind (trusted_state sha real pt collate at) (\<lambda>t. inspect (\<lambda>s.
       rmap concat (mapR (read_chunk_of real at t s) (chunks 500 (remdups keys))))) l = (r, l')"
  from obind_inspect_result [OF this] obtain q where q: "trusted_state sha real pt collate at l = (q, l')"
    and r: "\<forall>kvs. r = Ok kvs \<longrightarrow> (\<exists>t yss. q = Ok t \<and> mapR (read_chunk_of real at t l') (chunks 500 (remdups keys)) = Ok yss \<and> kvs = concat yss)"
    by auto
  note reads = trusted_state_reads [OF sha free l q]
  have "(\<forall>cp. at = Some cp \<longrightarrow> genuine (channel_of l) rs cp) \<and> kvs = entries_for (value_written rs at) (remdups keys)" if "r = Ok kvs" for kvs
  proof -
    obtain t yss where t: "q = Ok t" "mapR (read_chunk_of real at t l') (chunks 500 (remdups keys)) = Ok yss" "kvs = concat yss"
      using r \<open>r = Ok kvs\<close> by blast
    have known: "v = value_written rs at k" if "trusted_value t k l' = Ok v" for k v
      by (rule trusted_value_written [OF l]) (use reads t that trusted_value_reads in auto)
    have "concat yss = concat (map (\<lambda>k. case value_written rs at k of None \<Rightarrow> [] | Some w \<Rightarrow> [(k, w)]) (concat (chunks 500 (remdups keys))))"
      by (rule mapR_concat [OF t(2)]) (rule read_chunk_answers, assumption, rule known)
    then show ?thesis using reads t(1,3) by (simp add: entries_for_def concat_chunks)
  qed
  then show ?thesis using reads by blast
qed

text \<open>A listing of a map: its entries under a prefix, each once, in the order of the locale\<close>

definition lists_entries :: "(jstr \<Rightarrow> 'o :: linorder) \<Rightarrow> jstr \<Rightarrow> (jstr \<Rightarrow> json option) \<Rightarrow> (jstr \<times> json) list \<Rightarrow> bool" where
  "lists_entries collate pre value es \<longleftrightarrow> sorted (map (\<lambda>(k, v). collate k) es) \<and> distinct (map fst es) \<and>
     (\<forall>k v. (k, v) \<in> set es \<longleftrightarrow> starts_with k pre \<and> value k = Some v)"

lemma lists_sorted:
  assumes "distinct (map fst m)" and "map_of m = value"
  shows "lists_entries collate pre value (sort_key (\<lambda>(k, v). collate k) (filter (\<lambda>(k, v). starts_with k pre) m))"
proof -
  let ?m = "filter (\<lambda>(k, v). starts_with k pre) m"
  have "distinct (map fst ?m)" using assms(1) by (auto simp: distinct_map intro: inj_on_subset)
  then have "distinct (map fst (sort_key (\<lambda>(k, v). collate k) ?m))" by (simp add: distinct_map)
  moreover have "(k, v) \<in> set ?m \<longleftrightarrow> starts_with k pre \<and> value k = Some v" for k v
    using assms map_of_eq_Some_iff [OF assms(1)] by auto
  ultimately show ?thesis by (simp add: lists_entries_def del: set_filter)
qed

lemma trusted_entries_written:
  assumes l: "sound sha real pt bs rs l" and t: "case t of None \<Rightarrow> value_written rs at = value_written rs None
     | Some (cp, h) \<Rightarrow> at = Some cp \<and> (\<exists>n. cp_block cp = int n \<and> snapshot sha real pt (du_options l) bs n h)"
    and es: "trusted_entries collate t pre l = Ok es"
  shows "lists_entries collate pre (value_written rs at) es"
proof -
  have proj: "projects sha real pt (du_options l) bs (du_projector l) rs" using l by (simp add: sound_def)
  note st = projects_state [OF proj]
  show ?thesis
  proof (cases t)
    case None
    have copy: "mapR (\<lambda>(k, v). rmap (\<lambda>c. (k, c)) (canonical (clone_canonical v))) xs = Ok ys \<Longrightarrow> \<forall>(k, v) \<in> set xs. jnorm v = v \<Longrightarrow> ys = xs"
      for xs ys :: "(jstr \<times> json) list"
      by (induction xs arbitrary: ys) auto
    have "es = sort_key (\<lambda>(k, v). collate k) (filter (\<lambda>(k, v). starts_with k pre) (pj_state (du_projector l)))"
      using es None st by (intro copy) (auto simp: trusted_entries_def projector_entries_def)
    moreover have "map_of (pj_state (du_projector l)) = value_written rs at" using st None t by simp
    ultimately show ?thesis using lists_sorted [of "pj_state (du_projector l)"] st by blast
  next
    case (Some ch)
    obtain cp h n where ch: "ch = (cp, h)" "at = Some cp" "cp_block cp = int n" "snapshot sha real pt (du_options l) bs n h"
      using t Some by (cases ch) auto
    let ?m = "if 0 \<le> cp_index cp then fold (\<lambda>(k, v). upsert k v) (writes_until (cp_index cp) (hr_result h)) (hr_before h) else hr_before h"
    have "map_of ?m k = value_at_checkpoint k cp h" for k
      by (simp add: value_at_checkpoint_def Let_def fold_last_write map_of_upserts map_add_def)
    then have "map_of ?m = value_written rs at" using snapshot_value [OF ch(4) proj ch(3)] ch(2) by (simp add: fun_eq_iff)
    moreover have "distinct (map fst ?m)" using ch(4) fold_upsert_distinct [of "hr_before h"] by (simp add: snapshot_def)
    ultimately have "lists_entries collate pre (value_written rs at) (sort_key (\<lambda>(k, v). collate k) (filter (\<lambda>(k, v). starts_with k pre) ?m))"
      by (rule_tac lists_sorted)
    then show ?thesis using es Some ch(1) by (simp add: trusted_entries_def entries_at_checkpoint_def Let_def)
  qed
qed

lemma durable_entries_answers:
  assumes sha: "hex_sha sha" and free: "collision_free sha bs seen" "journal (du_db l) \<in> seen"
    and l: "sound sha real pt bs rs l" and run: "durable_entries sha real pt collate pre at l = (r, l')"
  shows "sound sha real pt bs rs l' \<and> reads_only l l' \<and>
    (\<forall>es. r = Ok es \<longrightarrow> (\<forall>cp. at = Some cp \<longrightarrow> genuine (channel_of l) rs cp) \<and> lists_entries collate pre (value_written rs at) es)"
  using when_open_result [OF run [unfolded durable_entries_def]]
proof
  assume "l' = l \<and> (\<forall>x. r \<noteq> Ok x)"
  then show ?thesis using l by simp
next
  assume "obind (trusted_state sha real pt collate at) (\<lambda>t. inspect (\<lambda>s. rbind (trusted_entries collate t pre s) (\<lambda>expected.
       rbind (mapR (\<lambda>(k, text). rmap (Pair k) (parse_stored real (Some text))) (stored_entries (du_db s) t pre)) (\<lambda>actual.
       if length expected \<noteq> length actual \<or>
         list_ex (\<lambda>(k, v). \<not> (case map_of actual k of None \<Rightarrow> False | Some a \<Rightarrow> same_text a (Some v))) expected
       then refuse ''Fabric projection integrity check failed; rebuild the derived view''
       else Ok expected)))) l = (r, l')"
  from obind_inspect_result [OF this] obtain q where q: "trusted_state sha real pt collate at l = (q, l')"
    and r: "\<forall>es. r = Ok es \<longrightarrow> (\<exists>t. q = Ok t \<and> trusted_entries collate t pre l' = Ok es)" by (auto split: if_splits)
  note reads = trusted_state_reads [OF sha free l q]
  have "(\<forall>cp. at = Some cp \<longrightarrow> genuine (channel_of l) rs cp) \<and> lists_entries collate pre (value_written rs at) es" if "r = Ok es" for es
  proof -
    obtain t where t: "q = Ok t" "trusted_entries collate t pre l' = Ok es" using r \<open>r = Ok es\<close> by blast
    have "trusted_entries collate t pre l = Ok es" using t(2) reads by (auto simp: trusted_entries_def reads_only_def split: option.splits)
    then have "lists_entries collate pre (value_written rs at) es"
      by (rule_tac trusted_entries_written [OF l]) (use reads t in auto)
    then show ?thesis using reads t(1) by blast
  qed
  then show ?thesis using reads by blast
qed

section \<open>Committing a prepared browse update\<close>

text \<open>On the state it was prepared for, a prepared update commits.\<close>

definition fits_table :: "('x browse_ref_scheme \<Rightarrow> 'x browse_ref_scheme \<Rightarrow> bool) \<Rightarrow> (jstr \<Rightarrow> 'x browse_ref_scheme option) \<Rightarrow>
    'x browse_ref_scheme delta \<Rightarrow> bool" where
  "fits_table matches by_key d \<longleftrightarrow> (\<forall>r \<in> set (dl_added d). by_key (bf_key r) = None) \<and>
     (\<forall>r \<in> set (dl_demote d). \<exists>e. by_key (bf_key r) = Some e \<and> matches e r)"

lemma advanced_keys: "bf_key ` set (map (\<lambda>e. if bf_key e = k then e\<lparr>bf_at := t\<rparr> else e) ds) = bf_key ` set ds"
proof -
  have "bf_key (if bf_key e = k then e\<lparr>bf_at := t\<rparr> else e) = bf_key e" for e :: "'a browse_ref_scheme" by (cases "bf_key e = k") simp_all
  then show ?thesis by (simp only: set_map image_image)
qed

lemma fits_addedI: "fits_table matches by_key d \<Longrightarrow> bf_key ` set rs \<subseteq> insert k (bf_key ` set (dl_added d)) \<Longrightarrow> by_key k = None \<Longrightarrow>
    fits_table matches by_key (d\<lparr>dl_added := rs\<rparr>)"
  unfolding fits_table_def by (simp add: image_subset_iff) (metis imageE)

lemma note_demote_member:
  assumes "x \<in> set (note_demote r ds)"
  shows "x = r \<or> x \<in> set ds"
proof (cases "ref_of (bf_key r) ds")
  case None
  then have "note_demote r ds = ds @ [r]" by (simp add: note_demote_def)
  then show ?thesis using assms by simp
next
  case (Some f)
  show ?thesis
  proof (cases "place (bf_at r) < place (bf_at f)")
    case True
    then have "note_demote r ds = map (\<lambda>e. if bf_key e = bf_key r then r else e) ds" using Some by (simp add: note_demote_def earlier_than_def)
    with assms have "x \<in> (\<lambda>e. if bf_key e = bf_key r then r else e) ` set ds" by (simp only: set_map)
    then obtain y where "x = (if bf_key y = bf_key r then r else y)" "y \<in> set ds" by (rule imageE)
    then show ?thesis by (cases "bf_key y = bf_key r") simp_all
  next
    case False
    then have "note_demote r ds = ds" using Some by (simp add: note_demote_def earlier_than_def)
    then show ?thesis using assms by simp
  qed
qed

lemma fits_noted:
  assumes "fits_table matches by_key d" and "by_key (bf_key r) = Some e" and "matches e r"
  shows "fits_table matches by_key (d\<lparr>dl_demote := note_demote r (dl_demote d)\<rparr>)"
proof -
  have "\<exists>e. by_key (bf_key x) = Some e \<and> matches e x" if "x \<in> set (note_demote r (dl_demote d))" for x
    using note_demote_member [OF that]
  proof
    assume "x = r"
    then show ?thesis using assms(2,3) by simp
  next
    assume "x \<in> set (dl_demote d)"
    then show ?thesis using assms(1) by (simp add: fits_table_def)
  qed
  then show ?thesis using assms(1) by (simp add: fits_table_def)
qed

lemma stage_ref_fits:
  assumes stage: "stage_ref matches m by_key r d = Ok d'" and d: "fits_table matches by_key d"
  shows "fits_table matches by_key d'"
proof (cases "by_key (bf_key r)")
  case None
  show ?thesis
  proof (cases "ref_of (bf_key r) (dl_added d)")
    case no_pending: None
    then have "d' = d\<lparr>dl_added := dl_added d @ [r]\<rparr>" using stage None by (simp add: stage_ref_def)
    then show ?thesis using fits_addedI [OF d _ None, of "dl_added d @ [r]"] by simp
  next
    case (Some e)
    have ok: "matches e r" using stage None Some by (simp add: stage_ref_def split: if_splits)
    show ?thesis
    proof (cases "place (bf_at r) < place (bf_at e)")
      case False
      then have "d' = d" using stage None Some ok by (simp add: stage_ref_def earlier_than_def)
      then show ?thesis using d by simp
    next
      case True
      let ?A = "map (\<lambda>e. if bf_key e = bf_key r then e\<lparr>bf_at := bf_at r\<rparr> else e) (dl_added d)"
      have "d' = d\<lparr>dl_added := ?A\<rparr>" using stage None Some ok True by (simp add: stage_ref_def earlier_than_def)
      moreover have "bf_key ` set ?A \<subseteq> insert (bf_key r) (bf_key ` set (dl_added d))" unfolding advanced_keys by blast
      ultimately show ?thesis using fits_addedI [OF d _ None, of ?A] by simp
    qed
  qed
next
  case (Some e)
  then have ok: "matches e r" using stage by (simp add: stage_ref_def split: if_splits)
  have fresh: "ref_of (bf_key r) (dl_added d) = None"
  proof -
    have "bf_key r \<notin> bf_key ` set (dl_added d)" using d Some unfolding fits_table_def by (metis imageE option.distinct(1))
    then show ?thesis by (simp add: ref_of_None)
  qed
  show ?thesis
  proof (cases "place (bf_at r) < place (bf_at e)")
    case False
    then have "d' = d" using stage Some fresh ok by (simp add: stage_ref_def earlier_than_def)
    then show ?thesis using d by simp
  next
    case True
    then have "d' = d\<lparr>dl_demote := note_demote r (dl_demote d)\<rparr>" using stage Some fresh ok by (simp add: stage_ref_def earlier_than_def)
    then show ?thesis using fits_noted [OF d Some ok] by simp
  qed
qed

definition fits_state :: "browse_state \<Rightarrow> prepared_browse \<Rightarrow> bool" where
  "fits_state st p \<longleftrightarrow> fits_table same_revision_ref (rt_by_key (bs_revisions st)) (pv_revisions p) \<and>
     fits_table same_proposal_ref (rt_by_key (bs_proposals st)) (pv_proposals p) \<and>
     fits_table same_agreement_ref (rt_by_key (bs_agreements st)) (pv_agreements p)"

lemma browse_write_fits: "browse_write sha channel st at w p = Ok p' \<Longrightarrow> fits_state st p \<Longrightarrow> fits_state st p'"
  by (auto simp: browse_write_def fits_state_def dest: stage_ref_fits split: prod.splits if_splits)

lemma prepare_batch_fits: "prepare_batch sha channel st b p = Ok p' \<Longrightarrow> fits_state st p \<Longrightarrow> fits_state st p'"
  unfolding prepare_batch_def by (auto split: if_splits intro: foldR_invariant [where P = "fits_state st"] browse_write_fits)

lemma fits_nothing: "fits_state st \<lparr>pv_revisions = empty_delta, pv_proposals = empty_delta, pv_agreements = empty_delta, pv_committed = c\<rparr>"
  by (simp add: fits_state_def fits_table_def empty_delta_def)

lemma browse_prepare_fits: "browse_prepare sha channel st bs = Ok p \<Longrightarrow> fits_state st p"
  unfolding browse_prepare_def by (rule foldR_invariant [where P = "fits_state st"]) (auto intro: prepare_batch_fits fits_nothing)

lemma recheck_fits: "\<forall>r \<in> set rs. by_key (bf_key r) = None \<Longrightarrow> \<exists>x. foldR (recheck_added matches m by_key) rs a = Ok x"
proof (induction rs arbitrary: a)
  case (Cons r rs)
  then show ?case by (cases a) (simp add: recheck_added_def)
qed simp

lemma collect_fits: "\<forall>r \<in> set rs. \<exists>e. by_key (bf_key r) = Some e \<and> matches e r \<Longrightarrow> \<exists>x. foldR (collect_demoted matches m by_key) rs a = Ok x"
proof (induction rs arbitrary: a)
  case (Cons r rs)
  then show ?case by (auto simp: collect_demoted_def)
qed simp

lemma fits_rechecks: "fits_table matches by_key d \<Longrightarrow> \<exists>a b. foldR (recheck_added matches m by_key) (dl_added d) x = Ok (a, b)"
  using recheck_fits [of "dl_added d" by_key matches m x] by (simp add: fits_table_def)

lemma fits_collects: "fits_table matches by_key d \<Longrightarrow> \<exists>a. foldR (collect_demoted matches m by_key) (dl_demote d) x = Ok a"
  using collect_fits [of "dl_demote d" by_key matches m x] by (simp add: fits_table_def)

lemma browse_commit_fits:
  assumes "fits_state (bx_state bx) p"
  shows "\<exists>p' bx'. browse_commit collate p bx = Ok (p', bx')"
proof (cases "pv_committed p")
  case False
  let ?st = "bx_state bx"
  have fits: "fits_table same_revision_ref (rt_by_key (bs_revisions ?st)) (pv_revisions p)"
    "fits_table same_proposal_ref (rt_by_key (bs_proposals ?st)) (pv_proposals p)"
    "fits_table same_agreement_ref (rt_by_key (bs_agreements ?st)) (pv_agreements p)"
    using assms unfolding fits_state_def by blast+
  let ?rm = "''Browse index immutable revision fields changed''" and ?pm = "''Browse index immutable proposal fields changed''"
    and ?am = "''Browse index immutable agreement fields changed''"
  obtain a b where 1: "foldR (recheck_added same_revision_ref ?rm (rt_by_key (bs_revisions ?st))) (dl_added (pv_revisions p)) ([], []) = Ok (a, b)"
    using fits_rechecks [OF fits(1)] by blast
  obtain c d where 2: "foldR (recheck_added same_proposal_ref ?pm (rt_by_key (bs_proposals ?st))) (dl_added (pv_proposals p)) ([], []) = Ok (c, d)"
    using fits_rechecks [OF fits(2)] by blast
  obtain e f where 3: "foldR (recheck_added same_agreement_ref ?am (rt_by_key (bs_agreements ?st))) (dl_added (pv_agreements p)) ([], []) = Ok (e, f)"
    using fits_rechecks [OF fits(3)] by blast
  obtain g where 4: "foldR (collect_demoted same_revision_ref ?rm (rt_by_key (bs_revisions ?st))) (dl_demote (pv_revisions p)) b = Ok g"
    using fits_collects [OF fits(1)] by blast
  obtain h where 5: "foldR (collect_demoted same_proposal_ref ?pm (rt_by_key (bs_proposals ?st))) (dl_demote (pv_proposals p)) d = Ok h"
    using fits_collects [OF fits(2)] by blast
  obtain i where 6: "foldR (collect_demoted same_agreement_ref ?am (rt_by_key (bs_agreements ?st))) (dl_demote (pv_agreements p)) f = Ok i"
    using fits_collects [OF fits(3)] by blast
  show ?thesis unfolding browse_commit_def Let_def using False by (simp only: 1 2 3 4 5 6 if_False rbind.simps case_prod_conv) blast
qed (simp add: browse_commit_def)

section \<open>Applying a block\<close>

lemma block_from_header_Ok: "block_from_header sha b h = Ok jb \<Longrightarrow> jb_digest jb = sha b \<and> jb_number jb = hd_number h"
  by (auto simp: block_from_header_def)

lemma sound_applied:
  assumes l: "sound sha real pt bs rs l" and b: "apply_block sha real pt b (du_projector l) = Ok (r, p)"
    and l': "du_options l' = du_options l" "du_projector l' = p" "du_latest l' = Some r" "du_snapshots l' = du_snapshots l"
      "du_journal l' = append_journal_digest sha (du_journal l) (sha b)" "results_ok (rs @ [r]) (du_results l')"
  shows "sound sha real pt (bs @ [b]) (rs @ [r]) l'"
  using l l' one_more [OF _ b] snapshot_append
  by (fastforce simp: sound_def journal_digest_snoc last_of_def snapshots_ok_def)

lemma results_append: "results_ok rs m \<Longrightarrow> results_ok (rs @ [r]) m"
  by (fastforce simp: results_ok_def nth_append)

lemma prepare_block_base:
  assumes "prepare_block sha real pt b p = Ok prepared"
  shows "pb_base prepared = pj_checkpoint p"
proof -
  obtain block where block: "decode_message (pt_block pt) b = Ok block" using assms by (auto simp: prepare_block_def)
  obtain h entries metadata where "bl_header block = Some h" "bl_data block = Some entries" "bl_metadata block = Some metadata"
    using assms block by (auto simp: prepare_block_def split: option.splits)
  then show ?thesis using assms block by (auto simp: prepare_block_def split: if_splits)
qed

lemma accept_block_grows:
  assumes l: "sound sha real pt bs rs l" and prep: "prepare_block sha real pt b (du_projector l) = Ok prepared"
    and jb: "jb_digest jb = sha b" and browse: "fits_state (bx_state (du_browse l)) browse"
    and run: "accept_block sha collate jb prepared browse db l = (r, l')"
  shows "sound sha real pt (bs @ [b]) (rs @ [pb_result prepared]) l' \<and> du_projector l' \<noteq> du_projector l"
proof -
  obtain p where p: "commit_block_writes prepared (du_projector l) = Ok p" using prepare_block_base [OF prep] by (simp add: commit_block_writes_def)
  have b: "apply_block sha real pt b (du_projector l) = Ok (pb_result prepared, p)" using prep p by (simp add: apply_block_def)
  obtain done_browse bx where bx: "browse_commit collate browse (du_browse l) = Ok (done_browse, bx)" using browse_commit_fits [OF browse] by blast
  obtain anchors q where anchors: "record_anchors sha (channel_of l) jb (pb_result prepared) (du_anchors l) = (anchors, q)" by fastforce
  define s where "s = l\<lparr>du_db := db, du_projector := p, du_browse := bx, du_latest := Some (pb_result prepared), du_raw := Some (jb_digest jb),
      du_journal := append_journal_digest sha (du_journal l) (jb_digest jb), du_anchors := anchors\<rparr>"
  have errs: "r = Err e \<and> l' = s" if "q = Err e" for e
    using run p bx anchors that by (simp add: accept_block_def s_def channel_of_def Let_def of_block_def of_browse_def)
  have oks: "r = Ok (pb_result prepared) \<and> l' = remember_block_result (pb_result prepared) (jb_digest jb) s" if "q = Ok u" for u
    using run p bx anchors that by (simp add: accept_block_def s_def channel_of_def Let_def of_block_def of_browse_def)
  have l': "l' = s \<or> l' = remember_block_result (pb_result prepared) (jb_digest jb) s"
  proof (cases q)
    case (Err e)
    then show ?thesis using errs by blast
  next
    case (Ok u)
    then show ?thesis using oks by simp
  qed
  have proj: "projects sha real pt (du_options l) bs (du_projector l) rs" using l by (simp add: sound_def)
  have n: "pc_number (br_checkpoint (pb_result prepared)) = int (length rs)"
    using apply_block_effects [OF b] projects_numbers [OF proj] by simp
  have old: "results_ok (rs @ [pb_result prepared]) (du_results l)" using l by (intro results_append) (simp add: sound_def)
  then have "results_ok (rs @ [pb_result prepared]) (remember_latest (int (length rs)) (jb_digest jb, pb_result prepared) (du_results l))"
    using remember_latest_subset [of "int (length rs)" "(jb_digest jb, pb_result prepared)" "du_results l"]
    unfolding results_ok_def by fastforce
  then have "results_ok (rs @ [pb_result prepared]) (du_results l')" using l' old n by (auto simp: s_def remember_block_result_def)
  moreover have "next_number p \<noteq> next_number (du_projector l)" using next_number_applied [OF b] by simp
  ultimately show ?thesis using sound_applied [OF l b, of l'] l' jb by (auto simp: s_def remember_block_result_def)
qed

lemma apply_durable_grows:
  assumes sha: "hex_sha sha" and free: "collision_free sha bs seen" "journal (du_db l) \<in> seen"
    and l: "sound sha real pt bs rs l" and run: "apply_durable sha real pt collate b l = (r, l')"
  shows "sound sha real pt bs rs l' \<and> du_projector l' = du_projector l \<or>
    (\<exists>q. sound sha real pt (bs @ [b]) (rs @ [q]) l' \<and> du_projector l' \<noteq> du_projector l)"
proof (cases "\<exists>h existing. \<not> du_closed l \<and> rbind (verify_current_cursor l) (\<lambda>_. rbind (decode_header pt b) (\<lambda>h.
       rmap (Pair h) (load_block (du_db l) (hd_number h)))) = Ok (h, existing)")
  case False
  then have "l' = l"
    using run by (auto simp: apply_durable_def when_open_def obind_def inspect_def split: result.splits if_splits)
  then show ?thesis using l by simp
next
  case True
  then obtain h existing where opened: "\<not> du_closed l" and found: "rbind (verify_current_cursor l) (\<lambda>_. rbind (decode_header pt b) (\<lambda>h.
       rmap (Pair h) (load_block (du_db l) (hd_number h)))) = Ok (h, existing)" by blast
  have run: "(case existing of Some jb \<Rightarrow> apply_known_block sha real pt collate b jb | None \<Rightarrow> apply_new_block sha real pt collate b h) l = (r, l')"
    using run opened found by (simp add: apply_durable_def when_open_def obind_def inspect_def)
  show ?thesis
  proof (cases existing)
    case (Some jb)
    then consider "l' = l" | "replay_block sha real pt collate (jb_number jb) l = (r, l')"
      using run by (auto simp: apply_known_block_def inspect_def split: if_splits)
    then show ?thesis using l replay_block_reads [OF sha free l] by cases (auto simp: reads_only_def)
  next
    case None
    have run: "obind (inspect (candidate_block sha real pt b h)) (\<lambda>(jb, prepared, browse, db). accept_block sha collate jb prepared browse db) l = (r, l')"
      using run None by (simp add: apply_new_block_def)
    show ?thesis
    proof (cases "candidate_block sha real pt b h l")
      case (Err e)
      then have "l' = l" using run by (simp add: obind_def inspect_def)
      then show ?thesis using l by simp
    next
      case (Ok x)
      obtain jb prepared browse db where x: "x = (jb, prepared, browse, db)" by (cases x)
      have parts: "block_from_header sha b h = Ok jb" "prepare_block sha real pt b (du_projector l) = Ok prepared"
        "\<exists>batches. browse_prepare sha (channel_of l) (bx_state (du_browse l)) batches = Ok browse"
        using Ok x by (auto simp: candidate_block_def Let_def split: if_splits)
      then have fits: "fits_state (bx_state (du_browse l)) browse" using browse_prepare_fits by blast
      have "accept_block sha collate jb prepared browse db l = (r, l')" using run by (simp add: obind_def inspect_def Ok x)
      from accept_block_grows [OF l parts(2) _ fits this] show ?thesis using block_from_header_Ok [OF parts(1)] by blast
    qed
  qed
qed

section \<open>Opening\<close>

lemma rebuild_row_Ok:
  assumes "rebuild_row sha real pt channel row rp = Ok rp'"
  obtains r where "apply_block sha real pt (rw_bytes row) (rp_projector rp) = Ok (r, rp_projector rp')"
    "rp_journal rp' = append_journal_digest sha (rp_journal rp) (sha (rw_bytes row))" "rp_latest rp' = Some (r, sha (rw_bytes row))"
proof -
  obtain jb r p where one: "block_from_row row = Ok jb" "verify_journal_block sha real pt jb (rp_projector rp) = Ok (r, p)"
      and rp': "rp_projector rp' = p" "rp_journal rp' = append_journal_digest sha (rp_journal rp) (jb_digest jb)" "rp_latest rp' = Some (r, jb_digest jb)"
  proof -
    obtain jb where jb: "block_from_row row = Ok jb" using assms by (auto simp: rebuild_row_def)
    obtain r p where rp: "verify_journal_block sha real pt jb (rp_projector rp) = Ok (r, p)" using assms jb by (auto simp: rebuild_row_def)
    obtain anchors q where "record_anchors sha channel jb r (rp_anchors rp) = (anchors, q)" by fastforce
    then have "rp_projector rp' = p" "rp_journal rp' = append_journal_digest sha (rp_journal rp) (jb_digest jb)" "rp_latest rp' = Some (r, jb_digest jb)"
      using assms jb rp by (auto simp: rebuild_row_def Let_def)
    then show thesis using jb rp that by blast
  qed
  then show ?thesis using that verify_journal_block_Ok [OF one(2)] block_from_row_Ok [OF one(1)] by simp
qed

lemma rebuild_rows_Ok:
  assumes "foldR (rebuild_row sha real pt channel) rows rp = Ok rp'"
    and "projects sha real pt po bs (rp_projector rp) rs" and "rp_journal rp = journal_digest sha (map sha bs)"
    and "map_option fst (rp_latest rp) = last_of rs"
  shows "\<exists>ss. projects sha real pt po (bs @ map rw_bytes rows) (rp_projector rp') ss \<and>
    rp_journal rp' = journal_digest sha (map sha (bs @ map rw_bytes rows)) \<and> map_option fst (rp_latest rp') = last_of ss"
  using assms
proof (induction rows arbitrary: rp bs rs)
  case Nil
  then show ?case by auto
next
  case (Cons row rows)
  obtain rp1 where rp1: "rebuild_row sha real pt channel row rp = Ok rp1" "foldR (rebuild_row sha real pt channel) rows rp1 = Ok rp'"
    using Cons.prems(1) by auto
  obtain r where r: "apply_block sha real pt (rw_bytes row) (rp_projector rp) = Ok (r, rp_projector rp1)"
    "rp_journal rp1 = append_journal_digest sha (rp_journal rp) (sha (rw_bytes row))" "rp_latest rp1 = Some (r, sha (rw_bytes row))"
    using rebuild_row_Ok [OF rp1(1)] .
  have p1: "projects sha real pt po (bs @ [rw_bytes row]) (rp_projector rp1) (rs @ [r])" using one_more [OF Cons.prems(2) r(1)] .
  have j1: "rp_journal rp1 = journal_digest sha (map sha (bs @ [rw_bytes row]))" using Cons.prems(3) r(2) by (simp add: journal_digest_snoc)
  have "map_option fst (rp_latest rp1) = last_of (rs @ [r])" using r(3) by (simp add: last_of_def)
  from Cons.IH [OF rp1(2) p1 j1 this] show ?case by simp
qed

lemma open_projection_sound:
  assumes "open_projection sha real pt collate po db = (Ok l, db')"
  shows "du_options l = po \<and> (\<exists>rs. sound sha real pt (map rw_bytes (journal db)) rs l)"
proof -
  obtain bound where bound: "ensure_binding sha po db = Ok bound" and open_l: "rebuild_durable sha real pt collate po bound = Ok l"
    using assms by (auto simp: open_projection_def split: result.splits)
  have blocks: "journal bound = journal db" using bound by (auto simp: ensure_binding_def journal_def split: option.splits if_splits)
  obtain p bx nothing rp done_browse bx' where p: "new_projector sha po = Ok p"
      and rp: "foldR (rebuild_row sha real pt (po_channel po)) (journal bound)
         \<lparr>rp_projector = p, rp_journal = empty_journal_digest, rp_db = without_derived bound, rp_latest = None, rp_anchors = [],
          rp_prepared = nothing\<rparr> = Ok rp"
      and l: "l = (let s = \<lparr>du_options = po, du_db = rp_db rp, du_projector = rp_projector rp, du_browse = bx', du_latest = map_option fst (rp_latest rp),
              du_snapshots = [], du_results = [], du_anchors = rp_anchors rp, du_raw = map_option snd (rp_latest rp),
              du_journal = rp_journal rp, du_closed = False\<rparr> in
            case rp_latest rp of None \<Rightarrow> s | Some (result, digest) \<Rightarrow> remember_block_result result digest s)"
    using open_l by (auto simp: rebuild_durable_def Let_def)
  have "\<exists>ss. projects sha real pt po ([] @ map rw_bytes (journal bound)) (rp_projector rp) ss \<and>
      rp_journal rp = journal_digest sha (map sha ([] @ map rw_bytes (journal bound))) \<and> map_option fst (rp_latest rp) = last_of ss"
    by (rule rebuild_rows_Ok [OF rp, of po "[]" "[]"]) (simp_all add: no_blocks [OF p] journal_digest_def last_of_def)
  then obtain ss where ss: "projects sha real pt po (map rw_bytes (journal db)) (rp_projector rp) ss"
      "rp_journal rp = journal_digest sha (map sha (map rw_bytes (journal db)))" "map_option fst (rp_latest rp) = last_of ss"
    using blocks by auto
  have "results_ok ss (du_results l)"
  proof (cases "rp_latest rp")
    case (Some rd)
    then have "ss \<noteq> []" and last: "fst rd = ss ! (length ss - 1)" using ss(3) by (auto simp: last_of_def last_conv_nth split: if_splits)
    moreover have "pc_number (br_checkpoint (fst rd)) = int (length ss - 1)"
      using projects_numbers [OF ss(1)] \<open>ss \<noteq> []\<close> last by (simp add: well_numbered_def)
    ultimately show ?thesis using l Some by (cases rd) (simp add: results_ok_def remember_block_result_def remember_latest_def)
  qed (use l in \<open>simp add: results_ok_def\<close>)
  moreover have "du_options l = po" "du_projector l = rp_projector rp" "du_journal l = rp_journal rp" "du_latest l = map_option fst (rp_latest rp)"
    "du_snapshots l = []"
    by (simp_all add: l Let_def remember_block_result_def split: option.split prod.split)
  ultimately show ?thesis using ss by (auto simp: sound_def snapshots_ok_def)
qed

section \<open>Runs\<close>

text \<open>An operation that adds no block\<close>

inductive reading :: "sha_fn \<Rightarrow> real_fn \<Rightarrow> protos \<Rightarrow> (jstr \<Rightarrow> 'o :: linorder) \<Rightarrow> durable_projection \<Rightarrow> durable_projection \<Rightarrow> bool"
  for sha real pt collate l where
  "durable_read sha real pt collate k at l = (v, l') \<Longrightarrow> reading sha real pt collate l l'"
| "durable_read_many sha real pt collate ks at l = (kvs, l') \<Longrightarrow> reading sha real pt collate l l'"
| "durable_entries sha real pt collate pre at l = (es, l') \<Longrightarrow> reading sha real pt collate l l'"
| "assert_durable_checkpoint sha real pt collate cp l = (u, l') \<Longrightarrow> reading sha real pt collate l l'"
| "durable_browse sha real pt collate q l = (answer, l') \<Longrightarrow> reading sha real pt collate l l'"
| "checkpoint_of_transaction sha real pt collate tx l = (r, l') \<Longrightarrow> reading sha real pt collate l l'"
| "checkpoint_of_creation sha real pt k l = (r, l') \<Longrightarrow> reading sha real pt collate l l'"
| "durable_events sha real pt collate after limit l = (events, l') \<Longrightarrow> reading sha real pt collate l l'"
| "block_checkpoint l = (c, l') \<Longrightarrow> reading sha real pt collate l l'"
| "durable_checkpoint real l = (d, l') \<Longrightarrow> reading sha real pt collate l l'"
| "reading sha real pt collate l (close_durable l)"

text \<open>
  The blocks that a process has verified, and the journals that its operations found.  Between two operations the
  tables may become anything.
\<close>

inductive durable_run :: "sha_fn \<Rightarrow> real_fn \<Rightarrow> protos \<Rightarrow> (jstr \<Rightarrow> 'o :: linorder) \<Rightarrow> nat list list \<Rightarrow> raw_row list set \<Rightarrow>
    durable_projection \<Rightarrow> bool" for sha real pt collate where
  opened: "open_projection sha real pt collate po db = (Ok l, db') \<Longrightarrow> durable_run sha real pt collate (map rw_bytes (journal db)) {} l"
| damaged: "durable_run sha real pt collate bs seen l \<Longrightarrow> durable_run sha real pt collate bs seen (l\<lparr>du_db := db\<rparr>)"
| applied: "durable_run sha real pt collate bs seen l \<Longrightarrow> apply_durable sha real pt collate b l = (r, l') \<Longrightarrow>
    durable_run sha real pt collate (if du_projector l' = du_projector l then bs else bs @ [b]) (insert (journal (du_db l)) seen) l'"
| consulted: "durable_run sha real pt collate bs seen l \<Longrightarrow> reading sha real pt collate l l' \<Longrightarrow>
    durable_run sha real pt collate bs (insert (journal (du_db l)) seen) l'"

lemma sound_unaffected:
  "sound sha real pt bs rs l \<Longrightarrow> du_options l' = du_options l \<Longrightarrow> du_projector l' = du_projector l \<Longrightarrow> du_journal l' = du_journal l \<Longrightarrow>
   du_latest l' = du_latest l \<Longrightarrow> du_results l' = du_results l \<Longrightarrow> du_snapshots l' = du_snapshots l \<Longrightarrow> sound sha real pt bs rs l'"
  by (simp add: sound_def)

lemma inspect_keeps: "inspect f l = (r, l') \<Longrightarrow> l' = l"
  by (simp add: inspect_def)

lemma when_open_keeps: "when_open (inspect f) l = (r, l') \<Longrightarrow> l' = l"
  by (auto simp: when_open_def inspect_def split: if_splits)

lemma assert_checkpoint_sound:
  assumes sha: "hex_sha sha" and free: "collision_free sha bs seen" "journal (du_db l) \<in> seen"
    and l: "sound sha real pt bs rs l" and run: "assert_durable_checkpoint sha real pt collate at l = (r, l')"
  shows "sound sha real pt bs rs l'"
  using when_open_result [OF run [unfolded assert_durable_checkpoint_def]]
proof
  assume "obind (trusted_state sha real pt collate (Some at)) (\<lambda>_. inspect (\<lambda>_. Ok ())) l = (r, l')"
  from obind_inspect_result [OF this] obtain q where "trusted_state sha real pt collate (Some at) l = (q, l')" by (elim exE conjE)
  then show ?thesis using trusted_state_reads [OF sha free l] by blast
qed (use l in simp)

lemma located_sound:
  assumes sha: "hex_sha sha" and free: "collision_free sha bs seen" "journal (du_db l) \<in> seen"
    and l: "sound sha real pt bs rs l" and run: "checkpoint_of_transaction sha real pt collate tx l = (r, l')"
  shows "sound sha real pt bs rs l'"
proof (cases "du_closed l \<or> verify_current_cursor l \<noteq> Ok ()")
  case True
  then have "l' = l" using run by (auto simp: checkpoint_of_transaction_def when_open_def obind_def inspect_def split: result.splits if_splits)
  then show ?thesis using l by simp
next
  case False
  show ?thesis
  proof (cases "locate_transaction (du_db l) tx")
    case None
    then have "l' = l" using run False by (simp add: checkpoint_of_transaction_def when_open_def obind_def inspect_def)
    then show ?thesis using l by simp
  next
    case (Some row)
    obtain q l1 where q: "replay_block sha real pt collate (xr_block row) l = (q, l1)" by fastforce
    have "l' = l \<or> l' = l1" using run False Some q
      by (cases q) (auto simp: checkpoint_of_transaction_def when_open_def obind_def inspect_def split: if_splits)
    then show ?thesis using l replay_block_reads [OF sha free l q] by blast
  qed
qed

lemma browse_sound:
  assumes sha: "hex_sha sha" and free: "collision_free sha bs seen" "journal (du_db l) \<in> seen"
    and l: "sound sha real pt bs rs l" and run: "durable_browse sha real pt collate q l = (answer, l')"
  shows "sound sha real pt bs rs l'"
proof -
  obtain u l1 where u: "assert_durable_checkpoint sha real pt collate (query_at q) l = (u, l1)" by fastforce
  have l1: "sound sha real pt bs rs l1" using assert_checkpoint_sound [OF sha free l u] .
  have "sound sha real pt bs rs (l1\<lparr>du_browse := bx\<rparr>)" for bx by (rule sound_unaffected [OF l1]) simp_all
  moreover have "l' = l1 \<or> (\<exists>bx. l' = l1\<lparr>du_browse := bx\<rparr>)"
  proof (cases u)
    case (Err e)
    then show ?thesis using run u by (simp add: durable_browse_def obind_def)
  next
    case (Ok x)
    then show ?thesis using run u by (cases "of_browse (query_index q (du_browse l1))") (auto simp: durable_browse_def obind_def)
  qed
  ultimately show ?thesis using l1 by blast
qed

lemma reading_sound:
  assumes "reading sha real pt collate l l'" and sha: "hex_sha sha" and free: "collision_free sha bs seen" "journal (du_db l) \<in> seen"
    and l: "sound sha real pt bs rs l"
  shows "sound sha real pt bs rs l'"
  using assms(1)
proof cases
  case 1
  then show ?thesis using durable_read_answers [OF sha free l] by blast
next
  case 2
  then show ?thesis using durable_read_many_answers [OF sha free l] by blast
next
  case 3
  then show ?thesis using durable_entries_answers [OF sha free l] by blast
next
  case 4
  then show ?thesis using assert_checkpoint_sound [OF sha free l] by blast
next
  case (5 q answer)
  then show ?thesis using browse_sound [OF sha free l] by blast
next
  case 6
  then show ?thesis using located_sound [OF sha free l] by blast
next
  case 7
  then have "l' = l" unfolding checkpoint_of_creation_def by (rule when_open_keeps)
  then show ?thesis using l by simp
next
  case 8
  then have "l' = l" unfolding durable_events_def by (rule when_open_keeps)
  then show ?thesis using l by simp
next
  case 9
  then have "l' = l" unfolding block_checkpoint_def by (rule when_open_keeps)
  then show ?thesis using l by simp
next
  case 10
  then have "l' = l" unfolding durable_checkpoint_def by (rule when_open_keeps)
  then show ?thesis using l by simp
next
  case 11
  have "sound sha real pt bs rs (close_durable l)" by (rule sound_unaffected [OF l]) (simp_all add: close_durable_def)
  then show ?thesis using 11 by simp
qed

lemma hashed_append: "hashed_by sha (verified_blocks sha bs) \<subseteq> hashed_by sha (verified_blocks sha (bs @ [b]))"
proof -
  have "set (chain_inputs sha d ds) \<subseteq> set (chain_inputs sha d (ds @ es))" for d ds es by (induction ds arbitrary: d) auto
  from this [of empty_journal_digest "map sha bs" "[sha b]"] show ?thesis
    by (auto simp: hashed_by_def verified_blocks_def comp_def image_image)
qed

lemma collision_free_mono:
  assumes "collision_free sha bs' seen'" and "hashed_by sha (verified_blocks sha bs) \<subseteq> hashed_by sha (verified_blocks sha bs')" and "seen \<subseteq> seen'"
  shows "collision_free sha bs seen"
  unfolding collision_free_def by (rule inj_on_subset [OF assms(1) [unfolded collision_free_def]]) (use assms(2,3) in blast)

lemma durable_run_sound:
  "durable_run sha real pt collate bs seen l \<Longrightarrow> hex_sha sha \<Longrightarrow> collision_free sha bs seen \<Longrightarrow> \<exists>rs. sound sha real pt bs rs l"
proof (induction rule: durable_run.induct)
  case (opened po db l db')
  then show ?case using open_projection_sound by blast
next
  case (damaged bs seen l db)
  then obtain rs where "sound sha real pt bs rs l" by blast
  then have "sound sha real pt bs rs (l\<lparr>du_db := db\<rparr>)" by (rule sound_unaffected) simp_all
  then show ?case by blast
next
  case (applied bs seen l b r l')
  let ?seen = "insert (journal (du_db l)) seen"
  have now: "collision_free sha bs ?seen"
    using applied.prems(2) by (rule collision_free_mono) (use hashed_append in auto)
  then have "collision_free sha bs seen" by (rule collision_free_mono) auto
  then obtain rs where l: "sound sha real pt bs rs l" using applied.IH applied.prems(1) by blast
  from apply_durable_grows [OF applied.prems(1) now _ l applied.hyps(2)] show ?case by auto
next
  case (consulted bs seen l l')
  have "collision_free sha bs seen" using consulted.prems(2) by (rule collision_free_mono) auto
  then obtain rs where l: "sound sha real pt bs rs l" using consulted.IH consulted.prems(1) by blast
  from reading_sound [OF consulted.hyps(2) consulted.prems(1,2) _ l] show ?case by blast
qed

end
