(* ===== verification/DurableReads.thy ===== *)
theory DurableReads
  imports DurableSafety
begin

text \<open>
  A projection of the block with the Init call, and the theorem about what the durable projection answers.
\<close>

section \<open>Opening a journal of one block\<close>

lemma to_hex_from_hex: "hex_text s \<Longrightarrow> even (length s) \<Longrightarrow> to_hex (from_hex s) = s"
proof (induction s rule: induct_list012)
  case (3 a b s)
  have digits: "hex_lower_char a" "hex_lower_char b" using "3.prems" by (simp_all add: hex_text_def)
  obtain x where x: "x < 16" "a = hex_lower x" "hex_value a = Some x" using hex_lower_value [OF digits(1)] by blast
  obtain y where y: "y < 16" "b = hex_lower y" "hex_value b = Some y" using hex_lower_value [OF digits(2)] by blast
  have "from_hex (a # b # s) = (16 * x + y) # from_hex s" using x(3) y(3) by simp
  moreover have "(16 * x + y) div 16 = x" "(16 * x + y) mod 16 = y" using y(1) by simp_all
  moreover have "to_hex (from_hex s) = s" using "3.IH"(1) "3.prems" by (simp add: hex_text_def)
  ultimately show ?case using x(2) y(2) by (simp add: to_hex_def)
qed (simp_all add: to_hex_def)

lemma demo_keys_distinct:
  "key_config \<noteq> key_eligibility_epoch" "key_config \<noteq> key_policy p v" "key_eligibility_epoch \<noteq> key_policy p v"
  "key_config \<noteq> bootstrap_manifest_key" "key_eligibility_epoch \<noteq> bootstrap_manifest_key" "key_policy p v \<noteq> bootstrap_manifest_key"
proof -
  show "key_config \<noteq> key_eligibility_epoch" "key_config \<noteq> key_policy p v" "key_eligibility_epoch \<noteq> key_policy p v" by (simp_all add: key_defs)
qed (simp_all add: engine_key_not_manifest)

lemma demo_keys_plain:
  assumes "kd \<in> {KRevision, KProposal, KAgreement}"
  shows "\<not> names_kind kd key_config" "\<not> names_kind kd key_eligibility_epoch" "\<not> names_kind kd (key_policy p v)" "\<not> names_kind kd bootstrap_manifest_key"
  using assms by (auto simp: names_kind_def take_Cons'
       key_defs state_key_def key_prefix_def kind_name.simps bootstrap_manifest_key_def js_def cu_def)

lemma demo_browse:
  assumes "browse_checkpoint_ok channel at" and "cp_index at \<noteq> -1"
  shows "prepare_batch sha channel st \<lparr>bb_at = at, bb_writes = px_writes (demo_transaction digest)\<rparr> p = Ok p"
  using assms demo_keys_plain by (simp add: prepare_batch_def demo_transaction_def browse_write_def)

lemma demo_deep: "canon_ok (enc_config demo_config) 30" "canon_ok (enc_policy demo_policy) 30"
    "valid_unicode digest \<Longrightarrow> canon_ok (manifest digest demo_result) 30"
  by (simp_all add: demo_config_def enc_config_def enc_policy_def enc_identity_def demo_policy_def demo_identity_def demo_bot_def
      demo_rep_def enc_representative_def demo_slot_def manifest_def demo_result_def canon_ok_obj max_safe_def)

lemma state_key_valid [simp]: "valid_unicode (state_key k ps)"
proof (rule low_valid_unicode, rule ballI)
  fix u assume u: "u \<in> set (state_key k ps)"
  have join: "x \<in> set (join_on c qs) \<Longrightarrow> x = c \<or> (\<exists>q \<in> set qs. x \<in> set q)" for x c :: cunit and qs
    by (induction c qs rule: join_on.induct) auto
  have pre: "key_prefix k = js ''kcl:v1:'' @ js (kind_name k)" by (cases k) (simp_all add: key_prefix_def js_def)
  have js: "unat x < 256" if "x \<in> set (js s)" for x s
    using that nat_of_char_less_256 by (auto simp: js_def unat_cu)
  have "unat x < 256" if "x \<in> set (percent p)" for x p
    using percent_units [OF that] by (auto simp: uri_unreserved_def is_upper_def is_lower_def is_digit_def)
  then have "unat u < 256" using u join [of u 58 "map percent ps"] js unfolding state_key_def pre by (auto split: if_splits)
  then show "unat u < 0xD800" by simp
qed

lemma iso_text_valid [simp]: "valid_unicode (iso_text ms)"
proof -
  have padded: "unat u < 256" if "u \<in> set (padded n i)" for u n i
  proof -
    have "u = 48 \<or> u \<in> set (dec_int i)" using that by (auto simp: padded_def Let_def)
    then show ?thesis using dec_int_units [of u i] by (auto simp: is_digit_def)
  qed
  have "unat u < 256" if u: "u \<in> set (iso_text ms)" for u
  proof -
    obtain y m d where date: "civil_date (ms div 86400000) = (y, m, d)" by (cases "civil_date (ms div 86400000)")
    have "unat x < 256" if "x \<in> set (year_text y)" for x using that padded by (auto simp: year_text_def split: if_splits)
    then show ?thesis using u date padded by (auto simp: iso_text_def Let_def)
  qed
  then show ?thesis by (intro low_valid_unicode) fastforce
qed

lemma demo_transaction_parts [simp]:
  "px_id (demo_transaction digest) = js ''tx1''" "px_index (demo_transaction digest) = 0" "px_code (demo_transaction digest) = 0"
  "px_valid (demo_transaction digest)" "length (px_writes (demo_transaction digest)) = 4" "px_time (demo_transaction digest) = iso_text 0"
  by (simp_all add: demo_transaction_def)

lemma demo_digests:
  assumes "valid_unicode digest" and "(k, v) \<in> set (px_writes (demo_transaction digest))"
  shows "\<exists>t d. sha256_digest sha (enc_projected (demo_transaction digest)) = Ok t \<and> sha256_digest sha v = Ok d"
proof -
  have vals: "canon_ok v 30" if "(k, v) \<in> set (px_writes (demo_transaction digest))" for k v
    using that demo_deep assms(1) by (auto simp: demo_transaction_def max_safe_def)
  have "valid_unicode k" if "(k, v) \<in> set (px_writes (demo_transaction digest))" for k v
    using that by (auto simp: demo_transaction_def key_defs bootstrap_manifest_key_def)
  then have "canon_ok (enc_projected (demo_transaction digest)) 0"
    using vals canon_ok_mono [of _ 30] by (auto simp: enc_projected_def transaction_json_def canon_ok_obj enc_writeset_def max_safe_def)
  moreover have "canon_ok v 0" using vals [OF assms(2)] canon_ok_mono by blast
  ultimately show ?thesis using canonicalize_Ok_iff by (auto simp: sha256_digest_def)
qed

definition demo_row :: "block_result \<Rightarrow> raw_row" where
  "demo_row r = \<lparr>rw_number = 0, rw_hash = pc_hash (br_checkpoint r), rw_data = demo_sha demo_entry, rw_previous = [], rw_digest = demo_sha [1],
     rw_bytes = [1], rw_result = []\<rparr>"

definition demo_journal :: "block_result \<Rightarrow> projection_db" where
  "demo_journal r = empty_projection_db\<lparr>db_blocks := [demo_row r]\<rparr>"

lemma demo_verified:
  assumes "apply_block demo_sha demo_real (demo_protos ws) [1] (demo_projector digest) = Ok (r, p)" and "block_from_row (demo_row r) = Ok jb"
  shows "verify_journal_block demo_sha demo_real (demo_protos ws) jb (demo_projector digest) = Ok (r, p)"
proof -
  have "pc_data (br_checkpoint r) = demo_sha demo_entry"
    by (rule apply_block_parts [OF assms(1)]) (auto simp: demo_protos_def)
  moreover have "to_hex (from_hex (demo_sha demo_entry)) = demo_sha demo_entry"
    using hex_shaD [OF hex_demo_sha] by (intro to_hex_from_hex) simp_all
  ultimately show ?thesis using assms
    by (auto simp: block_from_row_def demo_row_def verify_journal_block_def demo_protos_def demo_header_def safe_natural_def max_safe_def Let_def to_hex_def [of "[]"])
qed

lemma anchors_Ok:
  assumes "\<forall>(k, v) \<in> set ws. \<exists>t d. sha256_digest sha (enc_projected tx) = Ok t \<and> sha256_digest sha v = Ok d"
  shows "snd (fold (record_anchor sha channel jb hash tx) ws (anchors, Ok ())) = Ok ()"
  using assms
proof (induction ws arbitrary: anchors)
  case (Cons w ws)
  obtain k v where w: "w = (k, v)" by (cases w)
  obtain t d where "sha256_digest sha (enc_projected tx) = Ok t" "sha256_digest sha v = Ok d" using Cons.prems w by auto
  then have "\<exists>anchors'. record_anchor sha channel jb hash tx w (anchors, Ok ()) = (anchors', Ok ())"
    by (simp add: record_anchor_def w of_block_def canonical_def)
  then show ?case using Cons by auto
qed simp

lemma demo_stored:
  assumes "br_transactions r = [demo_transaction digest]" and "db_txs db = []" "db_history db = []" "db_state db = []"
  shows "\<exists>db' db''. insert_transactions n r db = Ok db' \<and> append_derived n r db' = Ok db'' \<and>
    db_cursor db'' = Some (n, pc_hash (br_checkpoint r), pc_data (br_checkpoint r)) \<and>
    map_of (db_state db'') key_config = Some (stringify (enc_config demo_config))"
  using demo_keys_distinct demo_keys_distinct [THEN not_sym] assms
  by (simp add: insert_transactions_def insert_transaction_def append_derived_def Let_def append_write_def demo_transaction_def)

lemma demo_durable:
  assumes block: "apply_block demo_sha demo_real (demo_protos ws) [1] (demo_projector digest) = Ok (r, p)"
    and txs: "br_transactions r = [demo_transaction digest]" and digest: "sha256_digest demo_sha (enc_config demo_config) = Ok digest"
  shows "\<exists>l. open_projection demo_sha demo_real (demo_protos ws) collate demo_options (demo_journal r) = (Ok l, du_db l) \<and>
    du_projector l = p \<and> \<not> du_closed l \<and> db_cursor (du_db l) = Some (cursor_of (br_checkpoint r)) \<and>
    map_of (db_state (du_db l)) key_config = Some (stringify (enc_config demo_config))"
proof -
  let ?pt = "demo_protos ws" and ?ch = "js ''chan''"
  obtain jb where jb: "block_from_row (demo_row r) = Ok jb" "jb_number jb = 0" "jb_digest jb = demo_sha [1]"
    by (simp add: block_from_row_def demo_row_def safe_natural_def max_safe_def)
  note verified = demo_verified [OF block jb(1)]
  have n: "pc_number (br_checkpoint r) = 0" using apply_block_effects [OF block] by (simp add: next_number_def demo_projector_def)
  have hash: "pc_hash (br_checkpoint r) \<noteq> []"
  proof (rule apply_block_parts [OF block])
    fix h :: proto_header assume "fabric_block_header_hash demo_sha h = Ok (pc_hash (br_checkpoint r))"
    then show ?thesis using hex_shaD [OF hex_demo_sha, of "header_tuple h"] by (auto simp: fabric_block_header_hash_def split: if_splits)
  qed
  obtain binding where binding: "fabric_projection_binding demo_sha demo_options = Ok binding"
    using digest by (simp add: fabric_projection_binding_def demo_options_def)
  let ?db = "demo_journal r\<lparr>db_binding := Some binding\<rparr>"
  have bound: "ensure_binding demo_sha demo_options (demo_journal r) = Ok ?db"
    by (simp add: ensure_binding_def binding demo_journal_def empty_projection_db_def)
  define none where "none = \<lparr>pv_revisions = empty_delta, pv_proposals = empty_delta, pv_agreements = empty_delta, pv_committed = False\<rparr>"
  let ?blocks = "map (\<lambda>q. if rw_number q = jb_number jb then q\<lparr>rw_result := stringify (enc_block_result r)\<rparr> else q) (db_blocks (without_derived ?db))"
  obtain db' db'' where db: "insert_transactions 0 r ((without_derived ?db)\<lparr>db_blocks := ?blocks\<rparr>) = Ok db'" "append_derived 0 r db' = Ok db''"
      "db_cursor db'' = Some (0, pc_hash (br_checkpoint r), pc_data (br_checkpoint r))"
      "map_of (db_state db'') key_config = Some (stringify (enc_config demo_config))"
    using demo_stored [OF txs, of "(without_derived ?db)\<lparr>db_blocks := ?blocks\<rparr>" 0] by (auto simp: without_derived_def)
  have at: "browse_checkpoint_ok ?ch (transaction_checkpoint ?ch 0 (pc_hash (br_checkpoint r)) (demo_transaction digest))"
    using hash by (simp add: browse_checkpoint_ok_def transaction_checkpoint_def max_safe_def) (simp add: js_def)
  have writes: "px_writes (demo_transaction digest) \<noteq> []" by (simp add: demo_transaction_def)
  have batches: "browse_batches ?ch 0 r = [\<lparr>bb_at = transaction_checkpoint ?ch 0 (pc_hash (br_checkpoint r)) (demo_transaction digest),
      bb_writes = px_writes (demo_transaction digest)\<rparr>]"
    using txs writes by (simp add: browse_batches_def)
  have browse: "foldR (prepare_batch demo_sha ?ch empty_browse_state) (browse_batches ?ch 0 r) none = Ok none"
    unfolding batches using demo_browse [OF at, of demo_sha empty_browse_state digest none] by (simp add: transaction_checkpoint_def)
  have valid: "valid_unicode digest" using digest by (auto simp: sha256_digest_def)
  obtain anchors where anchors: "record_anchors demo_sha ?ch jb r [] = (anchors, Ok ())"
  proof -
    have "\<forall>(k, v) \<in> set (px_writes (demo_transaction digest)). \<exists>t d.
        sha256_digest demo_sha (enc_projected (demo_transaction digest)) = Ok t \<and> sha256_digest demo_sha v = Ok d"
      using demo_digests [OF valid, of _ _ demo_sha] by blast
    then have "snd (record_anchors demo_sha ?ch jb r []) = Ok ()" by (simp add: record_anchors_def txs anchors_Ok)
    then show ?thesis using that by (metis prod.collapse)
  qed
  let ?start = "\<lparr>rp_projector = demo_projector digest, rp_journal = empty_journal_digest, rp_db = without_derived ?db, rp_latest = None,
      rp_anchors = [], rp_prepared = none\<rparr>"
  have row: "rebuild_row demo_sha demo_real ?pt ?ch (demo_row r) ?start = Ok \<lparr>rp_projector = p,
      rp_journal = append_journal_digest demo_sha empty_journal_digest (demo_sha [1]), rp_db = db'', rp_latest = Some (r, demo_sha [1]),
      rp_anchors = anchors, rp_prepared = none\<rparr>"
    using jb verified db(1,2) browse anchors by (simp add: rebuild_row_def of_browse_def)
  have journal: "journal ?db = [demo_row r]" by (simp add: journal_def demo_journal_def demo_row_def)
  obtain done_browse bx where commit: "browse_commit collate none
      \<lparr>bx_channel = ?ch, bx_limits = default_browse_limits, bx_state = empty_browse_state, bx_cache = empty_revision_cache\<rparr> = Ok (done_browse, bx)"
    using browse_commit_fits [of _ none collate] fits_nothing unfolding none_def by (metis)
  have channel: "po_channel demo_options = ?ch" "?ch \<noteq> []" by (simp_all add: demo_options_def js_def)
  have "\<exists>l. rebuild_durable demo_sha demo_real ?pt collate demo_options ?db = Ok l \<and> du_projector l = p \<and> \<not> du_closed l \<and> du_db l = db''"
    using demo_new_projector [OF digest] row commit
    by (simp add: rebuild_durable_def new_browse_index_def channel journal browse_prepare_def of_block_def of_browse_def none_def
        remember_block_result_def Let_def)
  then show ?thesis using bound db(3,4) n by (auto simp: open_projection_def cursor_of_def)
qed

lemma demo_chain_input: "demo_sha (from_hex (empty_journal_digest @ demo_sha [1])) \<noteq> demo_sha [1]"
proof -
  have len: "hex_text s \<Longrightarrow> even (length s) \<Longrightarrow> 2 * length (from_hex s) = length s" for s
  proof (induction s rule: induct_list012)
    case (3 a b s)
    then show ?case using hex_lower_value [of a] hex_lower_value [of b] by (fastforce simp: hex_text_def)
  qed (simp_all add: hex_text_def)
  have "hex_text empty_journal_digest" by (auto simp: empty_journal_digest_def hex_text_def list_all_iff hex_lower_char_def is_digit_def)
  then have "hex_text (empty_journal_digest @ demo_sha [1])" using hex_shaD [OF hex_demo_sha] by (simp add: hex_text_def)
  then have "length (from_hex (empty_journal_digest @ demo_sha [1])) = 64"
    using len [of "empty_journal_digest @ demo_sha [1]"] hex_shaD [OF hex_demo_sha] by (simp add: empty_journal_digest_def)
  then show ?thesis by (simp add: demo_sha_def js_def cu_def)
qed

text \<open>A process that opened the journal and whose blocks and history are deleted afterwards\<close>

lemma demo_damaged:
  "\<exists>pt l. durable_run demo_sha demo_real pt (\<lambda>s. s) [[1]] {} l \<and> db_blocks (du_db l) = [] \<and>
     durable_read demo_sha demo_real pt (\<lambda>s. s) key_config None l = (Ok (Some (enc_config demo_config)), l)"
proof -
  obtain b1 b2 b3 b4 digest where b: "jcs_bytes (enc_config demo_config) = Ok b1" "jcs_bytes (JNum (NInt 0)) = Ok b2"
      "jcs_bytes (enc_policy demo_policy) = Ok b3" "jcs_bytes (manifest digest demo_result) = Ok b4"
    and digest: "sha256_digest demo_sha (enc_config demo_config) = Ok digest"
    using demo_init by metis
  let ?pt = "demo_protos [(key_config, b1), (key_eligibility_epoch, b2), (key_policy (pol_id demo_policy) (pol_version demo_policy), b3),
    (bootstrap_manifest_key, b4)]"
  obtain r p where block: "apply_block demo_sha demo_real ?pt [1] (demo_projector digest) = Ok (r, p)"
      and txs: "br_transactions r = [demo_transaction digest]"
    using demo_block [OF b digest] by blast
  obtain l0 where l0: "open_projection demo_sha demo_real ?pt (\<lambda>s. s) demo_options (demo_journal r) = (Ok l0, du_db l0)"
      "du_projector l0 = p" "\<not> du_closed l0" "db_cursor (du_db l0) = Some (cursor_of (br_checkpoint r))"
      "map_of (db_state (du_db l0)) key_config = Some (stringify (enc_config demo_config))"
    using demo_durable [OF block txs digest] by blast
  define l where "l = l0\<lparr>du_db := (du_db l0)\<lparr>db_blocks := [], db_history := []\<rparr>\<rparr>"
  have "map rw_bytes (journal (demo_journal r)) = [[1]]" by (simp add: journal_def demo_journal_def demo_row_def)
  then have run: "durable_run demo_sha demo_real ?pt (\<lambda>s. s) [[1]] {} l"
    using damaged [OF opened [OF l0(1)]] unfolding l_def by simp
  note eff = apply_block_effects [OF block]
  let ?over = "fold (\<lambda>(k, v). upsert k v) (block_writes_of r) []"
  have "map_of (rev (block_writes_of r)) key_config = Some (enc_config demo_config)"
    using demo_keys_distinct txs by (simp add: block_writes_of_def demo_transaction_def)
  then have "map_of ?over key_config = Some (enc_config demo_config)" by (simp add: map_of_upserts)
  moreover have "distinct (map fst ?over)" using fold_upsert_distinct [of "[]" "block_writes_of r"] by simp
  ultimately have "map_of (pj_state p) key_config = Some (enc_config demo_config)" using eff over_state [of ?over "[]" key_config]
    by (simp add: demo_projector_def)
  moreover have clone: "clone_canonical (enc_config demo_config) = Ok (enc_config demo_config)" using settled_clone [OF b(1)] by simp
  ultimately have expected: "projector_read p key_config = Ok (Some (enc_config demo_config))" by (simp add: projector_read_def del: clone_canonical_Ok)
  have "plain (enc_config demo_config)" by simp
  then have parsed: "json_parse demo_real (stringify (enc_config demo_config)) = Some (enc_config demo_config)"
    using clone by (intro json_parse_printable plain_printable) auto
  have "durable_read demo_sha demo_real ?pt (\<lambda>s. s) key_config None l = (Ok (Some (enc_config demo_config)), l)"
    using l0(2-5) eff expected parsed
    by (simp add: durable_read_def when_open_def obind_def inspect_def trusted_state_def verify_current_cursor_def l_def trusted_value_def
        stored_text_def parse_stored_def compare_value_def of_block_def same_text_def)
  then show ?thesis using run by (intro exI [of _ ?pt] exI [of _ l]) (simp add: l_def)
qed

section \<open>What the durable projection answers\<close>

text \<open>
  C40. Damaged tables cannot mislead. Whatever happens to the tables between the operations of a process, unless hashes
  collide on the blocks and the links that it met: a value that is read is the last one written at or before the
  checkpoint by the blocks that the process has verified, many values and listings likewise, and a checkpoint that is
  accepted is one of those blocks.
\<close>

theorem damaged_tables_cannot_mislead:
  assumes "hex_sha sha" and "durable_run sha real pt collate bs seen l" and "collision_free sha bs (insert (journal (du_db l)) seen)"
  shows "\<exists>rs. projects sha real pt (du_options l) bs (du_projector l) rs \<and>
    (\<forall>k at v l'. durable_read sha real pt collate k at l = (Ok v, l') \<longrightarrow>
       (\<forall>cp. at = Some cp \<longrightarrow> genuine (channel_of l) rs cp) \<and> v = value_written rs at k) \<and>
    (\<forall>ks at kvs l'. durable_read_many sha real pt collate ks at l = (Ok kvs, l') \<longrightarrow>
       (\<forall>cp. at = Some cp \<longrightarrow> genuine (channel_of l) rs cp) \<and> kvs = entries_for (value_written rs at) (remdups ks)) \<and>
    (\<forall>pre at es l'. durable_entries sha real pt collate pre at l = (Ok es, l') \<longrightarrow>
       (\<forall>cp. at = Some cp \<longrightarrow> genuine (channel_of l) rs cp) \<and> lists_entries collate pre (value_written rs at) es)"
proof -
  have "collision_free sha bs seen" using assms(3) by (rule collision_free_mono) auto
  then obtain rs where l: "sound sha real pt bs rs l" using durable_run_sound [OF assms(2,1)] by blast
  show ?thesis
  proof (intro exI conjI allI impI)
    show "projects sha real pt (du_options l) bs (du_projector l) rs" using l by (simp add: sound_def)
  next
    fix k at v l' assume "durable_read sha real pt collate k at l = (Ok v, l')"
    note read = durable_read_answers [OF assms(1,3) insertI1 l this]
    show "v = value_written rs at k" using read by blast
    fix cp assume "at = Some cp"
    then show "genuine (channel_of l) rs cp" using read by blast
  next
    fix ks at kvs l' assume "durable_read_many sha real pt collate ks at l = (Ok kvs, l')"
    note read = durable_read_many_answers [OF assms(1,3) insertI1 l this]
    show "kvs = entries_for (value_written rs at) (remdups ks)" using read by blast
    fix cp assume "at = Some cp"
    then show "genuine (channel_of l) rs cp" using read by blast
  next
    fix pre at es l' assume "durable_entries sha real pt collate pre at l = (Ok es, l')"
    note read = durable_entries_answers [OF assms(1,3) insertI1 l this]
    show "lists_entries collate pre (value_written rs at) es" using read by blast
    fix cp assume "at = Some cp"
    then show "genuine (channel_of l) rs cp" using read by blast
  qed
qed

theorem damaged_tables_cannot_mislead_witness:
  "\<exists>pt l rs. durable_run demo_sha demo_real pt (\<lambda>s. s) [[1]] {} l \<and> db_blocks (du_db l) = [] \<and>
     projects demo_sha demo_real pt (du_options l) [[1]] (du_projector l) rs \<and>
     durable_read demo_sha demo_real pt (\<lambda>s. s) key_config None l = (Ok (Some (enc_config demo_config)), l) \<and>
     value_written rs None key_config = Some (enc_config demo_config)"
proof -
  obtain pt l where l: "durable_run demo_sha demo_real pt (\<lambda>s. s) [[1]] {} l" "db_blocks (du_db l) = []"
      "durable_read demo_sha demo_real pt (\<lambda>s. s) key_config None l = (Ok (Some (enc_config demo_config)), l)"
    using demo_damaged by blast
  have free: "collision_free demo_sha [[1]] (insert (journal (du_db l)) {})"
    using l(2) demo_chain_input
    by (auto simp: collision_free_def hashed_by_def verified_blocks_def stored_blocks_def journal_def inj_on_def)
  from damaged_tables_cannot_mislead [OF hex_demo_sha l(1) free]
  obtain rs where "projects demo_sha demo_real pt (du_options l) [[1]] (du_projector l) rs"
      "\<forall>k at v l'. durable_read demo_sha demo_real pt (\<lambda>s. s) k at l = (Ok v, l') \<longrightarrow>
       (\<forall>cp. at = Some cp \<longrightarrow> genuine (channel_of l) rs cp) \<and> v = value_written rs at k" by (elim exE conjE)
  then show ?thesis using l by metis
qed

end
