(* ===== verification/ReviewBase.thy ===== *)
theory ReviewBase
  imports Bytes
begin

text \<open>
  What the tables beside the ledger share: review records, deliveries between installations and
  measurement logs all read values that somebody else wrote.  An instant in the form of
  \<open>toISOString\<close>, the test that an object has exactly the named properties, the coercion that a regular
  expression applies to what it is given, and the page of a listing (\<open>reviewPage\<close>).
\<close>

section \<open>Instants\<close>

text \<open>\<open>/^\d{4}-\d{2}-\d{2}T\d{2}:\d{2}:\d{2}\.\d{3}Z$/\<close> and a date that \<open>new Date(value).toISOString()\<close> repeats.\<close>

definition leap_year :: "nat \<Rightarrow> bool" where
  "leap_year y \<longleftrightarrow> y mod 4 = 0 \<and> (y mod 100 \<noteq> 0 \<or> y mod 400 = 0)"

definition days_in_month :: "nat \<Rightarrow> nat \<Rightarrow> nat" where
  "days_in_month y m = (if m = 2 then (if leap_year y then 29 else 28) else if m \<in> {4, 6, 9, 11} then 30 else 31)"

definition instant_shape :: "jstr \<Rightarrow> bool" where
  "instant_shape s \<longleftrightarrow> length s = 24 \<and>
     list_all (\<lambda>i. is_digit_unit (s ! i)) [0, 1, 2, 3, 5, 6, 8, 9, 11, 12, 14, 15, 17, 18, 20, 21, 22] \<and>
     s ! 4 = 45 \<and> s ! 7 = 45 \<and> s ! 10 = 84 \<and> s ! 13 = 58 \<and> s ! 16 = 58 \<and> s ! 19 = 46 \<and> s ! 23 = 90"

definition digits_at :: "jstr \<Rightarrow> nat \<Rightarrow> nat \<Rightarrow> nat" where
  "digits_at s i n = digits_value (take n (drop i s))"

definition iso_instant :: "jstr \<Rightarrow> bool" where
  "iso_instant s \<longleftrightarrow> instant_shape s \<and>
     (let y = digits_at s 0 4; m = digits_at s 5 2; d = digits_at s 8 2 in
        1 \<le> m \<and> m \<le> 12 \<and> 1 \<le> d \<and> d \<le> days_in_month y m \<and>
        digits_at s 11 2 \<le> 23 \<and> digits_at s 14 2 \<le> 59 \<and> digits_at s 17 2 \<le> 59)"

fun is_instant :: "json \<Rightarrow> bool" where
  "is_instant (JStr s) = iso_instant s"
| "is_instant v = False"

fun is_id_value :: "json \<Rightarrow> bool" where
  "is_id_value (JStr s) = is_id s"
| "is_id_value v = False"

text \<open>\<open>!text.trim()\<close>\<close>

definition blank_text :: "jstr \<Rightarrow> bool" where
  "blank_text s \<longleftrightarrow> list_all js_space s"

section \<open>Objects with exactly the named properties\<close>

text \<open>\<open>Object.keys(value).sort().join(',') === names.sort().join(',')\<close>\<close>

definition field_names :: "json \<Rightarrow> string list \<Rightarrow> bool" where
  "field_names v names \<longleftrightarrow> (case v of
     JObj kvs \<Rightarrow> join_on 44 (sort (map fst kvs)) = join_on 44 (sort (map js names))
   | _ \<Rightarrow> False)"

text \<open>
  \<open>RegExp.test\<close> coerces its argument: a string is itself, and an array is its elements joined by
  commas.  The text of an object is no match for any pattern of the tables.
\<close>

fun js_string :: "json \<Rightarrow> jstr" where
  "js_string JUndef = js ''undefined''"
| "js_string JNull = js ''null''"
| "js_string (JBool b) = (if b then js ''true'' else js ''false'')"
| "js_string (JNum (NBeyond s)) = s"
| "js_string (JNum n) = number_text n"
| "js_string (JStr s) = s"
| "js_string (JArr xs) = join_on 44 (map (\<lambda>x. if x = JNull \<or> x = JUndef then [] else js_string x) xs)"
| "js_string (JObj kvs) = js ''[object Object]''"

text \<open>
  A joined text of key names does not by itself say what the keys are, as a key may hold a comma.  When
  every named property is also present, the keys are the names.
\<close>

lemma join_commas: "ps \<noteq> [] \<Longrightarrow> count_list (join_on c ps) c + 1 = length ps + sum_list (map (\<lambda>p. count_list p c) ps)"
proof (induction c ps rule: join_on.induct)
  case (3 c p q ps)
  then show ?case by simp
qed auto

lemma count_list_zero: "count_list p c = 0 \<longleftrightarrow> c \<notin> set p"
  by (simp add: count_list_0_iff)

lemma field_names_exact:
  assumes names: "field_names (JObj kvs) names"
    and dist: "distinct names" and ne: "names \<noteq> []" and plain: "\<forall>n \<in> set names. (44 :: cunit) \<notin> set (js n)"
    and present: "\<forall>n \<in> set names. fld (JObj kvs) n \<noteq> JUndef"
  shows "sort (map fst kvs) = sort (map js names)"
proof -
  let ?ks = "sort (map fst kvs)" and ?ns = "sort (map js names)"
  have sub: "set ?ns \<subseteq> set ?ks"
  proof
    fix k assume "k \<in> set ?ns"
    then obtain n where n: "n \<in> set names" "k = js n" by auto
    then have "map_of kvs k \<noteq> None" using present by (auto simp: fld_def split: option.splits)
    then show "k \<in> set ?ks" by (simp add: map_of_eq_None_iff)
  qed
  have ns: "?ns \<noteq> []" "distinct ?ns" using ne dist by (simp_all add: distinct_map inj_on_subset [OF inj_js] flip: set_empty)
  then have ks: "?ks \<noteq> []" using sub by (metis empty_set set_empty subset_empty)
  have le: "length ?ns \<le> length ?ks"
    using card_mono [OF finite_set sub] distinct_card [OF ns(2)] card_length [of ?ks] by linarith
  have joined: "join_on 44 ?ks = join_on 44 ?ns" using names by (simp add: field_names_def)
  have free: "\<forall>n \<in> set ?ns. (44 :: cunit) \<notin> set n" using plain by auto
  then have "sum_list (map (\<lambda>p. count_list p (44 :: cunit)) ?ns) = 0"
    by (simp add: sum_list_eq_0_iff count_list_0_iff)
  then have "sum_list (map (\<lambda>p. count_list p (44 :: cunit)) ?ks) = 0"
    using join_commas [OF ks, of 44] join_commas [OF ns(1), of 44] le unfolding joined by linarith
  then have "\<forall>k \<in> set ?ks. (44 :: cunit) \<notin> set k" by (simp add: sum_list_eq_0_iff count_list_0_iff)
  then show "?ks = ?ns" using join_on_eq_iff [OF ks ns(1) _ free] joined by blast
qed

text \<open>Such an object prints without loss when its named properties do.\<close>

lemma printable_fields:
  assumes names: "field_names v names" and dist: "distinct names" and ne: "names \<noteq> []"
    and plain: "\<forall>n \<in> set names. (44 :: cunit) \<notin> set (js n)"
    and each: "\<forall>n \<in> set names. printable real (fld v n)"
  shows "printable real v"
proof -
  obtain kvs where v: "v = JObj kvs" using names by (auto simp: field_names_def split: json.splits)
  have "\<forall>n \<in> set names. fld v n \<noteq> JUndef" using each by auto
  then have keys: "sort (map fst kvs) = sort (map js names)"
    using field_names_exact [of kvs names] names dist ne plain unfolding v by blast
  have "distinct (sort (map fst kvs))" unfolding keys using dist by (simp add: distinct_map inj_on_subset [OF inj_js])
  then have d: "distinct (map fst kvs)" by (simp only: distinct_sort)
  have "printable real x" if "(k, x) \<in> set kvs" for k x
  proof -
    have "k \<in> set (sort (map fst kvs))" using that by force
    then obtain n where "n \<in> set names" "k = js n" unfolding keys by auto
    moreover have "map_of kvs k = Some x" using that d by simp
    ultimately show ?thesis using each unfolding v by (fastforce simp: fld_def)
  qed
  then show ?thesis unfolding v using d by (auto simp: list_all_iff)
qed

lemma field_names_obj [simp]: "field_names (obj kvs) names \<longleftrightarrow> join_on 44 (sort (map js (map fst kvs))) = join_on 44 (sort (map js names))"
proof -
  have "map fst (map (\<lambda>(k, v). (js k, v)) kvs) = map js (map fst kvs)" by (induction kvs) auto
  then show ?thesis by (simp add: field_names_def obj_def del: map_map)
qed

text \<open>A coerced text that matches a pattern of ASCII identifiers belongs to a string, up to singleton arrays.\<close>

lemma singleton_join: "(44 :: cunit) \<notin> set (join_on 44 ps) \<Longrightarrow> length ps \<le> 1"
  by (cases "(44 :: cunit, ps)" rule: join_on.cases) auto

lemma js_string_printable:
  assumes "canon_ok v d" and "js_value real v" and "take 3 (js_string v) = js ''sha''" and "(44 :: cunit) \<notin> set (js_string v)"
  shows "printable real v"
  using assms
proof (induction v arbitrary: d)
  case (JNum n)
  then obtain t where t: "number_token t = Some (t, [])" "js_string (JNum n) = t" "printable real (JNum n) \<or> n = NNegZero"
    using number_token_dec_int [of "[]"] by (cases n) (auto simp: stops_def number_token_def integer_part_def js_def cu_def split: if_splits)
  then obtain u r where "t = u # r" "u = 45 \<or> is_digit_unit u" using number_begins by blast
  then show ?case using JNum.prems(3) t by (auto simp: js_def cu_def is_digit_unit_def is_digit_def)
next
  case (JArr xs)
  have "length xs \<le> 1" using singleton_join JArr.prems(4) by fastforce
  then consider "xs = []" | x where "xs = [x]" by (cases xs; cases "tl xs") auto
  then show ?case
  proof cases
    case 1
    then show ?thesis by simp
  next
    case 2
    then show ?thesis using JArr.IH [of x "Suc d"] JArr.prems by (auto simp: js_def split: if_splits)
  qed
qed (auto simp: js_def cu_def)

section \<open>Pages\<close>

datatype review_error = ReviewStoreError string nat | ReviewDomainError derror | SqliteError | JsTypeError

type_synonym 'a rres = "(review_error, 'a) result"

text \<open>\<open>/^[1-9][0-9]{0,15}$/\<close>\<close>

definition cursor_text :: "jstr \<Rightarrow> bool" where
  "cursor_text s \<longleftrightarrow> (case s of [] \<Rightarrow> False
   | u # r \<Rightarrow> is_digit_unit u \<and> u \<noteq> 48 \<and> length r \<le> 15 \<and> list_all is_digit_unit r)"

definition review_page :: "json \<Rightarrow> json \<Rightarrow> (nat \<times> int) rres" where
  "review_page limit cursor =
     (let l = (if limit = JUndef \<or> limit = JNull then JNum (NInt 20) else limit) in
      case (l, cursor) of
        (JNum (NInt n), JUndef) \<Rightarrow>
          if n < 1 \<or> 50 < n then Err (ReviewStoreError ''INVALID_QUERY'' 400) else Ok (nat n, max_safe)
      | (JNum (NInt n), JStr s) \<Rightarrow>
          if n < 1 \<or> 50 < n \<or> \<not> cursor_text s \<or> max_safe < int (digits_value s) then Err (ReviewStoreError ''INVALID_QUERY'' 400)
          else Ok (nat n, int (digits_value s))
      | _ \<Rightarrow> Err (ReviewStoreError ''INVALID_QUERY'' 400))"

text \<open>
  \<open>WHERE seq < ? ORDER BY seq DESC LIMIT limit + 1\<close>: one row more than the page, which says whether
  there is another page.
\<close>

definition newest_rows :: "('r \<Rightarrow> int) \<Rightarrow> nat \<Rightarrow> int \<Rightarrow> 'r list \<Rightarrow> 'r list" where
  "newest_rows seq limit before rows = take (Suc limit) (rev (sort_key seq (filter (\<lambda>r. seq r < before) rows)))"

definition page_of :: "('r \<Rightarrow> int) \<Rightarrow> nat \<Rightarrow> 'r list \<Rightarrow> ('r \<Rightarrow> ('e, 'a) result) \<Rightarrow> ('e, 'a list \<times> jstr option) result" where
  "page_of seq limit rows f = rbind (mapR f (take limit rows)) (\<lambda>xs.
     Ok (xs, if limit < length rows then Some (dec_int (seq (rows ! (limit - 1)))) else None))"

text \<open>\<open>BEGIN IMMEDIATE ... COMMIT\<close>, and \<open>ROLLBACK\<close> on whatever is thrown.\<close>

definition transaction :: "('s \<Rightarrow> ('e, 'a \<times> 's) result) \<Rightarrow> 's \<Rightarrow> ('e, 'a) result \<times> 's" where
  "transaction run s = (case run s of Err e \<Rightarrow> (Err e, s) | Ok (x, s') \<Rightarrow> (Ok x, s'))"

end
