(* ===== verification/ReviewDelivery.thy ===== *)
theory ReviewDelivery
  imports ReviewBase
begin

text \<open>
  Deliveries of review messages between installations: the packet and the receipt
  (\<open>packages/review/delivery-contract.ts\<close>), the outbox and the inbox
  (\<open>packages/storage/review-delivery-store.ts\<close>) and the worker that drains the outbox
  (\<open>packages/review/delivery-worker.ts\<close>).  A table is the list of its rows.  What the operations take from
  outside (the time, a fresh lease token, what a transport did) are arguments.
\<close>

section \<open>Packets and receipts\<close>

text \<open>
  \<open>DeliveryError(code, status, retryable)\<close>, an error of another module, the \<open>TypeError\<close> of a refused
  batch, and what SQLite throws.
\<close>

datatype delivery_error = DeliveryError jstr nat bool | ForeignError review_error | BatchError

type_synonym 'a dres = "(delivery_error, 'a) result"

definition delivery_fail :: "string \<Rightarrow> nat \<Rightarrow> 'a dres" where
  "delivery_fail code status = Err (DeliveryError (js code) status False)"

lemma delivery_fail_not_Ok [simp]: "delivery_fail code status \<noteq> Ok x"
  by (simp add: delivery_fail_def)

definition delivery_max_bytes :: nat where
  "delivery_max_bytes = 32 * 1024"

text \<open>\<open>deliveryHash\<close>\<close>

definition delivery_hash :: "sha_fn \<Rightarrow> json \<Rightarrow> jstr dres" where
  "delivery_hash sha v = (case canonicalize v of
     Err e \<Rightarrow> Err (ForeignError (ReviewDomainError e))
   | Ok t \<Rightarrow> Ok (digest_text sha t))"

definition is_person :: "json \<Rightarrow> bool" where
  "is_person v \<longleftrightarrow> field_names v [''org_id'', ''actor_id''] \<and> is_id_value (fld v ''org_id'') \<and> is_id_value (fld v ''actor_id'')"

fun is_scope_value :: "json \<Rightarrow> bool" where
  "is_scope_value (JStr s) = is_usage_scope s"
| "is_scope_value v = False"

fun is_body :: "json \<Rightarrow> bool" where
  "is_body (JStr s) = (\<not> blank_text s \<and> length s \<le> 4000)"
| "is_body v = False"

definition is_message_slot :: "json \<Rightarrow> bool" where
  "is_message_slot v \<longleftrightarrow> field_names v [''channel_id'', ''document_id'', ''context_id'', ''scope_id'', ''usage_scope''] \<and>
     list_all (\<lambda>n. is_id_value (fld v n)) [''channel_id'', ''document_id'', ''context_id'', ''scope_id''] \<and>
     is_scope_value (fld v ''usage_scope'')"

definition is_author :: "json \<Rightarrow> bool" where
  "is_author v \<longleftrightarrow> field_names v [''org_id'', ''actor_id'', ''kind''] \<and> is_id_value (fld v ''org_id'') \<and> is_id_value (fld v ''actor_id'') \<and>
     fld v ''kind'' \<in> {JStr (js ''human''), JStr (js ''agent'')}"

definition is_comment :: "json \<Rightarrow> bool" where
  "is_comment v \<longleftrightarrow> field_names v [''event_id'', ''author'', ''created_at'', ''body''] \<and> is_id_value (fld v ''event_id'') \<and>
     is_instant (fld v ''created_at'') \<and> is_author (fld v ''author'') \<and> is_body (fld v ''body'')"

definition is_message :: "json \<Rightarrow> bool" where
  "is_message m \<longleftrightarrow>
     field_names m [''schema_version'', ''delivery_id'', ''source_id'', ''workspace_id'', ''slot'', ''revision_digest'', ''recipient'', ''comment''] \<and>
     fld m ''schema_version'' = JNum (NInt 1) \<and>
     list_all (\<lambda>n. is_id_value (fld m n)) [''delivery_id'', ''source_id'', ''workspace_id''] \<and> is_person (fld m ''recipient'') \<and>
     is_digest (js_string (fld m ''revision_digest'')) \<and> is_message_slot (fld m ''slot'') \<and> is_comment (fld m ''comment'')"

text \<open>\<open>validateReviewPacket\<close>: whatever is wrong, the error is the same.\<close>

definition packet_ok :: "sha_fn \<Rightarrow> json \<Rightarrow> bool" where
  "packet_ok sha v \<longleftrightarrow> field_names v [''message'', ''payload_digest''] \<and>
     (case canonicalize v of Err _ \<Rightarrow> False | Ok t \<Rightarrow> byte_length t \<le> delivery_max_bytes) \<and>
     is_message (fld v ''message'') \<and>
     (case delivery_hash sha (fld v ''message'') of Err _ \<Rightarrow> False | Ok h \<Rightarrow> fld v ''payload_digest'' = JStr h)"

definition validate_packet :: "sha_fn \<Rightarrow> json \<Rightarrow> json dres" where
  "validate_packet sha v = (if packet_ok sha v then Ok v else delivery_fail ''INVALID_DELIVERY_PACKET'' 400)"

definition receipt_ok :: "json \<Rightarrow> json \<Rightarrow> bool" where
  "receipt_ok v packet \<longleftrightarrow> field_names v [''schema_version'', ''delivery_id'', ''payload_digest'', ''received_at''] \<and>
     fld v ''schema_version'' = JNum (NInt 1) \<and> fld v ''delivery_id'' = fld (fld packet ''message'') ''delivery_id'' \<and>
     fld v ''payload_digest'' = fld packet ''payload_digest'' \<and> is_instant (fld v ''received_at'')"

definition validate_receipt :: "json \<Rightarrow> json \<Rightarrow> json dres" where
  "validate_receipt v packet =
     (if receipt_ok v packet then Ok v else Err (DeliveryError (js ''INVALID_DELIVERY_RECEIPT'') 502 True))"

section \<open>The outbox\<close>

record outbox_row =
  ob_seq :: int
  ob_delivery :: jstr
  ob_org :: jstr
  ob_actor :: jstr
  ob_operation :: jstr
  ob_request :: jstr
  ob_target :: jstr
  ob_binding :: jstr
  ob_packet :: jstr
  ob_status :: jstr
  ob_attempts :: int
  ob_total :: int
  ob_next :: int
  ob_lease :: "jstr option"
  ob_until :: "int option"
  ob_code :: "jstr option"
  ob_receipt :: "jstr option"

record inbox_row =
  ib_seq :: int
  ib_source :: jstr
  ib_delivery :: jstr
  ib_payload :: jstr
  ib_org :: jstr
  ib_actor :: jstr
  ib_packet :: jstr
  ib_receipt :: jstr

text \<open>The two tables, with the last key that \<open>AUTOINCREMENT\<close> gave out in each.\<close>

record delivery_store =
  outbox :: "outbox_row list"
  outbox_seq :: int
  inbox :: "inbox_row list"
  inbox_seq :: int

definition empty_store :: delivery_store where
  "empty_store = \<lparr>outbox = [], outbox_seq = 0, inbox = [], inbox_seq = 0\<rparr>"

record delivery_job =
  dj_packet :: json
  dj_target :: jstr
  dj_binding :: jstr
  dj_status :: jstr
  dj_attempts :: int
  dj_total :: int
  dj_next :: int
  dj_lease :: "jstr option"
  dj_code :: "jstr option"
  dj_receipt :: "json option"

type_synonym person = "jstr \<times> jstr"

text \<open>\<open>packet.message.delivery_id\<close> of a validated packet, and its author as a person.\<close>

fun text_value :: "json \<Rightarrow> jstr" where
  "text_value (JStr s) = s"
| "text_value v = []"

definition packet_id :: "json \<Rightarrow> jstr" where
  "packet_id p = text_value (fld (fld p ''message'') ''delivery_id'')"

definition packet_source :: "json \<Rightarrow> jstr" where
  "packet_source p = text_value (fld (fld p ''message'') ''source_id'')"

definition packet_digest :: "json \<Rightarrow> jstr" where
  "packet_digest p = text_value (fld p ''payload_digest'')"

definition person_of :: "json \<Rightarrow> person" where
  "person_of v = (text_value (fld v ''org_id''), text_value (fld v ''actor_id''))"

text \<open>\<open>samePerson\<close>\<close>

definition same_person :: "person \<Rightarrow> person \<Rightarrow> bool" where
  "same_person a b \<longleftrightarrow> fst a = fst b \<and> snd a = snd b"

definition safe_count :: "int \<Rightarrow> bool" where
  "safe_count i \<longleftrightarrow> 0 \<le> i \<and> i \<le> max_safe"

text \<open>\<open>/^[a-f0-9-]{36}$/\<close> and \<open>/^[A-Z][A-Z0-9_]{1,63}$/\<close>\<close>

definition lease_text :: "jstr \<Rightarrow> bool" where
  "lease_text s \<longleftrightarrow> length s = 36 \<and> list_all (\<lambda>u. hex_lower_char u \<or> u = 45) s"

definition code_text :: "jstr \<Rightarrow> bool" where
  "code_text s \<longleftrightarrow> (case s of [] \<Rightarrow> False
   | u # r \<Rightarrow> is_upper (unat u) \<and> 1 \<le> length r \<and> length r \<le> 63 \<and> list_all (\<lambda>u. is_upper (unat u) \<or> is_digit (unat u) \<or> u = 95) r)"

definition lease_fields_ok :: "outbox_row \<Rightarrow> bool" where
  "lease_fields_ok r \<longleftrightarrow>
     (if ob_status r = js ''sending''
      then (case (ob_lease r, ob_until r) of (Some t, Some u) \<Rightarrow> lease_text t \<and> safe_count u | _ \<Rightarrow> False)
      else ob_lease r = None \<and> ob_until r = None)"

text \<open>\<open>job(row)\<close>\<close>

definition corrupt :: "'a dres" where
  "corrupt = delivery_fail ''DELIVERY_STORE_CORRUPT'' 503"

definition job_ok :: "outbox_row \<Rightarrow> json \<Rightarrow> bool" where
  "job_ok r p \<longleftrightarrow>
     packet_id p = ob_delivery r \<and>
     same_person (person_of (fld (fld (fld p ''message'') ''comment'') ''author'')) (ob_org r, ob_actor r) \<and>
     is_id (ob_target r) \<and>
     ob_status r \<in> js ` {''pending'', ''sending'', ''delivered'', ''blocked'', ''failed''} \<and>
     safe_count (ob_attempts r) \<and> \<bar>ob_total r\<bar> \<le> max_safe \<and> ob_attempts r \<le> ob_total r \<and> safe_count (ob_next r) \<and>
     is_digest (ob_binding r) \<and> (case ob_code r of None \<Rightarrow> True | Some c \<Rightarrow> code_text c) \<and> lease_fields_ok r"

definition job_receipt :: "real_fn \<Rightarrow> outbox_row \<Rightarrow> json \<Rightarrow> json option option" where
  "job_receipt real r p = (case ob_receipt r of
     None \<Rightarrow> Some None
   | Some t \<Rightarrow> (case json_parse real t of None \<Rightarrow> None | Some v \<Rightarrow> if receipt_ok v p then Some (Some v) else None))"

definition job :: "sha_fn \<Rightarrow> real_fn \<Rightarrow> outbox_row \<Rightarrow> delivery_job dres" where
  "job sha real r = (case json_parse real (ob_packet r) of
     None \<Rightarrow> corrupt
   | Some p \<Rightarrow>
       if \<not> (packet_ok sha p \<and> job_ok r p) then corrupt
       else (case job_receipt real r p of
         None \<Rightarrow> corrupt
       | Some receipt \<Rightarrow>
           if (ob_status r = js ''delivered'') \<noteq> (receipt \<noteq> None) then corrupt
           else Ok \<lparr>dj_packet = p, dj_target = ob_target r, dj_binding = ob_binding r, dj_status = ob_status r, dj_attempts = ob_attempts r,
                    dj_total = ob_total r, dj_next = ob_next r, dj_lease = ob_lease r, dj_code = ob_code r, dj_receipt = receipt\<rparr>))"

text \<open>\<open>get(actor, id)\<close>\<close>

definition get_delivery :: "sha_fn \<Rightarrow> real_fn \<Rightarrow> person \<Rightarrow> jstr \<Rightarrow> delivery_store \<Rightarrow> delivery_job dres" where
  "get_delivery sha real actor d s =
     (case find (\<lambda>r. ob_delivery r = d \<and> (ob_org r, ob_actor r) = actor) (outbox s) of
        None \<Rightarrow> delivery_fail ''NOT_FOUND'' 404
      | Some r \<Rightarrow> job sha real r)"

definition list_deliveries :: "sha_fn \<Rightarrow> real_fn \<Rightarrow> person \<Rightarrow> json \<Rightarrow> json \<Rightarrow> delivery_store \<Rightarrow> (delivery_job list \<times> jstr option) dres" where
  "list_deliveries sha real actor limit cursor s = (case review_page limit cursor of
     Err e \<Rightarrow> Err (ForeignError e)
   | Ok (l, before) \<Rightarrow>
       page_of ob_seq l (newest_rows ob_seq l before (filter (\<lambda>r. (ob_org r, ob_actor r) = actor) (outbox s))) (job sha real))"

text \<open>\<open>enqueue\<close>: one row for each operation of an actor; the constraint on delivery ids is SQLite's.\<close>

definition enqueue :: "sha_fn \<Rightarrow> real_fn \<Rightarrow> person \<Rightarrow> jstr \<Rightarrow> json \<Rightarrow> jstr \<Rightarrow> jstr \<Rightarrow> json \<Rightarrow> int \<Rightarrow> delivery_store
    \<Rightarrow> delivery_job dres \<times> delivery_store" where
  "enqueue sha real actor operation input target binding packet now s =
     (case rbind (validate_packet sha packet) (\<lambda>_. delivery_hash sha input) of
        Err e \<Rightarrow> (Err e, s)
      | Ok request \<Rightarrow> transaction (\<lambda>s.
          case find (\<lambda>r. (ob_org r, ob_actor r) = actor \<and> ob_operation r = operation) (outbox s) of
            Some r \<Rightarrow> if ob_request r \<noteq> request then delivery_fail ''IDEMPOTENCY_CONFLICT'' 409 else rmap (\<lambda>j. (j, s)) (job sha real r)
          | None \<Rightarrow>
              if packet_id packet \<in> ob_delivery ` set (outbox s) then Err (ForeignError SqliteError)
              else let s' = s\<lparr>outbox := outbox s @ [\<lparr>ob_seq = outbox_seq s + 1, ob_delivery = packet_id packet, ob_org = fst actor,
                     ob_actor = snd actor, ob_operation = operation, ob_request = request, ob_target = target, ob_binding = binding,
                     ob_packet = stringify packet, ob_status = js ''pending'', ob_attempts = 0, ob_total = 0, ob_next = now,
                     ob_lease = None, ob_until = None, ob_code = None, ob_receipt = None\<rparr>], outbox_seq := outbox_seq s + 1\<rparr>
                   in rmap (\<lambda>j. (j, s')) (get_delivery sha real actor (packet_id packet) s')) s)"

text \<open>\<open>UPDATE ... SET ... WHERE\<close>\<close>

definition update_rows :: "(outbox_row \<Rightarrow> bool) \<Rightarrow> (outbox_row \<Rightarrow> outbox_row) \<Rightarrow> delivery_store \<Rightarrow> delivery_store" where
  "update_rows P f s = s\<lparr>outbox := map (\<lambda>r. if P r then f r else r) (outbox s)\<rparr>"

definition lease_over :: "int \<Rightarrow> outbox_row \<Rightarrow> bool" where
  "lease_over now r \<longleftrightarrow> ob_status r = js ''sending'' \<and> (case ob_until r of None \<Rightarrow> False | Some u \<Rightarrow> u \<le> now)"

definition fail_exhausted :: "int \<Rightarrow> int \<Rightarrow> delivery_store \<Rightarrow> delivery_store" where
  "fail_exhausted now max_attempts = update_rows
     (\<lambda>r. max_attempts \<le> ob_attempts r \<and> (ob_status r = js ''pending'' \<or> lease_over now r))
     (\<lambda>r. r\<lparr>ob_status := js ''failed'', ob_code := Some (js ''DELIVERY_UNCONFIRMED''), ob_lease := None, ob_until := None\<rparr>)"

text \<open>\<open>ORDER BY next_attempt_at, seq LIMIT 1\<close> of the rows that are due\<close>

definition due_row :: "int \<Rightarrow> jstr list \<Rightarrow> delivery_store \<Rightarrow> outbox_row option" where
  "due_row now exclude s =
     (case sort_key ob_next (sort_key ob_seq (filter (\<lambda>r.
        ((ob_status r = js ''pending'' \<and> ob_next r \<le> now) \<or> lease_over now r) \<and> ob_delivery r \<notin> set exclude) (outbox s))) of
        [] \<Rightarrow> None | r # _ \<Rightarrow> Some r)"

definition leased :: "jstr \<Rightarrow> int \<Rightarrow> outbox_row \<Rightarrow> outbox_row" where
  "leased token expiry r = r\<lparr>ob_status := js ''sending'', ob_attempts := ob_attempts r + 1, ob_total := ob_total r + 1,
     ob_lease := Some token, ob_until := Some expiry\<rparr>"

definition claim :: "sha_fn \<Rightarrow> real_fn \<Rightarrow> int \<Rightarrow> int \<Rightarrow> int \<Rightarrow> jstr list \<Rightarrow> jstr \<Rightarrow> delivery_store
    \<Rightarrow> delivery_job option dres \<times> delivery_store" where
  "claim sha real now lease_ms max_attempts exclude token s =
     (if 20 < length exclude \<or> \<not> list_all is_id exclude then (Err BatchError, s)
      else transaction (\<lambda>s. let s = fail_exhausted now max_attempts s in
        case due_row now exclude s of
          None \<Rightarrow> Ok (None, s)
        | Some r \<Rightarrow> rbind (job sha real r) (\<lambda>_.
            let s' = update_rows (\<lambda>q. ob_delivery q = ob_delivery r) (leased token (now + lease_ms)) s in
            rmap (\<lambda>j. (Some j, s')) (job sha real (leased token (now + lease_ms) r)))) s)"

text \<open>\<open>settle\<close>: only the holder of the lease changes the row; the result says whether it did.\<close>

definition settled_row :: "jstr \<Rightarrow> int \<Rightarrow> jstr option \<Rightarrow> json option \<Rightarrow> outbox_row \<Rightarrow> outbox_row" where
  "settled_row status now code receipt r = r\<lparr>ob_status := status, ob_next := now, ob_code := code,
     ob_receipt := map_option stringify receipt, ob_lease := None, ob_until := None\<rparr>"

definition settle :: "delivery_job \<Rightarrow> jstr \<Rightarrow> int \<Rightarrow> jstr option \<Rightarrow> json option \<Rightarrow> delivery_store \<Rightarrow> bool dres \<times> delivery_store" where
  "settle j status now code receipt s =
     (case (case receipt of None \<Rightarrow> Ok JNull | Some v \<Rightarrow> validate_receipt v (dj_packet j)) of
        Err e \<Rightarrow> (Err e, s)
      | Ok _ \<Rightarrow>
          let mine = (\<lambda>r. ob_delivery r = packet_id (dj_packet j) \<and> ob_status r = js ''sending'' \<and> ob_lease r \<noteq> None \<and> ob_lease r = dj_lease j) in
          (Ok (length (filter mine (outbox s)) = 1), update_rows mine (settled_row status now code receipt) s))"

definition retry_delivery :: "sha_fn \<Rightarrow> real_fn \<Rightarrow> person \<Rightarrow> jstr \<Rightarrow> int \<Rightarrow> delivery_store \<Rightarrow> delivery_job dres \<times> delivery_store" where
  "retry_delivery sha real actor d now = transaction (\<lambda>s.
     rbind (get_delivery sha real actor d s) (\<lambda>j.
       if dj_status j \<notin> js ` {''failed'', ''blocked''} then delivery_fail ''DELIVERY_NOT_RETRYABLE'' 409
       else let s' = update_rows (\<lambda>r. ob_delivery r = d)
              (\<lambda>r. r\<lparr>ob_status := js ''pending'', ob_attempts := 0, ob_next := now, ob_lease := None, ob_until := None\<rparr>) s
            in rmap (\<lambda>j. (j, s')) (get_delivery sha real actor d s')))"

section \<open>The inbox\<close>

definition received :: "sha_fn \<Rightarrow> real_fn \<Rightarrow> inbox_row \<Rightarrow> (json \<times> json) dres" where
  "received sha real r = (case json_parse real (ib_packet r) of
     None \<Rightarrow> corrupt
   | Some p \<Rightarrow>
       if \<not> (packet_ok sha p \<and> packet_source p = ib_source r \<and> packet_id p = ib_delivery r \<and> packet_digest p = ib_payload r \<and>
             same_person (person_of (fld (fld p ''message'') ''recipient'')) (ib_org r, ib_actor r)) then corrupt
       else (case json_parse real (ib_receipt r) of
         None \<Rightarrow> corrupt
       | Some v \<Rightarrow> if receipt_ok v p then Ok (p, v) else corrupt))"

definition receipt_for :: "json \<Rightarrow> jstr \<Rightarrow> json" where
  "receipt_for packet now = obj [(''schema_version'', JNum (NInt 1)), (''delivery_id'', JStr (packet_id packet)),
     (''payload_digest'', JStr (packet_digest packet)), (''received_at'', JStr now)]"

text \<open>\<open>receive\<close>: one row for each source and delivery id, whatever is sent again.\<close>

definition receive :: "sha_fn \<Rightarrow> real_fn \<Rightarrow> json \<Rightarrow> jstr \<Rightarrow> delivery_store \<Rightarrow> json dres \<times> delivery_store" where
  "receive sha real packet now s = (case validate_packet sha packet of
     Err e \<Rightarrow> (Err e, s)
   | Ok p \<Rightarrow> transaction (\<lambda>s.
       case find (\<lambda>r. ib_source r = packet_source p \<and> ib_delivery r = packet_id p) (inbox s) of
         Some r \<Rightarrow> if ib_payload r \<noteq> packet_digest p then delivery_fail ''DELIVERY_ID_CONFLICT'' 409
                    else rmap (\<lambda>(_, v). (v, s)) (received sha real r)
       | None \<Rightarrow>
           let (org, actor) = person_of (fld (fld p ''message'') ''recipient'') in
           Ok (receipt_for p now, s\<lparr>inbox := inbox s @ [\<lparr>ib_seq = inbox_seq s + 1, ib_source = packet_source p, ib_delivery = packet_id p,
             ib_payload = packet_digest p, ib_org = org, ib_actor = actor, ib_packet = stringify p,
             ib_receipt = stringify (receipt_for p now)\<rparr>], inbox_seq := inbox_seq s + 1\<rparr>)) s)"

definition list_inbox :: "sha_fn \<Rightarrow> real_fn \<Rightarrow> person \<Rightarrow> json \<Rightarrow> json \<Rightarrow> delivery_store \<Rightarrow> ((json \<times> json) list \<times> jstr option) dres" where
  "list_inbox sha real actor limit cursor s = (case review_page limit cursor of
     Err e \<Rightarrow> Err (ForeignError e)
   | Ok (l, before) \<Rightarrow>
       page_of ib_seq l (newest_rows ib_seq l before (filter (\<lambda>r. (ib_org r, ib_actor r) = actor) (inbox s))) (received sha real))"

section \<open>The worker\<close>

record worker_options =
  wo_timeout :: int
  wo_max_attempts :: int
  wo_retry_base :: int

text \<open>The options that the constructor accepts.\<close>

definition accept_options :: "json \<Rightarrow> json \<Rightarrow> json \<Rightarrow> json \<Rightarrow> worker_options dres" where
  "accept_options timeout poll attempts base =
     (let pick = (\<lambda>v d lo hi. case (if v = JUndef \<or> v = JNull then JNum (NInt d) else v) of
            JNum (NInt i) \<Rightarrow> if lo \<le> i \<and> i \<le> hi then Ok i else Err BatchError
          | _ \<Rightarrow> Err BatchError) in
      rbind (pick timeout 10000 10 30000) (\<lambda>t. rbind (pick poll 1000 0 60000) (\<lambda>_.
      rbind (pick attempts 5 1 10) (\<lambda>m. rbind (pick base 1000 1 60000) (\<lambda>b.
        Ok \<lparr>wo_timeout = t, wo_max_attempts = m, wo_retry_base = b\<rparr>)))))"

text \<open>
  What one round meets: whether \<open>close\<close> was called, the clock and the fresh token when the job is claimed,
  what other sessions committed while the delivery was awaited, how the delivery ended (a timeout and a
  shutdown end it as a \<open>DeliveryError\<close>) and the clock when it is settled.
\<close>

datatype delivery_end = Replied json | Threw delivery_error

record round =
  rd_stopped :: bool
  rd_now :: int
  rd_token :: jstr
  rd_others :: "delivery_store \<Rightarrow> delivery_store"
  rd_end :: delivery_end
  rd_later :: int

definition known_code :: "delivery_error \<Rightarrow> jstr" where
  "known_code e = (case e of DeliveryError c st rt \<Rightarrow> if code_text c then c else js ''DELIVERY_UNAVAILABLE'' | _ \<Rightarrow> js ''DELIVERY_UNAVAILABLE'')"

definition is_retryable :: "delivery_error \<Rightarrow> bool" where
  "is_retryable e = (case e of DeliveryError c st rt \<Rightarrow> rt | _ \<Rightarrow> True)"

definition give_up :: "worker_options \<Rightarrow> delivery_job \<Rightarrow> delivery_error \<Rightarrow> int \<Rightarrow> delivery_store \<Rightarrow> bool dres \<times> delivery_store" where
  "give_up opts j e now =
     settle j (if \<not> is_retryable e then js ''blocked'' else if wo_max_attempts opts \<le> dj_attempts j then js ''failed'' else js ''pending'')
       (now + min 3600000 (wo_retry_base opts * 2 ^ nat (dj_attempts j - 1))) (Some (known_code e)) None"

definition conclude :: "worker_options \<Rightarrow> delivery_job \<Rightarrow> round \<Rightarrow> delivery_store \<Rightarrow> bool dres \<times> delivery_store" where
  "conclude opts j rd s =
     (case (case rd_end rd of Replied v \<Rightarrow> validate_receipt v (dj_packet j) | Threw e \<Rightarrow> Err e) of
        Err e \<Rightarrow> give_up opts j e (rd_later rd) s
      | Ok v \<Rightarrow> (case settle j (js ''delivered'') (rd_later rd) None (Some v) s of
            (Err e, s') \<Rightarrow> give_up opts j e (rd_later rd) s'
          | r \<Rightarrow> r))"

text \<open>\<open>drain()\<close>: at most 20 jobs, none of them twice.\<close>

function drain :: "sha_fn \<Rightarrow> real_fn \<Rightarrow> worker_options \<Rightarrow> (nat \<Rightarrow> round) \<Rightarrow> nat \<Rightarrow> jstr list \<Rightarrow> delivery_store \<Rightarrow> nat dres \<times> delivery_store" where
  "drain sha real opts rounds processed attempted s =
     (let rd = rounds processed in
      if rd_stopped rd \<or> 20 \<le> processed then (Ok processed, s)
      else (case claim sha real (rd_now rd) (wo_timeout opts + 5000) (wo_max_attempts opts) attempted (rd_token rd) s of
        (Err e, s1) \<Rightarrow> (Err e, s1)
      | (Ok None, s1) \<Rightarrow> (Ok processed, s1)
      | (Ok (Some j), s1) \<Rightarrow>
          (case conclude opts j rd (rd_others rd s1) of
             (Err e, s2) \<Rightarrow> (Err e, s2)
           | (Ok _, s2) \<Rightarrow> drain sha real opts rounds (processed + 1) (attempted @ [packet_id (dj_packet j)]) s2)))"
  by pat_completeness auto
termination
  by (relation "measure (\<lambda>(sha, real, opts, rounds, processed, attempted, s). 20 - processed)") auto

declare drain.simps [simp del]

end
