(* ===== verification/DeliverySafety.thy ===== *)
theory DeliverySafety
  imports ReviewDelivery LedgerDemo
begin

text \<open>
  What the delivery tables promise to any number of workers and requests that run between each other: a
  delivered message stays delivered, a worker that lost its lease cannot settle, and a message that is
  received again, however often, is stored once and answered with the same receipt.
\<close>

section \<open>A packet prints without loss\<close>

lemma canon_ok_fld: "canon_ok v d \<Longrightarrow> fld v n \<noteq> JUndef \<Longrightarrow> canon_ok (fld v n) (Suc d)"
  by (cases v) (fastforce simp: fld_def split: option.splits dest: map_of_SomeD)+

lemma js_value_fld: "js_value real v \<Longrightarrow> fld v n \<noteq> JUndef \<Longrightarrow> js_value real (fld v n)"
  by (cases v) (fastforce simp: fld_def list_all_iff split: option.splits dest: map_of_SomeD)+

lemma printable_leaf:
  "is_id_value v \<Longrightarrow> printable real v" "is_instant v \<Longrightarrow> printable real v"
  "is_body v \<Longrightarrow> printable real v" "is_scope_value v \<Longrightarrow> printable real v"
  by (cases v; simp)+

lemma digest_head: "is_digest s \<Longrightarrow> take 3 s = js ''sha'' \<and> (44 :: cunit) \<notin> set s"
proof
  assume s: "is_digest s"
  then have "take 3 (take 7 s) = take 3 (js ''sha256:'')" by (simp add: is_digest_def)
  then show "take 3 s = js ''sha''" by (simp add: js_def)
  show "(44 :: cunit) \<notin> set s" using is_digest_token [OF s] by (auto simp: list_all_iff token_char_def)
qed

lemma cu_comma: "(44 :: cunit) = cu CHR '',''"
  by (simp add: cu_def)

lemma name_no_comma: "CHR '','' \<notin> set n \<Longrightarrow> (44 :: cunit) \<notin> set (js n)"
  unfolding cu_comma js_def using cu_eq_iff by auto

lemma printable_object:
  assumes "field_names v names" and "distinct names" and "names \<noteq> []" and "list_all (\<lambda>n. CHR '','' \<notin> set n) names"
    and "list_all (\<lambda>n. printable real (fld v n)) names"
  shows "printable real v"
  using printable_fields [OF assms(1-3)] assms(4,5) name_no_comma by (auto simp: list_all_iff)

lemma person_printable: "is_person v \<Longrightarrow> printable real v"
  unfolding is_person_def by (rule printable_object, blast) (auto intro: printable_leaf)

lemma author_printable: "is_author v \<Longrightarrow> printable real v"
  unfolding is_author_def by (rule printable_object, blast) (auto intro: printable_leaf)

lemma comment_printable: "is_comment v \<Longrightarrow> printable real v"
  unfolding is_comment_def by (rule printable_object, blast) (auto intro: printable_leaf author_printable)

lemma slot_printable: "is_message_slot v \<Longrightarrow> printable real v"
  unfolding is_message_slot_def by (rule printable_object, blast) (auto intro: printable_leaf)

lemma message_printable:
  assumes m: "is_message v" and ok: "canon_ok v d" and val: "js_value real v"
  shows "printable real v"
proof -
  let ?d = "fld v ''revision_digest''"
  have dig: "is_digest (js_string ?d)" using m by (simp add: is_message_def)
  then have "?d \<noteq> JUndef" by (auto simp: is_digest_def)
  then have "printable real ?d"
    using js_string_printable [of ?d "Suc d" real] digest_head [OF dig] canon_ok_fld [OF ok] js_value_fld [OF val] by blast
  then show ?thesis using m unfolding is_message_def
    by (intro printable_object, blast) (auto simp: max_safe_def intro: printable_leaf person_printable slot_printable comment_printable)
qed

lemma packet_printable:
  assumes p: "packet_ok sha p" and val: "js_value real p"
  shows "printable real p"
proof -
  let ?m = "fld p ''message''"
  have ok: "canon_ok p 0" using p canonicalize_Ok_iff [of p] by (auto simp: packet_ok_def split: result.splits)
  have m: "is_message ?m" using p by (simp add: packet_ok_def)
  then have def: "?m \<noteq> JUndef" by (auto simp: is_message_def field_names_def)
  have "printable real ?m" using message_printable [OF m canon_ok_fld [OF ok def] js_value_fld [OF val def]] .
  then show ?thesis using p unfolding packet_ok_def
    by (intro printable_object, blast) (auto split: result.splits)
qed

section \<open>The inbox\<close>

lemma is_id_text: "is_id_value v \<Longrightarrow> v = JStr (text_value v)"
  by (cases v) simp_all

lemma receipt_ok_for:
  assumes p: "packet_ok sha p" and now: "iso_instant now"
  shows "receipt_ok (receipt_for p now) p"
proof -
  have "is_id_value (fld (fld p ''message'') ''delivery_id'')" using p by (simp add: packet_ok_def is_message_def)
  moreover have "fld p ''payload_digest'' = JStr (packet_digest p)" using p by (auto simp: packet_ok_def packet_digest_def split: result.splits)
  ultimately show ?thesis using now is_id_text by (simp add: receipt_ok_def receipt_for_def packet_id_def)
qed

lemma receipt_printable: "printable real (receipt_for p now)"
  by (simp add: receipt_for_def max_safe_def)

text \<open>The row that \<open>receive\<close> inserts reads back as what was received.\<close>

definition inbox_entry :: "json \<Rightarrow> jstr \<Rightarrow> int \<Rightarrow> inbox_row" where
  "inbox_entry p now n = (let (org, actor) = person_of (fld (fld p ''message'') ''recipient'') in
     \<lparr>ib_seq = n, ib_source = packet_source p, ib_delivery = packet_id p, ib_payload = packet_digest p, ib_org = org, ib_actor = actor,
      ib_packet = stringify p, ib_receipt = stringify (receipt_for p now)\<rparr>)"

lemma inbox_entry_sel [simp]:
  "ib_source (inbox_entry p now n) = packet_source p" "ib_delivery (inbox_entry p now n) = packet_id p"
  "ib_payload (inbox_entry p now n) = packet_digest p" "ib_packet (inbox_entry p now n) = stringify p"
  "ib_receipt (inbox_entry p now n) = stringify (receipt_for p now)"
  "(ib_org (inbox_entry p now n), ib_actor (inbox_entry p now n)) = person_of (fld (fld p ''message'') ''recipient'')"
  by (simp_all add: inbox_entry_def split: prod.splits)

lemma received_entry:
  assumes p: "packet_ok sha p" and val: "js_value real p" and now: "iso_instant now"
  shows "received sha real (inbox_entry p now n) = Ok (p, receipt_for p now)"
proof -
  have "same_person (person_of (fld (fld p ''message'') ''recipient'')) (ib_org (inbox_entry p now n), ib_actor (inbox_entry p now n))"
    by (simp add: same_person_def)
  then show ?thesis using p receipt_ok_for [OF p now]
    by (simp add: received_def json_parse_printable packet_printable [OF p val] receipt_printable del: inbox_entry_sel(6))
qed

definition sent_before :: "json \<Rightarrow> inbox_row \<Rightarrow> bool" where
  "sent_before p r \<longleftrightarrow> ib_source r = packet_source p \<and> ib_delivery r = packet_id p"

lemma receive_cases:
  assumes "packet_ok sha p"
  shows "receive sha real p now s = (case find (sent_before p) (inbox s) of
      Some r \<Rightarrow> (if ib_payload r \<noteq> packet_digest p then delivery_fail ''DELIVERY_ID_CONFLICT'' 409 else rmap snd (received sha real r), s)
    | None \<Rightarrow> (Ok (receipt_for p now), s\<lparr>inbox := inbox s @ [inbox_entry p now (inbox_seq s + 1)], inbox_seq := inbox_seq s + 1\<rparr>))"
proof -
  have "sent_before p = (\<lambda>r. ib_source r = packet_source p \<and> ib_delivery r = packet_id p)" by (simp add: sent_before_def fun_eq_iff)
  moreover have "rmap (\<lambda>(_, v). (v, s)) x = (case rmap snd x of Err e \<Rightarrow> Err e | Ok v \<Rightarrow> Ok (v, s))"
    for x :: "(json \<times> json) dres"
    by (cases x) auto
  ultimately show ?thesis using assms
    by (auto simp: receive_def validate_packet_def transaction_def inbox_entry_def delivery_fail_def split: option.splits result.splits prod.splits)
qed

lemma find_prefix: "find P xs = Some x \<Longrightarrow> find P (xs @ ys) = Some x"
  by (induction xs) auto

lemma find_last: "find P xs = None \<Longrightarrow> P x \<Longrightarrow> find P (xs @ [x]) = Some x"
  by (induction xs) (auto split: if_splits)

text \<open>After a receipt was given, the row that justifies it is there and stays the one that is found.\<close>

lemma receive_finds:
  assumes p: "packet_ok sha p" and val: "js_value real p" and now: "iso_instant now"
    and got: "receive sha real p now s = (Ok v, s')"
  shows "\<exists>r q. find (sent_before p) (inbox s') = Some r \<and> ib_payload r = packet_digest p \<and> received sha real r = Ok (q, v)"
proof (cases "find (sent_before p) (inbox s)")
  case None
  then have "s' = s\<lparr>inbox := inbox s @ [inbox_entry p now (inbox_seq s + 1)], inbox_seq := inbox_seq s + 1\<rparr>" "v = receipt_for p now"
    using got receive_cases [OF p] by auto
  moreover have "find (sent_before p) (inbox s @ [inbox_entry p now (inbox_seq s + 1)]) = Some (inbox_entry p now (inbox_seq s + 1))"
    using None by (rule find_last) (simp add: sent_before_def)
  ultimately show ?thesis using received_entry [OF p val now] by simp
next
  case (Some r)
  then have "s' = s" "ib_payload r = packet_digest p" "\<exists>q. received sha real r = Ok (q, v)"
    using got receive_cases [OF p] by (auto simp: delivery_fail_def split: if_splits)
  then show ?thesis using Some by blast
qed

section \<open>Runs of the store\<close>

text \<open>The calls that change the tables, and the lease token that a call gives out.\<close>

datatype delivery_op = Enqueue person jstr json jstr jstr json int | Claim int int int "jstr list" jstr
  | Settle delivery_job jstr int "jstr option" "json option" | Retry person jstr int | Receive json jstr

fun perform :: "sha_fn \<Rightarrow> real_fn \<Rightarrow> delivery_op \<Rightarrow> delivery_store \<Rightarrow> delivery_store" where
  "perform sha real (Enqueue a opn i t b p now) s = snd (enqueue sha real a opn i t b p now s)"
| "perform sha real (Claim now lease m ex tok) s = snd (claim sha real now lease m ex tok s)"
| "perform sha real (Settle j st now c rc) s = snd (settle j st now c rc s)"
| "perform sha real (Retry a d now) s = snd (retry_delivery sha real a d now s)"
| "perform sha real (Receive p now) s = snd (receive sha real p now s)"

fun tokens :: "delivery_op \<Rightarrow> jstr set" where
  "tokens (Claim now lease m ex tok) = {tok}"
| "tokens _ = {}"

text \<open>
  A run from one state to another; the first component of a state is the set of lease tokens given out.  A
  token of \<open>randomUUID\<close> is new, the type of \<open>settle\<close> excludes the status \<open>sending\<close>, and the clock that
  \<open>receive\<close> prints is an instant.
\<close>

fun allowed :: "real_fn \<Rightarrow> delivery_op \<Rightarrow> bool" where
  "allowed real (Settle j st now c rc) = (st \<noteq> js ''sending'')"
| "allowed real (Receive p now) = (js_value real p \<and> iso_instant now)"
| "allowed real _ = True"

inductive delivery_run :: "sha_fn \<Rightarrow> real_fn \<Rightarrow> jstr set \<times> delivery_store \<Rightarrow> jstr set \<times> delivery_store \<Rightarrow> bool" for sha real where
  none: "delivery_run sha real us us"
| call: "delivery_run sha real us (u, s) \<Longrightarrow> tokens op \<inter> u = {} \<Longrightarrow> allowed real op \<Longrightarrow>
     delivery_run sha real us (u \<union> tokens op, perform sha real op s)"

lemma delivery_run_trans:
  "delivery_run sha real vt ws \<Longrightarrow> delivery_run sha real us vt \<Longrightarrow> delivery_run sha real us ws"
  by (induction rule: delivery_run.induct) (auto intro: delivery_run.intros)

section \<open>What one call does to the rows\<close>

lemma update_rows_outbox [simp]: "outbox (update_rows P f s) = map (\<lambda>r. if P r then f r else r) (outbox s)"
  and update_rows_inbox [simp]: "inbox (update_rows P f s) = inbox s"
  by (simp_all add: update_rows_def)

lemma due_row_member:
  assumes "due_row now ex s = Some r"
  shows "r \<in> set (outbox s) \<and> (ob_status r = js ''pending'' \<or> ob_status r = js ''sending'') \<and> ob_delivery r \<notin> set ex"
proof -
  define rows where "rows = filter (\<lambda>r. ((ob_status r = js ''pending'' \<and> ob_next r \<le> now) \<or> lease_over now r) \<and>
    ob_delivery r \<notin> set ex) (outbox s)"
  obtain rs where "sort_key ob_next (sort_key ob_seq rows) = r # rs"
    using assms unfolding due_row_def rows_def by (auto split: list.splits)
  then have "r \<in> set (sort_key ob_next (sort_key ob_seq rows))" by simp
  then have "r \<in> set rows" by simp
  then show ?thesis by (auto simp: rows_def lease_over_def)
qed

lemma status_names [simp]:
  "js ''delivered'' \<noteq> js ''pending''" "js ''delivered'' \<noteq> js ''sending''" "js ''delivered'' \<noteq> js ''failed''" "js ''delivered'' \<noteq> js ''blocked''"
  "js ''sending'' \<noteq> js ''pending''" "js ''sending'' \<noteq> js ''failed''" "js ''sending'' \<noteq> js ''blocked''"
  by simp_all

definition failed_row :: "int \<Rightarrow> int \<Rightarrow> outbox_row \<Rightarrow> outbox_row" where
  "failed_row now m r = (if m \<le> ob_attempts r \<and> (ob_status r = js ''pending'' \<or> lease_over now r)
     then r\<lparr>ob_status := js ''failed'', ob_code := Some (js ''DELIVERY_UNCONFIRMED''), ob_lease := None, ob_until := None\<rparr> else r)"

lemma fail_exhausted_outbox [simp]: "outbox (fail_exhausted now m s) = map (failed_row now m) (outbox s)"
  and fail_exhausted_inbox [simp]: "inbox (fail_exhausted now m s) = inbox s"
  by (simp_all add: fail_exhausted_def failed_row_def fun_eq_iff)

lemma failed_row_sel [simp]:
  "ob_delivery (failed_row now m r) = ob_delivery r"
  "ob_status r = js ''delivered'' \<Longrightarrow> failed_row now m r = r"
  by (auto simp: failed_row_def lease_over_def)

lemma failed_row_lease: "ob_lease (failed_row now m r) = None \<or> ob_lease (failed_row now m r) = ob_lease r"
  by (simp add: failed_row_def)

lemma leased_sel [simp]: "ob_delivery (leased tok e r) = ob_delivery r" "ob_lease (leased tok e r) = Some tok"
  "ob_status (leased tok e r) = js ''sending''"
  by (simp_all add: leased_def)

text \<open>
  Every call maps the rows one by one and may append a row with a new delivery id.  A delivered row is left
  alone, and a row gets no other lease token than the one that the call gives out.
\<close>

definition rows_step :: "jstr set \<Rightarrow> outbox_row list \<Rightarrow> outbox_row list \<Rightarrow> bool" where
  "rows_step toks rs rs' \<longleftrightarrow> (\<exists>f new. rs' = map f rs @ new \<and> length new \<le> 1 \<and>
     (\<forall>r. ob_delivery (f r) = ob_delivery r) \<and> (\<forall>r \<in> set rs. ob_status r = js ''delivered'' \<longrightarrow> f r = r) \<and>
     (\<forall>r. ob_lease (f r) = None \<or> ob_lease (f r) = ob_lease r \<or> ob_lease (f r) \<in> Some ` toks) \<and>
     (\<forall>r \<in> set new. ob_delivery r \<notin> ob_delivery ` set rs \<and> ob_lease r = None))"

lemma rows_step_map:
  assumes "\<And>r. ob_delivery (f r) = ob_delivery r" and "\<And>r. r \<in> set rs \<Longrightarrow> ob_status r = js ''delivered'' \<Longrightarrow> f r = r"
    and "\<And>r. ob_lease (f r) = None \<or> ob_lease (f r) = ob_lease r \<or> ob_lease (f r) \<in> Some ` toks"
  shows "rows_step toks rs (map f rs)"
  unfolding rows_step_def using assms by (intro exI [of _ f] exI [of _ "[]"]) auto

lemma rows_stepE:
  assumes "rows_step toks rs rs'"
  obtains f new where "rs' = map f rs @ new" and "length new \<le> 1" and "\<And>r. ob_delivery (f r) = ob_delivery r"
    and "\<And>r. r \<in> set rs \<Longrightarrow> ob_status r = js ''delivered'' \<Longrightarrow> f r = r"
    and "\<And>r. ob_lease (f r) = None \<or> ob_lease (f r) = ob_lease r \<or> ob_lease (f r) \<in> Some ` toks"
    and "\<And>r. r \<in> set new \<Longrightarrow> ob_delivery r \<notin> ob_delivery ` set rs \<and> ob_lease r = None"
  using assms unfolding rows_step_def by blast

lemma rows_step_lease:
  assumes "rows_step toks rs rs'" and "r' \<in> set rs'" and "ob_lease r' = Some t"
  shows "t \<in> toks \<or> (\<exists>r \<in> set rs. ob_delivery r = ob_delivery r' \<and> ob_lease r = Some t)"
  using assms(1)
proof (rule rows_stepE)
  fix f new
  assume rs': "rs' = map f rs @ new" and id: "\<And>r. ob_delivery (f r) = ob_delivery r"
    and lease: "\<And>r. ob_lease (f r) = None \<or> ob_lease (f r) = ob_lease r \<or> ob_lease (f r) \<in> Some ` toks"
    and new: "\<And>r. r \<in> set new \<Longrightarrow> ob_delivery r \<notin> ob_delivery ` set rs \<and> ob_lease r = None"
  have "r' \<notin> set new" using new [of r'] assms(3) by auto
  then obtain r where "r \<in> set rs" "r' = f r" using assms(2) rs' by auto
  then show ?thesis using id [of r] lease [of r] assms(3) by auto
qed

lemma rows_step_refl [simp]: "rows_step toks rs rs"
  using rows_step_map [of "\<lambda>r. r" rs toks] by simp

lemma same_row: "distinct (map f xs) \<Longrightarrow> x \<in> set xs \<Longrightarrow> y \<in> set xs \<Longrightarrow> f x = f y \<Longrightarrow> x = y"
  by (auto simp: distinct_map dest: inj_onD)

lemma enqueue_step: "rows_step {} (outbox s) (outbox (snd (enqueue sha real a opn i t b p now s)))"
proof -
  have "rows_step {} (outbox s) (outbox s @ [r])" if "ob_delivery r \<notin> ob_delivery ` set (outbox s)" "ob_lease r = None" for r
    unfolding rows_step_def using that by (intro exI [of _ "\<lambda>r. r"] exI [of _ "[r]"]) auto
  then show ?thesis by (auto simp: enqueue_def transaction_def Let_def split: result.splits option.splits if_splits)
qed

lemma claim_outcome:
  obtains "snd (claim sha real now lease m ex tok s) = s" "\<And>j. fst (claim sha real now lease m ex tok s) \<noteq> Ok (Some j)"
  | "snd (claim sha real now lease m ex tok s) = fail_exhausted now m s" "\<And>j. fst (claim sha real now lease m ex tok s) \<noteq> Ok (Some j)"
  | r j where "due_row now ex (fail_exhausted now m s) = Some r"
    "fst (claim sha real now lease m ex tok s) = Ok (Some j)" "job sha real (leased tok (now + lease) r) = Ok j"
    "snd (claim sha real now lease m ex tok s) =
       update_rows (\<lambda>q. ob_delivery q = ob_delivery r) (leased tok (now + lease)) (fail_exhausted now m s)"
proof -
  let ?c = "claim sha real now lease m ex tok s"
  have "(snd ?c = s \<and> (\<forall>j. fst ?c \<noteq> Ok (Some j))) \<or> (snd ?c = fail_exhausted now m s \<and> (\<forall>j. fst ?c \<noteq> Ok (Some j))) \<or>
    (\<exists>r j. due_row now ex (fail_exhausted now m s) = Some r \<and> fst ?c = Ok (Some j) \<and> job sha real (leased tok (now + lease) r) = Ok j \<and>
       snd ?c = update_rows (\<lambda>q. ob_delivery q = ob_delivery r) (leased tok (now + lease)) (fail_exhausted now m s))"
    by (auto simp: claim_def transaction_def Let_def split: result.splits option.splits)
  then show thesis using that by blast
qed

lemma claim_step:
  assumes "distinct (map ob_delivery (outbox s))"
  shows "rows_step {tok} (outbox s) (outbox (snd (claim sha real now lease m ex tok s)))"
proof (rule claim_outcome [of sha real now lease m ex tok s])
  show ?thesis if "snd (claim sha real now lease m ex tok s) = s" using that by simp
  show ?thesis if "snd (claim sha real now lease m ex tok s) = fail_exhausted now m s"
    unfolding that fail_exhausted_outbox by (rule rows_step_map) (simp, simp, metis failed_row_lease)
next
  fix r j
  assume due: "due_row now ex (fail_exhausted now m s) = Some r"
    and snd: "snd (claim sha real now lease m ex tok s) =
       update_rows (\<lambda>q. ob_delivery q = ob_delivery r) (leased tok (now + lease)) (fail_exhausted now m s)"
  let ?f = "\<lambda>q. if ob_delivery q = ob_delivery r then leased tok (now + lease) (failed_row now m q) else failed_row now m q"
  have out: "outbox (snd (claim sha real now lease m ex tok s)) = map ?f (outbox s)" unfolding snd by simp
  obtain q where q: "q \<in> set (outbox s)" "r = failed_row now m q" and st: "ob_status r \<noteq> js ''delivered''"
    using due_row_member [OF due] by auto
  show ?thesis unfolding out
  proof (rule rows_step_map)
    fix x assume x: "x \<in> set (outbox s)" "ob_status x = js ''delivered''"
    then have "ob_delivery x \<noteq> ob_delivery r" using same_row [OF assms x(1) q(1)] q(2) st by auto
    then show "?f x = x" using x(2) by simp
  next
    show "ob_lease (?f x) = None \<or> ob_lease (?f x) = ob_lease x \<or> ob_lease (?f x) \<in> Some ` {tok}" for x
      using failed_row_lease [of now m x] by auto
  qed simp
qed

lemma settle_step: "rows_step {} (outbox s) (outbox (snd (settle j st now c rc s)))"
  by (cases "case rc of None \<Rightarrow> Ok JNull | Some v \<Rightarrow> validate_receipt v (dj_packet j)")
     (simp_all add: settle_def Let_def settled_row_def rows_step_map)

lemma job_sel:
  assumes "job sha real r = Ok j"
  shows "dj_status j = ob_status r" "dj_lease j = ob_lease r" "dj_attempts j = ob_attempts r" "packet_id (dj_packet j) = ob_delivery r"
proof -
  obtain p receipt where "packet_ok sha p \<and> job_ok r p" and "dj_packet j = p" and "dj_status j = ob_status r \<and> dj_lease j = ob_lease r \<and> dj_attempts j = ob_attempts r"
    using assms by (auto simp: job_def corrupt_def split: option.splits if_splits)
  then show "dj_status j = ob_status r" "dj_lease j = ob_lease r" "dj_attempts j = ob_attempts r" "packet_id (dj_packet j) = ob_delivery r"
    by (auto simp: job_ok_def)
qed

lemma retry_step:
  assumes "distinct (map ob_delivery (outbox s))"
  shows "rows_step {} (outbox s) (outbox (snd (retry_delivery sha real a d now s)))"
proof -
  let ?f = "\<lambda>r. if ob_delivery r = d then r\<lparr>ob_status := js ''pending'', ob_attempts := 0, ob_next := now, ob_lease := None, ob_until := None\<rparr> else r"
  have step: "rows_step {} (outbox s) (map ?f (outbox s))"
    if j: "get_delivery sha real a d s = Ok j" "dj_status j \<in> js ` {''failed'', ''blocked''}" for j
  proof -
    obtain q where "find (\<lambda>r. ob_delivery r = d \<and> (ob_org r, ob_actor r) = a) (outbox s) = Some q" and jq: "job sha real q = Ok j"
      using j(1) by (auto simp: get_delivery_def delivery_fail_def split: option.splits)
    then have q: "q \<in> set (outbox s)" "ob_delivery q = d" by (auto dest: find_Some_mem)
    have st: "ob_status q = dj_status j" using jq by (rule job_sel(1) [symmetric])
    have keep: "ob_delivery x \<noteq> d" if "x \<in> set (outbox s)" "ob_status x = js ''delivered''" for x
      using same_row [OF assms that(1) q(1)] q(2) that(2) st j(2) by auto
    show ?thesis by (rule rows_step_map) (simp_all add: keep)
  qed
  then show ?thesis by (auto simp: retry_delivery_def transaction_def Let_def delivery_fail_def split: result.splits if_splits)
qed

lemma receive_outbox [simp]: "outbox (snd (receive sha real p now s)) = outbox s"
  by (auto simp: receive_def transaction_def Let_def split: result.splits option.splits prod.splits if_splits)

lemma perform_step: "distinct (map ob_delivery (outbox s)) \<Longrightarrow> rows_step (tokens op) (outbox s) (outbox (perform sha real op s))"
  by (cases op) (simp_all add: enqueue_step claim_step settle_step retry_step)

lemma perform_inbox:
  obtains "inbox (perform sha real op s) = inbox s"
  | r where "inbox (perform sha real op s) = inbox s @ [r]" "\<forall>q \<in> set (inbox s). (ib_source q, ib_delivery q) \<noteq> (ib_source r, ib_delivery r)"
proof (cases op)
  case (Enqueue a opn i t b p now)
  have "inbox (perform sha real op s) = inbox s" unfolding Enqueue
    by (auto simp: enqueue_def transaction_def Let_def split: result.splits option.splits if_splits)
  then show thesis using that(1) by blast
next
  case (Claim now lease m ex tok)
  have "inbox (perform sha real op s) = inbox s" unfolding Claim by (rule claim_outcome [of sha real now lease m ex tok s]) simp_all
  then show thesis using that(1) by blast
next
  case (Settle j st now c rc)
  have "inbox (perform sha real op s) = inbox s" unfolding Settle by (simp add: settle_def Let_def split: result.splits)
  then show thesis using that(1) by blast
next
  case (Retry a d now)
  have "inbox (perform sha real op s) = inbox s" unfolding Retry
    by (auto simp: retry_delivery_def transaction_def Let_def split: result.splits if_splits)
  then show thesis using that(1) by blast
next
  case (Receive p now)
  show thesis
  proof (cases "packet_ok sha p \<and> find (sent_before p) (inbox s) = None")
    case True
    then have "inbox (perform sha real op s) = inbox s @ [inbox_entry p now (inbox_seq s + 1)]"
      unfolding Receive by (simp add: receive_cases)
    moreover have "\<forall>q \<in> set (inbox s). (ib_source q, ib_delivery q) \<noteq> (packet_source p, packet_id p)"
      using True by (auto simp: find_None_iff sent_before_def)
    ultimately show thesis using that(2) by simp
  next
    case False
    then have "inbox (perform sha real op s) = inbox s"
      unfolding Receive by (cases "packet_ok sha p") (auto simp: receive_cases, simp add: receive_def validate_packet_def delivery_fail_def)
    then show thesis using that(1) by blast
  qed
qed

section \<open>Invariants of a run\<close>

text \<open>One row for each delivery id and for each received id, and every lease was given out.\<close>

definition delivery_inv :: "jstr set \<times> delivery_store \<Rightarrow> bool" where
  "delivery_inv us \<longleftrightarrow> distinct (map ob_delivery (outbox (snd us))) \<and>
     distinct (map (\<lambda>r. (ib_source r, ib_delivery r)) (inbox (snd us))) \<and>
     (\<forall>r \<in> set (outbox (snd us)). \<forall>t. ob_lease r = Some t \<longrightarrow> t \<in> fst us)"

lemma rows_step_distinct:
  assumes step: "rows_step toks rs rs'" and d: "distinct (map ob_delivery rs)"
  shows "distinct (map ob_delivery rs')"
proof -
  obtain f new where rs': "rs' = map f rs @ new" and f: "\<And>r. ob_delivery (f r) = ob_delivery r" and len: "length new \<le> 1"
    and fresh: "\<And>r. r \<in> set new \<Longrightarrow> ob_delivery r \<notin> ob_delivery ` set rs \<and> ob_lease r = None"
    using rows_stepE [OF step] by metis
  have "map ob_delivery (map f rs) = map ob_delivery rs" using f by simp
  moreover have "distinct (map ob_delivery new)" using len by (cases new) auto
  moreover have "ob_delivery ` set new \<inter> ob_delivery ` set rs = {}" using fresh by auto
  ultimately show ?thesis unfolding rs' using d by (auto simp del: map_map)
qed

lemma delivery_inv_call:
  assumes inv: "delivery_inv (u, s)"
  shows "delivery_inv (u \<union> tokens op, perform sha real op s)"
proof -
  have d: "distinct (map ob_delivery (outbox s))" and i: "distinct (map (\<lambda>r. (ib_source r, ib_delivery r)) (inbox s))"
    and l: "\<And>r t. r \<in> set (outbox s) \<Longrightarrow> ob_lease r = Some t \<Longrightarrow> t \<in> u"
    using inv by (auto simp: delivery_inv_def)
  note step = perform_step [OF d, of op sha real]
  have "distinct (map (\<lambda>r. (ib_source r, ib_delivery r)) (inbox (perform sha real op s)))"
    by (rule perform_inbox [of sha real op s]) (use i in auto)
  moreover have "t \<in> u \<union> tokens op" if "r \<in> set (outbox (perform sha real op s))" "ob_lease r = Some t" for r t
    using rows_step_lease [OF step that] l by blast
  ultimately show ?thesis using rows_step_distinct [OF step d] by (simp add: delivery_inv_def)
qed

lemma delivery_run_inv: "delivery_run sha real us vt \<Longrightarrow> delivery_inv us \<Longrightarrow> delivery_inv vt"
  by (induction rule: delivery_run.induct) (simp_all add: delivery_inv_call)

lemma empty_store_inv: "delivery_inv ({}, empty_store)"
  by (simp add: delivery_inv_def empty_store_def)

text \<open>A lease that no row holds any more is not held again.\<close>

definition free_of :: "jstr \<Rightarrow> jstr option \<Rightarrow> jstr set \<times> delivery_store \<Rightarrow> bool" where
  "free_of d lease us \<longleftrightarrow> (\<exists>tok \<in> fst us. lease = Some tok) \<and> (\<forall>r \<in> set (outbox (snd us)). ob_delivery r = d \<longrightarrow> ob_lease r \<noteq> lease)"

lemma free_of_call:
  assumes inv: "delivery_inv (u, s)" and free: "free_of d lease (u, s)" and new: "tokens op \<inter> u = {}"
  shows "free_of d lease (u \<union> tokens op, perform sha real op s)"
proof -
  obtain tok where tok: "tok \<in> u" "lease = Some tok" using free by (auto simp: free_of_def)
  have d: "distinct (map ob_delivery (outbox s))" using inv by (simp add: delivery_inv_def)
  have "ob_lease r \<noteq> lease" if "r \<in> set (outbox (perform sha real op s))" "ob_delivery r = d" for r
  proof
    assume "ob_lease r = lease"
    then have "tok \<in> tokens op \<or> (\<exists>q \<in> set (outbox s). ob_delivery q = d \<and> ob_lease q = Some tok)"
      using rows_step_lease [OF perform_step [OF d, of op sha real] that(1)] that(2) tok(2) by simp
    then show False using free new tok by (auto simp: free_of_def)
  qed
  then show ?thesis using tok by (simp add: free_of_def)
qed

lemma delivery_run_free:
  "delivery_run sha real us vt \<Longrightarrow> delivery_inv us \<Longrightarrow> free_of d lease us \<Longrightarrow> free_of d lease vt"
proof (induction rule: delivery_run.induct)
  case (call us u s op)
  then show ?case using delivery_run_inv free_of_call by blast
qed

lemma settle_free:
  assumes "free_of (packet_id (dj_packet j)) (dj_lease j) (u, s)"
  shows "snd (settle j st now c rc s) = s \<and> fst (settle j st now c rc s) \<noteq> Ok True"
proof -
  let ?mine = "\<lambda>r. ob_delivery r = packet_id (dj_packet j) \<and> ob_status r = js ''sending'' \<and> ob_lease r \<noteq> None \<and> ob_lease r = dj_lease j"
  have none: "\<forall>r \<in> set (outbox s). \<not> ?mine r" using assms by (auto simp: free_of_def)
  then have "filter ?mine (outbox s) = []" by (simp add: filter_empty_conv)
  moreover have "update_rows ?mine f s = s" for f
    unfolding update_rows_def using none by (subst map_idI) auto
  ultimately show ?thesis by (simp add: settle_def Let_def split: result.splits)
qed

text \<open>A job loses its lease when it is settled, and when somebody else claims the same delivery.\<close>

definition ends_lease :: "sha_fn \<Rightarrow> real_fn \<Rightarrow> delivery_job \<Rightarrow> delivery_op \<Rightarrow> delivery_store \<Rightarrow> bool" where
  "ends_lease sha real j op t \<longleftrightarrow> (case op of
     Settle j' st now c rc \<Rightarrow> j' = j \<and> fst (settle j st now c rc t) = Ok True
   | Claim now lease m ex tok \<Rightarrow> (case fst (claim sha real now lease m ex tok t) of
       Ok (Some j') \<Rightarrow> packet_id (dj_packet j') = packet_id (dj_packet j) | _ \<Rightarrow> False)
   | _ \<Rightarrow> False)"

lemma claim_lease:
  assumes "claim sha real now lease m ex tok s = (Ok (Some j), s1)"
  shows "dj_lease j = Some tok"
proof (rule claim_outcome [of sha real now lease m ex tok s])
  fix r j' assume "fst (claim sha real now lease m ex tok s) = Ok (Some j')" "job sha real (leased tok (now + lease) r) = Ok j'"
  then show "dj_lease j = Some tok" using assms job_sel(2) by fastforce
qed (use assms in auto)

definition holds_lease :: "delivery_job \<Rightarrow> outbox_row \<Rightarrow> bool" where
  "holds_lease j r \<longleftrightarrow> ob_delivery r = packet_id (dj_packet j) \<and> ob_status r = js ''sending'' \<and> ob_lease r \<noteq> None \<and> ob_lease r = dj_lease j"

lemma settle_won:
  assumes "fst (settle j st now c rc t) = Ok True"
  shows "(\<exists>q \<in> set (outbox t). holds_lease j q) \<and> snd (settle j st now c rc t) = update_rows (holds_lease j) (settled_row st now c rc) t"
proof -
  have mine: "(\<lambda>r. ob_delivery r = packet_id (dj_packet j) \<and> ob_status r = js ''sending'' \<and> ob_lease r \<noteq> None \<and> ob_lease r = dj_lease j) = holds_lease j"
    by (simp add: holds_lease_def fun_eq_iff)
  have "length (filter (holds_lease j) (outbox t)) = 1 \<and> snd (settle j st now c rc t) = update_rows (holds_lease j) (settled_row st now c rc) t"
    using assms unfolding settle_def Let_def mine by (simp split: result.splits)
  moreover have "filter (holds_lease j) (outbox t) \<noteq> []" using calculation by (metis length_0_conv zero_neq_one)
  ultimately show ?thesis unfolding filter_empty_conv by blast
qed

lemma ends_lease_free:
  assumes inv: "delivery_inv (v, t)" and tok: "dj_lease j = Some tok" "tok \<in> v" and new: "tokens op \<inter> v = {}"
    and ends: "ends_lease sha real j op t"
  shows "free_of (packet_id (dj_packet j)) (dj_lease j) (v \<union> tokens op, perform sha real op t)"
proof -
  let ?d = "packet_id (dj_packet j)"
  have gone: "ob_lease r \<noteq> Some tok" if "r \<in> set (outbox (perform sha real op t))" "ob_delivery r = ?d" for r
  proof (cases op)
    case (Settle j' st now c rc)
    have "fst (settle j st now c rc t) = Ok True" "j' = j" using ends Settle by (simp_all add: ends_lease_def)
    then obtain q where q: "q \<in> set (outbox t)" "holds_lease j q" and out: "perform sha real op t = update_rows (holds_lease j) (settled_row st now c rc) t"
      using settle_won [of j st now c rc t] Settle by auto
    have "r \<in> (\<lambda>x. if holds_lease j x then settled_row st now c rc x else x) ` set (outbox t)" using that(1) unfolding out by simp
    then obtain x where x: "x \<in> set (outbox t)" "r = (if holds_lease j x then settled_row st now c rc x else x)" by (rule imageE)
    then have "ob_delivery x = ob_delivery q" using that(2) q(2) by (simp add: settled_row_def holds_lease_def split: if_splits)
    then have "x = q" using inv q x(1) same_row [of ob_delivery "outbox t" x q] by (simp add: delivery_inv_def)
    then show ?thesis using x(2) q(2) by (simp add: settled_row_def)
  next
    case (Claim now lease m ex tok')
    have ne: "tok' \<noteq> tok" using new tok(2) Claim by auto
    show ?thesis
    proof (rule claim_outcome [of sha real now lease m ex tok' t])
      fix q j'
      assume q: "fst (claim sha real now lease m ex tok' t) = Ok (Some j')" "job sha real (leased tok' (now + lease) q) = Ok j'"
        "snd (claim sha real now lease m ex tok' t) =
          update_rows (\<lambda>r. ob_delivery r = ob_delivery q) (leased tok' (now + lease)) (fail_exhausted now m t)"
      have "ob_delivery q = ?d" using ends q(1) job_sel(4) [OF q(2)] Claim by (simp add: ends_lease_def)
      then have "ob_lease r = Some tok'" using that q(3) Claim by auto
      then show ?thesis using ne by simp
    qed (use ends Claim in \<open>auto simp: ends_lease_def split: result.splits option.splits\<close>)
  qed (use ends in \<open>simp_all add: ends_lease_def\<close>)
  then show ?thesis using tok by (simp add: free_of_def)
qed

lemma received_packet_ok: "receive sha real p now s = (Ok v, s') \<Longrightarrow> packet_ok sha p"
  by (cases "packet_ok sha p") (simp_all add: receive_def validate_packet_def delivery_fail_def)

lemma run_keeps_found:
  "delivery_run sha real us vt \<Longrightarrow> find P (inbox (snd us)) = Some r \<Longrightarrow> find P (inbox (snd vt)) = Some r"
proof (induction rule: delivery_run.induct)
  case (call us u s op)
  then have found: "find P (inbox s) = Some r" by simp
  have "find P (inbox (perform sha real op s)) = Some r"
    by (rule perform_inbox [of sha real op s]) (simp_all add: found find_prefix)
  then show ?case by simp
qed simp

lemma one_inbox_row:
  assumes inv: "delivery_inv (w, t)" and found: "find (sent_before p) (inbox t) = Some r"
  shows "length (filter (sent_before p) (inbox t)) = 1"
proof -
  define key :: "inbox_row \<Rightarrow> jstr \<times> jstr" where "key = (\<lambda>r. (ib_source r, ib_delivery r))"
  let ?rows = "filter (sent_before p) (inbox t)"
  have "distinct (map key ?rows)" using inv by (simp add: delivery_inv_def key_def distinct_map_filter)
  then have "length ?rows = card (key ` set ?rows)" by (metis distinct_card length_map list.set_map)
  also have "key ` set ?rows = {(packet_source p, packet_id p)}"
  proof -
    have "r \<in> set ?rows" using find_Some_mem [OF found] by simp
    moreover have "key q = (packet_source p, packet_id p)" if "q \<in> set ?rows" for q
      using that by (simp add: sent_before_def key_def)
    ultimately show ?thesis by (metis (no_types, lifting) empty_iff image_cong image_constant_conv)
  qed
  finally show ?thesis by simp
qed

section \<open>A delivery\<close>

definition demo_message :: json where
  "demo_message = obj [(''schema_version'', JNum (NInt 1)), (''delivery_id'', JStr (js ''prop1'')), (''source_id'', JStr (js ''scope1'')),
     (''workspace_id'', JStr (js ''ctx1'')),
     (''slot'', obj [(''channel_id'', JStr (js ''chan'')), (''document_id'', JStr (js ''doc1'')), (''context_id'', JStr (js ''ctx1'')),
        (''scope_id'', JStr (js ''scope1'')), (''usage_scope'', JStr (js ''review/v1''))]),
     (''revision_digest'', JStr (digest_text demo_sha [])),
     (''recipient'', obj [(''org_id'', JStr (js ''org1'')), (''actor_id'', JStr (js ''bot''))]),
     (''comment'', obj [(''event_id'', JStr (js ''cmd1'')),
        (''author'', obj [(''org_id'', JStr (js ''org1'')), (''actor_id'', JStr (js ''ann'')), (''kind'', JStr (js ''human''))]),
        (''created_at'', JStr (js ''2024-02-29T10:00:00.000Z'')), (''body'', JStr (js ''please check''))])]"

definition demo_packet :: json where
  "demo_packet = obj [(''message'', demo_message),
     (''payload_digest'', JStr (case canonicalize demo_message of Ok t \<Rightarrow> digest_text demo_sha t | Err _ \<Rightarrow> []))]"

definition demo_instant :: jstr where
  "demo_instant = js ''2024-02-29T10:00:00.000Z''"

lemma demo_instant: "iso_instant demo_instant"
  unfolding demo_instant_def by code_simp

lemma demo_message_ok: "is_message demo_message"
proof -
  have scope: "is_usage_scope (js ''review/v1'')"
    by (simp add: is_usage_scope_def js_def cu_def char_defs)
  have body: "is_body (JStr (js ''please check''))"
    by (simp add: blank_text_def js_def cu_def js_space_def)
  have "is_message_slot (obj [(''channel_id'', JStr (js ''chan'')), (''document_id'', JStr (js ''doc1'')), (''context_id'', JStr (js ''ctx1'')),
        (''scope_id'', JStr (js ''scope1'')), (''usage_scope'', JStr (js ''review/v1''))])"
    by (simp add: is_message_slot_def scope)
  moreover have "is_comment (obj [(''event_id'', JStr (js ''cmd1'')),
        (''author'', obj [(''org_id'', JStr (js ''org1'')), (''actor_id'', JStr (js ''ann'')), (''kind'', JStr (js ''human''))]),
        (''created_at'', JStr demo_instant), (''body'', JStr (js ''please check''))])"
    unfolding is_comment_def using body demo_instant by (simp add: is_author_def del: is_body.simps)
  ultimately show ?thesis unfolding demo_instant_def by (simp add: demo_message_def is_message_def is_person_def)
qed

lemma demo_digest_length: "length (digest_text demo_sha t) = 71"
  by (simp add: digest_text_def demo_sha_def)

lemma demo_packet_shape:
  obtains d where "demo_packet = obj [(''message'', demo_message), (''payload_digest'', JStr d)]" "length d = 71" "list_all token_char d"
    "delivery_hash demo_sha demo_message = Ok d"
proof -
  have "canon_ok demo_message 0"
    using token_valid_unicode [OF is_digest_token [OF demo_sha_digest]] by (simp add: demo_message_def max_safe_def canon_ok_obj)
  then obtain t where t: "canonicalize demo_message = Ok t" using canonicalize_Ok_iff by blast
  show thesis
    by (rule that [of "digest_text demo_sha t"]) (simp_all add: demo_packet_def t demo_digest_length is_digest_token delivery_hash_def)
qed

lemma demo_packet_ok: "packet_ok demo_sha demo_packet" and demo_packet_value: "js_value real demo_packet"
proof -
  obtain d where p: "demo_packet = obj [(''message'', demo_message), (''payload_digest'', JStr d)]" and d: "length d = 71" "list_all token_char d"
    and h: "delivery_hash demo_sha demo_message = Ok d"
    using demo_packet_shape .
  have "plain demo_packet" unfolding p demo_message_def by simp
  then show "js_value real demo_packet" by (rule plain_js_value)
  have "canon_ok demo_packet 0"
    using token_valid_unicode [OF is_digest_token [OF demo_sha_digest]] token_valid_unicode [OF d(2)] by (simp add: p demo_message_def max_safe_def canon_ok_obj)
  then obtain t where t: "canonicalize demo_packet = Ok t" using canonicalize_Ok_iff by blast
  have "text_bound demo_packet \<le> 8000"
    by (simp add: p demo_message_def demo_digest_length d(1) obj_def max_safe_def)
  then have "length t \<le> 8000" using canonical_length t by (fastforce simp: canonicalize_def)
  then have "byte_length t \<le> delivery_max_bytes" using byte_length_le [of t] by (simp add: delivery_max_bytes_def)
  then show "packet_ok demo_sha demo_packet" using t h demo_message_ok by (simp add: packet_ok_def p)
qed

definition demo_actor :: person where
  "demo_actor = (js ''org1'', js ''ann'')"

definition demo_token :: jstr where
  "demo_token = replicate 36 (cu CHR ''a'')"

definition demo_enqueued :: delivery_store where
  "demo_enqueued = perform demo_sha demo_real (Enqueue demo_actor (js ''cmd1'') JNull (js ''acc1'') (digest_text demo_sha []) demo_packet 0) empty_store"

definition demo_claimed :: delivery_store where
  "demo_claimed = perform demo_sha demo_real (Claim 0 15000 5 [] demo_token) demo_enqueued"

definition demo_row :: outbox_row where
  "demo_row = \<lparr>ob_seq = 1, ob_delivery = js ''prop1'', ob_org = js ''org1'', ob_actor = js ''ann'', ob_operation = js ''cmd1'',
     ob_request = digest_text demo_sha (js ''null''), ob_target = js ''acc1'', ob_binding = digest_text demo_sha [],
     ob_packet = stringify demo_packet, ob_status = js ''pending'', ob_attempts = 0, ob_total = 0, ob_next = 0,
     ob_lease = None, ob_until = None, ob_code = None, ob_receipt = None\<rparr>"

definition demo_job :: delivery_job where
  "demo_job = \<lparr>dj_packet = demo_packet, dj_target = js ''acc1'', dj_binding = digest_text demo_sha [], dj_status = js ''sending'',
     dj_attempts = 1, dj_total = 1, dj_next = 0, dj_lease = Some demo_token, dj_code = None, dj_receipt = None\<rparr>"

lemma demo_packet_sel: "packet_id demo_packet = js ''prop1''" "packet_source demo_packet = js ''scope1''"
  "fld demo_packet ''message'' = demo_message" "person_of (fld (fld demo_message ''comment'') ''author'') = demo_actor"
  by (simp_all add: packet_id_def packet_source_def demo_packet_def demo_message_def person_of_def demo_actor_def)

lemma demo_parse: "json_parse real (stringify demo_packet) = Some demo_packet"
  by (rule json_parse_printable [OF packet_printable [OF demo_packet_ok demo_packet_value]])

lemma demo_row_job: "\<exists>j. job demo_sha real demo_row = Ok j"
  by (simp add: job_def demo_row_def demo_parse demo_packet_ok job_ok_def demo_packet_sel demo_actor_def same_person_def safe_count_def
      lease_fields_ok_def job_receipt_def max_safe_def)

lemma demo_leased_job: "job demo_sha real (leased demo_token 15000 demo_row) = Ok demo_job"
proof -
  have "lease_text demo_token" by (simp add: lease_text_def demo_token_def hex_lower_char_def cu_def list_all_iff)
  then show ?thesis
    by (simp add: job_def demo_row_def leased_def demo_parse demo_packet_ok job_ok_def demo_packet_sel demo_actor_def same_person_def safe_count_def
      lease_fields_ok_def job_receipt_def max_safe_def demo_job_def)
qed

lemma demo_enqueued: "outbox demo_enqueued = [demo_row] \<and> inbox demo_enqueued = []"
proof -
  have "canonicalize JNull = Ok (js ''null'')" by (simp add: canonicalize_def depth_guard_def)
  then have hash: "rbind (validate_packet demo_sha demo_packet) (\<lambda>_. delivery_hash demo_sha JNull) = Ok (digest_text demo_sha (js ''null''))"
    by (simp add: validate_packet_def demo_packet_ok delivery_hash_def)
  show ?thesis using demo_row_job [of demo_real] unfolding demo_enqueued_def perform.simps enqueue_def hash
    by (auto simp: empty_store_def transaction_def demo_packet_sel get_delivery_def demo_actor_def demo_row_def)
qed

lemma demo_claim: "claim demo_sha demo_real 0 15000 5 [] demo_token demo_enqueued = (Ok (Some demo_job), demo_claimed)"
  and demo_claimed: "outbox demo_claimed = [leased demo_token 15000 demo_row] \<and> inbox demo_claimed = []"
proof -
  have fresh: "failed_row 0 5 demo_row = demo_row" by (simp add: failed_row_def demo_row_def)
  have "due_row 0 [] (fail_exhausted 0 5 demo_enqueued) = Some demo_row"
    by (simp add: due_row_def demo_enqueued fresh) (simp add: demo_row_def)
  then have c: "claim demo_sha demo_real 0 15000 5 [] demo_token demo_enqueued =
      (Ok (Some demo_job), update_rows (\<lambda>q. ob_delivery q = ob_delivery demo_row) (leased demo_token 15000) (fail_exhausted 0 5 demo_enqueued))"
    using demo_row_job [of demo_real] demo_leased_job [of demo_real] by (auto simp: claim_def transaction_def)
  then show "claim demo_sha demo_real 0 15000 5 [] demo_token demo_enqueued = (Ok (Some demo_job), demo_claimed)"
    by (simp add: demo_claimed_def)
  show "outbox demo_claimed = [leased demo_token 15000 demo_row] \<and> inbox demo_claimed = []"
    using c by (simp add: demo_claimed_def demo_enqueued fresh)
qed

lemma demo_claimed_run:
  "delivery_run demo_sha demo_real ({}, empty_store) ({}, demo_enqueued)"
  "delivery_run demo_sha demo_real ({}, empty_store) ({demo_token}, demo_claimed)"
proof -
  show e: "delivery_run demo_sha demo_real ({}, empty_store) ({}, demo_enqueued)"
    unfolding demo_enqueued_def using call [OF none, of "Enqueue demo_actor (js ''cmd1'') JNull (js ''acc1'') (digest_text demo_sha []) demo_packet 0"] by simp
  show "delivery_run demo_sha demo_real ({}, empty_store) ({demo_token}, demo_claimed)"
    unfolding demo_claimed_def using call [OF e, of "Claim 0 15000 5 [] demo_token"] by simp
qed

lemma demo_settle:
  "settle demo_job (js ''delivered'') 1 None (Some (receipt_for demo_packet demo_instant)) demo_claimed =
    (Ok True, update_rows (holds_lease demo_job) (settled_row (js ''delivered'') 1 None (Some (receipt_for demo_packet demo_instant))) demo_claimed)"
  and demo_settled_row: "holds_lease demo_job (leased demo_token 15000 demo_row)"
proof -
  show h: "holds_lease demo_job (leased demo_token 15000 demo_row)"
    by (simp add: holds_lease_def demo_job_def demo_row_def demo_packet_sel)
  have mine: "(\<lambda>r. ob_delivery r = packet_id (dj_packet demo_job) \<and> ob_status r = js ''sending'' \<and> ob_lease r \<noteq> None \<and> ob_lease r = dj_lease demo_job)
    = holds_lease demo_job"
    by (simp add: holds_lease_def fun_eq_iff)
  have "receipt_ok (receipt_for demo_packet demo_instant) (dj_packet demo_job)"
    by (simp add: demo_job_def receipt_ok_for [OF demo_packet_ok demo_instant])
  then show "settle demo_job (js ''delivered'') 1 None (Some (receipt_for demo_packet demo_instant)) demo_claimed =
    (Ok True, update_rows (holds_lease demo_job) (settled_row (js ''delivered'') 1 None (Some (receipt_for demo_packet demo_instant))) demo_claimed)"
    unfolding settle_def Let_def mine by (simp add: validate_receipt_def demo_claimed h)
qed

section \<open>The properties\<close>

text \<open>
  C32. A message that was delivered stays delivered: whatever requests and workers do to the tables
  afterwards, in whatever order, its row keeps every column, so it is never sent, failed or retried again.
\<close>

theorem delivered_is_final:
  assumes "delivery_run sha real ({}, empty_store) (u, s)"
    and "r \<in> set (outbox s)" and "ob_status r = js ''delivered''"
    and "delivery_run sha real (u, s) (v, t)"
  shows "r \<in> set (outbox t)"
proof -
  have "delivery_inv us \<Longrightarrow> r \<in> set (outbox (snd us)) \<Longrightarrow> r \<in> set (outbox (snd vt))" if "delivery_run sha real us vt" for us vt
    using that
  proof (induction rule: delivery_run.induct)
    case (call us u s op)
    then have r: "r \<in> set (outbox s)" and "distinct (map ob_delivery (outbox s))"
      using delivery_run_inv [of sha real us "(u, s)"] by (auto simp: delivery_inv_def)
    then have "rows_step (tokens op) (outbox s) (outbox (perform sha real op s))" by (blast intro: perform_step)
    then show ?case using r assms(3) by (auto elim!: rows_stepE) (metis imageI)
  qed simp
  then show ?thesis using assms(1,2,4) delivery_run_inv empty_store_inv by fastforce
qed

theorem delivered_is_final_witness:
  "\<exists>u s r v t. ob_status r = js ''delivered'' \<and> r \<in> set (outbox s) \<and> s \<noteq> t \<and>
     delivery_run demo_sha demo_real (u, s) (v, t) \<and> r \<in> set (outbox t)"
proof -
  let ?op = "Settle demo_job (js ''delivered'') 1 None (Some (receipt_for demo_packet demo_instant))"
  let ?s = "perform demo_sha demo_real ?op demo_claimed" and ?r = "settled_row (js ''delivered'') 1 None (Some (receipt_for demo_packet demo_instant)) (leased demo_token 15000 demo_row)"
  let ?t = "perform demo_sha demo_real (Receive demo_packet demo_instant) ?s"
  have run: "delivery_run demo_sha demo_real ({}, empty_store) ({demo_token}, ?s)"
    using call [OF demo_claimed_run(2), of ?op] by simp
  have more: "delivery_run demo_sha demo_real ({demo_token}, ?s) ({demo_token}, ?t)"
    using call [OF none [of demo_sha demo_real "({demo_token}, ?s)"], of "Receive demo_packet demo_instant"] demo_instant demo_packet_value by simp
  have r: "?r \<in> set (outbox ?s)" "ob_status ?r = js ''delivered''"
    by (simp_all add: demo_settle demo_claimed demo_settled_row settled_row_def)
  have "inbox ?s = []" by (simp add: demo_settle demo_claimed)
  moreover have "inbox ?t = [inbox_entry demo_packet demo_instant (inbox_seq ?s + 1)]"
    using receive_cases [OF demo_packet_ok, of demo_real demo_instant ?s] calculation by simp
  ultimately have "?s \<noteq> ?t" by force
  then show ?thesis using delivered_is_final [OF run r more] r more by blast
qed

text \<open>
  C33. Only the worker that holds the lease concludes a delivery.  Once a claimed job was settled, or its
  delivery was claimed again after the lease ran out, a settlement of that job is refused and changes
  nothing, however late it comes and whatever ran between.
\<close>

theorem stale_worker_cannot_settle:
  assumes "delivery_run sha real ({}, empty_store) (u, s)"
    and "claim sha real now lease m ex tok s = (Ok (Some j), s1)" and "tok \<notin> u"
    and "delivery_run sha real (insert tok u, s1) (v, t)"
    and "ends_lease sha real j op t" and "tokens op \<inter> v = {}" and "allowed real op"
    and "delivery_run sha real (v \<union> tokens op, perform sha real op t) (w, z)"
  shows "snd (settle j st now2 c rc z) = z \<and> fst (settle j st now2 c rc z) \<noteq> Ok True"
proof -
  have "delivery_run sha real ({}, empty_store) (u \<union> {tok}, s1)"
    using call [OF assms(1), of "Claim now lease m ex tok"] assms(2,3) by simp
  then have inv: "delivery_inv (insert tok u, s1)" using delivery_run_inv empty_store_inv by fastforce
  have more: "fst us \<subseteq> fst vt" if "delivery_run sha real us vt" for us vt
    using that by (induction rule: delivery_run.induct) auto
  have lease: "dj_lease j = Some tok" "tok \<in> v" using claim_lease [OF assms(2)] more [OF assms(4)] by auto
  have invt: "delivery_inv (v, t)" using delivery_run_inv [OF assms(4) inv] .
  have "free_of (packet_id (dj_packet j)) (dj_lease j) (w, z)"
    using delivery_run_free [OF assms(8) delivery_inv_call [OF invt] ends_lease_free [OF invt lease assms(6,5)]] .
  then show ?thesis by (rule settle_free)
qed

theorem stale_worker_cannot_settle_witness:
  "\<exists>z. fst (settle demo_job (js ''delivered'') 1 None (Some (receipt_for demo_packet demo_instant)) demo_claimed) = Ok True \<and>
     z = snd (settle demo_job (js ''delivered'') 1 None (Some (receipt_for demo_packet demo_instant)) demo_claimed) \<and>
     snd (settle demo_job (js ''failed'') 2 None None z) = z \<and> fst (settle demo_job (js ''failed'') 2 None None z) \<noteq> Ok True"
proof -
  let ?op = "Settle demo_job (js ''delivered'') 1 None (Some (receipt_for demo_packet demo_instant))"
  have ends: "ends_lease demo_sha demo_real demo_job ?op demo_claimed" by (simp add: ends_lease_def demo_settle)
  have "snd (settle demo_job (js ''failed'') 2 None None (perform demo_sha demo_real ?op demo_claimed)) = perform demo_sha demo_real ?op demo_claimed \<and>
     fst (settle demo_job (js ''failed'') 2 None None (perform demo_sha demo_real ?op demo_claimed)) \<noteq> Ok True"
    by (rule stale_worker_cannot_settle [OF demo_claimed_run(1) demo_claim _ none ends _ _ none]) simp_all
  then show ?thesis using demo_settle by simp
qed

text \<open>
  C34. A message is received exactly once.  After a packet was accepted, a packet with the same source and
  delivery id gets the same receipt whenever it comes again, or is refused as a conflict when its digest
  differs; neither changes the tables, and there is one row for it in the inbox.
\<close>

theorem received_exactly_once:
  assumes "delivery_run sha real ({}, empty_store) (u, s)"
    and "js_value real p" and "iso_instant now" and "receive sha real p now s = (Ok v, s')"
    and "delivery_run sha real (u, s') (w, t)"
    and "packet_ok sha q" and "packet_source q = packet_source p" and "packet_id q = packet_id p"
  shows "receive sha real q now2 t =
      (if packet_digest q = packet_digest p then Ok v else delivery_fail ''DELIVERY_ID_CONFLICT'' 409, t)
    \<and> length (filter (\<lambda>r. ib_source r = packet_source p \<and> ib_delivery r = packet_id p) (inbox t)) = 1"
proof -
  have p: "packet_ok sha p" using assms(4) by (rule received_packet_ok)
  obtain r x where r: "find (sent_before p) (inbox s') = Some r" "ib_payload r = packet_digest p" "received sha real r = Ok (x, v)"
    using receive_finds [OF p assms(2,3,4)] by blast
  have run: "delivery_run sha real ({}, empty_store) (u, s')"
    using call [OF assms(1), of "Receive p now"] assms(2,3,4) by simp
  have inv: "delivery_inv (w, t)" by (rule delivery_run_inv [OF assms(5) delivery_run_inv [OF run empty_store_inv]])
  have found: "find (sent_before p) (inbox t) = Some r" using run_keeps_found [OF assms(5), of "sent_before p" r] r(1) by simp
  have same: "sent_before q = sent_before p" using assms(7,8) by (simp add: sent_before_def fun_eq_iff)
  have "receive sha real q now2 t = (if packet_digest q = packet_digest p then Ok v else delivery_fail ''DELIVERY_ID_CONFLICT'' 409, t)"
    using receive_cases [OF assms(6), of real now2 t] found r(2,3) unfolding same by simp
  then show ?thesis using one_inbox_row [OF inv found] unfolding sent_before_def by simp
qed

theorem received_exactly_once_witness:
  "\<exists>v s. receive demo_sha demo_real demo_packet demo_instant empty_store = (Ok v, s) \<and> s \<noteq> empty_store \<and>
     receive demo_sha demo_real demo_packet demo_instant s = (Ok v, s)"
proof -
  obtain v s where got: "receive demo_sha demo_real demo_packet demo_instant empty_store = (Ok v, s)" and "s \<noteq> empty_store"
    using receive_cases [OF demo_packet_ok, of demo_real demo_instant empty_store] by (simp add: empty_store_def)
  then show ?thesis
    using received_exactly_once [OF none demo_packet_value demo_instant got none demo_packet_ok refl refl, of demo_instant] by auto
qed

end
