(* ===== verification/Adoption.thy ===== *)
theory Adoption
  imports ReviewBase LocalLedger
begin

text \<open>
  \<open>packages/measurement/adoption.ts\<close>: the measurement of a pilot from the events of a journal and a log
  of observations.  \<open>Date.parse\<close> is an argument that gives milliseconds, or nothing for \<open>NaN\<close>; a
  quotient of numbers is kept as numerator and denominator here, where the code rounds it to a double.
\<close>

section \<open>The observation log\<close>

datatype adoption_error = AdoptionInputError | AdoptionTypeError

type_synonym 'a ares = "(adoption_error, 'a) result"

type_synonym date_fn = "jstr \<Rightarrow> int option"

definition max_observations :: nat where
  "max_observations = 1000"

definition observation_kinds :: "string list" where
  "observation_kinds = [''interpretation_mixing'', ''review_question'', ''disclosure_burden'']"

text \<open>\<open>boundedText(value, max)\<close>\<close>

definition control_unit :: "cunit \<Rightarrow> bool" where
  "control_unit u \<longleftrightarrow> unat u \<le> 0x1F \<or> unat u = 0x7F"

definition bounded_text :: "json \<Rightarrow> nat \<Rightarrow> jstr ares" where
  "bounded_text v m = (case v of
     JStr s \<Rightarrow> if blank_text s \<or> m < length s \<or> list_ex control_unit s then Err AdoptionInputError else Ok s
   | _ \<Rightarrow> Err AdoptionInputError)"

text \<open>
  \<open>ISO_PATTERN\<close>: the nineteen characters of date and time, fraction digits if there are any, and \<open>Z\<close>,
  \<open>z\<close> or an offset.
\<close>

definition date_time_shape :: "jstr \<Rightarrow> bool" where
  "date_time_shape s \<longleftrightarrow> 19 \<le> length s \<and>
     list_all (\<lambda>i. is_digit_unit (s ! i)) [0, 1, 2, 3, 5, 6, 8, 9, 11, 12, 14, 15, 17, 18] \<and>
     s ! 4 = 45 \<and> s ! 7 = 45 \<and> s ! 10 \<in> {84, 116} \<and> s ! 13 = 58 \<and> s ! 16 = 58"

definition after_fraction :: "jstr \<Rightarrow> jstr" where
  "after_fraction s = (case s of
     u # v # r \<Rightarrow> if u = 46 \<and> is_digit_unit v then dropWhile is_digit_unit r else s
   | _ \<Rightarrow> s)"

definition zone_valid :: "jstr \<Rightarrow> bool" where
  "zone_valid s \<longleftrightarrow> s = [90] \<or> s = [122] \<or>
     (length s = 6 \<and> s ! 0 \<in> {43, 45} \<and> s ! 3 = 58 \<and> list_all (\<lambda>i. is_digit_unit (s ! i)) [1, 2, 4, 5] \<and>
      digits_at s 1 2 \<le> 23 \<and> digits_at s 4 2 \<le> 59)"

definition iso_time :: "date_fn \<Rightarrow> json \<Rightarrow> jstr ares" where
  "iso_time date v = (case v of
     JStr s \<Rightarrow>
       if date_time_shape s \<and> zone_valid (after_fraction (drop 19 s)) \<and>
          (let y = digits_at s 0 4; m = digits_at s 5 2; d = digits_at s 8 2 in
             1 \<le> m \<and> m \<le> 12 \<and> 1 \<le> d \<and> d \<le> days_in_month y m \<and>
             digits_at s 11 2 \<le> 23 \<and> digits_at s 14 2 \<le> 59 \<and> digits_at s 17 2 \<le> 59) \<and> date s \<noteq> None
       then Ok s else Err AdoptionInputError
   | _ \<Rightarrow> Err AdoptionInputError)"

record observation =
  on_kind :: jstr
  on_subject :: jstr
  on_at :: jstr
  on_detail :: "jstr option"

record observation_log =
  log_pilot :: jstr
  log_concept :: jstr
  log_workflow :: jstr
  log_observations :: "observation list"

definition validate_observation :: "date_fn \<Rightarrow> json \<Rightarrow> observation ares" where
  "validate_observation date v =
     (if \<not> (field_names v [''at'', ''kind'', ''subject''] \<or> field_names v [''at'', ''detail'', ''kind'', ''subject'']) then Err AdoptionInputError
      else case fld v ''kind'' of
        JStr kd \<Rightarrow>
          if kd \<notin> js ` set observation_kinds then Err AdoptionInputError
          else rbind (bounded_text (fld v ''subject'') 200) (\<lambda>subject.
               rbind (iso_time date (fld v ''at'')) (\<lambda>at.
               rbind (if fld v ''detail'' = JUndef then Ok None else rmap Some (bounded_text (fld v ''detail'') 2000)) (\<lambda>detail.
               Ok \<lparr>on_kind = kd, on_subject = subject, on_at = at, on_detail = detail\<rparr>)))
      | _ \<Rightarrow> Err AdoptionInputError)"

definition validate_observation_log :: "date_fn \<Rightarrow> json \<Rightarrow> observation_log ares" where
  "validate_observation_log date v =
     (if \<not> field_names v [''concept'', ''observations'', ''pilot_id'', ''schema_version'', ''workflow''] \<or>
         fld v ''schema_version'' \<noteq> JNum (NInt 1) then Err AdoptionInputError
      else case fld v ''observations'' of
        JArr xs \<Rightarrow>
          if max_observations < length xs then Err AdoptionInputError
          else rbind (mapR (validate_observation date) xs) (\<lambda>observations.
               rbind (bounded_text (fld v ''pilot_id'') 128) (\<lambda>pilot.
               rbind (bounded_text (fld v ''concept'') 200) (\<lambda>cpt.
               rbind (bounded_text (fld v ''workflow'') 200) (\<lambda>workflow.
               Ok \<lparr>log_pilot = pilot, log_concept = cpt, log_workflow = workflow, log_observations = observations\<rparr>))))
      | _ \<Rightarrow> Err AdoptionInputError)"

section \<open>Counting the journal\<close>

datatype quotient = Over int int

record agreement_timing =
  at_agreement :: jstr
  at_proposal :: json
  at_revision :: json
  at_proposed :: jstr
  at_activated :: jstr
  at_millis :: int

record tally =
  ta_proposals :: "(jstr \<times> json) list"
  ta_timings :: "agreement_timing list"
  ta_active :: "jstr list"
  ta_status :: "jstr \<rightharpoonup> jstr"
  ta_decided :: "jstr list"
  ta_digests :: "jstr list"
  ta_revisions :: nat
  ta_with_deps :: nat
  ta_refs :: nat
  ta_decisions :: nat
  ta_approvals :: nat
  ta_objections :: nat
  ta_retractions :: nat
  ta_withdrawals :: nat

definition no_tally :: tally where
  "no_tally = \<lparr>ta_proposals = [], ta_timings = [], ta_active = [], ta_status = Map.empty, ta_decided = [], ta_digests = [],
     ta_revisions = 0, ta_with_deps = 0, ta_refs = 0, ta_decisions = 0, ta_approvals = 0, ta_objections = 0, ta_retractions = 0,
     ta_withdrawals = 0\<rparr>"

definition add_once :: "jstr \<Rightarrow> jstr list \<Rightarrow> jstr list" where
  "add_once x xs = (if x \<in> set xs then xs else xs @ [x])"

text \<open>\<open>const [key, value] = write\<close>, with a value that is no object read as an empty one.\<close>

definition record_of :: "json \<Rightarrow> (json \<times> json) ares" where
  "record_of w = (case w of
     JArr xs \<Rightarrow> Ok (case xs of [] \<Rightarrow> JUndef | k # _ \<Rightarrow> k, case xs of _ # (JObj kvs) # _ \<Rightarrow> JObj kvs | _ # (JArr ys) # _ \<Rightarrow> JArr ys | _ \<Rightarrow> JObj [])
   | JStr s \<Rightarrow> Ok (case code_points s of [] \<Rightarrow> JUndef | c # _ \<Rightarrow> JStr (cp_units c), JObj [])
   | _ \<Rightarrow> Err AdoptionTypeError)"

definition key_of_kind :: "key_kind \<Rightarrow> jstr \<Rightarrow> bool" where
  "key_of_kind kd k \<longleftrightarrow> take (length (key_prefix kd) + 1) k = key_prefix kd @ [58]"

fun text_in :: "json \<Rightarrow> jstr option" where
  "text_in (JStr s) = Some s"
| "text_in v = None"

text \<open>The \<open>seconds\<close> of a sample.\<close>

definition seconds :: "agreement_timing \<Rightarrow> quotient" where
  "seconds x = Over (at_millis x) 1000"

text \<open>An agreement that becomes active for the first time gives a sample, if both times are there and in order.\<close>

definition sample :: "date_fn \<Rightarrow> jstr \<Rightarrow> json \<Rightarrow> tally \<Rightarrow> agreement_timing option" where
  "sample date aid v t =
     (case Option.bind (text_in (fld v ''proposal_id'')) (map_of (ta_proposals t)) of
        None \<Rightarrow> None
      | Some p \<Rightarrow>
          (case (text_in (fld p ''created_at''), text_in (fld v ''activated_at'')) of
             (Some proposed, Some activated) \<Rightarrow>
               (case (date activated, date proposed) of
                  (Some a, Some b) \<Rightarrow>
                    if 0 \<le> a - b
                    then Some \<lparr>at_agreement = aid, at_proposal = fld v ''proposal_id'', at_revision = fld v ''revision_digest'',
                           at_proposed = proposed, at_activated = activated, at_millis = a - b\<rparr>
                    else None
                | _ \<Rightarrow> None)
           | _ \<Rightarrow> None))"

definition count_agreement :: "date_fn \<Rightarrow> jstr \<Rightarrow> jstr \<Rightarrow> json \<Rightarrow> tally \<Rightarrow> tally" where
  "count_agreement date aid status v t =
     (let previous = ta_status t aid; t = t\<lparr>ta_status := (ta_status t)(aid \<mapsto> status)\<rparr> in
      if status = js ''active'' \<and> aid \<notin> set (ta_active t) then
        (case sample date aid v t of
           None \<Rightarrow> t
         | Some s \<Rightarrow> t\<lparr>ta_active := ta_active t @ [aid], ta_timings := ta_timings t @ [s]\<rparr>)
      else if status \<in> {js ''withdrawn'', js ''suspended''} \<and> previous \<noteq> Some status
      then t\<lparr>ta_withdrawals := ta_withdrawals t + 1\<rparr> else t)"

definition count_decision :: "jstr \<Rightarrow> json \<Rightarrow> tally \<Rightarrow> tally" where
  "count_decision k v t =
     (if k \<in> set (ta_decided t) then t
      else let t = t\<lparr>ta_decided := ta_decided t @ [k], ta_decisions := ta_decisions t + 1\<rparr>; d = fld v ''decision'' in
        if d = JStr (js ''approve'') then t\<lparr>ta_approvals := ta_approvals t + 1\<rparr>
        else if d = JStr (js ''object'') then t\<lparr>ta_objections := ta_objections t + 1\<rparr>
        else if d = JStr (js ''retract'') then t\<lparr>ta_retractions := ta_retractions t + 1\<rparr> else t)"

definition self_mark :: "json \<Rightarrow> jstr" where
  "self_mark digest = js ''self:'' @ js_string digest"

definition count_revision :: "json \<Rightarrow> tally \<Rightarrow> tally" where
  "count_revision v t =
     (let mark = self_mark (fld v ''revision_digest'') in
      if mark \<in> set (ta_digests t) then t
      else let deps = (case fld (fld v ''payload'') ''dependencies'' of JArr xs \<Rightarrow> xs | _ \<Rightarrow> []) in
        t\<lparr>ta_digests := fold (\<lambda>d ds. case text_in (fld d ''revision_digest'') of None \<Rightarrow> ds | Some s \<Rightarrow> add_once s ds) deps
            (ta_digests t @ [mark]),
          ta_revisions := ta_revisions t + 1, ta_with_deps := ta_with_deps t + (if deps = [] then 0 else 1),
          ta_refs := ta_refs t + length deps\<rparr>)"

text \<open>One write: the chain of \<open>else if\<close>, each branch of which asks for the kind of the key and of the record.\<close>

definition new_proposal_id :: "jstr \<Rightarrow> json \<Rightarrow> tally \<Rightarrow> jstr option" where
  "new_proposal_id k v t =
     (if key_of_kind KProposal k \<and> fld v ''record_type'' = JStr (js ''AgreementProposal'') then
        (case text_in (fld v ''proposal_id'') of
           None \<Rightarrow> None
         | Some i \<Rightarrow> if i \<in> fst ` set (ta_proposals t) then None else Some i)
      else None)"

definition count_record :: "date_fn \<Rightarrow> jstr \<Rightarrow> json \<Rightarrow> tally \<Rightarrow> tally" where
  "count_record date k v t =
     (case new_proposal_id k v t of
        Some i \<Rightarrow> t\<lparr>ta_proposals := ta_proposals t @ [(i, v)]\<rparr>
      | None \<Rightarrow>
          (case (if key_of_kind KAgreement k then (text_in (fld v ''agreement_id''), text_in (fld v ''status'')) else (None, None)) of
             (Some aid, Some status) \<Rightarrow> count_agreement date aid status v t
           | _ \<Rightarrow>
               if key_of_kind KDecision k \<and> fld v ''contract_type'' = JStr (js ''ApprovalDecision'') then count_decision k v t
               else if key_of_kind KRevision k \<and> fld (fld v ''payload'') ''contract_type'' = JStr (js ''DocumentRevision'')
               then count_revision v t else t))"

definition count_write :: "date_fn \<Rightarrow> json \<Rightarrow> tally \<Rightarrow> tally ares" where
  "count_write date w t = rbind (record_of w) (\<lambda>(k, v). case k of JStr k \<Rightarrow> Ok (count_record date k v t) | _ \<Rightarrow> Err AdoptionTypeError)"

definition count_event :: "date_fn \<Rightarrow> json \<Rightarrow> tally \<Rightarrow> tally ares" where
  "count_event date ev t = (case fld ev ''writes'' of
     JArr ws \<Rightarrow> foldR (count_write date) ws t
   | _ \<Rightarrow> Err AdoptionInputError)"

section \<open>The measurement\<close>

text \<open>The median of the seconds, from sorted milliseconds.\<close>

definition median :: "int list \<Rightarrow> quotient option" where
  "median xs = (if xs = [] then None
     else let middle = length xs div 2 in
       Some (if odd (length xs) then Over (xs ! middle) 1000 else Over (xs ! (middle - 1) + xs ! middle) 2000))"

record measured_window =
  mw_events :: nat
  mw_channel :: json
  mw_first_at :: json
  mw_last_at :: json
  mw_first_sequence :: json
  mw_last_sequence :: json
  mw_tip :: json

record measurement =
  me_pilot :: "jstr \<times> jstr \<times> jstr"
  me_window :: measured_window
  me_evidence :: json
  me_samples :: "agreement_timing list"
  me_median :: "quotient option"
  me_proposals :: nat
  me_decisions :: nat
  me_approvals :: nat
  me_objections :: nat
  me_retractions :: nat
  me_withdrawals :: nat
  me_revisions :: nat
  me_with_deps :: nat
  me_refs :: nat
  me_reused :: nat
  me_ratio :: "quotient option"
  me_mixing :: nat
  me_questions :: nat
  me_burden :: nat

text \<open>A property that the result leaves out is \<open>JUndef\<close> here.\<close>

definition window_of :: "json list \<Rightarrow> json \<Rightarrow> measured_window" where
  "window_of evs channel =
     (let cp = (\<lambda>ev n. fld (fld ev ''checkpoint'') n) in
      \<lparr>mw_events = length evs,
       mw_channel = (if channel \<noteq> JUndef \<and> channel \<noteq> JNull then channel else if evs = [] then JUndef else cp (hd evs) ''channel_id''),
       mw_first_at = (if evs = [] then JUndef else fld (hd evs) ''timestamp''),
       mw_last_at = (if evs = [] then JUndef else fld (last evs) ''timestamp''),
       mw_first_sequence = (if evs = [] then JUndef else cp (hd evs) ''block_number''),
       mw_last_sequence = (if evs = [] then JUndef else cp (last evs) ''block_number''),
       mw_tip = (if evs = [] then JUndef else cp (last evs) ''block_hash'')\<rparr>)"

definition count_kind :: "string \<Rightarrow> observation_log \<Rightarrow> nat" where
  "count_kind kd lg = length (filter (\<lambda>x. on_kind x = js kd) (log_observations lg))"

definition report :: "observation_log \<Rightarrow> json list \<Rightarrow> json \<Rightarrow> json \<Rightarrow> tally \<Rightarrow> measurement" where
  "report lg evs channel evidence t =
     \<lparr>me_pilot = (log_pilot lg, log_concept lg, log_workflow lg), me_window = window_of evs channel, me_evidence = evidence,
      me_samples = ta_timings t, me_median = median (sort (map at_millis (ta_timings t))),
      me_proposals = length (ta_proposals t), me_decisions = ta_decisions t, me_approvals = ta_approvals t,
      me_objections = ta_objections t, me_retractions = ta_retractions t, me_withdrawals = ta_withdrawals t,
      me_revisions = ta_revisions t, me_with_deps = ta_with_deps t, me_refs = ta_refs t,
      me_reused = length (filter (\<lambda>d. take 5 d \<noteq> js ''self:'') (ta_digests t)),
      me_ratio = (if ta_revisions t = 0 then None else Some (Over (int (ta_with_deps t)) (int (ta_revisions t)))),
      me_mixing = count_kind ''interpretation_mixing'' lg, me_questions = count_kind ''review_question'' lg,
      me_burden = length (filter (\<lambda>x. on_kind x \<noteq> js ''interpretation_mixing'' \<and> on_kind x \<noteq> js ''review_question'') (log_observations lg))\<rparr>"

definition measure_adoption :: "date_fn \<Rightarrow> json list \<Rightarrow> json \<Rightarrow> json \<Rightarrow> json \<Rightarrow> measurement ares" where
  "measure_adoption date evs input channel evidence =
     rbind (validate_observation_log date input) (\<lambda>lg.
     rbind (foldR (count_event date) evs no_tally) (\<lambda>t. Ok (report lg evs channel evidence t)))"

end
