(* ===== verification/AdoptionCounts.thy ===== *)
theory AdoptionCounts
  imports Adoption Durability
begin

text \<open>
  The measurement of a journal that the local ledger wrote: it succeeds, and it counts what the state of the
  ledger holds, one proposal, decision and revision for every stored one.
\<close>

section \<open>Keys of a kind\<close>

lemma key_of_kind_state_key [simp]:
  "key_of_kind kd (state_key kd' (p # ps)) \<longleftrightarrow> kd = kd'"
proof -
  define kcl where "kcl = js ''kcl:v1:''"
  have pre: "key_prefix k = kcl @ js (kind_name k)" for k by (simp add: key_prefix_def kcl_def js_def)
  have key: "state_key kd' (p # ps) = kcl @ js (kind_name kd') @ 58 # join_on 58 (map percent (p # ps))"
    by (simp add: state_key_def pre)
  have "key_of_kind kd (state_key kd' (p # ps)) \<longleftrightarrow>
      take (length (js (kind_name kd)) + 1) (js (kind_name kd') @ 58 # join_on 58 (map percent (p # ps))) = js (kind_name kd) @ [58]"
    unfolding key_of_kind_def key pre by simp
  also have "\<dots> \<longleftrightarrow> kd = kd'"
  proof
    assume t: "take (length (js (kind_name kd)) + 1) (js (kind_name kd') @ 58 # join_on 58 (map percent (p # ps))) = js (kind_name kd) @ [58]"
    obtain rest where split: "js (kind_name kd') @ 58 # join_on 58 (map percent (p # ps)) = (js (kind_name kd) @ [58]) @ rest"
      using t by (metis append_take_drop_id)
    have "hd (split_on 58 (js (kind_name kd') @ 58 # join_on 58 (map percent (p # ps)))) = js (kind_name kd')"
      by (subst split_on_append [OF kind_name_no_colon]) simp
    moreover have "hd (split_on 58 ((js (kind_name kd) @ [58]) @ rest)) = js (kind_name kd)"
      unfolding append_assoc by (subst split_on_append [OF kind_name_no_colon]) simp
    ultimately show "kd = kd'" unfolding split by simp
  next
    assume "kd = kd'"
    then show "take (length (js (kind_name kd)) + 1) (js (kind_name kd') @ 58 # join_on 58 (map percent (p # ps))) = js (kind_name kd) @ [58]"
      by simp
  qed
  finally show ?thesis .
qed

text \<open>The kind of a key that the storage accepts is the one that its text shows.\<close>

lemma key_of_kind_split:
  assumes "key_of_kind kd k"
  shows "\<exists>rest. split_on 58 k = js ''kcl'' # js ''v1'' # js (kind_name kd) # rest"
proof -
  have "k = (key_prefix kd @ [58]) @ drop (length (key_prefix kd) + 1) k"
    using assms unfolding key_of_kind_def by (metis append_take_drop_id)
  then obtain r where k: "k = js ''kcl'' @ 58 # js ''v1'' @ 58 # js (kind_name kd) @ 58 # r"
    by (auto simp: key_prefix_def js_def cu_def)
  have "split_on 58 (js ''kcl'' @ s) = (js ''kcl'' @ hd (split_on 58 s)) # tl (split_on 58 s)"
    "split_on 58 (js ''v1'' @ s) = (js ''v1'' @ hd (split_on 58 s)) # tl (split_on 58 s)" for s
    by (rule split_on_append, simp add: js_def cu_def)+
  then show ?thesis unfolding k using split_on_append [OF kind_name_no_colon, of kd "58 # r"] by simp
qed

lemma valid_of_kind:
  assumes "validate_state_write sha k v" and "key_of_kind kd k"
  shows "\<exists>tail. write_schema sha (js (kind_name kd)) tail k v"
  using assms(1) key_of_kind_split [OF assms(2)]
  by (auto simp: validate_state_write_def parse_key_def split: option.splits if_splits)

lemma valid_proposal:
  assumes "validate_state_write sha k v" and "key_of_kind KProposal k"
  shows "\<exists>i. k = key_proposal i \<and> fld v ''proposal_id'' = JStr i \<and> fld v ''record_type'' = JStr (js ''AgreementProposal'')"
  using valid_of_kind [OF assms] by (auto simp: write_schema_def filed_def validate_proposal_def split: result.splits)

lemma valid_decision:
  assumes "validate_state_write sha k v" and "key_of_kind KDecision k"
  shows "fld v ''contract_type'' = JStr (js ''ApprovalDecision'')"
  using valid_of_kind [OF assms] by (auto simp: write_schema_def filed_def validate_decision_def split: result.splits)

lemma valid_dependency: "validate_dependency ch d = Ok x \<Longrightarrow> \<exists>s. fld d ''revision_digest'' = JStr s \<and> is_digest s"
  by (auto simp: validate_dependency_def)

lemma valid_revision:
  assumes "validate_state_write sha k v" and "key_of_kind KRevision k"
  shows "\<exists>d deps. k = key_revision d \<and> fld v ''revision_digest'' = JStr d \<and> fld (fld v ''payload'') ''contract_type'' = JStr (js ''DocumentRevision'') \<and>
    fld (fld v ''payload'') ''dependencies'' = JArr deps \<and> (\<forall>x \<in> set deps. \<exists>s. fld x ''revision_digest'' = JStr s \<and> is_digest s)"
proof -
  obtain r where r: "validate_revision sha v = Ok r" and k: "k = key_revision (rv_digest r)"
    using valid_of_kind [OF assms] by (auto simp: write_schema_def filed_def split: result.splits)
  obtain p where p: "validate_payload (fld v ''payload'') = Ok p" and d: "fld v ''revision_digest'' = JStr (rv_digest r)"
    using r by (auto simp: validate_revision_def)
  obtain ch deps raw where raw: "fld (fld v ''payload'') ''dependencies'' = JArr raw" "mapR (validate_dependency ch) raw = Ok deps"
    and ct: "fld (fld v ''payload'') ''contract_type'' = JStr (js ''DocumentRevision'')"
    using p by (auto simp: validate_payload_def)
  have "\<exists>s. fld x ''revision_digest'' = JStr s \<and> is_digest s" if "x \<in> set raw" for x
    using raw(2) that valid_dependency by (auto simp: mapR_Ok_iff list_all2_conv_all_nth in_set_conv_nth)
  then show ?thesis using k d raw(1) ct by blast
qed

section \<open>What is counted\<close>

definition of_kind :: "key_kind \<Rightarrow> jstr set \<Rightarrow> jstr set" where
  "of_kind kd K = {k \<in> K. key_of_kind kd k}"

lemma of_kind_insert [simp]: "of_kind kd (insert k K) = (if key_of_kind kd k then insert k (of_kind kd K) else of_kind kd K)"
  by (auto simp: of_kind_def)

lemma of_kind_iff: "k \<in> of_kind kd K \<longleftrightarrow> k \<in> K \<and> key_of_kind kd k"
  by (simp add: of_kind_def)

text \<open>The tally after a set of keys was written.\<close>

definition counts :: "jstr set \<Rightarrow> tally \<Rightarrow> bool" where
  "counts K t \<longleftrightarrow> finite K \<and>
     distinct (map fst (ta_proposals t)) \<and> key_proposal ` fst ` set (ta_proposals t) = of_kind KProposal K \<and>
     distinct (ta_decided t) \<and> set (ta_decided t) = of_kind KDecision K \<and> ta_decisions t = length (ta_decided t) \<and>
     ta_approvals t + ta_objections t + ta_retractions t \<le> ta_decisions t \<and>
     (\<forall>d. js ''self:'' @ d \<in> set (ta_digests t) \<longleftrightarrow> key_revision d \<in> K) \<and> ta_revisions t = card (of_kind KRevision K)"

lemma counts_empty: "counts {} no_tally"
  by (simp add: counts_def no_tally_def of_kind_def)

lemma kinds_of_keys [simp]:
  "key_of_kind kd (key_proposal i) \<longleftrightarrow> kd = KProposal" "key_of_kind kd (key_decision i) \<longleftrightarrow> kd = KDecision"
  "key_of_kind kd (key_revision i) \<longleftrightarrow> kd = KRevision" "key_of_kind kd (key_agreement i) \<longleftrightarrow> kd = KAgreement"
  by (auto simp: key_proposal_def key_decision_def key_revision_def key_agreement_def)

lemma one_kind: "key_of_kind kd k \<Longrightarrow> key_of_kind kd' k \<Longrightarrow> kd = kd'"
  using key_of_kind_split [of kd k] key_of_kind_split [of kd' k] by auto

lemma keys_inj [simp]: "key_proposal i = key_proposal j \<longleftrightarrow> i = j" "key_revision i = key_revision j \<longleftrightarrow> i = j"
  by (simp_all add: key_proposal_def key_revision_def)

lemma count_agreement_sel [simp]:
  "ta_proposals (count_agreement date a st v t) = ta_proposals t" "ta_decided (count_agreement date a st v t) = ta_decided t"
  "ta_digests (count_agreement date a st v t) = ta_digests t" "ta_revisions (count_agreement date a st v t) = ta_revisions t"
  "ta_decisions (count_agreement date a st v t) = ta_decisions t" "ta_approvals (count_agreement date a st v t) = ta_approvals t"
  "ta_objections (count_agreement date a st v t) = ta_objections t" "ta_retractions (count_agreement date a st v t) = ta_retractions t"
  by (auto simp: count_agreement_def Let_def split: option.splits)

lemma counts_agreement [simp]: "counts K (count_agreement date a st v t) = counts K t"
  by (simp add: counts_def)

lemma counts_other:
  assumes "counts K t" and "\<not> key_of_kind KProposal k" "\<not> key_of_kind KDecision k" "\<not> key_of_kind KRevision k"
  shows "counts (insert k K) t"
proof -
  have "key_revision d \<noteq> k" for d using assms(4) by auto
  then show ?thesis using assms unfolding counts_def by simp
qed

lemma counts_proposal:
  assumes "counts K t" and "i \<notin> fst ` set (ta_proposals t)"
  shows "counts (insert (key_proposal i) K) (t\<lparr>ta_proposals := ta_proposals t @ [(i, v)]\<rparr>)"
proof -
  have "key_revision d \<noteq> key_proposal i" for d using kinds_of_keys(1,3) by (metis key_kind.distinct(1) key_kind.simps)
  then show ?thesis using assms by (auto simp: counts_def)
qed

lemma counts_decision:
  assumes c: "counts K t" and k: "key_of_kind KDecision k"
  shows "counts (insert k K) (count_decision k v t)"
proof -
  have ne: "key_revision d \<noteq> k" "key_proposal d \<noteq> k" for d using k by auto
  have other: "\<not> key_of_kind KProposal k" "\<not> key_of_kind KRevision k" using one_kind [OF k] by blast+
  show ?thesis
  proof (cases "k \<in> set (ta_decided t)")
    case True
    then have "k \<in> K" using c by (simp add: counts_def of_kind_iff)
    then show ?thesis using c True by (simp add: count_decision_def insert_absorb)
  next
    case False
    then show ?thesis using c k other ne by (auto simp: counts_def count_decision_def Let_def)
  qed
qed

text \<open>The digests of dependencies carry no mark.\<close>

lemma unmarked:
  assumes "\<forall>x \<in> set deps. \<exists>s. fld x ''revision_digest'' = JStr s \<and> is_digest s"
  shows "js ''self:'' @ d \<in> set (fold (\<lambda>x ds. case text_in (fld x ''revision_digest'') of None \<Rightarrow> ds | Some s \<Rightarrow> add_once s ds) deps ds) \<longleftrightarrow>
    js ''self:'' @ d \<in> set ds"
  using assms
proof (induction deps arbitrary: ds)
  case (Cons x deps)
  then obtain s where s: "fld x ''revision_digest'' = JStr s" "is_digest s" by auto
  have "js ''self:'' @ d \<noteq> s"
  proof
    assume eq: "js ''self:'' @ d = s"
    have "take 7 s = js ''sha256:''" using s(2) by (simp add: is_digest_def)
    then have "s ! 1 = js ''sha256:'' ! 1" by (metis nth_take one_less_numeral_iff semiring_norm(77))
    then show False using eq by (auto simp: js_def)
  qed
  then show ?case using Cons s by (auto simp: add_once_def)
qed simp

lemma counts_revision:
  assumes c: "counts K t" and v: "fld v ''revision_digest'' = JStr d"
    and deps: "fld (fld v ''payload'') ''dependencies'' = JArr deps" "\<forall>x \<in> set deps. \<exists>s. fld x ''revision_digest'' = JStr s \<and> is_digest s"
  shows "counts (insert (key_revision d) K) (count_revision v t)"
proof (cases "js ''self:'' @ d \<in> set (ta_digests t)")
  case True
  then have "key_revision d \<in> K" using c by (simp add: counts_def)
  then show ?thesis using c True v by (simp add: count_revision_def self_mark_def insert_absorb)
next
  case False
  then have "key_revision d \<notin> of_kind KRevision K" and "finite (of_kind KRevision K)" using c by (auto simp: counts_def of_kind_def)
  then have "card (insert (key_revision d) (of_kind KRevision K)) = card (of_kind KRevision K) + 1" by simp
  then show ?thesis using c False v deps(1) unmarked [OF deps(2)]
    by (simp add: counts_def count_revision_def self_mark_def Let_def)
qed

lemma counts_write:
  assumes valid: "validate_state_write sha k v" and c: "counts K t"
    and same: "key_of_kind KProposal k \<or> key_of_kind KDecision k \<or> key_of_kind KRevision k \<Longrightarrow> w = v"
  shows "counts (insert k K) (count_record date k w t)"
proof -
  consider i where "k = key_proposal i" "fld v ''proposal_id'' = JStr i" "fld v ''record_type'' = JStr (js ''AgreementProposal'')"
    | "key_of_kind KDecision k" "fld v ''contract_type'' = JStr (js ''ApprovalDecision'')"
    | "key_of_kind KRevision k"
    | "\<not> key_of_kind KProposal k" "\<not> key_of_kind KDecision k" "\<not> key_of_kind KRevision k"
    using valid_proposal [OF valid] valid_decision [OF valid] by blast
  then show ?thesis
  proof cases
    case 1
    then have w: "w = v" using same by simp
    show ?thesis
    proof (cases "i \<in> fst ` set (ta_proposals t)")
      case True
      then have "k \<in> K" using c 1(1) by (auto simp: counts_def of_kind_def)
      then show ?thesis using c 1 True by (simp add: w count_record_def new_proposal_id_def insert_absorb)
    next
      case False
      then show ?thesis using counts_proposal [OF c False] 1 by (simp add: w count_record_def new_proposal_id_def)
    qed
  next
    case 2
    have "\<not> key_of_kind KProposal k" "\<not> key_of_kind KAgreement k" using one_kind [OF 2(1)] by blast+
    then show ?thesis using counts_decision [OF c 2(1)] same 2 by (simp add: count_record_def new_proposal_id_def)
  next
    case 3
    have "\<not> key_of_kind KProposal k" "\<not> key_of_kind KAgreement k" "\<not> key_of_kind KDecision k" using one_kind [OF 3] by blast+
    moreover obtain d deps where "k = key_revision d" "fld v ''revision_digest'' = JStr d"
      "fld (fld v ''payload'') ''contract_type'' = JStr (js ''DocumentRevision'')"
      "fld (fld v ''payload'') ''dependencies'' = JArr deps" "\<forall>x \<in> set deps. \<exists>s. fld x ''revision_digest'' = JStr s \<and> is_digest s"
      using valid_revision [OF valid 3] by blast
    ultimately show ?thesis using counts_revision [OF c] same by (simp add: count_record_def new_proposal_id_def)
  next
    case 4
    then show ?thesis using counts_other [OF c 4] by (auto simp: count_record_def new_proposal_id_def split: option.splits)
  qed
qed

lemma fld_object: "fld v n = JStr s \<Longrightarrow> \<exists>kvs. v = JObj kvs"
  by (cases v) (simp_all add: fld_def)

lemma record_of_entry:
  assumes "write_entry w = Ok (k, v)" and "validate_state_write sha k v"
  shows "\<exists>v'. record_of w = Ok (JStr k, v') \<and>
    (key_of_kind KProposal k \<or> key_of_kind KDecision k \<or> key_of_kind KRevision k \<longrightarrow> v' = v)"
proof -
  obtain rest where w: "w = JArr (JStr k # rest)" "v = (case rest of v # _ \<Rightarrow> v | [] \<Rightarrow> JUndef)"
    using assms(1) by (auto simp: write_entry_def split: json.splits list.splits)
  obtain v' where r: "record_of w = Ok (JStr k, v')" using w(1) by (simp add: record_of_def)
  have "v' = v" if "key_of_kind KProposal k \<or> key_of_kind KDecision k \<or> key_of_kind KRevision k"
  proof -
    have "\<exists>n s. fld v n = JStr s"
      using that valid_proposal [OF assms(2)] valid_decision [OF assms(2)] valid_revision [OF assms(2)] by fast
    then obtain kvs where "v = JObj kvs" using fld_object by blast
    then show ?thesis using r w by (cases rest) (auto simp: record_of_def)
  qed
  then show ?thesis using r by blast
qed

abbreviation stored_keys :: "tables \<Rightarrow> jstr set" where
  "stored_keys tb \<equiv> fst ` set (projection tb)"

lemma counts_writes:
  "mapR write_entry ws = Ok writes \<Longrightarrow> foldR (apply_write sha real trusted block) writes tb = Ok tb' \<Longrightarrow> counts (stored_keys tb) t \<Longrightarrow>
   \<exists>t'. foldR (count_write date) ws t = Ok t' \<and> counts (stored_keys tb') t'"
proof (induction ws arbitrary: writes tb t)
  case (Cons w ws)
  obtain k v kvs where w: "write_entry w = Ok (k, v)" "mapR write_entry ws = Ok kvs" "writes = (k, v) # kvs"
    using Cons.prems(1) by auto
  obtain tb1 where tb1: "apply_write sha real trusted block (k, v) tb = Ok tb1" "foldR (apply_write sha real trusted block) kvs tb1 = Ok tb'"
    using Cons.prems(2) w(3) by auto
  have valid: "validate_state_write sha k v" and keys: "stored_keys tb1 = insert k (stored_keys tb)"
    using apply_write_Ok [OF tb1(1)] by (simp_all add: upsert_keys)
  obtain v' where v': "record_of w = Ok (JStr k, v')"
    and same: "key_of_kind KProposal k \<or> key_of_kind KDecision k \<or> key_of_kind KRevision k \<Longrightarrow> v' = v"
    using record_of_entry [OF w(1) valid] by blast
  have "counts (stored_keys tb1) (count_record date k v' t)" unfolding keys by (rule counts_write [OF valid Cons.prems(3) same])
  then obtain t' where "foldR (count_write date) ws (count_record date k v' t) = Ok t'" "counts (stored_keys tb') t'"
    using Cons.IH [OF w(2) tb1(2)] by blast
  then show ?case using v' count_write_def [of date w t] by auto
qed simp

definition has_writes :: "real_fn \<Rightarrow> journal_row \<Rightarrow> bool" where
  "has_writes real r \<longleftrightarrow> (\<exists>ev ws. parse_row real r = Ok ev \<and> fld ev ''writes'' = JArr ws)"

lemma counts_rows:
  "foldR (replay_row sha real) rows tb = Ok tb' \<Longrightarrow> \<forall>r \<in> set rows. has_writes real r \<Longrightarrow> mapR (parse_row real) rows = Ok evs \<Longrightarrow>
   counts (stored_keys tb) t \<Longrightarrow> \<exists>t'. foldR (count_event date) evs t = Ok t' \<and> counts (stored_keys tb') t'"
proof (induction rows arbitrary: tb evs t)
  case (Cons r rows)
  obtain ev evs' where ev: "parse_row real r = Ok ev" "mapR (parse_row real) rows = Ok evs'" "evs = ev # evs'"
    using Cons.prems(3) by auto
  obtain ws where ws: "fld ev ''writes'' = JArr ws" using Cons.prems(2) ev(1) by (auto simp: has_writes_def)
  obtain tb1 where tb1: "replay_row sha real r tb = Ok tb1" "foldR (replay_row sha real) rows tb1 = Ok tb'"
    using Cons.prems(1) by auto
  obtain writes block tb2 where "mapR write_entry ws = Ok writes" "foldR (apply_write sha real True block) writes tb = Ok tb2"
    "projection tb1 = projection tb2"
    using tb1(1) ev(1) ws by (auto simp: replay_row_def event_entries_def apply_event_def)
  then obtain t1 where "foldR (count_write date) ws t = Ok t1" "counts (stored_keys tb1) t1"
    using counts_writes [OF _ _ Cons.prems(4)] by metis
  moreover obtain t' where "foldR (count_event date) evs' t1 = Ok t'" "counts (stored_keys tb') t'"
    using Cons.IH [OF tb1(2) _ ev(2) calculation(2)] Cons.prems(2) by auto
  ultimately show ?case using ev(3) ws count_event_def [of date ev t] by auto
qed simp

text \<open>Every event of a run has its list of writes.\<close>

lemma committed_row:
  assumes "printable_writes real ws" and "commit_block sha real tx time previous ws l = Ok (cp, l')"
    and "next_block previous = (block, JStr hash)" and "\<bar>block\<bar> \<le> max_safe"
    and "r \<in> set (ll_journal l')" and "r \<notin> set (ll_journal l)"
  shows "has_writes real r"
proof -
  let ?ev = "signed_event sha (ll_channel l) block tx (JStr hash) time ws"
  have "r = \<lparr>row_seq = block, row_tx = tx, row_json = stringify ?ev\<rparr>"
    using assms(2,3,5,6) by (auto simp: commit_block_def Let_def insert_row_def set_insort_key split: if_splits)
  then have "parse_row real r = Ok ?ev" using signed_printable [OF assms(1) _ assms(4)] by (simp add: parse_row_def json_parse_printable)
  then show ?thesis by (auto simp: has_writes_def fld_signed)
qed

lemma run_has_writes: "ledger_run sha real channel l \<Longrightarrow> \<forall>r \<in> set (ll_journal l). has_writes real r"
proof (induction rule: ledger_run.induct)
  case (opened l)
  then show ?case by (auto simp: open_ledger_def fresh_file_def rebuild_projection_def)
next
  case (invoked l actor tx time rq res cp l')
  note run = ledger_runD [OF invoked.hyps(1)]
  obtain previous t where t: "ledger_checkpoint real l = Ok previous"
      "invoke sha (tx_context actor tx time l) rq (begin_tx (ledger_world sha real (ll_tables l))) = Ok (res, t)"
      "\<forall>w \<in> set (staged t). valid_write sha w = Ok ()"
      "commit_block sha real tx time previous (committed_writes (staged t)) l = Ok (cp, l')"
    using transact_parts [OF invoked.hyps(3) [unfolded ledger_invoke_transact]] by blast
  have ws: "printable_writes real (committed_writes (staged t))"
    using engine_writes_printable [OF t(2) run(4) t(3)] committed_subset [of "staged t"] by (auto simp: printable_writes_def)
  obtain hash where "next_block previous = (int (length (ll_journal l)) + 1, JStr hash)" using rebuilt_parts [OF run(1)] t(1) by auto
  then show ?case using committed_row [OF ws t(4)] invoked.IH invoked.hyps(2) by fastforce
next
  case (reopened l l')
  then show ?case using open_rebuilt ledger_runD(1,3) by (metis result.inject(2))
qed

section \<open>The measurement of a run\<close>

text \<open>
  C35. Measuring the journal of a local ledger succeeds on every accepted observation log, and its counts are
  those of the state that the ledger holds: as many proposals, decisions and revisions as are stored, however
  often their records were written again, and one event for every block.
\<close>

theorem measurement_counts_the_ledger:
  assumes "ledger_run sha real channel l" and "mapR (parse_row real) (ll_journal l) = Ok evs"
    and "validate_observation_log date input = Ok entries"
  shows "\<exists>a. measure_adoption date evs input ch evidence = Ok a \<and> mw_events (me_window a) = length (ll_journal l) \<and>
    me_proposals a = card {k \<in> dom (ledger_world sha real (ll_tables l)). key_of_kind KProposal k} \<and>
    me_decisions a = card {k \<in> dom (ledger_world sha real (ll_tables l)). key_of_kind KDecision k} \<and>
    me_revisions a = card {k \<in> dom (ledger_world sha real (ll_tables l)). key_of_kind KRevision k} \<and>
    me_approvals a + me_objections a + me_retractions a \<le> me_decisions a"
proof -
  note run = ledger_runD [OF assms(1)]
  obtain hash where parts: "foldR (replay_row sha real) (ll_journal l) no_tables = Ok (ll_tables l)"
      "in_sync (ll_tables l) (int (length (ll_journal l)))"
    using rebuilt_parts [OF run(1)] by auto
  have "counts (stored_keys no_tables) no_tally" by (simp add: no_tables_def counts_empty)
  then obtain t where t: "foldR (count_event date) evs no_tally = Ok t" "counts (stored_keys (ll_tables l)) t"
    using counts_rows [OF parts(1) run_has_writes [OF assms(1)] assms(2)] by blast
  have "k \<in> dom (ledger_world sha real (ll_tables l)) \<longleftrightarrow> k \<in> stored_keys (ll_tables l)" for k
  proof -
    obtain v where v: "read_latest sha real (ll_tables l) k = Ok v" using run(5) [of k] by (auto simp: is_ok_iff)
    have "read_latest sha real (ll_tables l) k = decode_row sha real k (map_of (projection (ll_tables l)) k)"
      using read_in_sync [OF parts(2)] by (simp add: read_current_def)
    then have "v \<noteq> None \<longleftrightarrow> map_of (projection (ll_tables l)) k \<noteq> None" using v by (auto simp: decode_row_def rmap_Ok_iff split: option.splits) (metis rmap_Ok_iff option.distinct(1))
    then show ?thesis using v by (auto simp: ledger_world_def dom_def map_of_eq_None_iff)
  qed
  then have kinds: "{k \<in> dom (ledger_world sha real (ll_tables l)). key_of_kind kd k} = of_kind kd (stored_keys (ll_tables l))" for kd
    by (auto simp: of_kind_def)
  have "length (ta_proposals t) = card (of_kind KProposal (stored_keys (ll_tables l)))"
  proof -
    have "length (ta_proposals t) = card (fst ` set (ta_proposals t))"
      using t(2) distinct_card [of "map fst (ta_proposals t)"] by (simp add: counts_def)
    also have "\<dots> = card (key_proposal ` fst ` set (ta_proposals t))" by (rule card_image [symmetric]) (simp add: inj_on_def)
    finally show ?thesis using t(2) by (simp add: counts_def)
  qed
  moreover have "ta_decisions t = card (of_kind KDecision (stored_keys (ll_tables l)))"
    using t(2) distinct_card [of "ta_decided t"] by (simp add: counts_def)
  ultimately show ?thesis using t mapR_length [OF assms(2)] unfolding kinds
    by (simp add: measure_adoption_def assms(3) report_def window_of_def counts_def)
qed

definition demo_log :: json where
  "demo_log = obj [(''concept'', JStr (js ''term'')),
     (''observations'', JArr [obj [(''at'', JStr (js ''2024-02-29T10:00:00.5+09:00'')), (''kind'', JStr (js ''review_question'')),
        (''subject'', JStr (js ''scope''))]]),
     (''pilot_id'', JStr (js ''pilot'')), (''schema_version'', JNum (NInt 1)), (''workflow'', JStr (js ''review''))]"

definition demo_time :: jstr where
  "demo_time = js ''2024-02-29T10:00:00.5+09:00''"

lemma demo_time: "iso_time (\<lambda>s. Some 0) (JStr demo_time) = Ok demo_time"
proof -
  have "date_time_shape demo_time" unfolding demo_time_def by code_simp
  moreover have "zone_valid (after_fraction (drop 19 demo_time))" unfolding demo_time_def by code_simp
  moreover have "digits_at demo_time 0 4 = 2024" "digits_at demo_time 5 2 = 2" "digits_at demo_time 8 2 = 29" "digits_at demo_time 11 2 = 10"
    "digits_at demo_time 14 2 = 0" "digits_at demo_time 17 2 = 0"
    unfolding demo_time_def by code_simp+
  ultimately show ?thesis by (simp add: iso_time_def days_in_month_def leap_year_def)
qed

lemma demo_observation: "validate_observation (\<lambda>s. Some 0)
    (obj [(''at'', JStr demo_time), (''kind'', JStr (js ''review_question'')), (''subject'', JStr (js ''scope''))]) =
  Ok \<lparr>on_kind = js ''review_question'', on_subject = js ''scope'', on_at = demo_time, on_detail = None\<rparr>"
proof -
  have "bounded_text (JStr (js ''scope'')) 200 = Ok (js ''scope'')"
    by (simp add: bounded_text_def blank_text_def js_def cu_def js_space_def control_unit_def)
  then show ?thesis by (simp add: validate_observation_def demo_time observation_kinds_def)
qed

lemma demo_log: "\<exists>entries. validate_observation_log (\<lambda>s. Some 0) demo_log = Ok entries"
proof -
  have "bounded_text (JStr (js ''pilot'')) 128 = Ok (js ''pilot'')" "bounded_text (JStr (js ''term'')) 200 = Ok (js ''term'')"
    "bounded_text (JStr (js ''review'')) 200 = Ok (js ''review'')"
    by (simp_all add: bounded_text_def blank_text_def js_def cu_def js_space_def control_unit_def)
  then show ?thesis
    by (simp add: validate_observation_log_def demo_log_def demo_observation [unfolded demo_time_def] max_observations_def)
qed

theorem measurement_counts_the_ledger_witness:
  "\<exists>res cp l evs a. demo_boot_invoke = Ok (res, cp, l) \<and> mapR (parse_row demo_real) (ll_journal l) = Ok evs \<and>
     measure_adoption (\<lambda>s. Some 0) evs demo_log JUndef JUndef = Ok a \<and> mw_events (me_window a) = length (ll_journal l)"
proof -
  obtain res cp l where l: "demo_boot_invoke = Ok (res, cp, l)" using demo_ledger_boot by (elim exE)
  note run = demo_booted [OF l]
  have "\<exists>evs. mapR (parse_row demo_real) (ll_journal l) = Ok evs"
    using run_has_writes [OF run] is_ok_mapR [of "parse_row demo_real" "ll_journal l"] by (auto simp: has_writes_def is_ok_iff)
  then obtain evs where evs: "mapR (parse_row demo_real) (ll_journal l) = Ok evs" by blast
  obtain entries where "validate_observation_log (\<lambda>s. Some 0) demo_log = Ok entries" using demo_log by blast
  then show ?thesis using measurement_counts_the_ledger [OF run evs, of "\<lambda>s. Some 0" demo_log entries JUndef JUndef] l evs by blast
qed

end
