(* ===== verification/ReviewRecords.thy ===== *)
theory ReviewRecords
  imports ReviewDelivery LocalLedger
begin

text \<open>
  \<open>packages/storage/review-store.ts\<close>: comments, review schedules, notifications and reminders, the
  advisory tables beside the ledger.  A table is the list of its rows; the values of events and
  schedules are stored as JSON text.  Fresh identifiers and the clock are arguments, and so is \<open>build\<close>,
  with which the caller of \<open>write\<close> turns the current schedule into a new event.
\<close>

section \<open>Records\<close>

definition record_corrupt :: "'a rres" where
  "record_corrupt = Err (ReviewStoreError ''REVIEW_RECORD_CORRUPT'' 503)"

lemma record_corrupt_not_Ok [simp]: "record_corrupt \<noteq> Ok x"
  by (simp add: record_corrupt_def)

text \<open>\<open>reviewPeople\<close>\<close>

definition id_coerced :: "json \<Rightarrow> bool" where
  "id_coerced v \<longleftrightarrow> is_id (js_string v)"

fun review_people :: "json \<Rightarrow> bool" where
  "review_people (JArr ps) = (length ps \<le> 16 \<and>
     list_all (\<lambda>p. field_names p [''actor_id'', ''org_id''] \<and> id_coerced (fld p ''org_id'') \<and> id_coerced (fld p ''actor_id'')) ps \<and>
     distinct (map (\<lambda>p. stringify (JArr [fld p ''org_id'', fld p ''actor_id''])) ps))"
| "review_people v = False"

definition safe_number :: "json \<Rightarrow> int \<Rightarrow> int \<Rightarrow> bool" where
  "safe_number v lo hi \<longleftrightarrow> (case v of JNum (NInt i) \<Rightarrow> lo \<le> i \<and> i \<le> hi | _ \<Rightarrow> False)"

text \<open>\<open>scheduleFrom(value, digest)\<close>\<close>

definition schedule_ok :: "json \<Rightarrow> jstr \<Rightarrow> bool" where
  "schedule_ok v digest \<longleftrightarrow>
     field_names v [''assignees'', ''completed_at'', ''due_at'', ''repeat_after_days'', ''revision_digest'', ''version''] \<and>
     fld v ''revision_digest'' = JStr digest \<and> is_digest digest \<and> safe_number (fld v ''version'') 1 max_safe \<and>
     review_people (fld v ''assignees'') \<and> fld v ''assignees'' \<noteq> JArr [] \<and>
     (fld v ''due_at'' = JNull \<or> is_instant (fld v ''due_at'')) \<and> (fld v ''completed_at'' = JNull \<or> is_instant (fld v ''completed_at'')) \<and>
     (fld v ''repeat_after_days'' = JNull \<or> (fld v ''due_at'' \<noteq> JNull \<and> safe_number (fld v ''repeat_after_days'') 1 3650))"

definition schedule_from :: "real_fn \<Rightarrow> jstr \<Rightarrow> jstr \<Rightarrow> json rres" where
  "schedule_from real text digest = (case json_parse real text of
     None \<Rightarrow> record_corrupt
   | Some v \<Rightarrow> if schedule_ok v digest then Ok v else record_corrupt)"

record event_row =
  ev_seq :: int
  ev_id :: jstr
  ev_digest :: jstr
  ev_org :: jstr
  ev_actor :: jstr
  ev_operation :: jstr
  ev_request :: jstr
  ev_json :: jstr

text \<open>\<open>eventFrom(row)\<close>\<close>

definition is_true_value :: "json \<Rightarrow> bool" where
  "is_true_value v \<longleftrightarrow> v \<notin> {JUndef, JNull, JBool False, JNum (NInt 0), JNum NNegZero, JNum (NBeyond (js ''NaN'')), JStr []}"

definition author_person :: "json \<Rightarrow> json" where
  "author_person v = (if is_true_value v then obj [(''org_id'', fld v ''org_id''), (''actor_id'', fld v ''actor_id'')] else v)"

definition event_ok :: "json \<Rightarrow> jstr \<Rightarrow> jstr \<Rightarrow> jstr \<Rightarrow> jstr \<Rightarrow> bool" where
  "event_ok e event_id digest org actor \<longleftrightarrow>
     field_names e [''author'', ''body'', ''created_at'', ''event_id'', ''kind'', ''mentions'', ''revision_digest'', ''schedule''] \<and>
     fld e ''event_id'' = JStr event_id \<and> fld e ''revision_digest'' = JStr digest \<and> is_digest digest \<and> is_id event_id \<and>
     is_instant (fld e ''created_at'') \<and> review_people (JArr [author_person (fld e ''author'')]) \<and>
     fld (fld e ''author'') ''org_id'' = JStr org \<and> fld (fld e ''author'') ''actor_id'' = JStr actor \<and>
     fld (fld e ''author'') ''kind'' \<in> {JStr (js ''human''), JStr (js ''agent'')} \<and>
     fld e ''kind'' \<in> {JStr (js ''comment''), JStr (js ''schedule''), JStr (js ''reviewed'')} \<and>
     is_body (fld e ''body'') \<and> review_people (fld e ''mentions'') \<and>
     (if fld e ''kind'' = JStr (js ''comment'') then fld e ''schedule'' = JNull
      else is_true_value (fld e ''schedule'') \<and> schedule_ok (fld e ''schedule'') digest)"

definition event_text :: "real_fn \<Rightarrow> jstr \<Rightarrow> jstr \<Rightarrow> jstr \<Rightarrow> jstr \<Rightarrow> jstr \<Rightarrow> json rres" where
  "event_text real text event_id digest org actor = (case json_parse real text of
     None \<Rightarrow> record_corrupt
   | Some e \<Rightarrow> if event_ok e event_id digest org actor then Ok e else record_corrupt)"

definition event_from :: "real_fn \<Rightarrow> event_row \<Rightarrow> json rres" where
  "event_from real r = event_text real (ev_json r) (ev_id r) (ev_digest r) (ev_org r) (ev_actor r)"

section \<open>Tables\<close>

record assignee_row =
  aw_digest :: jstr
  aw_org :: jstr
  aw_actor :: jstr
  aw_due :: "jstr option"

record notification_row =
  nt_seq :: int
  nt_event :: jstr
  nt_org :: jstr
  nt_actor :: jstr
  nt_read :: "jstr option"

record reminder_row =
  rm_seq :: int
  rm_id :: jstr
  rm_digest :: jstr
  rm_version :: int
  rm_org :: jstr
  rm_actor :: jstr
  rm_phase :: jstr
  rm_due :: jstr
  rm_created :: jstr
  rm_read :: "jstr option"

record review_tables =
  rt_events :: "event_row list"
  rt_event_seq :: int
  rt_schedules :: "(jstr \<times> jstr) list"
  rt_assignees :: "assignee_row list"
  rt_notices :: "notification_row list"
  rt_notice_seq :: int
  rt_reminders :: "reminder_row list"
  rt_reminder_seq :: int

definition empty_reviews :: review_tables where
  "empty_reviews = \<lparr>rt_events = [], rt_event_seq = 0, rt_schedules = [], rt_assignees = [], rt_notices = [], rt_notice_seq = 0,
     rt_reminders = [], rt_reminder_seq = 0\<rparr>"

record reviewer =
  rw_org :: jstr
  rw_actor :: jstr
  rw_kind :: jstr

abbreviation person_of_reviewer :: "reviewer \<Rightarrow> person" where
  "person_of_reviewer a \<equiv> (rw_org a, rw_actor a)"

definition enc_reviewer :: "reviewer \<Rightarrow> json" where
  "enc_reviewer a = obj [(''org_id'', JStr (rw_org a)), (''actor_id'', JStr (rw_actor a)), (''kind'', JStr (rw_kind a))]"

text \<open>\<open>schedule(digest)\<close>, \<open>event(id)\<close> and \<open>events(digest, page)\<close>\<close>

definition review_schedule :: "real_fn \<Rightarrow> jstr \<Rightarrow> review_tables \<Rightarrow> json option rres" where
  "review_schedule real digest s = (case map_of (rt_schedules s) digest of
     None \<Rightarrow> Ok None
   | Some text \<Rightarrow> rmap Some (schedule_from real text digest))"

definition review_event :: "real_fn \<Rightarrow> jstr \<Rightarrow> review_tables \<Rightarrow> json option rres" where
  "review_event real i s = (case find (\<lambda>r. ev_id r = i) (rt_events s) of
     None \<Rightarrow> Ok None
   | Some r \<Rightarrow> rmap Some (event_from real r))"

definition review_events :: "real_fn \<Rightarrow> jstr \<Rightarrow> json \<Rightarrow> json \<Rightarrow> review_tables \<Rightarrow> (json list \<times> jstr option) rres" where
  "review_events real digest limit before_key s = rbind (review_page limit before_key) (\<lambda>(l, before).
     page_of ev_seq l (newest_rows ev_seq l before (filter (\<lambda>r. ev_digest r = digest) (rt_events s))) (event_from real))"

section \<open>Writing an event\<close>

text \<open>\<open>{ ...details, event_id, revision_digest, author, created_at }\<close>\<close>

definition new_event :: "json \<Rightarrow> jstr \<Rightarrow> jstr \<Rightarrow> reviewer \<Rightarrow> jstr \<Rightarrow> json" where
  "new_event details event_id digest actor now =
     JObj (fold (\<lambda>(k, v). set_member (js k) v)
       [(''event_id'', JStr event_id), (''revision_digest'', JStr digest), (''author'', enc_reviewer actor), (''created_at'', JStr now)]
       (case details of JObj kvs \<Rightarrow> kvs | _ \<Rightarrow> []))"

definition insert_event :: "event_row \<Rightarrow> review_tables \<Rightarrow> review_tables rres" where
  "insert_event r s =
     (if \<exists>q \<in> set (rt_events s). ev_id q = ev_id r \<or> (ev_org q = ev_org r \<and> ev_actor q = ev_actor r \<and> ev_operation q = ev_operation r)
      then Err SqliteError
      else Ok (s\<lparr>rt_events := rt_events s @ [r], rt_event_seq := ev_seq r\<rparr>))"

text \<open>The new schedule replaces the old one together with its assignees; a column takes strings only.\<close>

definition assignee_of :: "jstr \<Rightarrow> json \<Rightarrow> json \<Rightarrow> assignee_row rres" where
  "assignee_of digest due p = (case (fld p ''org_id'', fld p ''actor_id'') of
     (JStr org, JStr actor) \<Rightarrow> Ok \<lparr>aw_digest = digest, aw_org = org, aw_actor = actor, aw_due = (case due of JStr d \<Rightarrow> Some d | _ \<Rightarrow> None)\<rparr>
   | _ \<Rightarrow> Err SqliteError)"

definition insert_assignee :: "assignee_row \<Rightarrow> assignee_row list \<Rightarrow> assignee_row list rres" where
  "insert_assignee a rows =
     (if \<exists>q \<in> set rows. aw_digest q = aw_digest a \<and> aw_org q = aw_org a \<and> aw_actor q = aw_actor a then Err SqliteError
      else Ok (rows @ [a]))"

definition put_schedule :: "jstr \<Rightarrow> json \<Rightarrow> review_tables \<Rightarrow> review_tables rres" where
  "put_schedule digest schedule s =
     rbind (mapR (assignee_of digest (fld schedule ''due_at'')) (case fld schedule ''assignees'' of JArr ps \<Rightarrow> ps | _ \<Rightarrow> [])) (\<lambda>added.
     rbind (foldR insert_assignee added (filter (\<lambda>a. aw_digest a \<noteq> digest) (rt_assignees s))) (\<lambda>rows.
     Ok (s\<lparr>rt_schedules := upsert digest (stringify schedule) (rt_schedules s), rt_assignees := rows\<rparr>)))"

text \<open>\<open>INSERT OR IGNORE\<close> for every recipient but the actor\<close>

definition notify :: "jstr \<Rightarrow> person \<Rightarrow> review_tables \<Rightarrow> review_tables" where
  "notify event_id p s =
     (if \<exists>q \<in> set (rt_notices s). nt_event q = event_id \<and> (nt_org q, nt_actor q) = p then s
      else s\<lparr>rt_notices := rt_notices s @ [\<lparr>nt_seq = rt_notice_seq s + 1, nt_event = event_id, nt_org = fst p, nt_actor = snd p, nt_read = None\<rparr>],
             rt_notice_seq := rt_notice_seq s + 1\<rparr>)"

type_synonym event_builder = "json option \<Rightarrow> (json \<times> person list) rres"

definition store_event :: "real_fn \<Rightarrow> reviewer \<Rightarrow> jstr \<Rightarrow> jstr \<Rightarrow> jstr \<Rightarrow> json \<Rightarrow> person list \<Rightarrow> jstr \<Rightarrow> review_tables
    \<Rightarrow> (json \<times> review_tables) rres" where
  "store_event real actor digest operation request event recipients event_id s =
     (let text = stringify event in
      rbind (event_text real text event_id digest (rw_org actor) (rw_actor actor)) (\<lambda>_.
      rbind (insert_event \<lparr>ev_seq = rt_event_seq s + 1, ev_id = event_id, ev_digest = digest, ev_org = rw_org actor, ev_actor = rw_actor actor,
               ev_operation = operation, ev_request = request, ev_json = text\<rparr> s) (\<lambda>s.
      rbind (if is_true_value (fld event ''schedule'') then put_schedule digest (fld event ''schedule'') s else Ok s) (\<lambda>s.
      Ok (event, fold (notify event_id) (filter (\<lambda>p. p \<noteq> person_of_reviewer actor) recipients) s)))))"

text \<open>
  \<open>write(actor, digest, input, build)\<close>. The services pass an \<open>Actor\<close> and have checked that \<open>operation_id\<close> is an
  identifier; for anything else the model fails when the query binds it.
\<close>

definition review_write :: "sha_fn \<Rightarrow> real_fn \<Rightarrow> reviewer \<Rightarrow> jstr \<Rightarrow> json \<Rightarrow> event_builder \<Rightarrow> jstr \<Rightarrow> jstr \<Rightarrow> review_tables
    \<Rightarrow> json rres \<times> review_tables" where
  "review_write sha real actor digest input build event_id now s =
     (case (canonicalize (obj [(''digest'', JStr digest), (''input'', input), (''actor'', enc_reviewer actor)]), fld input ''operation_id'') of
        (Err e, _) \<Rightarrow> (Err (ReviewDomainError e), s)
      | (Ok t, JStr operation) \<Rightarrow> transaction (\<lambda>s.
          case find (\<lambda>r. (ev_org r, ev_actor r) = person_of_reviewer actor \<and> ev_operation r = operation) (rt_events s) of
            Some r \<Rightarrow> if ev_request r \<noteq> sha (utf8 t) then Err (ReviewStoreError ''IDEMPOTENCY_CONFLICT'' 409)
                       else rmap (\<lambda>e. (e, s)) (event_from real r)
          | None \<Rightarrow>
              rbind (review_schedule real digest s) (\<lambda>schedule.
              rbind (build schedule) (\<lambda>(details, recipients).
              store_event real actor digest operation (sha (utf8 t)) (new_event details event_id digest actor now) recipients event_id s))) s
      | _ \<Rightarrow> (Err SqliteError, s))"

section \<open>Notifications\<close>

definition notifications :: "real_fn \<Rightarrow> person \<Rightarrow> json \<Rightarrow> json \<Rightarrow> review_tables \<Rightarrow> ((json \<times> jstr option) list \<times> nat \<times> jstr option) rres" where
  "notifications real actor limit before_key s = rbind (review_page limit before_key) (\<lambda>(l, before).
     let mine = filter (\<lambda>n. (nt_org n, nt_actor n) = actor) (rt_notices s);
         joined = concat (map (\<lambda>n. map (\<lambda>e. (n, e)) (filter (\<lambda>e. ev_id e = nt_event n) (rt_events s))) mine) in
     rbind (page_of (\<lambda>(n, e). nt_seq n) l (newest_rows (\<lambda>(n, e). nt_seq n) l before joined)
        (\<lambda>(n, e). rmap (\<lambda>v. (v, nt_read n)) (event_from real e))) (\<lambda>(page, next).
     Ok (page, length (filter (\<lambda>n. nt_read n = None) mine), next)))"

definition read_at :: "jstr \<Rightarrow> jstr option \<Rightarrow> jstr option" where
  "read_at now r = (case r of None \<Rightarrow> Some now | Some t \<Rightarrow> Some t)"

definition mark_read :: "person \<Rightarrow> jstr \<Rightarrow> jstr \<Rightarrow> review_tables \<Rightarrow> unit rres \<times> review_tables" where
  "mark_read actor event_id now s =
     (let hit = (\<lambda>n. (nt_org n, nt_actor n) = actor \<and> nt_event n = event_id) in
      (if length (filter hit (rt_notices s)) = 1 then Ok () else Err (ReviewStoreError ''NOT_FOUND'' 404),
       s\<lparr>rt_notices := map (\<lambda>n. if hit n then n\<lparr>nt_read := read_at now (nt_read n)\<rparr> else n) (rt_notices s)\<rparr>))"

section \<open>Due reviews\<close>

definition assigned_to :: "person \<Rightarrow> json \<Rightarrow> bool" where
  "assigned_to p schedule \<longleftrightarrow> (case fld schedule ''assignees'' of
     JArr ps \<Rightarrow> list_ex (\<lambda>q. fld q ''org_id'' = JStr (fst p) \<and> fld q ''actor_id'' = JStr (snd p)) ps
   | _ \<Rightarrow> False)"

text \<open>The assignees whose revision has a schedule, with its text.\<close>

definition scheduled :: "review_tables \<Rightarrow> (assignee_row \<times> jstr) list" where
  "scheduled s = List.map_filter (\<lambda>a. map_option (\<lambda>t. (a, t)) (map_of (rt_schedules s) (aw_digest a))) (rt_assignees s)"

definition due_by :: "jstr \<Rightarrow> assignee_row \<Rightarrow> bool" where
  "due_by now a \<longleftrightarrow> (case aw_due a of None \<Rightarrow> False | Some d \<Rightarrow> d \<le> now)"

definition due_text :: "assignee_row \<Rightarrow> jstr" where
  "due_text a = (case aw_due a of None \<Rightarrow> [] | Some d \<Rightarrow> d)"

definition due_reviews :: "real_fn \<Rightarrow> person \<Rightarrow> jstr \<Rightarrow> json \<Rightarrow> review_tables \<Rightarrow> (json list \<times> bool) rres" where
  "due_reviews real actor now limit s = rbind (review_page limit JUndef) (\<lambda>(l, _).
     let rows = take (l + 1) (sort_key (\<lambda>(a, t). [due_text a, aw_digest a])
           (filter (\<lambda>(a, t). (aw_org a, aw_actor a) = actor \<and> due_by now a) (scheduled s))) in
     rbind (mapR (\<lambda>(a, t). rbind (schedule_from real t (aw_digest a)) (\<lambda>v.
        case fld v ''due_at'' of
          JStr d \<Rightarrow> if assigned_to actor v \<and> d \<noteq> [] \<and> d \<le> now then Ok v else record_corrupt
        | _ \<Rightarrow> record_corrupt)) (take l rows)) (\<lambda>tasks.
     Ok (tasks, l < length rows)))"

section \<open>Reminders\<close>

record candidate =
  ca_schedule :: json
  ca_person :: person
  ca_phase :: jstr
  ca_position :: "jstr list"

text \<open>\<open>CASE WHEN json_valid(value_json) THEN json_extract(value_json, '$.version') END\<close>\<close>

definition stored_version :: "real_fn \<Rightarrow> jstr \<Rightarrow> json" where
  "stored_version real text = (case json_parse real text of None \<Rightarrow> JNull | Some v \<Rightarrow> fld v ''version'')"

definition phase_of :: "jstr \<Rightarrow> assignee_row \<Rightarrow> jstr" where
  "phase_of overdue_before a = (if due_by overdue_before a then js ''overdue'' else js ''due'')"

definition reminded :: "real_fn \<Rightarrow> jstr \<Rightarrow> assignee_row \<Rightarrow> jstr \<Rightarrow> reminder_row \<Rightarrow> bool" where
  "reminded real overdue_before a text r \<longleftrightarrow> rm_digest r = aw_digest a \<and> stored_version real text = JNum (NInt (rm_version r)) \<and>
     rm_org r = aw_org a \<and> rm_actor r = aw_actor a \<and> (rm_phase r = js ''overdue'' \<or> rm_phase r = phase_of overdue_before a)"

definition position_of :: "assignee_row \<Rightarrow> jstr list" where
  "position_of a = [due_text a, aw_digest a, aw_org a, aw_actor a]"

definition candidate_rows :: "real_fn \<Rightarrow> jstr \<Rightarrow> jstr \<Rightarrow> jstr list option \<Rightarrow> nat \<Rightarrow> review_tables \<Rightarrow> (assignee_row \<times> jstr) list" where
  "candidate_rows real now overdue_before after limit s =
     take limit (sort_key (\<lambda>(a, t). position_of a) (filter (\<lambda>(a, t). due_by now a \<and>
        \<not> list_ex (reminded real overdue_before a t) (rt_reminders s) \<and>
        (case after of None \<Rightarrow> True | Some p \<Rightarrow> p < position_of a)) (scheduled s)))"

definition invalid_query :: "'a rres" where
  "invalid_query = Err (ReviewStoreError ''INVALID_QUERY'' 400)"

definition reminder_candidates :: "real_fn \<Rightarrow> jstr \<Rightarrow> jstr \<Rightarrow> jstr list option \<Rightarrow> json \<Rightarrow> review_tables \<Rightarrow> candidate list rres" where
  "reminder_candidates real now overdue_before after limit s =
     (case limit of
        JNum (NInt l) \<Rightarrow>
          if \<not> (iso_instant now \<and> iso_instant overdue_before \<and> 1 \<le> l \<and> l \<le> 100) then invalid_query
          else mapR (\<lambda>(a, t). rbind (schedule_from real t (aw_digest a)) (\<lambda>v.
            if fld v ''due_at'' = JStr (due_text a) \<and> assigned_to (aw_org a, aw_actor a) v
            then Ok \<lparr>ca_schedule = v, ca_person = (aw_org a, aw_actor a), ca_phase = phase_of overdue_before a, ca_position = position_of a\<rparr>
            else record_corrupt)) (candidate_rows real now overdue_before after (nat l) s)
      | _ \<Rightarrow> invalid_query)"

fun number_of :: "json \<Rightarrow> int" where
  "number_of (JNum (NInt i)) = i"
| "number_of v = 0"

definition reminder_id :: "sha_fn \<Rightarrow> jstr \<Rightarrow> candidate \<Rightarrow> jstr rres" where
  "reminder_id sha digest c =
     (case canonicalize (JArr [JStr digest, fld (ca_schedule c) ''version'',
        obj [(''org_id'', JStr (fst (ca_person c))), (''actor_id'', JStr (snd (ca_person c)))], JStr (ca_phase c)]) of
        Err e \<Rightarrow> Err (ReviewDomainError e)
      | Ok t \<Rightarrow> Ok (js ''reminder-'' @ take 48 (sha (utf8 t))))"

text \<open>\<open>UNIQUE(reminder_id)\<close> and \<open>UNIQUE(revision_digest, schedule_version, org_id, actor_id, phase)\<close>\<close>

definition same_reminder :: "reminder_row \<Rightarrow> reminder_row \<Rightarrow> bool" where
  "same_reminder q r \<longleftrightarrow> rm_id q = rm_id r \<or> (rm_digest q = rm_digest r \<and> rm_version q = rm_version r \<and> rm_org q = rm_org r \<and>
     rm_actor q = rm_actor r \<and> rm_phase q = rm_phase r)"

definition still_due :: "candidate \<Rightarrow> json \<Rightarrow> jstr \<Rightarrow> bool" where
  "still_due c current now \<longleftrightarrow> fld current ''version'' = fld (ca_schedule c) ''version'' \<and>
     fld current ''due_at'' = fld (ca_schedule c) ''due_at'' \<and>
     (case fld current ''due_at'' of JStr d \<Rightarrow> d \<noteq> [] \<and> d \<le> now | _ \<Rightarrow> False) \<and> assigned_to (ca_person c) current"

definition was_overdue :: "jstr \<Rightarrow> candidate \<Rightarrow> reminder_row \<Rightarrow> bool" where
  "was_overdue digest c r \<longleftrightarrow> rm_digest r = digest \<and> JNum (NInt (rm_version r)) = fld (ca_schedule c) ''version'' \<and>
     (rm_org r, rm_actor r) = ca_person c \<and> rm_phase r = js ''overdue''"

definition record_reminder :: "sha_fn \<Rightarrow> real_fn \<Rightarrow> candidate \<Rightarrow> jstr \<Rightarrow> review_tables \<Rightarrow> bool rres \<times> review_tables" where
  "record_reminder sha real c now = transaction (\<lambda>s.
     let digest = text_value (fld (ca_schedule c) ''revision_digest'') in
     rbind (review_schedule real digest s) (\<lambda>found.
     case found of
       None \<Rightarrow> Ok (False, s)
     | Some current \<Rightarrow>
         if \<not> still_due c current now \<or> (ca_phase c = js ''due'' \<and> list_ex (was_overdue digest c) (rt_reminders s)) then Ok (False, s)
         else rbind (reminder_id sha digest c) (\<lambda>i.
           let r = \<lparr>rm_seq = rt_reminder_seq s + 1, rm_id = i, rm_digest = digest, rm_version = number_of (fld (ca_schedule c) ''version''),
                    rm_org = fst (ca_person c), rm_actor = snd (ca_person c), rm_phase = ca_phase c,
                    rm_due = text_value (fld current ''due_at''), rm_created = now, rm_read = None\<rparr> in
           if list_ex (\<lambda>q. same_reminder q r) (rt_reminders s) then Ok (False, s)
           else Ok (True, s\<lparr>rt_reminders := rt_reminders s @ [r], rt_reminder_seq := rt_reminder_seq s + 1\<rparr>))))"

text \<open>\<open>reminderPredicate\<close>: the schedule, its version and the assignee are still those of the reminder.\<close>

definition current_reminder :: "real_fn \<Rightarrow> review_tables \<Rightarrow> reminder_row \<Rightarrow> bool" where
  "current_reminder real s r \<longleftrightarrow> list_ex (\<lambda>(a, t). aw_digest a = rm_digest r \<and> aw_org a = rm_org r \<and> aw_actor a = rm_actor r \<and>
     aw_due a = Some (rm_due r) \<and> stored_version real t = JNum (NInt (rm_version r))) (scheduled s)"

definition reminder_view :: "real_fn \<Rightarrow> person \<Rightarrow> review_tables \<Rightarrow> reminder_row \<Rightarrow> reminder_row rres" where
  "reminder_view real actor s r = rbind (review_schedule real (rm_digest r) s) (\<lambda>found.
     case found of
       None \<Rightarrow> record_corrupt
     | Some v \<Rightarrow>
         if fld v ''version'' = JNum (NInt (rm_version r)) \<and> fld v ''due_at'' = JStr (rm_due r) \<and> is_id (rm_id r) \<and>
            rm_phase r \<in> {js ''due'', js ''overdue''} \<and> iso_instant (rm_created r) \<and>
            (case rm_read r of None \<Rightarrow> True | Some t \<Rightarrow> iso_instant t) \<and> assigned_to actor v
         then Ok r else record_corrupt)"

definition reminders :: "real_fn \<Rightarrow> person \<Rightarrow> json \<Rightarrow> json \<Rightarrow> review_tables \<Rightarrow> (reminder_row list \<times> nat \<times> jstr option) rres" where
  "reminders real actor limit before_key s = rbind (review_page limit before_key) (\<lambda>(l, before).
     let mine = filter (\<lambda>r. (rm_org r, rm_actor r) = actor \<and> current_reminder real s r) (rt_reminders s) in
     rbind (page_of rm_seq l (newest_rows rm_seq l before mine) (reminder_view real actor s)) (\<lambda>(page, next).
     Ok (page, length (filter (\<lambda>r. rm_read r = None) mine), next)))"

definition reminder_reference :: "person \<Rightarrow> jstr \<Rightarrow> review_tables \<Rightarrow> (jstr \<times> jstr) option rres" where
  "reminder_reference actor i s = (case find (\<lambda>r. rm_id r = i \<and> (rm_org r, rm_actor r) = actor) (rt_reminders s) of
     None \<Rightarrow> Ok None
   | Some r \<Rightarrow> if is_digest (rm_digest r) \<and> rm_phase r \<in> {js ''due'', js ''overdue''} then Ok (Some (rm_digest r, rm_phase r)) else record_corrupt)"

definition outbound_row :: "real_fn \<Rightarrow> person \<Rightarrow> jstr \<Rightarrow> jstr \<Rightarrow> review_tables \<Rightarrow> reminder_row option" where
  "outbound_row real actor i now s = find (\<lambda>r. rm_id r = i \<and> (rm_org r, rm_actor r) = actor \<and> rm_read r = None \<and> rm_due r \<le> now \<and>
     current_reminder real s r \<and> (rm_phase r = js ''overdue'' \<or>
       \<not> list_ex (\<lambda>q. rm_digest q = rm_digest r \<and> rm_version q = rm_version r \<and> rm_org q = rm_org r \<and> rm_actor q = rm_actor r \<and>
            rm_phase q = js ''overdue'') (rt_reminders s))) (rt_reminders s)"

definition outbound_reminder :: "real_fn \<Rightarrow> person \<Rightarrow> jstr \<Rightarrow> jstr \<Rightarrow> review_tables \<Rightarrow> reminder_row option rres" where
  "outbound_reminder real actor i now s =
     (if \<not> iso_instant now then invalid_query
      else case outbound_row real actor i now s of
        None \<Rightarrow> Ok None
      | Some r \<Rightarrow> rbind (reminders real actor (JNum (NInt 1)) (JStr (dec_int (rm_seq r + 1))) s) (\<lambda>(page, _, _).
          case page of
            [] \<Rightarrow> record_corrupt
          | q # _ \<Rightarrow> if rm_id q = i then Ok (Some q) else record_corrupt))"

definition read_reminder :: "real_fn \<Rightarrow> person \<Rightarrow> jstr \<Rightarrow> jstr \<Rightarrow> review_tables \<Rightarrow> unit rres \<times> review_tables" where
  "read_reminder real actor i now s =
     (let hit = (\<lambda>r. rm_id r = i \<and> (rm_org r, rm_actor r) = actor \<and> current_reminder real s r) in
      (if length (filter hit (rt_reminders s)) = 1 then Ok () else Err (ReviewStoreError ''NOT_FOUND'' 404),
       s\<lparr>rt_reminders := map (\<lambda>r. if hit r then r\<lparr>rm_read := read_at now (rm_read r)\<rparr> else r) (rt_reminders s)\<rparr>))"

end
