(* ===== verification/ReviewSafety.thy ===== *)
theory ReviewSafety
  imports ReviewRecords DeliverySafety
begin

text \<open>
  What the review tables promise whatever is called between: a repeated write returns the recorded event and
  appends nothing, and an assignee is reminded at most once of each phase of a schedule.
\<close>

section \<open>Runs of the tables\<close>

datatype review_op = Write reviewer jstr json event_builder jstr jstr | MarkRead person jstr jstr
  | Remind candidate jstr | ReadReminder person jstr jstr

fun review_call :: "sha_fn \<Rightarrow> real_fn \<Rightarrow> review_op \<Rightarrow> review_tables \<Rightarrow> review_tables" where
  "review_call sha real (Write a d i b e now) s = snd (review_write sha real a d i b e now s)"
| "review_call sha real (MarkRead a e now) s = snd (mark_read a e now s)"
| "review_call sha real (Remind c now) s = snd (record_reminder sha real c now s)"
| "review_call sha real (ReadReminder a i now) s = snd (read_reminder real a i now s)"

inductive review_run :: "sha_fn \<Rightarrow> real_fn \<Rightarrow> review_tables \<Rightarrow> review_tables \<Rightarrow> bool" for sha real s where
  here: "review_run sha real s s"
| later: "review_run sha real s t \<Longrightarrow> review_run sha real s (review_call sha real op t)"

section \<open>Writes append events\<close>

lemma notify_events [simp]: "rt_events (notify e p s) = rt_events s" "rt_reminders (notify e p s) = rt_reminders s"
  by (simp_all add: notify_def)

lemma notify_all [simp]: "rt_events (fold (notify e) ps s) = rt_events s" "rt_reminders (fold (notify e) ps s) = rt_reminders s"
  by (induction ps arbitrary: s) simp_all

lemma put_schedule_events: "put_schedule d v s = Ok s' \<Longrightarrow> rt_events s' = rt_events s \<and> rt_reminders s' = rt_reminders s"
  by (auto simp: put_schedule_def)

lemma store_event_Ok:
  assumes "store_event real actor digest operation request event recipients event_id s = Ok (e, s')"
  shows "e = event \<and> rt_reminders s' = rt_reminders s \<and> (\<exists>r. rt_events s' = rt_events s @ [r] \<and> ev_org r = rw_org actor \<and> ev_actor r = rw_actor actor \<and>
    ev_operation r = operation \<and> ev_request r = request \<and> (\<exists>e'. json_parse real (stringify event) = Some e' \<and> event_from real r = Ok e'))"
proof -
  let ?r = "\<lparr>ev_seq = rt_event_seq s + 1, ev_id = event_id, ev_digest = digest, ev_org = rw_org actor, ev_actor = rw_actor actor,
               ev_operation = operation, ev_request = request, ev_json = stringify event\<rparr>"
  obtain e' s1 s2 where e': "event_text real (stringify event) event_id digest (rw_org actor) (rw_actor actor) = Ok e'"
    and s1: "insert_event ?r s = Ok s1" and s2: "(if is_true_value (fld event ''schedule'') then put_schedule digest (fld event ''schedule'') s1 else Ok s1) = Ok s2"
    and out: "e = event" "s' = fold (notify event_id) (filter (\<lambda>p. p \<noteq> person_of_reviewer actor) recipients) s2"
    using assms by (auto simp: store_event_def Let_def)
  have "rt_events s1 = rt_events s @ [?r]" "rt_reminders s1 = rt_reminders s" using s1 by (auto simp: insert_event_def split: if_splits)
  moreover have "rt_events s2 = rt_events s1" "rt_reminders s2 = rt_reminders s1" using s2 put_schedule_events by (auto split: if_splits)
  moreover have "event_from real ?r = Ok e'" using e' by (simp add: event_from_def)
  moreover have "json_parse real (stringify event) = Some e'" using e' by (auto simp: event_text_def split: option.splits if_splits)
  ultimately show ?thesis using out by auto
qed

definition recorded_by :: "reviewer \<Rightarrow> jstr \<Rightarrow> event_row \<Rightarrow> bool" where
  "recorded_by actor operation r \<longleftrightarrow> (ev_org r, ev_actor r) = person_of_reviewer actor \<and> ev_operation r = operation"

text \<open>A write finds the event of its operation, or appends one, or fails and changes nothing.\<close>

lemma review_write_cases:
  assumes t: "canonicalize (obj [(''digest'', JStr digest), (''input'', input), (''actor'', enc_reviewer actor)]) = Ok t"
    and i: "fld input ''operation_id'' = JStr operation"
  shows "review_write sha real actor digest input build event_id now s = (case find (recorded_by actor operation) (rt_events s) of
      Some r \<Rightarrow> (if ev_request r \<noteq> sha (utf8 t) then Err (ReviewStoreError ''IDEMPOTENCY_CONFLICT'' 409) else event_from real r, s)
    | None \<Rightarrow> transaction (\<lambda>s. rbind (review_schedule real digest s) (\<lambda>schedule. rbind (build schedule) (\<lambda>(details, recipients).
        store_event real actor digest operation (sha (utf8 t)) (new_event details event_id digest actor now) recipients event_id s))) s)"
proof -
  have "recorded_by actor operation = (\<lambda>r. (ev_org r, ev_actor r) = person_of_reviewer actor \<and> ev_operation r = operation)"
    by (simp add: recorded_by_def fun_eq_iff)
  moreover have "(case rmap (\<lambda>e. (e, s)) x of Err e \<Rightarrow> (Err e, s) | Ok (x, s') \<Rightarrow> (Ok x, s')) = (x, s)" for x :: "json rres"
    by (cases x) simp_all
  ultimately show ?thesis by (auto simp: review_write_def t i transaction_def split: option.splits)
qed

lemma write_keeps:
  "rt_reminders (snd (review_write sha real actor digest input build event_id now s)) = rt_reminders s \<and>
   (\<exists>new. rt_events (snd (review_write sha real actor digest input build event_id now s)) = rt_events s @ new)"
proof (cases "(\<exists>t. canonicalize (obj [(''digest'', JStr digest), (''input'', input), (''actor'', enc_reviewer actor)]) = Ok t) \<and>
    (\<exists>operation. fld input ''operation_id'' = JStr operation)")
  case True
  then obtain t operation where t: "canonicalize (obj [(''digest'', JStr digest), (''input'', input), (''actor'', enc_reviewer actor)]) = Ok t"
    and i: "fld input ''operation_id'' = JStr operation" by blast
  show ?thesis unfolding review_write_cases [OF t i] transaction_def
    by (auto split: option.splits result.splits dest!: store_event_Ok)
next
  case False
  then show ?thesis by (auto simp: review_write_def split: result.splits json.splits)
qed

lemma record_reminder_keeps:
  "rt_events (snd (record_reminder sha real c now s)) = rt_events s \<and>
   (\<exists>new. rt_reminders (snd (record_reminder sha real c now s)) = rt_reminders s @ new)"
  by (auto simp: record_reminder_def transaction_def Let_def split: result.splits option.splits if_splits)

section \<open>Repeated writes\<close>

lemma run_appends: "review_run sha real s t \<Longrightarrow> \<exists>new. rt_events t = rt_events s @ new"
proof (induction rule: review_run.induct)
  case (later t op)
  have "\<exists>new. rt_events (review_call sha real op t) = rt_events t @ new"
    by (cases op) (use write_keeps record_reminder_keeps in \<open>auto simp: mark_read_def read_reminder_def Let_def\<close>)
  then show ?case using later.IH by auto
qed simp

text \<open>
  C36. A review write that is repeated with the same operation and request, whatever was written meanwhile,
  returns the recorded event, as its stored text reads, and changes nothing; the caller's \<open>build\<close> is not asked
  again.
\<close>

theorem repeated_review_writes_return_the_event:
  assumes "review_write sha real actor digest input build event_id now s = (Ok e, s')" and "review_run sha real s' t"
  shows "\<exists>e'. review_write sha real actor digest input build2 event_id2 now2 t = (Ok e', t) \<and>
    (e' = e \<or> json_parse real (stringify e) = Some e')"
proof -
  obtain body operation where t: "canonicalize (obj [(''digest'', JStr digest), (''input'', input), (''actor'', enc_reviewer actor)]) = Ok body"
    and i: "fld input ''operation_id'' = JStr operation"
    using assms(1) by (auto simp: review_write_def split: result.splits json.splits)
  have "\<exists>r e'. find (recorded_by actor operation) (rt_events s') = Some r \<and> ev_request r = sha (utf8 body) \<and> event_from real r = Ok e' \<and>
    (e' = e \<or> json_parse real (stringify e) = Some e')"
  proof (cases "find (recorded_by actor operation) (rt_events s)")
    case None
    obtain details recipients where "store_event real actor digest operation (sha (utf8 body)) (new_event details event_id digest actor now) recipients event_id s = Ok (e, s')"
      using assms(1) None by (auto simp: review_write_cases [OF t i] transaction_def split: result.splits)
    then obtain r where "rt_events s' = rt_events s @ [r]" "recorded_by actor operation r" "ev_request r = sha (utf8 body)"
      "\<exists>e'. json_parse real (stringify e) = Some e' \<and> event_from real r = Ok e'"
      using store_event_Ok by (fastforce simp: recorded_by_def)
    then show ?thesis using find_last [OF None] by auto
  next
    case (Some r)
    then show ?thesis using assms(1) by (auto simp: review_write_cases [OF t i] split: if_splits)
  qed
  then obtain r e' where r: "find (recorded_by actor operation) (rt_events s') = Some r" "ev_request r = sha (utf8 body)" "event_from real r = Ok e'"
    and e': "e' = e \<or> json_parse real (stringify e) = Some e'" by blast
  have "find (recorded_by actor operation) (rt_events t) = Some r" using run_appends [OF assms(2)] find_prefix [OF r(1)] by auto
  then show ?thesis using r e' by (auto simp: review_write_cases [OF t i])
qed

section \<open>Reminders\<close>

text \<open>What identifies a reminder beside its random parts.\<close>

definition reminds :: "jstr \<Rightarrow> json \<Rightarrow> person \<Rightarrow> jstr \<Rightarrow> review_tables \<Rightarrow> bool" where
  "reminds digest version p phase s \<longleftrightarrow> (\<exists>r \<in> set (rt_reminders s). rm_digest r = digest \<and> JNum (NInt (rm_version r)) = version \<and>
     (rm_org r, rm_actor r) = p \<and> rm_phase r = phase)"

lemma reminds_later: "review_run sha real s t \<Longrightarrow> reminds d v p ph s \<Longrightarrow> reminds d v p ph t"
proof (induction rule: review_run.induct)
  case (later t op)
  then have r: "reminds d v p ph t" by simp
  show ?case
  proof (cases op)
    case (Remind c now)
    then show ?thesis using r record_reminder_keeps [of sha real c now t] by (auto simp: reminds_def)
  next
    case (ReadReminder a i now)
    let ?f = "\<lambda>q. if rm_id q = i \<and> (rm_org q, rm_actor q) = a \<and> current_reminder real t q then q\<lparr>rm_read := read_at now (rm_read q)\<rparr> else q"
    obtain q where q: "q \<in> set (rt_reminders t)" "rm_digest q = d \<and> JNum (NInt (rm_version q)) = v \<and> (rm_org q, rm_actor q) = p \<and> rm_phase q = ph"
      using r unfolding reminds_def by blast
    have "rt_reminders (review_call sha real op t) = map ?f (rt_reminders t)" using ReadReminder by (simp add: read_reminder_def Let_def)
    then have "?f q \<in> set (rt_reminders (review_call sha real op t))" using q(1) by simp
    moreover have "rm_digest (?f q) = d \<and> JNum (NInt (rm_version (?f q))) = v \<and> (rm_org (?f q), rm_actor (?f q)) = p \<and> rm_phase (?f q) = ph"
      using q(2) by simp
    ultimately show ?thesis unfolding reminds_def by blast
  qed (use r write_keeps in \<open>auto simp: reminds_def mark_read_def Let_def\<close>)
qed simp

lemma recorded_reminds:
  assumes "record_reminder sha real c now s = (Ok True, s')"
  shows "reminds (text_value (fld (ca_schedule c) ''revision_digest'')) (fld (ca_schedule c) ''version'') (ca_person c) (ca_phase c) s'"
proof -
  let ?d = "text_value (fld (ca_schedule c) ''revision_digest'')"
  obtain current i where cur: "review_schedule real ?d s = Ok (Some current)" and due: "still_due c current now"
    and s': "\<exists>r. rt_reminders s' = rt_reminders s @ [r] \<and> rm_digest r = ?d \<and> rm_version r = number_of (fld (ca_schedule c) ''version'') \<and>
      (rm_org r, rm_actor r) = ca_person c \<and> rm_phase r = ca_phase c"
    using assms by (auto simp: record_reminder_def transaction_def Let_def split: result.splits option.splits if_splits)
  obtain raw where "schedule_from real raw ?d = Ok current" using cur by (auto simp: review_schedule_def split: option.splits)
  then have "safe_number (fld current ''version'') 1 max_safe"
    by (auto simp: schedule_from_def schedule_ok_def split: option.splits if_splits)
  then obtain n where "fld (ca_schedule c) ''version'' = JNum (NInt n)"
    using due by (auto simp: still_due_def safe_number_def split: json.splits jnum.splits)
  then show ?thesis using s' by (auto simp: reminds_def)
qed

definition same_reminding :: "candidate \<Rightarrow> candidate \<Rightarrow> bool" where
  "same_reminding c d \<longleftrightarrow> fld (ca_schedule c) ''revision_digest'' = fld (ca_schedule d) ''revision_digest'' \<and>
     fld (ca_schedule c) ''version'' = fld (ca_schedule d) ''version'' \<and> ca_person c = ca_person d"

lemma reminded_not_recorded:
  assumes "reminds (text_value (fld (ca_schedule c) ''revision_digest'')) (fld (ca_schedule c) ''version'') (ca_person c) (ca_phase c) s"
  shows "snd (record_reminder sha real c now s) = s \<and> fst (record_reminder sha real c now s) \<noteq> Ok True"
proof -
  obtain q where q: "q \<in> set (rt_reminders s)" "rm_digest q = text_value (fld (ca_schedule c) ''revision_digest'')"
    "JNum (NInt (rm_version q)) = fld (ca_schedule c) ''version''" "(rm_org q, rm_actor q) = ca_person c" "rm_phase q = ca_phase c"
    using assms by (auto simp: reminds_def)
  have "rm_version q = number_of (fld (ca_schedule c) ''version'')" using q(3) by (metis number_of.simps(1))
  moreover have "rm_org q = fst (ca_person c)" "rm_actor q = snd (ca_person c)" using q(4) by (metis fst_conv, metis snd_conv)
  ultimately have "list_ex (\<lambda>q. same_reminder q \<lparr>rm_seq = n, rm_id = i, rm_digest = text_value (fld (ca_schedule c) ''revision_digest''),
      rm_version = number_of (fld (ca_schedule c) ''version''), rm_org = fst (ca_person c), rm_actor = snd (ca_person c), rm_phase = ca_phase c,
      rm_due = d, rm_created = now, rm_read = None\<rparr>) (rt_reminders s)" for n i d
    using q by (auto simp: list_ex_iff same_reminder_def)
  then show ?thesis by (auto simp: record_reminder_def transaction_def Let_def split: result.splits option.splits)
qed

lemma candidate_not_reminded:
  assumes cs: "reminder_candidates real now overdue after limit s = Ok cs" and c: "c \<in> set cs"
    and r: "reminds (text_value (fld (ca_schedule c) ''revision_digest'')) (fld (ca_schedule c) ''version'') (ca_person c) phase s"
  shows "phase \<noteq> ca_phase c \<and> phase \<noteq> js ''overdue''"
proof -
  obtain l where rows: "mapR (\<lambda>(a, t). rbind (schedule_from real t (aw_digest a)) (\<lambda>v.
            if fld v ''due_at'' = JStr (due_text a) \<and> assigned_to (aw_org a, aw_actor a) v
            then Ok \<lparr>ca_schedule = v, ca_person = (aw_org a, aw_actor a), ca_phase = phase_of overdue a, ca_position = position_of a\<rparr>
            else record_corrupt)) (candidate_rows real now overdue after l s) = Ok cs"
    using cs by (auto simp: reminder_candidates_def invalid_query_def split: json.splits jnum.splits if_splits)
  obtain a t v where at: "(a, t) \<in> set (candidate_rows real now overdue after l s)" and v: "schedule_from real t (aw_digest a) = Ok v"
    and c: "ca_schedule c = v" "ca_person c = (aw_org a, aw_actor a)" "ca_phase c = phase_of overdue a"
    using mapR_Ok_memberD [OF rows c] by (auto split: if_splits)
  have new: "\<not> list_ex (reminded real overdue a t) (rt_reminders s)"
    using at by (auto simp: candidate_rows_def dest!: in_set_takeD)
  have "stored_version real t = fld v ''version''" "fld v ''revision_digest'' = JStr (aw_digest a)"
    using v by (auto simp: schedule_from_def stored_version_def schedule_ok_def split: option.splits if_splits)
  then show ?thesis using r new c by (auto simp: reminds_def list_ex_iff reminded_def)
qed

text \<open>
  C37. Nobody is reminded twice.  After a reminder of a phase of a schedule was recorded for an assignee,
  whatever happens to the tables, it is never recorded again, and the scan for reminders never again offers
  this assignee that version of the schedule in the same phase, nor in any phase after \<open>overdue\<close>.
\<close>

theorem nobody_is_reminded_twice:
  assumes "record_reminder sha real c now s = (Ok True, s')" and "review_run sha real s' t"
  shows "snd (record_reminder sha real c now2 t) = t \<and> fst (record_reminder sha real c now2 t) \<noteq> Ok True \<and>
    (case reminder_candidates real now2 overdue position limit t of
       Err e \<Rightarrow> True
     | Ok cs \<Rightarrow> list_all (\<lambda>d. \<not> (same_reminding d c \<and> (ca_phase d = ca_phase c \<or> ca_phase c = js ''overdue''))) cs)"
proof -
  have r: "reminds (text_value (fld (ca_schedule c) ''revision_digest'')) (fld (ca_schedule c) ''version'') (ca_person c) (ca_phase c) t"
    using reminds_later [OF assms(2) recorded_reminds [OF assms(1)]] .
  have "\<not> (same_reminding d c \<and> (ca_phase d = ca_phase c \<or> ca_phase c = js ''overdue''))"
    if "reminder_candidates real now2 overdue position limit t = Ok cs" "d \<in> set cs" for cs d
    using candidate_not_reminded [OF that, of "ca_phase c"] r by (auto simp: same_reminding_def)
  then show ?thesis using reminded_not_recorded [OF r] by (auto simp: list_all_iff split: result.splits)
qed

section \<open>A schedule and its reminder\<close>

definition demo_person :: json where
  "demo_person = obj [(''actor_id'', JStr (js ''bot'')), (''org_id'', JStr (js ''org1''))]"

definition demo_schedule :: json where
  "demo_schedule = obj [(''assignees'', JArr [demo_person]), (''completed_at'', JNull), (''due_at'', JStr demo_instant),
     (''repeat_after_days'', JNull), (''revision_digest'', JStr (digest_text demo_sha [])), (''version'', JNum (NInt 1))]"

definition demo_details :: json where
  "demo_details = obj [(''kind'', JStr (js ''schedule'')), (''body'', JStr (js ''please check'')), (''mentions'', JArr []), (''schedule'', demo_schedule)]"

definition demo_reviewer :: reviewer where
  "demo_reviewer = \<lparr>rw_org = js ''org1'', rw_actor = js ''ann'', rw_kind = js ''human''\<rparr>"

definition demo_input :: json where
  "demo_input = obj [(''operation_id'', JStr (js ''cmd1''))]"

definition demo_build :: event_builder where
  "demo_build schedule = Ok (demo_details, [(js ''org1'', js ''bot'')])"

definition demo_review_event :: json where
  "demo_review_event = obj [(''kind'', JStr (js ''schedule'')), (''body'', JStr (js ''please check'')), (''mentions'', JArr []), (''schedule'', demo_schedule),
     (''event_id'', JStr (js ''review-1'')), (''revision_digest'', JStr (digest_text demo_sha [])),
     (''author'', obj [(''org_id'', JStr (js ''org1'')), (''actor_id'', JStr (js ''ann'')), (''kind'', JStr (js ''human''))]), (''created_at'', JStr demo_instant)]"

definition demo_written :: "json rres \<times> review_tables" where
  "demo_written = review_write demo_sha demo_real demo_reviewer (digest_text demo_sha []) demo_input demo_build (js ''review-1'') demo_instant empty_reviews"

lemma demo_new_event: "new_event demo_details (js ''review-1'') (digest_text demo_sha []) demo_reviewer demo_instant = demo_review_event"
  by (simp add: new_event_def demo_details_def demo_review_event_def enc_reviewer_def demo_reviewer_def obj_def)

lemma demo_event_parse: "json_parse real (stringify demo_review_event) = Some demo_review_event" "json_parse real (stringify demo_schedule) = Some demo_schedule"
proof -
  have plain: "plain demo_schedule" "plain demo_review_event" by (simp_all add: demo_schedule_def demo_person_def demo_review_event_def)
  have "valid_unicode demo_instant" by (simp add: demo_instant_def)
  then have "canon_ok demo_schedule 0" "canon_ok demo_review_event 0"
    using token_valid_unicode [OF is_digest_token [OF demo_sha_digest]]
    by (simp_all add: demo_schedule_def demo_person_def demo_review_event_def canon_ok_obj max_safe_def)
  then have "printable real demo_schedule" "printable real demo_review_event"
    using plain_printable [OF plain(1)] plain_printable [OF plain(2)] by iprover+
  then show "json_parse real (stringify demo_review_event) = Some demo_review_event" "json_parse real (stringify demo_schedule) = Some demo_schedule"
    by (simp_all add: json_parse_printable)
qed

lemma obj_is_true [simp]: "is_true_value (obj kvs)"
  by (simp add: is_true_value_def obj_def)

lemma demo_schedule_ok: "schedule_ok demo_schedule (digest_text demo_sha [])"
  by (simp add: schedule_ok_def demo_schedule_def demo_person_def id_coerced_def safe_number_def max_safe_def demo_sha_digest demo_instant)

lemma demo_event_ok: "event_ok demo_review_event (js ''review-1'') (digest_text demo_sha []) (js ''org1'') (js ''ann'')"
proof -
  have keys: "join_on 44 (sort (map js [''kind'', ''body'', ''mentions'', ''schedule'', ''event_id'', ''revision_digest'', ''author'', ''created_at''])) =
    join_on 44 (sort (map js [''author'', ''body'', ''created_at'', ''event_id'', ''kind'', ''mentions'', ''revision_digest'', ''schedule'']))"
    by code_simp
  have "field_names demo_review_event [''author'', ''body'', ''created_at'', ''event_id'', ''kind'', ''mentions'', ''revision_digest'', ''schedule'']"
    unfolding demo_review_event_def field_names_obj list.map fst_conv using keys unfolding list.map .
  note names = this [unfolded demo_review_event_def]
  have "join_on 44 (sort (map js [''org_id'', ''actor_id''])) = join_on 44 (sort (map js [''actor_id'', ''org_id'']))" by code_simp
  then have "field_names (obj [(''org_id'', a), (''actor_id'', b)]) [''actor_id'', ''org_id'']" for a b
    unfolding field_names_obj list.map fst_conv .
  moreover have "is_body (JStr (js ''please check''))"
    by (simp add: blank_text_def js_def cu_def js_space_def)
  moreover have "is_id (js ''review-1'')" by code_simp
  moreover have "is_true_value demo_schedule" by (simp add: demo_schedule_def)
  ultimately show ?thesis using demo_schedule_ok
    by (simp add: event_ok_def demo_review_event_def author_person_def names demo_sha_digest demo_instant id_coerced_def
      del: is_body.simps field_names_obj)
qed

lemma demo_written: "fst demo_written = Ok demo_review_event" "rt_reminders (snd demo_written) = []"
  "map_of (rt_schedules (snd demo_written)) (digest_text demo_sha []) = Some (stringify demo_schedule)"
proof -
  have "canon_ok (obj [(''digest'', JStr (digest_text demo_sha [])), (''input'', demo_input), (''actor'', enc_reviewer demo_reviewer)]) 0"
    using token_valid_unicode [OF is_digest_token [OF demo_sha_digest]] by (simp add: demo_input_def enc_reviewer_def demo_reviewer_def canon_ok_obj)
  then obtain c where c: "canonicalize (obj [(''digest'', JStr (digest_text demo_sha [])), (''input'', demo_input), (''actor'', enc_reviewer demo_reviewer)]) = Ok c"
    using canonicalize_Ok_iff by blast
  have i: "fld demo_input ''operation_id'' = JStr (js ''cmd1'')" by (simp add: demo_input_def)
  have t: "event_text demo_real (stringify demo_review_event) (js ''review-1'') (digest_text demo_sha []) (rw_org demo_reviewer) (rw_actor demo_reviewer) = Ok demo_review_event"
    using demo_event_ok by (simp add: event_text_def demo_event_parse demo_reviewer_def)
  have sch: "fld demo_review_event ''schedule'' = demo_schedule" "is_true_value demo_schedule"
    by (simp_all add: demo_review_event_def demo_schedule_def)
  show "fst demo_written = Ok demo_review_event" "rt_reminders (snd demo_written) = []"
    "map_of (rt_schedules (snd demo_written)) (digest_text demo_sha []) = Some (stringify demo_schedule)"
    by (simp_all add: demo_written_def review_write_cases [OF c i] empty_reviews_def transaction_def review_schedule_def demo_build_def demo_new_event
      store_event_def t Let_def sch insert_event_def put_schedule_def demo_schedule_def assignee_of_def demo_person_def insert_assignee_def notify_def)
qed

text \<open>\<open>event_text\<close> and the rest evaluated once; the witnesses repeat the write and the reminder.\<close>

lemma repeated_review_writes_return_the_event_witness:
  "\<exists>e'. review_write demo_sha demo_real demo_reviewer (digest_text demo_sha []) demo_input demo_build (js ''review-2'') demo_instant (snd demo_written) =
     (Ok e', snd demo_written) \<and> (e' = demo_review_event \<or> json_parse demo_real (stringify demo_review_event) = Some e')"
proof -
  have "review_write demo_sha demo_real demo_reviewer (digest_text demo_sha []) demo_input demo_build (js ''review-1'') demo_instant empty_reviews =
      (Ok demo_review_event, snd demo_written)"
    using demo_written(1) unfolding demo_written_def by (metis prod.collapse)
  from repeated_review_writes_return_the_event [OF this review_run.here] show ?thesis .
qed

definition demo_candidate :: candidate where
  "demo_candidate = \<lparr>ca_schedule = demo_schedule, ca_person = (js ''org1'', js ''bot''), ca_phase = js ''due'', ca_position = []\<rparr>"

definition demo_reminded :: "bool rres \<times> review_tables" where
  "demo_reminded = record_reminder demo_sha demo_real demo_candidate demo_instant (snd demo_written)"

lemma demo_reminded: "fst demo_reminded = Ok True"
proof -
  have sel: "text_value (fld demo_schedule ''revision_digest'') = digest_text demo_sha []" by (simp add: demo_schedule_def)
  have "schedule_from demo_real (stringify demo_schedule) (digest_text demo_sha []) = Ok demo_schedule"
    using demo_schedule_ok by (simp add: schedule_from_def demo_event_parse)
  then have found: "review_schedule demo_real (digest_text demo_sha []) (snd demo_written) = Ok (Some demo_schedule)"
    by (simp add: review_schedule_def demo_written)
  have due: "still_due demo_candidate demo_schedule demo_instant"
    by (simp add: still_due_def demo_candidate_def demo_schedule_def assigned_to_def demo_person_def) (simp add: demo_instant_def js_def)
  have "canon_ok (JArr [JStr (digest_text demo_sha []), JNum (NInt 1), obj [(''org_id'', JStr (js ''org1'')), (''actor_id'', JStr (js ''bot''))], JStr (js ''due'')]) 0"
    using token_valid_unicode [OF is_digest_token [OF demo_sha_digest]] by (simp add: canon_ok_obj max_safe_def)
  then obtain c where "canonicalize (JArr [JStr (digest_text demo_sha []), JNum (NInt 1), obj [(''org_id'', JStr (js ''org1'')), (''actor_id'', JStr (js ''bot''))], JStr (js ''due'')]) = Ok c"
    using canonicalize_Ok_iff by blast
  then have "\<exists>i. reminder_id demo_sha (digest_text demo_sha []) demo_candidate = Ok i"
    by (simp add: reminder_id_def demo_candidate_def demo_schedule_def)
  then show ?thesis using due
    by (auto simp: demo_reminded_def record_reminder_def transaction_def sel found demo_written Let_def demo_candidate_def)
qed

lemma nobody_is_reminded_twice_witness:
  "snd (record_reminder demo_sha demo_real demo_candidate demo_instant (snd demo_reminded)) = snd demo_reminded \<and>
   fst (record_reminder demo_sha demo_real demo_candidate demo_instant (snd demo_reminded)) \<noteq> Ok True"
proof -
  have "record_reminder demo_sha demo_real demo_candidate demo_instant (snd demo_written) = (Ok True, snd demo_reminded)"
    using demo_reminded unfolding demo_reminded_def by (metis prod.collapse)
  from nobody_is_reminded_twice [OF this review_run.here, of demo_instant] show ?thesis by blast
qed

end
