(* ===== verification/Spec2Isabelle.thy ===== *)
theory Spec2Isabelle
  imports Durability RevisionDiff SearchCache DurableReads DeliverySafety AdoptionCounts ReviewSafety
begin

text \<open>
  Verification of Knowledger, a consensus ledger for shared documents (TypeScript). Organisations
  publish immutable document revisions to a channel, propose a revision for a slot, their named
  representatives decide on it, and an agreement puts it in force; agreements end by supersession,
  withdrawal or suspension. The engine is \<open>src/packages/domain/index.ts\<close>. It runs inside a local
  SQLite ledger or inside Fabric chaincode; in the second case every installation follows the blocks
  of the channel with a projector, keeps them in a SQLite journal and answers from it. Around the
  ledger stand the review workflow (events, reminders, deliveries between installations) and a
  measurement of the adoption.

  Data. Strings are lists of UTF-16 code units (\<open>JsText\<close>), JSON values a datatype with the numbers
  that canonicalization distinguishes (\<open>Json\<close>), bytes lists of naturals, tables lists of rows, errors
  the \<open>Err\<close> case of a result type (\<open>Prelude\<close>) with an error type per module. What the code takes from
  outside is a parameter of the definitions: \<open>sha\<close> (SHA-256), \<open>real\<close> (how JSON.parse reads numbers
  that are no integers), \<open>protos\<close> (the protobuf decoders), \<open>collate\<close> (\<open>localeCompare\<close> as a sort key), and
  the current time, fresh tokens and the outcomes of calls to other systems as arguments. The theorems
  assume nothing of them, except where a statement names it: the documented shape of SHA-256
  (\<open>hex_sha\<close>), or that it does not collide on two given texts.

  The engine, \<open>packages/domain/index.ts\<close>:
  \<^item> \<open>Json\<close>, \<open>Uri\<close>, \<open>Keys\<close>: canonical JSON, \<open>encodeURIComponent\<close>, \<open>stateKey\<close>, \<open>keyFor\<close>, \<open>slotKey\<close>; keys of
    different kinds or parts never collide.
  \<^item> \<open>Asserts\<close>, \<open>Records\<close>, \<open>Validate\<close>: the checks, the record types and their validators. \<open>Codec\<close> and
    \<open>CodecRecords\<close> state once, as a locale, what a validator promises of its record type, and
    interpret it for every record: it accepts exactly the encodings of well-formed records.
  \<^item> \<open>World\<close>: the transaction context (\<open>get\<close>, \<open>put\<close>, staged writes); its interface is a locale.
  \<^item> \<open>Publish\<close>, \<open>Govern\<close>, \<open>Engine\<close>: the commands \<open>publish_revision\<close>, \<open>propose\<close>, \<open>decide\<close>, \<open>activate\<close>,
    \<open>withdraw\<close>, \<open>suspend\<close>, \<open>fence\<close>, the dispatcher with its idempotency records, and \<open>bootstrap\<close>. The part
    of a handler before its first write is a separate \<open>..._check\<close> function.
  \<^item> \<open>Resolve\<close>: \<open>resolveAt\<close>, \<open>resolveInternal\<close>, \<open>validateAgreementApprovals\<close>.
  \<^item> \<open>Ledger\<close>, \<open>LedgerInv\<close>: the abstract specification, a ledger of typed records with its transitions,
    and the invariant they keep. \<open>Represent\<close>, \<open>Resolution\<close>, \<open>Simulation\<close>, \<open>Reach\<close>: a store represents a
    ledger, and every successful commit is one transition, so every reachable store represents a
    ledger with the invariant. \<open>History\<close>, \<open>Liveness\<close>, \<open>Idempotency\<close>: how ledgers evolve, which commands
    must be accepted, retries. \<open>Demo\<close>, \<open>Guarantees\<close>: a concrete history and the theorems of the engine.

  The local ledger, \<open>packages/storage/state-validation.ts\<close> and \<open>local-ledger.ts\<close>:
  \<^item> \<open>StateCheck\<close>, \<open>StoredCheck\<close>, \<open>StoredOutcomes\<close>: \<open>validateStateWrite\<close> and \<open>validateStateLinks\<close>; what the
    engine stores passes both, but for the size limit of a write, which the engine does not know. \<open>JsonText\<close>: \<open>JSON.parse\<close>, \<open>parseStrictJson\<close>, and round trips with canonical text.
  \<^item> \<open>LocalLedger\<close>: journal, derived tables, replay and transactions; \<open>PlainWrites\<close>, \<open>LedgerReplay\<close>: replaying
    the journal rebuilds the tables, and the ledger refines the engine; \<open>LedgerDemo\<close>, \<open>Durability\<close>: a run
    of it and the theorems.

  Fabric, \<open>packages/fabric\<close>:
  \<^item> \<open>Bytes\<close>, \<open>Chaincode\<close>, \<open>ChaincodeSafety\<close>: UTF-8 and \<open>chaincode.ts\<close> over a stub, and that the channel's
    bytes refine the engine. The stub says which keys a call reads and when, since the engine's model
    does not record it: a call fails if one of these reads does, and the theorems hold for all of them.
  \<^item> \<open>Projector\<close>, \<open>ProjectorSafety\<close>: \<open>block-projector.ts\<close>; a projector that accepted the blocks shows what the
    channel stores.
  \<^item> \<open>BrowseIndex\<close>, \<open>BrowseSafety\<close>: \<open>packages/storage/browse-index.ts\<close>; every query answers from the
    committed writes, whatever preparations overlap.
  \<^item> \<open>DurableProjection\<close>, \<open>DurableSafety\<close>, \<open>DurableReads\<close>: \<open>sqlite-projection.ts\<close> and
    \<open>journal-verification.ts\<close>; the tables may be damaged at any time, and a read that returns still
    returns what the accepted blocks wrote.

  Around the ledger:
  \<^item> \<open>RevisionDiff\<close> (\<open>apps/web/revision-diff.js\<close>): minimal line differences. \<open>SearchCache\<close>
    (\<open>apps/api/search-matches.ts\<close>): a bounded cache that is never stale.
  \<^item> \<open>ReviewBase\<close>, \<open>ReviewRecords\<close>, \<open>ReviewSafety\<close> (\<open>packages/storage/review-store.ts\<close>): review events,
    schedules and reminders. \<open>ReviewDelivery\<close>, \<open>DeliverySafety\<close>
    (\<open>packages/review/delivery-contract.ts\<close>, \<open>delivery-worker.ts\<close>, \<open>packages/storage/review-delivery-store.ts\<close>):
    leases, retries and receipts under any interleaving.
  \<^item> \<open>Adoption\<close>, \<open>AdoptionCounts\<close> (\<open>packages/measurement/adoption.ts\<close>): the measurement counts exactly what
    the ledger holds.

  Bounds. The dependency walks recurse on \<open>9 - depth\<close> because the code refuses depths above eight, so
  the model terminates for the same reason as the code and needs no fuel; loops over tables, blocks
  and texts recurse on the list. Integers are unbounded where the code checks \<open>isSafeInteger\<close>, with the
  check written out.

  Concurrency. Operations that the code awaits are separate steps of a run (\<open>delivery_run\<close>,
  \<open>browse_run\<close>, \<open>durable_run\<close>): the theorems quantify over every order of the steps.

  Simplifications. An object's members keep the order of the text or of the insertion, also where
  JavaScript enumerates integer-like names first; canonical texts, which are sorted, do not depend on
  it. A transaction of the local ledger fails on any unreadable row, whether or not the handler reads
  it; no state of a run has such a row. The operation id of a review write binds only as a string,
  which the services in front of it check.

  Not modelled. The HTTP server and its services (\<open>apps/api\<close>), the user interface and the clients are
  compositions of the modelled operations with input and output. Certificates, remote signing,
  identity providers and the runtime snapshots rest on cryptography, sockets and the file system. The
  connectors and the embeddings are calls to other systems. Accessors, symbols, prototypes and cycles
  of in-memory objects cannot occur in a value that came from JSON. The manifest lists every part.
\<close>

end
